(* ===== verification/Prelude.thy ===== *)
theory Prelude
  imports Main "HOL-Library.Word"
begin

text \<open>
  Shared vocabulary of the development: the machine integer types of the C++ code, byte
  strings, in-place writes into a byte buffer, and the little-endian image of a word. The
  collections \<open>bytes_simps\<close> and \<open>stream_simps\<close> gather the rewrite rules that the component
  theories use.
\<close>

unbundle bit_operations_syntax

section \<open>Machine integers and byte strings\<close>

type_synonym u8 = "8 word"
type_synonym u16 = "16 word"
type_synonym u32 = "32 word"
type_synonym u64 = "64 word"
type_synonym bytes = "u8 list"

named_theorems bytes_simps \<open>length and content of byte buffers\<close>
named_theorems stream_simps \<open>effect of the stream operations\<close>

section \<open>Writing into a buffer\<close>

text \<open>
  \<open>blit buf off src\<close> is the buffer after \<open>memcpy(buf + off, src, |src|)\<close>. The code checks the
  room before every copy; the lemmas carry that check as a premise.
\<close>

definition blit :: "'a list \<Rightarrow> nat \<Rightarrow> 'a list \<Rightarrow> 'a list" where
  "blit buf off src = take off buf @ src @ drop (off + length src) buf"

lemma length_blit [simp, bytes_simps]:
  "off + length src \<le> length buf \<Longrightarrow> length (blit buf off src) = length buf"
  by (simp add: blit_def)

lemma take_blit_before [simp, bytes_simps]:
  "n \<le> off \<Longrightarrow> off \<le> length buf \<Longrightarrow> take n (blit buf off src) = take n buf"
  by (simp add: blit_def)

lemma take_blit_upto [simp, bytes_simps]:
  "off \<le> length buf \<Longrightarrow> take (off + length src) (blit buf off src) = take off buf @ src"
  by (simp add: blit_def)

lemma drop_blit_beyond [simp, bytes_simps]:
  assumes "off + length src \<le> n" "off \<le> length buf"
  shows "drop n (blit buf off src) = drop n buf"
proof -
  have "drop n (blit buf off src) = drop (n - off) (src @ drop (off + length src) buf)"
    using assms by (simp add: blit_def min_def)
  also have "\<dots> = drop (n - off - length src) (drop (off + length src) buf)"
    using assms by simp
  also have "\<dots> = drop n buf"
    using assms by (simp add: add.commute add.left_commute)
  finally show ?thesis .
qed

lemma blit_slice [simp, bytes_simps]:
  "off \<le> length buf \<Longrightarrow> take (length src) (drop off (blit buf off src)) = src"
  by (simp add: blit_def)

lemma blit_Nil [simp, bytes_simps]: "blit buf off [] = buf"
  by (simp add: blit_def)

lemma blit_blit_adjacent [bytes_simps]:
  assumes "off + length xs + length ys \<le> length buf"
  shows "blit (blit buf off xs) (off + length xs) ys = blit buf off (xs @ ys)"
proof -
  have "drop (off + length xs + length ys) (blit buf off xs)
      = drop (off + length xs + length ys) buf"
    using assms by (intro drop_blit_beyond) auto
  moreover have "take (off + length xs) (blit buf off xs) = take off buf @ xs"
    using assms by (intro take_blit_upto) auto
  ultimately show ?thesis
    using assms
    unfolding blit_def [of "blit buf off xs"] blit_def [of buf off "xs @ ys"]
    by (simp add: add.assoc)
qed

lemma blit_whole [simp, bytes_simps]: "length src = length buf \<Longrightarrow> blit buf 0 src = src"
  by (simp add: blit_def)

lemma take_drop_join: "take j (drop k xs) @ drop (k + j) xs = drop k xs"
  by (metis add.commute append_take_drop_id drop_drop)

lemma list_update_differs:
  "i < length xs \<Longrightarrow> b \<noteq> xs ! i \<Longrightarrow> xs[i := b] \<noteq> xs"
  by (metis nth_list_update_eq)

section \<open>Little-endian image of a word\<close>

text \<open>
  \<open>le_bytes n w\<close> lists the \<open>n\<close> low bytes of a word, least significant first, and \<open>le_word\<close>
  reads such a list back.
\<close>

definition le_bytes :: "nat \<Rightarrow> 'a::len word \<Rightarrow> bytes" where
  "le_bytes n w = map (\<lambda>i. ucast (drop_bit (8 * i) w)) [0..<n]"

fun le_word :: "bytes \<Rightarrow> 'a::len word" where
  "le_word [] = 0"
| "le_word (b # bs) = ucast b OR push_bit 8 (le_word bs)"

lemma length_le_bytes [simp, bytes_simps]: "length (le_bytes n w) = n"
  by (simp add: le_bytes_def)

lemma le_bytes_nth: "i < n \<Longrightarrow> le_bytes n w ! i = ucast (drop_bit (8 * i) w)"
  by (simp add: le_bytes_def)

lemma bit_le_word:
  "bit (le_word bs :: 'a::len word) k
     \<longleftrightarrow> k < LENGTH('a) \<and> k div 8 < length bs \<and> bit (bs ! (k div 8)) (k mod 8)"
proof (induction bs arbitrary: k)
  case Nil
  then show ?case by simp
next
  case (Cons b bs)
  show ?case
  proof (cases "k < 8")
    case True
    then show ?thesis
      by (auto simp: bit_simps dest: bit_imp_le_length)
  next
    case False
    then have "k div 8 = Suc ((k - 8) div 8)" "k mod 8 = (k - 8) mod 8"
      by (auto simp: le_div_geq le_mod_geq not_less)
    with False show ?thesis
      by (auto simp: bit_simps Cons.IH dest: bit_imp_le_length)
  qed
qed

lemma le_word_le_bytes:
  fixes w :: "'a::len word"
  assumes "LENGTH('a) = 8 * n"
  shows "le_word (le_bytes n w) = w"
proof (rule bit_word_eqI)
  fix k
  assume k: "k < LENGTH('a)"
  then have "k div 8 < n" using assms by simp
  then show "bit (le_word (le_bytes n w) :: 'a word) k = bit w k"
    using k by (simp add: bit_le_word le_bytes_nth bit_simps)
qed

lemma le_bytes_le_word:
  assumes "LENGTH('a) = 8 * length bs"
  shows "le_bytes (length bs) (le_word bs :: 'a::len word) = bs"
proof (rule nth_equalityI)
  fix i
  assume "i < length (le_bytes (length bs) (le_word bs :: 'a word))"
  then have i: "i < length bs" by simp
  show "le_bytes (length bs) (le_word bs :: 'a word) ! i = bs ! i"
  proof (rule bit_word_eqI)
    fix k :: nat
    assume "k < LENGTH(8)"
    then have k: "k < 8" by simp
    have "(8 * i + k) div 8 = i" "(8 * i + k) mod 8 = k"
      using k by simp_all
    moreover have "8 * i + k < LENGTH('a)"
      using i k assms by simp
    ultimately show "bit (le_bytes (length bs) (le_word bs :: 'a word) ! i) k = bit (bs ! i) k"
      using i k by (simp add: le_bytes_nth bit_simps bit_le_word)
  qed
qed simp

lemma le_bytes_inject:
  fixes v w :: "'a::len word"
  assumes "LENGTH('a) = 8 * n" and "le_bytes n v = le_bytes n w"
  shows "v = w"
  using assms by (metis le_word_le_bytes)

end
