(* ===== verification/Text.thy ===== *)
theory Text
  imports Prelude "HOL-Library.Char_ord"
begin

text \<open>
  Text as the C++ code handles it: a \<open>std::string_view\<close> is a list of characters, a position is a
  natural number and \<open>npos\<close> is \<open>None\<close>. The parts of the C++ standard library that the code
  relies on for text are modelled here: \<open>find\<close>, \<open>substr\<close>, decimal \<open>std::to_chars\<close> and
  \<open>std::from_chars\<close> on integers. \<open>split\<close> is the mathematical notion of comma separation that the
  tokenizers are compared with.
\<close>

section \<open>Characters\<close>

definition code :: "char \<Rightarrow> nat" where "code c = of_char c"
definition byte_of :: "char \<Rightarrow> u8" where "byte_of c = word_of_nat (code c)"

lemma code_less [simp]: "code c < 256"
  by (simp add: code_def)

lemma code_inject [simp]: "code c = code d \<longleftrightarrow> c = d"
  by (simp add: code_def)

lemma unat_byte_of [simp]: "unat (byte_of c) = code c"
  by (simp add: byte_of_def unsigned_of_nat take_bit_nat_eq_self)

lemma byte_of_inject [simp]: "byte_of c = byte_of d \<longleftrightarrow> c = d"
  by (metis unat_byte_of code_inject)

definition in_chars :: "char \<Rightarrow> char \<Rightarrow> char \<Rightarrow> bool" where
  "in_chars a b c \<longleftrightarrow> code a \<le> code c \<and> code c \<le> code b"

section \<open>Searching and slicing\<close>

fun find_char :: "char \<Rightarrow> string \<Rightarrow> nat option" where
  "find_char c [] = None"
| "find_char c (x # xs) = (if x = c then Some 0 else map_option Suc (find_char c xs))"

text \<open>\<open>s.find(c, pos)\<close>; \<open>s.substr(pos, n)\<close> for positions inside the string.\<close>

definition str_find :: "char \<Rightarrow> string \<Rightarrow> nat \<Rightarrow> nat option" where
  "str_find c s pos =
     (if pos > length s then None else map_option (\<lambda>k. pos + k) (find_char c (drop pos s)))"

definition substr :: "string \<Rightarrow> nat \<Rightarrow> nat \<Rightarrow> string" where
  "substr s pos n = take n (drop pos s)"

lemma find_char_None: "find_char c s = None \<longleftrightarrow> c \<notin> set s"
  by (induction s) auto

lemma find_char_Some: "find_char c s = Some k \<longleftrightarrow> k < length s \<and> s ! k = c \<and> c \<notin> set (take k s)"
proof (induction s arbitrary: k)
  case Nil
  then show ?case by simp
next
  case (Cons x xs)
  then show ?case by (cases k) auto
qed

lemma find_char_append: "c \<notin> set xs \<Longrightarrow> find_char c (xs @ c # ys) = Some (length xs)"
  by (induction xs) auto

section \<open>Comma separation\<close>

fun split :: "char \<Rightarrow> string \<Rightarrow> string list" where
  "split c [] = [[]]"
| "split c (x # xs) =
     (if x = c then [] # split c xs
      else case split c xs of [] \<Rightarrow> [[x]] | w # ws \<Rightarrow> (x # w) # ws)"

definition join :: "char \<Rightarrow> string list \<Rightarrow> string" where
  "join c ws = concat (map (\<lambda>w. c # w) ws)"

lemma split_not_Nil [simp]: "split c s \<noteq> []"
  by (induction s) (auto split: list.splits)

lemma length_split: "length (split c s) = Suc (length (filter (\<lambda>x. x = c) s))"
  by (induction s) (auto split: list.splits)

lemma split_no_sep: "c \<notin> set s \<Longrightarrow> split c s = [s]"
  by (induction s) auto

lemma split_append_sep: "c \<notin> set w \<Longrightarrow> split c (w @ c # s) = w # split c s"
  by (induction w) auto

lemma split_find:
  "split c s = (case find_char c s of None \<Rightarrow> [s] | Some k \<Rightarrow> take k s # split c (drop (Suc k) s))"
proof (cases "find_char c s")
  case None
  then have "c \<notin> set s" by (simp add: find_char_None)
  with None show ?thesis by (simp add: split_no_sep)
next
  case (Some k)
  then have k: "k < length s" "s ! k = c" "c \<notin> set (take k s)"
    by (simp_all add: find_char_Some)
  then have "s = take k s @ c # drop (Suc k) s"
    by (metis id_take_nth_drop)
  then have "split c s = take k s # split c (drop (Suc k) s)"
    using split_append_sep [OF k(3), of "drop (Suc k) s"] by simp
  then show ?thesis using Some by simp
qed

lemma split_parts: "w \<in> set (split c s) \<Longrightarrow> c \<notin> set w \<and> set w \<subseteq> set s"
proof (induction s arbitrary: w)
  case IH: (Cons x xs)
  show ?case
  proof (cases "split c xs")
    case Nil
    then show ?thesis by simp
  next
    case (Cons v vs)
    then have "c \<notin> set v \<and> set v \<subseteq> set xs" "u \<in> set vs \<Longrightarrow> c \<notin> set u \<and> set u \<subseteq> set xs" for u
      using IH.IH Cons by simp_all
    then show ?thesis using IH.prems Cons by (auto split: if_splits)
  qed
qed simp

lemma join_Cons: "join c (w # ws) = c # w @ join c ws"
  by (simp add: join_def)

lemma join_simps [simp]: "join c [] = []" "join c (ws @ [w]) = join c ws @ c # w"
  by (simp_all add: join_def)

lemma split_join:
  assumes "\<forall>w \<in> set (w # ws). c \<notin> set w"
  shows "split c (w @ join c ws) = w # ws"
  using assms
proof (induction ws arbitrary: w)
  case Nil
  then show ?case by (simp add: split_no_sep)
next
  case (Cons v vs)
  then show ?case by (simp add: join_Cons split_append_sep)
qed

section \<open>Decimal numbers\<close>

definition is_digit :: "char \<Rightarrow> bool" where "is_digit c \<longleftrightarrow> in_chars CHR ''0'' CHR ''9'' c"
definition digit_val :: "char \<Rightarrow> nat" where "digit_val c = code c - 48"
definition digit_char :: "nat \<Rightarrow> char" where "digit_char d = char_of (48 + d)"

lemma digit_char [simp]: "d < 10 \<Longrightarrow> is_digit (digit_char d)" "d < 10 \<Longrightarrow> digit_val (digit_char d) = d"
  by (simp_all add: is_digit_def in_chars_def digit_val_def digit_char_def code_def)

fun show_nat :: "nat \<Rightarrow> string" where
  "show_nat n = (if n < 10 then [digit_char n] else show_nat (n div 10) @ [digit_char (n mod 10)])"

declare show_nat.simps [simp del]

definition show_int :: "int \<Rightarrow> string" where
  "show_int v = (if v < 0 then CHR ''-'' # show_nat (nat (- v)) else show_nat (nat v))"

definition nat_of_digits :: "string \<Rightarrow> nat" where
  "nat_of_digits s = foldl (\<lambda>a c. 10 * a + digit_val c) 0 s"

lemma nat_of_digits_snoc [simp]: "nat_of_digits (s @ [c]) = 10 * nat_of_digits s + digit_val c"
  by (simp add: nat_of_digits_def)

lemma show_nat_digits: "list_all is_digit (show_nat n)"
proof (induction n rule: show_nat.induct)
  case (1 n)
  then show ?case by (simp add: show_nat.simps [of n])
qed

lemma nat_of_digits_show [simp]: "nat_of_digits (show_nat n) = n"
proof (induction n rule: show_nat.induct)
  case (1 n)
  then show ?case by (auto simp: show_nat.simps [of n] nat_of_digits_def [of "[_]"])
qed

lemma show_nat_not_Nil [simp]: "show_nat n \<noteq> []"
  by (simp add: show_nat.simps)

lemma length_show_nat: "n < 10 ^ k \<Longrightarrow> 0 < k \<Longrightarrow> length (show_nat n) \<le> k"
proof (induction k arbitrary: n)
  case (Suc k)
  then show ?case
    by (cases k) (auto simp: show_nat.simps [of n] div_less_iff_less_mult)
qed simp

datatype errc = NoErrc | InvalidArgument | OutOfRange

text \<open>
  \<open>std::from_chars\<close> on an integer type with values \<open>lo..hi\<close>: an optional minus sign when the
  type is signed, then the longest run of digits. The result is the error code, the number of
  characters consumed and the value, if one is stored.
\<close>

definition from_chars :: "int \<Rightarrow> int \<Rightarrow> string \<Rightarrow> errc \<times> nat \<times> int option" where
  "from_chars lo hi s =
     (let neg = (lo < 0 \<and> s \<noteq> [] \<and> hd s = CHR ''-'');
          body = (if neg then tl s else s);
          ds = takeWhile is_digit body;
          value = (if neg then - int (nat_of_digits ds) else int (nat_of_digits ds));
          n = length ds + (if neg then 1 else 0)
      in if ds = [] then (InvalidArgument, 0, None)
         else if value < lo \<or> hi < value then (OutOfRange, n, None)
         else (NoErrc, n, Some value))"

lemma takeWhile_all: "list_all p xs \<Longrightarrow> takeWhile p xs = xs"
  by (simp add: list_all_iff takeWhile_eq_all_conv)

lemma show_nat_hd: "is_digit (hd (show_nat n))"
  using show_nat_digits [of n] by (cases "show_nat n") auto

lemma minus_not_digit [simp]: "\<not> is_digit CHR ''-''"
  by (simp add: is_digit_def in_chars_def code_def)

lemma from_chars_show:
  assumes "lo \<le> v" "v \<le> hi" "v < 0 \<longrightarrow> lo < 0"
  shows "from_chars lo hi (show_int v) = (NoErrc, length (show_int v), Some v)"
proof (cases "v < 0")
  case True
  then show ?thesis
    using assms by (simp add: from_chars_def show_int_def takeWhile_all show_nat_digits Let_def)
next
  case False
  then have "hd (show_nat (nat v)) \<noteq> CHR ''-''"
    using show_nat_hd [of "nat v"] minus_not_digit by metis
  then show ?thesis
    using assms False
    by (simp add: from_chars_def show_int_def takeWhile_all show_nat_digits Let_def)
qed

lemma show_int_not_Nil [simp]: "show_int v \<noteq> []"
  by (simp add: show_int_def)

lemma digit_range: "is_digit c \<Longrightarrow> 48 \<le> code c \<and> code c \<le> 57"
  by (simp add: is_digit_def in_chars_def code_def)

lemma show_int_avoids:
  assumes "code c < 48 \<or> 57 < code c" "c \<noteq> CHR ''-''"
  shows "c \<notin> set (show_int v)"
proof -
  have "c \<notin> set (show_nat n)" for n
    using show_nat_digits [of n] digit_range [of c] assms(1) by (auto simp: list_all_iff)
  then show ?thesis using assms(2) by (simp add: show_int_def)
qed

end
