(* ===== verification/Checksum.thy ===== *)
theory Checksum
  imports Prelude
begin

text \<open>
  The contract of an integrity check as its clients use it: replacing one byte (or character) of a message
  changes the check value. \<open>burst_checksum\<close> adds the same promise for two adjacent bytes. The
  frame codec needs the stronger contract (CRC-16), the NMEA sentences the weaker one (XOR).
\<close>

locale checksum =
  fixes chk :: "'b list \<Rightarrow> 'c"
  assumes chk_byte: "b \<noteq> b' \<Longrightarrow> chk (pre @ b # post) \<noteq> chk (pre @ b' # post)"
begin

lemma chk_update:
  assumes "i < length bs" and "b \<noteq> bs ! i"
  shows "chk (bs[i := b]) \<noteq> chk bs"
proof -
  have upd: "bs[i := b] = take i bs @ b # drop (Suc i) bs"
    using assms(1) by (rule upd_conv_take_nth_drop)
  have same: "bs = take i bs @ bs ! i # drop (Suc i) bs"
    using assms(1) by (rule id_take_nth_drop)
  show ?thesis
    using chk_byte [OF assms(2), of "take i bs" "drop (Suc i) bs"] upd same by metis
qed

lemma accepted_update_is_identity:
  assumes "i < length bs" and "chk (bs[i := b]) = chk bs"
  shows "bs[i := b] = bs"
proof (cases "b = bs ! i")
  case True
  then show ?thesis by simp
next
  case False
  then show ?thesis using chk_update [OF assms(1)] assms(2) by blast
qed

end

locale burst_checksum = checksum +
  assumes chk_pair:
    "(a, b) \<noteq> (a', b') \<Longrightarrow> chk (pre @ a # b # post) \<noteq> chk (pre @ a' # b' # post)"
begin

lemma chk_update_pair:
  assumes "Suc i < length bs" and "(a, b) \<noteq> (bs ! i, bs ! Suc i)"
  shows "chk (bs[i := a, Suc i := b]) \<noteq> chk bs"
proof -
  have same: "bs = take i bs @ bs ! i # bs ! Suc i # drop (Suc (Suc i)) bs"
    using assms(1) by (simp add: Cons_nth_drop_Suc)
  have upd: "bs[i := a, Suc i := b] = take i bs @ a # b # drop (Suc (Suc i)) bs"
    by (subst same) (use assms(1) in \<open>simp add: list_update_append\<close>)
  show ?thesis
    using chk_pair [OF assms(2), of "take i bs" "drop (Suc (Suc i)) bs"] upd same by metis
qed

end

end
