(* ===== verification/NmeaTokenizer.thy ===== *)
theory NmeaTokenizer
  imports Text Checksum
begin

text \<open>
  \<open>Common/src/NMEATokenizer.cpp\<close> with \<open>Common/include/NMEATokenizer.h\<close> and
  \<open>NMEAParseStatus.h\<close>: framing and checksum of one NMEA sentence and the forward iterator over its
  fields. A string view is its characters; the address of the payload, which iterator equality
  compares, is kept beside it (\<open>None\<close> for the null pointer of an empty view).
\<close>

section \<open>Status\<close>

datatype NmeaParseErrorCode =
  NmeaOk | EmptyInput | MissingStartDelimiter | MissingChecksumDelimiter | MissingChecksumValue
| InvalidChecksumValue | MissingIdentifier | InvalidIdentifierLength | AlreadyFinalized
| OutputBufferTooSmall | FieldMissing | FieldEmpty | InvalidInteger | IntegerOutOfRange
| InvalidDouble | InvalidChar

record NmeaParseStatus =
  ns_code :: NmeaParseErrorCode
  ns_fieldIndex :: nat
  ns_context :: string

definition nmea_ok :: NmeaParseStatus where
  "nmea_ok = \<lparr>ns_code = NmeaOk, ns_fieldIndex = 0, ns_context = []\<rparr>"

definition ns_ok :: "NmeaParseStatus \<Rightarrow> bool" where "ns_ok st \<longleftrightarrow> ns_code st = NmeaOk"

section \<open>Field iterator\<close>

record FieldIterator =
  it_data :: "nat option"
  it_payload :: string
  it_start :: nat
  it_next :: nat
  it_atEnd :: bool
  it_current :: string

definition computeCurrent :: "FieldIterator \<Rightarrow> FieldIterator" where
  "computeCurrent it =
     (if it_start it > length (it_payload it) then it\<lparr>it_atEnd := True, it_current := []\<rparr>
      else case str_find CHR '','' (it_payload it) (it_start it) of
        None \<Rightarrow> it\<lparr>it_current := drop (it_start it) (it_payload it),
                  it_next := length (it_payload it) + 1\<rparr>
      | Some comma \<Rightarrow> it\<lparr>it_current := substr (it_payload it) (it_start it) (comma - it_start it),
                         it_next := comma + 1\<rparr>)"

definition FieldIterator :: "nat option \<Rightarrow> string \<Rightarrow> nat \<Rightarrow> bool \<Rightarrow> FieldIterator" where
  "FieldIterator data payload start atEnd =
     (let it = \<lparr>it_data = data, it_payload = payload, it_start = start, it_next = 0,
                it_atEnd = atEnd, it_current = []\<rparr>
      in if \<not> atEnd then computeCurrent it else it)"

definition it_deref :: "FieldIterator \<Rightarrow> string" where "it_deref it = it_current it"

definition it_incr :: "FieldIterator \<Rightarrow> FieldIterator" where
  "it_incr it =
     (if it_atEnd it then it
      else if it_next it = length (it_payload it) + 1
        then it\<lparr>it_atEnd := True, it_current := []\<rparr>
      else let it1 = it\<lparr>it_start := it_next it\<rparr>
           in if it_start it1 > length (it_payload it1)
              then it1\<lparr>it_atEnd := True, it_current := []\<rparr>
              else computeCurrent it1)"

definition it_equal :: "FieldIterator \<Rightarrow> FieldIterator \<Rightarrow> bool" where
  "it_equal lhs rhs \<longleftrightarrow>
     (if it_atEnd lhs \<and> it_atEnd rhs then True
      else it_atEnd lhs = it_atEnd rhs \<and> it_data lhs = it_data rhs
         \<and> length (it_payload lhs) = length (it_payload rhs) \<and> it_start lhs = it_start rhs)"

section \<open>Tokenizer\<close>

record Tokenizer =
  t_data :: nat
  t_sentence :: string
  t_identifier :: string
  t_payload :: string
  t_payload_data :: "nat option"
  t_hasPayload :: bool
  t_fieldCount :: nat
  t_checksumValid :: bool
  t_status :: NmeaParseStatus

definition isHexDigit :: "char \<Rightarrow> bool" where
  "isHexDigit c \<longleftrightarrow>
     in_chars CHR ''0'' CHR ''9'' c \<or> in_chars CHR ''A'' CHR ''F'' c \<or> in_chars CHR ''a'' CHR ''f'' c"

definition hexValue :: "char \<Rightarrow> int" where
  "hexValue c =
     (if in_chars CHR ''0'' CHR ''9'' c then int (code c) - int (code CHR ''0'')
      else if in_chars CHR ''A'' CHR ''F'' c then 10 + (int (code c) - int (code CHR ''A''))
      else if in_chars CHR ''a'' CHR ''f'' c then 10 + (int (code c) - int (code CHR ''a''))
      else -1)"

definition computeXor :: "string \<Rightarrow> u8" where
  "computeXor s = foldl (\<lambda>v c. v XOR byte_of c) 0 s"

definition is_eol :: "char \<Rightarrow> bool" where "is_eol c \<longleftrightarrow> c = CHR 0x0A \<or> c = CHR 0x0D"

definition strip_eol :: "string \<Rightarrow> string" where
  "strip_eol s = rev (dropWhile is_eol (rev s))"

definition nmea_error :: "Tokenizer \<Rightarrow> NmeaParseErrorCode \<Rightarrow> string \<Rightarrow> Tokenizer" where
  "nmea_error t c context = t\<lparr>t_status := (t_status t)\<lparr>ns_code := c, ns_context := context\<rparr>\<rparr>"

text \<open>The part of \<open>parse\<close> after the checksum digits have been read.\<close>

definition parseBody :: "Tokenizer \<Rightarrow> string \<Rightarrow> Tokenizer" where
  "parseBody t between =
     (if length between < 5 then nmea_error t MissingIdentifier between
      else let t1 = t\<lparr>t_identifier := substr between 0 5\<rparr>
           in if length between = 5
              then t1\<lparr>t_hasPayload := False, t_payload := [], t_payload_data := None,
                      t_fieldCount := 0\<rparr>
              else if between ! 5 \<noteq> CHR '',''
                then nmea_error t1 InvalidIdentifierLength (substr between 0 (min 16 (length between)))
              else let payload = drop 6 between;
                       commas = length (filter (\<lambda>c. c = CHR '','') payload)
                   in t1\<lparr>t_hasPayload := True, t_payload := payload,
                         t_payload_data := Some (t_data t1 + 7), t_fieldCount := commas + 1\<rparr>)"

definition tokenizer_parse :: "Tokenizer \<Rightarrow> Tokenizer" where
  "tokenizer_parse t0 =
     (let t = t0\<lparr>t_identifier := [], t_payload := [], t_payload_data := None,
                t_hasPayload := False, t_fieldCount := 0, t_checksumValid := False,
                t_status := nmea_ok\<rparr>
      in if t_sentence t = [] then nmea_error t EmptyInput []
         else let t1 = t\<lparr>t_sentence := strip_eol (t_sentence t)\<rparr>; sentence = t_sentence t1
              in if sentence = [] then nmea_error t1 EmptyInput []
                 else if hd sentence \<noteq> CHR ''$'' then nmea_error t1 MissingStartDelimiter sentence
                 else case str_find CHR ''*'' sentence 0 of
                   None \<Rightarrow> nmea_error t1 MissingChecksumDelimiter sentence
                 | Some starPos \<Rightarrow>
                     if starPos + 2 \<ge> length sentence
                     then nmea_error t1 MissingChecksumValue (drop starPos sentence)
                     else let h1 = sentence ! (starPos + 1); h2 = sentence ! (starPos + 2)
                          in if \<not> isHexDigit h1 \<or> \<not> isHexDigit h2
                             then nmea_error t1 InvalidChecksumValue
                                    (substr sentence starPos (min 3 (length sentence - starPos)))
                             else let expected = (word_of_int
                                        (push_bit 4 (hexValue h1) OR hexValue h2) :: u8);
                                      between = substr sentence 1 (starPos - 1);
                                      actual = computeXor between
                                  in parseBody (t1\<lparr>t_checksumValid := (actual = expected)\<rparr>) between)"

definition Tokenizer :: "nat \<Rightarrow> string \<Rightarrow> Tokenizer" where
  "Tokenizer data sentence =
     tokenizer_parse \<lparr>t_data = data, t_sentence = sentence, t_identifier = [], t_payload = [],
       t_payload_data = None, t_hasPayload = False, t_fieldCount = 0, t_checksumValid = False,
       t_status = nmea_ok\<rparr>"

definition t_valid :: "Tokenizer \<Rightarrow> bool" where
  "t_valid t \<longleftrightarrow> ns_ok (t_status t) \<and> t_checksumValid t"

definition t_end :: "Tokenizer \<Rightarrow> FieldIterator" where
  "t_end t = FieldIterator (t_payload_data t) (t_payload t) 0 True"

definition t_begin :: "Tokenizer \<Rightarrow> FieldIterator" where
  "t_begin t =
     (if \<not> t_hasPayload t then t_end t else FieldIterator (t_payload_data t) (t_payload t) 0 False)"

section \<open>The fields the iterator walks over\<close>

text \<open>
  An iterator is \<open>on\<close> the suffix of the payload that starts at its field: it shows the first
  field of that suffix, and it knows where the next one starts. The fields it has still to
  show are \<open>split\<close> of the suffix.
\<close>

definition it_on :: "string \<Rightarrow> nat \<Rightarrow> FieldIterator \<Rightarrow> bool" where
  "it_on payload start it \<longleftrightarrow>
     \<not> it_atEnd it \<and> it_payload it = payload \<and> start \<le> length payload \<and> it_start it = start
   \<and> it_current it = hd (split CHR '','' (drop start payload))
   \<and> it_next it = (case find_char CHR '','' (drop start payload) of
                     None \<Rightarrow> length payload + 1 | Some k \<Rightarrow> start + k + 1)"

lemma computeCurrent_on:
  assumes "\<not> it_atEnd it" "it_payload it = payload" "it_start it = start" "start \<le> length payload"
  shows "it_on payload start (computeCurrent it)"
proof (cases "find_char CHR '','' (drop start payload)")
  case None
  then have "hd (split CHR '','' (drop start payload)) = drop start payload"
    by (subst split_find) simp
  then show ?thesis
    using assms None by (simp add: it_on_def computeCurrent_def str_find_def)
next
  case (Some k)
  then have "hd (split CHR '','' (drop start payload)) = take k (drop start payload)"
    by (subst split_find) simp
  then show ?thesis
    using assms Some by (simp add: it_on_def computeCurrent_def str_find_def substr_def)
qed

lemma length_split_1: "length (split c s) = 1 \<longleftrightarrow> find_char c s = None"
  by (subst split_find) (auto split: option.split)

lemma it_incr_last:
  "it_on payload start it \<Longrightarrow> length (split CHR '','' (drop start payload)) = 1 \<Longrightarrow> it_atEnd (it_incr it)"
  by (simp only: length_split_1) (simp add: it_on_def it_incr_def)

lemma it_incr_on:
  assumes on: "it_on payload start it" and more: "length (split CHR '','' (drop start payload)) > 1"
  shows "\<exists>start'. it_on payload start' (it_incr it)
     \<and> split CHR '','' (drop start' payload) = tl (split CHR '','' (drop start payload))"
proof (cases "find_char CHR '','' (drop start payload)")
  case None
  with more show ?thesis by (subst (asm) split_find) simp
next
  case (Some k)
  let ?n = "Suc (start + k)"
  from Some have k: "k < length (drop start payload)" by (simp add: find_char_Some)
  have fields: "split CHR '','' (drop start payload)
      = take k (drop start payload) # split CHR '','' (drop ?n payload)"
    using Some by (subst split_find) (simp add: add.commute add.left_commute)
  have "it_on payload ?n (computeCurrent (it\<lparr>it_start := it_next it\<rparr>))"
    using on k Some by (intro computeCurrent_on) (auto simp: it_on_def)
  moreover have "it_incr it = computeCurrent (it\<lparr>it_start := it_next it\<rparr>)"
    using on k Some by (auto simp: it_incr_def it_on_def Let_def)
  ultimately show ?thesis using fields by (intro exI [of _ ?n]) simp
qed

lemma it_walk:
  assumes "it_on payload start it"
  shows "(k < length (split CHR '','' (drop start payload)) \<longrightarrow>
            \<not> it_atEnd ((it_incr ^^ k) it)
          \<and> it_deref ((it_incr ^^ k) it) = split CHR '','' (drop start payload) ! k)
       \<and> (k = length (split CHR '','' (drop start payload)) \<longrightarrow> it_atEnd ((it_incr ^^ k) it))"
  using assms
proof (induction k arbitrary: start it)
  case 0
  then show ?case by (simp add: it_on_def it_deref_def hd_conv_nth)
next
  case (Suc k)
  let ?fs = "split CHR '','' (drop start payload)"
  show ?case
  proof (cases "length ?fs = 1")
    case True
    then show ?thesis using it_incr_last [OF Suc.prems True] by (simp add: funpow_swap1)
  next
    case False
    then have "1 < length ?fs" using split_not_Nil [of "CHR '',''" "drop start payload"]
      by (cases ?fs) auto
    from it_incr_on [OF Suc.prems this] obtain start' where
      on: "it_on payload start' (it_incr it)" and fs: "split CHR '','' (drop start' payload) = tl ?fs"
      by blast
    then have "?fs = hd ?fs # split CHR '','' (drop start' payload)"
      by (cases ?fs) auto
    then have len: "length ?fs = Suc (length (split CHR '','' (drop start' payload)))"
      and nth: "?fs ! Suc k = split CHR '','' (drop start' payload) ! k"
      by (metis length_Cons, metis nth_Cons_Suc)
    have "(it_incr ^^ Suc k) it = (it_incr ^^ k) (it_incr it)"
      by (simp add: funpow_swap1)
    with Suc.IH [OF on] show ?thesis by (simp only: len nth Suc_less_eq nat.inject)
  qed
qed

section \<open>Checksum\<close>

lemma computeXor_Nil [simp]: "computeXor [] = 0"
  by (simp add: computeXor_def)

lemma foldl_xor: "foldl (\<lambda>v c. v XOR byte_of c) v s = v XOR computeXor s"
proof (induction s arbitrary: v)
  case Nil
  then show ?case by simp
next
  case (Cons c s)
  have "computeXor (c # s) = byte_of c XOR computeXor s"
    by (simp only: computeXor_def [of "c # s"] foldl.simps Cons.IH xor.left_neutral)
  then show ?case by (simp only: foldl.simps Cons.IH xor.assoc)
qed

lemma computeXor_Cons [simp]: "computeXor (c # s) = byte_of c XOR computeXor s"
  using foldl_xor [of "byte_of c" s] by (simp add: computeXor_def)

lemma computeXor_append [simp]: "computeXor (s @ t) = computeXor s XOR computeXor t"
  by (induction s) (simp_all add: xor.assoc)

lemma xor_cancel:
  "(p :: u8) XOR (x XOR q) = p XOR (y XOR q) \<longleftrightarrow> x = y"
proof
  assume "p XOR (x XOR q) = p XOR (y XOR q)"
  then have "p XOR (p XOR (x XOR q)) XOR q = p XOR (p XOR (y XOR q)) XOR q" by (rule arg_cong)
  then show "x = y" by (simp add: xor.assoc)
qed simp

interpretation nmea: checksum computeXor
proof unfold_locales
  fix b b' :: char and pre post :: string
  assume "b \<noteq> b'"
  then have "byte_of b \<noteq> byte_of b'" by simp
  then show "computeXor (pre @ b # post) \<noteq> computeXor (pre @ b' # post)"
    by (simp add: xor_cancel)
qed

section \<open>What the tokenizer accepts\<close>

definition hex_byte :: "char \<Rightarrow> char \<Rightarrow> u8" where
  "hex_byte h1 h2 = word_of_int (push_bit 4 (hexValue h1) OR hexValue h2)"

text \<open>A sentence with its line end removed, taken apart at the first star.\<close>

definition framed :: "string \<Rightarrow> string \<Rightarrow> char \<Rightarrow> char \<Rightarrow> string \<Rightarrow> bool" where
  "framed s body h1 h2 rest \<longleftrightarrow>
     strip_eol s = CHR ''$'' # body @ CHR ''*'' # h1 # h2 # rest \<and> CHR ''*'' \<notin> set body
   \<and> isHexDigit h1 \<and> isHexDigit h2"

definition body_ok :: "string \<Rightarrow> bool" where
  "body_ok body \<longleftrightarrow> length body = 5 \<or> 5 < length body \<and> body ! 5 = CHR '',''"

definition framed_tokenizer :: "nat \<Rightarrow> string \<Rightarrow> bool \<Rightarrow> Tokenizer" where
  "framed_tokenizer d s valid =
     \<lparr>t_data = d, t_sentence = s, t_identifier = [], t_payload = [], t_payload_data = None,
      t_hasPayload = False, t_fieldCount = 0, t_checksumValid = valid, t_status = nmea_ok\<rparr>"

lemma strip_eol_empty [simp]: "strip_eol [] = []"
  by (simp add: strip_eol_def)

lemma Tokenizer_framed:
  assumes "framed s body h1 h2 rest"
  shows "Tokenizer d s
    = parseBody (framed_tokenizer d (strip_eol s) (computeXor body = hex_byte h1 h2)) body"
proof -
  let ?s = "strip_eol s"
  have s: "?s = CHR ''$'' # body @ CHR ''*'' # h1 # h2 # rest" and body: "CHR ''*'' \<notin> set body"
    and hex: "isHexDigit h1" "isHexDigit h2"
    using assms by (auto simp: framed_def)
  then have "s \<noteq> []" by auto
  moreover have "str_find CHR ''*'' ?s 0 = Some (Suc (length body))"
    using body by (simp add: s str_find_def find_char_append)
  ultimately show ?thesis
    using hex
    by (simp add: Tokenizer_def tokenizer_parse_def Let_def s substr_def nth_append hex_byte_def
        framed_tokenizer_def)
qed

lemma parseBody_status:
  assumes "t_status t = nmea_ok"
  shows "ns_ok (t_status (parseBody t body)) \<longleftrightarrow> body_ok body"
  using assms
  by (auto simp: parseBody_def nmea_error_def ns_ok_def nmea_ok_def body_ok_def Let_def)

lemma parseBody_checksum [simp]: "t_checksumValid (parseBody t body) = t_checksumValid t"
  by (simp add: parseBody_def nmea_error_def Let_def)

lemma framed_valid_iff:
  "framed s body h1 h2 rest \<Longrightarrow>
     t_valid (Tokenizer d s) \<longleftrightarrow> body_ok body \<and> computeXor body = hex_byte h1 h2"
  by (simp add: Tokenizer_framed t_valid_def parseBody_status framed_tokenizer_def)

lemma unframed_invalid:
  assumes "ns_ok (t_status (Tokenizer d s)) \<or> t_checksumValid (Tokenizer d s)"
  shows "\<exists>body h1 h2 rest. framed s body h1 h2 rest"
proof -
  let ?s = "strip_eol s"
  have "s \<noteq> []" and ne: "?s \<noteq> []" and dollar: "hd ?s = CHR ''$''"
    using assms
    by (auto simp: Tokenizer_def tokenizer_parse_def nmea_error_def ns_ok_def nmea_ok_def Let_def
        split: if_splits)
  with assms obtain p where p: "str_find CHR ''*'' ?s 0 = Some p"
    by (cases "str_find CHR ''*'' ?s 0")
      (auto simp: Tokenizer_def tokenizer_parse_def nmea_error_def ns_ok_def nmea_ok_def Let_def)
  have room: "p + 2 < length ?s" and hex: "isHexDigit (?s ! (p + 1))" "isHexDigit (?s ! (p + 2))"
    using assms \<open>s \<noteq> []\<close> ne dollar p
    by (auto simp: Tokenizer_def tokenizer_parse_def nmea_error_def ns_ok_def nmea_ok_def Let_def
        split: if_splits)
  from p have star: "?s ! p = CHR ''*''" "CHR ''*'' \<notin> set (take p ?s)"
    by (auto simp: str_find_def find_char_Some)
  obtain c cs where s: "?s = c # cs" using ne by (cases ?s) auto
  then have c: "c = CHR ''$''" using dollar by simp
  from star(1) s c obtain q where q: "p = Suc q" by (cases p) auto
  have "cs = take q cs @ cs ! q # cs ! Suc q # cs ! Suc (Suc q) # drop (Suc (Suc (Suc q))) cs"
    using room s q by (simp add: Cons_nth_drop_Suc)
  then have "framed s (take q cs) (cs ! Suc q) (cs ! Suc (Suc q)) (drop (Suc (Suc (Suc q))) cs)"
    using s c star hex q by (simp add: framed_def)
  then show ?thesis by blast
qed

section \<open>Fields of a parsed sentence\<close>

definition t_fields :: "Tokenizer \<Rightarrow> string list" where
  "t_fields t = (if t_hasPayload t then split CHR '','' (t_payload t) else [])"

lemma it_end_equal: "it_equal it (t_end t) \<longleftrightarrow> it_atEnd it"
  by (simp add: it_equal_def t_end_def FieldIterator_def)

lemma t_begin_on: "t_hasPayload t \<Longrightarrow> it_on (t_payload t) 0 (t_begin t)"
  by (simp add: t_begin_def FieldIterator_def computeCurrent_on)

lemma parseBody_count:
  "t_fieldCount t = 0 \<Longrightarrow> \<not> t_hasPayload t \<Longrightarrow>
     t_fieldCount (parseBody t body) = length (t_fields (parseBody t body))"
  by (simp add: parseBody_def nmea_error_def Let_def t_fields_def length_split)

lemma nmea_error_fields [simp]:
  "t_fieldCount (nmea_error t c w) = t_fieldCount t" "t_fields (nmea_error t c w) = t_fields t"
  "t_hasPayload (nmea_error t c w) = t_hasPayload t"
  by (simp_all add: nmea_error_def t_fields_def)

lemma no_fields [simp]: "\<not> t_hasPayload t \<Longrightarrow> t_fields t = []"
  by (simp add: t_fields_def)

lemma t_fieldCount: "t_fieldCount (Tokenizer d s) = length (t_fields (Tokenizer d s))"
  unfolding Tokenizer_def
  by (simp add: tokenizer_parse_def parseBody_count Let_def split: option.split)

section \<open>Properties\<close>

lemma strip_eol_keep:
  assumes "\<not> is_eol c"
  shows "strip_eol (xs @ c # ys) = xs @ c # strip_eol ys"
proof -
  have "dropWhile is_eol (zs @ c # rev xs) = dropWhile is_eol zs @ c # rev xs" for zs
    using assms by (induction zs) auto
  then show ?thesis by (simp add: strip_eol_def)
qed

text \<open>The tokenizer's verdict, exactly. A sentence is \<open>valid()\<close> if and only if, without trailing
carriage returns and line feeds, it is a dollar sign, a body without a star, a star and two hex
digits (whatever follows them), the two digits denote the XOR of the body, and the body is a
five-character identifier, alone or followed by a comma.\<close>

theorem tokenizer_accepts_exactly:
  "t_valid (Tokenizer d s) \<longleftrightarrow>
     (\<exists>body h1 h2 rest. strip_eol s = CHR ''$'' # body @ CHR ''*'' # h1 # h2 # rest
        \<and> CHR ''*'' \<notin> set body \<and> isHexDigit h1 \<and> isHexDigit h2
        \<and> computeXor body = word_of_int (push_bit 4 (hexValue h1) OR hexValue h2)
        \<and> (length body = 5 \<or> 5 < length body \<and> body ! 5 = CHR '',''))"
proof
  assume valid: "t_valid (Tokenizer d s)"
  then obtain body h1 h2 rest where f: "framed s body h1 h2 rest"
    using unframed_invalid unfolding t_valid_def by blast
  with valid have "body_ok body \<and> computeXor body = hex_byte h1 h2"
    by (simp add: framed_valid_iff)
  with f show "\<exists>body h1 h2 rest. strip_eol s = CHR ''$'' # body @ CHR ''*'' # h1 # h2 # rest
        \<and> CHR ''*'' \<notin> set body \<and> isHexDigit h1 \<and> isHexDigit h2
        \<and> computeXor body = word_of_int (push_bit 4 (hexValue h1) OR hexValue h2)
        \<and> (length body = 5 \<or> 5 < length body \<and> body ! 5 = CHR '','')"
    unfolding framed_def body_ok_def hex_byte_def by blast
next
  assume "\<exists>body h1 h2 rest. strip_eol s = CHR ''$'' # body @ CHR ''*'' # h1 # h2 # rest
        \<and> CHR ''*'' \<notin> set body \<and> isHexDigit h1 \<and> isHexDigit h2
        \<and> computeXor body = word_of_int (push_bit 4 (hexValue h1) OR hexValue h2)
        \<and> (length body = 5 \<or> 5 < length body \<and> body ! 5 = CHR '','')"
  then obtain body h1 h2 rest where "framed s body h1 h2 rest" "body_ok body"
    "computeXor body = hex_byte h1 h2"
    unfolding framed_def body_ok_def hex_byte_def by blast
  then show "t_valid (Tokenizer d s)" by (simp add: framed_valid_iff)
qed

text \<open>The field iterator. For every input, also an invalid one, incrementing \<open>begin()\<close> \<open>k\<close>
times gives, for \<open>k\<close> below \<open>fieldCount()\<close>, an iterator different from \<open>end()\<close> that shows the
\<open>k\<close>-th comma-separated field of the payload, empty fields included, and after \<open>fieldCount()\<close>
increments it equals \<open>end()\<close>; a sentence without payload has no field.\<close>

theorem iterator_yields_fields:
  "(let t = Tokenizer d s;
        fields = (if t_hasPayload t then split CHR '','' (t_payload t) else [])
    in t_fieldCount t = length fields
     \<and> map (\<lambda>k. it_equal ((it_incr ^^ k) (t_begin t)) (t_end t)) [0..<length fields]
         = replicate (length fields) False
     \<and> map (\<lambda>k. it_deref ((it_incr ^^ k) (t_begin t))) [0..<length fields] = fields
     \<and> it_equal ((it_incr ^^ length fields) (t_begin t)) (t_end t))"
proof -
  let ?t = "Tokenizer d s"
  have fields: "t_fields ?t = (if t_hasPayload ?t then split CHR '','' (t_payload ?t) else [])"
    by (simp add: t_fields_def)
  have walk: "(k < length (t_fields ?t) \<longrightarrow> \<not> it_atEnd ((it_incr ^^ k) (t_begin ?t))
            \<and> it_deref ((it_incr ^^ k) (t_begin ?t)) = t_fields ?t ! k)
       \<and> (k = length (t_fields ?t) \<longrightarrow> it_atEnd ((it_incr ^^ k) (t_begin ?t)))" for k
  proof (cases "t_hasPayload ?t")
    case True
    then show ?thesis using it_walk [OF t_begin_on [OF True], of k] by (simp add: fields)
  next
    case False
    then show ?thesis by (simp add: fields t_begin_def t_end_def FieldIterator_def)
  qed
  let ?n = "length (t_fields ?t)"
  have "map (\<lambda>k. it_equal ((it_incr ^^ k) (t_begin ?t)) (t_end ?t)) [0..<?n] = replicate ?n False"
    by (rule nth_equalityI) (use walk in \<open>simp_all add: it_end_equal\<close>)
  moreover have "map (\<lambda>k. it_deref ((it_incr ^^ k) (t_begin ?t))) [0..<?n] = t_fields ?t"
    by (rule nth_equalityI) (use walk in simp_all)
  moreover have "it_equal ((it_incr ^^ ?n) (t_begin ?t)) (t_end ?t)"
    using walk [of ?n] by (simp add: it_end_equal)
  ultimately show ?thesis
    unfolding Let_def fields [symmetric] by (simp only: t_fieldCount simp_thms)
qed

lemma same_split:
  assumes "xs @ x # us = ys @ x # vs" "x \<notin> set xs" "x \<notin> set ys"
  shows "xs = ys \<and> us = vs"
  using assms
proof (induction xs arbitrary: ys)
  case Nil
  then show ?case by (cases ys) auto
next
  case (Cons a xs)
  then show ?case by (cases ys) auto
qed

text \<open>Detection of a changed character. If a sentence is valid, then replacing any one
character between the dollar sign and the star by a different character other than a star makes
the checksum test fail, so the sentence is no longer valid.\<close>

theorem nmea_corruption_detected:
  assumes "t_valid (Tokenizer d (CHR ''$'' # body @ CHR ''*'' # rest))"
    and "CHR ''*'' \<notin> set body" "i < length body" "c \<noteq> body ! i" "c \<noteq> CHR ''*''"
  shows "\<not> t_checksumValid (Tokenizer d' (CHR ''$'' # body[i := c] @ CHR ''*'' # rest))"
proof
  let ?s = "\<lambda>b. CHR ''$'' # b @ CHR ''*'' # rest"
  have star: "\<not> is_eol CHR ''*''" by (simp add: is_eol_def)
  have strip: "strip_eol (?s b) = CHR ''$'' # b @ CHR ''*'' # strip_eol rest" for b
    using strip_eol_keep [OF star, of "CHR ''$'' # b" rest] by simp
  have body': "CHR ''*'' \<notin> set (body[i := c])"
    using assms(2,5) set_update_subset_insert [of body i c] by auto
  assume chk: "t_checksumValid (Tokenizer d' (?s (body[i := c])))"
  obtain b1 g1 g2 r1 where f1: "framed (?s body) b1 g1 g2 r1"
    using unframed_invalid assms(1) unfolding t_valid_def by blast
  obtain b2 h1 h2 r2 where f2: "framed (?s (body[i := c])) b2 h1 h2 r2"
    using unframed_invalid chk by blast
  have "b1 = body \<and> g1 # g2 # r1 = strip_eol rest"
    using f1 assms(2) by (intro same_split) (auto simp: framed_def strip)
  moreover have "b2 = body[i := c] \<and> h1 # h2 # r2 = strip_eol rest"
    using f2 body' by (intro same_split) (auto simp: framed_def strip)
  ultimately have eq: "b1 = body" "b2 = body[i := c]" "g1 = h1" "g2 = h2"
    by (simp_all, metis list.inject, metis list.inject)
  have "computeXor body = hex_byte g1 g2"
    using framed_valid_iff [OF f1] assms(1) eq by blast
  moreover have "computeXor (body[i := c]) = hex_byte h1 h2"
    using chk eq by (simp add: Tokenizer_framed [OF f2] framed_tokenizer_def)
  ultimately show False
    using nmea.chk_update [OF assms(3,4)] eq by simp
qed

theorem nmea_corruption_detected_witness:
  "\<not> t_checksumValid (Tokenizer 0 (CHR ''$'' # ''WIMWV,9''[6 := CHR ''8''] @ CHR ''*'' # ''47''))"
proof (rule nmea_corruption_detected)
  have "framed (CHR ''$'' # ''WIMWV,9'' @ CHR ''*'' # ''47'') ''WIMWV,9'' CHR ''4'' CHR ''7'' []"
    by (simp add: framed_def strip_eol_def is_eol_def isHexDigit_def in_chars_def code_def)
  then show "t_valid (Tokenizer 0 (CHR ''$'' # ''WIMWV,9'' @ CHR ''*'' # ''47''))"
    by (simp only: framed_valid_iff)
      (simp add: body_ok_def hex_byte_def hexValue_def in_chars_def code_def byte_of_def)
qed simp_all

end
