(* ===== verification/NmeaStreams.thy ===== *)
theory NmeaStreams
  imports NmeaTokenizer
begin

text \<open>
  \<open>Common/src/NMEAInsertionStream.cpp\<close> and \<open>Common/src/NMEAExtractionStream.cpp\<close>: building a sentence
  field by field and reading the fields back with their types. An operation takes the stream and
  returns it with the status; an out parameter is passed in and returned.

  A \<open>double\<close> is a value of a type parameter. What the code uses of it is one record of
  functions: \<open>isfinite\<close>, the shortest \<open>to_chars\<close> text (which always fits the 64-byte buffer, so
  that the \<open>snprintf\<close> fallback for older libraries is not reached), \<open>from_chars\<close> (value and
  characters consumed, if any) and \<open>strtod\<close> (value, characters consumed, errno set).
\<close>

record 'd doubles =
  dl_isfinite :: "'d \<Rightarrow> bool"
  dl_to_chars :: "'d \<Rightarrow> string"
  dl_from_chars :: "string \<Rightarrow> ('d \<times> nat) option"
  dl_strtod :: "string \<Rightarrow> 'd \<times> nat \<times> bool"

definition int_min :: int where "int_min = - (2 ^ 31)"
definition int_max :: int where "int_max = 2 ^ 31 - 1"

section \<open>Insertion\<close>

record InsertionStream =
  ins_status :: NmeaParseStatus
  ins_sentence :: string
  ins_finalized :: bool

definition ins_setError :: "InsertionStream \<Rightarrow> NmeaParseErrorCode \<Rightarrow> InsertionStream" where
  "ins_setError s c =
     (if ns_ok (ins_status s) then s\<lparr>ins_status := (ins_status s)\<lparr>ns_code := c\<rparr>\<rparr> else s)"

definition InsertionStream :: "string \<Rightarrow> InsertionStream" where
  "InsertionStream identifier =
     (let s = \<lparr>ins_status = nmea_ok, ins_sentence = [], ins_finalized = False\<rparr>
      in if length identifier \<noteq> 5 then ins_setError s InvalidIdentifierLength
         else s\<lparr>ins_sentence := CHR ''$'' # identifier\<rparr>)"

definition appendFieldPrefix :: "InsertionStream \<Rightarrow> InsertionStream" where
  "appendFieldPrefix s = s\<lparr>ins_sentence := ins_sentence s @ [CHR '','']\<rparr>"

definition ins_append :: "InsertionStream \<Rightarrow> string \<Rightarrow> InsertionStream" where
  "ins_append s v = s\<lparr>ins_sentence := ins_sentence s @ v\<rparr>"

definition ins_writeString :: "InsertionStream \<Rightarrow> string \<Rightarrow> InsertionStream \<times> NmeaParseStatus" where
  "ins_writeString s v =
     (if \<not> ns_ok (ins_status s) then (s, ins_status s)
      else if ins_finalized s then (let s1 = ins_setError s AlreadyFinalized in (s1, ins_status s1))
      else let s1 = appendFieldPrefix s; s2 = ins_append s1 v in (s2, ins_status s2))"

definition ins_writeChar :: "InsertionStream \<Rightarrow> char \<Rightarrow> InsertionStream \<times> NmeaParseStatus" where
  "ins_writeChar s v =
     (if \<not> ns_ok (ins_status s) then (s, ins_status s)
      else if ins_finalized s then (let s1 = ins_setError s AlreadyFinalized in (s1, ins_status s1))
      else let s1 = appendFieldPrefix s; s2 = ins_append s1 [v] in (s2, ins_status s2))"

definition ins_writeInt :: "InsertionStream \<Rightarrow> int \<Rightarrow> InsertionStream \<times> NmeaParseStatus" where
  "ins_writeInt s v =
     (if \<not> ns_ok (ins_status s) then (s, ins_status s)
      else if ins_finalized s then (let s1 = ins_setError s AlreadyFinalized in (s1, ins_status s1))
      else let s1 = appendFieldPrefix s; buf = show_int v
           in if length buf > 24
              then (let s2 = ins_setError s1 InvalidInteger in (s2, ins_status s2))
              else (let s2 = ins_append s1 buf in (s2, ins_status s2)))"

definition ins_writeDouble ::
  "'d doubles \<Rightarrow> InsertionStream \<Rightarrow> 'd \<Rightarrow> InsertionStream \<times> NmeaParseStatus" where
  "ins_writeDouble dl s v =
     (if \<not> ns_ok (ins_status s) then (s, ins_status s)
      else if ins_finalized s then (let s1 = ins_setError s AlreadyFinalized in (s1, ins_status s1))
      else if \<not> dl_isfinite dl v then (let s1 = ins_setError s InvalidDouble in (s1, ins_status s1))
      else let s1 = appendFieldPrefix s; s2 = ins_append s1 (dl_to_chars dl v)
           in (s2, ins_status s2))"

definition ins_writeEmpty :: "InsertionStream \<Rightarrow> InsertionStream \<times> NmeaParseStatus" where
  "ins_writeEmpty s =
     (if \<not> ns_ok (ins_status s) then (s, ins_status s)
      else if ins_finalized s then (let s1 = ins_setError s AlreadyFinalized in (s1, ins_status s1))
      else let s1 = appendFieldPrefix s in (s1, ins_status s1))"

definition writeOptionalString where
  "writeOptionalString s v = (case v of None \<Rightarrow> ins_writeEmpty s | Some w \<Rightarrow> ins_writeString s w)"
definition writeOptionalChar where
  "writeOptionalChar s v = (case v of None \<Rightarrow> ins_writeEmpty s | Some c \<Rightarrow> ins_writeChar s c)"
definition writeOptionalInt where
  "writeOptionalInt s v = (case v of None \<Rightarrow> ins_writeEmpty s | Some i \<Rightarrow> ins_writeInt s i)"
definition writeOptionalDouble where
  "writeOptionalDouble dl s v =
     (case v of None \<Rightarrow> ins_writeEmpty s | Some d \<Rightarrow> ins_writeDouble dl s d)"

definition hex_table :: string where "hex_table = ''0123456789ABCDEF''"

definition appendChecksum :: "string \<Rightarrow> u8 \<Rightarrow> string" where
  "appendChecksum out cs =
     out @ [CHR ''*'', hex_table ! unat (drop_bit 4 cs AND 0xF), hex_table ! unat (cs AND 0xF)]"

definition finalize :: "InsertionStream \<Rightarrow> bool \<Rightarrow> InsertionStream \<times> NmeaParseStatus" where
  "finalize s appendCRLF =
     (if \<not> ns_ok (ins_status s) then (s, ins_status s)
      else if ins_finalized s then (s, ins_status s)
      else if ins_sentence s = [] \<or> hd (ins_sentence s) \<noteq> CHR ''$''
        then (let s1 = ins_setError s MissingStartDelimiter in (s1, ins_status s1))
      else let between = tl (ins_sentence s);
               cs = computeXor between;
               out = appendChecksum (ins_sentence s) cs;
               out' = (if appendCRLF then out @ [CHR 0x0D, CHR 0x0A] else out);
               s1 = s\<lparr>ins_sentence := out', ins_finalized := True\<rparr>
           in (s1, ins_status s1))"

section \<open>Extraction\<close>

record ExtractionStream =
  ex_tokens :: Tokenizer
  ex_it :: FieldIterator
  ex_end :: FieldIterator
  ex_index :: nat
  ex_last :: NmeaParseStatus

definition ExtractionStream :: "Tokenizer \<Rightarrow> ExtractionStream" where
  "ExtractionStream tokens =
     \<lparr>ex_tokens = tokens, ex_it = t_begin tokens, ex_end = t_end tokens, ex_index = 0,
      ex_last = nmea_ok\<rparr>"

definition ex_atEnd :: "ExtractionStream \<Rightarrow> bool" where
  "ex_atEnd e = it_equal (ex_it e) (ex_end e)"

definition ex_fail :: "ExtractionStream \<Rightarrow> NmeaParseErrorCode \<Rightarrow> nat \<Rightarrow> ExtractionStream" where
  "ex_fail e c i =
     e\<lparr>ex_last := \<lparr>ns_code = c, ns_fieldIndex = i, ns_context = t_sentence (ex_tokens e)\<rparr>\<rparr>"

definition ex_step :: "ExtractionStream \<Rightarrow> ExtractionStream" where
  "ex_step e = e\<lparr>ex_it := it_incr (ex_it e), ex_index := ex_index e + 1\<rparr>"

definition skipField :: "ExtractionStream \<Rightarrow> ExtractionStream \<times> NmeaParseStatus" where
  "skipField e =
     (if ex_atEnd e then (let e1 = ex_fail e FieldMissing (ex_index e) in (e1, ex_last e1))
      else let e1 = (ex_step e)\<lparr>ex_last := nmea_ok\<rparr> in (e1, ex_last e1))"

definition requireField :: "ExtractionStream \<Rightarrow> string \<Rightarrow> ExtractionStream \<times> NmeaParseStatus \<times> string" where
  "requireField e out =
     (if ex_atEnd e then (let e1 = ex_fail e FieldMissing (ex_index e) in (e1, ex_last e1, out))
      else let out' = it_deref (ex_it e)
           in if out' = [] then (let e1 = ex_fail e FieldEmpty (ex_index e) in (e1, ex_last e1, out'))
              else let e1 = (ex_step e)\<lparr>ex_last := nmea_ok\<rparr> in (e1, ex_last e1, out'))"

definition optionalField ::
  "ExtractionStream \<Rightarrow> string option \<Rightarrow> ExtractionStream \<times> NmeaParseStatus \<times> string option" where
  "optionalField e out =
     (if ex_atEnd e then (let e1 = ex_fail e FieldMissing (ex_index e) in (e1, ex_last e1, out))
      else let v = it_deref (ex_it e); e1 = (ex_step e)\<lparr>ex_last := nmea_ok\<rparr>
           in if v = [] then (e1, ex_last e1, None) else (e1, ex_last e1, Some v))"

definition ex_readString where "ex_readString e out = requireField e out"

definition ex_readChar :: "ExtractionStream \<Rightarrow> char \<Rightarrow> ExtractionStream \<times> NmeaParseStatus \<times> char" where
  "ex_readChar e out =
     (let (e1, st, s) = requireField e []
      in if \<not> ns_ok st then (e1, st, out)
         else if length s \<noteq> 1
           then (let e2 = ex_fail e1 InvalidChar (ns_fieldIndex st) in (e2, ex_last e2, out))
         else let e2 = e1\<lparr>ex_last := nmea_ok\<rparr> in (e2, ex_last e2, s ! 0))"

definition parseInt :: "string \<Rightarrow> int \<Rightarrow> nat \<Rightarrow> string \<Rightarrow> NmeaParseStatus \<times> int" where
  "parseInt s out fieldIndex ctx =
     (let (ec, n, v) = from_chars int_min int_max s
      in if ec = InvalidArgument \<or> n \<noteq> length s
         then (\<lparr>ns_code = InvalidInteger, ns_fieldIndex = fieldIndex, ns_context = ctx\<rparr>, out)
         else if ec = OutOfRange
         then (\<lparr>ns_code = IntegerOutOfRange, ns_fieldIndex = fieldIndex, ns_context = ctx\<rparr>, out)
         else (nmea_ok, case v of None \<Rightarrow> 0 | Some x \<Rightarrow> x))"

definition ex_readInt :: "ExtractionStream \<Rightarrow> int \<Rightarrow> ExtractionStream \<times> NmeaParseStatus \<times> int" where
  "ex_readInt e out =
     (let (e1, st, s) = requireField e []
      in if \<not> ns_ok st then (e1, st, out)
         else let (st2, v) = parseInt s out (ns_fieldIndex st) (t_sentence (ex_tokens e1));
                  e2 = e1\<lparr>ex_last := st2\<rparr>
              in (e2, ex_last e2, v))"

definition parseDouble ::
  "'d doubles \<Rightarrow> string \<Rightarrow> 'd \<Rightarrow> nat \<Rightarrow> string \<Rightarrow> NmeaParseStatus \<times> 'd" where
  "parseDouble dl s out fieldIndex ctx =
     (let err = \<lparr>ns_code = InvalidDouble, ns_fieldIndex = fieldIndex, ns_context = ctx\<rparr>;
          fallback =
            (if length s > 63 then (err, out)
             else let (value, n, errno) = dl_strtod dl (takeWhile (\<lambda>c. c \<noteq> CHR 0x00) s)
                  in if errno \<or> n = 0 then (err, out)
                     else if n \<noteq> length s then (err, out)
                     else if \<not> dl_isfinite dl value then (err, out)
                     else (nmea_ok, value))
      in case dl_from_chars dl s of
           Some (value, n) \<Rightarrow>
             if n = length s \<and> dl_isfinite dl value then (nmea_ok, value) else fallback
         | None \<Rightarrow> fallback)"

definition ex_readDouble ::
  "'d doubles \<Rightarrow> ExtractionStream \<Rightarrow> 'd \<Rightarrow> ExtractionStream \<times> NmeaParseStatus \<times> 'd" where
  "ex_readDouble dl e out =
     (let (e1, st, s) = requireField e []
      in if \<not> ns_ok st then (e1, st, out)
         else let (st2, v) = parseDouble dl s out (ns_fieldIndex st) (t_sentence (ex_tokens e1));
                  e2 = e1\<lparr>ex_last := st2\<rparr>
              in (e2, ex_last e2, v))"

definition readOptionalString where "readOptionalString e out = optionalField e out"

definition previous_index :: "ExtractionStream \<Rightarrow> nat" where
  "previous_index e = (if ex_index e > 0 then ex_index e - 1 else 0)"

definition readOptionalChar ::
  "ExtractionStream \<Rightarrow> char option \<Rightarrow> ExtractionStream \<times> NmeaParseStatus \<times> char option" where
  "readOptionalChar e out =
     (let (e1, st, s) = optionalField e None
      in if \<not> ns_ok st then (e1, st, out)
         else case s of
           None \<Rightarrow> (let e2 = e1\<lparr>ex_last := nmea_ok\<rparr> in (e2, ex_last e2, None))
         | Some w \<Rightarrow>
             if length w \<noteq> 1
             then (let e2 = ex_fail e1 InvalidChar (previous_index e1) in (e2, ex_last e2, out))
             else let e2 = e1\<lparr>ex_last := nmea_ok\<rparr> in (e2, ex_last e2, Some (w ! 0)))"

definition readOptionalInt ::
  "ExtractionStream \<Rightarrow> int option \<Rightarrow> ExtractionStream \<times> NmeaParseStatus \<times> int option" where
  "readOptionalInt e out =
     (let (e1, st, s) = optionalField e None
      in if \<not> ns_ok st then (e1, st, out)
         else case s of
           None \<Rightarrow> (let e2 = e1\<lparr>ex_last := nmea_ok\<rparr> in (e2, ex_last e2, None))
         | Some w \<Rightarrow>
             let (conv, value) = parseInt w 0 (previous_index e1) (t_sentence (ex_tokens e1))
             in if \<not> ns_ok conv then (let e2 = e1\<lparr>ex_last := conv\<rparr> in (e2, ex_last e2, out))
                else let e2 = e1\<lparr>ex_last := nmea_ok\<rparr> in (e2, ex_last e2, Some value))"

definition readOptionalDouble ::
  "'d doubles \<Rightarrow> 'd \<Rightarrow> ExtractionStream \<Rightarrow> 'd option
    \<Rightarrow> ExtractionStream \<times> NmeaParseStatus \<times> 'd option" where
  "readOptionalDouble dl zero e out =
     (let (e1, st, s) = optionalField e None
      in if \<not> ns_ok st then (e1, st, out)
         else case s of
           None \<Rightarrow> (let e2 = e1\<lparr>ex_last := nmea_ok\<rparr> in (e2, ex_last e2, None))
         | Some w \<Rightarrow>
             let (conv, value) = parseDouble dl w zero (previous_index e1) (t_sentence (ex_tokens e1))
             in if \<not> ns_ok conv then (let e2 = e1\<lparr>ex_last := conv\<rparr> in (e2, ex_last e2, out))
                else let e2 = e1\<lparr>ex_last := nmea_ok\<rparr> in (e2, ex_last e2, Some value))"

section \<open>What the operations do to a stream in order\<close>

definition ins_open :: "InsertionStream \<Rightarrow> bool" where
  "ins_open s \<longleftrightarrow> ins_status s = nmea_ok \<and> \<not> ins_finalized s"

lemma ns_ok_nmea_ok [simp]: "ns_ok nmea_ok"
  by (simp add: ns_ok_def nmea_ok_def)

lemma ins_append_fields [simp]:
  "ins_open (ins_append s v) = ins_open s" "ins_sentence (ins_append s v) = ins_sentence s @ v"
  by (simp_all add: ins_append_def ins_open_def)

lemma appendFieldPrefix_append:
  "appendFieldPrefix s = ins_append s [CHR '','']" "ins_append (appendFieldPrefix s) v = ins_append s (CHR '','' # v)"
  by (simp_all add: appendFieldPrefix_def ins_append_def)

text \<open>An extraction stream that has the fields \<open>fs\<close> still to read.\<close>

definition ex_on :: "ExtractionStream \<Rightarrow> string list \<Rightarrow> bool" where
  "ex_on e fs \<longleftrightarrow>
     it_atEnd (ex_end e)
   \<and> (if fs = [] then it_atEnd (ex_it e)
      else \<exists>start. it_on (it_payload (ex_it e)) start (ex_it e)
             \<and> split CHR '','' (drop start (it_payload (ex_it e))) = fs)"

lemma ex_on_atEnd: "ex_on e fs \<Longrightarrow> ex_atEnd e \<longleftrightarrow> fs = []"
  by (auto simp: ex_on_def ex_atEnd_def it_equal_def it_on_def split: if_splits)

lemma ex_on_current: "ex_on e (f # fs) \<Longrightarrow> it_deref (ex_it e) = f"
  by (auto simp: ex_on_def it_on_def it_deref_def)

lemma ex_on_step:
  assumes "ex_on e (f # fs)"
  shows "ex_on ((ex_step e)\<lparr>ex_last := l\<rparr>) fs"
proof -
  let ?it = "ex_it e" and ?p = "it_payload (ex_it e)"
  obtain start where on: "it_on ?p start ?it" and fs: "split CHR '','' (drop start ?p) = f # fs"
    using assms by (auto simp: ex_on_def)
  show ?thesis
  proof (cases "fs = []")
    case True
    then show ?thesis
      using assms it_incr_last [OF on] fs by (simp add: ex_on_def ex_step_def)
  next
    case False
    then have "1 < length (split CHR '','' (drop start ?p))" using fs by (cases fs) auto
    from it_incr_on [OF on this] obtain start' where
      "it_on ?p start' (it_incr ?it)" "split CHR '','' (drop start' ?p) = fs"
      using fs by auto
    moreover from this have "it_payload (it_incr ?it) = ?p" by (simp add: it_on_def)
    ultimately show ?thesis using assms False by (auto simp: ex_on_def ex_step_def)
  qed
qed

definition ex_advance :: "ExtractionStream \<Rightarrow> ExtractionStream" where
  "ex_advance e = (ex_step e)\<lparr>ex_last := nmea_ok\<rparr>"

lemma ex_advance_simps [simp]:
  "ex_last (ex_advance e) = nmea_ok" "ex_index (ex_advance e) = ex_index e + 1"
  "(ex_advance e)\<lparr>ex_last := nmea_ok\<rparr> = ex_advance e" "ex_tokens (ex_advance e) = ex_tokens e"
  by (simp_all add: ex_advance_def ex_step_def)

lemma ex_on_advance: "ex_on e (f # fs) \<Longrightarrow> ex_on (ex_advance e) fs"
  by (simp add: ex_advance_def ex_on_step)

lemma requireField_next:
  "ex_on e (f # fs) \<Longrightarrow> f \<noteq> [] \<Longrightarrow> requireField e old = (ex_advance e, nmea_ok, f)"
  by (simp add: requireField_def ex_on_atEnd ex_on_current ex_advance_def [symmetric] Let_def)

lemma optionalField_next:
  "ex_on e (f # fs) \<Longrightarrow>
     optionalField e old = (ex_advance e, nmea_ok, if f = [] then None else Some f)"
  by (simp add: optionalField_def ex_on_atEnd ex_on_current ex_advance_def [symmetric] Let_def)

definition no_delim :: "string \<Rightarrow> bool" where
  "no_delim s \<longleftrightarrow> CHR '','' \<notin> set s \<and> CHR ''*'' \<notin> set s"

section \<open>Finalised sentences\<close>

lemma hex_table_digit: "n < 16 \<Longrightarrow> isHexDigit (hex_table ! n) \<and> hexValue (hex_table ! n) = int n"
proof -
  have "\<forall>n \<in> set [0..<16]. isHexDigit (hex_table ! n) \<and> hexValue (hex_table ! n) = int n"
    by (simp add: upt_rec hex_table_def isHexDigit_def hexValue_def in_chars_def code_def)
  then show "n < 16 \<Longrightarrow> ?thesis" by simp
qed

lemma nibble_less: "unat ((c :: u8) AND 0xF) < 16"
proof -
  have "c AND 0xF = take_bit 4 c" by (simp add: take_bit_eq_mask mask_eq_exp_minus_1)
  then have "unat (c AND 0xF) = take_bit 4 (unat c)" by (simp only: unsigned_take_bit_eq)
  then show ?thesis using take_bit_nat_less_exp [of 4 "unat c"] by simp
qed

lemma hex_roundtrip:
  "hex_byte (hex_table ! unat (drop_bit 4 c AND 0xF)) (hex_table ! unat (c AND 0xF)) = c"
proof -
  have hi: "hexValue (hex_table ! unat (drop_bit 4 c AND 0xF)) = uint (drop_bit 4 c AND 0xF)"
    and lo: "hexValue (hex_table ! unat (c AND 0xF)) = uint (c AND 0xF)"
    using hex_table_digit nibble_less by simp_all
  have m: "(0xF :: u8) = mask 4" by (simp add: mask_eq_exp_minus_1)
  have "word_of_int (push_bit 4 (uint (drop_bit 4 c AND 0xF)) OR uint (c AND 0xF)) = c"
    unfolding m by (rule bit_word_eqI) (auto simp: bit_simps)
  then show ?thesis by (simp only: hex_byte_def hi lo)
qed

definition sentence_tail :: "bool \<Rightarrow> string" where
  "sentence_tail crlf = (if crlf then [CHR 0x0D, CHR 0x0A] else [])"

lemma finalize_open:
  assumes "ins_open s" "ins_sentence s = CHR ''$'' # body"
  shows "finalize s crlf =
    (s\<lparr>ins_sentence := appendChecksum (ins_sentence s) (computeXor body) @ sentence_tail crlf,
       ins_finalized := True\<rparr>, nmea_ok)"
  using assms by (simp add: finalize_def ins_open_def sentence_tail_def Let_def)

lemma not_eol_hex: "isHexDigit c \<Longrightarrow> \<not> is_eol c"
  by (auto simp: is_eol_def isHexDigit_def in_chars_def code_def)

lemma finalize_framed:
  assumes "ins_open s" "ins_sentence s = CHR ''$'' # body" "CHR ''*'' \<notin> set body"
  shows "\<exists>h1 h2. framed (ins_sentence (fst (finalize s crlf))) body h1 h2 []
     \<and> hex_byte h1 h2 = computeXor body"
proof -
  let ?c = "computeXor body"
  let ?h1 = "hex_table ! unat (drop_bit 4 ?c AND 0xF)" and ?h2 = "hex_table ! unat (?c AND 0xF)"
  have hex: "isHexDigit ?h1" "isHexDigit ?h2"
    using hex_table_digit nibble_less by simp_all
  have "strip_eol (sentence_tail crlf) = []"
    by (auto simp: sentence_tail_def strip_eol_def is_eol_def)
  then have "strip_eol ((CHR ''$'' # body @ [CHR ''*'', ?h1]) @ ?h2 # sentence_tail crlf)
      = (CHR ''$'' # body @ [CHR ''*'', ?h1]) @ [?h2]"
    by (subst strip_eol_keep) (simp_all add: not_eol_hex hex)
  then have "framed (ins_sentence (fst (finalize s crlf))) body ?h1 ?h2 []"
    using assms hex by (simp add: finalize_open framed_def appendChecksum_def)
  then show ?thesis using hex_roundtrip [of ?c] by blast
qed

lemma join_Nil_iff: "join c ws = [] \<longleftrightarrow> ws = []"
  by (cases ws) (simp_all add: join_Cons)

lemma star_join: "list_all no_delim ws \<Longrightarrow> CHR ''*'' \<notin> set (join CHR '','' ws)"
  by (induction ws) (auto simp: join_Cons no_delim_def)

lemma finalized_tokenizes:
  assumes open_s: "ins_open s" and s: "ins_sentence s = CHR ''$'' # ident @ join CHR '','' ws"
    and ident: "length ident = 5" "CHR ''*'' \<notin> set ident" and ws: "list_all no_delim ws"
  shows "t_valid (Tokenizer d (ins_sentence (fst (finalize s crlf))))
     \<and> t_identifier (Tokenizer d (ins_sentence (fst (finalize s crlf)))) = ident
     \<and> t_fieldCount (Tokenizer d (ins_sentence (fst (finalize s crlf)))) = length ws
     \<and> ex_on (ExtractionStream (Tokenizer d (ins_sentence (fst (finalize s crlf))))) ws"
proof -
  let ?body = "ident @ join CHR '','' ws" and ?t = "Tokenizer d (ins_sentence (fst (finalize s crlf)))"
  have "CHR ''*'' \<notin> set ?body" using ident star_join [OF ws] by simp
  then obtain h1 h2 where f: "framed (ins_sentence (fst (finalize s crlf))) ?body h1 h2 []"
    and hex: "hex_byte h1 h2 = computeXor ?body"
    using finalize_framed [OF open_s s] by blast
  have ok: "body_ok ?body"
    using ident by (cases ws) (simp_all add: body_ok_def join_Cons nth_append)
  have t: "?t = parseBody (framed_tokenizer d (strip_eol (ins_sentence (fst (finalize s crlf)))) True) ?body"
    using Tokenizer_framed [OF f] hex by simp
  have fields: "t_identifier ?t = ident \<and> t_fields ?t = ws \<and> (ws = [] \<longleftrightarrow> \<not> t_hasPayload ?t)"
  proof (cases ws)
    case Nil
    then show ?thesis
      using ident unfolding t
      by (simp add: parseBody_def t_fields_def framed_tokenizer_def substr_def)
  next
    case (Cons w ws')
    then have "split CHR '','' (w @ join CHR '','' ws') = ws"
      using ws by (subst split_join) (auto simp: list_all_iff no_delim_def)
    then show ?thesis
      using ident unfolding t
      by (simp add: Cons parseBody_def t_fields_def framed_tokenizer_def substr_def join_Cons
          nth_append Let_def)
  qed
  have "ex_on (ExtractionStream ?t) (t_fields ?t)"
  proof (cases "t_hasPayload ?t")
    case True
    have on: "it_on (t_payload ?t) 0 (t_begin ?t)" using t_begin_on [OF True] .
    then have "it_payload (t_begin ?t) = t_payload ?t" by (simp add: it_on_def)
    with on True show ?thesis
      by (auto simp: ex_on_def ExtractionStream_def t_fields_def t_end_def FieldIterator_def
          intro!: exI [of _ 0])
  next
    case False
    then show ?thesis
      by (simp add: ex_on_def ExtractionStream_def t_begin_def t_end_def FieldIterator_def)
  qed
  with fields show ?thesis
    using framed_valid_iff [OF f] ok hex t_fieldCount [of d] by simp
qed

section \<open>Typed fields\<close>

text \<open>
  The contract between the two streams for one field type: \<open>wr\<close> appends a comma and the text of
  the value, the text is free of delimiters, and \<open>rd\<close> turns the text back into the value. A list
  of fields then survives the way through \<open>finalize\<close> and the tokenizer.
\<close>

definition write_all ::
  "(InsertionStream \<Rightarrow> 'v \<Rightarrow> InsertionStream \<times> NmeaParseStatus) \<Rightarrow> InsertionStream \<Rightarrow> 'v list
    \<Rightarrow> InsertionStream" where
  "write_all wr s vs = foldl (\<lambda>s v. fst (wr s v)) s vs"

fun read_all ::
  "(ExtractionStream \<Rightarrow> 'v \<Rightarrow> ExtractionStream \<times> NmeaParseStatus \<times> 'v) \<Rightarrow> ExtractionStream \<Rightarrow> 'v list
    \<Rightarrow> ExtractionStream \<times> NmeaParseStatus list \<times> 'v list" where
  "read_all rd e [] = (e, [], [])"
| "read_all rd e (old # olds) =
     (let (e1, st, v) = rd e old; (e2, sts, vs) = read_all rd e1 olds in (e2, st # sts, v # vs))"

locale nmea_field =
  fixes wr :: "InsertionStream \<Rightarrow> 'v \<Rightarrow> InsertionStream \<times> NmeaParseStatus"
    and rd :: "ExtractionStream \<Rightarrow> 'v \<Rightarrow> ExtractionStream \<times> NmeaParseStatus \<times> 'v"
    and ftext :: "'v \<Rightarrow> string"
    and ok :: "'v \<Rightarrow> 'v \<Rightarrow> bool"
  assumes wr_next: "ok v old \<Longrightarrow> ins_open s \<Longrightarrow> wr s v = (ins_append s (CHR '','' # ftext v), nmea_ok)"
    and ftext_clean: "ok v old \<Longrightarrow> no_delim (ftext v)"
    and rd_next: "ok v old \<Longrightarrow> ex_on e (ftext v # fs) \<Longrightarrow> rd e old = (ex_advance e, nmea_ok, v)"
begin

lemma write_all_join:
  assumes "list_all2 ok vs olds" "ins_open s"
  shows "write_all wr s vs = ins_append s (join CHR '','' (map ftext vs)) \<and> ins_open (write_all wr s vs)"
  using assms
proof (induction arbitrary: s rule: list_all2_induct)
  case Nil
  then show ?case by (simp add: write_all_def ins_append_def)
next
  case (Cons v vs old olds)
  then show ?case
    by (simp add: write_all_def wr_next join_Cons ins_append_def ins_open_def)
qed

lemma read_all_fields:
  assumes "list_all2 ok vs olds" "ex_on e (map ftext vs)"
  shows "\<exists>e'. read_all rd e olds = (e', replicate (length vs) nmea_ok, vs) \<and> ex_on e' []"
  using assms
proof (induction arbitrary: e rule: list_all2_induct)
  case Nil
  then show ?case by simp
next
  case (Cons v vs old olds)
  then have "rd e old = (ex_advance e, nmea_ok, v)" and "ex_on (ex_advance e) (map ftext vs)"
    using rd_next [of v old e] ex_on_advance [of e "ftext v"] by simp_all
  with Cons.IH [of "ex_advance e"] show ?case by auto
qed

lemma all_clean: "list_all2 ok vs olds \<Longrightarrow> list_all no_delim (map ftext vs)"
  by (induction rule: list_all2_induct) (auto intro: ftext_clean)

lemma roundtrip:
  assumes ok: "list_all2 ok vs olds" and ident: "length ident = 5" "CHR ''*'' \<notin> set ident"
  shows "\<exists>e. t_valid (Tokenizer d (ins_sentence (fst (finalize (write_all wr (InsertionStream ident) vs) crlf))))
     \<and> t_identifier (Tokenizer d (ins_sentence (fst (finalize (write_all wr (InsertionStream ident) vs) crlf)))) = ident
     \<and> t_fieldCount (Tokenizer d (ins_sentence (fst (finalize (write_all wr (InsertionStream ident) vs) crlf)))) = length vs
     \<and> read_all rd (ExtractionStream (Tokenizer d (ins_sentence (fst (finalize (write_all wr (InsertionStream ident) vs) crlf))))) olds
        = (e, replicate (length vs) nmea_ok, vs) \<and> ex_atEnd e"
proof -
  let ?s = "InsertionStream ident"
  have "ins_open ?s" using ident by (simp add: InsertionStream_def ins_open_def)
  then have w: "ins_open (write_all wr ?s vs)"
    "write_all wr ?s vs = ins_append ?s (join CHR '','' (map ftext vs))"
    using write_all_join [OF ok] by blast+
  then have "ins_sentence (write_all wr ?s vs) = CHR ''$'' # ident @ join CHR '','' (map ftext vs)"
    using ident by (simp add: InsertionStream_def)
  from finalized_tokenizes [OF w(1) this ident all_clean [OF ok]] show ?thesis
    using read_all_fields [OF ok] ex_on_atEnd by fastforce
qed

end

section \<open>The field types of the code\<close>

definition in_int :: "int \<Rightarrow> bool" where "in_int v \<longleftrightarrow> int_min \<le> v \<and> v \<le> int_max"

text \<open>
  A double survives if it is finite, its text is free of delimiters and not empty, and
  \<open>from_chars\<close> reads all of the text back as the same value: what the C++ standard says of the
  shortest \<open>to_chars\<close> text of a finite double.
\<close>

definition good_double :: "'d doubles \<Rightarrow> 'd \<Rightarrow> bool" where
  "good_double dl v \<longleftrightarrow>
     dl_isfinite dl v \<and> no_delim (dl_to_chars dl v) \<and> dl_to_chars dl v \<noteq> []
   \<and> dl_from_chars dl (dl_to_chars dl v) = Some (v, length (dl_to_chars dl v))"

lemma no_delim_Nil [simp]: "no_delim []"
  by (simp add: no_delim_def)

lemmas ins_write_defs = ins_writeString_def ins_writeChar_def ins_writeInt_def ins_writeDouble_def
  ins_writeEmpty_def writeOptionalString_def writeOptionalChar_def writeOptionalInt_def
  writeOptionalDouble_def

lemma ins_open_status [simp]: "ins_open s \<Longrightarrow> ins_status s = nmea_ok" "ins_open s \<Longrightarrow> \<not> ins_finalized s"
  by (simp_all add: ins_open_def)

lemma ins_append_status [simp]: "ins_status (ins_append s v) = ins_status s"
  by (simp add: ins_append_def)

interpretation str_field: nmea_field ins_writeString ex_readString "\<lambda>v. v" "\<lambda>v _. v \<noteq> [] \<and> no_delim v"
  by unfold_locales
    (auto simp: ins_write_defs appendFieldPrefix_append ex_readString_def requireField_next Let_def)

interpretation char_field: nmea_field ins_writeChar ex_readChar "\<lambda>c. [c]" "\<lambda>c _. no_delim [c]"
  by unfold_locales
    (auto simp: ins_write_defs appendFieldPrefix_append ex_readChar_def requireField_next Let_def)

lemma in_int_text:
  assumes "in_int v"
  shows "\<not> 24 < length (show_int v)" "no_delim (show_int v)"
    "parseInt (show_int v) out i ctx = (nmea_ok, v)"
proof -
  have "length (show_nat (nat \<bar>v\<bar>)) \<le> 10"
    using assms by (intro length_show_nat) (auto simp: in_int_def int_min_def int_max_def)
  then show "\<not> 24 < length (show_int v)" by (auto simp: show_int_def)
  show "no_delim (show_int v)"
    by (simp add: no_delim_def show_int_avoids code_def)
  show "parseInt (show_int v) out i ctx = (nmea_ok, v)"
    using assms by (simp add: parseInt_def from_chars_show in_int_def int_min_def int_max_def)
qed

interpretation int_field: nmea_field ins_writeInt ex_readInt show_int "\<lambda>v _. in_int v"
  by unfold_locales
    (auto simp: ins_write_defs appendFieldPrefix_append ex_readInt_def requireField_next in_int_text
      Let_def)

lemma good_double_text:
  "good_double dl v \<Longrightarrow> parseDouble dl (dl_to_chars dl v) out i ctx = (nmea_ok, v)"
  by (simp add: parseDouble_def good_double_def)

interpretation double_field:
  nmea_field "ins_writeDouble dl" "ex_readDouble dl" "dl_to_chars dl" "\<lambda>v _. good_double dl v"
  by unfold_locales
    (auto simp: ins_write_defs appendFieldPrefix_append ex_readDouble_def requireField_next
      good_double_text good_double_def Let_def)

interpretation opt_str_field:
  nmea_field writeOptionalString readOptionalString "case_option [] (\<lambda>v. v)"
    "\<lambda>v _. case v of None \<Rightarrow> True | Some w \<Rightarrow> w \<noteq> [] \<and> no_delim w"
  by unfold_locales
    (auto simp: ins_write_defs appendFieldPrefix_append readOptionalString_def optionalField_next
      Let_def split: option.splits)

interpretation opt_char_field:
  nmea_field writeOptionalChar readOptionalChar "case_option [] (\<lambda>c. [c])"
    "\<lambda>v _. case v of None \<Rightarrow> True | Some c \<Rightarrow> no_delim [c]"
  by unfold_locales
    (auto simp: ins_write_defs appendFieldPrefix_append readOptionalChar_def optionalField_next
      Let_def split: option.splits)

interpretation opt_int_field:
  nmea_field writeOptionalInt readOptionalInt "case_option [] show_int"
    "\<lambda>v _. case v of None \<Rightarrow> True | Some i \<Rightarrow> in_int i"
  by unfold_locales
    (auto simp: ins_write_defs appendFieldPrefix_append readOptionalInt_def optionalField_next
      in_int_text Let_def split: option.splits)

interpretation opt_double_field:
  nmea_field "writeOptionalDouble dl" "readOptionalDouble dl zero" "case_option [] (dl_to_chars dl)"
    "\<lambda>v _. case v of None \<Rightarrow> True | Some x \<Rightarrow> good_double dl x"
  by unfold_locales
    (auto simp: ins_write_defs appendFieldPrefix_append readOptionalDouble_def optionalField_next
      good_double_text good_double_def Let_def split: option.splits)

section \<open>A mixed list of fields\<close>

datatype 'd nmea_value =
  NStr string | NChr char | NInt int | NDbl 'd
| NOptStr "string option" | NOptChr "char option" | NOptInt "int option" | NOptDbl "'d option"

fun write_value :: "'d doubles \<Rightarrow> InsertionStream \<Rightarrow> 'd nmea_value \<Rightarrow> InsertionStream \<times> NmeaParseStatus" where
  "write_value dl s (NStr v) = ins_writeString s v"
| "write_value dl s (NChr v) = ins_writeChar s v"
| "write_value dl s (NInt v) = ins_writeInt s v"
| "write_value dl s (NDbl v) = ins_writeDouble dl s v"
| "write_value dl s (NOptStr v) = writeOptionalString s v"
| "write_value dl s (NOptChr v) = writeOptionalChar s v"
| "write_value dl s (NOptInt v) = writeOptionalInt s v"
| "write_value dl s (NOptDbl v) = writeOptionalDouble dl s v"

definition out_as :: "('v \<Rightarrow> 'w) \<Rightarrow> 'e \<times> 'st \<times> 'v \<Rightarrow> 'e \<times> 'st \<times> 'w" where
  "out_as f r = (case r of (e, st, v) \<Rightarrow> (e, st, f v))"

fun read_value ::
  "'d doubles \<Rightarrow> 'd \<Rightarrow> ExtractionStream \<Rightarrow> 'd nmea_value
    \<Rightarrow> ExtractionStream \<times> NmeaParseStatus \<times> 'd nmea_value" where
  "read_value dl zero e (NStr v) = out_as NStr (ex_readString e v)"
| "read_value dl zero e (NChr v) = out_as NChr (ex_readChar e v)"
| "read_value dl zero e (NInt v) = out_as NInt (ex_readInt e v)"
| "read_value dl zero e (NDbl v) = out_as NDbl (ex_readDouble dl e v)"
| "read_value dl zero e (NOptStr v) = out_as NOptStr (readOptionalString e v)"
| "read_value dl zero e (NOptChr v) = out_as NOptChr (readOptionalChar e v)"
| "read_value dl zero e (NOptInt v) = out_as NOptInt (readOptionalInt e v)"
| "read_value dl zero e (NOptDbl v) = out_as NOptDbl (readOptionalDouble dl zero e v)"

fun nmea_text :: "'d doubles \<Rightarrow> 'd nmea_value \<Rightarrow> string" where
  "nmea_text dl (NStr v) = v"
| "nmea_text dl (NChr v) = [v]"
| "nmea_text dl (NInt v) = show_int v"
| "nmea_text dl (NDbl v) = dl_to_chars dl v"
| "nmea_text dl (NOptStr v) = case_option [] (\<lambda>v. v) v"
| "nmea_text dl (NOptChr v) = case_option [] (\<lambda>c. [c]) v"
| "nmea_text dl (NOptInt v) = case_option [] show_int v"
| "nmea_text dl (NOptDbl v) = case_option [] (dl_to_chars dl) v"

text \<open>A value that a field can carry, and an out parameter of the same type.\<close>

fun value_ok :: "'d doubles \<Rightarrow> 'd nmea_value \<Rightarrow> 'd nmea_value \<Rightarrow> bool" where
  "value_ok dl (NStr v) (NStr _) \<longleftrightarrow> v \<noteq> [] \<and> no_delim v"
| "value_ok dl (NChr v) (NChr _) \<longleftrightarrow> no_delim [v]"
| "value_ok dl (NInt v) (NInt _) \<longleftrightarrow> in_int v"
| "value_ok dl (NDbl v) (NDbl _) \<longleftrightarrow> good_double dl v"
| "value_ok dl (NOptStr v) (NOptStr _) \<longleftrightarrow> (case v of None \<Rightarrow> True | Some w \<Rightarrow> w \<noteq> [] \<and> no_delim w)"
| "value_ok dl (NOptChr v) (NOptChr _) \<longleftrightarrow> (case v of None \<Rightarrow> True | Some c \<Rightarrow> no_delim [c])"
| "value_ok dl (NOptInt v) (NOptInt _) \<longleftrightarrow> (case v of None \<Rightarrow> True | Some i \<Rightarrow> in_int i)"
| "value_ok dl (NOptDbl v) (NOptDbl _) \<longleftrightarrow> (case v of None \<Rightarrow> True | Some x \<Rightarrow> good_double dl x)"
| "value_ok dl _ _ \<longleftrightarrow> False"

fun_cases value_okE: "value_ok dl v old"

lemmas field_writes = str_field.wr_next char_field.wr_next int_field.wr_next double_field.wr_next
  opt_str_field.wr_next opt_char_field.wr_next opt_int_field.wr_next opt_double_field.wr_next

lemmas field_reads = str_field.rd_next char_field.rd_next int_field.rd_next double_field.rd_next
  opt_str_field.rd_next opt_char_field.rd_next opt_int_field.rd_next opt_double_field.rd_next

interpretation any_field:
  nmea_field "write_value dl" "read_value dl zero" "nmea_text dl" "value_ok dl"
proof unfold_locales
  fix v old :: "'a nmea_value" and s
  assume "value_ok dl v old" "ins_open s"
  then show "write_value dl s v = (ins_append s (CHR '','' # nmea_text dl v), nmea_ok)"
    by (elim value_okE) (simp_all only: write_value.simps nmea_text.simps field_writes simp_thms)
next
  fix v old :: "'a nmea_value"
  assume "value_ok dl v old"
  then show "no_delim (nmea_text dl v)"
    by (elim value_okE) (auto simp: in_int_text good_double_def split: option.splits)
next
  fix v old :: "'a nmea_value" and e fs
  assume "value_ok dl v old" "ex_on e (nmea_text dl v # fs)"
  then show "read_value dl zero e old = (ex_advance e, nmea_ok, v)"
    by (elim value_okE)
      (simp_all only: read_value.simps nmea_text.simps field_reads out_as_def case_prod_conv simp_thms)
qed

section \<open>Properties\<close>

text \<open>C26: The sentence round trip. For a five-character identifier without a star and any list of
typed fields, required or optional, that fit their types and hold no comma or star, writing them,
finalising (with or without line end) and tokenising gives a valid sentence with that identifier
and field count, and reading the fields with the matching operations returns every value with
status Ok and leaves the stream at its end. Of doubles it needs that \<open>from_chars\<close> reads the text
of \<open>to_chars\<close> back.\<close>

theorem nmea_sentence_roundtrip:
  assumes "list_all2 (value_ok dl) vs olds" "length ident = 5" "CHR ''*'' \<notin> set ident"
  shows "let sentence = ins_sentence (fst (finalize (write_all (write_value dl) (InsertionStream ident) vs) crlf));
             t = Tokenizer d sentence
         in t_valid t \<and> t_identifier t = ident \<and> t_fieldCount t = length vs
          \<and> (\<exists>e. read_all (read_value dl zero) (ExtractionStream t) olds
                   = (e, replicate (length vs) nmea_ok, vs) \<and> ex_atEnd e)"
  using any_field.roundtrip [OF assms] by (simp only: Let_def) blast

definition sample_doubles :: "int doubles" where
  "sample_doubles =
     \<lparr>dl_isfinite = \<lambda>_. True, dl_to_chars = show_int,
      dl_from_chars = (\<lambda>s. case from_chars (- 1000) 1000 s of
         (ec, n, v) \<Rightarrow> (case v of None \<Rightarrow> None | Some x \<Rightarrow> Some (x, n))),
      dl_strtod = (\<lambda>s. (0, 0, True))\<rparr>"

lemma sample_double_good: "good_double sample_doubles 37"
  by (simp add: good_double_def sample_doubles_def from_chars_show no_delim_def show_int_avoids
      code_def)

theorem nmea_sentence_roundtrip_witness:
  "let sentence = ins_sentence (fst (finalize (write_all (write_value sample_doubles)
          (InsertionStream ''WIMWV'') [NInt (- 12), NOptChr None, NChr CHR ''R'', NDbl 37]) True));
       t = Tokenizer 0 sentence
   in t_valid t \<and> t_identifier t = ''WIMWV'' \<and> t_fieldCount t = length [NInt (- 12), NOptChr None, NChr CHR ''R'', NDbl (37 :: int)]
    \<and> (\<exists>e. read_all (read_value sample_doubles 0) (ExtractionStream t)
             [NInt 0, NOptChr (Some CHR ''x''), NChr CHR ''x'', NDbl 0]
             = (e, replicate (length [NInt (- 12), NOptChr None, NChr CHR ''R'', NDbl (37 :: int)]) nmea_ok,
                [NInt (- 12), NOptChr None, NChr CHR ''R'', NDbl 37]) \<and> ex_atEnd e)"
  by (rule nmea_sentence_roundtrip)
    (simp_all add: in_int_def int_min_def int_max_def no_delim_def sample_double_good)

text \<open>What \<open>readInt\<close> does on every input. With no field left it reports \<open>FieldMissing\<close>, on an
empty field \<open>FieldEmpty\<close>, both with the index of the field and without moving; otherwise the field
is consumed, a decimal number in the range of \<open>int\<close> is stored, and a malformed or out-of-range
field is reported and leaves the result alone. The conversion errors carry index 0, whichever
field they are about.\<close>

theorem readInt_outcome:
  "case ex_readInt e out of (e', st, v) \<Rightarrow>
     let f = it_deref (ex_it e) in
     if ex_atEnd e \<or> f = []
     then ns_code st = (if ex_atEnd e then FieldMissing else FieldEmpty)
        \<and> ns_fieldIndex st = ex_index e \<and> v = out \<and> ex_it e' = ex_it e \<and> ex_index e' = ex_index e
     else ex_it e' = it_incr (ex_it e) \<and> ex_index e' = ex_index e + 1
        \<and> (case from_chars int_min int_max f of (ec, n, x) \<Rightarrow>
             if n = length f \<and> ec = NoErrc then st = nmea_ok \<and> x = Some v
             else ns_code st = (if n = length f \<and> ec = OutOfRange then IntegerOutOfRange else InvalidInteger)
                \<and> ns_fieldIndex st = 0 \<and> v = out)"
proof -
  have stored: "ec = NoErrc \<Longrightarrow> x \<noteq> None" if "from_chars lo hi s = (ec, n, x)" for lo hi s ec n x
    using that by (auto simp: from_chars_def Let_def split: if_splits)
  show ?thesis
    by (cases "from_chars int_min int_max (it_deref (ex_it e))", cases "fst (from_chars int_min int_max (it_deref (ex_it e)))")
      (auto simp: ex_readInt_def requireField_def parseInt_def ex_fail_def ex_step_def Let_def ns_ok_def
        nmea_ok_def dest: stored)
qed

end
