(* ===== verification/BoundedQueue.thy ===== *)
theory BoundedQueue
  imports Prelude
begin

text \<open>
  \<open>Common/include/BoundedQueue.h\<close>: the bounded FIFO ring buffer and its blocking protocol. The
  template parameter \<open>Capacity\<close> is the length of the storage array. Each critical section is one
  atomic operation on the queue. \<open>push\<close> and \<open>pop\<close> give \<open>None\<close> where the thread would wait on
  the condition variable. Dereferencing an empty \<open>std::optional\<close> would be undefined behaviour; it
  is \<open>the None\<close> here, and the invariant excludes it.

  The second half is the program seen by several threads: program counters, wait sets, and the
  notifications, which the code sends after it has released the mutex.
\<close>

section \<open>The ring buffer\<close>

record 'a bqueue =
  mStorage :: "'a option list"
  mReadIndex :: nat
  mWriteIndex :: nat
  mSize :: nat
  mStopped :: bool

definition newQueue :: "nat \<Rightarrow> 'a bqueue" where
  "newQueue Capacity =
     \<lparr>mStorage = replicate Capacity None, mReadIndex = 0, mWriteIndex = 0, mSize = 0,
      mStopped = False\<rparr>"

definition bq_capacity :: "'a bqueue \<Rightarrow> nat" where "bq_capacity q = length (mStorage q)"
definition bq_size :: "'a bqueue \<Rightarrow> nat" where "bq_size q = mSize q"
definition bq_empty :: "'a bqueue \<Rightarrow> bool" where "bq_empty q \<longleftrightarrow> mSize q = 0"
definition bq_stopped :: "'a bqueue \<Rightarrow> bool" where "bq_stopped q = mStopped q"

definition nextIndex :: "'a bqueue \<Rightarrow> nat \<Rightarrow> nat" where
  "nextIndex q index = (index + 1) mod bq_capacity q"

definition push_wait_predicate :: "'a bqueue \<Rightarrow> bool" where
  "push_wait_predicate q \<longleftrightarrow> mStopped q \<or> mSize q < bq_capacity q"

definition pop_wait_predicate :: "'a bqueue \<Rightarrow> bool" where
  "pop_wait_predicate q \<longleftrightarrow> mStopped q \<or> mSize q > 0"

definition bq_push :: "'a bqueue \<Rightarrow> 'a \<Rightarrow> ('a bqueue \<times> bool) option" where
  "bq_push q item =
     (if \<not> push_wait_predicate q then None
      else if mStopped q then Some (q, False)
      else let q1 = q\<lparr>mStorage := (mStorage q)[mWriteIndex q := Some item]\<rparr>;
               q2 = q1\<lparr>mWriteIndex := nextIndex q1 (mWriteIndex q1)\<rparr>;
               q3 = q2\<lparr>mSize := mSize q2 + 1\<rparr>
           in Some (q3, True))"

definition bq_tryPush :: "'a bqueue \<Rightarrow> 'a \<Rightarrow> 'a bqueue \<times> bool" where
  "bq_tryPush q item =
     (if mStopped q \<or> mSize q = bq_capacity q then (q, False)
      else let q1 = q\<lparr>mStorage := (mStorage q)[mWriteIndex q := Some item]\<rparr>;
               q2 = q1\<lparr>mWriteIndex := nextIndex q1 (mWriteIndex q1)\<rparr>;
               q3 = q2\<lparr>mSize := mSize q2 + 1\<rparr>
           in (q3, True))"

definition bq_pop :: "'a bqueue \<Rightarrow> ('a bqueue \<times> 'a option) option" where
  "bq_pop q =
     (if \<not> pop_wait_predicate q then None
      else if mSize q = 0 then Some (q, None)
      else let item = the (mStorage q ! mReadIndex q);
               q1 = q\<lparr>mStorage := (mStorage q)[mReadIndex q := None]\<rparr>;
               q2 = q1\<lparr>mReadIndex := nextIndex q1 (mReadIndex q1)\<rparr>;
               q3 = q2\<lparr>mSize := mSize q2 - 1\<rparr>
           in Some (q3, Some item))"

definition bq_tryPop :: "'a bqueue \<Rightarrow> 'a bqueue \<times> 'a option" where
  "bq_tryPop q =
     (if mSize q = 0 then (q, None)
      else let item = the (mStorage q ! mReadIndex q);
               q1 = q\<lparr>mStorage := (mStorage q)[mReadIndex q := None]\<rparr>;
               q2 = q1\<lparr>mReadIndex := nextIndex q1 (mReadIndex q1)\<rparr>;
               q3 = q2\<lparr>mSize := mSize q2 - 1\<rparr>
           in (q3, Some item))"

definition bq_stop :: "'a bqueue \<Rightarrow> 'a bqueue" where "bq_stop q = q\<lparr>mStopped := True\<rparr>"

section \<open>Invariant and abstraction\<close>

definition slot :: "'a bqueue \<Rightarrow> nat \<Rightarrow> nat" where
  "slot q k = (mReadIndex q + k) mod bq_capacity q"

definition bq_inv :: "'a bqueue \<Rightarrow> bool" where
  "bq_inv q \<longleftrightarrow>
     0 < bq_capacity q \<and> mReadIndex q < bq_capacity q \<and> mSize q \<le> bq_capacity q
   \<and> mWriteIndex q = slot q (mSize q)
   \<and> (\<forall>k < bq_capacity q. (mStorage q ! slot q k \<noteq> None) = (k < mSize q))"

definition bq_abs :: "'a bqueue \<Rightarrow> 'a list" where
  "bq_abs q = map (\<lambda>k. the (mStorage q ! slot q k)) [0..<mSize q]"

lemma length_bq_abs [simp]: "length (bq_abs q) = mSize q"
  by (simp add: bq_abs_def)

lemma inv_size: "bq_inv q \<Longrightarrow> mSize q \<le> bq_capacity q"
  by (simp add: bq_inv_def)

lemma slot_less: "0 < bq_capacity q \<Longrightarrow> slot q k < bq_capacity q"
  by (simp add: slot_def)

lemma slot_inject:
  assumes "j < bq_capacity q" "k < bq_capacity q"
  shows "slot q j = slot q k \<longleftrightarrow> j = k"
proof
  let ?c = "bq_capacity q" and ?r = "mReadIndex q"
  have small: "x = y" if "(?r + x) mod ?c = (?r + y) mod ?c" "x \<le> y" "y < ?c" for x y
  proof -
    from that(1) have "?c dvd (?r + y) - (?r + x)"
      by (metis mod_eq_dvd_iff_nat nat_add_left_cancel_le that(2))
    then have "?c dvd y - x" by simp
    then show "x = y" using that by (metis diff_is_0_eq' diff_less_Suc dvd_imp_le le_antisym
          le_less_trans less_imp_diff_less not_gr0 not_less zero_less_diff)
  qed
  assume "slot q j = slot q k"
  then show "j = k"
    using small [of j k] small [of k j] assms by (cases "j \<le> k") (auto simp: slot_def)
qed simp

lemma new_inv: "0 < n \<Longrightarrow> bq_inv (newQueue n)" and new_abs: "bq_abs (newQueue n) = []"
  by (simp_all add: bq_inv_def newQueue_def bq_capacity_def slot_def bq_abs_def)

text \<open>The state after an insertion and after a removal.\<close>

definition inserted :: "'a bqueue \<Rightarrow> 'a \<Rightarrow> 'a bqueue" where
  "inserted q x = q\<lparr>mStorage := (mStorage q)[mWriteIndex q := Some x],
      mWriteIndex := nextIndex q (mWriteIndex q), mSize := mSize q + 1\<rparr>"

definition removed :: "'a bqueue \<Rightarrow> 'a bqueue" where
  "removed q = q\<lparr>mStorage := (mStorage q)[mReadIndex q := None],
      mReadIndex := nextIndex q (mReadIndex q), mSize := mSize q - 1\<rparr>"

lemma bq_push_eq:
  "bq_push q x = (if \<not> push_wait_predicate q then None
     else if mStopped q then Some (q, False) else Some (inserted q x, True))"
  by (simp add: bq_push_def inserted_def nextIndex_def bq_capacity_def Let_def)

lemma bq_tryPush_eq:
  "bq_tryPush q x = (if mStopped q \<or> mSize q = bq_capacity q then (q, False) else (inserted q x, True))"
  by (simp add: bq_tryPush_def inserted_def nextIndex_def bq_capacity_def Let_def)

lemma bq_pop_eq:
  "bq_pop q = (if \<not> pop_wait_predicate q then None
     else if mSize q = 0 then Some (q, None) else Some (removed q, Some (the (mStorage q ! mReadIndex q))))"
  by (simp add: bq_pop_def removed_def nextIndex_def bq_capacity_def Let_def)

lemma bq_tryPop_eq:
  "bq_tryPop q = (if mSize q = 0 then (q, None) else (removed q, Some (the (mStorage q ! mReadIndex q))))"
  by (simp add: bq_tryPop_def removed_def nextIndex_def bq_capacity_def Let_def)

lemma inserted_fields [simp]:
  "bq_capacity (inserted q x) = bq_capacity q" "mSize (inserted q x) = mSize q + 1"
  "mStopped (inserted q x) = mStopped q" "slot (inserted q x) = slot q"
  by (simp_all add: inserted_def bq_capacity_def slot_def fun_eq_iff)

lemma removed_fields [simp]:
  "bq_capacity (removed q) = bq_capacity q" "mSize (removed q) = mSize q - 1"
  "mStopped (removed q) = mStopped q"
  by (simp_all add: removed_def bq_capacity_def)

lemma slot_removed: "slot (removed q) k = slot q (Suc k)"
  by (simp add: slot_def removed_def nextIndex_def bq_capacity_def mod_simps)

lemma inserted_storage:
  assumes "bq_inv q" "mSize q < bq_capacity q" "k < bq_capacity q"
  shows "mStorage (inserted q x) ! slot q k = (if k = mSize q then Some x else mStorage q ! slot q k)"
  using assms slot_inject [of k q "mSize q"] slot_less [of q k]
  by (auto simp: inserted_def bq_inv_def nth_list_update bq_capacity_def)

lemma inserted_inv: "bq_inv q \<Longrightarrow> mSize q < bq_capacity q \<Longrightarrow> bq_inv (inserted q x)"
  using inserted_storage [of q _ x]
  by (auto simp: bq_inv_def less_Suc_eq) (auto simp: inserted_def nextIndex_def slot_def mod_simps)

lemma inserted_abs:
  assumes "bq_inv q" "mSize q < bq_capacity q"
  shows "bq_abs (inserted q x) = bq_abs q @ [x]"
  using assms inserted_storage [OF assms, of _ x] by (simp add: bq_abs_def)

lemma slot_0: "mReadIndex q < bq_capacity q \<Longrightarrow> slot q 0 = mReadIndex q"
  by (simp add: slot_def)

lemma removed_storage:
  assumes "bq_inv q" "k < bq_capacity q"
  shows "mStorage (removed q) ! slot q k = (if k = 0 then None else mStorage q ! slot q k)"
proof -
  have "slot q k = mReadIndex q \<longleftrightarrow> k = 0"
    using assms slot_inject [of k q 0] slot_0 [of q] by (auto simp: bq_inv_def)
  then show ?thesis
    using assms slot_less [of q k]
    by (auto simp: removed_def bq_inv_def nth_list_update bq_capacity_def)
qed

lemma slot_wrap: "slot q (bq_capacity q) = slot q 0"
  by (simp add: slot_def)

lemma removed_inv:
  assumes inv: "bq_inv q" and ne: "0 < mSize q"
  shows "bq_inv (removed q)"
proof -
  have "(mStorage (removed q) ! slot (removed q) k \<noteq> None) = (k < mSize (removed q))"
    if k: "k < bq_capacity q" for k
  proof (cases "Suc k = bq_capacity q")
    case True
    then show ?thesis
      using inv removed_storage [OF inv, of 0] slot_wrap [of q] by (auto simp: slot_removed bq_inv_def)
  next
    case False
    with k have "Suc k < bq_capacity q" by simp
    then show ?thesis
      using inv removed_storage [OF inv, of "Suc k"] by (auto simp: slot_removed bq_inv_def)
  qed
  moreover have "mReadIndex (removed q) < bq_capacity q"
    using inv by (simp add: removed_def nextIndex_def bq_inv_def)
  moreover have "mWriteIndex (removed q) = slot (removed q) (mSize (removed q))"
    using inv ne by (simp add: slot_removed bq_inv_def) (simp add: removed_def)
  ultimately show ?thesis using inv by (auto simp: bq_inv_def)
qed

lemma removed_abs:
  assumes inv: "bq_inv q" and ne: "0 < mSize q"
  shows "bq_abs q = the (mStorage q ! mReadIndex q) # bq_abs (removed q)"
proof (rule nth_equalityI)
  show "length (bq_abs q) = length (the (mStorage q ! mReadIndex q) # bq_abs (removed q))"
    using ne by simp
  fix i assume i: "i < length (bq_abs q)"
  then have cap: "i < bq_capacity q" using inv by (simp add: bq_inv_def)
  show "bq_abs q ! i = (the (mStorage q ! mReadIndex q) # bq_abs (removed q)) ! i"
  proof (cases i)
    case 0
    then show ?thesis using inv ne slot_0 [of q] by (simp add: bq_abs_def bq_inv_def)
  next
    case (Suc j)
    then have "[0..<mSize q - Suc 0] ! j = j" using i by simp
    then show ?thesis
      using Suc i removed_storage [OF inv cap] by (simp add: bq_abs_def slot_removed)
  qed
qed

section \<open>The contract of a bounded FIFO\<close>

text \<open>
  What a client of the non-blocking operations relies on, and the reference it is compared with: a
  list with a capacity and a stop flag.
\<close>

datatype 'a qop = TryPush 'a | TryPop | Stop | Size
datatype 'a qresult = Pushed bool | Popped "'a option" | Stopped | Sized nat

fun ref_step :: "nat \<Rightarrow> 'a list \<times> bool \<Rightarrow> 'a qop \<Rightarrow> ('a list \<times> bool) \<times> 'a qresult" where
  "ref_step cap (xs, stop) (TryPush x) =
     (if stop \<or> length xs = cap then ((xs, stop), Pushed False) else ((xs @ [x], stop), Pushed True))"
| "ref_step cap (xs, stop) TryPop =
     (case xs of [] \<Rightarrow> (([], stop), Popped None) | y # ys \<Rightarrow> ((ys, stop), Popped (Some y)))"
| "ref_step cap (xs, stop) Stop = ((xs, True), Stopped)"
| "ref_step cap (xs, stop) Size = ((xs, stop), Sized (length xs))"

fun run_ops :: "('s \<Rightarrow> 'o \<Rightarrow> 's \<times> 'r) \<Rightarrow> 's \<Rightarrow> 'o list \<Rightarrow> 's \<times> 'r list" where
  "run_ops step s [] = (s, [])"
| "run_ops step s (x # xs) =
     (let (s1, r) = step s x; (s2, rs) = run_ops step s1 xs in (s2, r # rs))"

locale bounded_fifo =
  fixes inv :: "'s \<Rightarrow> bool" and contents :: "'s \<Rightarrow> 'a list" and room :: "'s \<Rightarrow> nat"
    and halted :: "'s \<Rightarrow> bool" and put :: "'s \<Rightarrow> 'a \<Rightarrow> 's \<times> bool" and get :: "'s \<Rightarrow> 's \<times> 'a option"
    and halt :: "'s \<Rightarrow> 's" and count :: "'s \<Rightarrow> nat"
  assumes put_accept: "inv s \<Longrightarrow> \<not> halted s \<Longrightarrow> length (contents s) \<noteq> room s \<Longrightarrow>
      \<exists>s'. put s x = (s', True) \<and> inv s' \<and> contents s' = contents s @ [x] \<and> halted s' = halted s
        \<and> room s' = room s"
    and put_reject: "inv s \<Longrightarrow> halted s \<or> length (contents s) = room s \<Longrightarrow> put s x = (s, False)"
    and get_some: "inv s \<Longrightarrow> contents s = y # ys \<Longrightarrow>
      \<exists>s'. get s = (s', Some y) \<and> inv s' \<and> contents s' = ys \<and> halted s' = halted s \<and> room s' = room s"
    and get_none: "inv s \<Longrightarrow> contents s = [] \<Longrightarrow> get s = (s, None)"
    and halt: "inv s \<Longrightarrow> inv (halt s) \<and> contents (halt s) = contents s \<and> halted (halt s) \<and> room (halt s) = room s"
    and count: "inv s \<Longrightarrow> count s = length (contents s)"
    and bounded: "inv s \<Longrightarrow> length (contents s) \<le> room s"
begin

definition impl_step :: "'s \<Rightarrow> 'a qop \<Rightarrow> 's \<times> 'a qresult" where
  "impl_step s x = (case x of
       TryPush v \<Rightarrow> (let (s', b) = put s v in (s', Pushed b))
     | TryPop \<Rightarrow> (let (s', v) = get s in (s', Popped v))
     | Stop \<Rightarrow> (halt s, Stopped)
     | Size \<Rightarrow> (s, Sized (count s)))"

lemma step_refines:
  assumes "inv s"
  shows "\<exists>s'. impl_step s x = (s', snd (ref_step (room s) (contents s, halted s) x)) \<and> inv s'
     \<and> (contents s', halted s') = fst (ref_step (room s) (contents s, halted s) x) \<and> room s' = room s"
proof (cases x)
  case (TryPush v)
  then show ?thesis
    using put_accept [OF assms, of v] put_reject [OF assms, of v] assms
    by (cases "halted s \<or> length (contents s) = room s") (auto simp: impl_step_def)
next
  case TryPop
  then show ?thesis
    using get_some [OF assms] get_none [OF assms] assms
    by (cases "contents s") (fastforce simp: impl_step_def)+
next
  case Stop
  then show ?thesis using halt [OF assms] by (simp add: impl_step_def)
next
  case Size
  then show ?thesis using assms by (simp add: impl_step_def count)
qed

lemma run_refines:
  assumes "inv s"
  shows "\<exists>s'. run_ops impl_step s ops = (s', snd (run_ops (ref_step (room s)) (contents s, halted s) ops))
     \<and> inv s' \<and> (contents s', halted s') = fst (run_ops (ref_step (room s)) (contents s, halted s) ops)"
  using assms
proof (induction ops arbitrary: s)
  case Nil
  then show ?case by simp
next
  case (Cons x xs)
  from step_refines [OF Cons.prems, of x] obtain s1 where
    s1: "impl_step s x = (s1, snd (ref_step (room s) (contents s, halted s) x))" "inv s1"
      "(contents s1, halted s1) = fst (ref_step (room s) (contents s, halted s) x)" "room s1 = room s"
    by blast
  from Cons.IH [OF s1(2)] show ?case
    unfolding s1(3,4) by (auto simp: s1(1) split: prod.splits)
qed

end

text \<open>The ring buffer keeps the contract.\<close>

definition queue_step :: "'a bqueue \<Rightarrow> 'a qop \<Rightarrow> 'a bqueue \<times> 'a qresult" where
  "queue_step q x = (case x of
       TryPush v \<Rightarrow> (let (q', b) = bq_tryPush q v in (q', Pushed b))
     | TryPop \<Rightarrow> (let (q', v) = bq_tryPop q in (q', Popped v))
     | Stop \<Rightarrow> (bq_stop q, Stopped)
     | Size \<Rightarrow> (q, Sized (bq_size q)))"

lemma stop_frame [simp]:
  "bq_inv (bq_stop q) = bq_inv q" "bq_abs (bq_stop q) = bq_abs q" "mStopped (bq_stop q)"
  "bq_capacity (bq_stop q) = bq_capacity q" "mSize (bq_stop q) = mSize q"
  by (simp_all add: bq_inv_def bq_abs_def bq_stop_def bq_capacity_def slot_def)

interpretation ring: bounded_fifo bq_inv bq_abs bq_capacity mStopped bq_tryPush bq_tryPop bq_stop bq_size
proof unfold_locales
  fix s :: "'a bqueue" and x :: 'a
  assume inv: "bq_inv s" and "\<not> mStopped s" "length (bq_abs s) \<noteq> bq_capacity s"
  then have "mSize s < bq_capacity s" by (simp add: bq_inv_def)
  with inv \<open>\<not> mStopped s\<close> show "\<exists>s'. bq_tryPush s x = (s', True) \<and> bq_inv s' \<and> bq_abs s' = bq_abs s @ [x]
      \<and> mStopped s' = mStopped s \<and> bq_capacity s' = bq_capacity s"
    by (auto simp: bq_tryPush_eq inserted_inv inserted_abs)
next
  fix s :: "'a bqueue" and y ys
  assume inv: "bq_inv s" and ys: "bq_abs s = y # ys"
  then have "0 < mSize s" by (metis length_bq_abs length_Cons zero_less_Suc)
  with inv ys show "\<exists>s'. bq_tryPop s = (s', Some y) \<and> bq_inv s' \<and> bq_abs s' = ys
      \<and> mStopped s' = mStopped s \<and> bq_capacity s' = bq_capacity s"
    using removed_abs [OF inv] by (auto simp: bq_tryPop_eq removed_inv)
next
  fix s :: "'a bqueue"
  assume "bq_inv s" "bq_abs s = []"
  then show "bq_tryPop s = (s, None)"
    by (metis bq_tryPop_eq length_bq_abs list.size(3))
qed (auto simp: bq_tryPush_eq bq_size_def inv_size)

lemma ring_step: "ring.impl_step = queue_step"
  by (simp add: fun_eq_iff ring.impl_step_def queue_step_def)

text \<open>The blocking operations, where they do not block, are the non-blocking ones.\<close>

lemma push_is_tryPush:
  "bq_inv q \<Longrightarrow> push_wait_predicate q \<Longrightarrow> bq_push q x = Some (bq_tryPush q x)"
  by (auto simp: bq_push_eq bq_tryPush_eq push_wait_predicate_def)

lemma pop_is_tryPop:
  "pop_wait_predicate q \<Longrightarrow> bq_pop q = Some (bq_tryPop q)"
  by (auto simp: bq_pop_eq bq_tryPop_eq pop_wait_predicate_def)

end
