(* ===== verification/QueueThreads.thy ===== *)
theory QueueThreads
  imports BoundedQueue
begin

text \<open>
  The bounded queue of \<open>Common/include/BoundedQueue.h\<close> used by any number of threads. A state is the
  queue, one program counter per thread, and the items accepted and returned so far in the order
  of the critical sections. A step is one critical section, one wait, one wake-up or one
  notification. The code notifies after it has released the mutex, so other threads may run
  between the two; \<open>notify_one\<close> wakes any one of the threads that wait, and a waiting thread may
  also wake up on its own, as C++ allows.
\<close>

section \<open>Threads\<close>

datatype 'a pc =
  Idle
| AtPush 'a | SleepPush 'a | AtTryPush 'a | NotifyEmpty
| AtPop | SleepPop | AtTryPop | NotifyFull
| AtStop | NotifyAllEmpty | NotifyAllFull

record 'a psys =
  ps_queue :: "'a bqueue"
  ps_pc :: "'a pc list"
  ps_in :: "'a list"
  ps_out :: "'a list"

definition ps_goto :: "'a psys \<Rightarrow> nat \<Rightarrow> 'a pc \<Rightarrow> 'a psys" where
  "ps_goto s t p = s\<lparr>ps_pc := (ps_pc s)[t := p]\<rparr>"

fun entry :: "'a pc \<Rightarrow> bool" where
  "entry (AtPush x) = True" | "entry (AtTryPush x) = True" | "entry AtPop = True"
| "entry AtTryPop = True" | "entry AtStop = True" | "entry _ = False"

fun is_SleepPush :: "'a pc \<Rightarrow> bool" where
  "is_SleepPush (SleepPush x) = True" | "is_SleepPush _ = False"

fun wake_pop :: "'a pc \<Rightarrow> 'a pc" where
  "wake_pop SleepPop = AtPop" | "wake_pop p = p"

fun wake_push :: "'a pc \<Rightarrow> 'a pc" where
  "wake_push (SleepPush x) = AtPush x" | "wake_push p = p"

definition take_out :: "'a option \<Rightarrow> 'a list" where
  "take_out v = (case v of None \<Rightarrow> [] | Some x \<Rightarrow> [x])"

text \<open>One step of thread \<open>t\<close>.\<close>

inductive thread_step :: "nat \<Rightarrow> 'a psys \<Rightarrow> 'a psys \<Rightarrow> bool" for t where
  call: "t < length (ps_pc s) \<Longrightarrow> ps_pc s ! t = Idle \<Longrightarrow> entry p \<Longrightarrow> thread_step t s (ps_goto s t p)"
| push_wait: "t < length (ps_pc s) \<Longrightarrow> ps_pc s ! t = AtPush x \<Longrightarrow> bq_push (ps_queue s) x = None \<Longrightarrow>
    thread_step t s (ps_goto s t (SleepPush x))"
| push_done: "t < length (ps_pc s) \<Longrightarrow> ps_pc s ! t = AtPush x \<Longrightarrow>
    bq_push (ps_queue s) x = Some (q, ok) \<Longrightarrow>
    thread_step t s ((ps_goto s t (if ok then NotifyEmpty else Idle))
      \<lparr>ps_queue := q, ps_in := ps_in s @ (if ok then [x] else [])\<rparr>)"
| push_wake: "t < length (ps_pc s) \<Longrightarrow> ps_pc s ! t = SleepPush x \<Longrightarrow>
    thread_step t s (ps_goto s t (AtPush x))"
| try_push: "t < length (ps_pc s) \<Longrightarrow> ps_pc s ! t = AtTryPush x \<Longrightarrow>
    bq_tryPush (ps_queue s) x = (q, ok) \<Longrightarrow>
    thread_step t s ((ps_goto s t (if ok then NotifyEmpty else Idle))
      \<lparr>ps_queue := q, ps_in := ps_in s @ (if ok then [x] else [])\<rparr>)"
| notify_empty: "t < length (ps_pc s) \<Longrightarrow> ps_pc s ! t = NotifyEmpty \<Longrightarrow>
    u < length (ps_pc s) \<Longrightarrow> ps_pc s ! u = SleepPop \<Longrightarrow>
    thread_step t s (ps_goto (ps_goto s t Idle) u AtPop)"
| notify_empty_none: "t < length (ps_pc s) \<Longrightarrow> ps_pc s ! t = NotifyEmpty \<Longrightarrow>
    SleepPop \<notin> set (ps_pc s) \<Longrightarrow> thread_step t s (ps_goto s t Idle)"
| pop_wait: "t < length (ps_pc s) \<Longrightarrow> ps_pc s ! t = AtPop \<Longrightarrow> bq_pop (ps_queue s) = None \<Longrightarrow>
    thread_step t s (ps_goto s t SleepPop)"
| pop_done: "t < length (ps_pc s) \<Longrightarrow> ps_pc s ! t = AtPop \<Longrightarrow> bq_pop (ps_queue s) = Some (q, v) \<Longrightarrow>
    thread_step t s ((ps_goto s t (if v = None then Idle else NotifyFull))
      \<lparr>ps_queue := q, ps_out := ps_out s @ take_out v\<rparr>)"
| pop_wake: "t < length (ps_pc s) \<Longrightarrow> ps_pc s ! t = SleepPop \<Longrightarrow>
    thread_step t s (ps_goto s t AtPop)"
| try_pop: "t < length (ps_pc s) \<Longrightarrow> ps_pc s ! t = AtTryPop \<Longrightarrow> bq_tryPop (ps_queue s) = (q, v) \<Longrightarrow>
    thread_step t s ((ps_goto s t (if v = None then Idle else NotifyFull))
      \<lparr>ps_queue := q, ps_out := ps_out s @ take_out v\<rparr>)"
| notify_full: "t < length (ps_pc s) \<Longrightarrow> ps_pc s ! t = NotifyFull \<Longrightarrow>
    u < length (ps_pc s) \<Longrightarrow> ps_pc s ! u = SleepPush x \<Longrightarrow>
    thread_step t s (ps_goto (ps_goto s t Idle) u (AtPush x))"
| notify_full_none: "t < length (ps_pc s) \<Longrightarrow> ps_pc s ! t = NotifyFull \<Longrightarrow>
    \<not> list_ex is_SleepPush (ps_pc s) \<Longrightarrow> thread_step t s (ps_goto s t Idle)"
| stop: "t < length (ps_pc s) \<Longrightarrow> ps_pc s ! t = AtStop \<Longrightarrow>
    thread_step t s ((ps_goto s t NotifyAllEmpty)\<lparr>ps_queue := bq_stop (ps_queue s)\<rparr>)"
| notify_all_empty: "t < length (ps_pc s) \<Longrightarrow> ps_pc s ! t = NotifyAllEmpty \<Longrightarrow>
    thread_step t s (s\<lparr>ps_pc := (map wake_pop (ps_pc s))[t := NotifyAllFull]\<rparr>)"
| notify_all_full: "t < length (ps_pc s) \<Longrightarrow> ps_pc s ! t = NotifyAllFull \<Longrightarrow>
    thread_step t s (s\<lparr>ps_pc := (map wake_push (ps_pc s))[t := Idle]\<rparr>)"

definition ps_start :: "nat \<Rightarrow> nat \<Rightarrow> 'a psys" where
  "ps_start Capacity n =
     \<lparr>ps_queue = newQueue Capacity, ps_pc = replicate n Idle, ps_in = [], ps_out = []\<rparr>"

inductive ps_reach :: "nat \<Rightarrow> nat \<Rightarrow> 'a psys \<Rightarrow> bool" for Capacity n where
  start: "ps_reach Capacity n (ps_start Capacity n)"
| step: "ps_reach Capacity n s \<Longrightarrow> thread_step t s s' \<Longrightarrow> ps_reach Capacity n s'"

section \<open>Counting program counters\<close>

definition cnt :: "('p \<Rightarrow> bool) \<Rightarrow> 'p list \<Rightarrow> nat" where "cnt P xs = length (filter P xs)"

lemma cnt_update:
  "i < length xs \<Longrightarrow> cnt P (xs[i := y]) + of_bool (P (xs ! i)) = cnt P xs + of_bool (P y)"
proof (induction xs arbitrary: i)
  case (Cons x xs)
  then show ?case by (cases i) (auto simp: cnt_def)
qed simp

lemma cnt_pos: "i < length xs \<Longrightarrow> P (xs ! i) \<Longrightarrow> 0 < cnt P xs"
  by (auto simp: cnt_def filter_empty_conv)

lemma cnt_zero: "cnt P xs = 0 \<longleftrightarrow> \<not> list_ex P xs"
  by (auto simp: cnt_def filter_empty_conv list_ex_iff)

lemma cnt_map: "cnt P (map f xs) = cnt (P \<circ> f) xs"
  by (simp add: cnt_def filter_map)

lemma cnt_False [simp]: "cnt (\<lambda>_. False) xs = 0"
  by (simp add: cnt_def)

fun runs_pop :: "'a pc \<Rightarrow> bool" where
  "runs_pop AtPop = True" | "runs_pop NotifyEmpty = True" | "runs_pop _ = False"

fun runs_push :: "'a pc \<Rightarrow> bool" where
  "runs_push (AtPush x) = True" | "runs_push NotifyFull = True" | "runs_push _ = False"

lemma wake_pop_facts [simp]:
  "is_SleepPush (wake_pop p) = is_SleepPush p" "runs_push (wake_pop p) = runs_push p"
  "wake_pop p \<noteq> SleepPop" "(wake_pop p = NotifyAllFull) = (p = NotifyAllFull)"
  by (cases p; simp)+

lemma wake_push_facts [simp]:
  "\<not> is_SleepPush (wake_push p)" "(wake_push p = SleepPop) = (p = SleepPop)"
  "(wake_push p = NotifyAllEmpty) = (p = NotifyAllEmpty)"
  by (cases p; simp)+

abbreviation "sleepers_pop s \<equiv> cnt (\<lambda>p. p = SleepPop) (ps_pc s)"
abbreviation "sleepers_push s \<equiv> cnt is_SleepPush (ps_pc s)"
abbreviation "active_pop s \<equiv> cnt runs_pop (ps_pc s)"
abbreviation "active_push s \<equiv> cnt runs_push (ps_pc s)"
abbreviation "stops_empty s \<equiv> cnt (\<lambda>p. p = NotifyAllEmpty) (ps_pc s)"
abbreviation "stops_full s \<equiv> cnt (\<lambda>p. p = NotifyAllFull) (ps_pc s)"

text \<open>
  No wake-up is lost: while a consumer waits, every stored item has a consumer that is about to
  look or a notification still to be sent, and dually for producers and free slots. Once the
  queue is stopped, a thread that still waits has the notification of \<open>stop\<close> ahead.
\<close>

definition wake_inv :: "'a psys \<Rightarrow> bool" where
  "wake_inv s \<longleftrightarrow>
     (0 < sleepers_pop s \<and> \<not> mStopped (ps_queue s) \<longrightarrow> mSize (ps_queue s) \<le> active_pop s)
   \<and> (0 < sleepers_push s \<and> \<not> mStopped (ps_queue s) \<longrightarrow>
        bq_capacity (ps_queue s) \<le> mSize (ps_queue s) + active_push s)
   \<and> (0 < sleepers_pop s \<and> mStopped (ps_queue s) \<longrightarrow> 0 < stops_empty s)
   \<and> (0 < sleepers_push s \<and> mStopped (ps_queue s) \<longrightarrow> 0 < stops_empty s + stops_full s)
   \<and> (0 < stops_empty s + stops_full s \<longrightarrow> mStopped (ps_queue s))"

definition data_inv :: "'a psys \<Rightarrow> bool" where
  "data_inv s \<longleftrightarrow> bq_inv (ps_queue s) \<and> ps_in s = ps_out s @ bq_abs (ps_queue s)"

lemma goto_simps [simp]:
  "ps_pc (ps_goto s t p) = (ps_pc s)[t := p]" "ps_queue (ps_goto s t p) = ps_queue s"
  "ps_in (ps_goto s t p) = ps_in s" "ps_out (ps_goto s t p) = ps_out s"
  by (simp_all add: ps_goto_def)

lemma push_result:
  assumes "bq_push q x = Some (q', ok)"
  shows "if ok then \<not> mStopped q \<and> mSize q < bq_capacity q \<and> q' = inserted q x
         else mStopped q \<and> q' = q"
  using assms by (auto simp: bq_push_eq push_wait_predicate_def split: if_splits)

lemma tryPush_result:
  assumes "bq_tryPush q x = (q', ok)" "bq_inv q"
  shows "if ok then \<not> mStopped q \<and> mSize q < bq_capacity q \<and> q' = inserted q x
         else q' = q"
  using assms inv_size [of q] by (auto simp: bq_tryPush_eq split: if_splits)

lemma pop_result:
  assumes "bq_pop q = Some (q', v)"
  shows "case v of None \<Rightarrow> mStopped q \<and> mSize q = 0 \<and> q' = q
         | Some x \<Rightarrow> 0 < mSize q \<and> q' = removed q \<and> x = the (mStorage q ! mReadIndex q)"
  using assms by (auto simp: bq_pop_eq pop_wait_predicate_def split: if_splits)

lemma tryPop_result:
  assumes "bq_tryPop q = (q', v)"
  shows "case v of None \<Rightarrow> mSize q = 0 \<and> q' = q
         | Some x \<Rightarrow> 0 < mSize q \<and> q' = removed q \<and> x = the (mStorage q ! mReadIndex q)"
  using assms by (auto simp: bq_tryPop_eq split: if_splits)

section \<open>The data invariant\<close>

lemma data_step: "thread_step t s s' \<Longrightarrow> data_inv s \<Longrightarrow> data_inv s'"
proof (induction rule: thread_step.induct)
  case (push_done s x q ok)
  then show ?case
    using push_result [OF push_done(3)]
    by (auto simp: data_inv_def inserted_inv inserted_abs split: if_splits)
next
  case (try_push s x q ok)
  then show ?case
    using tryPush_result [OF try_push(3)]
    by (auto simp: data_inv_def inserted_inv inserted_abs split: if_splits)
next
  case (pop_done s q v)
  then show ?case
    using pop_result [OF pop_done(3)] removed_abs [of "ps_queue s"] removed_inv [of "ps_queue s"]
    by (auto simp: data_inv_def take_out_def split: option.splits)
next
  case (try_pop s q v)
  then show ?case
    using tryPop_result [OF try_pop(3)] removed_abs [of "ps_queue s"] removed_inv [of "ps_queue s"]
    by (auto simp: data_inv_def take_out_def split: option.splits)
qed (simp_all add: data_inv_def)

lemma step_frame:
  "thread_step t s s' \<Longrightarrow> bq_capacity (ps_queue s') = bq_capacity (ps_queue s)
     \<and> length (ps_pc s') = length (ps_pc s) \<and> (mStopped (ps_queue s) \<longrightarrow> mStopped (ps_queue s'))"
proof (induction rule: thread_step.induct)
  case (push_done s x q ok)
  then show ?case using push_result [OF push_done(3)] by (auto split: if_splits)
next
  case (try_push s x q ok)
  then show ?case by (auto simp: bq_tryPush_eq split: if_splits)
next
  case (pop_done s q v)
  then show ?case using pop_result [OF pop_done(3)] by (auto split: option.splits)
next
  case (try_pop s q v)
  then show ?case using tryPop_result [OF try_pop(3)] by (auto split: option.splits)
qed simp_all

section \<open>No lost wake-up\<close>

text \<open>How one program counter moves the six counts.\<close>

lemma counts_goto:
  assumes "t < length pc" "pc ! t = p"
  shows "cnt (\<lambda>p. p = SleepPop) (pc[t := y]) + of_bool (p = SleepPop)
           = cnt (\<lambda>p. p = SleepPop) pc + of_bool (y = SleepPop)"
    and "cnt is_SleepPush (pc[t := y]) + of_bool (is_SleepPush p)
           = cnt is_SleepPush pc + of_bool (is_SleepPush y)"
    and "cnt runs_pop (pc[t := y]) + of_bool (runs_pop p) = cnt runs_pop pc + of_bool (runs_pop y)"
    and "cnt runs_push (pc[t := y]) + of_bool (runs_push p) = cnt runs_push pc + of_bool (runs_push y)"
    and "cnt (\<lambda>p. p = NotifyAllEmpty) (pc[t := y]) + of_bool (p = NotifyAllEmpty)
           = cnt (\<lambda>p. p = NotifyAllEmpty) pc + of_bool (y = NotifyAllEmpty)"
    and "cnt (\<lambda>p. p = NotifyAllFull) (pc[t := y]) + of_bool (p = NotifyAllFull)
           = cnt (\<lambda>p. p = NotifyAllFull) pc + of_bool (y = NotifyAllFull)"
  using assms(2) cnt_update [OF assms(1), of "\<lambda>p. p = SleepPop" y] cnt_update [OF assms(1), of is_SleepPush y]
    cnt_update [OF assms(1), of runs_pop y] cnt_update [OF assms(1), of runs_push y]
    cnt_update [OF assms(1), of "\<lambda>p. p = NotifyAllEmpty" y]
    cnt_update [OF assms(1), of "\<lambda>p. p = NotifyAllFull" y]
  by (simp_all only:)

lemma wake_step: "thread_step t s s' \<Longrightarrow> bq_inv (ps_queue s) \<Longrightarrow> wake_inv s \<Longrightarrow> wake_inv s'"
proof (induction rule: thread_step.induct)
  case (call s p)
  then show ?case
    using counts_goto [OF call(1,2), of p] by (cases p) (auto simp: wake_inv_def)
next
  case (push_wait s x)
  then have "\<not> mStopped (ps_queue s)" "bq_capacity (ps_queue s) \<le> mSize (ps_queue s)"
    by (auto simp: bq_push_eq push_wait_predicate_def split: if_splits)
  then show ?case
    using push_wait counts_goto [OF push_wait(1,2), of "SleepPush x"] by (auto simp: wake_inv_def)
next
  case (push_done s x q ok)
  then show ?case
    using push_result [OF push_done(3)] counts_goto [OF push_done(1,2), of NotifyEmpty]
      counts_goto [OF push_done(1,2), of Idle]
    by (cases ok) (auto simp: wake_inv_def)
next
  case (push_wake s x)
  then show ?case
    using counts_goto [OF push_wake(1,2), of "AtPush x"] by (auto simp: wake_inv_def)
next
  case (try_push s x q ok)
  then show ?case
    using tryPush_result [OF try_push(3)] counts_goto [OF try_push(1,2), of NotifyEmpty]
      counts_goto [OF try_push(1,2), of Idle]
    by (cases ok) (auto simp: wake_inv_def)
next
  case (notify_empty s u)
  let ?pc = "(ps_pc s)[t := Idle]"
  have u: "u < length ?pc" "?pc ! u = SleepPop"
    using notify_empty by (auto simp: nth_list_update)
  show ?case
    using notify_empty counts_goto [OF notify_empty(1,2), of Idle] counts_goto [OF u, of AtPop]
    by (auto simp: wake_inv_def)
next
  case (notify_empty_none s)
  then have "sleepers_pop s = 0" by (auto simp: cnt_zero list_ex_iff)
  then show ?case
    using notify_empty_none counts_goto [OF notify_empty_none(1,2), of Idle]
    by (auto simp: wake_inv_def)
next
  case (pop_wait s)
  then have "\<not> mStopped (ps_queue s)" "mSize (ps_queue s) = 0"
    by (auto simp: bq_pop_eq pop_wait_predicate_def split: if_splits)
  then show ?case
    using pop_wait counts_goto [OF pop_wait(1,2), of SleepPop] by (auto simp: wake_inv_def)
next
  case (pop_done s q v)
  then show ?case
    using pop_result [OF pop_done(3)] counts_goto [OF pop_done(1,2), of NotifyFull]
      counts_goto [OF pop_done(1,2), of Idle]
    by (cases v) (auto simp: wake_inv_def)
next
  case (pop_wake s)
  then show ?case
    using counts_goto [OF pop_wake(1,2), of AtPop] by (auto simp: wake_inv_def)
next
  case (try_pop s q v)
  then show ?case
    using tryPop_result [OF try_pop(3)] counts_goto [OF try_pop(1,2), of NotifyFull]
      counts_goto [OF try_pop(1,2), of Idle]
    by (cases v) (auto simp: wake_inv_def)
next
  case (notify_full s u x)
  let ?pc = "(ps_pc s)[t := Idle]"
  have u: "u < length ?pc" "?pc ! u = SleepPush x"
    using notify_full by (auto simp: nth_list_update)
  show ?case
    using notify_full counts_goto [OF notify_full(1,2), of Idle] counts_goto [OF u, of "AtPush x"]
    by (auto simp: wake_inv_def)
next
  case (notify_full_none s)
  then have "sleepers_push s = 0" by (simp add: cnt_zero)
  then show ?case
    using notify_full_none counts_goto [OF notify_full_none(1,2), of Idle]
    by (auto simp: wake_inv_def)
next
  case (stop s)
  then show ?case
    using counts_goto [OF stop(1,2), of NotifyAllEmpty] by (auto simp: wake_inv_def)
next
  case (notify_all_empty s)
  let ?pc = "map wake_pop (ps_pc s)"
  have t: "t < length ?pc" "?pc ! t = NotifyAllEmpty" using notify_all_empty by simp_all
  have same: "cnt is_SleepPush ?pc = cnt is_SleepPush (ps_pc s)" "cnt runs_push ?pc = cnt runs_push (ps_pc s)"
    "cnt (\<lambda>p. p = SleepPop) ?pc = 0" "cnt (\<lambda>p. p = NotifyAllFull) ?pc = cnt (\<lambda>p. p = NotifyAllFull) (ps_pc s)"
    by (simp_all add: cnt_map wake_pop_facts comp_def cnt_False)
  have "mStopped (ps_queue s)"
    using notify_all_empty cnt_pos [OF notify_all_empty(1), of "\<lambda>p. p = NotifyAllEmpty"]
    by (simp add: wake_inv_def)
  then show ?case
    using notify_all_empty counts_goto [OF t, of NotifyAllFull] same by (auto simp: wake_inv_def)
next
  case (notify_all_full s)
  let ?pc = "map wake_push (ps_pc s)"
  have t: "t < length ?pc" "?pc ! t = NotifyAllFull" using notify_all_full by simp_all
  have same: "cnt is_SleepPush ?pc = 0" "cnt (\<lambda>p. p = SleepPop) ?pc = cnt (\<lambda>p. p = SleepPop) (ps_pc s)"
    "cnt (\<lambda>p. p = NotifyAllEmpty) ?pc = cnt (\<lambda>p. p = NotifyAllEmpty) (ps_pc s)"
    by (simp_all add: cnt_map wake_push_facts comp_def cnt_False)
  have "mStopped (ps_queue s)"
    using notify_all_full cnt_pos [OF notify_all_full(1), of "\<lambda>p. p = NotifyAllFull"]
    by (simp add: wake_inv_def)
  then show ?case
    using notify_all_full counts_goto [OF t, of Idle] same by (auto simp: wake_inv_def)
qed

section \<open>Reachable states\<close>

lemma start_inv:
  assumes "0 < Capacity"
  shows "data_inv (ps_start Capacity n) \<and> wake_inv (ps_start Capacity n)"
proof
  show "data_inv (ps_start Capacity n)"
    using assms by (simp add: data_inv_def ps_start_def new_inv new_abs)
  show "wake_inv (ps_start Capacity n)"
    by (simp add: wake_inv_def ps_start_def newQueue_def cnt_def)
qed

lemma reach_inv:
  assumes "ps_reach Capacity n s" "0 < Capacity"
  shows "data_inv s \<and> wake_inv s \<and> bq_capacity (ps_queue s) = Capacity \<and> length (ps_pc s) = n"
  using assms
proof (induction rule: ps_reach.induct)
  case start
  then show ?case
    using start_inv [of Capacity n] by (simp add: ps_start_def newQueue_def bq_capacity_def)
next
  case (step s t s')
  then show ?case
    using data_step [OF step(2)] wake_step [OF step(2)] step_frame [OF step(2)]
    by (simp add: data_inv_def)
qed

text \<open>A state in which no thread has anything left to do on its own: each is outside the queue or
waits on a condition variable.\<close>

definition quiet :: "'a psys \<Rightarrow> bool" where
  "quiet s \<longleftrightarrow> list_all (\<lambda>p. p = Idle \<or> p = SleepPop \<or> is_SleepPush p) (ps_pc s)"

lemma quiet_counts:
  assumes "quiet s"
  shows "active_pop s = 0" "active_push s = 0" "stops_empty s = 0" "stops_full s = 0"
proof -
  have no: "cnt P (ps_pc s) = 0" if "\<And>p. p = Idle \<or> p = SleepPop \<or> is_SleepPush p \<Longrightarrow> \<not> P p" for P
    using assms that by (auto simp: quiet_def cnt_zero list_all_iff list_ex_iff)
  have runs: "\<not> runs_pop p \<and> \<not> runs_push p \<and> p \<noteq> NotifyAllEmpty \<and> p \<noteq> NotifyAllFull"
    if "p = Idle \<or> p = SleepPop \<or> is_SleepPush p" for p :: "'a pc"
    using that by (cases p) auto
  show "active_pop s = 0" "active_push s = 0" "stops_empty s = 0" "stops_full s = 0"
    using runs by (intro no; blast)+
qed

section \<open>Properties\<close>

text \<open>C21: The ring buffer is a bounded FIFO queue. From an empty queue of any positive capacity,
every sequence of \<open>tryPush\<close>, \<open>tryPop\<close>, \<open>stop\<close> and \<open>size\<close> gives, call by call, the results of a
plain list with that capacity and a stop flag: refusal exactly when full or stopped, items in
insertion order, draining after a stop.\<close>

theorem ring_buffer_refines_list:
  assumes "0 < Capacity"
  shows "snd (run_ops queue_step (newQueue Capacity) ops)
    = snd (run_ops (ref_step Capacity) ([], False) ops)"
proof -
  have "bq_capacity (newQueue Capacity :: 'a bqueue) = Capacity" "\<not> mStopped (newQueue Capacity :: 'a bqueue)"
    by (simp_all add: newQueue_def bq_capacity_def)
  then show ?thesis
    using ring.run_refines [OF new_inv [OF assms], of ops] by (auto simp: ring_step new_abs)
qed

theorem ring_buffer_refines_list_witness:
  "snd (run_ops queue_step (newQueue 2) [TryPush (7 :: nat), TryPush 8, TryPush 9, TryPop, Stop, TryPop])
    = snd (run_ops (ref_step 2) ([], False) [TryPush (7 :: nat), TryPush 8, TryPush 9, TryPop, Stop, TryPop])"
  by (rule ring_buffer_refines_list) simp

text \<open>C15: FIFO order and the bound hold under every interleaving of any number of threads: in every
reachable state the items returned so far, followed by the queue's contents, are the items
accepted so far in order, the size is the number of stored items and never exceeds the capacity,
and every item the queue hands out is one that was stored (no empty slot is ever read).\<close>

theorem interleaved_fifo:
  assumes "ps_reach Capacity n s" "0 < Capacity"
  shows "ps_in s = ps_out s @ bq_abs (ps_queue s)
    \<and> bq_size (ps_queue s) = length (ps_in s) - length (ps_out s)
    \<and> bq_size (ps_queue s) \<le> Capacity
    \<and> (bq_size (ps_queue s) = 0 \<or> mStorage (ps_queue s) ! mReadIndex (ps_queue s) \<noteq> None)"
proof -
  have inv: "bq_inv (ps_queue s)" and io: "ps_in s = ps_out s @ bq_abs (ps_queue s)"
    and cap: "bq_capacity (ps_queue s) = Capacity"
    using reach_inv [OF assms] by (simp_all add: data_inv_def)
  have "mSize (ps_queue s) = 0 \<or> mStorage (ps_queue s) ! slot (ps_queue s) 0 \<noteq> None"
    using inv unfolding bq_inv_def by blast
  then show ?thesis
    using io inv_size [OF inv] inv slot_0 [of "ps_queue s"] cap
    by (simp add: bq_size_def bq_inv_def)
qed

definition sample_busy :: "nat psys" where
  "sample_busy = (ps_goto (ps_goto (ps_start 1 1) 0 (AtPush 7)) 0 NotifyEmpty)
     \<lparr>ps_queue := inserted (newQueue 1) 7, ps_in := [7]\<rparr>"

lemma sample_reach: "ps_reach 1 1 sample_busy"
proof -
  let ?s1 = "ps_goto (ps_start 1 1) 0 (AtPush (7 :: nat))"
  have "thread_step 0 (ps_start 1 1) ?s1"
    by (rule call) (simp_all add: ps_start_def)
  moreover have "thread_step 0 ?s1 ((ps_goto ?s1 0 (if True then NotifyEmpty else Idle))
      \<lparr>ps_queue := inserted (newQueue 1) 7, ps_in := ps_in ?s1 @ (if True then [7] else [])\<rparr>)"
    by (rule push_done)
      (simp_all add: ps_start_def bq_push_eq push_wait_predicate_def newQueue_def bq_capacity_def)
  moreover have "ps_in ?s1 = []" by (simp add: ps_start_def)
  ultimately show ?thesis
    using ps_reach.step [OF ps_reach.step [OF ps_reach.start]]
    by (simp add: sample_busy_def)
qed

theorem interleaved_fifo_witness:
  "ps_in sample_busy = ps_out sample_busy @ bq_abs (ps_queue sample_busy)
    \<and> bq_size (ps_queue sample_busy) = 1
    \<and> mStorage (ps_queue sample_busy) ! mReadIndex (ps_queue sample_busy) \<noteq> None"
  using interleaved_fifo [OF sample_reach zero_less_one]
  by (simp add: sample_busy_def bq_size_def inserted_def ps_start_def newQueue_def)

text \<open>C24: No lost wake-up and no deadlock in the blocking protocol. Take any reachable state in
which every thread is outside the queue or waits on a condition variable. If a consumer waits,
the queue is empty and not stopped; if a producer waits, the queue is full and not stopped. So
waiting threads always wait for a reason, a stopped queue has none, and producers and consumers
never wait at the same time, although notifications are sent outside the mutex and one at a
time.\<close>

theorem no_lost_wakeup:
  assumes "ps_reach Capacity n s" "0 < Capacity" "quiet s"
  shows "(SleepPop \<in> set (ps_pc s) \<longrightarrow> bq_size (ps_queue s) = 0 \<and> \<not> bq_stopped (ps_queue s))
    \<and> (list_ex is_SleepPush (ps_pc s) \<longrightarrow>
         bq_size (ps_queue s) = Capacity \<and> \<not> bq_stopped (ps_queue s))"
proof -
  have w: "wake_inv s" and cap: "bq_capacity (ps_queue s) = Capacity"
    and le: "mSize (ps_queue s) \<le> bq_capacity (ps_queue s)"
    using reach_inv [OF assms(1,2)] inv_size [of "ps_queue s"] by (auto simp: data_inv_def)
  have "0 < sleepers_pop s" if "SleepPop \<in> set (ps_pc s)"
    using that by (auto simp: cnt_def filter_empty_conv)
  moreover have "0 < sleepers_push s" if "list_ex is_SleepPush (ps_pc s)"
    using that cnt_zero [of is_SleepPush "ps_pc s"] by auto
  ultimately show ?thesis
    using w cap le quiet_counts [OF assms(3)]
    by (auto simp: wake_inv_def bq_size_def bq_stopped_def)
qed

lemma sample_quiet:
  "ps_reach 3 1 (ps_goto (ps_goto (ps_start 3 1) 0 AtPop) 0 (SleepPop :: nat pc))"
proof -
  let ?s1 = "ps_goto (ps_start 3 1) 0 (AtPop :: nat pc)"
  have "thread_step 0 (ps_start 3 1) ?s1"
    by (rule call) (simp_all add: ps_start_def)
  moreover have "thread_step 0 ?s1 (ps_goto ?s1 0 SleepPop)"
    by (rule pop_wait) (simp_all add: ps_start_def bq_pop_eq pop_wait_predicate_def newQueue_def)
  ultimately show ?thesis using ps_reach.start ps_reach.step by metis
qed

theorem no_lost_wakeup_witness:
  "let s = ps_goto (ps_goto (ps_start 3 1) 0 AtPop) 0 (SleepPop :: nat pc)
   in SleepPop \<in> set (ps_pc s) \<and> bq_size (ps_queue s) = 0 \<and> \<not> bq_stopped (ps_queue s)"
  using no_lost_wakeup [OF sample_quiet] by (simp add: quiet_def ps_start_def Let_def)

end
