(* ===== verification/Bytes.thy ===== *)
theory Bytes
  imports Checksum
begin

text \<open>
  \<open>Common/include/BdsCommon.h\<close> and \<open>Common/src/BdsCommon.cpp\<close>: byte views, endianness, the
  forward and reversed copies and the CRC-16/CCITT-FALSE routine. A view is the list of bytes it
  covers. The CRC lemmas show that the byte loop of the code is the bit-serial shift register of
  the CRC definition, that it is linear, and that it separates any two messages of one length
  which differ in one byte or in two adjacent bytes.
\<close>

section \<open>Endianness\<close>

datatype Endianness = Little | Big

datatype StreamError = NoError | BufferOverflow | BufferUnderflow | SizeLimitExceeded | InvalidData

definition endian_code :: "Endianness \<Rightarrow> u8" where
  "endian_code e = (case e of Little \<Rightarrow> 0 | Big \<Rightarrow> 1)"

text \<open>
  The object representation of an \<open>n\<close>-byte scalar on a machine of the given byte order, which
  is what \<open>memcpy\<close> to and from a byte array moves.
\<close>

definition mem_bytes :: "Endianness \<Rightarrow> nat \<Rightarrow> 'a::len word \<Rightarrow> bytes" where
  "mem_bytes host n v = (case host of Little \<Rightarrow> le_bytes n v | Big \<Rightarrow> rev (le_bytes n v))"

definition mem_word :: "Endianness \<Rightarrow> bytes \<Rightarrow> 'a::len word" where
  "mem_word host bs = (case host of Little \<Rightarrow> le_word bs | Big \<Rightarrow> le_word (rev bs))"

lemma length_mem_bytes [simp, bytes_simps]: "length (mem_bytes e n v) = n"
  by (simp add: mem_bytes_def split: Endianness.split)

lemma mem_word_mem_bytes:
  fixes v :: "'a::len word"
  shows "LENGTH('a) = 8 * n \<Longrightarrow> mem_word e (mem_bytes e n v) = v"
  by (simp add: mem_word_def mem_bytes_def le_word_le_bytes split: Endianness.split)

lemma mem_bytes_mem_word:
  assumes "LENGTH('a) = 8 * length bs"
  shows "mem_bytes e (length bs) (mem_word e bs :: 'a::len word) = bs"
  using assms le_bytes_le_word [of "rev bs", where 'a = 'a]
  by (simp add: mem_word_def mem_bytes_def le_bytes_le_word split: Endianness.split)

definition detectHostEndianness :: "Endianness \<Rightarrow> Endianness" where
  "detectHostEndianness host =
     (let firstByte = mem_bytes host 4 (0x01020304 :: u32)
      in if firstByte ! 0 = 0x04 then Little else Big)"

lemma detectHostEndianness_correct [simp]: "detectHostEndianness host = host"
  by (cases host) (simp_all add: detectHostEndianness_def mem_bytes_def le_bytes_def upt_rec)

section \<open>Sub-views\<close>

definition subview :: "'a list \<Rightarrow> nat \<Rightarrow> nat \<Rightarrow> 'a list" where
  "subview bytes offset len =
     (if offset > length bytes then []
      else (let available = length bytes - offset;
                viewSize = (if len \<le> available then len else available)
            in take viewSize (drop offset bytes)))"

lemma subview_eq [simp]: "subview bs off n = take n (drop off bs)"
  by (simp add: subview_def Let_def)

section \<open>Copies with optional byte reversal\<close>

text \<open>
  Both routines overwrite the first \<open>size\<close> bytes of the destination. The reversed copy is the
  code's index loop.
\<close>

definition copyForward :: "bytes \<Rightarrow> bytes \<Rightarrow> nat \<Rightarrow> bytes" where
  "copyForward destination source n = blit destination 0 (take n source)"

definition copyReversed :: "bytes \<Rightarrow> bytes \<Rightarrow> nat \<Rightarrow> bytes" where
  "copyReversed destination source n =
     fold (\<lambda>index d. d[index := source ! (n - 1 - index)]) [0..<n] destination"

lemma copyForward_eq [simp]:
  "length dst = n \<Longrightarrow> length src = n \<Longrightarrow> copyForward dst src n = src"
  by (simp add: copyForward_def)

lemma copyReversed_prefix:
  assumes "k \<le> n" "n \<le> length dst" "n \<le> length src"
  shows "fold (\<lambda>i d. d[i := src ! (n - 1 - i)]) [0..<k] dst
           = take k (rev (take n src)) @ drop k dst"
  using assms
proof (induction k)
  case 0
  then show ?case by simp
next
  case (Suc k)
  then have len: "k < length (rev (take n src))" and nth: "rev (take n src) ! k = src ! (n - 1 - k)"
    by (auto simp: rev_nth min_def)
  have "fold (\<lambda>i d. d[i := src ! (n - 1 - i)]) [0..<Suc k] dst
      = (take k (rev (take n src)) @ drop k dst)[k := src ! (n - 1 - k)]"
    using Suc by simp
  also have "\<dots> = take k (rev (take n src)) @ (drop k dst)[0 := src ! (n - 1 - k)]"
    using Suc.prems by (simp add: list_update_append min_def)
  also have "\<dots> = take (Suc k) (rev (take n src)) @ drop (Suc k) dst"
    using Suc.prems len nth by (simp add: take_Suc_conv_app_nth Cons_nth_drop_Suc [symmetric])
  finally show ?case .
qed

lemma copyReversed_eq [simp]:
  "length dst = n \<Longrightarrow> length src = n \<Longrightarrow> copyReversed dst src n = rev src"
  using copyReversed_prefix [of n n dst src] by (simp add: copyReversed_def)

text \<open>
  The two copies cancel the byte order of the host: copying forward when host and wire agree
  and reversed when they differ always gives the wire image.
\<close>

lemma copy_to_wire:
  assumes "length dst = n"
  shows "(if host \<noteq> wire then copyReversed dst (mem_bytes host n v) n
          else copyForward dst (mem_bytes host n v) n) = mem_bytes wire n v"
  using assms by (cases host; cases wire) (simp_all add: mem_bytes_def)

lemma copy_from_wire:
  assumes "length dst = n" "length src = n"
  shows "mem_word host (if host \<noteq> wire then copyReversed dst src n else copyForward dst src n)
           = mem_word wire src"
  using assms by (cases host; cases wire) (simp_all add: mem_word_def)

section \<open>CRC-16/CCITT-FALSE\<close>

definition Crc16CcittPolynomial :: u16 where "Crc16CcittPolynomial = 0x1021"
definition Crc16CcittInitialValue :: u16 where "Crc16CcittInitialValue = 0xFFFF"

definition crc_bit :: "u16 \<Rightarrow> u16" where
  "crc_bit crc = (if crc AND 0x8000 \<noteq> 0 then push_bit 1 crc XOR Crc16CcittPolynomial
                  else push_bit 1 crc)"

definition crc_byte :: "u16 \<Rightarrow> u8 \<Rightarrow> u16" where
  "crc_byte crc b = (crc_bit ^^ 8) (crc XOR push_bit 8 (ucast b))"

definition crc16CcittFalse :: "bytes \<Rightarrow> u16" where
  "crc16CcittFalse data = foldl crc_byte Crc16CcittInitialValue data"

subsection \<open>Bit-serial reference\<close>

text \<open>
  The definition of a CRC register: every message bit, most significant first, is compared with
  the bit that leaves the register, and the polynomial is added when they differ.
\<close>

definition lfsr_step :: "u16 \<Rightarrow> bool \<Rightarrow> u16" where
  "lfsr_step r x = push_bit 1 r XOR (if bit r 15 \<noteq> x then 0x1021 else 0)"

definition byte_bits :: "u8 \<Rightarrow> bool list" where
  "byte_bits b = map (\<lambda>i. bit b (7 - i)) [0..<8]"

definition lfsr_crc :: "bytes \<Rightarrow> u16" where
  "lfsr_crc data = foldl lfsr_step 0xFFFF (concat (map byte_bits data))"

lemma top_bit_mask: "crc AND 0x8000 \<noteq> 0 \<longleftrightarrow> bit (crc :: u16) 15"
proof -
  have "bit crc 15 \<longleftrightarrow> crc AND push_bit 15 1 \<noteq> 0"
    by (rule bit_iff_and_push_bit_not_eq_0)
  moreover have "push_bit 15 1 = (0x8000 :: u16)" by simp
  ultimately show ?thesis by simp
qed

lemma crc_bit_alt: "crc_bit c = push_bit 1 c XOR (if bit c 15 then 0x1021 else 0)"
  by (simp add: crc_bit_def top_bit_mask Crc16CcittPolynomial_def)

lemma crc_bit_xor: "crc_bit (c XOR w) = lfsr_step c (bit w 15) XOR push_bit 1 w"
proof -
  have "push_bit 1 (c XOR w) = push_bit 1 c XOR push_bit 1 w"
    by (rule push_bit_xor)
  then show ?thesis
    by (auto simp: crc_bit_alt lfsr_step_def bit_xor_iff ac_simps)
qed

lemma crc_bits_serial:
  "k \<le> 16 \<Longrightarrow>
   (crc_bit ^^ k) (c XOR w) = foldl lfsr_step c (map (\<lambda>i. bit w (15 - i)) [0..<k]) XOR push_bit k w"
proof (induction k)
  case 0
  then show ?case by simp
next
  case (Suc k)
  then have k: "k < 16" by simp
  let ?r = "foldl lfsr_step c (map (\<lambda>i. bit w (15 - i)) [0..<k])"
  have "bit (push_bit k w) 15 = bit w (15 - k)"
    using k by (simp add: bit_push_bit_iff)
  then have "(crc_bit ^^ Suc k) (c XOR w)
      = lfsr_step ?r (bit w (15 - k)) XOR push_bit 1 (push_bit k w)"
    using Suc by (simp add: crc_bit_xor)
  then show ?case
    by (simp add: push_bit_push_bit)
qed

lemma crc_byte_serial: "crc_byte c b = foldl lfsr_step c (byte_bits b)"
proof -
  let ?w = "push_bit 8 (ucast b) :: u16"
  have "map (\<lambda>i. bit ?w (15 - i)) [0..<8] = byte_bits b"
    by (auto simp: byte_bits_def bit_simps)
  moreover have "push_bit 8 ?w = 0"
    by (rule bit_word_eqI) (auto simp: bit_simps dest: bit_imp_le_length)
  ultimately show ?thesis
    by (simp add: crc_byte_def crc_bits_serial)
qed

lemma foldl_crc_serial: "foldl crc_byte c data = foldl lfsr_step c (concat (map byte_bits data))"
  by (induction data arbitrary: c) (simp_all add: crc_byte_serial)

lemma crc_is_lfsr: "crc16CcittFalse data = lfsr_crc data"
  by (simp add: crc16CcittFalse_def lfsr_crc_def foldl_crc_serial Crc16CcittInitialValue_def)

subsection \<open>Separation of messages\<close>

lemma bit_shift_left_one: "bit (push_bit 1 (c :: u16)) n \<longleftrightarrow> 0 < n \<and> n < 16 \<and> bit c (n - 1)"
  by (simp only: bit_push_bit_iff possible_bit_word) auto

lemma crc_bit_low: "bit (crc_bit c) 0 = bit c 15"
proof -
  have "bit (if bit c 15 then 0x1021 else 0 :: u16) 0 = bit c 15" by simp
  then show ?thesis
    by (simp only: crc_bit_alt bit_xor_iff bit_shift_left_one) simp
qed

lemma crc_bit_inject: "crc_bit c = crc_bit d \<longleftrightarrow> c = d"
proof
  assume eq: "crc_bit c = crc_bit d"
  then have top: "bit c 15 = bit d 15" by (metis crc_bit_low)
  with eq have "push_bit 1 c XOR (if bit d 15 then 0x1021 else 0)
      = push_bit 1 d XOR (if bit d 15 then 0x1021 else 0)"
    by (simp add: crc_bit_alt)
  then have shifted: "push_bit 1 c = push_bit 1 d"
    by (metis (no_types, lifting) xor.assoc xor.right_neutral xor_self_eq)
  show "c = d"
  proof (rule bit_word_eqI)
    fix n :: nat
    assume "n < LENGTH(16)"
    then have "n = 15 \<or> Suc n < 16" by auto
    moreover have "Suc n < 16 \<Longrightarrow> bit c n = bit (push_bit 1 c) (Suc n)"
      by (simp only: bit_shift_left_one) simp
    moreover have "Suc n < 16 \<Longrightarrow> bit d n = bit (push_bit 1 d) (Suc n)"
      by (simp only: bit_shift_left_one) simp
    ultimately show "bit c n = bit d n"
      using top shifted by auto
  qed
qed simp

lemma crc_bits_inject: "(crc_bit ^^ n) c = (crc_bit ^^ n) d \<longleftrightarrow> c = d"
  by (induction n) (simp_all add: crc_bit_inject)

lemma xor_left_cancel: "(c :: 'a::len word) XOR x = c XOR y \<longleftrightarrow> x = y"
  by (metis xor.assoc xor.left_neutral xor_self_eq)

lemma xor_right_cancel: "x XOR (c :: 'a::len word) = y XOR c \<longleftrightarrow> x = y"
  by (metis xor_left_cancel xor.commute)

lemma byte_high_inject: "(push_bit 8 (ucast (b :: u8)) :: u16) = push_bit 8 (ucast b') \<longleftrightarrow> b = b'"
proof
  assume eq: "(push_bit 8 (ucast b) :: u16) = push_bit 8 (ucast b')"
  show "b = b'"
  proof (rule bit_word_eqI)
    fix n :: nat
    assume "n < LENGTH(8)"
    then have "bit b n = bit (push_bit 8 (ucast b) :: u16) (n + 8)"
      and "bit b' n = bit (push_bit 8 (ucast b') :: u16) (n + 8)"
      by (simp_all add: bit_simps)
    with eq show "bit b n = bit b' n" by simp
  qed
qed simp

lemma crc_byte_inject_state: "crc_byte c b = crc_byte d b \<longleftrightarrow> c = d"
  by (simp add: crc_byte_def crc_bits_inject xor_right_cancel)

lemma crc_byte_inject_byte: "crc_byte c b = crc_byte c b' \<longleftrightarrow> b = b'"
  by (simp add: crc_byte_def crc_bits_inject xor_left_cancel byte_high_inject)

lemma foldl_crc_inject_state: "foldl crc_byte c bs = foldl crc_byte d bs \<longleftrightarrow> c = d"
  by (induction bs arbitrary: c d) (simp_all add: crc_byte_inject_state)

text \<open>Two bytes at once: the register after two bytes determines both.\<close>

lemma crc_bits_no_feedback: "k \<le> 8 \<Longrightarrow> (crc_bit ^^ k) (ucast (b :: u8)) = push_bit k (ucast b)"
proof (induction k)
  case 0
  then show ?case by simp
next
  case (Suc k)
  have "\<not> bit (push_bit k (ucast b) :: u16) 15"
    using Suc.prems by (auto simp: bit_simps dest: bit_imp_le_length)
  then have "crc_bit (push_bit k (ucast b)) = push_bit 1 (push_bit k (ucast b))"
    by (simp add: crc_bit_alt)
  with Suc show ?case
    by (simp add: push_bit_push_bit)
qed

lemma crc_bit_linear: "crc_bit (c XOR w) = crc_bit c XOR crc_bit w"
  by (auto simp: crc_bit_alt push_bit_xor bit_xor_iff ac_simps)

lemma crc_bits_linear: "(crc_bit ^^ n) (c XOR w) = (crc_bit ^^ n) c XOR (crc_bit ^^ n) w"
  by (induction n) (simp_all add: crc_bit_linear)

lemma crc_two_bytes:
  "crc_byte (crc_byte c a) b = (crc_bit ^^ 16) (c XOR push_bit 8 (ucast a) XOR ucast b)"
proof -
  have "crc_byte (crc_byte c a) b
      = (crc_bit ^^ 8) ((crc_bit ^^ 8) (c XOR push_bit 8 (ucast a)) XOR (crc_bit ^^ 8) (ucast b))"
    by (simp add: crc_byte_def crc_bits_no_feedback)
  also have "\<dots> = (crc_bit ^^ 8) ((crc_bit ^^ 8) (c XOR push_bit 8 (ucast a) XOR ucast b))"
    by (simp add: crc_bits_linear [of 8 "c XOR push_bit 8 (ucast a)" "ucast b", symmetric] xor.assoc)
  also have "\<dots> = (crc_bit ^^ (8 + 8)) (c XOR push_bit 8 (ucast a) XOR ucast b)"
    by (simp only: funpow_add o_apply)
  finally show ?thesis by simp
qed

lemma two_bytes_inject:
  assumes "(push_bit 8 (ucast a) :: u16) XOR ucast b = push_bit 8 (ucast a') XOR ucast b'"
  shows "(a :: u8) = a' \<and> (b :: u8) = b'"
proof
  let ?l = "(push_bit 8 (ucast a) :: u16) XOR ucast b"
  let ?r = "(push_bit 8 (ucast a') :: u16) XOR ucast b'"
  show "a = a'"
  proof (rule bit_word_eqI)
    fix n :: nat
    assume "n < LENGTH(8)"
    then have "bit a n = bit ?l (n + 8)" and "bit a' n = bit ?r (n + 8)"
      by (auto simp: bit_simps dest: bit_imp_le_length)
    with assms show "bit a n = bit a' n" by simp
  qed
  show "b = b'"
  proof (rule bit_word_eqI)
    fix n :: nat
    assume "n < LENGTH(8)"
    then have "bit b n = bit ?l n" and "bit b' n = bit ?r n"
      by (auto simp: bit_simps)
    with assms show "bit b n = bit b' n" by simp
  qed
qed

lemma crc_two_bytes_inject:
  assumes "crc_byte (crc_byte c a) b = crc_byte (crc_byte c a') b'"
  shows "a = a' \<and> b = b'"
proof -
  have "c XOR push_bit 8 (ucast a) XOR ucast b = c XOR push_bit 8 (ucast a') XOR ucast b'"
    using assms by (simp add: crc_two_bytes crc_bits_inject)
  then have "(push_bit 8 (ucast a) :: u16) XOR ucast b = push_bit 8 (ucast a') XOR ucast b'"
    by (simp add: xor.assoc xor_left_cancel)
  then show ?thesis by (rule two_bytes_inject)
qed

interpretation crc: burst_checksum crc16CcittFalse
proof unfold_locales
  fix b b' :: u8 and pre post :: bytes
  assume "b \<noteq> b'"
  then show "crc16CcittFalse (pre @ b # post) \<noteq> crc16CcittFalse (pre @ b' # post)"
    by (simp add: crc16CcittFalse_def foldl_crc_inject_state crc_byte_inject_byte)
next
  fix a b a' b' :: u8 and pre post :: bytes
  assume "(a, b) \<noteq> (a', b')"
  then show "crc16CcittFalse (pre @ a # b # post) \<noteq> crc16CcittFalse (pre @ a' # b' # post)"
    using crc_two_bytes_inject
    by (auto simp: crc16CcittFalse_def foldl_crc_inject_state)
qed

subsection \<open>Evaluation\<close>

text \<open>Rules that let the simplifier run the CRC on literal bytes.\<close>

named_theorems crc_eval \<open>evaluation of the CRC on literals\<close>

lemma top_bit_less: "bit (c :: u16) 15 \<longleftrightarrow> \<not> c < 0x8000"
proof -
  have "bit c 15 = bit (unat c) 15" by (simp add: bit_unsigned_iff)
  also have "\<dots> = odd (unat c div 2 ^ 15)" by (rule bit_iff_odd)
  finally have "bit c 15 = odd (unat c div 2 ^ 15)" .
  moreover have "unat c < 2 ^ 16" using unsigned_less [of c] by simp
  then have "unat c div 2 ^ 15 < 2" by simp
  moreover have "c < 0x8000 \<longleftrightarrow> unat c div 2 ^ 15 = 0"
    by (simp add: word_less_nat_alt div_eq_0_iff)
  ultimately show ?thesis
    by (metis One_nat_def even_zero less_2_cases odd_one)
qed

lemma crc_bit_eval [crc_eval]: "crc_bit c = (if c < 0x8000 then c * 2 else (c * 2) XOR 0x1021)"
  by (simp add: crc_bit_alt top_bit_less)

lemma crc_byte_eval [crc_eval]:
  "crc_byte c b =
     crc_bit (crc_bit (crc_bit (crc_bit (crc_bit (crc_bit (crc_bit (crc_bit (c XOR ucast b * 256))))))))"
  by (simp add: crc_byte_def numeral_eq_Suc push_bit_eq_mult)

lemma crc16_eval [crc_eval]: "crc16CcittFalse bs = foldl crc_byte 0xFFFF bs"
  by (simp add: crc16CcittFalse_def Crc16CcittInitialValue_def)

lemma crc_check_value:
  "crc16CcittFalse (map (of_nat :: nat \<Rightarrow> u8) [49, 50, 51, 52, 53, 54, 55, 56, 57]) = 0x29B1"
  by (simp add: crc_eval)

section \<open>Properties\<close>

text \<open>C32: The byte-wise CRC loop with its eight shift-and-test rounds is the mathematical
CRC-16/CCITT-FALSE: it equals the bit-serial feedback register over polynomial 0x1021, started at
0xFFFF and fed the message bits most significant first, and the standard check string gives the
documented check value 0x29B1.\<close>

theorem crc16_is_ccitt_false:
  "crc16CcittFalse data
     = foldl (\<lambda>r x. push_bit 1 r XOR (if bit r 15 \<noteq> x then Crc16CcittPolynomial else 0)) 0xFFFF
         (concat (map (\<lambda>b. map (\<lambda>i. bit b (7 - i)) [0..<8]) data))
   \<and> crc16CcittFalse (map (of_nat :: nat \<Rightarrow> u8) [49, 50, 51, 52, 53, 54, 55, 56, 57]) = 0x29B1"
  using crc_is_lfsr [of data] crc_check_value
  by (simp only: lfsr_crc_def lfsr_step_def [abs_def] byte_bits_def [abs_def]
      Crc16CcittPolynomial_def)

text \<open>Error detection of the CRC: two messages that agree except for one byte or for two
adjacent bytes (every burst of up to nine bits, and every burst inside two bytes, is such a
change) never have the same CRC, whatever surrounds the change.\<close>

theorem crc16_detects_bursts:
  assumes "xs \<noteq> ys" "length xs = length ys" "length xs \<le> 2"
  shows "crc16CcittFalse (pre @ xs @ post) \<noteq> crc16CcittFalse (pre @ ys @ post)"
proof -
  consider "length xs = 0" | "length xs = 1" | "length xs = 2"
    using assms(3) by linarith
  then show ?thesis
  proof cases
    case 1
    then show ?thesis using assms by simp
  next
    case 2
    then obtain a b where "xs = [a]" "ys = [b]"
      using assms(2) by (auto simp: length_Suc_conv)
    then show ?thesis using assms(1) crc.chk_byte by simp
  next
    case 3
    then obtain a b a' b' where "xs = [a, b]" "ys = [a', b']"
      using assms(2) by (auto simp: length_Suc_conv numeral_2_eq_2)
    then show ?thesis using assms(1) crc.chk_pair [of a b a' b'] by simp
  qed
qed

theorem crc16_detects_bursts_witness:
  "crc16CcittFalse ([1] @ [2, 3] @ [4]) \<noteq> crc16CcittFalse ([1] @ [0x82, 0x13] @ [4])"
  by (rule crc16_detects_bursts) simp_all

end
