(* ===== verification/WriteStream.thy ===== *)
theory WriteStream
  imports Bytes
begin

text \<open>
  \<open>Common/include/BinaryWriteStream.h\<close> and \<open>Common/src/BinaryWriteStream.cpp\<close>. A writer holds
  the buffer behind its view, the write position and the latched error. A \<open>float\<close> or \<open>double\<close> is
  its IEEE bit pattern, which is what the code copies; a signed integer is an \<open>int\<close> whose two's
  complement image is written. Every primitive is shown to be \<open>writeRawBytes\<close> of a byte string
  that does not depend on the host's byte order.
\<close>

section \<open>State\<close>

record wstream =
  w_buf :: bytes
  w_pos :: nat
  w_err :: StreamError
  w_host :: Endianness
  w_wire :: Endianness
  w_swap :: bool
  w_max :: u32

text \<open>The constructor; the first argument is the byte order of the machine it runs on.\<close>

definition BinaryWriteStream :: "Endianness \<Rightarrow> bytes \<Rightarrow> Endianness \<Rightarrow> u32 \<Rightarrow> wstream" where
  "BinaryWriteStream machine buffer wireEndianness maxSizedField =
     (let host = detectHostEndianness machine
      in \<lparr>w_buf = buffer, w_pos = 0, w_err = NoError, w_host = host, w_wire = wireEndianness,
          w_swap = (host \<noteq> wireEndianness), w_max = maxSizedField\<rparr>)"

definition defaultMaxSizedField :: u32 where "defaultMaxSizedField = 0x00FFFFFF"

definition w_ok :: "wstream \<Rightarrow> bool" where "w_ok s \<longleftrightarrow> w_err s = NoError"
definition w_error :: "wstream \<Rightarrow> StreamError" where "w_error s = w_err s"
definition bytesWritten :: "wstream \<Rightarrow> nat" where "bytesWritten s = w_pos s"

definition w_remaining :: "wstream \<Rightarrow> nat" where
  "w_remaining s = (if w_pos s \<le> length (w_buf s) then length (w_buf s) - w_pos s else 0)"

section \<open>Operations\<close>

definition ensureCapacity :: "wstream \<Rightarrow> nat \<Rightarrow> bool \<times> wstream" where
  "ensureCapacity s n =
     (if w_remaining s < n then (False, s\<lparr>w_err := BufferOverflow\<rparr>) else (True, s))"

definition writeRawBytes :: "wstream \<Rightarrow> bytes \<Rightarrow> wstream" where
  "writeRawBytes s data =
     (if \<not> w_ok s then s
      else case ensureCapacity s (length data) of
             (False, s') \<Rightarrow> s'
           | (True, s') \<Rightarrow> s'\<lparr>w_buf := blit (w_buf s') (w_pos s') data,
                             w_pos := w_pos s' + length data\<rparr>)"

definition writeScalar :: "wstream \<Rightarrow> 'a::len word \<Rightarrow> wstream" where
  "writeScalar s value =
     (if \<not> w_ok s then s
      else let n = LENGTH('a) div 8
           in case ensureCapacity s n of
                (False, s') \<Rightarrow> s'
              | (True, s') \<Rightarrow>
                  let tmp = mem_bytes (w_host s') n value;
                      dst = take n (drop (w_pos s') (w_buf s'));
                      dst' = (if w_swap s' then copyReversed dst tmp n else copyForward dst tmp n)
                  in s'\<lparr>w_buf := blit (w_buf s') (w_pos s') dst', w_pos := w_pos s' + n\<rparr>)"

definition writeUInt8 :: "wstream \<Rightarrow> u8 \<Rightarrow> wstream" where
  "writeUInt8 s v = writeRawBytes s [v]"

definition writeInt8 :: "wstream \<Rightarrow> int \<Rightarrow> wstream" where
  "writeInt8 s v = writeUInt8 s (word_of_int v)"

definition writeUInt16 :: "wstream \<Rightarrow> u16 \<Rightarrow> wstream" where
  "writeUInt16 s v = writeScalar s v"

definition writeInt16 :: "wstream \<Rightarrow> int \<Rightarrow> wstream" where
  "writeInt16 s v = (let tmp = word_of_int v in writeUInt16 s tmp)"

definition writeUInt32 :: "wstream \<Rightarrow> u32 \<Rightarrow> wstream" where
  "writeUInt32 s v = writeScalar s v"

definition writeInt32 :: "wstream \<Rightarrow> int \<Rightarrow> wstream" where
  "writeInt32 s v = (let tmp = word_of_int v in writeUInt32 s tmp)"

definition writeUInt64 :: "wstream \<Rightarrow> u64 \<Rightarrow> wstream" where
  "writeUInt64 s v = writeScalar s v"

definition writeInt64 :: "wstream \<Rightarrow> int \<Rightarrow> wstream" where
  "writeInt64 s v = (let tmp = word_of_int v in writeUInt64 s tmp)"

definition writeBool :: "wstream \<Rightarrow> bool \<Rightarrow> wstream" where
  "writeBool s v = (let b = (if v then 1 else 0) in writeUInt8 s b)"

definition writeFloat :: "wstream \<Rightarrow> u32 \<Rightarrow> wstream" where
  "writeFloat s float_bits = writeUInt32 s float_bits"

definition writeDouble :: "wstream \<Rightarrow> u64 \<Rightarrow> wstream" where
  "writeDouble s double_bits = writeUInt64 s double_bits"

definition long_size_bytes :: "u32 \<Rightarrow> bytes" where
  "long_size_bytes n = [0xFF, ucast (drop_bit 16 n AND 0xFF), ucast (drop_bit 8 n AND 0xFF),
                        ucast (n AND 0xFF)]"

definition writeSize :: "wstream \<Rightarrow> u32 \<Rightarrow> wstream" where
  "writeSize s n =
     (if \<not> w_ok s then s
      else if n > w_max s \<or> n > 0x00FFFFFF then s\<lparr>w_err := SizeLimitExceeded\<rparr>
      else if n \<le> 254 then writeUInt8 s (ucast n)
      else let tmp = long_size_bytes n in writeRawBytes s tmp)"

definition writeBytes :: "wstream \<Rightarrow> bytes \<Rightarrow> wstream" where
  "writeBytes s bs =
     (if \<not> w_ok s then s
      else case ensureCapacity s (length bs) of
             (False, s') \<Rightarrow> s'
           | (True, s') \<Rightarrow> s'\<lparr>w_buf := blit (w_buf s') (w_pos s') bs,
                             w_pos := w_pos s' + length bs\<rparr>)"

definition writeString :: "wstream \<Rightarrow> bytes \<Rightarrow> wstream" where
  "writeString s text =
     (let s' = writeSize s (of_nat (length text))
      in if \<not> w_ok s' then s' else writeRawBytes s' text)"

section \<open>Well-formed writers\<close>

definition w_wf :: "wstream \<Rightarrow> bool" where
  "w_wf s \<longleftrightarrow> w_pos s \<le> length (w_buf s) \<and> w_swap s = (w_host s \<noteq> w_wire s)"

definition written :: "wstream \<Rightarrow> bytes" where
  "written s = take (w_pos s) (w_buf s)"

lemma w_wf_new [simp]: "w_wf (BinaryWriteStream m buf e mx)"
  by (simp add: w_wf_def BinaryWriteStream_def Let_def)

lemma new_writer_fields [simp]:
  "w_buf (BinaryWriteStream m buf e mx) = buf" "w_pos (BinaryWriteStream m buf e mx) = 0"
  "w_err (BinaryWriteStream m buf e mx) = NoError" "w_wire (BinaryWriteStream m buf e mx) = e"
  "w_max (BinaryWriteStream m buf e mx) = mx" "w_host (BinaryWriteStream m buf e mx) = m"
  "w_ok (BinaryWriteStream m buf e mx)" "written (BinaryWriteStream m buf e mx) = []"
  by (simp_all add: BinaryWriteStream_def Let_def w_ok_def written_def)

lemma w_remaining_new [simp]: "w_remaining (BinaryWriteStream m buf e mx) = length buf"
  by (simp add: w_remaining_def)

section \<open>Raw writes\<close>

lemma writeBytes_raw [simp]: "writeBytes s bs = writeRawBytes s bs"
  by (simp add: writeBytes_def writeRawBytes_def)

lemma raw_latched [simp]: "\<not> w_ok s \<Longrightarrow> writeRawBytes s bs = s"
  by (simp add: writeRawBytes_def)

lemma raw_fits:
  "w_ok s \<Longrightarrow> length bs \<le> w_remaining s \<Longrightarrow>
   writeRawBytes s bs = s\<lparr>w_buf := blit (w_buf s) (w_pos s) bs, w_pos := w_pos s + length bs\<rparr>"
  by (simp add: writeRawBytes_def ensureCapacity_def not_less)

lemma raw_overflow:
  "w_ok s \<Longrightarrow> w_remaining s < length bs \<Longrightarrow> writeRawBytes s bs = s\<lparr>w_err := BufferOverflow\<rparr>"
  by (simp add: writeRawBytes_def ensureCapacity_def)

lemma raw_cases [case_names latched overflow fits]:
  fixes s :: wstream and bs :: bytes
  obtains "\<not> w_ok s" "writeRawBytes s bs = s"
  | "w_ok s" "w_remaining s < length bs" "writeRawBytes s bs = s\<lparr>w_err := BufferOverflow\<rparr>"
  | "w_ok s" "length bs \<le> w_remaining s"
    "writeRawBytes s bs
       = s\<lparr>w_buf := blit (w_buf s) (w_pos s) bs, w_pos := w_pos s + length bs\<rparr>"
  by (metis not_less raw_fits raw_latched raw_overflow)

lemma raw_ok_iff: "w_ok (writeRawBytes s bs) \<longleftrightarrow> w_ok s \<and> length bs \<le> w_remaining s"
  by (cases rule: raw_cases [of s bs]) (auto simp: w_ok_def)

lemma raw_frame [simp]:
  "w_host (writeRawBytes s bs) = w_host s" "w_wire (writeRawBytes s bs) = w_wire s"
  "w_swap (writeRawBytes s bs) = w_swap s" "w_max (writeRawBytes s bs) = w_max s"
  by (cases rule: raw_cases [of s bs]; simp)+

lemma raw_room: "w_wf s \<Longrightarrow> length bs \<le> w_remaining s \<Longrightarrow> w_pos s + length bs \<le> length (w_buf s)"
  by (auto simp: w_wf_def w_remaining_def)

lemma raw_wf [simp]: "w_wf s \<Longrightarrow> w_wf (writeRawBytes s bs)"
  using raw_room [of s bs]
  by (cases rule: raw_cases [of s bs]) (auto simp: w_wf_def)

lemma raw_length [simp]: "w_wf s \<Longrightarrow> length (w_buf (writeRawBytes s bs)) = length (w_buf s)"
  using raw_room [of s bs] by (cases rule: raw_cases [of s bs]) auto

lemma raw_pos: "w_ok (writeRawBytes s bs) \<Longrightarrow> w_pos (writeRawBytes s bs) = w_pos s + length bs"
  by (cases rule: raw_cases [of s bs]) (auto simp: w_ok_def)

lemma raw_remaining:
  "w_wf s \<Longrightarrow> w_ok (writeRawBytes s bs) \<Longrightarrow>
   w_remaining (writeRawBytes s bs) = w_remaining s - length bs"
  using raw_length [of s bs] raw_pos [of s bs]
  by (auto simp: w_remaining_def w_wf_def raw_ok_iff)

lemma raw_written: "w_wf s \<Longrightarrow> w_ok (writeRawBytes s bs) \<Longrightarrow> written (writeRawBytes s bs) = written s @ bs"
  using raw_room [of s bs]
  by (cases rule: raw_cases [of s bs]) (auto simp: w_ok_def written_def w_wf_def)

lemma raw_beyond:
  "w_wf s \<Longrightarrow> drop (w_pos (writeRawBytes s bs)) (w_buf (writeRawBytes s bs))
                = drop (w_pos (writeRawBytes s bs)) (w_buf s)"
  by (cases rule: raw_cases [of s bs]) (auto simp: w_wf_def)

lemma raw_Nil [simp]: "writeRawBytes s [] = s"
  by (cases "w_ok s") (simp_all add: raw_fits)

lemma raw_raw:
  assumes "w_wf s" and "length xs + length ys \<le> w_remaining s"
  shows "writeRawBytes (writeRawBytes s xs) ys = writeRawBytes s (xs @ ys)"
proof (cases "w_ok s")
  case True
  have 1: "w_ok (writeRawBytes s xs)" and 2: "length ys \<le> w_remaining (writeRawBytes s xs)"
    using assms True by (auto simp: raw_ok_iff raw_remaining)
  have room: "w_pos s + length xs + length ys \<le> length (w_buf s)"
    using raw_room [of s "xs @ ys"] assms by simp
  have "writeRawBytes (writeRawBytes s xs) ys
    = (writeRawBytes s xs)\<lparr>w_buf := blit (w_buf (writeRawBytes s xs)) (w_pos (writeRawBytes s xs)) ys,
                           w_pos := w_pos (writeRawBytes s xs) + length ys\<rparr>"
    by (rule raw_fits [OF 1 2])
  moreover have "writeRawBytes s xs = s\<lparr>w_buf := blit (w_buf s) (w_pos s) xs, w_pos := w_pos s + length xs\<rparr>"
    using True assms(2) by (simp add: raw_fits)
  moreover have "writeRawBytes s (xs @ ys)
    = s\<lparr>w_buf := blit (w_buf s) (w_pos s) (xs @ ys), w_pos := w_pos s + length (xs @ ys)\<rparr>"
    using True assms(2) by (intro raw_fits) auto
  ultimately show ?thesis
    using blit_blit_adjacent [OF room] by simp
qed simp

lemma raw_chain_ok:
  "w_wf s \<Longrightarrow>
   w_ok (writeRawBytes (writeRawBytes s xs) ys) \<longleftrightarrow> w_ok (writeRawBytes s (xs @ ys))"
  by (auto simp: raw_ok_iff raw_remaining)

text \<open>A chain of raw writes succeeds exactly when the whole text fits, and then is one write.\<close>

lemma raws_wf: "w_wf s \<Longrightarrow> w_wf (foldl writeRawBytes s bss)"
  by (induction bss arbitrary: s) simp_all

lemma raws_ok_iff:
  "w_wf s \<Longrightarrow> w_ok (foldl writeRawBytes s bss) \<longleftrightarrow> w_ok s \<and> length (concat bss) \<le> w_remaining s"
proof (induction bss arbitrary: s)
  case Nil
  then show ?case by simp
next
  case (Cons bs bss)
  then show ?case
    using raw_remaining [of s bs]
    by (cases "w_ok (writeRawBytes s bs)") (auto simp: raw_ok_iff)
qed

lemma raws_fit:
  "w_wf s \<Longrightarrow> length (concat bss) \<le> w_remaining s \<Longrightarrow>
   foldl writeRawBytes s bss = writeRawBytes s (concat bss)"
proof (induction bss arbitrary: s)
  case Nil
  then show ?case by simp
next
  case (Cons bs bss)
  show ?case
  proof (cases "w_ok s")
    case True
    with Cons.prems have "w_remaining (writeRawBytes s bs) = w_remaining s - length bs"
      by (intro raw_remaining) (auto simp: raw_ok_iff)
    then have "foldl writeRawBytes (writeRawBytes s bs) bss
        = writeRawBytes (writeRawBytes s bs) (concat bss)"
      using Cons.prems by (intro Cons.IH) auto
    then show ?thesis using Cons.prems by (simp add: raw_raw)
  next
    case False
    then have "foldl writeRawBytes s bss = s" by (induction bss) simp_all
    with False show ?thesis by simp
  qed
qed

section \<open>Every primitive is a raw write of its wire image\<close>

lemma writeScalar_raw [stream_simps]:
  fixes v :: "'a::len word"
  assumes "w_wf s"
  shows "writeScalar s v = writeRawBytes s (mem_bytes (w_wire s) (LENGTH('a) div 8) v)"
proof -
  let ?n = "LENGTH('a) div 8"
  have "?n \<le> w_remaining s \<Longrightarrow> length (take ?n (drop (w_pos s) (w_buf s))) = ?n"
    using assms by (auto simp: w_remaining_def w_wf_def)
  then have "?n \<le> w_remaining s \<Longrightarrow>
    (if w_swap s then copyReversed (take ?n (drop (w_pos s) (w_buf s))) (mem_bytes (w_host s) ?n v) ?n
     else copyForward (take ?n (drop (w_pos s) (w_buf s))) (mem_bytes (w_host s) ?n v) ?n)
      = mem_bytes (w_wire s) ?n v"
    using assms copy_to_wire [of "take ?n (drop (w_pos s) (w_buf s))" ?n "w_host s" "w_wire s" v]
    by (simp add: w_wf_def)
  then show ?thesis
    by (auto simp: writeScalar_def writeRawBytes_def ensureCapacity_def Let_def not_less)
qed

lemma writeUInt8_raw [stream_simps]: "writeUInt8 s v = writeRawBytes s [v]"
  by (simp add: writeUInt8_def)

lemma writeUInt16_raw [stream_simps]:
  "w_wf s \<Longrightarrow> writeUInt16 s v = writeRawBytes s (mem_bytes (w_wire s) 2 v)"
  by (simp add: writeUInt16_def writeScalar_raw)

lemma writeUInt32_raw [stream_simps]:
  "w_wf s \<Longrightarrow> writeUInt32 s v = writeRawBytes s (mem_bytes (w_wire s) 4 v)"
  by (simp add: writeUInt32_def writeScalar_raw)

lemma writeUInt64_raw [stream_simps]:
  "w_wf s \<Longrightarrow> writeUInt64 s v = writeRawBytes s (mem_bytes (w_wire s) 8 v)"
  by (simp add: writeUInt64_def writeScalar_raw)

lemmas write_derived_defs =
  writeInt8_def writeInt16_def writeInt32_def writeInt64_def writeBool_def writeFloat_def
  writeDouble_def Let_def

definition size_bytes :: "u32 \<Rightarrow> bytes" where
  "size_bytes n = (if n \<le> 254 then [ucast n] else long_size_bytes n)"

lemma writeSize_raw [stream_simps]:
  "n \<le> w_max s \<Longrightarrow> n \<le> 0x00FFFFFF \<Longrightarrow> writeSize s n = writeRawBytes s (size_bytes n)"
  by (auto simp: writeSize_def size_bytes_def writeUInt8_def Let_def not_less)

lemma writeSize_limit:
  "w_ok s \<Longrightarrow> n > w_max s \<or> n > 0x00FFFFFF \<Longrightarrow> writeSize s n = s\<lparr>w_err := SizeLimitExceeded\<rparr>"
  by (auto simp: writeSize_def)

lemma length_size_bytes: "length (size_bytes n) = (if n \<le> 254 then 1 else 4)"
  by (simp add: size_bytes_def long_size_bytes_def)

lemma writeString_raw [stream_simps]:
  assumes "w_wf s" "of_nat (length text) \<le> w_max s" "of_nat (length text) \<le> (0x00FFFFFF :: u32)"
  shows "writeString s text
     = writeRawBytes (writeRawBytes s (size_bytes (of_nat (length text)))) text"
  using assms by (auto simp: writeString_def writeSize_raw Let_def)

end
