(* ===== verification/ReadStream.thy ===== *)
theory ReadStream
  imports Bytes
begin

text \<open>
  \<open>Common/include/BinaryReadStream.h\<close> and \<open>Common/src/BinaryReadStream.cpp\<close>. A read takes the
  stream and the present value of its out parameter and returns both: on failure the parameter
  keeps its value. Views are the bytes they cover. The lemmas describe each read by the bytes it
  consumes.
\<close>

section \<open>State\<close>

record rstream =
  r_buf :: bytes
  r_pos :: nat
  r_err :: StreamError
  r_host :: Endianness
  r_wire :: Endianness
  r_swap :: bool
  r_max :: u32

definition BinaryReadStream :: "Endianness \<Rightarrow> bytes \<Rightarrow> Endianness \<Rightarrow> u32 \<Rightarrow> rstream" where
  "BinaryReadStream machine buffer wireEndianness maxSizedField =
     (let host = detectHostEndianness machine
      in \<lparr>r_buf = buffer, r_pos = 0, r_err = NoError, r_host = host, r_wire = wireEndianness,
          r_swap = (host \<noteq> wireEndianness), r_max = maxSizedField\<rparr>)"

definition r_ok :: "rstream \<Rightarrow> bool" where "r_ok r \<longleftrightarrow> r_err r = NoError"
definition r_error :: "rstream \<Rightarrow> StreamError" where "r_error r = r_err r"
definition bytesRead :: "rstream \<Rightarrow> nat" where "bytesRead r = r_pos r"

definition r_remaining :: "rstream \<Rightarrow> nat" where
  "r_remaining r = (if r_pos r \<le> length (r_buf r) then length (r_buf r) - r_pos r else 0)"

definition ensureAvailable :: "rstream \<Rightarrow> nat \<Rightarrow> bool \<times> rstream" where
  "ensureAvailable r n =
     (if r_remaining r < n then (False, r\<lparr>r_err := BufferUnderflow\<rparr>) else (True, r))"

section \<open>Operations\<close>

definition readUInt8 :: "rstream \<Rightarrow> u8 \<Rightarrow> rstream \<times> u8" where
  "readUInt8 r out =
     (if \<not> r_ok r then (r, out)
      else case ensureAvailable r 1 of
             (False, r') \<Rightarrow> (r', out)
           | (True, r') \<Rightarrow> (r'\<lparr>r_pos := r_pos r' + 1\<rparr>, r_buf r' ! r_pos r'))"

definition readScalar :: "rstream \<Rightarrow> 'a::len word \<Rightarrow> rstream \<times> 'a word" where
  "readScalar r out =
     (if \<not> r_ok r then (r, out)
      else let n = LENGTH('a) div 8
           in case ensureAvailable r n of
                (False, r') \<Rightarrow> (r', out)
              | (True, r') \<Rightarrow>
                  let src = take n (drop (r_pos r') (r_buf r'));
                      tmp = replicate n 0;
                      tmp' = (if r_swap r' then copyReversed tmp src n else copyForward tmp src n)
                  in (r'\<lparr>r_pos := r_pos r' + n\<rparr>, mem_word (r_host r') tmp'))"

definition readInt8 :: "rstream \<Rightarrow> int \<Rightarrow> rstream \<times> int" where
  "readInt8 r out = (let (r', tmp) = readUInt8 r 0 in (r', if r_ok r' then sint tmp else out))"

definition readUInt16 :: "rstream \<Rightarrow> u16 \<Rightarrow> rstream \<times> u16" where
  "readUInt16 r out = readScalar r out"

definition readInt16 :: "rstream \<Rightarrow> int \<Rightarrow> rstream \<times> int" where
  "readInt16 r out = (let (r', tmp) = readUInt16 r 0 in (r', if r_ok r' then sint tmp else out))"

definition readUInt32 :: "rstream \<Rightarrow> u32 \<Rightarrow> rstream \<times> u32" where
  "readUInt32 r out = readScalar r out"

definition readInt32 :: "rstream \<Rightarrow> int \<Rightarrow> rstream \<times> int" where
  "readInt32 r out = (let (r', tmp) = readUInt32 r 0 in (r', if r_ok r' then sint tmp else out))"

definition readUInt64 :: "rstream \<Rightarrow> u64 \<Rightarrow> rstream \<times> u64" where
  "readUInt64 r out = readScalar r out"

definition readInt64 :: "rstream \<Rightarrow> int \<Rightarrow> rstream \<times> int" where
  "readInt64 r out = (let (r', tmp) = readUInt64 r 0 in (r', if r_ok r' then sint tmp else out))"

definition readBool :: "rstream \<Rightarrow> bool \<Rightarrow> rstream \<times> bool" where
  "readBool r out = (let (r', b) = readUInt8 r 0 in (r', if r_ok r' then b \<noteq> 0 else out))"

definition readFloat :: "rstream \<Rightarrow> u32 \<Rightarrow> rstream \<times> u32" where
  "readFloat r out = (let (r', bits) = readUInt32 r 0 in (r', if r_ok r' then bits else out))"

definition readDouble :: "rstream \<Rightarrow> u64 \<Rightarrow> rstream \<times> u64" where
  "readDouble r out = (let (r', bits) = readUInt64 r 0 in (r', if r_ok r' then bits else out))"

definition readSize :: "rstream \<Rightarrow> u32 \<Rightarrow> rstream \<times> u32" where
  "readSize r out =
     (if \<not> r_ok r then (r, out)
      else case ensureAvailable r 1 of
        (False, r1) \<Rightarrow> (r1, out)
      | (True, r1) \<Rightarrow>
          let first = r_buf r1 ! r_pos r1
          in if first \<le> 254 then (r1\<lparr>r_pos := r_pos r1 + 1\<rparr>, ucast first)
             else case ensureAvailable r1 4 of
               (False, r2) \<Rightarrow> (r2, out)
             | (True, r2) \<Rightarrow>
                 let b0 = r_buf r2 ! (r_pos r2 + 0);
                     b1 = r_buf r2 ! (r_pos r2 + 1);
                     b2 = r_buf r2 ! (r_pos r2 + 2);
                     b3 = r_buf r2 ! (r_pos r2 + 3)
                 in if b0 \<noteq> 0xFF then (r2\<lparr>r_err := InvalidData\<rparr>, out)
                    else let n = push_bit 16 (ucast b1) OR push_bit 8 (ucast b2) OR ucast b3
                         in if n \<le> 254 \<or> n > r_max r2 then (r2\<lparr>r_err := InvalidData\<rparr>, out)
                            else (r2\<lparr>r_pos := r_pos r2 + 4\<rparr>, n))"

definition readBytesView :: "rstream \<Rightarrow> u32 \<Rightarrow> bytes \<Rightarrow> rstream \<times> bytes" where
  "readBytesView r n outView =
     (if \<not> r_ok r then (r, outView)
      else case ensureAvailable r (unat n) of
             (False, r') \<Rightarrow> (r', outView)
           | (True, r') \<Rightarrow> (r'\<lparr>r_pos := r_pos r' + unat n\<rparr>, subview (r_buf r') (r_pos r') (unat n)))"

definition readStringView :: "rstream \<Rightarrow> bytes \<Rightarrow> rstream \<times> bytes" where
  "readStringView r out =
     (let (r1, n) = readSize r 0
      in if \<not> r_ok r1 then (r1, out)
         else case ensureAvailable r1 (unat n) of
                (False, r2) \<Rightarrow> (r2, out)
              | (True, r2) \<Rightarrow> (r2\<lparr>r_pos := r_pos r2 + unat n\<rparr>,
                              take (unat n) (drop (r_pos r2) (r_buf r2))))"

section \<open>Well-formed readers\<close>

definition r_wf :: "rstream \<Rightarrow> bool" where
  "r_wf r \<longleftrightarrow> r_pos r \<le> length (r_buf r) \<and> r_swap r = (r_host r \<noteq> r_wire r)"

text \<open>The bytes not yet read, and the reader \<open>n\<close> bytes further on.\<close>

definition unread :: "rstream \<Rightarrow> bytes" where "unread r = drop (r_pos r) (r_buf r)"
definition adv :: "rstream \<Rightarrow> nat \<Rightarrow> rstream" where "adv r n = r\<lparr>r_pos := r_pos r + n\<rparr>"

lemma r_wf_new [simp]: "r_wf (BinaryReadStream m buf e mx)"
  by (simp add: r_wf_def BinaryReadStream_def Let_def)

lemma new_reader_fields [simp]:
  "r_buf (BinaryReadStream m buf e mx) = buf" "r_pos (BinaryReadStream m buf e mx) = 0"
  "r_err (BinaryReadStream m buf e mx) = NoError" "r_wire (BinaryReadStream m buf e mx) = e"
  "r_max (BinaryReadStream m buf e mx) = mx" "r_host (BinaryReadStream m buf e mx) = m"
  "r_ok (BinaryReadStream m buf e mx)" "unread (BinaryReadStream m buf e mx) = buf"
  by (simp_all add: BinaryReadStream_def Let_def r_ok_def unread_def)

lemma adv_fields [simp]:
  "r_buf (adv r n) = r_buf r" "r_pos (adv r n) = r_pos r + n" "r_err (adv r n) = r_err r"
  "r_wire (adv r n) = r_wire r" "r_host (adv r n) = r_host r" "r_swap (adv r n) = r_swap r"
  "r_max (adv r n) = r_max r" "r_ok (adv r n) = r_ok r"
  by (simp_all add: adv_def r_ok_def)

lemma adv_adv [simp]: "adv (adv r m) n = adv r (m + n)"
  by (simp add: adv_def)

lemma adv_0 [simp]: "adv r 0 = r"
  by (simp add: adv_def)

lemma unread_adv [simp]: "unread (adv r n) = drop n (unread r)"
  by (simp add: unread_def add.commute)

lemma remaining_unread: "r_wf r \<Longrightarrow> r_remaining r = length (unread r)"
  by (simp add: r_remaining_def unread_def r_wf_def)

lemma r_wf_adv [simp]: "r_wf r \<Longrightarrow> n \<le> length (unread r) \<Longrightarrow> r_wf (adv r n)"
  by (auto simp: r_wf_def unread_def)

lemma r_wf_err [simp]: "r_wf (r\<lparr>r_err := e\<rparr>) = r_wf r"
  by (simp add: r_wf_def)

lemma r_ok_err [simp]: "e \<noteq> NoError \<Longrightarrow> \<not> r_ok (r\<lparr>r_err := e\<rparr>)"
  by (simp add: r_ok_def)

section \<open>Effect of the reads\<close>

lemma readScalar_spec:
  fixes out :: "'a::len word"
  assumes "r_wf r"
  shows "readScalar r out =
     (if \<not> r_ok r then (r, out)
      else if length (unread r) < LENGTH('a) div 8 then (r\<lparr>r_err := BufferUnderflow\<rparr>, out)
      else (adv r (LENGTH('a) div 8), mem_word (r_wire r) (take (LENGTH('a) div 8) (unread r))))"
proof -
  let ?n = "LENGTH('a) div 8"
  have "mem_word (r_host r) (if r_swap r then copyReversed (replicate ?n 0) (take ?n (unread r)) ?n
                             else copyForward (replicate ?n 0) (take ?n (unread r)) ?n)
      = (mem_word (r_wire r) (take ?n (unread r)) :: 'a word)" if "?n \<le> length (unread r)"
  proof -
    from that have "length (take ?n (unread r)) = ?n" by simp
    from copy_from_wire [OF length_replicate this, of "r_host r" "r_wire r"] assms
    show ?thesis by (simp only: r_wf_def)
  qed
  then show ?thesis
    using remaining_unread [OF assms]
    by (auto simp: readScalar_def ensureAvailable_def Let_def adv_def unread_def not_less)
qed

lemma readUInt8_spec [stream_simps]:
  "r_wf r \<Longrightarrow> readUInt8 r out =
     (if \<not> r_ok r then (r, out)
      else case unread r of [] \<Rightarrow> (r\<lparr>r_err := BufferUnderflow\<rparr>, out) | b # _ \<Rightarrow> (adv r 1, b))"
  by (auto simp: readUInt8_def ensureAvailable_def remaining_unread adv_def unread_def
           split: list.split dest: arg_cong [of _ _ hd] simp: hd_drop_conv_nth)

lemma readUInt16_spec [stream_simps]:
  "r_wf r \<Longrightarrow> readUInt16 r out =
     (if \<not> r_ok r then (r, out)
      else if length (unread r) < 2 then (r\<lparr>r_err := BufferUnderflow\<rparr>, out)
      else (adv r 2, mem_word (r_wire r) (take 2 (unread r))))"
  by (simp add: readUInt16_def readScalar_spec)

lemma readUInt32_spec [stream_simps]:
  "r_wf r \<Longrightarrow> readUInt32 r out =
     (if \<not> r_ok r then (r, out)
      else if length (unread r) < 4 then (r\<lparr>r_err := BufferUnderflow\<rparr>, out)
      else (adv r 4, mem_word (r_wire r) (take 4 (unread r))))"
  by (simp add: readUInt32_def readScalar_spec)

lemma readUInt64_spec [stream_simps]:
  "r_wf r \<Longrightarrow> readUInt64 r out =
     (if \<not> r_ok r then (r, out)
      else if length (unread r) < 8 then (r\<lparr>r_err := BufferUnderflow\<rparr>, out)
      else (adv r 8, mem_word (r_wire r) (take 8 (unread r))))"
  by (simp add: readUInt64_def readScalar_spec)

lemma readBytesView_spec [stream_simps]:
  "r_wf r \<Longrightarrow> readBytesView r n out =
     (if \<not> r_ok r then (r, out)
      else if length (unread r) < unat n then (r\<lparr>r_err := BufferUnderflow\<rparr>, out)
      else (adv r (unat n), take (unat n) (unread r)))"
  by (auto simp: readBytesView_def ensureAvailable_def remaining_unread adv_def unread_def)

lemmas read_derived_defs =
  readInt8_def readInt16_def readInt32_def readInt64_def readBool_def readFloat_def
  readDouble_def Let_def

text \<open>Reads of a value whose wire image comes next.\<close>

lemma readUInt8_next:
  "r_wf r \<Longrightarrow> r_ok r \<Longrightarrow> unread r = b # rest \<Longrightarrow> readUInt8 r out = (adv r 1, b)"
  by (simp add: readUInt8_spec)

lemma readScalar_next:
  fixes v out :: "'a::len word"
  assumes "r_wf r" "r_ok r" "LENGTH('a) = 8 * n" "unread r = mem_bytes (r_wire r) n v @ rest"
  shows "readScalar r out = (adv r n, v)"
  using assms by (simp add: readScalar_spec mem_word_mem_bytes)

lemma long_size_value:
  fixes n :: u32
  assumes "n \<le> 0x00FFFFFF"
  shows "push_bit 16 (ucast (ucast (drop_bit 16 n AND 0xFF) :: u8))
           OR push_bit 8 (ucast (ucast (drop_bit 8 n AND 0xFF) :: u8))
           OR ucast (ucast (n AND 0xFF) :: u8) = n"
proof (rule bit_word_eqI)
  fix k :: nat
  assume "k < LENGTH(32)"
  then have k: "k < 32" by simp
  have mask: "(0xFF :: u32) = mask 8" by (simp add: mask_eq_exp_minus_1)
  have small: "unat n < 2 ^ 24"
    using assms by (simp add: word_le_nat_alt)
  have high: "24 \<le> k \<Longrightarrow> \<not> bit n k"
  proof -
    assume "24 \<le> k"
    then have "(2::nat) ^ 24 \<le> 2 ^ k" by (rule power_increasing) simp
    with small have "unat n div 2 ^ k = 0" by (simp add: div_eq_0_iff)
    then have "\<not> bit (unat n) k" by (simp add: bit_iff_odd)
    then show ?thesis using k by (simp add: bit_unsigned_iff)
  qed
  show "bit (push_bit 16 (ucast (ucast (drop_bit 16 n AND 0xFF) :: u8))
          OR push_bit 8 (ucast (ucast (drop_bit 8 n AND 0xFF) :: u8))
          OR ucast (ucast (n AND 0xFF) :: u8) :: u32) k = bit n k"
    using k high unfolding mask
    by (cases "k < 8"; cases "k < 16"; cases "k < 24") (auto simp: bit_simps not_less)
qed

end
