(* ===== verification/WireCodec.thy ===== *)
theory WireCodec
  imports WriteStream ReadStream
begin

text \<open>
  The contract between the two streams: what one primitive writes, its counterpart reads. The
  locale \<open>wire_codec\<close> states it for any pair of a write and a read operation; a message codec
  (header, request, observation, parameter) is one more instance. The last section chains
  primitives: a sequence of typed fields written in order is read back in order.
\<close>

locale wire_codec =
  fixes put :: "wstream \<Rightarrow> 'v \<Rightarrow> wstream"
    and get :: "rstream \<Rightarrow> 'v \<Rightarrow> rstream \<times> 'v"
    and enc :: "Endianness \<Rightarrow> 'v \<Rightarrow> bytes"
    and valid :: "'v \<Rightarrow> bool"
  assumes put_wf: "w_wf s \<Longrightarrow> w_wf (put s v)"
    and put_ok_iff: "w_wf s \<Longrightarrow>
          w_ok (put s v) \<longleftrightarrow> w_ok s \<and> length (enc (w_wire s) v) \<le> w_remaining s"
    and put_raw: "w_wf s \<Longrightarrow> length (enc (w_wire s) v) \<le> w_remaining s \<Longrightarrow>
          put s v = writeRawBytes s (enc (w_wire s) v)"
    and get_next: "r_wf r \<Longrightarrow> r_ok r \<Longrightarrow> valid v \<Longrightarrow> unread r = enc (r_wire r) v @ rest \<Longrightarrow>
          get r old = (adv r (length (enc (r_wire r) v)), v)"
begin

lemma put_ok_raw:
  "w_wf s \<Longrightarrow> w_ok (put s v) \<Longrightarrow>
     put s v = writeRawBytes s (enc (w_wire s) v) \<and> w_ok (writeRawBytes s (enc (w_wire s) v))"
  by (simp add: put_raw put_ok_iff raw_ok_iff)

lemma put_written: "w_wf s \<Longrightarrow> w_ok (put s v) \<Longrightarrow> written (put s v) = written s @ enc (w_wire s) v"
  using put_ok_raw [of s v] raw_written [of s "enc (w_wire s) v"] by simp

text \<open>Round trip: the bytes appended by \<open>put\<close>, wherever they stand, decode to the value.\<close>

lemma roundtrip:
  assumes "w_wf s" "w_ok (put s v)" "valid v"
    and "r_wf r" "r_ok r" "r_wire r = w_wire s"
    and "unread r = drop (w_pos s) (written (put s v)) @ rest"
  shows "get r old = (adv r (w_pos (put s v) - w_pos s), v)"
proof -
  have "drop (w_pos s) (written (put s v)) = enc (w_wire s) v"
    using put_written [OF assms(1,2)] assms(1) by (simp add: written_def w_wf_def)
  moreover have "w_pos (put s v) - w_pos s = length (enc (w_wire s) v)"
    using put_ok_raw [OF assms(1,2)] raw_pos [of s "enc (w_wire s) v"] by simp
  ultimately show ?thesis
    using get_next [of r v rest] assms by simp
qed

text \<open>The machine that writes and the machine that reads need not have the same byte order.\<close>

lemma portable:
  assumes "w_wf s" "w_wf s'" "w_wire s' = w_wire s" "w_ok (put s v)" "w_ok (put s' v)"
    and "written s' = written s"
  shows "written (put s' v) = written (put s v)"
  using assms by (simp add: put_written)

lemma fresh_roundtrip:
  assumes "valid v" and "w_ok (put (BinaryWriteStream m buf e mx) v)"
  shows "get (BinaryReadStream m' (written (put (BinaryWriteStream m buf e mx) v)) e mx') old
    = (adv (BinaryReadStream m' (written (put (BinaryWriteStream m buf e mx) v)) e mx')
         (bytesWritten (put (BinaryWriteStream m buf e mx) v)), v)"
  using roundtrip [of "BinaryWriteStream m buf e mx" v
      "BinaryReadStream m' (written (put (BinaryWriteStream m buf e mx) v)) e mx'" "[]"] assms
  by (simp add: bytesWritten_def)

end

text \<open>Codecs whose image always has the same number of bytes.\<close>

locale fixed_codec = wire_codec put get enc valid
  for put :: "wstream \<Rightarrow> 'v \<Rightarrow> wstream" and get enc valid +
  fixes width :: nat
  assumes enc_width: "length (enc e v) = width"
begin

lemma put_fits: "w_wf s \<Longrightarrow> w_ok s \<Longrightarrow> width \<le> w_remaining s \<Longrightarrow> w_ok (put s v)"
  by (simp add: put_ok_iff enc_width)

lemma put_pos: "w_wf s \<Longrightarrow> w_ok (put s v) \<Longrightarrow> w_pos (put s v) = w_pos s + width"
  using put_ok_raw [of s v] raw_pos [of s "enc (w_wire s) v"] by (simp add: enc_width)

lemma put_exact_buffer:
  assumes "length buf = width"
  shows "w_ok (put (BinaryWriteStream m buf e mx) v)"
    and "w_buf (put (BinaryWriteStream m buf e mx) v) = enc e v"
    and "bytesWritten (put (BinaryWriteStream m buf e mx) v) = width"
proof -
  let ?w = "BinaryWriteStream m buf e mx"
  show ok: "w_ok (put ?w v)"
    using assms by (intro put_fits) auto
  show pos: "bytesWritten (put ?w v) = width"
    using put_pos [OF _ ok] by (simp add: bytesWritten_def)
  have "length (w_buf (put ?w v)) = width"
    using raw_length [of ?w "enc e v"] put_ok_raw [OF _ ok] assms by simp
  then have "written (put ?w v) = w_buf (put ?w v)"
    using pos by (simp add: written_def bytesWritten_def)
  then show "w_buf (put ?w v) = enc e v"
    using put_written [OF _ ok] by simp
qed

end

section \<open>The primitives are codecs\<close>

lemma mem_word_u16: "mem_word e (mem_bytes e 2 (v :: u16)) = v"
  and mem_word_u32: "mem_word e (mem_bytes e 4 (w :: u32)) = w"
  and mem_word_u64: "mem_word e (mem_bytes e 8 (x :: u64)) = x"
  by (simp_all add: mem_word_mem_bytes)

lemmas mem_words [simp, stream_simps] = mem_word_u16 mem_word_u32 mem_word_u64

text \<open>Unlike a composed write, a primitive is one raw write even where it overflows.\<close>

lemma writeFloat_raw: "w_wf s \<Longrightarrow> writeFloat s v = writeRawBytes s (mem_bytes (w_wire s) 4 v)"
  and writeDouble_raw: "w_wf s \<Longrightarrow> writeDouble s x = writeRawBytes s (mem_bytes (w_wire s) 8 x)"
  and writeBool_raw: "writeBool s c = writeRawBytes s [if c then 1 else 0]"
  and writeInt8_raw: "writeInt8 s i = writeRawBytes s [word_of_int i]"
  and writeInt16_raw: "w_wf s \<Longrightarrow>
    writeInt16 s i = writeRawBytes s (mem_bytes (w_wire s) 2 (word_of_int i :: u16))"
  and writeInt32_raw: "w_wf s \<Longrightarrow>
    writeInt32 s i = writeRawBytes s (mem_bytes (w_wire s) 4 (word_of_int i :: u32))"
  and writeInt64_raw: "w_wf s \<Longrightarrow>
    writeInt64 s i = writeRawBytes s (mem_bytes (w_wire s) 8 (word_of_int i :: u64))"
  by (simp_all add: write_derived_defs stream_simps)

lemmas write_prims_raw [stream_simps] =
  writeFloat_raw writeDouble_raw writeBool_raw writeInt8_raw writeInt16_raw writeInt32_raw
  writeInt64_raw

lemmas field_put_raw =
  write_prims_raw writeUInt8_raw writeUInt16_raw writeUInt32_raw writeUInt64_raw

interpretation u8c: fixed_codec writeUInt8 readUInt8 "\<lambda>_ v. [v]" "\<lambda>_. True" 1
  by unfold_locales (simp_all add: stream_simps raw_ok_iff)

interpretation u16c: fixed_codec writeUInt16 readUInt16 "\<lambda>e v. mem_bytes e 2 v" "\<lambda>_. True" 2
  by unfold_locales (simp_all add: stream_simps raw_ok_iff)

interpretation u32c: fixed_codec writeUInt32 readUInt32 "\<lambda>e v. mem_bytes e 4 v" "\<lambda>_. True" 4
  by unfold_locales (simp_all add: stream_simps raw_ok_iff)

interpretation u64c: fixed_codec writeUInt64 readUInt64 "\<lambda>e v. mem_bytes e 8 v" "\<lambda>_. True" 8
  by unfold_locales (simp_all add: stream_simps raw_ok_iff)

interpretation floatc: fixed_codec writeFloat readFloat "\<lambda>e v. mem_bytes e 4 v" "\<lambda>_. True" 4
  by unfold_locales (simp_all add: stream_simps raw_ok_iff readFloat_def)

interpretation doublec: fixed_codec writeDouble readDouble "\<lambda>e v. mem_bytes e 8 v" "\<lambda>_. True" 8
  by unfold_locales (simp_all add: stream_simps raw_ok_iff readDouble_def)

interpretation boolc: fixed_codec writeBool readBool "\<lambda>_ v. [if v then 1 else 0]" "\<lambda>_. True" 1
  by unfold_locales (simp_all add: stream_simps raw_ok_iff readBool_def)

definition in_signed :: "nat \<Rightarrow> int \<Rightarrow> bool" where
  "in_signed bits v \<longleftrightarrow> - (2 ^ (bits - 1)) \<le> v \<and> v < 2 ^ (bits - 1)"

lemma sint_of_signed:
  "in_signed LENGTH('a) v \<Longrightarrow> sint (word_of_int v :: 'a::len word) = v"
  by (simp add: in_signed_def signed_of_int signed_take_bit_int_eq_self_iff)

interpretation i8c: fixed_codec writeInt8 readInt8 "\<lambda>_ v. [word_of_int v]" "in_signed 8" 1
  using sint_of_signed [where 'a = 8]
  by unfold_locales (auto simp: stream_simps raw_ok_iff readInt8_def)

interpretation i16c: fixed_codec writeInt16 readInt16
    "\<lambda>e v. mem_bytes e 2 (word_of_int v :: u16)" "in_signed 16" 2
  using sint_of_signed [where 'a = 16]
  by unfold_locales (auto simp: stream_simps raw_ok_iff readInt16_def)

interpretation i32c: fixed_codec writeInt32 readInt32
    "\<lambda>e v. mem_bytes e 4 (word_of_int v :: u32)" "in_signed 32" 4
  using sint_of_signed [where 'a = 32]
  by unfold_locales (auto simp: stream_simps raw_ok_iff readInt32_def)

interpretation i64c: fixed_codec writeInt64 readInt64
    "\<lambda>e v. mem_bytes e 8 (word_of_int v :: u64)" "in_signed 64" 8
  using sint_of_signed [where 'a = 64]
  by unfold_locales (auto simp: stream_simps raw_ok_iff readInt64_def)

section \<open>Sized fields\<close>

lemma length_long_size_bytes [simp]: "length (long_size_bytes n) = 4"
  by (simp add: long_size_bytes_def)

lemma readSize_next:
  assumes "r_wf r" "r_ok r" "n \<le> r_max r" "n \<le> 0x00FFFFFF" "unread r = size_bytes n @ rest"
  shows "readSize r old = (adv r (length (size_bytes n)), n)"
proof (cases "n \<le> 254")
  case True
  have small: "ucast (ucast n :: u8) = n" "(ucast n :: u8) \<le> 254"
  proof -
    have "unat n \<le> 254" using True by (simp add: word_le_nat_alt)
    then show "ucast (ucast n :: u8) = n" and "(ucast n :: u8) \<le> 254"
      by (auto simp: word_le_nat_alt unsigned_ucast_eq unsigned_take_bit_eq
          take_bit_nat_eq_self word_unat_eq_iff)
  qed
  have "unread r = ucast n # rest" using assms(5) True by (simp add: size_bytes_def)
  then have "r_buf r ! r_pos r = ucast n" and "1 \<le> r_remaining r"
    using assms(1) by (auto simp: remaining_unread unread_def nth_via_drop)
  then show ?thesis
    using assms(2) True small
    by (simp add: readSize_def ensureAvailable_def Let_def adv_def size_bytes_def)
next
  case False
  then have u: "unread r = long_size_bytes n @ rest" using assms(5) by (simp add: size_bytes_def)
  have nth: "r_buf r ! (r_pos r + i) = long_size_bytes n ! i" if "i < 4" for i
  proof -
    have "r_buf r ! (r_pos r + i) = unread r ! i"
      using assms(1) by (simp add: unread_def r_wf_def)
    then show ?thesis using u that by (simp add: nth_append)
  qed
  have "4 \<le> r_remaining r"
    using assms(1) u by (simp add: remaining_unread long_size_bytes_def)
  moreover have "r_buf r ! r_pos r = 0xFF"
    using nth [of 0] by (simp add: long_size_bytes_def)
  ultimately show ?thesis
    using assms(2,3,4) False nth [of 1] nth [of 2] nth [of 3] long_size_value [OF assms(4)]
    by (auto simp: readSize_def ensureAvailable_def Let_def adv_def size_bytes_def
        long_size_bytes_def dest: leD)
qed

lemma readString_next:
  assumes "r_wf r" "r_ok r" "length text < 2 ^ 32"
    and "of_nat (length text) \<le> r_max r" "of_nat (length text) \<le> (0x00FFFFFF :: u32)"
    and "unread r = size_bytes (of_nat (length text)) @ text @ rest"
  shows "readStringView r old
    = (adv r (length (size_bytes (of_nat (length text))) + length text), text)"
proof -
  let ?n = "of_nat (length text) :: u32"
  define r1 where "r1 = adv r (length (size_bytes ?n))"
  have size: "readSize r 0 = (r1, ?n)"
    unfolding r1_def using assms by (intro readSize_next) auto
  have n: "unat ?n = length text"
    using assms(3) by (simp add: unsigned_of_nat take_bit_nat_eq_self)
  have next1: "unread r1 = text @ rest" and ok: "r_ok r1" and wf: "r_wf r1"
    using assms by (simp_all add: r1_def)
  have "length text \<le> r_remaining r1"
    using remaining_unread [OF wf] next1 by simp
  then have "readStringView r old = (r1\<lparr>r_pos := r_pos r1 + length text\<rparr>, take (length text) (unread r1))"
    using size n ok by (simp add: readStringView_def ensureAvailable_def unread_def)
  also have "\<dots> = (adv r1 (length text), text)"
    using next1 by (simp add: adv_def)
  finally show ?thesis by (simp add: r1_def)
qed

section \<open>Sequences of typed fields\<close>

datatype field =
  U8 u8 | I8 int | U16 u16 | I16 int | U32 u32 | I32 int | U64 u64 | I64 int
| Boolean bool | Float32 u32 | Float64 u64 | Size u32 | Text bytes

fun write_field :: "wstream \<Rightarrow> field \<Rightarrow> wstream" where
  "write_field s (U8 v) = writeUInt8 s v"
| "write_field s (I8 v) = writeInt8 s v"
| "write_field s (U16 v) = writeUInt16 s v"
| "write_field s (I16 v) = writeInt16 s v"
| "write_field s (U32 v) = writeUInt32 s v"
| "write_field s (I32 v) = writeInt32 s v"
| "write_field s (U64 v) = writeUInt64 s v"
| "write_field s (I64 v) = writeInt64 s v"
| "write_field s (Boolean v) = writeBool s v"
| "write_field s (Float32 v) = writeFloat s v"
| "write_field s (Float64 v) = writeDouble s v"
| "write_field s (Size v) = writeSize s v"
| "write_field s (Text v) = writeString s v"

text \<open>The second argument carries the old value of the out parameter and fixes its type.\<close>

fun read_field :: "rstream \<Rightarrow> field \<Rightarrow> rstream \<times> field" where
  "read_field r (U8 v) = map_prod id U8 (readUInt8 r v)"
| "read_field r (I8 v) = map_prod id I8 (readInt8 r v)"
| "read_field r (U16 v) = map_prod id U16 (readUInt16 r v)"
| "read_field r (I16 v) = map_prod id I16 (readInt16 r v)"
| "read_field r (U32 v) = map_prod id U32 (readUInt32 r v)"
| "read_field r (I32 v) = map_prod id I32 (readInt32 r v)"
| "read_field r (U64 v) = map_prod id U64 (readUInt64 r v)"
| "read_field r (I64 v) = map_prod id I64 (readInt64 r v)"
| "read_field r (Boolean v) = map_prod id Boolean (readBool r v)"
| "read_field r (Float32 v) = map_prod id Float32 (readFloat r v)"
| "read_field r (Float64 v) = map_prod id Float64 (readDouble r v)"
| "read_field r (Size v) = map_prod id Size (readSize r v)"
| "read_field r (Text v) = map_prod id Text (readStringView r v)"

fun write_fields :: "wstream \<Rightarrow> field list \<Rightarrow> wstream" where
  "write_fields s [] = s"
| "write_fields s (f # fs) = write_fields (write_field s f) fs"

fun read_fields :: "rstream \<Rightarrow> field list \<Rightarrow> rstream \<times> field list" where
  "read_fields r [] = (r, [])"
| "read_fields r (f # fs) =
     (let (r1, v) = read_field r f; (r2, vs) = read_fields r1 fs in (r2, v # vs))"

text \<open>The values a field of each type can hold.\<close>

fun field_valid :: "field \<Rightarrow> bool" where
  "field_valid (I8 v) = in_signed 8 v"
| "field_valid (I16 v) = in_signed 16 v"
| "field_valid (I32 v) = in_signed 32 v"
| "field_valid (I64 v) = in_signed 64 v"
| "field_valid (Text v) = (length v < 2 ^ 32)"
| "field_valid _ = True"

fun type_code :: "field \<Rightarrow> nat" where
  "type_code (U8 _) = 0"
| "type_code (I8 _) = 1"
| "type_code (U16 _) = 2"
| "type_code (I16 _) = 3"
| "type_code (U32 _) = 4"
| "type_code (I32 _) = 5"
| "type_code (U64 _) = 6"
| "type_code (I64 _) = 7"
| "type_code (Boolean _) = 8"
| "type_code (Float32 _) = 9"
| "type_code (Float64 _) = 10"
| "type_code (Size _) = 11"
| "type_code (Text _) = 12"

definition same_type :: "field \<Rightarrow> field \<Rightarrow> bool" where
  "same_type f g \<longleftrightarrow> type_code f = type_code g"

fun field_bytes :: "Endianness \<Rightarrow> field \<Rightarrow> bytes" where
  "field_bytes e (U8 v) = [v]"
| "field_bytes e (I8 v) = [word_of_int v]"
| "field_bytes e (U16 v) = mem_bytes e 2 v"
| "field_bytes e (I16 v) = mem_bytes e 2 (word_of_int v :: u16)"
| "field_bytes e (U32 v) = mem_bytes e 4 v"
| "field_bytes e (I32 v) = mem_bytes e 4 (word_of_int v :: u32)"
| "field_bytes e (U64 v) = mem_bytes e 8 v"
| "field_bytes e (I64 v) = mem_bytes e 8 (word_of_int v :: u64)"
| "field_bytes e (Boolean v) = [if v then 1 else 0]"
| "field_bytes e (Float32 v) = mem_bytes e 4 v"
| "field_bytes e (Float64 v) = mem_bytes e 8 v"
| "field_bytes e (Size v) = size_bytes v"
| "field_bytes e (Text v) = size_bytes (of_nat (length v)) @ v"

fun size_ok :: "u32 \<Rightarrow> field \<Rightarrow> bool" where
  "size_ok mx (Size v) = (v \<le> mx \<and> v \<le> 0x00FFFFFF)"
| "size_ok mx (Text v) = (of_nat (length v) \<le> mx \<and> of_nat (length v) \<le> (0x00FFFFFF :: u32))"
| "size_ok mx _ = True"

lemma writeSize_ok: "w_ok (writeSize s n) \<Longrightarrow> n \<le> w_max s \<and> n \<le> 0x00FFFFFF"
  by (auto simp: writeSize_def w_ok_def not_less split: if_splits)

lemma writeString_ok:
  assumes "w_wf s" "w_ok (writeString s text)"
  shows "of_nat (length text) \<le> w_max s \<and> of_nat (length text) \<le> (0x00FFFFFF :: u32)
    \<and> writeString s text = writeRawBytes s (size_bytes (of_nat (length text)) @ text)"
proof -
  let ?n = "of_nat (length text) :: u32"
  have ok1: "w_ok (writeSize s ?n)"
    using assms(2) by (auto simp: writeString_def Let_def split: if_splits)
  from writeSize_ok [OF this] have lim: "?n \<le> w_max s" "?n \<le> 0x00FFFFFF" by auto
  with assms have two: "writeString s text = writeRawBytes (writeRawBytes s (size_bytes ?n)) text"
    by (simp add: writeString_raw)
  with assms have "w_ok (writeRawBytes s (size_bytes ?n @ text))"
    by (simp add: raw_chain_ok)
  then have "length (size_bytes ?n) + length text \<le> w_remaining s"
    by (simp add: raw_ok_iff)
  then show ?thesis
    using lim two assms(1) by (simp add: raw_raw)
qed

lemma write_field_ok:
  assumes "w_wf s" "w_ok (write_field s f)"
  shows "size_ok (w_max s) f \<and> write_field s f = writeRawBytes s (field_bytes (w_wire s) f)"
  using assms writeSize_ok writeString_ok
  by (cases f) (auto simp: field_put_raw writeSize_raw)

lemma write_field_latched: "w_ok (write_field s f) \<Longrightarrow> w_ok s"
  by (cases f)
    (auto simp: writeScalar_def writeString_def writeSize_def writeUInt8_def writeUInt16_def
      writeUInt32_def writeUInt64_def write_derived_defs raw_ok_iff split: if_splits)

lemma write_fields_latched: "w_ok (write_fields s fs) \<Longrightarrow> w_ok s"
  by (induction fs arbitrary: s) (auto dest: write_field_latched)

lemma write_fields_written:
  assumes "w_wf s" "w_ok (write_fields s fs)"
  shows "written (write_fields s fs) = written s @ concat (map (field_bytes (w_wire s)) fs)
    \<and> list_all (size_ok (w_max s)) fs"
  using assms
proof (induction fs arbitrary: s)
  case Nil
  then show ?case by simp
next
  case (Cons f fs)
  have ok: "w_ok (write_field s f)"
    using Cons.prems(2) by (simp add: write_fields_latched)
  with Cons.prems write_field_ok
  have eq: "write_field s f = writeRawBytes s (field_bytes (w_wire s) f)" "size_ok (w_max s) f"
    by auto
  have "written (write_field s f) = written s @ field_bytes (w_wire s) f"
    using Cons.prems(1) ok eq by (simp add: raw_written)
  moreover have "w_wf (write_field s f)"
    using Cons.prems(1) eq by simp
  ultimately show ?case
    using Cons.IH [of "write_field s f"] Cons.prems(2) eq by simp
qed

lemma size_ok_mono: "size_ok mx f \<Longrightarrow> mx \<le> mx' \<Longrightarrow> size_ok mx' f"
  by (cases f) auto

lemma read_field_next:
  assumes "r_wf r" "r_ok r" "field_valid f" "size_ok (r_max r) f" "same_type f g"
    and "unread r = field_bytes (r_wire r) f @ rest"
  shows "read_field r g = (adv r (length (field_bytes (r_wire r) f)), f)"
  using assms
  by (cases f; cases g)
    (auto simp: u8c.get_next i8c.get_next u16c.get_next i16c.get_next u32c.get_next
      i32c.get_next u64c.get_next i64c.get_next boolc.get_next floatc.get_next
      doublec.get_next readSize_next readString_next same_type_def)

lemma read_fields_next:
  assumes "r_wf r" "r_ok r" "list_all field_valid fs" "list_all (size_ok (r_max r)) fs"
    and "list_all2 same_type fs gs"
    and "unread r = concat (map (field_bytes (r_wire r)) fs) @ rest"
  shows "read_fields r gs = (adv r (length (concat (map (field_bytes (r_wire r)) fs))), fs)"
  using assms
proof (induction fs arbitrary: r gs)
  case Nil
  then show ?case by simp
next
  case (Cons f fs)
  then obtain g gs' where gs: "gs = g # gs'" "same_type f g" "list_all2 same_type fs gs'"
    by (auto simp: list_all2_Cons1)
  let ?r = "adv r (length (field_bytes (r_wire r) f))"
  have "read_field r g = (?r, f)"
    using Cons.prems gs by (intro read_field_next) auto
  moreover have "read_fields ?r gs' = (adv ?r (length (concat (map (field_bytes (r_wire ?r)) fs))), fs)"
    using Cons.prems gs by (intro Cons.IH) auto
  ultimately show ?case
    using gs by simp
qed

section \<open>Frame conditions\<close>

text \<open>
  What a writer may do to its buffer between two points: the bytes before the first position and
  beyond the second stay, the buffer keeps its length, the position never moves back, and a
  failed writer does not change at all.
\<close>

definition w_extends :: "wstream \<Rightarrow> wstream \<Rightarrow> bool" where
  "w_extends s s' \<longleftrightarrow>
     w_wf s' \<and> length (w_buf s') = length (w_buf s) \<and> w_pos s \<le> w_pos s'
   \<and> take (w_pos s) (w_buf s') = take (w_pos s) (w_buf s)
   \<and> drop (w_pos s') (w_buf s') = drop (w_pos s') (w_buf s)
   \<and> (\<not> w_ok s \<longrightarrow> s' = s)"

lemma w_extends_refl [simp]: "w_wf s \<Longrightarrow> w_extends s s"
  by (simp add: w_extends_def)

lemma w_extends_trans:
  assumes "w_extends s t" "w_extends t u"
  shows "w_extends s u"
proof -
  have "take (w_pos t) (w_buf u) = take (w_pos t) (w_buf t)"
    and "take (w_pos s) (w_buf t) = take (w_pos s) (w_buf s)" and "w_pos s \<le> w_pos t"
    using assms by (simp_all add: w_extends_def)
  then have "take (w_pos s) (w_buf u) = take (w_pos s) (w_buf s)"
    by (metis min.absorb1 take_take)
  moreover have "drop (w_pos u) (w_buf t) = drop (w_pos u) (w_buf s)"
  proof -
    have "w_pos t \<le> w_pos u" and eq: "drop (w_pos t) (w_buf t) = drop (w_pos t) (w_buf s)"
      using assms by (simp_all add: w_extends_def)
    then have "drop (w_pos u) b = drop (w_pos u - w_pos t) (drop (w_pos t) b)" for b :: bytes
      by simp
    then have "drop (w_pos u) (w_buf t) = drop (w_pos u - w_pos t) (drop (w_pos t) (w_buf t))"
      by blast
    also have "\<dots> = drop (w_pos u - w_pos t) (drop (w_pos t) (w_buf s))"
      by (simp only: eq)
    also have "\<dots> = drop (w_pos u) (w_buf s)"
      using \<open>w_pos t \<le> w_pos u\<close> by simp
    finally show ?thesis .
  qed
  ultimately show ?thesis
    using assms by (auto simp: w_extends_def)
qed

lemma w_extends_raw: "w_wf s \<Longrightarrow> w_extends s (writeRawBytes s bs)"
proof (cases rule: raw_cases [of s bs])
  case fits
  moreover assume "w_wf s"
  ultimately show ?thesis
    using raw_beyond [of s bs] raw_wf [of s bs] raw_length [of s bs]
    by (simp add: w_extends_def w_wf_def)
qed (auto simp: w_extends_def w_wf_def w_ok_def)

lemma w_extends_err: "w_wf s \<Longrightarrow> w_ok s \<Longrightarrow> w_extends s (s\<lparr>w_err := e\<rparr>)"
  by (simp add: w_extends_def w_wf_def)

lemma w_extends_writeSize: "w_wf s \<Longrightarrow> w_extends s (writeSize s n)"
  by (auto simp: writeSize_def writeUInt8_def Let_def intro: w_extends_raw w_extends_err)

lemma w_extends_writeString: "w_wf s \<Longrightarrow> w_extends s (writeString s text)"
proof -
  assume "w_wf s"
  then have size: "w_extends s (writeSize s (of_nat (length text)))"
    by (rule w_extends_writeSize)
  then have "w_wf (writeSize s (of_nat (length text)))"
    by (simp add: w_extends_def)
  with size show ?thesis
    by (auto simp: writeString_def Let_def intro: w_extends_trans w_extends_raw)
qed

lemma w_extends_field: "w_wf s \<Longrightarrow> w_extends s (write_field s f)"
  by (cases f)
    (simp_all add: field_put_raw w_extends_raw w_extends_writeSize w_extends_writeString)

lemma w_extends_fields: "w_wf s \<Longrightarrow> w_extends s (write_fields s fs)"
proof (induction fs arbitrary: s)
  case Nil
  then show ?case by simp
next
  case (Cons f fs)
  then have 1: "w_extends s (write_field s f)" by (intro w_extends_field)
  then have "w_wf (write_field s f)" by (simp add: w_extends_def)
  then show ?case using Cons.IH 1 by (auto intro: w_extends_trans)
qed

text \<open>Two writers that differ in the byte order of their machine only.\<close>

definition same_output :: "wstream \<Rightarrow> wstream \<Rightarrow> bool" where
  "same_output s s' \<longleftrightarrow>
     w_buf s = w_buf s' \<and> w_pos s = w_pos s' \<and> w_err s = w_err s' \<and> w_wire s = w_wire s'
   \<and> w_max s = w_max s'"

lemma same_output_raw: "same_output s s' \<Longrightarrow> same_output (writeRawBytes s bs) (writeRawBytes s' bs)"
  by (cases "w_ok s"; cases "length bs \<le> w_remaining s")
    (auto simp: same_output_def writeRawBytes_def ensureCapacity_def w_ok_def w_remaining_def)

lemma same_output_ok: "same_output s s' \<Longrightarrow> w_ok s' = w_ok s"
  by (simp add: same_output_def w_ok_def)

lemma same_output_size:
  assumes "same_output s s'"
  shows "same_output (writeSize s n) (writeSize s' n)"
proof -
  have "w_max s' = w_max s" using assms by (simp add: same_output_def)
  moreover have "same_output (s\<lparr>w_err := e\<rparr>) (s'\<lparr>w_err := e\<rparr>)" for e
    using assms by (simp add: same_output_def)
  ultimately show ?thesis
    using assms same_output_ok [OF assms] same_output_raw [OF assms]
    by (simp add: writeSize_def writeUInt8_def Let_def)
qed

lemma same_output_string:
  assumes "same_output s s'"
  shows "same_output (writeString s v) (writeString s' v)"
proof -
  have size: "same_output (writeSize s (of_nat (length v))) (writeSize s' (of_nat (length v)))"
    using assms by (rule same_output_size)
  from size same_output_ok [OF size] same_output_raw [OF size] show ?thesis
    by (simp add: writeString_def Let_def)
qed

lemma same_output_field:
  "w_wf s \<Longrightarrow> w_wf s' \<Longrightarrow> same_output s s' \<Longrightarrow> same_output (write_field s f) (write_field s' f)"
  using same_output_raw [of s s'] same_output_size [of s s'] same_output_string [of s s']
  by (cases f) (simp_all add: field_put_raw same_output_def [of s s'])

lemma same_output_fields:
  "w_wf s \<Longrightarrow> w_wf s' \<Longrightarrow> same_output s s' \<Longrightarrow> same_output (write_fields s fs) (write_fields s' fs)"
proof (induction fs arbitrary: s s')
  case Nil
  then show ?case by simp
next
  case (Cons f fs)
  then have "w_wf (write_field s f)" "w_wf (write_field s' f)"
    using w_extends_field by (auto simp: w_extends_def)
  then show ?case
    using Cons same_output_field by simp
qed

text \<open>A reader never leaves its buffer, whatever bytes it is given.\<close>

definition r_extends :: "rstream \<Rightarrow> rstream \<Rightarrow> bool" where
  "r_extends r r' \<longleftrightarrow>
     r_wf r' \<and> r_buf r' = r_buf r \<and> r_pos r \<le> r_pos r' \<and> (\<not> r_ok r \<longrightarrow> r' = r)"

lemma r_extends_adv: "r_wf r \<Longrightarrow> r_ok r \<Longrightarrow> n \<le> length (unread r) \<Longrightarrow> r_extends r (adv r n)"
  by (simp add: r_extends_def)

lemma r_extends_err: "r_wf r \<Longrightarrow> r_ok r \<Longrightarrow> r_extends r (r\<lparr>r_err := e\<rparr>)"
  by (simp add: r_extends_def)

lemma r_extends_refl [simp]: "r_wf r \<Longrightarrow> r_extends r r"
  by (simp add: r_extends_def)

lemma r_extends_trans: "r_extends r s \<Longrightarrow> r_extends s t \<Longrightarrow> r_extends r t"
  by (auto simp: r_extends_def)

lemma r_extends_u8: "r_wf r \<Longrightarrow> r_extends r (fst (readUInt8 r v))"
  by (auto simp: readUInt8_spec intro: r_extends_adv r_extends_err split: list.split)

lemma r_extends_u16: "r_wf r \<Longrightarrow> r_extends r (fst (readUInt16 r v))"
  by (auto simp: readUInt16_spec intro: r_extends_adv r_extends_err)

lemma r_extends_u32: "r_wf r \<Longrightarrow> r_extends r (fst (readUInt32 r v))"
  by (auto simp: readUInt32_spec intro: r_extends_adv r_extends_err)

lemma r_extends_u64: "r_wf r \<Longrightarrow> r_extends r (fst (readUInt64 r v))"
  by (auto simp: readUInt64_spec intro: r_extends_adv r_extends_err)

lemma r_extends_one: "r_wf r \<Longrightarrow> r_ok r \<Longrightarrow> unread r \<noteq> [] \<Longrightarrow> r_extends r (r\<lparr>r_pos := Suc (r_pos r)\<rparr>)"
  using r_extends_adv [of r 1] by (simp add: adv_def Suc_le_eq)

lemma r_extends_size: "r_wf r \<Longrightarrow> r_extends r (fst (readSize r v))"
  by (auto simp: readSize_def ensureAvailable_def Let_def remaining_unread not_less
      adv_def [symmetric] intro: r_extends_adv r_extends_err r_extends_one)

lemma r_extends_string:
  assumes "r_wf r"
  shows "r_extends r (fst (readStringView r v))"
proof -
  obtain r1 n where size: "readSize r 0 = (r1, n)" by fastforce
  with r_extends_size [OF assms, of 0] have r1: "r_extends r r1" by simp
  then have "r_wf r1" by (simp add: r_extends_def)
  then have "r_extends r1 (fst (readStringView r v))"
    by (auto simp: readStringView_def size ensureAvailable_def Let_def remaining_unread not_less
        adv_def [symmetric] intro: r_extends_adv r_extends_err)
  with r1 show ?thesis by (rule r_extends_trans)
qed

lemmas r_extends_prims = r_extends_u8 r_extends_u16 r_extends_u32 r_extends_u64

lemma r_extends_field: "r_wf r \<Longrightarrow> r_extends r (fst (read_field r f))"
  by (cases f)
    (auto simp: read_derived_defs r_extends_size r_extends_string r_extends_prims
      map_prod_def case_prod_unfold)

lemma r_extends_fields: "r_wf r \<Longrightarrow> r_extends r (fst (read_fields r fs))"
proof (induction fs arbitrary: r)
  case Nil
  then show ?case by simp
next
  case (Cons f fs)
  obtain r1 v where f: "read_field r f = (r1, v)" by fastforce
  with r_extends_field [OF Cons.prems, of f] have "r_extends r r1" by simp
  moreover from this have "r_extends r1 (fst (read_fields r1 fs))"
    by (intro Cons.IH) (simp add: r_extends_def)
  ultimately show ?case
    by (auto simp: f case_prod_unfold Let_def intro: r_extends_trans)
qed

section \<open>Properties\<close>



text \<open>The bytes, the position and the error that a sequence of writes leaves depend on the
  wire byte order only: two machines of different byte order produce the same buffer, for
  accepted and for rejected sequences.\<close>

theorem wire_image_portable:
  "w_buf (write_fields (BinaryWriteStream Little buf e mx) fs)
     = w_buf (write_fields (BinaryWriteStream Big buf e mx) fs)
   \<and> bytesWritten (write_fields (BinaryWriteStream Little buf e mx) fs)
     = bytesWritten (write_fields (BinaryWriteStream Big buf e mx) fs)
   \<and> w_error (write_fields (BinaryWriteStream Little buf e mx) fs)
     = w_error (write_fields (BinaryWriteStream Big buf e mx) fs)"
  using same_output_fields [of "BinaryWriteStream Little buf e mx" "BinaryWriteStream Big buf e mx" fs]
  by (simp add: same_output_def bytesWritten_def w_error_def)

text \<open>No sequence of writes leaves the buffer behind the view: the buffer keeps its length, the
  final position is inside it, and every byte at or beyond that position still has its old
  value. Once a write has failed, further writes change nothing.\<close>

theorem writer_stays_in_bounds:
  "length (w_buf (write_fields (BinaryWriteStream m buf e mx) fs)) = length buf
   \<and> bytesWritten (write_fields (BinaryWriteStream m buf e mx) fs) \<le> length buf
   \<and> drop (bytesWritten (write_fields (BinaryWriteStream m buf e mx) fs))
        (w_buf (write_fields (BinaryWriteStream m buf e mx) fs))
     = drop (bytesWritten (write_fields (BinaryWriteStream m buf e mx) fs)) buf
   \<and> (w_ok (write_fields (BinaryWriteStream m buf e mx) fs)
      \<or> write_fields (BinaryWriteStream m buf e mx) (fs @ later)
        = write_fields (BinaryWriteStream m buf e mx) fs)"
proof -
  let ?w = "write_fields (BinaryWriteStream m buf e mx) fs"
  have ext: "w_extends (BinaryWriteStream m buf e mx) ?w"
    by (simp add: w_extends_fields)
  have app: "write_fields s (fs @ gs) = write_fields (write_fields s fs) gs" for s gs
    by (induction fs arbitrary: s) simp_all
  have "w_extends ?w (write_fields ?w later)"
    using ext by (intro w_extends_fields) (simp add: w_extends_def)
  with ext show ?thesis
    by (auto simp: app w_extends_def w_wf_def bytesWritten_def)
qed

text \<open>A reader given arbitrary bytes never moves past the end of its view, never moves back and
  never changes the bytes, and once it has failed no later read changes its state.\<close>

theorem reader_stays_in_bounds:
  "bytesRead (fst (read_fields (BinaryReadStream m bs e mx) fs)) \<le> length bs
   \<and> r_buf (fst (read_fields (BinaryReadStream m bs e mx) fs)) = bs
   \<and> (r_ok (fst (read_fields (BinaryReadStream m bs e mx) fs))
      \<or> fst (read_fields (fst (read_fields (BinaryReadStream m bs e mx) fs)) later)
        = fst (read_fields (BinaryReadStream m bs e mx) fs))"
proof -
  let ?r = "fst (read_fields (BinaryReadStream m bs e mx) fs)"
  have ext: "r_extends (BinaryReadStream m bs e mx) ?r"
    by (simp add: r_extends_fields)
  then have "r_extends ?r (fst (read_fields ?r later))"
    by (intro r_extends_fields) (simp add: r_extends_def)
  with ext show ?thesis
    by (auto simp: r_extends_def r_wf_def bytesRead_def)
qed

end
