(* ===== verification/ParameterSystem.thy ===== *)
theory ParameterSystem
  imports WireCodec Text
begin

text \<open>
  Chapter 16, parameter management: \<open>ParameterDefinitions.h\<close>, \<open>ParameterMessages.h\<close>,
  \<open>ParameterStore.h\<close> and \<open>ParameterRegistry.h\<close>. A parameter class (the template argument of the
  code) is a record of its constants and static functions. The values live in a nine-byte image
  that only the stream codecs touch; \<open>machine\<close> is the byte order of the machine. A \<open>float\<close> is its
  IEEE single bit pattern; comparisons are written out on the patterns, and \<open>from_chars\<close> and
  \<open>to_chars\<close> on floats are parameters.
\<close>

section \<open>Definitions\<close>

datatype ParameterID = PidReportingInterval | PidTemperatureLimit | PidOperatingMode | PidCount

definition toIndex :: "ParameterID \<Rightarrow> nat" where
  "toIndex i = (case i of PidReportingInterval \<Rightarrow> 0 | PidTemperatureLimit \<Rightarrow> 1
     | PidOperatingMode \<Rightarrow> 2 | PidCount \<Rightarrow> 3)"

definition parameterCount :: nat where "parameterCount = toIndex PidCount"

definition isValidParameterId :: "u16 \<Rightarrow> bool" where
  "isValidParameterId raw \<longleftrightarrow> raw < of_nat (toIndex PidCount)"

datatype ParameterSource =
  CompiledDefault | PersistentStorage | ConfigurationFile | CommandLine | Runtime

definition precedence :: "ParameterSource \<Rightarrow> nat" where
  "precedence source = (case source of CompiledDefault \<Rightarrow> 0 | PersistentStorage \<Rightarrow> 1
     | ConfigurationFile \<Rightarrow> 2 | CommandLine \<Rightarrow> 3 | Runtime \<Rightarrow> 4)"

datatype UpdateResult =
  UpdOK | UNKNOWN_PARAMETER | INVALID_VALUE | OUT_OF_RANGE | READ_ONLY | NOT_RUNTIME_WRITABLE
| LOWER_PRECEDENCE

text \<open>\<open>OperatingMode\<close> is an enum over a byte, and \<open>decode\<close> casts any byte to it.\<close>

definition ModeNormal :: u8 where "ModeNormal = 0"
definition ModeService :: u8 where "ModeService = 1"
definition ModeSafe :: u8 where "ModeSafe = 2"

definition ParameterImageEndianness :: Endianness where "ParameterImageEndianness = Little"

definition copyText :: "string \<Rightarrow> nat \<Rightarrow> string" where
  "copyText s buffer_size = (if length s > buffer_size then [] else s)"

record 'v parameter =
  p_id :: ParameterID
  p_name :: string
  p_default :: 'v
  p_offset :: nat
  p_encodedSize :: nat
  p_writable :: bool
  p_runtimeWritable :: bool
  p_validate :: "'v \<Rightarrow> bool"
  p_parse :: "string \<Rightarrow> 'v option"
  p_serialize :: "'v \<Rightarrow> nat \<Rightarrow> string"
  p_decode :: "rstream \<Rightarrow> 'v \<Rightarrow> rstream \<times> 'v"
  p_encode :: "wstream \<Rightarrow> 'v \<Rightarrow> wstream"

definition parse_u32 :: "string \<Rightarrow> u32 option" where
  "parse_u32 s =
     (let (ec, n, v) = from_chars 0 (2 ^ 32 - 1) s
      in if ec \<noteq> NoErrc \<or> n \<noteq> length s then None else map_option word_of_int v)"

definition serialize_u32 :: "u32 \<Rightarrow> nat \<Rightarrow> string" where
  "serialize_u32 v buffer_size =
     (let s = show_int (uint v) in if length s > buffer_size then [] else s)"

definition ReportingInterval :: "u32 parameter" where
  "ReportingInterval =
     \<lparr>p_id = PidReportingInterval, p_name = ''reporting_interval'', p_default = 1000,
      p_offset = 0, p_encodedSize = 4, p_writable = True, p_runtimeWritable = True,
      p_validate = (\<lambda>value. 100 \<le> value \<and> value \<le> 60000),
      p_parse = parse_u32, p_serialize = serialize_u32,
      p_decode = readUInt32, p_encode = writeUInt32\<rparr>"

text \<open>IEEE single comparison on bit patterns: a NaN compares with nothing, and both zeros are equal.\<close>

definition f32_nan :: "u32 \<Rightarrow> bool" where
  "f32_nan b \<longleftrightarrow> b AND 0x7FFFFFFF > 0x7F800000"

definition f32_key :: "u32 \<Rightarrow> int" where
  "f32_key b = (if bit b 31 then - uint (b AND 0x7FFFFFFF) else uint (b AND 0x7FFFFFFF))"

definition f32_le :: "u32 \<Rightarrow> u32 \<Rightarrow> bool" where
  "f32_le a b \<longleftrightarrow> \<not> f32_nan a \<and> \<not> f32_nan b \<and> f32_key a \<le> f32_key b"

definition f32_minus_40 :: u32 where "f32_minus_40 = 0xC2200000"
definition f32_45 :: u32 where "f32_45 = 0x42340000"
definition f32_125 :: u32 where "f32_125 = 0x42FA0000"

record floats =
  fl_from_chars :: "string \<Rightarrow> errc \<times> nat \<times> u32 option"
  fl_to_chars :: "u32 \<Rightarrow> nat \<Rightarrow> string option"

definition TemperatureLimit :: "floats \<Rightarrow> u32 parameter" where
  "TemperatureLimit fl =
     \<lparr>p_id = PidTemperatureLimit, p_name = ''temperature_limit'', p_default = f32_45,
      p_offset = p_offset ReportingInterval + p_encodedSize ReportingInterval,
      p_encodedSize = 4, p_writable = True, p_runtimeWritable = False,
      p_validate = (\<lambda>value. f32_le f32_minus_40 value \<and> f32_le value f32_125),
      p_parse = (\<lambda>s. let (ec, n, v) = fl_from_chars fl s
                     in if ec \<noteq> NoErrc \<or> n \<noteq> length s then None else v),
      p_serialize = (\<lambda>v size. case fl_to_chars fl v size of None \<Rightarrow> [] | Some s \<Rightarrow> s),
      p_decode = readFloat, p_encode = writeFloat\<rparr>"

definition OperatingModeParameter :: "floats \<Rightarrow> u8 parameter" where
  "OperatingModeParameter fl =
     \<lparr>p_id = PidOperatingMode, p_name = ''operating_mode'', p_default = ModeNormal,
      p_offset = p_offset (TemperatureLimit fl) + p_encodedSize (TemperatureLimit fl),
      p_encodedSize = 1, p_writable = True, p_runtimeWritable = True,
      p_validate = (\<lambda>value. value = ModeNormal \<or> value = ModeService \<or> value = ModeSafe),
      p_parse = (\<lambda>s. if s = ''normal'' then Some ModeNormal
                     else if s = ''service'' then Some ModeService
                     else if s = ''safe'' then Some ModeSafe else None),
      p_serialize = (\<lambda>v size. if v = ModeNormal then copyText ''normal'' size
                     else if v = ModeService then copyText ''service'' size
                     else if v = ModeSafe then copyText ''safe'' size else []),
      p_decode = (\<lambda>reader old. let (reader', raw) = readUInt8 reader 0 in (reader', raw)),
      p_encode = (\<lambda>writer v. writeUInt8 writer v)\<rparr>"

definition ParameterImageSize :: nat where
  "ParameterImageSize = 4 + 4 + 1"

definition sourceName :: "ParameterSource \<Rightarrow> string" where
  "sourceName source = (case source of CompiledDefault \<Rightarrow> ''compiled-default''
     | PersistentStorage \<Rightarrow> ''persistent-storage'' | ConfigurationFile \<Rightarrow> ''configuration-file''
     | CommandLine \<Rightarrow> ''command-line'' | Runtime \<Rightarrow> ''runtime'')"

definition resultName :: "UpdateResult \<Rightarrow> string" where
  "resultName r = (case r of UpdOK \<Rightarrow> ''OK'' | UNKNOWN_PARAMETER \<Rightarrow> ''UNKNOWN_PARAMETER''
     | INVALID_VALUE \<Rightarrow> ''INVALID_VALUE'' | OUT_OF_RANGE \<Rightarrow> ''OUT_OF_RANGE'' | READ_ONLY \<Rightarrow> ''READ_ONLY''
     | NOT_RUNTIME_WRITABLE \<Rightarrow> ''NOT_RUNTIME_WRITABLE'' | LOWER_PRECEDENCE \<Rightarrow> ''LOWER_PRECEDENCE'')"

definition operatingModeName :: "u8 \<Rightarrow> string" where
  "operatingModeName mode = (if mode = ModeNormal then ''normal''
     else if mode = ModeService then ''service'' else if mode = ModeSafe then ''safe''
     else ''unknown'')"

section \<open>Update requests\<close>

definition ParameterTextCapacity :: nat where "ParameterTextCapacity = 64"

record ParameterUpdateRequest =
  rq_id :: ParameterID
  rq_source :: ParameterSource
  rq_value :: string
  rq_valueLength :: nat

definition rq_text :: "ParameterUpdateRequest \<Rightarrow> string" where
  "rq_text r = take (rq_valueLength r) (rq_value r)"

definition makeUpdateRequest ::
  "ParameterID \<Rightarrow> string \<Rightarrow> ParameterSource \<Rightarrow> ParameterUpdateRequest option" where
  "makeUpdateRequest i s source =
     (if length s > ParameterTextCapacity then None
      else Some \<lparr>rq_id = i, rq_source = source,
                 rq_value = blit (replicate ParameterTextCapacity (CHR 0x00)) 0 s,
                 rq_valueLength = length s\<rparr>)"

section \<open>The store\<close>

record ParameterChangeEvent =
  ev_id :: ParameterID
  ev_source :: ParameterSource
  ev_generation :: u32

record pstore =
  st_values :: bytes
  st_sources :: "ParameterSource list"
  st_generation :: u32

text \<open>The image bytes after a write of an encoded value, or \<open>None\<close> if the encoder did not fill them.\<close>

definition encode_value :: "Endianness \<Rightarrow> 'v parameter \<Rightarrow> 'v \<Rightarrow> bytes option" where
  "encode_value machine P value =
     (let encoded = replicate (p_encodedSize P) 0;
          writer = BinaryWriteStream machine encoded ParameterImageEndianness defaultMaxSizedField;
          writer' = p_encode P writer value
      in if \<not> w_ok writer' \<or> bytesWritten writer' \<noteq> p_encodedSize P then None
         else Some (w_buf writer'))"

definition initializeDefault :: "Endianness \<Rightarrow> 'v parameter \<Rightarrow> pstore \<Rightarrow> pstore" where
  "initializeDefault machine P s =
     (case encode_value machine P (p_default P) of
        None \<Rightarrow> s
      | Some encoded \<Rightarrow> s\<lparr>st_values := blit (st_values s) (p_offset P) encoded\<rparr>)"

definition ParameterStore :: "floats \<Rightarrow> Endianness \<Rightarrow> pstore" where
  "ParameterStore fl machine =
     (let s0 = \<lparr>st_values = replicate ParameterImageSize 0,
                st_sources = replicate parameterCount CompiledDefault, st_generation = 0\<rparr>;
          s1 = initializeDefault machine ReportingInterval s0;
          s2 = initializeDefault machine (TemperatureLimit fl) s1
      in initializeDefault machine (OperatingModeParameter fl) s2)"

definition store_get :: "Endianness \<Rightarrow> 'v parameter \<Rightarrow> pstore \<Rightarrow> 'v \<Rightarrow> bool \<times> 'v" where
  "store_get machine P s value =
     (let bytes = take (p_encodedSize P) (drop (p_offset P) (st_values s));
          reader = BinaryReadStream machine bytes ParameterImageEndianness defaultMaxSizedField;
          (reader', v) = p_decode P reader value
      in (r_ok reader', v))"

definition store_set ::
  "Endianness \<Rightarrow> 'v parameter \<Rightarrow> pstore \<Rightarrow> 'v \<Rightarrow> ParameterSource
    \<Rightarrow> pstore \<times> UpdateResult \<times> ParameterChangeEvent option" where
  "store_set machine P s value source =
     (if \<not> p_writable P then (s, READ_ONLY, None)
      else if source = Runtime \<and> \<not> p_runtimeWritable P then (s, NOT_RUNTIME_WRITABLE, None)
      else if \<not> p_validate P value then (s, INVALID_VALUE, None)
      else let index = toIndex (p_id P)
           in if precedence source < precedence (st_sources s ! index)
              then (s, LOWER_PRECEDENCE, None)
              else case encode_value machine P value of
                None \<Rightarrow> (s, INVALID_VALUE, None)
              | Some encoded \<Rightarrow>
                  let s1 = s\<lparr>st_values := blit (st_values s) (p_offset P) encoded,
                             st_sources := (st_sources s)[index := source],
                             st_generation := st_generation s + 1\<rparr>
                  in (s1, UpdOK, Some \<lparr>ev_id = p_id P, ev_source = source,
                                       ev_generation = st_generation s1\<rparr>))"

definition store_source :: "pstore \<Rightarrow> ParameterID \<Rightarrow> ParameterSource" where
  "store_source s i = st_sources s ! toIndex i"

section \<open>The registry\<close>

definition setFromText ::
  "Endianness \<Rightarrow> 'v parameter \<Rightarrow> pstore \<Rightarrow> string \<Rightarrow> ParameterSource
    \<Rightarrow> pstore \<times> UpdateResult \<times> ParameterChangeEvent option" where
  "setFromText machine P s input source =
     (case p_parse P input of
        None \<Rightarrow> (s, INVALID_VALUE, None)
      | Some value \<Rightarrow> store_set machine P s value source)"

text \<open>Behind the \<open>void*\<close> of a handler stands a value of the parameter's own type.\<close>

datatype pvalue = VInterval u32 | VLimit u32 | VMode u8

record handler =
  h_id :: ParameterID
  h_name :: string
  h_valueSize :: nat
  h_validate :: "pvalue \<Rightarrow> bool"
  h_parse :: "string \<Rightarrow> pvalue option"
  h_serialize :: "pvalue \<Rightarrow> nat \<Rightarrow> string"
  h_setFromText :: "pstore \<Rightarrow> string \<Rightarrow> ParameterSource
    \<Rightarrow> pstore \<times> UpdateResult \<times> ParameterChangeEvent option"

definition makeHandler ::
  "Endianness \<Rightarrow> nat \<Rightarrow> ('v \<Rightarrow> pvalue) \<Rightarrow> (pvalue \<Rightarrow> 'v) \<Rightarrow> 'v parameter \<Rightarrow> handler" where
  "makeHandler machine sizeof wrap unwrap P =
     \<lparr>h_id = p_id P, h_name = p_name P, h_valueSize = sizeof,
      h_validate = (\<lambda>v. p_validate P (unwrap v)),
      h_parse = (\<lambda>s. map_option wrap (p_parse P s)),
      h_serialize = (\<lambda>v. p_serialize P (unwrap v)),
      h_setFromText = setFromText machine P\<rparr>"

fun unInterval where "unInterval (VInterval v) = v"
fun unLimit where "unLimit (VLimit v) = v"
fun unMode where "unMode (VMode v) = v"

definition registry :: "floats \<Rightarrow> Endianness \<Rightarrow> handler list" where
  "registry fl machine =
     [makeHandler machine 4 VInterval unInterval ReportingInterval,
      makeHandler machine 4 VLimit unLimit (TemperatureLimit fl),
      makeHandler machine 1 VMode unMode (OperatingModeParameter fl)]"

definition handlerFor :: "floats \<Rightarrow> Endianness \<Rightarrow> ParameterID \<Rightarrow> handler" where
  "handlerFor fl machine i = registry fl machine ! toIndex i"

definition parameterIdFromName :: "floats \<Rightarrow> Endianness \<Rightarrow> string \<Rightarrow> ParameterID option" where
  "parameterIdFromName fl machine name =
     map_option h_id (find (\<lambda>h. h_name h = name) (registry fl machine))"

definition store_set_text ::
  "floats \<Rightarrow> Endianness \<Rightarrow> pstore \<Rightarrow> ParameterID \<Rightarrow> string \<Rightarrow> ParameterSource
    \<Rightarrow> pstore \<times> UpdateResult \<times> ParameterChangeEvent option" where
  "store_set_text fl machine s i input source =
     h_setFromText (handlerFor fl machine i) s input source"

text \<open>The owner thread of \<open>main.cpp\<close>: it applies the queued requests in order; the events of the
successful ones go to the notification queue.\<close>

fun owner_loop ::
  "floats \<Rightarrow> Endianness \<Rightarrow> pstore \<Rightarrow> ParameterUpdateRequest list
    \<Rightarrow> pstore \<times> UpdateResult list \<times> ParameterChangeEvent list" where
  "owner_loop fl machine s [] = (s, [], [])"
| "owner_loop fl machine s (r # rs) =
     (let (s1, result, event) = store_set_text fl machine s (rq_id r) (rq_text r) (rq_source r);
          (s2, results, events) = owner_loop fl machine s1 rs
      in (s2, result # results,
          (case event of Some e \<Rightarrow> if result = UpdOK then e # events else events | None \<Rightarrow> events)))"

section \<open>What a parameter class has to offer\<close>

text \<open>
  The store's template code works for a parameter class whose encoder and decoder form a codec of
  the declared size and whose slot lies inside the image.
\<close>

locale parameter_def = fixed_codec "p_encode P" "p_decode P" img "\<lambda>_. True" "p_encodedSize P"
  for P :: "'v parameter" and img :: "Endianness \<Rightarrow> 'v \<Rightarrow> bytes" +
  assumes in_image: "p_offset P + p_encodedSize P \<le> ParameterImageSize"
    and known: "toIndex (p_id P) < parameterCount"
    and writable: "p_writable P"
begin

lemma encode_value_eq: "encode_value machine P v = Some (img Little v)"
  using put_exact_buffer [of "replicate (p_encodedSize P) 0" machine Little defaultMaxSizedField v]
  by (simp add: encode_value_def ParameterImageEndianness_def)

lemma get_slot:
  assumes "take (p_encodedSize P) (drop (p_offset P) (st_values s)) = img Little v"
  shows "store_get machine P s old = (True, v)"
  using get_next [of "BinaryReadStream machine (img Little v) Little defaultMaxSizedField" v "[]" old] assms
  by (simp add: store_get_def ParameterImageEndianness_def Let_def)

definition verdict :: "'v \<Rightarrow> ParameterSource \<Rightarrow> ParameterSource \<Rightarrow> UpdateResult" where
  "verdict v source current =
     (if source = Runtime \<and> \<not> p_runtimeWritable P then NOT_RUNTIME_WRITABLE
      else if \<not> p_validate P v then INVALID_VALUE
      else if precedence source < precedence current then LOWER_PRECEDENCE else UpdOK)"

lemma store_set_eq:
  "store_set machine P s v source =
     (let r = verdict v source (st_sources s ! toIndex (p_id P))
      in if r = UpdOK
         then (s\<lparr>st_values := blit (st_values s) (p_offset P) (img Little v),
                 st_sources := (st_sources s)[toIndex (p_id P) := source],
                 st_generation := st_generation s + 1\<rparr>, UpdOK,
               Some \<lparr>ev_id = p_id P, ev_source = source, ev_generation = st_generation s + 1\<rparr>)
         else (s, r, None))"
  by (simp add: store_set_def verdict_def encode_value_eq writable Let_def)

lemma get_after_set:
  assumes "length (st_values s) = ParameterImageSize"
    and "store_set machine P s v source = (s', UpdOK, e)"
  shows "store_get machine' P s' old = (True, v)"
proof (rule get_slot)
  have "st_values s' = blit (st_values s) (p_offset P) (img Little v)"
    using assms(2) by (auto simp: store_set_eq Let_def split: if_splits)
  then show "take (p_encodedSize P) (drop (p_offset P) (st_values s')) = img Little v"
    using assms(1) in_image by (simp add: blit_def enc_width)
qed

lemma not_ok_unchanged:
  "store_set machine P s v source = (s', r, e) \<Longrightarrow> r \<noteq> UpdOK \<Longrightarrow> s' = s \<and> e = None"
  by (auto simp: store_set_eq Let_def split: if_splits)

end

lemmas parameter_defs = ReportingInterval_def TemperatureLimit_def OperatingModeParameter_def
  ParameterImageSize_def toIndex_def parameterCount_def

interpretation interval: parameter_def ReportingInterval "\<lambda>e v. mem_bytes e 4 v"
  using u32c.fixed_codec_axioms
  by (simp add: parameter_def_def parameter_def_axioms_def parameter_defs)

interpretation limit: parameter_def "TemperatureLimit fl" "\<lambda>e v. mem_bytes e 4 v"
  using floatc.fixed_codec_axioms
  by (simp add: parameter_def_def parameter_def_axioms_def parameter_defs)

lemma mode_decode: "(\<lambda>reader old. let (reader', raw) = readUInt8 reader 0 in (reader', raw)) = (\<lambda>reader old. readUInt8 reader 0)"
  by simp

interpretation mode: parameter_def "OperatingModeParameter fl" "\<lambda>_ v. [v]"
proof -
  have "fixed_codec writeUInt8 (\<lambda>reader old. readUInt8 reader 0) (\<lambda>_ v. [v]) (\<lambda>_. True) 1"
    using u8c.fixed_codec_axioms
    unfolding fixed_codec_def wire_codec_def fixed_codec_axioms_def by blast
  then show "parameter_def (OperatingModeParameter fl) (\<lambda>_ v. [v])"
    by (simp add: parameter_def_def parameter_def_axioms_def parameter_defs)
qed

section \<open>The store as three values\<close>

text \<open>The image of three values, and the store that holds them.\<close>

definition image_of :: "u32 \<Rightarrow> u32 \<Rightarrow> u8 \<Rightarrow> bytes" where
  "image_of a b c = mem_bytes Little 4 a @ mem_bytes Little 4 b @ [c]"

definition store_of :: "u32 \<Rightarrow> u32 \<Rightarrow> u8 \<Rightarrow> ParameterSource list \<Rightarrow> u32 \<Rightarrow> pstore" where
  "store_of a b c ss g = \<lparr>st_values = image_of a b c, st_sources = ss, st_generation = g\<rparr>"

definition valid_store :: "floats \<Rightarrow> pstore \<Rightarrow> bool" where
  "valid_store fl s \<longleftrightarrow> (\<exists>a b c ss g. s = store_of a b c ss g \<and> length ss = parameterCount
     \<and> p_validate ReportingInterval a \<and> p_validate (TemperatureLimit fl) b
     \<and> p_validate (OperatingModeParameter fl) c)"

lemma store_of_fields [simp]:
  "st_values (store_of a b c ss g) = image_of a b c" "st_sources (store_of a b c ss g) = ss"
  "st_generation (store_of a b c ss g) = g" "length (image_of a b c) = 9"
  by (simp_all add: store_of_def image_of_def)

lemma offsets [simp]:
  "p_offset ReportingInterval = 0" "p_offset (TemperatureLimit fl) = 4"
  "p_offset (OperatingModeParameter fl) = 8" "p_encodedSize ReportingInterval = 4"
  "p_encodedSize (TemperatureLimit fl) = 4" "p_encodedSize (OperatingModeParameter fl) = 1"
  "p_id ReportingInterval = PidReportingInterval" "p_id (TemperatureLimit fl) = PidTemperatureLimit"
  "p_id (OperatingModeParameter fl) = PidOperatingMode"
  by (simp_all add: parameter_defs)

lemma image_updates [simp]:
  "blit (image_of a b c) 0 (mem_bytes Little 4 a') = image_of a' b c"
  "blit (image_of a b c) 4 (mem_bytes Little 4 b') = image_of a b' c"
  "blit (image_of a b c) 8 [c'] = image_of a b c'"
  by (simp_all add: image_of_def blit_def)

lemma store_gets [simp]:
  "store_get m ReportingInterval (store_of a b c ss g) old = (True, a)"
  "store_get m (TemperatureLimit fl) (store_of a b c ss g) old = (True, b)"
  "store_get m (OperatingModeParameter fl) (store_of a b c ss g) old' = (True, c)"
  by (rule interval.get_slot limit.get_slot mode.get_slot; simp add: image_of_def)+

lemma default_store: "ParameterStore fl machine = store_of 1000 f32_45 ModeNormal (replicate 3 CompiledDefault) 0"
proof -
  have z: "replicate 9 0 = image_of 0 0 0"
    by (simp add: image_of_def mem_bytes_def le_bytes_def upt_rec numeral_eq_Suc)
  show ?thesis
    by (simp add: ParameterStore_def initializeDefault_def interval.encode_value_eq limit.encode_value_eq
        mode.encode_value_eq Let_def ParameterImageSize_def parameterCount_def toIndex_def z
        store_of_def)
      (simp add: parameter_defs)
qed

lemma set_interval:
  "store_set m ReportingInterval (store_of a b c ss g) v source =
     (let r = interval.verdict v source (ss ! 0)
      in if r = UpdOK
         then (store_of v b c (ss[0 := source]) (g + 1), UpdOK,
               Some \<lparr>ev_id = PidReportingInterval, ev_source = source, ev_generation = g + 1\<rparr>)
         else (store_of a b c ss g, r, None))"
  by (simp add: interval.store_set_eq toIndex_def Let_def store_of_def)

lemma set_limit:
  "store_set m (TemperatureLimit fl) (store_of a b c ss g) v source =
     (let r = limit.verdict fl v source (ss ! 1)
      in if r = UpdOK
         then (store_of a v c (ss[1 := source]) (g + 1), UpdOK,
               Some \<lparr>ev_id = PidTemperatureLimit, ev_source = source, ev_generation = g + 1\<rparr>)
         else (store_of a b c ss g, r, None))"
  by (simp add: limit.store_set_eq toIndex_def Let_def store_of_def)

lemma set_mode:
  "store_set m (OperatingModeParameter fl) (store_of a b c ss g) v source =
     (let r = mode.verdict fl v source (ss ! 2)
      in if r = UpdOK
         then (store_of a b v (ss[2 := source]) (g + 1), UpdOK,
               Some \<lparr>ev_id = PidOperatingMode, ev_source = source, ev_generation = g + 1\<rparr>)
         else (store_of a b c ss g, r, None))"
  by (simp add: mode.store_set_eq toIndex_def Let_def store_of_def)

lemma handler_simps [simp]:
  "handlerFor fl m PidReportingInterval = makeHandler m 4 VInterval unInterval ReportingInterval"
  "handlerFor fl m PidTemperatureLimit = makeHandler m 4 VLimit unLimit (TemperatureLimit fl)"
  "handlerFor fl m PidOperatingMode = makeHandler m 1 VMode unMode (OperatingModeParameter fl)"
  by (simp_all add: handlerFor_def registry_def toIndex_def)

lemma makeHandler_simps [simp]:
  "h_parse (makeHandler m n w u P) t = map_option w (p_parse P t)"
  "h_validate (makeHandler m n w u P) v = p_validate P (u v)"
  "h_serialize (makeHandler m n w u P) v = p_serialize P (u v)"
  "h_setFromText (makeHandler m n w u P) = setFromText m P"
  by (simp_all add: makeHandler_def)

text \<open>The value of a parameter as a reader of the store sees it.\<close>

definition current_value :: "floats \<Rightarrow> Endianness \<Rightarrow> pstore \<Rightarrow> ParameterID \<Rightarrow> pvalue" where
  "current_value fl m s i = (case i of
       PidTemperatureLimit \<Rightarrow> VLimit (snd (store_get m (TemperatureLimit fl) s 0))
     | PidOperatingMode \<Rightarrow> VMode (snd (store_get m (OperatingModeParameter fl) s 0))
     | _ \<Rightarrow> VInterval (snd (store_get m ReportingInterval s 0)))"

definition update_verdict ::
  "floats \<Rightarrow> Endianness \<Rightarrow> pstore \<Rightarrow> ParameterID \<Rightarrow> string \<Rightarrow> ParameterSource \<Rightarrow> UpdateResult" where
  "update_verdict fl m s i input source = (case h_parse (handlerFor fl m i) input of
       None \<Rightarrow> INVALID_VALUE
     | Some v \<Rightarrow>
         if source = Runtime \<and> i = PidTemperatureLimit then NOT_RUNTIME_WRITABLE
         else if \<not> h_validate (handlerFor fl m i) v then INVALID_VALUE
         else if precedence source < precedence (store_source s i) then LOWER_PRECEDENCE
         else UpdOK)"

lemma runtime_writable [simp]:
  "p_runtimeWritable ReportingInterval" "\<not> p_runtimeWritable (TemperatureLimit fl)"
  "p_runtimeWritable (OperatingModeParameter fl)"
  by (simp_all add: parameter_defs)

lemma update_interval:
  "store_set_text fl m (store_of a b c ss g) PidReportingInterval input source =
     (let r = update_verdict fl m (store_of a b c ss g) PidReportingInterval input source
      in if r = UpdOK
         then (store_of (the (p_parse ReportingInterval input)) b c (ss[0 := source]) (g + 1), UpdOK,
               Some \<lparr>ev_id = PidReportingInterval, ev_source = source, ev_generation = g + 1\<rparr>)
         else (store_of a b c ss g, r, None))"
  by (auto simp: store_set_text_def setFromText_def update_verdict_def set_interval interval.verdict_def
      store_source_def toIndex_def Let_def split: option.split)

lemma update_limit:
  "store_set_text fl m (store_of a b c ss g) PidTemperatureLimit input source =
     (let r = update_verdict fl m (store_of a b c ss g) PidTemperatureLimit input source
      in if r = UpdOK
         then (store_of a (the (p_parse (TemperatureLimit fl) input)) c (ss[1 := source]) (g + 1), UpdOK,
               Some \<lparr>ev_id = PidTemperatureLimit, ev_source = source, ev_generation = g + 1\<rparr>)
         else (store_of a b c ss g, r, None))"
  by (auto simp: store_set_text_def setFromText_def update_verdict_def set_limit limit.verdict_def
      store_source_def toIndex_def Let_def split: option.split)

lemma update_mode:
  "store_set_text fl m (store_of a b c ss g) PidOperatingMode input source =
     (let r = update_verdict fl m (store_of a b c ss g) PidOperatingMode input source
      in if r = UpdOK
         then (store_of a b (the (p_parse (OperatingModeParameter fl) input)) (ss[2 := source]) (g + 1), UpdOK,
               Some \<lparr>ev_id = PidOperatingMode, ev_source = source, ev_generation = g + 1\<rparr>)
         else (store_of a b c ss g, r, None))"
  by (auto simp: store_set_text_def setFromText_def update_verdict_def set_mode mode.verdict_def
      store_source_def toIndex_def Let_def split: option.split)

lemma verdict_ok:
  assumes "update_verdict fl m s i input source = UpdOK"
  shows "\<exists>v. h_parse (handlerFor fl m i) input = Some v \<and> h_validate (handlerFor fl m i) v
     \<and> precedence (store_source s i) \<le> precedence source"
  using assms by (auto simp: update_verdict_def split: option.splits if_splits)

lemma update_outcome_lemma:
  assumes "valid_store fl s" "i \<noteq> PidCount"
  shows "case store_set_text fl m s i input source of (s', r, e) \<Rightarrow>
     r = update_verdict fl m s i input source
   \<and> (if r \<noteq> UpdOK then s' = s \<and> e = None
      else valid_store fl s'
         \<and> h_parse (handlerFor fl m i) input = Some (current_value fl m s' i)
         \<and> store_source s' i = source \<and> st_generation s' = st_generation s + 1
         \<and> e = Some \<lparr>ev_id = i, ev_source = source, ev_generation = st_generation s'\<rparr>
         \<and> list_all (\<lambda>j. j = i \<or> current_value fl m s' j = current_value fl m s j
                         \<and> store_source s' j = store_source s j)
             [PidReportingInterval, PidTemperatureLimit, PidOperatingMode])"
proof -
  obtain a b c ss g where s: "s = store_of a b c ss g" and len: "length ss = parameterCount"
    and ok: "p_validate ReportingInterval a" "p_validate (TemperatureLimit fl) b"
      "p_validate (OperatingModeParameter fl) c"
    using assms(1) by (auto simp: valid_store_def)
  have len3: "length ss = 3" using len by (simp add: parameterCount_def toIndex_def)
  have valid: "valid_store fl (store_of a' b' c' ss' g')"
    if "p_validate ReportingInterval a'" "p_validate (TemperatureLimit fl) b'"
      "p_validate (OperatingModeParameter fl) c'" "length ss' = 3" for a' b' c' ss' g'
    unfolding valid_store_def parameterCount_def toIndex_def
    by (intro exI conjI) (rule refl, simp_all add: that)
  show ?thesis
  proof (cases i)
    case PidReportingInterval
    then show ?thesis
      using verdict_ok [of fl m s i input source] ok len3
      by (auto simp: s update_interval current_value_def store_source_def toIndex_def Let_def intro!: valid)
  next
    case PidTemperatureLimit
    then show ?thesis
      using verdict_ok [of fl m s i input source] ok len3
      by (auto simp: s update_limit current_value_def store_source_def toIndex_def Let_def intro!: valid)
  next
    case PidOperatingMode
    then show ?thesis
      using verdict_ok [of fl m s i input source] ok len3
      by (auto simp: s update_mode current_value_def store_source_def toIndex_def Let_def intro!: valid)
  next
    case PidCount
    with assms(2) show ?thesis by simp
  qed
qed

section \<open>Properties\<close>

text \<open>The outcome of a text update, on every branch. On a valid store and for a known parameter,
the result is \<open>INVALID_VALUE\<close> if the text does not parse, else \<open>NOT_RUNTIME_WRITABLE\<close> for the
temperature limit at run time, else \<open>INVALID_VALUE\<close> if the value is out of range, else
\<open>LOWER_PRECEDENCE\<close> if the source ranks below the one that set the value, else \<open>OK\<close>. Only \<open>OK\<close>
changes the store or produces an event: then that parameter reads back as the parsed value with
the new source, the others are untouched, and the generation in store and event is one higher.\<close>

theorem update_outcome:
  assumes "valid_store fl s" "i \<noteq> PidCount"
  shows "case store_set_text fl m s i input source of (s', r, e) \<Rightarrow>
     r = update_verdict fl m s i input source
   \<and> (if r \<noteq> UpdOK then s' = s \<and> e = None
      else valid_store fl s'
         \<and> h_parse (handlerFor fl m i) input = Some (current_value fl m s' i)
         \<and> store_source s' i = source \<and> st_generation s' = st_generation s + 1
         \<and> e = Some \<lparr>ev_id = i, ev_source = source, ev_generation = st_generation s'\<rparr>
         \<and> list_all (\<lambda>j. j = i \<or> current_value fl m s' j = current_value fl m s j
                         \<and> store_source s' j = store_source s j)
             [PidReportingInterval, PidTemperatureLimit, PidOperatingMode])"
  using assms by (rule update_outcome_lemma)

definition sample_floats :: floats where
  "sample_floats = \<lparr>fl_from_chars = (\<lambda>s. if s = ''45'' then (NoErrc, 2, Some f32_45) else (InvalidArgument, 0, None)),
     fl_to_chars = (\<lambda>v n. if v = f32_45 then Some ''45'' else None)\<rparr>"

lemma default_validates:
  "p_validate ReportingInterval 1000" "p_validate (TemperatureLimit fl) f32_45"
  "p_validate (OperatingModeParameter fl) ModeNormal"
proof -
  have "bit f32_minus_40 31" "\<not> bit f32_45 31" "\<not> bit f32_125 31"
    by (simp_all add: bit_iff_odd_drop_bit f32_minus_40_def f32_45_def f32_125_def drop_bit_eq_div)
  then show "p_validate ReportingInterval 1000" "p_validate (TemperatureLimit fl) f32_45"
    "p_validate (OperatingModeParameter fl) ModeNormal"
    by (simp_all add: parameter_defs f32_le_def f32_nan_def f32_key_def)
      (simp_all add: f32_minus_40_def f32_45_def f32_125_def)
qed

lemma default_valid: "valid_store fl (ParameterStore fl m)"
  unfolding valid_store_def default_store parameterCount_def toIndex_def
  by (intro exI conjI) (rule refl, simp_all add: default_validates)

theorem update_outcome_witness:
  "case store_set_text sample_floats Little (ParameterStore sample_floats Little)
       PidTemperatureLimit ''45'' Runtime of (s', r, e) \<Rightarrow>
     r = NOT_RUNTIME_WRITABLE \<and> s' = ParameterStore sample_floats Little \<and> e = None"
  using update_outcome [OF default_valid, of PidTemperatureLimit sample_floats Little Little "''45''" Runtime]
  by (simp add: update_verdict_def parameter_defs sample_floats_def split: prod.splits)

text \<open>The store over its whole life. From the default store, whatever requests the owner thread
takes from the queue, all three parameters always decode, on a machine of either byte order, to
values their validators accept; the generation counts the accepted requests, modulo \<open>2^32\<close>; and
the notifications are exactly the accepted requests in order, numbered 1, 2, 3 and so on.\<close>

theorem store_life:
  assumes "list_all (\<lambda>r. rq_id r \<noteq> PidCount) rs"
  shows "case owner_loop fl machine (ParameterStore fl machine) rs of (s, results, events) \<Rightarrow>
     (case store_get m' ReportingInterval s 0 of (ok, v) \<Rightarrow> ok \<and> p_validate ReportingInterval v)
   \<and> (case store_get m' (TemperatureLimit fl) s 0 of (ok, v) \<Rightarrow> ok \<and> p_validate (TemperatureLimit fl) v)
   \<and> (case store_get m' (OperatingModeParameter fl) s 0 of (ok, v) \<Rightarrow>
        ok \<and> p_validate (OperatingModeParameter fl) v)
   \<and> st_generation s = of_nat (length (filter (\<lambda>r. r = UpdOK) results))
   \<and> map (\<lambda>e. (ev_id e, ev_source e)) events
       = map (\<lambda>(r, _). (rq_id r, rq_source r)) (filter (\<lambda>(_, x). x = UpdOK) (zip rs results))
   \<and> map ev_generation events = map of_nat [1..<length (filter (\<lambda>r. r = UpdOK) results) + 1]"
proof -
  have loop: "case owner_loop fl machine s rs of (s', results, events) \<Rightarrow>
       valid_store fl s' \<and> length results = length rs
     \<and> st_generation s' = st_generation s + of_nat (length (filter (\<lambda>r. r = UpdOK) results))
     \<and> map (\<lambda>e. (ev_id e, ev_source e)) events
         = map (\<lambda>(r, _). (rq_id r, rq_source r)) (filter (\<lambda>(_, x). x = UpdOK) (zip rs results))
     \<and> map ev_generation events = map (\<lambda>k. st_generation s + of_nat k) [1..<length (filter (\<lambda>r. r = UpdOK) results) + 1]"
    if "valid_store fl s" for s
    using that assms
  proof (induction rs arbitrary: s)
    case Nil
    then show ?case by simp
  next
    case (Cons r rs)
    obtain s1 res ev where step: "store_set_text fl machine s (rq_id r) (rq_text r) (rq_source r) = (s1, res, ev)"
      by (cases "store_set_text fl machine s (rq_id r) (rq_text r) (rq_source r)") auto
    have out: "valid_store fl s1 \<and> (if res = UpdOK then st_generation s1 = st_generation s + 1
        \<and> ev = Some \<lparr>ev_id = rq_id r, ev_source = rq_source r, ev_generation = st_generation s1\<rparr>
        else s1 = s \<and> ev = None)"
      using update_outcome_lemma [OF Cons.prems(1), of "rq_id r" machine "rq_text r" "rq_source r"] Cons.prems step
      by (auto split: if_splits)
    have shift: "map (\<lambda>k. st_generation s + of_nat k) [Suc 0..<Suc (Suc n)]
        = (st_generation s + 1) # map (\<lambda>k. st_generation s + (1 + of_nat k)) [Suc 0..<Suc n]" for n
    proof -
      have "[Suc 0..<Suc (Suc n)] = Suc 0 # map Suc [Suc 0..<Suc n]"
        by (simp add: map_Suc_upt upt_conv_Cons del: upt_Suc)
      then show ?thesis by (simp add: del: upt_Suc)
    qed
    from Cons.IH [of s1] out Cons.prems show ?case
      using step
      by (cases "res = UpdOK") (auto simp: Let_def shift add.assoc split: prod.splits simp del: upt_Suc)
  qed
  show ?thesis
    using loop [OF default_valid] by (auto simp: valid_store_def default_store)
qed

theorem store_life_witness:
  "case owner_loop sample_floats Big (ParameterStore sample_floats Big)
      [\<lparr>rq_id = PidOperatingMode, rq_source = Runtime, rq_value = ''safe'', rq_valueLength = 4\<rparr>]
   of (s, results, events) \<Rightarrow>
     (case store_get Little ReportingInterval s 0 of (ok, v) \<Rightarrow> ok \<and> p_validate ReportingInterval v)
   \<and> (case store_get Little (TemperatureLimit sample_floats) s 0 of (ok, v) \<Rightarrow>
        ok \<and> p_validate (TemperatureLimit sample_floats) v)
   \<and> (case store_get Little (OperatingModeParameter sample_floats) s 0 of (ok, v) \<Rightarrow>
        ok \<and> p_validate (OperatingModeParameter sample_floats) v)
   \<and> st_generation s = of_nat (length (filter (\<lambda>r. r = UpdOK) results))
   \<and> map (\<lambda>e. (ev_id e, ev_source e)) events
       = map (\<lambda>(r, _). (rq_id r, rq_source r)) (filter (\<lambda>(_, x). x = UpdOK)
           (zip [\<lparr>rq_id = PidOperatingMode, rq_source = Runtime, rq_value = ''safe'', rq_valueLength = 4\<rparr>]
              results))
   \<and> map ev_generation events = map of_nat [1..<length (filter (\<lambda>r. r = UpdOK) results) + 1]"
  by (rule store_life) simp

lemma parse_show_u32: "parse_u32 (show_int (uint v)) = Some v"
proof -
  have "from_chars 0 (2 ^ 32 - 1) (show_int (uint v)) = (NoErrc, length (show_int (uint v)), Some (uint v))"
    using uint_range_size [of v] by (intro from_chars_show) (auto simp: word_size)
  then show ?thesis by (simp add: parse_u32_def)
qed

lemma serialize_u32_fits: "serialize_u32 v 64 = show_int (uint v)"
proof -
  have "unat v < 2 ^ LENGTH(32)" by (rule unsigned_less)
  then have "nat (uint v) < 10 ^ 10" by simp
  then have "length (show_nat (nat (uint v))) \<le> 10"
    by (rule length_show_nat) simp
  then show ?thesis by (simp add: serialize_u32_def show_int_def not_less)
qed

text \<open>The text form of a parameter is faithful. Serialising the current value of any parameter of
a valid store into a 64-character buffer and setting the result as text again, from any source
that is allowed to set it, succeeds and leaves every value as it was. Of the float conversions it
needs only that \<open>from_chars\<close> reads the whole text of \<open>to_chars\<close> back as the same number.\<close>

theorem serialize_set_roundtrip:
  assumes "valid_store fl s" "i \<noteq> PidCount"
    and "\<And>b. \<exists>t. fl_to_chars fl b 64 = Some t \<and> fl_from_chars fl t = (NoErrc, length t, Some b)"
    and "precedence (store_source s i) \<le> precedence source" "source \<noteq> Runtime \<or> i \<noteq> PidTemperatureLimit"
  shows "case store_set_text fl m s i (h_serialize (handlerFor fl m i) (current_value fl m s i) 64) source of
      (s', r, e) \<Rightarrow> r = UpdOK \<and> st_values s' = st_values s \<and> store_source s' i = source"
proof -
  obtain a b c ss g where s: "s = store_of a b c ss g" and len: "length ss = parameterCount"
    and ok: "p_validate ReportingInterval a" "p_validate (TemperatureLimit fl) b"
      "p_validate (OperatingModeParameter fl) c"
    using assms(1) by (auto simp: valid_store_def)
  have len3: "length ss = 3" using len by (simp add: parameterCount_def toIndex_def)
  show ?thesis
  proof (cases i)
    case PidReportingInterval
    have "p_serialize ReportingInterval a 64 = show_int (uint a)" "p_parse ReportingInterval = parse_u32"
      by (simp_all add: parameter_defs serialize_u32_fits)
    then show ?thesis
      using PidReportingInterval ok assms(4) len3
      by (simp add: s update_interval update_verdict_def current_value_def parse_show_u32
          store_source_def toIndex_def)
  next
    case PidTemperatureLimit
    obtain t where "fl_to_chars fl b 64 = Some t" "fl_from_chars fl t = (NoErrc, length t, Some b)"
      using assms(3) by blast
    then have "p_serialize (TemperatureLimit fl) b 64 = t" "p_parse (TemperatureLimit fl) t = Some b"
      by (simp_all add: parameter_defs)
    then show ?thesis
      using PidTemperatureLimit ok assms(4,5) len3
      by (simp add: s update_limit update_verdict_def current_value_def store_source_def toIndex_def)
  next
    case PidOperatingMode
    have "p_parse (OperatingModeParameter fl) (p_serialize (OperatingModeParameter fl) c 64) = Some c"
      using ok(3) by (auto simp: parameter_defs copyText_def)
    then show ?thesis
      using PidOperatingMode ok assms(4) len3
      by (simp add: s update_mode update_verdict_def current_value_def store_source_def toIndex_def)
  next
    case PidCount
    with assms(2) show ?thesis by simp
  qed
qed

text \<open>A float library that prints the bit pattern in decimal.\<close>

definition decimal_floats :: floats where
  "decimal_floats =
     \<lparr>fl_from_chars = (\<lambda>s. case parse_u32 s of None \<Rightarrow> (InvalidArgument, 0, None)
        | Some v \<Rightarrow> (NoErrc, length s, Some v)),
      fl_to_chars = (\<lambda>v n. Some (show_int (uint v)))\<rparr>"

theorem serialize_set_roundtrip_witness:
  "case store_set_text decimal_floats Little (ParameterStore decimal_floats Little) PidReportingInterval
      (h_serialize (handlerFor decimal_floats Little PidReportingInterval)
        (current_value decimal_floats Little (ParameterStore decimal_floats Little) PidReportingInterval) 64) Runtime
   of (s', r, e) \<Rightarrow> r = UpdOK \<and> st_values s' = st_values (ParameterStore decimal_floats Little)
      \<and> store_source s' PidReportingInterval = Runtime"
  by (rule serialize_set_roundtrip [OF default_valid])
    (simp_all add: decimal_floats_def parse_show_u32 default_store store_source_def
      toIndex_def precedence_def)

end
