(* ===== verification/MessageHeader.thy ===== *)
theory MessageHeader
  imports WireCodec
begin

text \<open>
  \<open>Common/include/MessageHeader.h\<close>: the 28-byte BDS header, its field-by-field codec, the header
  CRC, the CRC finalization and the validation. The first argument of an operation that creates
  a stream is the byte order of the machine. \<open>hdr_bytes\<close> is the wire layout; the codec is an
  instance of \<open>fixed_codec\<close>, and \<open>hdr_of\<close> is its inverse on every 28-byte string.
\<close>

section \<open>Header\<close>

definition HeaderWireEndianness :: Endianness where "HeaderWireEndianness = Little"
definition MessageMagicV1 :: u32 where "MessageMagicV1 = 0x31534442"
definition MessageVersionV1 :: u8 where "MessageVersionV1 = 1"
definition MessageHeaderV1WireSize :: nat where "MessageHeaderV1WireSize = 28"
definition MessageFlagIdempotent :: u32 where "MessageFlagIdempotent = push_bit 0 1"
definition MessageFlagsV1Mask :: u32 where "MessageFlagsV1Mask = MessageFlagIdempotent"

record MessageHeaderV1 =
  magic :: u32
  version :: u8
  headerSize :: u8
  payloadEndian :: u8
  headerFlags :: u8
  serviceId :: u16
  messageType :: u16
  transactionId :: u32
  payloadSize :: u32
  flags :: u32
  headerCrc :: u16
  payloadCrc :: u16

definition defaultHeader :: MessageHeaderV1 where
  "defaultHeader =
     \<lparr>magic = MessageMagicV1, version = MessageVersionV1,
      headerSize = of_nat MessageHeaderV1WireSize, payloadEndian = 0, headerFlags = 0,
      serviceId = 0, messageType = 0, transactionId = 0, payloadSize = 0, flags = 0,
      headerCrc = 0, payloadCrc = 0\<rparr>"

definition isIdempotent :: "MessageHeaderV1 \<Rightarrow> bool" where
  "isIdempotent header \<longleftrightarrow> flags header AND MessageFlagIdempotent \<noteq> 0"

definition isValidPayloadEndian :: "u8 \<Rightarrow> bool" where
  "isValidPayloadEndian v \<longleftrightarrow> v = 0 \<or> v = 1"

definition payloadEndianFromHeader :: "u8 \<Rightarrow> Endianness" where
  "payloadEndianFromHeader pe = (if pe = 0 then Little else Big)"

section \<open>Encoding and decoding\<close>

definition writeHeaderV1 :: "wstream \<Rightarrow> MessageHeaderV1 \<Rightarrow> wstream" where
  "writeHeaderV1 s0 header =
     (let s1 = writeUInt32 s0 (magic header);
          s2 = writeUInt8 s1 (version header);
          s3 = writeUInt8 s2 (headerSize header);
          s4 = writeUInt8 s3 (payloadEndian header);
          s5 = writeUInt8 s4 (headerFlags header);
          s6 = writeUInt16 s5 (serviceId header);
          s7 = writeUInt16 s6 (messageType header);
          s8 = writeUInt32 s7 (transactionId header);
          s9 = writeUInt32 s8 (payloadSize header);
          s10 = writeUInt32 s9 (flags header);
          s11 = writeUInt16 s10 (headerCrc header)
      in writeUInt16 s11 (payloadCrc header))"

definition readHeaderV1 :: "rstream \<Rightarrow> MessageHeaderV1 \<Rightarrow> rstream \<times> MessageHeaderV1" where
  "readHeaderV1 r0 h =
     (let (r1, a) = readUInt32 r0 (magic h);
          (r2, b) = readUInt8 r1 (version h);
          (r3, c) = readUInt8 r2 (headerSize h);
          (r4, d) = readUInt8 r3 (payloadEndian h);
          (r5, e) = readUInt8 r4 (headerFlags h);
          (r6, f) = readUInt16 r5 (serviceId h);
          (r7, g) = readUInt16 r6 (messageType h);
          (r8, i) = readUInt32 r7 (transactionId h);
          (r9, j) = readUInt32 r8 (payloadSize h);
          (r10, k) = readUInt32 r9 (flags h);
          (r11, l) = readUInt16 r10 (headerCrc h);
          (r12, n) = readUInt16 r11 (payloadCrc h)
      in (r12, \<lparr>magic = a, version = b, headerSize = c, payloadEndian = d, headerFlags = e,
               serviceId = f, messageType = g, transactionId = i, payloadSize = j, flags = k,
               headerCrc = l, payloadCrc = n\<rparr>))"

section \<open>CRCs and validation\<close>

definition computeHeaderCrc :: "Endianness \<Rightarrow> MessageHeaderV1 \<Rightarrow> u16" where
  "computeHeaderCrc machine header =
     (let wireBytes = replicate MessageHeaderV1WireSize 0;
          headerForCrc = header\<lparr>headerCrc := 0\<rparr>;
          writer = BinaryWriteStream machine wireBytes HeaderWireEndianness defaultMaxSizedField;
          writer' = writeHeaderV1 writer headerForCrc
      in if \<not> w_ok writer' \<or> bytesWritten writer' \<noteq> MessageHeaderV1WireSize then 0
         else crc16CcittFalse (w_buf writer'))"

definition finalizeCrcs :: "Endianness \<Rightarrow> MessageHeaderV1 \<Rightarrow> bytes \<Rightarrow> MessageHeaderV1" where
  "finalizeCrcs machine header payload =
     (let h1 = header\<lparr>headerSize := of_nat MessageHeaderV1WireSize\<rparr>;
          h2 = h1\<lparr>payloadSize := of_nat (length payload)\<rparr>;
          h3 = h2\<lparr>payloadCrc := crc16CcittFalse payload\<rparr>
      in h3\<lparr>headerCrc := computeHeaderCrc machine h3\<rparr>)"

definition validateHeaderV1 :: "Endianness \<Rightarrow> MessageHeaderV1 \<Rightarrow> bool" where
  "validateHeaderV1 machine header =
     (if magic header \<noteq> MessageMagicV1 then False
      else if version header \<noteq> MessageVersionV1 then False
      else if headerSize header \<noteq> of_nat MessageHeaderV1WireSize then False
      else if \<not> isValidPayloadEndian (payloadEndian header) then False
      else if headerFlags header \<noteq> 0 then False
      else if flags header AND NOT MessageFlagsV1Mask \<noteq> 0 then False
      else computeHeaderCrc machine header = headerCrc header)"

definition validatePayloadCrc :: "MessageHeaderV1 \<Rightarrow> bytes \<Rightarrow> bool" where
  "validatePayloadCrc header payload =
     (if length payload \<noteq> unat (payloadSize header) then False
      else crc16CcittFalse payload = payloadCrc header)"

section \<open>Wire layout\<close>

definition hdr_bytes :: "Endianness \<Rightarrow> MessageHeaderV1 \<Rightarrow> bytes" where
  "hdr_bytes e h =
     mem_bytes e 4 (magic h) @ [version h, headerSize h, payloadEndian h, headerFlags h]
   @ mem_bytes e 2 (serviceId h) @ mem_bytes e 2 (messageType h)
   @ mem_bytes e 4 (transactionId h) @ mem_bytes e 4 (payloadSize h) @ mem_bytes e 4 (flags h)
   @ mem_bytes e 2 (headerCrc h) @ mem_bytes e 2 (payloadCrc h)"

definition hdr_of :: "Endianness \<Rightarrow> bytes \<Rightarrow> MessageHeaderV1" where
  "hdr_of e bs =
     \<lparr>magic = mem_word e (take 4 bs), version = bs ! 4, headerSize = bs ! 5,
      payloadEndian = bs ! 6, headerFlags = bs ! 7,
      serviceId = mem_word e (take 2 (drop 8 bs)), messageType = mem_word e (take 2 (drop 10 bs)),
      transactionId = mem_word e (take 4 (drop 12 bs)),
      payloadSize = mem_word e (take 4 (drop 16 bs)), flags = mem_word e (take 4 (drop 20 bs)),
      headerCrc = mem_word e (take 2 (drop 24 bs)), payloadCrc = mem_word e (take 2 (drop 26 bs))\<rparr>"

lemma length_hdr_bytes [simp]: "length (hdr_bytes e h) = 28"
  by (simp add: hdr_bytes_def)

lemma hdr_of_hdr_bytes [simp]: "hdr_of e (hdr_bytes e h @ rest) = h"
  by (simp add: hdr_of_def hdr_bytes_def nth_append)

lemma hdr_of_hdr_bytes_exact [simp]: "hdr_of e (hdr_bytes e h) = h"
  using hdr_of_hdr_bytes [of e h "[]"] by simp

lemma mem_bytes_u16: "length bs = 2 \<Longrightarrow> mem_bytes e 2 (mem_word e bs :: u16) = bs"
  and mem_bytes_u32: "length cs = 4 \<Longrightarrow> mem_bytes e 4 (mem_word e cs :: u32) = cs"
  using mem_bytes_mem_word [of bs e, where 'a = 16] mem_bytes_mem_word [of cs e, where 'a = 32]
  by simp_all

lemma hdr_bytes_hdr_of:
  assumes "length bs = 28"
  shows "hdr_bytes e (hdr_of e bs) = bs"
proof -
  have four: "[bs ! 4, bs ! 5, bs ! 6, bs ! 7] = take 4 (drop 4 bs)"
    using assms by (simp add: eval_nat_numeral take_Suc_conv_app_nth)
  have "hdr_bytes e (hdr_of e bs)
      = take 4 bs @ take 4 (drop 4 bs) @ take 2 (drop 8 bs) @ take 2 (drop 10 bs)
      @ take 4 (drop 12 bs) @ take 4 (drop 16 bs) @ take 4 (drop 20 bs) @ take 2 (drop 24 bs)
      @ take 2 (drop 26 bs)"
    using assms by (simp add: hdr_bytes_def hdr_of_def mem_bytes_u16 mem_bytes_u32 four [symmetric])
  also have "take 2 (drop 26 bs) = drop 26 bs"
    using assms by simp
  also have "take 2 (drop 24 bs) @ drop 26 bs = drop 24 bs"
    using take_drop_join [of 2 24 bs] by simp
  also have "take 4 (drop 20 bs) @ drop 24 bs = drop 20 bs"
    using take_drop_join [of 4 20 bs] by simp
  also have "take 4 (drop 16 bs) @ drop 20 bs = drop 16 bs"
    using take_drop_join [of 4 16 bs] by simp
  also have "take 4 (drop 12 bs) @ drop 16 bs = drop 12 bs"
    using take_drop_join [of 4 12 bs] by simp
  also have "take 2 (drop 10 bs) @ drop 12 bs = drop 10 bs"
    using take_drop_join [of 2 10 bs] by simp
  also have "take 2 (drop 8 bs) @ drop 10 bs = drop 8 bs"
    using take_drop_join [of 2 8 bs] by simp
  also have "take 4 (drop 4 bs) @ drop 8 bs = drop 4 bs"
    using take_drop_join [of 4 4 bs] by simp
  finally show ?thesis by simp
qed

section \<open>The header codec\<close>

definition hdr_chunks :: "Endianness \<Rightarrow> MessageHeaderV1 \<Rightarrow> bytes list" where
  "hdr_chunks e h =
     [mem_bytes e 4 (magic h), [version h], [headerSize h], [payloadEndian h], [headerFlags h],
      mem_bytes e 2 (serviceId h), mem_bytes e 2 (messageType h), mem_bytes e 4 (transactionId h),
      mem_bytes e 4 (payloadSize h), mem_bytes e 4 (flags h), mem_bytes e 2 (headerCrc h),
      mem_bytes e 2 (payloadCrc h)]"

lemma concat_hdr_chunks: "concat (hdr_chunks e h) = hdr_bytes e h"
  by (simp add: hdr_chunks_def hdr_bytes_def)

lemma writeHeaderV1_raws:
  "w_wf s \<Longrightarrow> writeHeaderV1 s h = foldl writeRawBytes s (hdr_chunks (w_wire s) h)"
  by (simp add: writeHeaderV1_def Let_def stream_simps hdr_chunks_def)

lemma readHeaderV1_next:
  assumes "r_wf r" "r_ok r" "unread r = hdr_bytes (r_wire r) h @ rest"
  shows "readHeaderV1 r old = (adv r 28, h)"
  using assms
  by (simp add: readHeaderV1_def hdr_bytes_def Let_def stream_simps)

interpretation hdr: fixed_codec writeHeaderV1 readHeaderV1 hdr_bytes "\<lambda>_. True" 28
  by unfold_locales
    (simp_all add: writeHeaderV1_raws raws_wf raws_ok_iff raws_fit concat_hdr_chunks
      readHeaderV1_next)

section \<open>The CRC of the serialized header\<close>

text \<open>\<open>blank_crc\<close> clears the two bytes of the header CRC in a serialized header.\<close>

definition blank_crc :: "bytes \<Rightarrow> bytes" where
  "blank_crc bs = take 24 bs @ [0, 0] @ drop 26 bs"

lemma length_blank_crc [simp]: "length bs = 28 \<Longrightarrow> length (blank_crc bs) = 28"
  by (simp add: blank_crc_def)

lemma blank_crc_nth:
  assumes "length bs = 28" "i < 28"
  shows "blank_crc bs ! i = (if i = 24 \<or> i = 25 then 0 else bs ! i)"
proof -
  have "i < 24 \<or> i = 24 \<or> i = 25 \<or> 26 \<le> i" by linarith
  then consider "i < 24" | "i = 24" | "i = 25" | j where "i = 26 + j"
    using le_Suc_ex [of 26 i] by blast
  then show ?thesis
    using assms by cases (simp_all add: blank_crc_def nth_append nth_Cons')
qed

lemma mem_bytes_zero: "mem_bytes Little 2 (0 :: u16) = [0, 0]"
  by (simp add: mem_bytes_def le_bytes_def upt_rec)

lemma hdr_bytes_blank: "hdr_bytes Little (h\<lparr>headerCrc := 0\<rparr>) = blank_crc (hdr_bytes Little h)"
  by (simp add: hdr_bytes_def blank_crc_def mem_bytes_zero)

lemma computeHeaderCrc_eq:
  "computeHeaderCrc m h = crc16CcittFalse (blank_crc (hdr_bytes Little h))"
  using hdr.put_exact_buffer [of "replicate 28 0" m Little defaultMaxSizedField "h\<lparr>headerCrc := 0\<rparr>"]
  by (simp add: computeHeaderCrc_def MessageHeaderV1WireSize_def HeaderWireEndianness_def
      hdr_bytes_blank)

lemma finalizeCrcs_fields:
  "magic (finalizeCrcs m h p) = magic h" "version (finalizeCrcs m h p) = version h"
  "headerSize (finalizeCrcs m h p) = 28" "payloadEndian (finalizeCrcs m h p) = payloadEndian h"
  "headerFlags (finalizeCrcs m h p) = headerFlags h" "serviceId (finalizeCrcs m h p) = serviceId h"
  "messageType (finalizeCrcs m h p) = messageType h"
  "transactionId (finalizeCrcs m h p) = transactionId h"
  "payloadSize (finalizeCrcs m h p) = of_nat (length p)" "flags (finalizeCrcs m h p) = flags h"
  "payloadCrc (finalizeCrcs m h p) = crc16CcittFalse p"
  by (simp_all add: finalizeCrcs_def Let_def MessageHeaderV1WireSize_def)

lemma computeHeaderCrc_ignores: "computeHeaderCrc m (h\<lparr>headerCrc := c\<rparr>) = computeHeaderCrc m h"
  by (simp add: computeHeaderCrc_def)

lemma finalizeCrcs_headerCrc:
  "headerCrc (finalizeCrcs m h p) = computeHeaderCrc m (finalizeCrcs m h p)"
  by (simp add: finalizeCrcs_def Let_def computeHeaderCrc_ignores)

text \<open>The fields the header fixes, apart from the CRC.\<close>

definition hdr_fields_ok :: "MessageHeaderV1 \<Rightarrow> bool" where
  "hdr_fields_ok h \<longleftrightarrow>
     magic h = MessageMagicV1 \<and> version h = MessageVersionV1 \<and> headerSize h = 28
   \<and> isValidPayloadEndian (payloadEndian h) \<and> headerFlags h = 0
   \<and> flags h AND NOT MessageFlagsV1Mask = 0"

lemma validateHeaderV1_iff:
  "validateHeaderV1 m h \<longleftrightarrow>
     hdr_fields_ok h \<and> crc16CcittFalse (blank_crc (hdr_bytes Little h)) = headerCrc h"
  by (simp add: validateHeaderV1_def hdr_fields_ok_def computeHeaderCrc_eq
      MessageHeaderV1WireSize_def)

lemma validatePayloadCrc_iff:
  "validatePayloadCrc h p \<longleftrightarrow>
     length p = unat (payloadSize h) \<and> crc16CcittFalse p = payloadCrc h"
  by (simp add: validatePayloadCrc_def)

lemma and_not_one_iff: "(w :: u32) AND NOT 1 = 0 \<longleftrightarrow> w = 0 \<or> w = 1"
proof
  assume a: "w AND NOT 1 = 0"
  have "w = (w AND NOT 1) OR (w AND 1)"
    by (rule bit_word_eqI) (auto simp: bit_simps)
  then have "w = w AND 1" using a by simp
  then have "w = of_bool (odd w)" by (simp add: and_one_eq mod_2_eq_odd)
  then show "w = 0 \<or> w = 1" by (cases "odd w") auto
qed auto

lemma flags_mask_iff: "flags h AND NOT MessageFlagsV1Mask = 0 \<longleftrightarrow> flags h = 0 \<or> flags h = 1"
  using and_not_one_iff [of "flags h"]
  by (simp add: MessageFlagsV1Mask_def MessageFlagIdempotent_def)

end
