(* ===== verification/MessageFrame.thy ===== *)
theory MessageFrame
  imports MessageHeader
begin

text \<open>
  \<open>Common/include/MessageFrame.h\<close>: one complete BDS frame in memory. \<open>size_t\<close> is a natural number
  below \<open>2^64\<close>; the two size guards of the code are kept. An out parameter is passed in and
  returned. The main lemma characterises the frames the reader accepts; the properties follow
  from it and from the checksum contract of the CRC.
\<close>

datatype MessageFrameStatus =
  FrameOk | OutputTooSmall | PayloadTooLarge | FrameTooSmall | InvalidHeader | InvalidFrameSize
| InvalidPayloadCrc

definition SizeMax :: nat where "SizeMax = 2 ^ 64 - 1"
definition UInt32Max :: nat where "UInt32Max = 2 ^ 32 - 1"

definition writeFrameV1 ::
  "Endianness \<Rightarrow> bytes \<Rightarrow> MessageHeaderV1 \<Rightarrow> bytes \<Rightarrow> MessageFrameStatus \<times> bytes \<times> nat" where
  "writeFrameV1 machine destination header payload =
     (if length payload > UInt32Max then (PayloadTooLarge, destination, 0)
      else if length payload > SizeMax - MessageHeaderV1WireSize
        then (PayloadTooLarge, destination, 0)
      else let required = MessageHeaderV1WireSize + length payload
           in if length destination < required then (OutputTooSmall, destination, 0)
              else let header' = finalizeCrcs machine header payload;
                       writer = BinaryWriteStream machine destination HeaderWireEndianness
                                  defaultMaxSizedField;
                       writer1 = writeHeaderV1 writer header';
                       writer2 = writeBytes writer1 payload
                   in if \<not> w_ok writer2 \<or> bytesWritten writer2 \<noteq> required
                      then (OutputTooSmall, w_buf writer2, 0)
                      else (FrameOk, w_buf writer2, bytesWritten writer2))"

definition readFrameV1 ::
  "Endianness \<Rightarrow> bytes \<Rightarrow> MessageHeaderV1 \<Rightarrow> MessageFrameStatus \<times> MessageHeaderV1 \<times> bytes" where
  "readFrameV1 machine frame header =
     (if length frame < MessageHeaderV1WireSize then (FrameTooSmall, header, [])
      else let headerBytes = take MessageHeaderV1WireSize frame;
               reader = BinaryReadStream machine headerBytes HeaderWireEndianness
                          defaultMaxSizedField;
               (reader', header') = readHeaderV1 reader header
           in if \<not> r_ok reader' \<or> bytesRead reader' \<noteq> MessageHeaderV1WireSize
                 \<or> \<not> validateHeaderV1 machine header'
              then (InvalidHeader, header', [])
              else let expectedSize = MessageHeaderV1WireSize + unat (payloadSize header')
                   in if length frame \<noteq> expectedSize then (InvalidFrameSize, header', [])
                      else let payload = take (unat (payloadSize header'))
                                           (drop MessageHeaderV1WireSize frame)
                           in if \<not> validatePayloadCrc header' payload
                              then (InvalidPayloadCrc, header', [])
                              else (FrameOk, header', payload))"

section \<open>Writing\<close>

lemma writeFrameV1_ok:
  assumes "28 + length p \<le> length dest" "length p \<le> UInt32Max"
  shows "writeFrameV1 m dest h p
    = (FrameOk, blit dest 0 (hdr_bytes Little (finalizeCrcs m h p) @ p), 28 + length p)"
proof -
  let ?w = "BinaryWriteStream m dest Little defaultMaxSizedField"
  let ?h = "hdr_bytes Little (finalizeCrcs m h p)"
  have "writeHeaderV1 ?w (finalizeCrcs m h p) = writeRawBytes ?w ?h"
    using hdr.put_raw [of ?w "finalizeCrcs m h p"] assms by simp
  moreover have "writeRawBytes (writeRawBytes ?w ?h) p = writeRawBytes ?w (?h @ p)"
    using assms by (intro raw_raw) auto
  moreover have "writeRawBytes ?w (?h @ p)
    = ?w\<lparr>w_buf := blit (w_buf ?w) (w_pos ?w) (?h @ p), w_pos := w_pos ?w + length (?h @ p)\<rparr>"
    using assms by (intro raw_fits) auto
  ultimately show ?thesis
    using assms
    by (simp add: writeFrameV1_def MessageHeaderV1WireSize_def HeaderWireEndianness_def Let_def
        SizeMax_def UInt32Max_def bytesWritten_def w_ok_def)
qed

lemma writeFrameV1_status:
  "fst (writeFrameV1 m dest h p) =
     (if length p > UInt32Max then PayloadTooLarge
      else if length dest < 28 + length p then OutputTooSmall else FrameOk)"
proof (cases "length p \<le> UInt32Max \<and> 28 + length p \<le> length dest")
  case True
  then show ?thesis by (simp add: writeFrameV1_ok)
next
  case False
  then show ?thesis
    by (auto simp: writeFrameV1_def MessageHeaderV1WireSize_def SizeMax_def UInt32Max_def)
qed

section \<open>What the reader accepts\<close>

text \<open>
  A frame is well formed when it is the image of a header, followed by the payload the header
  announces, with the fixed fields right and both CRCs matching.
\<close>

definition frame_wf :: "MessageHeaderV1 \<Rightarrow> bytes \<Rightarrow> bytes \<Rightarrow> bool" where
  "frame_wf h p frame \<longleftrightarrow>
     frame = hdr_bytes Little h @ p \<and> length p = unat (payloadSize h) \<and> hdr_fields_ok h
   \<and> crc16CcittFalse (blank_crc (hdr_bytes Little h)) = headerCrc h
   \<and> crc16CcittFalse p = payloadCrc h"

lemma read_any_header:
  assumes "28 \<le> length frame"
  shows "readHeaderV1 (BinaryReadStream m (take 28 frame) Little mx) old
    = (adv (BinaryReadStream m (take 28 frame) Little mx) 28, hdr_of Little (take 28 frame))"
  using assms by (intro readHeaderV1_next [where rest = "[]"]) (auto simp: hdr_bytes_hdr_of)

lemma readFrameV1_alt:
  "readFrameV1 m frame old =
     (if length frame < 28 then (FrameTooSmall, old, [])
      else let h = hdr_of Little (take 28 frame); p = drop 28 frame
           in if \<not> validateHeaderV1 m h then (InvalidHeader, h, [])
              else if length p \<noteq> unat (payloadSize h) then (InvalidFrameSize, h, [])
              else if crc16CcittFalse p \<noteq> payloadCrc h then (InvalidPayloadCrc, h, [])
              else (FrameOk, h, p))"
proof (cases "length frame < 28")
  case True
  then show ?thesis by (simp add: readFrameV1_def MessageHeaderV1WireSize_def)
next
  case False
  let ?h = "hdr_of Little (take 28 frame)"
  have size: "length frame = 28 + unat (payloadSize ?h) \<longleftrightarrow> length (drop 28 frame) = unat (payloadSize ?h)"
    using False by auto
  have step: "readFrameV1 m frame old =
     (if \<not> validateHeaderV1 m ?h then (InvalidHeader, ?h, [])
      else if length frame \<noteq> 28 + unat (payloadSize ?h) then (InvalidFrameSize, ?h, [])
      else if \<not> validatePayloadCrc ?h (take (unat (payloadSize ?h)) (drop 28 frame))
           then (InvalidPayloadCrc, ?h, [])
           else (FrameOk, ?h, take (unat (payloadSize ?h)) (drop 28 frame)))"
    using False
    by (simp only: readFrameV1_def MessageHeaderV1WireSize_def HeaderWireEndianness_def
        Let_def read_any_header [of frame] not_less if_False case_prod_conv)
      (simp add: bytesRead_def)
  show ?thesis
  proof (cases "length (drop 28 frame) = unat (payloadSize ?h)")
    case True
    then have "take (unat (payloadSize ?h)) (drop 28 frame) = drop 28 frame" by simp
    with True size False show ?thesis
      by (simp only: step Let_def if_False validatePayloadCrc_iff) simp
  next
    case len: False
    with size False show ?thesis by (simp only: step Let_def if_False) simp
  qed
qed

lemma readFrameV1_Ok_iff:
  "readFrameV1 m frame old = (FrameOk, h, p) \<longleftrightarrow> frame_wf h p frame"
proof
  assume ok: "readFrameV1 m frame old = (FrameOk, h, p)"
  then have len: "28 \<le> length frame" and h: "h = hdr_of Little (take 28 frame)"
    and p: "p = drop 28 frame"
    by (auto simp: readFrameV1_alt Let_def split: if_splits)
  have "hdr_bytes Little h = take 28 frame"
    using len by (simp add: h hdr_bytes_hdr_of)
  then have "frame = hdr_bytes Little h @ p"
    using p by (simp only: append_take_drop_id)
  moreover have "validateHeaderV1 m h" "length p = unat (payloadSize h)"
    "crc16CcittFalse p = payloadCrc h"
    using ok by (auto simp: readFrameV1_alt Let_def split: if_splits)
  ultimately show "frame_wf h p frame"
    by (simp only: frame_wf_def validateHeaderV1_iff simp_thms)
next
  assume "frame_wf h p frame"
  then show "readFrameV1 m frame old = (FrameOk, h, p)"
    by (simp add: frame_wf_def readFrameV1_alt validateHeaderV1_iff)
qed

lemma readFrameV1_accepts:
  "fst (readFrameV1 m frame old) = FrameOk \<longleftrightarrow>
     frame_wf (hdr_of Little (take 28 frame)) (drop 28 frame) frame"
proof
  assume "fst (readFrameV1 m frame old) = FrameOk"
  then have "readFrameV1 m frame old = (FrameOk, hdr_of Little (take 28 frame), drop 28 frame)"
    by (auto simp: readFrameV1_alt Let_def split: if_splits)
  then show "frame_wf (hdr_of Little (take 28 frame)) (drop 28 frame) frame"
    by (simp add: readFrameV1_Ok_iff)
next
  assume "frame_wf (hdr_of Little (take 28 frame)) (drop 28 frame) frame"
  then show "fst (readFrameV1 m frame old) = FrameOk"
    by (simp add: readFrameV1_Ok_iff [symmetric, of _ _ _ m old])
qed

section \<open>Corruption\<close>

text \<open>The two CRC equations of a well-formed frame, read off its bytes.\<close>

definition header_ok :: "bytes \<Rightarrow> bool" where
  "header_ok bs \<longleftrightarrow> crc16CcittFalse (blank_crc bs) = le_word (take 2 (drop 24 bs))"

lemma headerCrc_bytes: "headerCrc (hdr_of Little bs) = le_word (take 2 (drop 24 bs))"
  and payloadCrc_bytes: "payloadCrc (hdr_of Little bs) = le_word (take 2 (drop 26 bs))"
  by (simp_all add: hdr_of_def mem_word_def)

lemma frame_wf_bytes:
  assumes "frame_wf h p frame"
  shows "header_ok (take 28 frame)" "crc16CcittFalse (drop 28 frame) = le_word (take 2 (drop 26 frame))"
proof -
  have frame: "frame = hdr_bytes Little h @ p" using assms by (simp add: frame_wf_def)
  have h: "h = hdr_of Little (hdr_bytes Little h)" by simp
  show "header_ok (take 28 frame)"
    using assms frame headerCrc_bytes [of "hdr_bytes Little h"]
    by (simp add: frame_wf_def header_ok_def)
  show "crc16CcittFalse (drop 28 frame) = le_word (take 2 (drop 26 frame))"
    using assms frame payloadCrc_bytes [of "hdr_bytes Little h"]
    by (simp add: frame_wf_def)
qed

lemma crc_field_inject:
  assumes "length xs = 2" "length ys = 2" "(le_word xs :: u16) = le_word ys"
  shows "xs = ys"
  using assms le_bytes_le_word [of xs, where 'a = 16] le_bytes_le_word [of ys, where 'a = 16] by simp

text \<open>One changed byte among the 28 header bytes breaks the header equation.\<close>

lemma header_byte_detected:
  assumes bs: "length bs = 28" "header_ok bs" and i: "i < 28" and b: "b \<noteq> bs ! i"
  shows "\<not> header_ok (bs[i := b])"
proof (cases "i = 24 \<or> i = 25")
  case True
  then have "blank_crc (bs[i := b]) = blank_crc bs"
    by (auto simp: blank_crc_def)
  moreover have "take 2 (drop 24 (bs[i := b])) \<noteq> take 2 (drop 24 bs)"
  proof
    assume "take 2 (drop 24 (bs[i := b])) = take 2 (drop 24 bs)"
    then have "take 2 (drop 24 (bs[i := b])) ! (i - 24) = take 2 (drop 24 bs) ! (i - 24)" by simp
    then show False using True bs(1) b by auto
  qed
  ultimately show ?thesis
    using bs crc_field_inject [of "take 2 (drop 24 (bs[i := b]))" "take 2 (drop 24 bs)"]
    by (auto simp: header_ok_def)
next
  case False
  then have "blank_crc (bs[i := b]) = (blank_crc bs)[i := b]"
    using bs(1) i False
    by (intro nth_equalityI) (auto simp: blank_crc_nth nth_list_update)
  moreover have "blank_crc bs ! i = bs ! i"
    using False i bs(1) by (simp add: blank_crc_nth)
  moreover have "take 2 (drop 24 (bs[i := b])) = take 2 (drop 24 bs)"
    using False by (cases "i < 24") (auto simp: drop_update_swap not_less)
  ultimately show ?thesis
    using bs i b crc.chk_update [of i "blank_crc bs" b] by (auto simp: header_ok_def)
qed

lemma header_pair_detected:
  assumes bs: "length bs = 28" "header_ok bs" and i: "Suc i < 24 \<or> i = 24 \<or> i = 26"
    and ab: "(a, b) \<noteq> (bs ! i, bs ! Suc i)"
  shows "\<not> header_ok (bs[i := a, Suc i := b])"
proof (cases "i = 24")
  case True
  then have "blank_crc (bs[i := a, Suc i := b]) = blank_crc bs"
    by (simp add: blank_crc_def)
  moreover have "take 2 (drop 24 (bs[i := a, Suc i := b])) = [a, b]"
    and "take 2 (drop 24 bs) = [bs ! 24, bs ! 25]"
    using True bs(1) by (simp_all add: drop_update_swap Cons_nth_drop_Suc [symmetric] numeral_2_eq_2)
  ultimately show ?thesis
    using bs ab True crc_field_inject [of "[a, b]" "[bs ! 24, bs ! 25]"]
    by (auto simp: header_ok_def)
next
  case False
  then have "blank_crc (bs[i := a, Suc i := b]) = (blank_crc bs)[i := a, Suc i := b]"
    using bs(1) i by (intro nth_equalityI) (auto simp: blank_crc_nth nth_list_update)
  moreover have "blank_crc bs ! i = bs ! i" "blank_crc bs ! Suc i = bs ! Suc i"
    using False i bs(1) by (auto simp: blank_crc_nth)
  moreover have "take 2 (drop 24 (bs[i := a, Suc i := b])) = take 2 (drop 24 bs)"
    using False i by (auto simp: drop_update_swap)
  ultimately show ?thesis
    using bs i ab crc.chk_update_pair [of i "blank_crc bs" a b] by (auto simp: header_ok_def)
qed

text \<open>The same for a whole frame, given as its bytes.\<close>

definition frame_ok :: "bytes \<Rightarrow> bool" where
  "frame_ok f \<longleftrightarrow>
     28 \<le> length f \<and> header_ok (take 28 f) \<and> f ! 23 = 0
   \<and> crc16CcittFalse (drop 28 f) = le_word (take 2 (drop 26 f))"

lemma flags_top_byte:
  assumes "hdr_fields_ok h"
  shows "hdr_bytes Little h ! 23 = 0"
proof -
  have "flags h = 0 \<or> flags h = 1"
    using assms by (simp only: hdr_fields_ok_def flags_mask_iff)
  moreover have "hdr_bytes Little h ! 23 = ucast (drop_bit 24 (flags h))"
    by (simp add: hdr_bytes_def nth_append nth_Cons' mem_bytes_def le_bytes_nth)
  ultimately show ?thesis by (auto simp: drop_bit_eq_div)
qed

lemma frame_wf_ok: "frame_wf h p f \<Longrightarrow> frame_ok f"
  using frame_wf_bytes [of h p f] flags_top_byte [of h]
  by (auto simp: frame_ok_def frame_wf_def nth_append)

lemma accepted_frame_ok: "fst (readFrameV1 m f old) = FrameOk \<Longrightarrow> frame_ok f"
  by (auto simp: readFrameV1_accepts intro: frame_wf_ok)

lemma frame_byte_detected:
  assumes ok: "frame_ok f" and i: "i < length f" and b: "b \<noteq> f ! i"
  shows "\<not> frame_ok (f[i := b])"
proof (cases "i < 28")
  case True
  have "\<not> header_ok ((take 28 f)[i := b])"
    using ok True b by (intro header_byte_detected) (auto simp: frame_ok_def)
  then show ?thesis
    using True by (simp add: frame_ok_def take_update_swap)
next
  case False
  then have "drop 28 (f[i := b]) = (drop 28 f)[i - 28 := b]" "take 2 (drop 26 (f[i := b])) = take 2 (drop 26 f)"
    by (auto simp: drop_update_swap)
  moreover have "crc16CcittFalse ((drop 28 f)[i - 28 := b]) \<noteq> crc16CcittFalse (drop 28 f)"
    using False i b by (intro crc.chk_update) auto
  ultimately show ?thesis
    using ok by (simp add: frame_ok_def)
qed

lemma frame_pair_detected:
  assumes ok: "frame_ok f" and i: "Suc i < length f" and ab: "(a, b) \<noteq> (f ! i, f ! Suc i)"
  shows "\<not> frame_ok (f[i := a, Suc i := b])"
proof
  assume bad: "frame_ok (f[i := a, Suc i := b])"
  let ?g = "f[i := a, Suc i := b]"
  have single: False if "a = f ! i \<or> b = f ! Suc i"
  proof (cases "a = f ! i")
    case True
    then show False using frame_byte_detected [OF ok i, of b] bad ab by simp
  next
    case False
    with that have "?g = f[i := a]"
      using i by (metis list_update_id list_update_swap n_not_Suc_n)
    then show False using frame_byte_detected [OF ok, of i a] bad False i by simp
  qed
  consider "Suc i < 24 \<or> i = 24 \<or> i = 26" | "i = 23" | "i = 25" | "i = 27" | "28 \<le> i" by linarith
  then show False
  proof cases
    case 1
    have "take 28 ?g = (take 28 f)[i := a, Suc i := b]"
      using 1 by (simp add: take_update_swap)
    moreover have "\<not> header_ok ((take 28 f)[i := a, Suc i := b])"
      using ok 1 ab by (intro header_pair_detected) (auto simp: frame_ok_def)
    ultimately show False using bad by (simp add: frame_ok_def)
  next
    case 2
    then have "a = f ! i" using ok bad i by (simp add: frame_ok_def)
    with single show False by simp
  next
    case 3
    then have "drop 28 ?g = drop 28 f" by simp
    then have "(le_word (take 2 (drop 26 ?g)) :: u16) = le_word (take 2 (drop 26 f))"
      using ok bad by (simp add: frame_ok_def)
    moreover have "length (take 2 (drop 26 f)) = 2" "length (take 2 (drop 26 ?g)) = 2"
      using ok by (auto simp: frame_ok_def)
    ultimately have "take 2 (drop 26 ?g) ! 0 = take 2 (drop 26 f) ! 0"
      using crc_field_inject by metis
    then have "b = f ! Suc i" using 3 i by simp
    with single show False by simp
  next
    case 4
    have "take 28 ?g = (take 28 f)[i := a]"
      using 4 by (simp add: take_update_swap list_update_beyond)
    then have "a = f ! i"
      using header_byte_detected [of "take 28 f" i a] ok bad 4 by (auto simp: frame_ok_def)
    with single show False by simp
  next
    case 5
    then have "Suc i - 28 = Suc (i - 28)" by simp
    then have "drop 28 ?g = (drop 28 f)[i - 28 := a, Suc (i - 28) := b]"
      "take 2 (drop 26 ?g) = take 2 (drop 26 f)"
      using 5 by (simp_all only: drop_update_swap) (auto simp: drop_update_swap)
    moreover have "crc16CcittFalse ((drop 28 f)[i - 28 := a, Suc (i - 28) := b])
        \<noteq> crc16CcittFalse (drop 28 f)"
      using 5 i ab by (intro crc.chk_update_pair) auto
    ultimately show False
      using ok bad by (simp add: frame_ok_def)
  qed
qed

section \<open>Frames the programs build\<close>

definition built_frame :: "Endianness \<Rightarrow> MessageHeaderV1 \<Rightarrow> bytes \<Rightarrow> bytes" where
  "built_frame m h p = hdr_bytes Little (finalizeCrcs m h p) @ p"

lemma writeFrameV1_built:
  assumes "28 + length p \<le> n" "length p \<le> UInt32Max"
  shows "case writeFrameV1 m (replicate n 0) h p of (st, out, k) \<Rightarrow> st = FrameOk \<and> take k out = built_frame m h p"
proof -
  have "take (28 + length p) (blit (replicate n 0) 0 (hdr_bytes Little (finalizeCrcs m h p) @ p)) = built_frame m h p"
    by (simp add: blit_def built_frame_def)
  then show ?thesis using assms by (simp add: writeFrameV1_ok)
qed

lemma readFrameV1_built:
  assumes "length p \<le> UInt32Max" "hdr_fields_ok (h\<lparr>headerSize := 28\<rparr>)"
  shows "readFrameV1 m' (built_frame m h p) old = (FrameOk, finalizeCrcs m h p, p)"
proof -
  have "frame_wf (finalizeCrcs m h p) p (built_frame m h p)"
    using assms finalizeCrcs_headerCrc [of m h p]
    by (simp add: frame_wf_def computeHeaderCrc_eq hdr_fields_ok_def finalizeCrcs_fields built_frame_def
        unsigned_of_nat UInt32Max_def take_bit_nat_eq_self)
  then show ?thesis by (simp add: readFrameV1_Ok_iff)
qed

section \<open>Properties\<close>

text \<open>A complete frame round trip. Whenever the destination is long enough and the header's
fixed fields are in order (\<open>headerSize\<close>, \<open>payloadSize\<close> and the two CRCs are filled in by the
writer, whatever they hold), \<open>writeFrameV1\<close> reports \<open>FrameOk\<close>, leaves the rest of the
destination as it was, and \<open>readFrameV1\<close>, run on a machine of any byte order on exactly the
bytes written, returns \<open>FrameOk\<close>, the completed header and the payload.\<close>

theorem frame_roundtrip:
  assumes "28 + length payload \<le> length destination" "length payload \<le> UInt32Max"
    and "hdr_fields_ok (h\<lparr>headerSize := 28\<rparr>)"
  shows "case writeFrameV1 machine destination h payload of
      (status, out, n) \<Rightarrow> status = FrameOk
        \<and> readFrameV1 machine' (take n out) old
            = (FrameOk, finalizeCrcs machine h payload, payload)
        \<and> drop n out = drop n destination"
proof -
  let ?h = "finalizeCrcs machine h payload"
  have "frame_wf ?h payload (hdr_bytes Little ?h @ payload)"
    using assms(2,3) finalizeCrcs_headerCrc [of machine h payload]
    by (simp add: frame_wf_def computeHeaderCrc_eq hdr_fields_ok_def finalizeCrcs_fields
        unsigned_of_nat UInt32Max_def take_bit_nat_eq_self)
  then show ?thesis
    using assms(1,2) by (simp add: writeFrameV1_ok readFrameV1_Ok_iff blit_def)
qed

theorem frame_roundtrip_witness:
  "case writeFrameV1 Little (replicate 40 7) defaultHeader [1, 2, 3] of
      (status, out, n) \<Rightarrow> status = FrameOk
        \<and> readFrameV1 Big (take n out) defaultHeader
            = (FrameOk, finalizeCrcs Little defaultHeader [1, 2, 3], [1, 2, 3])
        \<and> drop n out = drop n (replicate 40 7)"
  by (rule frame_roundtrip)
    (simp_all add: UInt32Max_def hdr_fields_ok_def defaultHeader_def isValidPayloadEndian_def
      MessageHeaderV1WireSize_def)

text \<open>C13: What \<open>readFrameV1\<close> accepts, exactly. It returns \<open>FrameOk\<close> with header \<open>h\<close> and payload
\<open>p\<close> if and only if the frame is the 28-byte wire image of \<open>h\<close> followed by \<open>p\<close>, \<open>p\<close> has the length the
header announces, the magic number, version, header size, endianness, reserved and flag fields
hold permitted values, and both CRC fields equal the CRCs of the bytes they protect.\<close>

theorem readFrameV1_accepts_exactly:
  "readFrameV1 machine frame old = (FrameOk, h, p) \<longleftrightarrow>
     frame = hdr_bytes Little h @ p \<and> length p = unat (payloadSize h)
   \<and> magic h = MessageMagicV1 \<and> version h = MessageVersionV1
   \<and> headerSize h = of_nat MessageHeaderV1WireSize
   \<and> payloadEndian h \<in> {0, 1} \<and> headerFlags h = 0 \<and> flags h \<in> {0, MessageFlagIdempotent}
   \<and> headerCrc h = crc16CcittFalse (blank_crc (hdr_bytes Little h))
   \<and> payloadCrc h = crc16CcittFalse p"
  by (auto simp: readFrameV1_Ok_iff frame_wf_def hdr_fields_ok_def flags_mask_iff
      isValidPayloadEndian_def MessageHeaderV1WireSize_def MessageFlagIdempotent_def)

text \<open>Corruption detection for a whole frame. If a frame is accepted, then no frame that
differs from it in one byte, or in two adjacent bytes, is accepted: not by the same machine and
not by one of the other byte order. This covers the header, the CRC fields themselves and the
boundary between header and payload.\<close>

theorem corrupted_frame_rejected:
  assumes "fst (readFrameV1 machine f old) = FrameOk"
    and "i < length f" "b \<noteq> f ! i"
    and "Suc j < length f" "(c, d) \<noteq> (f ! j, f ! Suc j)"
  shows "fst (readFrameV1 machine' (f[i := b]) old') \<noteq> FrameOk
       \<and> fst (readFrameV1 machine' (f[j := c, Suc j := d]) old') \<noteq> FrameOk"
proof -
  have ok: "frame_ok f" using assms(1) by (rule accepted_frame_ok)
  then show ?thesis
    using frame_byte_detected [OF ok assms(2,3)] frame_pair_detected [OF ok assms(4,5)]
      accepted_frame_ok by blast
qed

text \<open>An accepted frame, to apply the last property to.\<close>

definition sample_frame :: bytes where
  "sample_frame = hdr_bytes Little (finalizeCrcs Little defaultHeader [0x41]) @ [0x41]"

lemma sample_frame_accepted: "fst (readFrameV1 Little sample_frame defaultHeader) = FrameOk"
proof -
  have "frame_wf (finalizeCrcs Little defaultHeader [0x41]) [0x41] sample_frame"
    using finalizeCrcs_headerCrc [of Little defaultHeader "[0x41]"]
    by (simp add: sample_frame_def frame_wf_def computeHeaderCrc_eq hdr_fields_ok_def
        finalizeCrcs_fields defaultHeader_def isValidPayloadEndian_def)
  then show ?thesis by (simp add: readFrameV1_Ok_iff [symmetric, of _ _ _ Little defaultHeader])
qed

lemma sample_frame_facts: "length sample_frame = 29" "sample_frame ! 28 = 0x41"
  by (simp_all add: sample_frame_def nth_append)

theorem corrupted_frame_rejected_witness:
  "fst (readFrameV1 Big (sample_frame[28 := 0x42]) defaultHeader) \<noteq> FrameOk
   \<and> fst (readFrameV1 Big (sample_frame[27 := 0, Suc 27 := 0x42]) defaultHeader) \<noteq> FrameOk"
  by (rule corrupted_frame_rejected [OF sample_frame_accepted]) (simp_all add: sample_frame_facts)

text \<open>The writer's verdict depends on the lengths alone: a payload longer than a 32-bit
length is refused first, then a destination too short for header and payload, and every other
call succeeds. On refusal the destination is untouched and the reported length is zero.\<close>

theorem writeFrameV1_verdict:
  "case writeFrameV1 machine destination h payload of
     (status, out, n) \<Rightarrow>
       status = (if length payload > UInt32Max then PayloadTooLarge
                 else if length destination < MessageHeaderV1WireSize + length payload
                      then OutputTooSmall else FrameOk)
     \<and> (if status = FrameOk then n = MessageHeaderV1WireSize + length payload
                                 \<and> length out = length destination
        else out = destination \<and> n = 0)"
proof (cases "length payload \<le> UInt32Max \<and> 28 + length payload \<le> length destination")
  case True
  then show ?thesis by (simp add: writeFrameV1_ok MessageHeaderV1WireSize_def)
next
  case False
  then show ?thesis
    by (auto simp: writeFrameV1_def MessageHeaderV1WireSize_def SizeMax_def UInt32Max_def)
qed

end
