(* ===== verification/StorageImage.thy ===== *)
theory StorageImage
  imports ParameterSystem MessageFrame
begin

text \<open>
  Chapter 17, the persistent parameter image: \<open>PersistenceTypes.h\<close> and the in-memory part of
  \<open>ParameterStorageImage.cpp\<close>. An image is a ten-byte header followed by one record per parameter,
  each a two-byte identifier and a complete BDS frame. \<open>storage_image\<close> holds the 1024-byte array and the
  size in use. A span into the image is its offset and its bytes. The callback of \<open>walkRecords\<close>
  is a function that threads the variables its lambda captures.
\<close>

section \<open>Types\<close>

definition MaxStorageImageSize :: nat where "MaxStorageImageSize = 1024"
definition StorageImageHeaderWireSize :: nat where "StorageImageHeaderWireSize = 10"
definition StorageImageVersion :: u16 where "StorageImageVersion = 1"
definition ParameterPersistenceServiceId :: u16 where "ParameterPersistenceServiceId = 0x0017"
definition StorageImageMagic :: bytes where "StorageImageMagic = [0x50, 0x49, 0x4d, 0x47]"

datatype ParameterMessageType =
  MsgUInt32 | MsgFloat32 | MsgEnum8 | MsgAscii16 | MsgAscii32 | MsgAscii255

definition message_code :: "ParameterMessageType \<Rightarrow> u16" where
  "message_code t = (case t of MsgUInt32 \<Rightarrow> 1 | MsgFloat32 \<Rightarrow> 2 | MsgEnum8 \<Rightarrow> 3
     | MsgAscii16 \<Rightarrow> 16 | MsgAscii32 \<Rightarrow> 17 | MsgAscii255 \<Rightarrow> 18)"

datatype PersistenceStatus =
  PsOk | ImageNotFound | OpenFailed | ReadFailed | WriteFailed | ReplaceFailed | ImageFull
| InvalidImageMagic | UnsupportedImageVersion | InvalidImageHeader | InvalidRecordCount
| UnknownParameter | DuplicateParameter | InvalidBdsMessage | TypeMismatch | InvalidValue

record PersistenceResult =
  ps_status :: PersistenceStatus
  recordsProcessed :: nat
  ps_parameterId :: "ParameterID option"

definition ps_result :: "PersistenceStatus \<Rightarrow> PersistenceResult" where
  "ps_result st = \<lparr>ps_status = st, recordsProcessed = 0, ps_parameterId = None\<rparr>"

definition succeeded :: "PersistenceResult \<Rightarrow> bool" where
  "succeeded r \<longleftrightarrow> ps_status r = PsOk"

record StorageImageHeader =
  ih_magic :: bytes
  ih_version :: u16
  ih_recordCount :: u16
  ih_headerCrc :: u16

definition StorageImageHeader :: StorageImageHeader where
  "StorageImageHeader = \<lparr>ih_magic = StorageImageMagic, ih_version = StorageImageVersion,
     ih_recordCount = 0, ih_headerCrc = 0\<rparr>"

record ParameterRecordView =
  rv_parameterId :: ParameterID
  rv_offset :: nat
  rv_bdsMessage :: bytes

datatype Corruption =
  BadMagic | BadVersion | BadHeaderCrc | Truncate | BadPayload | CorruptUnknownParameter
| CorruptDuplicateParameter | CorruptTypeMismatch | CorruptInvalidValue

record storage_image =
  im_data :: bytes
  im_size :: nat

definition ParameterStorageImage :: storage_image where
  "ParameterStorageImage = \<lparr>im_data = replicate MaxStorageImageSize 0, im_size = 0\<rparr>"

definition storage_image_bytes :: "storage_image \<Rightarrow> bytes" where
  "storage_image_bytes im = take (im_size im) (im_data im)"

text \<open>\<open>static_cast<ParameterID>\<close> of a number that \<open>isValidParameterId\<close> let through.\<close>

definition ParameterID_of :: "nat \<Rightarrow> ParameterID" where
  "ParameterID_of n = (if n = 0 then PidReportingInterval else if n = 1 then PidTemperatureLimit
     else if n = 2 then PidOperatingMode else PidCount)"

section \<open>Payloads\<close>

text \<open>\<open>initial\<close> is the value-initialised local variable the value is read into.\<close>

definition ImageWireEndianness :: Endianness where "ImageWireEndianness = Little"

definition expectedMessageType :: "ParameterID \<Rightarrow> ParameterMessageType" where
  "expectedMessageType i = (case i of PidReportingInterval \<Rightarrow> MsgUInt32
     | PidTemperatureLimit \<Rightarrow> MsgFloat32 | PidOperatingMode \<Rightarrow> MsgEnum8 | PidCount \<Rightarrow> MsgUInt32)"

definition encodedPayloadSize :: "floats \<Rightarrow> ParameterID \<Rightarrow> nat" where
  "encodedPayloadSize fl i = (case i of
       PidReportingInterval \<Rightarrow> p_encodedSize ReportingInterval
     | PidTemperatureLimit \<Rightarrow> p_encodedSize (TemperatureLimit fl)
     | PidOperatingMode \<Rightarrow> p_encodedSize (OperatingModeParameter fl)
     | PidCount \<Rightarrow> 0)"

definition encodeParameterPayload ::
  "Endianness \<Rightarrow> 'v parameter \<Rightarrow> 'v \<Rightarrow> pstore \<Rightarrow> bytes \<Rightarrow> bool \<times> bytes" where
  "encodeParameterPayload machine P initial store destination =
     (if length destination \<noteq> p_encodedSize P then (False, destination)
      else case store_get machine P store initial of
             (False, _) \<Rightarrow> (False, destination)
           | (True, value) \<Rightarrow>
               let writer = BinaryWriteStream machine destination ParameterImageEndianness
                              defaultMaxSizedField;
                   writer' = p_encode P writer value
               in (w_ok writer' \<and> bytesWritten writer' = p_encodedSize P, w_buf writer'))"

definition encodePayload ::
  "floats \<Rightarrow> Endianness \<Rightarrow> ParameterID \<Rightarrow> pstore \<Rightarrow> bytes \<Rightarrow> bool \<times> bytes" where
  "encodePayload fl machine i store destination = (case i of
       PidReportingInterval \<Rightarrow> encodeParameterPayload machine ReportingInterval 0 store destination
     | PidTemperatureLimit \<Rightarrow> encodeParameterPayload machine (TemperatureLimit fl) 0 store destination
     | PidOperatingMode \<Rightarrow> encodeParameterPayload machine (OperatingModeParameter fl) 0 store destination
     | PidCount \<Rightarrow> (False, destination))"

definition decodeAndStage_typed ::
  "Endianness \<Rightarrow> 'v parameter \<Rightarrow> 'v \<Rightarrow> bytes \<Rightarrow> pstore \<Rightarrow> pstore \<times> PersistenceStatus" where
  "decodeAndStage_typed machine P initial payload staged =
     (if length payload \<noteq> p_encodedSize P then (staged, TypeMismatch)
      else let reader = BinaryReadStream machine payload ParameterImageEndianness
                          defaultMaxSizedField;
               (reader', value) = p_decode P reader initial
           in if \<not> r_ok reader' \<or> bytesRead reader' \<noteq> p_encodedSize P
              then (staged, InvalidBdsMessage)
              else let (staged', update, _) = store_set machine P staged value PersistentStorage
                   in (staged', case update of
                         UpdOK \<Rightarrow> PsOk
                       | LOWER_PRECEDENCE \<Rightarrow> PsOk
                       | UNKNOWN_PARAMETER \<Rightarrow> UnknownParameter
                       | INVALID_VALUE \<Rightarrow> InvalidValue
                       | OUT_OF_RANGE \<Rightarrow> InvalidValue
                       | READ_ONLY \<Rightarrow> InvalidValue
                       | NOT_RUNTIME_WRITABLE \<Rightarrow> InvalidValue))"

definition decodeAndStage ::
  "floats \<Rightarrow> Endianness \<Rightarrow> ParameterID \<Rightarrow> MessageHeaderV1 \<Rightarrow> bytes \<Rightarrow> pstore
    \<Rightarrow> pstore \<times> PersistenceStatus" where
  "decodeAndStage fl machine i header payload staged =
     (if serviceId header \<noteq> ParameterPersistenceServiceId
        \<or> messageType header \<noteq> message_code (expectedMessageType i)
        \<or> payloadEndian header \<noteq> endian_code ParameterImageEndianness
      then (staged, TypeMismatch)
      else case i of
          PidReportingInterval \<Rightarrow> decodeAndStage_typed machine ReportingInterval 0 payload staged
        | PidTemperatureLimit \<Rightarrow> decodeAndStage_typed machine (TemperatureLimit fl) 0 payload staged
        | PidOperatingMode \<Rightarrow> decodeAndStage_typed machine (OperatingModeParameter fl) 0 payload staged
        | PidCount \<Rightarrow> (staged, UnknownParameter))"

section \<open>The image header\<close>

definition encodeImageHeader :: "Endianness \<Rightarrow> bytes \<Rightarrow> u16 \<Rightarrow> bool \<times> bytes" where
  "encodeImageHeader machine destination recordCount =
     (if length destination < StorageImageHeaderWireSize then (False, destination)
      else let d1 = blit destination 0 StorageImageMagic;
               off = length StorageImageMagic;
               room = StorageImageHeaderWireSize - length StorageImageMagic;
               writer = BinaryWriteStream machine (subview d1 off room) ImageWireEndianness
                          defaultMaxSizedField;
               writer' = writeUInt16 (writeUInt16 (writeUInt16 writer StorageImageVersion)
                           recordCount) 0;
               d2 = blit d1 off (w_buf writer')
           in if \<not> w_ok writer' then (False, d2)
              else let crc = crc16CcittFalse (take 8 d2);
                       crcWriter = BinaryWriteStream machine (subview d2 8 2) ImageWireEndianness
                                     defaultMaxSizedField;
                       crcWriter' = writeUInt16 crcWriter crc
                   in (w_ok crcWriter', blit d2 8 (w_buf crcWriter')))"

definition decodeImageHeader ::
  "Endianness \<Rightarrow> bytes \<Rightarrow> StorageImageHeader \<Rightarrow> PersistenceResult \<times> StorageImageHeader" where
  "decodeImageHeader machine img header =
     (if length img < StorageImageHeaderWireSize then (ps_result InvalidImageHeader, header)
      else let h1 = header\<lparr>ih_magic := take 4 img\<rparr>
           in if ih_magic h1 \<noteq> StorageImageMagic then (ps_result InvalidImageMagic, h1)
              else let reader = BinaryReadStream machine (subview img 4 6) ImageWireEndianness
                                  defaultMaxSizedField;
                       (r1, v) = readUInt16 reader (ih_version h1);
                       (r2, n) = readUInt16 r1 (ih_recordCount h1);
                       (r3, c) = readUInt16 r2 (ih_headerCrc h1);
                       h2 = h1\<lparr>ih_version := v, ih_recordCount := n, ih_headerCrc := c\<rparr>
                   in if \<not> r_ok r3 then (ps_result InvalidImageHeader, h2)
                      else if ih_version h2 \<noteq> StorageImageVersion
                        then (ps_result UnsupportedImageVersion, h2)
                      else if ih_headerCrc h2 \<noteq> crc16CcittFalse (take 8 img)
                        then (ps_result InvalidImageHeader, h2)
                      else if unat (ih_recordCount h2) \<noteq> parameterCount
                        then (ps_result InvalidRecordCount, h2)
                      else (ps_result PsOk, h2))"

definition image_readUInt16 :: "Endianness \<Rightarrow> bytes \<Rightarrow> nat \<Rightarrow> u16 option" where
  "image_readUInt16 machine bs offset =
     (if offset + 2 > length bs then None
      else let reader = BinaryReadStream machine (subview bs offset 2) ImageWireEndianness
                          defaultMaxSizedField;
               (reader', value) = readUInt16 reader 0
           in if r_ok reader' then Some value else None)"

definition image_writeUInt16 :: "Endianness \<Rightarrow> bytes \<Rightarrow> nat \<Rightarrow> u16 \<Rightarrow> bool \<times> bytes" where
  "image_writeUInt16 machine bs offset value =
     (if offset + 2 > length bs then (False, bs)
      else let writer = BinaryWriteStream machine (subview bs offset 2) ImageWireEndianness
                          defaultMaxSizedField;
               writer' = writeUInt16 writer value
           in (w_ok writer', blit bs offset (w_buf writer')))"

section \<open>Walking the records\<close>

type_synonym 's visitor =
  "'s \<Rightarrow> ParameterRecordView \<Rightarrow> MessageHeaderV1 \<Rightarrow> bytes \<Rightarrow> 's \<times> PersistenceStatus"

definition at_record :: "PersistenceStatus \<Rightarrow> nat \<Rightarrow> ParameterID \<Rightarrow> PersistenceResult" where
  "at_record st recordIndex i =
     \<lparr>ps_status = st, recordsProcessed = recordIndex, ps_parameterId = Some i\<rparr>"

text \<open>One turn of the loop: a failed check as its result, or the record, its header and payload, the
identifiers seen so far and the offset of the next record.\<close>

definition walk_step ::
  "Endianness \<Rightarrow> bytes \<Rightarrow> nat \<Rightarrow> bool list \<Rightarrow> nat
    \<Rightarrow> PersistenceResult + (ParameterRecordView \<times> MessageHeaderV1 \<times> bytes \<times> bool list \<times> nat)" where
  "walk_step machine img recordIndex seen offset =
     (case image_readUInt16 machine img offset of
        None \<Rightarrow> Inl \<lparr>ps_status = ReadFailed, recordsProcessed = recordIndex, ps_parameterId = None\<rparr>
      | Some rawId \<Rightarrow>
          let offset1 = offset + 2
          in if \<not> isValidParameterId rawId
             then Inl \<lparr>ps_status = UnknownParameter, recordsProcessed = recordIndex,
                       ps_parameterId = None\<rparr>
             else let i = ParameterID_of (unat rawId)
             in if seen ! unat rawId then Inl (at_record DuplicateParameter recordIndex i)
             else let seen1 = seen[unat rawId := True]
             in if offset1 + MessageHeaderV1WireSize > length img
                then Inl (at_record InvalidBdsMessage recordIndex i)
             else let headerReader = BinaryReadStream machine
                        (subview img offset1 MessageHeaderV1WireSize) HeaderWireEndianness
                        defaultMaxSizedField;
                      (headerReader', header) = readHeaderV1 headerReader defaultHeader
             in if \<not> r_ok headerReader'
                   \<or> unat (payloadSize header) > MaxStorageImageSize - MessageHeaderV1WireSize
                then Inl (at_record InvalidBdsMessage recordIndex i)
             else let frameSize = MessageHeaderV1WireSize + unat (payloadSize header)
             in if offset1 + frameSize > length img
                then Inl (at_record InvalidBdsMessage recordIndex i)
             else let frame = subview img offset1 frameSize;
                      (frameStatus, header', payload) = readFrameV1 machine frame header
             in if frameStatus \<noteq> FrameOk then Inl (at_record InvalidBdsMessage recordIndex i)
             else Inr (\<lparr>rv_parameterId = i, rv_offset = offset1, rv_bdsMessage = frame\<rparr>, header',
                       payload, seen1, offset1 + frameSize))"

text \<open>The loop body is unfolded \<open>n\<close> times, once for each record the header announces.\<close>

primrec walk_loop ::
  "Endianness \<Rightarrow> bytes \<Rightarrow> 's visitor \<Rightarrow> nat \<Rightarrow> nat \<Rightarrow> bool list \<Rightarrow> nat \<Rightarrow> PersistenceResult \<Rightarrow> 's
    \<Rightarrow> 's \<times> PersistenceResult" where
  "walk_loop machine img callback 0 recordIndex seen offset result s =
     (if offset \<noteq> length img
      then (s, \<lparr>ps_status = InvalidRecordCount, recordsProcessed = recordsProcessed result,
                ps_parameterId = None\<rparr>)
      else (s, result))"
| "walk_loop machine img callback (Suc n) recordIndex seen offset result s =
     (case walk_step machine img recordIndex seen offset of
        Inl failure \<Rightarrow> (s, failure)
      | Inr (view, header, payload, seen', offset') \<Rightarrow>
          let (s1, status) = callback s view header payload
          in if status \<noteq> PsOk then (s1, at_record status recordIndex (rv_parameterId view))
             else walk_loop machine img callback n (recordIndex + 1) seen' offset'
                    (result\<lparr>recordsProcessed := recordIndex + 1\<rparr>) s1)"

definition walkRecords ::
  "Endianness \<Rightarrow> bytes \<Rightarrow> 's visitor \<Rightarrow> 's \<Rightarrow> 's \<times> PersistenceResult" where
  "walkRecords machine img callback s =
     (let (result, imageHeader) = decodeImageHeader machine img StorageImageHeader
      in if \<not> succeeded result then (s, result)
         else walk_loop machine img callback (unat (ih_recordCount imageHeader)) 0
                (replicate parameterCount False) StorageImageHeaderWireSize result s)"

definition findRecord :: "Endianness \<Rightarrow> bytes \<Rightarrow> ParameterID \<Rightarrow> (nat \<times> nat) option" where
  "findRecord machine img wanted =
     (let ((foundOffset, foundSize), result) = walkRecords machine img
            (\<lambda>found record _ _.
               (if rv_parameterId record = wanted
                then (rv_offset record, length (rv_bdsMessage record)) else found, PsOk))
            (0, 0)
      in if \<not> succeeded result \<or> foundSize = 0 then None else Some (foundOffset, foundSize))"

section \<open>The operations of the image\<close>

definition makeFrame ::
  "floats \<Rightarrow> Endianness \<Rightarrow> ParameterID \<Rightarrow> pstore \<Rightarrow> bytes \<Rightarrow> bool \<times> bytes \<times> nat" where
  "makeFrame fl machine i parameters destination =
     (let payloadStorage = replicate 256 0;
          (encoded, payload) = encodePayload fl machine i parameters
                                 (take (encodedPayloadSize fl i) payloadStorage)
      in if \<not> encoded then (False, destination, 0)
         else let header = defaultHeader\<lparr>serviceId := ParameterPersistenceServiceId,
                    messageType := message_code (expectedMessageType i),
                    payloadEndian := endian_code ParameterImageEndianness\<rparr>;
                  (status, destination', bytesWritten) =
                    writeFrameV1 machine destination header payload
              in (status = FrameOk, destination', bytesWritten))"

primrec create_loop ::
  "floats \<Rightarrow> Endianness \<Rightarrow> pstore \<Rightarrow> nat \<Rightarrow> nat \<Rightarrow> storage_image \<Rightarrow> storage_image \<times> PersistenceResult" where
  "create_loop fl machine parameters 0 rawId im =
     (im, \<lparr>ps_status = PsOk, recordsProcessed = parameterCount, ps_parameterId = None\<rparr>)"
| "create_loop fl machine parameters (Suc n) rawId im =
     (let i = ParameterID_of rawId;
          maximumFrameSize = MessageHeaderV1WireSize + encodedPayloadSize fl i;
          required = 2 + maximumFrameSize
      in if im_size im + required > length (im_data im) then (im, at_record ImageFull rawId i)
         else let (_, data1) = image_writeUInt16 machine (im_data im) (im_size im)
                                 (of_nat (toIndex i));
                  size1 = im_size im + 2;
                  (made, frame, frameSize) = makeFrame fl machine i parameters
                                               (subview data1 size1 maximumFrameSize);
                  data2 = blit data1 size1 frame
              in if \<not> made \<or> frameSize \<noteq> maximumFrameSize
                 then (\<lparr>im_data = data2, im_size = size1\<rparr>, at_record InvalidValue rawId i)
                 else create_loop fl machine parameters n (rawId + 1)
                        \<lparr>im_data = data2, im_size = size1 + frameSize\<rparr>)"

definition create ::
  "floats \<Rightarrow> Endianness \<Rightarrow> pstore \<Rightarrow> storage_image \<Rightarrow> storage_image \<times> PersistenceResult" where
  "create fl machine parameters im =
     (let (encoded, data1) = encodeImageHeader machine (im_data im) (of_nat parameterCount);
          im1 = \<lparr>im_data = data1, im_size = StorageImageHeaderWireSize\<rparr>
      in if \<not> encoded then (im1, ps_result InvalidImageHeader)
         else create_loop fl machine parameters parameterCount 0 im1)"

definition update ::
  "floats \<Rightarrow> Endianness \<Rightarrow> ParameterID \<Rightarrow> pstore \<Rightarrow> storage_image \<Rightarrow> storage_image \<times> PersistenceResult" where
  "update fl machine i parameters im =
     (case findRecord machine (storage_image_bytes im) i of
        None \<Rightarrow> (im, at_record UnknownParameter 0 i)
      | Some (first, second) \<Rightarrow>
          let scratch = replicate (MessageHeaderV1WireSize + 256) 0;
              (made, scratch', frameSize) = makeFrame fl machine i parameters scratch
          in if \<not> made \<or> frameSize \<noteq> second then (im, at_record TypeMismatch 0 i)
             else (im\<lparr>im_data := blit (im_data im) first (take frameSize scratch')\<rparr>,
                   at_record PsOk 1 i))"

definition restore ::
  "floats \<Rightarrow> Endianness \<Rightarrow> storage_image \<Rightarrow> pstore \<Rightarrow> pstore \<times> PersistenceResult" where
  "restore fl machine im parameters =
     (let staged = parameters;
          (staged', result) = walkRecords machine (storage_image_bytes im)
            (\<lambda>staged record header payload.
               decodeAndStage fl machine (rv_parameterId record) header payload staged) staged
      in if succeeded result then (staged', result) else (parameters, result))"

definition assign :: "bytes \<Rightarrow> storage_image \<Rightarrow> storage_image \<times> PersistenceResult" where
  "assign bytesToAssign im =
     (if length bytesToAssign > length (im_data im) then (im, ps_result ImageFull)
      else (\<lparr>im_data = blit (im_data im) 0 bytesToAssign, im_size = length bytesToAssign\<rparr>,
            ps_result PsOk))"

text \<open>The verdict of \<open>inspectImage\<close>; what it prints is left out.\<close>

definition inspectImage :: "Endianness \<Rightarrow> bytes \<Rightarrow> PersistenceResult" where
  "inspectImage machine img =
     (let (headerResult, _) = decodeImageHeader machine img StorageImageHeader
      in if \<not> succeeded headerResult then headerResult
         else snd (walkRecords machine img
           (\<lambda>u record bds _. (u,
              if serviceId bds = ParameterPersistenceServiceId
               \<and> messageType bds = message_code (expectedMessageType (rv_parameterId record))
              then PsOk else TypeMismatch)) ()))"

definition corruptImage :: "Endianness \<Rightarrow> bytes \<Rightarrow> Corruption \<Rightarrow> bool \<times> bytes" where
  "corruptImage machine img mode =
     (if length img < StorageImageHeaderWireSize then (False, img)
      else if mode = BadMagic then (True, img[0 := img ! 0 XOR 1])
      else if mode = BadVersion then image_writeUInt16 machine img 4 99
      else if mode = BadHeaderCrc then (True, img[8 := img ! 8 XOR 1])
      else if mode = Truncate then (False, img)
      else case findRecord machine img PidReportingInterval of
        None \<Rightarrow> (False, img)
      | Some (frameOffset, _) \<Rightarrow>
          let recordOffset = frameOffset - 2
          in case mode of
              BadPayload \<Rightarrow>
                let p = frameOffset + MessageHeaderV1WireSize
                in (True, img[p := img ! p XOR 1])
            | CorruptUnknownParameter \<Rightarrow> image_writeUInt16 machine img recordOffset 0xffff
            | CorruptDuplicateParameter \<Rightarrow>
                (case findRecord machine img PidTemperatureLimit of
                   None \<Rightarrow> (False, img)
                 | Some (second, _) \<Rightarrow> image_writeUInt16 machine img (second - 2)
                                         (of_nat (toIndex PidReportingInterval)))
            | _ \<Rightarrow>
                let reader = BinaryReadStream machine
                      (subview img frameOffset MessageHeaderV1WireSize) HeaderWireEndianness
                      defaultMaxSizedField;
                    (reader', header) = readHeaderV1 reader defaultHeader
                in if \<not> r_ok reader' then (False, img)
                   else let payloadOffset = frameOffset + MessageHeaderV1WireSize;
                            payload = subview img payloadOffset (unat (payloadSize header));
                            (header1, image1) =
                              (if mode = CorruptTypeMismatch
                               then (header\<lparr>messageType := message_code MsgFloat32\<rparr>, img)
                               else let payload' = replicate (length payload) 0
                                    in (header\<lparr>payloadCrc := crc16CcittFalse payload'\<rparr>,
                                        blit img payloadOffset payload'));
                            header2 = header1\<lparr>headerCrc := computeHeaderCrc machine header1\<rparr>;
                            writer = BinaryWriteStream machine
                              (subview image1 frameOffset MessageHeaderV1WireSize)
                              HeaderWireEndianness defaultMaxSizedField;
                            writer' = writeHeaderV1 writer header2
                        in (w_ok writer', blit image1 frameOffset (w_buf writer')))"

end
