(* ===== verification/ImageFormat.thy ===== *)
theory ImageFormat
  imports StorageImage
begin

text \<open>
  The persistent image as a format: a constant header followed by three good records. The walk
  over the bytes is \<open>visit\<close>, a loop over the records, and it succeeds on exactly the images of the
  format. The parser is deterministic, so that a changed byte leaves the format.
\<close>

section \<open>Single fields\<close>

lemma image_read_eq:
  "off + 2 \<le> length bs \<Longrightarrow> image_readUInt16 m bs off = Some (mem_word Little (take 2 (drop off bs)))"
  by (simp add: image_readUInt16_def ImageWireEndianness_def readUInt16_spec Let_def)

lemma image_read_at:
  assumes "drop off bs = mem_bytes Little 2 v @ rest" "off \<le> length bs"
  shows "image_readUInt16 m bs off = Some v"
proof -
  have "length (drop off bs) = 2 + length rest" using assms(1) by simp
  then have "off + 2 \<le> length bs" using assms(2) by simp
  then show ?thesis using assms(1) by (subst image_read_eq) auto
qed

lemma image_write_eq:
  assumes "off + 2 \<le> length bs"
  shows "image_writeUInt16 m bs off v = (True, blit bs off (mem_bytes Little 2 v))"
  using assms u16c.put_exact_buffer [of "take 2 (drop off bs)" m Little defaultMaxSizedField v]
  by (simp add: image_writeUInt16_def ImageWireEndianness_def Let_def)

section \<open>The image header\<close>

definition header_fields :: "u16 \<Rightarrow> bytes" where
  "header_fields n = StorageImageMagic @ mem_bytes Little 2 StorageImageVersion @ mem_bytes Little 2 n"

definition image_header :: "u16 \<Rightarrow> bytes" where
  "image_header n = header_fields n @ mem_bytes Little 2 (crc16CcittFalse (header_fields n))"

lemma length_headers [simp]:
  "length StorageImageMagic = 4" "length (header_fields n) = 8" "length (image_header n) = 10"
  by (simp_all add: header_fields_def image_header_def StorageImageMagic_def)

lemma encodeImageHeader_eq:
  assumes "10 \<le> length d"
  shows "encodeImageHeader m d n = (True, blit d 0 (image_header n))"
proof -
  let ?d1 = "blit d 0 StorageImageMagic"
  let ?w = "BinaryWriteStream m (take 6 (drop 4 ?d1)) Little defaultMaxSizedField"
  let ?bs = "mem_bytes Little 2 StorageImageVersion @ mem_bytes Little 2 n @ mem_bytes Little 2 (0 :: u16)"
  have len: "length ?d1 = length d"
    using assms by simp
  have "writeUInt16 (writeUInt16 (writeUInt16 ?w StorageImageVersion) n) 0 = writeRawBytes ?w ?bs"
    using assms len by (simp add: stream_simps raw_raw)
  moreover have "writeRawBytes ?w ?bs = ?w\<lparr>w_buf := blit (w_buf ?w) (w_pos ?w) ?bs, w_pos := w_pos ?w + length ?bs\<rparr>"
    using assms len by (intro raw_fits) auto
  ultimately have w: "w_ok (writeUInt16 (writeUInt16 (writeUInt16 ?w StorageImageVersion) n) 0)"
    "w_buf (writeUInt16 (writeUInt16 (writeUInt16 ?w StorageImageVersion) n) 0) = ?bs"
    using assms len by (simp_all add: w_ok_def)
  have d2: "blit ?d1 4 ?bs = blit d 0 (header_fields n @ mem_bytes Little 2 (0 :: u16))"
    using assms by (simp add: blit_def header_fields_def)
  have last: "blit (blit d 0 (header_fields n @ mem_bytes Little 2 (0 :: u16))) 8
      (mem_bytes Little 2 (crc16CcittFalse (header_fields n))) = blit d 0 (image_header n)"
    using assms by (simp add: blit_def image_header_def)
  have "take 8 (blit d 0 (header_fields n @ mem_bytes Little 2 (0 :: u16))) = header_fields n"
    using assms by (simp add: blit_def)
  moreover have "length (take 2 (drop 8 (blit d 0 (header_fields n @ mem_bytes Little 2 (0 :: u16))))) = 2"
    using assms by simp
  note u16c.put_exact_buffer [OF this, of m Little defaultMaxSizedField "crc16CcittFalse (header_fields n)"]
  ultimately show ?thesis
    using assms w d2 last
    by (simp add: encodeImageHeader_def StorageImageHeaderWireSize_def ImageWireEndianness_def Let_def)
qed

text \<open>The verdict on a header, and the record count it hands on.\<close>

definition header_verdict :: "bytes \<Rightarrow> PersistenceStatus" where
  "header_verdict img =
     (if length img < 10 then InvalidImageHeader
      else if take 4 img \<noteq> StorageImageMagic then InvalidImageMagic
      else if mem_word Little (take 2 (drop 4 img)) \<noteq> StorageImageVersion then UnsupportedImageVersion
      else if mem_word Little (take 2 (drop 8 img)) \<noteq> crc16CcittFalse (take 8 img)
        then InvalidImageHeader
      else if unat (mem_word Little (take 2 (drop 6 img)) :: u16) \<noteq> parameterCount
        then InvalidRecordCount
      else PsOk)"

lemma decodeImageHeader_alt:
  assumes "10 \<le> length img" "take 4 img = StorageImageMagic"
  shows "decodeImageHeader m img h =
     (let v = mem_word Little (take 2 (drop 4 img)); n = mem_word Little (take 2 (drop 6 img));
          c = mem_word Little (take 2 (drop 8 img));
          h2 = \<lparr>ih_magic = StorageImageMagic, ih_version = v, ih_recordCount = n, ih_headerCrc = c\<rparr>
      in (ps_result (if v \<noteq> StorageImageVersion then UnsupportedImageVersion
            else if c \<noteq> crc16CcittFalse (take 8 img) then InvalidImageHeader
            else if unat n \<noteq> parameterCount then InvalidRecordCount else PsOk), h2))"
proof -
  let ?r = "BinaryReadStream m (take 6 (drop 4 img)) Little defaultMaxSizedField"
  have "readUInt16 ?r x = (adv ?r 2, mem_word Little (take 2 (drop 4 img)))"
    "readUInt16 (adv ?r 2) x = (adv ?r 4, mem_word Little (take 2 (drop 6 img)))"
    "readUInt16 (adv ?r 4) x = (adv ?r 6, mem_word Little (take 2 (drop 8 img)))" for x
    using assms(1) by (simp_all add: readUInt16_spec take_drop min_def)
  then show ?thesis
    using assms
    by (simp only: decodeImageHeader_def StorageImageHeaderWireSize_def ImageWireEndianness_def
        subview_eq Let_def case_prod_conv not_less if_False if_True simp_thms)
      (simp add: not_less[symmetric])
qed

lemma decodeImageHeader_verdict: "fst (decodeImageHeader m img h) = ps_result (header_verdict img)"
proof (cases "10 \<le> length img \<and> take 4 img = StorageImageMagic")
  case True
  then show ?thesis by (simp only: decodeImageHeader_alt header_verdict_def Let_def) simp
next
  case False
  then show ?thesis
    by (auto simp: decodeImageHeader_def header_verdict_def StorageImageHeaderWireSize_def Let_def)
qed

lemma decodeImageHeader_count:
  assumes "header_verdict img = PsOk"
  shows "unat (ih_recordCount (snd (decodeImageHeader m img h))) = parameterCount"
proof -
  have "10 \<le> length img \<and> take 4 img = StorageImageMagic"
    using assms by (auto simp: header_verdict_def split: if_splits)
  then show ?thesis
    using assms by (simp only: decodeImageHeader_alt header_verdict_def Let_def) (simp split: if_splits)
qed

lemma header_verdict_ok_iff: "header_verdict img = PsOk \<longleftrightarrow> (\<exists>rest. img = image_header 3 @ rest)"
proof
  assume ok: "header_verdict img = PsOk"
  then have len: "10 \<le> length img" and magic: "take 4 img = StorageImageMagic"
    and ver: "mem_word Little (take 2 (drop 4 img)) = StorageImageVersion"
    and crc: "mem_word Little (take 2 (drop 8 img)) = crc16CcittFalse (take 8 img)"
    and cnt: "unat (mem_word Little (take 2 (drop 6 img)) :: u16) = 3"
    by (auto simp: header_verdict_def parameterCount_def toIndex_def not_less split: if_splits)
  have "(mem_word Little (take 2 (drop 6 img)) :: u16) = 3"
    using cnt by (simp add: word_eq_iff_unsigned [where 'a = nat])
  then have f: "take 2 (drop 6 img) = mem_bytes Little 2 (3 :: u16)"
    using mem_bytes_u16 [of "take 2 (drop 6 img)" Little] len by simp
  have v: "take 2 (drop 4 img) = mem_bytes Little 2 StorageImageVersion"
    using mem_bytes_u16 [of "take 2 (drop 4 img)" Little] len ver by simp
  have c: "take 2 (drop 8 img) = mem_bytes Little 2 (crc16CcittFalse (take 8 img))"
    using mem_bytes_u16 [of "take 2 (drop 8 img)" Little] len crc by simp
  have "take 8 img = take 4 img @ take 2 (drop 4 img) @ take 2 (drop 6 img)"
    using take_add [of 4 4 img] take_add [of 2 2 "drop 4 img"] by simp
  then have eight: "take 8 img = header_fields 3"
    by (simp add: header_fields_def magic v f)
  have "take 10 img = image_header 3"
    using take_add [of 8 2 img] by (simp add: eight c image_header_def)
  then show "\<exists>rest. img = image_header 3 @ rest"
    by (metis append_take_drop_id)
next
  assume "\<exists>rest. img = image_header 3 @ rest"
  then show "header_verdict img = PsOk"
    by (auto simp: header_verdict_def image_header_def header_fields_def StorageImageMagic_def
        parameterCount_def toIndex_def)
qed

section \<open>Records\<close>

type_synonym image_record = "ParameterID \<times> MessageHeaderV1 \<times> bytes"

fun rec_bytes :: "image_record \<Rightarrow> bytes" where
  "rec_bytes (i, h, p) = mem_bytes Little 2 (of_nat (toIndex i) :: u16) @ hdr_bytes Little h @ p"

fun rec_good :: "image_record \<Rightarrow> bool" where
  "rec_good (i, h, p) \<longleftrightarrow> i \<noteq> PidCount \<and> frame_wf h p (hdr_bytes Little h @ p) \<and> length p \<le> 996"

text \<open>The loop of the walk over a list of records at offset \<open>off\<close>.\<close>

fun visit :: "'s visitor \<Rightarrow> nat \<Rightarrow> nat \<Rightarrow> image_record list \<Rightarrow> 's \<Rightarrow> 's \<times> PersistenceResult" where
  "visit cb k off [] s = (s, \<lparr>ps_status = PsOk, recordsProcessed = k, ps_parameterId = None\<rparr>)"
| "visit cb k off ((i, h, p) # rs) s =
     (let (s1, st) = cb s \<lparr>rv_parameterId = i, rv_offset = off + 2,
                           rv_bdsMessage = hdr_bytes Little h @ p\<rparr> h p
      in if st \<noteq> PsOk then (s1, at_record st k i)
         else visit cb (k + 1) (off + 30 + length p) rs s1)"

definition image_wf :: "image_record list \<Rightarrow> bytes \<Rightarrow> bool" where
  "image_wf rs img \<longleftrightarrow> img = image_header 3 @ concat (map rec_bytes rs) \<and> length rs = 3
     \<and> list_all rec_good rs \<and> distinct (map fst rs)"

lemma index_of [simp]:
  "toIndex i < 4" "i \<noteq> PidCount \<Longrightarrow> toIndex i < 3" "ParameterID_of (toIndex i) = i"
  by (cases i; simp add: toIndex_def ParameterID_of_def)+

lemma index_inject [simp]: "toIndex i = toIndex j \<longleftrightarrow> i = j"
  by (metis index_of(3))

lemma index_of_pid: "n < 3 \<Longrightarrow> toIndex (ParameterID_of n) = n \<and> ParameterID_of n \<noteq> PidCount"
  by (auto simp: toIndex_def ParameterID_of_def)

lemma valid_id_iff: "isValidParameterId raw \<longleftrightarrow> unat raw < 3"
  by (simp add: isValidParameterId_def toIndex_def word_less_nat_alt)

lemma unat_index [simp]: "unat (of_nat (toIndex i) :: u16) = toIndex i"
  by (cases i) (simp_all add: toIndex_def)

section \<open>One step of the walk\<close>

lemma readFrameV1_old:
  "28 \<le> length frame \<Longrightarrow> readFrameV1 m frame old = readFrameV1 m frame old'"
  by (simp add: readFrameV1_alt)

lemma walk_step_alt:
  assumes "offset \<le> length img"
  shows "walk_step m img k seen offset =
    (let rest = drop offset img; raw = mem_word Little (take 2 rest) :: u16;
         i = ParameterID_of (unat raw); h = hdr_of Little (take 28 (drop 2 rest));
         n = unat (payloadSize h); frame = take (28 + n) (drop 2 rest)
     in if length rest < 2
        then Inl \<lparr>ps_status = ReadFailed, recordsProcessed = k, ps_parameterId = None\<rparr>
        else if \<not> unat raw < 3
        then Inl \<lparr>ps_status = UnknownParameter, recordsProcessed = k, ps_parameterId = None\<rparr>
        else if seen ! unat raw then Inl (at_record DuplicateParameter k i)
        else if length rest < 30 \<or> n > 996 \<or> length rest < 30 + n
           \<or> fst (readFrameV1 m frame defaultHeader) \<noteq> FrameOk
        then Inl (at_record InvalidBdsMessage k i)
        else Inr (\<lparr>rv_parameterId = i, rv_offset = offset + 2, rv_bdsMessage = frame\<rparr>,
                  h, drop 28 frame, seen[unat raw := True], offset + 30 + n))"
proof -
  let ?rest = "drop offset img"
  let ?h = "hdr_of Little (take 28 (drop 2 ?rest))"
  let ?n = "unat (payloadSize ?h)"
  let ?frame = "take (28 + ?n) (drop 2 ?rest)"
  have drop2: "drop (offset + 2) img = drop 2 ?rest" by (simp add: add.commute)
  show ?thesis
  proof (cases "length ?rest < 30")
    case True
    show ?thesis
    proof (cases "length ?rest < 2")
      case True
      then have "image_readUInt16 m img offset = None"
        using assms by (auto simp: image_readUInt16_def)
      then show ?thesis
        using True by (simp add: walk_step_def)
    next
      case False
      then have "image_readUInt16 m img offset = Some (mem_word Little (take 2 ?rest))"
        using assms by (intro image_read_eq) simp
      moreover have "length img < 30 + offset"
        using True assms by simp
      ultimately show ?thesis
        using True False assms
        by (simp add: walk_step_def valid_id_iff MessageHeaderV1WireSize_def Let_def)
    qed
  next
    case False
    then have raw: "image_readUInt16 m img offset = Some (mem_word Little (take 2 ?rest))"
      using assms by (intro image_read_eq) simp
    have hdr: "readHeaderV1 (BinaryReadStream m (take 28 (drop 2 ?rest)) Little defaultMaxSizedField) defaultHeader
      = (adv (BinaryReadStream m (take 28 (drop 2 ?rest)) Little defaultMaxSizedField) 28, ?h)"
      using False by (intro read_any_header) simp
    show ?thesis
    proof (cases "length ?rest < 30 + ?n")
      case True
      then have "length img < 30 + (offset + ?n)"
        using assms by simp
      with True show ?thesis
        using False assms raw hdr
        by (simp add: walk_step_def valid_id_iff MessageHeaderV1WireSize_def HeaderWireEndianness_def
            drop2 Let_def MaxStorageImageSize_def)
    next
      case fits: False
      have th: "take 28 ?frame = take 28 (drop 2 ?rest)" by simp
      have fr: "readFrameV1 m ?frame ?h = (fst (readFrameV1 m ?frame defaultHeader),
          if fst (readFrameV1 m ?frame defaultHeader) = FrameOk then ?h
            else fst (snd (readFrameV1 m ?frame defaultHeader)),
          if fst (readFrameV1 m ?frame defaultHeader) = FrameOk then drop 28 ?frame
            else snd (snd (readFrameV1 m ?frame defaultHeader)))"
        using fits by (simp add: readFrameV1_alt Let_def)
      have "\<not> length img < 30 + offset" "\<not> length img < 30 + (offset + ?n)"
        using False fits assms by auto
      then show ?thesis
        using False fits assms raw hdr fr
        by (simp add: walk_step_def valid_id_iff MessageHeaderV1WireSize_def HeaderWireEndianness_def
            drop2 Let_def MaxStorageImageSize_def split_beta)
    qed
  qed
qed

lemma step_good:
  assumes good: "rec_good (i, h, p)" and img: "drop off img = rec_bytes (i, h, p) @ rest"
    and off: "off \<le> length img" and unseen: "\<not> seen ! toIndex i"
  shows "walk_step m img k seen off =
     Inr (\<lparr>rv_parameterId = i, rv_offset = off + 2, rv_bdsMessage = hdr_bytes Little h @ p\<rparr>,
          h, p, seen[toIndex i := True], off + 30 + length p)"
proof -
  have wf: "frame_wf h p (hdr_bytes Little h @ p)" and len: "length p \<le> 996" and i: "i \<noteq> PidCount"
    using good by simp_all
  have n: "unat (payloadSize h) = length p" using wf by (simp add: frame_wf_def)
  have two: "drop 2 (drop off img) = hdr_bytes Little h @ p @ rest"
    "take 2 (drop off img) = mem_bytes Little 2 (of_nat (toIndex i) :: u16)"
    "length (drop off img) = 30 + length p + length rest"
    by (simp_all only: img) simp_all
  have "readFrameV1 m (hdr_bytes Little h @ p) defaultHeader = (FrameOk, h, p)"
    using wf by (simp only: readFrameV1_Ok_iff)
  then show ?thesis
    using unseen i len
    by (simp only: walk_step_alt [OF off] Let_def two) (simp add: n)
qed

lemma step_Inr:
  assumes step: "walk_step m img k seen off = Inr (v, h, p, seen', off')" and off: "off \<le> length img"
  shows "rec_good (rv_parameterId v, h, p)"
    "drop off img = rec_bytes (rv_parameterId v, h, p) @ drop off' img"
    "off' = off + 30 + length p" "off' \<le> length img" "\<not> seen ! toIndex (rv_parameterId v)"
    "seen' = seen[toIndex (rv_parameterId v) := True]"
    "v = \<lparr>rv_parameterId = rv_parameterId v, rv_offset = off + 2, rv_bdsMessage = hdr_bytes Little h @ p\<rparr>"
proof -
  define rest where "rest = drop off img"
  define raw where "raw = (mem_word Little (take 2 rest) :: u16)"
  define n where "n = unat (payloadSize (hdr_of Little (take 28 (drop 2 rest))))"
  define frame where "frame = take (28 + n) (drop 2 rest)"
  have facts: "30 + n \<le> length rest" "unat raw < 3" "\<not> seen ! unat raw" "n \<le> 996"
    "fst (readFrameV1 m frame defaultHeader) = FrameOk"
    "rv_parameterId v = ParameterID_of (unat raw)" "rv_offset v = off + 2" "rv_bdsMessage v = frame"
    "h = hdr_of Little (take 28 (drop 2 rest))" "p = drop 28 frame" "seen' = seen[unat raw := True]"
    "off' = off + 30 + n"
    using step unfolding walk_step_alt [OF off] Let_def rest_def [symmetric] raw_def [symmetric]
      n_def [symmetric] frame_def [symmetric]
    by (auto split: if_splits)
  have h: "h = hdr_of Little (take 28 frame)" using facts by (simp add: frame_def)
  have "readFrameV1 m frame defaultHeader = (FrameOk, h, p)"
    using facts(5) by (auto simp: readFrameV1_alt h facts(10) Let_def split: if_splits)
  then have wf: "frame_wf h p frame" by (simp only: readFrameV1_Ok_iff)
  then have frame: "frame = hdr_bytes Little h @ p" by (simp add: frame_wf_def)
  have len: "length p = n" using facts(1) by (simp add: facts(10) frame_def)
  have i: "toIndex (rv_parameterId v) = unat raw" "rv_parameterId v \<noteq> PidCount"
    using index_of_pid [OF facts(2)] by (simp_all add: facts(6))
  have "take 2 rest = mem_bytes Little 2 raw"
    using facts(1) mem_bytes_u16 [of "take 2 rest" Little] by (simp add: raw_def)
  moreover have "raw = of_nat (toIndex (rv_parameterId v))" by (simp add: i)
  moreover have "rest = take 2 rest @ frame @ drop (30 + n) rest"
  proof -
    have "drop (28 + n) (drop 2 rest) = drop (30 + n) rest" by simp
    then have "drop 2 rest = frame @ drop (30 + n) rest"
      unfolding frame_def by (metis append_take_drop_id)
    then show ?thesis by (metis append_take_drop_id)
  qed
  ultimately show "drop off img = rec_bytes (rv_parameterId v, h, p) @ drop off' img"
    by (simp add: rest_def [symmetric] frame facts(12)) (simp add: rest_def add.commute add.left_commute)
  show "rec_good (rv_parameterId v, h, p)" using wf frame len facts(4) i by simp
  show "off' = off + 30 + length p" "off' \<le> length img" "\<not> seen ! toIndex (rv_parameterId v)"
    "seen' = seen[toIndex (rv_parameterId v) := True]"
    using facts(1,3,11,12) len off by (simp_all only: i) (simp_all add: rest_def)
  show "v = \<lparr>rv_parameterId = rv_parameterId v, rv_offset = off + 2, rv_bdsMessage = hdr_bytes Little h @ p\<rparr>"
    using facts(7,8) by (cases v) (simp add: frame)
qed

section \<open>The whole walk\<close>

abbreviation walked :: "nat \<Rightarrow> PersistenceResult" where
  "walked k \<equiv> \<lparr>ps_status = PsOk, recordsProcessed = k, ps_parameterId = None\<rparr>"

lemma walk_loop_visit:
  assumes "drop off img = concat (map rec_bytes rs)" "off \<le> length img"
    and "list_all rec_good rs" "distinct (map fst rs)" "length seen = 3"
    and "list_all (\<lambda>r. \<not> seen ! toIndex (fst r)) rs"
  shows "walk_loop m img cb (length rs) k seen off (walked k) s = visit cb k off rs s"
  using assms
proof (induction rs arbitrary: k seen off s)
  case Nil
  then show ?case by simp
next
  case (Cons r rs)
  obtain i h p where r: "r = (i, h, p)" by (cases r)
  have step: "walk_step m img k seen off =
     Inr (\<lparr>rv_parameterId = i, rv_offset = off + 2, rv_bdsMessage = hdr_bytes Little h @ p\<rparr>,
          h, p, seen[toIndex i := True], off + 30 + length p)"
    using Cons.prems r by (intro step_good [where rest = "concat (map rec_bytes rs)"]) auto
  have len: "length (drop off img) = 30 + length p + length (concat (map rec_bytes rs))"
    unfolding Cons.prems(1) by (simp add: r)
  then have fits: "off + 30 + length p \<le> length img" using Cons.prems(2) by simp
  have "drop (30 + length p) (drop off img) = concat (map rec_bytes rs)"
    unfolding Cons.prems(1) by (simp add: r)
  then have rest: "drop (off + 30 + length p) img = concat (map rec_bytes rs)"
    by (simp add: add.commute add.left_commute)
  have i: "toIndex i < length seen" using Cons.prems r by auto
  have "i \<notin> fst ` set rs" using Cons.prems(4) r by auto
  then have "list_all (\<lambda>r. \<not> seen[toIndex i := True] ! toIndex (fst r)) rs"
    using Cons.prems(6) i by (auto simp: list_all_iff nth_list_update)
  from Cons.IH [OF rest fits _ _ _ this] show ?case
    using Cons.prems by (auto simp: r step Let_def split: prod.split)
qed

lemma walk_loop_ok:
  assumes "walk_loop m img cb n k seen off (walked k) s = (s', r)" "succeeded r"
    and "off \<le> length img" "length seen = 3"
  shows "\<exists>rs. length rs = n \<and> drop off img = concat (map rec_bytes rs) \<and> list_all rec_good rs
     \<and> distinct (map fst rs) \<and> list_all (\<lambda>r. \<not> seen ! toIndex (fst r)) rs"
  using assms
proof (induction n arbitrary: k seen off s)
  case 0
  then show ?case by (auto simp: succeeded_def split: if_splits intro!: exI [of _ "[]"])
next
  case (Suc n)
  show ?case
  proof (cases "walk_step m img k seen off")
    case (Inl res)
    then have "r = res" using Suc.prems(1) by simp
    moreover have "ps_status res \<noteq> PsOk"
      using Inl unfolding walk_step_alt [OF Suc.prems(3)] Let_def
      by (auto simp: at_record_def split: if_splits)
    ultimately show ?thesis using Suc.prems(2) by (simp add: succeeded_def)
  next
    case (Inr q)
    obtain v h p seen' off' where q: "q = (v, h, p, seen', off')" by (cases q) auto
    note step = step_Inr [OF Inr [unfolded q] Suc.prems(3)]
    let ?i = "rv_parameterId v"
    obtain s1 where "walk_loop m img cb n (k + 1) seen' off' (walked (k + 1)) s1 = (s', r)"
      using Suc.prems(1,2) by (auto simp: Inr q succeeded_def at_record_def Let_def
          split: prod.splits if_splits)
    from Suc.IH [OF this Suc.prems(2) step(4)] obtain rs where
      rs: "length rs = n" "drop off' img = concat (map rec_bytes rs)" "list_all rec_good rs"
        "distinct (map fst rs)" "list_all (\<lambda>r. \<not> seen' ! toIndex (fst r)) rs"
      using Suc.prems(4) step(6) by auto
    have i: "toIndex ?i < length seen" using step(1) Suc.prems(4) by auto
    have fresh: "list_all (\<lambda>r. \<not> seen ! toIndex (fst r) \<and> fst r \<noteq> ?i) rs"
      using rs(5) i unfolding step(6) list_all_iff by (auto simp: nth_list_update split: if_splits)
    have "list_all (\<lambda>r. \<not> seen ! toIndex (fst r)) ((?i, h, p) # rs)" "distinct (map fst ((?i, h, p) # rs))"
      using fresh step(5) rs(4) by (auto simp: list_all_iff)
    then show ?thesis
      using rs step(1,2) by (intro exI [of _ "(?i, h, p) # rs"]) simp
  qed
qed

lemma walkRecords_start:
  "walkRecords m img cb s =
     (if header_verdict img \<noteq> PsOk then (s, ps_result (header_verdict img))
      else walk_loop m img cb 3 0 (replicate 3 False) 10 (walked 0) s)"
  using decodeImageHeader_verdict [of m img StorageImageHeader]
    decodeImageHeader_count [of img m StorageImageHeader]
  by (auto simp: walkRecords_def succeeded_def ps_result_def parameterCount_def toIndex_def
      StorageImageHeaderWireSize_def split_beta Let_def)

text \<open>On an image of the format the walk is the loop over its records; and only such an image is
accepted, whatever the callback.\<close>

lemma walkRecords_visit:
  assumes "image_wf rs img"
  shows "walkRecords m img cb s = visit cb 0 10 rs s"
proof -
  have img: "img = image_header 3 @ concat (map rec_bytes rs)" and len: "length rs = 3"
    using assms by (simp_all add: image_wf_def)
  have "header_verdict img = PsOk" by (auto simp: header_verdict_ok_iff img)
  moreover have "walk_loop m img cb (length rs) 0 (replicate 3 False) 10 (walked 0) s = visit cb 0 10 rs s"
    using assms by (intro walk_loop_visit) (auto simp: image_wf_def list_all_iff)
  ultimately show ?thesis by (simp add: walkRecords_start len)
qed

lemma walkRecords_accepts:
  assumes "walkRecords m img cb s = (s', r)" "succeeded r"
  shows "\<exists>rs. image_wf rs img"
proof -
  have ok: "header_verdict img = PsOk"
    using assms by (auto simp: walkRecords_start succeeded_def ps_result_def split: if_splits)
  then obtain rest where img: "img = image_header 3 @ rest" by (auto simp: header_verdict_ok_iff)
  have "walk_loop m img cb 3 0 (replicate 3 False) 10 (walked 0) s = (s', r)"
    using assms(1) ok by (simp add: walkRecords_start)
  from walk_loop_ok [OF this assms(2)] obtain rs where
    "length rs = 3" "drop 10 img = concat (map rec_bytes rs)" "list_all rec_good rs" "distinct (map fst rs)"
    by (auto simp: img)
  then have "image_wf rs img" by (simp add: image_wf_def img)
  then show ?thesis ..
qed

end
