(* ===== verification/PersistentParameters.thy ===== *)
theory PersistentParameters
  imports ImageFormat
begin

text \<open>
  What the persistent image does for the parameter store: restoring is a transaction, saving and
  restoring preserves the values, an update changes one record, and damage is detected.
\<close>

section \<open>Payloads of a parameter class\<close>

context parameter_def begin

lemma encode_payload:
  assumes "store_get machine P s z = (True, v)" "length destination = p_encodedSize P"
  shows "encodeParameterPayload machine P z s destination = (True, img Little v)"
  using assms put_exact_buffer [OF assms(2), of machine Little defaultMaxSizedField v]
  by (simp add: encodeParameterPayload_def ParameterImageEndianness_def Let_def)

lemma stage_payload:
  "decodeAndStage_typed machine P z (img Little v) s =
     (let (s', r, _) = store_set machine P s v PersistentStorage
      in (s', if r = UpdOK \<or> r = LOWER_PRECEDENCE then PsOk else InvalidValue))"
proof -
  let ?r = "BinaryReadStream machine (img Little v) Little defaultMaxSizedField"
  have "p_decode P ?r z = (adv ?r (p_encodedSize P), v)"
    using get_next [of ?r v "[]" z] by (simp add: enc_width)
  then show ?thesis
    by (simp add: decodeAndStage_typed_def enc_width ParameterImageEndianness_def bytesRead_def
        store_set_eq verdict_def Let_def)
qed

end

definition param_header :: "ParameterID \<Rightarrow> MessageHeaderV1" where
  "param_header i = defaultHeader\<lparr>serviceId := ParameterPersistenceServiceId,
     messageType := message_code (expectedMessageType i), payloadEndian := 0\<rparr>"

definition param_record :: "ParameterID \<Rightarrow> bytes \<Rightarrow> image_record" where
  "param_record i p = (i, finalizeCrcs Little (param_header i) p, p)"

lemma finalizeCrcs_machine: "finalizeCrcs m h p = finalizeCrcs Little h p"
  by (simp add: finalizeCrcs_def computeHeaderCrc_eq Let_def)

lemma param_frame_wf:
  assumes "length p < 2 ^ 32"
  shows "frame_wf (finalizeCrcs Little (param_header i) p) p
    (hdr_bytes Little (finalizeCrcs Little (param_header i) p) @ p)"
  using assms finalizeCrcs_headerCrc [of Little "param_header i" p]
  by (simp add: frame_wf_def computeHeaderCrc_eq hdr_fields_ok_def finalizeCrcs_fields
      unsigned_of_nat take_bit_nat_eq_self param_header_def defaultHeader_def isValidPayloadEndian_def)

text \<open>The payload of each parameter in a store, and the value a payload stands for.\<close>

definition payload_bytes :: "u32 \<Rightarrow> u32 \<Rightarrow> u8 \<Rightarrow> ParameterID \<Rightarrow> bytes" where
  "payload_bytes a b c i = (case i of PidReportingInterval \<Rightarrow> mem_bytes Little 4 a
     | PidTemperatureLimit \<Rightarrow> mem_bytes Little 4 b | PidOperatingMode \<Rightarrow> [c] | PidCount \<Rightarrow> [])"

definition payload_value :: "ParameterID \<Rightarrow> bytes \<Rightarrow> pvalue" where
  "payload_value i p = (case i of PidTemperatureLimit \<Rightarrow> VLimit (mem_word Little p)
     | PidOperatingMode \<Rightarrow> VMode (hd p) | _ \<Rightarrow> VInterval (mem_word Little p))"

fun payload_ok :: "floats \<Rightarrow> image_record \<Rightarrow> bool" where
  "payload_ok fl (i, h, p) \<longleftrightarrow>
     serviceId h = ParameterPersistenceServiceId \<and> messageType h = message_code (expectedMessageType i)
   \<and> payloadEndian h = 0 \<and> length p = encodedPayloadSize fl i
   \<and> h_validate (handlerFor fl Little i) (payload_value i p)"

lemma payload_size [simp]:
  "encodedPayloadSize fl i \<le> 4" "length (payload_bytes a b c i) = encodedPayloadSize fl i"
  by (cases i; simp add: encodedPayloadSize_def payload_bytes_def)+

lemma encodePayload_eq:
  assumes "length destination = encodedPayloadSize fl i" "i \<noteq> PidCount"
  shows "encodePayload fl m i (store_of a b c ss g) destination = (True, payload_bytes a b c i)"
  using assms
  by (cases i) (simp_all add: encodePayload_def encodedPayloadSize_def payload_bytes_def
      interval.encode_payload limit.encode_payload mode.encode_payload)

lemma makeFrame_eq:
  assumes "28 + encodedPayloadSize fl i \<le> length destination" "i \<noteq> PidCount"
  shows "makeFrame fl m i (store_of a b c ss g) destination =
     (True, blit destination 0 (hdr_bytes Little (finalizeCrcs Little (param_header i) (payload_bytes a b c i))
        @ payload_bytes a b c i), 28 + encodedPayloadSize fl i)"
proof -
  have small: "encodedPayloadSize fl i \<le> 4" by simp
  then have "encodedPayloadSize fl i \<le> 256" by (rule order_trans) simp
  then have "encodePayload fl m i (store_of a b c ss g) (take (encodedPayloadSize fl i) (replicate 256 0))
    = (True, payload_bytes a b c i)"
    using assms(2) by (intro encodePayload_eq) (auto simp: min_def)
  moreover have "length (payload_bytes a b c i) \<le> UInt32Max"
    by (cases i) (simp_all add: payload_bytes_def UInt32Max_def)
  ultimately show ?thesis
    using assms(1) writeFrameV1_ok [of "payload_bytes a b c i" destination m "param_header i"]
    by (simp add: makeFrame_def Let_def param_header_def finalizeCrcs_machine [of m]
        ParameterImageEndianness_def endian_code_def payload_size(2) [of _ _ _ _ fl])
qed

section \<open>Staging one record\<close>

text \<open>What a record does to its parameter: a value from a source that ranks above the persistent
storage stays, any other is replaced.\<close>

definition replaced :: "floats \<Rightarrow> Endianness \<Rightarrow> pstore \<Rightarrow> pstore \<Rightarrow> ParameterID \<Rightarrow> bytes \<Rightarrow> bool" where
  "replaced fl m s s' i p \<longleftrightarrow>
     (if precedence PersistentStorage < precedence (store_source s i)
      then current_value fl m s' i = current_value fl m s i \<and> store_source s' i = store_source s i
      else current_value fl m s' i = payload_value i p \<and> store_source s' i = PersistentStorage)"

definition untouched :: "floats \<Rightarrow> Endianness \<Rightarrow> pstore \<Rightarrow> pstore \<Rightarrow> ParameterID \<Rightarrow> bool" where
  "untouched fl m s s' j \<longleftrightarrow>
     current_value fl m s' j = current_value fl m s j \<and> store_source s' j = store_source s j"

lemma valid_storeI:
  assumes "p_validate ReportingInterval a" "p_validate (TemperatureLimit fl) b"
    "p_validate (OperatingModeParameter fl) c" "length ss = 3"
  shows "valid_store fl (store_of a b c ss g)"
  unfolding valid_store_def parameterCount_def toIndex_def
  by (intro exI conjI) (rule refl, simp_all add: assms)

lemma valid_storeE:
  assumes "valid_store fl s"
  obtains a b c ss g where "s = store_of a b c ss g" "length ss = 3" "p_validate ReportingInterval a"
    "p_validate (TemperatureLimit fl) b" "p_validate (OperatingModeParameter fl) c"
  using assms by (auto simp: valid_store_def parameterCount_def toIndex_def)

lemmas stage_defs = replaced_def untouched_def current_value_def store_source_def payload_value_def
  toIndex_def precedence_def

lemma stage_typed_interval:
  assumes "valid_store fl s" "length p = 4"
    and "decodeAndStage_typed m ReportingInterval 0 p s = (s', st)"
  shows "valid_store fl s' \<and> (st = PsOk \<longleftrightarrow> p_validate ReportingInterval (mem_word Little p))
     \<and> (st = PsOk \<longrightarrow> replaced fl m' s s' PidReportingInterval p)
     \<and> untouched fl m' s s' PidTemperatureLimit \<and> untouched fl m' s s' PidOperatingMode"
  using assms(1)
proof (rule valid_storeE)
  fix a b c ss g
  assume s: "s = store_of a b c ss g" "length ss = 3" "p_validate ReportingInterval a"
    "p_validate (TemperatureLimit fl) b" "p_validate (OperatingModeParameter fl) c"
  define v where "v = (mem_word Little p :: u32)"
  have "p = mem_bytes Little 4 v" using assms(2) by (simp add: v_def mem_bytes_u32)
  then show ?thesis
    using assms(3) s
    by (auto simp: interval.stage_payload set_interval interval.verdict_def Let_def stage_defs
        intro!: valid_storeI split: if_splits)
qed

lemma stage_typed_limit:
  assumes "valid_store fl s" "length p = 4"
    and "decodeAndStage_typed m (TemperatureLimit fl) 0 p s = (s', st)"
  shows "valid_store fl s' \<and> (st = PsOk \<longleftrightarrow> p_validate (TemperatureLimit fl) (mem_word Little p))
     \<and> (st = PsOk \<longrightarrow> replaced fl m' s s' PidTemperatureLimit p)
     \<and> untouched fl m' s s' PidReportingInterval \<and> untouched fl m' s s' PidOperatingMode"
  using assms(1)
proof (rule valid_storeE)
  fix a b c ss g
  assume s: "s = store_of a b c ss g" "length ss = 3" "p_validate ReportingInterval a"
    "p_validate (TemperatureLimit fl) b" "p_validate (OperatingModeParameter fl) c"
  define v where "v = (mem_word Little p :: u32)"
  have "p = mem_bytes Little 4 v" using assms(2) by (simp add: v_def mem_bytes_u32)
  then show ?thesis
    using assms(3) s
    by (auto simp: limit.stage_payload set_limit limit.verdict_def Let_def stage_defs
        intro!: valid_storeI split: if_splits)
qed

lemma stage_typed_mode:
  assumes "valid_store fl s" "length p = 1"
    and "decodeAndStage_typed m (OperatingModeParameter fl) 0 p s = (s', st)"
  shows "valid_store fl s' \<and> (st = PsOk \<longleftrightarrow> p_validate (OperatingModeParameter fl) (hd p))
     \<and> (st = PsOk \<longrightarrow> replaced fl m' s s' PidOperatingMode p)
     \<and> untouched fl m' s s' PidReportingInterval \<and> untouched fl m' s s' PidTemperatureLimit"
  using assms(1)
proof (rule valid_storeE)
  fix a b c ss g
  assume s: "s = store_of a b c ss g" "length ss = 3" "p_validate ReportingInterval a"
    "p_validate (TemperatureLimit fl) b" "p_validate (OperatingModeParameter fl) c"
  define v where "v = hd p"
  have "p = [v]" using assms(2) by (cases p) (auto simp: v_def)
  then show ?thesis
    using assms(3) s
    by (auto simp: mode.stage_payload set_mode mode.verdict_def Let_def stage_defs
        intro!: valid_storeI split: if_splits)
qed

lemma stage_record:
  assumes "valid_store fl s" "i \<noteq> PidCount" "decodeAndStage fl m i h p s = (s', st)"
  shows "valid_store fl s'" "st = PsOk \<longleftrightarrow> payload_ok fl (i, h, p)"
    "st = PsOk \<Longrightarrow> replaced fl m' s s' i p"
    "j \<noteq> i \<Longrightarrow> j \<noteq> PidCount \<Longrightarrow> untouched fl m' s s' j"
proof -
  have "valid_store fl s' \<and> (st = PsOk \<longleftrightarrow> payload_ok fl (i, h, p))
     \<and> (st = PsOk \<longrightarrow> replaced fl m' s s' i p) \<and> (j \<noteq> i \<longrightarrow> j \<noteq> PidCount \<longrightarrow> untouched fl m' s s' j)"
  proof (cases "serviceId h = ParameterPersistenceServiceId
      \<and> messageType h = message_code (expectedMessageType i) \<and> payloadEndian h = 0
      \<and> length p = encodedPayloadSize fl i")
    case False
    then have "s' = s" "st = TypeMismatch"
      using assms(2,3)
      by (auto simp: decodeAndStage_def decodeAndStage_typed_def encodedPayloadSize_def
          ParameterImageEndianness_def endian_code_def split: if_splits ParameterID.splits)
    then show ?thesis using False assms(1) by (auto simp: untouched_def)
  next
    case True
    then show ?thesis
      using assms(2,3) stage_typed_interval [OF assms(1), of p m s' st m']
        stage_typed_limit [OF assms(1), of p m s' st m'] stage_typed_mode [OF assms(1), of p m s' st m']
      by (cases i; cases j; simp add: decodeAndStage_def encodedPayloadSize_def payload_value_def
          ParameterImageEndianness_def endian_code_def; fail)
  qed
  then show "valid_store fl s'" "st = PsOk \<longleftrightarrow> payload_ok fl (i, h, p)"
    "st = PsOk \<Longrightarrow> replaced fl m' s s' i p"
    "j \<noteq> i \<Longrightarrow> j \<noteq> PidCount \<Longrightarrow> untouched fl m' s s' j"
    by blast+
qed

section \<open>Restoring\<close>

definition stage_cb :: "floats \<Rightarrow> Endianness \<Rightarrow> pstore visitor" where
  "stage_cb fl m = (\<lambda>staged record header payload.
     decodeAndStage fl m (rv_parameterId record) header payload staged)"

lemma replaced_trans:
  "untouched fl m s s1 i \<Longrightarrow> replaced fl m s1 s' i p \<Longrightarrow> replaced fl m s s' i p"
  "replaced fl m s s1 i p \<Longrightarrow> untouched fl m s1 s' i \<Longrightarrow> replaced fl m s s' i p"
  "untouched fl m s s1 i \<Longrightarrow> untouched fl m s1 s' i \<Longrightarrow> untouched fl m s s' i"
  by (auto simp: replaced_def untouched_def)

lemma visit_stage:
  assumes "valid_store fl s" "list_all rec_good rs" "distinct (map fst rs)"
    and "visit (stage_cb fl m) k off rs s = (s', r)"
  shows "succeeded r \<longleftrightarrow> list_all (payload_ok fl) rs"
    and "succeeded r \<Longrightarrow> r = walked (k + length rs) \<and> valid_store fl s'
      \<and> list_all (\<lambda>(i, h, p). replaced fl m' s s' i p) rs
      \<and> (\<forall>j. j \<noteq> PidCount \<longrightarrow> j \<notin> set (map fst rs) \<longrightarrow> untouched fl m' s s' j)"
proof -
  have "(succeeded r \<longleftrightarrow> list_all (payload_ok fl) rs)
    \<and> (succeeded r \<longrightarrow> r = walked (k + length rs) \<and> valid_store fl s'
      \<and> list_all (\<lambda>(i, h, p). replaced fl m' s s' i p) rs
      \<and> (\<forall>j. j \<noteq> PidCount \<longrightarrow> j \<notin> set (map fst rs) \<longrightarrow> untouched fl m' s s' j))"
    using assms
  proof (induction rs arbitrary: k off s)
    case Nil
    then show ?case by (auto simp: succeeded_def untouched_def)
  next
    case (Cons q rs)
    obtain i h p where q: "q = (i, h, p)" by (cases q)
    have i: "i \<noteq> PidCount" and fresh: "i \<notin> set (map fst rs)"
      using Cons.prems by (auto simp: q)
    obtain s1 st where step: "decodeAndStage fl m i h p s = (s1, st)" by fastforce
    note out = stage_record [OF Cons.prems(1) i step]
    show ?case
    proof (cases "st = PsOk")
      case False
      then have "r = at_record st k i" using Cons.prems(4) by (simp add: q stage_cb_def step)
      then have "\<not> succeeded r" using False by (simp add: succeeded_def at_record_def)
      moreover have "\<not> payload_ok fl q" using False out(2) unfolding q by blast
      ultimately show ?thesis by simp
    next
      case True
      then have "visit (stage_cb fl m) (k + 1) (off + 30 + length p) rs s1 = (s', r)"
        using Cons.prems(4) by (simp add: q stage_cb_def step)
      with Cons.IH [OF out(1) _ _ this] Cons.prems
      have ih: "succeeded r \<longleftrightarrow> list_all (payload_ok fl) rs"
        "succeeded r \<longrightarrow> r = walked (k + 1 + length rs) \<and> valid_store fl s'
          \<and> list_all (\<lambda>(i, h, p). replaced fl m' s1 s' i p) rs
          \<and> (\<forall>j. j \<noteq> PidCount \<longrightarrow> j \<notin> set (map fst rs) \<longrightarrow> untouched fl m' s1 s' j)"
        by simp_all
      have "list_all (\<lambda>(i, h, p). replaced fl m' s s' i p) rs" if "succeeded r"
        unfolding list_all_iff
      proof
        fix x assume x: "x \<in> set rs"
        obtain j h' p' where [simp]: "x = (j, h', p')" by (cases x)
        have "replaced fl m' s1 s' j p'" using ih(2) that x by (auto simp: list_all_iff)
        moreover have "j \<noteq> i" using fresh x by force
        moreover have "j \<noteq> PidCount" using Cons.prems(2) x by (auto simp: list_all_iff)
        ultimately show "case x of (i, h, p) \<Rightarrow> replaced fl m' s s' i p"
          using replaced_trans(1) [OF out(4)] by simp
      qed
      moreover have "replaced fl m' s s' i p" if "succeeded r"
        using ih(2) that fresh i by (blast intro: replaced_trans(2) [OF out(3) [OF True]])
      moreover have "untouched fl m' s s' j" if "succeeded r" "j \<noteq> PidCount" "j \<notin> set (map fst (q # rs))" for j
        using ih(2) that by (auto simp: q intro!: replaced_trans(3) [OF out(4)])
      ultimately show ?thesis
        using ih out(2) True by (simp add: q)
    qed
  qed
  then show "succeeded r \<longleftrightarrow> list_all (payload_ok fl) rs"
    and "succeeded r \<Longrightarrow> r = walked (k + length rs) \<and> valid_store fl s'
      \<and> list_all (\<lambda>(i, h, p). replaced fl m' s s' i p) rs
      \<and> (\<forall>j. j \<noteq> PidCount \<longrightarrow> j \<notin> set (map fst rs) \<longrightarrow> untouched fl m' s s' j)"
    by blast+
qed

lemma restore_wf:
  assumes "image_wf rs (storage_image_bytes im)" "valid_store fl s" "restore fl m im s = (s', r)"
  shows "succeeded r \<longleftrightarrow> list_all (payload_ok fl) rs" "\<not> succeeded r \<Longrightarrow> s' = s"
    "succeeded r \<Longrightarrow> r = walked 3" "succeeded r \<Longrightarrow> valid_store fl s'"
    "succeeded r \<Longrightarrow> list_all (\<lambda>(i, h, p). replaced fl m' s s' i p) rs"
proof -
  obtain t where visit: "visit (stage_cb fl m) 0 10 rs s = (t, r)"
    and s': "s' = (if succeeded r then t else s)"
    using assms(3) unfolding restore_def Let_def walkRecords_visit [OF assms(1)] stage_cb_def
    by (auto split: prod.splits if_splits)
  have rs: "list_all rec_good rs" "distinct (map fst rs)" "length rs = 3"
    using assms(1) by (simp_all add: image_wf_def)
  note out = visit_stage [OF assms(2) rs(1,2) visit]
  show "succeeded r \<longleftrightarrow> list_all (payload_ok fl) rs" by (rule out(1))
  show "\<not> succeeded r \<Longrightarrow> s' = s" using s' by simp
  assume ok: "succeeded r"
  show "r = walked 3" "valid_store fl s'" "list_all (\<lambda>(i, h, p). replaced fl m' s s' i p) rs"
    using out(2) [OF ok, of m'] s' ok rs(3) by simp_all
qed

lemma restore_accepts:
  assumes "restore fl m im s = (s', r)" "succeeded r"
  shows "\<exists>rs. image_wf rs (storage_image_bytes im)"
  using assms
  by (auto simp: restore_def Let_def split: prod.splits if_splits intro: walkRecords_accepts)

section \<open>Creating an image\<close>

definition stored_ids :: "ParameterID list" where
  "stored_ids = [PidReportingInterval, PidTemperatureLimit, PidOperatingMode]"

definition created_records :: "u32 \<Rightarrow> u32 \<Rightarrow> u8 \<Rightarrow> image_record list" where
  "created_records a b c = map (\<lambda>i. param_record i (payload_bytes a b c i)) stored_ids"

definition created_bytes :: "u32 \<Rightarrow> u32 \<Rightarrow> u8 \<Rightarrow> bytes" where
  "created_bytes a b c = image_header 3 @ concat (map rec_bytes (created_records a b c))"

lemma length_created [simp]: "length (created_bytes a b c) = 109"
  by (simp add: created_bytes_def created_records_def param_record_def stored_ids_def payload_bytes_def)

lemma created_wf: "image_wf (created_records a b c) (created_bytes a b c)"
proof -
  have "rec_good (param_record i (payload_bytes a b c i))" if "i \<noteq> PidCount" for i
  proof -
    have "length (payload_bytes a b c i) \<le> 4" by (cases i) (simp_all add: payload_bytes_def)
    then show ?thesis using that param_frame_wf by (simp add: param_record_def)
  qed
  then show ?thesis
    by (simp add: image_wf_def created_bytes_def)
      (simp add: created_records_def stored_ids_def param_record_def)
qed

lemma create_step:
  assumes d: "length d = 1024" "length pre + 34 \<le> 1024" and i: "ParameterID_of raw = i" "i \<noteq> PidCount"
  shows "create_loop fl m (store_of a b c ss g) (Suc n) raw \<lparr>im_data = blit d 0 pre, im_size = length pre\<rparr>
    = (let pre' = pre @ rec_bytes (param_record i (payload_bytes a b c i))
       in create_loop fl m (store_of a b c ss g) n (raw + 1) \<lparr>im_data = blit d 0 pre', im_size = length pre'\<rparr>)"
proof -
  let ?id = "mem_bytes Little 2 (of_nat (toIndex i) :: u16)"
  let ?n = "encodedPayloadSize fl i"
  let ?h = "hdr_bytes Little (finalizeCrcs Little (param_header i) (payload_bytes a b c i))"
  have n: "?n \<le> 4" "length (payload_bytes a b c i) = ?n" by (rule payload_size)+
  have room: "length pre + (30 + ?n) \<le> 1024" using n(1) d(2) by linarith
  have app: "blit (blit d 0 pre) (length pre) xs = blit d 0 (pre @ xs)"
    if "length pre + length xs \<le> 1024" for pre xs
    using that d(1) blit_blit_adjacent [of 0 pre xs d] by simp
  have w: "image_writeUInt16 m (blit d 0 pre) (length pre) (of_nat (toIndex i)) = (True, blit d 0 (pre @ ?id))"
    using room d by (subst image_write_eq) (simp_all add: app)
  have f: "makeFrame fl m i (store_of a b c ss g) (take (28 + ?n) (drop (Suc (Suc (length pre))) d))
    = (True, ?h @ payload_bytes a b c i, 28 + ?n)"
    using room d i(2) n(2) by (subst makeFrame_eq) simp_all
  have last: "blit (blit d 0 (pre @ ?id)) (Suc (Suc (length pre))) (?h @ payload_bytes a b c i)
    = blit d 0 (pre @ ?id @ ?h @ payload_bytes a b c i)"
    using app [of "pre @ ?id" "?h @ payload_bytes a b c i"] room n(2) by simp
  show ?thesis
    using room d(1)
    by (simp add: i(1) Let_def MessageHeaderV1WireSize_def param_record_def w f last n(2))
      (simp add: add_ac)
qed

lemma create_eq:
  assumes "length (im_data im) = 1024"
  shows "create fl m (store_of a b c ss g) im =
     (\<lparr>im_data = blit (im_data im) 0 (created_bytes a b c), im_size = 109\<rparr>, walked 3)"
proof -
  let ?s = "store_of a b c ss g" and ?d = "im_data im"
  let ?r = "\<lambda>i. rec_bytes (param_record i (payload_bytes a b c i))"
  let ?im = "\<lambda>pre. \<lparr>im_data = blit ?d 0 pre, im_size = length pre\<rparr>"
  let ?p0 = "image_header 3" and ?p1 = "image_header 3 @ ?r PidReportingInterval"
    and ?p2 = "(image_header 3 @ ?r PidReportingInterval) @ ?r PidTemperatureLimit"
    and ?p3 = "((image_header 3 @ ?r PidReportingInterval) @ ?r PidTemperatureLimit) @ ?r PidOperatingMode"
  have lens: "length (?r PidReportingInterval) = 34" "length (?r PidTemperatureLimit) = 34"
    by (simp_all add: param_record_def payload_bytes_def)
  have "create_loop fl m ?s 3 0 (?im ?p0) = create_loop fl m ?s 2 1 (?im ?p1)"
    using assms create_step [of ?d ?p0 0 PidReportingInterval fl m a b c ss g 2]
    by (simp add: ParameterID_of_def Let_def numeral_3_eq_3 numeral_2_eq_2)
  also have "\<dots> = create_loop fl m ?s 1 2 (?im ?p2)"
    using assms create_step [of ?d ?p1 1 PidTemperatureLimit fl m a b c ss g 1] lens
    by (simp add: ParameterID_of_def Let_def numeral_2_eq_2 del: append_assoc)
  also have "\<dots> = create_loop fl m ?s 0 3 (?im ?p3)"
    using assms create_step [of ?d ?p2 2 PidOperatingMode fl m a b c ss g 0] lens
    by (simp add: ParameterID_of_def Let_def del: append_assoc)
  finally have "create_loop fl m ?s 3 0 (?im ?p0) = (?im ?p3, walked 3)"
    by (simp add: parameterCount_def toIndex_def)
  moreover have "?p3 = created_bytes a b c"
    by (simp add: created_bytes_def created_records_def stored_ids_def)
  ultimately have "create_loop fl m ?s 3 0 (?im ?p0) = (?im (created_bytes a b c), walked 3)"
    by (simp only:)
  then show ?thesis
    using assms
    by (simp add: create_def encodeImageHeader_eq StorageImageHeaderWireSize_def parameterCount_def toIndex_def)
qed

lemma created_payload_ok:
  assumes "p_validate ReportingInterval a" "p_validate (TemperatureLimit fl) b"
    "p_validate (OperatingModeParameter fl) c"
  shows "list_all (payload_ok fl) (created_records a b c)"
proof -
  have "payload_ok fl (param_record i (payload_bytes a b c i))" if "i \<in> set stored_ids" for i
    using that assms
    by (auto simp: stored_ids_def param_record_def finalizeCrcs_fields param_header_def payload_value_def
        payload_bytes_def encodedPayloadSize_def)
  then show ?thesis by (simp add: created_records_def list_all_iff)
qed

lemma created_image_bytes [simp]:
  "length d = 1024 \<Longrightarrow>
     storage_image_bytes \<lparr>im_data = blit d 0 (created_bytes a b c), im_size = 109\<rparr> = created_bytes a b c"
  by (simp add: storage_image_bytes_def blit_def)

lemma payload_value_created:
  "i \<noteq> PidCount \<Longrightarrow> payload_value i (payload_bytes a b c i) = current_value fl m (store_of a b c ss g) i"
  by (cases i) (simp_all add: payload_value_def payload_bytes_def current_value_def)

section \<open>Properties\<close>

text \<open>C1: Restoring is a transaction. Whatever bytes an image holds, \<open>restore\<close> succeeds exactly when
they are an image of the format (constant header, three records with distinct identifiers, each an
intact frame) whose payloads have the type, size and a valid value of their parameter. If it
fails, the store is the one it was given; if it succeeds, three records were processed, the new
store is valid, and each record replaced its parameter unless a higher source had set it.\<close>

theorem restore_transactional:
  assumes "valid_store fl s" "restore fl m im s = (s', r)"
  shows "(succeeded r \<longleftrightarrow> (\<exists>rs. image_wf rs (storage_image_bytes im) \<and> list_all (payload_ok fl) rs))
   \<and> (\<not> succeeded r \<longrightarrow> s' = s)
   \<and> (succeeded r \<longrightarrow> valid_store fl s' \<and> recordsProcessed r = 3
        \<and> (\<exists>rs. image_wf rs (storage_image_bytes im)
               \<and> list_all (\<lambda>(i, h, p). replaced fl m' s s' i p) rs))"
proof (cases "\<exists>rs. image_wf rs (storage_image_bytes im)")
  case True
  then obtain rs where rs: "image_wf rs (storage_image_bytes im)" by blast
  note out = restore_wf [OF _ assms]
  have iff: "succeeded r \<longleftrightarrow> (\<exists>rs. image_wf rs (storage_image_bytes im) \<and> list_all (payload_ok fl) rs)"
    using rs out(1) by blast
  show ?thesis
  proof (cases "succeeded r")
    case True
    then have "valid_store fl s'" "recordsProcessed r = 3" "list_all (\<lambda>(i, h, p). replaced fl m' s s' i p) rs"
      using out(3,4,5) [OF rs True] by simp_all
    then show ?thesis using True iff rs by blast
  next
    case False
    then show ?thesis using out(2) [OF rs False] iff by blast
  qed
next
  case False
  then have "\<not> succeeded r" using restore_accepts [OF assms(2)] by blast
  moreover have "s' = s" using assms(2) calculation
    by (auto simp: restore_def Let_def split: prod.splits if_splits)
  ultimately show ?thesis using False by blast
qed

lemma default_values:
  "ParameterStore fl m = store_of 1000 f32_45 ModeNormal (replicate 3 CompiledDefault) 0"
  "current_value fl m' (ParameterStore fl m) PidOperatingMode = VMode ModeNormal"
  by (simp_all add: default_store current_value_def)

definition sample_image :: "Endianness \<Rightarrow> storage_image" where
  "sample_image m = fst (create sample_floats m (ParameterStore sample_floats m) ParameterStorageImage)"

lemma sample_image_bytes: "storage_image_bytes (sample_image m) = created_bytes 1000 f32_45 ModeNormal"
  by (simp add: sample_image_def default_values(1) create_eq ParameterStorageImage_def MaxStorageImageSize_def)

theorem restore_transactional_witness:
  "succeeded (snd (restore sample_floats Big (sample_image Little) (ParameterStore sample_floats Big)))"
proof -
  obtain s' r where out: "restore sample_floats Big (sample_image Little) (ParameterStore sample_floats Big) = (s', r)"
    by fastforce
  have "image_wf (created_records 1000 f32_45 ModeNormal) (storage_image_bytes (sample_image Little))"
    by (simp add: sample_image_bytes created_wf)
  moreover have "list_all (payload_ok sample_floats) (created_records 1000 f32_45 ModeNormal)"
    by (rule created_payload_ok default_validates)+
  ultimately have "succeeded r"
    using restore_transactional [OF default_valid out, of Big] by blast
  then show ?thesis by (simp add: out)
qed

text \<open>Saving and restoring preserves the parameters. \<open>create\<close> always succeeds on a valid store; the
image it writes, restored on a machine of either byte order into any valid store, gives every
parameter the value it had in the first store and the source \<open>PersistentStorage\<close>, except those that
the second store holds from a source of higher precedence, which keep their value and source.\<close>

theorem create_restore:
  assumes "valid_store fl s" "valid_store fl t" "length (im_data im) = MaxStorageImageSize"
  shows "case create fl m s im of (im', r) \<Rightarrow>
     r = \<lparr>ps_status = PsOk, recordsProcessed = 3, ps_parameterId = None\<rparr>
   \<and> (case restore fl m' im' t of (t', r') \<Rightarrow>
        r' = \<lparr>ps_status = PsOk, recordsProcessed = 3, ps_parameterId = None\<rparr> \<and> valid_store fl t'
      \<and> list_all (\<lambda>i. if precedence PersistentStorage < precedence (store_source t i)
           then current_value fl m' t' i = current_value fl m' t i
              \<and> store_source t' i = store_source t i
           else current_value fl m' t' i = current_value fl m s i
              \<and> store_source t' i = PersistentStorage)
         [PidReportingInterval, PidTemperatureLimit, PidOperatingMode])"
  using assms(1)
proof (rule valid_storeE)
  fix a b c ss g
  assume s: "s = store_of a b c ss g" "length ss = 3" "p_validate ReportingInterval a"
    "p_validate (TemperatureLimit fl) b" "p_validate (OperatingModeParameter fl) c"
  let ?im = "\<lparr>im_data = blit (im_data im) 0 (created_bytes a b c), im_size = 109\<rparr>"
  have len: "length (im_data im) = 1024" using assms(3) by (simp add: MaxStorageImageSize_def)
  obtain t' r' where res: "restore fl m' ?im t = (t', r')" by fastforce
  have wf: "image_wf (created_records a b c) (storage_image_bytes ?im)" by (simp add: len created_wf)
  note out = restore_wf [OF wf assms(2) res]
  have ok: "succeeded r'" using out(1) created_payload_ok s by blast
  have "replaced fl m' t t' i (payload_bytes a b c i)" if "i \<in> set stored_ids" for i
    using out(5) [OF ok, of m'] that by (auto simp: created_records_def list_all_iff param_record_def)
  then show ?thesis
    using ok out(3,4) payload_value_created [of _ a b c fl m ss g]
    by (simp add: s create_eq len res stored_ids_def replaced_def)
qed

theorem create_restore_witness:
  "case create sample_floats Little (ParameterStore sample_floats Little) ParameterStorageImage of (im', r) \<Rightarrow>
     r = \<lparr>ps_status = PsOk, recordsProcessed = 3, ps_parameterId = None\<rparr>
   \<and> (case restore sample_floats Big im' (ParameterStore sample_floats Big) of (t', r') \<Rightarrow>
        r' = \<lparr>ps_status = PsOk, recordsProcessed = 3, ps_parameterId = None\<rparr>
      \<and> valid_store sample_floats t'
      \<and> current_value sample_floats Big t' PidOperatingMode = VMode ModeNormal
      \<and> store_source t' PidOperatingMode = PersistentStorage)"
  using create_restore [where fl = sample_floats and s = "ParameterStore sample_floats Little"
      and t = "ParameterStore sample_floats Big" and im = ParameterStorageImage and m = Little
      and m' = Big, OF default_valid default_valid]
  by (simp add: ParameterStorageImage_def MaxStorageImageSize_def default_values split: prod.splits)
    (simp add: store_source_def precedence_def toIndex_def current_value_def default_store)

end
