(* ===== verification/ImageIntegrity.thy ===== *)
theory ImageIntegrity
  imports PersistentParameters
begin

text \<open>
  Damage and change of a persistent image: the format is deterministic and every single changed
  byte leaves it, an update replaces exactly one record, and whatever the corruption tool does is
  noticed by the next restore.
\<close>

section \<open>The format is deterministic\<close>

lemma hdr_bytes_inject [simp]: "hdr_bytes Little h = hdr_bytes Little h' \<longleftrightarrow> h = h'"
  by (metis hdr_of_hdr_bytes_exact)

lemma index_bytes_inject [simp]:
  "mem_bytes Little 2 (of_nat (toIndex i) :: u16) = mem_bytes Little 2 (of_nat (toIndex j) :: u16)
     \<longleftrightarrow> i = j"
  by (metis mem_word_u16 unat_index index_inject)

lemma good_length: "rec_good (i, h, p) \<Longrightarrow> length p = unat (payloadSize h)"
  by (simp add: frame_wf_def)

lemma frame_head_inject:
  assumes "rec_good (i, h, p)" "rec_good (i', h', p')"
    and "hdr_bytes Little h @ p @ xs = hdr_bytes Little h' @ p' @ xs'"
  shows "h = h' \<and> p = p' \<and> xs = xs'"
proof -
  have h: "h = h'" and rest: "p @ xs = p' @ xs'"
    using assms(3) by (simp_all add: append_eq_append_conv)
  have "length p = length p'" using good_length [OF assms(1)] good_length [OF assms(2)] h by simp
  then show ?thesis using h rest by simp
qed

lemma record_head_inject:
  assumes "rec_good r" "rec_good r'" "rec_bytes r @ xs = rec_bytes r' @ xs'"
  shows "r = r' \<and> xs = xs'"
proof -
  obtain i h p i' h' p' where r: "r = (i, h, p)" "r' = (i', h', p')" by (cases r, cases r')
  have "i = i'" "hdr_bytes Little h @ p @ xs = hdr_bytes Little h' @ p' @ xs'"
    using assms(3) by (simp_all add: r append_eq_append_conv)
  then show ?thesis using frame_head_inject [of i h p i' h' p' xs xs'] assms(1,2) r by blast
qed

lemma records_inject:
  assumes "list_all rec_good rs" "list_all rec_good rs'" "length rs = length rs'"
    and "concat (map rec_bytes rs) = concat (map rec_bytes rs')"
  shows "rs = rs'"
  using assms(3,1,2,4)
proof (induction rs rs' rule: list_induct2)
  case Nil
  then show ?case by simp
next
  case (Cons r rs r' rs')
  then have "r = r' \<and> concat (map rec_bytes rs) = concat (map rec_bytes rs')"
    by (intro record_head_inject) auto
  with Cons show ?case by auto
qed

text \<open>All three identifiers occur in an image.\<close>

lemma stored_ids_exhaust: "i \<noteq> PidCount \<Longrightarrow> i \<in> set stored_ids"
  by (cases i) (simp_all add: stored_ids_def)

lemma image_ids:
  assumes "image_wf rs img"
  shows "set (map fst rs) = set stored_ids"
proof (rule card_subset_eq)
  show "finite (set stored_ids)" by simp
  show "set (map fst rs) \<subseteq> set stored_ids"
    using assms stored_ids_exhaust by (fastforce simp: image_wf_def list_all_iff)
  have "card (set (map fst rs)) = 3"
    using assms by (simp only: image_wf_def distinct_card) simp
  then show "card (set (map fst rs)) = card (set stored_ids)" by (simp add: stored_ids_def)
qed

lemma image_record_at:
  assumes "image_wf rs img" "i \<noteq> PidCount"
  obtains rs1 h p rs2 where "rs = rs1 @ (i, h, p) # rs2" "i \<notin> set (map fst rs1)" "i \<notin> set (map fst rs2)"
proof -
  have "i \<in> set (map fst rs)" using image_ids [OF assms(1)] stored_ids_exhaust [OF assms(2)] by simp
  then obtain r where "r \<in> set rs" "fst r = i" by auto
  then obtain h p rs1 rs2 where rs: "rs = rs1 @ (i, h, p) # rs2"
    by (metis prod.exhaust_sel split_list)
  moreover have "distinct (map fst rs)" using assms(1) by (simp add: image_wf_def)
  ultimately show ?thesis using that by auto
qed

section \<open>One changed byte\<close>

lemma header_good: "rec_good (i, h, p) \<Longrightarrow> header_ok (hdr_bytes Little h)"
  using frame_wf_bytes(1) [of h p "hdr_bytes Little h @ p"] by simp

lemma payload_good: "rec_good (i, h, p) \<Longrightarrow> crc16CcittFalse p = payloadCrc h"
  by (simp add: frame_wf_def)

lemma records_byte:
  assumes "list_all rec_good rs" "list_all rec_good rs'" "length rs = length rs'"
    and "distinct (map fst rs)" "distinct (map fst rs')" "set (map fst rs) = set (map fst rs')"
    and "concat (map rec_bytes rs') = (concat (map rec_bytes rs))[k := b]"
  shows "rs = rs'"
  using assms(3,1,2,4-)
proof (induction rs rs' arbitrary: k rule: list_induct2)
  case Nil
  then show ?case by simp
next
  case (Cons r rs r' rs')
  obtain i h p i' h' p' where r: "r = (i, h, p)" and r': "r' = (i', h', p')" by (cases r, cases r')
  have good: "rec_good (i, h, p)" "rec_good (i', h', p')" using Cons.prems by (simp_all add: r r')
  let ?id = "\<lambda>i. mem_bytes Little 2 (of_nat (toIndex i) :: u16)"
  let ?xs = "concat (map rec_bytes rs)" and ?xs' = "concat (map rec_bytes rs')"
  have eq: "?id i' @ hdr_bytes Little h' @ p' @ ?xs' = (?id i @ hdr_bytes Little h @ p @ ?xs)[k := b]"
    using Cons.prems by (simp add: r r')
  have unchanged: "r # rs = r' # rs'" if "(?id i @ hdr_bytes Little h @ p @ ?xs)[k := b] = ?id i @ hdr_bytes Little h @ p @ ?xs"
    using that eq Cons.prems Cons.hyps by (intro records_inject) (auto simp: r r')
  consider "k < 2" | "2 \<le> k" "k < 30" | "30 \<le> k" "k < 30 + length p" | "30 + length p \<le> k" by linarith
  then show ?case
  proof cases
    case 1
    then have "hdr_bytes Little h' @ p' @ ?xs' = hdr_bytes Little h @ p @ ?xs"
      using eq by (simp add: list_update_append append_eq_append_conv)
    then have same: "h' = h \<and> p' = p \<and> ?xs' = ?xs" using frame_head_inject good by blast
    then have "rs = rs'" using Cons.prems Cons.hyps by (intro records_inject) auto
    moreover have "i = i'" using Cons.prems \<open>rs = rs'\<close> by (auto simp: r r')
    ultimately show ?thesis using same by (simp add: r r')
  next
    case 2
    then have lt: "k - 2 < 28" by linarith
    with 2 have "hdr_bytes Little h' = (hdr_bytes Little h)[k - 2 := b]"
      using eq by (simp add: list_update_append append_eq_append_conv)
    then have "header_ok ((hdr_bytes Little h)[k - 2 := b])" using header_good [OF good(2)] by simp
    then have "b = hdr_bytes Little h ! (k - 2)"
      using header_byte_detected [of "hdr_bytes Little h" "k - 2" b] header_good [OF good(1)] lt by auto
    then show ?thesis using 2 lt by (intro unchanged) (simp add: list_update_append)
  next
    case 3
    have ge: "\<not> k - 2 < 28" "k - 2 - 28 = k - 30" "k - 30 < length p" using 3 by linarith+
    from 3 have h: "h' = h" and tail: "p' @ ?xs' = p[k - 30 := b] @ ?xs"
      using eq ge by (simp_all add: list_update_append append_eq_append_conv)
    then have "p' = p[k - 30 := b]"
      using good_length [OF good(1)] good_length [OF good(2)] by (simp add: append_eq_append_conv)
    then have "crc16CcittFalse (p[k - 30 := b]) = crc16CcittFalse p"
      using payload_good [OF good(1)] payload_good [OF good(2)] h by simp
    then have "p[k - 30 := b] = p" using ge by (intro crc.accepted_update_is_identity) auto
    then show ?thesis using 3 ge by (intro unchanged) (simp add: list_update_append)
  next
    case 4
    have ge: "\<not> k < 2" "\<not> k - 2 < 28" "k - 2 - 28 = k - 30" "\<not> k - 30 < length p"
      "k - 30 - length p = k - (30 + length p)" using 4 by linarith+
    then have "rec_bytes r' @ ?xs' = rec_bytes r @ ?xs[k - (30 + length p) := b]"
      using eq by (simp add: r r' list_update_append)
    then have same: "r' = r" "?xs' = ?xs[k - (30 + length p) := b]"
      using record_head_inject good r r' by blast+
    then have "rs = rs'" using Cons.prems by (intro Cons.IH) (auto simp: r)
    with same show ?thesis by simp
  qed
qed

lemma image_byte:
  assumes "image_wf rs img" "image_wf rs' (img[k := b])" "k < length img"
  shows "b = img ! k"
proof (cases "k < 10")
  case True
  have "img ! k = image_header 3 ! k" "img[k := b] ! k = image_header 3 ! k"
    using assms(1,2) True by (simp_all add: image_wf_def nth_append)
  then show ?thesis using assms(3) by simp
next
  case False
  have "concat (map rec_bytes rs') = (concat (map rec_bytes rs))[k - 10 := b]"
    using assms(1,2) False by (simp add: image_wf_def list_update_append)
  moreover have "set (map fst rs) = set (map fst rs')" by (simp only: image_ids [OF assms(1)] image_ids [OF assms(2)])
  ultimately have "rs = rs'" using assms(1,2) by (intro records_byte) (auto simp: image_wf_def)
  then have "img[k := b] = img" using assms(1,2) by (simp add: image_wf_def)
  then show ?thesis using assms(3) by (metis nth_list_update_eq)
qed

lemma records_id_changed:
  assumes "list_all rec_good (rs1 @ (i, h, p) # rs2)" "distinct (map fst (rs1 @ (i, h, p) # rs2))"
    and "list_all rec_good rs'" "length rs' = length (rs1 @ (i, h, p) # rs2)" "distinct (map fst rs')"
    and "set (map fst rs') = set (map fst (rs1 @ (i, h, p) # rs2))" "length xs = 2"
    and "concat (map rec_bytes rs') = concat (map rec_bytes rs1) @ xs @ hdr_bytes Little h @ p
           @ concat (map rec_bytes rs2)"
  shows "xs = mem_bytes Little 2 (of_nat (toIndex i) :: u16)"
  using assms
proof (induction rs1 arbitrary: rs')
  case Nil
  then obtain i' h' p' q where rs': "rs' = (i', h', p') # q" by (cases rs') auto
  have eq: "xs = mem_bytes Little 2 (of_nat (toIndex i') :: u16)"
    "hdr_bytes Little h' @ p' @ concat (map rec_bytes q) = hdr_bytes Little h @ p @ concat (map rec_bytes rs2)"
    using Nil.prems(7,8) by (simp_all add: rs' append_eq_append_conv)
  have "concat (map rec_bytes q) = concat (map rec_bytes rs2)"
    using frame_head_inject [OF _ _ eq(2), of i' i] Nil.prems rs' by simp
  then have "q = rs2" using Nil.prems rs' by (intro records_inject) auto
  then have "i' = i" using Nil.prems rs' by auto
  then show ?case using eq(1) by simp
next
  case (Cons r rs1)
  then obtain r' q where rs': "rs' = r' # q" by (cases rs') auto
  have "r' = r \<and> concat (map rec_bytes q) = concat (map rec_bytes rs1) @ xs @ hdr_bytes Little h @ p
           @ concat (map rec_bytes rs2)"
    using Cons.prems rs' by (intro record_head_inject) auto
  moreover have "set (map fst q) = set (map fst (rs1 @ (i, h, p) # rs2))" if "r' = r"
    using Cons.prems(2,5,6) insert_ident [of "fst r" "set (map fst q)" "set (map fst (rs1 @ (i, h, p) # rs2))"]
    by (simp add: rs' that)
  ultimately show ?case using Cons.prems rs' by (intro Cons.IH [of q]) auto
qed

section \<open>Finding and replacing a record\<close>

definition find_cb :: "ParameterID \<Rightarrow> (nat \<times> nat) visitor" where
  "find_cb wanted = (\<lambda>found record _ _.
     (if rv_parameterId record = wanted
      then (rv_offset record, length (rv_bdsMessage record)) else found, PsOk))"

lemma visit_find_none:
  "i \<notin> set (map fst rs) \<Longrightarrow> visit (find_cb i) k off rs found = (found, walked (k + length rs))"
  by (induction rs arbitrary: k off) (auto simp: find_cb_def)

lemma visit_find:
  "i \<notin> set (map fst rs1) \<Longrightarrow> i \<notin> set (map fst rs2) \<Longrightarrow>
   visit (find_cb i) k off (rs1 @ (i, h, p) # rs2) found =
     ((off + length (concat (map rec_bytes rs1)) + 2, 28 + length p),
      walked (k + length (rs1 @ (i, h, p) # rs2)))"
proof (induction rs1 arbitrary: k off)
  case Nil
  then show ?case by (simp add: find_cb_def visit_find_none [unfolded find_cb_def])
next
  case (Cons r rs1)
  obtain i' h' p' where r: "r = (i', h', p')" by (cases r)
  moreover have "i' \<noteq> i" using Cons.prems r by auto
  ultimately have "visit (find_cb i) k off ((r # rs1) @ (i, h, p) # rs2) found
      = visit (find_cb i) (k + 1) (off + 30 + length p') (rs1 @ (i, h, p) # rs2) found"
    by (simp add: find_cb_def)
  also have "\<dots> = ((off + 30 + length p' + length (concat (map rec_bytes rs1)) + 2, 28 + length p),
      walked (k + 1 + length (rs1 @ (i, h, p) # rs2)))"
    using Cons.prems by (intro Cons.IH) auto
  finally show ?case by (simp add: r)
qed

lemma findRecord_at:
  assumes "image_wf (rs1 @ (i, h, p) # rs2) img" "i \<notin> set (map fst rs1)" "i \<notin> set (map fst rs2)"
  shows "findRecord m img i = Some (12 + length (concat (map rec_bytes rs1)), 28 + length p)"
  using visit_find [OF assms(2,3), of 0 10 h p "(0, 0)"]
  by (simp add: findRecord_def walkRecords_visit [OF assms(1)] find_cb_def succeeded_def)

lemma image_split:
  "image_wf (rs1 @ (i, h, p) # rs2) img \<Longrightarrow>
     img = (image_header 3 @ concat (map rec_bytes rs1) @ mem_bytes Little 2 (of_nat (toIndex i) :: u16))
       @ (hdr_bytes Little h @ p) @ concat (map rec_bytes rs2)"
  by (simp add: image_wf_def)

lemma image_wf_replace:
  assumes "image_wf (rs1 @ (i, h, p) # rs2) img" "rec_good (i, h', p')"
  shows "image_wf (rs1 @ (i, h', p') # rs2)
     ((image_header 3 @ concat (map rec_bytes rs1) @ mem_bytes Little 2 (of_nat (toIndex i) :: u16))
       @ (hdr_bytes Little h' @ p') @ concat (map rec_bytes rs2))"
  using assms by (simp add: image_wf_def)

lemma take_blit_inside:
  assumes "off + length src \<le> n" "n \<le> length buf"
  shows "take n (blit buf off src) = blit (take n buf) off src"
proof -
  obtain k where "n = off + length src + k" using assms(1) le_Suc_ex by blast
  moreover have "length buf \<le> off \<Longrightarrow> src = []" using assms by (cases src) auto
  ultimately show ?thesis using assms(2) by (auto simp: blit_def drop_take min_def)
qed

lemma blit_middle:
  "length new = length old \<Longrightarrow> off = length pre \<Longrightarrow> blit (pre @ old @ post) off new = pre @ new @ post"
  by (simp add: blit_def)

lemma param_rec_good:
  "i \<noteq> PidCount \<Longrightarrow> length p \<le> 996 \<Longrightarrow> rec_good (param_record i p)"
  using param_frame_wf [of p i] by (simp add: param_record_def)

lemma payload_bytes_size [simp]: "length (payload_bytes a b c i) \<le> 996"
  by (cases i) (simp_all add: payload_bytes_def)

lemma update_wf:
  assumes wf: "image_wf (rs1 @ (i, h, p) # rs2) (storage_image_bytes im)" and i: "i \<noteq> PidCount"
    "i \<notin> set (map fst rs1)" "i \<notin> set (map fst rs2)"
    and room: "im_size im \<le> length (im_data im)" and p: "length p = encodedPayloadSize fl i"
  obtains im' where "update fl m i (store_of a b c ss g) im = (im', at_record PsOk 1 i)"
    "im_size im' = im_size im" "length (im_data im') = length (im_data im)"
    "image_wf (rs1 @ param_record i (payload_bytes a b c i) # rs2) (storage_image_bytes im')"
proof -
  let ?new = "payload_bytes a b c i"
  let ?h = "hdr_bytes Little (finalizeCrcs Little (param_header i) ?new)"
  let ?off = "12 + length (concat (map rec_bytes rs1))"
  let ?im = "im\<lparr>im_data := blit (im_data im) ?off (?h @ ?new)\<rparr>"
  have len: "length ?new = length p" by (simp add: p payload_size(2) [of _ _ _ _ fl])
  have small: "encodedPayloadSize fl i \<le> 256" by (rule order_trans [OF payload_size(1)]) simp
  have made: "makeFrame fl m i (store_of a b c ss g) (replicate (MessageHeaderV1WireSize + 256) 0)
    = (True, blit (replicate (MessageHeaderV1WireSize + 256) 0) 0 (?h @ ?new), 28 + length p)"
    using small i(1) p by (subst makeFrame_eq) (simp_all add: MessageHeaderV1WireSize_def)
  have "take (28 + length p) (blit (replicate (MessageHeaderV1WireSize + 256) 0) 0 (?h @ ?new)) = ?h @ ?new"
    by (simp add: blit_def len)
  then have upd: "update fl m i (store_of a b c ss g) im = (?im, at_record PsOk 1 i)"
    by (simp add: update_def findRecord_at [OF wf i(2,3)] made Let_def)
  have split: "storage_image_bytes im = (image_header 3 @ concat (map rec_bytes rs1) @ mem_bytes Little 2 (of_nat (toIndex i) :: u16))
       @ (hdr_bytes Little h @ p) @ concat (map rec_bytes rs2)"
    by (rule image_split [OF wf])
  have fits: "?off + (28 + length p) \<le> im_size im"
  proof -
    have "length (storage_image_bytes im) = im_size im" using room by (simp add: storage_image_bytes_def)
    moreover have "length (storage_image_bytes im) = ?off + (28 + length p) + length (concat (map rec_bytes rs2))"
      unfolding split by simp
    ultimately show ?thesis by linarith
  qed
  have "storage_image_bytes ?im = blit (storage_image_bytes im) ?off (?h @ ?new)"
    using fits room len by (simp add: storage_image_bytes_def take_blit_inside)
  also have "\<dots> = (image_header 3 @ concat (map rec_bytes rs1) @ mem_bytes Little 2 (of_nat (toIndex i) :: u16))
       @ (?h @ ?new) @ concat (map rec_bytes rs2)"
    unfolding split by (rule blit_middle) (simp_all add: len)
  finally have "image_wf (rs1 @ param_record i ?new # rs2) (storage_image_bytes ?im)"
    using image_wf_replace [OF wf] param_rec_good [OF i(1), of ?new] by (simp add: param_record_def)
  then show ?thesis using that [OF upd] fits room len by simp
qed

section \<open>The corruption tool\<close>

lemma xor_one_differs: "(b :: u8) XOR 1 \<noteq> b"
proof
  assume "b XOR 1 = b"
  then have "bit (b XOR 1) 0 = bit b 0" by simp
  then show False by (simp add: bit_xor_iff)
qed

lemma id_overwritten:
  assumes "image_wf (rs1 @ (i, h, p) # rs2) img"
    and "image_wf rs' (blit img (10 + length (concat (map rec_bytes rs1))) (mem_bytes Little 2 (v :: u16)))"
  shows "v = of_nat (toIndex i)"
proof -
  have "blit img (10 + length (concat (map rec_bytes rs1))) (mem_bytes Little 2 v)
      = (image_header 3 @ concat (map rec_bytes rs1)) @ mem_bytes Little 2 v
       @ (hdr_bytes Little h @ p @ concat (map rec_bytes rs2))"
    unfolding image_split [OF assms(1)]
    using blit_middle [of "mem_bytes Little 2 v" "mem_bytes Little 2 (of_nat (toIndex i) :: u16)"
        "10 + length (concat (map rec_bytes rs1))" "image_header 3 @ concat (map rec_bytes rs1)"
        "hdr_bytes Little h @ p @ concat (map rec_bytes rs2)"] by simp
  then have eq: "concat (map rec_bytes rs') = concat (map rec_bytes rs1) @ mem_bytes Little 2 v
       @ hdr_bytes Little h @ p @ concat (map rec_bytes rs2)"
    using assms(2) by (simp add: image_wf_def)
  have "mem_bytes Little 2 v = mem_bytes Little 2 (of_nat (toIndex i) :: u16)"
  proof (rule records_id_changed [OF _ _ _ _ _ _ _ eq])
    show "set (map fst rs') = set (map fst (rs1 @ (i, h, p) # rs2))"
      by (simp only: image_ids [OF assms(1)] image_ids [OF assms(2)])
  qed (use assms in \<open>simp_all add: image_wf_def\<close>)
  then show ?thesis by (metis mem_word_u16)
qed

lemma image_unique: "image_wf rs img \<Longrightarrow> image_wf rs' img \<Longrightarrow> rs = rs'"
  by (auto simp: image_wf_def intro: records_inject)

lemma header_overwritten:
  assumes "image_wf rs img" "image_wf rs' (blit img 4 (mem_bytes Little 2 (v :: u16)))"
  shows "v = StorageImageVersion"
proof -
  let ?img = "blit img 4 (mem_bytes Little 2 v)"
  have "10 \<le> length img" using assms(1) by (simp add: image_wf_def)
  then have "take 2 (drop 4 ?img) = mem_bytes Little 2 v" by (simp add: blit_def)
  moreover have "take 2 (drop 4 ?img) = mem_bytes Little 2 StorageImageVersion"
    using assms(2) by (simp add: image_wf_def image_header_def header_fields_def)
  ultimately show ?thesis by (metis mem_word_u16)
qed

lemma record_readdressed:
  fixes m :: Endianness
  assumes wf: "image_wf (rs1 @ (i, h, p) # rs2) img" and h': "h' = h\<lparr>messageType := t, payloadCrc := crc16CcittFalse p'\<rparr>"
    and p': "length p' = length p"
  defines "h'' \<equiv> h'\<lparr>headerCrc := computeHeaderCrc m h'\<rparr>"
  shows "image_wf (rs1 @ (i, h'', p') # rs2)
     ((image_header 3 @ concat (map rec_bytes rs1) @ mem_bytes Little 2 (of_nat (toIndex i) :: u16))
       @ (hdr_bytes Little h'' @ p') @ concat (map rec_bytes rs2))"
proof (rule image_wf_replace [OF wf])
  have good: "rec_good (i, h, p)" using wf by (simp add: image_wf_def)
  have "computeHeaderCrc m h'' = computeHeaderCrc m h'" by (simp add: h''_def computeHeaderCrc_ignores)
  then have "headerCrc h'' = crc16CcittFalse (blank_crc (hdr_bytes Little h''))"
    by (simp add: h''_def computeHeaderCrc_eq)
  moreover have "hdr_fields_ok h''" "payloadSize h'' = payloadSize h" "payloadCrc h'' = crc16CcittFalse p'"
    using good by (simp_all add: frame_wf_def hdr_fields_ok_def h''_def h')
  ultimately show "rec_good (i, h'', p')"
    using good p' by (simp add: frame_wf_def)
qed

text \<open>The two modes that rewrite the header of the first parameter keep the format.\<close>

lemma corrupt_rewrites:
  assumes wf: "image_wf (rs1 @ (i, h, p) # rs2) img" and i: "i = PidReportingInterval"
    "i \<notin> set (map fst rs1)" "i \<notin> set (map fst rs2)"
    and mode: "mode = CorruptTypeMismatch \<or> mode = CorruptInvalidValue"
    and out: "corruptImage m img mode = (True, img')"
  obtains h' p' where "image_wf (rs1 @ (i, h', p') # rs2) img'" "length p' = length p"
    "mode = CorruptTypeMismatch \<Longrightarrow> messageType h' = message_code MsgFloat32"
    "mode = CorruptInvalidValue \<Longrightarrow> p' = replicate (length p) 0"
proof -
  define pre where "pre = image_header 3 @ concat (map rec_bytes rs1) @ mem_bytes Little 2 (of_nat (toIndex i) :: u16)"
  define post where "post = concat (map rec_bytes rs2)"
  let ?off = "length pre"
  have img: "img = pre @ (hdr_bytes Little h @ p) @ post"
    using image_split [OF wf] by (simp add: pre_def post_def)
  have off: "12 + length (concat (map rec_bytes rs1)) = ?off" by (simp add: pre_def)
  have good: "rec_good (i, h, p)" using wf by (simp add: image_wf_def)
  have rd: "readHeaderV1 (BinaryReadStream m (hdr_bytes Little h) Little defaultMaxSizedField) defaultHeader
    = (adv (BinaryReadStream m (hdr_bytes Little h) Little defaultMaxSizedField) 28, h)"
    using read_any_header [of "hdr_bytes Little h" m defaultMaxSizedField defaultHeader] by simp
  have payload: "unat (payloadSize h) = length p" using good_length [OF good] by simp
  have cut: "take 28 (drop ?off img) = hdr_bytes Little h" "take (length p) (drop (?off + 28) img) = p"
    "min (length img - (?off + 28)) (length p) = length p"
    "take 28 (drop ?off (pre @ hdr_bytes Little h @ q @ post)) = hdr_bytes Little h" for q
    by (simp_all add: img)
  have ten: "\<not> length img < 10" by (simp add: img pre_def)
  define p' where "p' = (if mode = CorruptTypeMismatch then p else replicate (length p) 0)"
  define h1 where "h1 = (if mode = CorruptTypeMismatch then h\<lparr>messageType := message_code MsgFloat32\<rparr>
       else h\<lparr>payloadCrc := crc16CcittFalse p'\<rparr>)"
  define h2 where "h2 = h1\<lparr>headerCrc := computeHeaderCrc m h1\<rparr>"
  have img1: "(if mode = CorruptTypeMismatch then img else blit img (?off + 28) p') = pre @ hdr_bytes Little h @ p' @ post"
    using blit_middle [of p' p "?off + 28" "pre @ hdr_bytes Little h" post] mode
    by (auto simp: img p'_def)
  have buf: "length (hdr_bytes Little h) = 28" by simp
  have "img' = blit (pre @ hdr_bytes Little h @ p' @ post) ?off (hdr_bytes Little h2)"
  proof (cases "mode = CorruptTypeMismatch")
    case True
    then show ?thesis
      using out findRecord_at [OF wf i(2,3), of m] ten img1 hdr.put_exact_buffer [OF buf, of m Little defaultMaxSizedField h2]
      by (simp add: corruptImage_def i(1) off Let_def StorageImageHeaderWireSize_def MessageHeaderV1WireSize_def
          HeaderWireEndianness_def rd payload h1_def h2_def p'_def cut)
  next
    case False
    then have "mode = CorruptInvalidValue" using mode by simp
    then show ?thesis
      using out findRecord_at [OF wf i(2,3), of m] ten img1 hdr.put_exact_buffer [OF buf, of m Little defaultMaxSizedField h2]
      by (simp add: corruptImage_def i(1) off Let_def StorageImageHeaderWireSize_def MessageHeaderV1WireSize_def
          HeaderWireEndianness_def rd payload h1_def h2_def p'_def cut)
  qed
  then have img': "img' = pre @ (hdr_bytes Little h2 @ p') @ post"
    using blit_middle [of "hdr_bytes Little h2" "hdr_bytes Little h" ?off pre "p' @ post"] by simp
  have "h1 = h\<lparr>messageType := (if mode = CorruptTypeMismatch then message_code MsgFloat32 else messageType h),
      payloadCrc := crc16CcittFalse p'\<rparr>"
    using payload_good [OF good] by (simp add: h1_def p'_def)
  from record_readdressed [OF wf this, of m] have "image_wf (rs1 @ (i, h2, p') # rs2) img'"
    by (simp add: img' pre_def post_def h2_def p'_def)
  then show ?thesis using mode
    by (intro that [of h2 p']) (auto simp: h2_def h1_def p'_def)
qed

section \<open>Properties\<close>

lemma restore_rejects:
  assumes "\<And>rs. image_wf rs (storage_image_bytes im) \<Longrightarrow> \<not> list_all (payload_ok fl) rs"
    and "valid_store fl t" "restore fl m im t = (t', r)"
  shows "\<not> succeeded r \<and> t' = t"
proof (cases "\<exists>rs. image_wf rs (storage_image_bytes im)")
  case True
  then obtain rs where rs: "image_wf rs (storage_image_bytes im)" ..
  then have "\<not> succeeded r" using restore_wf(1) [OF rs assms(2,3)] assms(1) by blast
  then show ?thesis using restore_wf(2) [OF rs assms(2,3)] by blast
next
  case False
  then have "\<not> succeeded r" using restore_accepts [OF assms(3)] by blast
  then show ?thesis using assms(3)
    by (auto simp: restore_def Let_def split: prod.splits if_splits)
qed

lemma restored_image:
  assumes "valid_store fl s" "restore fl m im s = (s', r)" "succeeded r"
  obtains rs where "image_wf rs (storage_image_bytes im)" "list_all (payload_ok fl) rs"
  using restore_accepts [OF assms(2,3)] restore_wf(1) [OF _ assms(1,2)] assms(3) by blast

lemma inspect_accepts:
  assumes "succeeded (inspectImage m img)"
  shows "\<exists>rs. image_wf rs img"
proof -
  define cb :: "unit visitor" where "cb = (\<lambda>u record bds p. (u,
      if serviceId bds = ParameterPersistenceServiceId
       \<and> messageType bds = message_code (expectedMessageType (rv_parameterId record))
      then PsOk else TypeMismatch))"
  obtain r where walk: "walkRecords m img cb () = ((), r)" by (cases "walkRecords m img cb ()") simp
  then have "succeeded r"
    using assms by (auto simp: inspectImage_def cb_def split: prod.splits if_splits)
  then show ?thesis by (rule walkRecords_accepts [OF walk])
qed

text \<open>C25: Every damaged byte of an image is noticed. If \<open>restore\<close> accepts an image, then after a
change of any one byte of it (header, identifiers, frame headers, payloads or checksums), on any
machine and for any valid store, \<open>restore\<close> fails and leaves the store alone, and \<open>inspectImage\<close>
reports a failure too.\<close>

theorem damaged_image_rejected:
  assumes "valid_store fl s" "restore fl m im s = (s', r)" "succeeded r"
    and "im_size im \<le> length (im_data im)" "k < im_size im" "b \<noteq> im_data im ! k" "valid_store fl t"
  shows "case restore fl m' (im\<lparr>im_data := (im_data im)[k := b]\<rparr>) t of (t', r') \<Rightarrow>
     \<not> succeeded r' \<and> t' = t
   \<and> \<not> succeeded (inspectImage m' (storage_image_bytes (im\<lparr>im_data := (im_data im)[k := b]\<rparr>)))"
proof -
  let ?im = "im\<lparr>im_data := (im_data im)[k := b]\<rparr>"
  obtain rs where rs: "image_wf rs (storage_image_bytes im)" using restored_image [OF assms(1-3)] by blast
  have bytes: "storage_image_bytes ?im = (storage_image_bytes im)[k := b]" "k < length (storage_image_bytes im)"
    "storage_image_bytes im ! k = im_data im ! k"
    using assms(4,5) by (simp_all add: storage_image_bytes_def take_update_swap)
  have bad: "\<not> image_wf rs' (storage_image_bytes ?im)" for rs'
    using image_byte [OF rs, of rs' k b] bytes assms(6) by auto
  obtain t' r' where res: "restore fl m' ?im t = (t', r')" by fastforce
  have "\<not> succeeded r' \<and> t' = t" using restore_rejects [OF _ assms(7) res] bad by blast
  moreover have "\<not> succeeded (inspectImage m' (storage_image_bytes ?im))"
    using bad inspect_accepts by blast
  ultimately show ?thesis by (simp add: res)
qed

lemma sample_restores:
  "restore sample_floats m' (sample_image m) (ParameterStore sample_floats m')
     = (fst (restore sample_floats m' (sample_image m) (ParameterStore sample_floats m')), walked 3)"
proof -
  obtain t r where out: "restore sample_floats m' (sample_image m) (ParameterStore sample_floats m') = (t, r)"
    by fastforce
  have wf: "image_wf (created_records 1000 f32_45 ModeNormal) (storage_image_bytes (sample_image m))"
    by (simp add: sample_image_bytes created_wf)
  have "list_all (payload_ok sample_floats) (created_records 1000 f32_45 ModeNormal)"
    by (rule created_payload_ok default_validates)+
  then have "succeeded r" using restore_wf(1) [OF wf default_valid out] by blast
  then show ?thesis using restore_wf(3) [OF wf default_valid out] out by simp
qed

lemma sample_image_fields:
  "im_size (sample_image m) = 109" "length (im_data (sample_image m)) = 1024"
  "im_data (sample_image m) ! 0 = 0x50"
proof -
  have im: "sample_image m = \<lparr>im_data = blit (replicate 1024 0) 0 (created_bytes 1000 f32_45 ModeNormal), im_size = 109\<rparr>"
    by (simp add: sample_image_def default_values(1) create_eq ParameterStorageImage_def MaxStorageImageSize_def)
  show "im_size (sample_image m) = 109" "length (im_data (sample_image m)) = 1024" by (simp_all add: im)
  have "created_bytes 1000 f32_45 ModeNormal ! 0 = 0x50"
    by (simp add: created_bytes_def image_header_def header_fields_def StorageImageMagic_def)
  then show "im_data (sample_image m) ! 0 = 0x50" by (simp add: im blit_def nth_append)
qed

theorem damaged_image_rejected_witness:
  "\<not> succeeded (inspectImage Big (storage_image_bytes ((sample_image Little)
       \<lparr>im_data := (im_data (sample_image Little))[0 := 0x51]\<rparr>)))"
  using damaged_image_rejected [OF default_valid sample_restores [of Little Little] _ _ _ _ default_valid,
      of 0 "0x51" Big Big]
  by (simp add: succeeded_def sample_image_fields split: prod.splits)

lemma param_payload_ok:
  assumes "p_validate ReportingInterval a" "p_validate (TemperatureLimit fl) b"
    "p_validate (OperatingModeParameter fl) c" "i \<noteq> PidCount"
  shows "payload_ok fl (param_record i (payload_bytes a b c i))"
  using created_payload_ok [OF assms(1-3)] stored_ids_exhaust [OF assms(4)]
  by (simp add: created_records_def list_all_iff del: payload_ok.simps)

lemma restored_value:
  assumes "image_wf rs (storage_image_bytes im)" "list_all (payload_ok fl) rs" "valid_store fl t"
    and "restore fl m im t = (t', r)" "(j, h, p) \<in> set rs"
    and "precedence (store_source t j) \<le> precedence PersistentStorage"
  shows "succeeded r" "current_value fl m' t' j = payload_value j p"
proof -
  show ok: "succeeded r" using restore_wf(1) [OF assms(1,3,4)] assms(2) by blast
  have "replaced fl m' t t' j p"
    using restore_wf(5) [OF assms(1,3,4) ok, of m'] assms(5) by (auto simp: list_all_iff)
  then show "current_value fl m' t' j = payload_value j p"
    using assms(6) by (simp add: replaced_def)
qed

text \<open>An update changes one parameter. Updating a parameter in any image that \<open>restore\<close> accepts
succeeds, keeps the size, and the updated image restores again: into a store whose sources do not
rank above persistent storage it brings that parameter with the value of the store it was updated
from, and every other parameter with the value the old image would have brought.\<close>

theorem update_then_restore:
  assumes "valid_store fl s0" "restore fl m0 im s0 = (s1, r0)" "succeeded r0"
    and "im_size im \<le> length (im_data im)" "valid_store fl s" "i \<noteq> PidCount" "valid_store fl t"
    and "list_all (\<lambda>j. precedence (store_source t j) \<le> precedence PersistentStorage)
           [PidReportingInterval, PidTemperatureLimit, PidOperatingMode]"
  shows "case update fl m i s im of (im', r) \<Rightarrow>
     r = \<lparr>ps_status = PsOk, recordsProcessed = 1, ps_parameterId = Some i\<rparr> \<and> im_size im' = im_size im
   \<and> (case restore fl m' im' t of (t', r') \<Rightarrow>
        succeeded r' \<and> current_value fl m' t' i = current_value fl m s i
      \<and> list_all (\<lambda>j. j = i \<or> current_value fl m' t' j = current_value fl m' (fst (restore fl m' im t)) j)
           [PidReportingInterval, PidTemperatureLimit, PidOperatingMode])"
  using assms(5)
proof (rule valid_storeE)
  fix a b c ss g
  assume s: "s = store_of a b c ss g" "length ss = 3" "p_validate ReportingInterval a"
    "p_validate (TemperatureLimit fl) b" "p_validate (OperatingModeParameter fl) c"
  obtain rs where wf: "image_wf rs (storage_image_bytes im)" and ok: "list_all (payload_ok fl) rs"
    using restored_image [OF assms(1-3)] by blast
  obtain rs1 h p rs2 where rs: "rs = rs1 @ (i, h, p) # rs2" "i \<notin> set (map fst rs1)" "i \<notin> set (map fst rs2)"
    using image_record_at [OF wf assms(6)] by blast
  let ?rs' = "rs1 @ param_record i (payload_bytes a b c i) # rs2"
  have "length p = encodedPayloadSize fl i" using ok by (simp add: rs(1))
  then obtain im' where upd: "update fl m i s im = (im', at_record PsOk 1 i)" "im_size im' = im_size im"
    and wf': "image_wf ?rs' (storage_image_bytes im')"
    using update_wf [OF wf [unfolded rs(1)] assms(6) rs(2,3) assms(4)] s(1) by metis
  have ok': "list_all (payload_ok fl) ?rs'"
    using ok param_payload_ok [OF s(3-5) assms(6)] by (simp add: rs(1) del: payload_ok.simps)
  obtain t' r' where res: "restore fl m' im' t = (t', r')" by fastforce
  obtain t0 q where res0: "restore fl m' im t = (t0, q)" by fastforce
  have low: "precedence (store_source t j) \<le> precedence PersistentStorage" if "j \<in> set stored_ids" for j
    using assms(8) that by (auto simp: stored_ids_def)
  obtain h' where "param_record i (payload_bytes a b c i) = (i, h', payload_bytes a b c i)"
    by (simp add: param_record_def)
  then have mem: "(i, h', payload_bytes a b c i) \<in> set ?rs'" by simp
  have own: "succeeded r'" "current_value fl m' t' i = payload_value i (payload_bytes a b c i)"
    by (rule restored_value [OF wf' ok' assms(7) res mem low [OF stored_ids_exhaust [OF assms(6)]]])+
  have other: "current_value fl m' t' j = current_value fl m' t0 j" if "j \<noteq> i" "j \<in> set stored_ids" for j
  proof -
    have "j \<in> set (map fst rs)" using image_ids [OF wf] that(2) by simp
    then obtain x where x: "x \<in> set rs" "fst x = j" by auto
    obtain h' p' where "x = (j, h', p')" using x(2) by (cases x) simp
    then have "(j, h', p') \<in> set rs1 \<union> set rs2" using x(1) that(1) by (auto simp: rs(1))
    then have "(j, h', p') \<in> set rs" "(j, h', p') \<in> set ?rs'" by (auto simp: rs(1))
    then show ?thesis
      using restored_value(2) [OF wf ok assms(7) res0] restored_value(2) [OF wf' ok' assms(7) res] low [OF that(2)]
      by metis
  qed
  have "current_value fl m' t' i = current_value fl m s i"
    using own(2) payload_value_created [OF assms(6), of a b c fl m ss g] by (simp add: s(1))
  then show ?thesis
    using own(1) other by (auto simp: upd res res0 at_record_def stored_ids_def)
qed

theorem update_then_restore_witness:
  "case update sample_floats Little PidOperatingMode (ParameterStore sample_floats Little) (sample_image Little) of
     (im', r) \<Rightarrow> ps_status r = PsOk
     \<and> succeeded (snd (restore sample_floats Big im' (ParameterStore sample_floats Big)))"
  using update_then_restore [where fl = sample_floats and s = "ParameterStore sample_floats Little"
      and i = PidOperatingMode and im = "sample_image Little" and t = "ParameterStore sample_floats Big"
      and m = Little and m' = Big,
      OF default_valid sample_restores [of Little Little] _ _ default_valid _ default_valid]
  by (simp add: sample_image_fields default_values(1) store_source_def toIndex_def precedence_def
      succeeded_def split: prod.splits)

text \<open>The rejected and the kept cases of the corruption tool.\<close>

lemma reporting_at_first:
  assumes "image_wf rs img" "list_all (payload_ok fl) rs"
  obtains rs1 h p rs2 where "rs = rs1 @ (PidReportingInterval, h, p) # rs2"
    "PidReportingInterval \<notin> set (map fst rs1)" "PidReportingInterval \<notin> set (map fst rs2)" "length p = 4"
proof -
  obtain rs1 h p rs2 where "rs = rs1 @ (PidReportingInterval, h, p) # rs2"
    "PidReportingInterval \<notin> set (map fst rs1)" "PidReportingInterval \<notin> set (map fst rs2)"
    using image_record_at [OF assms(1), of PidReportingInterval] by blast
  moreover from this have "length p = 4" using assms(2) by (simp add: encodedPayloadSize_def)
  ultimately show ?thesis by (rule that)
qed

lemma corruption_leaves_format:
  assumes wf: "image_wf rs img" and ok: "list_all (payload_ok fl) rs"
    and out: "corruptImage m img mode = (True, img')" and wf': "image_wf rs' img'"
  shows "\<not> list_all (payload_ok fl) rs'"
proof -
  have len: "10 \<le> length img" using wf by (simp add: image_wf_def)
  obtain rs1 h p rs2 where rs: "rs = rs1 @ (PidReportingInterval, h, p) # rs2"
    and fresh: "PidReportingInterval \<notin> set (map fst rs1)" "PidReportingInterval \<notin> set (map fst rs2)"
    and p: "length p = 4" using reporting_at_first [OF wf ok] by blast
  note found = findRecord_at [OF wf [unfolded rs] fresh, of m]
  let ?off = "12 + length (concat (map rec_bytes rs1))"
  have size: "?off + 32 \<le> length img" using p by (simp add: image_split [OF wf [unfolded rs]])
  note defs = corruptImage_def StorageImageHeaderWireSize_def MessageHeaderV1WireSize_def
  have flip: False if "img' = img[k := img ! k XOR 1]" "k < length img" for k
    using image_byte [OF wf, of rs' k] wf' that xor_one_differs by metis
  show ?thesis
  proof (cases mode)
    case BadMagic
    then have "img' = img[0 := img ! 0 XOR 1]" using out len by (simp add: defs not_less)
    moreover have "0 < length img" using len by linarith
    ultimately show ?thesis using flip by blast
  next
    case BadHeaderCrc
    then have "img' = img[8 := img ! 8 XOR 1]" using out len by (simp add: defs not_less)
    then show ?thesis using flip [of 8] len by simp
  next
    case BadVersion
    then have "img' = blit img 4 (mem_bytes Little 2 (99 :: u16))"
      using out len by (simp add: defs image_write_eq not_less)
    then show ?thesis using header_overwritten [OF wf, of rs' 99] wf' by (simp add: StorageImageVersion_def)
  next
    case Truncate
    then show ?thesis using out by (simp add: defs split: if_splits)
  next
    case BadPayload
    then have "img' = img[?off + 28 := img ! (?off + 28) XOR 1]"
      using out len by (simp add: defs found not_less Let_def)
    moreover have "?off + 28 < length img" using size by linarith
    ultimately show ?thesis using flip by blast
  next
    case CorruptUnknownParameter
    then have "img' = blit img (?off - 2) (mem_bytes Little 2 (0xffff :: u16))"
      using out len size by (simp add: defs found not_less image_write_eq)
    then have "(0xffff :: u16) = of_nat (toIndex PidReportingInterval)"
      using wf' by (intro id_overwritten [OF wf [unfolded rs]]) simp
    then show ?thesis by (simp add: toIndex_def)
  next
    case CorruptDuplicateParameter
    obtain rs3 h2 p2 rs4 where rs2: "rs = rs3 @ (PidTemperatureLimit, h2, p2) # rs4"
      "PidTemperatureLimit \<notin> set (map fst rs3)" "PidTemperatureLimit \<notin> set (map fst rs4)"
      using image_record_at [OF wf, of PidTemperatureLimit] by blast
    have "12 + length (concat (map rec_bytes rs3)) \<le> length img"
      by (simp add: image_split [OF wf [unfolded rs2(1)]])
    then have "img' = blit img (10 + length (concat (map rec_bytes rs3))) (mem_bytes Little 2 (0 :: u16))"
      using CorruptDuplicateParameter out len
      by (simp add: defs found findRecord_at [OF wf [unfolded rs2(1)] rs2(2,3)] not_less image_write_eq toIndex_def)
    then have "(0 :: u16) = of_nat (toIndex PidTemperatureLimit)"
      using wf' by (intro id_overwritten [OF wf [unfolded rs2(1)]]) simp
    then show ?thesis by (simp add: toIndex_def)
  next
    case CorruptTypeMismatch
    then obtain h' p' where new: "image_wf (rs1 @ (PidReportingInterval, h', p') # rs2) img'"
      "messageType h' = message_code MsgFloat32"
      using corrupt_rewrites [OF wf [unfolded rs] refl fresh _ out] by metis
    have "rs' = rs1 @ (PidReportingInterval, h', p') # rs2" by (rule image_unique [OF wf' new(1)])
    then show ?thesis using new(2) by (simp add: message_code_def expectedMessageType_def)
  next
    case CorruptInvalidValue
    then obtain h' p' where new: "image_wf (rs1 @ (PidReportingInterval, h', p') # rs2) img'"
      "p' = replicate (length p) 0"
      using corrupt_rewrites [OF wf [unfolded rs] refl fresh _ out] by metis
    have "rs' = rs1 @ (PidReportingInterval, h', p') # rs2" by (rule image_unique [OF wf' new(1)])
    moreover have "(mem_word Little (replicate 4 0) :: u32) = 0"
      by (simp add: mem_word_def numeral_eq_Suc)
    ultimately show ?thesis using new(2) p
      by (simp add: payload_value_def ReportingInterval_def)
  qed
qed

text \<open>Whatever the corruption tool does to an image is noticed: if \<open>corruptImage\<close> reports that it
applied a mode (wrong magic, version or header checksum, damaged payload, unknown or duplicate
identifier, wrong message type, invalid value, the last two with all checksums recomputed), then
restoring the result fails and leaves the store as it was.\<close>

theorem corruption_detected:
  assumes "valid_store fl s" "restore fl m im s = (s', r)" "succeeded r"
    and "corruptImage m' (storage_image_bytes im) mode = (True, img')" "storage_image_bytes im' = img'" "valid_store fl t"
  shows "case restore fl m'' im' t of (t', r') \<Rightarrow> \<not> succeeded r' \<and> t' = t"
proof -
  obtain rs where rs: "image_wf rs (storage_image_bytes im)" "list_all (payload_ok fl) rs"
    using restored_image [OF assms(1-3)] by blast
  obtain t' r' where res: "restore fl m'' im' t = (t', r')" by fastforce
  have "\<not> succeeded r' \<and> t' = t"
    using corruption_leaves_format [OF rs assms(4)] assms(5)
    by (intro restore_rejects [OF _ assms(6) res]) blast
  then show ?thesis by (simp add: res)
qed

theorem corruption_detected_witness:
  "case restore sample_floats Big
       \<lparr>im_data = snd (corruptImage Little (created_bytes 1000 f32_45 ModeNormal) BadMagic), im_size = 109\<rparr>
       (ParameterStore sample_floats Big) of (t', r') \<Rightarrow>
     \<not> succeeded r' \<and> t' = ParameterStore sample_floats Big"
proof (rule corruption_detected [OF default_valid sample_restores [of Little Little], of Little BadMagic])
  show "succeeded (walked 3)" by (simp add: succeeded_def)
  show "corruptImage Little (storage_image_bytes (sample_image Little)) BadMagic
      = (True, snd (corruptImage Little (created_bytes 1000 f32_45 ModeNormal) BadMagic))"
    by (simp add: sample_image_bytes corruptImage_def StorageImageHeaderWireSize_def)
  show "storage_image_bytes \<lparr>im_data = snd (corruptImage Little (created_bytes 1000 f32_45 ModeNormal) BadMagic), im_size = 109\<rparr>
      = snd (corruptImage Little (created_bytes 1000 f32_45 ModeNormal) BadMagic)"
    by (simp add: storage_image_bytes_def corruptImage_def StorageImageHeaderWireSize_def)
qed (rule default_valid)

end
