(* ===== verification/ImageFile.thy ===== *)
theory ImageFile
  imports ImageIntegrity
begin

text \<open>
  The file operations of \<open>ParameterStorageImage.cpp\<close>: reading an image file and replacing it
  atomically. The operating system is a parameter: a record of calls on a world of any type. The
  two loops retry an interrupted call without bound, so that they are partial functions: \<open>None\<close>
  means that the call never returns.
\<close>

section \<open>System calls\<close>

datatype file_errno = NoSuchFile | Interrupted | OtherFileError

record 'w file_os =
  fo_open_read :: "string \<Rightarrow> 'w \<Rightarrow> 'w \<times> (file_errno + int)"
  fo_create :: "string \<Rightarrow> 'w \<Rightarrow> 'w \<times> (file_errno + int)"
  fo_open_dir :: "string \<Rightarrow> 'w \<Rightarrow> 'w \<times> (file_errno + int)"
  fo_read :: "int \<Rightarrow> nat \<Rightarrow> 'w \<Rightarrow> 'w \<times> (file_errno + bytes)"
  fo_write :: "int \<Rightarrow> bytes \<Rightarrow> 'w \<Rightarrow> 'w \<times> (file_errno + nat)"
  fo_fsync :: "int \<Rightarrow> 'w \<Rightarrow> 'w \<times> bool"
  fo_close :: "int \<Rightarrow> 'w \<Rightarrow> 'w \<times> bool"
  fo_rename :: "string \<Rightarrow> string \<Rightarrow> 'w \<Rightarrow> 'w \<times> bool"
  fo_remove :: "string \<Rightarrow> 'w \<Rightarrow> 'w"

datatype WriteFault = NoFault | BeforeRename

text \<open>\<open>std::filesystem::path::parent_path\<close> of a POSIX path.\<close>

definition parent_path :: "string \<Rightarrow> string" where
  "parent_path p =
     (let upto = dropWhile (\<lambda>c. c \<noteq> CHR ''/'') (rev p);
          stripped = rev (dropWhile (\<lambda>c. c = CHR ''/'') upto)
      in if upto = [] then [] else if stripped = [] then ''/'' else stripped)"

section \<open>Operations\<close>

partial_function (option) writeAll ::
  "'w file_os \<Rightarrow> int \<Rightarrow> bytes \<Rightarrow> nat \<Rightarrow> 'w \<Rightarrow> ('w \<times> bool) option" where
  "writeAll os descriptor bs n w =
     (if n < length bs
      then let (w1, result) = fo_write os descriptor (drop n bs) w
           in case result of
                Inl e \<Rightarrow> if e = Interrupted then writeAll os descriptor bs n w1 else Some (w1, False)
              | Inr count \<Rightarrow> if count = 0 then Some (w1, False)
                             else writeAll os descriptor bs (n + count) w1
      else Some (w, True))"

partial_function (option) readAll ::
  "'w file_os \<Rightarrow> int \<Rightarrow> bytes \<Rightarrow> 'w \<Rightarrow> ('w \<times> bytes option) option" where
  "readAll os descriptor got w =
     (if length got < MaxStorageImageSize + 1
      then let (w1, result) = fo_read os descriptor (MaxStorageImageSize + 1 - length got) w
           in case result of
                Inl e \<Rightarrow> if e = Interrupted then readAll os descriptor got w1 else Some (w1, None)
              | Inr bs \<Rightarrow> if bs = [] then Some (w1, Some got) else readAll os descriptor (got @ bs) w1
      else Some (w, Some got))"

definition readImageFile ::
  "'w file_os \<Rightarrow> string \<Rightarrow> storage_image \<Rightarrow> 'w \<Rightarrow> ('w \<times> storage_image \<times> PersistenceResult) option"
where
  "readImageFile os path im w =
     (let (w1, opened) = fo_open_read os path w
      in case opened of
           Inl e \<Rightarrow> Some (w1, im, ps_result (if e = NoSuchFile then ImageNotFound else OpenFailed))
         | Inr descriptor \<Rightarrow>
             (case readAll os descriptor [] w1 of
                None \<Rightarrow> None
              | Some (w2, None) \<Rightarrow> Some (fst (fo_close os descriptor w2), im, ps_result ReadFailed)
              | Some (w2, Some bs) \<Rightarrow>
                  let (w3, closed) = fo_close os descriptor w2
                  in if \<not> closed then Some (w3, im, ps_result ReadFailed)
                     else if length bs > MaxStorageImageSize then Some (w3, im, ps_result ImageFull)
                     else let (im', r) = assign bs im in Some (w3, im', r)))"

definition temporaryName :: "string \<Rightarrow> string" where "temporaryName path = path @ ''.tmp''"

text \<open>\<open>&&\<close> calls \<open>fsync\<close> only after a complete write.\<close>

definition writeImageFileAtomically ::
  "'w file_os \<Rightarrow> string \<Rightarrow> bytes \<Rightarrow> WriteFault \<Rightarrow> 'w \<Rightarrow> ('w \<times> PersistenceResult) option" where
  "writeImageFileAtomically os path snapshot fault w =
     (if snapshot = [] \<or> length snapshot > MaxStorageImageSize then Some (w, ps_result WriteFailed)
      else let temporary = temporaryName path;
               (w1, opened) = fo_create os temporary w
      in case opened of
           Inl _ \<Rightarrow> Some (w1, ps_result OpenFailed)
         | Inr descriptor \<Rightarrow>
             (case writeAll os descriptor snapshot 0 w1 of
                None \<Rightarrow> None
              | Some (w2, complete) \<Rightarrow>
                  let (w3, synchronized) = (if complete then fo_fsync os descriptor w2 else (w2, False));
                      (w4, closed) = fo_close os descriptor w3
                  in if \<not> complete \<or> \<not> synchronized \<or> \<not> closed \<or> fault = BeforeRename
                     then Some (fo_remove os temporary w4, ps_result WriteFailed)
                     else let (w5, renamed) = fo_rename os temporary path w4
                          in if \<not> renamed then Some (fo_remove os temporary w5, ps_result ReplaceFailed)
                     else let parent = parent_path path;
                              directory = (if parent = [] then ''.'' else parent);
                              (w6, dirOpened) = fo_open_dir os directory w5
                          in case dirOpened of
                               Inl _ \<Rightarrow> Some (w6, ps_result ReplaceFailed)
                             | Inr directoryDescriptor \<Rightarrow>
                                 let (w7, directorySynchronized) = fo_fsync os directoryDescriptor w6;
                                     (w8, directoryClosed) = fo_close os directoryDescriptor w7
                                 in Some (w8, ps_result (if directorySynchronized \<and> directoryClosed
                                                         then PsOk else ReplaceFailed))))"

section \<open>What POSIX promises\<close>

text \<open>
  \<open>versions w p\<close> lists the contents the file \<open>p\<close> has had so far (\<open>None\<close>: there is no such file), the
  present one last; \<open>opened w fd\<close> is the file behind a descriptor for writing. The calls add a
  version as POSIX documents them: creating truncates, a write appends, a rename replaces the target
  in one step.
\<close>

definition now :: "bytes option list \<Rightarrow> bytes option" where
  "now vs = (if vs = [] then None else last vs)"

definition create_law :: "'w file_os \<Rightarrow> ('w \<Rightarrow> string \<Rightarrow> bytes option list) \<Rightarrow> ('w \<Rightarrow> int \<Rightarrow> string option) \<Rightarrow> bool" where
  "create_law os versions opened \<longleftrightarrow> (\<forall>p w. case fo_create os p w of
        (w', Inl _) \<Rightarrow> versions w' = versions w
      | (w', Inr fd) \<Rightarrow> versions w' = (versions w)(p := versions w p @ [Some []]) \<and> opened w' fd = Some p)"

definition write_law :: "'w file_os \<Rightarrow> ('w \<Rightarrow> string \<Rightarrow> bytes option list) \<Rightarrow> ('w \<Rightarrow> int \<Rightarrow> string option) \<Rightarrow> bool" where
  "write_law os versions opened \<longleftrightarrow> (\<forall>fd bs w p. opened w fd = Some p \<longrightarrow>
      (case fo_write os fd bs w of
        (w', Inl _) \<Rightarrow> versions w' = versions w \<and> opened w' = opened w
      | (w', Inr n) \<Rightarrow> opened w' = opened w \<and> n \<le> length bs
          \<and> versions w' = (if n = 0 then versions w else (versions w)(p := versions w p @
                       [map_option (\<lambda>old. old @ take n bs) (now (versions w p))]))))"

definition silent_law :: "'w file_os \<Rightarrow> ('w \<Rightarrow> string \<Rightarrow> bytes option list) \<Rightarrow> bool" where
  "silent_law os versions \<longleftrightarrow> (\<forall>fd w. versions (fst (fo_fsync os fd w)) = versions w)
     \<and> (\<forall>fd w. versions (fst (fo_close os fd w)) = versions w)
     \<and> (\<forall>p w. versions (fst (fo_open_dir os p w)) = versions w)"

definition rename_law :: "'w file_os \<Rightarrow> ('w \<Rightarrow> string \<Rightarrow> bytes option list) \<Rightarrow> bool" where
  "rename_law os versions \<longleftrightarrow> (\<forall>p q w. p \<noteq> q \<longrightarrow> (case fo_rename os p q w of (w', renamed) \<Rightarrow>
        versions w' = (if renamed
        then (versions w)(q := versions w q @ [now (versions w p)], p := versions w p @ [None])
        else versions w)))"

definition remove_law :: "'w file_os \<Rightarrow> ('w \<Rightarrow> string \<Rightarrow> bytes option list) \<Rightarrow> bool" where
  "remove_law os versions \<longleftrightarrow> (\<forall>p w. versions (fo_remove os p w) = versions w
        \<or> versions (fo_remove os p w) = (versions w)(p := versions w p @ [None]))"

definition posix_files ::
  "'w file_os \<Rightarrow> ('w \<Rightarrow> string \<Rightarrow> bytes option list) \<Rightarrow> ('w \<Rightarrow> int \<Rightarrow> string option) \<Rightarrow> bool" where
  "posix_files os versions opened \<longleftrightarrow> create_law os versions opened \<and> write_law os versions opened
     \<and> silent_law os versions \<and> rename_law os versions \<and> remove_law os versions"

lemma posix_create:
  assumes "posix_files os versions opened" "fo_create os p w = (w', r)"
  shows "case r of Inl _ \<Rightarrow> versions w' = versions w
    | Inr fd \<Rightarrow> versions w' = (versions w)(p := versions w p @ [Some []]) \<and> opened w' fd = Some p"
proof -
  have "create_law os versions opened" using assms(1) by (simp add: posix_files_def)
  from this [unfolded create_law_def, THEN spec [of _ p], THEN spec [of _ w]] show ?thesis
    unfolding assms(2) by (cases r) simp_all
qed

lemma posix_write:
  assumes "posix_files os versions opened" "fo_write os fd bs w = (w', r)" "opened w fd = Some p"
  shows "opened w' = opened w"
    and "case r of Inl _ \<Rightarrow> versions w' = versions w
    | Inr n \<Rightarrow> n \<le> length bs \<and> versions w' = (if n = 0 then versions w else (versions w)(p := versions w p @
               [map_option (\<lambda>old. old @ take n bs) (now (versions w p))]))"
proof -
  have "write_law os versions opened" using assms(1) by (simp add: posix_files_def)
  from this [unfolded write_law_def, rule_format, OF assms(3), of bs]
  show "opened w' = opened w"
    and "case r of Inl _ \<Rightarrow> versions w' = versions w
    | Inr n \<Rightarrow> n \<le> length bs \<and> versions w' = (if n = 0 then versions w else (versions w)(p := versions w p @
               [map_option (\<lambda>old. old @ take n bs) (now (versions w p))]))"
    unfolding assms(2) by (cases r; simp)+
qed

lemma posix_silent:
  assumes "posix_files os versions opened"
  shows "versions (fst (fo_fsync os fd w)) = versions w" "versions (fst (fo_close os fd w)) = versions w"
    "versions (fst (fo_open_dir os p w)) = versions w"
  using assms by (simp_all add: posix_files_def silent_law_def)

lemma posix_remove:
  assumes "posix_files os versions opened"
  shows "versions (fo_remove os p w) = versions w
       \<or> versions (fo_remove os p w) = (versions w)(p := versions w p @ [None])"
  using assms by (simp add: posix_files_def remove_law_def)

lemma posix_rename:
  assumes "posix_files os versions opened" "fo_rename os p q w = (w', renamed)" "p \<noteq> q"
  shows "versions w' = (if renamed
     then (versions w)(q := versions w q @ [now (versions w p)], p := versions w p @ [None])
     else versions w)"
proof -
  have "rename_law os versions" using assms(1) by (simp add: posix_files_def)
  from this [unfolded rename_law_def, rule_format, OF assms(3), of w] show ?thesis by (simp add: assms(2))
qed

section \<open>Writing a file\<close>

text \<open>While the temporary file is written, no other file changes; a complete write leaves all bytes.\<close>

definition only_file :: "('w \<Rightarrow> string \<Rightarrow> bytes option list) \<Rightarrow> 'w \<Rightarrow> 'w \<Rightarrow> string \<Rightarrow> bool" where
  "only_file versions w w' p \<longleftrightarrow> (\<forall>q. q \<noteq> p \<longrightarrow> versions w' q = versions w q)"

lemma only_file_trans: "only_file v w w1 p \<Longrightarrow> only_file v w1 w2 p \<Longrightarrow> only_file v w w2 p"
  by (simp add: only_file_def)

lemma write_step:
  assumes "posix_files os versions opened" "fo_write os fd (drop n bs) w = (w', r)" "opened w fd = Some p"
    and "now (versions w p) = Some (take n bs)"
  shows "opened w' fd = Some p" "only_file versions w w' p"
    "case r of Inl _ \<Rightarrow> now (versions w' p) = Some (take n bs)
     | Inr k \<Rightarrow> now (versions w' p) = Some (take (n + k) bs)"
proof -
  note step = posix_write [OF assms(1-3)]
  show "opened w' fd = Some p" using step(1) assms(3) by simp
  show "only_file versions w w' p"
    using step(2) by (auto simp: only_file_def split: sum.splits if_splits)
  show "case r of Inl _ \<Rightarrow> now (versions w' p) = Some (take n bs)
     | Inr k \<Rightarrow> now (versions w' p) = Some (take (n + k) bs)"
    using step(2) assms(4) by (auto simp: now_def take_add split: sum.splits if_splits)
qed

lemma writeAll_outcome:
  assumes "writeAll os fd bs n w = Some r"
  shows "posix_files os versions opened \<longrightarrow> opened w fd = Some p \<longrightarrow>
     now (versions w p) = Some (take n bs) \<longrightarrow>
     only_file versions w (fst r) p \<and> (snd r \<longrightarrow> now (versions (fst r) p) = Some bs)"
  using assms
proof (rule writeAll.raw_induct [where P = "\<lambda>os fd bs n w r.
    posix_files os versions opened \<longrightarrow> opened w fd = Some p \<longrightarrow>
     now (versions w p) = Some (take n bs) \<longrightarrow>
     only_file versions w (fst r) p \<and> (snd r \<longrightarrow> now (versions (fst r) p) = Some bs)", rotated])
  fix W os fd bs n w r
  assume IH: "\<And>os fd bs n w r. W os fd bs n w = Some r \<Longrightarrow>
      posix_files os versions opened \<longrightarrow> opened w fd = Some p \<longrightarrow>
     now (versions w p) = Some (take n bs) \<longrightarrow>
     only_file versions w (fst r) p \<and> (snd r \<longrightarrow> now (versions (fst r) p) = Some bs)"
    and body: "(if n < length bs
      then let (w1, result) = fo_write os fd (drop n bs) w
           in case result of
                Inl e \<Rightarrow> if e = Interrupted then W os fd bs n w1 else Some (w1, False)
              | Inr count \<Rightarrow> if count = 0 then Some (w1, False) else W os fd bs (n + count) w1
      else Some (w, True)) = Some r"
  show "posix_files os versions opened \<longrightarrow> opened w fd = Some p \<longrightarrow>
     now (versions w p) = Some (take n bs) \<longrightarrow>
     only_file versions w (fst r) p \<and> (snd r \<longrightarrow> now (versions (fst r) p) = Some bs)"
  proof (intro impI)
    assume posix: "posix_files os versions opened" and fd: "opened w fd = Some p"
      and cont: "now (versions w p) = Some (take n bs)"
    obtain w1 res where wr: "fo_write os fd (drop n bs) w = (w1, res)" by fastforce
    note step = write_step [OF posix wr fd cont]
    show "only_file versions w (fst r) p \<and> (snd r \<longrightarrow> now (versions (fst r) p) = Some bs)"
      using body step cont posix IH only_file_trans [OF step(2)]
      by (auto simp: wr only_file_def split: if_splits sum.splits)
  qed
qed


lemma temporaryName_other: "temporaryName path \<noteq> path" "path \<noteq> temporaryName path"
  by (simp_all add: temporaryName_def)

lemma only_file_silent:
  assumes "posix_files os versions opened"
  shows "only_file versions w (fst (fo_fsync os fd w)) p" "only_file versions w (fst (fo_close os fd w)) p"
    "only_file versions w (fst (fo_open_dir os q w)) p" "only_file versions w (fo_remove os p w) p"
  using posix_silent [OF assms] posix_remove [OF assms, of p w] by (auto simp: only_file_def)

lemma write_temporary:
  assumes "posix_files os versions opened" "fo_create os p w = (w1, Inr fd)"
    and "writeAll os fd bs 0 w1 = Some (w2, complete)"
  shows "only_file versions w w2 p" "complete \<Longrightarrow> now (versions w2 p) = Some bs"
proof -
  have made: "versions w1 = (versions w)(p := versions w p @ [Some []])" "opened w1 fd = Some p"
    using posix_create [OF assms(1,2)] by simp_all
  have "only_file versions w1 w2 p \<and> (complete \<longrightarrow> now (versions w2 p) = Some bs)"
    using writeAll_outcome [OF assms(3), of versions opened p] assms(1) made
    by (simp add: now_def)
  then show "only_file versions w w2 p" "complete \<Longrightarrow> now (versions w2 p) = Some bs"
    by (simp_all add: only_file_def made)
qed

text \<open>The steps after the temporary file has been written and closed.\<close>

lemma replace_step:
  assumes "posix_files os versions opened" "fo_rename os (temporaryName path) path w = (w', renamed)"
    and "now (versions w (temporaryName path)) = Some snapshot"
  shows "versions w' path = (if renamed then versions w path @ [Some snapshot] else versions w path)"
    and "q \<noteq> path \<Longrightarrow> q \<noteq> temporaryName path \<Longrightarrow> versions w' q = versions w q"
  using posix_rename [OF assms(1,2)] assms(3) by (auto simp: temporaryName_other)

definition replaced_or_kept ::
  "('w \<Rightarrow> string \<Rightarrow> bytes option list) \<Rightarrow> 'w \<Rightarrow> 'w \<Rightarrow> string \<Rightarrow> bytes \<Rightarrow> WriteFault \<Rightarrow> PersistenceResult \<Rightarrow> bool" where
  "replaced_or_kept versions w w' path snapshot fault r \<longleftrightarrow>
     (versions w' path = versions w path \<and> \<not> succeeded r
      \<or> versions w' path = versions w path @ [Some snapshot] \<and> fault = NoFault
        \<and> snapshot \<noteq> [] \<and> length snapshot \<le> MaxStorageImageSize
        \<and> (succeeded r \<or> ps_status r = ReplaceFailed))
     \<and> (\<forall>q. q \<noteq> path \<longrightarrow> q \<noteq> temporaryName path \<longrightarrow> versions w' q = versions w q)"

lemma replaced_or_kept_kept:
  "only_file versions w w' (temporaryName path) \<Longrightarrow> \<not> succeeded r
   \<Longrightarrow> replaced_or_kept versions w w' path snapshot fault r"
  by (simp add: replaced_or_kept_def only_file_def temporaryName_other)

lemma failure_result [simp]: "st \<noteq> PsOk \<Longrightarrow> \<not> succeeded (ps_result st)" "ps_status (ps_result st) = st"
  by (simp_all add: succeeded_def ps_result_def)

lemma write_closed:
  assumes "posix_files os versions opened" "only_file versions w w2 p" "complete \<Longrightarrow> now (versions w2 p) = Some bs"
    and "(if complete then fo_fsync os fd w2 else (w2, False)) = (w3, synchronized)"
    and "fo_close os fd w3 = (w4, closed)"
  shows "only_file versions w w4 p" "complete \<Longrightarrow> now (versions w4 p) = Some bs"
proof -
  have "versions w3 = versions w2" "versions w4 = versions w3"
    using posix_silent(1) [OF assms(1), of fd w2] posix_silent(2) [OF assms(1), of fd w3] assms(4,5)
    by (auto split: if_splits)
  then show "only_file versions w w4 p" "complete \<Longrightarrow> now (versions w4 p) = Some bs"
    using assms(2,3) by (simp_all add: only_file_def)
qed

lemma written_outcome:
  assumes posix: "posix_files os versions opened"
    and run: "writeImageFileAtomically os path snapshot fault w = Some (w', r)"
    and opened: "fo_create os (temporaryName path) w = (w1, Inr fd)"
    and snap: "snapshot \<noteq> []" "length snapshot \<le> MaxStorageImageSize"
  shows "replaced_or_kept versions w w' path snapshot fault r"
proof -
  let ?t = "temporaryName path"
  obtain w2 complete where all: "writeAll os fd snapshot 0 w1 = Some (w2, complete)"
    using run snap by (cases "writeAll os fd snapshot 0 w1")
      (auto simp: writeImageFileAtomically_def Let_def opened)
  obtain w3 synchronized where sync: "(if complete then fo_fsync os fd w2 else (w2, False)) = (w3, synchronized)"
    by fastforce
  obtain w4 closed where close: "fo_close os fd w3 = (w4, closed)" by fastforce
  obtain w5 renamed where ren: "fo_rename os ?t path w4 = (w5, renamed)" by fastforce
  obtain w6 dirOpened where dir: "fo_open_dir os (if parent_path path = [] then ''.'' else parent_path path) w5 = (w6, dirOpened)"
    by fastforce
  note tmp = write_temporary [OF posix opened all]
  note kept = write_closed [OF posix tmp sync close]
  note body = run [unfolded writeImageFileAtomically_def Let_def opened prod.case sum.case all option.case
      sync close ren dir]
  show ?thesis
  proof (cases "\<not> complete \<or> \<not> synchronized \<or> \<not> closed \<or> fault = BeforeRename")
    case True
    then have "w' = fo_remove os ?t w4" "r = ps_result WriteFailed" using body snap by auto
    then show ?thesis
      using only_file_trans [OF kept(1) only_file_silent(4) [OF posix]] by (simp add: replaced_or_kept_kept)
  next
    case False
    then have fault: "fault = NoFault" and complete: "complete" by (cases fault; simp)+
    note step = replace_step [OF posix ren kept(2) [OF complete]]
    show ?thesis
    proof (cases renamed)
      case False': False
      then have "w' = fo_remove os ?t w5" "r = ps_result ReplaceFailed" using body snap False by auto
      moreover have "only_file versions w w5 ?t"
        using kept(1) posix_rename [OF posix ren temporaryName_other(1)] False' by (simp add: only_file_def)
      ultimately show ?thesis
        using only_file_trans [OF _ only_file_silent(4) [OF posix]] by (simp add: replaced_or_kept_kept)
    next
      case True
      have w6: "versions w6 = versions w5" using posix_silent(3) [OF posix] dir by (metis fst_conv)
      have "versions w' = versions w6 \<and> (succeeded r \<or> ps_status r = ReplaceFailed)"
        using body snap False True posix_silent(1,2) [OF posix]
        by (auto simp: Let_def split_beta succeeded_def split: sum.splits if_splits)
      then show ?thesis
        using step True complete kept(1) fault w6 snap by (simp add: replaced_or_kept_def only_file_def temporaryName_other)
    qed
  qed
qed

lemma atomic_replace_lemma:
  assumes "posix_files os versions opened"
    and "writeImageFileAtomically os path snapshot fault w = Some (w', r)"
  shows "replaced_or_kept versions w w' path snapshot fault r"
proof (cases "snapshot = [] \<or> length snapshot > MaxStorageImageSize")
  case True
  then have "w' = w \<and> \<not> succeeded r" using assms(2) by (auto simp: writeImageFileAtomically_def)
  then show ?thesis by (simp add: replaced_or_kept_kept only_file_def)
next
  case False
  obtain w1 res where create: "fo_create os (temporaryName path) w = (w1, res)" by fastforce
  show ?thesis
  proof (cases res)
    case (Inl e)
    have "versions w1 = versions w" using posix_create [OF assms(1) create] Inl by simp
    moreover have "w' = w1 \<and> \<not> succeeded r"
      using assms(2) False Inl create by (auto simp: writeImageFileAtomically_def Let_def)
    ultimately show ?thesis by (simp add: replaced_or_kept_kept only_file_def)
  next
    case (Inr fd)
    with create have "fo_create os (temporaryName path) w = (w1, Inr fd)" by simp
    from written_outcome [OF assms this] False show ?thesis by simp
  qed
qed


text \<open>C14: On any file system that keeps the POSIX promises, \<open>writeImageFileAtomically\<close> is atomic: when it
  returns, the target file has either had no new content at all, or exactly one new version, which is
  the whole snapshot; it never has a partial one, whatever writes, syncs and renames fail. Success
  means that the snapshot is in place, the \<open>BeforeRename\<close> fault leaves the old file, and no file but
  the target and its \<open>.tmp\<close> neighbour is touched.\<close>

theorem atomic_replace:
  assumes "posix_files os versions opened"
    and "writeImageFileAtomically os path snapshot fault w = Some (w', r)"
  shows "replaced_or_kept versions w w' path snapshot fault r"
  using assms by (rule atomic_replace_lemma)

text \<open>A file system in memory that writes and reads at most two bytes a call.\<close>

record mem_files =
  mf_versions :: "string \<Rightarrow> bytes option list"
  mf_writing :: "string option"
  mf_reading :: "bytes option"

definition mem_open_read :: "string \<Rightarrow> mem_files \<Rightarrow> mem_files \<times> (file_errno + int)" where
  "mem_open_read p w = (case now (mf_versions w p) of None \<Rightarrow> (w, Inl NoSuchFile)
     | Some c \<Rightarrow> (w\<lparr>mf_reading := Some c\<rparr>, Inr 4))"

definition mem_create :: "string \<Rightarrow> mem_files \<Rightarrow> mem_files \<times> (file_errno + int)" where
  "mem_create p w = (w\<lparr>mf_versions := (mf_versions w)(p := mf_versions w p @ [Some []]), mf_writing := Some p\<rparr>, Inr 3)"

definition mem_read :: "int \<Rightarrow> nat \<Rightarrow> mem_files \<Rightarrow> mem_files \<times> (file_errno + bytes)" where
  "mem_read fd n w = (case mf_reading w of Some rest \<Rightarrow>
       (w\<lparr>mf_reading := Some (drop (min n 2) rest)\<rparr>, Inr (take (min n 2) rest))
     | None \<Rightarrow> (w, Inl OtherFileError))"

definition mem_write :: "int \<Rightarrow> bytes \<Rightarrow> mem_files \<Rightarrow> mem_files \<times> (file_errno + nat)" where
  "mem_write fd bs w = (case mf_writing w of Some p \<Rightarrow> if bs = [] then (w, Inr 0) else
       (w\<lparr>mf_versions := (mf_versions w)(p := mf_versions w p @
            [map_option (\<lambda>old. old @ take 2 bs) (now (mf_versions w p))])\<rparr>, Inr (min 2 (length bs)))
     | None \<Rightarrow> (w, Inl OtherFileError))"

definition mem_rename :: "string \<Rightarrow> string \<Rightarrow> mem_files \<Rightarrow> mem_files \<times> bool" where
  "mem_rename p q w = (w\<lparr>mf_versions := (mf_versions w)(q := mf_versions w q @ [now (mf_versions w p)],
       p := mf_versions w p @ [None])\<rparr>, True)"

definition mem_os :: "mem_files file_os" where
  "mem_os = \<lparr>fo_open_read = mem_open_read, fo_create = mem_create, fo_open_dir = (\<lambda>p w. (w, Inr 5)),
     fo_read = mem_read, fo_write = mem_write, fo_fsync = (\<lambda>fd w. (w, True)), fo_close = (\<lambda>fd w. (w, True)),
     fo_rename = mem_rename,
     fo_remove = (\<lambda>p w. w\<lparr>mf_versions := (mf_versions w)(p := mf_versions w p @ [None])\<rparr>)\<rparr>"

definition mem_start :: mem_files where
  "mem_start = \<lparr>mf_versions = (\<lambda>p. if p = ''a'' then [Some [7, 8, 9]] else []), mf_writing = None, mf_reading = None\<rparr>"

lemma mem_posix: "posix_files mem_os mf_versions (\<lambda>w fd. mf_writing w)"
  by (auto simp: posix_files_def create_law_def write_law_def silent_law_def rename_law_def remove_law_def
      mem_os_def mem_create_def mem_write_def mem_rename_def min_def split: option.splits)

lemmas mem_defs = mem_os_def mem_open_read_def mem_create_def mem_read_def mem_write_def mem_rename_def
  mem_start_def

lemma mem_writeAll:
  "mf_writing w \<noteq> None \<Longrightarrow> \<exists>w'. writeAll mem_os fd bs n w = Some (w', True)"
proof (induction "length bs - n" arbitrary: n w rule: less_induct)
  case less
  show ?case
  proof (cases "n < length bs")
    case True
    obtain p where p: "mf_writing w = Some p" using less.prems by blast
    obtain w1 where wr: "fo_write mem_os fd (drop n bs) w = (w1, Inr (min 2 (length bs - n)))" "mf_writing w1 = Some p"
      using True p by (simp add: mem_os_def mem_write_def)
    have "length bs - (n + min 2 (length bs - n)) < length bs - n" "min 2 (length bs - n) \<noteq> 0"
      using True by linarith+
    then show ?thesis
      using less.hyps [of "n + min 2 (length bs - n)" w1] wr True by (simp add: writeAll.simps [of mem_os fd bs n w])
  qed (simp add: writeAll.simps)
qed

lemma mem_replaces:
  assumes "snapshot \<noteq> []" "length snapshot \<le> MaxStorageImageSize"
  shows "\<exists>w'. writeImageFileAtomically mem_os path snapshot NoFault w = Some (w', ps_result PsOk)"
proof -
  obtain w1 where made: "fo_create mem_os (temporaryName path) w = (w1, Inr 3)" "mf_writing w1 \<noteq> None"
    by (simp add: mem_os_def mem_create_def)
  obtain w2 where all: "writeAll mem_os 3 snapshot 0 w1 = Some (w2, True)" using mem_writeAll [OF made(2)] by blast
  show ?thesis using assms
    by (simp add: writeImageFileAtomically_def made(1) all Let_def)
      (simp add: mem_os_def mem_rename_def)
qed

theorem atomic_replace_witness:
  "\<exists>w'. writeImageFileAtomically mem_os ''a'' [1, 2, 3] NoFault mem_start = Some (w', ps_result PsOk)
     \<and> mf_versions w' ''a'' = [Some [7, 8, 9], Some [1, 2, 3]]"
proof -
  obtain w' where out: "writeImageFileAtomically mem_os ''a'' [1, 2, 3] NoFault mem_start = Some (w', ps_result PsOk)"
    using mem_replaces [of "[1, 2, 3]"] by (auto simp: MaxStorageImageSize_def)
  from atomic_replace [OF mem_posix this]
  have "mf_versions w' ''a'' = mf_versions mem_start ''a'' @ [Some [1, 2, 3]]"
    by (auto simp: replaced_or_kept_def succeeded_def ps_result_def)
  then show ?thesis using out by (simp add: mem_start_def)
qed

section \<open>Reading a file\<close>

text \<open>\<open>reading w fd\<close> is what a descriptor for reading still has to deliver.\<close>

definition reading_law ::
  "'w file_os \<Rightarrow> ('w \<Rightarrow> string \<Rightarrow> bytes option list) \<Rightarrow> ('w \<Rightarrow> int \<Rightarrow> bytes option) \<Rightarrow> bool" where
  "reading_law os versions reading \<longleftrightarrow>
     (\<forall>p w. case fo_open_read os p w of
        (w', Inl e) \<Rightarrow> e = NoSuchFile \<longrightarrow> now (versions w p) = None
      | (w', Inr fd) \<Rightarrow> reading w' fd = now (versions w p) \<and> now (versions w p) \<noteq> None)
   \<and> (\<forall>fd n w rest. 0 < n \<longrightarrow> reading w fd = Some rest \<longrightarrow> (case fo_read os fd n w of
        (w', Inl _) \<Rightarrow> reading w' fd = Some rest
      | (w', Inr bs) \<Rightarrow> length bs \<le> n \<and> (bs = [] \<longrightarrow> rest = [])
          \<and> (\<exists>left. rest = bs @ left \<and> reading w' fd = Some left)))"

lemma read_step:
  assumes "reading_law os versions reading" "fo_read os fd n w = (w', r)" "reading w fd = Some rest" "0 < n"
  shows "case r of Inl _ \<Rightarrow> reading w' fd = Some rest
      | Inr bs \<Rightarrow> length bs \<le> n \<and> (bs = [] \<longrightarrow> rest = []) \<and> (\<exists>left. rest = bs @ left \<and> reading w' fd = Some left)"
proof -
  note law = conjunct2 [OF assms(1) [unfolded reading_law_def], rule_format, OF assms(4,3)]
  show ?thesis using law unfolding assms(2) by (cases r) simp_all
qed

lemma readAll_outcome:
  assumes "readAll os fd got w = Some r"
  shows "reading_law os versions reading \<longrightarrow> length got \<le> MaxStorageImageSize + 1 \<longrightarrow>
    (\<forall>rest. reading w fd = Some rest \<longrightarrow>
       (case snd r of None \<Rightarrow> True | Some bs \<Rightarrow> bs = take (MaxStorageImageSize + 1) (got @ rest)))"
  using assms
proof (rule readAll.raw_induct [where P = "\<lambda>os fd got w r.
    reading_law os versions reading \<longrightarrow> length got \<le> MaxStorageImageSize + 1 \<longrightarrow>
    (\<forall>rest. reading w fd = Some rest \<longrightarrow>
       (case snd r of None \<Rightarrow> True | Some bs \<Rightarrow> bs = take (MaxStorageImageSize + 1) (got @ rest)))", rotated])
  fix R os fd got w r
  assume IH: "\<And>os fd got w r. R os fd got w = Some r \<Longrightarrow>
    reading_law os versions reading \<longrightarrow> length got \<le> MaxStorageImageSize + 1 \<longrightarrow>
    (\<forall>rest. reading w fd = Some rest \<longrightarrow>
       (case snd r of None \<Rightarrow> True | Some bs \<Rightarrow> bs = take (MaxStorageImageSize + 1) (got @ rest)))"
    and body: "(if length got < MaxStorageImageSize + 1
      then let (w1, result) = fo_read os fd (MaxStorageImageSize + 1 - length got) w
           in case result of
                Inl e \<Rightarrow> if e = Interrupted then R os fd got w1 else Some (w1, None)
              | Inr bs \<Rightarrow> if bs = [] then Some (w1, Some got) else R os fd (got @ bs) w1
      else Some (w, Some got)) = Some r"
  show "reading_law os versions reading \<longrightarrow> length got \<le> MaxStorageImageSize + 1 \<longrightarrow>
    (\<forall>rest. reading w fd = Some rest \<longrightarrow>
       (case snd r of None \<Rightarrow> True | Some bs \<Rightarrow> bs = take (MaxStorageImageSize + 1) (got @ rest)))"
  proof (intro impI allI)
    fix rest
    assume law: "reading_law os versions reading" and short: "length got \<le> MaxStorageImageSize + 1"
      and rest: "reading w fd = Some rest"
    obtain w1 res where rd: "fo_read os fd (MaxStorageImageSize + 1 - length got) w = (w1, res)" by fastforce
    show "case snd r of None \<Rightarrow> True | Some bs \<Rightarrow> bs = take (MaxStorageImageSize + 1) (got @ rest)"
    proof (cases "length got < MaxStorageImageSize + 1")
      case False then show ?thesis using body short by auto
    next
      case True
      have step: "case res of Inl _ \<Rightarrow> reading w1 fd = Some rest
        | Inr bs \<Rightarrow> length bs \<le> MaxStorageImageSize + 1 - length got \<and> (bs = [] \<longrightarrow> rest = [])
            \<and> (\<exists>left. rest = bs @ left \<and> reading w1 fd = Some left)"
        using read_step [OF law rd rest] True by simp
      show ?thesis
      proof (cases res)
        case (Inl e)
        then have "r = (w1, None) \<or> R os fd got w1 = Some r" using body True rd by (auto split: if_splits)
        then show ?thesis
        proof
          assume "R os fd got w1 = Some r"
          from IH [OF this] law short step Inl show ?thesis by simp
        qed simp
      next
        case (Inr bs)
        then obtain left where left: "rest = bs @ left" "reading w1 fd = Some left"
          and fit: "length (got @ bs) \<le> MaxStorageImageSize + 1" and eof: "bs = [] \<Longrightarrow> rest = []"
          using step True by auto
        show ?thesis
        proof (cases "bs = []")
          case stop: True
          then have "r = (w1, Some got)" using body True rd Inr by auto
          then show ?thesis using eof [OF stop] short by simp
        next
          case False
          then have "R os fd (got @ bs) w1 = Some r" using body True rd Inr by auto
          from IH [OF this] law fit left(2)
          have "case snd r of None \<Rightarrow> True | Some bs' \<Rightarrow> bs' = take (MaxStorageImageSize + 1) ((got @ bs) @ left)"
            by blast
          then show ?thesis by (cases "snd r") (simp_all add: left(1))
        qed
      qed
    qed
  qed
qed

text \<open>\<open>readImageFile\<close> never stores a wrong image. On any file system that keeps the POSIX promises for
  reading, whatever sizes the single reads have: \<open>Ok\<close> means that the image now holds exactly the content
  the file had, of at most 1024 bytes; every other result leaves the image unchanged, \<open>ImageNotFound\<close>
  means that there is no such file, and \<open>ImageFull\<close> that the file is larger than an image.\<close>

theorem read_outcome:
  assumes law: "reading_law os versions reading"
    and run: "readImageFile os path im w = Some (w', im', r)"
    and im: "length (im_data im) = MaxStorageImageSize"
  shows "case ps_status r of
      PsOk \<Rightarrow> now (versions w path) = Some (storage_image_bytes im') \<and> im_size im' \<le> MaxStorageImageSize
    | ImageNotFound \<Rightarrow> im' = im \<and> now (versions w path) = None
    | ImageFull \<Rightarrow> im' = im \<and> (\<exists>c. now (versions w path) = Some c \<and> length c > MaxStorageImageSize)
    | _ \<Rightarrow> im' = im"
proof -
  obtain w1 res where op: "fo_open_read os path w = (w1, res)" by fastforce
  note opened = conjunct1 [OF law [unfolded reading_law_def], THEN spec [of _ path], THEN spec [of _ w], unfolded op prod.case]
  show ?thesis
  proof (cases res)
    case (Inl e)
    then show ?thesis using run opened by (auto simp: readImageFile_def op ps_result_def)
  next
    case (Inr fd)
    then obtain c where c: "now (versions w path) = Some c" "reading w1 fd = Some c" using opened by auto
    obtain w2 got where all: "readAll os fd [] w1 = Some (w2, got)"
      using run Inr by (cases "readAll os fd [] w1") (auto simp: readImageFile_def op)
    note all_law = readAll_outcome [OF all, of versions reading]
    show ?thesis
    proof (cases got)
      case None
      then show ?thesis using run Inr all by (auto simp: readImageFile_def op ps_result_def)
    next
      case (Some bs)
      then have bs: "bs = take (MaxStorageImageSize + 1) c" using all_law law c by simp
      obtain w3 closed where close: "fo_close os fd w2 = (w3, closed)" by fastforce
      note body = run [unfolded readImageFile_def op Let_def prod.case Inr sum.case all Some option.case close]
      show ?thesis
      proof (cases "closed \<and> length bs \<le> MaxStorageImageSize")
        case True
        then have "bs = c" "length c \<le> MaxStorageImageSize" using bs by auto
        moreover have "(im', r) = assign bs im" using body True by (auto split: prod.splits)
        ultimately show ?thesis using c im by (simp add: assign_def storage_image_bytes_def ps_result_def blit_def)
      next
        case False
        then have "im' = im \<and> (r = ps_result ReadFailed \<or> r = ps_result ImageFull \<and> length bs > MaxStorageImageSize)"
          using body by (auto split: if_splits)
        moreover have "length bs \<le> length c" using bs by simp
        ultimately show ?thesis using c by (auto simp: ps_result_def)
      qed
    qed
  qed
qed

lemma mem_reading: "reading_law mem_os mf_versions (\<lambda>w fd. mf_reading w)"
  by (auto simp: reading_law_def mem_defs split: option.splits)

theorem read_outcome_witness:
  "\<exists>w' im'. readImageFile mem_os ''a'' ParameterStorageImage mem_start = Some (w', im', ps_result PsOk)
     \<and> storage_image_bytes im' = [7, 8, 9]"
proof -
  obtain w' im' where out: "readImageFile mem_os ''a'' ParameterStorageImage mem_start = Some (w', im', ps_result PsOk)"
    by (simp add: readImageFile_def mem_defs now_def readAll.simps MaxStorageImageSize_def assign_def
        ParameterStorageImage_def)
  from read_outcome [OF mem_reading this]
  have "storage_image_bytes im' = [7, 8, 9]" by (simp add: ParameterStorageImage_def ps_result_def now_def mem_start_def)
  then show ?thesis using out by blast
qed

section \<open>The loops return\<close>

lemma writeAll_returns:
  assumes "\<And>fd bs w w'. fo_write os fd bs w = (w', Inl Interrupted) \<Longrightarrow> \<mu> w' < (\<mu> w :: nat)"
  shows "\<exists>r. writeAll os fd bs n w = Some r"
proof (induction "(length bs - n, w)" arbitrary: n w
    rule: wf_induct_rule [OF wf_lex_prod [OF wf_less wf_measure [of \<mu>]]])
  case 1
  obtain w1 res where wr: "fo_write os fd (drop n bs) w = (w1, res)" by fastforce
  show ?case
  proof (cases "n < length bs")
    case False then show ?thesis by (auto simp: writeAll.simps)
  next
    case True
    show ?thesis
    proof (cases res)
      case (Inl e)
      then show ?thesis using 1 [of n w1] assms [of fd "drop n bs" w w1] True wr
        by (cases e) (auto simp: writeAll.simps [of os fd bs n w])
    next
      case (Inr k)
      have "0 < k \<Longrightarrow> length bs - (n + k) < length bs - n" using True by linarith
      then show ?thesis using Inr 1 [of "n + k" w1] True wr
        by (cases "k = 0") (auto simp: writeAll.simps [of os fd bs n w])
    qed
  qed
qed

lemma readAll_returns:
  assumes "\<And>fd n w w'. fo_read os fd n w = (w', Inl Interrupted) \<Longrightarrow> \<mu> w' < (\<mu> w :: nat)"
  shows "\<exists>r. readAll os fd got w = Some r"
proof (induction "(MaxStorageImageSize + 1 - length got, w)" arbitrary: got w
    rule: wf_induct_rule [OF wf_lex_prod [OF wf_less wf_measure [of \<mu>]]])
  case 1
  obtain w1 res where rd: "fo_read os fd (MaxStorageImageSize + 1 - length got) w = (w1, res)" by fastforce
  show ?case
  proof (cases "length got < MaxStorageImageSize + 1")
    case False then show ?thesis by (auto simp: readAll.simps)
  next
    case True
    show ?thesis
    proof (cases res)
      case (Inl e)
      then show ?thesis using 1 [of got w1] assms [of fd _ w w1] True rd
        by (cases e) (auto simp: readAll.simps [of os fd got w])
    next
      case (Inr bs)
      have "bs \<noteq> [] \<Longrightarrow> MaxStorageImageSize + 1 - length (got @ bs) < MaxStorageImageSize + 1 - length got"
        using True by (cases bs) auto
      then show ?thesis using 1 [of "got @ bs" w1] True rd Inr
        by (cases "bs = []") (auto simp: readAll.simps [of os fd got w])
    qed
  qed
qed

text \<open>The file operations always return, provided the system cannot interrupt a call for ever (some
  number of the world decreases whenever a read or a write answers \<open>EINTR\<close>): partial reads and writes
  of any size make progress, and a write of zero bytes ends the loop.\<close>

theorem file_calls_return:
  assumes "\<And>fd bs w w'. fo_write os fd bs w = (w', Inl Interrupted) \<Longrightarrow> \<mu> w' < (\<mu> w :: nat)"
    and "\<And>fd n w w'. fo_read os fd n w = (w', Inl Interrupted) \<Longrightarrow> \<mu> w' < \<mu> w"
  shows "(\<exists>r. writeImageFileAtomically os path snapshot fault w = Some r)
    \<and> (\<exists>r. readImageFile os path im w = Some r)"
proof
  have all: "\<exists>w2 ok. writeAll os fd snapshot 0 w1 = Some (w2, ok)" for fd w1
    using writeAll_returns [of os \<mu>, OF assms(1)] by auto
  obtain w1 res where op: "fo_create os (temporaryName path) w = (w1, res)" by fastforce
  show "\<exists>r. writeImageFileAtomically os path snapshot fault w = Some r"
  proof (cases res)
    case (Inl e) then show ?thesis by (simp add: writeImageFileAtomically_def op Let_def)
  next
    case (Inr fd)
    obtain w2 ok where "writeAll os fd snapshot 0 w1 = Some (w2, ok)" using all by blast
    then show ?thesis using Inr
      by (simp add: writeImageFileAtomically_def op Let_def split_beta split: sum.split)
  qed
  obtain w3 res' where rop: "fo_open_read os path w = (w3, res')" by fastforce
  show "\<exists>r. readImageFile os path im w = Some r"
  proof (cases res')
    case (Inl e) then show ?thesis by (simp add: readImageFile_def rop)
  next
    case (Inr fd)
    obtain w4 got where "readAll os fd [] w3 = Some (w4, got)"
      using readAll_returns [of os \<mu> fd "[]" w3] assms(2) by (metis surj_pair)
    then show ?thesis using Inr
      by (simp add: readImageFile_def rop Let_def split_beta split: option.split)
  qed
qed

lemma mem_never_interrupts:
  "fo_write mem_os fd bs w = (w', Inl Interrupted) \<Longrightarrow> (0 :: nat) < 0"
  "fo_read mem_os fd n w = (w', Inl Interrupted) \<Longrightarrow> (0 :: nat) < 0"
  by (auto simp: mem_defs split: option.splits if_splits)

theorem file_calls_return_witness:
  "(\<exists>r. writeImageFileAtomically mem_os ''a'' [1, 2, 3] BeforeRename mem_start = Some r)
    \<and> (\<exists>r. readImageFile mem_os ''a'' ParameterStorageImage mem_start = Some r)"
  by (rule file_calls_return [where \<mu> = "\<lambda>_. 0"]) (fact mem_never_interrupts)+

end
