(* ===== verification/DeviceMain.thy ===== *)
theory DeviceMain
  imports ImageFile
begin

text \<open>
  The two programs of Chapter 17 (\<open>WeatherDeviceMain.cpp\<close>, \<open>ImageInspectorMain.cpp\<close>) and the
  text functions they use. A run is split where \<open>main\<close> has its steps: command line, restore, updates,
  save. What goes to \<open>std::cout\<close> and \<open>std::cerr\<close> is a list of texts; \<open>shown\<close> stands for the
  formatting of a \<open>float\<close> by \<open>operator<<\<close>.
\<close>

section \<open>Names\<close>

definition status_name :: "PersistenceStatus \<Rightarrow> string" where
  "status_name st = (case st of PsOk \<Rightarrow> ''Ok'' | ImageNotFound \<Rightarrow> ''ImageNotFound''
     | OpenFailed \<Rightarrow> ''OpenFailed'' | ReadFailed \<Rightarrow> ''ReadFailed'' | WriteFailed \<Rightarrow> ''WriteFailed''
     | ReplaceFailed \<Rightarrow> ''ReplaceFailed'' | ImageFull \<Rightarrow> ''ImageFull''
     | InvalidImageMagic \<Rightarrow> ''InvalidImageMagic'' | UnsupportedImageVersion \<Rightarrow> ''UnsupportedImageVersion''
     | InvalidImageHeader \<Rightarrow> ''InvalidImageHeader'' | InvalidRecordCount \<Rightarrow> ''InvalidRecordCount''
     | UnknownParameter \<Rightarrow> ''UnknownParameter'' | DuplicateParameter \<Rightarrow> ''DuplicateParameter''
     | InvalidBdsMessage \<Rightarrow> ''InvalidBdsMessage'' | TypeMismatch \<Rightarrow> ''TypeMismatch''
     | InvalidValue \<Rightarrow> ''InvalidValue'')"

definition parameter_name :: "ParameterID \<Rightarrow> string" where
  "parameter_name i = (case i of PidReportingInterval \<Rightarrow> ''ReportingInterval''
     | PidTemperatureLimit \<Rightarrow> ''TemperatureLimit'' | PidOperatingMode \<Rightarrow> ''OperatingMode''
     | PidCount \<Rightarrow> ''Count'')"

definition parseCorruption :: "string \<Rightarrow> Corruption option" where
  "parseCorruption s =
     (if s = ''bad-magic'' then Some BadMagic else if s = ''bad-version'' then Some BadVersion
      else if s = ''bad-header-crc'' then Some BadHeaderCrc else if s = ''truncate'' then Some Truncate
      else if s = ''bad-payload'' then Some BadPayload
      else if s = ''unknown-parameter'' then Some CorruptUnknownParameter
      else if s = ''duplicate-parameter'' then Some CorruptDuplicateParameter
      else if s = ''type-mismatch'' then Some CorruptTypeMismatch
      else if s = ''invalid-value'' then Some CorruptInvalidValue else None)"

datatype console = Out string | Err string

definition printParameters ::
  "floats \<Rightarrow> Endianness \<Rightarrow> (u32 \<Rightarrow> string) \<Rightarrow> pstore \<Rightarrow> console list" where
  "printParameters fl machine shown parameters =
     (let reporting = snd (store_get machine ReportingInterval parameters 0);
          temperature = snd (store_get machine (TemperatureLimit fl) parameters 0);
          mode = snd (store_get machine (OperatingModeParameter fl) parameters 0);
          modeName = (if mode = ModeNormal then ''normal'' else if mode = ModeService then ''service''
                      else if mode = ModeSafe then ''safe'' else ''unknown'')
      in [Out (''reporting_interval_ms='' @ show_int (uint reporting)),
          Out (''temperature_limit='' @ shown temperature), Out (''operating_mode='' @ modeName)])"

section \<open>The device: command line\<close>

record device_options =
  do_path :: string
  do_restore :: bool
  do_save :: bool
  do_simulateWriteFailure :: bool
  do_reporting :: "string option"
  do_temperature :: "string option"
  do_mode :: "string option"

definition default_options :: device_options where
  "default_options = \<lparr>do_path = ''parameters.pimg'', do_restore = True, do_save = False,
     do_simulateWriteFailure = False, do_reporting = None, do_temperature = None, do_mode = None\<rparr>"

definition device_usage :: "string \<Rightarrow> console list" where
  "device_usage program = [Out (''Usage: '' @ program @ '' [options]''),
     Out ''  --image PATH                 Image file (default parameters.pimg)'',
     Out ''  --no-restore                 Start from compiled defaults'',
     Out ''  --set-reporting-ms N         Set 100..60000 ms'',
     Out ''  --set-temperature-limit N    Set -40..125 degrees C'',
     Out ''  --set-operating-mode MODE    Set normal, service, or safe'',
     Out ''  --save                       Atomically persist the image'',
     Out ''  --simulate-write-failure     Fail before atomic rename'',
     Out ''  --help                       Show this help'']"

text \<open>\<open>Inl (success, log)\<close>: the program ends here with that exit status.\<close>

fun device_args ::
  "string \<Rightarrow> string list \<Rightarrow> device_options \<Rightarrow> (bool \<times> console list) + device_options" where
  "device_args program [] opts = Inr opts"
| "device_args program (option # rest) opts =
     (if option = ''--help'' then Inl (True, device_usage program)
      else if option = ''--no-restore'' then device_args program rest (opts\<lparr>do_restore := False\<rparr>)
      else if option = ''--save'' then device_args program rest (opts\<lparr>do_save := True\<rparr>)
      else if option = ''--simulate-write-failure''
      then device_args program rest (opts\<lparr>do_simulateWriteFailure := True\<rparr>)
      else if option \<in> {''--image'', ''--set-reporting-ms'', ''--set-temperature-limit'', ''--set-operating-mode''}
      then (case rest of
              [] \<Rightarrow> Inl (False, device_usage program)
            | argument # rest' \<Rightarrow>
                device_args program rest'
                  (if option = ''--image'' then opts\<lparr>do_path := argument\<rparr>
                   else if option = ''--set-reporting-ms'' then opts\<lparr>do_reporting := Some argument\<rparr>
                   else if option = ''--set-temperature-limit'' then opts\<lparr>do_temperature := Some argument\<rparr>
                   else opts\<lparr>do_mode := Some argument\<rparr>))
      else Inl (False, Err (''Unknown option: '' @ option) # device_usage program))"

section \<open>The device: its run\<close>

definition restore_stage ::
  "'w file_os \<Rightarrow> floats \<Rightarrow> Endianness \<Rightarrow> device_options \<Rightarrow> pstore \<Rightarrow> storage_image \<Rightarrow> 'w
    \<Rightarrow> ('w \<times> pstore \<times> storage_image \<times> console list) option" where
  "restore_stage os fl machine opts parameters im w =
     (if \<not> do_restore opts then Some (w, parameters, im, [])
      else case readImageFile os (do_path opts) ParameterStorageImage w of
        None \<Rightarrow> None
      | Some (w1, stored, result) \<Rightarrow>
          if ps_status result = ImageNotFound
          then Some (w1, parameters, im, [Out ''restore=ImageNotFound; using compiled defaults''])
          else if \<not> succeeded result
          then Some (w1, parameters, im,
                     [Err (''restore='' @ status_name (ps_status result) @ ''; defaults retained'')])
          else let (parameters1, result1) = restore fl machine stored parameters
          in if \<not> succeeded result1
             then Some (w1, parameters1, im,
                  [Err (''restore='' @ status_name (ps_status result1) @ '' records_processed=''
                        @ show_int (int (recordsProcessed result1))
                        @ (case ps_parameterId result1 of None \<Rightarrow> []
                           | Some i \<Rightarrow> '' parameter='' @ parameter_name i)
                        @ ''; active parameters unchanged'')])
             else Some (w1, parameters1, stored,
                  [Out (''restore=Ok records_processed='' @ show_int (int (recordsProcessed result1)))]))"

definition apply_update ::
  "floats \<Rightarrow> Endianness \<Rightarrow> ParameterID \<Rightarrow> string \<Rightarrow> pstore \<Rightarrow> storage_image
    \<Rightarrow> pstore \<times> storage_image \<times> console list \<times> bool" where
  "apply_update fl machine i input parameters im =
     (let (parameters1, updateResult, _) = store_set_text fl machine parameters i input CommandLine
      in if updateResult \<noteq> UpdOK
         then (parameters1, im, [Err (''Parameter update rejected for '' @ parameter_name i)], False)
         else let (im1, imageResult) = update fl machine i parameters1 im
         in if \<not> succeeded imageResult
            then (parameters1, im1, [Err (''Image update failed for '' @ parameter_name i @ '': ''
                                          @ status_name (ps_status imageResult))], False)
            else (parameters1, im1, [], True))"

text \<open>\<open>if (reporting && !apply(...)) return EXIT_FAILURE;\<close> and the two that follow it.\<close>

fun apply_stage ::
  "floats \<Rightarrow> Endianness \<Rightarrow> (ParameterID \<times> string option) list \<Rightarrow> pstore \<Rightarrow> storage_image
    \<Rightarrow> pstore \<times> storage_image \<times> console list \<times> bool" where
  "apply_stage fl machine [] parameters im = (parameters, im, [], True)"
| "apply_stage fl machine ((i, None) # rest) parameters im = apply_stage fl machine rest parameters im"
| "apply_stage fl machine ((i, Some input) # rest) parameters im =
     (case apply_update fl machine i input parameters im of
        (parameters1, im1, log, False) \<Rightarrow> (parameters1, im1, log, False)
      | (parameters1, im1, log, True) \<Rightarrow>
          let (parameters2, im2, log2, ok) = apply_stage fl machine rest parameters1 im1
          in (parameters2, im2, log @ log2, ok))"

definition save_stage ::
  "'w file_os \<Rightarrow> device_options \<Rightarrow> storage_image \<Rightarrow> 'w \<Rightarrow> ('w \<times> console list \<times> bool) option" where
  "save_stage os opts im w =
     (if \<not> do_save opts then Some (w, [], True)
      else let snapshot = blit (replicate MaxStorageImageSize 0) 0 (storage_image_bytes im)
           in case writeImageFileAtomically os (do_path opts) (take (im_size im) snapshot)
                     (if do_simulateWriteFailure opts then BeforeRename else NoFault) w of
                None \<Rightarrow> None
              | Some (w1, result) \<Rightarrow>
                  Some (w1, [Out (''save='' @ status_name (ps_status result))], succeeded result))"

record 'w device_end =
  de_world :: 'w
  de_parameters :: pstore
  de_image :: storage_image
  de_log :: "console list"
  de_success :: bool

definition weather_device_run ::
  "'w file_os \<Rightarrow> floats \<Rightarrow> Endianness \<Rightarrow> (u32 \<Rightarrow> string) \<Rightarrow> device_options \<Rightarrow> 'w \<Rightarrow> 'w device_end option" where
  "weather_device_run os fl machine shown opts w =
     (let parameters = ParameterStore fl machine;
          (im, result) = create fl machine parameters ParameterStorageImage
      in if \<not> succeeded result
         then Some \<lparr>de_world = w, de_parameters = parameters, de_image = im,
                    de_log = [Err (''Could not create the in-memory image: '' @ status_name (ps_status result))],
                    de_success = False\<rparr>
         else case restore_stage os fl machine opts parameters im w of
           None \<Rightarrow> None
         | Some (w1, parameters1, im1, log1) \<Rightarrow>
             let (parameters2, im2, log2, ok) =
                   apply_stage fl machine
                     [(PidReportingInterval, do_reporting opts), (PidTemperatureLimit, do_temperature opts),
                      (PidOperatingMode, do_mode opts)] parameters1 im1
             in if \<not> ok
                then Some \<lparr>de_world = w1, de_parameters = parameters2, de_image = im2,
                           de_log = log1 @ log2, de_success = False\<rparr>
                else case save_stage os opts im2 w1 of
                  None \<Rightarrow> None
                | Some (w2, log3, saved) \<Rightarrow>
                    Some \<lparr>de_world = w2, de_parameters = parameters2, de_image = im2,
                          de_log = log1 @ log2 @ log3
                            @ (if saved then printParameters fl machine shown parameters2
                                             @ [Out ''PARAMETERS_READY''] else []),
                          de_success = saved\<rparr>)"

text \<open>\<open>main\<close>: the exit status, what was printed, and the world.\<close>

definition weather_device_main ::
  "'w file_os \<Rightarrow> floats \<Rightarrow> Endianness \<Rightarrow> (u32 \<Rightarrow> string) \<Rightarrow> string \<Rightarrow> string list \<Rightarrow> 'w
    \<Rightarrow> ('w \<times> console list \<times> bool) option" where
  "weather_device_main os fl machine shown program args w =
     (case device_args program args default_options of
        Inl (success, log) \<Rightarrow> Some (w, log, success)
      | Inr opts \<Rightarrow> map_option (\<lambda>e. (de_world e, de_log e, de_success e))
                      (weather_device_run os fl machine shown opts w))"

section \<open>The image inspector\<close>

definition inspector_usage :: "string \<Rightarrow> console list" where
  "inspector_usage program = [Out (''Usage: '' @ program @ '' IMAGE [--corrupt MODE --output PATH]''),
     Out ''Modes: bad-magic, bad-version, bad-header-crc, truncate,'',
     Out ''       bad-payload, unknown-parameter, duplicate-parameter,'',
     Out ''       type-mismatch, invalid-value'']"

text \<open>The options after the image: the corruption asked for and the output path, or \<open>None\<close> for a
  command line that is refused.\<close>

fun inspector_args :: "string list \<Rightarrow> Corruption option \<Rightarrow> string \<Rightarrow> (Corruption option \<times> string) option" where
  "inspector_args (option # argument # rest) corruption output =
     (if option = ''--corrupt''
      then (case parseCorruption argument of None \<Rightarrow> None
            | Some c \<Rightarrow> inspector_args rest (Some c) output)
      else if option = ''--output'' then inspector_args rest corruption argument
      else None)"
| "inspector_args [option] corruption output = None"
| "inspector_args [] corruption output = Some (corruption, output)"

definition inspector_corrupt ::
  "'w file_os \<Rightarrow> Endianness \<Rightarrow> Corruption \<Rightarrow> string \<Rightarrow> storage_image \<Rightarrow> 'w \<Rightarrow> ('w \<times> console list \<times> bool) option" where
  "inspector_corrupt os machine c output im w =
     (if output = [] then Some (w, [Err ''--corrupt requires --output; the source is never modified''], False)
      else let outputSize = im_size im
      in if c = Truncate \<and> outputSize \<le> StorageImageHeaderWireSize then Some (w, [], False)
      else let (applied, bytes) = (if c = Truncate then (True, storage_image_bytes im)
                                   else corruptImage machine (storage_image_bytes im) c);
               outputSize1 = (if c = Truncate then outputSize - 1 else outputSize)
      in if \<not> applied then Some (w, [Err ''Could not apply corruption''], False)
         else case writeImageFileAtomically os output (take outputSize1 bytes) NoFault w of
           None \<Rightarrow> None
         | Some (w1, result) \<Rightarrow>
             Some (w1, [Out (''corrupt_write='' @ status_name (ps_status result))], succeeded result))"

text \<open>Without the lines \<open>inspectImage\<close> itself prints.\<close>

definition inspector_main ::
  "'w file_os \<Rightarrow> Endianness \<Rightarrow> string \<Rightarrow> string list \<Rightarrow> 'w \<Rightarrow> ('w \<times> console list \<times> bool) option" where
  "inspector_main os machine program args w =
     (case args of
        [] \<Rightarrow> Some (w, inspector_usage program, False)
      | source # options \<Rightarrow>
          (case inspector_args options None [] of
             None \<Rightarrow> Some (w, inspector_usage program, False)
           | Some (corruption, output) \<Rightarrow>
               (case readImageFile os source ParameterStorageImage w of
                  None \<Rightarrow> None
                | Some (w1, im, result) \<Rightarrow>
                    if \<not> succeeded result
                    then Some (w1, [Err (''read='' @ status_name (ps_status result))], False)
                    else (case corruption of
                       Some c \<Rightarrow> inspector_corrupt os machine c output im w1
                     | None \<Rightarrow>
                         let verdict = inspectImage machine (storage_image_bytes im)
                         in Some (w1, [Out (''image.validation='' @ status_name (ps_status verdict))],
                                  succeeded verdict)))))"

text \<open>Corrupting a copy leaves every other file alone, in particular the image read, unless the output
  is given the name of that image: the tool does not compare the two.\<close>

lemma inspector_touches_output:
  assumes "posix_files os versions opened"
    and "inspector_corrupt os m c output im w = Some (w', log, ok)" "f \<noteq> output" "f \<noteq> temporaryName output"
  shows "versions w' f = versions w f"
proof -
  have "w' = w \<or> (\<exists>bs r. writeImageFileAtomically os output bs NoFault w = Some (w', r))"
    using assms(2) by (auto simp: inspector_corrupt_def Let_def split_beta split: option.splits if_splits)
  then show ?thesis
    using atomic_replace_lemma [OF assms(1)] assms(3,4) unfolding replaced_or_kept_def by blast
qed

section \<open>Image and store agree\<close>

text \<open>The invariant of a run: the image is one \<open>restore\<close> accepts, and its payloads are the values of
  the store.\<close>

definition in_step :: "floats \<Rightarrow> Endianness \<Rightarrow> pstore \<Rightarrow> storage_image \<Rightarrow> bool" where
  "in_step fl m s im \<longleftrightarrow> length (im_data im) = MaxStorageImageSize \<and> im_size im \<le> MaxStorageImageSize
     \<and> valid_store fl s
     \<and> (\<exists>rs. image_wf rs (storage_image_bytes im) \<and> list_all (payload_ok fl) rs
           \<and> list_all (\<lambda>(j, h, p). current_value fl m s j = payload_value j p) rs)"

lemma in_stepI:
  assumes "length (im_data im) = MaxStorageImageSize" "im_size im \<le> MaxStorageImageSize" "valid_store fl s"
    and "image_wf rs (storage_image_bytes im)" "list_all (payload_ok fl) rs"
    and "\<And>j h p. (j, h, p) \<in> set rs \<Longrightarrow> current_value fl m s j = payload_value j p"
  shows "in_step fl m s im"
  unfolding in_step_def
proof (intro conjI exI)
  show "list_all (\<lambda>(j, h, p). current_value fl m s j = payload_value j p) rs"
    using assms(6) by (auto simp: list_all_iff)
qed (fact assms(1-5))+

lemma in_stepE:
  assumes "in_step fl m s im"
  obtains rs where "length (im_data im) = MaxStorageImageSize" "im_size im \<le> MaxStorageImageSize"
    "valid_store fl s" "image_wf rs (storage_image_bytes im)" "list_all (payload_ok fl) rs"
    "\<And>j h p. (j, h, p) \<in> set rs \<Longrightarrow> current_value fl m s j = payload_value j p"
proof -
  from assms obtain rs where "image_wf rs (storage_image_bytes im)" "list_all (payload_ok fl) rs"
    "list_all (\<lambda>(j, h, p). current_value fl m s j = payload_value j p) rs"
    unfolding in_step_def by blast
  moreover from this(3) have "\<And>j h p. (j, h, p) \<in> set rs \<Longrightarrow> current_value fl m s j = payload_value j p"
    by (auto simp: list_all_iff)
  ultimately show ?thesis using that assms by (simp add: in_step_def)
qed

lemma default_sources: "i \<noteq> PidCount \<Longrightarrow> store_source (ParameterStore fl m) i = CompiledDefault"
  by (cases i) (simp_all add: default_store store_source_def toIndex_def)

lemma default_low: "i \<noteq> PidCount \<Longrightarrow> precedence (store_source (ParameterStore fl m) i) \<le> precedence PersistentStorage"
  by (simp add: default_sources precedence_def)

lemma record_known: "image_wf rs img \<Longrightarrow> (j, h, p) \<in> set rs \<Longrightarrow> j \<noteq> PidCount"
  by (force simp: image_wf_def list_all_iff)

lemma in_step_created:
  assumes "create fl m (ParameterStore fl m) ParameterStorageImage = (im, r)"
  shows "succeeded r" "in_step fl m (ParameterStore fl m) im"
proof -
  let ?d = "replicate 1024 0 :: bytes"
  have im: "im = \<lparr>im_data = blit ?d 0 (created_bytes 1000 f32_45 ModeNormal), im_size = 109\<rparr>" and r: "r = walked 3"
    using assms create_eq [of ParameterStorageImage fl m 1000 f32_45 ModeNormal "replicate 3 CompiledDefault" 0]
    by (simp_all add: default_store ParameterStorageImage_def MaxStorageImageSize_def)
  show "succeeded r" by (simp add: r succeeded_def)
  have wf: "image_wf (created_records 1000 f32_45 ModeNormal) (storage_image_bytes im)" by (simp add: im created_wf)
  show "in_step fl m (ParameterStore fl m) im"
  proof (rule in_stepI [OF _ _ default_valid wf created_payload_ok])
    show "length (im_data im) = MaxStorageImageSize" "im_size im \<le> MaxStorageImageSize"
      by (simp_all add: im MaxStorageImageSize_def)
    show "p_validate ReportingInterval 1000" "p_validate (TemperatureLimit fl) f32_45"
      "p_validate (OperatingModeParameter fl) ModeNormal" by (rule default_validates)+
  next
    fix j h p assume mem: "(j, h, p) \<in> set (created_records 1000 f32_45 ModeNormal)"
    from record_known [OF wf mem] mem
    show "current_value fl m (ParameterStore fl m) j = payload_value j p"
      using payload_value_created [of j 1000 f32_45 ModeNormal fl m "replicate 3 CompiledDefault" 0]
      by (auto simp: created_records_def param_record_def default_store)
  qed
qed

lemma readImageFile_shape:
  assumes "readImageFile os path ParameterStorageImage w = Some (w', im, r)"
  shows "length (im_data im) = MaxStorageImageSize" "im_size im \<le> MaxStorageImageSize"
proof -
  have "im = ParameterStorageImage \<or> (\<exists>bs. length bs \<le> MaxStorageImageSize \<and> im = fst (assign bs ParameterStorageImage))"
    using assms by (auto simp: readImageFile_def Let_def not_less split_beta split: sum.splits option.splits if_splits)
  then have "length (im_data im) = MaxStorageImageSize \<and> im_size im \<le> MaxStorageImageSize"
    by (auto simp: assign_def ParameterStorageImage_def)
  then show "length (im_data im) = MaxStorageImageSize" "im_size im \<le> MaxStorageImageSize" by simp_all
qed

lemma in_step_restored:
  assumes "readImageFile os path ParameterStorageImage w = Some (w', stored, q)"
    and "restore fl m stored (ParameterStore fl m) = (s, r)" "succeeded r"
  shows "in_step fl m s stored"
proof -
  obtain rs where rs: "image_wf rs (storage_image_bytes stored)" "list_all (payload_ok fl) rs"
    using restored_image [OF default_valid assms(2,3)] by blast
  show ?thesis
    using readImageFile_shape [OF assms(1)] restore_wf(4) [OF rs(1) default_valid assms(2,3)] rs
      restored_value(2) [OF rs default_valid assms(2)] default_low record_known [OF rs(1)]
    by (intro in_stepI) auto
qed

lemma restore_failed_kept:
  assumes "restore fl m im s = (s', r)" "\<not> succeeded r"
  shows "s' = s"
  using assms by (auto simp: restore_def Let_def split: prod.splits if_splits)

lemma in_step_saved:
  assumes "in_step fl m s im" "storage_image_bytes im2 = storage_image_bytes im"
    and "restore fl m' im2 (ParameterStore fl m') = (t, r)"
  shows "succeeded r" "j \<noteq> PidCount \<Longrightarrow> current_value fl m' t j = current_value fl m s j"
proof -
  from assms(1) obtain rs where rs: "image_wf rs (storage_image_bytes im2)" "list_all (payload_ok fl) rs"
    and val: "\<And>j h p. (j, h, p) \<in> set rs \<Longrightarrow> current_value fl m s j = payload_value j p"
    unfolding assms(2) by (rule in_stepE) blast
  show "succeeded r" using restore_wf(1) [OF rs(1) default_valid assms(3)] rs(2) by simp
  assume j: "j \<noteq> PidCount"
  obtain h p where mem: "(j, h, p) \<in> set rs" using image_record_at [OF rs(1) j] by (metis in_set_conv_decomp)
  show "current_value fl m' t j = current_value fl m s j"
    using restored_value(2) [OF rs default_valid assms(3) mem default_low [OF j]] val [OF mem] by simp
qed

lemma in_step_updated:
  assumes step: "in_step fl m s im" and i: "i \<noteq> PidCount"
    and upd: "apply_update fl m i input s im = (s', im', log, ok)"
  shows "in_step fl m s' im' \<or> \<not> ok"
proof -
  obtain s1 r e where set: "store_set_text fl m s i input CommandLine = (s1, r, e)" by (metis prod_cases3)
  obtain im1 q where up: "update fl m i s1 im = (im1, q)" by fastforce
  from step obtain rs where shape: "length (im_data im) = MaxStorageImageSize" "im_size im \<le> MaxStorageImageSize"
    and valid: "valid_store fl s" and rs: "image_wf rs (storage_image_bytes im)" "list_all (payload_ok fl) rs"
    and val: "\<And>j h p. (j, h, p) \<in> set rs \<Longrightarrow> current_value fl m s j = payload_value j p"
    by (rule in_stepE) (rule that)
  note outcome = update_outcome_lemma [OF valid i, of m input CommandLine, unfolded set prod.case]
  show ?thesis
  proof (cases "r = UpdOK \<and> succeeded q")
    case False
    then show ?thesis using upd by (auto simp: apply_update_def set up Let_def split: if_splits)
  next
    case True
    then have out: "s' = s1" "im' = im1" using upd by (simp_all add: apply_update_def set up Let_def)
    have new: "valid_store fl s1" and keep: "list_all (\<lambda>j. j = i \<or> current_value fl m s1 j = current_value fl m s j
          \<and> store_source s1 j = store_source s j) [PidReportingInterval, PidTemperatureLimit, PidOperatingMode]"
      using outcome True by simp_all
    have keep': "current_value fl m s1 j = current_value fl m s j" if "j \<noteq> i" "j \<noteq> PidCount" for j
      using keep that by (cases j) simp_all
    obtain a b c ss g where s1: "s1 = store_of a b c ss g" "length ss = 3" "p_validate ReportingInterval a"
      "p_validate (TemperatureLimit fl) b" "p_validate (OperatingModeParameter fl) c"
      using new by (rule valid_storeE)
    obtain rs1 h p rs2 where at: "rs = rs1 @ (i, h, p) # rs2" "i \<notin> set (map fst rs1)" "i \<notin> set (map fst rs2)"
      using image_record_at [OF rs(1) i] by blast
    have room: "im_size im \<le> length (im_data im)" using shape by simp
    have "length p = encodedPayloadSize fl i" using rs(2) by (simp add: at(1))
    then obtain im2 where im2: "update fl m i s1 im = (im2, at_record PsOk 1 i)" "im_size im2 = im_size im"
      "length (im_data im2) = length (im_data im)"
      "image_wf (rs1 @ param_record i (payload_bytes a b c i) # rs2) (storage_image_bytes im2)"
      using update_wf [OF rs(1) [unfolded at(1)] i at(2,3) room] s1(1) by metis
    then have same: "im2 = im1" using up by simp
    have good: "list_all (payload_ok fl) (rs1 @ param_record i (payload_bytes a b c i) # rs2)"
      using rs(2) param_payload_ok [OF s1(3-5) i] by (simp add: at(1) del: payload_ok.simps)
    have "in_step fl m s1 im1"
    proof (rule in_stepI [OF _ _ new im2(4) [unfolded same] good])
      show "length (im_data im1) = MaxStorageImageSize" "im_size im1 \<le> MaxStorageImageSize"
        using im2(2,3) same shape by simp_all
    next
      fix j h' p' assume mem: "(j, h', p') \<in> set (rs1 @ param_record i (payload_bytes a b c i) # rs2)"
      show "current_value fl m s1 j = payload_value j p'"
      proof (cases "(j, h', p') \<in> set rs1 \<union> set rs2")
        case True
        then have "(j, h', p') \<in> set rs" "j \<noteq> i" using at by (force+)
        then show ?thesis using val keep' record_known [OF rs(1)] by metis
      next
        case False
        then have "(j, h', p') = param_record i (payload_bytes a b c i)" using mem by simp
        then show ?thesis using payload_value_created [OF i, of a b c fl m ss g]
          by (simp add: param_record_def s1(1))
      qed
    qed
    then show ?thesis by (simp add: out)
  qed
qed

lemma in_step_applied:
  assumes "apply_stage fl m ups s im = (s', im', log, True)" "in_step fl m s im" "PidCount \<notin> set (map fst ups)"
  shows "in_step fl m s' im'"
  using assms
proof (induction fl m ups s im arbitrary: s' im' log rule: apply_stage.induct)
  case (3 fl m i input rest s im)
  obtain s1 im1 l1 ok where one: "apply_update fl m i input s im = (s1, im1, l1, ok)" by (metis prod_cases4)
  have ok: "ok" using 3(2) one by (cases ok) auto
  then obtain s2 im2 l2 b where two: "apply_stage fl m rest s1 im1 = (s2, im2, l2, b)" by (metis prod_cases4)
  have "s' = s2" "im' = im2" "b" using 3(2) one two ok by auto
  moreover have "in_step fl m s1 im1" using in_step_updated [OF 3(3) _ one] ok 3(4) by auto
  ultimately show ?case using 3(1) one two ok 3(4) by simp
qed simp_all


lemma in_step_start:
  assumes "restore_stage os fl m opts (ParameterStore fl m) im w = Some (w', s, im', log)"
    and "in_step fl m (ParameterStore fl m) im"
  shows "in_step fl m s im'"
proof (cases "do_restore opts")
  case False then show ?thesis using assms by (simp add: restore_stage_def)
next
  case True
  obtain w1 stored q where rd: "readImageFile os (do_path opts) ParameterStorageImage w = Some (w1, stored, q)"
    using assms(1) True by (auto simp: restore_stage_def split: option.splits)
  obtain s1 r where re: "restore fl m stored (ParameterStore fl m) = (s1, r)" by fastforce
  have "s = ParameterStore fl m \<and> im' = im \<or> succeeded r \<and> s = s1 \<and> im' = stored"
    using assms(1) True rd re restore_failed_kept [OF re]
    by (auto simp: restore_stage_def Let_def split: if_splits)
  then show ?thesis using assms(2) in_step_restored [OF rd re] by auto
qed

lemma saved_bytes:
  assumes "in_step fl m s im"
  shows "take (im_size im) (blit (replicate MaxStorageImageSize 0) 0 (storage_image_bytes im)) = storage_image_bytes im"
proof -
  have "length (storage_image_bytes im) = im_size im" using assms by (simp add: in_step_def storage_image_bytes_def)
  then show ?thesis by (simp add: blit_def)
qed

text \<open>C16: What the device saves is what it runs with. Whenever a run of the weather device, with any mix of
  a restored or refused or missing image and of updates on the command line, is asked to save and
  exits successfully, the image file now holds an image that a later start, on a machine of
  either byte order, accepts, and which gives all three parameters the values they have at the end
  of this run; this on any file system that keeps the POSIX promises.\<close>

theorem device_saves:
  assumes posix: "posix_files os versions opened"
    and run: "weather_device_run os fl m shown opts w = Some e" and "do_save opts" "de_success e"
  shows "\<exists>c. now (versions (de_world e) (do_path opts)) = Some c
    \<and> (case restore fl m' (fst (assign c ParameterStorageImage)) (ParameterStore fl m') of (t, r) \<Rightarrow>
         succeeded r \<and> list_all (\<lambda>j. current_value fl m' t j = current_value fl m (de_parameters e) j)
           [PidReportingInterval, PidTemperatureLimit, PidOperatingMode])"
proof -
  obtain im0 r0 where made: "create fl m (ParameterStore fl m) ParameterStorageImage = (im0, r0)" by fastforce
  note start = in_step_created [OF made]
  obtain w1 s1 im1 log1 where res: "restore_stage os fl m opts (ParameterStore fl m) im0 w = Some (w1, s1, im1, log1)"
    using run start(1) by (auto simp: weather_device_run_def made Let_def split: option.splits)
  obtain s2 im2 log2 ok where app: "apply_stage fl m [(PidReportingInterval, do_reporting opts),
      (PidTemperatureLimit, do_temperature opts), (PidOperatingMode, do_mode opts)] s1 im1 = (s2, im2, log2, ok)"
    by (metis prod_cases4)
  note body = run [unfolded weather_device_run_def made Let_def prod.case res option.case app]
  have ok: "ok" using body start(1) assms(4) by (auto split: if_splits)
  obtain w2 q where save: "writeImageFileAtomically os (do_path opts)
      (take (im_size im2) (blit (replicate MaxStorageImageSize 0) 0 (storage_image_bytes im2)))
      (if do_simulateWriteFailure opts then BeforeRename else NoFault) w1 = Some (w2, q)"
    and e: "succeeded q" "de_world e = w2" "de_parameters e = s2"
    using body start(1) ok assms(3,4) by (auto simp: save_stage_def Let_def split: option.splits prod.splits)
  have "apply_stage fl m [(PidReportingInterval, do_reporting opts),
      (PidTemperatureLimit, do_temperature opts), (PidOperatingMode, do_mode opts)] s1 im1 = (s2, im2, log2, True)"
    using app ok by simp
  then have step: "in_step fl m s2 im2"
    by (rule in_step_applied [OF _ in_step_start [OF res start(2)]]) simp
  have "versions w2 (do_path opts) = versions w1 (do_path opts) @ [Some (storage_image_bytes im2)]"
    using atomic_replace_lemma [OF posix save] e(1) by (simp add: replaced_or_kept_def saved_bytes [OF step])
  then have content: "now (versions (de_world e) (do_path opts)) = Some (storage_image_bytes im2)" by (simp add: e now_def)
  have fits: "length (storage_image_bytes im2) \<le> MaxStorageImageSize" using step by (simp add: in_step_def storage_image_bytes_def)
  let ?im = "fst (assign (storage_image_bytes im2) ParameterStorageImage)"
  have same: "storage_image_bytes ?im = storage_image_bytes im2"
    using fits by (simp add: assign_def ParameterStorageImage_def storage_image_bytes_def [of "\<lparr>im_data = _, im_size = _\<rparr>"] blit_def)
  obtain t r where out: "restore fl m' ?im (ParameterStore fl m') = (t, r)" by fastforce
  show ?thesis
    using content in_step_saved [OF step same out] by (auto simp: out e)
qed

lemma sample_run:
  "\<exists>e. weather_device_run mem_os sample_floats Little (\<lambda>_. ''45'') (default_options\<lparr>do_save := True\<rparr>) mem_start = Some e
      \<and> de_success e"
proof -
  have im: "create sample_floats Little (ParameterStore sample_floats Little) ParameterStorageImage
      = (sample_image Little, walked 3)"
    by (simp add: sample_image_def default_values(1) create_eq ParameterStorageImage_def MaxStorageImageSize_def)
  have missing: "readImageFile mem_os ''parameters.pimg'' ParameterStorageImage mem_start
      = Some (mem_start, ParameterStorageImage, ps_result ImageNotFound)"
    by (simp add: readImageFile_def mem_defs now_def)
  let ?snap = "take (im_size (sample_image Little))
      (blit (replicate MaxStorageImageSize 0) 0 (storage_image_bytes (sample_image Little)))"
  have "length ?snap = 109" by (simp add: sample_image_fields MaxStorageImageSize_def sample_image_bytes)
  then have "?snap \<noteq> []" "length ?snap \<le> MaxStorageImageSize" by (auto simp: MaxStorageImageSize_def)
  then obtain w2 where "writeImageFileAtomically mem_os ''parameters.pimg'' ?snap NoFault mem_start = Some (w2, ps_result PsOk)"
    using mem_replaces by blast
  then show ?thesis
    by (simp add: weather_device_run_def im restore_stage_def missing default_options_def save_stage_def Let_def succeeded_def)
qed

theorem device_saves_witness:
  "\<exists>e c. weather_device_run mem_os sample_floats Little (\<lambda>_. ''45'') (default_options\<lparr>do_save := True\<rparr>) mem_start = Some e
     \<and> now (mf_versions (de_world e) ''parameters.pimg'') = Some c
     \<and> succeeded (snd (restore sample_floats Big (fst (assign c ParameterStorageImage)) (ParameterStore sample_floats Big)))"
proof -
  obtain e where run: "weather_device_run mem_os sample_floats Little (\<lambda>_. ''45'') (default_options\<lparr>do_save := True\<rparr>) mem_start = Some e"
    and ok: "de_success e" using sample_run by blast
  from device_saves [OF mem_posix run _ ok, of Big] run show ?thesis
    by (auto simp: default_options_def split_beta)
qed

end
