(* ===== verification/BoundedText.thy ===== *)
theory BoundedText
  imports WireCodec
begin

text \<open>
  \<open>Chapter17_DataPersistence/include/BoundedAsciiString.h\<close>: fixed-capacity ASCII strings and their
  wire form, a length byte followed by the whole array. A \<open>char\<close> is its byte. The capacity, a
  template argument that the code bounds by 255, is the first argument.
\<close>

record bounded_string =
  bs_size :: u8
  bs_value :: bytes

definition BoundedAsciiString :: "nat \<Rightarrow> bounded_string" where
  "BoundedAsciiString capacity = \<lparr>bs_size = 0, bs_value = replicate capacity 0\<rparr>"

definition bs_view :: "bounded_string \<Rightarrow> bytes" where
  "bs_view b = take (unat (bs_size b)) (bs_value b)"

text \<open>The copy loop of \<open>make\<close>, from position \<open>index\<close> on.\<close>

fun make_loop :: "nat \<Rightarrow> bytes \<Rightarrow> bounded_string \<Rightarrow> bounded_string option" where
  "make_loop index [] result = Some result"
| "make_loop index (c # cs) result =
     (if c > 0x7f then None
      else make_loop (index + 1) cs (result\<lparr>bs_value := (bs_value result)[index := c]\<rparr>))"

definition bs_make :: "nat \<Rightarrow> bytes \<Rightarrow> bounded_string option" where
  "bs_make capacity chars =
     (if length chars > capacity then None
      else make_loop 0 chars ((BoundedAsciiString capacity)\<lparr>bs_size := of_nat (length chars)\<rparr>))"

definition writeBds :: "wstream \<Rightarrow> bounded_string \<Rightarrow> wstream \<times> bool" where
  "writeBds stream chars =
     (let stream' = writeBytes (writeUInt8 stream (bs_size chars)) (bs_value chars)
      in (stream', w_ok stream'))"

text \<open>The check and copy loop of \<open>readBds\<close>: \<open>n\<close> characters are left.\<close>

primrec read_loop :: "nat \<Rightarrow> nat \<Rightarrow> bytes \<Rightarrow> bounded_string \<Rightarrow> bounded_string option" where
  "read_loop 0 index characters decoded = Some decoded"
| "read_loop (Suc n) index characters decoded =
     (let character = characters ! index
      in if (index < unat (bs_size decoded) \<and> character > 0x7f)
           \<or> (index \<ge> unat (bs_size decoded) \<and> character \<noteq> 0) then None
         else read_loop n (index + 1) characters
                (decoded\<lparr>bs_value := (bs_value decoded)[index := character]\<rparr>))"

definition readBds :: "nat \<Rightarrow> rstream \<Rightarrow> bounded_string \<Rightarrow> rstream \<times> bounded_string \<times> bool" where
  "readBds capacity stream chars =
     (let decoded = BoundedAsciiString capacity;
          (s1, n) = readUInt8 stream (bs_size decoded);
          (s2, characters) = readBytesView s1 (of_nat capacity) [];
          decoded1 = decoded\<lparr>bs_size := n\<rparr>
      in if \<not> r_ok s2 \<or> unat (bs_size decoded1) > capacity then (s2, chars, False)
         else case read_loop capacity 0 characters decoded1 of
                None \<Rightarrow> (s2, chars, False)
              | Some decoded2 \<Rightarrow> (s2, decoded2, True))"

section \<open>The strings that exist\<close>

text \<open>A string is well formed when its array is the text padded with zeros.\<close>

definition bs_wf :: "nat \<Rightarrow> bounded_string \<Rightarrow> bool" where
  "bs_wf capacity b \<longleftrightarrow> capacity \<le> 255 \<and> length (bs_value b) = capacity \<and> unat (bs_size b) \<le> capacity
     \<and> list_all (\<lambda>c. c \<le> 0x7f) (bs_view b)
     \<and> drop (unat (bs_size b)) (bs_value b) = replicate (capacity - unat (bs_size b)) 0"

definition bs_bytes :: "bounded_string \<Rightarrow> bytes" where
  "bs_bytes b = bs_size b # bs_value b"

lemma make_loop_eq:
  assumes "index + length chars \<le> length (bs_value r)"
  shows "make_loop index chars r =
     (if list_all (\<lambda>c. c \<le> 0x7f) chars then Some (r\<lparr>bs_value := blit (bs_value r) index chars\<rparr>) else None)"
  using assms
proof (induction chars arbitrary: index r)
  case Nil
  then show ?case by simp
next
  case (Cons c cs)
  have "blit ((bs_value r)[index := c]) (index + 1) cs = blit (bs_value r) index (c # cs)"
    using Cons.prems by (simp add: blit_def upd_conv_take_nth_drop drop_Cons' add.commute)
  then show ?case using Cons by (auto simp: not_less)
qed

lemma make_eq:
  assumes "capacity \<le> 255"
  shows "bs_make capacity chars =
     (if length chars \<le> capacity \<and> list_all (\<lambda>c. c \<le> 0x7f) chars
      then Some \<lparr>bs_size = of_nat (length chars), bs_value = chars @ replicate (capacity - length chars) 0\<rparr>
      else None)"
  using assms by (simp add: bs_make_def BoundedAsciiString_def make_loop_eq blit_def)

lemma make_wf:
  assumes "capacity \<le> 255" "bs_make capacity chars = Some b"
  shows "bs_wf capacity b" "bs_view b = chars"
proof -
  have chars: "length chars \<le> capacity" "list_all (\<lambda>c. c \<le> 0x7f) chars"
    and b: "b = \<lparr>bs_size = of_nat (length chars), bs_value = chars @ replicate (capacity - length chars) 0\<rparr>"
    using assms by (auto simp: make_eq split: if_splits)
  have "unat (bs_size b) = length chars"
    using chars(1) assms(1) by (simp add: b unsigned_of_nat take_bit_nat_eq_self)
  then show "bs_wf capacity b" "bs_view b = chars"
    using chars assms(1) by (simp_all add: bs_wf_def bs_view_def b)
qed

lemma wf_make:
  assumes "bs_wf capacity b"
  shows "bs_make capacity (bs_view b) = Some b"
proof -
  have "bs_view b @ replicate (capacity - unat (bs_size b)) 0 = bs_value b"
    using assms by (metis append_take_drop_id bs_view_def bs_wf_def)
  then show ?thesis
    using assms by (simp add: make_eq bs_wf_def) (simp add: bs_view_def)
qed

lemma read_loop_eq:
  assumes "length cs = capacity" "length (bs_value d) = capacity" "index + n = capacity"
    and "take index (bs_value d) = take index cs"
  shows "read_loop n index cs d =
     (if list_all (\<lambda>k. if k < unat (bs_size d) then cs ! k \<le> 0x7f else cs ! k = 0) [index..<capacity]
      then Some (d\<lparr>bs_value := cs\<rparr>) else None)"
  using assms
proof (induction n arbitrary: index d)
  case 0
  then show ?case by (cases d) simp
next
  case (Suc n)
  let ?d = "d\<lparr>bs_value := (bs_value d)[index := cs ! index]\<rparr>"
  have lt: "index < capacity" using Suc.prems(3) by simp
  have "take (index + 1) (bs_value ?d) = take (index + 1) cs"
    using Suc.prems lt by (simp add: take_Suc_conv_app_nth)
  then have "read_loop n (index + 1) cs ?d =
     (if list_all (\<lambda>k. if k < unat (bs_size d) then cs ! k \<le> 0x7f else cs ! k = 0) [index + 1..<capacity]
      then Some (d\<lparr>bs_value := cs\<rparr>) else None)"
    using Suc.prems by (subst Suc.IH) simp_all
  then show ?case using lt by (auto simp: upt_conv_Cons not_less not_le Let_def)
qed

lemma wf_iff_chars:
  assumes "capacity \<le> 255" "length (bs_value d) = capacity" "unat (bs_size d) \<le> capacity"
  shows "bs_wf capacity d \<longleftrightarrow>
     list_all (\<lambda>k. if k < unat (bs_size d) then bs_value d ! k \<le> 0x7f else bs_value d ! k = 0) [0..<capacity]"
proof -
  let ?n = "unat (bs_size d)" and ?v = "bs_value d"
  have zero: "drop ?n ?v = replicate (capacity - ?n) 0 \<longleftrightarrow> (\<forall>k. ?n \<le> k \<and> k < capacity \<longrightarrow> ?v ! k = 0)"
  proof
    assume eq: "drop ?n ?v = replicate (capacity - ?n) 0"
    have "?v ! k = 0" if "?n \<le> k" "k < capacity" for k
    proof -
      have "?v ! k = drop ?n ?v ! (k - ?n)" using that assms(2) by simp
      then show ?thesis using that by (simp add: eq)
    qed
    then show "\<forall>k. ?n \<le> k \<and> k < capacity \<longrightarrow> ?v ! k = 0" by blast
  next
    assume "\<forall>k. ?n \<le> k \<and> k < capacity \<longrightarrow> ?v ! k = 0"
    then show "drop ?n ?v = replicate (capacity - ?n) 0"
      using assms(2) by (intro nth_equalityI) auto
  qed
  have low: "list_all (\<lambda>c. c \<le> 0x7f) (bs_view d) \<longleftrightarrow> (\<forall>k < ?n. ?v ! k \<le> 0x7f)"
    using assms(2,3) by (simp add: bs_view_def list_all_length)
  have all: "list_all R [0..<capacity] \<longleftrightarrow> (\<forall>k < capacity. R k)" for R
    by (auto simp: list_all_iff)
  have "(\<forall>k < capacity. if k < ?n then P k else Q k) \<longleftrightarrow> (\<forall>k < ?n. P k) \<and> (\<forall>k. ?n \<le> k \<and> k < capacity \<longrightarrow> Q k)"
    for P Q
    using assms(3) by (auto simp: not_less dest: less_le_trans)
  then show ?thesis
    using assms by (simp add: bs_wf_def zero low all)
qed

section \<open>The wire form is a codec\<close>

lemma writeBds_raw:
  "w_wf s \<Longrightarrow> writeBds s b =
     (writeRawBytes (writeRawBytes s [bs_size b]) (bs_value b),
      w_ok (writeRawBytes (writeRawBytes s [bs_size b]) (bs_value b)))"
  by (simp add: writeBds_def Let_def stream_simps)

lemma readBds_eq:
  assumes "r_wf r" "r_ok r" "capacity \<le> 255"
  shows "readBds capacity r old =
     (if length (unread r) < 1 + capacity
      then (fst (readBds capacity r old), old, False)
      else let b = \<lparr>bs_size = unread r ! 0, bs_value = take capacity (drop 1 (unread r))\<rparr>
           in (adv r (1 + capacity), if bs_wf capacity b then b else old, bs_wf capacity b))"
proof (cases "unread r")
  case Nil
  then show ?thesis
    using assms by (simp add: readBds_def readUInt8_spec readBytesView_spec Let_def BoundedAsciiString_def)
next
  case (Cons n cs)
  have cap: "unat (of_nat capacity :: u32) = capacity"
    using assms(3) by (simp add: unsigned_of_nat take_bit_nat_eq_self)
  show ?thesis
  proof (cases "length cs < capacity")
    case True
    then show ?thesis
      using assms Cons cap
      by (simp add: readBds_def readUInt8_spec readBytesView_spec Let_def BoundedAsciiString_def)
  next
    case False
    let ?b = "\<lparr>bs_size = n, bs_value = take capacity cs\<rparr>"
    define good where "good \<longleftrightarrow> list_all (\<lambda>k. if k < unat n then take capacity cs ! k \<le> 0x7f
        else take capacity cs ! k = 0) [0..<capacity]"
    have rd: "read_loop capacity 0 (take capacity cs) \<lparr>bs_size = n, bs_value = replicate capacity 0\<rparr> =
      (if good then Some ?b else None)"
      using False read_loop_eq [of "take capacity cs" capacity "\<lparr>bs_size = n, bs_value = replicate capacity 0\<rparr>" 0 capacity]
      unfolding good_def by simp
    have wf: "bs_wf capacity ?b \<longleftrightarrow> unat n \<le> capacity \<and> good"
    proof (cases "unat n \<le> capacity")
      case True
      then show ?thesis using wf_iff_chars [of capacity ?b] assms(3) False by (simp add: good_def)
    next
      case False
      then show ?thesis by (simp add: bs_wf_def)
    qed
    have "readUInt8 r 0 = (adv r 1, n)" using assms Cons by (simp add: readUInt8_spec)
    moreover have "readBytesView (adv r 1) (of_nat capacity) [] = (adv r (1 + capacity), take capacity cs)"
      using assms Cons cap False by (simp add: readBytesView_spec)
    ultimately show ?thesis
      using assms(2) Cons False
      by (cases good) (simp_all add: readBds_def BoundedAsciiString_def Let_def wf rd)
  qed
qed

lemma wf_length: "bs_wf capacity b \<Longrightarrow> length (bs_bytes b) = 1 + capacity"
  by (simp add: bs_wf_def bs_bytes_def)

lemma readBds_next:
  assumes "r_wf r" "r_ok r" "bs_wf capacity b" "unread r = bs_bytes b @ rest"
  shows "readBds capacity r old = (adv r (1 + capacity), b, True)"
proof -
  obtain n v where b: "b = \<lparr>bs_size = n, bs_value = v\<rparr>" by (cases b)
  have "capacity \<le> 255" "length v = capacity" using assms(3) by (simp_all add: bs_wf_def b)
  then show ?thesis
    using assms by (subst readBds_eq) (simp_all add: bs_bytes_def Let_def b)
qed

interpretation bds: wire_codec "\<lambda>s b. fst (writeBds s b)"
  "\<lambda>r old. (fst (readBds capacity r old), fst (snd (readBds capacity r old)))"
  "\<lambda>_. bs_bytes" "bs_wf capacity" for capacity
proof
  fix s :: wstream and b and r :: rstream and rest old
  show "w_wf s \<Longrightarrow> w_wf (fst (writeBds s b))" by (simp add: writeBds_raw)
  show "w_wf s \<Longrightarrow> w_ok (fst (writeBds s b)) \<longleftrightarrow> w_ok s \<and> length (bs_bytes b) \<le> w_remaining s"
    by (simp add: writeBds_raw raw_chain_ok del: append.simps) (simp add: raw_ok_iff bs_bytes_def)
  show "w_wf s \<Longrightarrow> length (bs_bytes b) \<le> w_remaining s \<Longrightarrow> fst (writeBds s b) = writeRawBytes s (bs_bytes b)"
    by (simp add: writeBds_raw raw_raw bs_bytes_def)
  show "r_wf r \<Longrightarrow> r_ok r \<Longrightarrow> bs_wf capacity b \<Longrightarrow> unread r = bs_bytes b @ rest \<Longrightarrow>
      (fst (readBds capacity r old), fst (snd (readBds capacity r old))) = (adv r (length (bs_bytes b)), b)"
    by (simp add: readBds_next wf_length)
qed

section \<open>Property\<close>

text \<open>The bounded string codec, exactly. For a capacity of at most 255, \<open>readBds\<close> accepts a buffer
if and only if it starts with the bytes \<open>writeBds\<close> produces for some text that \<open>make\<close> accepts (at
most \<open>capacity\<close> characters, all ASCII): any other length byte, a character above 0x7f or a nonzero
pad byte is refused and leaves the destination as it was. The string read is the one written, its
view is the text, and reading consumes the length byte and the whole array.\<close>

theorem bds_accepts_exactly:
  assumes "capacity \<le> 255"
  shows "case readBds capacity (BinaryReadStream m buf e mx) old of (r, b, ok) \<Rightarrow>
     (ok \<longleftrightarrow> (\<exists>t b' rest. bs_make capacity t = Some b'
        \<and> buf = written (fst (writeBds (BinaryWriteStream m' (replicate (1 + capacity) 0) e' mx') b')) @ rest))
   \<and> (if ok then bs_make capacity (bs_view b) = Some b \<and> bytesRead r = 1 + capacity
                \<and> take (1 + capacity) buf = bs_bytes b
      else b = old)"
proof -
  let ?r = "BinaryReadStream m buf e mx"
  let ?b = "\<lparr>bs_size = buf ! 0, bs_value = take capacity (drop 1 buf)\<rparr>"
  define W where "W b' = written (fst (writeBds (BinaryWriteStream m' (replicate (1 + capacity) 0) e' mx') b'))" for b'
  have image: "W b' = bs_bytes b'" if "bs_wf capacity b'" for b'
  proof -
    let ?w = "BinaryWriteStream m' (replicate (1 + capacity) 0) e' mx'"
    have "w_ok (fst (writeBds ?w b'))" using wf_length [OF that] by (simp add: bds.put_ok_iff)
    then show ?thesis using bds.put_written [of ?w b'] by (simp add: W_def)
  qed
  show ?thesis
  proof (cases "\<exists>t b' rest. bs_make capacity t = Some b' \<and> buf = bs_bytes b' @ rest")
    case True
    then obtain t b' rest where t: "bs_make capacity t = Some b'" "buf = bs_bytes b' @ rest" by blast
    note wf = make_wf(1) [OF assms t(1)]
    have "readBds capacity ?r old = (adv ?r (1 + capacity), b', True)"
      using t wf by (intro readBds_next) auto
    moreover have "take (1 + capacity) buf = bs_bytes b'"
      using wf_length [OF wf] by (simp add: t(2))
    moreover have "\<exists>t b'. bs_make capacity t = Some b' \<and> (\<exists>rest. buf = W b' @ rest)"
      by (intro exI conjI) (rule t(1), use t(2) image [OF wf] in simp)
    ultimately show ?thesis
      unfolding W_def [symmetric] using wf_make [OF wf] by (simp add: bytesRead_def)
  next
    case False
    have "\<not> bs_wf capacity ?b" if len: "1 + capacity \<le> length buf"
    proof
      assume wf: "bs_wf capacity ?b"
      have "buf = (buf ! 0 # take capacity (drop 1 buf)) @ drop (1 + capacity) buf"
        using len by (cases buf) simp_all
      then have "buf = bs_bytes ?b @ drop (1 + capacity) buf" by (simp only: bs_bytes_def bounded_string.simps)
      then show False using False wf_make [OF wf] by blast
    qed
    then have "snd (readBds capacity ?r old) = (old, False)"
      using readBds_eq [of ?r capacity old] assms by (simp add: Let_def not_less split: if_splits) (metis snd_conv)
    moreover have "\<not> (\<exists>t b' rest. bs_make capacity t = Some b' \<and> buf = W b' @ rest)"
      using False make_wf(1) [OF assms] image by metis
    ultimately show ?thesis unfolding W_def [symmetric] by (simp add: split_beta)
  qed
qed

theorem bds_accepts_exactly_witness:
  "case readBds 4 (BinaryReadStream Little [2, 0x41, 0x42, 0, 0, 9] Little 0) (BoundedAsciiString 4) of
     (r, b, ok) \<Rightarrow> if ok then bs_make 4 (bs_view b) = Some b \<and> bytesRead r = 1 + 4
         \<and> take (1 + 4) [2, 0x41, 0x42, 0, 0, 9] = bs_bytes b else b = BoundedAsciiString 4"
proof -
  obtain r b ok where rd: "readBds 4 (BinaryReadStream Little [2, 0x41, 0x42, 0, 0, 9] Little 0)
      (BoundedAsciiString 4) = (r, b, ok)" by (metis prod_cases3)
  have "(4 :: nat) \<le> 255" by simp
  from bds_accepts_exactly [OF this, where m = Little and buf = "[2, 0x41, 0x42, 0, 0, 9]"
      and e = Little and mx = 0 and old = "BoundedAsciiString 4" and m' = Little and e' = Little and mx' = 0]
  show ?thesis unfolding rd case_prod_conv by (rule conjunct2)
qed

end
