(* ===== verification/CommandLine.thy ===== *)
theory CommandLine
  imports Text
begin

text \<open>
  The number parsing the command-line programs share: \<open>strtoul\<close>, \<open>strtoull\<close> and \<open>strtol\<close> of the C library
  on 64-bit numbers in base 10, and the helpers \<open>parse_u16\<close> and \<open>parse_u32\<close> built on them. The result
  is the value and the text from \<open>*end\<close> on. Arguments hold no NUL, so that \<open>*end\<close> is the terminator
  exactly when nothing is left.
\<close>

definition c_isspace :: "char \<Rightarrow> bool" where
  "c_isspace c \<longleftrightarrow> code c = 32 \<or> (9 \<le> code c \<and> code c \<le> 13)"

definition strtoul_sign :: "string \<Rightarrow> bool \<times> string" where
  "strtoul_sign s = (case s of [] \<Rightarrow> (False, [])
     | c # rest \<Rightarrow> if c = CHR ''-'' then (True, rest) else if c = CHR ''+'' then (False, rest) else (False, s))"

text \<open>A value that does not fit is the largest one; a minus sign negates modulo \<open>2^64\<close>.\<close>

definition strtoul :: "string \<Rightarrow> nat \<times> string" where
  "strtoul s =
     (let (negative, body) = strtoul_sign (dropWhile c_isspace s);
          digits = takeWhile is_digit body;
          magnitude = nat_of_digits digits
      in if digits = [] then (0, s)
         else if magnitude \<ge> 2 ^ 64 then (2 ^ 64 - 1, drop (length digits) body)
         else ((if negative then (2 ^ 64 - magnitude) mod 2 ^ 64 else magnitude), drop (length digits) body))"

text \<open>\<open>strtol\<close> keeps the sign, and a value that does not fit is the nearest end of the 64-bit range.\<close>

definition strtol :: "string \<Rightarrow> int \<times> string" where
  "strtol s =
     (let (negative, body) = strtoul_sign (dropWhile c_isspace s);
          digits = takeWhile is_digit body;
          magnitude = int (nat_of_digits digits)
      in if digits = [] then (0, s)
         else ((if negative then (if magnitude > 2 ^ 63 then - (2 ^ 63) else - magnitude)
                else if magnitude \<ge> 2 ^ 63 then 2 ^ 63 - 1 else magnitude), drop (length digits) body))"

definition parse_option :: "nat \<Rightarrow> bool \<Rightarrow> string \<Rightarrow> nat option" where
  "parse_option bound allowZero s =
     (let (v, rest) = strtoul s
      in if rest \<noteq> [] \<or> (\<not> allowZero \<and> v = 0) \<or> v> bound then None else Some v)"

lemma digit_sign: "is_digit c \<Longrightarrow> c \<noteq> CHR ''-'' \<and> c \<noteq> CHR ''+'' \<and> \<not> c_isspace c"
  by (auto simp: is_digit_def in_chars_def c_isspace_def code_def)

text \<open>Every number that fits and is written in digits is read back.\<close>

lemma strtoul_show: "n < 2 ^ 64 \<Longrightarrow> strtoul (show_nat n) = (n, [])"
proof -
  assume n: "n < 2 ^ 64"
  obtain c cs where s: "show_nat n = c # cs" using show_nat_not_Nil by (cases "show_nat n") auto
  have c: "is_digit c" using show_nat_hd [of n] by (simp add: s)
  have "dropWhile c_isspace (show_nat n) = show_nat n" using digit_sign [OF c] by (simp add: s)
  moreover have "strtoul_sign (show_nat n) = (False, show_nat n)"
    using digit_sign [OF c] by (simp add: s strtoul_sign_def)
  moreover have "takeWhile is_digit (show_nat n) = show_nat n"
    using show_nat_digits [of n] by (simp add: list_all_iff takeWhile_eq_all_conv)
  ultimately show ?thesis using n by (simp add: strtoul_def s [symmetric] Let_def del: takeWhile_eq_all_conv)
qed

lemma strtol_show: "n < 2 ^ 63 \<Longrightarrow> strtol (show_nat n) = (int n, [])"
proof -
  assume n: "n < 2 ^ 63"
  obtain c cs where s: "show_nat n = c # cs" using show_nat_not_Nil by (cases "show_nat n") auto
  have c: "is_digit c" using show_nat_hd [of n] by (simp add: s)
  have "dropWhile c_isspace (show_nat n) = show_nat n" using digit_sign [OF c] by (simp add: s)
  moreover have "strtoul_sign (show_nat n) = (False, show_nat n)"
    using digit_sign [OF c] by (simp add: s strtoul_sign_def)
  moreover have "takeWhile is_digit (show_nat n) = show_nat n"
    using show_nat_digits [of n] by (simp add: list_all_iff takeWhile_eq_all_conv)
  ultimately show ?thesis using n by (simp add: strtol_def s [symmetric] Let_def del: takeWhile_eq_all_conv)
qed

lemma strtol_range: "- (2 ^ 63) \<le> fst (strtol s) \<and> fst (strtol s) < 2 ^ 63"
  by (simp add: strtol_def Let_def split: prod.split)

lemma parse_option_show:
  "n < 2 ^ 64 \<Longrightarrow> parse_option bound allowZero (show_nat n) = (if (n = 0 \<and> \<not> allowZero) \<or> n> bound then None else Some n)"
  by (simp add: parse_option_def strtoul_show)

lemma parse_option_bounds:
  "parse_option bound allowZero s = Some n \<Longrightarrow> n \<le> bound \<and> (allowZero \<or> 0 < n)"
  by (auto simp: parse_option_def Let_def split: prod.splits if_splits)

end
