(* ===== verification/RetryServer.thy ===== *)
theory RetryServer
  imports MessageFrame CommandLine
begin

text \<open>
  Chapter 12: the weather control protocol (\<open>WeatherControlProtocol.h\<close>) and the server of the retry
  lab (\<open>retry_server.cpp\<close>). The handlers return the new context and the datagrams they gave to
  \<open>sendto\<close>; what is printed is left out. An enumeration read from the wire is kept as its number,
  since \<open>static_cast\<close> lets any number through.
\<close>

section \<open>The control protocol\<close>

definition WeatherControlServiceId :: u16 where "WeatherControlServiceId = 1"

definition MsgSetReportingInterval :: u16 where "MsgSetReportingInterval = 1"
definition MsgAck :: u16 where "MsgAck = 2"
definition MsgNack :: u16 where "MsgNack = 3"

definition NackBusy :: u8 where "NackBusy = 1"
definition NackInvalidValue :: u8 where "NackInvalidValue = 2"
definition NackUnsupportedOperation :: u8 where "NackUnsupportedOperation = 3"

definition writeSetReportingIntervalRequest :: "wstream \<Rightarrow> u32 \<Rightarrow> wstream" where
  "writeSetReportingIntervalRequest writer intervalMilliseconds = writeUInt32 writer intervalMilliseconds"

definition readSetReportingIntervalRequest :: "rstream \<Rightarrow> u32 \<Rightarrow> rstream \<times> u32" where
  "readSetReportingIntervalRequest reader intervalMilliseconds = readUInt32 reader intervalMilliseconds"

definition writeNackResponse :: "wstream \<Rightarrow> u8 \<Rightarrow> wstream" where
  "writeNackResponse writer reason = writeUInt8 writer reason"

definition readNackResponse :: "rstream \<Rightarrow> u8 \<Rightarrow> rstream \<times> u8" where
  "readNackResponse reader responseReason =
     (let (reader', reason) = readUInt8 reader 0
      in (reader', if r_ok reader' then reason else responseReason))"

definition isKnownNackReason :: "u8 \<Rightarrow> bool" where
  "isKnownNackReason reason \<longleftrightarrow>
     reason = NackBusy \<or> reason = NackInvalidValue \<or> reason = NackUnsupportedOperation"

definition nack_reason_name :: "u8 \<Rightarrow> string" where
  "nack_reason_name reason = (if reason = NackBusy then ''busy''
     else if reason = NackInvalidValue then ''invalid value''
     else if reason = NackUnsupportedOperation then ''unsupported operation'' else ''unknown'')"

section \<open>Options of the server\<close>

datatype ServerMode = Normal | DropFirstAck | BusyOnce | Silent

definition parse_mode :: "string \<Rightarrow> ServerMode option" where
  "parse_mode s = (if s = ''normal'' then Some Normal
     else if s = ''drop-first-ack'' then Some DropFirstAck
     else if s = ''busy-once'' then Some BusyOnce
     else if s = ''silent'' then Some Silent else None)"

definition mode_name :: "ServerMode \<Rightarrow> string" where
  "mode_name mode = (case mode of Normal \<Rightarrow> ''normal'' | DropFirstAck \<Rightarrow> ''drop-first-ack''
     | BusyOnce \<Rightarrow> ''busy-once'' | Silent \<Rightarrow> ''silent'')"

record server_options =
  so_port :: nat
  so_mode :: ServerMode

definition default_server_options :: server_options where
  "default_server_options = \<lparr>so_port = 9100, so_mode = Normal\<rparr>"

text \<open>\<open>Inl True\<close>: help was asked for, the program ends with status 0; \<open>Inl False\<close>: refused.\<close>

fun server_args :: "string list \<Rightarrow> server_options \<Rightarrow> bool + server_options" where
  "server_args [] opts = Inr opts"
| "server_args (arg # rest) opts =
     (if arg = ''--help'' \<or> arg = ''-h'' then Inl True
      else if arg = ''--port''
      then (case rest of [] \<Rightarrow> Inl False
            | v # rest' \<Rightarrow> (case parse_option 65535 False v of None \<Rightarrow> Inl False
                | Some port \<Rightarrow> server_args rest' (opts\<lparr>so_port := port\<rparr>)))
      else if arg = ''--mode''
      then (case rest of [] \<Rightarrow> Inl False
            | v # rest' \<Rightarrow> (case parse_mode v of None \<Rightarrow> Inl False
                | Some mode \<Rightarrow> server_args rest' (opts\<lparr>so_mode := mode\<rparr>)))
      else Inl False)"

section \<open>Responses\<close>

record server =
  sv_stopRequested :: bool
  sv_interval :: u32
  sv_hasCompletedTransaction :: bool
  sv_completedTransactionId :: u32
  sv_firstAckDropped :: bool
  sv_busyNackSent :: bool
  sv_mode :: ServerMode

definition server_context :: "ServerMode \<Rightarrow> server" where
  "server_context mode = \<lparr>sv_stopRequested = False, sv_interval = 1000, sv_hasCompletedTransaction = False,
     sv_completedTransactionId = 0, sv_firstAckDropped = False, sv_busyNackSent = False, sv_mode = mode\<rparr>"

text \<open>The frame that goes to \<open>sendto\<close>, or nothing when it cannot be built.\<close>

definition response_frame :: "Endianness \<Rightarrow> u32 \<Rightarrow> u16 \<Rightarrow> bytes \<Rightarrow> bytes option" where
  "response_frame machine transaction messageTypeCode payload =
     (let header = defaultHeader\<lparr>payloadEndian := 0, serviceId := WeatherControlServiceId,
            messageType := messageTypeCode, transactionId := transaction\<rparr>;
          (status, frameStorage, frameSize) = writeFrameV1 machine (replicate 64 0) header payload
      in if status \<noteq> FrameOk then None else Some (take frameSize frameStorage))"

definition send_ack :: "Endianness \<Rightarrow> u32 \<Rightarrow> bytes option" where
  "send_ack machine transaction = response_frame machine transaction MsgAck []"

definition send_nack :: "Endianness \<Rightarrow> u32 \<Rightarrow> u8 \<Rightarrow> bytes option" where
  "send_nack machine transaction reason =
     (let writer = BinaryWriteStream machine (replicate 8 0) Little defaultMaxSizedField;
          writer' = writeNackResponse writer reason
      in if \<not> w_ok writer' then None
         else response_frame machine transaction MsgNack (take (bytesWritten writer') (w_buf writer')))"

definition on_server_signal :: "server \<Rightarrow> server" where
  "on_server_signal context = context\<lparr>sv_stopRequested := True\<rparr>"

section \<open>The request handler\<close>

definition completed_before :: "server \<Rightarrow> u32 \<Rightarrow> bool" where
  "completed_before context transaction \<longleftrightarrow>
     sv_hasCompletedTransaction context \<and> transaction = sv_completedTransactionId context"

text \<open>The operation itself, after the checks of the request.\<close>

definition set_interval_step :: "Endianness \<Rightarrow> server \<Rightarrow> u32 \<Rightarrow> u32 \<Rightarrow> server \<times> bytes option" where
  "set_interval_step machine context transaction intervalMilliseconds =
     (let context1 = context\<lparr>sv_interval := intervalMilliseconds, sv_hasCompletedTransaction := True,
                        sv_completedTransactionId := transaction\<rparr>
      in if sv_mode context1 = DropFirstAck \<and> \<not> sv_firstAckDropped context1
         then (context1\<lparr>sv_firstAckDropped := True\<rparr>, None)
         else if sv_mode context1 = Silent then (context1, None)
         else (context1, send_ack machine transaction))"

definition on_request :: "Endianness \<Rightarrow> bytes \<Rightarrow> server \<Rightarrow> server \<times> bytes option" where
  "on_request machine datagram context =
     (let (frameStatus, header, payload) = readFrameV1 machine datagram defaultHeader;
          transaction = transactionId header
      in if frameStatus \<noteq> FrameOk then (context, None)
         else if serviceId header \<noteq> WeatherControlServiceId then (context, None)
         else if transaction = 0 then (context, None)
         else if messageType header \<noteq> MsgSetReportingInterval
         then (context, send_nack machine transaction NackUnsupportedOperation)
         else if completed_before context transaction
         then (if sv_mode context = Silent then (context, None) else (context, send_ack machine transaction))
         else if sv_mode context = BusyOnce \<and> \<not> sv_busyNackSent context
         then (context\<lparr>sv_busyNackSent := True\<rparr>, send_nack machine transaction NackBusy)
         else let reader = BinaryReadStream machine payload
                             (payloadEndianFromHeader (payloadEndian header)) defaultMaxSizedField;
                  (reader', intervalMilliseconds) = readSetReportingIntervalRequest reader 0
         in if \<not> r_ok reader' \<or> r_remaining reader' \<noteq> 0 then (context, None)
            else if intervalMilliseconds < 100 \<or> intervalMilliseconds > 60000
            then (context, send_nack machine transaction NackInvalidValue)
            else set_interval_step machine context transaction intervalMilliseconds)"

section \<open>What the responses are\<close>

definition response_header :: "u32 \<Rightarrow> u16 \<Rightarrow> MessageHeaderV1" where
  "response_header transaction messageTypeCode = defaultHeader\<lparr>payloadEndian := 0,
     serviceId := WeatherControlServiceId, messageType := messageTypeCode, transactionId := transaction\<rparr>"

lemma response_header_ok: "hdr_fields_ok ((response_header t ty)\<lparr>headerSize := 28\<rparr>)"
  by (simp add: hdr_fields_ok_def response_header_def defaultHeader_def isValidPayloadEndian_def)

lemma response_frame_eq: "length p \<le> 36 \<Longrightarrow> response_frame m t ty p = Some (built_frame m (response_header t ty) p)"
  using writeFrameV1_built [of p 64 m "response_header t ty"]
  by (auto simp: response_frame_def response_header_def UInt32Max_def split: prod.splits)

lemma send_ack_eq: "send_ack m t = Some (built_frame m (response_header t MsgAck) [])"
  by (simp add: send_ack_def response_frame_eq)

lemma send_nack_eq: "send_nack m t reason = Some (built_frame m (response_header t MsgNack) [reason])"
proof -
  let ?w = "writeUInt8 (BinaryWriteStream m (replicate 8 0) Little defaultMaxSizedField) reason"
  have "w_ok ?w" by (rule u8c.put_fits) auto
  moreover from this have "take (bytesWritten ?w) (w_buf ?w) = [reason]"
    using u8c.put_written [of "BinaryWriteStream m (replicate 8 0) Little defaultMaxSizedField" reason]
    by (simp add: written_def bytesWritten_def)
  ultimately show ?thesis
    by (simp add: send_nack_def writeNackResponse_def Let_def response_frame_eq)
qed

lemma read_response:
  assumes "length p \<le> UInt32Max"
  shows "readFrameV1 m' (built_frame m (response_header t ty) p) old
    = (FrameOk, finalizeCrcs m (response_header t ty) p, p)"
  using assms response_header_ok by (rule readFrameV1_built)

lemma response_fields:
  "serviceId (finalizeCrcs m (response_header t ty) p) = WeatherControlServiceId"
  "messageType (finalizeCrcs m (response_header t ty) p) = ty"
  "transactionId (finalizeCrcs m (response_header t ty) p) = t"
  "payloadEndian (finalizeCrcs m (response_header t ty) p) = 0"
  by (simp_all add: finalizeCrcs_fields response_header_def)

section \<open>The contract of the service\<close>

text \<open>
  What a client that sends again relies on: a request that has been carried out is not carried out
  again, whatever else arrives, and only a request that has been carried out is confirmed.
\<close>

locale idempotent_service =
  fixes handle :: "'r \<Rightarrow> 's \<Rightarrow> 's \<times> 'a option"
    and carried_out :: "'r \<Rightarrow> 's \<Rightarrow> bool"
    and confirms :: "'r \<Rightarrow> 'a \<Rightarrow> bool"
    and harmless :: "'r \<Rightarrow> 'r \<Rightarrow> bool"
  assumes once: "carried_out r s \<Longrightarrow> fst (handle r s) = s"
    and stays: "carried_out r s \<Longrightarrow> harmless r r' \<Longrightarrow> carried_out r (fst (handle r' s))"
    and truthful: "handle r s = (s', Some a) \<Longrightarrow> confirms r a \<Longrightarrow> carried_out r s'"
begin

primrec serve :: "'r list \<Rightarrow> 's \<Rightarrow> 's \<times> 'a list" where
  "serve [] s = (s, [])"
| "serve (r # rs) s =
     (let (s1, a) = handle r s; (s2, as) = serve rs s1
      in (s2, (case a of None \<Rightarrow> as | Some x \<Rightarrow> x # as)))"

lemma serve_again: "carried_out r s \<Longrightarrow> fst (serve (replicate n r) s) = s"
  by (induction n) (auto simp: once Let_def split_beta)

lemma confirmed_was_done:
  assumes "a \<in> set (snd (serve (replicate n r) s))" "confirms r a"
  shows "carried_out r (fst (serve (replicate n r) s))"
  using assms
proof (induction n arbitrary: s)
  case (Suc n)
  obtain s1 x where h: "handle r s = (s1, x)" by fastforce
  obtain s2 as where rest: "serve (replicate n r) s1 = (s2, as)" by fastforce
  show ?case
  proof (cases "a \<in> set as")
    case True
    then show ?thesis using Suc.IH [of s1] Suc.prems(2) by (simp add: h rest)
  next
    case False
    then have "x = Some a" using Suc.prems(1) by (auto simp: h rest split: option.splits)
    then have "carried_out r s1" using truthful h Suc.prems(2) by simp
    moreover from this have "s2 = s1" using serve_again [of r s1 n] rest by simp
    ultimately show ?thesis by (simp add: h rest)
  qed
qed simp

end

section \<open>The server fulfils it\<close>

definition request_for :: "u32 \<Rightarrow> bytes \<Rightarrow> bool" where
  "request_for t d \<longleftrightarrow> (case readFrameV1 Little d defaultHeader of (st, h, p) \<Rightarrow>
     st = FrameOk \<and> serviceId h = WeatherControlServiceId \<and> transactionId h = t \<and> t \<noteq> 0
   \<and> messageType h = MsgSetReportingInterval)"

definition carried_out :: "bytes \<Rightarrow> server \<Rightarrow> bool" where
  "carried_out d s \<longleftrightarrow> request_for (sv_completedTransactionId s) d \<and> sv_hasCompletedTransaction s"

definition confirms :: "bytes \<Rightarrow> bytes \<Rightarrow> bool" where
  "confirms d a \<longleftrightarrow> (case readFrameV1 Little a defaultHeader of (st, h, p) \<Rightarrow>
     st = FrameOk \<and> messageType h = MsgAck)"

text \<open>The server remembers one transaction: a request of another transaction makes it forget.\<close>

definition harmless :: "bytes \<Rightarrow> bytes \<Rightarrow> bool" where
  "harmless d d' \<longleftrightarrow> (\<exists>t. request_for t d \<and> (request_for t d' \<or> (\<nexists>t'. request_for t' d')))"

lemma readFrameV1_machine: "readFrameV1 m d old = (FrameOk, h, p) \<longleftrightarrow> readFrameV1 Little d old' = (FrameOk, h, p)"
  by (simp add: readFrameV1_Ok_iff)

lemma request_for_unique: "request_for t d \<Longrightarrow> request_for t' d \<Longrightarrow> t' = t"
  by (auto simp: request_for_def split: prod.splits)

text \<open>Every run of the handler: nothing happens, a refusal, a duplicate, or the operation.\<close>

lemma on_request_cases:
  assumes "on_request m d s = (s', r)"
  obtains (ignored) "s' = s" "r = None"
  | (refused) t reason where "s' = s \<or> s' = s\<lparr>sv_busyNackSent := True\<rparr>" "r = send_nack m t reason"
      "\<not> carried_out d s"
  | (duplicate) "carried_out d s" "s' = s" "r = (if sv_mode s = Silent then None else send_ack m (sv_completedTransactionId s))"
  | (executed) t v where "request_for t d" "\<not> carried_out d s" "set_interval_step m s t v = (s', r)"
      "100 \<le> v" "v \<le> 60000"
proof -
  obtain st h p where rd: "readFrameV1 m d defaultHeader = (st, h, p)" by (metis prod_cases3)
  show ?thesis
  proof (cases "st = FrameOk \<and> serviceId h = WeatherControlServiceId \<and> transactionId h \<noteq> 0")
    case False
    then have "s' = s" "r = None" using assms by (auto simp: on_request_def rd Let_def split: if_splits)
    then show ?thesis by (rule ignored)
  next
    case True
    then have lit: "readFrameV1 Little d defaultHeader = (FrameOk, h, p)" using rd readFrameV1_machine by blast
    have iff: "request_for t d \<longleftrightarrow> t = transactionId h \<and> messageType h = MsgSetReportingInterval" for t
      using True lit by (auto simp: request_for_def)
    have done_iff: "carried_out d s \<longleftrightarrow> messageType h = MsgSetReportingInterval \<and> completed_before s (transactionId h)"
      by (auto simp: carried_out_def iff completed_before_def)
    obtain q v where rv: "readSetReportingIntervalRequest (BinaryReadStream m p
        (payloadEndianFromHeader (payloadEndian h)) defaultMaxSizedField) 0 = (q, v)" by fastforce
    note body = assms [unfolded on_request_def rd Let_def prod.case rv]
    show ?thesis
    proof (cases "messageType h = MsgSetReportingInterval")
      case False
      then show ?thesis using refused [of "transactionId h" NackUnsupportedOperation] body True done_iff by auto
    next
      case set: True
      show ?thesis
      proof (cases "completed_before s (transactionId h)")
        case comp: True
        then have "transactionId h = sv_completedTransactionId s" by (simp add: completed_before_def)
        then show ?thesis using duplicate body True set comp done_iff by (auto split: if_splits)
      next
        case fresh: False
        then have new: "\<not> carried_out d s" and req: "request_for (transactionId h) d"
          using done_iff iff set by simp_all
        show ?thesis
        proof (cases "sv_mode s = BusyOnce \<and> \<not> sv_busyNackSent s")
          case busy: True
          then have "s' = s\<lparr>sv_busyNackSent := True\<rparr>" "r = send_nack m (transactionId h) NackBusy"
            using body True set fresh by simp_all
          then show ?thesis using refused new by blast
        next
          case free: False
          have rest: "(if \<not> r_ok q \<or> r_remaining q \<noteq> 0 then (s, None)
             else if v < 100 \<or> v > 60000 then (s, send_nack m (transactionId h) NackInvalidValue)
             else set_interval_step m s (transactionId h) v) = (s', r)"
            using body True set fresh free by simp
          show ?thesis
          proof (cases "r_ok q \<and> r_remaining q = 0")
            case malformed: False
            then have "s' = s" "r = None" using rest by auto
            then show ?thesis by (rule ignored)
          next
            case good: True
            show ?thesis
            proof (cases "v < 100 \<or> v > 60000")
              case out: True
              then have "s' = s" "r = send_nack m (transactionId h) NackInvalidValue" using rest good by simp_all
              then show ?thesis using refused new by blast
            next
              case False
              then have "set_interval_step m s (transactionId h) v = (s', r)" "100 \<le> v" "v \<le> 60000"
                using rest good by (auto simp: not_less split: if_splits)
              then show ?thesis using executed req new by blast
            qed
          qed
        qed
      qed
    qed
  qed
qed

lemma nack_does_not_confirm: "send_nack m t reason = Some a \<Longrightarrow> \<not> confirms d a"
  using read_response [of "[reason]" Little m t MsgNack defaultHeader]
  by (auto simp: send_nack_eq confirms_def UInt32Max_def response_fields MsgAck_def MsgNack_def)

lemma executed_state:
  assumes "set_interval_step m s t v = (s', r)"
  shows "sv_interval s' = v" "sv_hasCompletedTransaction s'" "sv_completedTransactionId s' = t" "sv_mode s' = sv_mode s"
  using assms by (auto simp: set_interval_step_def Let_def split: if_splits)

lemma harmless_kept:
  assumes "carried_out d s" "harmless d d'" "on_request m d' s = (s', r)"
  shows "carried_out d s'"
  using assms(3)
proof (cases rule: on_request_cases)
  case (executed t v)
  obtain u where u: "request_for u d" "request_for u d' \<or> (\<nexists>t'. request_for t' d')"
    using assms(2) by (auto simp: harmless_def)
  then have "t = u" using executed(1) request_for_unique by blast
  moreover have "u = sv_completedTransactionId s"
    using assms(1) u(1) request_for_unique by (auto simp: carried_out_def)
  ultimately have "carried_out d' s" using executed(1) assms(1) by (simp add: carried_out_def)
  then show ?thesis using executed(2) by simp
qed (use assms(1) in \<open>auto simp: carried_out_def\<close>)

interpretation svc: idempotent_service "on_request m" carried_out confirms harmless for m
proof
  fix d d' s s' a
  show "fst (on_request m d s) = s" if "carried_out d s"
  proof -
    obtain s2 r where out: "on_request m d s = (s2, r)" by fastforce
    then show ?thesis by (cases rule: on_request_cases) (use that out in auto)
  qed
  show "carried_out d (fst (on_request m d' s))" if "carried_out d s" "harmless d d'"
    using harmless_kept [OF that, of m] by (metis prod.collapse)
  show "carried_out d s'" if "on_request m d s = (s', Some a)" "confirms d a"
    using that(1)
  proof (cases rule: on_request_cases)
    case (refused t reason)
    then show ?thesis using that(2) nack_does_not_confirm [of m t reason a d] by simp
  next
    case (executed t v)
    then show ?thesis using executed_state [OF executed(3)] by (simp add: carried_out_def)
  qed (use that(2) in auto)
qed

end
