(* ===== verification/Receivers.thy ===== *)
theory Receivers
  imports Text "HOL-Library.Sublist"
begin

text \<open>
  The readable sources of \<open>Common/src\<close>: \<open>UartLineReceiver\<close>, \<open>UdpDatagramReceiver\<close>,
  \<open>TimerFdSource\<close>, \<open>SignalFdSource\<close>, and the \<open>EpollReactor\<close> that dispatches to them. The operating
  system is a parameter: the results of the system calls, in the order the code makes them, are
  an argument. A file descriptor that a failing \<open>open\<close> gives back appears in the list of closed
  descriptors. A handler is a flag (null or not) and the calls to it are the output. Counters
  are \<open>uint64_t\<close> and wrap.
\<close>

section \<open>System calls\<close>

datatype errno = EAGAIN | EWOULDBLOCK | EINTR | OtherErrno
datatype 'd read_result = RData 'd | RZero | RError errno

definition LF :: char where "LF = CHR 0x0A"
definition CR :: char where "CR = CHR 0x0D"

record PortStats =
  bytes_received :: u64
  frames_received :: u64
  frames_dropped :: u64
  read_errors :: u64
  overflow_errors :: u64

definition noStats :: PortStats where
  "noStats = \<lparr>bytes_received = 0, frames_received = 0, frames_dropped = 0, read_errors = 0,
     overflow_errors = 0\<rparr>"

definition close_fd :: "int \<Rightarrow> int \<times> int list" where
  "close_fd fd = (if fd \<ge> 0 then (-1, [fd]) else (fd, []))"

text \<open>The two \<open>fcntl\<close> results of \<open>set_nonblocking\<close>.\<close>

definition set_nonblocking :: "int \<times> int \<Rightarrow> bool" where
  "set_nonblocking r = (case r of (flags, res) \<Rightarrow> if flags < 0 then False else res = 0)"

section \<open>UartLineReceiver\<close>

record UartLineReceiver =
  u_fd :: int
  u_baud :: int
  u_handler :: bool
  u_maxLineBytes :: nat
  u_line :: string
  u_stats :: PortStats

definition baud_to_speed :: "int \<Rightarrow> int" where
  "baud_to_speed baud =
     (if baud \<in> {4800, 9600, 19200, 38400, 57600, 115200} then baud else 0)"

definition UartLineReceiver :: "int \<Rightarrow> bool \<Rightarrow> nat \<Rightarrow> UartLineReceiver" where
  "UartLineReceiver baud handler maxLineBytes =
     \<lparr>u_fd = -1, u_baud = baud, u_handler = handler,
      u_maxLineBytes = (if maxLineBytes = 0 then 1 else maxLineBytes), u_line = [],
      u_stats = noStats\<rparr>"

record uart_os =
  os_open :: int
  os_tcgetattr :: int
  os_cfsetispeed :: int
  os_cfsetospeed :: int
  os_tcsetattr :: int
  os_fcntl :: "int \<times> int"

definition uart_open_fail :: "UartLineReceiver \<Rightarrow> UartLineReceiver \<times> bool \<times> int list" where
  "uart_open_fail u = (let (fd, closed) = close_fd (u_fd u) in (u\<lparr>u_fd := fd\<rparr>, False, closed))"

definition uart_open :: "uart_os \<Rightarrow> UartLineReceiver \<Rightarrow> UartLineReceiver \<times> bool \<times> int list" where
  "uart_open os u =
     (if u_fd u \<ge> 0 then (u, True, [])
      else let speed = baud_to_speed (u_baud u)
           in if speed = 0 then (u, False, [])
              else let u1 = u\<lparr>u_fd := os_open os\<rparr>
                   in if u_fd u1 < 0 then (u1, False, [])
                      else if os_tcgetattr os \<noteq> 0 then uart_open_fail u1
                      else if os_cfsetispeed os \<noteq> 0 \<or> os_cfsetospeed os \<noteq> 0 then uart_open_fail u1
                      else if os_tcsetattr os \<noteq> 0 then uart_open_fail u1
                      else if \<not> set_nonblocking (os_fcntl os) then uart_open_fail u1
                      else (u1, True, []))"

definition reset_line :: "UartLineReceiver \<Rightarrow> UartLineReceiver" where
  "reset_line u = u\<lparr>u_line := []\<rparr>"

definition accept_byte :: "UartLineReceiver \<Rightarrow> char \<Rightarrow> UartLineReceiver \<times> bool" where
  "accept_byte u c =
     (if c = CR then (u, False)
      else if c = LF then (u, u_line u \<noteq> [])
      else if length (u_line u) \<ge> u_maxLineBytes u
      then (reset_line (u\<lparr>u_stats := (u_stats u)
              \<lparr>frames_dropped := frames_dropped (u_stats u) + 1,
               overflow_errors := overflow_errors (u_stats u) + 1\<rparr>\<rparr>), False)
      else (u\<lparr>u_line := u_line u @ [c]\<rparr>, False))"

fun uart_feed :: "UartLineReceiver \<Rightarrow> string \<Rightarrow> UartLineReceiver \<times> string list" where
  "uart_feed u [] = (u, [])"
| "uart_feed u (c # cs) =
     (let (u1, complete) = accept_byte u c
      in if \<not> complete then uart_feed u1 cs
         else let u2 = u1\<lparr>u_stats := (u_stats u1)
                         \<lparr>frames_received := frames_received (u_stats u1) + 1\<rparr>\<rparr>;
                  calls = (if u_handler u2 then [u_line u2] else []);
                  (u3, more) = uart_feed (reset_line u2) cs
              in (u3, calls @ more))"

text \<open>The loop of \<open>on_readable\<close>: no further result means that the call would block.\<close>

fun uart_loop ::
  "UartLineReceiver \<Rightarrow> string read_result list \<Rightarrow> UartLineReceiver \<times> string list \<times> string read_result list"
where
  "uart_loop u [] = (u, [], [])"
| "uart_loop u (RError e # rs) =
     (if e = EAGAIN \<or> e = EWOULDBLOCK then (u, [], rs)
      else (u\<lparr>u_stats := (u_stats u)\<lparr>read_errors := read_errors (u_stats u) + 1\<rparr>\<rparr>, [], rs))"
| "uart_loop u (RZero # rs) = (u, [], rs)"
| "uart_loop u (RData rx # rs) =
     (let u1 = u\<lparr>u_stats := (u_stats u)
                 \<lparr>bytes_received := bytes_received (u_stats u) + of_nat (length rx)\<rparr>\<rparr>;
          (u2, calls) = uart_feed u1 rx;
          (u3, more, rest) = uart_loop u2 rs
      in (u3, calls @ more, rest))"

definition uart_on_readable ::
  "UartLineReceiver \<Rightarrow> string read_result list \<Rightarrow> UartLineReceiver \<times> string list \<times> string read_result list"
where
  "uart_on_readable u rs = (if u_fd u < 0 then (u, [], rs) else uart_loop u rs)"

section \<open>UdpDatagramReceiver\<close>

record UdpDatagramReceiver =
  d_fd :: int
  d_requestedPort :: u16
  d_localPort :: u16
  d_handler :: bool
  d_buffer :: bytes
  d_stats :: PortStats

definition UdpDatagramReceiver :: "u16 \<Rightarrow> bool \<Rightarrow> nat \<Rightarrow> UdpDatagramReceiver" where
  "UdpDatagramReceiver port handler maxDatagramBytes =
     \<lparr>d_fd = -1, d_requestedPort = port, d_localPort = 0, d_handler = handler,
      d_buffer = replicate (if maxDatagramBytes = 0 then 1 else maxDatagramBytes) 0,
      d_stats = noStats\<rparr>"

record udp_os =
  os_socket :: int
  os_bind :: int
  os_getsockname :: "u16 option"
  os_udp_fcntl :: "int \<times> int"

definition udp_open_fail :: "UdpDatagramReceiver \<Rightarrow> UdpDatagramReceiver \<times> bool \<times> int list" where
  "udp_open_fail d = (let (fd, closed) = close_fd (d_fd d) in (d\<lparr>d_fd := fd\<rparr>, False, closed))"

definition udp_open :: "udp_os \<Rightarrow> UdpDatagramReceiver \<Rightarrow> UdpDatagramReceiver \<times> bool \<times> int list" where
  "udp_open os d =
     (if d_fd d \<ge> 0 then (d, True, [])
      else let d1 = d\<lparr>d_fd := os_socket os\<rparr>
           in if d_fd d1 < 0 then (d1, False, [])
              else if os_bind os \<noteq> 0 then udp_open_fail d1
              else let d2 = (case os_getsockname os of
                               Some port \<Rightarrow> d1\<lparr>d_localPort := port\<rparr> | None \<Rightarrow> d1)
                   in if \<not> set_nonblocking (os_udp_fcntl os) then udp_open_fail d2
                      else (d2, True, []))"

text \<open>
  A datagram carries its source address; the kernel keeps the part that fits the buffer. The loop
  ends on a datagram without content, as the code's \<open>n == 0\<close> test has it.
\<close>

fun udp_loop ::
  "UdpDatagramReceiver \<Rightarrow> (bytes \<times> 'addr) read_result list
    \<Rightarrow> UdpDatagramReceiver \<times> (bytes \<times> 'addr) list \<times> (bytes \<times> 'addr) read_result list"
where
  "udp_loop d [] = (d, [], [])"
| "udp_loop d (RError e # rs) =
     (if e = EAGAIN \<or> e = EWOULDBLOCK then (d, [], rs)
      else (d\<lparr>d_stats := (d_stats d)\<lparr>read_errors := read_errors (d_stats d) + 1\<rparr>\<rparr>, [], rs))"
| "udp_loop d (RZero # rs) = (d, [], rs)"
| "udp_loop d (RData (datagram, src) # rs) =
     (let stored = take (length (d_buffer d)) datagram; count = length stored
      in if count = 0 then (d, [], rs)
         else let d1 = d\<lparr>d_buffer := blit (d_buffer d) 0 stored,
                        d_stats := (d_stats d)
                          \<lparr>bytes_received := bytes_received (d_stats d) + of_nat count,
                           frames_received := frames_received (d_stats d) + 1\<rparr>\<rparr>;
                  calls = (if d_handler d1 then [(take count (d_buffer d1), src)] else []);
                  (d2, more, rest) = udp_loop d1 rs
              in (d2, calls @ more, rest))"

definition udp_on_readable ::
  "UdpDatagramReceiver \<Rightarrow> (bytes \<times> 'addr) read_result list
    \<Rightarrow> UdpDatagramReceiver \<times> (bytes \<times> 'addr) list \<times> (bytes \<times> 'addr) read_result list"
where
  "udp_on_readable d rs = (if d_fd d < 0 then (d, [], rs) else udp_loop d rs)"

section \<open>TimerFdSource\<close>

record TimerFdSource =
  tm_fd :: int
  tm_handler :: bool
  tm_totalExpirations :: u64
  tm_readErrors :: u64

record timespec =
  tv_sec :: int
  tv_nsec :: int

definition TimerFdSource :: "bool \<Rightarrow> TimerFdSource" where
  "TimerFdSource handler =
     \<lparr>tm_fd = -1, tm_handler = handler, tm_totalExpirations = 0, tm_readErrors = 0\<rparr>"

definition to_timespec :: "int \<Rightarrow> timespec" where
  "to_timespec ms =
     (let duration = (if ms < 0 then 0 else ms);
          seconds = duration div 1000;
          remainder = duration - seconds * 1000
      in \<lparr>tv_sec = seconds, tv_nsec = remainder * 1000000\<rparr>)"

definition timer_open :: "int \<Rightarrow> TimerFdSource \<Rightarrow> TimerFdSource \<times> bool" where
  "timer_open created t =
     (if tm_fd t \<ge> 0 then (t, True) else (let t1 = t\<lparr>tm_fd := created\<rparr> in (t1, tm_fd t1 \<ge> 0)))"

text \<open>
  The kernel call \<open>timerfd_settime\<close> as a function of the two times; its arguments are part of the
  result, so that what the timer was set to is visible.
\<close>

definition timer_set_time ::
  "int \<Rightarrow> (timespec \<Rightarrow> timespec \<Rightarrow> int) \<Rightarrow> TimerFdSource \<Rightarrow> int \<Rightarrow> int
    \<Rightarrow> TimerFdSource \<times> bool \<times> (timespec \<times> timespec) option" where
  "timer_set_time created settime t first interval =
     (let (t1, opened) = timer_open created t
      in if \<not> opened then (t1, False, None)
         else let value = to_timespec first; period = to_timespec interval
              in (t1, settime value period = 0, Some (value, period)))"

definition arm_periodic where
  "arm_periodic created settime t interval =
     (if interval \<le> 0 then (t, False, None) else timer_set_time created settime t interval interval)"

definition arm_oneshot where
  "arm_oneshot created settime t delay =
     (if delay \<le> 0 then (t, False, None) else timer_set_time created settime t delay 0)"

definition disarm where
  "disarm created settime t = timer_set_time created settime t 0 0"

text \<open>A read gives eight bytes (the number of expirations), or fails, or is short (\<open>RZero\<close>).\<close>

fun timer_loop ::
  "TimerFdSource \<Rightarrow> u64 read_result list \<Rightarrow> TimerFdSource \<times> u64 list \<times> u64 read_result list" where
  "timer_loop t [] = (t, [], [])"
| "timer_loop t (RData expirations # rs) =
     (let t1 = t\<lparr>tm_totalExpirations := tm_totalExpirations t + expirations\<rparr>;
          calls = (if tm_handler t1 then [expirations] else []);
          (t2, more, rest) = timer_loop t1 rs
      in (t2, calls @ more, rest))"
| "timer_loop t (RError e # rs) =
     (if e = EAGAIN \<or> e = EWOULDBLOCK \<or> e = EINTR then (t, [], rs)
      else (t\<lparr>tm_readErrors := tm_readErrors t + 1\<rparr>, [], rs))"
| "timer_loop t (RZero # rs) = (t\<lparr>tm_readErrors := tm_readErrors t + 1\<rparr>, [], rs)"

definition timer_on_readable ::
  "TimerFdSource \<Rightarrow> u64 read_result list \<Rightarrow> TimerFdSource \<times> u64 list \<times> u64 read_result list" where
  "timer_on_readable t rs = (if tm_fd t < 0 then (t, [], rs) else timer_loop t rs)"

section \<open>SignalFdSource\<close>

record SignalFdSource =
  sg_fd :: int
  sg_signals :: "int list"
  sg_handler :: bool
  sg_signalsReceived :: u64
  sg_readErrors :: u64

definition SignalFdSource :: "int list \<Rightarrow> bool \<Rightarrow> SignalFdSource" where
  "SignalFdSource signals handler =
     \<lparr>sg_fd = -1, sg_signals = signals, sg_handler = handler, sg_signalsReceived = 0,
      sg_readErrors = 0\<rparr>"

record signal_os =
  os_sigemptyset :: int
  os_sigaddset :: "int \<Rightarrow> int"
  os_sigprocmask :: "int list \<Rightarrow> int"
  os_signalfd :: "int list \<Rightarrow> int"

fun add_signals :: "(int \<Rightarrow> int) \<Rightarrow> int list \<Rightarrow> int list \<Rightarrow> int list \<times> bool" where
  "add_signals sigaddset sigs [] = (sigs, True)"
| "add_signals sigaddset sigs (signo # signals) =
     (if sigaddset signo \<noteq> 0 then (sigs, False) else add_signals sigaddset (sigs @ [signo]) signals)"

definition build_signal_set :: "signal_os \<Rightarrow> SignalFdSource \<Rightarrow> int list \<times> bool" where
  "build_signal_set os s =
     (if os_sigemptyset os \<noteq> 0 then ([], False) else add_signals (os_sigaddset os) [] (sg_signals s))"

definition signal_open :: "signal_os \<Rightarrow> SignalFdSource \<Rightarrow> SignalFdSource \<times> bool" where
  "signal_open os s =
     (if sg_fd s \<ge> 0 then (s, True)
      else let (sigs, built) = build_signal_set os s
           in if \<not> built then (s, False)
              else if os_sigprocmask os sigs \<noteq> 0 then (s, False)
              else let s1 = s\<lparr>sg_fd := os_signalfd os sigs\<rparr> in (s1, sg_fd s1 \<ge> 0))"

fun signal_loop ::
  "SignalFdSource \<Rightarrow> int read_result list \<Rightarrow> SignalFdSource \<times> int list \<times> int read_result list" where
  "signal_loop s [] = (s, [], [])"
| "signal_loop s (RData signo # rs) =
     (let s1 = s\<lparr>sg_signalsReceived := sg_signalsReceived s + 1\<rparr>;
          calls = (if sg_handler s1 then [signo] else []);
          (s2, more, rest) = signal_loop s1 rs
      in (s2, calls @ more, rest))"
| "signal_loop s (RError e # rs) =
     (if e = EAGAIN \<or> e = EWOULDBLOCK \<or> e = EINTR then (s, [], rs)
      else (s\<lparr>sg_readErrors := sg_readErrors s + 1\<rparr>, [], rs))"
| "signal_loop s (RZero # rs) = (s\<lparr>sg_readErrors := sg_readErrors s + 1\<rparr>, [], rs)"

definition signal_on_readable ::
  "SignalFdSource \<Rightarrow> int read_result list \<Rightarrow> SignalFdSource \<times> int list \<times> int read_result list" where
  "signal_on_readable s rs = (if sg_fd s < 0 then (s, [], rs) else signal_loop s rs)"

section \<open>EpollReactor\<close>

text \<open>
  The reactor owns its epoll descriptor and room for \<open>er_capacity\<close> events. A source that the
  kernel hands back is a pointer, \<open>None\<close> when null; \<open>dispatch\<close> is the virtual call of
  \<open>IReadableSource::on_readable\<close> on the pointed-to source.
\<close>

record EpollReactor =
  er_fd :: int
  er_capacity :: nat

definition EpollReactor :: "int \<Rightarrow> EpollReactor" where
  "EpollReactor maxEvents = \<lparr>er_fd = -1, er_capacity = nat (if maxEvents > 0 then maxEvents else 1)\<rparr>"

definition reactor_destroy :: "EpollReactor \<Rightarrow> EpollReactor \<times> int list" where
  "reactor_destroy e = (if er_fd e \<ge> 0 then (e\<lparr>er_fd := -1\<rparr>, [er_fd e]) else (e, []))"

text \<open>Move construction and move assignment give the new owner, the old one, and what is closed.\<close>

definition reactor_move :: "EpollReactor \<Rightarrow> EpollReactor \<times> EpollReactor" where
  "reactor_move other =
     (\<lparr>er_fd = er_fd other, er_capacity = er_capacity other\<rparr>, other\<lparr>er_fd := -1, er_capacity := 0\<rparr>)"

definition reactor_move_assign ::
  "EpollReactor \<Rightarrow> EpollReactor option \<Rightarrow> EpollReactor \<times> EpollReactor option \<times> int list" where
  "reactor_move_assign this other =
     (case other of
        None \<Rightarrow> (this, None, [])
      | Some o1 \<Rightarrow>
          let closed = (if er_fd this \<ge> 0 then [er_fd this] else [])
          in (this\<lparr>er_fd := er_fd o1, er_capacity := er_capacity o1\<rparr>,
              Some (o1\<lparr>er_fd := -1, er_capacity := 0\<rparr>), closed))"

definition reactor_open :: "int \<Rightarrow> EpollReactor \<Rightarrow> EpollReactor \<times> bool" where
  "reactor_open created e =
     (if er_fd e \<ge> 0 then (e, True) else (let e1 = e\<lparr>er_fd := created\<rparr> in (e1, er_fd e1 \<ge> 0)))"

definition reactor_add :: "(int \<Rightarrow> int \<Rightarrow> u32 \<Rightarrow> int) \<Rightarrow> EpollReactor \<Rightarrow> int \<Rightarrow> u32 \<Rightarrow> bool" where
  "reactor_add epoll_ctl e sourceFd events =
     (if er_fd e < 0 then False
      else if sourceFd < 0 then False
      else epoll_ctl (er_fd e) sourceFd events = 0)"

definition reactor_remove :: "(int \<Rightarrow> int \<Rightarrow> int) \<Rightarrow> EpollReactor \<Rightarrow> int \<Rightarrow> bool" where
  "reactor_remove epoll_ctl e sourceFd =
     (if er_fd e < 0 then False
      else if sourceFd < 0 then False
      else epoll_ctl (er_fd e) sourceFd = 0)"

fun dispatch_events :: "('src \<Rightarrow> 'w \<Rightarrow> 'w) \<Rightarrow> 'src option list \<Rightarrow> 'w \<Rightarrow> 'w" where
  "dispatch_events dispatch [] w = w"
| "dispatch_events dispatch (None # es) w = dispatch_events dispatch es w"
| "dispatch_events dispatch (Some src # es) w = dispatch_events dispatch es (dispatch src w)"

text \<open>\<open>epoll_wait\<close> is told the room in the event vector and gives the events or an error.\<close>

definition poll_once ::
  "(nat \<Rightarrow> int \<Rightarrow> errno + 'src option list) \<Rightarrow> ('src \<Rightarrow> 'w \<Rightarrow> 'w) \<Rightarrow> EpollReactor \<Rightarrow> int \<Rightarrow> 'w
    \<Rightarrow> int \<times> 'w" where
  "poll_once epoll_wait dispatch e timeoutMs w =
     (if er_fd e < 0 \<or> er_capacity e = 0 then (-1, w)
      else case epoll_wait (er_capacity e) timeoutMs of
        Inl err \<Rightarrow> (if err = EINTR then (0, w) else (-1, w))
      | Inr events \<Rightarrow> (int (length events), dispatch_events dispatch events w))"

section \<open>The interface of a readable source\<close>

text \<open>
  What the reactor relies on: a closed source does nothing, and reading never changes the
  descriptor, so that a registered source stays the one that was registered.
\<close>

locale readable_source =
  fixes src_fd :: "'s \<Rightarrow> int"
    and on_readable :: "'s \<Rightarrow> 'r list \<Rightarrow> 's \<times> 'call list \<times> 'r list"
  assumes closed_silent: "src_fd s < 0 \<Longrightarrow> on_readable s rs = (s, [], rs)"
    and keeps_fd: "src_fd (fst (on_readable s rs)) = src_fd s"
    and consumes: "suffix (snd (snd (on_readable s rs))) rs"
begin

text \<open>A reactor turn over a table of sources, each with the results the kernel has for it.\<close>

definition turn :: "nat \<Rightarrow> ('s \<times> 'r list) list \<Rightarrow> ('s \<times> 'r list) list" where
  "turn i table = (if i < length table
     then table[i := (case on_readable (fst (table ! i)) (snd (table ! i)) of (s, _, rest) \<Rightarrow> (s, rest))]
     else table)"

lemma turn_fds: "map (src_fd \<circ> fst) (turn i table) = map (src_fd \<circ> fst) table"
proof (cases "i < length table")
  case True
  have "src_fd (fst (case on_readable (fst (table ! i)) (snd (table ! i)) of (s, _, rest) \<Rightarrow> (s, rest)))
      = src_fd (fst (table ! i))"
    using keeps_fd [of "fst (table ! i)" "snd (table ! i)"] by (simp add: split_beta)
  with True show ?thesis
    by (simp add: turn_def map_update list_update_same_conv)
qed (simp add: turn_def)

lemma poll_keeps_fds:
  "map (src_fd \<circ> fst) (snd (poll_once wait turn e timeout table)) = map (src_fd \<circ> fst) table"
proof -
  have "map (src_fd \<circ> fst) (dispatch_events turn events table) = map (src_fd \<circ> fst) table" for events
    by (induction turn events table rule: dispatch_events.induct) (simp_all add: turn_fds)
  then show ?thesis by (simp add: poll_once_def split: sum.split)
qed

end

section \<open>The four sources keep the interface\<close>

lemma accept_byte_fd [simp]: "u_fd (fst (accept_byte u c)) = u_fd u"
  by (simp add: accept_byte_def reset_line_def)

lemma uart_feed_fd [simp]: "u_fd (fst (uart_feed u cs)) = u_fd u"
proof (induction cs arbitrary: u)
  case (Cons c cs)
  then show ?case by (simp add: Let_def split_beta reset_line_def)
qed simp

lemma uart_loop_frame:
  "u_fd (fst (uart_loop u rs)) = u_fd u \<and> suffix (snd (snd (uart_loop u rs))) rs"
proof (induction rs arbitrary: u)
  case (Cons r rs)
  then show ?case by (cases r) (auto simp: Let_def split_beta intro: suffix_ConsI)
qed simp

lemma udp_loop_frame:
  "d_fd (fst (udp_loop u rs)) = d_fd u \<and> suffix (snd (snd (udp_loop u rs))) rs"
proof (induction rs arbitrary: u)
  case (Cons r rs)
  then show ?case by (cases r) (auto simp: Let_def split_beta intro: suffix_ConsI)
qed simp

lemma timer_loop_frame:
  "tm_fd (fst (timer_loop u rs)) = tm_fd u \<and> suffix (snd (snd (timer_loop u rs))) rs"
proof (induction rs arbitrary: u)
  case (Cons r rs)
  then show ?case by (cases r) (auto simp: Let_def split_beta intro: suffix_ConsI)
qed simp

lemma signal_loop_frame:
  "sg_fd (fst (signal_loop u rs)) = sg_fd u \<and> suffix (snd (snd (signal_loop u rs))) rs"
proof (induction rs arbitrary: u)
  case (Cons r rs)
  then show ?case by (cases r) (auto simp: Let_def split_beta intro: suffix_ConsI)
qed simp

interpretation uart: readable_source u_fd uart_on_readable
  using uart_loop_frame by unfold_locales (auto simp: uart_on_readable_def)

interpretation udp: readable_source d_fd udp_on_readable
  using udp_loop_frame by unfold_locales (auto simp: udp_on_readable_def)

interpretation timer: readable_source tm_fd timer_on_readable
  using timer_loop_frame by unfold_locales (auto simp: timer_on_readable_def)

interpretation signal: readable_source sg_fd signal_on_readable
  using signal_loop_frame by unfold_locales (auto simp: signal_on_readable_def)

section \<open>Lines of the UART\<close>

lemma feed_CR: "uart_feed u (CR # cs) = uart_feed u cs"
  by (simp add: accept_byte_def)

lemma feed_append:
  "uart_feed u (xs @ ys) =
     (let (u1, a) = uart_feed u xs; (u2, b) = uart_feed u1 ys in (u2, a @ b))"
  by (induction xs arbitrary: u) (simp_all add: Let_def split_beta)

lemma feed_no_CR: "uart_feed u s = uart_feed u (filter (\<lambda>c. c \<noteq> CR) s)"
  by (induction s arbitrary: u) (simp_all add: accept_byte_def Let_def split_beta)

text \<open>What is left of a line of which every run of \<open>m + 1\<close> characters overflows the buffer.\<close>

definition kept :: "nat \<Rightarrow> string \<Rightarrow> string" where
  "kept m w = drop (length w div (m + 1) * (m + 1)) w"

lemma length_kept: "length (kept m w) = length w mod (m + 1)"
  using minus_div_mult_eq_mod [of "length w" "m + 1"] by (simp add: kept_def)

lemma kept_short: "length w \<le> m \<Longrightarrow> kept m w = w"
  by (simp add: kept_def)

lemma kept_snoc:
  "kept m (w @ [c]) = (if length (kept m w) = m then [] else kept m w @ [c])"
proof -
  have d: "Suc (length w) div (m + 1) =
      (if length w mod (m + 1) = m then Suc (length w div (m + 1)) else length w div (m + 1))"
    by (simp add: div_Suc mod_Suc)
  have le: "length w div (m + 1) * (m + 1) \<le> length w"
    by (rule div_times_less_eq_dividend)
  show ?thesis
  proof (cases "length w mod (m + 1) = m")
    case True
    have "Suc (length w) = Suc (length w div (m + 1)) * (m + 1)"
      using True mult_div_mod_eq [of "m + 1" "length w"] by (simp add: mult.commute)
    then have "kept m (w @ [c]) = []"
      using True d by (simp only: kept_def length_append) simp
    then show ?thesis using True length_kept by simp
  next
    case False
    then show ?thesis using d le length_kept by (simp add: kept_def)
  qed
qed

definition dropped :: "nat \<Rightarrow> UartLineReceiver \<Rightarrow> UartLineReceiver" where
  "dropped k u = u\<lparr>u_stats := (u_stats u)
     \<lparr>frames_dropped := frames_dropped (u_stats u) + of_nat k,
      overflow_errors := overflow_errors (u_stats u) + of_nat k\<rparr>\<rparr>"

lemma dropped_simps [simp]:
  "u_fd (dropped k u) = u_fd u" "u_handler (dropped k u) = u_handler u"
  "u_maxLineBytes (dropped k u) = u_maxLineBytes u" "u_line (dropped k u) = u_line u"
  by (simp_all add: dropped_def)

lemma feed_plain:
  assumes "u_line u = []" "LF \<notin> set w" "CR \<notin> set w"
  shows "uart_feed u w = ((dropped (length w div (u_maxLineBytes u + 1)) u)
            \<lparr>u_line := kept (u_maxLineBytes u) w\<rparr>, [])"
  using assms(2,3)
proof (induction w rule: rev_induct)
  case Nil
  have "u\<lparr>u_line := []\<rparr> = u" using assms(1) by simp
  then show ?case by (simp add: dropped_def kept_def)
next
  case (snoc c w)
  let ?m = "u_maxLineBytes u"
  have le: "length (kept ?m w) \<le> ?m"
    using length_kept [of ?m w] by (metis Suc_eq_plus1 mod_Suc_le_divisor)
  have d: "Suc (length w) div (?m + 1) =
      (if length w mod (?m + 1) = ?m then Suc (length w div (?m + 1)) else length w div (?m + 1))"
    by (simp add: div_Suc mod_Suc)
  have nc: "c \<noteq> LF" "c \<noteq> CR" using snoc.prems by auto
  have len: "length (kept ?m w) = length w mod (?m + 1)" by (rule length_kept)
  show ?case
  proof (cases "length w mod (?m + 1) = ?m")
    case True
    then show ?thesis
      using snoc d len nc
      by (simp add: feed_append Let_def accept_byte_def kept_snoc reset_line_def dropped_def add.commute)
  next
    case False
    then have "\<not> ?m \<le> length w mod (?m + 1)" using le len by linarith
    then show ?thesis
      using snoc d len nc False
      by (simp add: feed_append Let_def accept_byte_def kept_snoc reset_line_def dropped_def)
  qed
qed

lemma feed_line_end:
  assumes "u_line u = []" "LF \<notin> set w" "CR \<notin> set w" "u_handler u"
  shows "\<exists>u'. uart_feed u (w @ LF # rest) =
      (fst (uart_feed u' rest), (if kept (u_maxLineBytes u) w = [] then [] else [kept (u_maxLineBytes u) w])
         @ snd (uart_feed u' rest))
    \<and> u_line u' = [] \<and> u_handler u' \<and> u_maxLineBytes u' = u_maxLineBytes u"
proof -
  have "LF \<noteq> CR" by (simp add: LF_def CR_def)
  show ?thesis
  proof (cases "kept (u_maxLineBytes u) w = []")
    case True
    show ?thesis
      using \<open>LF \<noteq> CR\<close> assms(4) True feed_plain [OF assms(1-3)]
      by (intro exI [of _ "(dropped (length w div (u_maxLineBytes u + 1)) u)\<lparr>u_line := []\<rparr>"])
        (simp add: feed_append Let_def split_beta accept_byte_def)
  next
    case False
    then show ?thesis
      using \<open>LF \<noteq> CR\<close> assms(4) feed_plain [OF assms(1-3)]
      by (simp add: feed_append Let_def split_beta accept_byte_def)
        (intro exI conjI, rule refl, rule refl, simp_all add: reset_line_def)
  qed
qed

definition line_call :: "nat \<Rightarrow> string \<Rightarrow> string list" where
  "line_call m w = (if kept m w = [] then [] else [kept m w])"

text \<open>The calls for a stream, and the part of the buffer that its last, unfinished line takes.\<close>

lemma feed_all_lines:
  assumes "u_line u = []" "CR \<notin> set s" "u_handler u"
  shows "snd (uart_feed u s) = concat (map (line_call (u_maxLineBytes u)) (butlast (split LF s)))
     \<and> u_line (fst (uart_feed u s)) = kept (u_maxLineBytes u) (List.last (split LF s))"
  using assms
proof (induction s arbitrary: u rule: length_induct)
  case (1 s)
  show ?case
  proof (cases "find_char LF s")
    case None
    then have "LF \<notin> set s" by (simp add: find_char_None)
    then show ?thesis using 1 feed_plain [of u s] by (simp add: split_no_sep)
  next
    case (Some k)
    then have k: "k < length s" "s ! k = LF" "LF \<notin> set (take k s)"
      by (simp_all add: find_char_Some)
    let ?w = "take k s" and ?r = "drop (Suc k) s"
    have s: "s = ?w @ LF # ?r" using k by (metis id_take_nth_drop)
    have cr: "CR \<notin> set ?w" "CR \<notin> set ?r"
      using 1(3) by (auto dest: in_set_takeD in_set_dropD)
    from feed_line_end [OF 1(2) k(3) cr(1) 1(4), of ?r] obtain u' where
      u': "uart_feed u (?w @ LF # ?r) = (fst (uart_feed u' ?r), line_call (u_maxLineBytes u) ?w @ snd (uart_feed u' ?r))"
        "u_line u' = []" "u_handler u'" "u_maxLineBytes u' = u_maxLineBytes u"
      unfolding line_call_def by blast
    have "snd (uart_feed u' ?r) = concat (map (line_call (u_maxLineBytes u')) (butlast (split LF ?r)))
        \<and> u_line (fst (uart_feed u' ?r)) = kept (u_maxLineBytes u') (List.last (split LF ?r))"
      using 1(1) k(1) u' cr(2) by simp
    moreover have "split LF s = ?w # split LF ?r"
      using s split_append_sep [OF k(3), of ?r] by metis
    ultimately show ?thesis using u' s by simp
  qed
qed

lemmas feed_lines = feed_all_lines [THEN conjunct1]

text \<open>The counters have no influence on the lines.\<close>

definition erase :: "UartLineReceiver \<Rightarrow> UartLineReceiver" where "erase u = u\<lparr>u_stats := noStats\<rparr>"

definition byte_step :: "UartLineReceiver \<Rightarrow> char \<Rightarrow> UartLineReceiver \<times> string list" where
  "byte_step u c = uart_feed u [c]"

lemma byte_step_erase:
  "snd (byte_step (erase u) c) = snd (byte_step u c)"
  "erase (fst (byte_step (erase u) c)) = erase (fst (byte_step u c))"
  by (simp_all add: byte_step_def accept_byte_def reset_line_def erase_def Let_def)

lemma feed_Cons_step:
  "uart_feed u (c # cs) = (fst (uart_feed (fst (byte_step u c)) cs),
     snd (byte_step u c) @ snd (uart_feed (fst (byte_step u c)) cs))"
  using feed_append [of u "[c]" cs] by (simp only: byte_step_def append.simps Let_def split_beta)

lemma feed_erase:
  assumes "erase u = erase v"
  shows "snd (uart_feed u s) = snd (uart_feed v s) \<and> erase (fst (uart_feed u s)) = erase (fst (uart_feed v s))"
  using assms
proof (induction s arbitrary: u v)
  case (Cons c s)
  have a: "snd (byte_step u c) = snd (byte_step v c)"
    and b: "erase (fst (byte_step u c)) = erase (fst (byte_step v c))"
    using byte_step_erase [of u c] byte_step_erase [of v c] Cons.prems by simp_all
  from Cons.IH [OF b] show ?case
    unfolding feed_Cons_step [of u] feed_Cons_step [of v] fst_conv snd_conv a by blast
qed simp

text \<open>The data that a wake-up reads: what comes before the first result that is not data.\<close>

fun received :: "'a read_result list \<Rightarrow> 'a list" where
  "received (RData x # rs) = x # received rs"
| "received rs = []"

lemma uart_feed_keeps [simp]:
  "u_handler (fst (uart_feed u s)) = u_handler u"
  "u_maxLineBytes (fst (uart_feed u s)) = u_maxLineBytes u"
proof (induction s arbitrary: u)
  case (Cons c s)
  { case 1 then show ?case by (simp add: Cons.IH Let_def split_beta accept_byte_def reset_line_def) }
  { case 2 then show ?case by (simp add: Cons.IH Let_def split_beta accept_byte_def reset_line_def) }
qed simp_all

lemma uart_loop_received:
  "fst (snd (uart_loop u rs)) = snd (uart_feed u (concat (received rs)))
   \<and> erase (fst (uart_loop u rs)) = erase (fst (uart_feed u (concat (received rs))))"
proof (induction rs arbitrary: u)
  case (Cons r rs)
  show ?case
  proof (cases r)
    case (RData rx)
    let ?u1 = "u\<lparr>u_stats := (u_stats u)\<lparr>bytes_received := bytes_received (u_stats u) + of_nat (length rx)\<rparr>\<rparr>"
    let ?v = "fst (uart_feed ?u1 rx)"
    have "erase ?u1 = erase u" by (simp add: erase_def)
    then have f: "snd (uart_feed ?u1 rx) = snd (uart_feed u rx)" "erase ?v = erase (fst (uart_feed u rx))"
      using feed_erase by blast+
    from feed_erase [OF f(2)] have g:
      "snd (uart_feed ?v (concat (received rs))) = snd (uart_feed (fst (uart_feed u rx)) (concat (received rs)))"
      "erase (fst (uart_feed ?v (concat (received rs)))) = erase (fst (uart_feed (fst (uart_feed u rx)) (concat (received rs))))"
      by blast+
    show ?thesis
      using Cons.IH [of ?v] f g by (simp add: RData Let_def split_beta feed_append)
  qed (simp_all add: erase_def)
qed simp

lemma erase_line: "erase u = erase v \<Longrightarrow> u_line u = u_line v \<and> u_handler u = u_handler v \<and> u_maxLineBytes u = u_maxLineBytes v"
  by (cases u; cases v) (simp add: erase_def)

text \<open>One call of \<open>on_readable\<close> after another, each with the results of its reads.\<close>

fun uart_wakeups :: "UartLineReceiver \<Rightarrow> string read_result list list \<Rightarrow> UartLineReceiver \<times> string list" where
  "uart_wakeups u [] = (u, [])"
| "uart_wakeups u (rs # rss) =
     (let (u1, calls, unread) = uart_on_readable u rs; (u2, more) = uart_wakeups u1 rss in (u2, calls @ more))"

lemma wakeups_received:
  assumes "0 \<le> u_fd u"
  shows "snd (uart_wakeups u rss) = snd (uart_feed u (concat (concat (map received rss))))
     \<and> erase (fst (uart_wakeups u rss)) = erase (fst (uart_feed u (concat (concat (map received rss)))))"
  using assms
proof (induction rss arbitrary: u)
  case (Cons rs rss)
  let ?u1 = "fst (uart_on_readable u rs)" and ?v = "fst (uart_feed u (concat (received rs)))"
  have one: "fst (snd (uart_on_readable u rs)) = snd (uart_feed u (concat (received rs)))" "erase ?u1 = erase ?v" "0 \<le> u_fd ?u1"
    using Cons.prems uart_loop_received [of u rs] uart_loop_frame [of u rs] by (simp_all add: uart_on_readable_def)
  from feed_erase [OF one(2)] show ?case
    using Cons.IH [OF one(3)] one(1) by (simp add: Let_def split_beta feed_append)
qed simp

section \<open>Properties\<close>

lemma line_call_good:
  assumes "l \<in> set (line_call m w)" "LF \<notin> set w" "CR \<notin> set w"
  shows "l \<noteq> [] \<and> length l \<le> m \<and> LF \<notin> set l \<and> CR \<notin> set l"
proof -
  have "length (kept m w) \<le> m"
    using length_kept [of m w] by (metis Suc_eq_plus1 mod_Suc_le_divisor)
  then show ?thesis
    using assms by (auto simp: line_call_def kept_def dest: in_set_dropD split: if_splits)
qed

text \<open>C23: What the UART receiver delivers. Over any number of calls of \<open>on_readable\<close>, however the bytes are
cut into reads and whether each call ends with \<open>EAGAIN\<close>, a read of nothing or an error, an open
receiver that starts with an empty line buffer delivers exactly the lines of the stream: carriage
returns are removed, the text before each line feed is one line, empty lines are not delivered, and
of an unfinished last line the buffer holds what the next call goes on with. A line longer than
the limit \<open>m\<close> loses every full run of \<open>m + 1\<close> characters; what is left of it, if anything, is delivered
as if it were a line. The handler never sees an empty line, one longer than the limit, or one with a
terminator.\<close>

theorem uart_delivers_lines:
  assumes "0 \<le> u_fd u" "u_handler u" "u_line u = []"
  shows "let m = u_maxLineBytes u;
             (u', calls) = uart_wakeups u wakeups;
             stream = filter (\<lambda>c. c \<noteq> CR) (concat (concat (map received wakeups)));
             left = (\<lambda>w. drop (length w div (m + 1) * (m + 1)) w)
         in calls = filter (\<lambda>l. l \<noteq> []) (map left (butlast (split LF stream)))
          \<and> u_line u' = left (List.last (split LF stream))
          \<and> list_all (\<lambda>l. l \<noteq> [] \<and> length l \<le> m \<and> LF \<notin> set l \<and> CR \<notin> set l) calls"
proof -
  let ?m = "u_maxLineBytes u" and ?all = "concat (concat (map received wakeups))"
  let ?stream = "filter (\<lambda>c. c \<noteq> CR) ?all"
  obtain u' calls where run: "uart_wakeups u wakeups = (u', calls)" by (cases "uart_wakeups u wakeups")
  have calls: "calls = concat (map (line_call ?m) (butlast (split LF ?stream)))"
    and rest: "u_line u' = kept ?m (List.last (split LF ?stream))"
    using assms wakeups_received [of u wakeups] feed_all_lines [of u ?stream] feed_no_CR [of u ?all]
      erase_line [of u' "fst (uart_feed u ?stream)"] by (simp_all add: run)
  have "concat (map (line_call ?m) ws) = filter (\<lambda>l. l \<noteq> []) (map (kept ?m) ws)" for ws
    by (induction ws) (simp_all add: line_call_def)
  moreover have "LF \<notin> set w \<and> CR \<notin> set w" if "w \<in> set (split LF ?stream)" for w
    using that split_parts [of w LF ?stream] by auto
  then have "list_all (\<lambda>l. l \<noteq> [] \<and> length l \<le> ?m \<and> LF \<notin> set l \<and> CR \<notin> set l)
      (concat (map (line_call ?m) (butlast (split LF ?stream))))"
    using line_call_good by (fastforce simp: list_all_iff dest: in_set_butlastD)
  ultimately show ?thesis
    unfolding Let_def run prod.case rest calls kept_def [abs_def] by simp
qed

definition sample_uart :: UartLineReceiver where
  "sample_uart = (UartLineReceiver 9600 True 4)\<lparr>u_fd := 3\<rparr>"

theorem uart_delivers_lines_witness:
  "let (u', calls) = uart_wakeups sample_uart
      [[RData ''ab'', RData [CR], RError EAGAIN], [RData (LF # ''1234567'' @ [LF] @ ''c''), RZero], [RData ''d'', RError OtherErrno]]
    in calls = [''ab'', ''67''] \<and> u_line u' = ''cd''"
proof -
  let ?wakeups = "[[RData ''ab'', RData [CR], RError EAGAIN], [RData (LF # ''1234567'' @ [LF] @ ''c''), RZero],
    [RData ''d'', RError OtherErrno]]"
  have "split LF (filter (\<lambda>c. c \<noteq> CR) (concat (concat (map received ?wakeups)))) = [''ab'', ''1234567'', ''cd'']" by code_simp
  then show ?thesis
    using uart_delivers_lines [of sample_uart ?wakeups]
    by (simp add: sample_uart_def UartLineReceiver_def Let_def split_beta del: uart_wakeups.simps received.simps)
qed

text \<open>Opening a source leaks no descriptor. \<open>open()\<close> of the UART and UDP receivers succeeds if
and only if the source holds a descriptor afterwards; when it fails after the system call that
created one, exactly that descriptor is closed, and a source that was open already is left
alone.\<close>

theorem open_leaks_nothing:
  "(case uart_open os u of (u', ok, closed) \<Rightarrow>
      ok = (0 \<le> u_fd u')
    \<and> (if 0 \<le> u_fd u then u' = u \<and> closed = []
       else closed = (if \<not> ok \<and> baud_to_speed (u_baud u) \<noteq> 0 \<and> 0 \<le> os_open os then [os_open os] else [])))
   \<and> (case udp_open os' d of (d', ok, closed) \<Rightarrow>
      ok = (0 \<le> d_fd d')
    \<and> (if 0 \<le> d_fd d then d' = d \<and> closed = []
       else closed = (if \<not> ok \<and> 0 \<le> os_socket os' then [os_socket os'] else [])))"
proof
  show "case uart_open os u of (u', ok, closed) \<Rightarrow>
      ok = (0 \<le> u_fd u')
    \<and> (if 0 \<le> u_fd u then u' = u \<and> closed = []
       else closed = (if \<not> ok \<and> baud_to_speed (u_baud u) \<noteq> 0 \<and> 0 \<le> os_open os then [os_open os] else []))"
    by (simp add: uart_open_def uart_open_fail_def close_fd_def Let_def)
  show "case udp_open os' d of (d', ok, closed) \<Rightarrow>
      ok = (0 \<le> d_fd d')
    \<and> (if 0 \<le> d_fd d then d' = d \<and> closed = []
       else closed = (if \<not> ok \<and> 0 \<le> os_socket os' then [os_socket os'] else []))"
    by (simp add: udp_open_def udp_open_fail_def close_fd_def Let_def split: option.split)
qed

end
