(* ===== verification/RetryClient.thy ===== *)
theory RetryClient
  imports RetryServer Receivers
begin

text \<open>
  Chapter 12, the client of the retry lab (\<open>retry_client.cpp\<close>): one transaction, sent again after a
  timeout or a busy answer until it is acknowledged, refused or out of attempts. The operating system
  is a record of calls on a world of any type; the timer is the \<open>TimerFdSource\<close> of \<open>Receivers\<close>. What
  is printed is left out.
\<close>

section \<open>Options\<close>

record client_options =
  op_serverAddress :: string
  op_serverPort :: nat
  op_intervalMilliseconds :: u32
  op_transactionId :: u32
  op_responseTimeoutMilliseconds :: u32
  op_retryDelayMilliseconds :: u32
  op_maxAttempts :: u32

definition default_client_options :: client_options where
  "default_client_options = \<lparr>op_serverAddress = ''127.0.0.1'', op_serverPort = 9100,
     op_intervalMilliseconds = 5000, op_transactionId = 42, op_responseTimeoutMilliseconds = 500,
     op_retryDelayMilliseconds = 250, op_maxAttempts = 3\<rparr>"

definition client_u32 :: "string \<Rightarrow> u32 option" where
  "client_u32 v = map_option of_nat (parse_option (2 ^ 32 - 1) False v)"

text \<open>One option with its value; \<open>None\<close> when the name is unknown or the value is refused.\<close>

definition client_option :: "string \<Rightarrow> string \<Rightarrow> client_options \<Rightarrow> client_options option" where
  "client_option arg v opts =
     (if arg = ''--server'' then Some (opts\<lparr>op_serverAddress := v\<rparr>)
      else if arg = ''--port'' then map_option (\<lambda>n. opts\<lparr>op_serverPort := n\<rparr>) (parse_option 65535 False v)
      else if arg = ''--interval-ms'' then map_option (\<lambda>n. opts\<lparr>op_intervalMilliseconds := n\<rparr>) (client_u32 v)
      else if arg = ''--transaction'' then map_option (\<lambda>n. opts\<lparr>op_transactionId := n\<rparr>) (client_u32 v)
      else if arg = ''--timeout-ms'' then map_option (\<lambda>n. opts\<lparr>op_responseTimeoutMilliseconds := n\<rparr>) (client_u32 v)
      else if arg = ''--retry-delay-ms'' then map_option (\<lambda>n. opts\<lparr>op_retryDelayMilliseconds := n\<rparr>) (client_u32 v)
      else if arg = ''--max-attempts'' then map_option (\<lambda>n. opts\<lparr>op_maxAttempts := n\<rparr>) (client_u32 v)
      else None)"

text \<open>\<open>Inl True\<close>: help was asked for; \<open>Inl False\<close>: the command line is refused.\<close>

fun client_args :: "string list \<Rightarrow> client_options \<Rightarrow> bool + client_options" where
  "client_args [] opts = Inr opts"
| "client_args [arg] opts = Inl (arg = ''--help'' \<or> arg = ''-h'')"
| "client_args (arg # v # rest) opts =
     (if arg = ''--help'' \<or> arg = ''-h'' then Inl True
      else case client_option arg v opts of None \<Rightarrow> Inl False
      | Some opts' \<Rightarrow> client_args rest opts')"

section \<open>State\<close>

datatype TransactionState = TxIdle | WaitingForResponse | WaitingToRetry | Succeeded | Failed

record Transaction =
  tr_id :: u32
  tr_attempts :: u32
  tr_state :: TransactionState

record RetryPolicy =
  po_responseTimeout :: int
  po_retryDelay :: int
  po_maxAttempts :: u32

record client =
  cl_stopRequested :: bool
  cl_succeeded :: bool
  cl_serviceAvailable :: bool
  cl_interval :: u32
  cl_policy :: RetryPolicy
  cl_transaction :: Transaction
  cl_udp :: bool
  cl_timer :: "TimerFdSource option"

record 'w client_os =
  co_sendto :: "bytes \<Rightarrow> 'w \<Rightarrow> 'w \<times> int"
  co_timerfd_create :: int
  co_settime :: "timespec \<Rightarrow> timespec \<Rightarrow> 'w \<Rightarrow> 'w \<times> int"

text \<open>The context as \<open>main\<close> prepares it: socket and timer open (\<open>fd\<close>), nothing sent.\<close>

definition client_context :: "client_options \<Rightarrow> int \<Rightarrow> client" where
  "client_context opts fd =
     \<lparr>cl_stopRequested = False, cl_succeeded = False, cl_serviceAvailable = True,
      cl_interval = op_intervalMilliseconds opts,
      cl_policy = \<lparr>po_responseTimeout = uint (op_responseTimeoutMilliseconds opts),
                   po_retryDelay = uint (op_retryDelayMilliseconds opts),
                   po_maxAttempts = op_maxAttempts opts\<rparr>,
      cl_transaction = \<lparr>tr_id = op_transactionId opts, tr_attempts = 0, tr_state = TxIdle\<rparr>,
      cl_udp = True, cl_timer = Some ((TimerFdSource True)\<lparr>tm_fd := fd\<rparr>)\<rparr>"

definition set_state :: "TransactionState \<Rightarrow> client \<Rightarrow> client" where
  "set_state st c = c\<lparr>cl_transaction := (cl_transaction c)\<lparr>tr_state := st\<rparr>\<rparr>"

section \<open>Timer calls\<close>

text \<open>A timer operation of \<open>Receivers\<close> whose system call, if it makes one, acts on the world.\<close>

definition with_timer ::
  "'w client_os \<Rightarrow> ((timespec \<Rightarrow> timespec \<Rightarrow> int) \<Rightarrow> TimerFdSource
       \<Rightarrow> TimerFdSource \<times> bool \<times> (timespec \<times> timespec) option)
    \<Rightarrow> client \<Rightarrow> 'w \<Rightarrow> client \<times> 'w \<times> bool" where
  "with_timer os operation c w =
     (case cl_timer c of
        None \<Rightarrow> (c, w, False)
      | Some t \<Rightarrow>
          let (t1, ok, call) = operation (\<lambda>first interval. snd (co_settime os first interval w)) t
          in (c\<lparr>cl_timer := Some t1\<rparr>,
              (case call of None \<Rightarrow> w | Some (first, interval) \<Rightarrow> fst (co_settime os first interval w)), ok))"

definition client_arm :: "'w client_os \<Rightarrow> int \<Rightarrow> client \<Rightarrow> 'w \<Rightarrow> client \<times> 'w \<times> bool" where
  "client_arm os delay = with_timer os (\<lambda>settime t. arm_oneshot (co_timerfd_create os) settime t delay)"

definition client_disarm :: "'w client_os \<Rightarrow> client \<Rightarrow> 'w \<Rightarrow> client \<times> 'w" where
  "client_disarm os c w =
     (let (c1, w1, _) = with_timer os (\<lambda>settime t. disarm (co_timerfd_create os) settime t) c w in (c1, w1))"

section \<open>Sending\<close>

definition request_frame :: "Endianness \<Rightarrow> u32 \<Rightarrow> u32 \<Rightarrow> bytes option" where
  "request_frame machine transaction intervalMilliseconds =
     (let writer = BinaryWriteStream machine (replicate 32 0) Little defaultMaxSizedField;
          writer' = writeSetReportingIntervalRequest writer intervalMilliseconds
      in if \<not> w_ok writer' then None
         else let payload = take (bytesWritten writer') (w_buf writer');
                  header = defaultHeader\<lparr>payloadEndian := 0, serviceId := WeatherControlServiceId,
                    messageType := MsgSetReportingInterval, transactionId := transaction,
                    flags := MessageFlagIdempotent\<rparr>;
                  (status, frameStorage, frameSize) = writeFrameV1 machine (replicate 256 0) header payload
              in if status \<noteq> FrameOk then None else Some (take frameSize frameStorage))"

definition send_datagram :: "'w client_os \<Rightarrow> bytes \<Rightarrow> 'w \<Rightarrow> 'w \<times> bool" where
  "send_datagram os bs w = (let (w1, sent) = co_sendto os bs w in (w1, sent = int (length bs)))"

definition send_request_frame :: "'w client_os \<Rightarrow> Endianness \<Rightarrow> client \<Rightarrow> 'w \<Rightarrow> 'w \<times> bool" where
  "send_request_frame os machine c w =
     (if \<not> cl_udp c then (w, False)
      else case request_frame machine (tr_id (cl_transaction c)) (cl_interval c) of
        None \<Rightarrow> (w, False)
      | Some frame \<Rightarrow> send_datagram os frame w)"

section \<open>The retry state machine\<close>

definition fail_transaction :: "'w client_os \<Rightarrow> client \<Rightarrow> 'w \<Rightarrow> client \<times> 'w" where
  "fail_transaction os c w =
     (let (c1, w1) = client_disarm os c w
      in ((set_state Failed c1)\<lparr>cl_succeeded := False, cl_stopRequested := True\<rparr>, w1))"

definition exhaust_retry_budget :: "client \<Rightarrow> client" where
  "exhaust_retry_budget c =
     (set_state Failed (c\<lparr>cl_serviceAvailable := False\<rparr>))\<lparr>cl_succeeded := False, cl_stopRequested := True\<rparr>"

definition arm_retry_delay :: "'w client_os \<Rightarrow> client \<Rightarrow> 'w \<Rightarrow> client \<times> 'w \<times> bool" where
  "arm_retry_delay os c w =
     (if cl_timer c = None then (c, w, False)
      else client_arm os (po_retryDelay (cl_policy c)) (set_state WaitingToRetry c) w)"

definition schedule_retry :: "'w client_os \<Rightarrow> client \<Rightarrow> 'w \<Rightarrow> client \<times> 'w" where
  "schedule_retry os c w =
     (if tr_attempts (cl_transaction c) \<ge> po_maxAttempts (cl_policy c) then (exhaust_retry_budget c, w)
      else let (c1, w1, armed) = arm_retry_delay os c w
           in if \<not> armed then fail_transaction os c1 w1 else (c1, w1))"

definition count_attempt :: "client \<Rightarrow> client" where
  "count_attempt c = c\<lparr>cl_transaction := (cl_transaction c)\<lparr>tr_attempts := tr_attempts (cl_transaction c) + 1\<rparr>\<rparr>"

definition send_attempt :: "'w client_os \<Rightarrow> Endianness \<Rightarrow> client \<Rightarrow> 'w \<Rightarrow> client \<times> 'w \<times> bool" where
  "send_attempt os machine c w =
     (let c0 = count_attempt c;
          (w1, sent) = send_request_frame os machine c0 w
      in if \<not> sent then (let (c1, w2) = fail_transaction os c0 w1 in (c1, w2, False))
         else let (c1, w2, armed) = client_arm os (po_responseTimeout (cl_policy c0)) c0 w1
              in if \<not> armed then (let (c2, w3) = fail_transaction os c1 w2 in (c2, w3, False))
                 else (set_state WaitingForResponse c1, w2, True))"

definition on_client_signal :: "client \<Rightarrow> client" where
  "on_client_signal c = c\<lparr>cl_stopRequested := True\<rparr>"

definition on_transaction_timer :: "'w client_os \<Rightarrow> Endianness \<Rightarrow> client \<Rightarrow> 'w \<Rightarrow> client \<times> 'w" where
  "on_transaction_timer os machine c w =
     (if tr_state (cl_transaction c) = WaitingForResponse then schedule_retry os c w
      else if tr_state (cl_transaction c) = WaitingToRetry
      then (let (c1, w1, _) = send_attempt os machine c w in (c1, w1))
      else (c, w))"

definition on_ack :: "'w client_os \<Rightarrow> client \<Rightarrow> 'w \<Rightarrow> client \<times> 'w" where
  "on_ack os c w =
     (let (c1, w1) = client_disarm os c w
      in ((set_state Succeeded c1)\<lparr>cl_succeeded := True, cl_stopRequested := True\<rparr>, w1))"

definition on_nack :: "'w client_os \<Rightarrow> Endianness \<Rightarrow> MessageHeaderV1 \<Rightarrow> bytes \<Rightarrow> client \<Rightarrow> 'w \<Rightarrow> client \<times> 'w" where
  "on_nack os machine header payload c w =
     (let reader = BinaryReadStream machine payload
                     (payloadEndianFromHeader (payloadEndian header)) defaultMaxSizedField;
          (reader', reason) = readNackResponse reader NackUnsupportedOperation
      in if \<not> r_ok reader' \<or> r_remaining reader' \<noteq> 0 \<or> \<not> isKnownNackReason reason then (c, w)
         else let (c1, w1) = client_disarm os c w
              in if reason = NackBusy then schedule_retry os c1 w1 else fail_transaction os c1 w1)"

definition on_response :: "'w client_os \<Rightarrow> Endianness \<Rightarrow> bytes \<Rightarrow> client \<Rightarrow> 'w \<Rightarrow> client \<times> 'w" where
  "on_response os machine datagram c w =
     (if tr_state (cl_transaction c) \<noteq> WaitingForResponse \<and> tr_state (cl_transaction c) \<noteq> WaitingToRetry
      then (c, w)
      else let (status, header, payload) = readFrameV1 machine datagram defaultHeader
      in if status \<noteq> FrameOk \<or> serviceId header \<noteq> WeatherControlServiceId
            \<or> transactionId header \<noteq> tr_id (cl_transaction c) then (c, w)
         else if messageType header = MsgAck then (if payload \<noteq> [] then (c, w) else on_ack os c w)
         else if messageType header = MsgNack then on_nack os machine header payload c w
         else (c, w))"

section \<open>The loop of main\<close>

text \<open>What \<open>poll_once\<close> may dispatch. The loop stops as soon as \<open>stopRequested\<close> is set.\<close>

datatype client_event = TimerExpired | Datagram bytes | Signalled

definition client_event_step :: "'w client_os \<Rightarrow> Endianness \<Rightarrow> client_event \<Rightarrow> client \<Rightarrow> 'w \<Rightarrow> client \<times> 'w" where
  "client_event_step os machine event c w = (case event of
       TimerExpired \<Rightarrow> on_transaction_timer os machine c w
     | Datagram bs \<Rightarrow> on_response os machine bs c w
     | Signalled \<Rightarrow> (on_client_signal c, w))"

fun client_loop :: "'w client_os \<Rightarrow> Endianness \<Rightarrow> client_event list \<Rightarrow> client \<Rightarrow> 'w \<Rightarrow> client \<times> 'w" where
  "client_loop os machine [] c w = (c, w)"
| "client_loop os machine (event # rest) c w =
     (if cl_stopRequested c then (c, w)
      else let (c1, w1) = client_event_step os machine event c w in client_loop os machine rest c1 w1)"

text \<open>The first attempt and the loop; the exit status is 0 after an acknowledgement.\<close>

definition client_run ::
  "'w client_os \<Rightarrow> Endianness \<Rightarrow> client_options \<Rightarrow> int \<Rightarrow> client_event list \<Rightarrow> 'w \<Rightarrow> client \<times> 'w \<times> nat" where
  "client_run os machine opts fd events w =
     (let (c, w1, sent) = send_attempt os machine (client_context opts fd) w
      in if \<not> sent then (c, w1, 1)
         else let (c', w2) = client_loop os machine events c w1
              in (c', w2, if cl_succeeded c' then 0 else 2))"

section \<open>The frame of a client\<close>

text \<open>Handlers only touch the timer, the transaction and three flags.\<close>

definition same_job :: "client \<Rightarrow> client \<Rightarrow> bool" where
  "same_job c c' \<longleftrightarrow> cl_interval c' = cl_interval c \<and> cl_policy c' = cl_policy c \<and> cl_udp c' = cl_udp c
     \<and> tr_id (cl_transaction c') = tr_id (cl_transaction c)"

lemma with_timer_frame:
  assumes "with_timer os f c w = (c', w', ok)"
  shows "cl_transaction c' = cl_transaction c" "cl_stopRequested c' = cl_stopRequested c"
    "cl_succeeded c' = cl_succeeded c" "cl_serviceAvailable c' = cl_serviceAvailable c" "same_job c c'"
  using assms by (auto simp: with_timer_def same_job_def Let_def split: option.splits prod.splits)

lemma client_arm_frame:
  assumes "client_arm os d c w = (c', w', ok)"
  shows "cl_transaction c' = cl_transaction c" "cl_stopRequested c' = cl_stopRequested c"
    "cl_succeeded c' = cl_succeeded c" "same_job c c'"
  using assms unfolding client_arm_def by (rule with_timer_frame)+

lemma client_disarm_frame:
  assumes "client_disarm os c w = (c', w')"
  shows "cl_transaction c' = cl_transaction c" "cl_stopRequested c' = cl_stopRequested c"
    "cl_succeeded c' = cl_succeeded c" "same_job c c'"
proof -
  obtain ok where "with_timer os (\<lambda>settime t. disarm (co_timerfd_create os) settime t) c w = (c', w', ok)"
    using assms by (auto simp: client_disarm_def split: prod.splits)
  then show "cl_transaction c' = cl_transaction c" "cl_stopRequested c' = cl_stopRequested c"
    "cl_succeeded c' = cl_succeeded c" "same_job c c'" by (rule with_timer_frame)+
qed

lemma set_state_simps [simp]:
  "tr_state (cl_transaction (set_state st c)) = st" "tr_id (cl_transaction (set_state st c)) = tr_id (cl_transaction c)"
  "tr_attempts (cl_transaction (set_state st c)) = tr_attempts (cl_transaction c)"
  "cl_policy (set_state st c) = cl_policy c" "cl_interval (set_state st c) = cl_interval c"
  "cl_udp (set_state st c) = cl_udp c" "cl_timer (set_state st c) = cl_timer c"
  "cl_stopRequested (set_state st c) = cl_stopRequested c" "cl_succeeded (set_state st c) = cl_succeeded c"
  by (simp_all add: set_state_def)

lemma count_attempt_simps [simp]:
  "tr_attempts (cl_transaction (count_attempt c)) = tr_attempts (cl_transaction c) + 1"
  "tr_id (cl_transaction (count_attempt c)) = tr_id (cl_transaction c)"
  "tr_state (cl_transaction (count_attempt c)) = tr_state (cl_transaction c)"
  "cl_policy (count_attempt c) = cl_policy c" "cl_interval (count_attempt c) = cl_interval c"
  "cl_udp (count_attempt c) = cl_udp c" "cl_stopRequested (count_attempt c) = cl_stopRequested c"
  "cl_succeeded (count_attempt c) = cl_succeeded c"
  by (simp_all add: count_attempt_def)

section \<open>Attempts are bounded and the client stops\<close>

definition client_attempts :: "client \<Rightarrow> nat" where "client_attempts c = unat (tr_attempts (cl_transaction c))"
definition max_attempts :: "client \<Rightarrow> nat" where "max_attempts c = unat (po_maxAttempts (cl_policy c))"

definition client_inv :: "client \<Rightarrow> bool" where
  "client_inv c \<longleftrightarrow> client_attempts c \<le> max_attempts c
     \<and> (cl_succeeded c \<longleftrightarrow> tr_state (cl_transaction c) = Succeeded)
     \<and> tr_state (cl_transaction c) \<noteq> TxIdle
     \<and> (tr_state (cl_transaction c) = WaitingToRetry \<longrightarrow> client_attempts c < max_attempts c)
     \<and> (tr_state (cl_transaction c) \<in> {Succeeded, Failed} \<longrightarrow> cl_stopRequested c)"

text \<open>What is left to do, in timer expirations.\<close>

definition budget :: "client \<Rightarrow> nat" where
  "budget c = (if cl_stopRequested c then 0
     else 2 * (max_attempts c - client_attempts c) + (if tr_state (cl_transaction c) = WaitingForResponse then 1 else 0))"

lemma u32_next: "a < m \<Longrightarrow> unat (a + 1) = Suc (unat a)" for a m :: u32
proof -
  assume "a < m"
  then have "unat a < unat m" by (simp add: word_less_nat_alt)
  moreover have "unat m < 2 ^ 32" using unsigned_less [of m] by simp
  ultimately show ?thesis by (simp add: unat_word_ariths)
qed

lemma fail_outcome:
  assumes "fail_transaction os c w = (c', w')"
  shows "tr_state (cl_transaction c') = Failed" "cl_stopRequested c'" "\<not> cl_succeeded c'"
    "tr_attempts (cl_transaction c') = tr_attempts (cl_transaction c)" "same_job c c'"
proof -
  obtain c1 w1 where dis: "client_disarm os c w = (c1, w1)" by fastforce
  have "c' = (set_state Failed c1)\<lparr>cl_succeeded := False, cl_stopRequested := True\<rparr>"
    using assms by (simp add: fail_transaction_def dis)
  then show "tr_state (cl_transaction c') = Failed" "cl_stopRequested c'" "\<not> cl_succeeded c'"
    "tr_attempts (cl_transaction c') = tr_attempts (cl_transaction c)" "same_job c c'"
    using client_disarm_frame [OF dis] by (simp_all add: same_job_def set_state_def)
qed

lemma schedule_outcome:
  assumes "schedule_retry os c w = (c', w')" "client_attempts c \<le> max_attempts c"
    "tr_state (cl_transaction c) \<in> {WaitingForResponse, WaitingToRetry}" "\<not> cl_succeeded c"
    "\<not> cl_stopRequested c"
  shows "client_inv c'" "same_job c c'" "tr_attempts (cl_transaction c') = tr_attempts (cl_transaction c)"
    "cl_stopRequested c' \<and> tr_state (cl_transaction c') = Failed
      \<or> \<not> cl_stopRequested c' \<and> tr_state (cl_transaction c') = WaitingToRetry \<and> client_attempts c < max_attempts c"
proof -
  obtain c1 w1 armed where arm: "arm_retry_delay os c w = (c1, w1, armed)" by (metis prod_cases3)
  obtain c2 w2 where fail: "fail_transaction os c1 w1 = (c2, w2)" by fastforce
  have c1: "same_job c c1" "tr_attempts (cl_transaction c1) = tr_attempts (cl_transaction c)" "\<not> cl_succeeded c1"
    "armed \<Longrightarrow> tr_state (cl_transaction c1) = WaitingToRetry" "\<not> cl_stopRequested c1"
    using arm client_arm_frame [of os "po_retryDelay (cl_policy c)" "set_state WaitingToRetry c" w c1 w1 armed] assms(4,5)
    by (auto simp: arm_retry_delay_def same_job_def split: if_splits)
  note facts = assms c1 arm fail_outcome [OF fail]
  have "client_inv c' \<and> same_job c c' \<and> tr_attempts (cl_transaction c') = tr_attempts (cl_transaction c)
    \<and> (cl_stopRequested c' \<and> tr_state (cl_transaction c') = Failed
      \<or> \<not> cl_stopRequested c' \<and> tr_state (cl_transaction c') = WaitingToRetry \<and> client_attempts c < max_attempts c)"
  proof (cases "tr_attempts (cl_transaction c) \<ge> po_maxAttempts (cl_policy c)")
    case True
    then have "c' = exhaust_retry_budget c" using assms(1) by (simp add: schedule_retry_def)
    then show ?thesis using assms(2)
      by (simp add: exhaust_retry_budget_def client_inv_def same_job_def client_attempts_def max_attempts_def set_state_def)
  next
    case False
    then have less: "client_attempts c < max_attempts c" by (simp add: client_attempts_def max_attempts_def word_less_nat_alt not_le)
    have "c' = (if armed then c1 else c2)" using assms(1) False arm fail by (auto simp: schedule_retry_def split: if_splits)
    then show ?thesis using facts less
      by (auto simp: client_inv_def same_job_def client_attempts_def max_attempts_def split: if_splits)
  qed
  then show "client_inv c'" "same_job c c'" "tr_attempts (cl_transaction c') = tr_attempts (cl_transaction c)"
    "cl_stopRequested c' \<and> tr_state (cl_transaction c') = Failed
      \<or> \<not> cl_stopRequested c' \<and> tr_state (cl_transaction c') = WaitingToRetry \<and> client_attempts c < max_attempts c" by blast+
qed

lemma attempt_outcome:
  assumes "send_attempt os m c w = (c', w', ok)" "client_attempts c < max_attempts c" "\<not> cl_succeeded c"
  shows "client_inv c'" "same_job c c'" "client_attempts c' = Suc (client_attempts c)"
    "if ok then tr_state (cl_transaction c') = WaitingForResponse \<and> cl_stopRequested c' = cl_stopRequested c
     else cl_stopRequested c' \<and> tr_state (cl_transaction c') = Failed"
proof -
  let ?c = "count_attempt c"
  obtain w1 sent where send: "send_request_frame os m ?c w = (w1, sent)" by fastforce
  obtain c1 w2 where fail1: "fail_transaction os ?c w1 = (c1, w2)" by fastforce
  obtain c2 w3 armed where arm: "client_arm os (po_responseTimeout (cl_policy c)) ?c w1 = (c2, w3, armed)"
    by (metis prod_cases3)
  obtain c3 w4 where fail2: "fail_transaction os c2 w3 = (c3, w4)" by fastforce
  have next_attempt: "unat (tr_attempts (cl_transaction c) + 1) = Suc (client_attempts c)"
    using assms(2) u32_next [of "tr_attempts (cl_transaction c)" "po_maxAttempts (cl_policy c)"]
    by (simp add: client_attempts_def max_attempts_def word_less_nat_alt)
  have "c' = (if \<not> sent then c1 else if \<not> armed then c3 else set_state WaitingForResponse c2)" "ok = (sent \<and> armed)"
    using assms(1) by (auto simp: send_attempt_def send fail1 arm fail2 Let_def split: if_splits)
  then have "client_inv c' \<and> same_job c c' \<and> client_attempts c' = Suc (client_attempts c)
    \<and> (if ok then tr_state (cl_transaction c') = WaitingForResponse \<and> cl_stopRequested c' = cl_stopRequested c
       else cl_stopRequested c' \<and> tr_state (cl_transaction c') = Failed)"
    using fail_outcome [OF fail1] fail_outcome [OF fail2] client_arm_frame [OF arm] next_attempt assms(2,3)
    by (auto simp: client_inv_def same_job_def client_attempts_def max_attempts_def split: if_splits)
  then show "client_inv c'" "same_job c c'" "client_attempts c' = Suc (client_attempts c)"
    "if ok then tr_state (cl_transaction c') = WaitingForResponse \<and> cl_stopRequested c' = cl_stopRequested c
     else cl_stopRequested c' \<and> tr_state (cl_transaction c') = Failed" by blast+
qed

definition settled :: "client \<Rightarrow> bool" where
  "settled c \<longleftrightarrow> (cl_stopRequested c \<longrightarrow> tr_state (cl_transaction c) \<in> {Succeeded, Failed})"

definition good_step :: "client \<Rightarrow> client \<Rightarrow> bool" where
  "good_step c c' \<longleftrightarrow> client_inv c' \<and> same_job c c' \<and> budget c' \<le> budget c \<and> settled c'"

lemma running_state:
  "client_inv c \<Longrightarrow> \<not> cl_stopRequested c \<Longrightarrow>
     tr_state (cl_transaction c) \<in> {WaitingForResponse, WaitingToRetry} \<and> \<not> cl_succeeded c \<and> client_attempts c \<le> max_attempts c"
  by (cases "tr_state (cl_transaction c)") (auto simp: client_inv_def)

lemma good_step_refl: "client_inv c \<Longrightarrow> \<not> cl_stopRequested c \<Longrightarrow> good_step c c"
  by (simp add: good_step_def same_job_def settled_def)

lemma same_job_max: "same_job c c' \<Longrightarrow> max_attempts c' = max_attempts c"
  by (simp add: same_job_def max_attempts_def)

lemma same_job_trans: "same_job c c1 \<Longrightarrow> same_job c1 c2 \<Longrightarrow> same_job c c2"
  by (simp add: same_job_def)

lemma good_step_stopped:
  "client_inv c' \<Longrightarrow> same_job c c' \<Longrightarrow> cl_stopRequested c' \<Longrightarrow> settled c' \<Longrightarrow> good_step c c'"
  by (simp add: good_step_def budget_def)

lemma failed_inv:
  assumes "fail_transaction os c w = (c', w')" "client_attempts c \<le> max_attempts c"
  shows "client_inv c'"
  using fail_outcome [OF assms(1)] assms(2) same_job_max [OF fail_outcome(5) [OF assms(1)]]
  by (simp add: client_inv_def client_attempts_def)

lemma schedule_step:
  assumes "schedule_retry os c w = (c', w')" "client_inv c" "\<not> cl_stopRequested c"
  shows "good_step c c'" "tr_state (cl_transaction c) = WaitingForResponse \<Longrightarrow> budget c' < budget c"
proof -
  note run = running_state [OF assms(2,3)]
  note out = schedule_outcome [OF assms(1) _ _ _ assms(3)]
  have same: "client_attempts c' = client_attempts c" "max_attempts c' = max_attempts c"
    using out(3) same_job_max [OF out(2)] run by (simp_all add: client_attempts_def)
  have "budget c' \<le> 2 * (max_attempts c - client_attempts c)"
    using out(4) run same by (auto simp: budget_def)
  then show "good_step c c'" "tr_state (cl_transaction c) = WaitingForResponse \<Longrightarrow> budget c' < budget c"
    using out(1,2,4) run assms(3) by (auto simp: good_step_def budget_def settled_def)
qed

lemma attempt_step:
  assumes "send_attempt os m c w = (c', w', ok)" "client_inv c" "\<not> cl_stopRequested c"
    and "tr_state (cl_transaction c) = WaitingToRetry"
  shows "good_step c c'" "budget c' < budget c"
proof -
  have less: "client_attempts c < max_attempts c" using assms(2,4) by (simp add: client_inv_def)
  note out = attempt_outcome [OF assms(1) less conjunct1 [OF conjunct2 [OF running_state [OF assms(2,3)]]]]
  have "budget c' < budget c"
    using out(3,4) same_job_max [OF out(2)] less assms(3,4) by (auto simp: budget_def split: if_splits)
  then show "good_step c c'" "budget c' < budget c"
    using out(1,2,4) assms(3) by (simp_all add: good_step_def settled_def split: if_splits)
qed

lemma timer_step:
  assumes "on_transaction_timer os m c w = (c', w')" "client_inv c" "\<not> cl_stopRequested c"
  shows "good_step c c'" "budget c' < budget c"
proof -
  obtain c1 w1 ok where att: "send_attempt os m c w = (c1, w1, ok)" by (metis prod_cases3)
  have "good_step c c' \<and> budget c' < budget c"
  proof (cases "tr_state (cl_transaction c) = WaitingForResponse")
    case True
    then have "schedule_retry os c w = (c', w')" using assms(1) by (simp add: on_transaction_timer_def)
    from schedule_step [OF this assms(2,3)] True show ?thesis by simp
  next
    case False
    then have st: "tr_state (cl_transaction c) = WaitingToRetry" using running_state [OF assms(2,3)] by simp
    then have "c' = c1" using assms(1) att by (simp add: on_transaction_timer_def)
    then show ?thesis using attempt_step [OF att assms(2,3) st] by simp
  qed
  then show "good_step c c'" "budget c' < budget c" by simp_all
qed

lemma nack_step:
  assumes "on_nack os m h p c w = (c', w')" "client_inv c" "\<not> cl_stopRequested c"
  shows "good_step c c'"
proof -
  obtain c1 w1 where dis: "client_disarm os c w = (c1, w1)" by fastforce
  note frame = client_disarm_frame [OF dis]
  have c1: "client_inv c1" "same_job c c1" "\<not> cl_stopRequested c1" "budget c1 = budget c"
    using frame assms(2,3) same_job_max [OF frame(4)] by (simp_all add: client_inv_def budget_def client_attempts_def)
  obtain c2 w2 where sch: "schedule_retry os c1 w1 = (c2, w2)" by fastforce
  obtain c3 w3 where fail: "fail_transaction os c1 w1 = (c3, w3)" by fastforce
  have "c' = c \<or> c' = c2 \<or> c' = c3"
    using assms(1) by (auto simp: on_nack_def Let_def dis sch fail split: prod.splits if_splits)
  moreover have "good_step c c2"
    using schedule_step(1) [OF sch c1(1,3)] c1 same_job_trans [OF c1(2)] by (simp add: good_step_def)
  moreover have "good_step c c3"
  proof (rule good_step_stopped)
    have "client_attempts c1 \<le> max_attempts c1" using c1(1) by (simp add: client_inv_def)
    then show "client_inv c3" by (rule failed_inv [OF fail])
    show "same_job c c3" by (rule same_job_trans [OF c1(2) fail_outcome(5) [OF fail]])
    show "cl_stopRequested c3" "settled c3" using fail_outcome [OF fail] by (simp_all add: settled_def)
  qed
  ultimately show ?thesis using good_step_refl [OF assms(2,3)] by blast
qed

lemma ack_step:
  assumes "on_ack os c w = (c', w')" "client_inv c"
  shows "good_step c c'" "tr_state (cl_transaction c') = Succeeded"
proof -
  obtain c1 w1 where dis: "client_disarm os c w = (c1, w1)" by fastforce
  note frame = client_disarm_frame [OF dis]
  have c': "c' = (set_state Succeeded c1)\<lparr>cl_succeeded := True, cl_stopRequested := True\<rparr>"
    using assms(1) by (simp add: on_ack_def dis)
  show "tr_state (cl_transaction c') = Succeeded" by (simp add: c')
  have "same_job c c'" using frame(4) by (simp add: c' same_job_def)
  then show "good_step c c'"
    using frame assms(2) same_job_max [of c c'] by (simp add: good_step_def client_inv_def budget_def c' client_attempts_def settled_def)
qed

lemma response_step:
  assumes "on_response os m d c w = (c', w')" "client_inv c" "\<not> cl_stopRequested c"
  shows "good_step c c'"
proof -
  obtain st h p where rd: "readFrameV1 m d defaultHeader = (st, h, p)" by (metis prod_cases3)
  obtain c1 w1 where ack: "on_ack os c w = (c1, w1)" by fastforce
  obtain c2 w2 where nack: "on_nack os m h p c w = (c2, w2)" by fastforce
  have "c' = c \<or> c' = c1 \<or> c' = c2"
    using assms(1) by (auto simp: on_response_def rd ack nack split: if_splits)
  then show ?thesis
    using good_step_refl [OF assms(2,3)] ack_step(1) [OF ack assms(2)] nack_step [OF nack assms(2,3)] by blast
qed

lemma event_step:
  assumes "client_event_step os m e c w = (c', w')" "client_inv c" "\<not> cl_stopRequested c"
  shows "client_inv c'" "same_job c c'" "budget c' \<le> budget c" "e = TimerExpired \<Longrightarrow> budget c' < budget c"
    "e \<noteq> Signalled \<Longrightarrow> settled c'"
proof -
  have "client_inv (on_client_signal c) \<and> same_job c (on_client_signal c) \<and> budget (on_client_signal c) \<le> budget c"
    using assms(2) by (simp add: on_client_signal_def client_inv_def same_job_def budget_def
        client_attempts_def max_attempts_def)
  moreover have "e \<noteq> Signalled \<Longrightarrow> good_step c c'"
    using assms timer_step [of os m c w c' w'] response_step [of os m _ c w c' w']
    by (cases e) (auto simp: client_event_step_def)
  ultimately show "client_inv c'" "same_job c c'" "budget c' \<le> budget c" "e \<noteq> Signalled \<Longrightarrow> settled c'"
    using assms(1) by (cases "e = Signalled"; simp add: good_step_def client_event_step_def)+
  show "e = TimerExpired \<Longrightarrow> budget c' < budget c"
    using assms timer_step [of os m c w c' w'] by (auto simp: client_event_step_def)
qed

lemma client_loop_steps:
  assumes "client_inv c" "client_loop os m events c w = (c', w')"
  shows "client_inv c' \<and> same_job c c'
    \<and> (cl_stopRequested c' \<or> budget c' + length (filter ((=) TimerExpired) events) \<le> budget c)
    \<and> (Signalled \<notin> set events \<and> settled c \<longrightarrow> settled c')"
  using assms
proof (induction events arbitrary: c w)
  case Nil then show ?case by (simp add: same_job_def)
next
  case (Cons e events)
  obtain c1 w1 where step: "client_event_step os m e c w = (c1, w1)" by fastforce
  show ?case
  proof (cases "cl_stopRequested c")
    case True then show ?thesis using Cons.prems by (simp add: same_job_def)
  next
    case False
    note one = event_step [OF step Cons.prems(1) False]
    have "client_loop os m events c1 w1 = (c', w')" using Cons.prems(2) False by (simp add: step)
    note rest = Cons.IH [OF one(1) this]
    show ?thesis
      using rest one same_job_trans [OF one(2)] by (cases "e = TimerExpired") auto
  qed
qed

lemma first_attempt:
  assumes "send_attempt os m (client_context opts fd) w = (c, w', ok)" "op_maxAttempts opts \<noteq> 0"
  shows "client_inv c" "same_job (client_context opts fd) c" "client_attempts c = 1"
    "if ok then \<not> cl_stopRequested c \<and> budget c = 2 * unat (op_maxAttempts opts) - 1
     else cl_stopRequested c \<and> tr_state (cl_transaction c) = Failed" "settled c"
proof -
  let ?c = "client_context opts fd"
  have start: "client_attempts ?c = 0" "max_attempts ?c = unat (op_maxAttempts opts)" "\<not> cl_succeeded ?c" "\<not> cl_stopRequested ?c"
    by (simp_all add: client_context_def client_attempts_def max_attempts_def)
  have pos: "0 < unat (op_maxAttempts opts)" using assms(2) by (simp add: unat_gt_0)
  then have "client_attempts ?c < max_attempts ?c" using start by simp
  note out = attempt_outcome [OF assms(1) this start(3)]
  show "client_inv c" "same_job ?c c" "client_attempts c = 1" using out start by simp_all
  show "if ok then \<not> cl_stopRequested c \<and> budget c = 2 * unat (op_maxAttempts opts) - 1
    else cl_stopRequested c \<and> tr_state (cl_transaction c) = Failed" "settled c"
    using out start same_job_max [OF out(2)] pos by (auto simp: budget_def settled_def split: if_splits)
qed

lemma budget_pos:
  assumes "client_inv c" "\<not> cl_stopRequested c"
  shows "0 < budget c"
proof (cases "tr_state (cl_transaction c) = WaitingForResponse")
  case False
  then have "tr_state (cl_transaction c) = WaitingToRetry" using running_state [OF assms] by simp
  then have "client_attempts c < max_attempts c" using assms(1) by (simp add: client_inv_def)
  then show ?thesis using assms(2) by (simp add: budget_def)
qed (simp add: budget_def assms(2))

text \<open>C20: The retry client makes a bounded number of attempts and comes to an end once its timer has expired
  often enough. Provided \<open>maxAttempts\<close> is not 0, and whatever the network delivers and whichever system
  calls fail: it never makes more than \<open>maxAttempts\<close> attempts; as long as it has not stopped, the
  transaction is waiting for a response or for its next attempt; after \<open>2 * maxAttempts - 1\<close> expirations of its
  timer it has stopped; when it has stopped and no signal arrived, the transaction is decided; and the
  exit status is 0 exactly if it succeeded. How soon the timer expires is not claimed: each busy
  answer arms the timer anew, so that a server that answers busy again and again postpones the end
  for as long as it does so.\<close>

theorem client_stops:
  assumes "op_maxAttempts opts \<noteq> 0" "client_run os m opts fd events w = (c, w', status)"
  shows "client_attempts c \<le> unat (op_maxAttempts opts)
    \<and> (2 * unat (op_maxAttempts opts) - 1 \<le> length (filter ((=) TimerExpired) events) \<longrightarrow> cl_stopRequested c)
    \<and> (status = 0 \<longleftrightarrow> tr_state (cl_transaction c) = Succeeded)
    \<and> (if cl_stopRequested c then Signalled \<in> set events \<or> tr_state (cl_transaction c) \<in> {Succeeded, Failed}
       else tr_state (cl_transaction c) \<in> {WaitingForResponse, WaitingToRetry})"
proof -
  obtain c1 w1 ok where att: "send_attempt os m (client_context opts fd) w = (c1, w1, ok)" by (metis prod_cases3)
  note first = first_attempt [OF att assms(1)]
  obtain c2 w2 where loop: "client_loop os m events c1 w1 = (c2, w2)" by fastforce
  note rest = client_loop_steps [OF first(1) loop]
  have c: "c = (if ok then c2 else c1)" "status = (if ok then if cl_succeeded c2 then 0 else 2 else 1)"
    using assms(2) by (auto simp: client_run_def att loop)
  have "\<not> ok \<Longrightarrow> \<not> cl_succeeded c1" using first(1,4) by (simp add: client_inv_def)
  moreover have "ok \<and> 2 * unat (op_maxAttempts opts) - 1 \<le> length (filter ((=) TimerExpired) events) \<Longrightarrow> cl_stopRequested c2"
    by (rule ccontr) (use rest first(4) budget_pos [of c2] in \<open>auto split: if_splits\<close>)
  ultimately have known: "same_job (client_context opts fd) c" "client_inv c" "Signalled \<notin> set events \<longrightarrow> settled c"
    "status = 0 \<longleftrightarrow> cl_succeeded c"
    "2 * unat (op_maxAttempts opts) - 1 \<le> length (filter ((=) TimerExpired) events) \<longrightarrow> cl_stopRequested c"
    using c first rest same_job_trans [OF first(2)] by (auto split: if_splits)
  have "max_attempts c = unat (op_maxAttempts opts)"
    using same_job_max [OF known(1)] by (simp add: max_attempts_def client_context_def)
  then show ?thesis using known running_state [OF known(2)] by (auto simp: client_inv_def settled_def)
qed

text \<open>A system on which every datagram is lost and every timer can be armed.\<close>

definition lossy_os :: "nat client_os" where
  "lossy_os = \<lparr>co_sendto = (\<lambda>bs w. (w + 1, int (length bs))), co_timerfd_create = 3, co_settime = (\<lambda>_ _ w. (w, 0))\<rparr>"

theorem client_stops_witness:
  "case client_run lossy_os Little (default_client_options\<lparr>op_maxAttempts := 1\<rparr>) 3 [TimerExpired] 0 of (c, w', status) \<Rightarrow>
     cl_stopRequested c \<and> client_attempts c \<le> 1 \<and> tr_state (cl_transaction c) \<in> {Succeeded, Failed}"
proof -
  let ?opts = "default_client_options\<lparr>op_maxAttempts := 1\<rparr>"
  obtain c w' status where run: "client_run lossy_os Little ?opts 3 [TimerExpired] 0 = (c, w', status)"
    by (metis prod_cases3)
  show ?thesis using client_stops [OF _ run] by (auto simp: run split: if_splits)
qed

end
