(* ===== verification/RetrySystem.thy ===== *)
theory RetrySystem
  imports RetryClient
begin

text \<open>
  The client and the server of the retry lab together. Between them lies a network that may lose,
  repeat, delay and reorder datagrams, and deliver others that are no valid frames; every
  \<open>sendto\<close> and every timer call of the client may fail. A state holds the two programs and all
  datagrams sent so far in each direction; a step is one event of the client's or the server's loop.
\<close>

section \<open>The request on the wire\<close>

definition request_header :: "u32 \<Rightarrow> MessageHeaderV1" where
  "request_header t = defaultHeader\<lparr>payloadEndian := 0, serviceId := WeatherControlServiceId,
     messageType := MsgSetReportingInterval, transactionId := t, flags := MessageFlagIdempotent\<rparr>"

definition request_datagram :: "Endianness \<Rightarrow> u32 \<Rightarrow> u32 \<Rightarrow> bytes" where
  "request_datagram m t v = built_frame m (request_header t) (mem_bytes Little 4 v)"

lemma request_header_ok: "hdr_fields_ok ((request_header t)\<lparr>headerSize := 28\<rparr>)"
  by (simp add: hdr_fields_ok_def request_header_def defaultHeader_def isValidPayloadEndian_def
      MessageFlagsV1Mask_def MessageFlagIdempotent_def)

lemma request_frame_eq: "request_frame m t v = Some (request_datagram m t v)"
proof -
  let ?w = "writeUInt32 (BinaryWriteStream m (replicate 32 0) Little defaultMaxSizedField) v"
  have ok: "w_ok ?w" by (rule u32c.put_fits) auto
  then have "take (bytesWritten ?w) (w_buf ?w) = mem_bytes Little 4 v"
    using u32c.put_written [of "BinaryWriteStream m (replicate 32 0) Little defaultMaxSizedField" v]
    by (simp add: written_def bytesWritten_def)
  then show ?thesis
    using ok writeFrameV1_built [of "mem_bytes Little 4 v" 256 m "request_header t"]
    by (auto simp: request_frame_def writeSetReportingIntervalRequest_def request_header_def request_datagram_def
        UInt32Max_def Let_def split: prod.splits)
qed

lemma read_request:
  "readFrameV1 m' (request_datagram m t v) old
    = (FrameOk, finalizeCrcs m (request_header t) (mem_bytes Little 4 v), mem_bytes Little 4 v)"
  unfolding request_datagram_def by (rule readFrameV1_built [OF _ request_header_ok]) (simp add: UInt32Max_def)

lemma request_fields:
  "serviceId (finalizeCrcs m (request_header t) p) = WeatherControlServiceId"
  "messageType (finalizeCrcs m (request_header t) p) = MsgSetReportingInterval"
  "transactionId (finalizeCrcs m (request_header t) p) = t"
  "payloadEndian (finalizeCrcs m (request_header t) p) = 0"
  by (simp_all add: finalizeCrcs_fields request_header_def)

lemma request_for_datagram: "request_for u (request_datagram m t v) \<longleftrightarrow> u = t \<and> t \<noteq> 0"
  by (auto simp: request_for_def read_request request_fields)

lemma carried_out_datagram:
  "carried_out (request_datagram m t v) s \<longleftrightarrow> sv_hasCompletedTransaction s \<and> sv_completedTransactionId s = t \<and> t \<noteq> 0"
  by (auto simp: carried_out_def request_for_datagram)

lemma read_interval:
  "readSetReportingIntervalRequest (BinaryReadStream m (mem_bytes Little 4 v) Little mx) old
    = (adv (BinaryReadStream m (mem_bytes Little 4 v) Little mx) 4, v)"
  using u32c.get_next [of "BinaryReadStream m (mem_bytes Little 4 v) Little mx" v "[]" old]
  by (simp add: readSetReportingIntervalRequest_def)

text \<open>What the server does with the client's request.\<close>

lemma on_request_datagram:
  assumes "t \<noteq> 0"
  shows "on_request m2 (request_datagram m t v) s =
    (if completed_before s t then (if sv_mode s = Silent then (s, None) else (s, send_ack m2 t))
     else if sv_mode s = BusyOnce \<and> \<not> sv_busyNackSent s
     then (s\<lparr>sv_busyNackSent := True\<rparr>, send_nack m2 t NackBusy)
     else if v < 100 \<or> v > 60000 then (s, send_nack m2 t NackInvalidValue)
     else set_interval_step m2 s t v)"
  using assms
  by (simp add: on_request_def read_request request_fields payloadEndianFromHeader_def read_interval Let_def
      r_remaining_def)

lemma on_request_noise: "fst (readFrameV1 m d defaultHeader) \<noteq> FrameOk \<Longrightarrow> on_request m d s = (s, None)"
  by (cases "readFrameV1 m d defaultHeader") (auto simp: on_request_def)

section \<open>The system\<close>

definition lab_os :: "bool \<Rightarrow> bool \<Rightarrow> bytes list client_os" where
  "lab_os sent settable = \<lparr>co_sendto = (\<lambda>bs w. if sent then (w @ [bs], int (length bs)) else (w, -1)),
     co_timerfd_create = 3, co_settime = (\<lambda>_ _ w. (w, if settable then 0 else -1))\<rparr>"

record lab =
  la_client :: client
  la_server :: server
  la_requests :: "bytes list"
  la_responses :: "bytes list"

definition deliverable :: "Endianness \<Rightarrow> bytes list \<Rightarrow> bytes \<Rightarrow> bool" where
  "deliverable m sent d \<longleftrightarrow> d \<in> set sent \<or> fst (readFrameV1 m d defaultHeader) \<noteq> FrameOk"

inductive lab_reach :: "Endianness \<Rightarrow> Endianness \<Rightarrow> client_options \<Rightarrow> ServerMode \<Rightarrow> lab \<Rightarrow> bool"
  for m1 m2 opts mode where
  start: "send_attempt (lab_os a b) m1 (client_context opts 3) [] = (c, reqs, ok) \<Longrightarrow>
     lab_reach m1 m2 opts mode \<lparr>la_client = c, la_server = server_context mode, la_requests = reqs, la_responses = []\<rparr>"
| client_turn: "lab_reach m1 m2 opts mode s \<Longrightarrow> \<not> cl_stopRequested (la_client s) \<Longrightarrow>
     (\<And>d. event = Datagram d \<Longrightarrow> deliverable m1 (la_responses s) d) \<Longrightarrow>
     client_event_step (lab_os a b) m1 event (la_client s) (la_requests s) = (c, reqs) \<Longrightarrow>
     lab_reach m1 m2 opts mode (s\<lparr>la_client := c, la_requests := reqs\<rparr>)"
| server_turn: "lab_reach m1 m2 opts mode s \<Longrightarrow> deliverable m2 (la_requests s) d \<Longrightarrow>
     on_request m2 d (la_server s) = (sv, answer) \<Longrightarrow>
     lab_reach m1 m2 opts mode (s\<lparr>la_server := sv, la_responses := la_responses s @ (case answer of None \<Rightarrow> [] | Some a \<Rightarrow> [a])\<rparr>)"

section \<open>What the client sends\<close>

lemma lab_timer:
  assumes "with_timer (lab_os a b) f c w = (c', w', ok)"
  shows "w' = w"
  using assms by (auto simp: with_timer_def lab_os_def Let_def split: option.splits prod.splits)

lemma lab_disarm: "client_disarm (lab_os a b) c w = (c', w') \<Longrightarrow> w' = w"
  using lab_timer by (fastforce simp: client_disarm_def split: prod.splits)

lemma lab_fail: "fail_transaction (lab_os a b) c w = (c', w') \<Longrightarrow> w' = w"
  using lab_disarm by (fastforce simp: fail_transaction_def split: prod.splits)

lemma lab_arm: "client_arm (lab_os a b) d c w = (c', w', ok) \<Longrightarrow> w' = w"
  unfolding client_arm_def by (rule lab_timer)

lemma lab_schedule:
  assumes "schedule_retry (lab_os a b) c w = (c', w')"
  shows "w' = w"
proof -
  obtain c1 w1 ok where arm: "arm_retry_delay (lab_os a b) c w = (c1, w1, ok)" by (metis prod_cases3)
  obtain c2 w2 where fail: "fail_transaction (lab_os a b) c1 w1 = (c2, w2)" by fastforce
  have "w1 = w" using arm lab_arm by (auto simp: arm_retry_delay_def split: if_splits)
  then show ?thesis using assms arm fail lab_fail [OF fail] by (auto simp: schedule_retry_def split: if_splits)
qed

lemma lab_response:
  assumes "on_response (lab_os a b) m d c w = (c', w')"
  shows "w' = w"
proof -
  obtain st h p where rd: "readFrameV1 m d defaultHeader = (st, h, p)" by (metis prod_cases3)
  obtain c1 w1 where dis: "client_disarm (lab_os a b) c w = (c1, w1)" by fastforce
  obtain c2 w2 where sch: "schedule_retry (lab_os a b) c1 w1 = (c2, w2)" by fastforce
  obtain c3 w3 where fail: "fail_transaction (lab_os a b) c1 w1 = (c3, w3)" by fastforce
  have "w1 = w" "w2 = w1" "w3 = w1" using lab_disarm [OF dis] lab_schedule [OF sch] lab_fail [OF fail] by simp_all
  moreover have "w' = w \<or> w' = w1 \<or> w' = w2 \<or> w' = w3"
    using assms by (auto simp: on_response_def rd on_ack_def on_nack_def dis sch fail Let_def split: prod.splits if_splits)
  ultimately show ?thesis by simp
qed

lemma lab_attempt:
  assumes "send_attempt (lab_os a b) m c w = (c', w', ok)"
  shows "w' = w \<or> w' = w @ [request_datagram m (tr_id (cl_transaction c)) (cl_interval c)]"
proof -
  let ?c = "count_attempt c"
  obtain w1 sent where send: "send_request_frame (lab_os a b) m ?c w = (w1, sent)" by fastforce
  obtain c1 w2 where fail1: "fail_transaction (lab_os a b) ?c w1 = (c1, w2)" by fastforce
  obtain c2 w3 armed where arm: "client_arm (lab_os a b) (po_responseTimeout (cl_policy c)) ?c w1 = (c2, w3, armed)"
    by (metis prod_cases3)
  obtain c3 w4 where fail2: "fail_transaction (lab_os a b) c2 w3 = (c3, w4)" by fastforce
  have "w1 = w \<or> w1 = w @ [request_datagram m (tr_id (cl_transaction c)) (cl_interval c)]"
    using send by (auto simp: send_request_frame_def request_frame_eq send_datagram_def lab_os_def split: if_splits)
  moreover have "w' = w2 \<or> w' = w3 \<or> w' = w4"
    using assms by (auto simp: send_attempt_def send fail1 arm fail2 Let_def split: if_splits)
  moreover have "w2 = w1" "w3 = w1" "w4 = w3" using lab_fail [OF fail1] lab_arm [OF arm] lab_fail [OF fail2] by simp_all
  ultimately show ?thesis by metis
qed

lemma lab_event:
  assumes "client_event_step (lab_os a b) m e c w = (c', w')" "client_inv c" "\<not> cl_stopRequested c"
  shows "w' = w \<or> w' = w @ [request_datagram m (tr_id (cl_transaction c)) (cl_interval c)] \<and> client_attempts c' = Suc (client_attempts c)"
proof (cases e)
  case TimerExpired
  obtain c1 w1 ok where att: "send_attempt (lab_os a b) m c w = (c1, w1, ok)" by (metis prod_cases3)
  show ?thesis
  proof (cases "tr_state (cl_transaction c) = WaitingForResponse")
    case True
    then have "schedule_retry (lab_os a b) c w = (c', w')"
      using assms(1) TimerExpired by (simp add: client_event_step_def on_transaction_timer_def)
    then show ?thesis using lab_schedule by blast
  next
    case False
    then have st: "tr_state (cl_transaction c) = WaitingToRetry" using running_state [OF assms(2,3)] by simp
    then have out: "c' = c1" "w' = w1"
      using assms(1) TimerExpired att by (simp_all add: client_event_step_def on_transaction_timer_def)
    have "client_attempts c < max_attempts c" using assms(2) st by (simp add: client_inv_def)
    then have "client_attempts c1 = Suc (client_attempts c)"
      using attempt_outcome(3) [OF att] running_state [OF assms(2,3)] by blast
    then show ?thesis using lab_attempt [OF att] out by blast
  qed
next
  case (Datagram d)
  then show ?thesis using assms(1) lab_response by (simp add: client_event_step_def)
next
  case Signalled
  then show ?thesis using assms(1) by (simp add: client_event_step_def)
qed

section \<open>Only an acknowledgement ends well\<close>

lemma failed_not_succeeded: "fail_transaction os c w = (c', w') \<Longrightarrow> tr_state (cl_transaction c') \<noteq> Succeeded"
  using fail_outcome(1) by (metis TransactionState.distinct(19))

lemma schedule_not_succeeded:
  assumes "schedule_retry os c w = (c', w')"
  shows "tr_state (cl_transaction c') \<noteq> Succeeded"
proof -
  obtain c1 w1 armed where arm: "arm_retry_delay os c w = (c1, w1, armed)" by (metis prod_cases3)
  obtain c2 w2 where fail: "fail_transaction os c1 w1 = (c2, w2)" by fastforce
  have "armed \<Longrightarrow> tr_state (cl_transaction c1) = WaitingToRetry"
    using arm client_arm_frame(1) [of os "po_retryDelay (cl_policy c)" "set_state WaitingToRetry c" w c1 w1 armed]
    by (auto simp: arm_retry_delay_def split: if_splits)
  then show ?thesis
    using assms arm fail failed_not_succeeded [OF fail]
    by (auto simp: schedule_retry_def exhaust_retry_budget_def set_state_def split: if_splits)
qed

lemma attempt_not_succeeded:
  assumes "send_attempt os m c w = (c', w', ok)"
  shows "tr_state (cl_transaction c') \<noteq> Succeeded"
proof -
  let ?c = "count_attempt c"
  obtain w1 sent where send: "send_request_frame os m ?c w = (w1, sent)" by fastforce
  obtain c1 w2 where fail1: "fail_transaction os ?c w1 = (c1, w2)" by fastforce
  obtain c2 w3 armed where arm: "client_arm os (po_responseTimeout (cl_policy c)) ?c w1 = (c2, w3, armed)"
    by (metis prod_cases3)
  obtain c3 w4 where fail2: "fail_transaction os c2 w3 = (c3, w4)" by fastforce
  have "c' = c1 \<or> c' = c3 \<or> c' = set_state WaitingForResponse c2"
    using assms by (auto simp: send_attempt_def send fail1 arm fail2 Let_def split: if_splits)
  then show ?thesis using failed_not_succeeded [OF fail1] failed_not_succeeded [OF fail2] by auto
qed

lemma success_means_confirmed:
  assumes "client_event_step os m e c w = (c', w')" "tr_state (cl_transaction c') = Succeeded"
    and "client_inv c" "\<not> cl_stopRequested c"
  obtains d where "e = Datagram d" "confirms r d"
proof (cases e)
  case TimerExpired
  obtain c1 w1 ok where att: "send_attempt os m c w = (c1, w1, ok)" by (metis prod_cases3)
  have "schedule_retry os c w = (c', w') \<or> c' = c1 \<or> c' = c"
    using assms(1) TimerExpired att by (auto simp: client_event_step_def on_transaction_timer_def split: if_splits)
  then show ?thesis
    using assms(2) schedule_not_succeeded [of os c w c' w'] attempt_not_succeeded [OF att] running_state [OF assms(3,4)] by auto
next
  case (Datagram d)
  obtain st h p where rd: "readFrameV1 m d defaultHeader = (st, h, p)" by (metis prod_cases3)
  obtain c1 w1 where nack: "on_nack os m h p c w = (c1, w1)" by fastforce
  obtain c2 w2 where dis: "client_disarm os c w = (c2, w2)" by fastforce
  have old: "tr_state (cl_transaction c) \<noteq> Succeeded" using running_state [OF assms(3,4)] by auto
  have "tr_state (cl_transaction c1) \<noteq> Succeeded"
    using nack schedule_not_succeeded [of os c2 w2 c1 w1] failed_not_succeeded [of os c2 w2 c1 w1] old
    by (auto simp: on_nack_def Let_def dis split: prod.splits if_splits)
  then have "st = FrameOk \<and> messageType h = MsgAck"
    using assms(1,2) Datagram rd nack old by (auto simp: client_event_step_def on_response_def split: if_splits)
  moreover from this have "readFrameV1 Little d defaultHeader = (FrameOk, h, p)" using rd readFrameV1_machine by blast
  ultimately show ?thesis using that [OF Datagram] by (simp add: confirms_def)
next
  case Signalled
  then show ?thesis
    using assms running_state [OF assms(3,4)] by (auto simp: client_event_step_def on_client_signal_def)
qed

section \<open>The invariant of the system\<close>

definition server_ok :: "client_options \<Rightarrow> server \<Rightarrow> bool" where
  "server_ok opts sv \<longleftrightarrow>
     (if sv_hasCompletedTransaction sv
      then sv_completedTransactionId sv = op_transactionId opts \<and> sv_interval sv = op_intervalMilliseconds opts
         \<and> 100 \<le> sv_interval sv \<and> sv_interval sv \<le> 60000
      else sv_interval sv = 1000)"

definition lab_inv :: "Endianness \<Rightarrow> client_options \<Rightarrow> lab \<Rightarrow> bool" where
  "lab_inv m1 opts s \<longleftrightarrow>
     (let request = request_datagram m1 (op_transactionId opts) (op_intervalMilliseconds opts)
      in client_inv (la_client s) \<and> same_job (client_context opts 3) (la_client s)
       \<and> set (la_requests s) \<subseteq> {request} \<and> length (la_requests s) \<le> client_attempts (la_client s)
       \<and> server_ok opts (la_server s)
       \<and> (\<forall>a \<in> set (la_responses s). confirms request a \<longrightarrow> carried_out request (la_server s))
       \<and> (tr_state (cl_transaction (la_client s)) = Succeeded \<longrightarrow> carried_out request (la_server s)))"

lemma same_job_fields:
  assumes "same_job (client_context opts 3) c"
  shows "cl_interval c = op_intervalMilliseconds opts" "tr_id (cl_transaction c) = op_transactionId opts"
    "max_attempts c = unat (op_maxAttempts opts)"
  using assms same_job_max [OF assms] by (simp_all add: same_job_def client_context_def max_attempts_def)

lemma attempts_grow:
  assumes "client_event_step (lab_os a b) m e c w = (c', w')" "client_inv c" "\<not> cl_stopRequested c"
  shows "client_attempts c \<le> client_attempts c'"
proof (cases e)
  case TimerExpired
  obtain c1 w1 ok where att: "send_attempt (lab_os a b) m c w = (c1, w1, ok)" by (metis prod_cases3)
  show ?thesis
  proof (cases "tr_state (cl_transaction c) = WaitingForResponse")
    case True
    then have "schedule_retry (lab_os a b) c w = (c', w')"
      using assms(1) TimerExpired by (simp add: client_event_step_def on_transaction_timer_def)
    from schedule_outcome(3) [OF this] running_state [OF assms(2,3)] assms(3) show ?thesis
      by (simp add: client_attempts_def)
  next
    case False
    then have st: "tr_state (cl_transaction c) = WaitingToRetry" using running_state [OF assms(2,3)] by simp
    then have "c' = c1" using assms(1) TimerExpired att by (simp add: client_event_step_def on_transaction_timer_def)
    moreover have "client_attempts c < max_attempts c" using assms(2) st by (simp add: client_inv_def)
    ultimately show ?thesis using attempt_outcome(3) [OF att] running_state [OF assms(2,3)] by simp
  qed
next
  case (Datagram d)
  obtain st h p where rd: "readFrameV1 m d defaultHeader = (st, h, p)" by (metis prod_cases3)
  obtain c1 w1 where dis: "client_disarm (lab_os a b) c w = (c1, w1)" by fastforce
  obtain c2 w2 where sch: "schedule_retry (lab_os a b) c1 w1 = (c2, w2)" by fastforce
  obtain c3 w3 where fail: "fail_transaction (lab_os a b) c1 w1 = (c3, w3)" by fastforce
  note frame = client_disarm_frame [OF dis]
  have "client_attempts c1 = client_attempts c" using frame(1) by (simp add: client_attempts_def)
  moreover have "client_attempts c2 = client_attempts c1"
    using schedule_outcome(3) [OF sch] frame running_state [OF assms(2,3)] assms(3) same_job_max [OF frame(4)]
    by (simp add: client_attempts_def)
  moreover have "client_attempts c3 = client_attempts c1" using fail_outcome(4) [OF fail] by (simp add: client_attempts_def)
  moreover have "c' = c \<or> client_attempts c' = client_attempts c1 \<or> c' = c2 \<or> c' = c3"
    using assms(1) Datagram
    by (auto simp: client_event_step_def on_response_def rd on_ack_def on_nack_def dis sch fail Let_def client_attempts_def
        split: prod.splits if_splits)
  ultimately show ?thesis by auto
next
  case Signalled
  then show ?thesis using assms(1) by (auto simp: client_event_step_def on_client_signal_def client_attempts_def)
qed

lemma lab_start_inv:
  assumes "op_maxAttempts opts \<noteq> 0" "send_attempt (lab_os a b) m1 (client_context opts 3) [] = (c, reqs, ok)"
  shows "lab_inv m1 opts \<lparr>la_client = c, la_server = server_context mode, la_requests = reqs, la_responses = []\<rparr>"
proof -
  note first = first_attempt [OF assms(2,1)]
  have ctx: "tr_id (cl_transaction (client_context opts 3)) = op_transactionId opts"
    "cl_interval (client_context opts 3) = op_intervalMilliseconds opts"
    by (simp_all add: client_context_def)
  have "reqs = [] \<or> reqs = [request_datagram m1 (op_transactionId opts) (op_intervalMilliseconds opts)]"
    using lab_attempt [OF assms(2)] by (simp add: ctx)
  then show ?thesis
    using first attempt_not_succeeded [OF assms(2)]
    by (auto simp: lab_inv_def server_ok_def server_context_def)
qed

lemma client_turn_inv:
  assumes inv: "lab_inv m1 opts s" and run: "\<not> cl_stopRequested (la_client s)"
    and deliv: "\<And>d. event = Datagram d \<Longrightarrow> deliverable m1 (la_responses s) d"
    and step: "client_event_step (lab_os a b) m1 event (la_client s) (la_requests s) = (c, reqs)"
  shows "lab_inv m1 opts (s\<lparr>la_client := c, la_requests := reqs\<rparr>)"
proof -
  let ?r = "request_datagram m1 (op_transactionId opts) (op_intervalMilliseconds opts)"
  have client: "client_inv (la_client s)" and job: "same_job (client_context opts 3) (la_client s)"
    and reqs: "set (la_requests s) \<subseteq> {?r}" "length (la_requests s) \<le> client_attempts (la_client s)"
    and server: "server_ok opts (la_server s)"
    and resp: "\<And>x. x \<in> set (la_responses s) \<Longrightarrow> confirms ?r x \<Longrightarrow> carried_out ?r (la_server s)"
    and succ: "tr_state (cl_transaction (la_client s)) = Succeeded \<Longrightarrow> carried_out ?r (la_server s)"
    using inv by (auto simp: lab_inv_def Let_def)
  note out = event_step [OF step client run]
  have new: "reqs = la_requests s \<or> reqs = la_requests s @ [?r] \<and> client_attempts c = Suc (client_attempts (la_client s))"
    using lab_event [OF step client run] same_job_fields [OF job] by simp
  have "set reqs \<subseteq> {?r}" "length reqs \<le> client_attempts c"
    using new reqs attempts_grow [OF step client run] by auto
  moreover have "carried_out ?r (la_server s)" if ok: "tr_state (cl_transaction c) = Succeeded"
  proof -
    obtain d where d: "event = Datagram d" "confirms ?r d"
      using success_means_confirmed [OF step ok client run, of ?r] by blast
    have "fst (readFrameV1 m1 d defaultHeader) = FrameOk"
    proof -
      obtain st h p where rd: "readFrameV1 Little d defaultHeader = (st, h, p)" by (metis prod_cases3)
      then have "st = FrameOk" using d(2) by (simp add: confirms_def)
      then have "readFrameV1 m1 d defaultHeader = (FrameOk, h, p)" using rd readFrameV1_machine by blast
      then show ?thesis by simp
    qed
    then have "d \<in> set (la_responses s)" using deliv [OF d(1)] by (simp add: deliverable_def)
    then show ?thesis using resp d(2) by blast
  qed
  ultimately show ?thesis
    using out(1) same_job_trans [OF job out(2)] server resp by (auto simp: lab_inv_def Let_def)
qed

lemma on_request_zero: "on_request m2 (request_datagram m 0 v) s = (s, None)"
  by (simp add: on_request_def read_request request_fields)

lemma server_turn_ok:
  assumes "server_ok opts s" "on_request m2 (request_datagram m1 (op_transactionId opts) (op_intervalMilliseconds opts)) s = (s', r)"
  shows "server_ok opts s'"
proof (cases "op_transactionId opts = 0")
  case True then show ?thesis using assms by (simp add: on_request_zero)
next
  case False
  let ?t = "op_transactionId opts" and ?v = "op_intervalMilliseconds opts"
  obtain s1 r1 where ex: "set_interval_step m2 s ?t ?v = (s1, r1)" by fastforce
  have "s' = s \<or> s' = s\<lparr>sv_busyNackSent := True\<rparr> \<or> s' = s1 \<and> 100 \<le> ?v \<and> ?v \<le> 60000"
    using assms(2) by (auto simp: on_request_datagram [OF False] ex not_less split: if_splits)
  then show ?thesis using assms(1) executed_state [OF ex] by (auto simp: server_ok_def)
qed

lemma server_turn_inv:
  assumes inv: "lab_inv m1 opts s" and deliv: "deliverable m2 (la_requests s) d"
    and step: "on_request m2 d (la_server s) = (sv, answer)"
  shows "lab_inv m1 opts (s\<lparr>la_server := sv, la_responses := la_responses s @ (case answer of None \<Rightarrow> [] | Some a \<Rightarrow> [a])\<rparr>)"
proof (cases "fst (readFrameV1 m2 d defaultHeader) = FrameOk")
  case False
  then have "sv = la_server s" "answer = None" using step on_request_noise by auto
  then show ?thesis using inv by simp
next
  case True
  let ?r = "request_datagram m1 (op_transactionId opts) (op_intervalMilliseconds opts)"
  have d: "d = ?r" using deliv True inv by (auto simp: deliverable_def lab_inv_def Let_def)
  have kept: "carried_out ?r sv" if "carried_out ?r (la_server s)"
    using svc.once [OF that, of m2] step that by (simp add: d)
  have truth: "carried_out ?r sv" if "answer = Some a" "confirms ?r a" for a
    using svc.truthful [of m2 d "la_server s" sv a ] step that by (simp add: d)
  have "server_ok opts (la_server s)" using inv by (simp add: lab_inv_def Let_def)
  then have "server_ok opts sv" by (rule server_turn_ok [OF _ step [unfolded d]])
  moreover have "carried_out ?r sv"
    if x: "x \<in> set (la_responses s @ (case answer of None \<Rightarrow> [] | Some a \<Rightarrow> [a]))" "confirms ?r x" for x
  proof (cases "x \<in> set (la_responses s)")
    case True
    then show ?thesis using inv kept x(2) unfolding lab_inv_def Let_def by blast
  next
    case False
    then have "answer = Some x" using x(1) by (cases answer) auto
    then show ?thesis using truth x(2) by blast
  qed
  ultimately have "server_ok opts sv" "\<forall>x \<in> set (la_responses s @ (case answer of None \<Rightarrow> [] | Some a \<Rightarrow> [a])).
      confirms ?r x \<longrightarrow> carried_out ?r sv" by blast+
  moreover have "tr_state (cl_transaction (la_client s)) = Succeeded \<longrightarrow> carried_out ?r sv"
    using inv kept by (simp add: lab_inv_def Let_def)
  ultimately show ?thesis using inv by (simp add: lab_inv_def Let_def)
qed

lemma lab_reach_inv:
  assumes "lab_reach m1 m2 opts mode s" "op_maxAttempts opts \<noteq> 0"
  shows "lab_inv m1 opts s"
  using assms(1)
proof (induction rule: lab_reach.induct)
  case (start a b c reqs ok)
  then show ?case by (rule lab_start_inv [OF assms(2)])
next
  case (client_turn s event a b c reqs)
  then show ?case by (intro client_turn_inv) auto
next
  case (server_turn s d sv answer)
  then show ?case by (intro server_turn_inv)
qed

text \<open>C2: Client and server of the retry lab agree, on a network that loses, repeats, delays, reorders and
  garbles datagrams, with system calls that may fail, in every mode of the server. When the client
  reports success, the server has carried the request out and its interval is the one asked for,
  in the permitted range; until it is carried out the interval is the initial one; once it is carried
  out, no further copy of the request changes the server; and never more than \<open>maxAttempts\<close> copies
  are sent.\<close>

theorem client_server_agree:
  assumes "lab_reach m1 m2 opts mode s" "op_maxAttempts opts \<noteq> 0"
  shows "(tr_state (cl_transaction (la_client s)) = Succeeded \<longrightarrow>
            sv_hasCompletedTransaction (la_server s))
    \<and> (if sv_hasCompletedTransaction (la_server s)
       then sv_interval (la_server s) = op_intervalMilliseconds opts
          \<and> 100 \<le> sv_interval (la_server s) \<and> sv_interval (la_server s) \<le> 60000
          \<and> list_all (\<lambda>d. fst (on_request m2 d (la_server s)) = la_server s) (la_requests s)
       else sv_interval (la_server s) = 1000)
    \<and> length (la_requests s) \<le> unat (op_maxAttempts opts)"
proof -
  note inv = lab_reach_inv [OF assms]
  let ?r = "request_datagram m1 (op_transactionId opts) (op_intervalMilliseconds opts)" and ?sv = "la_server s"
  have client: "client_inv (la_client s)" and job: "same_job (client_context opts 3) (la_client s)"
    and reqs: "set (la_requests s) \<subseteq> {?r}" "length (la_requests s) \<le> client_attempts (la_client s)"
    and server: "server_ok opts ?sv"
    and succ: "tr_state (cl_transaction (la_client s)) = Succeeded \<Longrightarrow> carried_out ?r ?sv"
    using inv by (auto simp: lab_inv_def Let_def)
  have "fst (on_request m2 ?r ?sv) = ?sv" if "sv_hasCompletedTransaction ?sv"
  proof (cases "op_transactionId opts = 0")
    case False
    then have "carried_out ?r ?sv" using that server by (simp add: carried_out_datagram server_ok_def)
    then show ?thesis by (rule svc.once)
  qed (simp add: on_request_zero)
  then have "list_all (\<lambda>d. fst (on_request m2 d ?sv) = ?sv) (la_requests s)" if "sv_hasCompletedTransaction ?sv"
    using that reqs(1) by (auto simp: list_all_iff)
  moreover have "length (la_requests s) \<le> unat (op_maxAttempts opts)"
    using reqs(2) client same_job_fields(3) [OF job] by (simp add: client_inv_def)
  moreover have "sv_hasCompletedTransaction ?sv" if "tr_state (cl_transaction (la_client s)) = Succeeded"
    using succ [OF that] by (simp add: carried_out_datagram)
  ultimately show ?thesis using server by (auto simp: server_ok_def split: if_splits)
qed

text \<open>A run without losses: one attempt, carried out and acknowledged.\<close>

definition sample_server :: server where
  "sample_server = (server_context Normal)\<lparr>sv_interval := 5000, sv_hasCompletedTransaction := True, sv_completedTransactionId := 42\<rparr>"

lemma sample_first:
  "\<exists>c. send_attempt (lab_os True True) Little (client_context default_client_options 3) []
      = (c, [request_datagram Little 42 5000], True) \<and> tr_id (cl_transaction c) = 42"
  by (simp add: send_attempt_def client_context_def default_client_options_def send_request_frame_def count_attempt_def
      request_frame_eq send_datagram_def lab_os_def client_arm_def with_timer_def arm_oneshot_def timer_set_time_def
      timer_open_def TimerFdSource_def Let_def set_state_def)

lemma sample_ack:
  assumes "tr_state (cl_transaction c) = WaitingForResponse" "tr_id (cl_transaction c) = 42"
  shows "\<exists>c' w'. on_response os m (built_frame Big (response_header 42 MsgAck) []) c w = (c', w')
    \<and> tr_state (cl_transaction c') = Succeeded"
  using assms
  by (simp add: on_response_def read_response response_fields on_ack_def split: prod.splits)

lemma sample_success:
  "\<exists>s. lab_reach Little Big default_client_options Normal s \<and> tr_state (cl_transaction (la_client s)) = Succeeded"
proof -
  let ?r = "request_datagram Little 42 5000" and ?a = "built_frame Big (response_header 42 MsgAck) []"
  obtain c where att: "send_attempt (lab_os True True) Little (client_context default_client_options 3) [] = (c, [?r], True)"
    and c: "tr_id (cl_transaction c) = 42" using sample_first by blast
  let ?s0 = "\<lparr>la_client = c, la_server = server_context Normal, la_requests = [?r], la_responses = []\<rparr>"
  have max: "op_maxAttempts default_client_options \<noteq> 0" by (simp add: default_client_options_def)
  have "client_attempts (client_context default_client_options 3) < max_attempts (client_context default_client_options 3)"
    by (simp add: client_attempts_def max_attempts_def client_context_def default_client_options_def)
  from attempt_outcome(4) [OF att this] first_attempt(4) [OF att max]
  have state: "tr_state (cl_transaction c) = WaitingForResponse" and run: "\<not> cl_stopRequested c"
    by (simp_all add: client_context_def)
  have reach0: "lab_reach Little Big default_client_options Normal ?s0" by (rule lab_reach.start [OF att])
  have serve: "on_request Big ?r (server_context Normal) = (sample_server, Some ?a)"
    by (simp add: on_request_datagram completed_before_def server_context_def set_interval_step_def sample_server_def send_ack_eq)
  have reach1: "lab_reach Little Big default_client_options Normal
      (?s0\<lparr>la_server := sample_server, la_responses := [] @ [?a]\<rparr>)"
    using lab_reach.server_turn [OF reach0 _ , of ?r sample_server "Some ?a"] serve by (simp add: deliverable_def)
  obtain c' reqs where ack: "on_response (lab_os True True) Little ?a c [?r] = (c', reqs)" "tr_state (cl_transaction c') = Succeeded"
    using sample_ack [OF state c, of "lab_os True True" Little "[?r]"] by blast
  have "lab_reach Little Big default_client_options Normal
      (?s0\<lparr>la_server := sample_server, la_responses := [] @ [?a], la_client := c', la_requests := reqs\<rparr>)"
    using lab_reach.client_turn [OF reach1, of "Datagram ?a" True True c' reqs] ack run
    by (simp add: deliverable_def client_event_step_def)
  then show ?thesis using ack(2) by fastforce
qed

theorem client_server_agree_witness:
  "\<exists>s. lab_reach Little Big default_client_options Normal s
     \<and> tr_state (cl_transaction (la_client s)) = Succeeded \<and> sv_interval (la_server s) = 5000"
proof -
  obtain s where reach: "lab_reach Little Big default_client_options Normal s"
    and ok: "tr_state (cl_transaction (la_client s)) = Succeeded" using sample_success by blast
  have "sv_interval (la_server s) = 5000"
    using client_server_agree [OF reach] ok by (simp add: default_client_options_def split: if_splits)
  then show ?thesis using reach ok by blast
qed

end
