(* ===== verification/StartupLab.thy ===== *)
theory StartupLab
  imports BoundedQueue Text "HOL-Library.Multiset"
begin

text \<open>
  Chapter 13, startup sequencing (\<open>startup_lab/main.cpp\<close>): the coordinating thread starts components
  as their dependencies become ready, worker threads report through the bounded queue, and a timer
  thread stops the queue when startup takes too long. The sleeping times are left out, so that the
  workers and the timer may finish in any order; the array of states is a function of the component.
\<close>

section \<open>Components\<close>

datatype ComponentId = Configuration | Sensor | Calibration | Processing | Telemetry | ComponentIdCount

datatype StartupState = StartReady | StartFailed

record StartupEvent =
  se_component :: ComponentId
  se_state :: StartupState

datatype ComponentStatus = CWaiting | CStarting | CReady | CFailed | CBlocked

record ComponentSpec =
  cs_id :: ComponentId
  cs_startupDelay :: int
  cs_required :: bool

definition Components :: "ComponentSpec list" where
  "Components =
     [\<lparr>cs_id = Configuration, cs_startupDelay = 100, cs_required = True\<rparr>,
      \<lparr>cs_id = Sensor, cs_startupDelay = 350, cs_required = True\<rparr>,
      \<lparr>cs_id = Calibration, cs_startupDelay = 450, cs_required = True\<rparr>,
      \<lparr>cs_id = Processing, cs_startupDelay = 200, cs_required = True\<rparr>,
      \<lparr>cs_id = Telemetry, cs_startupDelay = 250, cs_required = False\<rparr>]"

definition DefaultFailureTimeout :: int where "DefaultFailureTimeout = 2500"
definition StartupQueueCapacity :: nat where "StartupQueueCapacity = 8"

definition componentIndex :: "ComponentId \<Rightarrow> nat" where
  "componentIndex i = (case i of Configuration \<Rightarrow> 0 | Sensor \<Rightarrow> 1 | Calibration \<Rightarrow> 2 | Processing \<Rightarrow> 3
     | Telemetry \<Rightarrow> 4 | ComponentIdCount \<Rightarrow> 5)"

definition componentName :: "ComponentId \<Rightarrow> string" where
  "componentName i = (case i of Configuration \<Rightarrow> ''configuration'' | Sensor \<Rightarrow> ''sensor''
     | Calibration \<Rightarrow> ''calibration'' | Processing \<Rightarrow> ''processing'' | Telemetry \<Rightarrow> ''telemetry''
     | ComponentIdCount \<Rightarrow> ''unknown'')"

definition parseComponent :: "string \<Rightarrow> ComponentId option" where
  "parseComponent name = map_option cs_id (find (\<lambda>c. componentName (cs_id c) = name) Components)"

definition parseMilliseconds :: "string \<Rightarrow> int option" where
  "parseMilliseconds s =
     (let (ec, n, v) = from_chars (- (2 ^ 63)) (2 ^ 63 - 1) s
      in if ec \<noteq> NoErrc \<or> n \<noteq> length s then None
         else case v of None \<Rightarrow> None | Some x \<Rightarrow> if x \<le> 0 then None else Some x)"

definition specFor :: "ComponentId \<Rightarrow> ComponentSpec" where
  "specFor i = Components ! componentIndex i"

text \<open>The command line: the components made to fail and the time limit, or the exit status.\<close>

fun startup_args :: "string list \<Rightarrow> ComponentId list \<Rightarrow> int \<Rightarrow> nat + ComponentId list \<times> int" where
  "startup_args [] failedComponents failureTimeout = Inr (failedComponents, failureTimeout)"
| "startup_args [argument] failedComponents failureTimeout =
     (if argument = ''--help'' then Inl 0 else Inl 2)"
| "startup_args (argument # v # rest) failedComponents failureTimeout =
     (if argument = ''--help'' then Inl 0
      else if argument = ''--fail_component''
      then (case parseComponent v of None \<Rightarrow> Inl 2
            | Some component \<Rightarrow> startup_args rest (List.insert component failedComponents) failureTimeout)
      else if argument = ''--failure_timeout''
      then (case parseMilliseconds v of None \<Rightarrow> Inl 2
            | Some timeout \<Rightarrow> startup_args rest failedComponents timeout)
      else Inl 2)"

section \<open>The coordinator\<close>

datatype timer_state = TimerArmed | TimerFired | TimerDone

record startup =
  su_status :: "ComponentId \<Rightarrow> ComponentStatus"
  su_workers :: "StartupEvent list"
  su_queue :: "StartupEvent bqueue"
  su_applicationFailed :: bool
  su_degraded :: bool
  su_timer :: timer_state
  su_timedOut :: bool
  su_loopEnded :: bool
  su_startupFinished :: bool

text \<open>A worker is the event it will push when it wakes up.\<close>

definition startComponent :: "ComponentId list \<Rightarrow> ComponentId \<Rightarrow> startup \<Rightarrow> startup" where
  "startComponent failedComponents i s =
     s\<lparr>su_status := (su_status s)(i := CStarting),
       su_workers := su_workers s @
         [\<lparr>se_component = i, se_state = (if i \<in> set failedComponents then StartFailed else StartReady)\<rparr>]\<rparr>"

definition allRequiredReady :: "(ComponentId \<Rightarrow> ComponentStatus) \<Rightarrow> bool" where
  "allRequiredReady status \<longleftrightarrow> list_all (\<lambda>c. \<not> cs_required c \<or> status (cs_id c) = CReady) Components"

definition telemetryFinished :: "(ComponentId \<Rightarrow> ComponentStatus) \<Rightarrow> bool" where
  "telemetryFinished status \<longleftrightarrow> status Telemetry = CReady \<or> status Telemetry = CFailed \<or> status Telemetry = CBlocked"

definition blockWaitingComponents :: "(ComponentId \<Rightarrow> ComponentStatus) \<Rightarrow> ComponentId \<Rightarrow> ComponentStatus" where
  "blockWaitingComponents status =
     foldl (\<lambda>st c. if st (cs_id c) = CWaiting then st(cs_id c := CBlocked) else st) status Components"

definition loop_continues :: "startup \<Rightarrow> bool" where
  "loop_continues s \<longleftrightarrow> \<not> su_applicationFailed s
     \<and> \<not> (allRequiredReady (su_status s) \<and> telemetryFinished (su_status s))"

definition handle_failed :: "ComponentId \<Rightarrow> startup \<Rightarrow> startup" where
  "handle_failed i s =
     (let s1 = s\<lparr>su_status := (su_status s)(i := CFailed)\<rparr>
      in if cs_required (specFor i)
         then s1\<lparr>su_applicationFailed := True, su_status := blockWaitingComponents (su_status s1),
                 su_queue := bq_stop (su_queue s1)\<rparr>
         else s1\<lparr>su_degraded := True\<rparr>)"

definition handle_ready :: "ComponentId list \<Rightarrow> ComponentId \<Rightarrow> startup \<Rightarrow> startup" where
  "handle_ready failedComponents i s =
     (let s1 = s\<lparr>su_status := (su_status s)(i := CReady)\<rparr>
      in case i of
           Configuration \<Rightarrow> startComponent failedComponents Telemetry (startComponent failedComponents Sensor s1)
         | Sensor \<Rightarrow> startComponent failedComponents Calibration s1
         | Calibration \<Rightarrow> startComponent failedComponents Processing s1
         | _ \<Rightarrow> s1)"

text \<open>One turn of the loop after \<open>pop\<close> has returned.\<close>

definition coordinator_turn :: "ComponentId list \<Rightarrow> StartupEvent option \<Rightarrow> startup \<Rightarrow> startup" where
  "coordinator_turn failedComponents event s =
     (if su_timedOut s then s\<lparr>su_loopEnded := True\<rparr>
      else case event of
             None \<Rightarrow> s\<lparr>su_loopEnded := True\<rparr>
           | Some e \<Rightarrow> if se_state e = StartFailed then handle_failed (se_component e) s
                       else handle_ready failedComponents (se_component e) s)"

definition startup_begin :: "ComponentId list \<Rightarrow> startup" where
  "startup_begin failedComponents = startComponent failedComponents Configuration
     \<lparr>su_status = (\<lambda>_. CWaiting), su_workers = [], su_queue = newQueue StartupQueueCapacity,
      su_applicationFailed = False, su_degraded = False, su_timer = TimerArmed, su_timedOut = False,
      su_loopEnded = False, su_startupFinished = False\<rparr>"

definition exit_status :: "startup \<Rightarrow> nat" where
  "exit_status s = (if su_timedOut s then 1 else if su_applicationFailed s then 1 else 0)"

section \<open>Steps of the threads\<close>

text \<open>Workers and the main thread. The main thread waits while \<open>bq_pop\<close> is \<open>None\<close>.\<close>

inductive work_step :: "ComponentId list \<Rightarrow> startup \<Rightarrow> startup \<Rightarrow> bool" for failedComponents where
  worker: "su_workers s = ws1 @ e # ws2 \<Longrightarrow> bq_push (su_queue s) e = Some (q, ok) \<Longrightarrow>
     work_step failedComponents s (s\<lparr>su_workers := ws1 @ ws2, su_queue := q\<rparr>)"
| turn: "\<not> su_loopEnded s \<Longrightarrow> loop_continues s \<Longrightarrow> bq_pop (su_queue s) = Some (q, event) \<Longrightarrow>
     work_step failedComponents s (coordinator_turn failedComponents event (s\<lparr>su_queue := q\<rparr>))"
| loop_end: "\<not> su_loopEnded s \<Longrightarrow> \<not> loop_continues s \<Longrightarrow> work_step failedComponents s (s\<lparr>su_loopEnded := True\<rparr>)"
| finish: "su_loopEnded s \<Longrightarrow> \<not> su_startupFinished s \<Longrightarrow>
     work_step failedComponents s (s\<lparr>su_startupFinished := True, su_queue := bq_stop (su_queue s)\<rparr>)"

text \<open>The timer thread: it fires unless startup is finished, then stops the queue.\<close>

inductive timeout_step :: "startup \<Rightarrow> startup \<Rightarrow> bool" where
  fires: "su_timer s = TimerArmed \<Longrightarrow> \<not> su_startupFinished s \<Longrightarrow>
     timeout_step s (s\<lparr>su_timer := TimerFired, su_timedOut := True\<rparr>)"
| stops: "su_timer s = TimerFired \<Longrightarrow> timeout_step s (s\<lparr>su_timer := TimerDone, su_queue := bq_stop (su_queue s)\<rparr>)"

inductive startup_reach :: "ComponentId list \<Rightarrow> startup \<Rightarrow> bool" for failedComponents where
  begins: "startup_reach failedComponents (startup_begin failedComponents)"
| works: "startup_reach failedComponents s \<Longrightarrow> work_step failedComponents s s' \<Longrightarrow> startup_reach failedComponents s'"
| times: "startup_reach failedComponents s \<Longrightarrow> timeout_step s s' \<Longrightarrow> startup_reach failedComponents s'"

inductive_cases work_stepE: "work_step failedComponents s s'"
inductive_cases timeout_stepE: "timeout_step s s'"

section \<open>Invariants\<close>

fun depends :: "ComponentId \<Rightarrow> ComponentId option" where
  "depends Sensor = Some Configuration"
| "depends Telemetry = Some Configuration"
| "depends Calibration = Some Sensor"
| "depends Processing = Some Calibration"
| "depends _ = None"

definition tokens :: "startup \<Rightarrow> StartupEvent list" where
  "tokens s = su_workers s @ bq_abs (su_queue s)"

text \<open>The states of the components fit together.\<close>

definition status_inv :: "ComponentId list \<Rightarrow> startup \<Rightarrow> bool" where
  "status_inv failedComponents s \<longleftrightarrow>
     (\<forall>i. su_status s i \<in> {CStarting, CReady, CFailed} \<longrightarrow>
        (case depends i of None \<Rightarrow> True | Some j \<Rightarrow> su_status s j = CReady))
   \<and> (\<forall>i. su_status s i = CWaiting \<longrightarrow> i \<noteq> ComponentIdCount \<longrightarrow>
        \<not> su_applicationFailed s \<and> (case depends i of None \<Rightarrow> False | Some j \<Rightarrow> su_status s j \<noteq> CReady))
   \<and> (\<forall>i. su_status s i = CBlocked \<longrightarrow> su_applicationFailed s)
   \<and> (\<forall>i. su_status s i = CFailed \<longrightarrow> i \<in> set failedComponents)
   \<and> (\<forall>i. su_status s i = CReady \<longrightarrow> i \<notin> set failedComponents)
   \<and> su_status s ComponentIdCount = CWaiting
   \<and> (su_applicationFailed s \<longleftrightarrow> (\<exists>i. i \<noteq> Telemetry \<and> su_status s i = CFailed))
   \<and> (su_degraded s \<longleftrightarrow> su_status s Telemetry = CFailed)"

text \<open>Each starting component has one worker or one event; events are lost only in a stopped queue or after the loop.\<close>

definition token_inv :: "ComponentId list \<Rightarrow> startup \<Rightarrow> bool" where
  "token_inv failedComponents s \<longleftrightarrow> distinct (map se_component (tokens s))
   \<and> (\<forall>e \<in> set (tokens s). su_status s (se_component e) = CStarting
        \<and> (se_state e = StartFailed \<longleftrightarrow> se_component e \<in> set failedComponents))
   \<and> (\<not> (mStopped (su_queue s) \<or> su_loopEnded s) \<longrightarrow>
        (\<forall>i. su_status s i = CStarting \<longrightarrow> i \<in> se_component ` set (tokens s)))"

definition control_inv :: "startup \<Rightarrow> bool" where
  "control_inv s \<longleftrightarrow> bq_inv (su_queue s) \<and> bq_capacity (su_queue s) = StartupQueueCapacity
   \<and> (su_timedOut s \<longleftrightarrow> su_timer s \<noteq> TimerArmed)
   \<and> (mStopped (su_queue s) \<longrightarrow> su_applicationFailed s \<or> su_timedOut s \<or> su_startupFinished s)
   \<and> (su_startupFinished s \<longrightarrow> su_loopEnded s)
   \<and> (su_loopEnded s \<longrightarrow> su_timedOut s \<or> \<not> loop_continues s)"

definition startup_inv :: "ComponentId list \<Rightarrow> startup \<Rightarrow> bool" where
  "startup_inv failedComponents s \<longleftrightarrow>
     status_inv failedComponents s \<and> token_inv failedComponents s \<and> control_inv s"

lemma component_cases: "i \<in> {Configuration, Sensor, Calibration, Processing, Telemetry, ComponentIdCount}"
  by (cases i) simp_all

lemma all_components:
  "(\<forall>i. P i) \<longleftrightarrow> P Configuration \<and> P Sensor \<and> P Calibration \<and> P Processing \<and> P Telemetry \<and> P ComponentIdCount"
  by (metis ComponentId.exhaust)

lemma ex_component:
  "(\<exists>i. P i) \<longleftrightarrow> P Configuration \<or> P Sensor \<or> P Calibration \<or> P Processing \<or> P Telemetry \<or> P ComponentIdCount"
  by (metis ComponentId.exhaust)

lemma block_waiting:
  "blockWaitingComponents st i = (if i \<noteq> ComponentIdCount \<and> st i = CWaiting then CBlocked else st i)"
  by (cases i) (simp_all add: blockWaitingComponents_def Components_def)

lemma required_iff: "i \<noteq> ComponentIdCount \<Longrightarrow> cs_required (specFor i) \<longleftrightarrow> i \<noteq> Telemetry"
  by (cases i) (simp_all add: specFor_def Components_def componentIndex_def)

lemma new_queue_fields: "\<not> mStopped (newQueue n)" "bq_capacity (newQueue n) = n"
  by (simp_all add: newQueue_def bq_capacity_def)

lemma begin_inv: "startup_inv failedComponents (startup_begin failedComponents)"
  by (auto simp: startup_inv_def status_inv_def token_inv_def control_inv_def startup_begin_def startComponent_def
      tokens_def new_abs new_inv StartupQueueCapacity_def new_queue_fields all_components ex_component
      split: if_splits)

lemma depends_irrefl [simp]: "depends i \<noteq> Some i" "depends i \<noteq> Some Telemetry"
  by (cases i; simp)+

lemma status_invD:
  assumes "status_inv failedComponents s"
  shows "su_status s i \<in> {CStarting, CReady, CFailed} \<Longrightarrow> depends i = Some j \<Longrightarrow> su_status s j = CReady"
    and "su_status s i = CWaiting \<Longrightarrow> i \<noteq> ComponentIdCount \<Longrightarrow>
       \<not> su_applicationFailed s \<and> (\<exists>j. depends i = Some j \<and> su_status s j \<noteq> CReady)"
    and "su_status s i = CBlocked \<Longrightarrow> su_applicationFailed s"
    and "su_status s i = CFailed \<Longrightarrow> i \<in> set failedComponents"
    and "su_status s i = CReady \<Longrightarrow> i \<notin> set failedComponents"
    and "su_status s ComponentIdCount = CWaiting"
    and "su_applicationFailed s \<longleftrightarrow> (\<exists>i. i \<noteq> Telemetry \<and> su_status s i = CFailed)"
    and "su_degraded s \<longleftrightarrow> su_status s Telemetry = CFailed"
proof -
  note inv = assms [unfolded status_inv_def]
  show "su_status s i \<in> {CStarting, CReady, CFailed} \<Longrightarrow> depends i = Some j \<Longrightarrow> su_status s j = CReady"
    using conjunct1 [OF inv, THEN spec [of _ i]] by auto
  note inv2 = conjunct2 [OF inv]
  show "su_status s i = CWaiting \<Longrightarrow> i \<noteq> ComponentIdCount \<Longrightarrow>
       \<not> su_applicationFailed s \<and> (\<exists>j. depends i = Some j \<and> su_status s j \<noteq> CReady)"
    using conjunct1 [OF inv2, THEN spec [of _ i]] by (auto split: option.splits)
  show "su_status s i = CBlocked \<Longrightarrow> su_applicationFailed s" "su_status s i = CFailed \<Longrightarrow> i \<in> set failedComponents"
    "su_status s i = CReady \<Longrightarrow> i \<notin> set failedComponents" "su_status s ComponentIdCount = CWaiting"
    "su_applicationFailed s \<longleftrightarrow> (\<exists>i. i \<noteq> Telemetry \<and> su_status s i = CFailed)"
    "su_degraded s \<longleftrightarrow> su_status s Telemetry = CFailed"
    using conjunct2 [OF inv2] by blast+
qed

lemma status_inv_cong:
  "su_status s' = su_status s \<Longrightarrow> su_applicationFailed s' = su_applicationFailed s \<Longrightarrow> su_degraded s' = su_degraded s \<Longrightarrow>
   status_inv fc s' = status_inv fc s"
  by (simp only: status_inv_def)

lemma status_inv_updates [simp]:
  "status_inv fc (s\<lparr>su_workers := ws\<rparr>) = status_inv fc s" "status_inv fc (s\<lparr>su_queue := q\<rparr>) = status_inv fc s"
  "status_inv fc (s\<lparr>su_timer := t\<rparr>) = status_inv fc s" "status_inv fc (s\<lparr>su_timedOut := b\<rparr>) = status_inv fc s"
  "status_inv fc (s\<lparr>su_loopEnded := b\<rparr>) = status_inv fc s"
  "status_inv fc (s\<lparr>su_startupFinished := b\<rparr>) = status_inv fc s"
  by (rule status_inv_cong; simp)+

lemma status_invI:
  assumes "\<And>i j. su_status s i \<in> {CStarting, CReady, CFailed} \<Longrightarrow> depends i = Some j \<Longrightarrow> su_status s j = CReady"
    and "\<And>i. su_status s i = CWaiting \<Longrightarrow> i \<noteq> ComponentIdCount \<Longrightarrow>
       \<not> su_applicationFailed s \<and> (\<exists>j. depends i = Some j \<and> su_status s j \<noteq> CReady)"
    and "\<And>i. su_status s i = CBlocked \<Longrightarrow> su_applicationFailed s"
    and "\<And>i. su_status s i = CFailed \<Longrightarrow> i \<in> set failedComponents"
    and "\<And>i. su_status s i = CReady \<Longrightarrow> i \<notin> set failedComponents"
    and "su_status s ComponentIdCount = CWaiting"
    and "su_applicationFailed s \<longleftrightarrow> (\<exists>i. i \<noteq> Telemetry \<and> su_status s i = CFailed)"
    and "su_degraded s \<longleftrightarrow> su_status s Telemetry = CFailed"
  shows "status_inv failedComponents s"
  unfolding status_inv_def
proof (intro conjI allI impI)
  fix i
  show "case depends i of None \<Rightarrow> True | Some j \<Rightarrow> su_status s j = CReady"
    if "su_status s i \<in> {CStarting, CReady, CFailed}" using assms(1) [OF that] by (simp split: option.split)
  show "\<not> su_applicationFailed s" "case depends i of None \<Rightarrow> False | Some j \<Rightarrow> su_status s j \<noteq> CReady"
    if "su_status s i = CWaiting" "i \<noteq> ComponentIdCount" using assms(2) [OF that] by auto
qed (use assms(3-8) in auto)

text \<open>A component that is starting has become ready or has failed.\<close>

lemma handle_ready_status:
  assumes "i \<noteq> ComponentIdCount"
  shows "su_status (handle_ready failedComponents i s) j =
    (if j = i then CReady else if depends j = Some i then CStarting else su_status s j)"
  using assms by (cases i; cases j) (simp_all add: handle_ready_def startComponent_def)

lemma handle_ready_frame:
  "su_applicationFailed (handle_ready failedComponents i s) = su_applicationFailed s"
  "su_degraded (handle_ready failedComponents i s) = su_degraded s"
  "su_queue (handle_ready failedComponents i s) = su_queue s"
  "su_timer (handle_ready failedComponents i s) = su_timer s"
  "su_timedOut (handle_ready failedComponents i s) = su_timedOut s"
  "su_loopEnded (handle_ready failedComponents i s) = su_loopEnded s"
  "su_startupFinished (handle_ready failedComponents i s) = su_startupFinished s"
  by (cases i; simp add: handle_ready_def startComponent_def)+

lemma handle_failed_status:
  assumes "i \<noteq> ComponentIdCount"
  shows "su_status (handle_failed i s) j =
    (if j = i then CFailed
     else if i \<noteq> Telemetry \<and> j \<noteq> ComponentIdCount \<and> su_status s j = CWaiting then CBlocked else su_status s j)"
  using assms by (simp add: handle_failed_def required_iff block_waiting Let_def)

lemma handle_failed_frame:
  "i \<noteq> ComponentIdCount \<Longrightarrow> su_applicationFailed (handle_failed i s) = (su_applicationFailed s \<or> i \<noteq> Telemetry)"
  "i \<noteq> ComponentIdCount \<Longrightarrow> su_degraded (handle_failed i s) = (su_degraded s \<or> i = Telemetry)"
  "i \<noteq> ComponentIdCount \<Longrightarrow> su_queue (handle_failed i s) = (if i \<noteq> Telemetry then bq_stop (su_queue s) else su_queue s)"
  "su_workers (handle_failed i s) = su_workers s"
  "su_timer (handle_failed i s) = su_timer s" "su_timedOut (handle_failed i s) = su_timedOut s"
  "su_loopEnded (handle_failed i s) = su_loopEnded s" "su_startupFinished (handle_failed i s) = su_startupFinished s"
  by (simp_all add: handle_failed_def required_iff Let_def)

lemma ready_status:
  assumes inv: "status_inv failedComponents s" and st: "su_status s i = CStarting" "i \<notin> set failedComponents"
  shows "status_inv failedComponents (handle_ready failedComponents i s)"
proof -
  note old = status_invD [OF inv]
  have i: "i \<noteq> ComponentIdCount" using old(6) st(1) by auto
  have child: "su_status s j \<notin> {CStarting, CReady, CFailed}" if "depends j = Some i" for j
    using old(1) [of j i] that st(1) by auto
  note new = handle_ready_status [OF i] handle_ready_frame
  show ?thesis
  proof (rule status_invI; unfold new)
    fix j k
    assume "(if j = i then CReady else if depends j = Some i then CStarting else su_status s j) \<in> {CStarting, CReady, CFailed}"
      and k: "depends j = Some k"
    then have "k = i \<or> su_status s k = CReady" using old(1) [of j k] st(1) by (auto split: if_splits)
    then show "(if k = i then CReady else if depends k = Some i then CStarting else su_status s k) = CReady"
      using child [of k] by auto
  next
    fix j
    assume "(if j = i then CReady else if depends j = Some i then CStarting else su_status s j) = CWaiting" "j \<noteq> ComponentIdCount"
    then have j: "su_status s j = CWaiting" "depends j \<noteq> Some i" "j \<noteq> ComponentIdCount" by (simp_all split: if_splits)
    obtain k where k: "depends j = Some k" "su_status s k \<noteq> CReady" "\<not> su_applicationFailed s"
      using old(2) [OF j(1,3)] by blast
    have "(if k = i then CReady else if depends k = Some i then CStarting else su_status s k) \<noteq> CReady"
      using k j(2) by simp
    then show "\<not> su_applicationFailed s \<and> (\<exists>k. depends j = Some k \<and>
        (if k = i then CReady else if depends k = Some i then CStarting else su_status s k) \<noteq> CReady)"
      using k(1,3) by blast
  next
    show "su_applicationFailed s \<longleftrightarrow> (\<exists>j. j \<noteq> Telemetry \<and>
        (if j = i then CReady else if depends j = Some i then CStarting else su_status s j) = CFailed)"
    proof -
      have same: "(if j = i then CReady else if depends j = Some i then CStarting else su_status s j) = CFailed
          \<longleftrightarrow> su_status s j = CFailed" for j
        using child [of j] st(1) by simp
      show ?thesis unfolding same by (rule old(7))
    qed
  next
    show "su_degraded s \<longleftrightarrow> (if Telemetry = i then CReady else if depends Telemetry = Some i then CStarting
        else su_status s Telemetry) = CFailed"
    proof -
      have same: "(if Telemetry = i then CReady else if depends Telemetry = Some i then CStarting else su_status s Telemetry) = CFailed
          \<longleftrightarrow> su_status s Telemetry = CFailed"
        using child [of Telemetry] st(1) by (cases "i = Telemetry") simp_all
      show ?thesis unfolding same by (rule old(8))
    qed
  next
    fix j
    assume "(if j = i then CReady else if depends j = Some i then CStarting else su_status s j) = CBlocked"
    then show "su_applicationFailed s" using old(3) [of j] by (simp split: if_splits)
  next
    fix j
    assume "(if j = i then CReady else if depends j = Some i then CStarting else su_status s j) = CFailed"
    then show "j \<in> set failedComponents" using old(4) [of j] by (simp split: if_splits)
  next
    fix j
    assume "(if j = i then CReady else if depends j = Some i then CStarting else su_status s j) = CReady"
    then show "j \<notin> set failedComponents" using old(5) [of j] st(2) by (simp split: if_splits)
  qed (simp add: old(6) not_sym [OF i])
qed

lemma failed_status:
  assumes inv: "status_inv failedComponents s" and st: "su_status s i = CStarting" "i \<in> set failedComponents"
  shows "status_inv failedComponents (handle_failed i s)"
proof -
  note old = status_invD [OF inv]
  have i: "i \<noteq> ComponentIdCount" using old(6) st(1) by auto
  note new = handle_failed_status [OF i] handle_failed_frame(1,2) [OF i]
  show ?thesis
  proof (rule status_invI; unfold new)
    fix j k
    assume "(if j = i then CFailed else if i \<noteq> Telemetry \<and> j \<noteq> ComponentIdCount \<and> su_status s j = CWaiting
        then CBlocked else su_status s j) \<in> {CStarting, CReady, CFailed}" and "depends j = Some k"
    then have "su_status s k = CReady" using old(1) [of j k] st(1) by (auto split: if_splits)
    then show "(if k = i then CFailed else if i \<noteq> Telemetry \<and> k \<noteq> ComponentIdCount \<and> su_status s k = CWaiting
        then CBlocked else su_status s k) = CReady"
      using st(1) by auto
  next
    fix j
    assume "(if j = i then CFailed else if i \<noteq> Telemetry \<and> j \<noteq> ComponentIdCount \<and> su_status s j = CWaiting
        then CBlocked else su_status s j) = CWaiting" "j \<noteq> ComponentIdCount"
    then have "i = Telemetry" "su_status s j = CWaiting" "j \<noteq> i" by (auto split: if_splits)
    then show "\<not> (su_applicationFailed s \<or> i \<noteq> Telemetry) \<and> (\<exists>k. depends j = Some k \<and>
        (if k = i then CFailed else if i \<noteq> Telemetry \<and> k \<noteq> ComponentIdCount \<and> su_status s k = CWaiting
         then CBlocked else su_status s k) \<noteq> CReady)"
    proof -
      obtain k where k: "depends j = Some k" "su_status s k \<noteq> CReady" "\<not> su_applicationFailed s"
        using old(2) [OF \<open>su_status s j = CWaiting\<close> \<open>j \<noteq> ComponentIdCount\<close>] by blast
      have "(if k = i then CFailed else if i \<noteq> Telemetry \<and> k \<noteq> ComponentIdCount \<and> su_status s k = CWaiting
         then CBlocked else su_status s k) \<noteq> CReady"
        using k(2) by simp
      then show ?thesis using k(1,3) \<open>i = Telemetry\<close> by blast
    qed
  next
    show "(su_applicationFailed s \<or> i \<noteq> Telemetry) \<longleftrightarrow> (\<exists>j. j \<noteq> Telemetry \<and>
        (if j = i then CFailed else if i \<noteq> Telemetry \<and> j \<noteq> ComponentIdCount \<and> su_status s j = CWaiting
         then CBlocked else su_status s j) = CFailed)"
    proof -
      have same: "(if j = i then CFailed else if i \<noteq> Telemetry \<and> j \<noteq> ComponentIdCount \<and> su_status s j = CWaiting
         then CBlocked else su_status s j) = CFailed \<longleftrightarrow> j = i \<or> su_status s j = CFailed" for j
        by simp
      show ?thesis unfolding same old(7) by blast
    qed
  next
    show "(su_degraded s \<or> i = Telemetry) \<longleftrightarrow>
       (if Telemetry = i then CFailed else if i \<noteq> Telemetry \<and> Telemetry \<noteq> ComponentIdCount \<and> su_status s Telemetry = CWaiting
         then CBlocked else su_status s Telemetry) = CFailed"
      using old(8) by auto
  next
    fix j
    assume "(if j = i then CFailed else if i \<noteq> Telemetry \<and> j \<noteq> ComponentIdCount \<and> su_status s j = CWaiting
        then CBlocked else su_status s j) = CBlocked"
    then show "su_applicationFailed s \<or> i \<noteq> Telemetry" using old(3) [of j] by (simp split: if_splits)
  next
    fix j
    assume "(if j = i then CFailed else if i \<noteq> Telemetry \<and> j \<noteq> ComponentIdCount \<and> su_status s j = CWaiting
        then CBlocked else su_status s j) = CFailed"
    then show "j \<in> set failedComponents" using old(4) [of j] st(2) by (simp split: if_splits)
  next
    fix j
    assume "(if j = i then CFailed else if i \<noteq> Telemetry \<and> j \<noteq> ComponentIdCount \<and> su_status s j = CWaiting
        then CBlocked else su_status s j) = CReady"
    then show "j \<notin> set failedComponents" using old(5) [of j] by (simp split: if_splits)
  qed (simp add: old(6) not_sym [OF i])
qed

section \<open>Tokens\<close>

definition children :: "ComponentId \<Rightarrow> ComponentId list" where
  "children i = filter (\<lambda>j. depends j = Some i) [Sensor, Telemetry, Calibration, Processing]"

lemma children_distinct: "distinct (children i)"
  by (simp add: children_def)

lemma set_children: "set (children i) = {j. depends j = Some i}"
proof (rule set_eqI)
  show "j \<in> set (children i) \<longleftrightarrow> j \<in> {j. depends j = Some i}" for j
    by (cases j) (auto simp: children_def)
qed

lemma handle_ready_workers:
  "su_workers (handle_ready failedComponents i s) = su_workers s @
     map (\<lambda>j. \<lparr>se_component = j, se_state = (if j \<in> set failedComponents then StartFailed else StartReady)\<rparr>) (children i)"
  by (cases i) (simp_all add: handle_ready_def startComponent_def children_def)

text \<open>What \<open>token_inv\<close> says, for a given list of tokens.\<close>

definition tokens_fit :: "ComponentId list \<Rightarrow> (ComponentId \<Rightarrow> ComponentStatus) \<Rightarrow> bool \<Rightarrow> StartupEvent list \<Rightarrow> bool" where
  "tokens_fit failedComponents st stopped ts \<longleftrightarrow> distinct (map se_component ts)
   \<and> (\<forall>e \<in> set ts. st (se_component e) = CStarting
        \<and> (se_state e = StartFailed \<longleftrightarrow> se_component e \<in> set failedComponents))
   \<and> (\<not> stopped \<longrightarrow> (\<forall>i. st i = CStarting \<longrightarrow> i \<in> se_component ` set ts))"

lemma tokens_fitD:
  assumes "tokens_fit fc st stopped ts"
  shows "distinct (map se_component ts)"
    and "e \<in> set ts \<Longrightarrow> st (se_component e) = CStarting"
    and "e \<in> set ts \<Longrightarrow> se_state e = StartFailed \<longleftrightarrow> se_component e \<in> set fc"
    and "\<not> stopped \<Longrightarrow> st i = CStarting \<Longrightarrow> i \<in> se_component ` set ts"
  using assms unfolding tokens_fit_def by blast+

lemma tokens_fitI:
  assumes "distinct (map se_component ts)"
    and "\<And>e. e \<in> set ts \<Longrightarrow> st (se_component e) = CStarting"
    and "\<And>e. e \<in> set ts \<Longrightarrow> se_state e = StartFailed \<longleftrightarrow> se_component e \<in> set fc"
    and "\<And>i. \<not> stopped \<Longrightarrow> st i = CStarting \<Longrightarrow> i \<in> se_component ` set ts"
  shows "tokens_fit fc st stopped ts"
  using assms unfolding tokens_fit_def by blast

lemma token_inv_fit: "token_inv fc s \<longleftrightarrow> tokens_fit fc (su_status s) (mStopped (su_queue s) \<or> su_loopEnded s) (tokens s)"
  by (simp add: token_inv_def tokens_fit_def)

lemma tokens_fit_perm:
  assumes "tokens_fit fc st stopped ts" "mset ts' = mset ts"
  shows "tokens_fit fc st stopped ts'"
proof -
  have "set ts' = set ts" using assms(2) by (metis set_mset_mset)
  moreover have "distinct (map se_component ts')"
    using assms by (metis mset_eq_imp_distinct_iff mset_map tokens_fit_def)
  ultimately show ?thesis using assms(1) by (simp add: tokens_fit_def)
qed

lemma tokens_fit_stop: "tokens_fit fc st stopped ts \<Longrightarrow> tokens_fit fc st True ts"
  by (simp add: tokens_fit_def)

lemma tokens_fit_lose: "tokens_fit fc st True (e # ts) \<Longrightarrow> tokens_fit fc st True ts"
  by (simp add: tokens_fit_def)

lemma tokens_fit_room:
  assumes "tokens_fit fc st stopped ts" "st ComponentIdCount = CWaiting"
  shows "length ts \<le> 5"
proof -
  have "set (map se_component ts) \<subseteq> {Configuration, Sensor, Calibration, Processing, Telemetry}"
    using assms component_cases by (fastforce simp: tokens_fit_def)
  then have "card (set (map se_component ts)) \<le> card {Configuration, Sensor, Calibration, Processing, Telemetry}"
    by (rule card_mono [rotated]) simp
  moreover have "card (set (map se_component ts)) = length ts"
    using assms(1) distinct_card [of "map se_component ts"] by (simp add: tokens_fit_def)
  ultimately show ?thesis by simp
qed

lemma tokens_fit_ready:
  assumes "tokens_fit fc (su_status s) stopped (e # ts)" "status_inv fc s"
  shows "tokens_fit fc (su_status (handle_ready fc (se_component e) s)) stopped
     (ts @ map (\<lambda>j. \<lparr>se_component = j, se_state = (if j \<in> set fc then StartFailed else StartReady)\<rparr>) (children (se_component e)))"
proof -
  let ?i = "se_component e" and ?new = "\<lambda>j. \<lparr>se_component = j, se_state = (if j \<in> set fc then StartFailed else StartReady)\<rparr>"
  note old = status_invD [OF assms(2)] and fit = tokens_fitD [OF assms(1)]
  have st: "su_status s ?i = CStarting" by (rule fit(2)) simp
  have i: "?i \<noteq> ComponentIdCount" using old(6) st by auto
  note new = handle_ready_status [OF i]
  have child: "su_status s j \<noteq> CStarting" if "depends j = Some ?i" for j using old(1) [of j ?i] that st by auto
  have held: "su_status s (se_component x) = CStarting" "se_state x = StartFailed \<longleftrightarrow> se_component x \<in> set fc"
    if "x \<in> set ts" for x
    using fit(2,3) [of x] that by simp_all
  have other: "se_component x \<noteq> ?i" if "x \<in> set ts" for x using fit(1) imageI [OF that, of se_component] by force
  have apart: "depends (se_component x) \<noteq> Some ?i" if "x \<in> set ts" for x
    using child held(1) that by blast
  have names: "map se_component (ts @ map ?new (children ?i)) = map se_component ts @ children ?i"
    by (simp add: comp_def)
  show ?thesis
  proof (rule tokens_fitI)
    have "distinct (map se_component ts)" using fit(1) by simp
    moreover have "set (map se_component ts) \<inter> set (children ?i) = {}"
      using apart by (auto simp: set_children)
    ultimately show "distinct (map se_component (ts @ map ?new (children ?i)))"
      unfolding names using children_distinct by (simp only: distinct_append simp_thms)
  next
    fix x assume "x \<in> set (ts @ map ?new (children ?i))"
    then consider "x \<in> set ts" | j where "x = ?new j" "depends j = Some ?i" by (auto simp: set_children)
    note x = this
    show "su_status (handle_ready fc ?i s) (se_component x) = CStarting"
      using x by cases (auto simp: new held(1) other)
    show "(se_state x = StartFailed) = (se_component x \<in> set fc)"
      using x by cases (simp_all add: held(2))
  next
    fix j assume go: "\<not> stopped" and "su_status (handle_ready fc ?i s) j = CStarting"
    then have "j \<noteq> ?i" and "depends j = Some ?i \<or> su_status s j = CStarting" by (simp_all add: new split: if_splits)
    then consider "j \<in> set (children ?i)" | "j \<in> se_component ` set ts"
      using fit(4) [OF go, of j] by (auto simp: set_children)
    then show "j \<in> se_component ` set (ts @ map ?new (children ?i))"
      by cases (simp_all add: image_Un image_image)
  qed
qed

lemma tokens_fit_failed:
  assumes "tokens_fit fc (su_status s) stopped (e # ts)" "status_inv fc s"
  shows "tokens_fit fc (su_status (handle_failed (se_component e) s)) stopped ts"
proof -
  let ?i = "se_component e"
  note fit = tokens_fitD [OF assms(1)]
  have st: "su_status s ?i = CStarting" by (rule fit(2)) simp
  have i: "?i \<noteq> ComponentIdCount" using status_invD(6) [OF assms(2)] st by auto
  have new: "su_status (handle_failed ?i s) j = CStarting \<longleftrightarrow> j \<noteq> ?i \<and> su_status s j = CStarting" for j
    by (simp add: handle_failed_status [OF i])
  have other: "se_component x \<noteq> ?i" if "x \<in> set ts" for x using fit(1) imageI [OF that, of se_component] by force
  show ?thesis
  proof (rule tokens_fitI)
    show "distinct (map se_component ts)" using fit(1) by simp
    show "su_status (handle_failed ?i s) (se_component x) = CStarting" if "x \<in> set ts" for x
      using fit(2) [of x] other that by (simp add: new)
    show "(se_state x = StartFailed) = (se_component x \<in> set fc)" if "x \<in> set ts" for x
      using fit(3) [of x] that by simp
    show "j \<in> se_component ` set ts" if "\<not> stopped" "su_status (handle_failed ?i s) j = CStarting" for j
      using fit(4) [OF that(1), of j] that(2) by (simp add: new)
  qed
qed

section \<open>Every step keeps the invariant\<close>

lemma tokens_length: "length (tokens s) = length (su_workers s) + mSize (su_queue s)"
  by (simp add: tokens_def)

lemma worker_keeps:
  assumes inv: "startup_inv fc s" and ws: "su_workers s = ws1 @ e # ws2" and push: "bq_push (su_queue s) e = Some (q, ok)"
  shows "startup_inv fc (s\<lparr>su_workers := ws1 @ ws2, su_queue := q\<rparr>)"
proof -
  let ?s = "s\<lparr>su_workers := ws1 @ ws2, su_queue := q\<rparr>"
  have parts: "status_inv fc s" "control_inv s" and fit: "tokens_fit fc (su_status s) (mStopped (su_queue s) \<or> su_loopEnded s) (tokens s)"
    using inv by (simp_all add: startup_inv_def token_inv_fit)
  have bq: "bq_inv (su_queue s)" using parts(2) by (simp add: control_inv_def)
  have q: "mStopped q = mStopped (su_queue s) \<and> bq_inv q \<and> bq_capacity q = bq_capacity (su_queue s)
      \<and> bq_abs q = (if mStopped (su_queue s) then bq_abs (su_queue s) else bq_abs (su_queue s) @ [e])"
    using push bq by (auto simp: bq_push_eq push_wait_predicate_def inserted_inv inserted_abs split: if_splits)
  have "tokens_fit fc (su_status s) (mStopped (su_queue s) \<or> su_loopEnded s) (tokens ?s)"
  proof (cases "mStopped (su_queue s)")
    case True
    have "tokens_fit fc (su_status s) True (e # ws1 @ ws2 @ bq_abs (su_queue s))"
      using fit True by (auto intro: tokens_fit_perm simp: tokens_def ws)
    then show ?thesis using True q by (auto dest: tokens_fit_lose simp: tokens_def)
  next
    case False
    then show ?thesis using fit q by (auto intro: tokens_fit_perm simp: tokens_def ws)
  qed
  moreover have "status_inv fc ?s" using parts(1) by simp
  moreover have "control_inv ?s" using parts(2) q by (simp add: control_inv_def loop_continues_def) blast
  ultimately show ?thesis using q by (simp add: startup_inv_def token_inv_fit)
qed

lemma pop_cases:
  assumes "bq_inv q" "bq_pop q = Some (q', event)"
  obtains "event = None" "q' = q" "mStopped q" "bq_abs q = []"
    | e where "event = Some e" "bq_inv q'" "bq_capacity q' = bq_capacity q" "mStopped q' = mStopped q"
        "bq_abs q = e # bq_abs q'"
proof (cases "mSize q = 0")
  case True
  then have "event = None" "q' = q" "mStopped q" using assms(2) by (auto simp: bq_pop_eq pop_wait_predicate_def split: if_splits)
  with True show ?thesis using that(1) by (simp add: bq_abs_def)
next
  case False
  then have "event = Some (the (mStorage q ! mReadIndex q))" "q' = removed q"
    using assms(2) by (auto simp: bq_pop_eq split: if_splits)
  then show ?thesis using that(2) removed_inv [OF assms(1)] removed_abs [OF assms(1)] False by simp
qed

lemma ended_keeps:
  assumes inv: "startup_inv fc s" and fin: "su_timedOut s \<or> \<not> loop_continues s"
    and q: "bq_inv q" "bq_capacity q = bq_capacity (su_queue s)" "mStopped q = mStopped (su_queue s)"
    and sub: "bq_abs (su_queue s) = xs @ bq_abs q" "length xs \<le> 1"
  shows "startup_inv fc (s\<lparr>su_queue := q, su_loopEnded := True\<rparr>)"
proof -
  have fit: "tokens_fit fc (su_status s) True (tokens s)"
    using inv tokens_fit_stop by (auto simp: startup_inv_def token_inv_fit)
  have "tokens_fit fc (su_status s) True (su_workers s @ bq_abs q)"
  proof (cases xs)
    case Nil
    then show ?thesis using fit sub by (simp add: tokens_def)
  next
    case (Cons e ys)
    then have "tokens_fit fc (su_status s) True (e # su_workers s @ bq_abs q)"
      using fit sub by (auto intro: tokens_fit_perm simp: tokens_def)
    then show ?thesis by (rule tokens_fit_lose)
  qed
  then show ?thesis using inv fin q
    by (simp add: startup_inv_def token_inv_fit control_inv_def loop_continues_def tokens_def) blast
qed

lemma turn_keeps:
  assumes inv: "startup_inv fc s" and go: "\<not> su_loopEnded s" "loop_continues s"
    and pop: "bq_pop (su_queue s) = Some (q, event)"
  shows "startup_inv fc (coordinator_turn fc event (s\<lparr>su_queue := q\<rparr>))"
proof -
  have parts: "status_inv fc s" "control_inv s" and fit: "tokens_fit fc (su_status s) (mStopped (su_queue s)) (tokens s)"
    using inv go(1) by (simp_all add: startup_inv_def token_inv_fit)
  have bq: "bq_inv (su_queue s)" using parts(2) by (simp add: control_inv_def)
  from bq pop show ?thesis
  proof (cases rule: pop_cases)
    case 1
    then have "su_timedOut s" using parts(2) go by (auto simp: control_inv_def loop_continues_def)
    then show ?thesis using ended_keeps [OF inv _ bq, of "[]"] 1 by (simp add: coordinator_turn_def)
  next
    case (2 e)
    let ?s = "s\<lparr>su_queue := q\<rparr>" and ?i = "se_component e"
    have stat: "status_inv fc ?s" using parts(1) by simp
    have fit1: "tokens_fit fc (su_status ?s) (mStopped (su_queue s)) (e # su_workers s @ bq_abs q)"
      using fit 2 by (auto intro: tokens_fit_perm simp: tokens_def)
    have st: "su_status ?s ?i = CStarting" and failed: "se_state e = StartFailed \<longleftrightarrow> ?i \<in> set fc"
      using tokens_fitD(2,3) [OF fit1, of e] by simp_all
    have i: "?i \<noteq> ComponentIdCount" using st status_invD(6) [OF stat] by auto
    have calm: "\<not> (mStopped (su_queue s) \<and> \<not> su_timedOut s)" "\<not> su_startupFinished s" "\<not> su_applicationFailed s"
      using parts(2) go by (auto simp: control_inv_def loop_continues_def)
    show ?thesis
    proof (cases "su_timedOut s")
      case True
      then show ?thesis using ended_keeps [OF inv _ 2(2-4), of "[e]"] 2 by (simp add: coordinator_turn_def)
    next
      case on: False
      show ?thesis
      proof (cases "se_state e = StartFailed")
        case True
        have "status_inv fc (handle_failed ?i ?s)"
          using failed_status [OF stat st] failed True by simp
        moreover have "tokens_fit fc (su_status (handle_failed ?i ?s)) (mStopped (su_queue (handle_failed ?i ?s)))
            (tokens (handle_failed ?i ?s))"
          using tokens_fit_failed [OF fit1 stat] on calm(1)
          by (auto simp: tokens_def handle_failed_frame(1-3) [OF i] handle_failed_frame(4) 2(4) intro: tokens_fit_stop)
        moreover have "control_inv (handle_failed ?i ?s)"
          using parts(2) 2 go on calm by (simp add: control_inv_def handle_failed_frame(1-3) [OF i] handle_failed_frame(4-8))
        ultimately show ?thesis
          using on 2(1) True go(1) by (simp add: startup_inv_def token_inv_fit coordinator_turn_def handle_failed_frame)
      next
        case False
        have "status_inv fc (handle_ready fc ?i ?s)"
          using ready_status [OF stat st] failed False by simp
        moreover have "tokens_fit fc (su_status (handle_ready fc ?i ?s)) (mStopped (su_queue (handle_ready fc ?i ?s)))
            (tokens (handle_ready fc ?i ?s))"
          using tokens_fit_perm [OF tokens_fit_ready [OF fit1 stat]]
          by (simp add: tokens_def handle_ready_frame handle_ready_workers 2(4))
        moreover have "control_inv (handle_ready fc ?i ?s)"
          using parts(2) 2 go on calm by (simp add: control_inv_def handle_ready_frame)
        ultimately show ?thesis
          using on 2(1) False go(1) by (simp add: startup_inv_def token_inv_fit coordinator_turn_def handle_ready_frame)
      qed
    qed
  qed
qed

lemma work_keeps:
  assumes inv: "startup_inv fc s" and step: "work_step fc s s'"
  shows "startup_inv fc s'"
  using step
proof (cases rule: work_step.cases)
  case worker
  then show ?thesis using worker_keeps [OF inv] by simp
next
  case turn
  then show ?thesis using turn_keeps [OF inv] by simp
next
  case loop_end
  then show ?thesis using ended_keeps [OF inv, of "su_queue s" "[]"] inv
    by (simp add: startup_inv_def control_inv_def)
next
  case finish
  then show ?thesis using inv
    by (auto simp: startup_inv_def token_inv_fit control_inv_def tokens_def loop_continues_def intro: tokens_fit_stop)
qed

lemma timeout_keeps:
  assumes inv: "startup_inv fc s" and step: "timeout_step s s'"
  shows "startup_inv fc s'"
  using step inv
  by cases (auto simp: startup_inv_def token_inv_fit control_inv_def tokens_def loop_continues_def intro: tokens_fit_stop)

lemma startup_reach_inv: "startup_reach fc s \<Longrightarrow> startup_inv fc s"
  by (induction rule: startup_reach.induct) (auto intro: begin_inv work_keeps timeout_keeps)

lemma queue_has_room:
  assumes "startup_inv fc s"
  shows "mSize (su_queue s) + length (su_workers s) \<le> 5"
proof -
  have "tokens_fit fc (su_status s) (mStopped (su_queue s) \<or> su_loopEnded s) (tokens s)"
    and "su_status s ComponentIdCount = CWaiting"
    using assms status_invD(6) [of fc s] by (simp_all add: startup_inv_def token_inv_fit)
  from tokens_fit_room [OF this] show ?thesis by (simp add: tokens_length)
qed

text \<open>While the loop runs and nothing is stopped, some component is starting.\<close>

lemma someone_starts:
  assumes inv: "status_inv fc s" and go: "loop_continues s"
  obtains i where "su_status s i = CStarting"
proof -
  note D = status_invD [OF inv]
  have open_state: "su_status s i = CStarting \<or> su_status s i = CReady \<or> su_status s i = CWaiting" if "i \<noteq> Telemetry" for i
    using D(3) [of i] D(7) that go by (cases "su_status s i") (auto simp: loop_continues_def)
  have waits: "\<exists>j. depends i = Some j \<and> su_status s j \<noteq> CReady" if "su_status s i = CWaiting" "i \<noteq> ComponentIdCount" for i
    using D(2) [OF that] by blast
  have chain: "\<exists>i. su_status s i = CStarting" if "i \<noteq> ComponentIdCount" "su_status s i = CWaiting" for i
  proof -
    have 0: "su_status s Configuration \<noteq> CWaiting" using waits [of Configuration] by auto
    have 1: "\<exists>i. su_status s i = CStarting" if "su_status s Sensor = CWaiting"
      using waits [OF that] open_state [of Configuration] 0 by auto
    have 2: "\<exists>i. su_status s i = CStarting" if "su_status s Calibration = CWaiting"
      using waits [OF that] open_state [of Sensor] 1 by auto
    have 3: "\<exists>i. su_status s i = CStarting" if "su_status s Processing = CWaiting"
      using waits [OF that] open_state [of Calibration] 2 by auto
    have 4: "\<exists>i. su_status s i = CStarting" if "su_status s Telemetry = CWaiting"
      using waits [OF that] open_state [of Configuration] 0 by auto
    show ?thesis using that 0 1 2 3 4 by (cases i) auto
  qed
  from go consider c where "c \<in> set Components" "cs_required c" "su_status s (cs_id c) \<noteq> CReady"
    | "\<not> telemetryFinished (su_status s)"
    by (auto simp: loop_continues_def allRequiredReady_def list_all_iff)
  then have "\<exists>i. su_status s i = CStarting"
  proof cases
    case 1
    then have "cs_id c \<noteq> Telemetry" "cs_id c \<noteq> ComponentIdCount" by (auto simp: Components_def)
    then show ?thesis using 1(3) open_state [of "cs_id c"] chain by blast
  next
    case 2
    then show ?thesis using chain [of Telemetry] by (cases "su_status s Telemetry") (auto simp: telemetryFinished_def)
  qed
  then show ?thesis using that by blast
qed

section \<open>Progress\<close>

definition waiting :: "(ComponentId \<Rightarrow> ComponentStatus) \<Rightarrow> nat" where
  "waiting st = length (filter (\<lambda>c. st (cs_id c) = CWaiting) Components)"

text \<open>How much is left to do; every step of every thread makes it smaller.\<close>

definition startup_work :: "startup \<Rightarrow> nat" where
  "startup_work s = 3 * waiting (su_status s) + 2 * length (su_workers s) + mSize (su_queue s)
     + (if su_loopEnded s then 0 else 1) + (if su_startupFinished s then 0 else 1)
     + (case su_timer s of TimerArmed \<Rightarrow> 2 | TimerFired \<Rightarrow> 1 | TimerDone \<Rightarrow> 0)"

lemma waiting_alt: "waiting st = (\<Sum>i \<leftarrow> [Configuration, Sensor, Calibration, Processing, Telemetry].
    if st i = CWaiting then 1 else 0)"
  by (simp add: waiting_def Components_def)

lemma ready_waiting:
  assumes "i \<noteq> ComponentIdCount" "su_status s i = CStarting" "\<And>j. depends j = Some i \<Longrightarrow> su_status s j = CWaiting"
  shows "waiting (su_status (handle_ready fc i s)) + length (children i) = waiting (su_status s)"
  using assms(1,2) assms(3) [of Sensor] assms(3) [of Telemetry] assms(3) [of Calibration] assms(3) [of Processing]
  by (cases i) (simp_all add: waiting_alt children_def handle_ready_status)

lemma failed_waiting:
  "i \<noteq> ComponentIdCount \<Longrightarrow> waiting (su_status (handle_failed i s)) \<le> waiting (su_status s)"
  by (simp add: waiting_alt handle_failed_status)

lemma turn_work:
  assumes inv: "startup_inv fc s" and go: "\<not> su_loopEnded s" "loop_continues s"
    and pop: "bq_pop (su_queue s) = Some (q, event)"
  shows "startup_work (coordinator_turn fc event (s\<lparr>su_queue := q\<rparr>)) < startup_work s"
proof -
  have parts: "status_inv fc s" "control_inv s" and fit: "tokens_fit fc (su_status s) (mStopped (su_queue s)) (tokens s)"
    using inv go(1) by (simp_all add: startup_inv_def token_inv_fit)
  have bq: "bq_inv (su_queue s)" using parts(2) by (simp add: control_inv_def)
  from bq pop show ?thesis
  proof (cases rule: pop_cases)
    case 1
    then show ?thesis using go(1) by (simp add: coordinator_turn_def startup_work_def)
  next
    case (2 e)
    let ?s = "s\<lparr>su_queue := q\<rparr>" and ?i = "se_component e"
    have less: "mSize (su_queue s) = Suc (mSize q)" using arg_cong [OF 2(5), of length] by simp
    have "e \<in> set (tokens s)" using 2(5) by (simp add: tokens_def)
    then have st: "su_status ?s ?i = CStarting" using tokens_fitD(2) [OF fit] by simp
    have i: "?i \<noteq> ComponentIdCount" using st status_invD(6) [OF parts(1)] by auto
    have free: "su_status ?s j = CWaiting" if "depends j = Some ?i" for j
      using status_invD(1) [OF parts(1), of j ?i] status_invD(3) [OF parts(1), of j] that st go(2)
      by (cases "su_status s j") (auto simp: loop_continues_def)
    have len: "length (su_workers (handle_ready fc ?i ?s)) = length (su_workers s) + length (children ?i)"
      by (simp add: handle_ready_workers)
    show ?thesis
    proof (cases "su_timedOut s")
      case True
      then show ?thesis using go(1) less 2(1) by (simp add: coordinator_turn_def startup_work_def)
    next
      case on: False
      show ?thesis
      proof (cases "se_state e = StartFailed")
        case True
        define h where "h = handle_failed ?i ?s"
        have "waiting (su_status h) \<le> waiting (su_status s)" "su_workers h = su_workers s" "mSize (su_queue h) = mSize q"
          "su_timer h = su_timer s" "su_loopEnded h = su_loopEnded s" "su_startupFinished h = su_startupFinished s"
          using failed_waiting [OF i, of ?s]
          by (simp_all add: h_def handle_failed_frame(1-3) [OF i] handle_failed_frame(4-8))
        then have "startup_work h < startup_work s" using less by (simp add: startup_work_def)
        then show ?thesis using on 2(1) True by (simp add: coordinator_turn_def h_def)
      next
        case False
        then show ?thesis using on 2(1) less ready_waiting [OF i st free, of fc] len
          by (simp add: coordinator_turn_def startup_work_def handle_ready_frame)
      qed
    qed
  qed
qed

lemma work_decreases:
  assumes inv: "startup_inv fc s" and step: "work_step fc s s'"
  shows "startup_work s' < startup_work s"
  using step
proof (cases rule: work_step.cases)
  case (worker ws1 e ws2 q ok)
  then have "mSize q \<le> Suc (mSize (su_queue s))" by (auto simp: bq_push_eq split: if_splits)
  with worker show ?thesis by (simp add: startup_work_def)
next
  case turn
  then show ?thesis using turn_work [OF inv] by simp
qed (simp_all add: startup_work_def)

lemma timeout_decreases:
  assumes "timeout_step s s'"
  shows "startup_work s' < startup_work s"
  using assms by (cases rule: timeout_step.cases) (simp_all add: startup_work_def)

lemma push_never_blocks:
  assumes inv: "startup_inv fc s" and ws: "su_workers s \<noteq> []"
  shows "\<exists>q ok. bq_push (su_queue s) e = Some (q, ok)"
proof -
  have "bq_capacity (su_queue s) = 8"
    using inv unfolding startup_inv_def control_inv_def StartupQueueCapacity_def by blast
  then have "push_wait_predicate (su_queue s)"
    using queue_has_room [OF inv] by (simp add: push_wait_predicate_def)
  then show ?thesis by (auto simp: bq_push_eq)
qed

lemma work_enabled:
  assumes inv: "startup_inv fc s" and go: "\<not> su_startupFinished s"
  shows "\<exists>s'. work_step fc s s'"
proof (cases "su_loopEnded s \<or> \<not> loop_continues s")
  case True
  then show ?thesis using go work_step.loop_end work_step.finish by blast
next
  case False
  show ?thesis
  proof (cases "bq_pop (su_queue s)")
    case (Some p)
    then show ?thesis using False work_step.turn [of s "fst p" "snd p" fc] by auto
  next
    case None
    then have empty: "mSize (su_queue s) = 0" "\<not> mStopped (su_queue s)"
      by (auto simp: bq_pop_eq pop_wait_predicate_def split: if_splits)
    obtain i where "su_status s i = CStarting"
      using someone_starts [of fc s] inv False by (auto simp: startup_inv_def)
    moreover have "tokens_fit fc (su_status s) False (tokens s)"
      using inv empty(2) False by (simp add: startup_inv_def token_inv_fit)
    ultimately have "i \<in> se_component ` set (tokens s)" using tokens_fitD(4) by blast
    then obtain e ws where ws: "su_workers s = e # ws"
      using empty(1) by (cases "su_workers s") (auto simp: tokens_def bq_abs_def)
    then obtain q ok where "bq_push (su_queue s) e = Some (q, ok)" using push_never_blocks [OF inv, of e] by auto
    then show ?thesis using work_step.worker [of s "[]" e ws q ok fc] ws by auto
  qed
qed

text \<open>A run in which the first worker always goes first, for evaluation.\<close>

definition first_step :: "ComponentId list \<Rightarrow> startup \<Rightarrow> startup" where
  "first_step fc s =
     (case su_workers s of
        e # ws \<Rightarrow> (case bq_push (su_queue s) e of None \<Rightarrow> s | Some (q, ok) \<Rightarrow> s\<lparr>su_workers := ws, su_queue := q\<rparr>)
      | [] \<Rightarrow> if su_loopEnded s
             then (if su_startupFinished s then s
                   else s\<lparr>su_startupFinished := True, su_queue := bq_stop (su_queue s)\<rparr>)
             else if loop_continues s
             then (case bq_pop (su_queue s) of None \<Rightarrow> s
                   | Some (q, event) \<Rightarrow> coordinator_turn fc event (s\<lparr>su_queue := q\<rparr>))
             else s\<lparr>su_loopEnded := True\<rparr>)"

primrec first_run :: "ComponentId list \<Rightarrow> nat \<Rightarrow> startup" where
  "first_run fc 0 = startup_begin fc"
| "first_run fc (Suc n) = first_step fc (first_run fc n)"

lemma first_run_reach: "startup_reach fc (first_run fc n)"
proof (induction n)
  case 0
  then show ?case by (simp add: startup_reach.begins)
next
  case (Suc n)
  let ?s = "first_run fc n"
  have "first_step fc ?s = ?s \<or> work_step fc ?s (first_step fc ?s)"
    using work_step.worker [of ?s "[]" _ _ _ _ fc]
    by (auto simp: first_step_def intro: work_step.turn work_step.loop_end work_step.finish split: list.split option.split)
  then show ?case using Suc by (auto intro: startup_reach.works)
qed

section \<open>Properties\<close>

text \<open>Whatever the order in which the threads run, a component that is starting, ready or failed has
  had its dependency ready; no two workers run for the same component, and a worker's \<open>push\<close> never
  blocks, because at most five events are ever under way in a queue of eight.\<close>

theorem startup_order:
  assumes "startup_reach failedComponents s"
  shows "list_all (\<lambda>i. case depends i of None \<Rightarrow> True | Some j \<Rightarrow>
            (if su_status s i \<in> {CStarting, CReady, CFailed} then su_status s j = CReady else True))
          [Configuration, Sensor, Calibration, Processing, Telemetry]
    \<and> distinct (map se_component (su_workers s))
    \<and> mSize (su_queue s) + length (su_workers s) \<le> 5
    \<and> list_all (\<lambda>e. bq_push (su_queue s) e \<noteq> None) (su_workers s)"
proof -
  note inv = startup_reach_inv [OF assms]
  have "status_inv failedComponents s" using inv by (simp add: startup_inv_def)
  note dep = status_invD(1) [OF this]
  have "distinct (map se_component (tokens s))"
    using inv tokens_fitD(1) by (auto simp: startup_inv_def token_inv_fit)
  moreover have "bq_push (su_queue s) e \<noteq> None" if "e \<in> set (su_workers s)" for e
    using push_never_blocks [OF inv, of e] that by (cases "su_workers s") auto
  moreover have "case depends i of None \<Rightarrow> True | Some j \<Rightarrow>
      (if su_status s i \<in> {CStarting, CReady, CFailed} then su_status s j = CReady else True)" for i
  proof (cases "depends i")
    case (Some j)
    then show ?thesis using dep [of i j] by simp
  qed simp
  ultimately show ?thesis using queue_has_room [OF inv] unfolding list_all_iff tokens_def map_append distinct_append
    by blast
qed

theorem startup_order_witness:
  "(let s = first_run [Telemetry] 7 in su_status s Telemetry = CFailed \<and> su_status s Calibration = CStarting
      \<and> mSize (su_queue s) + length (su_workers s) \<le> 5)"
proof -
  have "mSize (su_queue (first_run [Telemetry] 7)) + length (su_workers (first_run [Telemetry] 7)) \<le> 5"
    using startup_order [OF first_run_reach [of "[Telemetry]" 7]] by blast
  moreover have "su_status (first_run [Telemetry] 7) Telemetry = CFailed" by code_simp
  moreover have "su_status (first_run [Telemetry] 7) Calibration = CStarting" by code_simp
  ultimately show ?thesis by (simp add: Let_def)
qed

text \<open>C17: when startup has finished in time, the program's verdict depends only on the components told to
  fail: it exits with 0 exactly when no required component is among them, with every required component
  ready and the report \<open>DEGRADED\<close> exactly when the telemetry fails; otherwise it exits with 1.\<close>

theorem startup_verdict:
  assumes "startup_reach failedComponents s" and "su_startupFinished s" and "\<not> su_timedOut s"
  shows "exit_status s = (if set failedComponents \<inter> {Configuration, Sensor, Calibration, Processing} = {} then 0 else 1)
    \<and> (if exit_status s = 0
       then allRequiredReady (su_status s) \<and> su_degraded s = (Telemetry \<in> set failedComponents)
       else \<not> allRequiredReady (su_status s))"
proof -
  note inv = startup_reach_inv [OF assms(1)]
  have stat: "status_inv failedComponents s" and "control_inv s" using inv by (simp_all add: startup_inv_def)
  then have over: "\<not> loop_continues s" using assms(2,3) by (auto simp: control_inv_def)
  note D = status_invD [OF stat]
  show ?thesis
  proof (cases "su_applicationFailed s")
    case True
    then obtain i where i: "i \<noteq> Telemetry" "su_status s i = CFailed" using D(7) by blast
    then have "i \<in> {Configuration, Sensor, Calibration, Processing}" using component_cases [of i] D(6) by auto
    moreover have "i \<in> set failedComponents" by (rule D(4) [OF i(2)])
    moreover have "\<not> allRequiredReady (su_status s)"
      using i calculation(1) by (auto simp: allRequiredReady_def Components_def)
    ultimately show ?thesis using True by (auto simp: exit_status_def)
  next
    case False
    then have ready: "allRequiredReady (su_status s)" and tel: "telemetryFinished (su_status s)"
      using over by (auto simp: loop_continues_def)
    have "i \<notin> set failedComponents" if "i \<in> {Configuration, Sensor, Calibration, Processing}" for i
      using D(5) [of i] ready that by (auto simp: allRequiredReady_def Components_def)
    moreover have "su_degraded s = (Telemetry \<in> set failedComponents)"
      using tel D(3,4,5) [of Telemetry] D(8) False by (auto simp: telemetryFinished_def)
    ultimately show ?thesis using False ready assms(3) by (auto simp: exit_status_def)
  qed
qed

theorem startup_verdict_witness:
  "exit_status (first_run [Telemetry] 12) = 0 \<and> su_degraded (first_run [Telemetry] 12)
    \<and> exit_status (first_run [Sensor] 9) = 1"
proof -
  have "su_startupFinished (first_run [Telemetry] 12)" "\<not> su_timedOut (first_run [Telemetry] 12)"
    "su_startupFinished (first_run [Sensor] 9)" "\<not> su_timedOut (first_run [Sensor] 9)"
    by code_simp+
  then show ?thesis
    using startup_verdict [OF first_run_reach [of "[Telemetry]" 12]] startup_verdict [OF first_run_reach [of "[Sensor]" 9]]
    by simp
qed

text \<open>C18: startup ends. Until the main thread has left its loop and said so, some worker or the main thread
  can take a step, so the threads never all wait for each other; and every step of every thread, the
  timer's included, makes the work that is left smaller, so only finitely many steps can follow.\<close>

theorem startup_never_stuck:
  assumes "startup_reach failedComponents s"
  shows "(if su_startupFinished s then True else (\<exists>s'. work_step failedComponents s s'))
    \<and> {s'. work_step failedComponents s s'} \<union> {s'. timeout_step s s'} \<subseteq> {s'. startup_work s' < startup_work s}"
  using work_enabled [OF startup_reach_inv [OF assms]] work_decreases [OF startup_reach_inv [OF assms]] timeout_decreases by auto

theorem startup_never_stuck_witness: "\<exists>s'. work_step [Sensor] (startup_begin [Sensor]) s'"
  using startup_never_stuck [OF startup_reach.begins [of "[Sensor]"]]
  by (simp add: startup_begin_def startComponent_def)

end
