(* ===== verification/MonitorProtocol.thy ===== *)
theory MonitorProtocol
  imports NmeaStreams
begin

text \<open>
  Chapter 15, the sentences of the monitoring protocol (\<open>WeatherMonitoringProtocol.h\<close> and \<open>.cpp\<close>): a
  second, allocation-free reading and writing of NMEA sentences. \<open>std::snprintf\<close> writes into a
  buffer of fixed size and returns the length the text would have; \<open>%.*s\<close> stops at a NUL.
\<close>

section \<open>Formatted output into a buffer\<close>

definition NUL :: char where "NUL = CHR 0x00"

definition snprintf :: "string \<Rightarrow> string \<Rightarrow> string \<times> nat" where
  "snprintf buffer out =
     (let kept = take (length buffer - 1) out
      in (if buffer = [] then [] else kept @ NUL # drop (length kept + 1) buffer, length out))"

definition printf_string :: "string \<Rightarrow> string" where "printf_string s = takeWhile (\<lambda>c. c \<noteq> NUL) s"

definition printf_hex2 :: "u8 \<Rightarrow> string" where
  "printf_hex2 v = [hex_table ! unat (drop_bit 4 v AND 0xF), hex_table ! unat (v AND 0xF)]"

lemma length_snprintf [simp]: "length (fst (snprintf buffer out)) = length buffer"
  by (cases buffer) (auto simp: snprintf_def Let_def)

lemma snprintf_fits:
  "length out < length buffer \<Longrightarrow> take (length out) (fst (snprintf buffer out)) = out \<and> snd (snprintf buffer out) = length out"
  by (auto simp: snprintf_def Let_def)

section \<open>Sentences\<close>

definition MaxSentenceSize :: nat where "MaxSentenceSize = 256"
definition MaxFields :: nat where "MaxFields = 8"

datatype ParseStatus = ParseOk | ParseEmpty | MissingStart | MissingChecksum | BadChecksumText
  | ChecksumMismatch | BadIdentifier | TooManyFields

datatype ReportType = RStatus | RHealth | RTemperature | RPressure | RWind | RDiagnostic

record ParsedSentence =
  pa_identifier :: string
  pa_fields :: "string list"
  pa_fieldCount :: nat

definition empty_parsed :: ParsedSentence where
  "empty_parsed = \<lparr>pa_identifier = [], pa_fields = replicate MaxFields [], pa_fieldCount = 0\<rparr>"

definition hexValue15 :: "char \<Rightarrow> int" where
  "hexValue15 c =
     (if in_chars CHR ''0'' CHR ''9'' c then int (code c) - int (code CHR ''0'')
      else if in_chars CHR ''A'' CHR ''F'' c then 10 + (int (code c) - int (code CHR ''A''))
      else if in_chars CHR ''a'' CHR ''f'' c then 10 + (int (code c) - int (code CHR ''a''))
      else -1)"

definition nmeaChecksum :: "string \<Rightarrow> u8" where
  "nmeaChecksum body = foldl (\<lambda>v c. v XOR byte_of c) 0 body"

text \<open>The verdict, the destination buffer and \<open>length\<close>.\<close>

definition buildSentence :: "string \<Rightarrow> string \<Rightarrow> bool \<times> string \<times> nat" where
  "buildSentence body destination =
     (let cs = nmeaChecksum body;
          (destination1, n) = snprintf destination
            (CHR ''$'' # printf_string body @ CHR ''*'' # printf_hex2 cs @ [CHR 0x0D, CHR 0x0A])
      in if n \<ge> length destination1 then (False, destination1[0 := NUL], 0)
         else (True, destination1, n))"

fun drop_line_end :: "string \<Rightarrow> string" where
  "drop_line_end [] = []"
| "drop_line_end (c # cs) =
     (if c = CHR 0x0D \<or> c = CHR 0x0A then drop_line_end cs else c # cs)"

definition str_rfind :: "char \<Rightarrow> string \<Rightarrow> nat option" where
  "str_rfind c s = map_option (\<lambda>k. length s - 1 - k) (find_char c (rev s))"

definition add_field :: "ParsedSentence \<Rightarrow> string \<Rightarrow> ParsedSentence" where
  "add_field parsed s = parsed\<lparr>pa_fields := (pa_fields parsed)[pa_fieldCount parsed := s],
     pa_fieldCount := pa_fieldCount parsed + 1\<rparr>"

text \<open>The loop over the fields, from position \<open>start\<close> of the body.\<close>

function parse_fields :: "string \<Rightarrow> nat \<Rightarrow> ParsedSentence \<Rightarrow> ParseStatus \<times> ParsedSentence" where
  "parse_fields body start parsed =
     (if start > length body then (ParseOk, parsed)
      else if pa_fieldCount parsed \<ge> MaxFields then (TooManyFields, empty_parsed)
      else case str_find CHR '','' body start of
             None \<Rightarrow> (ParseOk, add_field parsed (drop start body))
           | Some comma \<Rightarrow>
               let parsed1 = add_field parsed (substr body start (comma - start)); start1 = comma + 1
               in if start1 = length body
                  then (if pa_fieldCount parsed1 \<ge> MaxFields then (TooManyFields, empty_parsed)
                        else (ParseOk, add_field parsed1 []))
                  else parse_fields body start1 parsed1)"
  by pat_completeness auto
termination
  by (relation "measure (\<lambda>(body, start, _). Suc (length body) - start)") (auto simp: str_find_def split: if_splits)

declare parse_fields.simps [simp del]

definition parse_body :: "string \<Rightarrow> ParseStatus \<times> ParsedSentence" where
  "parse_body body =
     (let firstComma = str_find CHR '','' body 0;
          parsed = empty_parsed\<lparr>pa_identifier := (case firstComma of None \<Rightarrow> body | Some k \<Rightarrow> substr body 0 k)\<rparr>
      in if length (pa_identifier parsed) \<noteq> 5 then (BadIdentifier, parsed)
         else case firstComma of None \<Rightarrow> (ParseOk, parsed)
              | Some k \<Rightarrow> parse_fields body (k + 1) parsed)"

definition parseSentence :: "string \<Rightarrow> ParseStatus \<times> ParsedSentence" where
  "parseSentence s =
     (let sentence = rev (drop_line_end (rev s))
      in if sentence = [] then (ParseEmpty, empty_parsed)
         else if hd sentence \<noteq> CHR ''$'' then (MissingStart, empty_parsed)
         else case str_rfind CHR ''*'' sentence of
                None \<Rightarrow> (MissingChecksum, empty_parsed)
              | Some star \<Rightarrow>
                  if star + 3 \<noteq> length sentence then (MissingChecksum, empty_parsed)
                  else let high = hexValue15 (sentence ! (star + 1)); low = hexValue15 (sentence ! (star + 2))
                       in if high < 0 \<or> low < 0 then (BadChecksumText, empty_parsed)
                          else let body = substr sentence 1 (star - 1);
                                   expected = (word_of_int (push_bit 4 high OR low) :: u8)
                               in if nmeaChecksum body \<noteq> expected then (ChecksumMismatch, empty_parsed)
                                  else parse_body body)"

definition parseStatusName :: "ParseStatus \<Rightarrow> string" where
  "parseStatusName st = (case st of ParseOk \<Rightarrow> ''OK'' | ParseEmpty \<Rightarrow> ''EMPTY'' | MissingStart \<Rightarrow> ''MISSING_START''
     | MissingChecksum \<Rightarrow> ''MISSING_CHECKSUM'' | BadChecksumText \<Rightarrow> ''BAD_CHECKSUM_TEXT''
     | ChecksumMismatch \<Rightarrow> ''CHECKSUM_MISMATCH'' | BadIdentifier \<Rightarrow> ''BAD_IDENTIFIER''
     | TooManyFields \<Rightarrow> ''TOO_MANY_FIELDS'')"

definition parseReportType :: "string \<Rightarrow> ReportType option" where
  "parseReportType s =
     (if s = ''STS'' then Some RStatus else if s = ''HLT'' then Some RHealth
      else if s = ''TMP'' then Some RTemperature else if s = ''PRS'' then Some RPressure
      else if s = ''WND'' then Some RWind else if s = ''DIA'' then Some RDiagnostic else None)"

definition reportTypeCode :: "ReportType \<Rightarrow> string" where
  "reportTypeCode r = (case r of RStatus \<Rightarrow> ''STS'' | RHealth \<Rightarrow> ''HLT'' | RTemperature \<Rightarrow> ''TMP''
     | RPressure \<Rightarrow> ''PRS'' | RWind \<Rightarrow> ''WND'' | RDiagnostic \<Rightarrow> ''DIA'')"

definition reportIdentifier :: "ReportType \<Rightarrow> string" where
  "reportIdentifier r = (case r of RStatus \<Rightarrow> ''WXSTS'' | RHealth \<Rightarrow> ''WXHLT'' | RTemperature \<Rightarrow> ''WXTMP''
     | RPressure \<Rightarrow> ''WXPRS'' | RWind \<Rightarrow> ''WXWND'' | RDiagnostic \<Rightarrow> ''WXDIA'')"

text \<open>The verdict and \<open>value\<close>, which a number followed by other characters leaves set.\<close>

definition parseUnsigned :: "string \<Rightarrow> bool \<times> u32" where
  "parseUnsigned s =
     (if s = [] then (False, 0)
      else let (ec, n, v) = from_chars 0 (2 ^ 32 - 1) s
           in (ec = NoErrc \<and> n = length s, case v of None \<Rightarrow> 0 | Some x \<Rightarrow> word_of_int x))"

lemma parseUnsigned_show: "parseUnsigned (show_nat (unat v)) = (True, v)"
proof -
  have "show_int (uint v) = show_nat (unat v)" by (simp add: show_int_def)
  moreover have "uint v \<le> 2 ^ 32 - 1" using uint_lt2p [of v] by simp
  ultimately have "from_chars 0 (2 ^ 32 - 1) (show_nat (unat v)) = (NoErrc, length (show_nat (unat v)), Some (uint v))"
    using from_chars_show [of 0 "uint v" "2 ^ 32 - 1"] by simp
  then show ?thesis by (simp add: parseUnsigned_def)
qed

lemma parse_report_code: "parseReportType (reportTypeCode r) = Some r"
  by (cases r) (simp_all add: parseReportType_def reportTypeCode_def)

lemma parse_report_text: "parseReportType s = Some r \<longleftrightarrow> s = reportTypeCode r"
  by (cases r) (auto simp: parseReportType_def reportTypeCode_def split: if_splits)

section \<open>What is accepted\<close>

lemma hexValue15_eq: "hexValue15 = hexValue"
  by (simp add: fun_eq_iff hexValue15_def hexValue_def)

lemma nmeaChecksum_eq: "nmeaChecksum = computeXor"
  by (simp add: fun_eq_iff nmeaChecksum_def computeXor_def)

lemma drop_line_end_eq: "rev (drop_line_end (rev s)) = strip_eol s"
proof -
  have "drop_line_end s = dropWhile is_eol s" for s
    by (induction s) (auto simp: is_eol_def)
  then show ?thesis by (simp add: strip_eol_def)
qed

lemma hexValue_sign: "hexValue c < 0 \<longleftrightarrow> \<not> isHexDigit c"
  by (auto simp: hexValue_def isHexDigit_def in_chars_def code_def)

text \<open>The parsed sentence with the fields \<open>ws\<close>.\<close>

definition parsed_of :: "string \<Rightarrow> string list \<Rightarrow> ParsedSentence" where
  "parsed_of ident ws = \<lparr>pa_identifier = ident, pa_fields = ws @ replicate (MaxFields - length ws) [],
     pa_fieldCount = length ws\<rparr>"

lemma parsed_of_fields [simp]:
  "pa_identifier (parsed_of ident ws) = ident" "pa_fieldCount (parsed_of ident ws) = length ws"
  "k < length ws \<Longrightarrow> pa_fields (parsed_of ident ws) ! k = ws ! k"
  by (simp_all add: parsed_of_def nth_append)

lemma add_field_of: "length ws < MaxFields \<Longrightarrow> add_field (parsed_of ident ws) w = parsed_of ident (ws @ [w])"
proof -
  assume "length ws < MaxFields"
  then have "MaxFields - length ws = Suc (MaxFields - Suc (length ws))" by simp
  then have "replicate (MaxFields - length ws) ([] :: string) = [] # replicate (MaxFields - Suc (length ws)) []"
    by (simp only: replicate_Suc)
  then show ?thesis by (simp add: add_field_def parsed_of_def list_update_append)
qed

lemma parse_fields_split:
  assumes "start \<le> length body" "length ws \<le> MaxFields"
  shows "parse_fields body start (parsed_of ident ws) =
    (let fs = split CHR '','' (drop start body)
     in if length ws + length fs \<le> MaxFields then (ParseOk, parsed_of ident (ws @ fs)) else (TooManyFields, empty_parsed))"
  using assms
proof (induction "length body - start" arbitrary: start ws rule: less_induct)
  case less
  have fs: "0 < length (split CHR '','' (drop start body))" by simp
  show ?case
  proof (cases "length ws < MaxFields")
    case False
    then have "length ws = MaxFields" using less.prems by simp
    then show ?thesis using less.prems fs by (simp add: parse_fields.simps [of body start] Let_def del: length_greater_0_conv)
  next
    case room: True
    show ?thesis
    proof (cases "find_char CHR '','' (drop start body)")
      case None
      then have "split CHR '','' (drop start body) = [drop start body]" by (simp add: find_char_None split_no_sep)
      moreover have "str_find CHR '','' body start = None" using less.prems None by (simp add: str_find_def)
      ultimately show ?thesis using room less.prems by (simp add: parse_fields.simps [of body start] add_field_of)
    next
      case (Some k)
      then have k: "k < length (drop start body)" by (simp add: find_char_Some)
      have at: "str_find CHR '','' body start = Some (start + k)" using less.prems Some by (simp add: str_find_def)
      have sp: "split CHR '','' (drop start body) = take k (drop start body) # split CHR '','' (drop (start + k + 1) body)"
        using split_find [of "CHR '',''" "drop start body"] Some by (simp add: add.commute)
      have step: "parse_fields body start (parsed_of ident ws) =
          (let ws1 = ws @ [take k (drop start body)]; start1 = start + k + 1
           in if start1 = length body
              then (if length ws1 \<ge> MaxFields then (TooManyFields, empty_parsed) else (ParseOk, parsed_of ident (ws1 @ [[]])))
              else parse_fields body start1 (parsed_of ident ws1))"
        using room less.prems at
        by (subst parse_fields.simps) (auto simp: Let_def add_field_of substr_def)
      show ?thesis
      proof (cases "start + k + 1 = length body")
        case True
        then show ?thesis using room by (auto simp: step sp Let_def)
      next
        case False
        then have "parse_fields body (start + k + 1) (parsed_of ident (ws @ [take k (drop start body)])) =
            (let fs = split CHR '','' (drop (start + k + 1) body)
             in if length (ws @ [take k (drop start body)]) + length fs \<le> MaxFields
                then (ParseOk, parsed_of ident ((ws @ [take k (drop start body)]) @ fs)) else (TooManyFields, empty_parsed))"
          using k room by (intro less.hyps) auto
        then show ?thesis using False by (simp add: step sp Let_def)
      qed
    qed
  qed
qed

lemma parse_body_split:
  "split CHR '','' body = ident # ws \<Longrightarrow> parse_body body =
    (if length ident \<noteq> 5 then (BadIdentifier, parsed_of ident [])
     else if length ws \<le> MaxFields then (ParseOk, parsed_of ident ws) else (TooManyFields, empty_parsed))"
proof -
  assume sp: "split CHR '','' body = ident # ws"
  have start: "empty_parsed\<lparr>pa_identifier := i\<rparr> = parsed_of i []" for i
    by (simp add: empty_parsed_def parsed_of_def)
  show ?thesis
  proof (cases "find_char CHR '','' body")
    case None
    then have "ident = body" "ws = []" using sp by (simp_all add: split_find)
    then show ?thesis using None by (simp add: parse_body_def str_find_def start)
  next
    case (Some k)
    then have "ident = take k body" "ws = split CHR '','' (drop (Suc k) body)" using sp by (simp_all add: split_find)
    moreover have "k < length body" using Some by (simp add: find_char_Some)
    ultimately show ?thesis using Some parse_fields_split [of "Suc k" body "[]" ident]
      by (auto simp: parse_body_def str_find_def start substr_def Let_def)
  qed
qed

lemma str_rfind_end:
  assumes "a \<noteq> CHR ''*''" "b \<noteq> CHR ''*''"
  shows "str_rfind CHR ''*'' (xs @ [CHR ''*'', a, b]) = Some (length xs)"
  using assms by (simp add: str_rfind_def)

lemma str_rfind_Some: "str_rfind c s = Some k \<Longrightarrow> k < length s \<and> s ! k = c"
proof -
  assume "str_rfind c s = Some k"
  then obtain j where j: "find_char c (rev s) = Some j" "k = length s - 1 - j" by (auto simp: str_rfind_def)
  then have "j < length s" "rev s ! j = c" by (auto simp: find_char_Some)
  then show ?thesis using j(2) by (simp add: rev_nth)
qed

lemma hex_not_star: "isHexDigit c \<Longrightarrow> c \<noteq> CHR ''*''"
  by (auto simp: isHexDigit_def in_chars_def code_def)

text \<open>The sentence taken apart at its last star.\<close>

lemma parse_framed:
  assumes "strip_eol s = CHR ''$'' # body @ [CHR ''*'', h, l]" "isHexDigit h" "isHexDigit l"
  shows "parseSentence s = (if computeXor body = hex_byte h l then parse_body body else (ChecksumMismatch, empty_parsed))"
proof -
  have "str_rfind CHR ''*'' (strip_eol s) = Some (Suc (length body))"
    using str_rfind_end [of h l "CHR ''$'' # body"] assms hex_not_star by simp
  moreover have "\<not> hexValue h < 0" "\<not> hexValue l < 0" using assms(2,3) by (simp_all add: hexValue_sign)
  ultimately show ?thesis
    by (simp add: parseSentence_def drop_line_end_eq hexValue15_eq nmeaChecksum_eq assms(1) nth_append substr_def
        hex_byte_def Let_def)
qed

lemma parse_unframed:
  assumes "fst (parseSentence s) \<in> {ParseOk, ChecksumMismatch, BadIdentifier, TooManyFields}"
  obtains body h l where "strip_eol s = CHR ''$'' # body @ [CHR ''*'', h, l]" "isHexDigit h" "isHexDigit l"
proof -
  let ?s = "strip_eol s"
  have ne: "?s \<noteq> []" and d: "hd ?s = CHR ''$''"
    using assms by (auto simp: parseSentence_def drop_line_end_eq Let_def split: if_splits)
  obtain k where k: "str_rfind CHR ''*'' ?s = Some k"
    using assms ne d by (cases "str_rfind CHR ''*'' ?s") (simp_all add: parseSentence_def drop_line_end_eq Let_def)
  have len: "k + 3 = length ?s" using assms ne d k
    by (auto simp: parseSentence_def drop_line_end_eq Let_def split: if_splits)
  then have hex: "isHexDigit (?s ! (k + 1))" "isHexDigit (?s ! (k + 2))"
    using assms ne d k
    by (auto simp: parseSentence_def drop_line_end_eq Let_def hexValue15_eq hexValue_sign split: if_splits)
  have star: "?s ! k = CHR ''*''" using str_rfind_Some [OF k] by simp
  obtain cs where s: "?s = CHR ''$'' # cs" using ne d by (cases ?s) auto
  then obtain q where q: "k = Suc q" using star by (cases k) auto
  have "length (drop q cs) = 3" using len s q by simp
  then obtain a b c where abc: "drop q cs = [a, b, c]" by (auto simp: numeral_3_eq_3 length_Suc_conv simp del: length_drop)
  then have cs: "cs = take q cs @ [a, b, c]" by (metis append_take_drop_id)
  moreover have "cs ! q = a" "cs ! Suc q = b" "cs ! Suc (Suc q) = c"
    using abc nth_drop [of q cs 0] nth_drop [of q cs 1] nth_drop [of q cs 2] len s q by simp_all
  ultimately have "?s = CHR ''$'' # take q cs @ [CHR ''*'', ?s ! (k + 1), ?s ! (k + 2)]" using s q star by simp
  then show ?thesis using that hex by blast
qed

text \<open>What \<open>parseSentence\<close> accepts, exactly, and what it delivers: without trailing carriage returns
  and line feeds, a dollar sign, a body, a star and two hex digits with the value of the XOR of the
  body, where the body is an identifier of five characters and at most eight fields, separated by
  commas; \<open>parsed\<close> then holds exactly these. A body may contain stars: the last one counts.\<close>

theorem parseSentence_accepts_exactly:
  "parseSentence s = (ParseOk, p) \<longleftrightarrow>
     (\<exists>body h l ident ws. strip_eol s = CHR ''$'' # body @ [CHR ''*'', h, l] \<and> isHexDigit h \<and> isHexDigit l
        \<and> nmeaChecksum body = word_of_int (push_bit 4 (hexValue15 h) OR hexValue15 l)
        \<and> split CHR '','' body = ident # ws \<and> length ident = 5 \<and> length ws \<le> MaxFields
        \<and> p = \<lparr>pa_identifier = ident, pa_fields = ws @ replicate (MaxFields - length ws) [], pa_fieldCount = length ws\<rparr>)"
  (is "_ \<longleftrightarrow> ?accepted")
proof
  assume ok: "parseSentence s = (ParseOk, p)"
  then obtain body h l where f: "strip_eol s = CHR ''$'' # body @ [CHR ''*'', h, l]" "isHexDigit h" "isHexDigit l"
    using parse_unframed [of s] by auto
  obtain ident ws where sp: "split CHR '','' body = ident # ws" by (cases "split CHR '','' body") auto
  show ?accepted
    using ok parse_framed [OF f] parse_body_split [OF sp] f sp
    unfolding parsed_of_def [symmetric] nmeaChecksum_eq hexValue15_eq hex_byte_def [symmetric]
    by (auto split: if_splits)
next
  assume ?accepted
  then show "parseSentence s = (ParseOk, p)"
    using parse_framed parse_body_split
    unfolding parsed_of_def [symmetric] nmeaChecksum_eq hexValue15_eq hex_byte_def [symmetric] by fastforce
qed

section \<open>Building and parsing\<close>

definition sentence_of :: "string \<Rightarrow> string" where
  "sentence_of body = CHR ''$'' # body @ CHR ''*'' # printf_hex2 (computeXor body) @ [CHR 0x0D, CHR 0x0A]"

lemma printf_string_id: "NUL \<notin> set s \<Longrightarrow> printf_string s = s"
  by (auto simp: printf_string_def takeWhile_eq_all_conv)

lemma length_sentence_of: "length (sentence_of body) = length body + 6"
  by (simp add: sentence_of_def printf_hex2_def)

lemma build_fits:
  assumes "NUL \<notin> set body" "length body + 6 < length destination"
  shows "\<exists>d. buildSentence body destination = (True, d, length body + 6) \<and> length d = length destination
     \<and> take (length body + 6) d = sentence_of body"
proof -
  obtain d n where sn: "snprintf destination (sentence_of body) = (d, n)" by (cases "snprintf destination (sentence_of body)")
  then have "length d = length destination" "n = length body + 6" "take n d = sentence_of body"
    using snprintf_fits [of "sentence_of body" destination] length_snprintf [of destination "sentence_of body"]
      assms(2) length_sentence_of [of body] by simp_all
  then show ?thesis using assms sn
    by (simp add: buildSentence_def printf_string_id nmeaChecksum_eq sentence_of_def [symmetric])
qed

lemma build_overflows:
  assumes "NUL \<notin> set body" "length destination \<le> length body + 6"
  shows "fst (buildSentence body destination) = False \<and> snd (snd (buildSentence body destination)) = 0"
proof -
  obtain d n where sn: "snprintf destination (sentence_of body) = (d, n)" by (cases "snprintf destination (sentence_of body)")
  then have "length d = length destination" "n = length body + 6"
    using length_snprintf [of destination "sentence_of body"] by (simp, simp add: snprintf_def Let_def length_sentence_of)
  then show ?thesis using assms sn
    by (simp add: buildSentence_def printf_string_id nmeaChecksum_eq sentence_of_def [symmetric])
qed

lemma sentence_framed: "strip_eol (sentence_of body) = CHR ''$'' # body @ CHR ''*'' # printf_hex2 (computeXor body)"
proof -
  let ?c = "computeXor body"
  let ?h1 = "hex_table ! unat (drop_bit 4 ?c AND 0xF)" and ?h2 = "hex_table ! unat (?c AND 0xF)"
  have hex: "isHexDigit ?h2" using hex_table_digit nibble_less by simp
  have "strip_eol [CHR 0x0D, CHR 0x0A] = []" by (simp add: strip_eol_def is_eol_def)
  then have "strip_eol ((CHR ''$'' # body @ [CHR ''*'', ?h1]) @ ?h2 # [CHR 0x0D, CHR 0x0A])
      = (CHR ''$'' # body @ [CHR ''*'', ?h1]) @ [?h2]"
    by (subst strip_eol_keep) (simp_all add: not_eol_hex hex)
  then show ?thesis by (simp add: sentence_of_def printf_hex2_def)
qed

lemma parse_sentence_of: "parseSentence (sentence_of body) = parse_body body"
proof -
  have "isHexDigit (hex_table ! unat (drop_bit 4 (computeXor body) AND 0xF))" "isHexDigit (hex_table ! unat (computeXor body AND 0xF))"
    using hex_table_digit nibble_less by simp_all
  from parse_framed [OF _ this, of "sentence_of body" body] show ?thesis
    by (simp add: sentence_framed printf_hex2_def hex_roundtrip)
qed

text \<open>What is built can be parsed. A body of an identifier of five characters and at most eight fields,
  without commas and NULs inside them and of at most 249 characters in all, fits into the sentence
  buffer, and parsing the characters written gives back the identifier and the fields.\<close>

theorem sentence_roundtrip:
  assumes "length destination = MaxSentenceSize" "list_all (\<lambda>w. NUL \<notin> set w \<and> CHR '','' \<notin> set w) (ident # ws)"
    and "length ident = 5" "length ws \<le> MaxFields" "length (ident @ join CHR '','' ws) \<le> 249"
  shows "(let (ok, buffer, n) = buildSentence (ident @ join CHR '','' ws) destination; (status, parsed) = parseSentence (take n buffer)
     in ok \<and> length buffer = MaxSentenceSize \<and> status = ParseOk \<and> pa_identifier parsed = ident
        \<and> pa_fieldCount parsed = length ws \<and> take (pa_fieldCount parsed) (pa_fields parsed) = ws)"
proof -
  let ?body = "ident @ join CHR '','' ws"
  have clean: "NUL \<notin> set ?body" using assms(2) by (auto simp: join_def list_all_iff NUL_def)
  obtain d where d: "buildSentence ?body destination = (True, d, length ?body + 6)" "length d = MaxSentenceSize"
    "take (length ?body + 6) d = sentence_of ?body"
    using build_fits [OF clean, of destination] assms(1,5) by (auto simp: MaxSentenceSize_def)
  have "split CHR '','' ?body = ident # ws" using assms(2) by (intro split_join) (auto simp: list_all_iff)
  then have "parse_body ?body = (ParseOk, parsed_of ident ws)" using assms(3,4) by (simp add: parse_body_split)
  then show ?thesis using d parse_sentence_of [of ?body] by (simp add: Let_def) (simp add: parsed_of_def)
qed

theorem sentence_roundtrip_witness:
  "fst (buildSentence (''WXSUB'' @ join CHR '','' [''201'', ''TMP'', ''1000'']) (replicate 256 NUL))"
  using sentence_roundtrip [of "replicate 256 NUL" "''WXSUB''" "[''201'', ''TMP'', ''1000'']"]
  by (simp add: MaxSentenceSize_def MaxFields_def NUL_def join_def Let_def split: prod.splits)

text \<open>A NUL inside the body is where the two ends disagree: the checksum covers the whole body, the sentence
  only the part before the NUL.\<close>

lemma nul_truncates:
  "(let (ok, d, n) = buildSentence (''WXACK,1,'' @ NUL # ''OK'') (replicate 256 NUL)
    in ok \<and> fst (parseSentence (take n d)) = ChecksumMismatch)"
  by code_simp

section \<open>The two parsers of the repository\<close>

text \<open>On a sentence with one star and no comma in its identifier, the tokenizer of \<open>Common\<close> gives the same
  verdict and the same fields, up to the eight that fit here.\<close>

lemma parsers_agree:
  assumes s: "strip_eol s = CHR ''$'' # body @ [CHR ''*'', h, l]" "isHexDigit h" "isHexDigit l" "CHR ''*'' \<notin> set body"
    and sp: "split CHR '','' body = ident # ws" "length ident = 5"
  shows "t_valid (Tokenizer d s) \<longleftrightarrow> fst (parseSentence s) \<in> {ParseOk, TooManyFields}"
    and "parseSentence s = (ParseOk, p) \<Longrightarrow> t_fields (Tokenizer d s) = take (pa_fieldCount p) (pa_fields p)
       \<and> t_identifier (Tokenizer d s) = pa_identifier p"
proof -
  have f: "framed s body h l []" using s by (simp add: framed_def)
  have ok: "body_ok body" "take 5 body = ident" "length body = 5 \<longleftrightarrow> ws = []" "length body \<ge> 5"
    "ws \<noteq> [] \<Longrightarrow> length body > 5 \<and> body ! 5 = CHR '','' \<and> split CHR '','' (drop 6 body) = ws"
    using sp split_find [of "CHR '',''" body]
    by (auto simp: body_ok_def find_char_Some split: option.splits)
  show "t_valid (Tokenizer d s) \<longleftrightarrow> fst (parseSentence s) \<in> {ParseOk, TooManyFields}"
    using parse_framed [OF s(1-3)] parse_body_split [OF sp(1)] sp(2) ok(1) by (auto simp: framed_valid_iff [OF f])
  show "parseSentence s = (ParseOk, p) \<Longrightarrow> t_fields (Tokenizer d s) = take (pa_fieldCount p) (pa_fields p)
       \<and> t_identifier (Tokenizer d s) = pa_identifier p"
    using parse_framed [OF s(1-3)] parse_body_split [OF sp(1)] sp(2) ok
    by (cases "ws = []") (auto simp: Tokenizer_framed [OF f] parseBody_def framed_tokenizer_def t_fields_def Let_def
        parsed_of_def substr_def split: if_splits)
qed

end
