(* ===== verification/MonitorDevice.thy ===== *)
theory MonitorDevice
  imports MonitorProtocol
begin

text \<open>
  Chapter 15, the weather device (\<open>weather_device.cpp\<close>): a table of sixteen subscriptions, the two
  requests that change it, and the reports sent when they are due. The operating system is a record
  of calls on a world of any type. Points of the steady clock are nanoseconds and intervals
  milliseconds, both unbounded integers. Floating-point arithmetic and its printing are parameters,
  the record \<open>libm\<close>. Console output is left out.
\<close>

section \<open>State\<close>

text \<open>The members of \<open>sockaddr_in\<close> that the code compares.\<close>

record Endpoint =
  sin_family :: u16
  sin_port :: u16
  s_addr :: u32

definition sameEndpoint :: "Endpoint \<Rightarrow> Endpoint \<Rightarrow> bool" where
  "sameEndpoint a b \<longleftrightarrow> sin_family a = sin_family b \<and> sin_port a = sin_port b \<and> s_addr a = s_addr b"

record Subscription =
  sb_active :: bool
  sb_endpoint :: Endpoint
  sb_report :: ReportType
  sb_interval :: int
  sb_nextDue :: int

record WeatherDevice =
  wd_subscriptions :: "Subscription list"
  wd_activeSubscriptions :: nat
  wd_subscriptionHighWater :: nat
  wd_nextSequence :: u32
  wd_droppedReports :: u32
  wd_retryCount :: u32
  wd_invalidMessages :: u32
  wd_started :: int

definition empty_subscription :: Subscription where
  "empty_subscription = \<lparr>sb_active = False, sb_endpoint = \<lparr>sin_family = 0, sin_port = 0, s_addr = 0\<rparr>,
     sb_report = RTemperature, sb_interval = 0, sb_nextDue = 0\<rparr>"

definition MinInterval :: int where "MinInterval = 100"
definition MaxInterval :: int where "MaxInterval = 60000"

definition WeatherDevice :: "int \<Rightarrow> WeatherDevice" where
  "WeatherDevice now = \<lparr>wd_subscriptions = replicate 16 empty_subscription, wd_activeSubscriptions = 0,
     wd_subscriptionHighWater = 0, wd_nextSequence = 1, wd_droppedReports = 0, wd_retryCount = 0,
     wd_invalidMessages = 0, wd_started = now\<rparr>"

text \<open>The result of \<open>poll\<close>: failed, interrupted or not, or returned, with something to read or not.\<close>

datatype poll_result = PollFailed bool | PollReady bool

record 'w mon_os =
  mo_steady :: "'w \<Rightarrow> int \<times> 'w"
  mo_utc :: "'w \<Rightarrow> (nat \<times> nat \<times> nat \<times> nat) \<times> 'w"
  mo_sendto :: "Endpoint \<Rightarrow> string \<Rightarrow> 'w \<Rightarrow> int \<times> 'w"
  mo_recvfrom :: "nat \<Rightarrow> 'w \<Rightarrow> (string \<times> Endpoint) option \<times> 'w"
  mo_poll :: "int \<Rightarrow> 'w \<Rightarrow> poll_result \<times> 'w"
  mo_stop :: "'w \<Rightarrow> bool \<times> 'w"

record 'd libm =
  lm_const :: "string \<Rightarrow> 'd"
  lm_seconds :: "int \<Rightarrow> 'd"
  lm_add :: "'d \<Rightarrow> 'd \<Rightarrow> 'd"
  lm_mul :: "'d \<Rightarrow> 'd \<Rightarrow> 'd"
  lm_div :: "'d \<Rightarrow> 'd \<Rightarrow> 'd"
  lm_sin :: "'d \<Rightarrow> 'd"
  lm_fmod :: "'d \<Rightarrow> 'd \<Rightarrow> 'd"
  lm_to_int :: "'d \<Rightarrow> int"
  lm_print1 :: "'d \<Rightarrow> string"

section \<open>Sending\<close>

text \<open>\<open>snprintf\<close> into a local array of \<open>n\<close> characters, with the check on its result.\<close>

definition format_body :: "nat \<Rightarrow> string \<Rightarrow> string option" where
  "format_body n out =
     (let (body, len) = snprintf (replicate n NUL) out
      in if len = 0 \<or> len \<ge> n then None else Some (take len body))"

definition build_datagram :: "string \<Rightarrow> string option" where
  "build_datagram body =
     (let (ok, sentence, n) = buildSentence body (replicate MaxSentenceSize NUL)
      in if ok then Some (take n sentence) else None)"

definition sendDatagram :: "'w mon_os \<Rightarrow> Endpoint \<Rightarrow> string \<Rightarrow> 'w \<Rightarrow> bool \<times> 'w" where
  "sendDatagram os endpoint data w =
     (let (sent, w1) = mo_sendto os endpoint data w in (sent = int (length data), w1))"

definition ack_datagram :: "u32 \<Rightarrow> string \<Rightarrow> string option" where
  "ack_datagram transaction result =
     Option.bind (format_body 128 (''WXACK,'' @ show_nat (unat transaction) @ '','' @ printf_string result)) build_datagram"

definition sendAck :: "'w mon_os \<Rightarrow> Endpoint \<Rightarrow> u32 \<Rightarrow> string \<Rightarrow> 'w \<Rightarrow> 'w" where
  "sendAck os endpoint transaction result w =
     (case ack_datagram transaction result of None \<Rightarrow> w | Some datagram \<Rightarrow> snd (sendDatagram os endpoint datagram w))"

definition pad :: "nat \<Rightarrow> nat \<Rightarrow> string" where
  "pad width n = replicate (width - length (show_nat n)) CHR ''0'' @ show_nat n"

definition formatUtcTime :: "'w mon_os \<Rightarrow> 'w \<Rightarrow> string \<times> 'w" where
  "formatUtcTime os w =
     (let ((hour, minute, second, milliseconds), w1) = mo_utc os w;
          (output, _) = snprintf (replicate 16 NUL)
            (pad 2 hour @ pad 2 minute @ pad 2 second @ ''.'' @ pad 3 milliseconds)
      in (printf_string output, w1))"

text \<open>What \<open>sendReport\<close> prints into \<open>body\<close>.\<close>

definition report_text :: "'w mon_os \<Rightarrow> 'd libm \<Rightarrow> WeatherDevice \<Rightarrow> ReportType \<Rightarrow> u32 \<Rightarrow> 'w \<Rightarrow> string \<times> 'w" where
  "report_text os lm d report sequence w0 =
     (let (timeText, w) = formatUtcTime os w0;
          (now, w1) = mo_steady os w;
          elapsed = lm_seconds lm (now - wd_started d);
          head = '','' @ show_nat (unat sequence) @ '','' @ timeText
      in case report of
           RStatus \<Rightarrow>
             (let (now2, w2) = mo_steady os w1
              in (''WXSTS'' @ head @ '',RUNNING,'' @ show_int ((now2 - wd_started d) div 10 ^ 9), w2))
         | RHealth \<Rightarrow> (''WXHLT'' @ head @ '',OK,OK,OK,OK'', w1)
         | RTemperature \<Rightarrow>
             (let temperature = lm_add lm (lm_const lm ''22.5'')
                (lm_mul lm (lm_const lm ''1.5'') (lm_sin lm (lm_div lm elapsed (lm_const lm ''8.0''))))
              in (''WXTMP'' @ head @ '','' @ lm_print1 lm temperature @ '',C'', w1))
         | RPressure \<Rightarrow>
             (let pressure = lm_add lm (lm_const lm ''1008.0'')
                (lm_mul lm (lm_const lm ''2.0'') (lm_sin lm (lm_div lm elapsed (lm_const lm ''17.0''))))
              in (''WXPRS'' @ head @ '','' @ lm_print1 lm pressure @ '',HPA'', w1))
         | RWind \<Rightarrow>
             (let direction = lm_to_int lm (lm_fmod lm (lm_add lm (lm_const lm ''220.0'')
                    (lm_mul lm elapsed (lm_const lm ''2.0''))) (lm_const lm ''360.0''));
                  speed = lm_add lm (lm_const lm ''8.0'')
                    (lm_mul lm (lm_const lm ''2.0'') (lm_sin lm (lm_div lm elapsed (lm_const lm ''6.0''))))
              in (''WXWND'' @ head @ '','' @ show_int direction @ '','' @ lm_print1 lm speed @ '',MPH'', w1))
         | RDiagnostic \<Rightarrow>
             (''WXDIA'' @ head @ '','' @ show_nat (unat (wd_droppedReports d)) @ '','' @
                show_nat (wd_subscriptionHighWater d) @ '','' @ show_nat (unat (wd_retryCount d)), w1))"

definition sendReport :: "'w mon_os \<Rightarrow> 'd libm \<Rightarrow> Subscription \<Rightarrow> WeatherDevice \<Rightarrow> 'w \<Rightarrow> WeatherDevice \<times> 'w" where
  "sendReport os lm subscription d w =
     (let sequence = wd_nextSequence d;
          d1 = d\<lparr>wd_nextSequence := wd_nextSequence d + 1\<rparr>;
          dropped = d1\<lparr>wd_droppedReports := wd_droppedReports d1 + 1\<rparr>;
          (out, w1) = report_text os lm d1 (sb_report subscription) sequence w
      in case format_body 192 out of
           None \<Rightarrow> (dropped, w1)
         | Some body \<Rightarrow>
             (case build_datagram body of
                None \<Rightarrow> (dropped, w1)
              | Some datagram \<Rightarrow>
                  let (ok, w2) = sendDatagram os (sb_endpoint subscription) datagram w1
                  in (if ok then d1 else dropped, w2)))"

section \<open>The table\<close>

fun first_index :: "('a \<Rightarrow> bool) \<Rightarrow> 'a list \<Rightarrow> nat option" where
  "first_index p [] = None"
| "first_index p (x # xs) = (if p x then Some 0 else map_option Suc (first_index p xs))"

definition subscribed :: "Endpoint \<Rightarrow> ReportType \<Rightarrow> Subscription \<Rightarrow> bool" where
  "subscribed endpoint report s \<longleftrightarrow> sb_active s \<and> sameEndpoint (sb_endpoint s) endpoint \<and> sb_report s = report"

text \<open>A millisecond is a million ticks of the clock.\<close>

definition due_after :: "int \<Rightarrow> int \<Rightarrow> int" where "due_after now interval = now + interval * 10 ^ 6"

definition upsertSubscription ::
  "'w mon_os \<Rightarrow> Endpoint \<Rightarrow> ReportType \<Rightarrow> int \<Rightarrow> WeatherDevice \<Rightarrow> 'w \<Rightarrow> bool \<times> WeatherDevice \<times> 'w" where
  "upsertSubscription os endpoint report interval d w =
     (let (now, w1) = mo_steady os w; subs = wd_subscriptions d
      in case first_index (subscribed endpoint report) subs of
           Some k \<Rightarrow> (True, d\<lparr>wd_subscriptions :=
               subs[k := (subs ! k)\<lparr>sb_interval := interval, sb_nextDue := due_after now interval\<rparr>]\<rparr>, w1)
         | None \<Rightarrow>
             (case first_index (\<lambda>s. \<not> sb_active s) subs of
                Some k \<Rightarrow>
                  (let active = wd_activeSubscriptions d + 1
                   in (True, d\<lparr>wd_subscriptions := subs[k := \<lparr>sb_active = True, sb_endpoint = endpoint,
                          sb_report = report, sb_interval = interval, sb_nextDue = due_after now interval\<rparr>],
                        wd_activeSubscriptions := active,
                        wd_subscriptionHighWater :=
                          (if active > wd_subscriptionHighWater d then active else wd_subscriptionHighWater d)\<rparr>, w1))
              | None \<Rightarrow> (False, d, w1)))"

definition removeSubscription :: "Endpoint \<Rightarrow> ReportType \<Rightarrow> WeatherDevice \<Rightarrow> WeatherDevice" where
  "removeSubscription endpoint report d =
     (let subs = wd_subscriptions d
      in case first_index (subscribed endpoint report) subs of
           None \<Rightarrow> d
         | Some k \<Rightarrow> d\<lparr>wd_subscriptions := subs[k := (subs ! k)\<lparr>sb_active := False\<rparr>],
             wd_activeSubscriptions :=
               (if wd_activeSubscriptions d > 0 then wd_activeSubscriptions d - 1 else wd_activeSubscriptions d)\<rparr>)"

definition processSubscribe ::
  "'w mon_os \<Rightarrow> Endpoint \<Rightarrow> ParsedSentence \<Rightarrow> WeatherDevice \<Rightarrow> 'w \<Rightarrow> WeatherDevice \<times> 'w" where
  "processSubscribe os endpoint parsed d w =
     (if pa_fieldCount parsed \<noteq> 3 then (d, w)
      else let (ok1, transaction) = parseUnsigned (pa_fields parsed ! 0);
               (ok2, intervalValue) = parseUnsigned (pa_fields parsed ! 2)
           in if \<not> ok1 \<or> \<not> ok2 then (d, w)
              else case parseReportType (pa_fields parsed ! 1) of
                None \<Rightarrow> (d, sendAck os endpoint transaction ''INVALID_PARAM'' w)
              | Some report \<Rightarrow>
                  let interval = uint intervalValue
                  in if interval < MinInterval \<or> interval > MaxInterval
                     then (d, sendAck os endpoint transaction ''INVALID_PARAM'' w)
                     else let (ok, d1, w1) = upsertSubscription os endpoint report interval d w
                          in (d1, sendAck os endpoint transaction (if ok then ''OK'' else ''BUSY'') w1))"

definition processUnsubscribe ::
  "'w mon_os \<Rightarrow> Endpoint \<Rightarrow> ParsedSentence \<Rightarrow> WeatherDevice \<Rightarrow> 'w \<Rightarrow> WeatherDevice \<times> 'w" where
  "processUnsubscribe os endpoint parsed d w =
     (if pa_fieldCount parsed \<noteq> 2 then (d, w)
      else let (ok, transaction) = parseUnsigned (pa_fields parsed ! 0)
           in if \<not> ok then (d, w)
              else case parseReportType (pa_fields parsed ! 1) of
                None \<Rightarrow> (d, sendAck os endpoint transaction ''INVALID_PARAM'' w)
              | Some report \<Rightarrow>
                  (removeSubscription endpoint report d, sendAck os endpoint transaction ''OK'' w))"

text \<open>\<open>receiveRequest\<close> after \<open>recvfrom\<close> has delivered a datagram.\<close>

definition handleRequest ::
  "'w mon_os \<Rightarrow> string \<Rightarrow> Endpoint \<Rightarrow> WeatherDevice \<Rightarrow> 'w \<Rightarrow> WeatherDevice \<times> 'w" where
  "handleRequest os sentence endpoint d w =
     (let (status, parsed) = parseSentence sentence
      in if status \<noteq> ParseOk then (d\<lparr>wd_invalidMessages := wd_invalidMessages d + 1\<rparr>, w)
         else if pa_identifier parsed = ''WXSUB'' then processSubscribe os endpoint parsed d w
         else if pa_identifier parsed = ''WXUSB'' then processUnsubscribe os endpoint parsed d w
         else (d\<lparr>wd_invalidMessages := wd_invalidMessages d + 1\<rparr>, w))"

definition receiveRequest :: "'w mon_os \<Rightarrow> WeatherDevice \<Rightarrow> 'w \<Rightarrow> WeatherDevice \<times> 'w" where
  "receiveRequest os d w =
     (case mo_recvfrom os (MaxSentenceSize - 1) w of
        (None, w1) \<Rightarrow> (d, w1)
      | (Some (sentence, endpoint), w1) \<Rightarrow> if sentence = [] then (d, w1) else handleRequest os sentence endpoint d w1)"

section \<open>Reports that are due\<close>

text \<open>The \<open>do\<close> loop; it does not end when the interval is not positive and the clock is ahead.\<close>

partial_function (option) advance_due :: "int \<Rightarrow> int \<Rightarrow> int \<Rightarrow> int option" where
  "advance_due nextDue interval now =
     (let nextDue1 = due_after nextDue interval
      in if nextDue1 \<le> now then advance_due nextDue1 interval now else Some nextDue1)"

fun send_due ::
  "'w mon_os \<Rightarrow> 'd libm \<Rightarrow> int \<Rightarrow> nat list \<Rightarrow> WeatherDevice \<Rightarrow> 'w \<Rightarrow> (WeatherDevice \<times> 'w) option" where
  "send_due os lm now [] d w = Some (d, w)"
| "send_due os lm now (k # ks) d w =
     (let subscription = wd_subscriptions d ! k
      in if \<not> sb_active subscription \<or> now < sb_nextDue subscription then send_due os lm now ks d w
         else case advance_due (sb_nextDue subscription) (sb_interval subscription) now of
                None \<Rightarrow> None
              | Some due \<Rightarrow>
                  let subscription1 = subscription\<lparr>sb_nextDue := due\<rparr>;
                      d1 = d\<lparr>wd_subscriptions := (wd_subscriptions d)[k := subscription1]\<rparr>;
                      (d2, w2) = sendReport os lm subscription1 d1 w
                  in send_due os lm now ks d2 w2)"

definition sendDueReports :: "'w mon_os \<Rightarrow> 'd libm \<Rightarrow> WeatherDevice \<Rightarrow> 'w \<Rightarrow> (WeatherDevice \<times> 'w) option" where
  "sendDueReports os lm d w =
     (let (now, w1) = mo_steady os w in send_due os lm now [0..<length (wd_subscriptions d)] d w1)"

section \<open>The program\<close>

text \<open>One turn of \<open>run\<close>: the exit status, or the state to go on with.\<close>

definition device_turn ::
  "'w mon_os \<Rightarrow> 'd libm \<Rightarrow> WeatherDevice \<Rightarrow> 'w \<Rightarrow> (nat + WeatherDevice \<times> 'w) option" where
  "device_turn os lm d w =
     (case mo_poll os 25 w of
        (PollFailed interrupted, w1) \<Rightarrow> Some (if interrupted then Inr (d, w1) else Inl 1)
      | (PollReady readable, w1) \<Rightarrow>
          (let (d2, w2) = (if readable then receiveRequest os d w1 else (d, w1))
           in map_option Inr (sendDueReports os lm d2 w2)))"

partial_function (option) device_run :: "'w mon_os \<Rightarrow> 'd libm \<Rightarrow> WeatherDevice \<Rightarrow> 'w \<Rightarrow> nat option" where
  "device_run os lm d w =
     (let (stop, w1) = mo_stop os w
      in if stop then Some 0
         else Option.bind (device_turn os lm d w1)
                (\<lambda>r. case r of Inl status \<Rightarrow> Some status | Inr (d2, w2) \<Rightarrow> device_run os lm d2 w2))"

text \<open>The options: \<open>None\<close> when help was asked for and the program ends with status 0.\<close>

fun parsePort :: "string list \<Rightarrow> u16 \<Rightarrow> u16 option" where
  "parsePort [] port = Some port"
| "parsePort [arg] port = (if arg = ''--help'' then None else Some port)"
| "parsePort (arg # v # rest) port =
     (if arg = ''--port''
      then let (ok, value) = parseUnsigned v in parsePort rest (if ok \<and> value \<le> 65535 then ucast value else port)
      else if arg = ''--help'' then None else parsePort (v # rest) port)"

text \<open>\<open>main\<close> with the results of \<open>socket\<close> and of \<open>bind\<close> on a port.\<close>

definition device_main ::
  "'w mon_os \<Rightarrow> 'd libm \<Rightarrow> int \<Rightarrow> (u16 \<Rightarrow> int) \<Rightarrow> string list \<Rightarrow> 'w \<Rightarrow> nat option" where
  "device_main os lm fd bind_result args w =
     (case parsePort args 9500 of
        None \<Rightarrow> Some 0
      | Some port \<Rightarrow>
          (let (now, w1) = mo_steady os w
           in if fd < 0 \<or> bind_result port < 0 then Some 1 else device_run os lm (WeatherDevice now) w1))"

section \<open>Invariant and abstraction\<close>

lemma first_index_None: "first_index p xs = None \<longleftrightarrow> (\<forall>x \<in> set xs. \<not> p x)"
  by (induction xs) auto

lemma first_index_Some: "first_index p xs = Some k \<Longrightarrow> k < length xs \<and> p (xs ! k)"
proof (induction xs arbitrary: k)
  case (Cons x xs)
  then show ?case by (cases k) (auto split: if_splits)
qed simp

lemma sameEndpoint_iff [simp]: "sameEndpoint a b \<longleftrightarrow> a = b"
  by (cases a; cases b) (auto simp: sameEndpoint_def)

type_synonym key = "Endpoint \<times> ReportType"

definition sub_key :: "Subscription \<Rightarrow> key" where "sub_key s = (sb_endpoint s, sb_report s)"

lemma subscribed_iff: "subscribed e r s \<longleftrightarrow> sb_active s \<and> sub_key s = (e, r)"
  by (auto simp: subscribed_def sub_key_def)

definition actives :: "WeatherDevice \<Rightarrow> Subscription list" where
  "actives d = filter sb_active (wd_subscriptions d)"

text \<open>What the table stands for: which report goes to whom, and how often.\<close>

definition device_table :: "WeatherDevice \<Rightarrow> key \<Rightarrow> int option" where
  "device_table d = map_of (map (\<lambda>s. (sub_key s, sb_interval s)) (actives d))"

definition device_inv :: "WeatherDevice \<Rightarrow> bool" where
  "device_inv d \<longleftrightarrow> length (wd_subscriptions d) = 16 \<and> distinct (map sub_key (actives d))
   \<and> list_all (\<lambda>s. MinInterval \<le> sb_interval s \<and> sb_interval s \<le> MaxInterval) (actives d)
   \<and> wd_activeSubscriptions d = length (actives d)
   \<and> wd_activeSubscriptions d \<le> wd_subscriptionHighWater d \<and> wd_subscriptionHighWater d \<le> 16"

lemma start_device: "device_inv (WeatherDevice now)" "device_table (WeatherDevice now) = Map.empty"
  by (simp_all add: device_inv_def device_table_def WeatherDevice_def actives_def empty_subscription_def)

text \<open>One slot of a list with a filter, changed.\<close>

lemma filter_slot:
  assumes "k < length xs"
  shows "filter p (xs[k := y]) = filter p (take k xs) @ (if p y then [y] else []) @ filter p (drop (Suc k) xs)"
    and "filter p xs = filter p (take k xs) @ (if p (xs ! k) then [xs ! k] else []) @ filter p (drop (Suc k) xs)"
proof -
  show "filter p (xs[k := y]) = filter p (take k xs) @ (if p y then [y] else []) @ filter p (drop (Suc k) xs)"
    using assms by (simp add: upd_conv_take_nth_drop)
  show "filter p xs = filter p (take k xs) @ (if p (xs ! k) then [xs ! k] else []) @ filter p (drop (Suc k) xs)"
    by (subst id_take_nth_drop [OF assms]) simp
qed

definition pairs :: "Subscription list \<Rightarrow> (key \<times> int) list" where
  "pairs xs = map (\<lambda>s. (sub_key s, sb_interval s)) xs"

lemma pairs_simps [simp]: "pairs (xs @ ys) = pairs xs @ pairs ys" "pairs (x # xs) = (sub_key x, sb_interval x) # pairs xs"
  "pairs [] = []" "fst ` set (pairs xs) = sub_key ` set xs" "map fst (pairs xs) = map sub_key xs"
  by (auto simp: pairs_def image_image comp_def)

lemma table_pairs: "device_table d = map_of (pairs (actives d))"
  by (simp add: device_table_def pairs_def)

lemma map_of_middle:
  assumes "distinct (map fst (xs @ (k, v) # ys))"
  shows "map_of (xs @ (k, v) # ys) = (map_of (xs @ ys))(k \<mapsto> v)"
    and "map_of (xs @ ys) k = None"
proof -
  have k: "k \<notin> fst ` set xs" "k \<notin> fst ` set ys" using assms by auto
  then have "map_of xs k = None" "map_of ys k = None" by (simp_all add: map_of_eq_None_iff)
  then show "map_of (xs @ ys) k = None" by (simp add: map_add_def)
  show "map_of (xs @ (k, v) # ys) = (map_of (xs @ ys))(k \<mapsto> v)"
    using \<open>map_of xs k = None\<close> by (auto simp: map_add_def fun_eq_iff split: option.split)
qed

text \<open>The three changes of the table: a subscription is replaced, added or taken away.\<close>

lemma slot_replace:
  assumes inv: "device_inv d" and k: "k < length (wd_subscriptions d)" "sb_active (wd_subscriptions d ! k)"
    and y: "sb_active y" "sub_key y = sub_key (wd_subscriptions d ! k)" "MinInterval \<le> sb_interval y" "sb_interval y \<le> MaxInterval"
    and d': "d' = d\<lparr>wd_subscriptions := (wd_subscriptions d)[k := y]\<rparr>"
  shows "device_inv d' \<and> device_table d' = (device_table d)(sub_key y \<mapsto> sb_interval y)"
proof -
  let ?l = "filter sb_active (take k (wd_subscriptions d))" and ?r = "filter sb_active (drop (Suc k) (wd_subscriptions d))"
  let ?x = "wd_subscriptions d ! k"
  have old: "actives d = ?l @ ?x # ?r" and new: "actives d' = ?l @ y # ?r"
    using filter_slot(1) [OF k(1), of sb_active y] filter_slot(2) [OF k(1), of sb_active] k(2) y(1) d' by (simp_all add: actives_def)
  have dist: "distinct (map fst (pairs ?l @ (sub_key ?x, v) # pairs ?r))" for v
    using inv old by (simp add: device_inv_def)
  have "device_table d' = (map_of (pairs ?l @ pairs ?r))(sub_key y \<mapsto> sb_interval y)"
    using map_of_middle(1) [OF dist] y(2) by (simp add: table_pairs new)
  moreover have "device_table d = (map_of (pairs ?l @ pairs ?r))(sub_key y \<mapsto> sb_interval ?x)"
    using map_of_middle(1) [OF dist] y(2) by (simp add: table_pairs old)
  ultimately show ?thesis using inv old new y d' by (simp add: device_inv_def)
qed

lemma slot_add:
  assumes inv: "device_inv d" and k: "k < length (wd_subscriptions d)" "\<not> sb_active (wd_subscriptions d ! k)"
    and y: "sb_active y" "sub_key y \<notin> sub_key ` set (actives d)" "MinInterval \<le> sb_interval y" "sb_interval y \<le> MaxInterval"
    and d': "d' = d\<lparr>wd_subscriptions := (wd_subscriptions d)[k := y], wd_activeSubscriptions := wd_activeSubscriptions d + 1,
      wd_subscriptionHighWater := (if wd_activeSubscriptions d + 1 > wd_subscriptionHighWater d
        then wd_activeSubscriptions d + 1 else wd_subscriptionHighWater d)\<rparr>"
  shows "device_inv d' \<and> device_table d' = (device_table d)(sub_key y \<mapsto> sb_interval y)"
proof -
  let ?l = "filter sb_active (take k (wd_subscriptions d))" and ?r = "filter sb_active (drop (Suc k) (wd_subscriptions d))"
  have old: "actives d = ?l @ ?r" and new: "actives d' = ?l @ y # ?r"
    using filter_slot(1) [OF k(1), of sb_active y] filter_slot(2) [OF k(1), of sb_active] k(2) y(1) d' by (simp_all add: actives_def)
  have dist: "distinct (map fst (pairs ?l @ (sub_key y, sb_interval y) # pairs ?r))"
    using inv old y(2) by (auto simp: device_inv_def)
  have "device_table d' = (device_table d)(sub_key y \<mapsto> sb_interval y)"
    using map_of_middle(1) [OF dist] by (simp add: table_pairs new old)
  moreover have "length (actives d') \<le> 16"
    using inv d' length_filter_le [of sb_active "wd_subscriptions d'"] by (simp add: device_inv_def actives_def)
  ultimately show ?thesis using inv old new y dist d' by (auto simp: device_inv_def)
qed

lemma slot_drop:
  assumes inv: "device_inv d" and k: "k < length (wd_subscriptions d)" "sb_active (wd_subscriptions d ! k)"
    and y: "\<not> sb_active y"
    and d': "d' = d\<lparr>wd_subscriptions := (wd_subscriptions d)[k := y], wd_activeSubscriptions := wd_activeSubscriptions d - 1\<rparr>"
  shows "device_inv d' \<and> device_table d' = (device_table d)(sub_key (wd_subscriptions d ! k) := None)"
proof -
  let ?l = "filter sb_active (take k (wd_subscriptions d))" and ?r = "filter sb_active (drop (Suc k) (wd_subscriptions d))"
  let ?x = "wd_subscriptions d ! k"
  have old: "actives d = ?l @ ?x # ?r" and new: "actives d' = ?l @ ?r"
    using filter_slot(1) [OF k(1), of sb_active y] filter_slot(2) [OF k(1), of sb_active] k(2) y(1) d' by (simp_all add: actives_def)
  have dist: "distinct (map fst (pairs ?l @ (sub_key ?x, sb_interval ?x) # pairs ?r))"
    using inv old by (simp add: device_inv_def)
  have "device_table d' = (device_table d)(sub_key ?x := None)"
    using map_of_middle [OF dist] by (auto simp: table_pairs new old fun_eq_iff)
  then show ?thesis using inv old new d' by (auto simp: device_inv_def)
qed

section \<open>Requests as changes of the table\<close>

lemma table_key: "key \<in> dom (device_table d) \<longleftrightarrow> key \<in> sub_key ` set (actives d)"
  by (auto simp: table_pairs dom_map_of_conv_image_fst)

lemma table_card: "device_inv d \<Longrightarrow> card (dom (device_table d)) = length (actives d)"
  using distinct_card [of "map sub_key (actives d)"]
  by (simp add: table_pairs dom_map_of_conv_image_fst device_inv_def)

lemma no_subscription:
  "first_index (subscribed e r) (wd_subscriptions d) = None \<longleftrightarrow> (e, r) \<notin> dom (device_table d)"
  unfolding table_key by (force simp: first_index_None subscribed_iff actives_def)

lemma no_free_slot:
  "device_inv d \<Longrightarrow> first_index (\<lambda>s. \<not> sb_active s) (wd_subscriptions d) = None \<longleftrightarrow> \<not> length (actives d) < 16"
  using filter_id_conv [of sb_active "wd_subscriptions d"] length_filter_le [of sb_active "wd_subscriptions d"]
    length_filter_less [of _ "wd_subscriptions d" sb_active]
  by (auto simp: first_index_None actives_def device_inv_def) 

definition interval_ok :: "int \<Rightarrow> bool" where "interval_ok n \<longleftrightarrow> MinInterval \<le> n \<and> n \<le> MaxInterval"

lemma upsert_refines:
  assumes inv: "device_inv d" and n: "interval_ok n" and up: "upsertSubscription os e r n d w = (ok, d', w')"
  shows "w' = snd (mo_steady os w) \<and> ok = ((e, r) \<in> dom (device_table d) \<or> card (dom (device_table d)) < 16)
     \<and> device_inv d' \<and> device_table d' = (if ok then (device_table d)((e, r) \<mapsto> n) else device_table d)"
proof -
  obtain now w1 where st: "mo_steady os w = (now, w1)" by (cases "mo_steady os w")
  show ?thesis
  proof (cases "first_index (subscribed e r) (wd_subscriptions d)")
    case (Some k)
    let ?x = "wd_subscriptions d ! k"
    let ?y = "?x\<lparr>sb_interval := n, sb_nextDue := due_after now n\<rparr>"
    have k: "k < length (wd_subscriptions d)" "sb_active ?x" "sub_key ?x = (e, r)"
      using first_index_Some [OF Some] by (simp_all add: subscribed_iff)
    have res: "ok = True" "d' = d\<lparr>wd_subscriptions := (wd_subscriptions d)[k := ?y]\<rparr>" "w' = w1"
      using up Some st by (simp_all add: upsertSubscription_def Let_def)
    have "device_inv d' \<and> device_table d' = (device_table d)(sub_key ?y \<mapsto> sb_interval ?y)"
      using k n by (intro slot_replace [OF inv k(1,2) _ _ _ _ res(2)]) (simp_all add: sub_key_def interval_ok_def)
    moreover have "sub_key ?y = (e, r)" using k(3) by (simp add: sub_key_def)
    moreover have "(e, r) \<in> dom (device_table d)" using Some no_subscription [of e r d] by auto
    ultimately show ?thesis using res st by simp
  next
    case new: None
    then have absent: "(e, r) \<notin> dom (device_table d)" using no_subscription by blast
    show ?thesis
    proof (cases "first_index (\<lambda>s. \<not> sb_active s) (wd_subscriptions d)")
      case None
      then have "\<not> card (dom (device_table d)) < 16" using no_free_slot [OF inv] table_card [OF inv] by simp
      moreover have "ok = False" "d' = d" "w' = w1"
        using up new None st by (simp_all add: upsertSubscription_def Let_def)
      ultimately show ?thesis using inv st absent by simp
    next
      case (Some k)
      let ?y = "\<lparr>sb_active = True, sb_endpoint = e, sb_report = r, sb_interval = n, sb_nextDue = due_after now n\<rparr>"
      have k: "k < length (wd_subscriptions d)" "\<not> sb_active (wd_subscriptions d ! k)"
        using first_index_Some [OF Some] by simp_all
      have room: "card (dom (device_table d)) < 16"
        using Some no_free_slot [OF inv] table_card [OF inv] by simp
      have res: "ok = True" "w' = w1"
        "d' = d\<lparr>wd_subscriptions := (wd_subscriptions d)[k := ?y], wd_activeSubscriptions := wd_activeSubscriptions d + 1,
          wd_subscriptionHighWater := (if wd_activeSubscriptions d + 1 > wd_subscriptionHighWater d
          then wd_activeSubscriptions d + 1 else wd_subscriptionHighWater d)\<rparr>"
        using up new Some st by (auto simp: upsertSubscription_def Let_def)
      have "device_inv d' \<and> device_table d' = (device_table d)(sub_key ?y \<mapsto> sb_interval ?y)"
        using absent n by (intro slot_add [OF inv k _ _ _ _ res(3)]) (simp_all add: table_key sub_key_def interval_ok_def)
      then show ?thesis using res st room by (simp add: sub_key_def)
    qed
  qed
qed

lemma remove_refines:
  assumes inv: "device_inv d"
  shows "device_inv (removeSubscription e r d) \<and> device_table (removeSubscription e r d) = (device_table d)((e, r) := None)"
proof (cases "first_index (subscribed e r) (wd_subscriptions d)")
  case None
  then have "(e, r) \<notin> dom (device_table d)" using no_subscription by blast
  then have "(device_table d)((e, r) := None) = device_table d" by (auto simp: fun_eq_iff)
  then show ?thesis using None inv by (simp add: removeSubscription_def)
next
  case (Some k)
  let ?x = "wd_subscriptions d ! k"
  have k: "k < length (wd_subscriptions d)" "sb_active ?x" "sub_key ?x = (e, r)"
    using first_index_Some [OF Some] by (simp_all add: subscribed_iff)
  have "removeSubscription e r d = d\<lparr>wd_subscriptions := (wd_subscriptions d)[k := ?x\<lparr>sb_active := False\<rparr>],
      wd_activeSubscriptions := wd_activeSubscriptions d - 1\<rparr>"
    using Some by (simp add: removeSubscription_def Let_def)
  from slot_drop [OF inv k(1,2) _ this] show ?thesis using k(3) by simp
qed

text \<open>What a request means for the table, and the acknowledgement it gets.\<close>

definition spec_request ::
  "(key \<Rightarrow> int option) \<Rightarrow> Endpoint \<Rightarrow> string \<Rightarrow> string list \<Rightarrow> (key \<Rightarrow> int option) \<times> (u32 \<times> string) option" where
  "spec_request m e ident fs =
     (let transaction = snd (parseUnsigned (fs ! 0)); n = uint (snd (parseUnsigned (fs ! 2)))
      in if ident = ''WXSUB'' \<and> length fs = 3 \<and> fst (parseUnsigned (fs ! 0)) \<and> fst (parseUnsigned (fs ! 2))
         then case parseReportType (fs ! 1) of
                None \<Rightarrow> (m, Some (transaction, ''INVALID_PARAM''))
              | Some r \<Rightarrow>
                  if \<not> interval_ok n then (m, Some (transaction, ''INVALID_PARAM''))
                  else if (e, r) \<in> dom m \<or> card (dom m) < 16 then (m((e, r) \<mapsto> n), Some (transaction, ''OK''))
                  else (m, Some (transaction, ''BUSY''))
         else if ident = ''WXUSB'' \<and> length fs = 2 \<and> fst (parseUnsigned (fs ! 0))
         then case parseReportType (fs ! 1) of
                None \<Rightarrow> (m, Some (transaction, ''INVALID_PARAM''))
              | Some r \<Rightarrow> (m((e, r) := None), Some (transaction, ''OK''))
         else (m, None))"

fun send_reply :: "'w mon_os \<Rightarrow> Endpoint \<Rightarrow> (u32 \<times> string) option \<Rightarrow> 'w \<Rightarrow> 'w" where
  "send_reply os e None w = w"
| "send_reply os e (Some (transaction, result)) w = sendAck os e transaction result w"

lemma device_update [simp]:
  "device_inv (d\<lparr>wd_invalidMessages := n\<rparr>) = device_inv d" "device_table (d\<lparr>wd_invalidMessages := n\<rparr>) = device_table d"
  "device_inv (d\<lparr>wd_nextSequence := n\<rparr>) = device_inv d" "device_table (d\<lparr>wd_nextSequence := n\<rparr>) = device_table d"
  "device_inv (d\<lparr>wd_droppedReports := n\<rparr>) = device_inv d" "device_table (d\<lparr>wd_droppedReports := n\<rparr>) = device_table d"
  by (simp_all add: device_inv_def device_table_def actives_def)

lemma subscribe_refines:
  assumes inv: "device_inv d" and fs: "pa_fieldCount p = 3" "take 3 (pa_fields p) = [a, b, c]"
    and res: "processSubscribe os e p d w = (d', w')" and sp: "spec_request (device_table d) e ''WXSUB'' [a, b, c] = (m', reply)"
  shows "device_inv d' \<and> device_table d' = m' \<and> w' \<in> send_reply os e reply ` {w, snd (mo_steady os w)}"
proof -
  have nth: "pa_fields p ! 0 = a" "pa_fields p ! 1 = b" "pa_fields p ! 2 = c"
    using fs(2) nth_take [of 0 3 "pa_fields p"] nth_take [of 1 3 "pa_fields p"] nth_take [of 2 3 "pa_fields p"] by simp_all
  obtain ok1 t ok2 n where nums: "parseUnsigned a = (ok1, t)" "parseUnsigned c = (ok2, n)"
    by (cases "parseUnsigned a"; cases "parseUnsigned c")
  show ?thesis
  proof (cases "ok1 \<and> ok2 \<and> interval_ok (uint n) \<and> parseReportType b \<noteq> None")
    case True
    then obtain r where r: "parseReportType b = Some r" by blast
    obtain ok d1 w1 where up: "upsertSubscription os e r (uint n) d w = (ok, d1, w1)"
      by (cases "upsertSubscription os e r (uint n) d w") auto
    have "\<not> (uint n < MinInterval \<or> uint n > MaxInterval)" using True by (auto simp: interval_ok_def)
    then have "d' = d1" "w' = sendAck os e t (if ok then ''OK'' else ''BUSY'') w1"
      using res fs(1) True r up nums nth by (simp_all add: processSubscribe_def)
    moreover have "interval_ok (uint n)" using True by simp
    note upsert_refines [OF inv this up]
    ultimately show ?thesis using sp True r nums by (auto simp: spec_request_def split: if_splits)
  next
    case False
    then show ?thesis using res fs(1) sp inv nums nth
      by (auto simp: processSubscribe_def spec_request_def interval_ok_def split: option.splits if_splits)
  qed
qed

lemma unsubscribe_refines:
  assumes inv: "device_inv d" and fs: "pa_fieldCount p = 2" "take 2 (pa_fields p) = [a, b]"
    and res: "processUnsubscribe os e p d w = (d', w')" and sp: "spec_request (device_table d) e ''WXUSB'' [a, b] = (m', reply)"
  shows "device_inv d' \<and> device_table d' = m' \<and> w' = send_reply os e reply w"
proof -
  have nth: "pa_fields p ! 0 = a" "pa_fields p ! 1 = b"
    using fs(2) nth_take [of 0 2 "pa_fields p"] nth_take [of 1 2 "pa_fields p"] by simp_all
  obtain ok t where num: "parseUnsigned a = (ok, t)" by (cases "parseUnsigned a")
  show ?thesis
    using res fs(1) sp inv num nth remove_refines [OF inv, of e]
    by (cases ok; cases "parseReportType b") (auto simp: processUnsubscribe_def spec_request_def)
qed

lemma parsed_count: "parseSentence s = (ParseOk, p) \<Longrightarrow> length (pa_fields p) = MaxFields \<and> pa_fieldCount p \<le> MaxFields"
proof -
  assume ok: "parseSentence s = (ParseOk, p)"
  then obtain body h l where f: "strip_eol s = CHR ''$'' # body @ [CHR ''*'', h, l]" "isHexDigit h" "isHexDigit l"
    using parse_unframed [of s] by auto
  obtain ident ws where sp: "split CHR '','' body = ident # ws" by (cases "split CHR '','' body") auto
  show ?thesis using ok parse_framed [OF f] parse_body_split [OF sp] by (auto simp: parsed_of_def split: if_splits)
qed

text \<open>The request of a datagram, as the specification takes it.\<close>

definition request_of :: "string \<Rightarrow> string \<times> string list" where
  "request_of s = (case parseSentence s of (status, p) \<Rightarrow>
     if status = ParseOk then (pa_identifier p, take (pa_fieldCount p) (pa_fields p)) else ([], []))"

lemma request_refines:
  assumes inv: "device_inv d" and res: "handleRequest os s e d w = (d', w')" and req: "request_of s = (ident, fs)"
    and sp: "spec_request (device_table d) e ident fs = (m', reply)"
  shows "device_inv d' \<and> device_table d' = m' \<and> w' \<in> send_reply os e reply ` {w, snd (mo_steady os w)}"
proof -
  obtain status p where ps: "parseSentence s = (status, p)" by (cases "parseSentence s")
  show ?thesis
  proof (cases "status = ParseOk")
    case False
    then show ?thesis using inv res req sp ps by (auto simp: handleRequest_def request_of_def spec_request_def)
  next
    case True
    have len: "length (pa_fields p) = MaxFields" "pa_fieldCount p \<le> MaxFields" using parsed_count ps True by auto
    have fs: "ident = pa_identifier p" "fs = take (pa_fieldCount p) (pa_fields p)" "length fs = pa_fieldCount p"
      using req ps True len by (auto simp: request_of_def)
    consider "ident = ''WXSUB''" "length fs = 3" | "ident = ''WXUSB''" "length fs = 2"
      | "\<not> (ident = ''WXSUB'' \<and> length fs = 3)" "\<not> (ident = ''WXUSB'' \<and> length fs = 2)" by blast
    then show ?thesis
    proof cases
      case 1
      then obtain a b c where abc: "fs = [a, b, c]" by (auto simp: numeral_3_eq_3 length_Suc_conv)
      then have "pa_fieldCount p = 3" "take 3 (pa_fields p) = [a, b, c]" using 1 fs by (simp, metis)
      moreover have "processSubscribe os e p d w = (d', w')" using res 1 fs(1) ps True by (simp add: handleRequest_def)
      ultimately show ?thesis using subscribe_refines [OF inv, of p a b c os e w d' w' m' reply] sp 1 abc by simp
    next
      case 2
      then obtain a b where ab: "fs = [a, b]" by (auto simp: numeral_2_eq_2 length_Suc_conv)
      then have "pa_fieldCount p = 2" "take 2 (pa_fields p) = [a, b]" using 2 fs by (simp, metis)
      moreover have "processUnsubscribe os e p d w = (d', w')" using res 2 fs(1) ps True by (simp add: handleRequest_def)
      ultimately show ?thesis using unsubscribe_refines [OF inv, of p a b os e w d' w' m' reply] sp 2 ab by simp
    next
      case 3
      then have "m' = device_table d" "reply = None" using sp by (auto simp: spec_request_def)
      moreover have "device_inv d' \<and> device_table d' = device_table d \<and> w' = w"
        using res 3 fs ps True inv
        by (auto simp: handleRequest_def processSubscribe_def processUnsubscribe_def split: if_splits)
      ultimately show ?thesis by simp
    qed
  qed
qed

text \<open>Nobody answers, and waiting takes as long as it was asked to take.\<close>

definition silent_os :: "int mon_os" where
  "silent_os = \<lparr>mo_steady = (\<lambda>w. (w, w)), mo_utc = (\<lambda>w. ((0, 0, 0, 0), w)), mo_sendto = (\<lambda>e s w. (int (length s), w)),
     mo_recvfrom = (\<lambda>n w. (None, w)), mo_poll = (\<lambda>t w. (PollReady False, w + \<bar>t\<bar> * 10 ^ 6 + 1)), mo_stop = (\<lambda>w. (False, w))\<rparr>"

definition lab_endpoint :: Endpoint where "lab_endpoint = \<lparr>sin_family = 2, sin_port = 9500, s_addr = 1\<rparr>"

definition sample_device :: WeatherDevice where
  "sample_device = (WeatherDevice 0)\<lparr>wd_subscriptions := \<lparr>sb_active = True, sb_endpoint = lab_endpoint, sb_report = RHealth,
      sb_interval = 1000, sb_nextDue = 10 ^ 9\<rparr> # replicate 15 empty_subscription,
     wd_activeSubscriptions := 1, wd_subscriptionHighWater := 1\<rparr>"

definition sample_libm :: "int libm" where
  "sample_libm = \<lparr>lm_const = (\<lambda>s. 0), lm_seconds = (\<lambda>n. n), lm_add = (+), lm_mul = (*), lm_div = (\<lambda>a b. a),
     lm_sin = (\<lambda>a. a), lm_fmod = (\<lambda>a b. a), lm_to_int = (\<lambda>a. a), lm_print1 = show_int\<rparr>"

lemma sample_inv: "device_inv sample_device"
  by (simp add: device_inv_def sample_device_def WeatherDevice_def actives_def empty_subscription_def MinInterval_def MaxInterval_def)

text \<open>C10: the device's sixteen slots are a map. Whatever datagram arrives, from whomever, the invariant of the
  table is kept (no key twice, intervals within the limits, both counters right), the map changes as
  the request says: \<open>WXSUB\<close> sets one key, unless the interval or the report type is refused or sixteen
  other keys are taken; \<open>WXUSB\<close> removes one key, which need not be there; anything else changes nothing;
  and the answer is the acknowledgement the specification gives, or none.\<close>

theorem requests_refine_map:
  assumes "device_inv d"
  shows "(let (d', w') = handleRequest os s e d w; (ident, fs) = request_of s;
             (m', reply) = spec_request (device_table d) e ident fs
         in device_inv d' \<and> device_table d' = m' \<and> w' \<in> send_reply os e reply ` {w, snd (mo_steady os w)})"
proof -
  obtain d' w' where res: "handleRequest os s e d w = (d', w')" by (cases "handleRequest os s e d w")
  obtain ident fs where req: "request_of s = (ident, fs)" by (cases "request_of s")
  obtain m' reply where sp: "spec_request (device_table d) e ident fs = (m', reply)"
    by (cases "spec_request (device_table d) e ident fs")
  from request_refines [OF assms res req sp] show ?thesis by (simp add: res req sp)
qed

theorem requests_refine_map_witness:
  "(let (d', w') = handleRequest silent_os (''$WXUSB,202,HLT*2B'') lab_endpoint sample_device 0
    in device_inv d' \<and> device_table d' = (device_table sample_device)((lab_endpoint, RHealth) := None))"
proof -
  have req: "request_of ''$WXUSB,202,HLT*2B'' = (''WXUSB'', [''202'', ''HLT''])" by code_simp
  have "fst (parseUnsigned ''202'')" "parseReportType ''HLT'' = Some RHealth" by code_simp+
  then have "fst (spec_request m lab_endpoint ''WXUSB'' [''202'', ''HLT'']) = m((lab_endpoint, RHealth) := None)" for m
    by (simp add: spec_request_def)
  then show ?thesis
    using requests_refine_map [OF sample_inv, of silent_os "''$WXUSB,202,HLT*2B''" lab_endpoint 0]
    by (auto simp: req Let_def split: prod.splits dest: arg_cong [of _ _ fst])
qed

section \<open>Reports\<close>

text \<open>The number of nanoseconds between two reports.\<close>

definition period :: "Subscription \<Rightarrow> int" where "period s = sb_interval s * 10 ^ 6"

lemma advance_due_result:
  assumes "0 < interval" "nextDue \<le> now"
  shows "advance_due nextDue interval now = Some (nextDue + interval * 10 ^ 6 * ((now - nextDue) div (interval * 10 ^ 6) + 1))"
proof -
  define I where "I = interval * 10 ^ 6"
  have I: "0 < I" using assms(1) by (simp add: I_def)
  have step: "advance_due due interval now = (if due + I \<le> now then advance_due (due + I) interval now else Some (due + I))" for due
    by (subst advance_due.simps) (simp add: due_after_def I_def)
  have "advance_due nextDue interval now = Some (nextDue + I * ((now - nextDue) div I + 1))"
    using assms(2)
  proof (induction "nat (now - nextDue)" arbitrary: nextDue rule: less_induct)
    case less
    show ?case
    proof (cases "nextDue + I \<le> now")
      case True
      have "advance_due (nextDue + I) interval now = Some (nextDue + I + I * ((now - (nextDue + I)) div I + 1))"
        using True I by (intro less.hyps) simp_all
      moreover have q: "(now - nextDue) div I = (now - (nextDue + I)) div I + 1"
        using I div_mult_self1 [of I "now - nextDue" "-1"] by (simp add: algebra_simps)
      ultimately show ?thesis using True unfolding q by (simp add: step [of nextDue] ring_distribs)
    next
      case False
      then have "(now - nextDue) div I = 0" using less.prems I by (intro div_pos_pos_trivial) simp_all
      then show ?thesis using False by (simp add: step [of nextDue])
    qed
  qed
  then show ?thesis by (simp add: I_def)
qed

definition is_due :: "int \<Rightarrow> Subscription \<Rightarrow> bool" where "is_due now s \<longleftrightarrow> sb_active s \<and> sb_nextDue s \<le> now"

definition moved_on :: "int \<Rightarrow> Subscription \<Rightarrow> Subscription" where
  "moved_on now s = (if is_due now s then s\<lparr>sb_nextDue := sb_nextDue s + period s * ((now - sb_nextDue s) div period s + 1)\<rparr> else s)"

lemma sendReport_frame:
  assumes "sendReport os lm s d w = (d', w')"
  shows "wd_subscriptions d' = wd_subscriptions d" "wd_activeSubscriptions d' = wd_activeSubscriptions d"
    "wd_subscriptionHighWater d' = wd_subscriptionHighWater d" "wd_nextSequence d' = wd_nextSequence d + 1"
    "wd_started d' = wd_started d"
  using assms by (auto simp: sendReport_def Let_def split: prod.splits option.splits if_splits)

lemma send_due_result:
  assumes "\<forall>s \<in> set (wd_subscriptions d). sb_active s \<longrightarrow> 0 < sb_interval s"
    and "\<forall>k \<in> set ks. k < length (wd_subscriptions d)" and "distinct ks"
  shows "\<exists>d' w'. send_due os lm now ks d w = Some (d', w')
     \<and> length (wd_subscriptions d') = length (wd_subscriptions d)
     \<and> (\<forall>k < length (wd_subscriptions d). wd_subscriptions d' ! k =
          (if k \<in> set ks then moved_on now (wd_subscriptions d ! k) else wd_subscriptions d ! k))
     \<and> wd_activeSubscriptions d' = wd_activeSubscriptions d \<and> wd_subscriptionHighWater d' = wd_subscriptionHighWater d
     \<and> wd_nextSequence d' = wd_nextSequence d + of_nat (length (filter (\<lambda>k. is_due now (wd_subscriptions d ! k)) ks))"
  using assms
proof (induction ks arbitrary: d w)
  case Nil
  then show ?case by simp
next
  case (Cons k ks)
  let ?s = "wd_subscriptions d ! k"
  have k: "k < length (wd_subscriptions d)" using Cons.prems(2) by simp
  show ?case
  proof (cases "is_due now ?s")
    case False
    then have step: "send_due os lm now (k # ks) d w = send_due os lm now ks d w"
      by (auto simp: is_due_def Let_def)
    obtain d' w' where r: "send_due os lm now ks d w = Some (d', w')"
      "length (wd_subscriptions d') = length (wd_subscriptions d)"
      "\<forall>j < length (wd_subscriptions d). wd_subscriptions d' ! j =
          (if j \<in> set ks then moved_on now (wd_subscriptions d ! j) else wd_subscriptions d ! j)"
      "wd_activeSubscriptions d' = wd_activeSubscriptions d" "wd_subscriptionHighWater d' = wd_subscriptionHighWater d"
      "wd_nextSequence d' = wd_nextSequence d + of_nat (length (filter (\<lambda>j. is_due now (wd_subscriptions d ! j)) ks))"
      using Cons.IH [of d w] Cons.prems by auto
    have "moved_on now ?s = ?s" using False by (simp add: moved_on_def)
    then show ?thesis using r False by (auto simp: step simp del: send_due.simps)
  next
    case True
    have pos: "0 < sb_interval ?s" using Cons.prems(1) k True by (auto simp: is_due_def)
    let ?due = "sb_nextDue ?s + period ?s * ((now - sb_nextDue ?s) div period ?s + 1)"
    let ?s1 = "?s\<lparr>sb_nextDue := ?due\<rparr>"
    let ?d1 = "d\<lparr>wd_subscriptions := (wd_subscriptions d)[k := ?s1]\<rparr>"
    have adv: "advance_due (sb_nextDue ?s) (sb_interval ?s) now = Some ?due"
      using advance_due_result [OF pos, of "sb_nextDue ?s" now] True by (simp add: is_due_def period_def)
    obtain d2 w2 where sr: "sendReport os lm ?s1 ?d1 w = (d2, w2)" by (cases "sendReport os lm ?s1 ?d1 w")
    note fr = sendReport_frame [OF sr, simplified]
    have step: "send_due os lm now (k # ks) d w = send_due os lm now ks d2 w2"
      using True adv sr by (simp add: is_due_def Let_def)
    have s1: "?s1 = moved_on now ?s" using True by (simp add: moved_on_def)
    have "\<forall>s \<in> set (wd_subscriptions d2). sb_active s \<longrightarrow> 0 < sb_interval s"
      using Cons.prems(1) pos by (auto simp: fr(1) dest!: subsetD [OF set_update_subset_insert])
    moreover have "\<forall>j \<in> set ks. j < length (wd_subscriptions d2)" "distinct ks"
      using Cons.prems(2,3) by (simp_all add: fr(1))
    ultimately obtain d' w' where r: "send_due os lm now ks d2 w2 = Some (d', w')"
      "length (wd_subscriptions d') = length (wd_subscriptions d2)"
      "\<forall>j < length (wd_subscriptions d2). wd_subscriptions d' ! j =
          (if j \<in> set ks then moved_on now (wd_subscriptions d2 ! j) else wd_subscriptions d2 ! j)"
      "wd_activeSubscriptions d' = wd_activeSubscriptions d2" "wd_subscriptionHighWater d' = wd_subscriptionHighWater d2"
      "wd_nextSequence d' = wd_nextSequence d2 + of_nat (length (filter (\<lambda>j. is_due now (wd_subscriptions d2 ! j)) ks))"
      using Cons.IH [of d2 w2] by auto
    have same: "wd_subscriptions d2 ! j = wd_subscriptions d ! j" if "j \<noteq> k" for j
      using that by (simp add: fr(1))
    have k': "k \<notin> set ks" using Cons.prems(3) by simp
    have "filter (\<lambda>j. is_due now (wd_subscriptions d2 ! j)) ks = filter (\<lambda>j. is_due now (wd_subscriptions d ! j)) ks"
    proof (rule filter_cong [OF refl])
      show "is_due now (wd_subscriptions d2 ! j) = is_due now (wd_subscriptions d ! j)" if "j \<in> set ks" for j
        using that k' same [of j] by (cases "j = k") simp_all
    qed
    moreover have "wd_subscriptions d' ! j = (if j \<in> set (k # ks) then moved_on now (wd_subscriptions d ! j) else wd_subscriptions d ! j)"
      if "j < length (wd_subscriptions d)" for j
    proof (cases "j = k")
      case True
      then have "wd_subscriptions d' ! j = wd_subscriptions d2 ! k" using r(3) that k' by (simp add: fr(1))
      then show ?thesis using True k s1 by (simp add: fr(1))
    next
      case False
      then show ?thesis using r(3) that same [of j] by (simp add: fr(1))
    qed
    ultimately show ?thesis using r True by (simp add: step fr del: send_due.simps)
  qed
qed

lemma moved_on_keeps [simp]:
  "sb_active (moved_on now s) = sb_active s" "sub_key (moved_on now s) = sub_key s" "sb_interval (moved_on now s) = sb_interval s"
  by (simp_all add: moved_on_def sub_key_def)

lemma active_intervals:
  "device_inv d \<Longrightarrow> s \<in> set (wd_subscriptions d) \<Longrightarrow> sb_active s \<Longrightarrow> 0 < sb_interval s"
  by (force simp: device_inv_def actives_def list_all_iff MinInterval_def)

text \<open>A round of reports, whatever the clock says: it ends, and the table it leaves.\<close>

lemma send_due_reports:
  assumes inv: "device_inv d"
  shows "\<exists>d' w'. sendDueReports os lm d w = Some (d', w') \<and> device_inv d' \<and> device_table d' = device_table d
     \<and> wd_subscriptions d' = map (moved_on (fst (mo_steady os w))) (wd_subscriptions d)
     \<and> wd_nextSequence d' = wd_nextSequence d + of_nat (length (filter (is_due (fst (mo_steady os w))) (wd_subscriptions d)))"
proof -
  let ?subs = "wd_subscriptions d"
  obtain now w1 where st: "mo_steady os w = (now, w1)" by (cases "mo_steady os w")
  obtain d' w' where r: "send_due os lm now [0..<length ?subs] d w1 = Some (d', w')"
    "length (wd_subscriptions d') = length ?subs"
    "\<forall>k < length ?subs. wd_subscriptions d' ! k =
       (if k \<in> set [0..<length ?subs] then moved_on now (?subs ! k) else ?subs ! k)"
    "wd_activeSubscriptions d' = wd_activeSubscriptions d" "wd_subscriptionHighWater d' = wd_subscriptionHighWater d"
    "wd_nextSequence d' = wd_nextSequence d + of_nat (length (filter (\<lambda>k. is_due now (?subs ! k)) [0..<length ?subs]))"
    using send_due_result [of d "[0..<length ?subs]" os lm now w1] active_intervals [OF inv] by auto
  have subs: "wd_subscriptions d' = map (moved_on now) ?subs" using r(2,3) by (intro nth_equalityI) auto
  have act: "actives d' = map (moved_on now) (actives d)"
    by (simp add: actives_def subs filter_map comp_def)
  have "device_inv d'" using inv r(4,5) by (simp add: device_inv_def act subs list_all_iff comp_def)
  moreover have "device_table d' = device_table d" by (simp add: device_table_def act comp_def)
  moreover have "length (filter (\<lambda>k. is_due now (?subs ! k)) [0..<length ?subs]) = length (filter (is_due now) ?subs)"
  proof -
    have "length (filter (is_due now) ?subs) = length (filter (is_due now) (map (\<lambda>k. ?subs ! k) [0..<length ?subs]))"
      by (simp only: map_nth)
    then show ?thesis by (simp add: filter_map comp_def)
  qed
  ultimately show ?thesis using r(1,6) subs st by (simp add: sendDueReports_def)
qed

lemma moved_on_schedule:
  assumes "is_due now s" "0 < sb_interval s"
  shows "now < sb_nextDue (moved_on now s) \<and> sb_nextDue (moved_on now s) \<le> now + period s
     \<and> (sb_nextDue (moved_on now s) - sb_nextDue s) mod period s = 0"
proof -
  have P: "0 < period s" using assms(2) by (simp add: period_def)
  define q where "q = (now - sb_nextDue s) div period s"
  define m where "m = (now - sb_nextDue s) mod period s"
  have split: "now - sb_nextDue s = period s * q + m" by (simp add: q_def m_def)
  have m: "0 \<le> m" "m < period s" using P by (simp_all add: m_def)
  have new: "sb_nextDue (moved_on now s) = sb_nextDue s + (period s * q + period s)"
    using assms(1) by (simp add: moved_on_def q_def ring_distribs)
  have "(sb_nextDue (moved_on now s) - sb_nextDue s) mod period s = 0" by (simp add: new)
  then show ?thesis using split m by (simp add: new)
qed

lemma format_body_fits: "0 < length out \<Longrightarrow> length out < n \<Longrightarrow> format_body n out = Some out"
proof -
  assume len: "0 < length out" "length out < n"
  obtain b l where sn: "snprintf (replicate n NUL) out = (b, l)" by (cases "snprintf (replicate n NUL) out")
  then have "take (length out) b = out" "l = length out" using snprintf_fits [of out "replicate n NUL"] len by simp_all
  then show ?thesis using len sn by (simp add: format_body_def)
qed

lemma build_datagram_fits:
  "NUL \<notin> set body \<Longrightarrow> length body \<le> 249 \<Longrightarrow> build_datagram body = Some (sentence_of body)"
  using build_fits [of body "replicate MaxSentenceSize NUL"] by (auto simp: build_datagram_def MaxSentenceSize_def)

lemma show_nat_clean: "NUL \<notin> set (show_nat n)" "CHR '','' \<notin> set (show_nat n)"
  using show_nat_digits [of n] by (auto simp: list_all_iff is_digit_def in_chars_def NUL_def code_def)

text \<open>What \<open>sendReport\<close> sends, for an operating system whose world shows the datagrams sent so far, with the
  answers of \<open>sendto\<close>.\<close>

definition records_sends :: "'w mon_os \<Rightarrow> ('w \<Rightarrow> (Endpoint \<times> string \<times> int) list) \<Rightarrow> bool" where
  "records_sends os log \<longleftrightarrow>
     (\<forall>e s w n w'. mo_sendto os e s w = (n, w') \<longrightarrow> log w' = log w @ [(e, s, n)])
     \<and> (\<forall>w. log (snd (mo_steady os w)) = log w) \<and> (\<forall>w. log (snd (mo_utc os w)) = log w)"

text \<open>A report is the text of its body with the answer of \<open>sendto\<close> to its datagram.\<close>

definition report_start :: "Subscription \<Rightarrow> u32 \<Rightarrow> string" where
  "report_start s sequence = ''WX'' @ reportTypeCode (sb_report s) @ '','' @ show_nat (unat sequence) @ '',''"

definition datagrams_of :: "Endpoint \<Rightarrow> string \<times> int \<Rightarrow> (Endpoint \<times> string \<times> int) list" where
  "datagrams_of e r = (if length (fst r) < 192 then [(e, sentence_of (fst r), snd r)] else [])"

definition report_lost :: "string \<times> int \<Rightarrow> bool" where
  "report_lost r \<longleftrightarrow> 192 \<le> length (fst r) \<or> snd r \<noteq> int (length (sentence_of (fst r)))"

lemma show_int_no_NUL: "NUL \<notin> set (show_int n)"
  by (rule show_int_avoids) (simp_all add: NUL_def is_digit_def in_chars_def code_def)

lemma printf_string_no_NUL: "NUL \<notin> set (printf_string s)"
  by (auto simp: printf_string_def dest: set_takeWhileD)

lemma utc_time:
  assumes "records_sends os log" "formatUtcTime os w = (t, w')"
  shows "log w' = log w" "NUL \<notin> set t"
  using assms by (auto simp: formatUtcTime_def records_sends_def Let_def printf_string_no_NUL split: prod.splits)
    (metis snd_conv)+

lemma report_text_result:
  assumes "records_sends os log" "\<forall>x. NUL \<notin> set (lm_print1 lm x)" "report_text os lm d (sb_report s) q w = (out, w')"
  shows "log w' = log w" "NUL \<notin> set out" "\<exists>rest. out = report_start s q @ rest"
proof -
  obtain t w0 where u: "formatUtcTime os w = (t, w0)" by (cases "formatUtcTime os w")
  note ut = utc_time [OF assms(1) u]
  obtain n1 w1 where s1: "mo_steady os w0 = (n1, w1)" by (cases "mo_steady os w0")
  obtain n2 w2 where s2: "mo_steady os w1 = (n2, w2)" by (cases "mo_steady os w1")
  have quiet: "log w1 = log w" "log w2 = log w"
    using assms(1) ut(1) s1 s2 unfolding records_sends_def by (metis snd_conv)+
  show "log w' = log w"
    using assms(3) quiet by (cases "sb_report s") (auto simp: report_text_def u s1 s2 Let_def)
  show "\<exists>rest. out = report_start s q @ rest"
    using assms(3) by (cases "sb_report s") (auto simp: report_text_def u s1 s2 Let_def reportTypeCode_def report_start_def)
  show "NUL \<notin> set out"
    using assms(2,3) ut show_nat_clean(1) show_int_no_NUL by (cases "sb_report s"; auto simp: report_text_def u s1 s2 Let_def NUL_def)
qed

lemma sendReport_result:
  assumes "records_sends os log" "\<forall>x. NUL \<notin> set (lm_print1 lm x)" "sendReport os lm s d w = (d', w')"
  shows "\<exists>r rest. fst r = report_start s (wd_nextSequence d) @ rest \<and> log w' = log w @ datagrams_of (sb_endpoint s) r
     \<and> wd_droppedReports d' = wd_droppedReports d + (if report_lost r then 1 else 0)"
proof -
  obtain out w1 where rt: "report_text os lm (d\<lparr>wd_nextSequence := wd_nextSequence d + 1\<rparr>) (sb_report s) (wd_nextSequence d) w = (out, w1)"
    (is "?rt = _") by (cases ?rt)
  note r = report_text_result [OF assms(1,2) rt]
  obtain rest where out: "out = report_start s (wd_nextSequence d) @ rest" using r(3) by blast
  show ?thesis
  proof (cases "length out < 192")
    case True
    have "0 < length out" by (simp add: out report_start_def)
    then have body: "format_body 192 out = Some out" using True by (rule format_body_fits)
    have built: "build_datagram out = Some (sentence_of out)" using r(2) True by (simp add: build_datagram_fits)
    obtain n w2 where send: "mo_sendto os (sb_endpoint s) (sentence_of out) w1 = (n, w2)" (is "?send = _") by (cases ?send)
    then have "log w2 = log w @ [(sb_endpoint s, sentence_of out, n)]" using assms(1) r(1) unfolding records_sends_def by simp
    then show ?thesis using assms(3) True
      by (intro exI [of _ "(out, n)"] exI [of _ rest])
        (auto simp: sendReport_def Let_def rt body built sendDatagram_def send datagrams_of_def report_lost_def out [symmetric])
  next
    case False
    then have "format_body 192 out = None" using length_snprintf [of "replicate 192 NUL" out]
      by (auto simp: format_body_def Let_def snprintf_def split: prod.splits)
    then show ?thesis using assms(3) False r(1)
      by (intro exI [of _ "(out, 0)"] exI [of _ rest])
        (auto simp: sendReport_def Let_def rt datagrams_of_def report_lost_def out [symmetric])
  qed
qed

lemma send_due_skips:
  "\<not> is_due now (wd_subscriptions d ! k) \<Longrightarrow> send_due os lm now (k # ks) d w = send_due os lm now ks d w"
  by (auto simp: is_due_def Let_def)

lemma send_due_sends:
  assumes "is_due now s" "0 < sb_interval s" "s = wd_subscriptions d ! k"
    "sendReport os lm (moved_on now s) (d\<lparr>wd_subscriptions := (wd_subscriptions d)[k := moved_on now s]\<rparr>) w = (d2, w2)"
  shows "send_due os lm now (k # ks) d w = send_due os lm now ks d2 w2"
proof -
  have "advance_due (sb_nextDue s) (sb_interval s) now = Some (sb_nextDue (moved_on now s))"
    using advance_due_result [OF assms(2), of "sb_nextDue s" now] assms(1) by (simp add: is_due_def moved_on_def period_def)
  moreover have "moved_on now s = s\<lparr>sb_nextDue := sb_nextDue (moved_on now s)\<rparr>" by (simp add: moved_on_def)
  ultimately show ?thesis using assms by (simp add: is_due_def Let_def del: moved_on_keeps)
qed

lemma moved_on_report [simp]: "sb_report (moved_on now s) = sb_report s" "sb_endpoint (moved_on now s) = sb_endpoint s"
  by (simp_all add: moved_on_def)

lemma send_due_reports_sent:
  assumes "records_sends os log" "\<forall>x. NUL \<notin> set (lm_print1 lm x)"
    and "\<forall>s \<in> set (wd_subscriptions d). sb_active s \<longrightarrow> 0 < sb_interval s"
    and "\<forall>k \<in> set ks. k < length (wd_subscriptions d)" and "distinct ks"
    and "send_due os lm now ks d w = Some (d', w')"
  shows "\<exists>rs. list_all2 (\<lambda>(i, s) r. \<exists>rest. fst r = report_start s (wd_nextSequence d + of_nat i) @ rest)
       (enumerate 0 (filter (is_due now) (map ((!) (wd_subscriptions d)) ks))) rs
     \<and> log w' = log w @ concat (map2 (\<lambda>s r. datagrams_of (sb_endpoint s) r) (filter (is_due now) (map ((!) (wd_subscriptions d)) ks)) rs)
     \<and> wd_droppedReports d' = wd_droppedReports d + of_nat (length (filter report_lost rs))"
  using assms(3-6)
proof (induction ks arbitrary: d w)
  case Nil
  then show ?case by simp
next
  case (Cons k ks)
  let ?s = "wd_subscriptions d ! k"
  have k: "k < length (wd_subscriptions d)" using Cons.prems(2) by simp
  show ?case
  proof (cases "is_due now ?s")
    case False
    then show ?thesis using Cons.IH [of d w] Cons.prems by (simp add: send_due_skips del: send_due.simps)
  next
    case True
    have pos: "0 < sb_interval ?s" using Cons.prems(1) k True by (auto simp: is_due_def)
    let ?s1 = "moved_on now ?s"
    let ?d1 = "d\<lparr>wd_subscriptions := (wd_subscriptions d)[k := ?s1]\<rparr>"
    obtain d2 w2 where sr: "sendReport os lm ?s1 ?d1 w = (d2, w2)" by (cases "sendReport os lm ?s1 ?d1 w")
    note fr = sendReport_frame [OF sr, simplified]
    obtain r rest where r: "fst r = report_start ?s (wd_nextSequence d) @ rest" "log w2 = log w @ datagrams_of (sb_endpoint ?s) r"
      "wd_droppedReports d2 = wd_droppedReports d + (if report_lost r then 1 else 0)"
      using sendReport_result [OF assms(1,2) sr] by (auto simp: report_start_def)
    have run: "send_due os lm now ks d2 w2 = Some (d', w')"
      using Cons.prems(4) send_due_sends [OF True pos refl sr] by simp
    have ok: "\<forall>s \<in> set (wd_subscriptions d2). sb_active s \<longrightarrow> 0 < sb_interval s"
      using Cons.prems(1) pos by (auto simp: fr(1) dest!: subsetD [OF set_update_subset_insert])
    have slots: "\<forall>j \<in> set ks. j < length (wd_subscriptions d2)" "distinct ks"
      using Cons.prems(2,3) by (simp_all add: fr(1))
    have same: "map ((!) (wd_subscriptions d2)) ks = map ((!) (wd_subscriptions d)) ks"
      using Cons.prems(3) by (auto simp: fr(1)) (metis nth_list_update_neq)
    obtain rs where rs:
      "list_all2 (\<lambda>(i, s) r. \<exists>rest. fst r = report_start s (wd_nextSequence d + 1 + of_nat i) @ rest)
         (enumerate 0 (filter (is_due now) (map ((!) (wd_subscriptions d)) ks))) rs"
      "log w' = log w2 @ concat (map2 (\<lambda>s r. datagrams_of (sb_endpoint s) r) (filter (is_due now) (map ((!) (wd_subscriptions d)) ks)) rs)"
      "wd_droppedReports d' = wd_droppedReports d2 + of_nat (length (filter report_lost rs))"
      using Cons.IH [OF ok slots run] unfolding same fr(4) by (auto simp: fr(4))
    have later: "enumerate (Suc 0) xs = map (\<lambda>(i, s). (Suc i, s)) (enumerate 0 xs)" for xs :: "Subscription list"
      by (simp add: enumerate_Suc_eq apfst_def map_prod_def id_def)
    show ?thesis
      using r rs True by (intro exI [of _ "r # rs"])
        (auto simp: later list_all2_map1 case_prod_unfold algebra_simps)
  qed
qed


text \<open>The round over all slots.\<close>

lemma send_all_due_sent:
  assumes inv: "device_inv d" and log: "records_sends os log" "\<forall>x. NUL \<notin> set (lm_print1 lm x)"
    and run: "sendDueReports os lm d w = Some (d', w')"
  shows "\<exists>rs. list_all2 (\<lambda>(i, s) r. \<exists>rest. fst r = report_start s (wd_nextSequence d + of_nat i) @ rest)
       (enumerate 0 (filter (is_due (fst (mo_steady os w))) (wd_subscriptions d))) rs
     \<and> log w' = log w @ concat (map2 (\<lambda>s r. datagrams_of (sb_endpoint s) r) (filter (is_due (fst (mo_steady os w))) (wd_subscriptions d)) rs)
     \<and> wd_droppedReports d' = wd_droppedReports d + of_nat (length (filter report_lost rs))"
proof -
  obtain now w1 where st: "mo_steady os w = (now, w1)" by (cases "mo_steady os w")
  have same: "log w1 = log w" using log(1) st unfolding records_sends_def by (metis snd_conv)
  have "send_due os lm now [0..<length (wd_subscriptions d)] d w1 = Some (d', w')"
    using run st by (simp add: sendDueReports_def)
  from send_due_reports_sent [OF log _ _ _ this] active_intervals [OF inv]
  show ?thesis unfolding map_nth st fst_conv same by simp
qed

text \<open>An operating system that takes every datagram and writes it down.\<close>

definition logging_os :: "(int \<times> (Endpoint \<times> string \<times> int) list) mon_os" where
  "logging_os = \<lparr>mo_steady = (\<lambda>w. (fst w, w)), mo_utc = (\<lambda>w. ((0, 0, 0, 0), w)),
     mo_sendto = (\<lambda>e s w. (int (length s), (fst w, snd w @ [(e, s, int (length s))]))),
     mo_recvfrom = (\<lambda>n w. (None, w)), mo_poll = (\<lambda>t w. (PollReady False, (fst w + \<bar>t\<bar> * 10 ^ 6 + 1, snd w))),
     mo_stop = (\<lambda>w. (False, w))\<rparr>"

text \<open>C11: reports keep to their schedule and are sent. A round of reports always ends: for each active
  subscription that is due, in the order of the slots, and for no other, it formats one report, which
  starts with the identifier of its type and the next sequence number; a body of less than 192
  characters goes out, as one sentence with its checksum, to the endpoint of its subscription and to
  no other; and the report counts as dropped exactly when its body was too long or \<open>sendto\<close> did not
  take all of the sentence. Exactly these subscriptions are moved, to the first point after the
  present that is a whole number of intervals past the old one, so that neither the time a report
  takes nor a missed interval shifts the schedule. The table of subscriptions stays as it is. The
  world of the operating system is any that shows the datagrams sent so far, and the printing of a
  floating-point number contains no NUL.\<close>

theorem reports_on_schedule:
  assumes "device_inv d" "records_sends os log" "\<forall>x. NUL \<notin> set (lm_print1 lm x)"
  shows "(case sendDueReports os lm d w of None \<Rightarrow> False
     | Some (d', w') \<Rightarrow>
        let due = filter (\<lambda>s. sb_active s \<and> sb_nextDue s \<le> fst (mo_steady os w)) (wd_subscriptions d)
        in device_inv d' \<and> device_table d' = device_table d
        \<and> wd_nextSequence d' = wd_nextSequence d + of_nat (length due)
        \<and> (\<exists>reports. length reports = length due
             \<and> (\<forall>i < length due. \<exists>rest. fst (reports ! i) = ''WX'' @ reportTypeCode (sb_report (due ! i)) @ '',''
                  @ show_nat (unat (wd_nextSequence d + of_nat i)) @ '','' @ rest)
             \<and> log w' = log w @ concat (map2 (\<lambda>s (body, n).
                  if length body < 192 then [(sb_endpoint s, sentence_of body, n)] else []) due reports)
             \<and> wd_droppedReports d' = wd_droppedReports d + of_nat (length (filter (\<lambda>(body, n).
                  192 \<le> length body \<or> n \<noteq> int (length (sentence_of body))) reports)))
        \<and> list_all2 (\<lambda>s s'. if sb_active s \<and> sb_nextDue s \<le> fst (mo_steady os w)
              then s' = s\<lparr>sb_nextDue := sb_nextDue s'\<rparr> \<and> fst (mo_steady os w) < sb_nextDue s'
                \<and> sb_nextDue s' \<le> fst (mo_steady os w) + sb_interval s * 10 ^ 6
                \<and> (sb_nextDue s' - sb_nextDue s) mod (sb_interval s * 10 ^ 6) = 0
              else s' = s) (wd_subscriptions d) (wd_subscriptions d'))"
proof -
  let ?now = "fst (mo_steady os w)"
  let ?due = "filter (is_due ?now) (wd_subscriptions d)"
  obtain d' w' where r: "sendDueReports os lm d w = Some (d', w')" "device_inv d'" "device_table d' = device_table d"
    "wd_subscriptions d' = map (moved_on ?now) (wd_subscriptions d)"
    "wd_nextSequence d' = wd_nextSequence d + of_nat (length ?due)"
    using send_due_reports [OF assms(1), of os lm w] by blast
  obtain reports where sent: "list_all2 (\<lambda>(i, s) r. \<exists>rest. fst r = report_start s (wd_nextSequence d + of_nat i) @ rest)
      (enumerate 0 ?due) reports"
    "log w' = log w @ concat (map2 (\<lambda>s r. datagrams_of (sb_endpoint s) r) ?due reports)"
    "wd_droppedReports d' = wd_droppedReports d + of_nat (length (filter report_lost reports))"
    using send_all_due_sent [OF assms r(1)] by blast
  have parts: "length reports = length ?due"
    "\<forall>i < length ?due. \<exists>rest. fst (reports ! i) = report_start (?due ! i) (wd_nextSequence d + of_nat i) @ rest"
    using sent(1) by (auto simp: list_all2_conv_all_nth nth_enumerate_eq)
  have each: "if sb_active s \<and> sb_nextDue s \<le> ?now
       then moved_on ?now s = s\<lparr>sb_nextDue := sb_nextDue (moved_on ?now s)\<rparr> \<and> ?now < sb_nextDue (moved_on ?now s)
         \<and> sb_nextDue (moved_on ?now s) \<le> ?now + sb_interval s * 10 ^ 6
         \<and> (sb_nextDue (moved_on ?now s) - sb_nextDue s) mod (sb_interval s * 10 ^ 6) = 0
       else moved_on ?now s = s" if "s \<in> set (wd_subscriptions d)" for s
    using moved_on_schedule [of ?now s] active_intervals [OF assms(1) that]
    by (auto simp: is_due_def period_def moved_on_def)
  have "list_all2 (\<lambda>s s'. if sb_active s \<and> sb_nextDue s \<le> ?now
        then s' = s\<lparr>sb_nextDue := sb_nextDue s'\<rparr> \<and> ?now < sb_nextDue s' \<and> sb_nextDue s' \<le> ?now + sb_interval s * 10 ^ 6
          \<and> (sb_nextDue s' - sb_nextDue s) mod (sb_interval s * 10 ^ 6) = 0
        else s' = s) (wd_subscriptions d) (wd_subscriptions d')"
    unfolding r(4) list_all2_map2 by (rule list_all2_same [THEN iffD2]) (use each in blast)
  moreover have due: "is_due ?now = (\<lambda>s. sb_active s \<and> sb_nextDue s \<le> ?now)" by (simp add: fun_eq_iff is_due_def)
  moreover have "report_lost = (\<lambda>(body, n). 192 \<le> length body \<or> n \<noteq> int (length (sentence_of body)))"
    by (simp add: fun_eq_iff report_lost_def)
  moreover have "log w' = log w @ concat (map2 (\<lambda>s (body, n).
      if length body < 192 then [(sb_endpoint s, sentence_of body, n)] else []) ?due reports)"
    using sent(2) by (simp add: datagrams_of_def case_prod_unfold)
  ultimately show ?thesis
    unfolding r(1) option.case prod.case Let_def using r(2,3,5) parts sent(3)
    by (intro conjI exI [of _ reports]) (simp_all add: report_start_def)
qed

theorem reports_on_schedule_witness:
  "(case sendDueReports logging_os sample_libm sample_device (5 * 10 ^ 9, []) of None \<Rightarrow> False
     | Some (d', t, sent) \<Rightarrow> wd_nextSequence d' = 2 \<and> device_table d' = device_table sample_device
        \<and> sent = [(lab_endpoint, sentence_of ''WXHLT,1,000000.000,OK,OK,OK,OK'', 36)])"
proof -
  have laws: "records_sends logging_os snd" "\<forall>x. NUL \<notin> set (lm_print1 sample_libm x)"
    by (auto simp: records_sends_def logging_os_def sample_libm_def show_int_no_NUL)
  have adv: "advance_due 1000000000 1000 5000000000 = Some 6000000000"
    using advance_due_result [of 1000 1000000000 5000000000] by simp
  have "map_option (snd \<circ> snd) (sendDueReports logging_os sample_libm sample_device (5 * 10 ^ 9, []))
      = Some [(lab_endpoint, sentence_of ''WXHLT,1,000000.000,OK,OK,OK,OK'', 36)]"
    by (code_simp, simp only: adv option.case, code_simp)
  moreover have "length (filter (\<lambda>s. sb_active s \<and> sb_nextDue s \<le> fst (mo_steady logging_os (5 * 10 ^ 9, []))) (wd_subscriptions sample_device)) = 1"
    "wd_nextSequence sample_device = 1" by code_simp+
  ultimately show ?thesis
    using reports_on_schedule [OF sample_inv laws, where w = "(5 * 10 ^ 9, [])"] by (auto simp: Let_def split: option.splits)
qed

text \<open>C12: progress and preservation. From a well-formed device a turn of the main loop always comes to an end,
  whatever \<open>poll\<close> says, whatever datagram has arrived and however far the clock has run ahead. Only a
  failure of \<open>poll\<close> that is no interruption ends the program, with status 1; after every other turn the
  device is again well formed, and after an interrupted \<open>poll\<close> it is as it was.\<close>

theorem device_turn_sound:
  assumes inv: "device_inv d"
  shows "(case device_turn os lm d w of None \<Rightarrow> False
     | Some (Inl status) \<Rightarrow> status = 1 \<and> fst (mo_poll os 25 w) = PollFailed False
     | Some (Inr (d', w')) \<Rightarrow> device_inv d' \<and> fst (mo_poll os 25 w) \<noteq> PollFailed False
         \<and> (fst (mo_poll os 25 w) = PollFailed True \<longrightarrow> d' = d))"
proof (cases "mo_poll os 25 w")
  case (Pair p w1)
  show ?thesis
  proof (cases p)
    case (PollFailed b)
    then show ?thesis using Pair inv by (simp add: device_turn_def)
  next
    case (PollReady b)
    obtain d2 w2 where r: "(if b then receiveRequest os d w1 else (d, w1)) = (d2, w2)"
      by (cases "if b then receiveRequest os d w1 else (d, w1)")
    have handled: "device_inv (fst (handleRequest os s e d w0))" for s e w0
      using request_refines [OF inv, of os s e w0] by (cases "handleRequest os s e d w0"; cases "request_of s") (force simp: prod_eq_iff)
    have "device_inv d2"
      using r inv handled
      by (auto simp: receiveRequest_def prod_eq_iff split: if_splits prod.splits option.splits)
    then show ?thesis using send_due_reports [of d2 os lm w2] Pair PollReady r by (auto simp: device_turn_def)
  qed
qed

theorem device_turn_sound_witness:
  "device_turn silent_os sample_libm sample_device (5 * 10 ^ 9) \<noteq> None"
  using device_turn_sound [OF sample_inv, where os = silent_os and lm = sample_libm and w = "5 * 10 ^ 9"]
  by (auto split: option.splits)

end
