(* ===== verification/RemoteMonitor.thy ===== *)
theory RemoteMonitor
  imports MonitorDevice
begin

text \<open>
  Chapter 15, the remote monitor (\<open>remote_monitor.cpp\<close>): it subscribes to reports by transactions that
  are sent up to three times until they are acknowledged, and prints the reports it receives. The
  operating system is the record of \<open>MonitorDevice\<close>. Console output is left out.
\<close>

section \<open>Receiving\<close>

datatype AckResult = AckNone | MatchedOk | MatchedFailure

text \<open>What \<open>receiveOne\<close> makes of a datagram.\<close>

definition ack_result :: "u32 option \<Rightarrow> string \<Rightarrow> AckResult" where
  "ack_result expectedTransaction sentence =
     (let (status, parsed) = parseSentence sentence
      in if status \<noteq> ParseOk then AckNone
         else if pa_identifier parsed = ''WXACK''
         then (if pa_fieldCount parsed \<noteq> 2 then AckNone
               else let (ok, transaction) = parseUnsigned (pa_fields parsed ! 0)
                    in if \<not> ok then AckNone
                       else if expectedTransaction \<noteq> Some transaction then AckNone
                       else if pa_fields parsed ! 1 = ''OK'' then MatchedOk else MatchedFailure)
         else AckNone)"

definition receiveOne :: "'w mon_os \<Rightarrow> int \<Rightarrow> u32 option \<Rightarrow> 'w \<Rightarrow> AckResult \<times> 'w" where
  "receiveOne os timeout expectedTransaction w =
     (let timeoutMs = (if timeout < 0 then 0 else timeout)
      in case mo_poll os timeoutMs w of
           (PollReady True, w1) \<Rightarrow>
             (case mo_recvfrom os (MaxSentenceSize - 1) w1 of
                (None, w2) \<Rightarrow> (AckNone, w2)
              | (Some (sentence, _), w2) \<Rightarrow>
                  if sentence = [] then (AckNone, w2) else (ack_result expectedTransaction sentence, w2))
         | (_, w1) \<Rightarrow> (AckNone, w1))"

section \<open>Transactions\<close>

definition AckTimeout :: int where "AckTimeout = 700"
definition MaxAttempts :: nat where "MaxAttempts = 3"

text \<open>The inner loop: \<open>Some True\<close> and \<open>Some False\<close> are the returns of \<open>transact\<close>, \<open>None\<close> its going on.\<close>

partial_function (option) wait_ack :: "'w mon_os \<Rightarrow> u32 \<Rightarrow> int \<Rightarrow> 'w \<Rightarrow> (bool option \<times> 'w) option" where
  "wait_ack os transaction deadline w =
     (let (stop, w1) = mo_stop os w
      in if stop then Some (None, w1)
         else let (now, w2) = mo_steady os w1
              in if \<not> now < deadline then Some (None, w2)
                 else let (now2, w3) = mo_steady os w2;
                          remaining = sgn (deadline - now2) * (\<bar>deadline - now2\<bar> div 10 ^ 6);
                          (result, w4) = receiveOne os remaining (Some transaction) w3
                      in case result of
                           MatchedOk \<Rightarrow> Some (Some True, w4)
                         | MatchedFailure \<Rightarrow> Some (Some False, w4)
                         | AckNone \<Rightarrow> wait_ack os transaction deadline w4)"

fun attempts :: "'w mon_os \<Rightarrow> Endpoint \<Rightarrow> u32 \<Rightarrow> string \<Rightarrow> nat \<Rightarrow> 'w \<Rightarrow> (bool \<times> 'w) option" where
  "attempts os server transaction datagram 0 w = Some (False, w)"
| "attempts os server transaction datagram (Suc left) w =
     (let (stop, w1) = mo_stop os w
      in if stop then Some (False, w1)
         else let (sent, w2) = mo_sendto os server datagram w1
              in if sent \<noteq> int (length datagram) then attempts os server transaction datagram left w2
                 else let (now, w3) = mo_steady os w2
                      in case wait_ack os transaction (due_after now AckTimeout) w3 of
                           None \<Rightarrow> None
                         | Some (Some ok, w4) \<Rightarrow> Some (ok, w4)
                         | Some (None, w4) \<Rightarrow> attempts os server transaction datagram left w4)"

definition transact :: "'w mon_os \<Rightarrow> Endpoint \<Rightarrow> u32 \<Rightarrow> string \<Rightarrow> 'w \<Rightarrow> (bool \<times> 'w) option" where
  "transact os server transaction body w =
     (case build_datagram body of
        None \<Rightarrow> Some (False, w)
      | Some datagram \<Rightarrow> attempts os server transaction datagram MaxAttempts w)"

definition subscribe_body :: "u32 \<Rightarrow> string \<Rightarrow> u32 \<Rightarrow> string option" where
  "subscribe_body transaction report interval =
     format_body 128 (''WXSUB,'' @ show_nat (unat transaction) @ '','' @ printf_string report @ '','' @ show_nat (unat interval))"

definition unsubscribe_body :: "u32 \<Rightarrow> string \<Rightarrow> string option" where
  "unsubscribe_body transaction report =
     format_body 128 (''WXUSB,'' @ show_nat (unat transaction) @ '','' @ printf_string report)"

definition subscribe :: "'w mon_os \<Rightarrow> Endpoint \<Rightarrow> u32 \<Rightarrow> string \<Rightarrow> u32 \<Rightarrow> 'w \<Rightarrow> (bool \<times> 'w) option" where
  "subscribe os server transaction report interval w =
     (case subscribe_body transaction report interval of
        None \<Rightarrow> Some (False, w) | Some body \<Rightarrow> transact os server transaction body w)"

definition unsubscribe :: "'w mon_os \<Rightarrow> Endpoint \<Rightarrow> u32 \<Rightarrow> string \<Rightarrow> 'w \<Rightarrow> (bool \<times> 'w) option" where
  "unsubscribe os server transaction report w =
     (case unsubscribe_body transaction report of
        None \<Rightarrow> Some (False, w) | Some body \<Rightarrow> transact os server transaction body w)"

section \<open>The program\<close>

record monitor_options =
  mn_host :: string
  mn_port :: u16
  mn_demo :: bool

definition default_monitor_options :: monitor_options where
  "default_monitor_options = \<lparr>mn_host = ''127.0.0.1'', mn_port = 9500, mn_demo = False\<rparr>"

text \<open>\<open>None\<close> when help was asked for and the program ends with status 0.\<close>

fun monitor_args :: "string list \<Rightarrow> monitor_options \<Rightarrow> monitor_options option" where
  "monitor_args [] opts = Some opts"
| "monitor_args [arg] opts =
     (if arg = ''--demo'' then Some (opts\<lparr>mn_demo := True\<rparr>) else if arg = ''--help'' then None else Some opts)"
| "monitor_args (arg # v # rest) opts =
     (if arg = ''--host'' then monitor_args rest (opts\<lparr>mn_host := v\<rparr>)
      else if arg = ''--port''
      then let (ok, value) = parseUnsigned v
           in monitor_args rest (if ok \<and> value \<le> 65535 then opts\<lparr>mn_port := ucast value\<rparr> else opts)
      else if arg = ''--demo'' then monitor_args (v # rest) (opts\<lparr>mn_demo := True\<rparr>)
      else if arg = ''--help'' then None
      else monitor_args (v # rest) opts)"

text \<open>The subscriptions at the start of the demonstration, up to the first that fails.\<close>

fun subscribe_all :: "'w mon_os \<Rightarrow> Endpoint \<Rightarrow> (u32 \<times> string \<times> u32) list \<Rightarrow> 'w \<Rightarrow> (bool \<times> 'w) option" where
  "subscribe_all os server [] w = Some (True, w)"
| "subscribe_all os server ((transaction, report, interval) # rest) w =
     (case subscribe os server transaction report interval w of
        None \<Rightarrow> None
      | Some (ok, w1) \<Rightarrow> if ok then subscribe_all os server rest w1 else Some (False, w1))"

definition demo_subscriptions :: "(u32 \<times> string \<times> u32) list" where
  "demo_subscriptions = [(201, ''TMP'', 1000), (202, ''PRS'', 2000), (203, ''HLT'', 5000), (204, ''DIA'', 5000)]"

partial_function (option) demo_loop :: "'w mon_os \<Rightarrow> Endpoint \<Rightarrow> int \<Rightarrow> bool \<Rightarrow> 'w \<Rightarrow> nat option" where
  "demo_loop os server unsubscribeAt temperatureCancelled w =
     (let (stop, w1) = mo_stop os w
      in if stop then Some 0
         else let (now, w2) = (if temperatureCancelled then (0, w1) else mo_steady os w1)
              in if \<not> temperatureCancelled \<and> now \<ge> unsubscribeAt
                 then (case unsubscribe os server 205 ''TMP'' w2 of
                         None \<Rightarrow> None
                       | Some (ok, w3) \<Rightarrow>
                           if \<not> ok then Some 1
                           else let (_, w4) = receiveOne os 250 None w3 in demo_loop os server unsubscribeAt True w4)
                 else let (_, w3) = receiveOne os 250 None w2
                      in demo_loop os server unsubscribeAt temperatureCancelled w3)"

definition runDemo :: "'w mon_os \<Rightarrow> Endpoint \<Rightarrow> 'w \<Rightarrow> nat option" where
  "runDemo os server w =
     (case subscribe_all os server demo_subscriptions w of
        None \<Rightarrow> None
      | Some (ok, w1) \<Rightarrow>
          if \<not> ok then Some 1
          else let (now, w2) = mo_steady os w1 in demo_loop os server (due_after now 10000) False w2)"

partial_function (option) receiveLoop :: "'w mon_os \<Rightarrow> 'w \<Rightarrow> nat option" where
  "receiveLoop os w =
     (let (stop, w1) = mo_stop os w
      in if stop then Some 0 else let (_, w2) = receiveOne os 500 None w1 in receiveLoop os w2)"

text \<open>\<open>main\<close> with the results of \<open>socket\<close> and \<open>bind\<close>, and \<open>inet_pton\<close> as a parameter; port numbers are kept in
  the byte order of the machine.\<close>

definition monitor_main ::
  "'w mon_os \<Rightarrow> int \<Rightarrow> int \<Rightarrow> (string \<Rightarrow> u32 option) \<Rightarrow> string list \<Rightarrow> 'w \<Rightarrow> nat option" where
  "monitor_main os fd bind_result inet_pton args w =
     (case monitor_args args default_monitor_options of
        None \<Rightarrow> Some 0
      | Some options \<Rightarrow>
          if fd < 0 \<or> bind_result < 0 then Some 1
          else case inet_pton (mn_host options) of
                 None \<Rightarrow> Some 1
               | Some addr \<Rightarrow>
                   if mn_demo options
                   then runDemo os \<lparr>sin_family = 2, sin_port = mn_port options, s_addr = addr\<rparr> w
                   else receiveLoop os w)"

section \<open>From the monitor to the device and back\<close>

lemma u32_text_length: "length (show_nat (unat (v :: u32))) \<le> 10"
proof -
  have "unat v < 2 ^ LENGTH(32)" by (rule unsigned_less)
  then have "unat v < 10 ^ 10" by simp
  then show ?thesis by (rule length_show_nat) simp
qed

lemma report_code_clean: "printf_string (reportTypeCode r) = reportTypeCode r" "NUL \<notin> set (reportTypeCode r)"
  "CHR '','' \<notin> set (reportTypeCode r)" "length (reportTypeCode r) = 3"
  by (cases r; simp add: reportTypeCode_def printf_string_def NUL_def)+

lemma request_of_sentence:
  assumes "list_all (\<lambda>w. CHR '','' \<notin> set w) (ident # ws)" "length ident = 5" "length ws \<le> MaxFields"
  shows "request_of (sentence_of (ident @ join CHR '','' ws)) = (ident, ws)"
    and "parseSentence (sentence_of (ident @ join CHR '','' ws)) = (ParseOk, parsed_of ident ws)"
proof -
  have "split CHR '','' (ident @ join CHR '','' ws) = ident # ws" using assms(1) by (intro split_join) (auto simp: list_all_iff)
  then show ok: "parseSentence (sentence_of (ident @ join CHR '','' ws)) = (ParseOk, parsed_of ident ws)"
    using assms(2,3) by (simp add: parse_sentence_of parse_body_split)
  show "request_of (sentence_of (ident @ join CHR '','' ws)) = (ident, ws)"
    by (simp add: request_of_def ok) (simp add: parsed_of_def)
qed

definition plain :: "string \<Rightarrow> bool" where "plain s \<longleftrightarrow> NUL \<notin> set s \<and> CHR '','' \<notin> set s"

lemma join2: "a @ '','' @ b = a @ join CHR '','' [b]" "a @ '','' @ b @ '','' @ c = a @ join CHR '','' [b, c]"
  "a @ '','' @ b @ '','' @ c @ '','' @ d = a @ join CHR '','' [b, c, d]"
  by (simp_all add: join_def)

text \<open>Both messages fit their buffers.\<close>

lemma ack_datagram_text:
  assumes "plain res" "length res \<le> 20"
  shows "ack_datagram t res = Some (sentence_of (''WXACK'' @ join CHR '','' [show_nat (unat t), res]))"
proof -
  let ?b = "''WXACK'' @ join CHR '','' [show_nat (unat t), res]"
  have line: "''WXACK,'' @ show_nat (unat t) @ '','' @ printf_string res = ?b"
    using assms(1) by (simp add: plain_def printf_string_id join_def)
  have len: "length ?b \<le> 40" using u32_text_length [of t] assms(2) by (simp add: join_def)
  have "NUL \<notin> set ?b" using assms(1) show_nat_clean by (simp add: join_def plain_def NUL_def)
  then show ?thesis unfolding ack_datagram_def line using len format_body_fits [of ?b 128] build_datagram_fits [of ?b] by simp
qed

lemma subscribe_text:
  "Option.bind (subscribe_body t (reportTypeCode r) n) build_datagram
     = Some (sentence_of (''WXSUB'' @ join CHR '','' [show_nat (unat t), reportTypeCode r, show_nat (unat n)]))"
proof -
  let ?b = "''WXSUB'' @ join CHR '','' [show_nat (unat t), reportTypeCode r, show_nat (unat n)]"
  have line: "''WXSUB,'' @ show_nat (unat t) @ '','' @ printf_string (reportTypeCode r) @ '','' @ show_nat (unat n) = ?b"
    by (simp add: report_code_clean join_def)
  have len: "length ?b \<le> 40" using u32_text_length [of t] u32_text_length [of n] by (simp add: join_def report_code_clean)
  have "NUL \<notin> set ?b" using show_nat_clean report_code_clean(2) by (simp add: join_def NUL_def)
  then show ?thesis unfolding subscribe_body_def line using len format_body_fits [of ?b 128] build_datagram_fits [of ?b] by simp
qed

lemma ack_result_text:
  assumes "plain res"
  shows "ack_result (Some t) (sentence_of (''WXACK'' @ join CHR '','' [show_nat (unat t), res]))
    = (if res = ''OK'' then MatchedOk else MatchedFailure)"
proof -
  have "parseSentence (sentence_of (''WXACK'' @ join CHR '','' [show_nat (unat t), res]))
      = (ParseOk, parsed_of ''WXACK'' [show_nat (unat t), res])"
    using assms show_nat_clean(2) by (intro request_of_sentence(2)) (auto simp: plain_def MaxFields_def)
  then show ?thesis using parsed_of_fields(3) [of 1 "[show_nat (unat t), res]" "''WXACK''"]
    by (simp add: ack_result_def parseUnsigned_show)
qed

text \<open>What the device does with the monitor's subscription.\<close>

lemma device_answers:
  assumes inv: "device_inv d" and fs: "parseReportType code' = Some r"
    and sent: "s = sentence_of (''WXSUB'' @ join CHR '','' [show_nat (unat t), code', show_nat (unat (n :: u32))])"
    and res: "handleRequest os s e d w = (d', w')"
    and granted: "granted = (interval_ok (uint n) \<and> ((e, r) \<in> dom (device_table d) \<or> card (dom (device_table d)) < 16))"
  shows "device_inv d'" "device_table d' = (if granted then (device_table d)((e, r) \<mapsto> uint n) else device_table d)"
    "\<exists>w0 \<in> {w, snd (mo_steady os w)}. w' = sendAck os e t
       (if granted then ''OK'' else if interval_ok (uint n) then ''BUSY'' else ''INVALID_PARAM'') w0"
proof -
  have code': "code' = reportTypeCode r" using fs by (simp add: parse_report_text)
  have req: "request_of s = (''WXSUB'', [show_nat (unat t), code', show_nat (unat n)])"
    unfolding sent using show_nat_clean(2) report_code_clean(3) by (intro request_of_sentence(1)) (simp_all add: MaxFields_def code')
  have sp: "spec_request (device_table d) e ''WXSUB'' [show_nat (unat t), code', show_nat (unat n)] =
      (if granted then (device_table d)((e, r) \<mapsto> uint n) else device_table d,
       Some (t, if granted then ''OK'' else if interval_ok (uint n) then ''BUSY'' else ''INVALID_PARAM''))"
    using fs by (simp add: spec_request_def parseUnsigned_show granted Let_def numeral_2_eq_2)
  show "device_inv d'" "device_table d' = (if granted then (device_table d)((e, r) \<mapsto> uint n) else device_table d)"
    "\<exists>w0 \<in> {w, snd (mo_steady os w)}. w' = sendAck os e t
       (if granted then ''OK'' else if interval_ok (uint n) then ''BUSY'' else ''INVALID_PARAM'') w0"
    using request_refines [OF inv res req sp] by auto
qed

text \<open>C3: monitor and device agree on a subscription. The monitor's request always fits and is understood; the
  device answers it with one acknowledgement, which the monitor recognises as the answer to this
  transaction: as a success exactly when the table now holds the subscription asked for, and as a
  failure exactly when the interval is out of range or sixteen other subscriptions are active, in
  which case the table has not changed.\<close>

theorem subscribe_end_to_end:
  assumes "device_inv d"
  shows "(case Option.bind (subscribe_body t (reportTypeCode r) n) build_datagram of
       None \<Rightarrow> False
     | Some request \<Rightarrow>
         length request < MaxSentenceSize
       \<and> (let (d', w') = handleRequest os request e d w;
              granted = (interval_ok (uint n) \<and> ((e, r) \<in> dom (device_table d) \<or> card (dom (device_table d)) < 16))
          in device_table d' = (if granted then (device_table d)((e, r) \<mapsto> uint n) else device_table d)
           \<and> (\<exists>answer. length answer < MaxSentenceSize
                \<and> w' \<in> (\<lambda>w0. snd (mo_sendto os e answer w0)) ` {w, snd (mo_steady os w)}
                \<and> ack_result (Some t) answer = (if granted then MatchedOk else MatchedFailure))))"
proof -
  let ?s = "sentence_of (''WXSUB'' @ join CHR '','' [show_nat (unat t), reportTypeCode r, show_nat (unat n)])"
  define granted where "granted = (interval_ok (uint n) \<and> ((e, r) \<in> dom (device_table d) \<or> card (dom (device_table d)) < 16))"
  obtain d' w' where res: "handleRequest os ?s e d w = (d', w')" by (cases "handleRequest os ?s e d w")
  let ?res = "if granted then ''OK'' else if interval_ok (uint n) then ''BUSY'' else ''INVALID_PARAM''"
  let ?answer = "sentence_of (''WXACK'' @ join CHR '','' [show_nat (unat t), ?res])"
  note device = device_answers [OF assms parse_report_code refl res granted_def]
  have clean: "plain ?res" "length ?res \<le> 20" by (simp_all add: plain_def NUL_def)
  have "ack_result (Some t) ?answer = (if granted then MatchedOk else MatchedFailure)"
    using ack_result_text [OF clean(1), of t] by (auto split: if_splits)
  moreover have "w' \<in> (\<lambda>w0. snd (mo_sendto os e ?answer w0)) ` {w, snd (mo_steady os w)}"
    using device(3) ack_datagram_text [OF clean, of t]
    by (auto simp: sendAck_def sendDatagram_def split: prod.splits)
  moreover have "length ?answer < MaxSentenceSize" "length ?s < MaxSentenceSize"
    using u32_text_length [of t] u32_text_length [of n]
    by (simp_all add: length_sentence_of join_def MaxSentenceSize_def report_code_clean)
  ultimately show ?thesis using device(2) res unfolding subscribe_text by (auto simp: Let_def granted_def [symmetric])
qed

theorem subscribe_end_to_end_witness:
  "(case Option.bind (subscribe_body 7 (reportTypeCode RWind) 2000) build_datagram of
      None \<Rightarrow> False
    | Some request \<Rightarrow> device_table (fst (handleRequest silent_os request lab_endpoint (WeatherDevice 0) 0)) (lab_endpoint, RWind)
        = Some 2000)"
  using subscribe_end_to_end [OF start_device(1) [of 0], where t = 7 and r = RWind and n = 2000 and os = silent_os
      and e = lab_endpoint and w = 0]
  by (auto simp: start_device(2) interval_ok_def MinInterval_def MaxInterval_def Let_def split: option.splits prod.splits)

section \<open>Transactions end\<close>

text \<open>The documented behaviour of the steady clock: it never goes back, and a call of \<open>poll\<close> takes time.\<close>

definition clock_ticks :: "'w mon_os \<Rightarrow> ('w \<Rightarrow> int) \<Rightarrow> bool" where
  "clock_ticks os clock \<longleftrightarrow>
     (\<forall>w. fst (mo_steady os w) = clock w \<and> clock w \<le> clock (snd (mo_steady os w)))
   \<and> (\<forall>w. clock w \<le> clock (snd (mo_stop os w)))
   \<and> (\<forall>n w. clock w \<le> clock (snd (mo_recvfrom os n w)))
   \<and> (\<forall>e s w. clock w \<le> clock (snd (mo_sendto os e s w)))
   \<and> (\<forall>t w. clock w < clock (snd (mo_poll os t w)))"

lemma clock_ticksD:
  assumes "clock_ticks os clock"
  shows "fst (mo_steady os w) = clock w" "clock w \<le> clock (snd (mo_steady os w))" "clock w \<le> clock (snd (mo_stop os w))"
    "clock w \<le> clock (snd (mo_recvfrom os n w))" "clock w < clock (snd (mo_poll os t w))"
  using assms unfolding clock_ticks_def by blast+

lemma receiveOne_ticks:
  assumes ticks: "clock_ticks os clock"
  shows "clock w < clock (snd (receiveOne os timeout expected w))"
proof -
  let ?t = "if timeout < 0 then 0 else timeout"
  obtain p w1 where p: "mo_poll os ?t w = (p, w1)" by (cases "mo_poll os ?t w")
  obtain m w2 where m: "mo_recvfrom os (MaxSentenceSize - 1) w1 = (m, w2)" by (cases "mo_recvfrom os (MaxSentenceSize - 1) w1")
  have "clock w < clock w1" "clock w1 \<le> clock w2"
    using clock_ticksD(5) [OF ticks, of w ?t] clock_ticksD(4) [OF ticks, of w1 "MaxSentenceSize - 1"] p m by simp_all
  moreover have "snd (receiveOne os timeout expected w) \<in> {w1, w2}"
    unfolding receiveOne_def Let_def p using m by (auto split: poll_result.split bool.split option.split)
  ultimately show ?thesis by auto
qed

lemma wait_ack_returns:
  assumes ticks: "clock_ticks os clock"
  shows "\<exists>r. wait_ack os transaction deadline w = Some r"
proof (induction "nat (deadline - clock w)" arbitrary: w rule: less_induct)
  case less
  obtain stop w1 where 1: "mo_stop os w = (stop, w1)" by (cases "mo_stop os w")
  obtain now w2 where 2: "mo_steady os w1 = (now, w2)" by (cases "mo_steady os w1")
  obtain now2 w3 where 3: "mo_steady os w2 = (now2, w3)" by (cases "mo_steady os w2")
  let ?remaining = "sgn (deadline - now2) * (\<bar>deadline - now2\<bar> div 10 ^ 6)"
  obtain r w4 where 4: "receiveOne os ?remaining (Some transaction) w3 = (r, w4)"
    by (cases "receiveOne os ?remaining (Some transaction) w3")
  have "clock w \<le> clock w1" "clock w1 \<le> clock w2" "clock w2 \<le> clock w3" "clock w3 < clock w4" "now = clock w1"
    using clock_ticksD(3) [OF ticks, of w] clock_ticksD(1,2) [OF ticks, of w1] clock_ticksD(2) [OF ticks, of w2]
      receiveOne_ticks [OF ticks, of w3 ?remaining "Some transaction"] 1 2 3 4 by simp_all
  then have "now < deadline \<Longrightarrow> nat (deadline - clock w4) < nat (deadline - clock w)" by simp
  then have again: "now < deadline \<Longrightarrow> \<exists>r. wait_ack os transaction deadline w4 = Some r" by (rule less.hyps)
  show ?case
    using again by (subst wait_ack.simps) (auto simp: 1 2 3 4 [simplified] Let_def split: AckResult.split)
qed

lemma attempts_return:
  assumes ticks: "clock_ticks os clock"
  shows "\<exists>ok w'. attempts os server transaction datagram left w = Some (ok, w')"
proof (induction left arbitrary: w)
  case 0
  show ?case by auto
next
  case (Suc left)
  obtain stop w1 where 1: "mo_stop os w = (stop, w1)" by (cases "mo_stop os w")
  obtain sent w2 where 2: "mo_sendto os server datagram w1 = (sent, w2)" by (cases "mo_sendto os server datagram w1")
  obtain now w3 where 3: "mo_steady os w2 = (now, w3)" by (cases "mo_steady os w2")
  obtain answer w4 where 4: "wait_ack os transaction (due_after now AckTimeout) w3 = Some (answer, w4)"
    using wait_ack_returns [OF ticks, of transaction "due_after now AckTimeout" w3] by auto
  show ?case using Suc by (cases answer) (auto simp: 1 2 3 4 Let_def)
qed

text \<open>A transaction of the monitor always ends, with success or failure, after at most three attempts of
  seven hundred milliseconds each, whatever arrives in the meantime and whichever calls fail, on a
  system whose clock runs.\<close>

theorem transact_returns:
  assumes "clock_ticks os clock"
  shows "\<exists>ok w'. transact os server transaction body w = Some (ok, w')"
  using attempts_return [OF assms] by (auto simp: transact_def split: option.split)

lemma silent_clock: "clock_ticks silent_os (\<lambda>w. w)"
  by (simp add: clock_ticks_def silent_os_def)

theorem transact_returns_witness:
  "\<exists>ok w'. transact silent_os lab_endpoint 7 ''WXUSB,7,TMP'' 0 = Some (ok, w')"
  by (rule transact_returns [OF silent_clock])

end
