(* ===== verification/Measurements.thy ===== *)
theory Measurements
  imports MessageFrame
begin

text \<open>
  The messages of Chapter 11 (\<open>WeatherObservationCodec.h\<close>) and Chapter 14
  (\<open>SynchronizedMeasurementProtocol.h\<close>) as codecs over the binary streams, and the frames the
  temperature sensor of Chapter 14 sends (\<open>temperature_tx.cpp\<close>). Doubles are bit patterns.
\<close>

section \<open>Weather observations\<close>

record WeatherObservation =
  wo_temperatureCelsius :: u64
  wo_pressureHectopascals :: u64
  wo_relativeHumidityPercent :: u64

definition writeWeatherObservation :: "wstream \<Rightarrow> WeatherObservation \<Rightarrow> wstream" where
  "writeWeatherObservation writer observation =
     writeDouble (writeDouble (writeDouble writer (wo_temperatureCelsius observation))
       (wo_pressureHectopascals observation)) (wo_relativeHumidityPercent observation)"

definition readWeatherObservation :: "rstream \<Rightarrow> WeatherObservation \<Rightarrow> rstream \<times> WeatherObservation" where
  "readWeatherObservation reader observation =
     (let (reader1, t) = readDouble reader (wo_temperatureCelsius observation);
          (reader2, p) = readDouble reader1 (wo_pressureHectopascals observation);
          (reader3, h) = readDouble reader2 (wo_relativeHumidityPercent observation)
      in (reader3, observation\<lparr>wo_temperatureCelsius := t, wo_pressureHectopascals := p, wo_relativeHumidityPercent := h\<rparr>))"

definition observation_bytes :: "Endianness \<Rightarrow> WeatherObservation \<Rightarrow> bytes" where
  "observation_bytes e v = mem_bytes e 8 (wo_temperatureCelsius v) @ mem_bytes e 8 (wo_pressureHectopascals v)
     @ mem_bytes e 8 (wo_relativeHumidityPercent v)"

definition observation_chunks :: "Endianness \<Rightarrow> WeatherObservation \<Rightarrow> bytes list" where
  "observation_chunks e v = [mem_bytes e 8 (wo_temperatureCelsius v), mem_bytes e 8 (wo_pressureHectopascals v),
     mem_bytes e 8 (wo_relativeHumidityPercent v)]"

lemma concat_observation_chunks: "concat (observation_chunks e v) = observation_bytes e v"
  and length_observation_bytes: "length (observation_bytes e v) = 24"
  by (simp_all add: observation_chunks_def observation_bytes_def)

lemma writeWeatherObservation_raws:
  "w_wf s \<Longrightarrow> writeWeatherObservation s v = foldl writeRawBytes s (observation_chunks (w_wire s) v)"
  by (simp add: writeWeatherObservation_def stream_simps observation_chunks_def)

lemma readWeatherObservation_next:
  assumes "r_wf r" "r_ok r" "unread r = observation_bytes (r_wire r) v @ rest"
  shows "readWeatherObservation r old = (adv r 24, v)"
  using assms by (simp add: readWeatherObservation_def observation_bytes_def readDouble_def stream_simps Let_def)

interpretation observation: fixed_codec writeWeatherObservation readWeatherObservation observation_bytes "\<lambda>_. True" 24
  by unfold_locales
    (simp_all add: writeWeatherObservation_raws raws_wf raws_ok_iff raws_fit readWeatherObservation_next
      concat_observation_chunks length_observation_bytes)

section \<open>Measurements\<close>

definition SynchronizedMeasurementServiceId :: u16 where "SynchronizedMeasurementServiceId = 14"
definition MsgTemperature :: u16 where "MsgTemperature = 1"

record Temperature =
  te_sequence :: u32
  te_eventTimeNs :: int
  te_degreesCelsius :: u64

record Pressure =
  pr_sequence :: u32
  pr_eventTimeNs :: int
  pr_hectopascals :: u64

datatype Measurement = MTemperature Temperature | MPressure Pressure

definition writeTemperature :: "wstream \<Rightarrow> Temperature \<Rightarrow> wstream" where
  "writeTemperature writer measurement =
     writeDouble (writeInt64 (writeUInt32 writer (te_sequence measurement)) (te_eventTimeNs measurement))
       (te_degreesCelsius measurement)"

definition readTemperature :: "rstream \<Rightarrow> Temperature \<Rightarrow> rstream \<times> Temperature" where
  "readTemperature reader measurement =
     (let (reader1, n) = readUInt32 reader (te_sequence measurement);
          (reader2, t) = readInt64 reader1 (te_eventTimeNs measurement);
          (reader3, c) = readDouble reader2 (te_degreesCelsius measurement)
      in (reader3, measurement\<lparr>te_sequence := n, te_eventTimeNs := t, te_degreesCelsius := c\<rparr>))"

definition temperature_bytes :: "Endianness \<Rightarrow> Temperature \<Rightarrow> bytes" where
  "temperature_bytes e v = mem_bytes e 4 (te_sequence v) @ mem_bytes e 8 (word_of_int (te_eventTimeNs v) :: u64)
     @ mem_bytes e 8 (te_degreesCelsius v)"

definition event_time_ok :: "Temperature \<Rightarrow> bool" where "event_time_ok v = in_signed 64 (te_eventTimeNs v)"

definition temperature_chunks :: "Endianness \<Rightarrow> Temperature \<Rightarrow> bytes list" where
  "temperature_chunks e v = [mem_bytes e 4 (te_sequence v), mem_bytes e 8 (word_of_int (te_eventTimeNs v) :: u64),
     mem_bytes e 8 (te_degreesCelsius v)]"

lemma concat_temperature_chunks: "concat (temperature_chunks e v) = temperature_bytes e v"
  and length_temperature_bytes: "length (temperature_bytes e v) = 20"
  by (simp_all add: temperature_chunks_def temperature_bytes_def)

lemma writeTemperature_raws:
  "w_wf s \<Longrightarrow> writeTemperature s v = foldl writeRawBytes s (temperature_chunks (w_wire s) v)"
  by (simp add: writeTemperature_def stream_simps temperature_chunks_def)

lemma readTemperature_next:
  assumes "r_wf r" "r_ok r" "event_time_ok v" "unread r = temperature_bytes (r_wire r) v @ rest"
  shows "readTemperature r old = (adv r 20, v)"
  using assms sint_of_signed [of "te_eventTimeNs v", where 'a = 64]
  by (simp add: readTemperature_def temperature_bytes_def event_time_ok_def readDouble_def readInt64_def stream_simps Let_def)

interpretation temperature: fixed_codec writeTemperature readTemperature temperature_bytes event_time_ok 20
  by unfold_locales
    (simp_all add: writeTemperature_raws raws_wf raws_ok_iff raws_fit readTemperature_next
      concat_temperature_chunks length_temperature_bytes)

end
