(* ===== verification/Fusion.thy ===== *)
theory Fusion
  imports Measurements BoundedQueue CommandLine "HOL-Library.Sublist"
begin

text \<open>
  Chapter 14, synchronised measurements: the temperature sensor (\<open>temperature_tx.cpp\<close>) and the fusion
  program (\<open>synchronized_fusion.cpp\<close>), whose three threads receive temperatures, measure the pressure
  and match the two by their time stamps. Steps of the threads may come in any order. A signed
  64-bit time is an integer in range; where the difference of two times leaves the range the
  behaviour of the code is undefined, and the model gives \<open>None\<close>. What the fusion thread prints is
  the list of lines it reports.
\<close>

section \<open>The command lines\<close>

text \<open>\<open>std::strtol\<close> on 64-bit numbers in base 10, with the text from \<open>*end\<close> on.\<close>

definition strtol :: "string \<Rightarrow> int \<times> string" where
  "strtol s =
     (let (negative, body) = strtoul_sign (dropWhile c_isspace s);
          digits = takeWhile is_digit body;
          value = (if negative then - int (nat_of_digits digits) else int (nat_of_digits digits))
      in if digits = [] then (0, s)
         else (max (- (2 ^ 63)) (min (2 ^ 63 - 1) value), drop (length digits) body))"

definition parsePositiveInt :: "string \<Rightarrow> int option" where
  "parsePositiveInt s =
     (let (parsed, rest) = strtol s
      in if rest = s \<or> rest \<noteq> [] \<or> parsed \<le> 0 \<or> parsed > 65535 then None else Some parsed)"

text \<open>Destination, port and period of the sensor; port, window and period of the fusion program.
  \<open>None\<close> is the exit with status 2.\<close>

definition numbers :: "string list \<Rightarrow> int list \<Rightarrow> int list option" where
  "numbers args defaults =
     (if length args > length defaults then None
      else Option.bind (those (map parsePositiveInt args)) (\<lambda>vs. Some (vs @ drop (length args) defaults)))"

definition sensor_args :: "string list \<Rightarrow> (string \<times> int list) option" where
  "sensor_args args =
     (case args of [] \<Rightarrow> Some (''192.168.56.15'', [45014, 100])
      | ip # rest \<Rightarrow> map_option (Pair ip) (numbers rest [45014, 100]))"

definition fusion_args :: "string list \<Rightarrow> int list option" where
  "fusion_args args = numbers args [45014, 40, 333]"

section \<open>The sensor\<close>

text \<open>\<open>affine a b n\<close> stands for the double \<open>a + static_cast<double>(n) * b\<close>.\<close>

definition temperature_at :: "(string \<Rightarrow> string \<Rightarrow> nat \<Rightarrow> u64) \<Rightarrow> int \<Rightarrow> u32 \<Rightarrow> Temperature" where
  "temperature_at affine now sequence =
     \<lparr>te_sequence = sequence, te_eventTimeNs = now, te_degreesCelsius = affine ''20.0'' ''0.05'' (unat (sequence mod 40))\<rparr>"

definition temperature_frame :: "Endianness \<Rightarrow> Temperature \<Rightarrow> bytes option" where
  "temperature_frame machine measurement =
     (let payloadWriter = writeTemperature (BinaryWriteStream machine (replicate 64 0) Little defaultMaxSizedField) measurement
      in if \<not> w_ok payloadWriter then None
         else let payload = take (bytesWritten payloadWriter) (w_buf payloadWriter);
                  header = defaultHeader\<lparr>payloadEndian := 0, serviceId := SynchronizedMeasurementServiceId,
                    messageType := MsgTemperature, flags := 0\<rparr>;
                  (frameStatus, frameStorage, frameSize) = writeFrameV1 machine (replicate 128 0) header payload
              in if frameStatus \<noteq> FrameOk then None else Some (take frameSize frameStorage))"

text \<open>One turn of the loop: the new sequence number and the datagram given to \<open>sendto\<close>.\<close>

definition sensor_turn :: "Endianness \<Rightarrow> (string \<Rightarrow> string \<Rightarrow> nat \<Rightarrow> u64) \<Rightarrow> int \<Rightarrow> u32 \<Rightarrow> u32 \<times> bytes option" where
  "sensor_turn machine affine now sequence =
     (let sequence1 = sequence + 1 in (sequence1, temperature_frame machine (temperature_at affine now sequence1)))"

section \<open>The threads of the fusion program\<close>

definition QueueCapacity :: nat where "QueueCapacity = 64"

record fusion_line =
  ln_temperature :: Temperature
  ln_pressure :: Pressure
  ln_deltaNs :: int
  ln_match :: bool

record fusion =
  fu_remoteQueue :: "Measurement bqueue"
  fu_localQueue :: "Measurement bqueue"
  fu_sequence :: u32
  fu_latestTemperature :: "Temperature option"
  fu_latestPressure :: "Pressure option"
  fu_draining :: bool
  fu_lines :: "fusion_line list"

definition fusion_start :: fusion where
  "fusion_start = \<lparr>fu_remoteQueue = newQueue QueueCapacity, fu_localQueue = newQueue QueueCapacity, fu_sequence = 0,
     fu_latestTemperature = None, fu_latestPressure = None, fu_draining = True, fu_lines = []\<rparr>"

definition absoluteDifference :: "int \<Rightarrow> int \<Rightarrow> int option" where
  "absoluteDifference lhs rhs =
     (let d = (if lhs \<ge> rhs then lhs - rhs else rhs - lhs) in if in_signed 64 d then Some d else None)"

text \<open>The temperature in a datagram, if the receiver accepts it.\<close>

definition receive_temperature :: "Endianness \<Rightarrow> bytes \<Rightarrow> Temperature option" where
  "receive_temperature machine datagram =
     (let (frameStatus, header, payload) = readFrameV1 machine datagram defaultHeader
      in if frameStatus \<noteq> FrameOk then None
         else if serviceId header \<noteq> SynchronizedMeasurementServiceId \<or> messageType header \<noteq> MsgTemperature then None
         else let reader = BinaryReadStream machine payload (payloadEndianFromHeader (payloadEndian header)) defaultMaxSizedField;
                  (reader', temperature) = readTemperature reader
                    \<lparr>te_sequence = 0, te_eventTimeNs = 0, te_degreesCelsius = 0\<rparr>
              in if \<not> r_ok reader' \<or> r_remaining reader' \<noteq> 0 then None else Some temperature)"

text \<open>\<open>recvfrom\<close> fills a buffer of 512 bytes; nothing is received from an empty datagram.\<close>

definition receiver_turn :: "Endianness \<Rightarrow> bytes \<Rightarrow> fusion \<Rightarrow> fusion" where
  "receiver_turn machine datagram s =
     (let received = take 512 datagram
      in if received = [] then s
         else case receive_temperature machine received of
                None \<Rightarrow> s
              | Some t \<Rightarrow> s\<lparr>fu_remoteQueue := fst (bq_tryPush (fu_remoteQueue s) (MTemperature t))\<rparr>)"

definition pressure_at :: "(string \<Rightarrow> string \<Rightarrow> nat \<Rightarrow> u64) \<Rightarrow> int \<Rightarrow> u32 \<Rightarrow> Pressure" where
  "pressure_at affine now sequence =
     \<lparr>pr_sequence = sequence, pr_eventTimeNs = now, pr_hectopascals = affine ''1012.0'' ''0.10'' (unat (sequence mod 30))\<rparr>"

definition acquisition_turn :: "(string \<Rightarrow> string \<Rightarrow> nat \<Rightarrow> u64) \<Rightarrow> int \<Rightarrow> fusion \<Rightarrow> fusion" where
  "acquisition_turn affine now s =
     (let sequence = fu_sequence s + 1
      in s\<lparr>fu_sequence := sequence,
           fu_localQueue := fst (bq_tryPush (fu_localQueue s) (MPressure (pressure_at affine now sequence)))\<rparr>)"

text \<open>A step of the fusion thread: one turn of the inner loop, or what follows it.\<close>

definition drain_turn :: "fusion \<Rightarrow> fusion" where
  "drain_turn s =
     (case bq_tryPop (fu_remoteQueue s) of
        (q, None) \<Rightarrow> s\<lparr>fu_remoteQueue := q, fu_draining := False\<rparr>
      | (q, Some item) \<Rightarrow>
          s\<lparr>fu_remoteQueue := q, fu_latestTemperature :=
              (case item of MTemperature t \<Rightarrow> Some t | MPressure _ \<Rightarrow> fu_latestTemperature s)\<rparr>)"

definition match_turn :: "int \<Rightarrow> fusion \<Rightarrow> fusion option" where
  "match_turn matchWindowMs s =
     (let matchWindowNs = matchWindowMs * 1000000
      in case bq_tryPop (fu_localQueue s) of
           (q, None) \<Rightarrow> Some (s\<lparr>fu_localQueue := q, fu_draining := True\<rparr>)
         | (q, Some (MTemperature _)) \<Rightarrow> Some (s\<lparr>fu_localQueue := q, fu_draining := True\<rparr>)
         | (q, Some (MPressure p)) \<Rightarrow>
             (let s1 = s\<lparr>fu_localQueue := q, fu_latestPressure := Some p, fu_draining := True\<rparr>
              in case fu_latestTemperature s1 of
                   None \<Rightarrow> Some s1
                 | Some t \<Rightarrow>
                     (case absoluteDifference (te_eventTimeNs t) (pr_eventTimeNs p) of
                        None \<Rightarrow> None
                      | Some deltaNs \<Rightarrow> Some (s1\<lparr>fu_lines := fu_lines s1 @
                          [\<lparr>ln_temperature = t, ln_pressure = p, ln_deltaNs = deltaNs, ln_match = (deltaNs \<le> matchWindowNs)\<rparr>]\<rparr>))))"

definition fusion_turn :: "int \<Rightarrow> fusion \<Rightarrow> fusion option" where
  "fusion_turn matchWindowMs s = (if fu_draining s then Some (drain_turn s) else match_turn matchWindowMs s)"

section \<open>Runs\<close>

definition newly_received :: "Endianness \<Rightarrow> bytes \<Rightarrow> fusion \<Rightarrow> Temperature list" where
  "newly_received machine datagram s =
     (if take 512 datagram = [] then []
      else case receive_temperature machine (take 512 datagram) of
             None \<Rightarrow> []
           | Some t \<Rightarrow> if snd (bq_tryPush (fu_remoteQueue s) (MTemperature t)) then [t] else [])"

definition newly_measured :: "(string \<Rightarrow> string \<Rightarrow> nat \<Rightarrow> u64) \<Rightarrow> int \<Rightarrow> fusion \<Rightarrow> Pressure list" where
  "newly_measured affine now s =
     (let p = pressure_at affine now (fu_sequence s + 1)
      in if snd (bq_tryPush (fu_localQueue s) (MPressure p)) then [p] else [])"

text \<open>A run, with the temperatures and the pressures that went into the two queues so far.\<close>

inductive fusion_reach ::
  "Endianness \<Rightarrow> (string \<Rightarrow> string \<Rightarrow> nat \<Rightarrow> u64) \<Rightarrow> int \<Rightarrow> Temperature list \<Rightarrow> Pressure list \<Rightarrow> fusion \<Rightarrow> bool"
  for machine affine window where
  starts: "fusion_reach machine affine window [] [] fusion_start"
| receives: "fusion_reach machine affine window ts ps s \<Longrightarrow>
     fusion_reach machine affine window (ts @ newly_received machine datagram s) ps (receiver_turn machine datagram s)"
| measures: "fusion_reach machine affine window ts ps s \<Longrightarrow>
     fusion_reach machine affine window ts (ps @ newly_measured affine now s) (acquisition_turn affine now s)"
| fuses: "fusion_reach machine affine window ts ps s \<Longrightarrow> fusion_turn window s = Some s' \<Longrightarrow>
     fusion_reach machine affine window ts ps s'"

section \<open>The queues\<close>

definition queue_ok :: "'a bqueue \<Rightarrow> bool" where
  "queue_ok q \<longleftrightarrow> bq_inv q \<and> bq_capacity q = QueueCapacity \<and> \<not> mStopped q"

lemma queue_ok_push:
  assumes "queue_ok q" "bq_tryPush q x = (q', ok)"
  shows "queue_ok q' \<and> bq_abs q' = bq_abs q @ (if ok then [x] else [])"
  using assms ring.put_accept [of q x] ring.put_reject [of q x]
  by (cases "length (bq_abs q) = bq_capacity q") (auto simp: queue_ok_def)

lemma queue_ok_pop:
  assumes "queue_ok q" "bq_tryPop q = (q', v)"
  shows "queue_ok q' \<and> bq_abs q = (case v of None \<Rightarrow> [] | Some x \<Rightarrow> [x]) @ bq_abs q' \<and> (v = None \<longrightarrow> bq_abs q' = [])"
proof (cases "bq_abs q")
  case Nil
  then show ?thesis using assms ring.get_none [of q] by (auto simp: queue_ok_def)
next
  case (Cons y ys)
  then show ?thesis using assms ring.get_some [of q y ys] by (auto simp: queue_ok_def)
qed

lemma queue_ok_new: "queue_ok (newQueue QueueCapacity)"
  by (simp add: queue_ok_def new_inv QueueCapacity_def) (simp add: newQueue_def bq_capacity_def)

section \<open>Invariant\<close>

text \<open>What has been taken from the queues, and the lines in terms of it; \<open>ks\<close> are the places of the
  reported temperatures among those received.\<close>

definition lines_fit :: "int \<Rightarrow> Temperature list \<Rightarrow> Pressure list \<Rightarrow> nat list \<Rightarrow> fusion_line list \<Rightarrow> bool" where
  "lines_fit window ts ps ks lines \<longleftrightarrow>
     map ln_temperature lines = map ((!) ts) ks \<and> sorted ks \<and> (\<forall>k \<in> set ks. k < length ts)
   \<and> subseq (map ln_pressure lines) ps
   \<and> (\<forall>l \<in> set lines. ln_deltaNs l = \<bar>te_eventTimeNs (ln_temperature l) - pr_eventTimeNs (ln_pressure l)\<bar>
        \<and> ln_match l = (ln_deltaNs l \<le> window * 1000000))"

definition fusion_inv :: "int \<Rightarrow> Temperature list \<Rightarrow> Pressure list \<Rightarrow> fusion \<Rightarrow> bool" where
  "fusion_inv window ts ps s \<longleftrightarrow> queue_ok (fu_remoteQueue s) \<and> queue_ok (fu_localQueue s)
   \<and> (\<exists>ts1 ts2 ps1 ps2 ks. ts = ts1 @ ts2 \<and> ps = ps1 @ ps2
        \<and> bq_abs (fu_remoteQueue s) = map MTemperature ts2 \<and> bq_abs (fu_localQueue s) = map MPressure ps2
        \<and> fu_latestTemperature s = (if ts1 = [] then None else Some (last ts1))
        \<and> lines_fit window ts1 ps1 ks (fu_lines s))"

lemma lines_fit_more_temperatures:
  assumes "lines_fit window ts ps ks lines"
  shows "lines_fit window (ts @ ts') ps ks lines"
proof -
  have "map ((!) (ts @ ts')) ks = map ((!) ts) ks" using assms by (auto simp: lines_fit_def nth_append)
  then show ?thesis using assms by (auto simp: lines_fit_def)
qed

lemma lines_fit_more_pressures: "lines_fit window ts ps ks lines \<Longrightarrow> lines_fit window ts (ps @ ps') ks lines"
  by (auto simp: lines_fit_def intro: subseq_rev_drop_many)

lemma lines_fit_line:
  assumes "lines_fit window ts ps ks lines" "ts \<noteq> []"
    "d = \<bar>te_eventTimeNs (last ts) - pr_eventTimeNs p\<bar>"
  shows "lines_fit window ts (ps @ [p]) (ks @ [length ts - 1])
     (lines @ [\<lparr>ln_temperature = last ts, ln_pressure = p, ln_deltaNs = d, ln_match = (d \<le> window * 1000000)\<rparr>])"
proof -
  have "subseq (map ln_pressure lines @ [p]) (ps @ [p])"
    using assms(1) by (simp add: lines_fit_def)
  moreover have "sorted (ks @ [length ts - 1])" using assms(1) by (fastforce simp: lines_fit_def sorted_append)
  ultimately show ?thesis using assms by (auto simp: lines_fit_def last_conv_nth)
qed

lemma absoluteDifference_Some: "absoluteDifference a b = Some d \<Longrightarrow> d = \<bar>a - b\<bar>"
  by (auto simp: absoluteDifference_def Let_def split: if_splits)

lemma fusion_inv_start: "fusion_inv window [] [] fusion_start"
  unfolding fusion_inv_def
  by (intro conjI exI [of _ "[]"])
    (simp_all add: fusion_start_def queue_ok_new lines_fit_def new_abs)

lemma fusion_inv_push_remote:
  assumes "fusion_inv window ts ps s" "bq_tryPush (fu_remoteQueue s) (MTemperature t) = (q, ok)"
  shows "fusion_inv window (ts @ (if ok then [t] else [])) ps (s\<lparr>fu_remoteQueue := q\<rparr>)"
proof -
  obtain ts1 ts2 ps1 ps2 ks where "ts = ts1 @ ts2" "ps = ps1 @ ps2"
    "bq_abs (fu_remoteQueue s) = map MTemperature ts2" "bq_abs (fu_localQueue s) = map MPressure ps2"
    "fu_latestTemperature s = (if ts1 = [] then None else Some (last ts1))"
    "lines_fit window ts1 ps1 ks (fu_lines s)" "queue_ok (fu_remoteQueue s)" "queue_ok (fu_localQueue s)"
    using assms(1) unfolding fusion_inv_def by blast
  then show ?thesis
    using queue_ok_push [OF _ assms(2)] unfolding fusion_inv_def
    by (intro conjI exI [of _ ts1] exI [of _ "ts2 @ (if ok then [t] else [])"] exI [of _ ps1] exI [of _ ps2]
      exI [of _ ks]) simp_all
qed

lemma fusion_inv_push_local:
  assumes "fusion_inv window ts ps s" "bq_tryPush (fu_localQueue s) (MPressure p) = (q, ok)"
  shows "fusion_inv window ts (ps @ (if ok then [p] else [])) (s\<lparr>fu_sequence := n, fu_localQueue := q\<rparr>)"
proof -
  obtain ts1 ts2 ps1 ps2 ks where "ts = ts1 @ ts2" "ps = ps1 @ ps2"
    "bq_abs (fu_remoteQueue s) = map MTemperature ts2" "bq_abs (fu_localQueue s) = map MPressure ps2"
    "fu_latestTemperature s = (if ts1 = [] then None else Some (last ts1))"
    "lines_fit window ts1 ps1 ks (fu_lines s)" "queue_ok (fu_remoteQueue s)" "queue_ok (fu_localQueue s)"
    using assms(1) unfolding fusion_inv_def by blast
  then show ?thesis
    using queue_ok_push [OF _ assms(2)] unfolding fusion_inv_def
    by (intro conjI exI [of _ ts1] exI [of _ ts2] exI [of _ ps1] exI [of _ "ps2 @ (if ok then [p] else [])"]
      exI [of _ ks]) simp_all
qed

lemma fusion_inv_receives:
  assumes "fusion_inv window ts ps s"
  shows "fusion_inv window (ts @ newly_received machine datagram s) ps (receiver_turn machine datagram s)"
proof (cases "take 512 datagram = [] \<or> receive_temperature machine (take 512 datagram) = None")
  case True
  then show ?thesis using assms by (auto simp: newly_received_def receiver_turn_def Let_def)
next
  case False
  then obtain t where "receive_temperature machine (take 512 datagram) = Some t" by auto
  moreover obtain q ok where q: "bq_tryPush (fu_remoteQueue s) (MTemperature t) = (q, ok)" by (meson surj_pair)
  ultimately show ?thesis
    using False fusion_inv_push_remote [OF assms q]
    by (cases ok) (simp_all add: newly_received_def receiver_turn_def Let_def)
qed

lemma fusion_inv_measures:
  assumes "fusion_inv window ts ps s"
  shows "fusion_inv window ts (ps @ newly_measured affine now s) (acquisition_turn affine now s)"
proof -
  obtain q ok where q: "bq_tryPush (fu_localQueue s) (MPressure (pressure_at affine now (fu_sequence s + 1))) = (q, ok)"
    by (meson surj_pair)
  show ?thesis
    using fusion_inv_push_local [OF assms q]
    by (cases ok) (simp_all add: newly_measured_def acquisition_turn_def Let_def q)
qed

lemma fusion_inv_drain:
  assumes "fusion_inv window ts ps s"
  shows "fusion_inv window ts ps (drain_turn s)"
proof -
  obtain ts1 ts2 ps1 ps2 ks where i: "ts = ts1 @ ts2" "ps = ps1 @ ps2"
    "bq_abs (fu_remoteQueue s) = map MTemperature ts2" "bq_abs (fu_localQueue s) = map MPressure ps2"
    "fu_latestTemperature s = (if ts1 = [] then None else Some (last ts1))"
    "lines_fit window ts1 ps1 ks (fu_lines s)" "queue_ok (fu_remoteQueue s)" "queue_ok (fu_localQueue s)"
    using assms unfolding fusion_inv_def by blast
  obtain q v where pop: "bq_tryPop (fu_remoteQueue s) = (q, v)" by (meson surj_pair)
  note q = queue_ok_pop [OF i(7) pop]
  show ?thesis
  proof (cases v)
    case None
    then show ?thesis
      using i q pop unfolding fusion_inv_def
      by (intro conjI exI [of _ ts1] exI [of _ ts2] exI [of _ ps1] exI [of _ ps2] exI [of _ ks])
        (simp_all add: drain_turn_def)
  next
    case (Some item)
    then obtain t ts3 where t: "ts2 = t # ts3" "item = MTemperature t" "bq_abs q = map MTemperature ts3"
      using i(3) q by (cases ts2) auto
    then show ?thesis
      using i q pop Some lines_fit_more_temperatures [OF i(6), of "[t]"] unfolding fusion_inv_def
      by (intro conjI exI [of _ "ts1 @ [t]"] exI [of _ ts3] exI [of _ ps1] exI [of _ ps2] exI [of _ ks])
        (simp_all add: drain_turn_def)
  qed
qed

lemma fusion_inv_match:
  assumes "fusion_inv window ts ps s" "match_turn window s = Some s'"
  shows "fusion_inv window ts ps s'"
proof -
  obtain ts1 ts2 ps1 ps2 ks where i: "ts = ts1 @ ts2" "ps = ps1 @ ps2"
    "bq_abs (fu_remoteQueue s) = map MTemperature ts2" "bq_abs (fu_localQueue s) = map MPressure ps2"
    "fu_latestTemperature s = (if ts1 = [] then None else Some (last ts1))"
    "lines_fit window ts1 ps1 ks (fu_lines s)" "queue_ok (fu_remoteQueue s)" "queue_ok (fu_localQueue s)"
    using assms(1) unfolding fusion_inv_def by blast
  obtain q v where pop: "bq_tryPop (fu_localQueue s) = (q, v)" by (meson surj_pair)
  note q = queue_ok_pop [OF i(8) pop]
  show ?thesis
  proof (cases v)
    case None
    then have "s' = s\<lparr>fu_localQueue := q, fu_draining := True\<rparr>" using assms(2) pop by (simp add: match_turn_def)
    then show ?thesis
      using i q None unfolding fusion_inv_def
      by (intro conjI exI [of _ ts1] exI [of _ ts2] exI [of _ ps1] exI [of _ ps2] exI [of _ ks]) simp_all
  next
    case (Some item)
    then obtain p ps3 where p: "ps2 = p # ps3" "item = MPressure p" "bq_abs q = map MPressure ps3"
      using i(4) q by (cases ps2) auto
    have fit: "lines_fit window ts1 (ps1 @ [p]) ks (fu_lines s)" by (rule lines_fit_more_pressures [OF i(6)])
    show ?thesis
    proof (cases "ts1 = []")
      case True
      then have "s' = s\<lparr>fu_localQueue := q, fu_latestPressure := Some p, fu_draining := True\<rparr>"
        using assms(2) pop Some p(2) i(5) by (simp add: match_turn_def Let_def)
      then show ?thesis
        using i q p fit True unfolding fusion_inv_def
        by (intro conjI exI [of _ ts1] exI [of _ ts2] exI [of _ "ps1 @ [p]"] exI [of _ ps3] exI [of _ ks]) simp_all
    next
      case False
      then obtain d where d: "absoluteDifference (te_eventTimeNs (last ts1)) (pr_eventTimeNs p) = Some d"
        "s' = s\<lparr>fu_localQueue := q, fu_latestPressure := Some p, fu_draining := True, fu_lines := fu_lines s @
          [\<lparr>ln_temperature = last ts1, ln_pressure = p, ln_deltaNs = d, ln_match = (d \<le> window * 1000000)\<rparr>]\<rparr>"
        using assms(2) pop Some p(2) i(5)
        by (auto simp: match_turn_def Let_def split: option.splits)
      show ?thesis
        using i q p d(2) False lines_fit_line [OF i(6) False absoluteDifference_Some [OF d(1)]]
        unfolding fusion_inv_def
        by (intro conjI exI [of _ ts1] exI [of _ ts2] exI [of _ "ps1 @ [p]"] exI [of _ ps3]
          exI [of _ "ks @ [length ts1 - 1]"]) simp_all
    qed
  qed
qed

lemma fusion_reach_inv: "fusion_reach machine affine window ts ps s \<Longrightarrow> fusion_inv window ts ps s"
proof (induction rule: fusion_reach.induct)
  case (fuses ts ps s s')
  then show ?case
    by (auto simp: fusion_turn_def split: if_splits intro: fusion_inv_drain fusion_inv_match)
qed (auto intro: fusion_inv_start fusion_inv_receives fusion_inv_measures)

text \<open>The only step that is not defined: the difference of the two times leaves the 64-bit range.\<close>

lemma fusion_turn_None:
  assumes "fusion_turn window s = None"
  shows "\<exists>t p q. fu_latestTemperature s = Some t \<and> bq_tryPop (fu_localQueue s) = (q, Some (MPressure p))
    \<and> absoluteDifference (te_eventTimeNs t) (pr_eventTimeNs p) = None"
  using assms
  by (simp add: fusion_turn_def match_turn_def Let_def split: if_splits prod.splits option.splits Measurement.splits)

section \<open>The frames of the sensor\<close>

definition temperature_header :: MessageHeaderV1 where
  "temperature_header = defaultHeader\<lparr>payloadEndian := 0, serviceId := SynchronizedMeasurementServiceId,
     messageType := MsgTemperature, flags := 0\<rparr>"

lemma temperature_header_ok: "hdr_fields_ok (temperature_header\<lparr>headerSize := 28\<rparr>)"
  by (simp add: hdr_fields_ok_def temperature_header_def defaultHeader_def isValidPayloadEndian_def)

lemma temperature_header_fields:
  "serviceId (finalizeCrcs m temperature_header p) = SynchronizedMeasurementServiceId"
  "messageType (finalizeCrcs m temperature_header p) = MsgTemperature"
  "payloadEndian (finalizeCrcs m temperature_header p) = 0"
  by (simp_all add: finalizeCrcs_fields temperature_header_def)

lemma temperature_frame_eq:
  "temperature_frame m v = Some (built_frame m temperature_header (temperature_bytes Little v))"
proof -
  let ?s = "BinaryWriteStream m (replicate 64 0) Little defaultMaxSizedField"
  have ok: "w_ok (writeTemperature ?s v)" by (rule temperature.put_fits) auto
  then have "take (bytesWritten (writeTemperature ?s v)) (w_buf (writeTemperature ?s v)) = temperature_bytes Little v"
    using temperature.put_written [of ?s v] by (simp add: written_def bytesWritten_def)
  then show ?thesis
    using ok writeFrameV1_built [of "temperature_bytes Little v" 128 m temperature_header] length_temperature_bytes
    by (auto simp: temperature_frame_def temperature_header_def UInt32Max_def Let_def split: prod.splits)
qed

lemma receive_temperature_built:
  assumes "event_time_ok v"
  shows "receive_temperature m' (built_frame m temperature_header (temperature_bytes Little v)) = Some v"
proof -
  let ?r = "BinaryReadStream m' (temperature_bytes Little v) Little defaultMaxSizedField"
  have "readTemperature ?r old = (adv ?r 20, v)" for old
    using assms by (intro readTemperature_next [where rest = "[]"]) simp_all
  moreover have "readFrameV1 m' (built_frame m temperature_header (temperature_bytes Little v)) defaultHeader
      = (FrameOk, finalizeCrcs m temperature_header (temperature_bytes Little v), temperature_bytes Little v)"
    by (rule readFrameV1_built [OF _ temperature_header_ok]) (simp add: length_temperature_bytes UInt32Max_def)
  ultimately show ?thesis
    by (simp add: receive_temperature_def temperature_header_fields payloadEndianFromHeader_def Let_def
        r_remaining_def length_temperature_bytes)
qed

lemma length_temperature_frame: "length (built_frame m temperature_header (temperature_bytes Little v)) = 48"
  by (simp add: built_frame_def length_temperature_bytes)

section \<open>Properties\<close>

text \<open>From the sensor to the fusion thread's queue. For every measurement with a 64-bit time the
sensor builds a frame; the receiver, on a machine of any byte order, accepts it, recovers the
sequence number, the time and the bits of the temperature, and has them at the end of its queue
unless the queue holds 64 measurements already, in which case this one (the newest) is dropped and
the queue is as it was.\<close>

theorem temperature_delivered:
  assumes "event_time_ok measurement" "queue_ok (fu_remoteQueue s)"
  shows "\<exists>datagram. temperature_frame machine measurement = Some datagram
    \<and> bq_abs (fu_remoteQueue (receiver_turn machine' datagram s))
        = bq_abs (fu_remoteQueue s) @ (if length (bq_abs (fu_remoteQueue s)) < 64 then [MTemperature measurement] else [])"
proof -
  let ?d = "built_frame machine temperature_header (temperature_bytes Little measurement)"
  have d: "take 512 ?d = ?d" "?d \<noteq> []" using length_temperature_frame [of machine measurement] by auto
  obtain q ok where q: "bq_tryPush (fu_remoteQueue s) (MTemperature measurement) = (q, ok)" by (meson surj_pair)
  have "ok = (length (bq_abs (fu_remoteQueue s)) < 64)"
    using assms(2) q ring.put_accept [of "fu_remoteQueue s" "MTemperature measurement"]
      ring.put_reject [of "fu_remoteQueue s" "MTemperature measurement"] ring.bounded [of "fu_remoteQueue s"]
    by (cases "length (bq_abs (fu_remoteQueue s)) = 64") (auto simp: queue_ok_def QueueCapacity_def)
  then have "bq_abs (fu_remoteQueue (receiver_turn machine' ?d s))
      = bq_abs (fu_remoteQueue s) @ (if length (bq_abs (fu_remoteQueue s)) < 64 then [MTemperature measurement] else [])"
    using d q queue_ok_push [OF assms(2) q] receive_temperature_built [OF assms(1)] by (simp add: receiver_turn_def)
  then show ?thesis using temperature_frame_eq by blast
qed

theorem temperature_delivered_witness:
  "\<exists>datagram. temperature_frame Little \<lparr>te_sequence = 7, te_eventTimeNs = -5, te_degreesCelsius = 3\<rparr> = Some datagram
    \<and> bq_abs (fu_remoteQueue (receiver_turn Big datagram fusion_start))
        = [MTemperature \<lparr>te_sequence = 7, te_eventTimeNs = -5, te_degreesCelsius = 3\<rparr>]"
  using temperature_delivered [of "\<lparr>te_sequence = 7, te_eventTimeNs = -5, te_degreesCelsius = 3\<rparr>" fusion_start Little Big]
  by (simp add: event_time_ok_def in_signed_def queue_ok_new fusion_start_def new_abs)

text \<open>C8: What the fusion program reports. In every order of the steps of its three threads, and
whatever datagrams arrive: each line pairs a pressure with a temperature that was received before;
the pressures appear in the order they were measured, none twice; the temperatures never go back to
an earlier one of the queue; the difference shown is the distance of the two times, and MATCH stands
exactly where it is within the window. The temperature kept for the next line is the newest one taken
from the queue, which holds those received after it. Neither queue ever holds more than 64
measurements.\<close>

theorem fusion_reports:
  assumes "fusion_reach machine affine window ts ps s"
  shows "(\<exists>ks. map ln_temperature (fu_lines s) = map ((!) ts) ks \<and> sorted ks \<and> (\<forall>k \<in> set ks. k < length ts))
    \<and> subseq (map ln_pressure (fu_lines s)) ps
    \<and> (\<forall>l \<in> set (fu_lines s).
         ln_deltaNs l = \<bar>te_eventTimeNs (ln_temperature l) - pr_eventTimeNs (ln_pressure l)\<bar>
       \<and> (ln_match l \<longleftrightarrow> ln_deltaNs l \<le> window * 1000000))
    \<and> (\<exists>n. bq_abs (fu_remoteQueue s) = map MTemperature (drop n ts)
         \<and> fu_latestTemperature s = (if n = 0 then None else Some (ts ! (n - 1))))
    \<and> length (bq_abs (fu_remoteQueue s)) \<le> 64 \<and> length (bq_abs (fu_localQueue s)) \<le> 64"
proof -
  obtain ts1 ts2 ps1 ps2 ks where i: "ts = ts1 @ ts2" "ps = ps1 @ ps2" "lines_fit window ts1 ps1 ks (fu_lines s)"
    "queue_ok (fu_remoteQueue s)" "queue_ok (fu_localQueue s)" "bq_abs (fu_remoteQueue s) = map MTemperature ts2"
    "fu_latestTemperature s = (if ts1 = [] then None else Some (last ts1))"
    using fusion_reach_inv [OF assms] unfolding fusion_inv_def by blast
  have "lines_fit window ts ps ks (fu_lines s)"
    unfolding i by (intro lines_fit_more_temperatures lines_fit_more_pressures i)
  then have fit: "map ln_temperature (fu_lines s) = map ((!) ts) ks" "sorted ks" "\<forall>k \<in> set ks. k < length ts"
    "subseq (map ln_pressure (fu_lines s)) ps"
    "\<forall>l \<in> set (fu_lines s). ln_deltaNs l = \<bar>te_eventTimeNs (ln_temperature l) - pr_eventTimeNs (ln_pressure l)\<bar>
       \<and> (ln_match l \<longleftrightarrow> ln_deltaNs l \<le> window * 1000000)"
    unfolding lines_fit_def by blast+
  have latest: "bq_abs (fu_remoteQueue s) = map MTemperature (drop (length ts1) ts)
      \<and> fu_latestTemperature s = (if length ts1 = 0 then None else Some (ts ! (length ts1 - 1)))"
    using i(1,6,7) by (auto simp: last_conv_nth nth_append)
  have "length (bq_abs (fu_remoteQueue s)) \<le> 64 \<and> length (bq_abs (fu_localQueue s)) \<le> 64"
    using i(4,5) ring.bounded [of "fu_remoteQueue s"] ring.bounded [of "fu_localQueue s"]
    by (simp add: queue_ok_def QueueCapacity_def)
  then show ?thesis
    using fit by (intro conjI exI [of _ ks] exI [of _ "length ts1"] latest [THEN conjunct1] latest [THEN conjunct2]) blast+
qed

text \<open>A run: a temperature arrives, a pressure is measured 30 ms later, the fusion thread reports them.\<close>

definition sample_temperature :: Temperature where
  "sample_temperature = \<lparr>te_sequence = 1, te_eventTimeNs = 5000000000, te_degreesCelsius = 3\<rparr>"

definition sample_fused :: fusion where
  "sample_fused = acquisition_turn (\<lambda>_ _ _. 9) 5030000000
     (fusion_start\<lparr>fu_remoteQueue := fst (bq_tryPush (newQueue QueueCapacity) (MTemperature sample_temperature))\<rparr>)"

lemma sample_fused_reached:
  "fusion_reach Little (\<lambda>_ _ _. 9) 40 [sample_temperature]
     [\<lparr>pr_sequence = 1, pr_eventTimeNs = 5030000000, pr_hectopascals = 9\<rparr>] sample_fused"
proof -
  let ?d = "built_frame Little temperature_header (temperature_bytes Little sample_temperature)"
  let ?s = "fusion_start\<lparr>fu_remoteQueue := fst (bq_tryPush (newQueue QueueCapacity) (MTemperature sample_temperature))\<rparr>"
  have d: "take 512 ?d = ?d" "?d \<noteq> []" using length_temperature_frame [of Little sample_temperature] by auto
  have ok: "event_time_ok sample_temperature" by (simp add: sample_temperature_def event_time_ok_def in_signed_def)
  have a: "snd (bq_tryPush (newQueue QueueCapacity) (MTemperature sample_temperature))" by code_simp
  have b: "newly_measured (\<lambda>_ _ _. 9) 5030000000 ?s = [\<lparr>pr_sequence = 1, pr_eventTimeNs = 5030000000, pr_hectopascals = 9\<rparr>]"
    by code_simp
  have c: "receiver_turn Little ?d fusion_start = ?s"
    using d receive_temperature_built [OF ok] by (simp add: receiver_turn_def fusion_start_def)
  have e: "newly_received Little ?d fusion_start = [sample_temperature]"
    using d a receive_temperature_built [OF ok] by (simp add: newly_received_def fusion_start_def)
  show ?thesis
    using measures [OF receives [OF starts, of Little "\<lambda>_ _ _. 9" 40 ?d], of 5030000000]
    unfolding c e b sample_fused_def by simp
qed

lemma sample_fused_runs:
  "map_option fu_lines (Option.bind (Option.bind (fusion_turn 40 sample_fused) (fusion_turn 40)) (\<lambda>a. Option.bind (fusion_turn 40 a) Some))
     = Some [\<lparr>ln_temperature = sample_temperature,
        ln_pressure = \<lparr>pr_sequence = 1, pr_eventTimeNs = 5030000000, pr_hectopascals = 9\<rparr>, ln_deltaNs = 30000000, ln_match = True\<rparr>]"
  by code_simp

theorem fusion_reports_witness:
  "\<exists>(s :: fusion) l. fu_lines s = [l] \<and> ln_match l \<and> ln_deltaNs l = 30000000 \<and> ln_deltaNs l \<le> 40 * 1000000
    \<and> ln_deltaNs l = \<bar>te_eventTimeNs (ln_temperature l) - pr_eventTimeNs (ln_pressure l)\<bar>"
proof -
  obtain s1 s2 s l where s: "fusion_turn 40 sample_fused = Some s1" "fusion_turn 40 s1 = Some s2" "fusion_turn 40 s2 = Some s"
    "fu_lines s = [l]" "ln_match l" "ln_deltaNs l = 30000000"
    using sample_fused_runs by (auto simp: bind_eq_Some_conv)
  show ?thesis
    using fusion_reports [OF fuses [OF fuses [OF fuses [OF sample_fused_reached s(1)] s(2)] s(3)]] s(4-6)
    by - (rule exI [of _ s], rule exI [of _ l], simp)
qed

end
