(* ===== verification/AnomalyDetection.thy ===== *)
theory AnomalyDetection
  imports Prelude
begin

text \<open>
  Chapter 19, anomaly detection (\<open>AnomalyDetection.h\<close>): the four checkers, the node that composes them
  in front of a consumer, the source in front of the node and the readings of the demonstration. The
  measured type of the template, which the demonstration instantiates with \<open>double\<close>, is a type
  variable; its comparisons and the test of a rate are given by a record. Times are nanoseconds of the
  steady clock.
\<close>

section \<open>Qualities\<close>

datatype MeasurementQuality = Good | Suspect | Invalid

text \<open>The order of the enumeration, from the best to the worst.\<close>

fun quality_rank :: "MeasurementQuality \<Rightarrow> nat" where
  "quality_rank Good = 0"
| "quality_rank Suspect = 1"
| "quality_rank Invalid = 2"

lemma quality_rank_inject: "quality_rank a = quality_rank b \<longleftrightarrow> a = b"
  by (cases a; cases b) simp_all

instantiation MeasurementQuality :: linorder
begin

definition less_eq_MeasurementQuality :: "MeasurementQuality \<Rightarrow> MeasurementQuality \<Rightarrow> bool" where
  "a \<le> b \<longleftrightarrow> quality_rank a \<le> quality_rank b"

definition less_MeasurementQuality :: "MeasurementQuality \<Rightarrow> MeasurementQuality \<Rightarrow> bool" where
  "a < b \<longleftrightarrow> quality_rank a < quality_rank b"

instance
  by standard (auto simp: less_eq_MeasurementQuality_def less_MeasurementQuality_def quality_rank_inject)

end

lemma quality_order [simp]: "Good \<le> q" "q \<le> Invalid" "Suspect \<le> q \<longleftrightarrow> q \<noteq> Good" "q \<le> Suspect \<longleftrightarrow> q \<noteq> Invalid"
  by (cases q; simp add: less_eq_MeasurementQuality_def)+

lemma max_Suspect: "max q Suspect = (if q = Good then Suspect else q)"
  by (cases q) (simp_all add: max_def less_eq_MeasurementQuality_def)

record 'v QualifiedMeasurement =
  qm_measurement :: 'v
  qm_quality :: MeasurementQuality

section \<open>The checkers\<close>

text \<open>\<open>>=\<close> and \<open>==\<close> of the measured type, and \<open>ar_rate_within limit a b ns\<close>, which stands for
  \<open>|a - b| / (ns / 10\<^sup>9) <= limit\<close> in double arithmetic.\<close>

record 'v arithmetic =
  ar_ge :: "'v \<Rightarrow> 'v \<Rightarrow> bool"
  ar_eq :: "'v \<Rightarrow> 'v \<Rightarrow> bool"
  ar_rate_within :: "u64 \<Rightarrow> 'v \<Rightarrow> 'v \<Rightarrow> int \<Rightarrow> bool"

record 'v RangeFilter =
  rf_lower :: 'v
  rf_upper :: 'v

definition inRange :: "'v arithmetic \<Rightarrow> 'v RangeFilter \<Rightarrow> 'v \<Rightarrow> bool" where
  "inRange ar f v = (ar_ge ar v (rf_lower f) \<and> ar_ge ar (rf_upper f) v)"

record 'v RateOfChangeChecker =
  rc_maximumRate :: u64
  rc_previousValue :: "'v option"
  rc_previousTimestamp :: "int option"

definition changeNormal :: "'v arithmetic \<Rightarrow> 'v RateOfChangeChecker \<Rightarrow> 'v \<Rightarrow> int \<Rightarrow> 'v RateOfChangeChecker \<times> bool" where
  "changeNormal ar c newValue timestamp =
     (let updated = c\<lparr>rc_previousValue := Some newValue, rc_previousTimestamp := Some timestamp\<rparr>
      in case rc_previousValue c of
           None \<Rightarrow> (updated, True)
         | Some previous \<Rightarrow>
             (let elapsed = timestamp - the (rc_previousTimestamp c)
              in if elapsed \<le> 0 then (c, False)
                 else (updated, ar_rate_within ar (rc_maximumRate c) newValue previous elapsed)))"

record 'v StuckSensorChecker =
  ss_stuckThreshold :: nat
  ss_identicalCount :: nat
  ss_previousValue :: "'v option"

definition valueNormal :: "'v arithmetic \<Rightarrow> 'v StuckSensorChecker \<Rightarrow> 'v \<Rightarrow> 'v StuckSensorChecker \<times> bool" where
  "valueNormal ar c newValue =
     (case ss_previousValue c of
        None \<Rightarrow> (c\<lparr>ss_previousValue := Some newValue, ss_identicalCount := 1\<rparr>, True)
      | Some previous \<Rightarrow>
          (let c1 = (if ar_eq ar newValue previous then c\<lparr>ss_identicalCount := ss_identicalCount c + 1\<rparr>
                     else c\<lparr>ss_previousValue := Some newValue, ss_identicalCount := 1\<rparr>)
           in (c1, ss_identicalCount c1 < ss_stuckThreshold c1)))"

record StaleSensorChecker =
  sl_maximumAge :: int
  sl_lastReceived :: "int option"

definition measurementReceived :: "StaleSensorChecker \<Rightarrow> int \<Rightarrow> StaleSensorChecker" where
  "measurementReceived c timestamp = c\<lparr>sl_lastReceived := Some timestamp\<rparr>"

definition stale :: "StaleSensorChecker \<Rightarrow> int \<Rightarrow> bool" where
  "stale c now = (case sl_lastReceived c of None \<Rightarrow> False | Some received \<Rightarrow> now - received > sl_maximumAge c)"

section \<open>The node\<close>

record 'v AnomalyDetectionNode =
  an_rangeFilter :: "'v RangeFilter"
  an_rateChecker :: "'v RateOfChangeChecker"
  an_stuckChecker :: "'v StuckSensorChecker"
  an_staleChecker :: StaleSensorChecker
  an_latestMeasurement :: "'v QualifiedMeasurement option"
  an_staleReported :: bool

definition newNode :: "'v \<Rightarrow> 'v \<Rightarrow> u64 \<Rightarrow> nat \<Rightarrow> int \<Rightarrow> 'v AnomalyDetectionNode" where
  "newNode lower upper maximumRate stuckThreshold maximumAge =
     \<lparr>an_rangeFilter = \<lparr>rf_lower = lower, rf_upper = upper\<rparr>,
      an_rateChecker = \<lparr>rc_maximumRate = maximumRate, rc_previousValue = None, rc_previousTimestamp = None\<rparr>,
      an_stuckChecker = \<lparr>ss_stuckThreshold = stuckThreshold, ss_identicalCount = 0, ss_previousValue = None\<rparr>,
      an_staleChecker = \<lparr>sl_maximumAge = maximumAge, sl_lastReceived = None\<rparr>,
      an_latestMeasurement = None, an_staleReported = False\<rparr>"

text \<open>An operation returns the node and the measurement handed to the consumer.\<close>

definition process :: "'v arithmetic \<Rightarrow> 'v AnomalyDetectionNode \<Rightarrow> 'v QualifiedMeasurement \<Rightarrow> int
    \<Rightarrow> 'v AnomalyDetectionNode \<times> 'v QualifiedMeasurement option" where
  "process ar n measurement arrivalTime =
     (if qm_quality measurement = Invalid then (n, Some measurement)
      else if \<not> inRange ar (an_rangeFilter n) (qm_measurement measurement)
        then (n, Some (measurement\<lparr>qm_quality := Invalid\<rparr>))
      else let n1 = n\<lparr>an_staleChecker := measurementReceived (an_staleChecker n) arrivalTime, an_staleReported := False\<rparr>;
               (rate, changeOk) = changeNormal ar (an_rateChecker n1) (qm_measurement measurement) arrivalTime;
               measurement1 = (if changeOk then measurement else measurement\<lparr>qm_quality := Suspect\<rparr>);
               (stuck, valueOk) = valueNormal ar (an_stuckChecker n1) (qm_measurement measurement1);
               measurement2 = (if valueOk then measurement1 else measurement1\<lparr>qm_quality := Suspect\<rparr>)
           in (n1\<lparr>an_rateChecker := rate, an_stuckChecker := stuck, an_latestMeasurement := Some measurement2\<rparr>,
               Some measurement2))"

definition checkForStaleMeasurement :: "'v AnomalyDetectionNode \<Rightarrow> int
    \<Rightarrow> 'v AnomalyDetectionNode \<times> 'v QualifiedMeasurement option" where
  "checkForStaleMeasurement n now =
     (case an_latestMeasurement n of
        None \<Rightarrow> (n, None)
      | Some latest \<Rightarrow>
          if an_staleReported n \<or> \<not> stale (an_staleChecker n) now then (n, None)
          else let latest1 = (if qm_quality latest = Good then latest\<lparr>qm_quality := Suspect\<rparr> else latest)
               in (n\<lparr>an_latestMeasurement := Some latest1, an_staleReported := True\<rparr>, Some latest1))"

datatype 'v node_event = Emit 'v int MeasurementQuality | CheckStale int

definition node_step :: "'v arithmetic \<Rightarrow> 'v AnomalyDetectionNode \<Rightarrow> 'v node_event
    \<Rightarrow> 'v AnomalyDetectionNode \<times> 'v QualifiedMeasurement option" where
  "node_step ar n e =
     (case e of
        Emit v arrivalTime quality \<Rightarrow> process ar n \<lparr>qm_measurement = v, qm_quality = quality\<rparr> arrivalTime
      | CheckStale now \<Rightarrow> checkForStaleMeasurement n now)"

primrec node_run :: "'v arithmetic \<Rightarrow> 'v AnomalyDetectionNode \<Rightarrow> 'v node_event list \<Rightarrow> 'v QualifiedMeasurement list" where
  "node_run ar n [] = []"
| "node_run ar n (e # es) =
     (let (n', out) = node_step ar n e in (case out of None \<Rightarrow> [] | Some m \<Rightarrow> [m]) @ node_run ar n' es)"

text \<open>The demonstration; \<open>lit\<close> gives the value of a literal.\<close>

definition demo_events :: "(string \<Rightarrow> 'v) \<Rightarrow> 'v node_event list" where
  "demo_events lit =
     (let at = (\<lambda>seconds. seconds * 1000000000)
      in [Emit (lit ''20.0'') (at 0) Good, Emit (lit ''20.5'') (at 1) Good, Emit (lit ''150.0'') (at 2) Good,
          Emit (lit ''20.7'') (at 3) Good, Emit (lit ''35.0'') (at 4) Good, Emit (lit ''35.0'') (at 5) Good,
          Emit (lit ''35.0'') (at 6) Good, Emit (lit ''35.0'') (at 7) Good, Emit (lit ''34.5'') (at 8) Good,
          CheckStale (at 12), Emit (lit ''34.5'') (at 13) Invalid])"

definition demo_node :: "(string \<Rightarrow> 'v) \<Rightarrow> (string \<Rightarrow> u64) \<Rightarrow> 'v AnomalyDetectionNode" where
  "demo_node lit limit = newNode (lit ''-40.0'') (lit ''85.0'') (limit ''5.0'') 4 (3 * 1000000000)"

section \<open>Verdicts by history\<close>

text \<open>The reference: a verdict depends on the measurements accepted so far (newest first), without any
  state of the checkers.\<close>

record 'v limits =
  li_range :: "'v RangeFilter"
  li_rate :: u64
  li_stuck :: nat
  li_age :: int

type_synonym 'v history = "('v \<times> int \<times> MeasurementQuality) list"

definition run_before :: "'v arithmetic \<Rightarrow> 'v history \<Rightarrow> 'v \<Rightarrow> nat" where
  "run_before ar h v = length (takeWhile (\<lambda>(u, _). ar_eq ar v u) h)"

definition suspicious :: "'v arithmetic \<Rightarrow> 'v limits \<Rightarrow> 'v history \<Rightarrow> 'v \<Rightarrow> int \<Rightarrow> bool" where
  "suspicious ar li h v t =
     (case h of [] \<Rightarrow> False
      | (u, t0, _) # _ \<Rightarrow> \<not> ar_rate_within ar (li_rate li) v u (t - t0) \<or> run_before ar h v + 1 \<ge> li_stuck li)"

definition verdict :: "'v arithmetic \<Rightarrow> 'v limits \<Rightarrow> 'v history \<Rightarrow> 'v \<Rightarrow> int \<Rightarrow> MeasurementQuality \<Rightarrow> MeasurementQuality" where
  "verdict ar li h v t q =
     (if \<not> inRange ar (li_range li) v then Invalid
      else if suspicious ar li h v t then max q Suspect else q)"

definition history_step :: "'v arithmetic \<Rightarrow> 'v limits \<Rightarrow> 'v history \<times> bool \<Rightarrow> 'v node_event
    \<Rightarrow> ('v history \<times> bool) \<times> 'v QualifiedMeasurement option" where
  "history_step ar li = (\<lambda>(h, reported) e.
     (case e of
        Emit v t q \<Rightarrow>
          (let q' = verdict ar li h v t q
           in (if q' = Invalid then (h, reported) else ((v, t, q') # h, False),
               Some \<lparr>qm_measurement = v, qm_quality = q'\<rparr>))
      | CheckStale now \<Rightarrow>
          (case h of [] \<Rightarrow> ((h, reported), None)
           | (u, t, q) # _ \<Rightarrow>
               if \<not> reported \<and> now - t > li_age li
               then ((h, True), Some \<lparr>qm_measurement = u, qm_quality = max q Suspect\<rparr>)
               else ((h, reported), None))))"

primrec history_run :: "'v arithmetic \<Rightarrow> 'v limits \<Rightarrow> 'v history \<times> bool \<Rightarrow> 'v node_event list \<Rightarrow> 'v QualifiedMeasurement list" where
  "history_run ar li s [] = []"
| "history_run ar li s (e # es) =
     (let (s', out) = history_step ar li s e in (case out of None \<Rightarrow> [] | Some m \<Rightarrow> [m]) @ history_run ar li s' es)"

definition arrivals :: "'v node_event list \<Rightarrow> int list" where
  "arrivals es = concat (map (\<lambda>e. case e of Emit v t q \<Rightarrow> [t] | CheckStale _ \<Rightarrow> []) es)"

text \<open>\<open>==\<close> is symmetric and transitive, and reflexive on what passes the range check (a NaN does not).\<close>

definition lawful :: "'v arithmetic \<Rightarrow> 'v RangeFilter \<Rightarrow> bool" where
  "lawful ar f \<longleftrightarrow> (\<forall>a b. ar_eq ar a b \<longrightarrow> ar_eq ar b a) \<and> (\<forall>a b c. ar_eq ar a b \<longrightarrow> ar_eq ar b c \<longrightarrow> ar_eq ar a c)
     \<and> (\<forall>a. inRange ar f a \<longrightarrow> ar_eq ar a a)"

section \<open>The node follows the history\<close>

definition stuck_follows :: "'v arithmetic \<Rightarrow> 'v history \<Rightarrow> 'v StuckSensorChecker \<Rightarrow> bool" where
  "stuck_follows ar h c =
     (case h of [] \<Rightarrow> ss_previousValue c = None
      | (u, _) # _ \<Rightarrow> (\<exists>p. ss_previousValue c = Some p \<and> ar_eq ar u p) \<and> ss_identicalCount c = run_before ar h u)"

lemma lawfulD:
  "lawful ar f \<Longrightarrow> ar_eq ar a b \<Longrightarrow> ar_eq ar b a"
  "lawful ar f \<Longrightarrow> ar_eq ar a b \<Longrightarrow> ar_eq ar b c \<Longrightarrow> ar_eq ar a c"
  "lawful ar f \<Longrightarrow> inRange ar f a \<Longrightarrow> ar_eq ar a a"
  unfolding lawful_def by blast+

lemma run_before_Cons: "run_before ar ((u, x) # h) v = (if ar_eq ar v u then Suc (run_before ar h v) else 0)"
  by (simp add: run_before_def)

lemma run_before_eq: "lawful ar f \<Longrightarrow> ar_eq ar u v \<Longrightarrow> run_before ar h u = run_before ar h v"
proof -
  assume "lawful ar f" "ar_eq ar u v"
  then have "ar_eq ar u x = ar_eq ar v x" for x using lawfulD(1,2) by metis
  then show ?thesis by (simp add: run_before_def)
qed

lemma stuck_follows_step:
  assumes "lawful ar f" "inRange ar f v" "stuck_follows ar h c" "valueNormal ar c v = (c', ok)"
  shows "stuck_follows ar ((v, x) # h) c' \<and> ss_stuckThreshold c' = ss_stuckThreshold c
    \<and> (ok \<longleftrightarrow> h = [] \<or> run_before ar h v + 1 < ss_stuckThreshold c)"
proof (cases h)
  case Nil
  then show ?thesis using assms lawfulD(3) [OF assms(1,2)]
    by (auto simp: stuck_follows_def valueNormal_def run_before_Cons run_before_def)
next
  case (Cons e h')
  obtain u y where e: "e = (u, y)" by (cases e)
  obtain p where p: "ss_previousValue c = Some p" "ar_eq ar u p" "ss_identicalCount c = run_before ar h u"
    using assms(3) Cons e by (auto simp: stuck_follows_def)
  have same: "ar_eq ar v p = ar_eq ar v u" using lawfulD(1,2) [OF assms(1)] p(2) by metis
  have refl: "ar_eq ar v v" by (rule lawfulD(3) [OF assms(1,2)])
  show ?thesis
  proof (cases "ar_eq ar v u")
    case True
    have "run_before ar h v = run_before ar h u" by (rule run_before_eq [OF assms(1) True])
    then show ?thesis using assms(4) p same True refl Cons
      by (auto simp: stuck_follows_def valueNormal_def run_before_Cons Let_def)
  next
    case False
    then have "run_before ar h v = 0" using Cons e by (simp add: run_before_Cons)
    then show ?thesis using assms(4) p same False refl Cons
      by (auto simp: stuck_follows_def valueNormal_def run_before_Cons Let_def)
  qed
qed

definition rate_follows :: "'v history \<Rightarrow> 'v RateOfChangeChecker \<Rightarrow> bool" where
  "rate_follows h c \<longleftrightarrow> rc_previousValue c = (case h of [] \<Rightarrow> None | (u, _) # _ \<Rightarrow> Some u)
     \<and> rc_previousTimestamp c = (case h of [] \<Rightarrow> None | (_, t, _) # _ \<Rightarrow> Some t)"

definition newest :: "'v history \<Rightarrow> int option" where
  "newest h = (case h of [] \<Rightarrow> None | (_, t, _) # _ \<Rightarrow> Some t)"

lemma rate_follows_step:
  assumes "rate_follows h c" "\<And>t0. newest h = Some t0 \<Longrightarrow> t0 < t" "changeNormal ar c v t = (c', ok)"
  shows "rate_follows ((v, t, q) # h) c' \<and> rc_maximumRate c' = rc_maximumRate c
    \<and> ok = (case h of [] \<Rightarrow> True | (u, t0, _) # _ \<Rightarrow> ar_rate_within ar (rc_maximumRate c) v u (t - t0))"
  using assms
  by (auto simp: rate_follows_def changeNormal_def newest_def Let_def split: list.splits prod.splits if_splits)

definition node_follows :: "'v arithmetic \<Rightarrow> 'v limits \<Rightarrow> 'v history \<times> bool \<Rightarrow> 'v AnomalyDetectionNode \<Rightarrow> bool" where
  "node_follows ar li = (\<lambda>(h, reported) n.
     an_rangeFilter n = li_range li \<and> rc_maximumRate (an_rateChecker n) = li_rate li
   \<and> ss_stuckThreshold (an_stuckChecker n) = li_stuck li \<and> sl_maximumAge (an_staleChecker n) = li_age li
   \<and> rate_follows h (an_rateChecker n) \<and> stuck_follows ar h (an_stuckChecker n)
   \<and> sl_lastReceived (an_staleChecker n) = newest h \<and> an_staleReported n = reported
   \<and> an_latestMeasurement n = (case h of [] \<Rightarrow> None
       | (u, _, q) # _ \<Rightarrow> Some \<lparr>qm_measurement = u, qm_quality = (if reported then max q Suspect else q)\<rparr>))"

lemma node_follows_new:
  "node_follows ar \<lparr>li_range = \<lparr>rf_lower = lower, rf_upper = upper\<rparr>, li_rate = rate, li_stuck = threshold, li_age = age\<rparr>
     ([], False) (newNode lower upper rate threshold age)"
  by (simp add: node_follows_def newNode_def rate_follows_def stuck_follows_def newest_def)

lemma process_follows:
  assumes "lawful ar (li_range li)" "node_follows ar li (h, reported) n" "\<And>t0. newest h = Some t0 \<Longrightarrow> t0 < t"
    "process ar n \<lparr>qm_measurement = v, qm_quality = q\<rparr> t = (n', out)"
  shows "out = snd (history_step ar li (h, reported) (Emit v t q))
    \<and> node_follows ar li (fst (history_step ar li (h, reported) (Emit v t q))) n'"
proof (cases "q = Invalid \<or> \<not> inRange ar (li_range li) v")
  case True
  then show ?thesis using assms(2,4)
    by (auto simp: process_def history_step_def verdict_def node_follows_def max_Suspect Let_def split: if_splits)
next
  case False
  obtain rate rok where rate: "changeNormal ar (an_rateChecker n) v t = (rate, rok)" by (meson surj_pair)
  obtain stuck sok where stuck: "valueNormal ar (an_stuckChecker n) v = (stuck, sok)" by (meson surj_pair)
  have n: "an_rangeFilter n = li_range li" "rc_maximumRate (an_rateChecker n) = li_rate li"
    "ss_stuckThreshold (an_stuckChecker n) = li_stuck li" "sl_maximumAge (an_staleChecker n) = li_age li"
    "rate_follows h (an_rateChecker n)" "stuck_follows ar h (an_stuckChecker n)"
    using assms(2) by (simp_all add: node_follows_def)
  note rs = rate_follows_step [OF n(5) assms(3) rate, of "verdict ar li h v t q", simplified n(2)]
  have inr: "inRange ar (li_range li) v" using False by simp
  note ss = stuck_follows_step [OF assms(1) inr n(6) stuck, of "(t, verdict ar li h v t q)", simplified n(3)]
  have v: "(if sok then (if rok then q else Suspect) else Suspect) = verdict ar li h v t q"
    using rs ss False by (cases q) (auto simp: verdict_def suspicious_def max_Suspect split: list.splits)
  then have "verdict ar li h v t q \<noteq> Invalid" using False by (auto split: if_splits)
  then show ?thesis
    using assms(4) False n rate stuck rs ss v [symmetric]
    by (auto simp: process_def history_step_def node_follows_def measurementReceived_def newest_def Let_def)
qed

lemma stale_follows:
  assumes "node_follows ar li (h, reported) n" "checkForStaleMeasurement n now = (n', out)"
  shows "out = snd (history_step ar li (h, reported) (CheckStale now))
    \<and> node_follows ar li (fst (history_step ar li (h, reported) (CheckStale now))) n'"
  using assms
  by (auto simp: checkForStaleMeasurement_def history_step_def node_follows_def stale_def newest_def max_Suspect Let_def
      split: list.splits if_splits)

lemma history_step_newest:
  "newest (fst (fst (history_step ar li (h, reported) e))) = Some t0 \<Longrightarrow>
     newest h = Some t0 \<or> (\<exists>v q. e = Emit v t0 q)"
  by (cases e) (auto simp: history_step_def newest_def Let_def split: if_splits list.splits)

lemma arrivals_Cons: "arrivals (e # es) = (case e of Emit v t q \<Rightarrow> [t] | CheckStale _ \<Rightarrow> []) @ arrivals es"
  by (simp add: arrivals_def)

lemma node_run_follows:
  assumes "lawful ar (li_range li)" "node_follows ar li (h, reported) n" "sorted_wrt (<) (arrivals es)"
    "\<And>t0 t. newest h = Some t0 \<Longrightarrow> t \<in> set (arrivals es) \<Longrightarrow> t0 < t"
  shows "node_run ar n es = history_run ar li (h, reported) es"
  using assms(2-)
proof (induction es arbitrary: n h reported)
  case Nil
  then show ?case by simp
next
  case (Cons e es)
  obtain n' out where step: "node_step ar n e = (n', out)" by (meson surj_pair)
  obtain h' reported' where hs: "fst (history_step ar li (h, reported) e) = (h', reported')" by (meson surj_pair)
  have "out = snd (history_step ar li (h, reported) e) \<and> node_follows ar li (h', reported') n'"
  proof (cases e)
    case (Emit v t q)
    then show ?thesis
      using process_follows [OF assms(1) Cons.prems(1), of t v q n' out] Cons.prems(3) step hs
      by (simp add: node_step_def arrivals_Cons)
  next
    case (CheckStale now)
    then show ?thesis using stale_follows [OF Cons.prems(1), of now n' out] step hs by (simp add: node_step_def)
  qed
  moreover have "node_run ar n' es = history_run ar li (h', reported') es"
  proof (rule Cons.IH)
    show "node_follows ar li (h', reported') n'" using calculation by simp
    show "sorted_wrt (<) (arrivals es)"
      using Cons.prems(2) by (cases e) (simp_all add: arrivals_Cons)
    show "t0 < t" if "newest h' = Some t0" "t \<in> set (arrivals es)" for t0 t
      using history_step_newest [of ar li h reported e t0] hs that Cons.prems(2,3)
      by (cases e) (fastforce simp: arrivals_Cons)+
  qed
  ultimately show ?case by (simp add: step hs Let_def split_beta)
qed

section \<open>Property\<close>

text \<open>C7: What the anomaly detection node says. For any sequence of readings (in the order of their
arrival, no two at the same time) and of checks for staleness, the node, with its four stateful
checkers, hands its consumer exactly the measurements a specification over the history gives: a
reading out of range or already invalid is passed on as invalid and leaves no trace; any other is
suspect when its rate against the last accepted reading is too high or when it ends a run of at
least the threshold of equal accepted readings, and keeps its own quality otherwise; a check reports
the last accepted reading, as at best suspect, when it is older than the limit, and only once until
the next one is accepted.\<close>

theorem anomaly_verdicts:
  assumes "lawful ar \<lparr>rf_lower = lower, rf_upper = upper\<rparr>" "sorted_wrt (<) (arrivals events)"
  shows "node_run ar (newNode lower upper maximumRate stuckThreshold maximumAge) events
    = history_run ar \<lparr>li_range = \<lparr>rf_lower = lower, rf_upper = upper\<rparr>, li_rate = maximumRate,
        li_stuck = stuckThreshold, li_age = maximumAge\<rparr> ([], False) events"
  by (rule node_run_follows [OF _ node_follows_new]) (simp_all add: assms newest_def)

text \<open>The demonstration on tenths of a degree: fixed-point numbers in place of doubles.\<close>

definition tenths :: "int arithmetic" where
  "tenths = \<lparr>ar_ge = (\<ge>), ar_eq = (=),
     ar_rate_within = (\<lambda>limit a b ns. \<bar>a - b\<bar> * 1000000000 \<le> uint limit * ns)\<rparr>"

definition tenths_lit :: "string \<Rightarrow> int" where
  "tenths_lit s =
     (let (neg, body) = (case s of CHR ''-'' # ds \<Rightarrow> (True, ds) | _ \<Rightarrow> (False, s));
          n = foldl (\<lambda>n c. if c = CHR ''.'' then n else 10 * n + (of_char c - 48)) 0 body
      in if neg then - n else n)"

theorem anomaly_verdicts_witness:
  "map (\<lambda>m. (qm_measurement m, qm_quality m))
     (node_run tenths (demo_node tenths_lit (\<lambda>s. word_of_int (tenths_lit s))) (demo_events tenths_lit))
   = [(200, Good), (205, Good), (1500, Invalid), (207, Good), (350, Suspect), (350, Good), (350, Good),
      (350, Suspect), (345, Good), (345, Suspect), (345, Invalid)]"
proof -
  have "lawful tenths \<lparr>rf_lower = tenths_lit ''-40.0'', rf_upper = tenths_lit ''85.0''\<rparr>"
    by (simp add: lawful_def tenths_def)
  moreover have "sorted_wrt (<) (arrivals (demo_events tenths_lit))" by code_simp
  ultimately have "node_run tenths (demo_node tenths_lit (\<lambda>s. word_of_int (tenths_lit s))) (demo_events tenths_lit)
      = history_run tenths \<lparr>li_range = \<lparr>rf_lower = tenths_lit ''-40.0'', rf_upper = tenths_lit ''85.0''\<rparr>,
          li_rate = word_of_int (tenths_lit ''5.0''), li_stuck = 4, li_age = 3 * 1000000000\<rparr> ([], False) (demo_events tenths_lit)"
    unfolding demo_node_def by (rule anomaly_verdicts)
  moreover have "map (\<lambda>m. (qm_measurement m, qm_quality m))
      (history_run tenths \<lparr>li_range = \<lparr>rf_lower = tenths_lit ''-40.0'', rf_upper = tenths_lit ''85.0''\<rparr>,
          li_rate = word_of_int (tenths_lit ''5.0''), li_stuck = 4, li_age = 3 * 1000000000\<rparr> ([], False) (demo_events tenths_lit))
    = [(200, Good), (205, Good), (1500, Invalid), (207, Good), (350, Suspect), (350, Good), (350, Good),
       (350, Suspect), (345, Good), (345, Suspect), (345, Invalid)]"
    by code_simp
  ultimately show ?thesis by (simp only:)
qed

end
