(* ===== verification/Filtering.thy ===== *)
theory Filtering
  imports Complex_Main AnomalyDetection Text
begin

text \<open>
  Chapter 7, validation and filtering (\<open>MeasurementValidator.h\<close> and \<open>.cpp\<close>, \<open>ExponentialFilter.h\<close>,
  \<open>MovingAverage.h\<close>). Double-precision arithmetic and its text forms are a record of functions of the
  C++ library on a type of numbers; what is proved about exact values is proved on rational numbers.
\<close>

section \<open>Double-precision numbers\<close>

text \<open>\<open>db_from_chars\<close> gives the characters consumed and the value, \<open>None\<close> on an error; \<open>db_fixed n\<close> prints
  \<open>n\<close> decimals.\<close>

record 'd binary64 =
  db_arithmetic :: "'d arithmetic"
  db_lit :: "string \<Rightarrow> 'd"
  db_of_nat :: "nat \<Rightarrow> 'd"
  db_less :: "'d \<Rightarrow> 'd \<Rightarrow> bool"
  db_add :: "'d \<Rightarrow> 'd \<Rightarrow> 'd"
  db_sub :: "'d \<Rightarrow> 'd \<Rightarrow> 'd"
  db_mul :: "'d \<Rightarrow> 'd \<Rightarrow> 'd"
  db_div :: "'d \<Rightarrow> 'd \<Rightarrow> 'd"
  db_abs :: "'d \<Rightarrow> 'd"
  db_neg :: "'d \<Rightarrow> 'd"
  db_nan :: 'd
  db_infinity :: 'd
  db_isfinite :: "'d \<Rightarrow> bool"
  db_from_chars :: "string \<Rightarrow> (nat \<times> 'd) option"
  db_fixed :: "nat \<Rightarrow> 'd \<Rightarrow> string"

abbreviation db_ge :: "'d binary64 \<Rightarrow> 'd \<Rightarrow> 'd \<Rightarrow> bool" where "db_ge db \<equiv> ar_ge (db_arithmetic db)"

text \<open>\<open>std::to_string\<close> of a double prints six decimals.\<close>

abbreviation db_to_string :: "'d binary64 \<Rightarrow> 'd \<Rightarrow> string" where "db_to_string db \<equiv> db_fixed db 6"

section \<open>Validation\<close>

datatype MeasurementStatus = Valid | Missing | NonFinite | OutOfRange7 | ImplausibleRateOfChange

record 'd ValidatorConfig =
  vc_minimum_value :: 'd
  vc_maximum_value :: 'd
  vc_maximum_rate_per_second :: 'd

record 'd ValidationResult =
  vr_status :: MeasurementStatus
  vr_measured_value :: "'d option"

definition is_valid :: "'d ValidationResult \<Rightarrow> bool" where "is_valid r = (vr_status r = Valid)"

record 'd MeasurementValidator =
  mv_config :: "'d ValidatorConfig"
  mv_previous_valid_value :: "'d option"
  mv_previous_valid_time :: "'d option"

text \<open>\<open>Some\<close> the text of the exception thrown.\<close>

definition validate_config :: "'d binary64 \<Rightarrow> 'd ValidatorConfig \<Rightarrow> string option" where
  "validate_config db config =
     (if \<not> db_isfinite db (vc_minimum_value config) \<or> \<not> db_isfinite db (vc_maximum_value config)
        then Some ''measurement limits must be finite''
      else if db_ge db (vc_minimum_value config) (vc_maximum_value config)
        then Some ''minimum value must be less than maximum value''
      else if \<not> db_isfinite db (vc_maximum_rate_per_second config)
           \<or> db_less db (vc_maximum_rate_per_second config) (db_lit db ''0.0'')
        then Some ''maximum rate per second must be finite and non-negative''
      else None)"

definition newMeasurementValidator :: "'d binary64 \<Rightarrow> 'd ValidatorConfig \<Rightarrow> string + 'd MeasurementValidator" where
  "newMeasurementValidator db config =
     (case validate_config db config of
        Some e \<Rightarrow> Inl e
      | None \<Rightarrow> Inr \<lparr>mv_config = config, mv_previous_valid_value = None, mv_previous_valid_time = None\<rparr>)"

definition implausible :: "'d binary64 \<Rightarrow> 'd MeasurementValidator \<Rightarrow> 'd \<Rightarrow> 'd \<Rightarrow> bool" where
  "implausible db v time_seconds x =
     (case (mv_previous_valid_value v, mv_previous_valid_time v) of
        (Some previous, Some time) \<Rightarrow>
          db_less db (db_mul db (vc_maximum_rate_per_second (mv_config v)) (db_sub db time_seconds time))
            (db_abs db (db_sub db x previous))
      | _ \<Rightarrow> False)"

definition validate :: "'d binary64 \<Rightarrow> 'd MeasurementValidator \<Rightarrow> 'd \<Rightarrow> 'd option
    \<Rightarrow> 'd MeasurementValidator \<times> 'd ValidationResult" where
  "validate db v time_seconds measured_value =
     (case measured_value of
        None \<Rightarrow> (v, \<lparr>vr_status = Missing, vr_measured_value = None\<rparr>)
      | Some x \<Rightarrow>
          if \<not> db_isfinite db x then (v, \<lparr>vr_status = NonFinite, vr_measured_value = measured_value\<rparr>)
          else if db_less db x (vc_minimum_value (mv_config v)) \<or> db_less db (vc_maximum_value (mv_config v)) x
            then (v, \<lparr>vr_status = OutOfRange7, vr_measured_value = measured_value\<rparr>)
          else if implausible db v time_seconds x
            then (v, \<lparr>vr_status = ImplausibleRateOfChange, vr_measured_value = measured_value\<rparr>)
          else (v\<lparr>mv_previous_valid_value := Some x, mv_previous_valid_time := Some time_seconds\<rparr>,
                \<lparr>vr_status = Valid, vr_measured_value = measured_value\<rparr>))"

definition validator_reset :: "'d MeasurementValidator \<Rightarrow> 'd MeasurementValidator" where
  "validator_reset v = v\<lparr>mv_previous_valid_value := None, mv_previous_valid_time := None\<rparr>"

definition status_text :: "MeasurementStatus \<Rightarrow> string" where
  "status_text s = (case s of Valid \<Rightarrow> ''valid'' | Missing \<Rightarrow> ''missing'' | NonFinite \<Rightarrow> ''non_finite''
     | OutOfRange7 \<Rightarrow> ''out_of_range'' | ImplausibleRateOfChange \<Rightarrow> ''implausible_rate_of_change'')"

section \<open>The exponential filter\<close>

record 'd ExponentialFilter =
  ef_alpha :: 'd
  ef_current_value :: "'d option"

definition newExponentialFilter :: "'d binary64 \<Rightarrow> 'd \<Rightarrow> string + 'd ExponentialFilter" where
  "newExponentialFilter db alpha =
     (if \<not> db_isfinite db alpha \<or> db_ge db (db_lit db ''0.0'') alpha \<or> db_less db (db_lit db ''1.0'') alpha
      then Inl ''exponential alpha must be greater than zero and no greater than one''
      else Inr \<lparr>ef_alpha = alpha, ef_current_value = None\<rparr>)"

definition ef_update :: "'d binary64 \<Rightarrow> 'd ExponentialFilter \<Rightarrow> 'd \<Rightarrow> 'd ExponentialFilter" where
  "ef_update db f sample =
     f\<lparr>ef_current_value := Some (case ef_current_value f of
         None \<Rightarrow> sample
       | Some v \<Rightarrow> db_add db v (db_mul db (ef_alpha f) (db_sub db sample v)))\<rparr>"

definition ef_reset :: "'d ExponentialFilter \<Rightarrow> 'd ExponentialFilter" where
  "ef_reset f = f\<lparr>ef_current_value := None\<rparr>"

section \<open>The moving average\<close>

record 'd MovingAverage =
  ma_samples :: "'d list"
  ma_next_index :: nat
  ma_sample_count :: nat
  ma_sum :: 'd
  ma_current_value :: "'d option"

definition newMovingAverage :: "'d binary64 \<Rightarrow> nat \<Rightarrow> string + 'd MovingAverage" where
  "newMovingAverage db window_size =
     (if window_size = 0 then Inl ''moving-average window size must be greater than zero''
      else Inr \<lparr>ma_samples = replicate window_size (db_lit db ''0.0''), ma_next_index = 0, ma_sample_count = 0,
        ma_sum = db_lit db ''0.0'', ma_current_value = None\<rparr>)"

definition ma_update :: "'d binary64 \<Rightarrow> 'd MovingAverage \<Rightarrow> 'd \<Rightarrow> 'd MovingAverage" where
  "ma_update db m sample =
     (let filling = ma_sample_count m < length (ma_samples m);
          sum1 = (if filling then ma_sum m else db_sub db (ma_sum m) (ma_samples m ! ma_next_index m));
          sum2 = db_add db sum1 sample;
          n = (if filling then ma_sample_count m + 1 else ma_sample_count m)
      in m\<lparr>ma_samples := (ma_samples m)[ma_next_index m := sample], ma_sum := sum2, ma_sample_count := n,
           ma_next_index := (ma_next_index m + 1) mod length (ma_samples m),
           ma_current_value := Some (db_div db sum2 (db_of_nat db n))\<rparr>)"

definition ma_reset :: "'d binary64 \<Rightarrow> 'd MovingAverage \<Rightarrow> 'd MovingAverage" where
  "ma_reset db m = m\<lparr>ma_next_index := 0, ma_sample_count := 0, ma_sum := db_lit db ''0.0'', ma_current_value := None\<rparr>"

section \<open>The window of the moving average\<close>

text \<open>The ring holds the last \<open>n\<close> samples of the history \<open>xs\<close> and the sum is theirs: the invariant on
  rational numbers, where the additions and subtractions are exact.\<close>

definition last_n :: "nat \<Rightarrow> 'a list \<Rightarrow> 'a list" where "last_n n xs = drop (length xs - n) xs"

definition exact :: "rat binary64 \<Rightarrow> bool" where
  "exact db \<longleftrightarrow> db_add db = (+) \<and> db_sub db = (-) \<and> db_mul db = (*) \<and> db_div db = (/) \<and> db_of_nat db = of_nat
     \<and> db_lit db ''0.0'' = 0"

text \<open>Numbers with whole literals, as an instance.\<close>

definition rat_lit :: "string \<Rightarrow> rat" where
  "rat_lit s = (if s \<noteq> [] \<and> hd s = CHR ''-'' then - of_nat (nat_of_digits (takeWhile is_digit (tl s)))
     else of_nat (nat_of_digits (takeWhile is_digit s)))"

definition rat_db :: "rat binary64" where
  "rat_db = \<lparr>db_arithmetic = \<lparr>ar_ge = (\<ge>), ar_eq = (=), ar_rate_within = (\<lambda>_ _ _ _. True)\<rparr>,
     db_lit = rat_lit, db_of_nat = of_nat, db_less = (<), db_add = (+), db_sub = (-),
     db_mul = (*), db_div = (/), db_abs = abs, db_neg = uminus, db_nan = 0, db_infinity = 0, db_isfinite = (\<lambda>_. True),
     db_from_chars = (\<lambda>s. let ds = takeWhile is_digit s in if ds = [] then None else Some (length ds, of_nat (nat_of_digits ds))),
     db_fixed = (\<lambda>_ x. show_int \<lfloor>x\<rfloor>)\<rparr>"

lemma exact_rat_db: "exact rat_db"
  by (simp add: exact_def rat_db_def rat_lit_def nat_of_digits_def is_digit_def in_chars_def code_def digit_val_def)

definition ring_of :: "'d MovingAverage \<Rightarrow> 'd list" where
  "ring_of m = (if ma_sample_count m < length (ma_samples m) then take (ma_sample_count m) (ma_samples m)
     else drop (ma_next_index m) (ma_samples m) @ take (ma_next_index m) (ma_samples m))"

definition ma_inv :: "rat list \<Rightarrow> rat MovingAverage \<Rightarrow> bool" where
  "ma_inv xs m \<longleftrightarrow> (let n = length (ma_samples m)
     in 0 < n \<and> ma_next_index m < n \<and> ma_sample_count m = min (length xs) n
      \<and> (length xs < n \<longrightarrow> ma_next_index m = length xs) \<and> ring_of m = last_n n xs \<and> ma_sum m = sum_list (last_n n xs)
      \<and> ma_current_value m = (if xs = [] then None else Some (sum_list (last_n n xs) / of_nat (min (length xs) n))))"

lemma last_n_snoc:
  "length xs < n \<Longrightarrow> last_n n (xs @ [x]) = last_n n xs @ [x]"
  "n \<le> length xs \<Longrightarrow> 0 < n \<Longrightarrow> last_n n (xs @ [x]) = tl (last_n n xs) @ [x]"
  by (auto simp: last_n_def Suc_diff_le tl_drop drop_Suc)

lemma ma_inv_new: "exact db \<Longrightarrow> newMovingAverage db n = Inr m \<Longrightarrow> ma_inv [] m \<and> length (ma_samples m) = n"
  by (auto simp: newMovingAverage_def ma_inv_def exact_def ring_of_def last_n_def split: if_splits)

lemma ring_slot:
  assumes "i < length s"
  shows "drop ((i + 1) mod length s) (s[i := x]) @ take ((i + 1) mod length s) (s[i := x])
    = tl (drop i s @ take i s) @ [x]"
proof (cases "i + 1 = length s")
  case True
  then have "s \<noteq> []" by auto
  have "s[i := x] = take i s @ [x]" using True by (simp add: upd_conv_take_nth_drop)
  moreover have "drop i s = [s ! i]" using True assms by (simp add: Cons_nth_drop_Suc [symmetric])
  ultimately show ?thesis using True by simp
next
  case False
  then have i: "Suc i < length s" using assms by simp
  have upd: "s[i := x] = take i s @ x # drop (Suc i) s" using assms by (rule upd_conv_take_nth_drop)
  have "drop i s = s ! i # drop (Suc i) s" using assms by (simp add: Cons_nth_drop_Suc)
  then show ?thesis using i assms unfolding upd by simp
qed

lemma sum_tl: "xs \<noteq> [] \<Longrightarrow> sum_list (tl xs @ [x]) = sum_list xs - hd xs + (x :: rat)"
  by (cases xs) simp_all

lemma ma_inv_update:
  assumes "exact db" "ma_inv xs m"
  shows "ma_inv (xs @ [x]) (ma_update db m x) \<and> length (ma_samples (ma_update db m x)) = length (ma_samples m)"
proof -
  define n i where "n = length (ma_samples m)" and "i = ma_next_index m"
  have i: "0 < n" "i < n" "ma_sample_count m = min (length xs) n" "ring_of m = last_n n xs" "ma_sum m = sum_list (last_n n xs)"
    and at: "length xs < n \<Longrightarrow> i = length xs"
    using assms(2) by (simp_all add: ma_inv_def Let_def n_def i_def)
  have db: "db_add db = (+)" "db_sub db = (-)" "db_div db = (/)" "db_of_nat db = of_nat"
    using assms(1) by (simp_all add: exact_def)
  show ?thesis
  proof (cases "length xs < n")
    case True
    then have here: "i = length xs" "last_n n xs = xs" "take i (ma_samples m) = xs"
      using at i(3,4) by (simp_all add: last_n_def ring_of_def n_def)
    have "ring_of (ma_update db m x) = xs @ [x]"
    proof (cases "Suc (length xs) < n")
      case more: True
      then show ?thesis using True here i(3)
        by (simp add: ring_of_def ma_update_def Let_def n_def i_def [symmetric] take_Suc_conv_app_nth)
    next
      case False
      then have "Suc i = n" using True here by simp
      then have "(ma_samples m)[i := x] = take i (ma_samples m) @ [x]" by (simp add: upd_conv_take_nth_drop n_def)
      then show ?thesis using \<open>Suc i = n\<close> here i(3) True
        by (simp add: ring_of_def ma_update_def Let_def n_def i_def [symmetric])
    qed
    moreover have "last_n n (xs @ [x]) = xs @ [x]" using True by (simp add: last_n_def)
    moreover have "Suc i mod n = (if Suc (length xs) < n then Suc (length xs) else 0)"
      using True here by (auto simp: not_less le_Suc_eq)
    ultimately show ?thesis using True here i db
      by (auto simp: ma_inv_def ma_update_def Let_def n_def [symmetric] i_def [symmetric] add.commute)
  next
    case False
    then have full: "ma_sample_count m = n" using i(3) by simp
    have old: "drop i (ma_samples m) @ take i (ma_samples m) = last_n n xs"
      using i(4) full by (simp add: ring_of_def n_def i_def)
    have new: "last_n n (xs @ [x]) = tl (last_n n xs) @ [x]" by (rule last_n_snoc(2)) (use False i(1) in simp_all)
    have hd: "ma_samples m ! i = hd (last_n n xs)" "last_n n xs \<noteq> []"
      using old [symmetric] i(2) by (simp_all add: n_def hd_drop_conv_nth hd_append)
    have "ring_of (ma_update db m x) = tl (last_n n xs) @ [x]"
      using ring_slot [of i "ma_samples m" x, unfolded old] full i(2)
      by (simp add: ring_of_def ma_update_def Let_def n_def i_def)
    moreover have "sum_list (last_n n xs) - ma_samples m ! i + x = sum_list (tl (last_n n xs) @ [x])"
      using sum_tl [OF hd(2)] hd(1) by simp
    ultimately show ?thesis using False full i new db
      by (simp add: ma_inv_def ma_update_def Let_def n_def [symmetric] i_def [symmetric])
  qed
qed

lemma ma_fold: "exact db \<Longrightarrow> ma_inv ys m \<Longrightarrow> ma_inv (ys @ xs) (foldl (ma_update db) m xs)
    \<and> length (ma_samples (foldl (ma_update db) m xs)) = length (ma_samples m)"
proof (induction xs arbitrary: ys m)
  case (Cons x xs)
  then show ?case using ma_inv_update [of db ys m x] Cons.IH [of "ys @ [x]" "ma_update db m x"] by simp
qed simp

section \<open>What the validator lets through\<close>

definition plausible :: "'d binary64 \<Rightarrow> 'd ValidatorConfig \<Rightarrow> 'd \<times> 'd \<Rightarrow> 'd \<times> 'd \<Rightarrow> bool" where
  "plausible db c = (\<lambda>(t1, x1) (t2, x2).
     \<not> db_less db (db_mul db (vc_maximum_rate_per_second c) (db_sub db t2 t1)) (db_abs db (db_sub db x2 x1)))"

definition in_limits :: "'d binary64 \<Rightarrow> 'd ValidatorConfig \<Rightarrow> 'd \<Rightarrow> bool" where
  "in_limits db c x \<longleftrightarrow> db_isfinite db x \<and> \<not> db_less db x (vc_minimum_value c) \<and> \<not> db_less db (vc_maximum_value c) x"

text \<open>\<open>ok\<close> are the validated samples so far, in order.\<close>

definition validator_inv :: "'d binary64 \<Rightarrow> 'd ValidatorConfig \<Rightarrow> ('d \<times> 'd) list \<Rightarrow> 'd MeasurementValidator \<Rightarrow> bool" where
  "validator_inv db c ok v \<longleftrightarrow> mv_config v = c
     \<and> mv_previous_valid_time v = (if ok = [] then None else Some (fst (last ok)))
     \<and> mv_previous_valid_value v = (if ok = [] then None else Some (snd (last ok)))
     \<and> successively (plausible db c) ok \<and> (\<forall>s \<in> set ok. in_limits db c (snd s))"

lemma validator_inv_new: "newMeasurementValidator db c = Inr v \<Longrightarrow> validator_inv db c [] v"
  by (auto simp: newMeasurementValidator_def validator_inv_def split: option.splits)

lemma validator_inv_step:
  assumes "validator_inv db c ok v" "validate db v t mv = (v', r)"
  shows "validator_inv db c (ok @ (if is_valid r then [(t, the mv)] else [])) v' \<and> vr_measured_value r = mv
    \<and> (is_valid r \<longrightarrow> mv \<noteq> None) \<and> (\<not> is_valid r \<longrightarrow> v' = v)"
  using assms
  by (auto simp: validate_def validator_inv_def is_valid_def implausible_def plausible_def in_limits_def
      successively_append_iff split_beta split: option.splits if_splits)

end
