(* ===== verification/FilterPipeline.thy ===== *)
theory FilterPipeline
  imports Filtering
begin

text \<open>
  Chapter 7, the program \<open>filter_measurements\<close> (\<open>FilteringDemo/main.cpp\<close>): its options, the reading of a CSV
  file, and the loop that validates each measurement, feeds the filters and writes a row. Files are
  their contents; an exception is its message. The summary printed at the end is the record of counts.
\<close>

section \<open>Exceptions\<close>

definition andThen :: "(string + 'a) \<Rightarrow> ('a \<Rightarrow> string + 'b) \<Rightarrow> string + 'b" where
  "andThen r f = (case r of Inl e \<Rightarrow> Inl e | Inr x \<Rightarrow> f x)"

lemma andThen_simps [simp]: "andThen (Inl e) f = Inl e" "andThen (Inr x) f = f x"
  by (simp_all add: andThen_def)

lemma andThen_Inr: "andThen r f = Inr y \<longleftrightarrow> (\<exists>x. r = Inr x \<and> f x = Inr y)"
  by (cases r) simp_all

section \<open>Numbers in the text\<close>

definition parse_finite_double :: "'d binary64 \<Rightarrow> string \<Rightarrow> string \<Rightarrow> string + 'd" where
  "parse_finite_double db s description =
     (let failed = Inl (''invalid numeric value for '' @ description @ '': '' @ s)
      in case db_from_chars db s of
           None \<Rightarrow> failed
         | Some (n, v) \<Rightarrow> if n \<noteq> length s \<or> \<not> db_isfinite db v then failed else Inr v)"

definition parse_measurement_double :: "'d binary64 \<Rightarrow> string \<Rightarrow> nat \<Rightarrow> string + 'd" where
  "parse_measurement_double db s line_number =
     (let failed = Inl (''invalid measured_value on CSV line '' @ show_nat line_number @ '': '' @ s)
      in if s = ''nan'' \<or> s = ''NaN'' \<or> s = ''NAN'' then Inr (db_nan db)
         else if s = ''inf'' \<or> s = ''+inf'' \<or> s = ''Inf'' \<or> s = ''+Inf'' \<or> s = ''INF'' \<or> s = ''+INF''
           then Inr (db_infinity db)
         else if s = ''-inf'' \<or> s = ''-Inf'' \<or> s = ''-INF'' then Inr (db_neg db (db_infinity db))
         else case db_from_chars db s of
                None \<Rightarrow> failed
              | Some (n, v) \<Rightarrow> if n \<noteq> length s then failed else Inr v)"

definition parse_size :: "string \<Rightarrow> string \<Rightarrow> string + nat" where
  "parse_size s description =
     (let (ec, n, v) = from_chars 0 (2 ^ 64 - 1) s
      in if ec \<noteq> NoErrc \<or> n \<noteq> length s \<or> the v = 0
         then Inl (''invalid positive integer for '' @ description @ '': '' @ s) else Inr (nat (the v)))"

definition parse_optional_measurement :: "'d binary64 \<Rightarrow> string \<Rightarrow> nat \<Rightarrow> string + 'd option" where
  "parse_optional_measurement db s line_number =
     (if s = [] then Inr None else andThen (parse_measurement_double db s line_number) (\<lambda>v. Inr (Some v)))"

definition write_optional_value :: "'d binary64 \<Rightarrow> 'd option \<Rightarrow> string" where
  "write_optional_value db v = (case v of None \<Rightarrow> [] | Some x \<Rightarrow> db_fixed db 6 x)"

section \<open>Options\<close>

record 'd filter_options =
  fo_input_path :: string
  fo_output_path :: string
  fo_minimum_value :: 'd
  fo_maximum_value :: 'd
  fo_maximum_rate :: 'd
  fo_window :: "nat option"
  fo_alpha :: "'d option"

definition default_filter_options :: "'d binary64 \<Rightarrow> 'd filter_options" where
  "default_filter_options db = \<lparr>fo_input_path = [], fo_output_path = ''filtered_measurements.csv'',
     fo_minimum_value = db_lit db ''0.0'', fo_maximum_value = db_lit db ''50.0'', fo_maximum_rate = db_lit db ''2.0'',
     fo_window = None, fo_alpha = None\<rparr>"

definition set_option :: "'d binary64 \<Rightarrow> string \<Rightarrow> string \<Rightarrow> 'd filter_options \<Rightarrow> string + 'd filter_options" where
  "set_option db name v opts =
     (if name = ''--output'' then Inr (opts\<lparr>fo_output_path := v\<rparr>)
      else if name = ''--minimum'' then andThen (parse_finite_double db v name) (\<lambda>x. Inr (opts\<lparr>fo_minimum_value := x\<rparr>))
      else if name = ''--maximum'' then andThen (parse_finite_double db v name) (\<lambda>x. Inr (opts\<lparr>fo_maximum_value := x\<rparr>))
      else if name = ''--maximum-rate'' then andThen (parse_finite_double db v name) (\<lambda>x. Inr (opts\<lparr>fo_maximum_rate := x\<rparr>))
      else if name = ''--moving-average-window''
        then andThen (parse_size v name) (\<lambda>n. Inr (opts\<lparr>fo_window := Some n\<rparr>))
      else andThen (parse_finite_double db v name) (\<lambda>x. Inr (opts\<lparr>fo_alpha := Some x\<rparr>)))"

definition value_option :: "string \<Rightarrow> bool" where
  "value_option arg \<longleftrightarrow> arg \<in> set [''--output'', ''--minimum'', ''--maximum'', ''--maximum-rate'',
     ''--moving-average-window'', ''--exponential-alpha'']"

definition plain_argument :: "string \<Rightarrow> 'd filter_options \<Rightarrow> string + 'd filter_options" where
  "plain_argument arg opts =
     (if take 2 arg = ''--'' then Inl (''unknown option: '' @ arg)
      else if fo_input_path opts = [] then Inr (opts\<lparr>fo_input_path := arg\<rparr>)
      else Inl (''unexpected argument: '' @ arg))"

text \<open>\<open>None\<close>: help was asked for.\<close>

fun parse_arguments :: "'d binary64 \<Rightarrow> string list \<Rightarrow> 'd filter_options \<Rightarrow> string + 'd filter_options option" where
  "parse_arguments db [] opts = Inr (Some opts)"
| "parse_arguments db [arg] opts =
     (if arg = ''--help'' then Inr None
      else if value_option arg then Inl (''missing value for '' @ arg)
      else andThen (plain_argument arg opts) (\<lambda>o1. Inr (Some o1)))"
| "parse_arguments db (arg # v # rest) opts =
     (if arg = ''--help'' then Inr None
      else if value_option arg
        then (case set_option db arg v opts of Inl e \<Rightarrow> Inl e | Inr o1 \<Rightarrow> parse_arguments db rest o1)
      else (case plain_argument arg opts of Inl e \<Rightarrow> Inl e | Inr o1 \<Rightarrow> parse_arguments db (v # rest) o1))"

definition parse_options :: "'d binary64 \<Rightarrow> string list \<Rightarrow> string + 'd filter_options option" where
  "parse_options db args =
     andThen (parse_arguments db args (default_filter_options db)) (\<lambda>r.
       case r of
         None \<Rightarrow> Inr None
       | Some opts \<Rightarrow>
           if fo_input_path opts = [] then Inl ''an input CSV file is required''
           else if fo_window opts = None \<and> fo_alpha opts = None
             then Inl ''enable at least one filter with --moving-average-window or --exponential-alpha''
           else Inr (Some opts))"

section \<open>CSV lines\<close>

function split_from :: "string \<Rightarrow> nat \<Rightarrow> string list" where
  "split_from line start =
     (case str_find CHR '','' line start of
        None \<Rightarrow> [drop start line]
      | Some comma \<Rightarrow> substr line start (comma - start) # split_from line (comma + 1))"
  by pat_completeness auto
termination
  by (relation "measure (\<lambda>(line, start). Suc (length line) - start)")
    (auto simp: str_find_def find_char_Some split: if_splits)

declare split_from.simps [simp del]

definition split_csv_line :: "string \<Rightarrow> string list" where "split_csv_line line = split_from line 0"

text \<open>\<open>emplace\<close> keeps the first index of a name.\<close>

definition make_column_map :: "string list \<Rightarrow> string \<rightharpoonup> nat" where
  "make_column_map cells =
     fst (foldl (\<lambda>(m, index) f. (if m f = None then m(f \<mapsto> index) else m, index + 1)) (Map.empty, 0) cells)"

definition require_column :: "(string \<rightharpoonup> nat) \<Rightarrow> string \<Rightarrow> string + nat" where
  "require_column columns name =
     (case columns name of None \<Rightarrow> Inl (''input CSV is missing required column: '' @ name) | Some k \<Rightarrow> Inr k)"

text \<open>The lines \<open>std::getline\<close> yields: a line break at the end starts no further line.\<close>

definition text_lines :: "string \<Rightarrow> string list" where
  "text_lines s = (let ls = split CHR 0x0A s in if last ls = [] then butlast ls else ls)"

section \<open>The loop\<close>

record StatusCounts =
  sc_valid :: nat
  sc_missing :: nat
  sc_non_finite :: nat
  sc_out_of_range :: nat
  sc_implausible :: nat

definition counts_add :: "StatusCounts \<Rightarrow> MeasurementStatus \<Rightarrow> StatusCounts" where
  "counts_add c s = (case s of
       Valid \<Rightarrow> c\<lparr>sc_valid := sc_valid c + 1\<rparr>
     | Missing \<Rightarrow> c\<lparr>sc_missing := sc_missing c + 1\<rparr>
     | NonFinite \<Rightarrow> c\<lparr>sc_non_finite := sc_non_finite c + 1\<rparr>
     | OutOfRange7 \<Rightarrow> c\<lparr>sc_out_of_range := sc_out_of_range c + 1\<rparr>
     | ImplausibleRateOfChange \<Rightarrow> c\<lparr>sc_implausible := sc_implausible c + 1\<rparr>)"

definition counts_total :: "StatusCounts \<Rightarrow> nat" where
  "counts_total c = sc_valid c + sc_missing c + sc_non_finite c + sc_out_of_range c + sc_implausible c"

record 'd pipeline =
  pp_validator :: "'d MeasurementValidator"
  pp_moving_average :: "'d MovingAverage option"
  pp_exponential_filter :: "'d ExponentialFilter option"
  pp_counts :: StatusCounts
  pp_previous_time :: "'d option"
  pp_line_number :: nat
  pp_output :: string

definition bool_text :: "bool \<Rightarrow> string" where "bool_text b = (if b then ''true'' else ''false'')"

definition measure_line :: "'d binary64 \<Rightarrow> string \<Rightarrow> 'd \<Rightarrow> 'd option \<Rightarrow> 'd pipeline \<Rightarrow> 'd pipeline" where
  "measure_line db line time_seconds measured s =
     (let (validator, result) = validate db (pp_validator s) time_seconds measured;
          counts = counts_add (pp_counts s) (vr_status result);
          updated = (is_valid result \<and> vr_measured_value result \<noteq> None);
          x = the (vr_measured_value result);
          ma = (if updated then map_option (\<lambda>m. ma_update db m x) (pp_moving_average s) else pp_moving_average s);
          ef = (if updated then map_option (\<lambda>f. ef_update db f x) (pp_exponential_filter s) else pp_exponential_filter s);
          row = line @ '','' @ status_text (vr_status result) @ '',''
            @ (if is_valid result then write_optional_value db (vr_measured_value result) else []) @ '',''
            @ (case ma of None \<Rightarrow> [] | Some m \<Rightarrow> write_optional_value db (ma_current_value m)) @ '',''
            @ (case ef of None \<Rightarrow> [] | Some f \<Rightarrow> write_optional_value db (ef_current_value f)) @ '',''
            @ bool_text updated @ [CHR 0x0A]
      in s\<lparr>pp_validator := validator, pp_moving_average := ma, pp_exponential_filter := ef, pp_counts := counts,
           pp_output := pp_output s @ row\<rparr>)"

definition process_line :: "'d binary64 \<Rightarrow> nat \<Rightarrow> nat \<Rightarrow> string \<Rightarrow> 'd pipeline \<Rightarrow> string + 'd pipeline" where
  "process_line db time_column measured_column line s =
     (let number = pp_line_number s + 1; s1 = s\<lparr>pp_line_number := number\<rparr>; cells = split_csv_line line
      in if line = [] then Inr s1
         else if length cells < max time_column measured_column + 1
           then Inl (''CSV line '' @ show_nat number @ '' has too few fields'')
         else andThen (parse_finite_double db (cells ! time_column) (''time_s on CSV line '' @ show_nat number)) (\<lambda>time_seconds.
           if (case pp_previous_time s1 of None \<Rightarrow> False | Some previous \<Rightarrow> db_ge db previous time_seconds)
             then Inl (''time_s values must be strictly increasing; CSV line '' @ show_nat number)
           else andThen (parse_optional_measurement db (cells ! measured_column) number) (\<lambda>measured.
             Inr (measure_line db line time_seconds measured (s1\<lparr>pp_previous_time := Some time_seconds\<rparr>)))))"

primrec process_lines :: "'d binary64 \<Rightarrow> nat \<Rightarrow> nat \<Rightarrow> string list \<Rightarrow> 'd pipeline \<Rightarrow> 'd pipeline \<times> string option" where
  "process_lines db time_column measured_column [] s = (s, None)"
| "process_lines db time_column measured_column (line # ls) s =
     (case process_line db time_column measured_column line s of
        Inl e \<Rightarrow> (s, Some e)
      | Inr s' \<Rightarrow> process_lines db time_column measured_column ls s')"

text \<open>What precedes the loop: the two columns, the validator, the filters and the header of the output.\<close>

definition pipeline_start :: "'d binary64 \<Rightarrow> 'd filter_options \<Rightarrow> string \<Rightarrow> string + nat \<times> nat \<times> 'd pipeline" where
  "pipeline_start db opts header =
     (let columns = make_column_map (split_csv_line header)
      in andThen (require_column columns ''time_s'') (\<lambda>time_column.
         andThen (require_column columns ''measured_value'') (\<lambda>measured_column.
         andThen (newMeasurementValidator db \<lparr>vc_minimum_value = fo_minimum_value opts, vc_maximum_value = fo_maximum_value opts,
             vc_maximum_rate_per_second = fo_maximum_rate opts\<rparr>) (\<lambda>validator.
         andThen (case fo_window opts of None \<Rightarrow> Inr None | Some n \<Rightarrow> andThen (newMovingAverage db n) (\<lambda>m. Inr (Some m))) (\<lambda>ma.
         andThen (case fo_alpha opts of None \<Rightarrow> Inr None | Some a \<Rightarrow> andThen (newExponentialFilter db a) (\<lambda>f. Inr (Some f))) (\<lambda>ef.
         Inr (time_column, measured_column,
              \<lparr>pp_validator = validator, pp_moving_average = ma, pp_exponential_filter = ef,
               pp_counts = \<lparr>sc_valid = 0, sc_missing = 0, sc_non_finite = 0, sc_out_of_range = 0, sc_implausible = 0\<rparr>,
               pp_previous_time = None, pp_line_number = 1,
               pp_output = header @ '',validation_status,validated_value,moving_average,exponential,filter_updated''
                 @ [CHR 0x0A]\<rparr>)))))))"

text \<open>\<open>input\<close> is the content of the input file and \<open>writable\<close> whether the output file could be opened. The
  results are the content of the output file, if it was opened, and an error or the counts.\<close>

definition run_filter :: "'d binary64 \<Rightarrow> 'd filter_options \<Rightarrow> string option \<Rightarrow> bool \<Rightarrow> string option \<times> (string + StatusCounts)" where
  "run_filter db opts input writable =
     (case input of
        None \<Rightarrow> (None, Inl (''could not open input file: '' @ fo_input_path opts))
      | Some content \<Rightarrow>
          if \<not> writable then (None, Inl (''could not open output file: '' @ fo_output_path opts))
          else case text_lines content of
                 [] \<Rightarrow> (Some [], Inl ''input CSV is empty'')
               | header # ls \<Rightarrow>
                   (case pipeline_start db opts header of
                      Inl e \<Rightarrow> (Some [], Inl e)
                    | Inr (time_column, measured_column, s) \<Rightarrow>
                        let (s', failure) = process_lines db time_column measured_column ls s
                        in (Some (pp_output s'), case failure of None \<Rightarrow> Inr (pp_counts s') | Some e \<Rightarrow> Inl e)))"

text \<open>The exit status.\<close>

definition filter_main :: "'d binary64 \<Rightarrow> string list \<Rightarrow> (string \<Rightarrow> string option) \<Rightarrow> (string \<Rightarrow> bool) \<Rightarrow> nat" where
  "filter_main db args contents writable =
     (case parse_options db args of
        Inl e \<Rightarrow> 1
      | Inr None \<Rightarrow> 0
      | Inr (Some opts) \<Rightarrow>
          (case snd (run_filter db opts (contents (fo_input_path opts)) (writable (fo_output_path opts))) of
             Inl e \<Rightarrow> 1 | Inr counts \<Rightarrow> 0))"

section \<open>The rows\<close>

lemma split_from_split: "start \<le> length line \<Longrightarrow> split_from line start = split CHR '','' (drop start line)"
proof (induction line start rule: split_from.induct)
  case (1 line start)
  show ?case
  proof (cases "find_char CHR '','' (drop start line)")
    case None
    then have "str_find CHR '','' line start = None" using 1(2) by (simp add: str_find_def)
    then show ?thesis using None split_find [of "CHR '',''" "drop start line"] by (simp add: split_from.simps [of line start])
  next
    case (Some k)
    then have k: "k < length line - start" by (simp add: find_char_Some)
    have at: "str_find CHR '','' line start = Some (start + k)" using 1(2) Some by (simp add: str_find_def)
    have "split_from line (start + k + 1) = split CHR '','' (drop (start + k + 1) line)"
      using k by (intro 1(1) [OF at]) simp
    then show ?thesis using at Some split_find [of "CHR '',''" "drop start line"]
      by (simp add: split_from.simps [of line start] substr_def add.commute)
  qed
qed

lemma split_csv_line_split: "split_csv_line line = split CHR '','' line"
  by (simp add: split_csv_line_def split_from_split)

text \<open>A row of the file with the time, the measurement and the verdict.\<close>

type_synonym 'd row = "string \<times> 'd \<times> 'd option \<times> MeasurementStatus"

definition validated :: "'d row list \<Rightarrow> ('d \<times> 'd) list" where
  "validated rows = concat (map (\<lambda>(_, t, mv, s). if s = Valid then [(t, the mv)] else []) rows)"

definition smoothed :: "'d binary64 \<Rightarrow> 'd \<Rightarrow> 'd list \<Rightarrow> 'd option" where
  "smoothed db a xs = (case xs of [] \<Rightarrow> None
     | x # rest \<Rightarrow> Some (foldl (\<lambda>v sample. db_add db v (db_mul db a (db_sub db sample v))) x rest))"

definition mean_of_last :: "nat \<Rightarrow> rat list \<Rightarrow> rat option" where
  "mean_of_last n xs = (if xs = [] then None else Some (sum_list (last_n n xs) / of_nat (min (length xs) n)))"

definition filter_row_text :: "rat binary64 \<Rightarrow> nat option \<Rightarrow> rat option \<Rightarrow> rat list \<Rightarrow> rat row \<Rightarrow> string" where
  "filter_row_text db window alpha xs = (\<lambda>(line, t, mv, s).
     line @ '','' @ status_text s @ '','' @ (if s = Valid then db_fixed db 6 (the mv) else []) @ '',''
       @ (case window of None \<Rightarrow> [] | Some n \<Rightarrow> write_optional_value db (mean_of_last n xs)) @ '',''
       @ (case alpha of None \<Rightarrow> [] | Some a \<Rightarrow> write_optional_value db (smoothed db a xs)) @ '',''
       @ bool_text (s = Valid) @ [CHR 0x0A])"

definition rows_text :: "rat binary64 \<Rightarrow> nat option \<Rightarrow> rat option \<Rightarrow> rat row list \<Rightarrow> string" where
  "rows_text db window alpha rows =
     concat (map (\<lambda>k. filter_row_text db window alpha (map snd (validated (take (Suc k) rows))) (rows ! k)) [0..<length rows])"

lemma validated_snoc: "validated (rows @ [(l, t, mv, s)]) = validated rows @ (if s = Valid then [(t, the mv)] else [])"
  by (simp add: validated_def)

lemma rows_text_snoc:
  "rows_text db window alpha (rows @ [r]) = rows_text db window alpha rows @ filter_row_text db window alpha (map snd (validated (rows @ [r]))) r"
proof -
  have "map (\<lambda>k. filter_row_text db window alpha (map snd (validated (take (Suc k) (rows @ [r])))) ((rows @ [r]) ! k)) [0..<length rows]
      = map (\<lambda>k. filter_row_text db window alpha (map snd (validated (take (Suc k) rows))) (rows ! k)) [0..<length rows]"
    by (rule map_cong) (simp_all add: nth_append)
  then show ?thesis by (simp add: rows_text_def del: take_append map_eq_conv)
qed

lemma smoothed_snoc: "smoothed db a (xs @ [x]) = Some (case smoothed db a xs of None \<Rightarrow> x
    | Some v \<Rightarrow> db_add db v (db_mul db a (db_sub db x v)))"
  by (cases xs) (simp_all add: smoothed_def)

lemma ma_inv_value: "ma_inv xs m \<Longrightarrow> ma_current_value m = mean_of_last (length (ma_samples m)) xs"
  by (simp add: ma_inv_def mean_of_last_def Let_def)

definition config_of :: "'d filter_options \<Rightarrow> 'd ValidatorConfig" where
  "config_of opts = \<lparr>vc_minimum_value = fo_minimum_value opts, vc_maximum_value = fo_maximum_value opts,
     vc_maximum_rate_per_second = fo_maximum_rate opts\<rparr>"

definition average_follows :: "nat option \<Rightarrow> rat list \<Rightarrow> rat MovingAverage option \<Rightarrow> bool" where
  "average_follows window xs ma \<longleftrightarrow> (case window of None \<Rightarrow> ma = None
     | Some n \<Rightarrow> \<exists>m. ma = Some m \<and> ma_inv xs m \<and> length (ma_samples m) = n)"

definition smooth_follows :: "'d binary64 \<Rightarrow> 'd option \<Rightarrow> 'd list \<Rightarrow> 'd ExponentialFilter option \<Rightarrow> bool" where
  "smooth_follows db alpha xs ef \<longleftrightarrow> ef = map_option (\<lambda>a. \<lparr>ef_alpha = a, ef_current_value = smoothed db a xs\<rparr>) alpha"

definition pipe_inv :: "rat binary64 \<Rightarrow> rat filter_options \<Rightarrow> string \<Rightarrow> rat row list \<Rightarrow> rat pipeline \<Rightarrow> bool" where
  "pipe_inv db opts header rows s \<longleftrightarrow> validator_inv db (config_of opts) (validated rows) (pp_validator s)
     \<and> average_follows (fo_window opts) (map snd (validated rows)) (pp_moving_average s)
     \<and> smooth_follows db (fo_alpha opts) (map snd (validated rows)) (pp_exponential_filter s)
     \<and> counts_total (pp_counts s) = length rows \<and> sc_valid (pp_counts s) = length (validated rows)
     \<and> pp_output s = header @ rows_text db (fo_window opts) (fo_alpha opts) rows"

lemma average_follows_update: "exact db \<Longrightarrow> average_follows window xs ma \<Longrightarrow>
    average_follows window (xs @ [x]) (map_option (\<lambda>m. ma_update db m x) ma)"
  using ma_inv_update by (fastforce simp: average_follows_def split: option.splits)

lemma smooth_follows_update: "smooth_follows db alpha xs ef \<Longrightarrow>
    smooth_follows db alpha (xs @ [x]) (map_option (\<lambda>f. ef_update db f x) ef)"
  by (cases alpha) (simp_all add: smooth_follows_def smoothed_snoc ef_update_def split: option.split)

lemma average_text: "average_follows window xs ma \<Longrightarrow>
    (case ma of None \<Rightarrow> [] | Some m \<Rightarrow> write_optional_value db (ma_current_value m))
    = (case window of None \<Rightarrow> [] | Some n \<Rightarrow> write_optional_value db (mean_of_last n xs))"
  by (auto simp: average_follows_def ma_inv_value split: option.splits)

lemma smooth_text: "smooth_follows db alpha xs ef \<Longrightarrow>
    (case ef of None \<Rightarrow> [] | Some f \<Rightarrow> write_optional_value db (ef_current_value f))
    = (case alpha of None \<Rightarrow> [] | Some a \<Rightarrow> write_optional_value db (smoothed db a xs))"
  by (cases alpha) (simp_all add: smooth_follows_def)

lemma counts_add_total: "counts_total (counts_add c s) = counts_total c + 1"
  "sc_valid (counts_add c s) = sc_valid c + (if s = Valid then 1 else 0)"
  by (cases s; simp add: counts_add_def counts_total_def)+

lemma measure_line_inv:
  assumes "exact db" "pipe_inv db opts header rows s"
  shows "\<exists>st. pipe_inv db opts header (rows @ [(line, t, mv, st)]) (measure_line db line t mv s)"
proof -
  obtain v r where val: "validate db (pp_validator s) t mv = (v, r)" by (meson surj_pair)
  have inv: "validator_inv db (config_of opts) (validated rows) (pp_validator s)"
    "average_follows (fo_window opts) (map snd (validated rows)) (pp_moving_average s)"
    "smooth_follows db (fo_alpha opts) (map snd (validated rows)) (pp_exponential_filter s)"
    using assms(2) by (simp_all add: pipe_inv_def)
  note step = validator_inv_step [OF inv(1) val]
  let ?rows = "rows @ [(line, t, mv, vr_status r)]" and ?s = "measure_line db line t mv s"
  have xs: "validated ?rows = validated rows @ (if is_valid r then [(t, the mv)] else [])"
    by (simp add: validated_snoc is_valid_def)
  have ma: "average_follows (fo_window opts) (map snd (validated ?rows)) (pp_moving_average ?s)"
    and ef: "smooth_follows db (fo_alpha opts) (map snd (validated ?rows)) (pp_exponential_filter ?s)"
    using inv step xs average_follows_update [OF assms(1) inv(2), of "the mv"]
      smooth_follows_update [OF inv(3), of "the mv"]
    by (auto simp: measure_line_def val Let_def)
  have "pp_output ?s = pp_output s @ filter_row_text db (fo_window opts) (fo_alpha opts) (map snd (validated ?rows)) (line, t, mv, vr_status r)"
    using step average_text [OF ma, of db] smooth_text [OF ef]
    by (auto simp: measure_line_def val Let_def filter_row_text_def is_valid_def write_optional_value_def split: option.splits)
  moreover have "pp_validator ?s = v" "pp_counts ?s = counts_add (pp_counts s) (vr_status r)"
    by (simp_all add: measure_line_def val Let_def)
  ultimately show ?thesis
    using assms(2) ma ef step xs
    by (intro exI [of _ "vr_status r"]) (simp add: pipe_inv_def rows_text_snoc counts_add_total is_valid_def)
qed

text \<open>The cells of the two columns give the time and the measurement of a row.\<close>

definition reads_row :: "'d binary64 \<Rightarrow> nat \<Rightarrow> nat \<Rightarrow> 'd row \<Rightarrow> bool" where
  "reads_row db time_column measured_column = (\<lambda>(line, t, mv, s).
     let cells = split CHR '','' line
     in max time_column measured_column < length cells
      \<and> db_from_chars db (cells ! time_column) = Some (length (cells ! time_column), t) \<and> db_isfinite db t
      \<and> (\<exists>k. parse_optional_measurement db (cells ! measured_column) k = Inr mv))"

lemma parse_finite_double_Inr:
  "parse_finite_double db s what = Inr v \<longleftrightarrow> db_from_chars db s = Some (length s, v) \<and> db_isfinite db v"
  by (auto simp: parse_finite_double_def Let_def split: option.splits)

lemma process_line_inv:
  assumes "exact db" "pipe_inv db opts header rows s" "process_line db tc mc line s = Inr s'"
  shows "\<exists>more_rows. pipe_inv db opts header (rows @ more_rows) s' \<and> map fst more_rows = (if line = [] then [] else [line])
    \<and> list_all (reads_row db tc mc) more_rows"
proof (cases "line = []")
  case True
  then have "s' = s\<lparr>pp_line_number := pp_line_number s + 1\<rparr>" using assms(3) by (simp add: process_line_def)
  then show ?thesis using assms(2) True by (intro exI [of _ "[]"]) (simp add: pipe_inv_def)
next
  case False
  define s1 where "s1 t = s\<lparr>pp_line_number := pp_line_number s + 1, pp_previous_time := Some t\<rparr>" for t
  have "\<exists>t mv. s' = measure_line db line t mv (s1 t) \<and> reads_row db tc mc (line, t, mv, Valid)"
    using assms(3) False
    by (auto simp: process_line_def Let_def andThen_Inr parse_finite_double_Inr reads_row_def split_csv_line_split s1_def
        not_less Suc_le_eq split: if_splits)
  then obtain t mv where m: "s' = measure_line db line t mv (s1 t)" "\<And>st. reads_row db tc mc (line, t, mv, st)"
    by (auto simp: reads_row_def)
  have "pipe_inv db opts header rows (s1 t)"
    using assms(2) by (simp add: pipe_inv_def s1_def)
  from measure_line_inv [OF assms(1) this, of line t mv] obtain st where
    "pipe_inv db opts header (rows @ [(line, t, mv, st)]) s'" unfolding m(1) by blast
  then show ?thesis using False m(2) by (intro exI [of _ "[(line, t, mv, st)]"]) simp
qed

lemma process_lines_inv:
  assumes "exact db" "pipe_inv db opts header rows s" "process_lines db tc mc ls s = (s', None)"
  shows "\<exists>more_rows. pipe_inv db opts header (rows @ more_rows) s' \<and> map fst more_rows = filter (\<lambda>l. l \<noteq> []) ls
    \<and> list_all (reads_row db tc mc) more_rows"
  using assms(2,3)
proof (induction ls arbitrary: rows s)
  case Nil
  then show ?case by (intro exI [of _ "[]"]) simp
next
  case (Cons line ls)
  obtain s1 where s1: "process_line db tc mc line s = Inr s1" "process_lines db tc mc ls s1 = (s', None)"
    using Cons.prems(2) by (auto split: sum.splits)
  obtain r1 where r1: "pipe_inv db opts header (rows @ r1) s1" "map fst r1 = (if line = [] then [] else [line])"
    "list_all (reads_row db tc mc) r1"
    using process_line_inv [OF assms(1) Cons.prems(1) s1(1)] by blast
  obtain r2 where r2: "pipe_inv db opts header ((rows @ r1) @ r2) s'" "map fst r2 = filter (\<lambda>l. l \<noteq> []) ls"
    "list_all (reads_row db tc mc) r2"
    using Cons.IH [OF r1(1) s1(2)] by blast
  show ?case using r1 r2 by (intro exI [of _ "r1 @ r2"]) simp
qed

definition out_header :: "string \<Rightarrow> string" where
  "out_header header = header @ '',validation_status,validated_value,moving_average,exponential,filter_updated'' @ [CHR 0x0A]"

lemma pipeline_start_inv:
  assumes "exact db" "pipeline_start db opts header = Inr (tc, mc, s)"
  shows "pipe_inv db opts (out_header header) [] s
    \<and> make_column_map (split CHR '','' header) ''time_s'' = Some tc
    \<and> make_column_map (split CHR '','' header) ''measured_value'' = Some mc"
proof -
  let ?m = "make_column_map (split CHR '','' header)"
  obtain v ma ef where parts: "newMeasurementValidator db (config_of opts) = Inr v"
    "(case fo_window opts of None \<Rightarrow> Inr None | Some n \<Rightarrow> andThen (newMovingAverage db n) (\<lambda>m. Inr (Some m))) = Inr ma"
    "(case fo_alpha opts of None \<Rightarrow> Inr None | Some a \<Rightarrow> andThen (newExponentialFilter db a) (\<lambda>f. Inr (Some f))) = Inr ef"
    and cols: "?m ''time_s'' = Some tc" "?m ''measured_value'' = Some mc"
    and s: "s = \<lparr>pp_validator = v, pp_moving_average = ma, pp_exponential_filter = ef,
               pp_counts = \<lparr>sc_valid = 0, sc_missing = 0, sc_non_finite = 0, sc_out_of_range = 0, sc_implausible = 0\<rparr>,
               pp_previous_time = None, pp_line_number = 1, pp_output = out_header header\<rparr>"
    using assms(2)
    by (auto simp: pipeline_start_def Let_def andThen_Inr require_column_def config_of_def split_csv_line_split
        out_header_def split: option.splits)
  have "average_follows (fo_window opts) [] ma"
    using parts(2) ma_inv_new [OF assms(1)] by (auto simp: average_follows_def andThen_Inr split: option.splits)
  moreover have "smooth_follows db (fo_alpha opts) [] ef"
    using parts(3) by (auto simp: smooth_follows_def smoothed_def andThen_Inr newExponentialFilter_def split: option.splits if_splits)
  ultimately show ?thesis
    using validator_inv_new [OF parts(1)] cols
    by (simp add: s pipe_inv_def validated_def rows_text_def counts_total_def)
qed

section \<open>Property\<close>

text \<open>C6: What \<open>filter_measurements\<close> writes, in exact arithmetic. When it succeeds, the file has the header and
then one row for each line of the input that is not empty, in order: the line itself, its verdict, the
value if it is valid, the mean of the last \<open>n\<close> valid values and the exponentially smoothed one, up to
and with this row. Times and measurements are those of the two named columns; the valid values are
finite, within the limits and change from one to the next no faster than allowed; and the counts add
up to the rows.\<close>

theorem filter_rows:
  assumes "exact db" "run_filter db opts (Some content) True = (Some out, Inr counts)"
  shows "\<exists>header ls tc mc rows. text_lines content = header # ls
    \<and> make_column_map (split CHR '','' header) ''time_s'' = Some tc
    \<and> make_column_map (split CHR '','' header) ''measured_value'' = Some mc
    \<and> map fst rows = filter (\<lambda>l. l \<noteq> []) ls \<and> list_all (reads_row db tc mc) rows
    \<and> out = out_header header @ rows_text db (fo_window opts) (fo_alpha opts) rows
    \<and> successively (plausible db (config_of opts)) (validated rows)
    \<and> (\<forall>s \<in> set (validated rows). in_limits db (config_of opts) (snd s))
    \<and> counts_total counts = length rows \<and> sc_valid counts = length (validated rows)"
proof -
  obtain header ls tc mc s s' where run: "text_lines content = header # ls" "pipeline_start db opts header = Inr (tc, mc, s)"
    "process_lines db tc mc ls s = (s', None)" "out = pp_output s'" "counts = pp_counts s'"
    using assms(2) by (auto simp: run_filter_def Let_def split: list.splits sum.splits prod.splits option.splits)
  note start = pipeline_start_inv [OF assms(1) run(2)]
  obtain rows where rows: "pipe_inv db opts (out_header header) rows s'" "map fst rows = filter (\<lambda>l. l \<noteq> []) ls"
    "list_all (reads_row db tc mc) rows"
    using process_lines_inv [OF assms(1) start [THEN conjunct1] run(3)] by auto
  show ?thesis
    using run start rows
    by (intro exI [of _ header] exI [of _ ls] exI [of _ tc] exI [of _ mc] exI [of _ rows])
      (simp add: pipe_inv_def validator_inv_def)
qed

text \<open>A file of five lines with an outlier and a gap.\<close>

definition sample_csv :: string where
  "sample_csv = concat (map (\<lambda>l. l @ [CHR 0x0A]) [''time_s,measured_value'', ''0,20'', ''1,22'', ''2,99'', ''3,'', ''4,24''])"

definition sample_options :: "rat filter_options" where
  "sample_options = (default_filter_options rat_db)\<lparr>fo_input_path := ''in'', fo_window := Some 2\<rparr>"

lemma sample_filter_run: "run_filter rat_db sample_options (Some sample_csv) True
  = (Some (concat (map (\<lambda>l. l @ [CHR 0x0A]) [''time_s,measured_value,validation_status,validated_value,moving_average,exponential,filter_updated'',
       ''0,20,valid,20,20,,true'', ''1,22,valid,22,21,,true'', ''2,99,out_of_range,,21,,false'', ''3,,missing,,21,,false'',
       ''4,24,valid,24,23,,true''])),
     Inr \<lparr>sc_valid = 3, sc_missing = 1, sc_non_finite = 0, sc_out_of_range = 1, sc_implausible = 0\<rparr>)"
  by code_simp

theorem filter_rows_witness:
  "\<exists>out rows. fst (run_filter rat_db sample_options (Some sample_csv) True) = Some out \<and> length rows = 5
     \<and> out = out_header ''time_s,measured_value'' @ rows_text rat_db (Some 2) None rows"
proof -
  have csv: "text_lines sample_csv = ''time_s,measured_value'' # [''0,20'', ''1,22'', ''2,99'', ''3,'', ''4,24'']" by code_simp
  have opts: "fo_window sample_options = Some 2" "fo_alpha sample_options = None"
    by (simp_all add: sample_options_def default_filter_options_def)
  obtain rows where "length (rows :: rat row list) = 5" "fst (run_filter rat_db sample_options (Some sample_csv) True)
      = Some (out_header ''time_s,measured_value'' @ rows_text rat_db (Some 2) None rows)"
    using filter_rows [OF exact_rat_db sample_filter_run] unfolding csv opts sample_filter_run by (auto simp: counts_total_def)
  then show ?thesis by blast
qed

end
