(* ===== verification/LabParameters.thy ===== *)
theory LabParameters
  imports Filtering MonitorDevice ImageFile
begin

text \<open>
  Chapter 20, the parameters of the weather device and their compact image in a file
  (\<open>Parameters.h\<close>, with the number readers of \<open>Lab.h\<close>). \<open>std::to_string\<close> prints six decimals, so that a limit need not survive
  printing. The file calls are those of \<open>ImageFile\<close>; the content that \<open>std::ifstream\<close> yields is an
  argument.
\<close>

section \<open>Numbers\<close>

definition integer :: "string \<Rightarrow> u32 option" where
  "integer s =
     (if s = [] then None
      else let (ec, n, v) = from_chars 0 (2 ^ 32 - 1) s
           in if ec = NoErrc \<and> n = length s then map_option word_of_int v else None)"

definition real20 :: "'d binary64 \<Rightarrow> string \<Rightarrow> 'd option" where
  "real20 db s =
     (if s = [] then None
      else case db_from_chars db s of
             None \<Rightarrow> None
           | Some (n, v) \<Rightarrow> if n = length s \<and> db_isfinite db v then Some v else None)"

section \<open>Parameters\<close>

record 'd Parameters =
  pm_reportingInterval :: u32
  pm_temperatureLimit :: 'd
  pm_staleTimeout :: u32

definition defaultParameters :: "'d binary64 \<Rightarrow> 'd Parameters" where
  "defaultParameters db = \<lparr>pm_reportingInterval = 1000, pm_temperatureLimit = db_lit db ''45.0'', pm_staleTimeout = 3000\<rparr>"

definition getParameter :: "'d binary64 \<Rightarrow> 'd Parameters \<Rightarrow> string \<Rightarrow> string" where
  "getParameter db p name =
     (if name = ''ReportingInterval'' then show_nat (unat (pm_reportingInterval p))
      else if name = ''TemperatureLimit'' then db_to_string db (pm_temperatureLimit p)
      else if name = ''StaleTimeout'' then show_nat (unat (pm_staleTimeout p))
      else [])"

definition in_span :: "u32 \<Rightarrow> u32 \<Rightarrow> u32 option \<Rightarrow> bool" where
  "in_span lo hi v = (case v of None \<Rightarrow> False | Some n \<Rightarrow> n \<ge> lo \<and> n \<le> hi)"

definition limit_ok :: "'d binary64 \<Rightarrow> 'd \<Rightarrow> bool" where
  "limit_ok db d = (db_ge db d (db_lit db ''-20.0'') \<and> db_ge db (db_lit db ''125.0'') d)"

definition setParameter :: "'d binary64 \<Rightarrow> 'd Parameters \<Rightarrow> string \<Rightarrow> string \<Rightarrow> bool \<times> 'd Parameters" where
  "setParameter db p name v =
     (if name = ''ReportingInterval'' \<and> in_span 100 60000 (integer v)
        then (True, p\<lparr>pm_reportingInterval := the (integer v)\<rparr>)
      else if name = ''TemperatureLimit'' \<and> real20 db v \<noteq> None \<and> limit_ok db (the (real20 db v))
        then (True, p\<lparr>pm_temperatureLimit := the (real20 db v)\<rparr>)
      else if name = ''StaleTimeout'' \<and> in_span 250 60000 (integer v)
        then (True, p\<lparr>pm_staleTimeout := the (integer v)\<rparr>)
      else (False, p))"

section \<open>The image\<close>

definition checksum20 :: "string \<Rightarrow> u32" where
  "checksum20 content = foldl (\<lambda>sum c. (sum XOR ucast (byte_of c)) * 16777619) 2166136261 content"

text \<open>\<open>std::getline(parts, field, ',')\<close>: the field and the rest; it fails where nothing is left.\<close>

definition getline :: "string \<Rightarrow> (string \<times> string) option" where
  "getline s =
     (if s = [] then None else Some (takeWhile (\<lambda>c. c \<noteq> CHR '','') s, drop 1 (dropWhile (\<lambda>c. c \<noteq> CHR '','') s)))"

definition restore_fields :: "'d binary64 \<Rightarrow> string \<Rightarrow> string \<Rightarrow> string \<Rightarrow> 'd Parameters option" where
  "restore_fields db interval limit timeout =
     (let (ok1, r1) = setParameter db (defaultParameters db) ''ReportingInterval'' interval
      in if \<not> ok1 then None
         else let (ok2, r2) = setParameter db r1 ''TemperatureLimit'' limit
      in if \<not> ok2 then None
         else let (ok3, r3) = setParameter db r2 ''StaleTimeout'' timeout
      in if \<not> ok3 then None else Some r3)"

definition restore_parts :: "'d binary64 \<Rightarrow> string \<Rightarrow> 'd Parameters option" where
  "restore_parts db parts =
     (case getline parts of
        None \<Rightarrow> None
      | Some (interval, parts1) \<Rightarrow>
          (case getline parts1 of
             None \<Rightarrow> None
           | Some (limit, parts2) \<Rightarrow>
               (case getline parts2 of
                  None \<Rightarrow> None
                | Some (timeout, parts3) \<Rightarrow> if parts3 \<noteq> [] then None else restore_fields db interval limit timeout)))"

text \<open>\<open>data.substr(7, last - 7)\<close>, where the subtraction wraps for a last comma before position 7.\<close>

definition readParameters :: "'d binary64 \<Rightarrow> string option \<Rightarrow> 'd Parameters \<Rightarrow> bool \<times> 'd Parameters" where
  "readParameters db input parameters =
     (case input of
        None \<Rightarrow> (False, parameters)
      | Some data \<Rightarrow>
          if length data > 128 \<or> take 7 data \<noteq> ''CH20,1,'' then (False, parameters)
          else (case str_rfind CHR '','' data of
                  None \<Rightarrow> (False, parameters)
                | Some k \<Rightarrow>
                    if integer (drop (k + 1) data) = None
                       \<or> checksum20 (take k data) \<noteq> the (integer (drop (k + 1) data)) then (False, parameters)
                    else (case restore_parts db (if k < 7 then drop 7 data else substr data 7 (k - 7)) of
                            None \<Rightarrow> (False, parameters)
                          | Some restored \<Rightarrow> (True, restored))))"

definition image_body :: "'d binary64 \<Rightarrow> 'd Parameters \<Rightarrow> string" where
  "image_body db p = ''CH20,1,'' @ show_nat (unat (pm_reportingInterval p)) @ '','' @ db_to_string db (pm_temperatureLimit p)
     @ '','' @ show_nat (unat (pm_staleTimeout p))"

definition parameters_image :: "'d binary64 \<Rightarrow> 'd Parameters \<Rightarrow> string" where
  "parameters_image db p = image_body db p @ '','' @ show_nat (unat (checksum20 (image_body db p)))"

definition writeParameters :: "'w file_os \<Rightarrow> 'd binary64 \<Rightarrow> string \<Rightarrow> 'd Parameters \<Rightarrow> 'w \<Rightarrow> 'w \<times> bool" where
  "writeParameters os db path p w =
     (let parent = (if parent_path path = [] then ''.'' else parent_path path);
          bs = map byte_of (parameters_image db p);
          temporary = temporaryName path;
          (w1, opened) = fo_create os temporary w
      in case opened of
           Inl _ \<Rightarrow> (w1, False)
         | Inr fd \<Rightarrow>
             let (w2, count) = fo_write os fd bs w1;
                 complete = (count = Inr (length bs));
                 (w3, flushed) = (if complete then fo_fsync os fd w2 else (w2, False));
                 (w4, closed) = fo_close os fd w3
             in if \<not> flushed \<or> \<not> closed then (fo_remove os temporary w4, False)
                else let (w5, renamed) = fo_rename os temporary path w4
                     in if \<not> renamed then (fo_remove os temporary w5, False)
                else let (w6, dir) = fo_open_dir os parent w5
                     in case dir of
                          Inl _ \<Rightarrow> (w6, False)
                        | Inr dfd \<Rightarrow> let (w7, durable) = fo_fsync os dfd w6 in (fst (fo_close os dfd w7), durable))"

section \<open>Parameters in range\<close>

definition parameters_ok :: "'d binary64 \<Rightarrow> 'd Parameters \<Rightarrow> bool" where
  "parameters_ok db p \<longleftrightarrow> 100 \<le> pm_reportingInterval p \<and> pm_reportingInterval p \<le> 60000
     \<and> limit_ok db (pm_temperatureLimit p) \<and> 250 \<le> pm_staleTimeout p \<and> pm_staleTimeout p \<le> 60000"

lemma setParameter_ok: "parameters_ok db p \<Longrightarrow> setParameter db p name v = (ok, p') \<Longrightarrow> parameters_ok db p' \<and> (\<not> ok \<longrightarrow> p' = p)"
  by (auto simp: setParameter_def parameters_ok_def in_span_def split: if_splits option.splits)

lemma defaultParameters_ok: "limit_ok db (db_lit db ''45.0'') \<Longrightarrow> parameters_ok db (defaultParameters db)"
  by (simp add: parameters_ok_def defaultParameters_def)

lemma restore_fields_ok:
  assumes "limit_ok db (db_lit db ''45.0'')" "restore_fields db i l n = Some p"
  shows "parameters_ok db p"
proof -
  obtain o1 r1 where r1: "setParameter db (defaultParameters db) ''ReportingInterval'' i = (o1, r1)" by (meson surj_pair)
  obtain o2 r2 where r2: "setParameter db r1 ''TemperatureLimit'' l = (o2, r2)" by (meson surj_pair)
  obtain o3 r3 where r3: "setParameter db r2 ''StaleTimeout'' n = (o3, r3)" by (meson surj_pair)
  have "parameters_ok db r1" using setParameter_ok [OF defaultParameters_ok [OF assms(1)] r1] by simp
  then have "parameters_ok db r2" using setParameter_ok [OF _ r2] by simp
  then have "parameters_ok db r3" using setParameter_ok [OF _ r3] by simp
  moreover have "p = r3" using assms(2) r1 r2 r3 by (simp add: restore_fields_def split: if_splits)
  ultimately show ?thesis by simp
qed

lemma restore_parts_ok:
  "limit_ok db (db_lit db ''45.0'') \<Longrightarrow> restore_parts db s = Some p \<Longrightarrow> parameters_ok db p"
  by (clarsimp simp: restore_parts_def split: option.splits if_splits) (erule (1) restore_fields_ok)

lemma readParameters_ok:
  assumes "limit_ok db (db_lit db ''45.0'')" "parameters_ok db p"
  shows "parameters_ok db (snd (readParameters db input p))"
  using assms restore_parts_ok [OF assms(1)]
  by (auto simp: readParameters_def split: option.splits)

section \<open>The checksum\<close>

lemma fnv_inj: "x * (16777619 :: u32) = y * 16777619 \<Longrightarrow> x = y"
proof -
  assume eq: "x * (16777619 :: u32) = y * 16777619"
  have inv: "(16777619 :: u32) * 899433627 = 1" by simp
  have undo: "(z * 16777619) * 899433627 = z" for z :: u32 unfolding mult.assoc inv by simp
  show ?thesis using undo [of x] undo [of y] unfolding eq by simp
qed

lemma xor_right_inj: "(a :: u32) XOR x = b XOR x \<longleftrightarrow> a = b"
proof
  assume "a XOR x = b XOR x"
  then have "(a XOR x) XOR x = (b XOR x) XOR x" by simp
  then show "a = b" by (simp add: xor.assoc)
qed simp

lemma checksum20_later: "a \<noteq> b \<Longrightarrow> foldl (\<lambda>sum c. (sum XOR ucast (byte_of c)) * (16777619 :: u32)) a s
    \<noteq> foldl (\<lambda>sum c. (sum XOR ucast (byte_of c)) * 16777619) b s"
proof (induction s arbitrary: a b)
  case (Cons c s)
  have "(a XOR ucast (byte_of c)) * (16777619 :: u32) \<noteq> (b XOR ucast (byte_of c)) * 16777619"
    using fnv_inj Cons.prems xor_right_inj by metis
  then show ?case using Cons.IH by simp
qed simp

lemma ucast_byte_inj: "(ucast (byte_of b) :: u32) = ucast (byte_of c) \<longleftrightarrow> b = c"
proof -
  have "unat (ucast (byte_of d) :: u32) = code d" for d
    by (simp add: unsigned_ucast_eq take_bit_nat_eq_self code_less [THEN less_trans])
  then show ?thesis by (metis code_inject)
qed

interpretation fnv: checksum checksum20
proof
  fix b b' :: char and pre post
  assume "b \<noteq> b'"
  let ?s = "foldl (\<lambda>sum c. (sum XOR ucast (byte_of c)) * (16777619 :: u32)) 2166136261 pre"
  have "?s XOR ucast (byte_of b) \<noteq> ?s XOR ucast (byte_of b')"
    using \<open>b \<noteq> b'\<close> ucast_byte_inj xor_right_inj [of "ucast (byte_of b)" ?s] by (simp add: xor.commute)
  then have "(?s XOR ucast (byte_of b)) * 16777619 \<noteq> (?s XOR ucast (byte_of b')) * 16777619"
    using fnv_inj by metis
  then show "checksum20 (pre @ b # post) \<noteq> checksum20 (pre @ b' # post)"
    unfolding checksum20_def by (simp add: checksum20_later)
qed

section \<open>Writing and reading\<close>

lemma show_nat_no_comma: "CHR '','' \<notin> set (show_nat n)"
  using show_nat_digits [of n] by (auto simp: list_all_iff dest!: bspec digit_range simp: code_def)

lemma integer_show: "integer (show_nat (unat v)) = Some v"
proof -
  have "show_int (uint v) = show_nat (unat v)" by (simp add: show_int_def)
  moreover have "uint v \<le> 2 ^ 32 - 1" using uint_lt2p [of v] by simp
  ultimately have "from_chars 0 (2 ^ 32 - 1) (show_nat (unat v)) = (NoErrc, length (show_nat (unat v)), Some (uint v))"
    using from_chars_show [of 0 "uint v" "2 ^ 32 - 1"] by simp
  then show ?thesis by (simp add: integer_def)
qed

lemma getline_comma: "CHR '','' \<notin> set w \<Longrightarrow> getline (w @ CHR '','' # s) = Some (w, s)"
  by (auto simp: getline_def takeWhile_append dropWhile_append)

lemma getline_end:
  assumes "CHR '','' \<notin> set w" "w \<noteq> []"
  shows "getline w = Some (w, [])"
proof -
  have "dropWhile (\<lambda>c. c \<noteq> CHR '','') w = []" "takeWhile (\<lambda>c. c \<noteq> CHR '','') w = w"
    using assms(1) by (auto simp: dropWhile_eq_Nil_conv takeWhile_eq_all_conv)
  then show ?thesis using assms(2) unfolding getline_def by (simp only:) simp
qed

lemma str_rfind_last: "c \<notin> set ws \<Longrightarrow> str_rfind c (xs @ c # ws) = Some (length xs)"
  by (simp add: str_rfind_def find_char_append)

text \<open>\<open>std::to_string\<close> and \<open>std::from_chars\<close>: the text printed for \<open>d\<close> is read as \<open>d'\<close>. The text of a double
  within the limits has at most ten characters; 90 leave the image below its 128.\<close>

definition printed_as :: "'d binary64 \<Rightarrow> 'd \<Rightarrow> 'd \<Rightarrow> bool" where
  "printed_as db d d' \<longleftrightarrow> real20 db (db_to_string db d) = Some d' \<and> CHR '','' \<notin> set (db_to_string db d)
     \<and> length (db_to_string db d) \<le> 90"

lemma restore_fields_printed:
  assumes "parameters_ok db p" "printed_as db (pm_temperatureLimit p) d" "limit_ok db d"
  shows "restore_fields db (show_nat (unat (pm_reportingInterval p))) (db_to_string db (pm_temperatureLimit p))
     (show_nat (unat (pm_staleTimeout p))) = Some (p\<lparr>pm_temperatureLimit := d\<rparr>)"
  using assms
  by (simp add: restore_fields_def setParameter_def integer_show in_span_def parameters_ok_def printed_as_def
      defaultParameters_def)

lemma parameters_image_length:
  assumes "parameters_ok db p" "length (db_to_string db (pm_temperatureLimit p)) \<le> 90"
  shows "length (parameters_image db p) \<le> 128"
proof -
  have "unat (pm_reportingInterval p) \<le> 60000" "unat (pm_staleTimeout p) \<le> 60000"
    using assms(1) by (simp_all add: parameters_ok_def word_le_nat_alt)
  then have "length (show_nat (unat (pm_reportingInterval p))) \<le> 5" "length (show_nat (unat (pm_staleTimeout p))) \<le> 5"
    using length_show_nat [of _ 5] by simp_all
  moreover have "length (show_nat (unat (checksum20 (image_body db p)))) \<le> 10"
    by (rule length_show_nat, rule less_trans [OF unsigned_less]) simp_all
  ultimately show ?thesis using assms(2) by (simp add: parameters_image_def image_body_def)
qed

lemma read_image:
  assumes "parameters_ok db p" "printed_as db (pm_temperatureLimit p) d" "limit_ok db d"
  shows "readParameters db (Some (parameters_image db p)) old = (True, p\<lparr>pm_temperatureLimit := d\<rparr>)"
proof -
  define I L T where "I = show_nat (unat (pm_reportingInterval p))" and "L = db_to_string db (pm_temperatureLimit p)"
    and "T = show_nat (unat (pm_staleTimeout p))"
  define C where "C = checksum20 (image_body db p)"
  have L: "CHR '','' \<notin> set L" "length L \<le> 90" using assms(2) by (simp_all add: printed_as_def L_def)
  have body: "image_body db p = ''CH20,1,'' @ I @ CHR '','' # L @ CHR '','' # T"
    by (simp add: image_body_def I_def L_def T_def)
  have image: "parameters_image db p = image_body db p @ CHR '','' # show_nat (unat C)"
    by (simp add: parameters_image_def C_def)
  have at: "str_rfind CHR '','' (parameters_image db p) = Some (length (image_body db p))"
    unfolding image by (rule str_rfind_last [OF show_nat_no_comma])
  have len: "length (parameters_image db p) \<le> 128"
    using parameters_image_length [OF assms(1)] L(2) by (simp add: L_def)
  have "getline (I @ CHR '','' # L @ CHR '','' # T) = Some (I, L @ CHR '','' # T)"
    "getline (L @ CHR '','' # T) = Some (L, T)" "getline T = Some (T, [])"
    using L(1) show_nat_no_comma by (simp_all add: getline_comma getline_end I_def T_def)
  then have parts: "restore_parts db (I @ CHR '','' # L @ CHR '','' # T) = Some (p\<lparr>pm_temperatureLimit := d\<rparr>)"
    using restore_fields_printed [OF assms] by (simp add: restore_parts_def I_def L_def T_def)
  have cut: "take 7 (parameters_image db p) = ''CH20,1,''" "\<not> length (image_body db p) < 7"
    "substr (parameters_image db p) 7 (length (image_body db p) - 7) = I @ CHR '','' # L @ CHR '','' # T"
    unfolding image body by (simp_all add: substr_def)
  have "drop (length (image_body db p) + 1) (parameters_image db p) = show_nat (unat C)"
    "take (length (image_body db p)) (parameters_image db p) = image_body db p" by (simp_all add: image)
  then show ?thesis
    using at len cut parts integer_show [of C] by (simp add: readParameters_def C_def)
qed

lemma damage_noticed:
  assumes "fst (readParameters db (Some (body @ CHR '','' # digits)) old)" "CHR '','' \<notin> set digits"
    and "i < length body" "c \<noteq> body ! i"
  shows "readParameters db (Some (body[i := c] @ CHR '','' # digits)) old' = (False, old')"
proof -
  have at: "str_rfind CHR '','' (b @ CHR '','' # digits) = Some (length b)" for b
    by (rule str_rfind_last [OF assms(2)])
  have "checksum20 body = the (integer digits)"
    using assms(1) at [of body] by (simp add: readParameters_def split: if_splits option.splits)
  moreover have "checksum20 (body[i := c]) \<noteq> checksum20 body" by (rule fnv.chk_update [OF assms(3,4)])
  ultimately show ?thesis using at [of "body[i := c]"] by (simp add: readParameters_def)
qed

section \<open>Saving to a file\<close>

text \<open>The file is replaced whole or not at all, and no other file than it and the temporary one is touched.\<close>

definition saved_or_kept :: "('w \<Rightarrow> string \<Rightarrow> bytes option list) \<Rightarrow> 'w \<Rightarrow> 'w \<Rightarrow> string \<Rightarrow> bytes \<Rightarrow> bool \<Rightarrow> bool" where
  "saved_or_kept versions w w' path bs ok \<longleftrightarrow>
     (versions w' path = versions w path \<and> \<not> ok \<or> versions w' path = versions w path @ [Some bs])
     \<and> (\<forall>q. q \<noteq> path \<longrightarrow> q \<noteq> temporaryName path \<longrightarrow> versions w' q = versions w q)"

lemma saved_or_kept_kept: "only_file versions w w' (temporaryName path) \<Longrightarrow> saved_or_kept versions w w' path bs False"
  by (simp add: saved_or_kept_def only_file_def temporaryName_other)

lemma write_once:
  assumes "posix_files os versions opened" "fo_create os p w = (w1, Inr fd)" "fo_write os fd bs w1 = (w2, count)" "bs \<noteq> []"
  shows "only_file versions w w2 p" "count = Inr (length bs) \<Longrightarrow> now (versions w2 p) = Some bs"
proof -
  have made: "versions w1 = (versions w)(p := versions w p @ [Some []])" "opened w1 fd = Some p"
    using posix_create [OF assms(1,2)] by simp_all
  have w1: "fo_write os fd (drop 0 bs) w1 = (w2, count)" "now (versions w1 p) = Some (take 0 bs)"
    using assms(3) made(1) by (simp_all add: now_def)
  note step = write_step [OF assms(1) w1(1) made(2) w1(2)]
  show "only_file versions w w2 p" using step(2) made(1) by (simp add: only_file_def)
  show "now (versions w2 p) = Some bs" if "count = Inr (length bs)" using step(3) that by simp
qed

lemma writeParameters_outcome:
  assumes posix: "posix_files os versions opened" and run: "writeParameters os db path p w = (w', ok)"
  shows "saved_or_kept versions w w' path (map byte_of (parameters_image db p)) ok"
proof -
  let ?t = "temporaryName path" and ?b = "map byte_of (parameters_image db p)"
  let ?d = "if parent_path path = [] then ''.'' else parent_path path"
  obtain w1 made where made: "fo_create os ?t w = (w1, made)" by fastforce
  show ?thesis
  proof (cases made)
    case (Inl e)
    then have "versions w1 = versions w" "w' = w1" "\<not> ok"
      using posix_create [OF posix made] run by (auto simp: writeParameters_def made Let_def)
    then show ?thesis by (simp add: saved_or_kept_def)
  next
    case (Inr fd)
    obtain w2 count where wr: "fo_write os fd ?b w1 = (w2, count)" by fastforce
    let ?complete = "count = Inr (length (parameters_image db p))"
    obtain w3 flushed where sync: "(if ?complete then fo_fsync os fd w2 else (w2, False)) = (w3, flushed)" by fastforce
    obtain w4 closed where close: "fo_close os fd w3 = (w4, closed)" by fastforce
    obtain w5 renamed where ren: "fo_rename os ?t path w4 = (w5, renamed)" by fastforce
    obtain w6 dir where dir: "fo_open_dir os ?d w5 = (w6, dir)" by fastforce
    have "?b \<noteq> []" by (simp add: parameters_image_def)
    from write_once [OF posix made [unfolded Inr] wr this]
    have tmp: "only_file versions w w2 ?t" "?complete \<Longrightarrow> now (versions w2 ?t) = Some ?b" by simp_all
    have kept: "only_file versions w w4 ?t" "?complete \<Longrightarrow> now (versions w4 ?t) = Some ?b"
      using write_closed [OF posix tmp(1) _ sync close] tmp(2) by blast+
    note defs = writeParameters_def made Inr wr sync close Let_def ren dir
    show ?thesis
    proof (cases "flushed \<and> closed")
      case False
      then have "w' = fo_remove os ?t w4" "\<not> ok" using run by (auto simp: defs)
      then show ?thesis using saved_or_kept_kept only_file_trans [OF kept(1) only_file_silent(4) [OF posix]] by simp
    next
      case True
      have ?complete using sync True by (auto split: if_splits)
      note rep = replace_step [OF posix ren kept(2) [OF this]]
      have w6: "versions w6 = versions w5" using posix_silent(3) [OF posix, of ?d w5] by (simp add: dir)
      have "versions w' = (if renamed then versions w5 else versions w') \<and> (\<not> renamed \<longrightarrow> \<not> ok \<and> w' = fo_remove os ?t w5)"
        using run True w6 posix_silent [OF posix] by (auto simp: defs split: sum.splits prod.splits) (metis fst_conv)+
      then show ?thesis
        using rep kept(1) only_file_silent(4) [OF posix, of w5 ?t]
        by (cases renamed) (auto simp: saved_or_kept_def only_file_def temporaryName_other)
    qed
  qed
qed

end
