(* ===== verification/PredictableDevice.thy ===== *)
theory PredictableDevice
  imports LabParameters
begin

text \<open>
  Chapter 20, the weather device (\<open>weather_device.cpp\<close>) with the sentences of Chapter 15, the checkers of
  Chapter 19, the filter of Chapter 7 and the parameters of \<open>LabParameters\<close>; its sensor, its command
  client and its telemetry listener are in \<open>PredictableLab\<close>. A handler returns the device and the
  datagrams it sends; times are nanoseconds of the steady clock.
\<close>

section \<open>Datagrams\<close>

definition maxDatagram :: nat where "maxDatagram = 256"

datatype outgoing = Telemetry string | Reply Endpoint string

text \<open>What is given to \<open>sendto\<close>, if the sentence fits its buffer; the results are ignored by the device.\<close>

definition send20 :: "(string \<Rightarrow> outgoing) \<Rightarrow> string \<Rightarrow> outgoing list" where
  "send20 target body = (case build_datagram body of None \<Rightarrow> [] | Some d \<Rightarrow> [target d])"

text \<open>\<open>recvfrom\<close> fills a buffer of one byte more than a datagram may have.\<close>

definition receive20 :: "string \<Rightarrow> ParsedSentence option" where
  "receive20 datagram =
     (let got = take (maxDatagram + 1) datagram
      in if got = [] \<or> length got > maxDatagram then None
         else case parseSentence got of (status, parsed) \<Rightarrow> if status = ParseOk then Some parsed else None)"

section \<open>The device\<close>

record 'd Device =
  dv_params :: "'d Parameters"
  dv_filter :: "'d ExponentialFilter"
  dv_rate :: "'d RateOfChangeChecker"
  dv_stuck :: "'d StuckSensorChecker"
  dv_lastReceived :: "int option"
  dv_nextReport :: int
  dv_quality :: string
  dv_reason :: string
  dv_sequence :: u32
  dv_staleReported :: bool

text \<open>\<open>rate{8.0}\<close> as the bits of the double.\<close>

definition newDevice :: "'d binary64 \<Rightarrow> int \<Rightarrow> 'd Device" where
  "newDevice db clock =
     \<lparr>dv_params = defaultParameters db, dv_filter = \<lparr>ef_alpha = db_lit db ''0.25'', ef_current_value = None\<rparr>,
      dv_rate = \<lparr>rc_maximumRate = 0x4020000000000000, rc_previousValue = None, rc_previousTimestamp = None\<rparr>,
      dv_stuck = \<lparr>ss_stuckThreshold = 5, ss_identicalCount = 0, ss_previousValue = None\<rparr>,
      dv_lastReceived = None, dv_nextReport = clock, dv_quality = ''Invalid'', dv_reason = ''NO_DATA'',
      dv_sequence = 0, dv_staleReported = False\<rparr>"

definition report_body :: "'d binary64 \<Rightarrow> 'd Device \<Rightarrow> string \<Rightarrow> string" where
  "report_body db d kind =
     kind @ '','' @ show_nat (unat (dv_sequence d)) @ '',''
       @ (case ef_current_value (dv_filter d) of None \<Rightarrow> ''NA'' | Some v \<Rightarrow> db_fixed db 2 v)
       @ '','' @ dv_quality d @ '','' @ dv_reason d"

definition publish :: "'d binary64 \<Rightarrow> 'd Device \<Rightarrow> string \<Rightarrow> outgoing list" where
  "publish db d kind = send20 Telemetry (report_body db d kind)"

text \<open>The verdict on a reading: the device with its checkers and its filter.\<close>

definition judge :: "'d binary64 \<Rightarrow> int \<Rightarrow> string \<Rightarrow> string \<Rightarrow> 'd Device \<Rightarrow> 'd Device" where
  "judge db clock reading mode d =
     (let bad = (\<lambda>why. d\<lparr>dv_quality := ''Invalid'', dv_reason := why\<rparr>)
      in if mode = ''FAULT'' then bad ''SENSOR_FAULT''
         else if mode \<noteq> ''OK'' \<and> mode \<noteq> ''JUMP'' \<and> mode \<noteq> ''RANGE'' \<and> mode \<noteq> ''STUCK'' then bad ''BAD_SENSOR_MODE''
         else case real20 db reading of
                None \<Rightarrow> bad ''BAD_VALUE''
              | Some v \<Rightarrow>
                  if \<not> inRange (db_arithmetic db)
                      \<lparr>rf_lower = db_lit db ''-40.0'', rf_upper = pm_temperatureLimit (dv_params d)\<rparr> v then bad ''RANGE''
                  else let (rate, normalRate) = changeNormal (db_arithmetic db) (dv_rate d) v clock;
                           (stuck, normalStuck) = valueNormal (db_arithmetic db) (dv_stuck d) v;
                           d1 = d\<lparr>dv_rate := rate, dv_stuck := stuck,
                             dv_quality := (if normalRate \<and> normalStuck then ''Good'' else ''Suspect''),
                             dv_reason := (if \<not> normalRate then ''RATE'' else if \<not> normalStuck then ''STUCK'' else ''OK'')\<rparr>
                       in if dv_quality d1 = ''Good'' then d1\<lparr>dv_filter := ef_update db (dv_filter d1) v\<rparr> else d1)"

definition sensor :: "'d binary64 \<Rightarrow> int \<Rightarrow> ParsedSentence \<Rightarrow> 'd Device \<Rightarrow> 'd Device \<times> outgoing list" where
  "sensor db clock msg d =
     (if pa_identifier msg \<noteq> ''WXSEN'' \<or> pa_fieldCount msg \<noteq> 3 then (d, [])
      else case integer (pa_fields msg ! 0) of
             None \<Rightarrow> (d, [])
           | Some seq \<Rightarrow>
               let d1 = judge db clock (pa_fields msg ! 1) (pa_fields msg ! 2)
                     (d\<lparr>dv_lastReceived := Some clock, dv_staleReported := False, dv_sequence := seq\<rparr>)
               in (d1, if dv_quality d1 \<noteq> ''Good'' then publish db d1 ''WXDIA'' else []))"

definition ms :: "u32 \<Rightarrow> int" where "ms n = uint n * 1000000"

definition check_stale :: "'d binary64 \<Rightarrow> int \<Rightarrow> 'd Device \<Rightarrow> 'd Device \<times> outgoing list" where
  "check_stale db clock d =
     (if \<not> dv_staleReported d \<and> (case dv_lastReceived d of None \<Rightarrow> False
          | Some received \<Rightarrow> clock - received \<ge> ms (pm_staleTimeout (dv_params d)))
      then let d1 = d\<lparr>dv_staleReported := True, dv_quality := ''Suspect'', dv_reason := ''STALE''\<rparr>
           in (d1, publish db d1 ''WXDIA'')
      else (d, []))"

definition tick :: "'d binary64 \<Rightarrow> int \<Rightarrow> 'd Device \<Rightarrow> 'd Device \<times> outgoing list" where
  "tick db clock d =
     (let (d1, out) = check_stale db clock d
      in if clock \<ge> dv_nextReport d1
         then (d1\<lparr>dv_nextReport := clock + ms (pm_reportingInterval (dv_params d1))\<rparr>, out @ publish db d1 ''WXTMP'')
         else (d1, out))"

text \<open>The work of a command: the device, the telemetry, the world, the verdict and its detail.\<close>

definition perform :: "'w file_os \<Rightarrow> 'd binary64 \<Rightarrow> string \<Rightarrow> int \<Rightarrow> ParsedSentence \<Rightarrow> 'd Device \<Rightarrow> 'w
    \<Rightarrow> 'd Device \<times> outgoing list \<times> 'w \<times> string \<times> string" where
  "perform os db path clock msg d w =
     (let f = pa_fields msg; n = pa_fieldCount msg; p = dv_params d;
          (setOk, p1) = setParameter db p (f ! 2) (f ! 3)
      in if f ! 1 = ''STATUS'' \<and> n = 2 then (d, publish db d ''WXSTS'', w, ''ACCEPTED'', ''OK'')
         else if f ! 1 = ''PARAMETERS'' \<and> n = 2
           then (d, send20 Telemetry (''WXPAR,ReportingInterval,'' @ getParameter db p ''ReportingInterval''
                    @ '',TemperatureLimit,'' @ getParameter db p ''TemperatureLimit''
                    @ '',StaleTimeout,'' @ getParameter db p ''StaleTimeout''), w, ''ACCEPTED'', ''OK'')
         else if f ! 1 = ''GET'' \<and> n = 3 \<and> getParameter db p (f ! 2) \<noteq> []
           then (d, send20 Telemetry (''WXPAR,'' @ f ! 2 @ '','' @ getParameter db p (f ! 2)), w, ''ACCEPTED'', ''OK'')
         else if f ! 1 = ''SET'' \<and> n = 4 \<and> setOk
           then (let d1 = d\<lparr>dv_params := p1\<rparr>
                 in if f ! 2 = ''ReportingInterval'' then d1\<lparr>dv_nextReport := clock + ms (pm_reportingInterval p1)\<rparr> else d1,
                 [], w, ''ACCEPTED'', ''OK'')
         else if f ! 1 = ''SAVE'' \<and> n = 2
           then let (w1, saved) = writeParameters os db path p w
                in if saved then (d, [], w1, ''ACCEPTED'', ''OK'') else (d, [], w1, ''REJECTED'', ''SAVE_FAILED'')
         else (d, [], w, ''REJECTED'', ''INVALID_COMMAND_OR_VALUE''))"

definition command :: "'w file_os \<Rightarrow> 'd binary64 \<Rightarrow> string \<Rightarrow> int \<Rightarrow> ParsedSentence \<Rightarrow> Endpoint \<Rightarrow> 'd Device \<Rightarrow> 'w
    \<Rightarrow> 'd Device \<times> outgoing list \<times> 'w" where
  "command os db path clock msg sender d w =
     (if pa_identifier msg \<noteq> ''WXCMD'' \<or> pa_fieldCount msg < 2 \<or> pa_fields msg ! 0 = [] then (d, [], w)
      else let (d1, out, w1, verdict, detail) = perform os db path clock msg d w
           in (d1, out @ send20 (Reply sender) (''WXACK,'' @ pa_fields msg ! 0 @ '','' @ verdict @ '','' @ detail), w1))"

section \<open>The program\<close>

fun state_file :: "string list \<Rightarrow> string \<Rightarrow> string" where
  "state_file (a # v # rest) path = (if a = ''--state-file'' then state_file rest v else state_file (v # rest) path)"
| "state_file _ path = path"

definition option_key :: "string \<Rightarrow> string" where
  "option_key arg = (if arg = ''--reporting-ms'' then ''ReportingInterval''
     else if arg = ''--temperature-limit'' then ''TemperatureLimit''
     else if arg = ''--stale-ms'' then ''StaleTimeout'' else [])"

text \<open>\<open>None\<close>: the exception with the usage.\<close>

fun apply_args :: "'d binary64 \<Rightarrow> string list \<Rightarrow> 'd Parameters \<Rightarrow> 'd Parameters option" where
  "apply_args db [] p = Some p"
| "apply_args db [a] p = None"
| "apply_args db (a # v # rest) p =
     (if a = ''--state-file'' then apply_args db rest p
      else if option_key a = [] then None
      else (case setParameter db p (option_key a) v of (ok, p1) \<Rightarrow> if ok then apply_args db rest p1 else None))"

definition device_start :: "'d binary64 \<Rightarrow> string list \<Rightarrow> (string \<Rightarrow> string option) \<Rightarrow> int \<Rightarrow> 'd Device option" where
  "device_start db args contents clock =
     (let path = state_file args ''ch20_weather.state'';
          d = newDevice db clock;
          (restored, p) = readParameters db (contents path) (dv_params d)
      in map_option (\<lambda>p1. d\<lparr>dv_params := p1\<rparr>) (apply_args db args p))"

text \<open>One turn of the loop: a datagram of the sensor and one for a command, if there are any, each with the
  time its handler reads.\<close>

definition device_turn20 :: "'w file_os \<Rightarrow> 'd binary64 \<Rightarrow> string \<Rightarrow> (string \<times> int) option \<Rightarrow> (string \<times> Endpoint \<times> int) option
    \<Rightarrow> int \<Rightarrow> 'd Device \<Rightarrow> 'w \<Rightarrow> 'd Device \<times> outgoing list \<times> 'w" where
  "device_turn20 os db path sensed commanded clock d w =
     (let (d1, out1) = (case sensed of
              Some (datagram, t) \<Rightarrow> (case receive20 datagram of Some parsed \<Rightarrow> sensor db t parsed d | None \<Rightarrow> (d, []))
            | None \<Rightarrow> (d, []));
          (d2, out2, w2) = (case commanded of
              Some (datagram, sender, t) \<Rightarrow>
                (case receive20 datagram of Some parsed \<Rightarrow> command os db path t parsed sender d1 w | None \<Rightarrow> (d1, [], w))
            | None \<Rightarrow> (d1, [], w));
          (d3, out3) = tick db clock d2
      in (d3, out1 @ out2 @ out3, w2))"

section \<open>Which sentence a datagram is\<close>

definition kind_of :: "outgoing \<Rightarrow> string" where
  "kind_of x = take 6 (case x of Telemetry s \<Rightarrow> s | Reply _ s \<Rightarrow> s)"

lemma kind_of_simps [simp]: "kind_of (Telemetry s) = take 6 s" "kind_of (Reply e s) = take 6 s"
  by (simp_all add: kind_of_def)

lemma build_datagram_prefix:
  assumes "build_datagram (k @ rest) = Some s" "NUL \<notin> set k"
  shows "take (Suc (length k)) s = CHR ''$'' # k"
proof -
  define text_out where "text_out = CHR ''$'' # printf_string (k @ rest) @ CHR ''*'' # printf_hex2 (nmeaChecksum (k @ rest)) @ [CHR 0x0D, CHR 0x0A]"
  obtain d n where sn: "snprintf (replicate MaxSentenceSize NUL) text_out = (d, n)" by (meson surj_pair)
  have n: "n < length d" "s = take n d"
    using assms(1) sn by (auto simp: build_datagram_def buildSentence_def text_out_def [symmetric] Let_def split: if_splits)
  have len: "length d = length (replicate MaxSentenceSize NUL)" "n = length text_out"
    using length_snprintf [of "replicate MaxSentenceSize NUL" text_out] sn by (simp, auto simp: snprintf_def Let_def)
  then have "s = text_out" using snprintf_fits [of text_out "replicate MaxSentenceSize NUL"] sn n by simp
  moreover have "printf_string (k @ rest) = k @ printf_string rest"
    using assms(2) by (auto simp: printf_string_def takeWhile_append)
  ultimately show ?thesis by (simp add: text_out_def)
qed

lemma send20_kind:
  "NUL \<notin> set k \<Longrightarrow> length k = 5 \<Longrightarrow> x \<in> set (send20 f (k @ rest)) \<Longrightarrow> (\<And>s. kind_of (f s) = take 6 s) \<Longrightarrow> kind_of x = CHR ''$'' # k"
  using build_datagram_prefix [of k rest] by (auto simp: send20_def split: option.splits)

lemma telemetry_kind: "NUL \<notin> set k \<Longrightarrow> length k = 5 \<Longrightarrow> x \<in> set (send20 Telemetry (k @ rest)) \<Longrightarrow> kind_of x = CHR ''$'' # k"
  by (erule (2) send20_kind) simp

lemma publish_kind: "NUL \<notin> set k \<Longrightarrow> length k = 5 \<Longrightarrow> x \<in> set (publish db d k) \<Longrightarrow> kind_of x = CHR ''$'' # k"
  unfolding publish_def report_body_def by (rule telemetry_kind)

definition is_report :: "outgoing \<Rightarrow> bool" where "is_report x \<longleftrightarrow> kind_of x = ''$WXTMP''"

lemma sensor_no_report: "sensor db t msg d = (d', out) \<Longrightarrow> \<not> list_ex is_report out"
  by (auto simp: sensor_def Let_def list_ex_iff is_report_def NUL_def dest!: publish_kind [rotated 2]
      split: if_splits option.splits)

lemma stale_no_report: "check_stale db t d = (d', out) \<Longrightarrow> \<not> list_ex is_report out"
  by (auto simp: check_stale_def Let_def list_ex_iff is_report_def NUL_def dest!: publish_kind [rotated 2]
      split: if_splits option.splits)

lemma perform_outcomes:
  "(\<exists>out. perform os db path t msg d w = (d, out, w, ''ACCEPTED'', ''OK'')
      \<and> (out = publish db d ''WXSTS'' \<or> (\<exists>rest. out = send20 Telemetry (''WXPAR'' @ rest))))
   \<or> (\<exists>p1. setParameter db (dv_params d) (pa_fields msg ! 2) (pa_fields msg ! 3) = (True, p1)
      \<and> perform os db path t msg d w = (if pa_fields msg ! 2 = ''ReportingInterval''
           then d\<lparr>dv_params := p1, dv_nextReport := t + ms (pm_reportingInterval p1)\<rparr> else d\<lparr>dv_params := p1\<rparr>,
           [], w, ''ACCEPTED'', ''OK''))
   \<or> (\<exists>w1 saved. writeParameters os db path (dv_params d) w = (w1, saved)
      \<and> perform os db path t msg d w = (d, [], w1, if saved then (''ACCEPTED'', ''OK'') else (''REJECTED'', ''SAVE_FAILED'')))
   \<or> perform os db path t msg d w = (d, [], w, ''REJECTED'', ''INVALID_COMMAND_OR_VALUE'')"
proof -
  obtain ok p1 where set1: "setParameter db (dv_params d) (pa_fields msg ! 2) (pa_fields msg ! 3) = (ok, p1)" by (meson surj_pair)
  obtain w1 saved where wr: "writeParameters os db path (dv_params d) w = (w1, saved)" by (meson surj_pair)
  define f n where "f = pa_fields msg" and "n = pa_fieldCount msg"
  note defs = perform_def [of os db path t msg d w, unfolded Let_def set1 wr prod.case, folded f_def n_def]
  show ?thesis
  proof (cases "f ! 1 = ''STATUS'' \<and> n = 2")
    case True
    then show ?thesis by (simp add: defs)
  next
    case 1: False
    show ?thesis
    proof (cases "f ! 1 = ''PARAMETERS'' \<and> n = 2 \<or> f ! 1 = ''GET'' \<and> n = 3 \<and> getParameter db (dv_params d) (f ! 2) \<noteq> []")
      case True
      then have "\<exists>rest. perform os db path t msg d w = (d, send20 Telemetry (''WXPAR'' @ rest), w, ''ACCEPTED'', ''OK'')"
        using 1 by (auto simp: defs)
      then show ?thesis by blast
    next
      case 2: False
      show ?thesis
      proof (cases "f ! 1 = ''SET'' \<and> n = 4 \<and> ok")
        case True
        then have "perform os db path t msg d w = (if f ! 2 = ''ReportingInterval''
            then d\<lparr>dv_params := p1, dv_nextReport := t + ms (pm_reportingInterval p1)\<rparr> else d\<lparr>dv_params := p1\<rparr>,
            [], w, ''ACCEPTED'', ''OK'')"
          by (simp add: defs)
        moreover have "setParameter db (dv_params d) (pa_fields msg ! 2) (pa_fields msg ! 3) = (True, p1)" using set1 True by simp
        ultimately show ?thesis unfolding f_def by blast
      next
        case 3: False
        show ?thesis
        proof (cases "f ! 1 = ''SAVE'' \<and> n = 2")
          case True
          then have "perform os db path t msg d w = (d, [], w1, if saved then (''ACCEPTED'', ''OK'') else (''REJECTED'', ''SAVE_FAILED''))"
            by (simp add: defs)
          then show ?thesis using wr by blast
        next
          case False
          then have "perform os db path t msg d w = (d, [], w, ''REJECTED'', ''INVALID_COMMAND_OR_VALUE'')"
            using 1 2 3 by (auto simp: defs)
          then show ?thesis by blast
        qed
      qed
    qed
  qed
qed

lemma perform_no_report:
  assumes "perform os db path t msg d w = (d', out, w', v, r)"
  shows "\<not> list_ex is_report out"
proof -
  have "out = [] \<or> out = publish db d ''WXSTS'' \<or> (\<exists>rest. out = send20 Telemetry (''WXPAR'' @ rest))"
    using perform_outcomes [of os db path t msg d w] assms by auto
  then show ?thesis
    using telemetry_kind [of "''WXPAR''"] publish_kind [of "''WXSTS''"]
    by (fastforce simp: list_ex_iff is_report_def NUL_def)
qed

lemma command_no_report:
  assumes "command os db path t msg sender d w = (d', out, w')"
  shows "\<not> list_ex is_report out"
proof -
  obtain d1 out1 w1 v r where p: "perform os db path t msg d w = (d1, out1, w1, v, r)" by (metis prod_cases5)
  have ack: "kind_of x = ''$WXACK''" if "x \<in> set (send20 (Reply sender) (''WXACK,'' @ rest))" for x rest
    using send20_kind [of "''WXACK''" x "Reply sender" "CHR '','' # rest"] that by (simp add: NUL_def kind_of_def)
  show ?thesis
    using assms perform_no_report [OF p] ack
    by (auto simp: command_def p Let_def list_ex_iff is_report_def split: if_splits)
qed

section \<open>Invariants\<close>

definition verdict_ok :: "'d Device \<Rightarrow> bool" where
  "verdict_ok d \<longleftrightarrow> (dv_quality d, dv_reason d) \<in>
     {''Invalid''} \<times> {''NO_DATA'', ''SENSOR_FAULT'', ''BAD_SENSOR_MODE'', ''BAD_VALUE'', ''RANGE''}
     \<union> {''Suspect''} \<times> {''RATE'', ''STUCK'', ''STALE''} \<union> {(''Good'', ''OK'')}"

lemma verdict_ok_updates [simp]:
  "verdict_ok (d\<lparr>dv_params := p\<rparr>) = verdict_ok d" "verdict_ok (d\<lparr>dv_nextReport := n\<rparr>) = verdict_ok d"
  "verdict_ok (d\<lparr>dv_params := p, dv_nextReport := n\<rparr>) = verdict_ok d"
  "verdict_ok (d\<lparr>dv_staleReported := b, dv_quality := ''Suspect'', dv_reason := ''STALE''\<rparr>)"
  by (simp_all add: verdict_ok_def)

lemma judge_cases:
  "(\<exists>why \<in> {''SENSOR_FAULT'', ''BAD_SENSOR_MODE'', ''BAD_VALUE'', ''RANGE''}.
      judge db t reading mode d = d\<lparr>dv_quality := ''Invalid'', dv_reason := why\<rparr>)
   \<or> (\<exists>rate stuck flt q. q \<in> {(''Suspect'', ''RATE''), (''Suspect'', ''STUCK''), (''Good'', ''OK'')} \<and> judge db t reading mode d
      = d\<lparr>dv_rate := rate, dv_stuck := stuck, dv_quality := fst q, dv_reason := snd q, dv_filter := flt\<rparr>)"
proof (cases "mode = ''FAULT'' \<or> mode \<notin> {''OK'', ''JUMP'', ''RANGE'', ''STUCK''}")
  case True
  then show ?thesis by (auto simp: judge_def)
next
  case False
  note m = False
  show ?thesis
  proof (cases "real20 db reading")
    case None
    then show ?thesis using m by (auto simp: judge_def)
  next
    case (Some v)
    let ?rf = "\<lparr>rf_lower = db_lit db ''-40.0'', rf_upper = pm_temperatureLimit (dv_params d)\<rparr>"
    show ?thesis
    proof (cases "inRange (db_arithmetic db) ?rf v")
      case False
      then show ?thesis using m Some by (auto simp: judge_def)
    next
      case True
      obtain rate r where r: "changeNormal (db_arithmetic db) (dv_rate d) v t = (rate, r)" by (meson surj_pair)
      obtain stuck s where s: "valueNormal (db_arithmetic db) (dv_stuck d) v = (stuck, s)" by (meson surj_pair)
      define q where "q = (if r \<and> s then (''Good'', ''OK'') else if \<not> r then (''Suspect'', ''RATE'') else (''Suspect'', ''STUCK''))"
      define bad_mode where "bad_mode \<longleftrightarrow> mode \<noteq> ''OK'' \<and> mode \<noteq> ''JUMP'' \<and> mode \<noteq> ''RANGE'' \<and> mode \<noteq> ''STUCK''"
      have "mode \<noteq> ''FAULT''" "\<not> bad_mode" using m by (auto simp: bad_mode_def)
      then have "judge db t reading mode d = d\<lparr>dv_rate := rate, dv_stuck := stuck, dv_quality := fst q, dv_reason := snd q,
          dv_filter := (if r \<and> s then ef_update db (dv_filter d) v else dv_filter d)\<rparr>"
        using True by (cases r; cases s; simp add: judge_def [of db t reading mode d, folded bad_mode_def] Some r s q_def)
      then show ?thesis by (intro disjI2 exI conjI) (auto simp: q_def)
    qed
  qed
qed

lemma judge_frame:
  "dv_params (judge db t reading mode d) = dv_params d \<and> dv_nextReport (judge db t reading mode d) = dv_nextReport d
   \<and> verdict_ok (judge db t reading mode d)"
  using judge_cases [of db t reading mode d] by (elim disjE bexE exE conjE) (auto simp: verdict_ok_def)

lemma sensor_frame:
  "sensor db t msg d = (d', out) \<Longrightarrow> dv_params d' = dv_params d \<and> dv_nextReport d' = dv_nextReport d
     \<and> (verdict_ok d \<longrightarrow> verdict_ok d')"
  using judge_frame [of db t "pa_fields msg ! 1" "pa_fields msg ! 2"]
  by (auto simp: sensor_def Let_def split: if_splits option.splits)

lemma stale_frame:
  "check_stale db t d = (d', out) \<Longrightarrow> dv_params d' = dv_params d \<and> dv_nextReport d' = dv_nextReport d
     \<and> (verdict_ok d \<longrightarrow> verdict_ok d')"
  by (auto simp: check_stale_def Let_def split: if_splits)

lemma ms_interval: "parameters_ok db p \<Longrightarrow> ms (pm_reportingInterval p) \<ge> 100 * 1000000"
  by (simp add: parameters_ok_def ms_def word_le_def)

lemma perform_frame:
  assumes "perform os db path t msg d w = (d', out, w', v, r)" "parameters_ok db (dv_params d)"
  shows "parameters_ok db (dv_params d') \<and> (verdict_ok d \<longrightarrow> verdict_ok d')
    \<and> (dv_nextReport d' = dv_nextReport d \<or> dv_nextReport d' \<ge> t + 100 * 1000000)
    \<and> (v \<noteq> ''ACCEPTED'' \<longrightarrow> d' = d \<and> out = [])"
proof -
  have p1: "parameters_ok db p1 \<and> ms (pm_reportingInterval p1) \<ge> 100 * 1000000"
    if "setParameter db (dv_params d) (pa_fields msg ! 2) (pa_fields msg ! 3) = (True, p1)" for p1
    using setParameter_ok [OF assms(2) that] ms_interval [of db p1] by simp
  show ?thesis
    using perform_outcomes [of os db path t msg d w]
  proof (elim disjE exE conjE)
    fix p1
    assume s: "setParameter db (dv_params d) (pa_fields msg ! 2) (pa_fields msg ! 3) = (True, p1)"
      "perform os db path t msg d w = (if pa_fields msg ! 2 = ''ReportingInterval''
           then d\<lparr>dv_params := p1, dv_nextReport := t + ms (pm_reportingInterval p1)\<rparr> else d\<lparr>dv_params := p1\<rparr>,
           [], w, ''ACCEPTED'', ''OK'')"
    show ?thesis using assms(1) s(2) p1 [OF s(1)] by (cases "pa_fields msg ! 2 = ''ReportingInterval''") auto
  qed (use assms in \<open>auto split: if_splits\<close>)
qed

lemma command_frame:
  assumes "command os db path t msg sender d w = (d', out, w')" "parameters_ok db (dv_params d)"
  shows "parameters_ok db (dv_params d') \<and> (verdict_ok d \<longrightarrow> verdict_ok d')
    \<and> (dv_nextReport d' = dv_nextReport d \<or> dv_nextReport d' \<ge> t + 100 * 1000000)"
proof -
  obtain d1 out1 w1 v r where p: "perform os db path t msg d w = (d1, out1, w1, v, r)" by (metis prod_cases5)
  show ?thesis using perform_frame [OF p assms(2)] assms by (auto simp: command_def p split: if_splits)
qed

lemma tick_frame:
  assumes "tick db t d = (d', out)" "parameters_ok db (dv_params d)" "verdict_ok d"
  shows "dv_params d' = dv_params d \<and> verdict_ok d'
    \<and> (dv_nextReport d' = dv_nextReport d \<and> \<not> list_ex is_report out
       \<or> dv_nextReport d \<le> t \<and> dv_nextReport d' \<ge> t + 100 * 1000000)"
proof -
  obtain d1 out1 where s: "check_stale db t d = (d1, out1)" by (meson surj_pair)
  have d1: "parameters_ok db (dv_params d1)" using stale_frame [OF s] assms(2) by simp
  show ?thesis
    using assms(1,3) stale_frame [OF s] stale_no_report [OF s] ms_interval [OF d1]
    by (auto simp: tick_def s Let_def split: if_splits)
qed

section \<open>Runs\<close>

text \<open>\<open>rs\<close> are the times of the turns in which a report was sent, the latest first; \<open>t0\<close> is the time of the
  last turn. The clock is steady, and the turn reads it in the order of its steps.\<close>

inductive device_reach :: "'w file_os \<Rightarrow> 'd binary64 \<Rightarrow> string \<Rightarrow> 'd Device \<Rightarrow> 'w \<Rightarrow> int list \<Rightarrow> int \<Rightarrow> bool"
  for os db path where
  starts: "device_start db args contents t0 = Some d \<Longrightarrow> device_reach os db path d w [] t0"
| turns: "device_reach os db path d w rs t0 \<Longrightarrow> t0 \<le> t1 \<Longrightarrow> t1 \<le> t2 \<Longrightarrow> t2 \<le> t3 \<Longrightarrow>
     device_turn20 os db path (map_option (\<lambda>s. (s, t1)) sensed) (map_option (\<lambda>(s, e). (s, e, t2)) commanded) t3 d w = (d', out, w') \<Longrightarrow>
     device_reach os db path d' w' (if list_ex is_report out then t3 # rs else rs) t3"

definition device_inv20 :: "'d binary64 \<Rightarrow> 'd Device \<Rightarrow> int list \<Rightarrow> int \<Rightarrow> bool" where
  "device_inv20 db d rs t0 \<longleftrightarrow> parameters_ok db (dv_params d) \<and> verdict_ok d
     \<and> successively (\<lambda>b a. a + 100 * 1000000 \<le> b) rs
     \<and> (rs = [] \<or> hd rs \<le> t0 \<and> hd rs + 100 * 1000000 \<le> dv_nextReport d)"

lemma apply_args_ok: "parameters_ok db p \<Longrightarrow> apply_args db args p = Some p' \<Longrightarrow> parameters_ok db p'"
proof (induction db args p rule: apply_args.induct)
  case (3 db a v rest p)
  then show ?case using setParameter_ok [OF 3(3)] by (auto split: if_splits prod.splits)
qed auto

lemma device_start_inv:
  assumes "limit_ok db (db_lit db ''45.0'')" "device_start db args contents t0 = Some d"
  shows "device_inv20 db d [] t0"
proof -
  obtain restored p where r: "readParameters db (contents (state_file args ''ch20_weather.state'')) (defaultParameters db) = (restored, p)"
    by (meson surj_pair)
  have "parameters_ok db p" using readParameters_ok [OF assms(1) defaultParameters_ok [OF assms(1)]] r by (metis snd_conv)
  moreover obtain p1 where "apply_args db args p = Some p1" "d = (newDevice db t0)\<lparr>dv_params := p1\<rparr>"
    using assms(2) r by (auto simp: device_start_def newDevice_def Let_def)
  ultimately show ?thesis
    using apply_args_ok by (auto simp: device_inv20_def verdict_ok_def newDevice_def)
qed

lemma sensed_step:
  assumes "(case map_option (\<lambda>s. (s, t1)) sensed of
      Some (datagram, t) \<Rightarrow> (case receive20 datagram of Some parsed \<Rightarrow> sensor db t parsed d | None \<Rightarrow> (d, []))
    | None \<Rightarrow> (d, [])) = (d1, out1)" "verdict_ok d"
  shows "dv_params d1 = dv_params d \<and> dv_nextReport d1 = dv_nextReport d \<and> verdict_ok d1 \<and> \<not> list_ex is_report out1"
  using assms sensor_frame [of db t1] sensor_no_report [of db t1]
  by (cases sensed; cases "receive20 (the sensed)") (auto dest: sensor_frame sensor_no_report)

lemma commanded_step:
  assumes "(case map_option (\<lambda>(s, e). (s, e, t2)) commanded of
      Some (datagram, sender, t) \<Rightarrow>
        (case receive20 datagram of Some parsed \<Rightarrow> command os db path t parsed sender d w | None \<Rightarrow> (d, [], w))
    | None \<Rightarrow> (d, [], w)) = (d1, out1, w1)" "parameters_ok db (dv_params d)" "verdict_ok d"
  shows "parameters_ok db (dv_params d1) \<and> verdict_ok d1 \<and> \<not> list_ex is_report out1
    \<and> (dv_nextReport d1 = dv_nextReport d \<or> dv_nextReport d1 \<ge> t2 + 100 * 1000000)"
proof (cases commanded)
  case None
  then show ?thesis using assms by auto
next
  case (Some c)
  obtain s e where c: "c = (s, e)" by (cases c)
  show ?thesis
  proof (cases "receive20 s")
    case None
    then show ?thesis using assms Some c by auto
  next
    case (Some parsed)
    then have cmd: "command os db path t2 parsed e d w = (d1, out1, w1)" using assms(1) \<open>commanded = Some c\<close> c by simp
    show ?thesis using command_frame [OF cmd assms(2)] command_no_report [OF cmd] assms(3) by simp
  qed
qed

lemma device_turn_inv:
  assumes "device_inv20 db d rs t0" "t0 \<le> t1" "t1 \<le> t2" "t2 \<le> t3"
    "device_turn20 os db path (map_option (\<lambda>s. (s, t1)) sensed) (map_option (\<lambda>(s, e). (s, e, t2)) commanded) t3 d w = (d', out, w')"
  shows "device_inv20 db d' (if list_ex is_report out then t3 # rs else rs) t3"
proof -
  have inv: "parameters_ok db (dv_params d)" "verdict_ok d" using assms(1) by (simp_all add: device_inv20_def)
  obtain d1 out1 where s1: "(case map_option (\<lambda>s. (s, t1)) sensed of
      Some (datagram, t) \<Rightarrow> (case receive20 datagram of Some parsed \<Rightarrow> sensor db t parsed d | None \<Rightarrow> (d, []))
    | None \<Rightarrow> (d, [])) = (d1, out1)" by (meson surj_pair)
  obtain d2 out2 w2 where s2: "(case map_option (\<lambda>(s, e). (s, e, t2)) commanded of
      Some (datagram, sender, t) \<Rightarrow>
        (case receive20 datagram of Some parsed \<Rightarrow> command os db path t parsed sender d1 w | None \<Rightarrow> (d1, [], w))
    | None \<Rightarrow> (d1, [], w)) = (d2, out2, w2)" by (metis prod_cases3)
  obtain d3 out3 where s3: "tick db t3 d2 = (d3, out3)" by (meson surj_pair)
  have turn: "d' = d3" "out = out1 @ out2 @ out3" using assms(5) unfolding device_turn20_def s1 Let_def prod.case s2 s3 by simp_all
  note f1 = sensed_step [OF s1 inv(2)]
  have p1: "parameters_ok db (dv_params d1)" "verdict_ok d1" using f1 inv(1) by simp_all
  note f2 = commanded_step [OF s2 p1]
  have p2: "parameters_ok db (dv_params d2)" "verdict_ok d2" using f2 by simp_all
  note f3 = tick_frame [OF s3 p2]
  have next2: "rs = [] \<or> hd rs + 100 * 1000000 \<le> dv_nextReport d2"
    using assms(1-3) f1 f2 by (auto simp: device_inv20_def)
  have base: "successively (\<lambda>b a. a + 100 * 1000000 \<le> b) rs" "rs = [] \<or> hd rs \<le> t3"
    using assms(1-4) by (auto simp: device_inv20_def)
  have rep: "list_ex is_report out = list_ex is_report out3" using f1 f2 turn by simp
  show ?thesis
  proof (cases "list_ex is_report out3")
    case True
    then have "dv_nextReport d2 \<le> t3" "dv_nextReport d3 \<ge> t3 + 100 * 1000000" using f3 by auto
    then show ?thesis using True base next2 f3 p2 rep turn
      by (cases rs) (auto simp: device_inv20_def)
  next
    case False
    then show ?thesis using base next2 f3 p2 rep turn by (auto simp: device_inv20_def)
  qed
qed

lemma device_reach_inv:
  assumes "limit_ok db (db_lit db ''45.0'')" "device_reach os db path d w rs t0"
  shows "device_inv20 db d rs t0"
  using assms(2)
proof (induction rule: device_reach.induct)
  case (starts args contents t0 d w)
  then show ?case by (rule device_start_inv [OF assms(1)])
next
  case (turns d w rs t0 t1 t2 t3 sensed commanded d' out w')
  show ?case by (rule device_turn_inv [OF turns.IH turns.hyps(2-5)])
qed

end
