(* ===== verification/PredictableLab.thy ===== *)
theory PredictableLab
  imports PredictableDevice RemoteMonitor CommandLine
begin

text \<open>
  Chapter 20, the programs around the weather device: the command client (\<open>command_client.cpp\<close>), the
  telemetry listener (\<open>telemetry_listener.cpp\<close>) and the simulated sensor (\<open>temperature_sensor.cpp\<close>), and
  the properties of the lab as a whole. Lines for the console are strings; what the sensor draws at
  random is an argument.
\<close>

section \<open>The command client\<close>

definition commandPort :: u16 where "commandPort = 9521"

datatype client_choice = Idle | Quit | ShowHelp | Invalid20 | Ask string

definition bad_character :: "char \<Rightarrow> bool" where
  "bad_character c \<longleftrightarrow> c \<in> set [CHR '','', CHR ''*'', CHR ''$'', CHR 0x0D, CHR 0x0A]"

definition client_operation :: "string list \<Rightarrow> client_choice" where
  "client_operation ws =
     (let ask = (\<lambda>operation. if list_ex (list_ex bad_character) ws then Invalid20 else Ask operation)
      in if ws = [] then Idle
         else if ws ! 0 = ''quit'' \<or> ws ! 0 = ''exit'' then Quit
         else if ws ! 0 = ''help'' then ShowHelp
         else if ws ! 0 = ''status'' \<and> length ws = 1 then ask ''STATUS''
         else if ws ! 0 = ''parameters'' \<and> length ws = 1 then ask ''PARAMETERS''
         else if ws ! 0 = ''get'' \<and> length ws = 2 then ask (''GET,'' @ ws ! 1)
         else if ws ! 0 = ''set'' \<and> length ws = 3 then ask (''SET,'' @ ws ! 1 @ '','' @ ws ! 2)
         else if ws ! 0 = ''save'' \<and> length ws = 1 then ask ''SAVE''
         else ShowHelp)"

definition request_body :: "u32 \<Rightarrow> string \<Rightarrow> string" where
  "request_body n operation = ''WXCMD,'' @ show_nat (unat n) @ '','' @ operation"

text \<open>The verdict and the detail in a datagram, if it is the acknowledgement waited for. Ports are kept in the
  byte order of the machine.\<close>

definition accepted_ack :: "string \<Rightarrow> string \<Rightarrow> Endpoint \<Rightarrow> (string \<times> string) option" where
  "accepted_ack ident datagram sender =
     (case receive20 datagram of
        None \<Rightarrow> None
      | Some p \<Rightarrow>
          if sin_port sender = commandPort \<and> pa_identifier p = ''WXACK'' \<and> pa_fieldCount p = 3 \<and> pa_fields p ! 0 = ident
          then Some (pa_fields p ! 1, pa_fields p ! 2) else None)"

text \<open>\<open>co_poll\<close>: \<open>None\<close> for a timeout or an error, otherwise whether there is something to read.\<close>

record 'w client_os =
  co_clock :: "'w \<Rightarrow> int \<times> 'w"
  co_poll :: "int \<Rightarrow> 'w \<Rightarrow> bool option \<times> 'w"
  co_recvfrom :: "'w \<Rightarrow> (string \<times> Endpoint) \<times> 'w"
  co_sendto :: "u16 \<Rightarrow> string \<Rightarrow> 'w \<Rightarrow> int \<times> 'w"

partial_function (option) await_ack :: "'w client_os \<Rightarrow> string \<Rightarrow> int \<Rightarrow> 'w \<Rightarrow> ((string \<times> string) option \<times> 'w) option" where
  "await_ack os ident deadline w =
     (let (t, w1) = co_clock os w
      in if \<not> t < deadline then Some (None, w1)
         else let (t2, w2) = co_clock os w1;
                  remaining = sgn (deadline - t2) * (\<bar>deadline - t2\<bar> div 1000000);
                  (ready, w3) = co_poll os (max 1 remaining) w2
              in case ready of
                   None \<Rightarrow> Some (None, w3)
                 | Some readable \<Rightarrow>
                     if \<not> readable then await_ack os ident deadline w3
                     else let ((datagram, sender), w4) = co_recvfrom os w3
                          in case accepted_ack ident datagram sender of
                               None \<Rightarrow> await_ack os ident deadline w4
                             | Some answer \<Rightarrow> Some (Some answer, w4))"

definition reads_telemetry :: "string \<Rightarrow> bool" where
  "reads_telemetry operation \<longleftrightarrow> operation = ''STATUS'' \<or> operation = ''PARAMETERS'' \<or> take 4 operation = ''GET,''"

definition help_text :: "string list" where
  "help_text = [''Commands: status | parameters | get NAME | set NAME VALUE | save | help | quit'',
     ''Names: ReportingInterval (ms), TemperatureLimit (C), StaleTimeout (ms)'']"

text \<open>Whether to go on, the lines printed, \<open>nextId\<close> and the world; \<open>None\<close> if the wait never ends.\<close>

definition execute :: "'w client_os \<Rightarrow> string list \<Rightarrow> u32 \<Rightarrow> 'w \<Rightarrow> ((bool \<times> string list \<times> u32) \<times> 'w) option" where
  "execute os ws nextId w =
     (case client_operation ws of
        Idle \<Rightarrow> Some ((True, [], nextId), w)
      | Quit \<Rightarrow> Some ((False, [], nextId), w)
      | ShowHelp \<Rightarrow> Some ((True, help_text, nextId), w)
      | Invalid20 \<Rightarrow> Some ((True, [''Invalid command argument''], nextId), w)
      | Ask operation \<Rightarrow>
          let nextId1 = nextId + 1; ident = show_nat (unat nextId1); failed = [''Failed to send command'']
          in case build_datagram (request_body nextId1 operation) of
               None \<Rightarrow> Some ((True, failed, nextId1), w)
             | Some datagram \<Rightarrow>
                 let (sent, w1) = co_sendto os commandPort datagram w
                 in if sent \<noteq> int (length datagram) then Some ((True, failed, nextId1), w1)
                    else let (t, w2) = co_clock os w1
                         in case await_ack os ident (t + 1000 * 1000000) w2 of
                              None \<Rightarrow> None
                            | Some (Some (answer, detail), w3) \<Rightarrow>
                                Some ((True, (answer @ '': '' @ detail) # (if reads_telemetry operation
                                  then [''See the telemetry listener pane for the response.''] else []), nextId1), w3)
                            | Some (None, w3) \<Rightarrow>
                                Some ((True, [''No ACK received; the command's outcome is unknown.''], nextId1), w3))"

text \<open>\<open>input >> word\<close>.\<close>

function words_of :: "string \<Rightarrow> string list" where
  "words_of s =
     (let rest = dropWhile c_isspace s
      in if rest = [] then []
         else takeWhile (\<lambda>c. \<not> c_isspace c) rest # words_of (dropWhile (\<lambda>c. \<not> c_isspace c) rest))"
  by pat_completeness auto
termination
proof (relation "measure length")
  fix s rest :: string
  assume "rest = dropWhile c_isspace s" "rest \<noteq> []"
  then obtain c cs where r: "rest = c # cs" "\<not> c_isspace c" by (metis hd_dropWhile list.exhaust_sel)
  have "length (dropWhile (\<lambda>c. \<not> c_isspace c) rest) \<le> length cs" using r by (simp add: length_dropWhile_le)
  moreover have "length rest \<le> length s" using \<open>rest = dropWhile c_isspace s\<close> by (simp add: length_dropWhile_le)
  ultimately show "(dropWhile (\<lambda>c. \<not> c_isspace c) rest, s) \<in> measure length" using r(1) by simp
qed simp

declare words_of.simps [simp del]

primrec client_lines :: "'w client_os \<Rightarrow> string list \<Rightarrow> u32 \<Rightarrow> 'w \<Rightarrow> (string list \<times> 'w) option" where
  "client_lines os [] nextId w = Some ([], w)"
| "client_lines os (line # ls) nextId w =
     (case execute os (words_of line) nextId w of
        None \<Rightarrow> None
      | Some ((continue, printed, nextId1), w1) \<Rightarrow>
          if \<not> continue then Some (printed, w1)
          else map_option (\<lambda>(more_lines, w2). (printed @ more_lines, w2)) (client_lines os ls nextId1 w1))"

definition client_main :: "'w client_os \<Rightarrow> string list \<Rightarrow> string list \<Rightarrow> 'w \<Rightarrow> (string list \<times> 'w) option" where
  "client_main os args input w =
     (if args \<noteq> [] then map_option (\<lambda>((_, printed, _), w1). (printed, w1)) (execute os args 0 w)
      else map_option (\<lambda>(printed, w1). (help_text @ printed, w1)) (client_lines os input 0 w))"

section \<open>The telemetry listener\<close>

record listener =
  ls_latestStatus :: string
  ls_latestParameters :: string
  ls_latestTemperature :: string
  ls_recent :: "string list"

definition listener_start :: listener where
  "listener_start = \<lparr>ls_latestStatus = ''(request with 'status' in the command pane)'',
     ls_latestParameters = ''(request with 'parameters' or 'get NAME')'',
     ls_latestTemperature = ''(waiting for temperature telemetry)'', ls_recent = []\<rparr>"

definition remember :: "string \<Rightarrow> listener \<Rightarrow> listener" where
  "remember line s = (let r = ls_recent s @ [line] in s\<lparr>ls_recent := (if length r > 8 then tl r else r)\<rparr>)"

text \<open>One datagram with a dashboard; the screen is drawn from the result. \<open>recv\<close> gives at most 257 bytes.\<close>

definition listen :: "string \<Rightarrow> listener \<Rightarrow> listener" where
  "listen datagram s =
     (let bs = take (maxDatagram + 1) datagram
      in if bs = [] then s
         else case parseSentence bs of
                (status, parsed) \<Rightarrow>
                  if length bs > maxDatagram \<or> status \<noteq> ParseOk then remember ''Rejected invalid telemetry'' s
                  else let line = takeWhile (\<lambda>c. c \<noteq> CHR 0x0D \<and> c \<noteq> CHR 0x0A) bs;
                           s1 = (if pa_identifier parsed = ''WXSTS'' then s\<lparr>ls_latestStatus := line\<rparr> else s);
                           s2 = (if pa_identifier parsed = ''WXPAR'' then s1\<lparr>ls_latestParameters := line\<rparr> else s1);
                           s3 = (if pa_identifier parsed = ''WXTMP'' then s2\<lparr>ls_latestTemperature := line\<rparr> else s2)
                       in remember line s3)"

text \<open>Without a terminal: what is printed.\<close>

definition listen_plain :: "string \<Rightarrow> string" where
  "listen_plain datagram =
     (let bs = take (maxDatagram + 1) datagram
      in if bs = [] then []
         else if length bs > maxDatagram \<or> fst (parseSentence bs) \<noteq> ParseOk
           then ''Rejected invalid telemetry'' @ [CHR 0x0A] else bs)"

section \<open>The simulated sensor\<close>

record sensor_options =
  so_seed :: u32
  so_interval :: u32
  so_randomFaults :: bool

fun sensor_args20 :: "string list \<Rightarrow> sensor_options \<Rightarrow> sensor_options option" where
  "sensor_args20 [] opts = Some opts"
| "sensor_args20 [a] opts = (if a = ''--random-anomalies'' then Some (opts\<lparr>so_randomFaults := True\<rparr>) else None)"
| "sensor_args20 (a # v # rest) opts =
     (if a = ''--seed''
        then (case integer v of None \<Rightarrow> None | Some n \<Rightarrow> sensor_args20 rest (opts\<lparr>so_seed := n\<rparr>))
      else if a = ''--interval-ms''
        then (case integer v of None \<Rightarrow> None
              | Some n \<Rightarrow> if n \<ge> 100 then sensor_args20 rest (opts\<lparr>so_interval := n\<rparr>) else None)
      else if a = ''--random-anomalies'' then sensor_args20 (v # rest) (opts\<lparr>so_randomFaults := True\<rparr>)
      else None)"

text \<open>One turn: \<open>choice\<close> and \<open>noise\<close> are the numbers drawn. The sequence number, \<open>last\<close> and the body sent.\<close>

definition sensor_mode :: "'d binary64 \<Rightarrow> int \<Rightarrow> 'd \<Rightarrow> 'd \<Rightarrow> string \<times> 'd" where
  "sensor_mode db choice noise latest =
     (let v = db_add db (db_lit db ''20.0'') noise
      in if choice < 3 then (''FAULT'', v)
         else if choice < 6 then (''RANGE'', db_lit db ''150.0'')
         else if choice < 9 then (''JUMP'', db_lit db ''38.0'')
         else if choice < 15 then (''STUCK'', latest)
         else if choice < 18 then (''SILENCE'', v)
         else (''OK'', v))"

definition sensor_turn20 :: "'d binary64 \<Rightarrow> int \<Rightarrow> 'd \<Rightarrow> u32 \<times> 'd \<Rightarrow> (u32 \<times> 'd) \<times> string option" where
  "sensor_turn20 db choice noise = (\<lambda>(sequence, latest).
     let (mode, v) = sensor_mode db choice noise latest
     in if mode = ''SILENCE'' then ((sequence, latest), None)
        else ((sequence + 1, v),
              Some (''WXSEN,'' @ show_nat (unat (sequence + 1)) @ '','' @ db_to_string db v @ '','' @ mode)))"

section \<open>From one program to the other\<close>

lemma receive_built:
  assumes "list_all (\<lambda>w. NUL \<notin> set w \<and> CHR '','' \<notin> set w) (ident # ws)" "length ident = 5" "length ws \<le> MaxFields"
    and "length (ident @ join CHR '','' ws) \<le> 249"
  shows "build_datagram (ident @ join CHR '','' ws) = Some (sentence_of (ident @ join CHR '','' ws))
    \<and> receive20 (sentence_of (ident @ join CHR '','' ws)) = Some (parsed_of ident ws)"
proof -
  let ?body = "ident @ join CHR '','' ws"
  have clean: "NUL \<notin> set ?body" using assms(1) by (auto simp: join_def list_all_iff NUL_def)
  have "split CHR '','' ?body = ident # ws" using assms(1) by (intro split_join) (auto simp: list_all_iff)
  then have parse: "parseSentence (sentence_of ?body) = (ParseOk, parsed_of ident ws)"
    using assms(2,3) by (simp add: parse_sentence_of parse_body_split)
  have "take (maxDatagram + 1) (sentence_of ?body) = sentence_of ?body" "sentence_of ?body \<noteq> []"
    "length (sentence_of ?body) \<le> maxDatagram"
    using assms(4) length_sentence_of [of ?body] by (auto simp: maxDatagram_def)
  then show ?thesis
    using build_datagram_fits [OF clean assms(4)] parse by (simp add: receive20_def Let_def)
qed

lemma nat_text: "NUL \<notin> set (show_nat n)" "CHR '','' \<notin> set (show_nat n)"
  using show_nat_digits [of n] by (auto simp: list_all_iff NUL_def code_def dest!: bspec digit_range)

lemma word_text_length: "length (show_nat (unat (n :: u32))) \<le> 10"
proof -
  have "unat n < 2 ^ LENGTH(32)" by (rule unsigned_less)
  then show ?thesis by (intro length_show_nat) simp_all
qed

definition ack_fields :: "string \<Rightarrow> string \<times> string \<Rightarrow> string" where
  "ack_fields ident answer = ''WXACK,'' @ ident @ '','' @ fst answer @ '','' @ snd answer"

lemma ack_accepted:
  assumes "NUL \<notin> set ident" "CHR '','' \<notin> set ident" "length ident \<le> 10"
    and "answer \<in> {(''ACCEPTED'', ''OK''), (''REJECTED'', ''SAVE_FAILED''), (''REJECTED'', ''INVALID_COMMAND_OR_VALUE'')}"
    and "sin_port server = commandPort"
  shows "\<exists>ack. send20 (Reply client) (ack_fields ident answer) = [Reply client ack] \<and> accepted_ack ident ack server = Some answer"
proof -
  have body: "ack_fields ident answer = ''WXACK'' @ join CHR '','' [ident, fst answer, snd answer]"
    by (simp add: ack_fields_def join_Cons)
  have ok: "list_all (\<lambda>w. NUL \<notin> set w \<and> CHR '','' \<notin> set w) [''WXACK'', ident, fst answer, snd answer]"
    "length (''WXACK'' @ join CHR '','' [ident, fst answer, snd answer]) \<le> 249"
    using assms(1-4) by (auto simp: NUL_def join_Cons)
  have "build_datagram (ack_fields ident answer) = Some (sentence_of (ack_fields ident answer))
      \<and> receive20 (sentence_of (ack_fields ident answer)) = Some (parsed_of ''WXACK'' [ident, fst answer, snd answer])"
    unfolding body by (rule receive_built) (use ok in \<open>simp_all add: MaxFields_def\<close>)
  then show ?thesis
    using assms(5) by (simp add: send20_def accepted_ack_def numeral_2_eq_2)
qed

lemma operation_body: "request_body n operation = ''WXCMD'' @ CHR '','' # show_nat (unat n) @ CHR '','' # operation"
  by (simp add: request_body_def)

lemma set_request:
  assumes "list_all (\<lambda>c. c \<noteq> NUL \<and> \<not> bad_character c) (name @ v)" "length (name @ v) \<le> 200"
  shows "client_operation [''set'', name, v] = Ask (''SET,'' @ name @ '','' @ v)
    \<and> (\<exists>request. build_datagram (request_body n (''SET,'' @ name @ '','' @ v)) = Some request
        \<and> receive20 request = Some (parsed_of ''WXCMD'' [show_nat (unat n), ''SET'', name, v]))"
proof -
  have plain: "\<not> list_ex bad_character ''set''" by (simp add: bad_character_def)
  have "\<not> list_ex bad_character name" "\<not> list_ex bad_character v" using assms(1) by (auto simp: list_all_iff list_ex_iff)
  then have op: "client_operation [''set'', name, v] = Ask (''SET,'' @ name @ '','' @ v)"
    using plain by (simp add: client_operation_def numeral_2_eq_2)
  have body: "request_body n (''SET,'' @ name @ '','' @ v) = ''WXCMD'' @ join CHR '','' [show_nat (unat n), ''SET'', name, v]"
    by (simp add: request_body_def join_Cons)
  have comma: "bad_character CHR '',''" by (simp add: bad_character_def)
  have "NUL \<notin> set name" "NUL \<notin> set v" "CHR '','' \<notin> set name" "CHR '','' \<notin> set v"
    using assms(1) comma by (auto simp: list_all_iff)
  then have "list_all (\<lambda>w. NUL \<notin> set w \<and> CHR '','' \<notin> set w) [''WXCMD'', show_nat (unat n), ''SET'', name, v]"
    using nat_text by (simp add: NUL_def)
  then have "build_datagram (request_body n (''SET,'' @ name @ '','' @ v)) = Some (sentence_of (request_body n (''SET,'' @ name @ '','' @ v)))
      \<and> receive20 (sentence_of (request_body n (''SET,'' @ name @ '','' @ v))) = Some (parsed_of ''WXCMD'' [show_nat (unat n), ''SET'', name, v])"
    unfolding body using assms(2) word_text_length [of n]
    by (intro receive_built) (simp_all add: MaxFields_def join_Cons)
  then show ?thesis using op by blast
qed

lemma set_performed:
  assumes "setParameter db (dv_params d) name v = (ok, p1)"
  shows "\<exists>d'. perform os db path t (parsed_of ''WXCMD'' [ident, ''SET'', name, v]) d w
      = (d', [], w, if ok then (''ACCEPTED'', ''OK'') else (''REJECTED'', ''INVALID_COMMAND_OR_VALUE''))
    \<and> dv_params d' = (if ok then p1 else dv_params d) \<and> (\<not> ok \<longrightarrow> d' = d)"
  using assms by (simp add: perform_def Let_def numeral_2_eq_2 numeral_3_eq_3)

section \<open>Properties\<close>

text \<open>C4: Every run of the weather device. Whatever datagrams reach its two sockets, in whatever order, and
whatever its files and arguments: the parameters stay in their ranges, the quality and its reason
belong together, and temperature reports leave at least a tenth of a second apart, also when the
interval is changed in between. The one assumption is that the default limit of 45 degrees is within
the limits of -20 and 125.\<close>

theorem device_predictable:
  assumes "limit_ok db (db_lit db ''45.0'')" "device_reach os db path d w report_times last_turn"
  shows "parameters_ok db (dv_params d) \<and> verdict_ok d
    \<and> successively (\<lambda>later earlier. earlier + 100 * 1000000 \<le> later) report_times"
  using device_reach_inv [OF assms] by (simp add: device_inv20_def)

text \<open>A device on whole numbers that has run for one turn.\<close>

lemma sample_turn:
  "\<exists>out (d :: rat Device). device_turn20 os rat_db ''s'' None None 5 (newDevice rat_db 5) w = (d, out, w) \<and> list_ex is_report out"
proof -
  have "build_datagram (report_body rat_db (newDevice rat_db 5) ''WXTMP'') \<noteq> None" by code_simp
  then obtain s where s: "build_datagram (report_body rat_db (newDevice rat_db 5) ''WXTMP'') = Some s" by blast
  have "kind_of (Telemetry s) = ''$WXTMP''"
    using build_datagram_prefix [of "''WXTMP''" "drop 5 (report_body rat_db (newDevice rat_db 5) ''WXTMP'')" s] s
    by (simp add: report_body_def NUL_def eval_nat_numeral)
  then show ?thesis
    using s by (simp add: device_turn20_def tick_def check_stale_def publish_def send20_def is_report_def newDevice_def)
qed

lemma rat_limit: "limit_ok rat_db (db_lit rat_db ''45.0'')" by code_simp

theorem device_predictable_witness:
  "\<exists>(d :: rat Device) w report_times. device_reach mem_os rat_db ''s'' d w report_times 5 \<and> length report_times = 1 \<and> verdict_ok d"
proof -
  obtain out d where turn: "device_turn20 mem_os rat_db ''s'' None None 5 (newDevice rat_db 5) mem_start = (d, out, mem_start)"
    "list_ex is_report out" using sample_turn [of mem_os mem_start] by blast
  have start: "device_start rat_db [] (\<lambda>_. None) 5 = Some (newDevice rat_db 5)"
    by (simp add: device_start_def readParameters_def newDevice_def)
  have reach: "device_reach mem_os rat_db ''s'' d mem_start [5] 5"
    using turns [OF starts [OF start], of 5 5 5 mem_os "''s''" None None mem_start d out mem_start] turn by simp
  have "verdict_ok d" using device_predictable [OF rat_limit reach] by simp
  then show ?thesis using reach by (intro exI [of _ d] exI [of _ mem_start] exI [of _ "[5]"]) simp
qed

text \<open>C9: A command from one program to the other and back. For \<open>set NAME VALUE\<close> with words free of separators
and NULs and of at most 200 characters, the client builds a datagram; the device reads it and
answers with one acknowledgement to its sender, which the client, waiting for this number, takes as
the answer. ACCEPTED comes with exactly the change \<open>Parameters::set\<close> makes, REJECTED with a device
that is as it was.\<close>

theorem set_end_to_end:
  assumes "list_all (\<lambda>c. c \<noteq> NUL \<and> \<not> bad_character c) (name @ v)" "length (name @ v) \<le> 200" "sin_port server = commandPort"
    and "setParameter db (dv_params d) name v = (ok, p1)"
  shows "\<exists>operation request msg ack d'. client_operation [''set'', name, v] = Ask operation
    \<and> build_datagram (request_body n operation) = Some request \<and> receive20 request = Some msg
    \<and> command os db path t msg client d w = (d', [Reply client ack], w)
    \<and> accepted_ack (show_nat (unat n)) ack server
        = Some (if ok then (''ACCEPTED'', ''OK'') else (''REJECTED'', ''INVALID_COMMAND_OR_VALUE''))
    \<and> dv_params d' = (if ok then p1 else dv_params d) \<and> (\<not> ok \<longrightarrow> d' = d)"
proof -
  let ?msg = "parsed_of ''WXCMD'' [show_nat (unat n), ''SET'', name, v]"
  let ?answer = "if ok then (''ACCEPTED'', ''OK'') else (''REJECTED'', ''INVALID_COMMAND_OR_VALUE'')"
  obtain request where req: "build_datagram (request_body n (''SET,'' @ name @ '','' @ v)) = Some request"
    "receive20 request = Some ?msg" "client_operation [''set'', name, v] = Ask (''SET,'' @ name @ '','' @ v)"
    using set_request [OF assms(1,2)] by blast
  obtain d' where d': "perform os db path t ?msg d w = (d', [], w, ?answer)"
    "dv_params d' = (if ok then p1 else dv_params d)" "\<not> ok \<longrightarrow> d' = d"
    using set_performed [OF assms(4), where ident = "show_nat (unat n)" and os = os and path = path and t = t and w = w]
    by (elim exE conjE)
  have one: "?answer \<in> {(''ACCEPTED'', ''OK''), (''REJECTED'', ''SAVE_FAILED''), (''REJECTED'', ''INVALID_COMMAND_OR_VALUE'')}" by simp
  from ack_accepted [OF nat_text word_text_length [of n] one assms(3), where client = client]
  obtain ack where ack: "send20 (Reply client) (ack_fields (show_nat (unat n)) ?answer) = [Reply client ack]"
    "accepted_ack (show_nat (unat n)) ack server = Some ?answer"
    by (elim exE conjE)
  have "command os db path t ?msg client d w = (d', [Reply client ack], w)"
    using ack(1) d'(1) by (cases ok) (simp_all add: command_def ack_fields_def)
  then show ?thesis using req ack(2) d'(2,3) by blast
qed

theorem set_end_to_end_witness:
  "\<exists>operation request msg ack (d' :: rat Device). client_operation [''set'', ''StaleTimeout'', ''500''] = Ask operation
    \<and> build_datagram (request_body 7 operation) = Some request \<and> receive20 request = Some msg
    \<and> command mem_os rat_db ''s'' 9 msg lab_endpoint (newDevice rat_db 5) mem_start = (d', [Reply lab_endpoint ack], mem_start)
    \<and> accepted_ack ''7'' ack (lab_endpoint\<lparr>sin_port := 9521\<rparr>) = Some (''ACCEPTED'', ''OK'')
    \<and> pm_staleTimeout (dv_params d') = 500"
proof -
  have clean: "list_all (\<lambda>c. c \<noteq> NUL \<and> \<not> bad_character c) (''StaleTimeout'' @ ''500'')" by code_simp
  have set1: "setParameter rat_db (dv_params (newDevice rat_db 5)) ''StaleTimeout'' ''500''
      = (True, (dv_params (newDevice rat_db 5))\<lparr>pm_staleTimeout := 500\<rparr>)"
  proof -
    have "integer ''500'' = Some 500" by code_simp
    then show ?thesis by (simp add: setParameter_def in_span_def)
  qed
  have n: "show_nat (unat (7 :: u32)) = ''7''" by code_simp
  have port: "sin_port (lab_endpoint\<lparr>sin_port := 9521\<rparr>) = commandPort" by (simp add: commandPort_def)
  from set_end_to_end [OF clean _ port set1, where n = 7 and os = mem_os and path = "''s''" and t = 9
      and client = lab_endpoint and w = mem_start]
  obtain operation request msg ack d' where "client_operation [''set'', ''StaleTimeout'', ''500''] = Ask operation"
    "build_datagram (request_body 7 operation) = Some request" "receive20 request = Some msg"
    "command mem_os rat_db ''s'' 9 msg lab_endpoint (newDevice rat_db 5) mem_start = (d', [Reply lab_endpoint ack], mem_start)"
    "accepted_ack (show_nat (unat (7 :: u32))) ack (lab_endpoint\<lparr>sin_port := 9521\<rparr>) = Some (''ACCEPTED'', ''OK'')"
    "dv_params d' = (dv_params (newDevice rat_db 5))\<lparr>pm_staleTimeout := 500\<rparr>"
    by auto
  then show ?thesis unfolding n
    by (intro exI [of _ operation] exI [of _ request] exI [of _ msg] exI [of _ ack] exI [of _ d']) simp
qed

text \<open>What \<open>std::ifstream\<close> reads from a file.\<close>

definition file_text :: "('w \<Rightarrow> string \<Rightarrow> bytes option list) \<Rightarrow> 'w \<Rightarrow> string \<Rightarrow> string option" where
  "file_text versions w p = map_option (map (\<lambda>b. char_of (unat b))) (now (versions w p))"

lemma file_text_bytes: "now (versions w p) = Some (map byte_of s) \<Longrightarrow> file_text versions w p = Some s"
  by (simp add: file_text_def comp_def code_def)

text \<open>C5: Saving and restarting, over files that behave as POSIX describes. When the device answers a SAVE
with ACCEPTED, a device started from that file has the same parameters, with the limit that its
printed text stands for (six decimals). When it answers REJECTED, the file is as it was or already
holds the new image, never anything between.\<close>

theorem save_restart:
  assumes "posix_files os versions opened" "parameters_ok db (dv_params d)"
    and "printed_as db (pm_temperatureLimit (dv_params d)) limit" "limit_ok db limit"
    and "pa_fields msg ! 1 = ''SAVE''" "pa_fieldCount msg = 2"
    and "perform os db path t msg d w = (d', out, w', answer, detail)"
  shows "(answer = ''ACCEPTED'' \<longrightarrow>
      (\<exists>d2. device_start db [''--state-file'', path] (file_text versions w') t2 = Some d2
         \<and> dv_params d2 = (dv_params d)\<lparr>pm_temperatureLimit := limit\<rparr>))
    \<and> (answer \<noteq> ''ACCEPTED'' \<longrightarrow> versions w' path = versions w path
         \<or> versions w' path = versions w path @ [Some (map byte_of (parameters_image db (dv_params d)))])"
proof -
  obtain w1 saved where wr: "writeParameters os db path (dv_params d) w = (w1, saved)" by (meson surj_pair)
  have p: "w' = w1" "(answer = ''ACCEPTED'') = saved"
    using assms(5-7) wr by (auto simp: perform_def Let_def split: prod.splits if_splits)
  note kept = writeParameters_outcome [OF assms(1) wr]
  have "\<exists>d2. device_start db [''--state-file'', path] (file_text versions w1) t2 = Some d2
      \<and> dv_params d2 = (dv_params d)\<lparr>pm_temperatureLimit := limit\<rparr>" if "saved"
  proof -
    have "now (versions w1 path) = Some (map byte_of (parameters_image db (dv_params d)))"
      using kept that by (simp add: saved_or_kept_def now_def)
    then have "readParameters db (file_text versions w1 path) (defaultParameters db) = (True, (dv_params d)\<lparr>pm_temperatureLimit := limit\<rparr>)"
      using read_image [OF assms(2-4)] by (simp add: file_text_bytes)
    then show ?thesis by (simp add: device_start_def newDevice_def)
  qed
  then show ?thesis using p kept by (auto simp: saved_or_kept_def)
qed

text \<open>A file system in memory whose writes are whole.\<close>

definition whole_write :: "int \<Rightarrow> bytes \<Rightarrow> mem_files \<Rightarrow> mem_files \<times> (file_errno + nat)" where
  "whole_write fd bs w = (case mf_writing w of
       Some p \<Rightarrow> if bs = [] then (w, Inr 0) else
         (w\<lparr>mf_versions := (mf_versions w)(p := mf_versions w p @ [map_option (\<lambda>old. old @ bs) (now (mf_versions w p))])\<rparr>,
          Inr (length bs))
     | None \<Rightarrow> (w, Inl OtherFileError))"

definition whole_os :: "mem_files file_os" where "whole_os = mem_os\<lparr>fo_write := whole_write\<rparr>"

lemma whole_posix: "posix_files whole_os mf_versions (\<lambda>w fd. mf_writing w)"
  by (auto simp: posix_files_def create_law_def write_law_def silent_law_def rename_law_def remove_law_def
      whole_os_def whole_write_def mem_os_def mem_create_def mem_rename_def split: option.splits)

lemma whole_saves: "snd (writeParameters whole_os db path p w)"
  by (simp add: writeParameters_def whole_os_def whole_write_def mem_os_def mem_create_def mem_rename_def parameters_image_def
      Let_def)

theorem save_restart_witness:
  "\<exists>w' d2. perform whole_os rat_db ''s'' 9 (parsed_of ''WXCMD'' [''1'', ''SAVE'']) (newDevice rat_db 5) mem_start
       = (newDevice rat_db 5, [], w', ''ACCEPTED'', ''OK'')
     \<and> device_start rat_db [''--state-file'', ''s''] (file_text mf_versions w') 6 = Some d2
     \<and> dv_params d2 = dv_params (newDevice rat_db 5)"
proof -
  obtain w' where wr: "writeParameters whole_os rat_db ''s'' (dv_params (newDevice rat_db 5)) mem_start = (w', True)"
    using whole_saves by (metis prod.exhaust_sel)
  have run: "perform whole_os rat_db ''s'' 9 (parsed_of ''WXCMD'' [''1'', ''SAVE'']) (newDevice rat_db 5) mem_start
      = (newDevice rat_db 5, [], w', ''ACCEPTED'', ''OK'')"
    by (simp add: perform_def wr Let_def split_def)
  have ok: "parameters_ok rat_db (dv_params (newDevice rat_db 5))" by code_simp
  have printed: "printed_as rat_db (pm_temperatureLimit (dv_params (newDevice rat_db 5))) 45" by code_simp
  have limit: "limit_ok rat_db 45" by code_simp
  have same: "(dv_params (newDevice rat_db 5))\<lparr>pm_temperatureLimit := 45\<rparr> = dv_params (newDevice rat_db 5)" by code_simp
  show ?thesis
    using save_restart [OF whole_posix ok printed limit _ _ run, of 6] run unfolding same
    by (auto simp: numeral_2_eq_2)
qed

text \<open>A damaged state file. If one character of a state file that the device would accept is
replaced, anywhere before its checksum, the device does not use the file and starts with its defaults.\<close>

theorem damaged_state_ignored:
  assumes "fst (readParameters db (Some (body @ CHR '','' # digits)) old)" "CHR '','' \<notin> set digits"
    and "i < length body" "c \<noteq> body ! i"
  shows "device_start db [''--state-file'', path] (\<lambda>_. Some (body[i := c] @ CHR '','' # digits)) t = Some (newDevice db t)"
  using damage_noticed [OF assms, of "defaultParameters db"] by (simp add: device_start_def newDevice_def)

theorem damaged_state_ignored_witness:
  "device_start rat_db [''--state-file'', ''s'']
     (\<lambda>_. Some (''CH20,1,1000,46,3000'' @ CHR '','' # show_nat (unat (checksum20 ''CH20,1,1000,45,3000'')))) 5
   = Some (newDevice rat_db 5)"
proof -
  let ?p = "defaultParameters rat_db" and ?body = "''CH20,1,1000,45,3000''"
  have body: "image_body rat_db ?p = ?body" by code_simp
  have p: "parameters_ok rat_db ?p" "printed_as rat_db (pm_temperatureLimit ?p) 45" "limit_ok rat_db 45" by code_simp+
  have "readParameters rat_db (Some (?body @ CHR '','' # show_nat (unat (checksum20 ?body)))) ?p = (True, ?p\<lparr>pm_temperatureLimit := 45\<rparr>)"
    using read_image [OF p, of ?p] by (simp add: parameters_image_def body)
  then have good: "fst (readParameters rat_db (Some (?body @ CHR '','' # show_nat (unat (checksum20 ?body)))) ?p)" by (simp only: fst_conv)
  have upd: "?body[13 := CHR ''6''] = ''CH20,1,1000,46,3000''" and here: "13 < length ?body" "CHR ''6'' \<noteq> ?body ! 13"
    by code_simp+
  show ?thesis using damaged_state_ignored [OF good nat_text(2) here, of "''s''" 5] unfolding upd .
qed

end
