(* ===== verification/Ramps.thy ===== *)
theory Ramps
  imports Complex_Main Filtering
begin

text \<open>
  Chapter 10, the oven ramps (\<open>Ramper.cpp\<close>, \<open>RampDriver.cpp\<close> and \<open>main.cpp\<close> of \<open>process_oven\<close>): eight
  commands that move to their targets by bounded increments, the prediction of the number of cycles, the
  pacing by a clock, and the program that writes the rows. The arithmetic is a parameter; on exact
  numbers the prediction is exact, on rounded ones it is not.
\<close>

section \<open>One ramp\<close>

text \<open>\<open>db_to_size\<close> is the conversion to \<open>size_t\<close>, \<open>db_max_size\<close> is \<open>SIZE_MAX\<close> converted to a double.\<close>

record 'd ramp_numbers = "'d binary64" +
  db_ceil :: "'d \<Rightarrow> 'd"
  db_to_size :: "'d \<Rightarrow> nat"
  db_max_size :: 'd

abbreviation rn_ge :: "'d ramp_numbers \<Rightarrow> 'd \<Rightarrow> 'd \<Rightarrow> bool" where "rn_ge db \<equiv> ar_ge (db_arithmetic db)"
abbreviation rn_eq :: "'d ramp_numbers \<Rightarrow> 'd \<Rightarrow> 'd \<Rightarrow> bool" where "rn_eq db \<equiv> ar_eq (db_arithmetic db)"

definition std_min :: "'d ramp_numbers \<Rightarrow> 'd \<Rightarrow> 'd \<Rightarrow> 'd" where "std_min db a b = (if db_less db b a then b else a)"
definition std_max :: "'d ramp_numbers \<Rightarrow> 'd \<Rightarrow> 'd \<Rightarrow> 'd" where "std_max db a b = (if db_less db a b then b else a)"

record 'd Ramper =
  rp_current :: 'd
  rp_target :: 'd
  rp_increment :: 'd

definition ramper_create :: "'d ramp_numbers \<Rightarrow> 'd \<Rightarrow> 'd \<Rightarrow> 'd \<Rightarrow> 'd Ramper option" where
  "ramper_create db start target increment =
     (if \<not> db_isfinite db start \<or> \<not> db_isfinite db target \<or> \<not> db_isfinite db increment
         \<or> rn_ge db (db_lit db ''0.0'') increment
      then None
      else let stepCount = db_ceil db (db_div db (db_abs db (db_sub db target start)) increment)
           in if \<not> db_isfinite db stepCount \<or> db_less db (db_max_size db) stepCount then None
              else Some \<lparr>rp_current = start, rp_target = target, rp_increment = increment\<rparr>)"

definition ramper_step :: "'d ramp_numbers \<Rightarrow> 'd Ramper \<Rightarrow> 'd Ramper \<times> bool" where
  "ramper_step db r =
     (let c = rp_current r; t = rp_target r;
          c' = (if db_less db c t then std_min db (db_add db c (rp_increment r)) t
                else if db_less db t c then std_max db (db_sub db c (rp_increment r)) t else c)
      in (r\<lparr>rp_current := c'\<rparr>, rn_eq db c' t))"

definition stepsRemaining :: "'d ramp_numbers \<Rightarrow> 'd Ramper \<Rightarrow> nat" where
  "stepsRemaining db r = db_to_size db
     (db_ceil db (db_div db (db_abs db (db_sub db (rp_target r) (rp_current r))) (rp_increment r)))"

section \<open>The driver of eight ramps\<close>

definition zoneCount :: nat where "zoneCount = 8"

record CycleResult =
  cr_cycle :: nat
  cr_active :: nat
  cr_complete :: bool

record 'd RampDriver =
  rd_commands :: "'d list"
  rd_rampers :: "'d Ramper option list"
  rd_period :: int
  rd_predictedCycles :: nat
  rd_cycle :: nat
  rd_active :: nat
  rd_nextCycle :: int
  rd_clockStarted :: bool

primrec create_zones :: "'d ramp_numbers \<Rightarrow> 'd \<Rightarrow> ('d \<times> 'd) list \<Rightarrow> nat \<Rightarrow> ('d Ramper option list \<times> nat) option" where
  "create_zones db increment [] predicted = Some ([], predicted)"
| "create_zones db increment (z # zs) predicted =
     (case ramper_create db (fst z) (snd z) increment of
        None \<Rightarrow> None
      | Some r \<Rightarrow>
          (case create_zones db increment zs (max predicted (stepsRemaining db r)) of
             None \<Rightarrow> None
           | Some (rs, p) \<Rightarrow> Some ((if stepsRemaining db r \<noteq> 0 then Some r else None) # rs, p)))"

definition driver_create :: "'d ramp_numbers \<Rightarrow> 'd list \<Rightarrow> 'd list \<Rightarrow> 'd \<Rightarrow> int \<Rightarrow> 'd RampDriver option" where
  "driver_create db startingCommands targetCommands increment period =
     (if \<not> db_isfinite db increment \<or> rn_ge db (db_lit db ''0.0'') increment \<or> period \<le> 0 then None
      else case create_zones db increment (zip startingCommands targetCommands) 0 of
        None \<Rightarrow> None
      | Some (rampers, predicted) \<Rightarrow>
          Some \<lparr>rd_commands = startingCommands, rd_rampers = rampers, rd_period = period,
            rd_predictedCycles = predicted, rd_cycle = 0,
            rd_active = length (filter (\<lambda>r. r \<noteq> None) rampers), rd_nextCycle = 0, rd_clockStarted = False\<rparr>)"

text \<open>The loop of \<open>RampDriver::step\<close> over the zones, with the count of active ramps.\<close>

primrec step_zones :: "'d ramp_numbers \<Rightarrow> ('d \<times> 'd Ramper option) list \<Rightarrow> nat
    \<Rightarrow> ('d \<times> 'd Ramper option) list \<times> nat" where
  "step_zones db [] active = ([], active)"
| "step_zones db (z # zs) active =
     (case snd z of
        None \<Rightarrow> (let (zs', active') = step_zones db zs active in (z # zs', active'))
      | Some r \<Rightarrow>
          (let (r', complete) = ramper_step db r;
               (zs', active') = step_zones db zs (if complete then active - 1 else active)
           in ((rp_current r', if complete then None else Some r') # zs', active')))"

definition driver_step :: "'d ramp_numbers \<Rightarrow> 'd RampDriver \<Rightarrow> 'd RampDriver \<times> CycleResult" where
  "driver_step db d =
     (if rd_active d = 0 then (d, \<lparr>cr_cycle = rd_cycle d, cr_active = 0, cr_complete = True\<rparr>)
      else let (zs, active) = step_zones db (zip (rd_commands d) (rd_rampers d)) (rd_active d)
           in (d\<lparr>rd_commands := map fst zs, rd_rampers := map snd zs, rd_cycle := Suc (rd_cycle d), rd_active := active\<rparr>,
               \<lparr>cr_cycle = Suc (rd_cycle d), cr_active = active, cr_complete = (active = 0)\<rparr>))"

text \<open>\<open>clock\<close> is what \<open>steady_clock\<close> shows; the thread sleeps until the new \<open>nextCycle_\<close>.\<close>

definition waitForNextCycle :: "int \<Rightarrow> 'd RampDriver \<Rightarrow> 'd RampDriver" where
  "waitForNextCycle clock d =
     (if \<not> rd_clockStarted d then d\<lparr>rd_nextCycle := clock + rd_period d, rd_clockStarted := True\<rparr>
      else d\<lparr>rd_nextCycle := rd_nextCycle d + rd_period d\<rparr>)"

section \<open>The program\<close>

definition zoneNames :: "string list" where
  "zoneNames = [''preheat'', ''upper_radiant'', ''lower_radiant'', ''left_wall'', ''right_wall'', ''core'', ''cure'',
     ''exhaust_trim'']"

definition oven_header :: string where
  "oven_header = ''cycle,elapsed_ms,active_rampers'' @ concat (map (\<lambda>name. '','' @ name) zoneNames)"

definition oven_row :: "'d ramp_numbers \<Rightarrow> 'd RampDriver \<Rightarrow> string" where
  "oven_row db d =
     show_nat (rd_cycle d) @ '','' @ show_int (rd_period d * int (rd_cycle d)) @ '','' @ show_nat (rd_active d)
     @ concat (map (\<lambda>c. '','' @ db_fixed db 1 c) (rd_commands d))"

text \<open>The loop of \<open>main\<close>: the rows after the first and, in real time, the times slept until. \<open>clock\<close> is
  the time of the first wait.\<close>

partial_function (option) oven_loop :: "'d ramp_numbers \<Rightarrow> bool \<Rightarrow> int \<Rightarrow> 'd RampDriver \<Rightarrow> string list \<Rightarrow> int list
    \<Rightarrow> ('d RampDriver \<times> string list \<times> int list) option" where
  "oven_loop db realTime clock d rows sleeps =
     (if rd_active d = 0 then Some (d, rows, sleeps)
      else let d1 = (if realTime then waitForNextCycle clock d else d);
               d2 = fst (driver_step db d1)
           in oven_loop db realTime clock d2 (rows @ [oven_row db d2])
                (if realTime then sleeps @ [rd_nextCycle d1] else sleeps))"

text \<open>\<open>None\<close> where \<open>main\<close> returns 1 for its arguments.\<close>

primrec oven_args :: "string list \<Rightarrow> bool \<Rightarrow> bool option" where
  "oven_args [] realTime = Some realTime"
| "oven_args (v # vs) realTime =
     (if v = ''--realtime'' then (if realTime then None else oven_args vs True) else None)"

definition oven_start :: "'d ramp_numbers \<Rightarrow> 'd list" where
  "oven_start db = map (db_lit db) [''20.0'', ''35.0'', ''10.0'', ''45.0'', ''55.0'', ''25.0'', ''15.0'', ''40.0'']"

definition oven_target :: "'d ramp_numbers \<Rightarrow> 'd list" where
  "oven_target db = map (db_lit db) [''70.0'', ''80.0'', ''55.0'', ''30.0'', ''35.0'', ''75.0'', ''65.0'', ''25.0'']"

text \<open>The exit code and the lines of \<open>output/process_oven.csv\<close>, where it is opened. Whether the directory
  can be created and the file opened is the system's.\<close>

definition oven_main :: "'d ramp_numbers \<Rightarrow> string list \<Rightarrow> bool \<Rightarrow> bool \<Rightarrow> int \<Rightarrow> (int \<times> string list option) option" where
  "oven_main db args directory_ok open_ok clock =
     (case oven_args args False of
        None \<Rightarrow> Some (1, None)
      | Some realTime \<Rightarrow>
          (case driver_create db (oven_start db) (oven_target db) (db_lit db ''5.0'') 100 of
             None \<Rightarrow> Some (1, None)
           | Some d \<Rightarrow>
               if \<not> directory_ok \<or> \<not> open_ok then Some (1, None)
               else map_option (\<lambda>(d', rows, sleeps). (0, Some rows))
                 (oven_loop db realTime clock d [oven_header, oven_row db d] [])))"

section \<open>What holds in any arithmetic\<close>

definition driver_inv :: "'d RampDriver \<Rightarrow> bool" where
  "driver_inv d \<longleftrightarrow> length (rd_commands d) = zoneCount \<and> length (rd_rampers d) = zoneCount
     \<and> rd_active d = length (filter (\<lambda>r. r \<noteq> None) (rd_rampers d))"

lemma create_zones_length: "create_zones db inc zs p = Some (rs, q) \<Longrightarrow> length rs = length zs"
  by (induction zs arbitrary: p rs q) (auto split: option.splits)

lemma driver_inv_create:
  "driver_create db s t inc period = Some d \<Longrightarrow> length s = zoneCount \<Longrightarrow> length t = zoneCount \<Longrightarrow> driver_inv d"
  by (auto simp: driver_create_def driver_inv_def dest!: create_zones_length split: if_splits option.splits)

lemma step_zones_active:
  "step_zones db zs (e + length (filter (\<lambda>z. snd z \<noteq> None) zs)) = (zs', a) \<Longrightarrow>
     length zs' = length zs \<and> a = e + length (filter (\<lambda>z. snd z \<noteq> None) zs')"
proof (induction zs arbitrary: zs' a e)
  case (Cons z zs)
  show ?case
  proof (cases "snd z")
    case None
    obtain ws b where w: "step_zones db zs (e + length (filter (\<lambda>z. snd z \<noteq> None) zs)) = (ws, b)" by fastforce
    have "zs' = z # ws" "a = b" using Cons.prems None w by simp_all
    then show ?thesis using Cons.IH [OF w] None by simp
  next
    case (Some r)
    obtain r' complete where r: "ramper_step db r = (r', complete)" by fastforce
    define e' where "e' = (if complete then e else Suc e)"
    obtain ws b where w: "step_zones db zs (e' + length (filter (\<lambda>z. snd z \<noteq> None) zs)) = (ws, b)" by fastforce
    have "zs' = (rp_current r', if complete then None else Some r') # ws" "a = b"
      using Cons.prems Some r w by (simp_all add: e'_def split: if_splits)
    then show ?thesis using Cons.IH [OF w] Some by (simp add: e'_def)
  qed
qed simp

lemma filter_snd_zip: "length xs = length ys \<Longrightarrow> length (filter (\<lambda>z. P (snd z)) (zip xs ys)) = length (filter P ys)"
  by (induction xs ys rule: list_induct2) auto

lemma length_filter_map: "length (filter P (map f xs)) = length (filter (\<lambda>x. P (f x)) xs)"
  by (induction xs) auto

lemma driver_inv_step:
  assumes inv: "driver_inv d"
  shows "driver_inv (fst (driver_step db d))"
proof (cases "rd_active d = 0")
  case False
  obtain zs a where z: "step_zones db (zip (rd_commands d) (rd_rampers d)) (rd_active d) = (zs, a)" by fastforce
  have l: "length (rd_commands d) = length (rd_rampers d)" "length (rd_rampers d) = zoneCount"
    and a: "rd_active d = 0 + length (filter (\<lambda>z. snd z \<noteq> None) (zip (rd_commands d) (rd_rampers d)))"
    using inv filter_snd_zip [of "rd_commands d" "rd_rampers d" "\<lambda>r. r \<noteq> None"] unfolding driver_inv_def by simp_all
  have "length zs = zoneCount \<and> a = length (filter (\<lambda>z. snd z \<noteq> None) zs)"
    using step_zones_active [OF z [unfolded a]] l by simp
  then show ?thesis using False z length_filter_map [of "\<lambda>r. r \<noteq> None" snd zs] by (simp add: driver_step_def driver_inv_def)
qed (simp add: driver_step_def inv)

lemma driver_inv_wait: "driver_inv (waitForNextCycle clock d) = driver_inv d"
  by (simp add: driver_inv_def waitForNextCycle_def)

text \<open>The driver after \<open>k\<close> steps.\<close>

definition drive :: "'d ramp_numbers \<Rightarrow> nat \<Rightarrow> 'd RampDriver \<Rightarrow> 'd RampDriver" where
  "drive db k d = ((\<lambda>d. fst (driver_step db d)) ^^ k) d"

section \<open>Exact numbers\<close>

definition rat_ramp :: "rat ramp_numbers" where
  "rat_ramp = binary64.extend rat_db \<lparr>db_ceil = (\<lambda>x. of_int \<lceil>x\<rceil>), db_to_size = (\<lambda>x. nat \<lfloor>x\<rfloor>), db_max_size = 2 ^ 64 - 1\<rparr>"

lemma rat_ramp_simps [simp]:
  "db_less rat_ramp = (<)" "db_add rat_ramp = (+)" "db_sub rat_ramp = (-)" "db_div rat_ramp = (/)" "db_abs rat_ramp = abs"
  "db_isfinite rat_ramp x = True" "ar_ge (db_arithmetic rat_ramp) = (\<ge>)" "ar_eq (db_arithmetic rat_ramp) = (=)"
  "db_ceil rat_ramp x = of_int \<lceil>x\<rceil>" "db_to_size rat_ramp x = nat \<lfloor>x\<rfloor>" "db_max_size rat_ramp = 2 ^ 64 - 1"
  "db_lit rat_ramp = rat_lit"
  by (simp_all add: rat_ramp_def binary64.defs rat_db_def)

lemma rat_lit_zero: "rat_lit ''0.0'' = 0"
  using exact_rat_db unfolding exact_def by (simp only: rat_db_def binary64.simps)

text \<open>The value of a ramp after \<open>k\<close> cycles, and the number of cycles it takes.\<close>

definition ramp_at :: "rat \<Rightarrow> nat \<Rightarrow> rat \<times> rat \<Rightarrow> rat" where
  "ramp_at inc k z = (if fst z \<le> snd z then min (fst z + of_nat k * inc) (snd z) else max (fst z - of_nat k * inc) (snd z))"

definition ramp_cycles :: "rat \<Rightarrow> rat \<times> rat \<Rightarrow> nat" where
  "ramp_cycles inc z = nat \<lceil>\<bar>snd z - fst z\<bar> / inc\<rceil>"

definition zone_at :: "rat \<Rightarrow> nat \<Rightarrow> rat \<times> rat \<Rightarrow> rat \<times> rat Ramper option" where
  "zone_at inc k z = (ramp_at inc k z,
     if k < ramp_cycles inc z then Some \<lparr>rp_current = ramp_at inc k z, rp_target = snd z, rp_increment = inc\<rparr> else None)"

lemma below_cycles: "0 < inc \<Longrightarrow> k < ramp_cycles inc z \<longleftrightarrow> of_nat k * inc < \<bar>snd z - fst z\<bar>"
proof -
  assume "0 < inc"
  moreover have "k < ramp_cycles inc z \<longleftrightarrow> of_nat k < \<bar>snd z - fst z\<bar> / inc"
    unfolding ramp_cycles_def zless_nat_eq_int_zless less_ceiling_iff by simp
  ultimately show ?thesis by (simp add: pos_less_divide_eq)
qed

lemma ramp_at_target: "0 < inc \<Longrightarrow> ramp_at inc k z = snd z \<longleftrightarrow> ramp_cycles inc z \<le> k"
  using below_cycles [of inc k z] by (auto simp: ramp_at_def not_less [symmetric])

lemma ramper_step_exact:
  assumes inc: "0 < inc" and k: "k < ramp_cycles inc z"
  shows "ramper_step rat_ramp \<lparr>rp_current = ramp_at inc k z, rp_target = snd z, rp_increment = inc\<rparr>
    = (\<lparr>rp_current = ramp_at inc (Suc k) z, rp_target = snd z, rp_increment = inc\<rparr>, ramp_cycles inc z \<le> Suc k)"
proof -
  have p: "0 \<le> of_nat k * inc" using inc by simp
  have lt: "of_nat k * inc < \<bar>snd z - fst z\<bar>" using below_cycles inc k by blast
  have "fst (ramper_step rat_ramp \<lparr>rp_current = ramp_at inc k z, rp_target = snd z, rp_increment = inc\<rparr>)
    = \<lparr>rp_current = ramp_at inc (Suc k) z, rp_target = snd z, rp_increment = inc\<rparr>"
    using inc p lt by (auto simp: ramper_step_def ramp_at_def Let_def std_min_def std_max_def algebra_simps min_def max_def abs_if split: if_splits)
  moreover have "snd (ramper_step rat_ramp r) \<longleftrightarrow> rp_current (fst (ramper_step rat_ramp r)) = rp_target r" for r
    by (simp add: ramper_step_def Let_def)
  ultimately show ?thesis using ramp_at_target [OF inc, of "Suc k" z] by (simp add: prod_eq_iff)
qed

definition active_at :: "rat \<Rightarrow> nat \<Rightarrow> (rat \<times> rat) list \<Rightarrow> nat" where
  "active_at inc k zs = length (filter (\<lambda>z. k < ramp_cycles inc z) zs)"

lemma ramp_at_stays: "0 < inc \<Longrightarrow> ramp_cycles inc z \<le> k \<Longrightarrow> zone_at inc (Suc k) z = zone_at inc k z"
  using ramp_at_target [of inc k z] ramp_at_target [of inc "Suc k" z] by (simp add: zone_at_def)

lemma step_zones_exact:
  "0 < inc \<Longrightarrow> step_zones rat_ramp (map (zone_at inc k) zs) (e + active_at inc k zs)
     = (map (zone_at inc (Suc k)) zs, e + active_at inc (Suc k) zs)"
proof (induction zs arbitrary: e)
  case (Cons z zs)
  note IH = Cons.IH [OF Cons.prems]
  show ?case
  proof (cases "k < ramp_cycles inc z")
    case True
    have z: "snd (zone_at inc k z) = Some \<lparr>rp_current = ramp_at inc k z, rp_target = snd z, rp_increment = inc\<rparr>"
      using True by (simp add: zone_at_def)
    show ?thesis
    proof (cases "ramp_cycles inc z \<le> Suc k")
      case fin: True
      then show ?thesis using IH [of e] True by (simp add: z ramper_step_exact [OF Cons.prems True] active_at_def zone_at_def)
    next
      case False
      then show ?thesis using IH [of "Suc e"] True
        by (simp add: z ramper_step_exact [OF Cons.prems True] active_at_def zone_at_def)
    qed
  next
    case False
    then have "zone_at inc (Suc k) z = zone_at inc k z" by (simp add: ramp_at_stays Cons.prems)
    moreover have "snd (zone_at inc k z) = None" using False by (simp add: zone_at_def)
    ultimately show ?thesis using IH [of e] False by (simp add: active_at_def)
  qed
qed (simp add: active_at_def)

definition drive_at :: "rat RampDriver \<Rightarrow> rat \<Rightarrow> (rat \<times> rat) list \<Rightarrow> nat \<Rightarrow> rat RampDriver" where
  "drive_at d inc zs k = d\<lparr>rd_commands := map (ramp_at inc k) zs, rd_rampers := map (\<lambda>z. snd (zone_at inc k z)) zs,
     rd_active := active_at inc k zs, rd_cycle := min k (rd_predictedCycles d)\<rparr>"

definition predicts :: "rat RampDriver \<Rightarrow> rat \<Rightarrow> (rat \<times> rat) list \<Rightarrow> bool" where
  "predicts d inc zs \<longleftrightarrow> 0 < inc \<and> (\<forall>k. rd_predictedCycles d \<le> k \<longleftrightarrow> (\<forall>z \<in> set zs. ramp_cycles inc z \<le> k))"

lemma create_zones_exact:
  "create_zones rat_ramp inc zs p = Some (rs, q) \<Longrightarrow>
     rs = map (\<lambda>z. snd (zone_at inc 0 z)) zs \<and> (\<forall>k. q \<le> k \<longleftrightarrow> p \<le> k \<and> (\<forall>z \<in> set zs. ramp_cycles inc z \<le> k))"
proof (induction zs arbitrary: p rs q)
  case (Cons z zs)
  obtain r where r: "ramper_create rat_ramp (fst z) (snd z) inc = Some r" using Cons.prems by (auto split: option.splits)
  have ri: "r = \<lparr>rp_current = fst z, rp_target = snd z, rp_increment = inc\<rparr>" and inc: "0 < inc"
    using r by (auto simp: ramper_create_def Let_def rat_lit_zero split: if_splits)
  have steps: "stepsRemaining rat_ramp r = ramp_cycles inc z" by (simp add: stepsRemaining_def ri ramp_cycles_def)
  obtain rs' where rs': "create_zones rat_ramp inc zs (max p (ramp_cycles inc z)) = Some (rs', q)"
    and rs: "rs = (if ramp_cycles inc z \<noteq> 0 then Some r else None) # rs'"
    using Cons.prems r by (auto simp: steps split: option.splits)
  have "ramp_at inc 0 z = fst z" by (auto simp: ramp_at_def)
  then show ?case using Cons.IH [OF rs'] by (auto simp: rs zone_at_def ri)
qed simp

lemma drive_step: 
  assumes "predicts d inc zs"
  shows "fst (driver_step rat_ramp (drive_at d inc zs k)) = drive_at d inc zs (Suc k)"
proof -
  have inc: "0 < inc" using assms by (simp add: predicts_def)
  have zero: "active_at inc k zs = 0 \<longleftrightarrow> rd_predictedCycles d \<le> k"
    using assms by (auto simp: predicts_def active_at_def filter_empty_conv not_less)
  show ?thesis
  proof (cases "rd_predictedCycles d \<le> k")
    case True
    then have all: "ramp_cycles inc z \<le> k" if "z \<in> set zs" for z using assms that by (simp add: predicts_def)
    have s: "zone_at inc (Suc k) z = zone_at inc k z" if "z \<in> set zs" for z
      using that by (simp add: ramp_at_stays inc all)
    have "active_at inc (Suc k) zs = 0" using all by (force simp: active_at_def filter_empty_conv not_less)
    moreover have "map (ramp_at inc (Suc k)) zs = map (ramp_at inc k) zs"
      using s by (simp add: zone_at_def)
    moreover have "map (\<lambda>z. snd (zone_at inc (Suc k) z)) zs = map (\<lambda>z. snd (zone_at inc k z)) zs" using s by simp
    ultimately show ?thesis using True zero by (simp add: driver_step_def drive_at_def)
  next
    case False
    have z: "zip (map (ramp_at inc k) zs) (map (\<lambda>z. snd (zone_at inc k z)) zs) = map (zone_at inc k) zs"
      by (induction zs) (simp_all add: zone_at_def)
    show ?thesis using False zero step_zones_exact [OF inc, of k zs 0]
      by (simp add: driver_step_def drive_at_def z comp_def) (simp add: zone_at_def)
  qed
qed

lemma drive_iterate: "predicts d inc zs \<Longrightarrow> drive rat_ramp k (drive_at d inc zs 0) = drive_at d inc zs k"
  unfolding drive_def by (induction k) (simp_all add: drive_step)

lemma created_driver:
  assumes "driver_create rat_ramp s t inc period = Some d" and "length s = length t"
  shows "predicts d inc (zip s t)" and "d = drive_at d inc (zip s t) 0" and "rd_clockStarted d = False"
    and "rd_period d = period"
proof -
  obtain rs where rs: "create_zones rat_ramp inc (zip s t) 0 = Some (rs, rd_predictedCycles d)"
    and d: "d = \<lparr>rd_commands = s, rd_rampers = rs, rd_period = period, rd_predictedCycles = rd_predictedCycles d, rd_cycle = 0,
      rd_active = length (filter (\<lambda>r. r \<noteq> None) rs), rd_nextCycle = 0, rd_clockStarted = False\<rparr>" and inc: "0 < inc"
    using assms(1) by (auto simp: driver_create_def rat_lit_zero split: if_splits option.splits prod.splits)
  note z = create_zones_exact [OF rs]
  show "predicts d inc (zip s t)" using z inc by (simp add: predicts_def)
  have a: "active_at inc 0 (zip s t) = length (filter (\<lambda>r. r \<noteq> None) rs)"
    using z by (auto simp: active_at_def length_filter_map zone_at_def intro!: arg_cong [where f = length] filter_cong split: if_splits)
  have "ramp_at inc 0 = fst" by (auto simp: ramp_at_def fun_eq_iff)
  then have c: "map (ramp_at inc 0) (zip s t) = s" using assms(2) by simp
  have "drive_at d inc (zip s t) 0 = d\<lparr>rd_commands := s, rd_rampers := rs, rd_active := length (filter (\<lambda>r. r \<noteq> None) rs), rd_cycle := 0\<rparr>"
    using z by (simp add: drive_at_def a c)
  also have "\<dots> = d" by (subst d, subst (2) d) simp
  finally show "d = drive_at d inc (zip s t) 0" by simp
  show "rd_clockStarted d = False" "rd_period d = period" by (subst d, simp)+
qed

lemma ramp_at_bounds:
  "0 < inc \<Longrightarrow> min (fst z) (snd z) \<le> ramp_at inc k z \<and> ramp_at inc k z \<le> max (fst z) (snd z)"
  "0 < inc \<Longrightarrow> \<bar>ramp_at inc (Suc k) z - ramp_at inc k z\<bar> \<le> inc"
proof -
  assume inc: "0 < inc"
  have p: "0 \<le> of_nat k * inc" using inc by simp
  show "min (fst z) (snd z) \<le> ramp_at inc k z \<and> ramp_at inc k z \<le> max (fst z) (snd z)"
    using p by (auto simp: ramp_at_def min_def max_def)
  show "\<bar>ramp_at inc (Suc k) z - ramp_at inc k z\<bar> \<le> inc"
    using p inc by (auto simp: ramp_at_def min_def max_def algebra_simps abs_if)
qed

lemma ramps_exact_lemma:
  assumes "driver_create rat_ramp startingCommands targetCommands inc period = Some d"
    and "length startingCommands = zoneCount" and "length targetCommands = zoneCount"
  shows "rd_commands (drive rat_ramp k d) = map (ramp_at inc k) (zip startingCommands targetCommands)"
    and "rd_cycle (drive rat_ramp k d) = min k (rd_predictedCycles d)"
    and "rd_active (drive rat_ramp k d) = length (filter (\<lambda>z. of_nat k * inc < \<bar>snd z - fst z\<bar>) (zip startingCommands targetCommands))"
    and "cr_complete (snd (driver_step rat_ramp (drive rat_ramp k d))) \<longleftrightarrow> rd_predictedCycles d \<le> Suc k"
    and "rd_commands (drive rat_ramp k d) = targetCommands \<longleftrightarrow> rd_predictedCycles d \<le> k"
    and "i < zoneCount \<Longrightarrow> \<bar>rd_commands (drive rat_ramp (Suc k) d) ! i - rd_commands (drive rat_ramp k d) ! i\<bar> \<le> inc"
    and "i < zoneCount \<Longrightarrow> min (startingCommands ! i) (targetCommands ! i) \<le> rd_commands (drive rat_ramp k d) ! i
      \<and> rd_commands (drive rat_ramp k d) ! i \<le> max (startingCommands ! i) (targetCommands ! i)"
proof -
  let ?zs = "zip startingCommands targetCommands"
  have l: "length startingCommands = length targetCommands" using assms(2,3) by simp
  note c = created_driver [OF assms(1) l]
  have inc: "0 < inc" using c(1) by (simp add: predicts_def)
  have at_: "drive rat_ramp k d = drive_at d inc ?zs k" for k
    using drive_iterate [OF c(1), of k] c(2) by metis
  show cmds: "rd_commands (drive rat_ramp k d) = map (ramp_at inc k) ?zs" for k by (simp add: at_ drive_at_def)
  show "rd_cycle (drive rat_ramp k d) = min k (rd_predictedCycles d)" by (simp add: at_ drive_at_def)
  show "rd_active (drive rat_ramp k d) = length (filter (\<lambda>z. of_nat k * inc < \<bar>snd z - fst z\<bar>) ?zs)"
    by (simp add: at_ drive_at_def active_at_def below_cycles inc)
  have zero: "active_at inc k ?zs = 0 \<longleftrightarrow> rd_predictedCycles d \<le> k" for k
    using c(1) by (auto simp: predicts_def active_at_def filter_empty_conv not_less)
  have complete: "cr_complete (snd (driver_step db d)) \<longleftrightarrow> rd_active (fst (driver_step db d)) = 0" for db and d :: "rat RampDriver"
    by (simp add: driver_step_def split: prod.split)
  show "cr_complete (snd (driver_step rat_ramp (drive rat_ramp k d))) \<longleftrightarrow> rd_predictedCycles d \<le> Suc k"
    by (simp add: complete at_ drive_step [OF c(1)]) (simp add: drive_at_def zero)
  have "rd_commands (drive rat_ramp k d) = targetCommands \<longleftrightarrow> map (ramp_at inc k) ?zs = map snd ?zs" using l by (simp add: cmds)
  also have "\<dots> \<longleftrightarrow> (\<forall>z \<in> set ?zs. ramp_cycles inc z \<le> k)" by (simp add: ramp_at_target inc)
  finally show "rd_commands (drive rat_ramp k d) = targetCommands \<longleftrightarrow> rd_predictedCycles d \<le> k" using c(1) by (simp add: predicts_def)
  show "\<bar>rd_commands (drive rat_ramp (Suc k) d) ! i - rd_commands (drive rat_ramp k d) ! i\<bar> \<le> inc" if "i < zoneCount"
    using ramp_at_bounds(2) [OF inc] that assms(2,3) by (simp add: cmds)
  show "min (startingCommands ! i) (targetCommands ! i) \<le> rd_commands (drive rat_ramp k d) ! i
      \<and> rd_commands (drive rat_ramp k d) ! i \<le> max (startingCommands ! i) (targetCommands ! i)" if "i < zoneCount"
    using ramp_at_bounds(1) [OF inc, of "(startingCommands ! i, targetCommands ! i)" k] that assms(2,3) by (simp add: cmds)
qed

text \<open>C33: in exact arithmetic the cycle in which a driver ends is the one it predicted. After \<open>k\<close> steps
  every command is the start moved by \<open>k\<close> increments and held at the target, so that it changes by at most one increment in a step,
  stays between its ends, and equals its target as soon as its ramp has left the active ones; the driver
  reports completion exactly from the predicted cycle on, and counts no cycle after it.\<close>

theorem ramps_exact:
  assumes "driver_create rat_ramp startingCommands targetCommands inc period = Some d"
    and "length startingCommands = zoneCount" and "length targetCommands = zoneCount"
  shows "let zs = zip startingCommands targetCommands; d' = drive rat_ramp k d; next = drive rat_ramp (Suc k) d in
    rd_commands d' = map (ramp_at inc k) zs
    \<and> rd_cycle d' = min k (rd_predictedCycles d)
    \<and> rd_active d' = length (filter (\<lambda>z. of_nat k * inc < \<bar>snd z - fst z\<bar>) zs)
    \<and> (cr_complete (snd (driver_step rat_ramp d')) \<longleftrightarrow> rd_predictedCycles d \<le> Suc k)
    \<and> (rd_commands d' = targetCommands \<longleftrightarrow> rd_predictedCycles d \<le> k)
    \<and> (\<forall>i < zoneCount. \<bar>rd_commands next ! i - rd_commands d' ! i\<bar> \<le> inc
        \<and> min (startingCommands ! i) (targetCommands ! i) \<le> rd_commands d' ! i
        \<and> rd_commands d' ! i \<le> max (startingCommands ! i) (targetCommands ! i))"
  using ramps_exact_lemma [OF assms] unfolding Let_def by blast

theorem ramps_exact_witness:
  "\<exists>d. driver_create rat_ramp (replicate 8 0) [12, 0, 5, 7, 0, 0, 0, 1] 5 100 = Some d
     \<and> rd_commands (drive rat_ramp 2 d) = [10, 0, 5, 7, 0, 0, 0, 1]"
proof -
  have "driver_create rat_ramp (replicate 8 0) [12, 0, 5, 7, 0, 0, 0, 1] 5 100 \<noteq> None"
    by (simp add: driver_create_def ramper_create_def stepsRemaining_def rat_lit_zero eval_nat_numeral)
  then obtain d where d: "driver_create rat_ramp (replicate 8 0) [12, 0, 5, 7, 0, 0, 0, 1] 5 100 = Some d" by blast
  have "rd_commands (drive rat_ramp 2 d) = map (ramp_at 5 2) (zip (replicate 8 0) [12, 0, 5, 7, 0, 0, 0, 1])"
    using ramps_exact [OF d, of 2] by (simp add: zoneCount_def Let_def)
  then show ?thesis using d by (simp add: ramp_at_def eval_nat_numeral)
qed

section \<open>The rows of the program\<close>

text \<open>A wait changes the clock of the driver only.\<close>

lemma wait_fields [simp]:
  "rd_period (waitForNextCycle clock d) = rd_period d" "rd_predictedCycles (waitForNextCycle clock d) = rd_predictedCycles d"
  "rd_clockStarted (waitForNextCycle clock d)"
  by (simp_all add: waitForNextCycle_def)

lemma wait_drive_at: "waitForNextCycle clock (drive_at d inc zs k) = drive_at (waitForNextCycle clock d) inc zs k"
  by (simp add: waitForNextCycle_def drive_at_def)

lemma predicts_wait: "predicts (waitForNextCycle clock d) inc zs = predicts d inc zs"
  by (simp add: predicts_def)

lemma row_drive_at: "rd_period d = rd_period d' \<Longrightarrow> rd_predictedCycles d = rd_predictedCycles d' \<Longrightarrow>
    oven_row db (drive_at d inc zs k) = oven_row db (drive_at d' inc zs k)"
  by (simp add: oven_row_def drive_at_def)

text \<open>The time of the wait before cycle \<open>Suc k\<close>, whatever the time the cycles before it took.\<close>

definition paced :: "int \<Rightarrow> nat \<Rightarrow> 'd RampDriver \<Rightarrow> bool" where
  "paced clock k d \<longleftrightarrow> (if k = 0 then \<not> rd_clockStarted d else rd_clockStarted d \<and> rd_nextCycle d = clock + int k * rd_period d)"

lemma paced_wait: "paced clock k d \<Longrightarrow> paced clock (Suc k) (waitForNextCycle clock d)"
  by (auto simp: paced_def waitForNextCycle_def algebra_simps split: if_splits)

lemma oven_loop_runs:
  assumes "predicts d inc zs" and "k \<le> rd_predictedCycles d" and "realTime \<longrightarrow> paced clock k d"
  shows "\<exists>d'. oven_loop rat_ramp realTime clock (drive_at d inc zs k) rows sleeps
    = Some (drive_at d' inc zs (rd_predictedCycles d),
        rows @ map (\<lambda>i. oven_row rat_ramp (drive_at d inc zs i)) [Suc k..<Suc (rd_predictedCycles d)],
        sleeps @ (if realTime then map (\<lambda>i. clock + int i * rd_period d) [Suc k..<Suc (rd_predictedCycles d)] else []))
      \<and> rd_predictedCycles d' = rd_predictedCycles d"
  using assms
proof (induction "rd_predictedCycles d - k" arbitrary: k d rows sleeps)
  case 0
  then have "active_at inc k zs = 0" by (auto simp: predicts_def active_at_def filter_empty_conv not_less)
  then have "rd_active (drive_at d inc zs k) = 0" by (simp add: drive_at_def)
  then have "oven_loop rat_ramp realTime clock (drive_at d inc zs k) rows sleeps = Some (drive_at d inc zs k, rows, sleeps)"
    by (subst oven_loop.simps) simp
  then show ?case using 0 by (intro exI [of _ d]) auto
next
  case (Suc n)
  define e where "e = (if realTime then waitForNextCycle clock d else d)"
  have k: "k < rd_predictedCycles d" using Suc.hyps(2) by simp
  have e: "rd_period e = rd_period d" "rd_predictedCycles e = rd_predictedCycles d" "predicts e inc zs"
    and p: "realTime \<longrightarrow> paced clock (Suc k) e"
    using Suc.prems by (simp_all add: e_def predicts_wait paced_wait)
  have "\<not> rd_predictedCycles d \<le> k" using k by simp
  then have "active_at inc k zs \<noteq> 0" using Suc.prems(1) by (auto simp: predicts_def active_at_def filter_empty_conv not_less)
  then have a: "rd_active (drive_at d inc zs k) \<noteq> 0" by (simp add: drive_at_def)
  have w: "(if realTime then waitForNextCycle clock (drive_at d inc zs k) else drive_at d inc zs k) = drive_at e inc zs k"
    by (simp add: e_def wait_drive_at)
  have next_: "realTime \<longrightarrow> rd_nextCycle (drive_at e inc zs k) = clock + int (Suc k) * rd_period d"
    using p by (simp add: paced_def drive_at_def e(1))
  have "n = rd_predictedCycles e - Suc k" "Suc k \<le> rd_predictedCycles e" using Suc.hyps(2) k by (simp_all add: e(2))
  then obtain d' where d': "rd_predictedCycles d' = rd_predictedCycles d"
    and run: "oven_loop rat_ramp realTime clock (drive_at e inc zs (Suc k)) (rows @ [oven_row rat_ramp (drive_at d inc zs (Suc k))])
       (if realTime then sleeps @ [clock + int (Suc k) * rd_period d] else sleeps)
      = Some (drive_at d' inc zs (rd_predictedCycles d),
          (rows @ [oven_row rat_ramp (drive_at d inc zs (Suc k))])
            @ map (\<lambda>i. oven_row rat_ramp (drive_at e inc zs i)) [Suc (Suc k)..<Suc (rd_predictedCycles d)],
          (if realTime then sleeps @ [clock + int (Suc k) * rd_period d] else sleeps)
            @ (if realTime then map (\<lambda>i. clock + int i * rd_period d) [Suc (Suc k)..<Suc (rd_predictedCycles d)] else []))"
    using Suc.hyps(1) [of e "Suc k"] e p by metis
  have rows_: "map (\<lambda>i. oven_row rat_ramp (drive_at e inc zs i)) xs = map (\<lambda>i. oven_row rat_ramp (drive_at d inc zs i)) xs" for xs
    using row_drive_at [of e d rat_ramp inc zs] e by simp
  have upt: "[Suc k..<Suc (rd_predictedCycles d)] = Suc k # [Suc (Suc k)..<Suc (rd_predictedCycles d)]"
    using k by (simp add: upt_conv_Cons)
  have step: "oven_loop rat_ramp realTime clock (drive_at d inc zs k) rows sleeps
    = oven_loop rat_ramp realTime clock (drive_at e inc zs (Suc k)) (rows @ [oven_row rat_ramp (drive_at d inc zs (Suc k))])
       (if realTime then sleeps @ [clock + int (Suc k) * rd_period d] else sleeps)"
    by (subst oven_loop.simps, simp only: a w Let_def drive_step [OF e(3)] if_False row_drive_at [OF e(1,2)])
      (use next_ in auto)
  show ?case
    unfolding upt list.map by (intro exI [of _ d'] conjI d' trans [OF step] trans [OF run]) (simp add: rows_)
qed

text \<open>The loop of the oven program returns for every driver of eight zones that can be created: it writes one
  row for each of the predicted cycles and no more, the driver then stands at its targets, and in real time the
  thread sleeps until the times that lie whole periods after the first wait, so that delays do not
  add up.\<close>

theorem oven_program_returns:
  assumes "driver_create rat_ramp startingCommands targetCommands inc period = Some d"
    and "length startingCommands = zoneCount" and "length targetCommands = zoneCount"
  shows "\<exists>d'. oven_loop rat_ramp realTime clock d rows []
    = Some (d', rows @ map (\<lambda>k. oven_row rat_ramp (drive rat_ramp k d)) [1..<Suc (rd_predictedCycles d)],
        if realTime then map (\<lambda>k. clock + int k * period) [1..<Suc (rd_predictedCycles d)] else [])
      \<and> rd_commands d' = targetCommands"
proof -
  let ?zs = "zip startingCommands targetCommands"
  have l: "length startingCommands = length targetCommands" using assms(2,3) by simp
  note c = created_driver [OF assms(1) l]
  have at_: "drive rat_ramp k d = drive_at d inc ?zs k" for k using drive_iterate [OF c(1), of k] c(2) by metis
  obtain d' where run: "oven_loop rat_ramp realTime clock d rows [] = Some (drive_at d' inc ?zs (rd_predictedCycles d),
        rows @ map (\<lambda>i. oven_row rat_ramp (drive_at d inc ?zs i)) [Suc 0..<Suc (rd_predictedCycles d)],
        [] @ (if realTime then map (\<lambda>i. clock + int i * rd_period d) [Suc 0..<Suc (rd_predictedCycles d)] else []))"
    using oven_loop_runs [OF c(1), of 0 realTime clock rows "[]"] c(2,3) by (auto simp: paced_def)
  have "rd_commands (drive_at d' inc ?zs (rd_predictedCycles d)) = targetCommands"
    using ramps_exact_lemma(5) [OF assms, of "rd_predictedCycles d"] by (simp add: at_ drive_at_def)
  then show ?thesis using run by (simp add: at_ c(4))
qed

theorem oven_program_returns_witness:
  "\<exists>d d' sleeps. driver_create rat_ramp (replicate 8 0) [10, 0, 5, 10, 0, 0, 0, 10] 5 100 = Some d
     \<and> oven_loop rat_ramp True 3 d [] [] = Some (d', map (\<lambda>k. oven_row rat_ramp (drive rat_ramp k d)) [1, 2], [103, 203])
     \<and> rd_commands d' = [10, 0, 5, 10, 0, 0, 0, 10]"
proof -
  have "\<exists>d. driver_create rat_ramp (replicate 8 0) [10, 0, 5, 10, 0, 0, 0, 10] 5 100 = Some d \<and> rd_predictedCycles d = 2"
    by (simp add: driver_create_def ramper_create_def stepsRemaining_def rat_lit_zero eval_nat_numeral ceiling_eq_iff)
  then obtain d where d: "driver_create rat_ramp (replicate 8 0) [10, 0, 5, 10, 0, 0, 0, 10] 5 100 = Some d" "rd_predictedCycles d = 2" by blast
  show ?thesis
    using oven_program_returns [OF d(1), of True 3 "[]"] d by (auto simp: zoneCount_def numeral_2_eq_2)
qed

section \<open>Rounded numbers\<close>

text \<open>The arithmetic of finite doubles: every operation is exact and then rounded, by a function of which only this
  is used.\<close>

definition rounds :: "(rat \<Rightarrow> rat) \<Rightarrow> bool" where
  "rounds rn \<longleftrightarrow> mono rn \<and> (\<forall>x. rn (rn x) = rn x) \<and> rn 0 = 0"

definition rounded :: "(rat \<Rightarrow> rat) \<Rightarrow> rat ramp_numbers" where
  "rounded rn = rat_ramp\<lparr>db_of_nat := \<lambda>n. rn (of_nat n), db_add := \<lambda>x y. rn (x + y),
     db_sub := \<lambda>x y. rn (x - y), db_mul := \<lambda>x y. rn (x * y), db_div := \<lambda>x y. rn (x / y),
     db_max_size := rn (2 ^ 64 - 1)\<rparr>"

lemma rounded_simps [simp]:
  "db_less (rounded rn) = (<)" "db_add (rounded rn) x y = rn (x + y)" "db_sub (rounded rn) x y = rn (x - y)"
  "db_div (rounded rn) x y = rn (x / y)" "db_abs (rounded rn) = abs" "db_isfinite (rounded rn) x = True"
  "ar_ge (db_arithmetic (rounded rn)) = (\<ge>)" "ar_eq (db_arithmetic (rounded rn)) = (=)"
  "db_ceil (rounded rn) x = of_int \<lceil>x\<rceil>" "db_to_size (rounded rn) x = nat \<lfloor>x\<rfloor>"
  "db_max_size (rounded rn) = rn (2 ^ 64 - 1)" "db_lit (rounded rn) = rat_lit"
  by (simp_all add: rounded_def)

text \<open>A command that starts at \<open>c\<close> on its way to \<open>t\<close>: the next one, and the number of steps predicted.\<close>

definition toward :: "(rat \<Rightarrow> rat) \<Rightarrow> rat \<Rightarrow> rat \<Rightarrow> rat \<Rightarrow> rat" where
  "toward rn inc t c = (if c < t then min (rn (c + inc)) t else if t < c then max (rn (c - inc)) t else c)"

definition steps_predicted :: "(rat \<Rightarrow> rat) \<Rightarrow> rat \<Rightarrow> rat \<times> rat \<Rightarrow> nat" where
  "steps_predicted rn inc z = nat \<lceil>rn (\<bar>rn (snd z - fst z)\<bar> / inc)\<rceil>"

definition command_at :: "(rat \<Rightarrow> rat) \<Rightarrow> rat \<Rightarrow> nat \<Rightarrow> rat \<times> rat \<Rightarrow> rat" where
  "command_at rn inc k z = (if steps_predicted rn inc z = 0 then fst z else (toward rn inc (snd z) ^^ k) (fst z))"

definition moving :: "(rat \<Rightarrow> rat) \<Rightarrow> rat \<Rightarrow> nat \<Rightarrow> rat \<times> rat \<Rightarrow> bool" where
  "moving rn inc k z \<longleftrightarrow> steps_predicted rn inc z \<noteq> 0 \<and> command_at rn inc k z \<noteq> snd z"

definition rounded_zone :: "(rat \<Rightarrow> rat) \<Rightarrow> rat \<Rightarrow> nat \<Rightarrow> rat \<times> rat \<Rightarrow> rat \<times> rat Ramper option" where
  "rounded_zone rn inc k z = (command_at rn inc k z,
     if moving rn inc k z then Some \<lparr>rp_current = command_at rn inc k z, rp_target = snd z, rp_increment = inc\<rparr> else None)"

lemma zone_parts: "fst (rounded_zone rn inc k z) = command_at rn inc k z" "snd (rounded_zone rn inc k z) = None \<longleftrightarrow> \<not> moving rn inc k z"
  by (simp_all add: rounded_zone_def)

lemma toward_target [simp]: "toward rn inc t t = t"
  by (simp add: toward_def)

lemma ramper_step_rounded:
  "ramper_step (rounded rn) \<lparr>rp_current = c, rp_target = t, rp_increment = inc\<rparr>
    = (\<lparr>rp_current = toward rn inc t c, rp_target = t, rp_increment = inc\<rparr>, toward rn inc t c = t)"
  by (simp add: ramper_step_def toward_def std_min_def std_max_def Let_def min_def max_def)

lemma command_Suc:
  "command_at rn inc (Suc k) z = (if steps_predicted rn inc z = 0 then fst z else toward rn inc (snd z) (command_at rn inc k z))"
  by (simp add: command_at_def)

lemma moving_stops: "\<not> moving rn inc k z \<Longrightarrow> rounded_zone rn inc (Suc k) z = rounded_zone rn inc k z"
  by (auto simp: moving_def rounded_zone_def command_Suc) (simp_all add: command_at_def)

lemma step_zones_rounded:
  "step_zones (rounded rn) (map (rounded_zone rn inc k) zs) (e + length (filter (moving rn inc k) zs))
     = (map (rounded_zone rn inc (Suc k)) zs, e + length (filter (moving rn inc (Suc k)) zs))"
proof (induction zs arbitrary: e)
  case (Cons z zs)
  show ?case
  proof (cases "moving rn inc k z")
    case True
    have next_: "command_at rn inc (Suc k) z = toward rn inc (snd z) (command_at rn inc k z)"
      "moving rn inc (Suc k) z \<longleftrightarrow> toward rn inc (snd z) (command_at rn inc k z) \<noteq> snd z"
      using True by (simp_all add: moving_def command_Suc)
    have z: "fst (rounded_zone rn inc k z) = command_at rn inc k z"
      "snd (rounded_zone rn inc k z) = Some \<lparr>rp_current = command_at rn inc k z, rp_target = snd z, rp_increment = inc\<rparr>"
      using True by (simp_all add: rounded_zone_def)
    show ?thesis
    proof (cases "toward rn inc (snd z) (command_at rn inc k z) = snd z")
      case there: True
      then have "rounded_zone rn inc (Suc k) z = (snd z, None)" "\<not> moving rn inc (Suc k) z"
        by (simp_all add: rounded_zone_def next_)
      then show ?thesis using Cons.IH [of e] True there by (simp add: z ramper_step_rounded)
    next
      case False
      let ?c = "toward rn inc (snd z) (command_at rn inc k z)"
      have "rounded_zone rn inc (Suc k) z = (?c, Some \<lparr>rp_current = ?c, rp_target = snd z, rp_increment = inc\<rparr>)"
        "moving rn inc (Suc k) z"
        using False by (simp_all add: rounded_zone_def next_)
      then show ?thesis using Cons.IH [of "Suc e"] True False by (simp add: z ramper_step_rounded)
    qed
  next
    case False
    have "moving rn inc (Suc k) z = moving rn inc k z"
      using False moving_stops [OF False] by (simp add: rounded_zone_def split: if_splits)
    then show ?thesis using Cons.IH [of e] False moving_stops [OF False] by (simp add: rounded_zone_def)
  qed
qed simp

definition rounded_at :: "(rat \<Rightarrow> rat) \<Rightarrow> rat RampDriver \<Rightarrow> rat \<Rightarrow> (rat \<times> rat) list \<Rightarrow> nat \<Rightarrow> rat RampDriver" where
  "rounded_at rn d inc zs k = d\<lparr>rd_commands := map (command_at rn inc k) zs,
     rd_rampers := map (\<lambda>z. snd (rounded_zone rn inc k z)) zs,
     rd_active := length (filter (moving rn inc k) zs), rd_cycle := length (filter (\<lambda>j. list_ex (moving rn inc j) zs) [0..<k])\<rparr>"

lemma active_any: "length (filter P zs) = 0 \<longleftrightarrow> \<not> list_ex P zs"
  by (simp add: filter_empty_conv list_ex_iff)

lemma rounded_step: "fst (driver_step (rounded rn) (rounded_at rn d inc zs k)) = rounded_at rn d inc zs (Suc k)"
proof (cases "list_ex (moving rn inc k) zs")
  case True
  let ?d = "rounded_at rn d inc zs k"
  have "zip (map (command_at rn inc k) zs) (map (\<lambda>z. snd (rounded_zone rn inc k z)) zs) = map (rounded_zone rn inc k) zs"
    by (induction zs) (simp_all add: rounded_zone_def)
  then have zones: "zip (rd_commands ?d) (rd_rampers ?d) = map (rounded_zone rn inc k) zs" by (simp add: rounded_at_def)
  have on: "rd_active ?d \<noteq> 0" using True active_any [of "moving rn inc k" zs] by (simp add: rounded_at_def)
  have active: "rd_active ?d = 0 + length (filter (moving rn inc k) zs)" by (simp add: rounded_at_def)
  have "fst (driver_step (rounded rn) ?d) = ?d\<lparr>rd_commands := map fst (map (rounded_zone rn inc (Suc k)) zs),
      rd_rampers := map snd (map (rounded_zone rn inc (Suc k)) zs), rd_cycle := Suc (rd_cycle ?d),
      rd_active := 0 + length (filter (moving rn inc (Suc k)) zs)\<rparr>"
    unfolding driver_step_def zones using on step_zones_rounded [of rn inc k zs 0] unfolding active by simp
  moreover have "map fst (map (rounded_zone rn inc (Suc k)) zs) = map (command_at rn inc (Suc k)) zs"
    by (simp add: rounded_zone_def)
  moreover have "filter (\<lambda>j. list_ex (moving rn inc j) zs) [0..<Suc k] = filter (\<lambda>j. list_ex (moving rn inc j) zs) [0..<k] @ [k]"
    using True by simp
  ultimately show ?thesis by (simp only: rounded_at_def) simp
next
  case False
  have same: "rounded_zone rn inc (Suc k) z = rounded_zone rn inc k z" if "z \<in> set zs" for z
    using False that by (intro moving_stops) (simp add: list_ex_iff)
  have m: "moving rn inc (Suc k) z = moving rn inc k z" if "z \<in> set zs" for z
    using arg_cong [OF same [OF that], of "\<lambda>r. snd r \<noteq> None"] by (simp only: zone_parts(2) not_not)
  have c: "command_at rn inc (Suc k) z = command_at rn inc k z" if "z \<in> set zs" for z
    using arg_cong [OF same [OF that], of fst] by (simp only: zone_parts(1))
  have "length (filter (moving rn inc k) zs) = 0" using False active_any [of "moving rn inc k" zs] by simp
  moreover have "filter (moving rn inc (Suc k)) zs = filter (moving rn inc k) zs" by (rule filter_cong) (simp_all only: m)
  moreover have "map (command_at rn inc (Suc k)) zs = map (command_at rn inc k) zs" by (rule map_cong) (simp_all only: c)
  moreover have "map (\<lambda>z. snd (rounded_zone rn inc (Suc k) z)) zs = map (\<lambda>z. snd (rounded_zone rn inc k z)) zs"
    by (rule map_cong) (simp_all only: same)
  moreover have "filter (\<lambda>j. list_ex (moving rn inc j) zs) [0..<Suc k] = filter (\<lambda>j. list_ex (moving rn inc j) zs) [0..<k]"
    using False by simp
  ultimately show ?thesis by (simp only: driver_step_def rounded_at_def) simp
qed

lemma drive_rounded: "drive (rounded rn) k (rounded_at rn d inc zs 0) = rounded_at rn d inc zs k"
  unfolding drive_def by (induction k) (simp_all add: rounded_step)

lemma create_zones_rounded:
  assumes "rounds rn"
  shows "create_zones (rounded rn) inc zs p = Some (rs, q) \<Longrightarrow>
     rs = map (\<lambda>z. snd (rounded_zone rn inc 0 z)) zs \<and> (of_nat p \<le> rn (2 ^ 64 - 1) \<longrightarrow> of_nat q \<le> rn (2 ^ 64 - 1))"
proof (induction zs arbitrary: p rs q)
  case (Cons z zs)
  obtain r where r: "ramper_create (rounded rn) (fst z) (snd z) inc = Some r" using Cons.prems by (auto split: option.splits)
  let ?steps = "\<lceil>rn (\<bar>rn (snd z - fst z)\<bar> / inc)\<rceil>"
  have ri: "r = \<lparr>rp_current = fst z, rp_target = snd z, rp_increment = inc\<rparr>" and inc: "0 < inc"
    and fits: "of_int ?steps \<le> rn (2 ^ 64 - 1)"
    using r by (auto simp: ramper_create_def Let_def rat_lit_zero split: if_splits)
  have steps: "stepsRemaining (rounded rn) r = steps_predicted rn inc z" by (simp add: stepsRemaining_def ri steps_predicted_def)
  obtain rs' where rs': "create_zones (rounded rn) inc zs (max p (steps_predicted rn inc z)) = Some (rs', q)"
    and rs: "rs = (if steps_predicted rn inc z \<noteq> 0 then Some r else None) # rs'"
    using Cons.prems r by (auto simp: steps split: option.splits)
  have rn: "mono rn" "rn 0 = 0" using assms by (simp_all add: rounds_def)
  have "rn 0 \<le> rn (2 ^ 64 - 1)" by (rule monoD [OF rn(1)]) simp
  then have "of_nat (nat ?steps) \<le> rn (2 ^ 64 - 1)" using fits rn(2) by (cases "0 \<le> ?steps") simp_all
  then have "of_nat p \<le> rn (2 ^ 64 - 1) \<longrightarrow> of_nat (max p (steps_predicted rn inc z)) \<le> rn (2 ^ 64 - 1)"
    by (simp add: steps_predicted_def max_def)
  moreover have "moving rn inc 0 z \<longleftrightarrow> steps_predicted rn inc z \<noteq> 0"
    using rn(2) by (auto simp: moving_def command_at_def steps_predicted_def)
  ultimately show ?case using Cons.IH [OF rs'] by (auto simp: rs rounded_zone_def ri command_at_def)
qed simp

lemma created_rounded:
  assumes "rounds rn" "driver_create (rounded rn) s t inc period = Some d" and "length s = length t"
  shows "d = rounded_at rn d inc (zip s t) 0" "0 < inc" "of_nat (rd_predictedCycles d) \<le> rn (2 ^ 64 - 1)"
proof -
  obtain rs where rs: "create_zones (rounded rn) inc (zip s t) 0 = Some (rs, rd_predictedCycles d)"
    and d: "d = \<lparr>rd_commands = s, rd_rampers = rs, rd_period = period, rd_predictedCycles = rd_predictedCycles d, rd_cycle = 0,
      rd_active = length (filter (\<lambda>r. r \<noteq> None) rs), rd_nextCycle = 0, rd_clockStarted = False\<rparr>" and inc: "0 < inc"
    using assms(2) by (auto simp: driver_create_def rat_lit_zero split: if_splits option.splits prod.splits)
  note z = create_zones_rounded [OF assms(1) rs]
  have "rn 0 \<le> rn (2 ^ 64 - 1)" using assms(1) by (intro monoD [of rn]) (simp_all add: rounds_def)
  then show "of_nat (rd_predictedCycles d) \<le> rn (2 ^ 64 - 1)" using z assms(1) by (simp add: rounds_def)
  show "0 < inc" by (rule inc)
  have a: "length (filter (moving rn inc 0) (zip s t)) = length (filter (\<lambda>r. r \<noteq> None) rs)"
    using z by (auto simp: length_filter_map rounded_zone_def intro!: arg_cong [where f = length] filter_cong split: if_splits)
  have "command_at rn inc 0 = fst" by (simp add: command_at_def fun_eq_iff)
  then have c: "map (command_at rn inc 0) (zip s t) = s" using assms(3) by simp
  have "rounded_at rn d inc (zip s t) 0 = d\<lparr>rd_commands := s, rd_rampers := rs, rd_active := length (filter (\<lambda>r. r \<noteq> None) rs), rd_cycle := 0\<rparr>"
    using z by (simp add: rounded_at_def a c)
  also have "\<dots> = d" by (subst d, subst (2) d) simp
  finally show "d = rounded_at rn d inc (zip s t) 0" by simp
qed

text \<open>Where a command can go in one step, and in all.\<close>

lemma toward_between:
  assumes "rounds rn" "0 < inc" "rn c = c" "rn t = t"
  shows "min c t \<le> toward rn inc t c \<and> toward rn inc t c \<le> max c t \<and> rn (toward rn inc t c) = toward rn inc t c"
proof -
  have rn: "mono rn" "\<And>x. rn (rn x) = rn x" using assms(1) by (simp_all add: rounds_def)
  have "c \<le> rn (c + inc)" "rn (c - inc) \<le> c"
    using monoD [OF rn(1), of c "c + inc"] monoD [OF rn(1), of "c - inc" c] assms(2,3) by simp_all
  then show ?thesis using assms(3,4) rn(2) by (auto simp: toward_def min_def max_def)
qed

lemma command_between:
  assumes "rounds rn" "0 < inc" "rn (fst z) = fst z" "rn (snd z) = snd z"
  shows "min (fst z) (snd z) \<le> command_at rn inc k z \<and> command_at rn inc k z \<le> max (fst z) (snd z)
    \<and> rn (command_at rn inc k z) = command_at rn inc k z
    \<and> min (command_at rn inc k z) (snd z) \<le> command_at rn inc (Suc k) z
    \<and> command_at rn inc (Suc k) z \<le> max (command_at rn inc k z) (snd z)"
proof (induction k)
  case 0
  have "command_at rn inc 0 z = fst z" by (simp add: command_at_def)
  then show ?case using toward_between [OF assms] assms(3) by (auto simp: command_Suc)
next
  case (Suc k)
  have fixed: "rn (command_at rn inc (Suc k) z) = command_at rn inc (Suc k) z"
    using Suc.IH toward_between [OF assms(1,2) _ assms(4), of "command_at rn inc k z"] assms(3) by (simp add: command_Suc)
  have "min (fst z) (snd z) \<le> command_at rn inc (Suc k) z \<and> command_at rn inc (Suc k) z \<le> max (fst z) (snd z)"
    using Suc.IH by (auto simp: min_def max_def split: if_splits)
  moreover have "min (command_at rn inc (Suc k) z) (snd z) \<le> command_at rn inc (Suc (Suc k)) z
      \<and> command_at rn inc (Suc (Suc k)) z \<le> max (command_at rn inc (Suc k) z) (snd z)"
    using toward_between [OF assms(1,2) fixed assms(4)] by (auto simp: command_Suc [of rn inc "Suc k"]) (simp_all add: command_at_def)
  ultimately show ?case using fixed by blast
qed

lemma command_stalls: "command_at rn inc (Suc k) z = command_at rn inc k z \<Longrightarrow> command_at rn inc (k + j) z = command_at rn inc k z"
  by (induction j) (simp_all add: command_Suc split: if_splits)


section \<open>The rounding of binary64\<close>

text \<open>The finite part of binary64: rational numbers rounded to 53 significant bits, ties to even.\<close>

definition pow2 :: "int \<Rightarrow> rat" where "pow2 e = (if 0 \<le> e then 2 ^ nat e else 1 / 2 ^ nat (- e))"

text \<open>The number of binary digits, and the exponent.\<close>

function digits2 :: "int \<Rightarrow> int" where
  "digits2 n = (if n \<le> 0 then 0 else 1 + digits2 (n div 2))"
  by pat_completeness auto
termination by (relation "measure nat") auto

definition ilog2 :: "rat \<Rightarrow> int" where
  "ilog2 x = (if 1 \<le> \<bar>x\<bar> then digits2 \<lfloor>\<bar>x\<bar>\<rfloor> - 1 else - digits2 (\<lceil>1 / \<bar>x\<bar>\<rceil> - 1))"

definition round_even :: "rat \<Rightarrow> int" where
  "round_even x = (let f = \<lfloor>x\<rfloor>; r = x - of_int f in if r < 1 / 2 \<or> (r = 1 / 2 \<and> even f) then f else f + 1)"

definition round53 :: "rat \<Rightarrow> rat" where
  "round53 x = (if x = 0 then 0 else let u = pow2 (max (ilog2 x - 52) (- 1074)) in of_int (round_even (x / u)) * u)"

abbreviation rounded_ramp :: "rat ramp_numbers" where "rounded_ramp \<equiv> rounded round53"

text \<open>Evaluation of the rounding by \<open>simp\<close>.\<close>

lemma rat_floor_numeral:
  "\<lfloor>numeral a / numeral b :: rat\<rfloor> = numeral a div numeral b"
  "\<lceil>numeral a / numeral b :: rat\<rceil> = - (- numeral a div numeral b)"
  "\<lfloor>1 / numeral b :: rat\<rfloor> = 1 div numeral b"
  "\<lceil>1 / numeral b :: rat\<rceil> = - (- 1 div numeral b)"
  using floor_divide_of_int_eq [of "numeral a" "numeral b", where 'a = rat]
    ceiling_divide_eq_div [of "numeral a" "numeral b", where 'a = rat]
    floor_divide_of_int_eq [of 1 "numeral b", where 'a = rat] ceiling_divide_eq_div [of 1 "numeral b", where 'a = rat]
  by simp_all

declare digits2.simps [simp del]

lemma digits2_rules: "digits2 0 = 0" "0 < n \<Longrightarrow> digits2 n = 1 + digits2 (n div 2)"
  by (simp_all add: digits2.simps [of n] digits2.simps [of 0])

lemmas rounding = rat_floor_numeral digits2_rules ilog2_def round53_def round_even_def Let_def pow2_def

text \<open>This rounding is one in the sense above.\<close>

lemma pow2_power_int: "pow2 e = power_int 2 e"
  by (simp add: pow2_def power_int_def inverse_eq_divide power_divide)

lemma pow2_add: "pow2 (a + b) = pow2 a * pow2 b"
  by (simp add: pow2_power_int power_int_add)

lemma pow2_pos [simp]: "0 < pow2 e"
  by (simp add: pow2_power_int)

lemma pow2_nonzero [simp]: "pow2 e \<noteq> 0"
  using pow2_pos [of e] by linarith

lemma pow2_le_iff [simp]: "pow2 a \<le> pow2 b \<longleftrightarrow> a \<le> b"
proof -
  have less: "pow2 a < pow2 b" if "a < b" for a b using that by (simp add: pow2_power_int power_int_strict_increasing)
  show ?thesis
  proof (cases "a \<le> b")
    case True
    then show ?thesis using less [of a b] by (cases "a = b") auto
  next
    case False
    then show ?thesis using less [of b a] by auto
  qed
qed

lemma pow2_less_iff [simp]: "pow2 a < pow2 b \<longleftrightarrow> a < b"
  using pow2_le_iff [of b a] by linarith

lemma pow2_nat: "pow2 (int n) = 2 ^ n"
  by (simp add: pow2_def)

lemma pow2_whole: "0 \<le> d \<Longrightarrow> pow2 d = of_int (2 ^ nat d)"
  by (simp add: pow2_def)

lemma pow2_above: "1 \<le> d \<Longrightarrow> of_int n < pow2 d \<Longrightarrow> of_int n + 1 \<le> pow2 d"
proof -
  assume "1 \<le> d" "of_int n < pow2 d"
  then have "(of_int n :: rat) < of_int (2 ^ nat d)" using pow2_whole [of d] by simp
  then have "n + 1 \<le> 2 ^ nat d" by (simp only: of_int_less_iff zless_imp_add1_zle)
  then have "(of_int (n + 1) :: rat) \<le> of_int (2 ^ nat d)" by (simp only: of_int_le_iff)
  then show ?thesis using pow2_whole [of d] \<open>1 \<le> d\<close> by simp
qed

lemma recip: "0 < p \<Longrightarrow> 0 < a \<Longrightarrow> 1 / a \<le> p \<Longrightarrow> 1 / p \<le> a" "0 < p \<Longrightarrow> 0 < a \<Longrightarrow> p < 1 / a \<Longrightarrow> a < 1 / p" for a p :: rat
  by (simp_all add: field_simps)

lemma digits2_bounds: "0 < n \<Longrightarrow> 1 \<le> digits2 n \<and> pow2 (digits2 n - 1) \<le> of_int n \<and> of_int n < pow2 (digits2 n)"
proof (induction n rule: digits2.induct)
  case (1 n)
  show ?case
  proof (cases "n = 1")
    case True
    then show ?thesis by (simp add: digits2_rules pow2_def)
  next
    case False
    then have m: "0 < n div 2" using 1(2) by simp
    have d: "digits2 n = 1 + digits2 (n div 2)" using 1(2) by (rule digits2_rules(2))
    have IH: "1 \<le> digits2 (n div 2)" "pow2 (digits2 (n div 2) - 1) \<le> of_int (n div 2)" "of_int (n div 2) < pow2 (digits2 (n div 2))"
      using 1(1) [OF _ m] 1(2) by simp_all
    have "2 * (n div 2) \<le> n" "n < 2 * (n div 2) + 2" by presburger+
    then have "(of_int (2 * (n div 2)) :: rat) \<le> of_int n" "(of_int n :: rat) < of_int (2 * (n div 2) + 2)"
      by (simp_all only: of_int_le_iff of_int_less_iff)
    then have n: "2 * of_int (n div 2) \<le> (of_int n :: rat)" "of_int n < (2 * of_int (n div 2) + 2 :: rat)"
      by (simp_all only: of_int_mult of_int_add of_int_numeral)
    have two: "pow2 (digits2 (n div 2)) = 2 * pow2 (digits2 (n div 2) - 1)" "pow2 (1 + digits2 (n div 2)) = 2 * pow2 (digits2 (n div 2))"
      using pow2_add [of 1 "digits2 (n div 2) - 1"] pow2_add [of 1 "digits2 (n div 2)"] by (simp_all add: pow2_def [of 1])
    have "(of_int (n div 2) :: rat) + 1 \<le> pow2 (digits2 (n div 2))"
      using IH by (intro pow2_above) simp_all
    then have "of_int n < pow2 (1 + digits2 (n div 2))" using n(2) two(2) by linarith
    moreover have "pow2 (digits2 (n div 2)) \<le> of_int n" using n(1) two(1) IH(2) by linarith
    ultimately show ?thesis using IH(1) by (simp add: d)
  qed
qed

lemma ilog2_bounds:
  assumes "x \<noteq> 0"
  shows "pow2 (ilog2 x) \<le> \<bar>x\<bar> \<and> \<bar>x\<bar> < pow2 (ilog2 x + 1)"
proof (cases "1 \<le> \<bar>x\<bar>")
  case True
  let ?n = "\<lfloor>\<bar>x\<bar>\<rfloor>"
  have n: "0 < ?n" using True by (simp add: zero_less_floor)
  note b = digits2_bounds [OF n]
  have "of_int ?n \<le> \<bar>x\<bar>" by simp
  moreover have "\<bar>x\<bar> < of_int ?n + 1" by linarith
  moreover have "(of_int ?n :: rat) + 1 \<le> pow2 (digits2 ?n)"
    using b by (intro pow2_above) simp_all
  ultimately have "\<bar>x\<bar> < pow2 (digits2 ?n)" "pow2 (digits2 ?n - 1) \<le> \<bar>x\<bar>" using b by linarith+
  then show ?thesis using True by (simp add: ilog2_def)
next
  case False
  let ?y = "1 / \<bar>x\<bar>"
  let ?m = "\<lceil>?y\<rceil> - 1"
  have x: "0 < \<bar>x\<bar>" using assms by simp
  have "1 < ?y" using False x by simp
  then have "1 < \<lceil>?y\<rceil>" by (simp add: less_ceiling_iff)
  then have m: "0 < ?m" by simp
  note b = digits2_bounds [OF m]
  have y: "of_int ?m < ?y" "?y \<le> of_int ?m + 1" by linarith+
  have "(of_int ?m :: rat) + 1 \<le> pow2 (digits2 ?m)"
    using b by (intro pow2_above) simp_all
  then have y1: "?y \<le> pow2 (digits2 ?m)" and y2: "pow2 (digits2 ?m - 1) < ?y" using y b by linarith+
  have inv: "pow2 (- d) = 1 / pow2 d" for d by (simp add: pow2_power_int power_int_minus inverse_eq_divide)
  have "- digits2 ?m + 1 = - (digits2 ?m - 1)" by simp
  then have inv1: "pow2 (- digits2 ?m + 1) = 1 / pow2 (digits2 ?m - 1)" by (simp only: inv)
  have l: "ilog2 x = - digits2 ?m" using False by (simp only: ilog2_def if_False)
  show ?thesis unfolding l inv inv1 using recip(1) [OF pow2_pos x y1] recip(2) [OF pow2_pos x y2] by blast
qed

lemma round_even_whole: "round_even (of_int n) = n"
  by (simp add: round_even_def)

lemma round_even_near: "\<lfloor>x\<rfloor> \<le> round_even x \<and> round_even x \<le> \<lfloor>x\<rfloor> + 1"
  by (simp add: round_even_def Let_def)

lemma round_even_mono: "x \<le> y \<Longrightarrow> round_even x \<le> round_even y"
proof -
  assume le: "x \<le> y"
  then have f: "\<lfloor>x\<rfloor> \<le> \<lfloor>y\<rfloor>" by (rule floor_mono)
  show ?thesis
  proof (cases "\<lfloor>x\<rfloor> = \<lfloor>y\<rfloor>")
    case True
    then show ?thesis using le by (auto simp: round_even_def Let_def)
  next
    case False
    then have "\<lfloor>x\<rfloor> + 1 \<le> \<lfloor>y\<rfloor>" using f by simp
    then show ?thesis using round_even_near [of x] round_even_near [of y] by linarith
  qed
qed

lemma round_even_minus: "round_even (- x) = - round_even x"
proof (cases "x = of_int \<lfloor>x\<rfloor>")
  case True
  then show ?thesis using round_even_whole [of "\<lfloor>x\<rfloor>"] round_even_whole [of "- \<lfloor>x\<rfloor>"] by simp
next
  case False
  define r where "r = x - of_int \<lfloor>x\<rfloor>"
  have "of_int \<lfloor>x\<rfloor> \<le> x" by simp
  then have lt: "of_int \<lfloor>x\<rfloor> < x" using False by linarith
  have "x < of_int \<lfloor>x\<rfloor> + 1" by linarith
  then have f: "\<lfloor>- x\<rfloor> = - \<lfloor>x\<rfloor> - 1" using lt by (simp add: floor_eq_iff)
  have "- x - of_int \<lfloor>- x\<rfloor> = 1 - r" by (simp add: f r_def)
  moreover have "even (\<lfloor>- x\<rfloor>) \<longleftrightarrow> odd \<lfloor>x\<rfloor>" by (simp add: f)
  ultimately show ?thesis unfolding round_even_def Let_def r_def [symmetric] by (auto simp: f)
qed

text \<open>The unit in the last place.\<close>

definition ulp :: "rat \<Rightarrow> int" where "ulp x = max (ilog2 x - 52) (- 1074)"

lemma round53_ulp: "x \<noteq> 0 \<Longrightarrow> round53 x = of_int (round_even (x / pow2 (ulp x))) * pow2 (ulp x)"
  by (simp add: round53_def ulp_def Let_def)

lemma ilog2_minus: "ilog2 (- x) = ilog2 x"
  by (simp add: ilog2_def)

lemma round53_minus: "round53 (- x) = - round53 x"
  by (simp add: round53_def ilog2_minus round_even_minus Let_def)

lemma ilog2_mono: "0 < x \<Longrightarrow> x \<le> y \<Longrightarrow> ilog2 x \<le> ilog2 y"
proof -
  assume "0 < x" "x \<le> y"
  then have "pow2 (ilog2 x) \<le> x" "y < pow2 (ilog2 y + 1)" "x \<le> y" using ilog2_bounds [of x] ilog2_bounds [of y] by simp_all
  then have "pow2 (ilog2 x) < pow2 (ilog2 y + 1)" by linarith
  then show ?thesis by simp
qed

lemma scaled_bounds:
  assumes "0 < x"
  shows "x / pow2 (ulp x) < 2 ^ 53" "0 < x / pow2 (ulp x)" "- 1074 < ulp x \<Longrightarrow> 2 ^ 52 \<le> x / pow2 (ulp x)"
proof -
  have "ilog2 x + 1 \<le> 53 + ulp x" by (simp add: ulp_def)
  then have "pow2 (ilog2 x + 1) \<le> pow2 (53 + ulp x)" by (simp only: pow2_le_iff)
  moreover have "x < pow2 (ilog2 x + 1)" using ilog2_bounds [of x] assms by simp
  ultimately have "x < pow2 (53 + ulp x)" by linarith
  then show "x / pow2 (ulp x) < 2 ^ 53" using pow2_nat [of 53] by (simp add: pow2_add pos_divide_less_eq)
  show "0 < x / pow2 (ulp x)" using assms by simp
  assume "- 1074 < ulp x"
  then have "ilog2 x = 52 + ulp x" by (simp add: ulp_def max_def split: if_splits)
  then have "pow2 (52 + ulp x) \<le> x" using ilog2_bounds [of x] assms by simp
  then show "2 ^ 52 \<le> x / pow2 (ulp x)" using pow2_nat [of 52] by (simp add: pow2_add pos_le_divide_eq)
qed

lemma round53_range:
  assumes "0 < x"
  shows "0 \<le> round_even (x / pow2 (ulp x))" "round_even (x / pow2 (ulp x)) \<le> 2 ^ 53"
    "- 1074 < ulp x \<Longrightarrow> 2 ^ 52 \<le> round_even (x / pow2 (ulp x))"
  using round_even_mono [of 0 "x / pow2 (ulp x)"] round_even_mono [of "x / pow2 (ulp x)" "2 ^ 53"]
    round_even_mono [of "2 ^ 52" "x / pow2 (ulp x)"] scaled_bounds [OF assms]
    round_even_whole [of 0] round_even_whole [of "2 ^ 53"] round_even_whole [of "2 ^ 52"] by simp_all

lemma round53_mono_pos:
  assumes "0 < x" "x \<le> y"
  shows "round53 x \<le> round53 y"
proof (cases "ulp x = ulp y")
  case True
  have "x / pow2 (ulp y) \<le> y / pow2 (ulp y)" using assms(2) by (simp add: divide_right_mono less_imp_le)
  then show ?thesis using assms True round_even_mono by (simp add: round53_ulp)
next
  case False
  have "ulp x \<le> ulp y" using ilog2_mono [OF assms] by (simp add: ulp_def)
  then have less: "ulp x + 1 \<le> ulp y" using False by simp
  have "- 1074 \<le> ulp x" by (simp add: ulp_def)
  then have "- 1074 < ulp y" using less by simp
  then have y: "2 ^ 52 \<le> round_even (y / pow2 (ulp y))" using assms by (intro round53_range(3)) simp_all
  have "round53 x \<le> 2 ^ 53 * pow2 (ulp x)"
    using round53_range(2) [OF assms(1)] assms(1) by (simp add: round53_ulp)
  also have "\<dots> = 2 ^ 52 * pow2 (ulp x + 1)" using pow2_nat [of 1] by (simp add: pow2_add)
  also have "\<dots> \<le> 2 ^ 52 * pow2 (ulp y)" using less by simp
  also have "\<dots> \<le> round53 y"
  proof -
    have "(of_int (2 ^ 52) :: rat) \<le> of_int (round_even (y / pow2 (ulp y)))" using y by (simp only: of_int_le_iff)
    then show ?thesis using assms by (simp add: round53_ulp)
  qed
  finally show ?thesis .
qed

lemma round53_sign: "0 < x \<Longrightarrow> 0 \<le> round53 x" "x < 0 \<Longrightarrow> round53 x \<le> 0" "round53 0 = 0"
proof -
  show pos: "0 \<le> round53 x" if "0 < x" for x using round53_range(1) [OF that] that by (simp add: round53_ulp zero_le_mult_iff less_imp_le)
  show "x < 0 \<Longrightarrow> round53 x \<le> 0" using pos [of "- x"] round53_minus [of x] by simp
  show "round53 0 = 0" by (simp add: round53_def)
qed

lemma round53_mono: "mono round53"
proof (rule monoI)
  fix x y :: rat
  assume le: "x \<le> y"
  consider "0 < x" | "y < 0" | "x \<le> 0" "0 \<le> y" by linarith
  then show "round53 x \<le> round53 y"
  proof cases
    case 1
    then show ?thesis using le by (rule round53_mono_pos)
  next
    case 2
    then have "round53 (- y) \<le> round53 (- x)" using le by (intro round53_mono_pos) simp_all
    then show ?thesis by (simp add: round53_minus)
  next
    case 3
    then have "round53 x \<le> 0" "0 \<le> round53 y"
      using round53_sign(1) [of y] round53_sign(2) [of x] round53_sign(3) by (auto simp: order_le_less)
    then show ?thesis by simp
  qed
qed

lemma round53_idem_pos:
  assumes "0 < x"
  shows "round53 (round53 x) = round53 x"
proof (cases "round53 x = 0")
  case False
  define m where "m = round_even (x / pow2 (ulp x))"
  define v where "v = of_int m * pow2 (ulp x)"
  have v: "round53 x = v" using assms by (simp add: round53_ulp v_def m_def)
  have pos: "0 < v" using False round53_sign(1) [OF assms] v by linarith
  have m: "m \<le> 2 ^ 53" unfolding m_def using round53_range(2) [OF assms] .
  have "\<exists>n. v / pow2 (ulp v) = of_int n"
  proof (cases "m = 2 ^ 53")
    case True
    have "v = pow2 (53 + ulp x)" using pow2_nat [of 53] by (simp add: v_def True pow2_add)
    moreover have "v / pow2 (ulp v) < 2 ^ 53" using scaled_bounds(1) [OF pos] .
    moreover have "ulp v \<le> ulp x + 1"
    proof -
      have "pow2 (ilog2 v) \<le> pow2 (53 + ulp x)" using ilog2_bounds [of v] pos calculation(1) by simp
      then show ?thesis by (simp add: ulp_def [of v]) (simp add: ulp_def)
    qed
    then have "0 \<le> 53 + ulp x - ulp v" by simp
    moreover have "v / pow2 (ulp v) = pow2 (53 + ulp x - ulp v)"
    proof -
      have "pow2 (53 + ulp x) = pow2 (53 + ulp x - ulp v) * pow2 (ulp v)" using pow2_add [of "53 + ulp x - ulp v" "ulp v"] by simp
      then show ?thesis using calculation(1) by (metis nonzero_mult_div_cancel_right pow2_nonzero)
    qed
    ultimately show ?thesis using pow2_whole [of "53 + ulp x - ulp v"] by metis
  next
    case False
    then have "m \<le> 2 ^ 53 - 1" using m by simp
    then have "m < 2 ^ 53" by simp
    then have "(of_int m :: rat) < of_int (2 ^ 53)" by (simp only: of_int_less_iff)
    then have "v < pow2 (53 + ulp x)" using pow2_nat [of 53] by (simp add: v_def pow2_add)
    moreover have "pow2 (ilog2 v) \<le> v" using ilog2_bounds [of v] pos by simp
    ultimately have "pow2 (ilog2 v) < pow2 (53 + ulp x)" by linarith
    then have le: "ulp v \<le> ulp x" by (simp add: ulp_def [of v]) (simp add: ulp_def)
    have "pow2 (ulp x) = of_int (2 ^ nat (ulp x - ulp v)) * pow2 (ulp v)"
      using pow2_add [of "ulp x - ulp v" "ulp v"] le by (simp add: pow2_def [of "ulp x - ulp v"])
    then have "v = of_int (m * 2 ^ nat (ulp x - ulp v)) * pow2 (ulp v)" by (simp add: v_def [symmetric]) (simp add: v_def)
    then have "v / pow2 (ulp v) = of_int (m * 2 ^ nat (ulp x - ulp v))" by (metis nonzero_mult_div_cancel_right pow2_nonzero)
    then show ?thesis by blast
  qed
  then obtain n where n: "v / pow2 (ulp v) = of_int n" by blast
  have "round53 v = of_int n * pow2 (ulp v)" using pos by (simp add: round53_ulp n round_even_whole)
  also have "\<dots> = v" unfolding n [symmetric] by (simp add: less_imp_neq [OF pow2_pos, symmetric])
  finally show ?thesis using v by simp
qed (simp add: round53_sign(3))

lemma rounds_round53: "rounds round53"
proof -
  have "round53 (round53 x) = round53 x" for x
  proof -
    consider "0 < x" | "x = 0" | "0 < - x" by linarith
    then show ?thesis
    proof cases
      case 3
      then show ?thesis using round53_idem_pos [of "- x"] by (simp add: round53_minus)
    qed (simp_all add: round53_idem_pos round53_sign(3))
  qed
  then show ?thesis by (simp add: rounds_def round53_mono round53_sign(3))
qed

definition tenth :: rat where "tenth = 3602879701896397 / 36028797018963968"

definition tenth_driver :: "nat \<Rightarrow> rat \<Rightarrow> rat RampDriver" where
  "tenth_driver k c = \<lparr>rd_commands = c # replicate 7 0,
     rd_rampers = Some \<lparr>rp_current = c, rp_target = 1, rp_increment = tenth\<rparr> # replicate 7 None, rd_period = 100,
     rd_predictedCycles = 10, rd_cycle = k, rd_active = 1, rd_nextCycle = 0, rd_clockStarted = False\<rparr>"

lemma tenth_rounded: "round53 (1 / 10) = tenth" by (simp add: rounding tenth_def)

lemma max_size_rounded: "round53 (2 ^ 64 - 1) = 2 ^ 64" by (simp add: rounding)

lemma tenth_created: "driver_create rounded_ramp (replicate 8 0) (1 # replicate 7 0) tenth 100 = Some (tenth_driver 0 0)"
proof -
  have r: "ramper_create rounded_ramp 0 1 tenth = Some \<lparr>rp_current = 0, rp_target = 1, rp_increment = tenth\<rparr>"
    and n: "stepsRemaining rounded_ramp \<lparr>rp_current = 0, rp_target = 1, rp_increment = tenth\<rparr> = 10"
    by (simp_all add: ramper_create_def stepsRemaining_def rat_lit_zero max_size_rounded) (simp_all add: rounding tenth_def)
  have z: "create_zones rounded_ramp tenth (replicate m (0, 0)) p = Some (replicate m None, p)" for m p
  proof (induction m)
    case (Suc m)
    then show ?case
      by (simp add: ramper_create_def stepsRemaining_def rat_lit_zero max_size_rounded) (simp add: rounding tenth_def)
  qed simp
  have zip_: "zip (replicate 8 0) (1 # replicate 7 0) = (0, 1) # replicate 7 (0, 0 :: rat)"
    by (simp add: eval_nat_numeral)
  have zones: "create_zones rounded_ramp tenth (zip (replicate 8 0) (1 # replicate 7 0)) 0
    = Some (Some \<lparr>rp_current = 0, rp_target = 1, rp_increment = tenth\<rparr> # replicate 7 None, 10)"
    unfolding zip_ by (simp add: r n z)
  have "\<not> tenth \<le> 0" by (simp add: tenth_def)
  then show ?thesis
    unfolding driver_create_def zones by (simp add: rat_lit_zero tenth_driver_def) (simp add: eval_nat_numeral)
qed

lemma tenth_step:
  assumes "round53 (c + tenth) = c'" and "c < 1" and "c' < 1"
  shows "fst (driver_step rounded_ramp (tenth_driver k c)) = tenth_driver (Suc k) c'"
proof -
  have "step_zones rounded_ramp (replicate m (0, None)) a = (replicate m (0, None), a)" for m a
    by (induction m) simp_all
  moreover have "zip (rd_commands (tenth_driver k c)) (rd_rampers (tenth_driver k c))
    = (c, Some \<lparr>rp_current = c, rp_target = 1, rp_increment = tenth\<rparr>) # replicate 7 (0, None)"
    by (simp add: tenth_driver_def)
  ultimately have "step_zones rounded_ramp (zip (rd_commands (tenth_driver k c)) (rd_rampers (tenth_driver k c))) 1
    = ((c', Some \<lparr>rp_current = c', rp_target = 1, rp_increment = tenth\<rparr>) # replicate 7 (0, None), 1)"
    using assms by (simp add: ramper_step_def std_min_def)
  then show ?thesis by (simp add: driver_step_def) (simp add: tenth_driver_def)
qed

lemma tenth_sums:
  "round53 (0 + tenth) = 3602879701896397 / 36028797018963968"
  "round53 (3602879701896397 / 36028797018963968 + tenth) = 3602879701896397 / 18014398509481984"
  "round53 (3602879701896397 / 18014398509481984 + tenth) = 1351079888211149 / 4503599627370496"
  "round53 (1351079888211149 / 4503599627370496 + tenth) = 3602879701896397 / 9007199254740992"
  "round53 (3602879701896397 / 9007199254740992 + tenth) = 1 / 2"
  "round53 (1 / 2 + tenth) = 5404319552844595 / 9007199254740992"
  "round53 (5404319552844595 / 9007199254740992 + tenth) = 3152519739159347 / 4503599627370496"
  "round53 (3152519739159347 / 4503599627370496 + tenth) = 7205759403792793 / 9007199254740992"
  "round53 (7205759403792793 / 9007199254740992 + tenth) = 2026619832316723 / 2251799813685248"
  "round53 (2026619832316723 / 2251799813685248 + tenth) = 9007199254740991 / 9007199254740992"
  by (simp_all add: rounding tenth_def)


text \<open>A ramp whose increment is lost in rounding: eight steps are predicted and none moves it.\<close>

lemma ramp_stalls:
  "\<exists>r. ramper_create rounded_ramp (2 ^ 54) (2 ^ 54 + 8) 1 = Some r \<and> stepsRemaining rounded_ramp r = 8
     \<and> ramper_step rounded_ramp r = (r, False)"
  by (simp add: ramper_create_def stepsRemaining_def ramper_step_def std_min_def rat_lit_zero max_size_rounded)
    (simp add: rounding)

text \<open>C34: what holds of the ramps in rounded arithmetic too. The rounding is any monotone one that keeps 0 and the
  numbers it rounds to, as that of binary64 does (overflow to infinity is left out), and starts and targets
  are such numbers. Then the number of cycles predicted is at most \<open>SIZE_MAX\<close>, rounded; after any
  number of steps every command lies between its start and its target, and the next step moves it
  towards the target and never past it; the active ramps counted are those whose command differs from its
  target, except the ramps for which no step was predicted and which never move; and completion is
  reported by the step after which no ramp is active. That a target is reached is not among this: a command that one step leaves where it is, because the
  increment is lost in rounding, stays there for ever.\<close>

theorem rounded_ramps_sound:
  assumes "rounds rn" "\<forall>x \<in> set (startingCommands @ targetCommands). rn x = x"
    "driver_create (rounded rn) startingCommands targetCommands inc period = Some d"
    and "length startingCommands = zoneCount" "length targetCommands = zoneCount"
  shows "let c = (\<lambda>k i. rd_commands (drive (rounded rn) k d) ! i);
      unmoved = (\<lambda>i. steps_predicted rn inc (startingCommands ! i, targetCommands ! i) = 0)
    in of_nat (rd_predictedCycles d) \<le> rn (2 ^ 64 - 1)
     \<and> rd_active (drive (rounded rn) k d) = length (filter (\<lambda>i. c k i \<noteq> targetCommands ! i \<and> \<not> unmoved i) [0..<zoneCount])
     \<and> cr_complete (snd (driver_step (rounded rn) (drive (rounded rn) k d)))
         = (\<forall>i < zoneCount. c (Suc k) i = targetCommands ! i \<or> unmoved i)
     \<and> (\<forall>i < zoneCount.
          min (startingCommands ! i) (targetCommands ! i) \<le> c k i \<and> c k i \<le> max (startingCommands ! i) (targetCommands ! i)
        \<and> min (c k i) (targetCommands ! i) \<le> c (Suc k) i \<and> c (Suc k) i \<le> max (c k i) (targetCommands ! i)
        \<and> (c (Suc k) i = c k i \<longrightarrow> (\<forall>j \<ge> k. c j i = c k i)))"
proof -
  let ?zs = "zip startingCommands targetCommands"
  have l: "length startingCommands = length targetCommands" using assms(4,5) by simp
  note made = created_rounded [OF assms(1,3) l]
  have at_: "drive (rounded rn) k d = rounded_at rn d inc ?zs k" for k using drive_rounded [of rn k d inc ?zs] made(1) by metis
  have c: "rd_commands (drive (rounded rn) k d) ! i = command_at rn inc k (startingCommands ! i, targetCommands ! i)"
    if "i < zoneCount" for k i using that assms(4,5) by (simp add: at_ rounded_at_def)
  have active: "rd_active (drive (rounded rn) k d) = length (filter (\<lambda>i. rd_commands (drive (rounded rn) k d) ! i \<noteq> targetCommands ! i
      \<and> steps_predicted rn inc (startingCommands ! i, targetCommands ! i) \<noteq> 0) [0..<zoneCount])" for k
  proof -
    have zs: "?zs = map (\<lambda>i. (startingCommands ! i, targetCommands ! i)) [0..<zoneCount]"
      using assms(4,5) by (intro nth_equalityI) simp_all
    have "rd_active (drive (rounded rn) k d) = length (filter (moving rn inc k) ?zs)" by (simp add: at_ rounded_at_def)
    also have "\<dots> = length (filter (\<lambda>i. moving rn inc k (startingCommands ! i, targetCommands ! i)) [0..<zoneCount])"
      unfolding zs by (rule length_filter_map)
    also have "filter (\<lambda>i. moving rn inc k (startingCommands ! i, targetCommands ! i)) [0..<zoneCount]
      = filter (\<lambda>i. rd_commands (drive (rounded rn) k d) ! i \<noteq> targetCommands ! i
      \<and> steps_predicted rn inc (startingCommands ! i, targetCommands ! i) \<noteq> 0) [0..<zoneCount]"
      by (intro filter_cong) (auto simp: c moving_def)
    finally show ?thesis .
  qed
  have "cr_complete (snd (driver_step db d)) \<longleftrightarrow> rd_active (fst (driver_step db d)) = 0" for db and d :: "rat RampDriver"
    by (simp add: driver_step_def split: prod.split)
  then have complete: "cr_complete (snd (driver_step (rounded rn) (drive (rounded rn) k d))) \<longleftrightarrow> rd_active (drive (rounded rn) (Suc k) d) = 0"
    by (simp add: drive_def)
  have between: "min (startingCommands ! i) (targetCommands ! i) \<le> command_at rn inc k (startingCommands ! i, targetCommands ! i)
    \<and> command_at rn inc k (startingCommands ! i, targetCommands ! i) \<le> max (startingCommands ! i) (targetCommands ! i)
    \<and> min (command_at rn inc k (startingCommands ! i, targetCommands ! i)) (targetCommands ! i)
        \<le> command_at rn inc (Suc k) (startingCommands ! i, targetCommands ! i)
    \<and> command_at rn inc (Suc k) (startingCommands ! i, targetCommands ! i)
        \<le> max (command_at rn inc k (startingCommands ! i, targetCommands ! i)) (targetCommands ! i)" if "i < zoneCount" for i
    using command_between [OF assms(1) made(2), of "(startingCommands ! i, targetCommands ! i)" k] assms(2,4,5) that by simp
  have stalls: "command_at rn inc j z = command_at rn inc k z"
    if "command_at rn inc (Suc k) z = command_at rn inc k z" "k \<le> j" for j z
    using command_stalls [OF that(1), of "j - k"] that(2) by simp
  show ?thesis
    unfolding Let_def
    by (intro conjI made(3) active) (auto simp: complete active c between filter_empty_conv intro: stalls)
qed

theorem rounded_ramps_sound_witness:
  "\<forall>k. 0 \<le> rd_commands (drive rounded_ramp k (tenth_driver 0 0)) ! 0 \<and> rd_commands (drive rounded_ramp k (tenth_driver 0 0)) ! 0 \<le> 1
     \<and> rd_commands (drive rounded_ramp k (tenth_driver 0 0)) ! 0 \<le> rd_commands (drive rounded_ramp (Suc k) (tenth_driver 0 0)) ! 0"
proof
  fix k
  have ends: "round53 0 = 0" "round53 1 = 1" by (simp_all add: rounding)
  then have fixed: "\<forall>x \<in> set (replicate 8 0 @ (1 # replicate 7 0)). round53 x = x" by simp
  have len: "length (replicate 8 (0 :: rat)) = zoneCount" "length (1 # replicate 7 (0 :: rat)) = zoneCount" by (simp_all add: zoneCount_def)
  have "\<forall>i < zoneCount. min (replicate 8 0 ! i) ((1 # replicate 7 0) ! i) \<le> rd_commands (drive rounded_ramp k (tenth_driver 0 0)) ! i
      \<and> rd_commands (drive rounded_ramp k (tenth_driver 0 0)) ! i \<le> max (replicate 8 0 ! i) ((1 # replicate 7 0) ! i)
      \<and> min (rd_commands (drive rounded_ramp k (tenth_driver 0 0)) ! i) ((1 # replicate 7 0) ! i)
          \<le> rd_commands (drive rounded_ramp (Suc k) (tenth_driver 0 0)) ! i"
    using rounded_ramps_sound [OF rounds_round53 fixed tenth_created len, of k] unfolding Let_def by blast
  then show "0 \<le> rd_commands (drive rounded_ramp k (tenth_driver 0 0)) ! 0 \<and> rd_commands (drive rounded_ramp k (tenth_driver 0 0)) ! 0 \<le> 1
     \<and> rd_commands (drive rounded_ramp k (tenth_driver 0 0)) ! 0 \<le> rd_commands (drive rounded_ramp (Suc k) (tenth_driver 0 0)) ! 0"
    by (auto simp: zoneCount_def min_def split: if_splits dest: spec [of _ 0])
qed

end
