(* ===== verification/Smoker.thy ===== *)
theory Smoker
  imports Complex_Main Filtering
begin

text \<open>
  Chapter 9, the smoker of \<open>smoker_pid\<close>: the PID controller with its anti-windup (\<open>PidController.cpp\<close>), the
  plant (\<open>SmokerPlant.cpp\<close>), the simulation of 900 seconds in six scenarios (\<open>Simulation.cpp\<close>) and the
  program. An exception is \<open>Inl\<close> of its text.
\<close>

section \<open>The controller\<close>

record 'd PidResult =
  pr_error :: 'd
  pr_proportional :: 'd
  pr_integral :: 'd
  pr_derivative :: 'd
  pr_rawOutput :: 'd
  pr_output :: 'd
  pr_saturated :: bool

record 'd Gains =
  kp :: 'd
  ki :: 'd
  kd :: 'd

record 'd Limits =
  lim_minimum :: 'd
  lim_maximum :: 'd

record 'd PidController =
  pc_gains :: "'d Gains"
  pc_limits :: "'d Limits"
  pc_antiWindup :: bool
  pc_integral :: 'd
  pc_previousError :: 'd
  pc_hasPreviousError :: bool

definition default_result :: "'d binary64 \<Rightarrow> 'd PidResult" where
  "default_result db = (let z = db_lit db ''0.0'' in
     \<lparr>pr_error = z, pr_proportional = z, pr_integral = z, pr_derivative = z, pr_rawOutput = z, pr_output = z,
      pr_saturated = False\<rparr>)"

definition default_limits :: "'d binary64 \<Rightarrow> 'd Limits" where
  "default_limits db = \<lparr>lim_minimum = db_lit db ''0.0'', lim_maximum = db_lit db ''1.0''\<rparr>"

definition newPidController :: "'d binary64 \<Rightarrow> 'd Gains \<Rightarrow> 'd Limits \<Rightarrow> bool \<Rightarrow> string + 'd PidController" where
  "newPidController db gains limits antiWindup =
     (if \<not> db_isfinite db (kp gains) \<or> \<not> db_isfinite db (ki gains) \<or> \<not> db_isfinite db (kd gains)
         \<or> db_less db (kp gains) (db_lit db ''0.0'') \<or> db_less db (ki gains) (db_lit db ''0.0'')
         \<or> db_less db (kd gains) (db_lit db ''0.0'') \<or> \<not> db_isfinite db (lim_minimum limits)
         \<or> \<not> db_isfinite db (lim_maximum limits) \<or> db_ge db (lim_minimum limits) (lim_maximum limits)
      then Inl ''invalid PID gains or output limits''
      else Inr \<lparr>pc_gains = gains, pc_limits = limits, pc_antiWindup = antiWindup, pc_integral = db_lit db ''0.0'',
        pc_previousError = db_lit db ''0.0'', pc_hasPreviousError = False\<rparr>)"

definition std_clamp :: "'d binary64 \<Rightarrow> 'd \<Rightarrow> 'd \<Rightarrow> 'd \<Rightarrow> 'd" where
  "std_clamp db v lo hi = (if db_less db v lo then lo else if db_less db hi v then hi else v)"

definition pid_update :: "'d binary64 \<Rightarrow> 'd PidController \<Rightarrow> 'd \<Rightarrow> 'd \<Rightarrow> 'd \<Rightarrow> string + 'd PidController \<times> 'd PidResult" where
  "pid_update db c setpoint measurement deltaTime =
     (if \<not> db_isfinite db setpoint \<or> \<not> db_isfinite db measurement \<or> \<not> db_isfinite db deltaTime
         \<or> db_ge db (db_lit db ''0.0'') deltaTime
      then Inl ''PID inputs must be finite and delta time must be positive''
      else
        let err = db_sub db setpoint measurement;
            proportional = db_mul db (kp (pc_gains c)) err;
            derivative = (if pc_hasPreviousError c
              then db_mul db (kd (pc_gains c)) (db_div db (db_sub db err (pc_previousError c)) deltaTime)
              else db_lit db ''0.0'');
            candidateIntegral = db_add db (pc_integral c) (db_mul db (db_mul db (ki (pc_gains c)) err) deltaTime);
            candidateOutput = db_add db (db_add db proportional candidateIntegral) derivative;
            drivesHigh = db_less db (lim_maximum (pc_limits c)) candidateOutput \<and> db_less db (db_lit db ''0.0'') err;
            drivesLow = db_less db candidateOutput (lim_minimum (pc_limits c)) \<and> db_less db err (db_lit db ''0.0'');
            integral = (if \<not> pc_antiWindup c \<or> (\<not> drivesHigh \<and> \<not> drivesLow) then candidateIntegral else pc_integral c);
            rawOutput = db_add db (db_add db proportional integral) derivative;
            limited = std_clamp db rawOutput (lim_minimum (pc_limits c)) (lim_maximum (pc_limits c))
        in Inr (c\<lparr>pc_integral := integral, pc_previousError := err, pc_hasPreviousError := True\<rparr>,
                \<lparr>pr_error = err, pr_proportional = proportional, pr_integral = integral, pr_derivative = derivative,
                 pr_rawOutput = rawOutput, pr_output = limited,
                 pr_saturated = (\<not> ar_eq (db_arithmetic db) limited rawOutput)\<rparr>))"

definition pid_reset :: "'d binary64 \<Rightarrow> 'd PidController \<Rightarrow> 'd PidController" where
  "pid_reset db c =
     c\<lparr>pc_integral := db_lit db ''0.0'', pc_previousError := db_lit db ''0.0'', pc_hasPreviousError := False\<rparr>"

section \<open>The plant\<close>

record 'd PlantParameters =
  pp_ambientTemperature :: 'd
  pp_heatingCoefficient :: 'd
  pp_heatLossCoefficient :: 'd
  pp_initialTemperature :: 'd

record 'd SmokerPlant =
  sp_parameters :: "'d PlantParameters"
  sp_temperature :: 'd

definition default_plant :: "'d binary64 \<Rightarrow> 'd PlantParameters" where
  "default_plant db = \<lparr>pp_ambientTemperature = db_lit db ''75.0'', pp_heatingCoefficient = db_lit db ''6.0'',
     pp_heatLossCoefficient = db_lit db ''0.025'', pp_initialTemperature = db_lit db ''75.0''\<rparr>"

definition newSmokerPlant :: "'d binary64 \<Rightarrow> 'd PlantParameters \<Rightarrow> string + 'd SmokerPlant" where
  "newSmokerPlant db p =
     (if \<not> db_isfinite db (pp_ambientTemperature p) \<or> \<not> db_isfinite db (pp_initialTemperature p)
         \<or> db_less db (pp_heatingCoefficient p) (db_lit db ''0.0'')
         \<or> db_less db (pp_heatLossCoefficient p) (db_lit db ''0.0'')
      then Inl ''invalid smoker plant parameters''
      else Inr \<lparr>sp_parameters = p, sp_temperature = pp_initialTemperature p\<rparr>)"

definition plant_update :: "'d binary64 \<Rightarrow> 'd SmokerPlant \<Rightarrow> 'd \<Rightarrow> 'd \<Rightarrow> string + 'd SmokerPlant" where
  "plant_update db s fanCommand deltaTime =
     (if \<not> db_isfinite db fanCommand \<or> \<not> db_isfinite db deltaTime \<or> db_ge db (db_lit db ''0.0'') deltaTime
      then Inl ''fan command and delta time must be finite; delta time must be positive''
      else
        let boundedFan = std_clamp db fanCommand (db_lit db ''0.0'') (db_lit db ''1.0'');
            heating = db_mul db (pp_heatingCoefficient (sp_parameters s)) boundedFan;
            heatLoss = db_mul db (pp_heatLossCoefficient (sp_parameters s))
              (db_sub db (sp_temperature s) (pp_ambientTemperature (sp_parameters s)))
        in Inr (s\<lparr>sp_temperature := db_add db (sp_temperature s) (db_mul db (db_sub db heating heatLoss) deltaTime)\<rparr>))"

definition applyTemperatureDrop :: "'d binary64 \<Rightarrow> 'd SmokerPlant \<Rightarrow> 'd \<Rightarrow> string + 'd SmokerPlant" where
  "applyTemperatureDrop db s degrees =
     (if \<not> db_isfinite db degrees \<or> db_less db degrees (db_lit db ''0.0'')
      then Inl ''temperature drop must be finite and nonnegative''
      else let ambient = pp_ambientTemperature (sp_parameters s); dropped = db_sub db (sp_temperature s) degrees
           in Inr (s\<lparr>sp_temperature := (if db_less db ambient dropped then dropped else ambient)\<rparr>))"

definition plant_reset :: "'d SmokerPlant \<Rightarrow> 'd SmokerPlant" where
  "plant_reset s = s\<lparr>sp_temperature := pp_initialTemperature (sp_parameters s)\<rparr>"

section \<open>The simulation\<close>

datatype Scenario = OpenLoop | ScenarioP | ScenarioPI | ScenarioPID | Windup | Disturbance

definition gainsFor :: "'d binary64 \<Rightarrow> Scenario \<Rightarrow> 'd Gains" where
  "gainsFor db scenario =
     (let g = (\<lambda>p i d. \<lparr>kp = db_lit db p, ki = db_lit db i, kd = db_lit db d\<rparr>)
      in case scenario of
        OpenLoop \<Rightarrow> g ''0.0'' ''0.0'' ''0.0''
      | ScenarioP \<Rightarrow> g ''0.012'' ''0.0'' ''0.0''
      | ScenarioPI \<Rightarrow> g ''0.012'' ''0.00022'' ''0.0''
      | ScenarioPID \<Rightarrow> g ''0.012'' ''0.00022'' ''0.06''
      | Windup \<Rightarrow> g ''0.012'' ''0.0015'' ''0.0''
      | Disturbance \<Rightarrow> g ''0.012'' ''0.00022'' ''0.06'')"

definition scenarioName :: "Scenario \<Rightarrow> string" where
  "scenarioName scenario = (case scenario of OpenLoop \<Rightarrow> ''open-loop'' | ScenarioP \<Rightarrow> ''p'' | ScenarioPI \<Rightarrow> ''pi''
     | ScenarioPID \<Rightarrow> ''pid'' | Windup \<Rightarrow> ''windup'' | Disturbance \<Rightarrow> ''disturbance'')"

definition parseScenario :: "string \<Rightarrow> string + Scenario" where
  "parseScenario name =
     (if name = ''open-loop'' then Inr OpenLoop else if name = ''p'' then Inr ScenarioP
      else if name = ''pi'' then Inr ScenarioPI else if name = ''pid'' then Inr ScenarioPID
      else if name = ''windup'' then Inr Windup else if name = ''disturbance'' then Inr Disturbance
      else Inl (''unknown scenario: '' @ name))"

record 'd Simulation =
  si_scenario :: Scenario
  si_plant :: "'d SmokerPlant"
  si_controller :: "'d PidController"

definition newSimulation :: "'d binary64 \<Rightarrow> Scenario \<Rightarrow> string + 'd Simulation" where
  "newSimulation db scenario =
     (case newSmokerPlant db (default_plant db) of
        Inl e \<Rightarrow> Inl e
      | Inr plant \<Rightarrow>
          (case newPidController db (gainsFor db scenario) (default_limits db) (scenario \<noteq> Windup) of
             Inl e \<Rightarrow> Inl e
           | Inr c \<Rightarrow> Inr \<lparr>si_scenario = scenario, si_plant = plant, si_controller = c\<rparr>))"

text \<open>What a line of the output shows.\<close>

record 'd SimulationRow =
  sr_second :: nat
  sr_temperature :: 'd
  sr_result :: "'d PidResult"
  sr_fanCommand :: 'd
  sr_disturbance :: bool

definition durationSeconds :: nat where "durationSeconds = 900"

definition setpoint9 :: "'d binary64 \<Rightarrow> 'd" where "setpoint9 db = db_lit db ''250.0''"
definition deltaTime9 :: "'d binary64 \<Rightarrow> 'd" where "deltaTime9 db = db_lit db ''1.0''"

text \<open>One turn of the loop of \<open>Simulation::run\<close>: the disturbance, the command, the row, and the plant.\<close>

definition fan_of :: "'d binary64 \<Rightarrow> 'd Simulation \<Rightarrow> string + 'd PidController \<times> 'd PidResult \<times> 'd" where
  "fan_of db s =
     (if si_scenario s \<noteq> OpenLoop
      then (case pid_update db (si_controller s) (setpoint9 db) (sp_temperature (si_plant s)) (deltaTime9 db) of
              Inl e \<Rightarrow> Inl e
            | Inr (c, r) \<Rightarrow> Inr (c, r, pr_output r))
      else let fan = db_lit db ''0.55''
           in Inr (si_controller s, (default_result db)\<lparr>pr_error := db_sub db (setpoint9 db) (sp_temperature (si_plant s)),
                pr_rawOutput := fan, pr_output := fan\<rparr>, fan))"

definition simulate_second :: "'d binary64 \<Rightarrow> nat \<Rightarrow> 'd Simulation \<Rightarrow> 'd SimulationRow list \<times> (string + 'd Simulation)" where
  "simulate_second db second s =
     (let disturbance = (si_scenario s = Disturbance \<and> second = 500)
      in case (if disturbance then applyTemperatureDrop db (si_plant s) (db_lit db ''55.0'') else Inr (si_plant s)) of
        Inl e \<Rightarrow> ([], Inl e)
      | Inr plant \<Rightarrow>
          (case fan_of db (s\<lparr>si_plant := plant\<rparr>) of
             Inl e \<Rightarrow> ([], Inl e)
           | Inr (c, r, fan) \<Rightarrow>
               let row = \<lparr>sr_second = second, sr_temperature = sp_temperature plant, sr_result = r, sr_fanCommand = fan,
                          sr_disturbance = disturbance\<rparr>;
                   s' = s\<lparr>si_plant := plant, si_controller := c\<rparr>
               in if second \<noteq> durationSeconds
                  then (case plant_update db plant fan (deltaTime9 db) of
                          Inl e \<Rightarrow> ([row], Inl e)
                        | Inr plant' \<Rightarrow> ([row], Inr (s'\<lparr>si_plant := plant'\<rparr>)))
                  else ([row], Inr s')))"

primrec simulate :: "'d binary64 \<Rightarrow> nat list \<Rightarrow> 'd Simulation \<Rightarrow> 'd SimulationRow list \<times> (string + 'd Simulation)" where
  "simulate db [] s = ([], Inr s)"
| "simulate db (second # seconds) s =
     (case simulate_second db second s of
        (rows, Inl e) \<Rightarrow> (rows, Inl e)
      | (rows, Inr s') \<Rightarrow> (let (rows', outcome) = simulate db seconds s' in (rows @ rows', outcome)))"

definition row_text :: "'d binary64 \<Rightarrow> 'd SimulationRow \<Rightarrow> string" where
  "row_text db row =
     (let r = sr_result row; f = db_fixed db 6; bit = (\<lambda>b. if b then ''1'' else ''0'')
      in show_nat (sr_second row) @ '','' @ f (setpoint9 db) @ '','' @ f (sr_temperature row) @ '','' @ f (pr_error r) @ '',''
         @ f (pr_proportional r) @ '','' @ f (pr_integral r) @ '','' @ f (pr_derivative r) @ '','' @ f (pr_rawOutput r) @ '',''
         @ f (sr_fanCommand row) @ '','' @ bit (pr_saturated r) @ '','' @ bit (sr_disturbance row))"

definition simulation_header :: string where
  "simulation_header = ''time_s,setpoint_f,temperature_f,error_f,p_term,i_term,d_term,'' @ ''raw_output,fan_command,saturated,disturbance''"

definition simulation_run :: "'d binary64 \<Rightarrow> 'd Simulation \<Rightarrow> string list \<times> (string + 'd Simulation)" where
  "simulation_run db s = (let (rows, outcome) = simulate db [0..<Suc durationSeconds] s
     in (simulation_header # map (row_text db) rows, outcome))"

text \<open>The program: the exit code, and the lines written with the name of the file (\<open>None\<close> for the console).
  \<open>opens\<close> tells whether the file can be opened.\<close>

definition smoker_main :: "'d binary64 \<Rightarrow> (string \<Rightarrow> bool) \<Rightarrow> string list \<Rightarrow> int \<times> (string option \<times> string list) option" where
  "smoker_main db opens args =
     (if length args < 1 \<or> 2 < length args then (1, None)
      else case parseScenario (args ! 0) of
        Inl e \<Rightarrow> (1, None)
      | Inr scenario \<Rightarrow>
          (case newSimulation db scenario of
             Inl e \<Rightarrow> (1, None)
           | Inr s \<Rightarrow>
               if length args = 2 \<and> \<not> opens (args ! 1) then (1, None)
               else let (rows, outcome) = simulation_run db s
                    in (case outcome of Inl e \<Rightarrow> 1 | Inr s' \<Rightarrow> 0,
                        Some (if length args = 2 then Some (args ! 1) else None, rows))))"

section \<open>Exact decimals\<close>

text \<open>Rational numbers with the decimal literals of the program.\<close>

definition dec_lit :: "string \<Rightarrow> rat" where
  "dec_lit s = (let w = takeWhile is_digit s; f = takeWhile is_digit (drop (Suc (length w)) s)
     in of_nat (nat_of_digits w) + of_nat (nat_of_digits f) / 10 ^ length f)"

definition dec_db :: "rat binary64" where "dec_db = rat_db\<lparr>db_lit := dec_lit\<rparr>"

lemma dec_db_simps [simp]:
  "db_less dec_db = (<)" "db_add dec_db = (+)" "db_sub dec_db = (-)" "db_mul dec_db = (*)" "db_div dec_db = (/)"
  "db_isfinite dec_db x = True" "ar_ge (db_arithmetic dec_db) = (\<ge>)" "ar_eq (db_arithmetic dec_db) = (=)"
  "db_lit dec_db = dec_lit"
  by (simp_all add: dec_db_def rat_db_def)

lemma dec_lits [simp]:
  "dec_lit ''0.0'' = 0" "dec_lit ''1.0'' = 1" "dec_lit ''75.0'' = 75" "dec_lit ''6.0'' = 6" "dec_lit ''0.025'' = 1 / 40"
  "dec_lit ''0.55'' = 11 / 20" "dec_lit ''55.0'' = 55" "dec_lit ''250.0'' = 250" "dec_lit ''0.012'' = 3 / 250"
  "dec_lit ''0.00022'' = 11 / 50000" "dec_lit ''0.06'' = 3 / 50" "dec_lit ''0.0015'' = 3 / 2000"
  by (simp_all add: dec_lit_def nat_of_digits_def is_digit_def in_chars_def code_def digit_val_def)

lemma clamp_bounds: "lo \<le> hi \<Longrightarrow> lo \<le> std_clamp dec_db v lo hi \<and> std_clamp dec_db v lo hi \<le> hi"
  and clamp_inside: "lo \<le> v \<Longrightarrow> v \<le> hi \<Longrightarrow> std_clamp dec_db v lo hi = v"
  by (auto simp: std_clamp_def)

section \<open>The integral of the controller\<close>

text \<open>A sequence of updates, each a setpoint, a measurement and a time step; it ends at the first exception.\<close>

primrec pid_run :: "'d binary64 \<Rightarrow> 'd PidController \<Rightarrow> ('d \<times> 'd \<times> 'd) list \<Rightarrow> string + 'd PidController \<times> 'd PidResult list" where
  "pid_run db c [] = Inr (c, [])"
| "pid_run db c (u # us) =
     (case pid_update db c (fst u) (fst (snd u)) (snd (snd u)) of
        Inl e \<Rightarrow> Inl e
      | Inr (c', r) \<Rightarrow> (case pid_run db c' us of Inl e \<Rightarrow> Inl e | Inr (c'', rs) \<Rightarrow> Inr (c'', r # rs)))"

lemma pid_run_Cons:
  assumes "pid_run db c (u # us) = Inr (c'', rs)"
  obtains c' r rs' where "pid_update db c (fst u) (fst (snd u)) (snd (snd u)) = Inr (c', r)"
    and "pid_run db c' us = Inr (c'', rs')" and "rs = r # rs'"
  using assms by (auto split: sum.splits)

definition pid_ok :: "rat PidController \<Rightarrow> bool" where
  "pid_ok c \<longleftrightarrow> 0 \<le> kp (pc_gains c) \<and> 0 \<le> ki (pc_gains c) \<and> 0 \<le> kd (pc_gains c)
     \<and> lim_minimum (pc_limits c) < lim_maximum (pc_limits c)"

lemma pid_ok_new: "newPidController dec_db g l a = Inr c \<Longrightarrow>
    pid_ok c \<and> pc_integral c = 0 \<and> pc_antiWindup c = a \<and> pc_limits c = l \<and> pc_gains c = g"
  by (auto simp: newPidController_def pid_ok_def split: if_splits)

text \<open>An update in exact numbers: what every field of its result is.\<close>

lemma pid_update_exact:
  assumes "pid_update dec_db c setpoint measurement dt = Inr (c', r)" and "pid_ok c"
  shows "0 < dt" and "pr_error r = setpoint - measurement" and "pr_proportional r = kp (pc_gains c) * pr_error r"
    and "pr_rawOutput r = pr_proportional r + pr_integral r + pr_derivative r"
    and "pr_output r = std_clamp dec_db (pr_rawOutput r) (lim_minimum (pc_limits c)) (lim_maximum (pc_limits c))"
    and "pr_saturated r \<longleftrightarrow> pr_output r \<noteq> pr_rawOutput r"
    and "c' = c\<lparr>pc_integral := pr_integral r, pc_previousError := pr_error r, pc_hasPreviousError := True\<rparr>"
    and "let candidate = pc_integral c + ki (pc_gains c) * pr_error r * dt;
             out = pr_proportional r + candidate + pr_derivative r
         in pr_integral r = (if pc_antiWindup c \<and> (lim_maximum (pc_limits c) < out \<and> 0 < pr_error r
              \<or> out < lim_minimum (pc_limits c) \<and> pr_error r < 0) then pc_integral c else candidate)"
    and "pid_ok c'"
  using assms by (auto simp: pid_update_def pid_ok_def Let_def split: if_splits)

text \<open>An error that is not yet in saturation bounds the integral by the limits and the derivative.\<close>

lemma integral_step:
  assumes u: "pid_update dec_db c setpoint measurement dt = Inr (c', r)" and ok: "pid_ok c" and anti: "pc_antiWindup c"
    and d: "\<bar>pr_derivative r\<bar> \<le> B"
    and i: "min 0 (lim_minimum (pc_limits c)) - B \<le> pc_integral c" "pc_integral c \<le> max 0 (lim_maximum (pc_limits c)) + B"
  shows "min 0 (lim_minimum (pc_limits c)) - B \<le> pr_integral r \<and> pr_integral r \<le> max 0 (lim_maximum (pc_limits c)) + B"
proof -
  note x = pid_update_exact [OF u ok]
  have e: "0 < pr_error r \<Longrightarrow> 0 \<le> pr_proportional r" "pr_error r < 0 \<Longrightarrow> pr_proportional r \<le> 0"
    "0 < pr_error r \<Longrightarrow> 0 \<le> ki (pc_gains c) * pr_error r * dt" "pr_error r \<le> 0 \<Longrightarrow> ki (pc_gains c) * pr_error r * dt \<le> 0"
    "0 \<le> pr_error r \<Longrightarrow> 0 \<le> ki (pc_gains c) * pr_error r * dt"
    using ok x(1) by (auto simp: x(3) pid_ok_def mult_nonneg_nonpos mult_nonpos_nonneg)
  define q where "q = ki (pc_gains c) * pr_error r * dt"
  have "pr_integral r = pc_integral c \<or> pr_integral r = pc_integral c + q
      \<and> (0 < pr_error r \<longrightarrow> pr_proportional r + (pc_integral c + q) + pr_derivative r \<le> lim_maximum (pc_limits c))
      \<and> (pr_error r < 0 \<longrightarrow> lim_minimum (pc_limits c) \<le> pr_proportional r + (pc_integral c + q) + pr_derivative r)"
    using x(8) anti by (auto simp: Let_def q_def split: if_splits)
  then show ?thesis using e [folded q_def] i d by (cases "pr_error r" "0 :: rat" rule: linorder_cases) auto
qed

text \<open>Anti-windup keeps the integral of the controller bounded. For every sequence of setpoints,
  measurements and time steps, as long as no derivative term exceeds \<open>B\<close>, the integral stays within the limits of the output
  widened by \<open>B\<close> (and by zero), the output stays within the limits, and the saturation flag is true
  exactly where the limit changed the output.\<close>

theorem integral_bounded:
  assumes "newPidController dec_db gains limits True = Inr c" and "pid_run dec_db c us = Inr (c', rs)"
    and "\<forall>r \<in> set rs. \<bar>pr_derivative r\<bar> \<le> B" and "0 \<le> B"
  shows "\<forall>r \<in> set rs. min 0 (lim_minimum limits) - B \<le> pr_integral r \<and> pr_integral r \<le> max 0 (lim_maximum limits) + B
      \<and> lim_minimum limits \<le> pr_output r \<and> pr_output r \<le> lim_maximum limits
      \<and> (pr_saturated r \<longleftrightarrow> pr_rawOutput r < lim_minimum limits \<or> lim_maximum limits < pr_rawOutput r)"
proof -
  have gen: "\<forall>r \<in> set rs. min 0 (lim_minimum limits) - B \<le> pr_integral r \<and> pr_integral r \<le> max 0 (lim_maximum limits) + B
      \<and> lim_minimum limits \<le> pr_output r \<and> pr_output r \<le> lim_maximum limits
      \<and> (pr_saturated r \<longleftrightarrow> pr_rawOutput r < lim_minimum limits \<or> lim_maximum limits < pr_rawOutput r)"
    if "pid_run dec_db c us = Inr (c', rs)" "pid_ok c" "pc_antiWindup c" "pc_limits c = limits"
      "min 0 (lim_minimum limits) - B \<le> pc_integral c" "pc_integral c \<le> max 0 (lim_maximum limits) + B"
      "\<forall>r \<in> set rs. \<bar>pr_derivative r\<bar> \<le> B" for c us c' rs
    using that
  proof (induction us arbitrary: c rs)
    case (Cons u us)
    from Cons.prems(1) obtain c1 r rs' where u: "pid_update dec_db c (fst u) (fst (snd u)) (snd (snd u)) = Inr (c1, r)"
      and run: "pid_run dec_db c1 us = Inr (c', rs')" and rs: "rs = r # rs'" by (rule pid_run_Cons)
    note x = pid_update_exact [OF u Cons.prems(2)]
    have b: "min 0 (lim_minimum limits) - B \<le> pr_integral r \<and> pr_integral r \<le> max 0 (lim_maximum limits) + B"
      using integral_step [OF u Cons.prems(2,3), of B] Cons.prems(4-7) by (simp add: rs)
    have "\<forall>r \<in> set rs'. min 0 (lim_minimum limits) - B \<le> pr_integral r \<and> pr_integral r \<le> max 0 (lim_maximum limits) + B
      \<and> lim_minimum limits \<le> pr_output r \<and> pr_output r \<le> lim_maximum limits
      \<and> (pr_saturated r \<longleftrightarrow> pr_rawOutput r < lim_minimum limits \<or> lim_maximum limits < pr_rawOutput r)"
      using Cons.IH [OF run x(9)] Cons.prems(3,4,7) b by (simp add: x(7) rs)
    moreover have "lim_minimum limits < lim_maximum limits" using Cons.prems(2,4) by (simp add: pid_ok_def)
    ultimately show ?case using b Cons.prems(4) by (auto simp: rs x(5,6) std_clamp_def)
  qed simp
  note n = pid_ok_new [OF assms(1)]
  show ?thesis by (rule gen [OF assms(2)]) (use n assms(3,4) in auto)
qed

theorem integral_bounded_witness:
  "\<exists>c c' rs. newPidController dec_db \<lparr>kp = 1, ki = 1, kd = 0\<rparr> \<lparr>lim_minimum = 0, lim_maximum = 1\<rparr> True = Inr c
     \<and> pid_run dec_db c [(10, 0, 1), (10, 9, 1)] = Inr (c', rs) \<and> length rs = 2
     \<and> (\<forall>r \<in> set rs. 0 \<le> pr_integral r \<and> pr_integral r \<le> 1)"
proof -
  let ?c = "\<lparr>pc_gains = \<lparr>kp = 1, ki = 1, kd = 0\<rparr>, pc_limits = \<lparr>lim_minimum = 0, lim_maximum = 1\<rparr>, pc_antiWindup = True,
    pc_integral = 0, pc_previousError = 0, pc_hasPreviousError = False\<rparr> :: rat PidController"
  have c: "newPidController dec_db \<lparr>kp = 1, ki = 1, kd = 0\<rparr> \<lparr>lim_minimum = 0, lim_maximum = 1\<rparr> True = Inr ?c"
    by (simp add: newPidController_def)
  have "\<exists>c' rs. pid_run dec_db ?c [(10, 0, 1), (10, 9, 1)] = Inr (c', rs) \<and> length rs = 2 \<and> (\<forall>r \<in> set rs. \<bar>pr_derivative r\<bar> \<le> 0)"
    by (simp add: pid_update_def Let_def)
  then obtain c' rs where r: "pid_run dec_db ?c [(10, 0, 1), (10, 9, 1)] = Inr (c', rs)" "length rs = 2"
    "\<forall>r \<in> set rs. \<bar>pr_derivative r\<bar> \<le> 0" by blast
  show ?thesis using integral_bounded [OF c r(1,3)] c r(1,2) by auto
qed

text \<open>Without anti-windup the integral is the whole sum of the errors, whatever the limits.\<close>

lemma windup_accumulates:
  assumes "pid_run dec_db c us = Inr (c', rs)" and "pid_ok c" and "\<not> pc_antiWindup c"
  shows "pc_integral c' = pc_integral c + ki (pc_gains c) * (\<Sum>u \<leftarrow> us. (fst u - fst (snd u)) * snd (snd u))"
  using assms
proof (induction us arbitrary: c rs)
  case (Cons u us)
  from Cons.prems(1) obtain c1 r rs' where u: "pid_update dec_db c (fst u) (fst (snd u)) (snd (snd u)) = Inr (c1, r)"
    and run: "pid_run dec_db c1 us = Inr (c', rs')" by (rule pid_run_Cons)
  note x = pid_update_exact [OF u Cons.prems(2)]
  show ?case using Cons.IH [OF run x(9)] Cons.prems(3) x(8) by (simp add: x(7,2) Let_def algebra_simps)
qed simp

section \<open>The simulated smoker\<close>

text \<open>The temperatures that the plant can have: from ambient up to where full heating and the loss balance.\<close>

definition simulation_inv :: "rat Simulation \<Rightarrow> bool" where
  "simulation_inv s \<longleftrightarrow> sp_parameters (si_plant s) = default_plant dec_db \<and> 75 \<le> sp_temperature (si_plant s)
     \<and> sp_temperature (si_plant s) \<le> 315 \<and> pc_limits (si_controller s) = default_limits dec_db"

lemma simulation_inv_new: "\<exists>s. newSimulation dec_db scenario = Inr s \<and> simulation_inv s \<and> si_scenario s = scenario
    \<and> sp_temperature (si_plant s) = 75"
  by (cases scenario; simp add: newSimulation_def newSmokerPlant_def default_plant_def newPidController_def gainsFor_def
    default_limits_def simulation_inv_def Let_def)

lemma plant_update_bounds:
  assumes "0 \<le> fan" "fan \<le> 1" and "sp_parameters p = default_plant dec_db" and "75 \<le> sp_temperature p" "sp_temperature p \<le> 315"
  shows "plant_update dec_db p fan (deltaTime9 dec_db) = Inr (p\<lparr>sp_temperature := sp_temperature p + (6 * fan - (sp_temperature p - 75) / 40)\<rparr>)"
    and "75 \<le> sp_temperature p + (6 * fan - (sp_temperature p - 75) / 40)"
    and "sp_temperature p + (6 * fan - (sp_temperature p - 75) / 40) \<le> 315"
proof -
  show "plant_update dec_db p fan (deltaTime9 dec_db) = Inr (p\<lparr>sp_temperature := sp_temperature p + (6 * fan - (sp_temperature p - 75) / 40)\<rparr>)"
    using assms by (simp add: plant_update_def deltaTime9_def default_plant_def clamp_inside Let_def)
  show "75 \<le> sp_temperature p + (6 * fan - (sp_temperature p - 75) / 40)"
    and "sp_temperature p + (6 * fan - (sp_temperature p - 75) / 40) \<le> 315"
    using assms(1,2,4,5) by (simp_all add: field_simps)
qed

lemma fan_of_bounds:
  assumes "simulation_inv s"
  obtains c r fan where "fan_of dec_db s = Inr (c, r, fan)" and "0 \<le> fan" and "fan \<le> 1" and "pr_output r = fan"
    and "pc_limits c = default_limits dec_db" and "pr_error r = 250 - sp_temperature (si_plant s)"
proof (cases "si_scenario s = OpenLoop")
  case True
  then show ?thesis
    using assms by (intro that [of "si_controller s" "(default_result dec_db)\<lparr>pr_error := 250 - sp_temperature (si_plant s),
      pr_rawOutput := 11 / 20, pr_output := 11 / 20\<rparr>" "11 / 20"]) (simp_all add: fan_of_def simulation_inv_def setpoint9_def Let_def)
next
  case False
  have l: "pc_limits (si_controller s) = \<lparr>lim_minimum = 0, lim_maximum = 1\<rparr>" "default_limits dec_db = \<lparr>lim_minimum = 0, lim_maximum = 1\<rparr>"
    using assms by (simp_all add: simulation_inv_def default_limits_def)
  obtain c r where u: "pid_update dec_db (si_controller s) (setpoint9 dec_db) (sp_temperature (si_plant s)) (deltaTime9 dec_db) = Inr (c, r)"
    and r: "pr_output r = std_clamp dec_db (pr_rawOutput r) 0 1" "pr_error r = 250 - sp_temperature (si_plant s)"
    and c: "pc_limits c = pc_limits (si_controller s)"
    by (simp add: pid_update_def deltaTime9_def setpoint9_def l(1) Let_def)
  show ?thesis
    by (rule that [of c r "pr_output r"]) (use False u r c l clamp_bounds [of 0 1 "pr_rawOutput r"] in \<open>simp_all add: fan_of_def\<close>)
qed

definition row_ok :: "Scenario \<Rightarrow> rat SimulationRow \<Rightarrow> bool" where
  "row_ok scenario row \<longleftrightarrow> 75 \<le> sr_temperature row \<and> sr_temperature row \<le> 315 \<and> 0 \<le> sr_fanCommand row \<and> sr_fanCommand row \<le> 1
     \<and> pr_output (sr_result row) = sr_fanCommand row \<and> pr_error (sr_result row) = 250 - sr_temperature row
     \<and> (sr_disturbance row \<longleftrightarrow> scenario = Disturbance \<and> sr_second row = 500)"

lemma simulate_second_ok:
  assumes inv: "simulation_inv s"
  obtains row s' where "simulate_second dec_db second s = ([row], Inr s')" and "sr_second row = second"
    and "row_ok (si_scenario s) row" and "simulation_inv s'" and "si_scenario s' = si_scenario s"
proof -
  define dis where "dis = (si_scenario s = Disturbance \<and> second = 500)"
  have "\<exists>p. (if dis then applyTemperatureDrop dec_db (si_plant s) (db_lit dec_db ''55.0'') else Inr (si_plant s)) = Inr p
      \<and> simulation_inv (s\<lparr>si_plant := p\<rparr>)"
    using inv by (auto simp: applyTemperatureDrop_def simulation_inv_def default_plant_def Let_def)
  then obtain p where p: "(if dis then applyTemperatureDrop dec_db (si_plant s) (db_lit dec_db ''55.0'') else Inr (si_plant s)) = Inr p"
    and inv1: "simulation_inv (s\<lparr>si_plant := p\<rparr>)" by blast
  obtain c r fan where f: "fan_of dec_db (s\<lparr>si_plant := p\<rparr>) = Inr (c, r, fan)" "0 \<le> fan" "fan \<le> 1" "pr_output r = fan"
    "pc_limits c = default_limits dec_db" "pr_error r = 250 - sp_temperature p"
    using fan_of_bounds [OF inv1] by (metis Simulation.select_convs(2) Simulation.surjective Simulation.update_convs(2))
  note u = plant_update_bounds [OF f(2,3), of p]
  have q: "sp_parameters p = default_plant dec_db" "75 \<le> sp_temperature p" "sp_temperature p \<le> 315"
    using inv1 by (simp_all add: simulation_inv_def)
  let ?row = "\<lparr>sr_second = second, sr_temperature = sp_temperature p, sr_result = r, sr_fanCommand = fan, sr_disturbance = dis\<rparr>"
  let ?s = "s\<lparr>si_plant := (if second \<noteq> durationSeconds
      then p\<lparr>sp_temperature := sp_temperature p + (6 * fan - (sp_temperature p - 75) / 40)\<rparr> else p), si_controller := c\<rparr>"
  show ?thesis
  proof (rule that [of ?row ?s])
    show "simulate_second dec_db second s = ([?row], Inr ?s)"
      unfolding simulate_second_def dis_def [symmetric] Let_def p using u(1) [OF q] f(1) by simp
    show "row_ok (si_scenario s) ?row" using f q by (simp add: row_ok_def dis_def)
    show "simulation_inv ?s" using u(2,3) [OF q] q f(5) by (simp add: simulation_inv_def)
  qed simp_all
qed

lemma simulate_ok:
  assumes "simulation_inv s"
  shows "\<exists>rows s'. simulate dec_db seconds s = (rows, Inr s') \<and> map sr_second rows = seconds
    \<and> list_all (row_ok (si_scenario s)) rows"
  using assms
proof (induction seconds arbitrary: s)
  case (Cons second seconds)
  obtain row s' where r: "simulate_second dec_db second s = ([row], Inr s')" "sr_second row = second"
    "row_ok (si_scenario s) row" "simulation_inv s'" "si_scenario s' = si_scenario s"
    using simulate_second_ok [OF Cons.prems] by metis
  obtain rows s'' where "simulate dec_db seconds s' = (rows, Inr s'')" "map sr_second rows = seconds"
    "list_all (row_ok (si_scenario s')) rows" using Cons.IH [OF r(4)] by blast
  then show ?case using r by simp
qed simp

text \<open>The gains of a scenario, and what follows a row: the temperature comes from the fan and the loss of the
  second before, with the lid opened in second 500 of the disturbance; the controller is the PID formula, whose integral
  stands still where it would drive a saturated output further, except in the windup scenario; the open loop holds 0.55.\<close>

definition scenario_gains :: "Scenario \<Rightarrow> rat \<times> rat \<times> rat" where
  "scenario_gains scenario = (case scenario of OpenLoop \<Rightarrow> (0, 0, 0) | ScenarioP \<Rightarrow> (3 / 250, 0, 0)
     | ScenarioPI \<Rightarrow> (3 / 250, 11 / 50000, 0) | ScenarioPID \<Rightarrow> (3 / 250, 11 / 50000, 3 / 50)
     | Windup \<Rightarrow> (3 / 250, 3 / 2000, 0) | Disturbance \<Rightarrow> (3 / 250, 11 / 50000, 3 / 50))"

definition temperature_after :: "rat SimulationRow option \<Rightarrow> rat" where
  "temperature_after previous = (case previous of None \<Rightarrow> 75
     | Some a \<Rightarrow> sr_temperature a + (6 * sr_fanCommand a - (sr_temperature a - 75) / 40))"

definition follows :: "Scenario \<Rightarrow> rat SimulationRow option \<Rightarrow> rat SimulationRow \<Rightarrow> bool" where
  "follows scenario previous row \<longleftrightarrow>
     (let r = sr_result row; (p, i, d) = scenario_gains scenario;
          before = (case previous of None \<Rightarrow> 0 | Some a \<Rightarrow> pr_integral (sr_result a));
          candidate = before + i * pr_error r;
          wanted = pr_proportional r + candidate + pr_derivative r
      in sr_temperature row = (if scenario = Disturbance \<and> sr_second row = 500 then max 75 (temperature_after previous - 55)
           else temperature_after previous)
       \<and> pr_error r = 250 - sr_temperature row
       \<and> (if scenario = OpenLoop then sr_fanCommand row = 11 / 20
          else pr_proportional r = p * pr_error r
            \<and> pr_derivative r = (case previous of None \<Rightarrow> 0 | Some a \<Rightarrow> d * (pr_error r - pr_error (sr_result a)))
            \<and> pr_integral r = (if scenario \<noteq> Windup \<and> (1 < wanted \<and> 0 < pr_error r \<or> wanted < 0 \<and> pr_error r < 0)
                 then before else candidate)
            \<and> sr_fanCommand row = max 0 (min 1 (pr_proportional r + pr_integral r + pr_derivative r))))"

fun follows_all :: "Scenario \<Rightarrow> rat SimulationRow option \<Rightarrow> rat SimulationRow list \<Rightarrow> bool" where
  "follows_all scenario previous [] = True"
| "follows_all scenario previous (row # rows) \<longleftrightarrow> follows scenario previous row \<and> follows_all scenario (Some row) rows"

text \<open>The state of the simulation after a row, or at the start.\<close>

definition state_after :: "Scenario \<Rightarrow> rat SimulationRow option \<Rightarrow> rat Simulation \<Rightarrow> bool" where
  "state_after scenario previous s \<longleftrightarrow> si_scenario s = scenario
     \<and> sp_temperature (si_plant s) = temperature_after previous
     \<and> (case scenario_gains scenario of (p, i, d) \<Rightarrow> pc_gains (si_controller s) = \<lparr>kp = p, ki = i, kd = d\<rparr>)
     \<and> pc_antiWindup (si_controller s) = (scenario \<noteq> Windup)
     \<and> (scenario \<noteq> OpenLoop \<longrightarrow>
          pc_integral (si_controller s) = (case previous of None \<Rightarrow> 0 | Some a \<Rightarrow> pr_integral (sr_result a))
        \<and> (case previous of None \<Rightarrow> \<not> pc_hasPreviousError (si_controller s)
             | Some a \<Rightarrow> pc_hasPreviousError (si_controller s) \<and> pc_previousError (si_controller s) = pr_error (sr_result a)))"

lemma state_at_start: "newSimulation dec_db scenario = Inr s \<Longrightarrow> state_after scenario None s"
  by (cases scenario) (auto simp: newSimulation_def newSmokerPlant_def default_plant_def newPidController_def gainsFor_def
    default_limits_def state_after_def scenario_gains_def temperature_after_def Let_def)

lemma pid_update_derivative:
  assumes "pid_update dec_db c setpoint measurement dt = Inr (c', r)"
  shows "pr_derivative r = (if pc_hasPreviousError c then kd (pc_gains c) * ((pr_error r - pc_previousError c) / dt) else 0)"
  using assms by (auto simp: pid_update_def Let_def split: if_splits)

lemma scenario_gains_nonneg: "scenario_gains scenario = (p, i, d) \<Longrightarrow> 0 \<le> p \<and> 0 \<le> i \<and> 0 \<le> d"
  by (auto simp: scenario_gains_def split: Scenario.splits)

text \<open>The command of a second, and the controller after it.\<close>

lemma fan_of_follows:
  assumes st: "state_after scenario previous s" and lim: "pc_limits (si_controller s) = default_limits dec_db"
    and f: "fan_of dec_db (s\<lparr>si_plant := plant\<rparr>) = Inr (c, r, fan)"
    and t: "sp_temperature plant = (if scenario = Disturbance \<and> second = 500 then max 75 (temperature_after previous - 55)
      else temperature_after previous)"
  shows "follows scenario previous \<lparr>sr_second = second, sr_temperature = sp_temperature plant, sr_result = r,
      sr_fanCommand = fan, sr_disturbance = dis\<rparr>"
    and "pc_gains c = pc_gains (si_controller s) \<and> pc_antiWindup c = pc_antiWindup (si_controller s)
      \<and> (scenario \<noteq> OpenLoop \<longrightarrow> pc_integral c = pr_integral r \<and> pc_hasPreviousError c \<and> pc_previousError c = pr_error r)"
proof -
  obtain p i d where g: "scenario_gains scenario = (p, i, d)" by (metis prod_cases3)
  have s: "si_scenario s = scenario" "pc_antiWindup (si_controller s) = (scenario \<noteq> Windup)"
    "pc_gains (si_controller s) = \<lparr>kp = p, ki = i, kd = d\<rparr>" using st g by (simp_all add: state_after_def)
  have "follows scenario previous \<lparr>sr_second = second, sr_temperature = sp_temperature plant, sr_result = r,
      sr_fanCommand = fan, sr_disturbance = dis\<rparr>
    \<and> pc_gains c = pc_gains (si_controller s) \<and> pc_antiWindup c = pc_antiWindup (si_controller s)
      \<and> (scenario \<noteq> OpenLoop \<longrightarrow> pc_integral c = pr_integral r \<and> pc_hasPreviousError c \<and> pc_previousError c = pr_error r)"
  proof (cases "scenario = OpenLoop")
    case True
    then show ?thesis using f s(1) t by (auto simp: fan_of_def follows_def setpoint9_def Let_def scenario_gains_def)
  next
    case False
    have u: "pid_update dec_db (si_controller s) 250 (sp_temperature plant) 1 = Inr (c, r)" and fan: "fan = pr_output r"
      using f False s(1) by (auto simp: fan_of_def setpoint9_def deltaTime9_def split: sum.splits)
    have ok: "pid_ok (si_controller s)"
      using scenario_gains_nonneg [OF g] by (simp add: pid_ok_def s(3) lim default_limits_def)
    note x = pid_update_exact [OF u ok]
    have before: "pc_integral (si_controller s) = (case previous of None \<Rightarrow> 0 | Some a \<Rightarrow> pr_integral (sr_result a))"
      using st False by (simp add: state_after_def)
    have derivative: "pr_derivative r = (case previous of None \<Rightarrow> 0 | Some a \<Rightarrow> d * (pr_error r - pr_error (sr_result a)))"
      using st False pid_update_derivative [OF u] by (auto simp: state_after_def s(3) split: option.splits)
    have limited: "pr_output r = max 0 (min 1 (pr_rawOutput r))"
      using x(5) by (auto simp: lim default_limits_def std_clamp_def)
    have integral: "pr_integral r = (if scenario \<noteq> Windup
        \<and> (1 < pr_proportional r + (pc_integral (si_controller s) + i * pr_error r) + pr_derivative r \<and> 0 < pr_error r
          \<or> pr_proportional r + (pc_integral (si_controller s) + i * pr_error r) + pr_derivative r < 0 \<and> pr_error r < 0)
        then pc_integral (si_controller s) else pc_integral (si_controller s) + i * pr_error r)"
      using x(8) by (simp only: Let_def s(2,3) lim default_limits_def PidController.simps Gains.simps Limits.simps mult_1_right dec_db_simps dec_lits)
    have proportional: "pr_proportional r = p * pr_error r" using x(3) by (simp only: s(3) Gains.simps)
    have command: "fan = max 0 (min 1 (pr_proportional r + pr_integral r + pr_derivative r))"
      by (simp only: fan limited x(4))
    have "follows scenario previous \<lparr>sr_second = second, sr_temperature = sp_temperature plant, sr_result = r,
        sr_fanCommand = fan, sr_disturbance = dis\<rparr>"
      unfolding follows_def Let_def g prod.case SimulationRow.simps before [symmetric]
      by (rule conjI [OF t conjI [OF x(2) if_not_P [OF False, THEN iffD2]]]) (intro conjI proportional derivative integral command)
    then show ?thesis using False by (simp add: x(7))
  qed
  then show "follows scenario previous \<lparr>sr_second = second, sr_temperature = sp_temperature plant, sr_result = r,
      sr_fanCommand = fan, sr_disturbance = dis\<rparr>"
    and "pc_gains c = pc_gains (si_controller s) \<and> pc_antiWindup c = pc_antiWindup (si_controller s)
      \<and> (scenario \<noteq> OpenLoop \<longrightarrow> pc_integral c = pr_integral r \<and> pc_hasPreviousError c \<and> pc_previousError c = pr_error r)"
    by blast+
qed

text \<open>One turn of the loop: its row follows the one before, and the state is the one after it.\<close>

lemma simulate_second_follows:
  assumes inv: "simulation_inv s" and st: "state_after scenario previous s"
  obtains row s' where "simulate_second dec_db second s = ([row], Inr s')" and "sr_second row = second"
    and "row_ok scenario row" and "simulation_inv s'" and "follows scenario previous row"
    and "second \<noteq> durationSeconds \<Longrightarrow> state_after scenario (Some row) s'"
proof -
  define dis where "dis = (scenario = Disturbance \<and> second = 500)"
  have scen: "si_scenario s = scenario" using st by (simp add: state_after_def)
  define t where "t = (if dis then max 75 (temperature_after previous - 55) else temperature_after previous)"
  define p where "p = (si_plant s)\<lparr>sp_temperature := t\<rparr>"
  have plant: "(if dis then applyTemperatureDrop dec_db (si_plant s) (db_lit dec_db ''55.0'') else Inr (si_plant s)) = Inr p"
    using inv st by (auto simp: applyTemperatureDrop_def simulation_inv_def default_plant_def Let_def p_def t_def state_after_def max_def)
  have inv1: "simulation_inv (s\<lparr>si_plant := p\<rparr>)" and tp: "sp_temperature p = t"
    using inv st by (auto simp: p_def t_def simulation_inv_def state_after_def)
  obtain c r fan where f: "fan_of dec_db (s\<lparr>si_plant := p\<rparr>) = Inr (c, r, fan)" "0 \<le> fan" "fan \<le> 1" "pr_output r = fan"
    "pc_limits c = default_limits dec_db" "pr_error r = 250 - sp_temperature p"
    using fan_of_bounds [OF inv1] by (metis Simulation.select_convs(2) Simulation.surjective Simulation.update_convs(2))
  have lim: "pc_limits (si_controller s) = default_limits dec_db" using inv by (simp add: simulation_inv_def)
  note g = fan_of_follows(1) [OF st lim f(1) tp [unfolded t_def dis_def], of dis]
    fan_of_follows(2) [OF st lim f(1) tp [unfolded t_def dis_def]]
  note u = plant_update_bounds [OF f(2,3), of p]
  have q: "sp_parameters p = default_plant dec_db" "75 \<le> sp_temperature p" "sp_temperature p \<le> 315"
    using inv1 by (simp_all add: simulation_inv_def)
  let ?row = "\<lparr>sr_second = second, sr_temperature = sp_temperature p, sr_result = r, sr_fanCommand = fan, sr_disturbance = dis\<rparr>"
  let ?s = "s\<lparr>si_plant := (if second \<noteq> durationSeconds
      then p\<lparr>sp_temperature := sp_temperature p + (6 * fan - (sp_temperature p - 75) / 40)\<rparr> else p), si_controller := c\<rparr>"
  show ?thesis
  proof (rule that [of ?row ?s])
    show "simulate_second dec_db second s = ([?row], Inr ?s)"
      unfolding simulate_second_def scen dis_def [symmetric] Let_def plant using u(1) [OF q] f(1) by simp
    show "row_ok scenario ?row" using f q by (simp add: row_ok_def dis_def)
    show "simulation_inv ?s" using u(2,3) [OF q] q f(5) by (simp add: simulation_inv_def)
    show "follows scenario previous ?row" by (rule g(1))
    show "state_after scenario (Some ?row) ?s" if "second \<noteq> durationSeconds"
      using st g(2) that by (auto simp: state_after_def temperature_after_def split: prod.splits)
  qed simp
qed

lemma simulate_follows:
  assumes "simulation_inv s" and "state_after scenario previous s" and "durationSeconds \<notin> set (butlast seconds)"
  shows "\<exists>rows s'. simulate dec_db seconds s = (rows, Inr s') \<and> map sr_second rows = seconds
    \<and> list_all (row_ok scenario) rows \<and> follows_all scenario previous rows"
  using assms
proof (induction seconds arbitrary: s previous)
  case (Cons second seconds)
  obtain row s' where r: "simulate_second dec_db second s = ([row], Inr s')" "sr_second row = second"
    "row_ok scenario row" "simulation_inv s'" "follows scenario previous row"
    "second \<noteq> durationSeconds \<Longrightarrow> state_after scenario (Some row) s'"
    using simulate_second_follows [OF Cons.prems(1,2)] by metis
  show ?case
  proof (cases "seconds = []")
    case True
    then show ?thesis using r by simp
  next
    case False
    then have "second \<noteq> durationSeconds" "durationSeconds \<notin> set (butlast seconds)" using Cons.prems(3) by auto
    then obtain rows s'' where "simulate dec_db seconds s' = (rows, Inr s'')" "map sr_second rows = seconds"
      "list_all (row_ok scenario) rows" "follows_all scenario (Some row) rows"
      using Cons.IH [OF r(4,6)] by blast
    then show ?thesis using r by simp
  qed
qed simp


text \<open>Without feedback the temperature is known at every second.\<close>

lemma open_loop_second:
  assumes "simulation_inv s" and "si_scenario s = OpenLoop"
  shows "\<exists>row s'. simulate_second dec_db second s = ([row], Inr s') \<and> sr_temperature row = sp_temperature (si_plant s)
    \<and> (second < durationSeconds \<longrightarrow> sp_temperature (si_plant s') = 207 + 39 / 40 * (sp_temperature (si_plant s) - 207))"
proof -
  have q: "sp_parameters (si_plant s) = default_plant dec_db" "75 \<le> sp_temperature (si_plant s)" "sp_temperature (si_plant s) \<le> 315"
    using assms(1) by (simp_all add: simulation_inv_def)
  have "s\<lparr>si_plant := si_plant s\<rparr> = s" by simp
  then show ?thesis
    using assms(2) plant_update_bounds(1) [OF _ _ q, of "11 / 20"]
    by (simp add: simulate_second_def fan_of_def Let_def field_simps)
qed

lemma open_loop_rows:
  assumes "simulation_inv s" and "si_scenario s = OpenLoop" and "sp_temperature (si_plant s) = 207 - 132 * (39 / 40) ^ m"
    and "m + n \<le> Suc durationSeconds"
  shows "map sr_temperature (fst (simulate dec_db [m..<m + n] s)) = map (\<lambda>k. 207 - 132 * (39 / 40) ^ k) [m..<m + n]"
  using assms
proof (induction n arbitrary: m s)
  case (Suc n)
  obtain row s' where r: "simulate_second dec_db m s = ([row], Inr s')" "simulation_inv s'" "si_scenario s' = OpenLoop"
    using simulate_second_ok [OF Suc.prems(1), of m] Suc.prems(2) by metis
  have t: "sr_temperature row = 207 - 132 * (39 / 40) ^ m"
    and t': "m < durationSeconds \<Longrightarrow> sp_temperature (si_plant s') = 207 - 132 * (39 / 40) ^ Suc m"
    using open_loop_second [OF Suc.prems(1,2), of m] r(1) Suc.prems(3) by auto
  have u: "[m..<m + Suc n] = m # [Suc m..<Suc m + n]" by (simp add: upt_rec)
  have "map sr_temperature (fst (simulate dec_db [Suc m..<Suc m + n] s')) = map (\<lambda>k. 207 - 132 * (39 / 40) ^ k) [Suc m..<Suc m + n]"
  proof (cases "n = 0")
    case False
    then show ?thesis using Suc.IH [OF r(2,3) t'] Suc.prems(4) by simp
  qed simp
  moreover have "map sr_temperature (fst (simulate dec_db (m # xs) s)) = (207 - 132 * (39 / 40) ^ m) # map sr_temperature (fst (simulate dec_db xs s'))" for xs
    by (simp add: r(1) t split: prod.split)
  ultimately show ?case unfolding u by (simp only: list.map)
qed simp

text \<open>The open loop of the smoker is the closed form of its difference equation. With the fixed command 0.55 the
  temperature of second \<open>n\<close> is 207 - 132 (39/40)^n: it rises from 75 towards 207 and never reaches the setpoint of 250.\<close>

theorem open_loop_response:
  "\<exists>s. newSimulation dec_db OpenLoop = Inr s
     \<and> map sr_temperature (fst (simulate dec_db [0..<Suc durationSeconds] s))
        = map (\<lambda>n. 207 - 132 * (39 / 40) ^ n) [0..<Suc durationSeconds]"
proof -
  obtain s where s: "newSimulation dec_db OpenLoop = Inr s" "simulation_inv s" "si_scenario s = OpenLoop"
    "sp_temperature (si_plant s) = 75" using simulation_inv_new by blast
  show ?thesis using open_loop_rows [OF s(2,3), of 0 "Suc durationSeconds"] s(1,4) by auto
qed

lemma parse_scenario_name: "parseScenario (scenarioName scenario) = Inr scenario"
  by (cases scenario) (simp_all add: scenarioName_def parseScenario_def)

text \<open>The program ends with 0 for every scenario whose file opens, with one line for the header and 901 rows.\<close>

lemma smoker_main_runs:
  assumes "opens f"
  shows "\<exists>rows. smoker_main dec_db opens [scenarioName scenario, f] = (0, Some (Some f, rows)) \<and> length rows = 902"
proof -
  obtain s where s: "newSimulation dec_db scenario = Inr s" "simulation_inv s" using simulation_inv_new by blast
  obtain rows s' where r: "simulate dec_db [0..<Suc durationSeconds] s = (rows, Inr s')"
    "map sr_second rows = [0..<Suc durationSeconds]" using simulate_ok [OF s(2)] by metis
  have "length rows = 901" using arg_cong [OF r(2), of length] by (simp add: durationSeconds_def)
  then show ?thesis using assms r(1) by (simp add: smoker_main_def parse_scenario_name s(1) simulation_run_def)
qed

end
