(* ===== verification/HeapMonitor.thy ===== *)
theory HeapMonitor
  imports Complex_Main Prelude
begin

text \<open>
  The heap monitor of \<open>Tools/heap_monitor\<close> (\<open>HeapMonitor.cpp\<close>): the counters as atomic steps of any number of
  threads, with the loop that raises the peak, and the layout of a block with its header, its alignment and the check against
  overflow. The threads interleave their atomic operations in one order; the weaker ordering
  of relaxed operations on different counters is not modelled.
\<close>

section \<open>The counters\<close>

record Counters =
  allocation_count :: u64
  deallocation_count :: u64
  allocated_bytes :: u64
  deallocated_bytes :: u64
  live_bytes :: u64
  peak_live_bytes :: u64
  steady_state_allocation_count :: u64
  steady_state_allocated_bytes :: u64
  steady_state :: bool

text \<open>Where a thread is in \<open>record_allocation\<close>, \<open>update_peak\<close> and \<open>record_deallocation\<close>, with the local variables
  it still needs. \<open>PeakTest b candidate peak\<close> is the head of the loop.\<close>

datatype program_counter = NoCall
  | AllocCount u64 | AllocBytes u64 | AllocLive u64 | PeakLoad u64 u64 | PeakTest u64 u64 u64
  | SteadyLoad u64 | SteadyCount u64 | SteadyBytes u64
  | DeallocCount u64 | DeallocBytes u64 | DeallocLive u64

text \<open>One atomic operation. \<open>compare_exchange_weak\<close> may fail spuriously; a failure loads the peak again.\<close>

definition counter_step :: "bool \<Rightarrow> Counters \<Rightarrow> program_counter \<Rightarrow> Counters \<times> program_counter" where
  "counter_step spurious c p =
     (case p of
        NoCall \<Rightarrow> (c, NoCall)
      | AllocCount b \<Rightarrow> (c\<lparr>allocation_count := allocation_count c + 1\<rparr>, AllocBytes b)
      | AllocBytes b \<Rightarrow> (c\<lparr>allocated_bytes := allocated_bytes c + b\<rparr>, AllocLive b)
      | AllocLive b \<Rightarrow> (c\<lparr>live_bytes := live_bytes c + b\<rparr>, PeakLoad b (live_bytes c + b))
      | PeakLoad b candidate \<Rightarrow> (c, PeakTest b candidate (peak_live_bytes c))
      | PeakTest b candidate peak \<Rightarrow>
          if \<not> candidate > peak then (c, SteadyLoad b)
          else if peak_live_bytes c = peak \<and> \<not> spurious then (c\<lparr>peak_live_bytes := candidate\<rparr>, SteadyLoad b)
          else (c, PeakTest b candidate (peak_live_bytes c))
      | SteadyLoad b \<Rightarrow> (c, if steady_state c then SteadyCount b else NoCall)
      | SteadyCount b \<Rightarrow> (c\<lparr>steady_state_allocation_count := steady_state_allocation_count c + 1\<rparr>, SteadyBytes b)
      | SteadyBytes b \<Rightarrow> (c\<lparr>steady_state_allocated_bytes := steady_state_allocated_bytes c + b\<rparr>, NoCall)
      | DeallocCount b \<Rightarrow> (c\<lparr>deallocation_count := deallocation_count c + 1\<rparr>, DeallocBytes b)
      | DeallocBytes b \<Rightarrow> (c\<lparr>deallocated_bytes := deallocated_bytes c + b\<rparr>, DeallocLive b)
      | DeallocLive b \<Rightarrow> (c\<lparr>live_bytes := live_bytes c - b\<rparr>, NoCall))"

text \<open>A thread alone, without spurious failures.\<close>

primrec run_thread :: "nat \<Rightarrow> Counters \<Rightarrow> program_counter \<Rightarrow> Counters \<times> program_counter" where
  "run_thread 0 c p = (c, p)"
| "run_thread (Suc n) c p = (let (c', p') = counter_step False c p in run_thread n c' p')"

definition record_allocation :: "u64 \<Rightarrow> Counters \<Rightarrow> Counters" where
  "record_allocation bytes c = fst (run_thread 8 c (AllocCount bytes))"

definition record_deallocation :: "u64 \<Rightarrow> Counters \<Rightarrow> Counters" where
  "record_deallocation bytes c = fst (run_thread 3 c (DeallocCount bytes))"

definition begin_steady_state :: "Counters \<Rightarrow> Counters" where "begin_steady_state c = c\<lparr>steady_state := True\<rparr>"

lemma record_allocation_result:
  "run_thread 8 c (AllocCount b) = (let live = live_bytes c + b in
     (c\<lparr>allocation_count := allocation_count c + 1, allocated_bytes := allocated_bytes c + b, live_bytes := live,
        peak_live_bytes := max (peak_live_bytes c) live,
        steady_state_allocation_count := steady_state_allocation_count c + (if steady_state c then 1 else 0),
        steady_state_allocated_bytes := steady_state_allocated_bytes c + (if steady_state c then b else 0)\<rparr>, NoCall))"
  by (simp add: eval_nat_numeral counter_step_def Let_def max_def)

lemma record_deallocation_result:
  "run_thread 3 c (DeallocCount b) = (c\<lparr>deallocation_count := deallocation_count c + 1,
     deallocated_bytes := deallocated_bytes c + b, live_bytes := live_bytes c - b\<rparr>, NoCall)"
  by (simp add: eval_nat_numeral counter_step_def)

section \<open>Blocks\<close>

text \<open>\<open>sizeof(AllocationHeader)\<close> and \<open>alignof(std::max_align_t)\<close> on a 64-bit machine.\<close>

definition header_size :: u64 where "header_size = 16"
definition max_align :: u64 where "max_align = 16"

record AllocationHeader =
  ah_allocation :: u64
  ah_requested_bytes :: u64

text \<open>What \<open>allocate\<close> asks of \<open>malloc\<close>; \<open>None\<close> where it throws.\<close>

definition block_size :: "u64 \<Rightarrow> u64 \<Rightarrow> u64 option" where
  "block_size requested_bytes alignment =
     (let payload_bytes = (if requested_bytes = 0 then 1 else requested_bytes);
          overhead = header_size + alignment - 1
      in if payload_bytes > - 1 - overhead then None else Some (payload_bytes + overhead))"

definition aligned_address :: "u64 \<Rightarrow> u64 \<Rightarrow> u64" where
  "aligned_address allocation alignment =
     (let start = allocation + header_size in and (start + alignment - 1) (not (alignment - 1)))"

text \<open>\<open>malloc\<close> and \<open>free\<close> are functions on a world of any type, with 0 for the null pointer. The headers in memory are a map of
  addresses.\<close>

record 'w allocator =
  al_malloc :: "u64 \<Rightarrow> 'w \<Rightarrow> 'w \<times> u64"
  al_free :: "u64 \<Rightarrow> 'w \<Rightarrow> 'w"

record 'w Heap =
  hp_world :: 'w
  hp_headers :: "u64 \<rightharpoonup> AllocationHeader"
  hp_counters :: Counters

definition allocate :: "'w allocator \<Rightarrow> u64 \<Rightarrow> u64 \<Rightarrow> 'w Heap \<Rightarrow> 'w Heap \<times> u64 option" where
  "allocate al requested_bytes alignment h =
     (case block_size requested_bytes alignment of
        None \<Rightarrow> (h, None)
      | Some n \<Rightarrow>
          (let (w, allocation) = al_malloc al n (hp_world h); h1 = h\<lparr>hp_world := w\<rparr>
           in if allocation = 0 then (h1, None)
              else let address = aligned_address allocation alignment
                   in (h1\<lparr>hp_headers := (hp_headers h1)(address - header_size \<mapsto>
                             \<lparr>ah_allocation = allocation, ah_requested_bytes = requested_bytes\<rparr>),
                          hp_counters := record_allocation requested_bytes (hp_counters h1)\<rparr>, Some address)))"

text \<open>The header of a pointer that was never allocated is undefined behaviour in the code, \<open>None\<close> here.\<close>

definition deallocate :: "'w allocator \<Rightarrow> u64 \<Rightarrow> 'w Heap \<Rightarrow> 'w Heap option" where
  "deallocate al pointer h =
     (if pointer = 0 then Some h
      else case hp_headers h (pointer - header_size) of
        None \<Rightarrow> None
      | Some header \<Rightarrow> Some (h\<lparr>hp_counters := record_deallocation (ah_requested_bytes header) (hp_counters h),
            hp_world := al_free al (ah_allocation header) (hp_world h)\<rparr>))"

text \<open>The forms of \<open>operator new\<close> and \<open>operator new[]\<close>, with or without an alignment, throwing or not: \<open>Inl\<close> is
  \<open>std::bad_alloc\<close>. All forms of \<open>operator delete\<close> call \<open>deallocate\<close>.\<close>

definition operator_new :: "'w allocator \<Rightarrow> bool \<Rightarrow> u64 option \<Rightarrow> u64 \<Rightarrow> 'w Heap \<Rightarrow> 'w Heap \<times> (unit + u64)" where
  "operator_new al nothrow alignment bytes h =
     (let (h', result) = allocate al bytes (case alignment of None \<Rightarrow> max_align | Some a \<Rightarrow> a) h
      in (h', case result of Some pointer \<Rightarrow> Inr pointer | None \<Rightarrow> if nothrow then Inr 0 else Inl ()))"

section \<open>Threads\<close>

text \<open>The threads, the blocks that they have been given and not yet returned, and, as a ghost, the greatest value that
  \<open>live_bytes\<close> ever had. A block belongs to the program once its allocation has been recorded; the blocks
  are disjoint in the address space, so that their sizes add up to less than 2^64.\<close>

record HeapThreads =
  ht_counters :: Counters
  ht_threads :: "program_counter list"
  ht_owned :: "u64 list"
  ht_highest :: u64

fun bytes_in_flight :: "program_counter \<Rightarrow> nat" where
  "bytes_in_flight NoCall = 0"
| "bytes_in_flight (AllocCount b) = unat b" | "bytes_in_flight (AllocBytes b) = unat b"
| "bytes_in_flight (AllocLive b) = unat b" | "bytes_in_flight (PeakLoad b _) = unat b"
| "bytes_in_flight (PeakTest b _ _) = unat b" | "bytes_in_flight (SteadyLoad b) = unat b"
| "bytes_in_flight (SteadyCount b) = unat b" | "bytes_in_flight (SteadyBytes b) = unat b"
| "bytes_in_flight (DeallocCount b) = unat b" | "bytes_in_flight (DeallocBytes b) = unat b"
| "bytes_in_flight (DeallocLive b) = unat b"

abbreviation sum_threads :: "(program_counter \<Rightarrow> nat) \<Rightarrow> HeapThreads \<Rightarrow> nat" where
  "sum_threads f s \<equiv> sum_list (map f (ht_threads s))"

abbreviation owned_bytes :: "HeapThreads \<Rightarrow> nat" where "owned_bytes s \<equiv> sum_list (map unat (ht_owned s))"

definition acquired :: "program_counter \<Rightarrow> program_counter \<Rightarrow> u64 list" where
  "acquired p p' = (if p' \<noteq> NoCall then [] else case p of SteadyLoad b \<Rightarrow> [b] | SteadyBytes b \<Rightarrow> [b] | _ \<Rightarrow> [])"

inductive heap_step :: "HeapThreads \<Rightarrow> HeapThreads \<Rightarrow> bool" where
  start_allocation: "i < length (ht_threads s) \<Longrightarrow> ht_threads s ! i = NoCall \<Longrightarrow>
    owned_bytes s + sum_threads bytes_in_flight s + unat b < 2 ^ 64 \<Longrightarrow>
    heap_step s (s\<lparr>ht_threads := (ht_threads s)[i := AllocCount b]\<rparr>)"
| start_deallocation: "i < length (ht_threads s) \<Longrightarrow> ht_threads s ! i = NoCall \<Longrightarrow> b \<in> set (ht_owned s) \<Longrightarrow>
    heap_step s (s\<lparr>ht_threads := (ht_threads s)[i := DeallocCount b], ht_owned := remove1 b (ht_owned s)\<rparr>)"
| atomic_operation: "i < length (ht_threads s) \<Longrightarrow> ht_threads s ! i = p \<Longrightarrow> p \<noteq> NoCall \<Longrightarrow>
    counter_step spurious (ht_counters s) p = (c, p') \<Longrightarrow>
    heap_step s \<lparr>ht_counters = c, ht_threads = (ht_threads s)[i := p'], ht_owned = acquired p p' @ ht_owned s,
      ht_highest = max (ht_highest s) (live_bytes c)\<rparr>"
| steady: "heap_step s (s\<lparr>ht_counters := begin_steady_state (ht_counters s)\<rparr>)"

definition heap_start :: "nat \<Rightarrow> HeapThreads" where
  "heap_start n = \<lparr>ht_counters = \<lparr>allocation_count = 0, deallocation_count = 0, allocated_bytes = 0, deallocated_bytes = 0,
     live_bytes = 0, peak_live_bytes = 0, steady_state_allocation_count = 0, steady_state_allocated_bytes = 0,
     steady_state = False\<rparr>, ht_threads = replicate n NoCall, ht_owned = [], ht_highest = 0\<rparr>"

lemma live_of_step:
  "counter_step spurious c p = (c', p') \<Longrightarrow> live_bytes c' = (case p of AllocLive b \<Rightarrow> live_bytes c + b
     | DeallocLive b \<Rightarrow> live_bytes c - b | _ \<Rightarrow> live_bytes c)"
  by (auto simp: counter_step_def split: program_counter.splits if_splits)

section \<open>What the counters mean\<close>

text \<open>What each thread has already added to, or not yet taken from, the three balances.\<close>

fun in_live :: "program_counter \<Rightarrow> nat" where
  "in_live NoCall = 0"
| "in_live (AllocCount b) = 0" | "in_live (AllocBytes b) = 0" | "in_live (AllocLive b) = 0"
| "in_live (PeakLoad b _) = unat b" | "in_live (PeakTest b _ _) = unat b" | "in_live (SteadyLoad b) = unat b"
| "in_live (SteadyCount b) = unat b" | "in_live (SteadyBytes b) = unat b"
| "in_live (DeallocCount b) = unat b" | "in_live (DeallocBytes b) = unat b" | "in_live (DeallocLive b) = unat b"

fun in_bytes :: "program_counter \<Rightarrow> nat" where
  "in_bytes NoCall = 0"
| "in_bytes (AllocCount b) = 0" | "in_bytes (AllocBytes b) = 0" | "in_bytes (AllocLive b) = unat b"
| "in_bytes (PeakLoad b _) = unat b" | "in_bytes (PeakTest b _ _) = unat b" | "in_bytes (SteadyLoad b) = unat b"
| "in_bytes (SteadyCount b) = unat b" | "in_bytes (SteadyBytes b) = unat b"
| "in_bytes (DeallocCount b) = unat b" | "in_bytes (DeallocBytes b) = unat b" | "in_bytes (DeallocLive b) = 0"

fun in_count :: "program_counter \<Rightarrow> nat" where
  "in_count NoCall = 0"
| "in_count (AllocCount b) = 0" | "in_count (AllocBytes b) = 1" | "in_count (AllocLive b) = 1"
| "in_count (PeakLoad b _) = 1" | "in_count (PeakTest b _ _) = 1" | "in_count (SteadyLoad b) = 1"
| "in_count (SteadyCount b) = 1" | "in_count (SteadyBytes b) = 1"
| "in_count (DeallocCount b) = 1" | "in_count (DeallocBytes b) = 0" | "in_count (DeallocLive b) = 0"

text \<open>The candidate that a thread still has to compare with the peak.\<close>

fun candidate_of :: "program_counter \<Rightarrow> u64 option" where
  "candidate_of (PeakLoad _ candidate) = Some candidate"
| "candidate_of (PeakTest _ candidate _) = Some candidate"
| "candidate_of _ = None"

fun peak_read :: "program_counter \<Rightarrow> u64 option" where
  "peak_read (PeakTest _ _ peak) = Some peak"
| "peak_read _ = None"

definition counters_inv :: "HeapThreads \<Rightarrow> bool" where
  "counters_inv s \<longleftrightarrow> (let c = ht_counters s in
     owned_bytes s + sum_threads bytes_in_flight s < 2 ^ 64
     \<and> unat (live_bytes c) = owned_bytes s + sum_threads in_live s
     \<and> allocated_bytes c - deallocated_bytes c = of_nat (owned_bytes s + sum_threads in_bytes s)
     \<and> allocation_count c - deallocation_count c = of_nat (length (ht_owned s) + sum_threads in_count s)
     \<and> live_bytes c \<le> ht_highest s \<and> peak_live_bytes c \<le> ht_highest s
     \<and> (ht_highest s \<le> peak_live_bytes c \<or> Some (ht_highest s) \<in> candidate_of ` set (ht_threads s))
     \<and> (\<forall>p \<in> set (ht_threads s). (\<forall>v. candidate_of p = Some v \<longrightarrow> v \<le> ht_highest s)
          \<and> (\<forall>v. peak_read p = Some v \<longrightarrow> v \<le> peak_live_bytes c)))"

lemma counters_inv_start: "counters_inv (heap_start n)"
  by (auto simp: counters_inv_def heap_start_def sum_list_replicate Let_def)

lemma sum_list_map_update:
  "i < length xs \<Longrightarrow> sum_list (map f (xs[i := y])) + f (xs ! i) = sum_list (map f xs) + (f y :: nat)"
  by (induction xs arbitrary: i) (auto split: nat.split)

lemma sum_list_map_member: "i < length xs \<Longrightarrow> f (xs ! i) \<le> sum_list (map f xs :: nat list)"
  by (simp add: member_le_sum_list)

lemma sum_list_remove1: "x \<in> set xs \<Longrightarrow> sum_list (map f (remove1 x xs)) + f x = sum_list (map f xs :: nat list)"
  by (induction xs) auto

lemma in_live_le: "in_live p \<le> bytes_in_flight p" "in_bytes p \<le> bytes_in_flight p"
  by (cases p; simp)+

lemma sum_in_live_le: "sum_list (map in_live ps) \<le> sum_list (map bytes_in_flight ps)"
  by (rule sum_list_mono) (rule in_live_le)

lemma set_update_cases: "i < length ps \<Longrightarrow> q \<in> set (ps[i := p']) \<Longrightarrow> q = p' \<or> q \<in> set ps"
  by (auto dest: set_update_subset_insert [THEN subsetD])

text \<open>A step replaces one program counter; what it changes in the sums.\<close>

lemma image_update_other:
  "Some v \<in> f ` set ps \<Longrightarrow> i < length ps \<Longrightarrow> f (ps ! i) \<noteq> Some v \<Longrightarrow> Some v \<in> f ` set (ps[i := p'])"
proof -
  assume "Some v \<in> f ` set ps" "i < length ps" "f (ps ! i) \<noteq> Some v"
  then obtain j where "j < length ps" "f (ps ! j) = Some v" by (auto simp: in_set_conv_nth)
  moreover from this have "j \<noteq> i" using \<open>f (ps ! i) \<noteq> Some v\<close> by auto
  ultimately have "ps[i := p'] ! j = ps ! j" "j < length (ps[i := p'])" "f (ps ! j) = Some v" by simp_all
  then show ?thesis by (metis image_eqI nth_mem)
qed

lemma image_update_new: "i < length ps \<Longrightarrow> f p' = Some v \<Longrightarrow> Some v \<in> f ` set (ps[i := p'])"
  by (metis image_eqI set_update_memI)

text \<open>What one atomic operation of a thread does to the balances.\<close>

lemma step_balances:
  assumes "counter_step spurious c p = (c', p')" and "p \<noteq> NoCall"
  shows "sum_list (map unat (acquired p p')) + bytes_in_flight p' \<le> bytes_in_flight p"
    and "live_bytes c' = live_bytes c + of_nat (sum_list (map unat (acquired p p')) + in_live p') - of_nat (in_live p)"
    and "allocated_bytes c' - deallocated_bytes c' = allocated_bytes c - deallocated_bytes c
      + of_nat (sum_list (map unat (acquired p p')) + in_bytes p') - of_nat (in_bytes p)"
    and "allocation_count c' - deallocation_count c' = allocation_count c - deallocation_count c
      + of_nat (length (acquired p p') + in_count p') - of_nat (in_count p)"
  using assms by (cases p; auto simp: counter_step_def acquired_def split: if_splits)+

text \<open>What it does to the peak and to the candidate, where the peak that the thread has read is not above the peak.\<close>

lemma step_peak:
  assumes "counter_step spurious c p = (c', p')" and "\<forall>v. peak_read p = Some v \<longrightarrow> v \<le> peak_live_bytes c"
  shows "peak_live_bytes c \<le> peak_live_bytes c'"
    and "peak_live_bytes c' = peak_live_bytes c \<or> Some (peak_live_bytes c') = candidate_of p"
    and "peak_read p' = Some w \<Longrightarrow> w \<le> peak_live_bytes c'"
    and "candidate_of p = Some w \<Longrightarrow> candidate_of p' = Some w \<or> w \<le> peak_live_bytes c'"
    and "candidate_of p' = Some w \<Longrightarrow> candidate_of p = Some w \<or> w = live_bytes c'"
    and "(\<exists>b. p = AllocLive b \<and> candidate_of p' = Some (live_bytes c')) \<or> in_live p' \<le> in_live p
      \<and> sum_list (map unat (acquired p p')) + in_live p' \<le> in_live p"
  using assms by (cases p; auto simp: counter_step_def acquired_def split: if_splits)+

lemma unat_below: "n < 2 ^ 64 \<Longrightarrow> unat (of_nat n :: u64) = n"
  by (simp add: unsigned_of_nat take_bit_nat_eq_self del: of_nat_add)

lemma counters_inv_atomic:
  assumes inv: "counters_inv s" and i: "i < length (ht_threads s)" and p: "ht_threads s ! i = p" "p \<noteq> NoCall"
    and step: "counter_step spurious (ht_counters s) p = (c, p')"
  shows "counters_inv \<lparr>ht_counters = c, ht_threads = (ht_threads s)[i := p'], ht_owned = acquired p p' @ ht_owned s,
      ht_highest = max (ht_highest s) (live_bytes c)\<rparr>"
proof -
  let ?ps = "ht_threads s" and ?ps' = "(ht_threads s)[i := p']" and ?h = "ht_highest s" and ?c = "ht_counters s"
  let ?a = "sum_list (map unat (acquired p p'))"
  note inv' = inv [unfolded counters_inv_def Let_def]
  note b = step_balances [OF step p(2)]
  have pin: "p \<in> set ?ps" using i p(1) by auto
  have read: "\<forall>v. peak_read p = Some v \<longrightarrow> v \<le> peak_live_bytes ?c" using inv' pin by blast
  note k = step_peak [OF step read]
  have u: "sum_list (map f ?ps') + f p = sum_list (map f ?ps) + (f p' :: nat)" for f
    using sum_list_map_update [OF i, of f p'] p(1) by simp
  have w: "(of_nat (n + a + sum_list (map f ?ps')) :: u64) = of_nat (n + sum_list (map f ?ps)) + of_nat (a + f p') - of_nat (f p)"
    for f n a using arg_cong [OF u [of f], of "of_nat :: nat \<Rightarrow> u64"] by (simp add: algebra_simps)
  have total: "?a + owned_bytes s + sum_list (map bytes_in_flight ?ps') < 2 ^ 64"
    using inv' u [of bytes_in_flight] b(1) by linarith
  have "live_bytes ?c = of_nat (unat (live_bytes ?c))" by simp
  then have "live_bytes ?c = of_nat (owned_bytes s + sum_list (map in_live ?ps))" using inv' by simp
  then have "live_bytes c = of_nat (owned_bytes s + ?a + sum_list (map in_live ?ps'))"
    unfolding b(2) w by simp
  moreover have "owned_bytes s + ?a + sum_list (map in_live ?ps') < 2 ^ 64"
    using total sum_in_live_le [of ?ps'] by linarith
  ultimately have live: "unat (live_bytes c) = ?a + owned_bytes s + sum_list (map in_live ?ps')"
    using unat_below [of "owned_bytes s + ?a + sum_list (map in_live ?ps')"] by simp
  have high: "(\<exists>b. p = AllocLive b \<and> candidate_of p' = Some (live_bytes c)) \<or> live_bytes c \<le> ?h"
  proof (rule disjE [OF k(6)])
    assume "in_live p' \<le> in_live p \<and> ?a + in_live p' \<le> in_live p"
    then have "unat (live_bytes c) \<le> unat (live_bytes ?c)" using live u [of in_live] inv' by linarith
    then show ?thesis using inv' by (simp add: word_le_nat_alt)
  qed simp
  have pending: "max ?h (live_bytes c) \<le> peak_live_bytes c \<or> Some (max ?h (live_bytes c)) \<in> candidate_of ` set ?ps'"
  proof (cases "live_bytes c \<le> ?h")
    case True
    then have h: "max ?h (live_bytes c) = ?h" by simp
    consider "?h \<le> peak_live_bytes ?c" | "candidate_of p = Some ?h" | "Some ?h \<in> candidate_of ` set ?ps" "candidate_of p \<noteq> Some ?h"
      using inv' by blast
    then show ?thesis
    proof cases
      case 1 then show ?thesis using order_trans [OF 1 k(1)] h by simp
    next
      case 2 then show ?thesis using k(4) [OF 2] h image_update_new [OF i, of candidate_of p'] by auto
    next
      case 3 then show ?thesis using image_update_other [OF 3(1) i] p(1) h by simp
    qed
  next
    case False
    then have "max ?h (live_bytes c) = live_bytes c" "candidate_of p' = Some (live_bytes c)" using high by auto
    then show ?thesis using image_update_new [OF i, of candidate_of p'] by simp
  qed
  have all: "(\<forall>v. candidate_of q = Some v \<longrightarrow> v \<le> max ?h (live_bytes c)) \<and> (\<forall>v. peak_read q = Some v \<longrightarrow> v \<le> peak_live_bytes c)"
    if "q \<in> set ?ps'" for q
  proof (cases "q = p'")
    case True
    have "v \<le> max ?h (live_bytes c)" if "candidate_of p' = Some v" for v
      using k(5) [OF that] inv' pin by (auto simp: le_max_iff_disj)
    then show ?thesis using True k(3) by blast
  next
    case False
    then have "q \<in> set ?ps" using set_update_cases [OF i that] by blast
    then show ?thesis using inv' k(1) by (meson le_max_iff_disj order_trans)
  qed
  have peak: "peak_live_bytes c \<le> max ?h (live_bytes c)"
    using k(2) inv' pin by (metis le_max_iff_disj)
  have bytes: "allocated_bytes c - deallocated_bytes c = of_nat (owned_bytes s + ?a + sum_list (map in_bytes ?ps'))"
    unfolding b(3) w using inv' by simp
  have counts: "allocation_count c - deallocation_count c
    = of_nat (length (ht_owned s) + length (acquired p p') + sum_list (map in_count ?ps'))"
    unfolding b(4) w using inv' by simp
  show ?thesis
    unfolding counters_inv_def Let_def using total live bytes counts inv' pending all peak by (simp add: add_ac)
qed

lemma counters_inv_step: "heap_step s s' \<Longrightarrow> counters_inv s \<Longrightarrow> counters_inv s'"
proof (induction rule: heap_step.induct)
  case (start_allocation i s b)
  note u = sum_list_map_update [OF start_allocation(1), where y = "AllocCount b"]
  show ?case
    using start_allocation u [of bytes_in_flight] u [of in_live] u [of in_bytes] u [of in_count]
      image_update_other [OF _ start_allocation(1), of "ht_highest s" candidate_of "AllocCount b"]
    by (auto simp: counters_inv_def Let_def dest!: set_update_cases [OF start_allocation(1)])
next
  case (start_deallocation i s b)
  note u = sum_list_map_update [OF start_deallocation(1), where y = "DeallocCount b"]
  have o: "sum_list (map unat (remove1 b (ht_owned s))) + unat b = owned_bytes s"
    by (rule sum_list_remove1 [OF start_deallocation(3)])
  have w: "(of_nat (owned_bytes s) :: u64) = b + of_nat (sum_list (map unat (remove1 b (ht_owned s))))"
    using arg_cong [OF o [symmetric], of "of_nat :: nat \<Rightarrow> u64"] by (simp add: algebra_simps)
  have l: "length (ht_owned s) = Suc (length (remove1 b (ht_owned s)))"
    using start_deallocation(3) by (auto simp: length_remove1 dest: length_pos_if_in_set)
  show ?case
    using start_deallocation u [of bytes_in_flight] u [of in_live] u [of in_bytes] u [of in_count] l w arg_cong [OF l, of "of_nat :: nat \<Rightarrow> u64"] o
      image_update_other [OF _ start_deallocation(1), of "ht_highest s" candidate_of "DeallocCount b"]
    by (auto simp: counters_inv_def Let_def algebra_simps dest!: set_update_cases [OF start_deallocation(1)])
next
  case (atomic_operation i s p spurious c p')
  then show ?case by (intro counters_inv_atomic) auto
next
  case (steady s)
  then show ?case by (simp add: counters_inv_def begin_steady_state_def Let_def)
qed

text \<open>A failure of the comparison that is not spurious means that another thread has raised the peak: the peak
  read again is greater, so that the loop ends when the peak stands still.\<close>

lemma peak_retry_progress:
  "counter_step False c (PeakTest b candidate peak) = (c', PeakTest b candidate peak') \<Longrightarrow> peak \<le> peak_live_bytes c \<Longrightarrow> peak < peak'"
  by (auto simp: counter_step_def split: if_splits)

text \<open>The states of a run, the latest first.\<close>

inductive heap_trace :: "nat \<Rightarrow> HeapThreads list \<Rightarrow> bool" for n where
  trace_start: "heap_trace n [heap_start n]"
| trace_step: "heap_trace n (s # ss) \<Longrightarrow> heap_step s s' \<Longrightarrow> heap_trace n (s' # s # ss)"

lemma heap_trace_inv:
  "heap_trace n ss \<Longrightarrow> \<exists>s ss'. ss = s # ss' \<and> counters_inv s
     \<and> ht_highest s = Max ((\<lambda>s. live_bytes (ht_counters s)) ` set ss)"
proof (induction rule: heap_trace.induct)
  case trace_start
  then show ?case using counters_inv_start by (simp add: heap_start_def)
next
  case (trace_step s ss s')
  then have inv: "counters_inv s" and h: "ht_highest s = Max ((\<lambda>s. live_bytes (ht_counters s)) ` set (s # ss))" by auto
  have "live_bytes (ht_counters s) \<le> ht_highest s" using inv by (simp add: counters_inv_def Let_def)
  with trace_step.hyps(2) have "ht_highest s' = max (live_bytes (ht_counters s')) (ht_highest s)"
    by (cases rule: heap_step.cases) (simp_all add: max.commute begin_steady_state_def)
  then have "ht_highest s' = Max ((\<lambda>s. live_bytes (ht_counters s)) ` set (s' # s # ss))" by (simp add: h)
  then show ?case using counters_inv_step [OF trace_step.hyps(2) inv] by blast
qed

text \<open>C38: the counters of the heap monitor are exact whenever no thread is between its atomic operations. Whatever
  the number of threads, the interleaving and the spurious failures, the live bytes are then the sizes of the blocks that are
  still allocated, they are the difference of the bytes allocated and released, the counts differ by the
  number of those blocks, and the peak is the greatest value that the live bytes have had in the whole run.\<close>

theorem heap_counters_exact:
  assumes "heap_trace n (s # ss)" and "set (ht_threads s) \<subseteq> {NoCall}"
  shows "let c = ht_counters s in
    unat (live_bytes c) = sum_list (map unat (ht_owned s))
    \<and> live_bytes c = allocated_bytes c - deallocated_bytes c
    \<and> allocation_count c - deallocation_count c = of_nat (length (ht_owned s))
    \<and> peak_live_bytes c = Max ((\<lambda>s. live_bytes (ht_counters s)) ` set (s # ss))"
proof -
  have inv: "counters_inv s" and h: "ht_highest s = Max ((\<lambda>s. live_bytes (ht_counters s)) ` set (s # ss))"
    using heap_trace_inv [OF assms(1)] by auto
  have zero: "sum_threads f s = 0" if "f NoCall = 0" for f using assms(2) that by (auto simp: subset_iff)
  have "candidate_of ` set (ht_threads s) \<subseteq> {None}" using assms(2) by auto
  then have p: "Some v \<notin> candidate_of ` set (ht_threads s)" for v by blast
  note i = inv [unfolded counters_inv_def Let_def]
  have "peak_live_bytes (ht_counters s) = ht_highest s" using i p by force
  moreover have "live_bytes (ht_counters s) = of_nat (unat (live_bytes (ht_counters s)))" by simp
  ultimately show ?thesis using i h zero [of in_live] zero [of in_bytes] zero [of in_count] by (simp add: Let_def)
qed

text \<open>Runs as lists of events, for examples: a call of \<open>record_allocation\<close>, or the next atomic operation of a thread.\<close>

datatype heap_event = Call nat u64 | Next nat

primrec play_ok :: "HeapThreads \<Rightarrow> heap_event \<Rightarrow> bool" where
  "play_ok s (Call i b) = (i < length (ht_threads s) \<and> ht_threads s ! i = NoCall
     \<and> owned_bytes s + sum_threads bytes_in_flight s + unat b \<le> 99)"
| "play_ok s (Next i) = (i < length (ht_threads s) \<and> ht_threads s ! i \<noteq> NoCall)"

primrec play :: "HeapThreads \<Rightarrow> heap_event \<Rightarrow> HeapThreads" where
  "play s (Call i b) = s\<lparr>ht_threads := (ht_threads s)[i := AllocCount b]\<rparr>"
| "play s (Next i) = (let p = ht_threads s ! i; (c, p') = counter_step False (ht_counters s) p in
     \<lparr>ht_counters = c, ht_threads = (ht_threads s)[i := p'], ht_owned = acquired p p' @ ht_owned s,
      ht_highest = max (ht_highest s) (live_bytes c)\<rparr>)"

lemma play_step: "play_ok s e \<Longrightarrow> heap_step s (play s e)"
  by (cases e) (auto simp: Let_def split: prod.split intro: heap_step.intros)

primrec play_all :: "HeapThreads \<Rightarrow> heap_event list \<Rightarrow> HeapThreads option" where
  "play_all s [] = Some s"
| "play_all s (e # es) = (if play_ok s e then play_all (play s e) es else None)"

lemma play_all_trace: "heap_trace n (s # ss) \<Longrightarrow> play_all s es = Some s' \<Longrightarrow> \<exists>ss'. heap_trace n (s' # ss')"
proof (induction es arbitrary: s ss)
  case (Cons e es)
  show ?case
    using Cons.prems(2) Cons.IH [OF trace_step [OF Cons.prems(1) play_step]] by (auto split: if_splits)
qed auto

text \<open>The second thread reads the peak before the first has raised it, fails, and tries again.\<close>

theorem heap_counters_exact_witness:
  "\<exists>s ss. heap_trace 2 (s # ss) \<and> ht_threads s = [NoCall, NoCall] \<and> peak_live_bytes (ht_counters s) = 32
     \<and> peak_live_bytes (ht_counters s) = Max ((\<lambda>s. live_bytes (ht_counters s)) ` set (s # ss))"
proof -
  have two: "replicate 2 NoCall = [NoCall, NoCall]" by (simp add: numeral_2_eq_2)
  let ?events = "[Call 0 8, Call (Suc 0) 24, Next 0, Next 0, Next 0, Next (Suc 0), Next (Suc 0), Next (Suc 0),
    Next 0, Next (Suc 0), Next 0, Next (Suc 0), Next (Suc 0), Next (Suc 0), Next 0]"
  have "\<exists>s. play_all (heap_start 2) ?events = Some s \<and> ht_threads s = [NoCall, NoCall] \<and> peak_live_bytes (ht_counters s) = 32"
    by (simp add: heap_start_def two counter_step_def acquired_def)
  then obtain s where s: "play_all (heap_start 2) ?events = Some s" "ht_threads s = [NoCall, NoCall]"
    "peak_live_bytes (ht_counters s) = 32" by blast
  obtain ss where t: "heap_trace 2 (s # ss)" using play_all_trace [OF trace_start s(1)] by blast
  have "set (ht_threads s) \<subseteq> {NoCall}" by (simp add: s(2))
  then have "peak_live_bytes (ht_counters s) = Max ((\<lambda>s. live_bytes (ht_counters s)) ` set (s # ss))"
    using heap_counters_exact [OF t] unfolding Let_def by blast
  then show ?thesis using s(2,3) t by blast
qed

section \<open>Where a block lies\<close>

lemma unat_exp: "k < 64 \<Longrightarrow> unat (2 ^ k :: u64) = 2 ^ k"
proof -
  assume "k < 64"
  then have "(2 :: nat) ^ k < 2 ^ 64" by (intro power_strict_increasing) auto
  then show ?thesis using unat_below [of "2 ^ k"] by simp
qed

lemma exp_half: "k < 64 \<Longrightarrow> (2 :: nat) ^ k \<le> 2 ^ 63"
  by (intro power_increasing) auto

lemma and_not_mask: "and x (not (2 ^ k - 1)) = x - take_bit k (x :: u64)"
proof -
  have "and x (not (mask k)) = push_bit k (drop_bit k x)" by (rule bit_word_eqI) (auto simp: bit_simps)
  moreover have "push_bit k (drop_bit k x) = x - take_bit k x" using bits_ident [of k x] by (simp add: eq_diff_eq)
  ultimately show ?thesis by (simp add: mask_eq_exp_minus_1)
qed

lemma block_size_exact:
  assumes "k < 64"
  shows "block_size requested (2 ^ k) = (if max 1 (unat requested) + 15 + 2 ^ k < 2 ^ 64
    then Some (of_nat (max 1 (unat requested) + 15 + 2 ^ k)) else None)"
proof -
  define payload where "payload = (if requested = 0 then 1 else requested)"
  define overhead where "overhead = header_size + 2 ^ k - 1"
  have p: "unat payload = max 1 (unat requested)" using unat_gt_0 [of requested] by (cases "requested = 0") (auto simp: payload_def max_def)
  have "overhead = of_nat (15 + 2 ^ k)" by (simp add: overhead_def header_size_def)
  then have o: "unat overhead = 15 + 2 ^ k" using exp_half [OF assms] unat_below [of "15 + 2 ^ k"] by simp
  have "unat overhead < 2 ^ LENGTH(64)" by (rule unsigned_less)
  then have below: "unat overhead < 2 ^ 64" by simp
  then have "- 1 - overhead = of_nat (2 ^ 64 - 1 - unat overhead)"
    using below by (subst of_nat_diff) simp_all
  then have m: "unat (- 1 - overhead) = 2 ^ 64 - 1 - unat overhead"
    using unat_below [of "2 ^ 64 - 1 - unat overhead"] by simp
  have "payload > - 1 - overhead \<longleftrightarrow> \<not> unat payload + unat overhead < 2 ^ 64"
    unfolding word_less_nat_alt m using below by auto
  moreover have "payload + overhead = of_nat (unat payload + unat overhead)" by simp
  ultimately show ?thesis
    unfolding block_size_def payload_def [symmetric] overhead_def [symmetric] Let_def p o by (simp add: add_ac)
qed

lemma aligned_address_exact:
  assumes "k < 64" and "unat p + 15 + 2 ^ k < 2 ^ 64"
  shows "unat (aligned_address p (2 ^ k)) = 2 ^ k * ((unat p + 15 + 2 ^ k) div 2 ^ k)"
proof -
  let ?x = "p + header_size + 2 ^ k - 1"
  have "?x = of_nat (unat p + 15 + 2 ^ k)" by (simp add: header_size_def)
  then have x: "unat ?x = unat p + 15 + 2 ^ k" using assms(2) unat_below by metis
  have t: "unat (take_bit k ?x) = unat ?x mod 2 ^ k" by (simp only: unsigned_take_bit_eq) (simp only: take_bit_eq_mod)
  then have "take_bit k ?x \<le> ?x" by (simp only: word_le_nat_alt mod_less_eq_dividend)
  then have "unat (?x - take_bit k ?x) = unat ?x - unat ?x mod 2 ^ k" by (simp only: unat_sub t)
  then show ?thesis unfolding aligned_address_def Let_def and_not_mask x by (simp only: minus_mod_eq_mult_div)
qed

text \<open>Where a block lies. For every alignment that is a power of two the request is refused exactly where
  the block with its header and padding would not fit into an address space of 2^64 bytes; otherwise, in whatever block of the size asked for \<open>malloc\<close>
  returns, the address is a multiple of the alignment, the header lies between the start of the block and
  the address, and the payload ends within the block.\<close>

theorem block_layout:
  assumes "k < 64" and "block_size requested (2 ^ k) = Some n" and "unat allocation + unat n \<le> 2 ^ 64"
  shows "let a = aligned_address allocation (2 ^ k) in
    2 ^ k dvd unat a \<and> unat allocation \<le> unat (a - header_size) \<and> unat (a - header_size) + unat header_size = unat a
    \<and> unat a + max 1 (unat requested) \<le> unat allocation + unat n"
proof -
  let ?a = "aligned_address allocation (2 ^ k)"
  have n: "unat n = max 1 (unat requested) + 15 + 2 ^ k"
    using assms(2) unat_below [of "max 1 (unat requested) + 15 + 2 ^ k"]
    by (auto simp: block_size_exact [OF assms(1)] simp del: of_nat_add of_nat_max split: if_splits)
  have a: "unat ?a = 2 ^ k * ((unat allocation + 15 + 2 ^ k) div 2 ^ k)"
    using aligned_address_exact [OF assms(1), of allocation] assms(3) n by simp
  define X where "X = unat allocation + 15 + 2 ^ k"
  have "2 ^ k * (X div 2 ^ k) + X mod 2 ^ k = X" "X mod 2 ^ k < 2 ^ k" by simp_all
  then have "X - 2 ^ k < unat ?a \<and> unat ?a \<le> X" unfolding a X_def [symmetric] using X_def by linarith
  then have b: "unat allocation + 16 \<le> unat ?a" "unat ?a \<le> unat allocation + 15 + 2 ^ k" by (simp_all add: X_def)
  have h: "unat header_size = 16" by (simp add: header_size_def)
  have "unat (?a - header_size) = unat ?a - 16" using b(1) h by (subst unat_sub) (simp_all add: word_le_nat_alt)
  moreover have "2 ^ k dvd unat ?a" by (simp add: a)
  ultimately show ?thesis using b n h by (simp add: Let_def)
qed

theorem block_layout_witness:
  "block_size 13 (2 ^ 6) = Some 92 \<and> 2 ^ 6 dvd unat (aligned_address 1000 (2 ^ 6))
     \<and> unat (aligned_address 1000 (2 ^ 6)) + 13 \<le> 1092"
proof -
  have b: "block_size 13 (2 ^ 6) = Some 92" by (simp add: block_size_def header_size_def Let_def)
  show ?thesis using block_layout [OF _ b, of 1000] b by (simp add: Let_def)
qed

section \<open>A block that is returned\<close>

lemma allocate_cases:
  assumes "allocate al requested alignment h = (h', Some pointer)"
  obtains n w allocation where "block_size requested alignment = Some n" and "al_malloc al n (hp_world h) = (w, allocation)"
    and "allocation \<noteq> 0" and "pointer = aligned_address allocation alignment"
    and "h' = h\<lparr>hp_world := w, hp_headers := (hp_headers h)(pointer - header_size \<mapsto>
          \<lparr>ah_allocation = allocation, ah_requested_bytes = requested\<rparr>),
        hp_counters := record_allocation requested (hp_counters h)\<rparr>"
  using assms by (auto simp: allocate_def Let_def split: option.splits prod.splits if_splits)

text \<open>\<open>operator delete\<close> undoes \<open>operator new\<close>. For every form of the two operators, if \<open>new\<close> gives a block, then \<open>malloc\<close> was asked
  once, the counters count one allocation of the size requested, and \<open>delete\<close> of the pointer returns to \<open>free\<close> exactly what
  \<open>malloc\<close> gave, counts one release of the same size, and restores the live bytes, while the peak keeps the
  greatest live size. The header that \<open>delete\<close> reads is that of the block although other headers have been
  written in the meantime, as long as they lie elsewhere.\<close>

theorem new_then_delete:
  assumes "operator_new al nothrow alignment bytes h = (h1, Inr pointer)" and "pointer \<noteq> 0"
    and "hp_headers h2 (pointer - header_size) = hp_headers h1 (pointer - header_size)"
    and "hp_counters h2 = hp_counters h1"
  shows "\<exists>n w allocation h3. al_malloc al n (hp_world h) = (w, allocation) \<and> hp_world h1 = w
    \<and> deallocate al pointer h2 = Some h3 \<and> hp_world h3 = al_free al allocation (hp_world h2)
    \<and> (let c = hp_counters h; d = hp_counters h3 in
        allocation_count d = allocation_count c + 1 \<and> deallocation_count d = deallocation_count c + 1
        \<and> allocated_bytes d = allocated_bytes c + bytes \<and> deallocated_bytes d = deallocated_bytes c + bytes
        \<and> live_bytes d = live_bytes c \<and> peak_live_bytes d = max (peak_live_bytes c) (live_bytes c + bytes)
        \<and> steady_state_allocation_count d = steady_state_allocation_count c + (if steady_state c then 1 else 0))"
proof -
  let ?a = "case alignment of None \<Rightarrow> max_align | Some a \<Rightarrow> a"
  have "allocate al bytes ?a h = (h1, Some pointer)"
    using assms(1,2) by (auto simp: operator_new_def split: prod.splits option.splits if_splits)
  then obtain n w allocation where m: "al_malloc al n (hp_world h) = (w, allocation)"
    and h1: "h1 = h\<lparr>hp_world := w, hp_headers := (hp_headers h)(pointer - header_size \<mapsto>
          \<lparr>ah_allocation = allocation, ah_requested_bytes = bytes\<rparr>),
        hp_counters := record_allocation bytes (hp_counters h)\<rparr>" by (rule allocate_cases)
  have d: "deallocate al pointer h2 = Some (h2\<lparr>hp_counters := record_deallocation bytes (hp_counters h2),
      hp_world := al_free al allocation (hp_world h2)\<rparr>)"
    using assms(2,3) by (simp add: deallocate_def h1)
  have c: "hp_counters h2 = record_allocation bytes (hp_counters h)" using assms(4) by (simp add: h1)
  show ?thesis
    by (intro exI conjI, rule m, simp add: h1, rule d)
      (simp_all add: c record_allocation_def record_deallocation_def record_allocation_result record_deallocation_result Let_def)
qed

theorem new_then_delete_witness:
  "\<exists>h1 pointer h3. operator_new \<lparr>al_malloc = \<lambda>n w. (w + 1, 4096), al_free = \<lambda>p w. w - 1\<rparr> False (Some 64) 13
      \<lparr>hp_world = 0 :: nat, hp_headers = Map.empty, hp_counters = ht_counters (heap_start 0)\<rparr> = (h1, Inr pointer)
     \<and> deallocate \<lparr>al_malloc = \<lambda>n w. (w + 1, 4096), al_free = \<lambda>p w. w - 1\<rparr> pointer h1 = Some h3
     \<and> live_bytes (hp_counters h3) = 0 \<and> hp_world h3 = 0"
proof -
  let ?al = "\<lparr>al_malloc = \<lambda>n w. (w + 1, 4096), al_free = \<lambda>p w. w - 1\<rparr> :: nat allocator"
  let ?h = "\<lparr>hp_world = 0 :: nat, hp_headers = Map.empty, hp_counters = ht_counters (heap_start 0)\<rparr>"
  obtain h1 where n: "operator_new ?al False (Some 64) 13 ?h = (h1, Inr 4160)" and w: "hp_world h1 = 1"
    by (simp add: operator_new_def allocate_def block_size_def aligned_address_def header_size_def Let_def)
  obtain h3 where "deallocate ?al 4160 h1 = Some h3" "live_bytes (hp_counters h3) = live_bytes (hp_counters ?h)"
    "hp_world h3 = hp_world h1 - 1"
    using new_then_delete [OF n _ refl refl] unfolding Let_def by auto
  then show ?thesis using n w by (auto simp: heap_start_def)
qed

end
