(* ===== verification/Imaging.thy ===== *)
theory Imaging
  imports Complex_Main Prelude
begin

text \<open>
  Chapter 5, image blocks (\<open>ImageBlock.h\<close>): blocks that share their pixels through a pointer, with the
  checks of their sizes, the layout by rows and strides, and the deep copy. The pixels live in an explicit store,
  so that sharing can be seen. A \<open>size_t\<close> is a natural number below 2^64, and wrap-around is written out where the code does not
  exclude it; allocation of memory does not fail.
\<close>

section \<open>Formats and the store\<close>

datatype PixelFormat = GrayU8 | GrayU16 | GrayS16 | GrayU32 | GrayF32

definition bytesPerPixel :: "PixelFormat \<Rightarrow> nat" where
  "bytesPerPixel f = (case f of GrayU8 \<Rightarrow> 1 | GrayU16 \<Rightarrow> 2 | GrayS16 \<Rightarrow> 2 | GrayU32 \<Rightarrow> 4 | GrayF32 \<Rightarrow> 4)"

definition pixelFormatName :: "PixelFormat \<Rightarrow> string" where
  "pixelFormatName f = (case f of GrayU8 \<Rightarrow> ''GrayU8'' | GrayU16 \<Rightarrow> ''GrayU16'' | GrayS16 \<Rightarrow> ''GrayS16''
     | GrayU32 \<Rightarrow> ''GrayU32'' | GrayF32 \<Rightarrow> ''GrayF32'')"

datatype exception = Invalid_argument string | Overflow_error string | Out_of_range string

text \<open>Buffers by number; a number that is not used yet is free.\<close>

record Store =
  st_next :: nat
  st_buffers :: "nat \<rightharpoonup> bytes"

definition buffer :: "Store \<Rightarrow> nat \<Rightarrow> bytes" where
  "buffer st p = (case st_buffers st p of None \<Rightarrow> [] | Some b \<Rightarrow> b)"

definition new_buffer :: "Store \<Rightarrow> bytes \<Rightarrow> Store \<times> nat" where
  "new_buffer st b = (st\<lparr>st_next := Suc (st_next st), st_buffers := (st_buffers st)(st_next st \<mapsto> b)\<rparr>, st_next st)"

section \<open>Blocks\<close>

record ImageBlock =
  ib_width :: nat
  ib_height :: nat
  ib_strideBytes :: nat
  ib_format :: PixelFormat
  ib_data :: "nat option"

definition no_image :: ImageBlock where
  "no_image = \<lparr>ib_width = 0, ib_height = 0, ib_strideBytes = 0, ib_format = GrayU8, ib_data = None\<rparr>"

definition rowBytes :: "ImageBlock \<Rightarrow> nat" where "rowBytes b = (ib_width b * bytesPerPixel (ib_format b)) mod 2 ^ 64"
definition sizeBytes :: "ImageBlock \<Rightarrow> nat" where "sizeBytes b = (ib_strideBytes b * ib_height b) mod 2 ^ 64"
definition numberOfPixels :: "ImageBlock \<Rightarrow> nat" where "numberOfPixels b = (ib_width b * ib_height b) mod 2 ^ 64"

definition checkedMultiply :: "nat \<Rightarrow> nat \<Rightarrow> exception + nat" where
  "checkedMultiply a b = (if a \<noteq> 0 \<and> b > (2 ^ 64 - 1) div a then Inl (Overflow_error ''ImageBlock size overflow'')
     else Inr (a * b))"

definition stride_error :: exception where "stride_error = Invalid_argument ''ImageBlock stride is smaller than one image row''"

definition makeWithStride :: "Store \<Rightarrow> nat \<Rightarrow> nat \<Rightarrow> PixelFormat \<Rightarrow> nat \<Rightarrow> Store \<times> (exception + ImageBlock)" where
  "makeWithStride st width height format strideBytes =
     (if width = 0 \<or> height = 0 then (st, Inr no_image)
      else case checkedMultiply width (bytesPerPixel format) of
        Inl e \<Rightarrow> (st, Inl e)
      | Inr minimumStride \<Rightarrow>
          if strideBytes < minimumStride then (st, Inl stride_error)
          else (case checkedMultiply strideBytes height of
            Inl e \<Rightarrow> (st, Inl e)
          | Inr allocationSize \<Rightarrow>
              (let (st', p) = new_buffer st (replicate allocationSize 0)
               in (st', Inr \<lparr>ib_width = width, ib_height = height, ib_strideBytes = strideBytes, ib_format = format,
                     ib_data = Some p\<rparr>))))"

definition make :: "Store \<Rightarrow> nat \<Rightarrow> nat \<Rightarrow> PixelFormat \<Rightarrow> Store \<times> (exception + ImageBlock)" where
  "make st width height format =
     (if width = 0 \<or> height = 0 then (st, Inr no_image)
      else case checkedMultiply width (bytesPerPixel format) of
        Inl e \<Rightarrow> (st, Inl e)
      | Inr row_size \<Rightarrow> makeWithStride st width height format row_size)"

definition copyFrom :: "Store \<Rightarrow> nat \<Rightarrow> nat \<Rightarrow> PixelFormat \<Rightarrow> bytes \<Rightarrow> Store \<times> (exception + ImageBlock)" where
  "copyFrom st width height format contiguousData =
     (case make st width height format of
        (st1, Inl e) \<Rightarrow> (st1, Inl e)
      | (st1, Inr block) \<Rightarrow>
          (case ib_data block of
             None \<Rightarrow> (st1, Inr no_image)
           | Some p \<Rightarrow>
               let n = rowBytes block * ib_height block
               in if length contiguousData < n then (st1, Inl (Invalid_argument ''ImageBlock copy source is too small''))
                  else (st1\<lparr>st_buffers := (st_buffers st1)(p \<mapsto> blit (buffer st1 p) 0 (take n contiguousData))\<rparr>, Inr block)))"

text \<open>The pointer is a buffer of someone else, \<open>None\<close> for null; the deleter runs when the last block is gone.\<close>

definition fromExternal :: "nat \<Rightarrow> nat \<Rightarrow> PixelFormat \<Rightarrow> nat \<Rightarrow> nat option \<Rightarrow> exception + ImageBlock" where
  "fromExternal width height format strideBytes pointer =
     (if width = 0 \<or> height = 0 then Inr no_image
      else if pointer = None then Inl (Invalid_argument ''ImageBlock external data pointer may not be null'')
      else case checkedMultiply width (bytesPerPixel format) of
        Inl e \<Rightarrow> Inl e
      | Inr minimumStride \<Rightarrow>
          if strideBytes < minimumStride then Inl stride_error
          else Inr \<lparr>ib_width = width, ib_height = height, ib_strideBytes = strideBytes, ib_format = format, ib_data = pointer\<rparr>)"

definition image_bytes :: "Store \<Rightarrow> ImageBlock \<Rightarrow> bytes" where
  "image_bytes st b = (case ib_data b of None \<Rightarrow> [] | Some p \<Rightarrow> take (sizeBytes b) (buffer st p))"

definition row_data :: "Store \<Rightarrow> ImageBlock \<Rightarrow> nat \<Rightarrow> bytes" where
  "row_data st b y = (case ib_data b of None \<Rightarrow> [] | Some p \<Rightarrow> take (rowBytes b) (drop (y * ib_strideBytes b) (buffer st p)))"

definition image_row :: "Store \<Rightarrow> ImageBlock \<Rightarrow> nat \<Rightarrow> exception + bytes" where
  "image_row st b rowIndex = (if rowIndex \<ge> ib_height b then Inl (Out_of_range ''ImageBlock row index out of range'')
     else Inr (row_data st b rowIndex))"

definition image_index :: "Store \<Rightarrow> ImageBlock \<Rightarrow> nat \<Rightarrow> exception + u8" where
  "image_index st b index = (if index \<ge> sizeBytes b then Inl (Out_of_range ''ImageBlock byte index out of range'')
     else Inr (case ib_data b of None \<Rightarrow> 0 | Some p \<Rightarrow> buffer st p ! index))"

text \<open>The loop of \<open>copyTo\<close>: every row is read from the store as it is then.\<close>

primrec copy_rows :: "ImageBlock \<Rightarrow> ImageBlock \<Rightarrow> nat \<Rightarrow> nat list \<Rightarrow> Store \<Rightarrow> Store" where
  "copy_rows source destination q [] st = st"
| "copy_rows source destination q (y # ys) st = copy_rows source destination q ys
     (st\<lparr>st_buffers := (st_buffers st)(q \<mapsto> blit (buffer st q) (y * ib_strideBytes destination) (row_data st source y))\<rparr>)"

definition copyTo :: "Store \<Rightarrow> ImageBlock \<Rightarrow> ImageBlock \<Rightarrow> exception + Store" where
  "copyTo st source destination =
     (case (ib_data source, ib_data destination) of
        (Some p, Some q) \<Rightarrow>
          if ib_width destination \<noteq> ib_width source \<or> ib_height destination \<noteq> ib_height source
             \<or> ib_format destination \<noteq> ib_format source
          then Inl (Invalid_argument ''ImageBlock copyTo size or format mismatch'')
          else Inr (copy_rows source destination q [0..<ib_height source] st)
      | _ \<Rightarrow> Inr st)"

definition clone :: "Store \<Rightarrow> ImageBlock \<Rightarrow> Store \<times> (exception + ImageBlock)" where
  "clone st b =
     (if ib_data b = None then (st, Inr no_image)
      else case makeWithStride st (ib_width b) (ib_height b) (ib_format b) (ib_strideBytes b) of
        (st1, Inl e) \<Rightarrow> (st1, Inl e)
      | (st1, Inr copy) \<Rightarrow> (case copyTo st1 b copy of Inl e \<Rightarrow> (st1, Inl e) | Inr st2 \<Rightarrow> (st2, Inr copy)))"

section \<open>Well-formed blocks\<close>

definition store_ok :: "Store \<Rightarrow> bool" where "store_ok st \<longleftrightarrow> (\<forall>p. st_next st \<le> p \<longrightarrow> st_buffers st p = None)"

text \<open>A block over pixels of its own: the rows fit into their stride, and the buffer holds exactly the rows.\<close>

definition block_ok :: "Store \<Rightarrow> ImageBlock \<Rightarrow> bool" where
  "block_ok st b \<longleftrightarrow> (case ib_data b of
     None \<Rightarrow> b = no_image
   | Some p \<Rightarrow> 0 < ib_width b \<and> 0 < ib_height b \<and> ib_width b * bytesPerPixel (ib_format b) \<le> ib_strideBytes b
       \<and> ib_strideBytes b * ib_height b < 2 ^ 64 \<and> (\<exists>buf. st_buffers st p = Some buf \<and> length buf = ib_strideBytes b * ib_height b))"

lemma bytesPerPixel_pos: "0 < bytesPerPixel f"
  by (cases f) (simp_all add: bytesPerPixel_def)

lemma checkedMultiply_exact: "checkedMultiply a b = (if a * b < 2 ^ 64 then Inr (a * b) else Inl (Overflow_error ''ImageBlock size overflow''))"
proof (cases "a = 0")
  case False
  have "b \<le> (2 ^ 64 - 1) div a \<longleftrightarrow> b * a \<le> 2 ^ 64 - 1" by (rule less_eq_div_iff_mult_less_eq) (use False in simp)
  then have "b > (2 ^ 64 - 1) div a \<longleftrightarrow> \<not> a * b < 2 ^ 64" by (simp only: mult.commute not_le [symmetric]) auto
  then show ?thesis using False unfolding checkedMultiply_def by (cases "a * b < 2 ^ 64") (simp_all only: simp_thms if_True if_False)
qed (simp add: checkedMultiply_def)

text \<open>What the constructor of all owned blocks returns, on every branch.\<close>

lemma makeWithStride_exact:
  "makeWithStride st w h f s =
     (if w = 0 \<or> h = 0 then (st, Inr no_image)
      else if 2 ^ 64 \<le> w * bytesPerPixel f then (st, Inl (Overflow_error ''ImageBlock size overflow''))
      else if s < w * bytesPerPixel f then (st, Inl stride_error)
      else if 2 ^ 64 \<le> s * h then (st, Inl (Overflow_error ''ImageBlock size overflow''))
      else (st\<lparr>st_next := Suc (st_next st), st_buffers := (st_buffers st)(st_next st \<mapsto> replicate (s * h) 0)\<rparr>,
            Inr \<lparr>ib_width = w, ib_height = h, ib_strideBytes = s, ib_format = f, ib_data = Some (st_next st)\<rparr>))"
  by (simp add: makeWithStride_def checkedMultiply_exact new_buffer_def)

lemma makeWithStride_ok:
  assumes "makeWithStride st w h f s = (st', r)" and "store_ok st"
  shows "store_ok st'" and "\<forall>p. st_buffers st p \<noteq> None \<longrightarrow> st_buffers st' p = st_buffers st p"
    and "r = Inr b \<Longrightarrow> block_ok st' b"
  using assms by (auto simp: makeWithStride_exact store_ok_def block_ok_def no_image_def split: if_splits)

lemma row_below: "0 < h \<Longrightarrow> r \<le> s \<Longrightarrow> s * h < n \<Longrightarrow> r < (n :: nat)"
proof -
  assume a: "0 < h" "r \<le> s" "s * h < n"
  have "s \<le> s * h" using a(1) by (cases h) simp_all
  then show ?thesis using a(2,3) by linarith
qed

lemma rowBytes_ok: "block_ok st b \<Longrightarrow> rowBytes b = ib_width b * bytesPerPixel (ib_format b) \<and> rowBytes b \<le> ib_strideBytes b"
proof (cases "ib_data b")
  case (Some p)
  assume ok: "block_ok st b"
  have "0 < ib_height b" "ib_width b * bytesPerPixel (ib_format b) \<le> ib_strideBytes b"
    "ib_strideBytes b * ib_height b < 2 ^ 64" using ok Some by (auto simp: block_ok_def)
  then have "ib_width b * bytesPerPixel (ib_format b) < 2 ^ 64" by (rule row_below)
  then show ?thesis using ok Some by (simp add: rowBytes_def block_ok_def)
qed (simp add: block_ok_def rowBytes_def no_image_def)

lemma sizeBytes_ok: "block_ok st b \<Longrightarrow> sizeBytes b = ib_strideBytes b * ib_height b"
  by (auto simp: block_ok_def sizeBytes_def no_image_def split: option.splits)

lemma row_in_buffer: "y < h \<Longrightarrow> r \<le> s \<Longrightarrow> y * s + r \<le> s * (h :: nat)"
proof -
  assume "y < h" "r \<le> s"
  then have "y * s + r \<le> Suc y * s" by simp
  also have "\<dots> \<le> h * s" using \<open>y < h\<close> by (intro mult_le_mono) auto
  finally show ?thesis by (simp add: mult.commute)
qed

lemma length_row_data: "block_ok st b \<Longrightarrow> y < ib_height b \<Longrightarrow> length (row_data st b y) = rowBytes b"
proof (cases "ib_data b")
  case (Some p)
  assume ok: "block_ok st b" and y: "y < ib_height b"
  have "y * ib_strideBytes b + rowBytes b \<le> ib_strideBytes b * ib_height b"
    using row_in_buffer [OF y] rowBytes_ok [OF ok] by simp
  moreover have "length (buffer st p) = ib_strideBytes b * ib_height b" using ok Some by (auto simp: block_ok_def buffer_def)
  ultimately show ?thesis using Some by (simp add: row_data_def)
qed (simp add: block_ok_def row_data_def no_image_def rowBytes_def)

section \<open>Copying rows\<close>

lemma slice_blit_same: "off + length src \<le> length buf \<Longrightarrow> take (length src) (drop off (blit buf off src)) = src"
  by (simp add: blit_def)

lemma slice_blit_before: "a + r \<le> off \<Longrightarrow> off \<le> length buf \<Longrightarrow> take r (drop a (blit buf off src)) = take r (drop a buf)"
proof -
  assume "a + r \<le> off" "off \<le> length buf"
  then have "take (a + r) (blit buf off src) = take (a + r) buf" by simp
  then show ?thesis by (metis add.commute take_drop)
qed

lemma slice_blit_after: "off + length src \<le> a \<Longrightarrow> off \<le> length buf \<Longrightarrow> take r (drop a (blit buf off src)) = take r (drop a buf)"
  by simp

lemma other_row: "y \<noteq> y' \<Longrightarrow> r \<le> s \<Longrightarrow> y * s + r \<le> y' * s \<or> y' * s + r \<le> y * (s :: nat)"
  using row_in_buffer [of y y' r s] row_in_buffer [of y' y r s] by (auto simp: mult.commute neq_iff)

definition slice :: "nat \<Rightarrow> nat \<Rightarrow> bytes \<Rightarrow> nat \<Rightarrow> bytes" where "slice s r buf y = take r (drop (y * s) buf)"

lemma slice_blit_row:
  assumes "length src = r" and "r \<le> s" and "y < h" and "length buf = s * h"
  shows "slice s r (blit buf (y * s) src) y' = (if y' = y then src else slice s r buf y')"
proof -
  have l: "y * s + r \<le> length buf" using row_in_buffer [OF assms(3,2)] assms(4) by simp
  show ?thesis
  proof (cases "y' = y")
    case True
    then show ?thesis using slice_blit_same [of "y * s" src buf] l assms(1) by (simp add: slice_def)
  next
    case False
    then have "y * s + r \<le> y' * s \<or> y' * s + r \<le> y * s" using other_row [of y y' r s] assms(2) by blast
    then show ?thesis using False l assms(1) slice_blit_before [of "y' * s" r "y * s" buf src]
        slice_blit_after [of "y * s" src "y' * s" buf r] by (auto simp: slice_def)
  qed
qed

lemma row_data_slice: "ib_data b = Some p \<Longrightarrow> row_data st b y = slice (ib_strideBytes b) (rowBytes b) (buffer st p) y"
  by (simp add: row_data_def slice_def)

text \<open>Rows copied into another buffer: each row of the list is there afterwards, every other row and every other
  buffer is as before.\<close>

lemma copy_rows_result:
  assumes "p \<noteq> q" and "ib_data source = Some p" and "rowBytes source \<le> ib_strideBytes destination"
    and "set ys \<subseteq> {..<h}" and "distinct ys" and "st_buffers st q = Some buf" and "length buf = ib_strideBytes destination * h"
    and "\<And>y. y < h \<Longrightarrow> length (row_data st source y) = rowBytes source"
  shows "\<exists>buf'. st_buffers (copy_rows source destination q ys st) = (st_buffers st)(q \<mapsto> buf') \<and> length buf' = length buf
    \<and> (\<forall>y. slice (ib_strideBytes destination) (rowBytes source) buf' y
          = (if y \<in> set ys then row_data st source y else slice (ib_strideBytes destination) (rowBytes source) buf y))
    \<and> st_next (copy_rows source destination q ys st) = st_next st"
  using assms(4-8)
proof (induction ys arbitrary: st buf)
  case Nil
  then show ?case by (intro exI [of _ buf]) (simp add: fun_upd_idem)
next
  case (Cons y ys)
  let ?s = "ib_strideBytes destination" and ?r = "rowBytes source"
  let ?buf = "blit buf (y * ?s) (row_data st source y)"
  let ?st = "st\<lparr>st_buffers := (st_buffers st)(q \<mapsto> ?buf)\<rparr>"
  have y: "y < h" using Cons.prems(1) by simp
  have len: "length (row_data st source y) = ?r" using Cons.prems(5) y by simp
  have l: "length ?buf = length buf" using row_in_buffer [OF y assms(3)] len Cons.prems(4) by simp
  have src: "row_data ?st source y' = row_data st source y'" for y'
    using assms(1,2) by (simp add: row_data_def buffer_def)
  have b: "buffer st q = buf" using Cons.prems(3) by (simp add: buffer_def)
  note row = slice_blit_row [OF len assms(3) y, of buf]
  have "\<exists>buf'. st_buffers (copy_rows source destination q ys ?st) = (st_buffers ?st)(q \<mapsto> buf') \<and> length buf' = length ?buf
    \<and> (\<forall>y'. slice ?s ?r buf' y' = (if y' \<in> set ys then row_data ?st source y' else slice ?s ?r ?buf y'))
    \<and> st_next (copy_rows source destination q ys ?st) = st_next ?st"
    by (rule Cons.IH) (use Cons.prems l in \<open>auto simp: src\<close>)
  then obtain buf' where buf': "st_buffers (copy_rows source destination q ys ?st) = (st_buffers ?st)(q \<mapsto> buf')"
    "length buf' = length ?buf"
    "\<forall>y'. slice ?s ?r buf' y' = (if y' \<in> set ys then row_data ?st source y' else slice ?s ?r ?buf y')"
    "st_next (copy_rows source destination q ys ?st) = st_next ?st" by blast
  show ?case
    using buf' l row Cons.prems(2,4) by (intro exI [of _ buf']) (auto simp: b src)
qed

text \<open>C36: a clone is a deep copy. For every well-formed block it succeeds, whatever the stride; the clone has the
  same size and format and the same rows in a buffer that no block used before, all other buffers are untouched,
  and later writes into the buffer of the one do not change a row of the other.\<close>

theorem clone_is_deep:
  assumes "store_ok st" and "block_ok st b" and "ib_data b = Some p"
  shows "\<exists>st' c q. clone st b = (st', Inr c) \<and> store_ok st' \<and> block_ok st' c
    \<and> c = b\<lparr>ib_data := Some q\<rparr> \<and> st_buffers st q = None
    \<and> (\<forall>k. k \<noteq> q \<longrightarrow> st_buffers st' k = st_buffers st k)
    \<and> (\<forall>y < ib_height b. image_row st' c y = image_row st b y)
    \<and> (\<forall>y x. row_data (st'\<lparr>st_buffers := (st_buffers st')(p \<mapsto> x)\<rparr>) c y = row_data st' c y
        \<and> row_data (st'\<lparr>st_buffers := (st_buffers st')(q \<mapsto> x)\<rparr>) b y = row_data st b y)"
proof -
  let ?q = "st_next st" and ?n = "ib_strideBytes b * ib_height b"
  let ?c = "b\<lparr>ib_data := Some ?q\<rparr>"
  let ?st = "st\<lparr>st_next := Suc ?q, st_buffers := (st_buffers st)(?q \<mapsto> replicate ?n 0)\<rparr>"
  have ok: "0 < ib_width b" "0 < ib_height b" "ib_width b * bytesPerPixel (ib_format b) \<le> ib_strideBytes b" "?n < 2 ^ 64"
    using assms(2,3) by (auto simp: block_ok_def)
  have fresh: "st_buffers st ?q = None" using assms(1) by (simp add: store_ok_def)
  then have pq: "p \<noteq> ?q" using assms(2,3) by (auto simp: block_ok_def)
  note rb = rowBytes_ok [OF assms(2)]
  have w: "ib_width b * bytesPerPixel (ib_format b) < 2 ^ 64"
    using ok(2,3,4) by (rule row_below)
  have c: "?c = \<lparr>ib_width = ib_width b, ib_height = ib_height b, ib_strideBytes = ib_strideBytes b, ib_format = ib_format b, ib_data = Some ?q\<rparr>"
    by simp
  have make: "makeWithStride st (ib_width b) (ib_height b) (ib_format b) (ib_strideBytes b) = (?st, Inr ?c)"
    unfolding c using ok w by (simp add: makeWithStride_exact del: ImageBlock.update_convs)
  have src: "row_data ?st b y = row_data st b y" for y using pq assms(3) by (simp add: row_data_def buffer_def)
  have "\<exists>buf'. st_buffers (copy_rows b ?c ?q [0..<ib_height b] ?st) = (st_buffers ?st)(?q \<mapsto> buf')
    \<and> length buf' = length (replicate ?n (0 :: u8))
    \<and> (\<forall>y. slice (ib_strideBytes ?c) (rowBytes b) buf' y
          = (if y \<in> set [0..<ib_height b] then row_data ?st b y else slice (ib_strideBytes ?c) (rowBytes b) (replicate ?n 0) y))
    \<and> st_next (copy_rows b ?c ?q [0..<ib_height b] ?st) = st_next ?st"
    by (rule copy_rows_result [OF pq assms(3), of ?c _ "ib_height b"])
      (use rb length_row_data [OF assms(2)] in \<open>auto simp: src\<close>)
  then obtain buf' where buf': "st_buffers (copy_rows b ?c ?q [0..<ib_height b] ?st) = (st_buffers st)(?q \<mapsto> buf')"
    "length buf' = ?n" "\<And>y. y < ib_height b \<Longrightarrow> slice (ib_strideBytes b) (rowBytes b) buf' y = row_data st b y"
    "st_next (copy_rows b ?c ?q [0..<ib_height b] ?st) = Suc ?q" by (auto simp: src)
  let ?st' = "copy_rows b ?c ?q [0..<ib_height b] ?st"
  have clone: "clone st b = (?st', Inr ?c)" using make assms(3) by (simp add: clone_def copyTo_def)
  have rc: "rowBytes ?c = rowBytes b" by (simp add: rowBytes_def)
  have rows: "image_row ?st' ?c y = image_row st b y" if "y < ib_height b" for y
    using that buf'(1,3) by (simp add: image_row_def row_data_slice rc) (simp add: buffer_def)
  show ?thesis
  proof (intro exI conjI allI impI)
    show "clone st b = (?st', Inr ?c)" by (rule clone)
    show "store_ok ?st'" using assms(1) buf'(1,4) by (simp add: store_ok_def)
    show "block_ok ?st' ?c" using ok buf'(1,2) by (simp add: block_ok_def)
    show "st_buffers ?st' k = st_buffers st k" if "k \<noteq> ?q" for k using that by (simp add: buf'(1))
    show "row_data (?st'\<lparr>st_buffers := (st_buffers ?st')(p \<mapsto> x)\<rparr>) ?c y = row_data ?st' ?c y" for y x
      using pq by (simp add: row_data_def buffer_def)
    show "row_data (?st'\<lparr>st_buffers := (st_buffers ?st')(?q \<mapsto> x)\<rparr>) b y = row_data st b y" for y x
      using pq assms(3) by (simp add: row_data_def buffer_def buf'(1))
  qed (use fresh rows in auto)
qed

theorem clone_is_deep_witness:
  "\<exists>st b p st' c. copyFrom \<lparr>st_next = 0, st_buffers = Map.empty\<rparr> 2 1 GrayU16 [1, 2, 3, 4] = (st, Inr b) \<and> ib_data b = Some p
     \<and> clone st b = (st', Inr c) \<and> ib_data c \<noteq> Some p \<and> image_row st' c 0 = Inr [1, 2, 3, 4]"
proof -
  let ?b = "\<lparr>ib_width = 2, ib_height = 1, ib_strideBytes = 4, ib_format = GrayU16, ib_data = Some 0\<rparr>"
  let ?st = "\<lparr>st_next = 1, st_buffers = [0 \<mapsto> [1, 2, 3, 4 :: u8]]\<rparr>"
  have st: "copyFrom \<lparr>st_next = 0, st_buffers = Map.empty\<rparr> 2 1 GrayU16 [1, 2, 3, 4] = (?st, Inr ?b)"
    by (simp add: copyFrom_def make_def makeWithStride_exact checkedMultiply_exact bytesPerPixel_def rowBytes_def buffer_def blit_def
      no_image_def)
  have "store_ok ?st" by (simp add: store_ok_def)
  moreover have "block_ok ?st ?b" by (simp add: block_ok_def bytesPerPixel_def)
  ultimately obtain st' c q where c: "clone ?st ?b = (st', Inr c)" "c = ?b\<lparr>ib_data := Some q\<rparr>" "st_buffers ?st q = None"
    "image_row st' c 0 = image_row ?st ?b 0"
    using clone_is_deep [of ?st ?b 0] by auto
  moreover have "image_row ?st ?b 0 = Inr [1, 2, 3, 4]"
    by (simp add: image_row_def row_data_def rowBytes_def bytesPerPixel_def buffer_def)
  moreover have "q \<noteq> 0" using c(3) by (cases "q = 0") auto
  ultimately show ?thesis using st by auto
qed

section \<open>Images from contiguous data\<close>

lemma make_exact:
  "make st w h f =
     (if w = 0 \<or> h = 0 then (st, Inr no_image)
      else if 2 ^ 64 \<le> w * bytesPerPixel f * h then (st, Inl (Overflow_error ''ImageBlock size overflow''))
      else (st\<lparr>st_next := Suc (st_next st), st_buffers := (st_buffers st)(st_next st \<mapsto> replicate (w * bytesPerPixel f * h) 0)\<rparr>,
            Inr \<lparr>ib_width = w, ib_height = h, ib_strideBytes = w * bytesPerPixel f, ib_format = f, ib_data = Some (st_next st)\<rparr>))"
proof (cases "w = 0 \<or> h = 0")
  case False
  define r where "r = w * bytesPerPixel f"
  have r: "\<not> 2 ^ 64 \<le> r" if "\<not> 2 ^ 64 \<le> r * h"
    using row_below [of h r r "2 ^ 64"] False that unfolding not_le by blast
  have c: "checkedMultiply w (bytesPerPixel f) = (if r < 2 ^ 64 then Inr r else Inl (Overflow_error ''ImageBlock size overflow''))"
    unfolding r_def by (rule checkedMultiply_exact)
  show ?thesis
  proof (cases "2 ^ 64 \<le> r")
    case True
    then have "2 ^ 64 \<le> r * h" using r by blast
    then show ?thesis using False True unfolding make_def c r_def [symmetric] by simp
  next
    case below: False
    then show ?thesis using False unfolding make_def c makeWithStride_exact r_def [symmetric] by simp
  qed
qed (auto simp: make_def)

text \<open>\<open>copyFrom\<close> on every branch. An empty size gives no image; a size that overflows \<open>size_t\<close> and data that are
  too short are refused, and no buffer is changed then but the new one; otherwise the block is well formed and its rows are the
  consecutive pieces of the data, of one row's size each.\<close>

theorem copyFrom_outcome:
  assumes "store_ok st"
  shows "let r = width * bytesPerPixel format; (st', result) = copyFrom st width height format contiguousData in
    (result = Inl (Overflow_error ''ImageBlock size overflow'') \<longleftrightarrow> 2 ^ 64 \<le> r * height)
    \<and> (result = Inl (Invalid_argument ''ImageBlock copy source is too small'') \<longleftrightarrow>
        r * height < 2 ^ 64 \<and> length contiguousData < r * height)
    \<and> (result = Inr no_image \<longleftrightarrow> width = 0 \<or> height = 0)
    \<and> (\<forall>p. st_buffers st p \<noteq> None \<longrightarrow> st_buffers st' p = st_buffers st p)
    \<and> (\<forall>b. result = Inr b \<longrightarrow> block_ok st' b
        \<and> (\<forall>y < ib_height b. image_row st' b y = Inr (take r (drop (y * r) contiguousData))))"
proof -
  define r where "r = width * bytesPerPixel format"
  consider "width = 0 \<or> height = 0" | "0 < width" "0 < height" "2 ^ 64 \<le> r * height"
    | "0 < width" "0 < height" "r * height < 2 ^ 64" "length contiguousData < r * height"
    | "0 < width" "0 < height" "r * height < 2 ^ 64" "r * height \<le> length contiguousData" by linarith
  then show ?thesis
  proof cases
    case 1
    then have "copyFrom st width height format contiguousData = (st, Inr no_image)"
      by (auto simp: copyFrom_def make_def no_image_def)
    then show ?thesis using 1 by (auto simp: Let_def block_ok_def no_image_def)
  next
    case 2
    then have "copyFrom st width height format contiguousData = (st, Inl (Overflow_error ''ImageBlock size overflow''))"
      by (simp add: copyFrom_def make_exact r_def)
    then show ?thesis using 2 by (simp add: Let_def r_def)
  next
    case 3
    let ?b = "\<lparr>ib_width = width, ib_height = height, ib_strideBytes = r, ib_format = format, ib_data = Some (st_next st)\<rparr>"
    let ?st = "st\<lparr>st_next := Suc (st_next st), st_buffers := (st_buffers st)(st_next st \<mapsto> replicate (r * height) 0)\<rparr>"
    have m: "make st width height format = (?st, Inr ?b)" using 3 by (simp add: make_exact r_def)
    have "rowBytes ?b = r" using row_below [OF 3(2) _ 3(3), of r] by (simp add: rowBytes_def r_def)
    then have "copyFrom st width height format contiguousData = (?st, Inl (Invalid_argument ''ImageBlock copy source is too small''))"
      using 3(4) by (simp add: copyFrom_def m)
    then show ?thesis using 3 assms(1) by (auto simp: store_ok_def Let_def r_def)
  next
    case 4
    let ?b = "\<lparr>ib_width = width, ib_height = height, ib_strideBytes = r, ib_format = format, ib_data = Some (st_next st)\<rparr>"
    let ?st = "st\<lparr>st_next := Suc (st_next st), st_buffers := (st_buffers st)(st_next st \<mapsto> replicate (r * height) 0)\<rparr>"
    let ?buf = "take (r * height) contiguousData"
    let ?st' = "?st\<lparr>st_buffers := (st_buffers ?st)(st_next st \<mapsto> ?buf)\<rparr>"
    have m: "make st width height format = (?st, Inr ?b)" using 4 by (simp add: make_exact r_def)
    have rb: "rowBytes ?b = r" using row_below [OF 4(2) _ 4(3), of r] by (simp add: rowBytes_def r_def)
    have l: "length ?buf = r * height" using 4(4) by simp
    have c: "copyFrom st width height format contiguousData = (?st', Inr ?b)"
      using 4(4) blit_whole [of ?buf "replicate (r * height) 0"] l by (simp add: copyFrom_def m rb buffer_def)
    have row: "image_row ?st' ?b y = Inr (take r (drop (y * r) contiguousData))" if "y < height" for y
    proof -
      have "y * r + r \<le> r * height" using row_in_buffer [OF that order_refl] .
      then have "take r (drop (y * r) ?buf) = take r (drop (y * r) contiguousData)" by (simp add: drop_take min_def)
      then show ?thesis using that by (simp add: image_row_def row_data_def rb buffer_def)
    qed
    have "block_ok ?st' ?b" using 4 l by (simp add: block_ok_def r_def)
    then show ?thesis using 4 assms(1) row unfolding r_def [symmetric] Let_def c by (auto simp: store_ok_def no_image_def)
  qed
qed

theorem copyFrom_outcome_witness:
  "\<exists>st. copyFrom \<lparr>st_next = 0, st_buffers = Map.empty\<rparr> 2 2 GrayU8 [1, 2, 3] = (st, Inl (Invalid_argument ''ImageBlock copy source is too small''))"
proof -
  have ok: "store_ok \<lparr>st_next = 0, st_buffers = Map.empty\<rparr>" by (simp add: store_ok_def)
  obtain st r where c: "copyFrom \<lparr>st_next = 0, st_buffers = Map.empty\<rparr> 2 2 GrayU8 [1, 2, 3] = (st, r)" by fastforce
  have "r = Inl (Invalid_argument ''ImageBlock copy source is too small'')"
    using copyFrom_outcome [OF ok, of 2 GrayU8 2 "[1, 2, 3]"] by (simp add: c bytesPerPixel_def Let_def)
  then show ?thesis using c by blast
qed

text \<open>An external block is not checked for the size of all its rows: \<open>sizeBytes\<close> wraps around.\<close>

lemma external_size_wraps:
  "\<exists>b. fromExternal 1 2 GrayU8 (2 ^ 63) (Some p) = Inr b \<and> sizeBytes b = 0 \<and> ib_height b = 2"
  by (simp add: fromExternal_def checkedMultiply_exact bytesPerPixel_def sizeBytes_def)

end
