(* ===== verification/Integration.thy ===== *)
theory Integration
  imports Complex_Main Imaging Filtering
begin

text \<open>
  Chapter 5, capabilities (\<open>Range.h\<close>, \<open>IIntegration.h\<close>, \<open>Defaults.h\<close>, \<open>AdjustIntegration.h\<close>): ranges, the two
  integration controls, and the algorithms that are written against the interfaces. An interface is a locale, and both
  controls are interpretations of it. An \<open>int\<close> is an integer; where its arithmetic would leave 32 bits the code
  has undefined behaviour, and the model has no result.
\<close>

section \<open>Ranges\<close>

record RangeLimit =
  rl_value :: int
  rl_inclusive :: bool

record Range =
  rg_lower :: RangeLimit
  rg_upper :: RangeLimit

definition range_of :: "int \<Rightarrow> int \<Rightarrow> Range" where
  "range_of minValue maxValue = \<lparr>rg_lower = \<lparr>rl_value = minValue, rl_inclusive = True\<rparr>,
     rg_upper = \<lparr>rl_value = maxValue, rl_inclusive = True\<rparr>\<rparr>"

definition single_range :: "int \<Rightarrow> Range" where "single_range v = range_of v v"

definition isDegenerate :: "Range \<Rightarrow> bool" where "isDegenerate r = (rl_value (rg_lower r) = rl_value (rg_upper r))"

definition contains :: "Range \<Rightarrow> int \<Rightarrow> bool" where
  "contains r v = ((if rl_inclusive (rg_lower r) then v \<ge> rl_value (rg_lower r) else v > rl_value (rg_lower r))
     \<and> (if rl_inclusive (rg_upper r) then v \<le> rl_value (rg_upper r) else v < rl_value (rg_upper r)))"

primrec containsAny :: "Range list \<Rightarrow> int \<Rightarrow> bool" where
  "containsAny [] v = False"
| "containsAny (r # rs) v = (if contains r v then True else containsAny rs v)"

primrec isDiscrete :: "Range list \<Rightarrow> bool" where
  "isDiscrete [] = True"
| "isDiscrete (r # rs) = (if \<not> isDegenerate r then False else isDiscrete rs)"

definition discreteValues :: "Range list \<Rightarrow> int list" where
  "discreteValues rs = (if \<not> isDiscrete rs then [] else map (\<lambda>r. rl_value (rg_lower r)) rs)"

text \<open>The values of a list of single values are those that it contains.\<close>

lemma discreteValues_contained: "containsAny (map single_range vs) v \<longleftrightarrow> v \<in> set (discreteValues (map single_range vs))"
proof -
  have "isDiscrete (map single_range vs)" by (induction vs) (simp_all add: isDegenerate_def single_range_def range_of_def)
  moreover have "containsAny (map single_range vs) v \<longleftrightarrow> v \<in> set vs"
    by (induction vs) (auto simp: contains_def single_range_def range_of_def)
  ultimately show ?thesis by (simp add: discreteValues_def comp_def single_range_def range_of_def)
qed

section \<open>The controls\<close>

datatype IntegrationMode = FreeRun | ProgrammableHardware | ProgrammableSoftware | ExternalHardware | ExternalSoftware

record RangeControl =
  rc_mode :: IntegrationMode
  rc_range :: Range
  rc_timeUs :: int

definition newRangeControl :: "Range \<Rightarrow> int \<Rightarrow> exception + RangeControl" where
  "newRangeControl r initialTimeUs =
     (if \<not> contains r initialTimeUs then Inl (Out_of_range ''initial integration time is outside supported range'')
      else Inr \<lparr>rc_mode = FreeRun, rc_range = r, rc_timeUs = initialTimeUs\<rparr>)"

definition rc_modes :: "IntegrationMode list" where "rc_modes = [FreeRun, ProgrammableHardware]"

definition rc_set_mode :: "RangeControl \<Rightarrow> IntegrationMode \<Rightarrow> exception + RangeControl" where
  "rc_set_mode c mode = (if mode \<notin> set rc_modes then Inl (Out_of_range ''unsupported integration mode'') else Inr (c\<lparr>rc_mode := mode\<rparr>))"

definition rc_valid :: "RangeControl \<Rightarrow> int \<Rightarrow> bool" where "rc_valid c us = contains (rc_range c) us"

definition rc_set :: "RangeControl \<Rightarrow> int \<Rightarrow> exception + RangeControl" where
  "rc_set c us = (if \<not> rc_valid c us then Inl (Out_of_range ''unsupported integration time'') else Inr (c\<lparr>rc_timeUs := us\<rparr>))"

record DiscreteControl =
  dc_mode :: IntegrationMode
  dc_values :: "int list"
  dc_timeUs :: int

definition newDiscreteControl :: "int list \<Rightarrow> exception + DiscreteControl" where
  "newDiscreteControl valuesUs =
     (if valuesUs = [] then Inl (Invalid_argument ''discrete integration capability needs at least one value'')
      else Inr \<lparr>dc_mode = FreeRun, dc_values = sort valuesUs, dc_timeUs = hd (sort valuesUs)\<rparr>)"

definition dc_modes :: "IntegrationMode list" where "dc_modes = [FreeRun, ExternalHardware]"

definition dc_set_mode :: "DiscreteControl \<Rightarrow> IntegrationMode \<Rightarrow> exception + DiscreteControl" where
  "dc_set_mode c mode = (if mode \<notin> set dc_modes then Inl (Out_of_range ''unsupported integration mode'') else Inr (c\<lparr>dc_mode := mode\<rparr>))"

definition dc_valid :: "DiscreteControl \<Rightarrow> int \<Rightarrow> bool" where "dc_valid c us = (us \<in> set (dc_values c))"

definition dc_set :: "DiscreteControl \<Rightarrow> int \<Rightarrow> exception + DiscreteControl" where
  "dc_set c us = (if \<not> dc_valid c us then Inl (Out_of_range ''unsupported integration time'') else Inr (c\<lparr>dc_timeUs := us\<rparr>))"

section \<open>The algorithms\<close>

text \<open>The mean of all bytes of a block, padding included; \<open>total\<close> is a \<open>uint64_t\<close>.\<close>

definition mean_intensity :: "'d binary64 \<Rightarrow> Store \<Rightarrow> ImageBlock \<Rightarrow> exception + 'd" where
  "mean_intensity db st b =
     (if ib_data b = None \<or> sizeBytes b = 0 then Inl (Invalid_argument ''cannot compute statistics for empty image data'')
      else let total = foldl (\<lambda>s v. s + ucast v) (0 :: u64) (image_bytes st b)
           in Inr (db_div db (db_of_nat db (unat total)) (db_of_nat db (length (image_bytes st b)))))"

definition int_fits :: "int \<Rightarrow> bool" where "int_fits x \<longleftrightarrow> - (2 ^ 31) \<le> x \<and> x < 2 ^ 31"

text \<open>Both functions get the operations of the interface that they use. The mean is what \<open>statistics\<close> computes
  from the image acquired; an exception of either passes on. \<open>None\<close> is signed overflow.\<close>

definition adjust_range :: "'d binary64 \<Rightarrow> ('c \<Rightarrow> int) \<Rightarrow> ('c \<Rightarrow> Range) \<Rightarrow> ('c \<Rightarrow> int \<Rightarrow> bool)
    \<Rightarrow> ('c \<Rightarrow> int \<Rightarrow> exception + 'c) \<Rightarrow> exception + 'd \<Rightarrow> 'd \<Rightarrow> int \<Rightarrow> 'c \<Rightarrow> (exception + 'c) option" where
  "adjust_range db time limits_of valid set_time statistics targetMean stepUs c =
     (case statistics of
        Inl e \<Rightarrow> Some (Inl e)
      | Inr mean \<Rightarrow>
          let next = (if db_less db mean targetMean then time c + stepUs
                      else if db_less db targetMean mean then time c - stepUs else time c);
              lo = rl_value (rg_lower (limits_of c)); hi = rl_value (rg_upper (limits_of c));
              clamped = (if next < lo then lo else if hi < next then hi else next)
          in if \<not> int_fits next then None
             else if valid c clamped then Some (set_time c clamped) else Some (Inr c))"

text \<open>\<open>std::lower_bound\<close>, as the number of elements before it.\<close>

definition lower_bound :: "int list \<Rightarrow> int \<Rightarrow> nat" where "lower_bound values x = length (takeWhile (\<lambda>v. v < x) values)"

definition time_position :: "int list \<Rightarrow> int \<Rightarrow> nat" where
  "time_position values current =
     (if lower_bound values current = length values then length values - 1 else lower_bound values current)"

definition adjust_discrete :: "'d binary64 \<Rightarrow> ('c \<Rightarrow> int) \<Rightarrow> ('c \<Rightarrow> int list) \<Rightarrow> ('c \<Rightarrow> int \<Rightarrow> exception + 'c)
    \<Rightarrow> exception + 'd \<Rightarrow> 'd \<Rightarrow> 'c \<Rightarrow> exception + 'c" where
  "adjust_discrete db time valid_times set_time statistics targetMean c =
     (case statistics of
        Inl e \<Rightarrow> Inl e
      | Inr mean \<Rightarrow>
          let values = sort (valid_times c)
          in if values = [] then Inr c
             else let position = time_position values (time c)
                  in if db_less db mean targetMean \<and> Suc position \<noteq> length values
                     then set_time c (values ! Suc position)
                     else if db_less db targetMean mean \<and> position \<noteq> 0 then set_time c (values ! (position - 1))
                     else Inr c)"

lemma time_position_less: "values \<noteq> [] \<Longrightarrow> time_position values x < length values"
  using length_takeWhile_le [of "\<lambda>v. v < x" "values"] by (auto simp: time_position_def lower_bound_def)

section \<open>The interface of a time control\<close>

text \<open>What \<open>IIntegrationTimeRange\<close> and \<open>IIntegrationTimeDiscrete\<close> have in common: a valid time can be set and is then the time, another is
  refused, and setting does not change what is valid.\<close>

locale time_control =
  fixes time :: "'c \<Rightarrow> int" and valid :: "'c \<Rightarrow> int \<Rightarrow> bool" and set_time :: "'c \<Rightarrow> int \<Rightarrow> exception + 'c"
  assumes set_valid: "valid c us \<Longrightarrow> \<exists>c'. set_time c us = Inr c' \<and> time c' = us \<and> (\<forall>v. valid c' v = valid c v)"
    and set_invalid: "\<not> valid c us \<Longrightarrow> \<exists>e. set_time c us = Inl (Out_of_range e)"
begin

lemma set_outcome: "set_time c us = Inr c' \<Longrightarrow> time c' = us \<and> valid c us \<and> (\<forall>v. valid c' v = valid c v)"
  using set_valid [of c us] set_invalid [of c us] by (cases "valid c us") auto

text \<open>An adjustment never fails by itself and leaves a valid time.\<close>

lemma adjust_range_valid:
  assumes "valid c (time c)" and "adjust_range db time limits_of valid set_time (Inr mean) target step c = Some r"
  shows "\<exists>c'. r = Inr c' \<and> valid c' (time c') \<and> (\<forall>v. valid c' v = valid c v)"
proof -
  have "r = Inr c \<or> (\<exists>us. valid c us \<and> r = set_time c us)"
    using assms(2) by (auto simp: adjust_range_def Let_def split: if_splits)
  then show ?thesis
  proof
    assume "\<exists>us. valid c us \<and> r = set_time c us"
    then obtain us where "valid c us" "r = set_time c us" by blast
    then show ?thesis using set_valid [of c us] by auto
  qed (use assms(1) in auto)
qed

end

locale listed_times = time_control +
  fixes valid_times :: "'a \<Rightarrow> int list"
  assumes listed: "valid c us \<longleftrightarrow> us \<in> set (valid_times c)"
begin

lemma adjust_discrete_valid:
  assumes "valid c (time c)"
  shows "\<exists>c'. adjust_discrete db time valid_times set_time (Inr mean) target c = Inr c' \<and> valid c' (time c')"
proof -
  have "adjust_discrete db time valid_times set_time (Inr mean) target c = Inr c
    \<or> (\<exists>us. valid c us \<and> adjust_discrete db time valid_times set_time (Inr mean) target c = set_time c us)"
  proof (cases "sort (valid_times c) = []")
    case False
    let ?vs = "sort (valid_times c)"
    let ?p = "time_position ?vs (time c)"
    have p: "?p < length ?vs" using time_position_less [OF False] .
    have v: "valid c (?vs ! k)" if "k < length ?vs" for k
      unfolding listed using nth_mem [OF that] by simp
    have "valid c (?vs ! (?p - 1))" by (rule v) (use p in simp)
    moreover have "Suc ?p = length ?vs \<or> valid c (?vs ! Suc ?p)"
    proof (cases "Suc ?p = length ?vs")
      case False
      then have "Suc ?p < length ?vs" using p by linarith
      then show ?thesis using v by blast
    qed simp
    ultimately show ?thesis using False unfolding adjust_discrete_def Let_def by (auto simp del: length_sort)
  qed (simp add: adjust_discrete_def)
  then show ?thesis using assms set_valid by fastforce
qed

end

interpretation rc: time_control rc_timeUs rc_valid rc_set
  by unfold_locales (auto simp: rc_set_def rc_valid_def)

interpretation dc: listed_times dc_timeUs dc_valid dc_set dc_values
  by unfold_locales (auto simp: dc_set_def dc_valid_def)

section \<open>What the algorithms do\<close>

text \<open>The mean is exact for images of less than 2^56 bytes.\<close>

lemma sum_bytes:
  "unat s + 255 * length bs < 2 ^ 64 \<Longrightarrow> unat (foldl (\<lambda>s v. s + ucast v) (s :: u64) (bs :: bytes)) = unat s + sum_list (map unat bs)"
proof (induction bs arbitrary: s)
  case (Cons b bs)
  have b: "unat b < 2 ^ LENGTH(8)" by (rule unsigned_less)
  have "unat (ucast b :: u64) = unat b" by (simp add: unsigned_ucast_eq take_bit_nat_eq_self_iff order.strict_trans [OF b])
  then have "unat (s + ucast b) = unat s + unat b" using Cons.prems b by (subst unat_plus_if') (simp add: unsigned_ucast_eq)
  then show ?case using Cons.IH [of "s + ucast b"] Cons.prems b by simp
qed simp

lemma mean_exact:
  assumes "ib_data b \<noteq> None" and "0 < sizeBytes b" and "length (image_bytes st b) < 2 ^ 56"
  shows "mean_intensity rat_db st b
    = Inr (of_nat (sum_list (map unat (image_bytes st b))) / of_nat (length (image_bytes st b)))"
proof -
  have "unat (foldl (\<lambda>s v. s + ucast v) (0 :: u64) (image_bytes st b)) = sum_list (map unat (image_bytes st b))"
    using assms(3) sum_bytes [of 0 "image_bytes st b"] by simp
  then show ?thesis using assms(1,2) unfolding mean_intensity_def Let_def by (simp only: if_False simp_thms) (simp add: rat_db_def)
qed

text \<open>The padding between the rows counts like pixels.\<close>

lemma padding_counts:
  "mean_intensity rat_db \<lparr>st_next = 1, st_buffers = [0 \<mapsto> [100, 0]]\<rparr>
     \<lparr>ib_width = 1, ib_height = 1, ib_strideBytes = 2, ib_format = GrayU8, ib_data = Some 0\<rparr> = Inr 50"
  by (subst mean_exact) (simp_all add: sizeBytes_def image_bytes_def buffer_def)

text \<open>C37: adjusting a range control moves the integration time by one step towards the brightness asked for and
  never leaves the range (means and targets are exact rationals here). An exception of the statistics, as for an
  empty image, passes on and changes nothing. With a mean, and while one step up or down from the
  current time fits into 32 bits, there is no exception and no overflow: the time wanted is the old one
  plus the step when the image is too dark, minus the step when it is too bright, and the old one
  otherwise, held at the limits of the range; where that is an excluded limit the time stays as it
  is, which inclusive limits never cause. A step that is not negative never moves the time away from the target.\<close>

theorem adjust_range_outcome:
  assumes "rc_valid c (rc_timeUs c)" and "rc_range c = limits"
    and "int_fits (rc_timeUs c - step)" and "int_fits (rc_timeUs c + step)"
  shows "let result = adjust_range rat_db rc_timeUs rc_range rc_valid rc_set statistics target step c
    in case statistics of Inl e \<Rightarrow> result = Some (Inl e)
     | Inr mean \<Rightarrow>
        let lo = rl_value (rg_lower limits); hi = rl_value (rg_upper limits);
          wanted = max lo (min hi (if mean < target then rc_timeUs c + step
            else if target < mean then rc_timeUs c - step else rc_timeUs c))
        in result = Some (Inr (c\<lparr>rc_timeUs := (if contains limits wanted then wanted else rc_timeUs c)\<rparr>))
         \<and> (rl_inclusive (rg_lower limits) \<and> rl_inclusive (rg_upper limits) \<longrightarrow> contains limits wanted)
         \<and> (0 \<le> step \<longrightarrow> (mean \<le> target \<longrightarrow> rc_timeUs c \<le> wanted) \<and> (target \<le> mean \<longrightarrow> wanted \<le> rc_timeUs c))"
proof (cases statistics)
  case (Inl e)
  then show ?thesis by (simp add: adjust_range_def)
next
  case (Inr mean)
  let ?lo = "rl_value (rg_lower limits)" and ?hi = "rl_value (rg_upper limits)"
  have t: "?lo \<le> rc_timeUs c" "rc_timeUs c \<le> ?hi"
    using assms(1,2) by (auto simp: rc_valid_def contains_def split: if_splits)
  define nxt where "nxt = (if mean < target then rc_timeUs c + step else if target < mean then rc_timeUs c - step else rc_timeUs c)"
  define wanted where "wanted = max ?lo (min ?hi nxt)"
  have w: "wanted = (if nxt < ?lo then ?lo else if ?hi < nxt then ?hi else nxt)" using t by (auto simp: wanted_def)
  have fits: "int_fits nxt" using assms(3,4) by (auto simp: nxt_def int_fits_def)
  have "adjust_range rat_db rc_timeUs rc_range rc_valid rc_set (Inr mean) target step c
       = (if rc_valid c wanted then Some (rc_set c wanted) else Some (Inr c))"
    unfolding adjust_range_def Let_def assms(2) w using fits
    by (cases "mean < target"; cases "target < mean") (simp_all add: rat_db_def nxt_def)
  also have "\<dots> = Some (Inr (c\<lparr>rc_timeUs := (if contains limits wanted then wanted else rc_timeUs c)\<rparr>))"
    by (simp add: rc_set_def rc_valid_def assms(2))
  finally have "adjust_range rat_db rc_timeUs rc_range rc_valid rc_set statistics target step c
    = Some (Inr (c\<lparr>rc_timeUs := (if contains limits wanted then wanted else rc_timeUs c)\<rparr>))" by (simp add: Inr)
  moreover have "rl_inclusive (rg_lower limits) \<and> rl_inclusive (rg_upper limits) \<longrightarrow> contains limits wanted"
    using t by (auto simp: contains_def wanted_def)
  moreover have "0 \<le> step \<longrightarrow> (mean \<le> target \<longrightarrow> rc_timeUs c \<le> wanted) \<and> (target \<le> mean \<longrightarrow> wanted \<le> rc_timeUs c)"
    using t by (auto simp: wanted_def nxt_def)
  ultimately show ?thesis unfolding Let_def Inr sum.case wanted_def nxt_def by blast
qed

theorem adjust_range_outcome_witness:
  "adjust_range rat_db rc_timeUs rc_range rc_valid rc_set (Inr 80) 128 250
     \<lparr>rc_mode = FreeRun, rc_range = range_of 100 10000, rc_timeUs = 1000\<rparr>
   = Some (Inr \<lparr>rc_mode = FreeRun, rc_range = range_of 100 10000, rc_timeUs = 1250\<rparr>)"
  using adjust_range_outcome [of "\<lparr>rc_mode = FreeRun, rc_range = range_of 100 10000, rc_timeUs = 1000\<rparr>" "range_of 100 10000" 250 "Inr 80" 128]
  by (simp add: rc_valid_def contains_def range_of_def int_fits_def)

text \<open>A sorted list without repetitions around one of its values.\<close>

lemma sorted_around:
  assumes "sorted (xs @ x # ys)" and "distinct (xs @ x # ys)"
  shows "\<forall>v \<in> set xs. v < x" and "\<forall>v \<in> set ys. x < v" and "lower_bound (xs @ x # ys) x = length xs"
    and "{v \<in> set (xs @ x # ys). x < v} = set ys" and "{v \<in> set (xs @ x # ys). v < x} = set xs"
    and "ys \<noteq> [] \<Longrightarrow> (xs @ x # ys) ! Suc (length xs) = Min (set ys)"
    and "xs \<noteq> [] \<Longrightarrow> (xs @ x # ys) ! (length xs - 1) = Max (set xs)"
proof -
  show l: "\<forall>v \<in> set xs. v < x" and g: "\<forall>v \<in> set ys. x < v"
    using assms by (force simp: sorted_append)+
  show "lower_bound (xs @ x # ys) x = length xs" using l by (simp add: lower_bound_def)
  show "{v \<in> set (xs @ x # ys). x < v} = set ys" "{v \<in> set (xs @ x # ys). v < x} = set xs" using l g by force+
  show "(xs @ x # ys) ! Suc (length xs) = Min (set ys)" if "ys \<noteq> []"
  proof -
    have "Min (set ys) = hd ys"
      by (rule Min_eqI) (use assms(1) that in \<open>auto simp: sorted_append neq_Nil_conv\<close>)
    then show ?thesis using that by (simp add: nth_append hd_conv_nth)
  qed
  show "(xs @ x # ys) ! (length xs - 1) = Max (set xs)" if "xs \<noteq> []"
  proof -
    obtain ws w where xs: "xs = ws @ [w]" using \<open>xs \<noteq> []\<close> by (metis rev_exhaust)
    have "Max (set xs) = w" by (rule Max_eqI) (use assms(1) in \<open>auto simp: sorted_append xs\<close>)
    then show ?thesis by (simp add: xs nth_append)
  qed
qed

text \<open>Adjusting a discrete control goes to the neighbouring value. For supported times without repetitions, in
  whatever order they were given, an image that is too dark selects the smallest supported time above the
  current one, an image that is too bright the greatest one below it, and at either end, or when the brightness is right, the time stays.\<close>

theorem adjust_discrete_outcome:
  assumes "dc_valid c (dc_timeUs c)" and "distinct (dc_values c)"
  shows "let above = {v \<in> set (dc_values c). dc_timeUs c < v}; below = {v \<in> set (dc_values c). v < dc_timeUs c} in
    adjust_discrete rat_db dc_timeUs dc_values dc_set (Inr mean) target c
    = Inr (c\<lparr>dc_timeUs := (if mean < target \<and> above \<noteq> {} then Min above
        else if target < mean \<and> below \<noteq> {} then Max below else dc_timeUs c)\<rparr>)"
proof -
  define above where "above = {v \<in> set (dc_values c). dc_timeUs c < v}"
  define below where "below = {v \<in> set (dc_values c). v < dc_timeUs c}"
  let ?x = "dc_timeUs c" and ?vs = "sort (dc_values c)"
  have "?x \<in> set ?vs" using assms(1) by (simp add: dc_valid_def)
  then obtain xs ys where vs: "?vs = xs @ ?x # ys" by (meson split_list)
  have "sorted (xs @ ?x # ys)" "distinct (xs @ ?x # ys)" using sorted_sort [of "dc_values c"] assms(2) distinct_sort vs by metis+
  note a = sorted_around [OF this]
  have sets: "set (dc_values c) = set (xs @ ?x # ys)" using vs set_sort by metis
  have g: "above = set ys" and s: "below = set xs" using a(4,5) by (simp_all add: above_def below_def sets)
  have p: "time_position ?vs ?x = length xs" by (simp add: time_position_def vs a(3))
  have up: "adjust_discrete rat_db dc_timeUs dc_values dc_set (Inr mean) target c
    = (if mean < target \<and> ys \<noteq> [] then dc_set c ((xs @ ?x # ys) ! Suc (length xs))
       else if target < mean \<and> xs \<noteq> [] then dc_set c ((xs @ ?x # ys) ! (length xs - 1)) else Inr c)"
    unfolding adjust_discrete_def Let_def p sum.case unfolding vs by (simp add: rat_db_def)
  have "dc_set c (Min above) = Inr (c\<lparr>dc_timeUs := Min above\<rparr>)" if "ys \<noteq> []"
    using Min_in [of above] that by (auto simp: dc_set_def dc_valid_def g sets)
  moreover have "dc_set c (Max below) = Inr (c\<lparr>dc_timeUs := Max below\<rparr>)" if "xs \<noteq> []"
    using Max_in [of below] that by (auto simp: dc_set_def dc_valid_def s sets)
  moreover have "c = c\<lparr>dc_timeUs := dc_timeUs c\<rparr>" by simp
  ultimately show ?thesis unfolding up Let_def above_def [symmetric] below_def [symmetric] using a(6,7) g s by (cases "ys = []"; cases "xs = []") auto
qed

theorem adjust_discrete_outcome_witness:
  "adjust_discrete rat_db dc_timeUs dc_values dc_set (Inr 80) 128 \<lparr>dc_mode = FreeRun, dc_values = [250, 1000, 100], dc_timeUs = 250\<rparr>
   = Inr \<lparr>dc_mode = FreeRun, dc_values = [250, 1000, 100], dc_timeUs = 1000\<rparr>"
proof -
  have "{v \<in> {250, 1000, 100}. (250 :: int) < v} = {1000}" by auto
  then show ?thesis
    using adjust_discrete_outcome [of "\<lparr>dc_mode = FreeRun, dc_values = [250, 1000, 100], dc_timeUs = 250\<rparr>" 80 128]
    by (simp add: dc_valid_def)
qed

text \<open>With repetitions the time may stay although a greater one is supported.\<close>

lemma repeated_times_stick:
  "adjust_discrete rat_db dc_timeUs dc_values dc_set (Inr 80) 128 \<lparr>dc_mode = FreeRun, dc_values = [100, 100, 200], dc_timeUs = 100\<rparr>
   = Inr \<lparr>dc_mode = FreeRun, dc_values = [100, 100, 200], dc_timeUs = 100\<rparr>"
  by (simp add: adjust_discrete_def time_position_def lower_bound_def dc_set_def dc_valid_def rat_db_def)

text \<open>An excluded limit is never reached from outside its step: the clamped time is the limit itself, which is not valid.\<close>

lemma excluded_limit_sticks:
  "adjust_range rat_db rc_timeUs rc_range rc_valid rc_set (Inr 80) 128 5
     \<lparr>rc_mode = FreeRun, rc_range = \<lparr>rg_lower = \<lparr>rl_value = 0, rl_inclusive = False\<rparr>, rg_upper = \<lparr>rl_value = 10, rl_inclusive = False\<rparr>\<rparr>, rc_timeUs = 6\<rparr>
   = Some (Inr \<lparr>rc_mode = FreeRun, rc_range = \<lparr>rg_lower = \<lparr>rl_value = 0, rl_inclusive = False\<rparr>, rg_upper = \<lparr>rl_value = 10, rl_inclusive = False\<rparr>\<rparr>, rc_timeUs = 6\<rparr>)"
  by (simp add: adjust_range_def int_fits_def rc_valid_def contains_def rat_db_def Let_def)

section \<open>The example\<close>

definition fixed_image :: "Store \<Rightarrow> Store \<times> (exception + ImageBlock)" where
  "fixed_image st = copyFrom st 4 4 GrayU8 (replicate 16 80)"

definition mean_of :: "'d binary64 \<Rightarrow> Store \<times> (exception + ImageBlock) \<Rightarrow> exception + 'd" where
  "mean_of db acquired = (case acquired of (st, Inl e) \<Rightarrow> Inl e | (st, Inr b) \<Rightarrow> mean_intensity db st b)"

text \<open>The two lines that the example prints, or its exception.\<close>

definition imaging_main :: "'d binary64 \<Rightarrow> (exception + int \<times> int) option" where
  "imaging_main db =
     (case (newRangeControl (range_of 100 10000) 1000, newDiscreteControl [100, 250, 500, 1000, 2000, 5000]) of
        (Inr r, Inr d) \<Rightarrow>
          let first = fixed_image \<lparr>st_next = 0, st_buffers = Map.empty\<rparr>
          in (case adjust_range db rc_timeUs rc_range rc_valid rc_set (mean_of db first) (db_lit db ''128.0'') 250 r of
                None \<Rightarrow> None
              | Some (Inl e) \<Rightarrow> Some (Inl e)
              | Some (Inr r') \<Rightarrow>
                  Some (case adjust_discrete db dc_timeUs dc_values dc_set (mean_of db (fixed_image (fst first))) (db_lit db ''128.0'') d of
                    Inl e \<Rightarrow> Inl e
                  | Inr d' \<Rightarrow> Inr (rc_timeUs r', dc_timeUs d')))
      | (Inl e, _) \<Rightarrow> Some (Inl e)
      | (_, Inl e) \<Rightarrow> Some (Inl e))"

lemma fixed_image_mean: "store_ok st \<Longrightarrow> mean_of rat_db (fixed_image st) = Inr 80 \<and> store_ok (fst (fixed_image st))"
  by (simp add: fixed_image_def copyFrom_def make_exact bytesPerPixel_def rowBytes_def buffer_def blit_def mean_of_def
    mean_exact sizeBytes_def image_bytes_def store_ok_def sum_list_replicate)

lemma imaging_main_result: "imaging_main rat_db = Some (Inr (1250, 250))"
proof -
  let ?first = "fixed_image \<lparr>st_next = 0, st_buffers = Map.empty\<rparr>"
  have "store_ok \<lparr>st_next = 0, st_buffers = Map.empty\<rparr>" by (simp add: store_ok_def)
  then have m: "mean_of rat_db ?first = Inr 80" "mean_of rat_db (fixed_image (fst ?first)) = Inr 80"
    using fixed_image_mean by blast+
  have l: "db_lit rat_db ''128.0'' = 128"
    by (simp add: rat_db_def rat_lit_def nat_of_digits_def is_digit_def in_chars_def code_def digit_val_def)
  show ?thesis
    unfolding imaging_main_def Let_def m l
    by (simp add: newRangeControl_def newDiscreteControl_def adjust_range_def adjust_discrete_def range_of_def contains_def rat_db_def
      int_fits_def rc_valid_def rc_set_def dc_valid_def dc_set_def time_position_def lower_bound_def Let_def)
qed

end
