(* ===== verification/WeatherCipher.thy ===== *)
theory WeatherCipher
  imports BoundedText
begin

text \<open>
  Chapter 18, the two programs around the Ascon library (\<open>ch18_ascon_basics\<close> and \<open>ch18_weather_device\<close>): encryption and decryption
  with associated data, the nodes that encode, encrypt, decrypt and decode the password of the weather service, and the commit
  of a restored password. The library is a git submodule that is not in the repository: its object, its calls and its status codes
  are a record of functions on a state of any type.
\<close>

section \<open>The library\<close>

datatype ascon_status = Absorbed_data | Finalized_data_absorption_phase | Encrypted_plaintext | Finalized_encryption_phase
  | Decrypted_ciphertext | Decryption_success_as_tag_matches | Other_status

record 's ascon_aead128 =
  aa_new :: "bytes \<Rightarrow> bytes \<Rightarrow> 's"
  aa_absorb_data :: "bytes \<Rightarrow> 's \<Rightarrow> 's \<times> ascon_status"
  aa_finalize_data :: "'s \<Rightarrow> 's \<times> ascon_status"
  aa_encrypt_plaintext :: "bytes \<Rightarrow> 's \<Rightarrow> 's \<times> bytes \<times> ascon_status"
  aa_finalize_encrypt :: "'s \<Rightarrow> 's \<times> bytes \<times> ascon_status"
  aa_decrypt_ciphertext :: "bytes \<Rightarrow> 's \<Rightarrow> 's \<times> bytes \<times> ascon_status"
  aa_finalize_decrypt :: "bytes \<Rightarrow> 's \<Rightarrow> 's \<times> ascon_status"

section \<open>The basics\<close>

record EncryptedMessage =
  em_ciphertext :: bytes
  em_tag :: bytes

text \<open>\<open>Inl\<close> is the message of \<open>fail\<close>, which ends the program.\<close>

definition encrypt :: "'s ascon_aead128 \<Rightarrow> bytes \<Rightarrow> bytes \<Rightarrow> bytes \<Rightarrow> bytes \<Rightarrow> string + EncryptedMessage" where
  "encrypt aa plaintext associatedData key nonce =
     (let s0 = aa_new aa key nonce; (s1, r1) = aa_absorb_data aa associatedData s0
      in if r1 \<noteq> Absorbed_data then Inl ''associated data was not accepted''
      else let (s2, r2) = aa_finalize_data aa s1
      in if r2 \<noteq> Finalized_data_absorption_phase then Inl ''associated-data processing could not be finalized''
      else let (s3, ciphertext, r3) = aa_encrypt_plaintext aa plaintext s2
      in if r3 \<noteq> Encrypted_plaintext then Inl ''plaintext could not be encrypted''
      else let (s4, tag, r4) = aa_finalize_encrypt aa s3
      in if r4 \<noteq> Finalized_encryption_phase then Inl ''encryption could not be finalized''
      else Inr \<lparr>em_ciphertext = ciphertext, em_tag = tag\<rparr>)"

text \<open>The result and the plaintext, an out parameter, which is emptied when the tag does not match.\<close>

definition decrypt :: "'s ascon_aead128 \<Rightarrow> bytes \<Rightarrow> bytes \<Rightarrow> bytes \<Rightarrow> bytes \<Rightarrow> bytes \<Rightarrow> string + bool \<times> bytes" where
  "decrypt aa ciphertext associatedData tag key nonce =
     (let s0 = aa_new aa key nonce; (s1, r1) = aa_absorb_data aa associatedData s0
      in if r1 \<noteq> Absorbed_data then Inl ''associated data was not accepted during decryption''
      else let (s2, r2) = aa_finalize_data aa s1
      in if r2 \<noteq> Finalized_data_absorption_phase
      then Inl ''associated-data processing could not be finalized during decryption''
      else let (s3, candidate, r3) = aa_decrypt_ciphertext aa ciphertext s2
      in if r3 \<noteq> Decrypted_ciphertext then Inl ''ciphertext could not be processed''
      else let (s4, r4) = aa_finalize_decrypt aa tag s3; authenticated = (r4 = Decryption_success_as_tag_matches)
      in if \<not> authenticated then Inr (False, []) else Inr (True, candidate))"

definition toBytes :: "string \<Rightarrow> bytes" where "toBytes cs = map (\<lambda>c. of_nat (of_char c)) cs"

definition demo_key :: bytes where "demo_key = [0, 1, 2, 3, 4, 5, 6, 7, 8, 9, 10, 11, 12, 13, 14, 15]"
definition basics_nonce :: bytes where "basics_nonce = map (\<lambda>b. b + 0x10) demo_key"

definition flip_byte :: "nat \<Rightarrow> bytes \<Rightarrow> bytes" where "flip_byte i bs = bs[i := xor (bs ! i) 1]"

text \<open>The exit code and the last line of the program, on either console.\<close>

definition basics_main :: "'s ascon_aead128 \<Rightarrow> int \<times> string" where
  "basics_main aa =
     (let plaintext = toBytes ''The weather station is operational.''; associatedData = toBytes ''Chapter 18 Lab 1''
      in case encrypt aa plaintext associatedData demo_key basics_nonce of
        Inl e \<Rightarrow> (1, ''Ascon operation failed: '' @ e)
      | Inr encrypted \<Rightarrow>
          (case decrypt aa (em_ciphertext encrypted) associatedData (em_tag encrypted) demo_key basics_nonce of
             Inl e \<Rightarrow> (1, ''Ascon operation failed: '' @ e)
           | Inr (False, _) \<Rightarrow> (1, ''Ascon operation failed: the unmodified message did not authenticate'')
           | Inr (True, recovered) \<Rightarrow>
               (case decrypt aa (flip_byte 4 (em_ciphertext encrypted)) associatedData (em_tag encrypted) demo_key basics_nonce of
                  Inl e \<Rightarrow> (1, ''Ascon operation failed: '' @ e)
                | Inr (False, _) \<Rightarrow> (0, ''Plaintext rejected.'')
                | Inr (True, _) \<Rightarrow> (1, ''ERROR: Tampered ciphertext was accepted.''))))"

section \<open>The nodes of the weather device\<close>

definition passwordSize :: nat where "passwordSize = 64"
definition EncodedPasswordSize :: nat where "EncodedPasswordSize = 1 + passwordSize"
definition PasswordMetadata :: bytes where "PasswordMetadata = [1, 0x01, 0x04, of_nat EncodedPasswordSize]"

record EncryptedParameterRecord =
  ep_nonce :: bytes
  ep_associatedData :: bytes
  ep_ciphertext :: bytes
  ep_tag :: bytes

definition encode_node :: "Endianness \<Rightarrow> bounded_string \<Rightarrow> bytes option" where
  "encode_node machine password =
     (let (writer, ok) = writeBds (BinaryWriteStream machine (replicate EncodedPasswordSize 0) Little defaultMaxSizedField) password
      in if \<not> ok \<or> bytesWritten writer \<noteq> EncodedPasswordSize then None else Some (w_buf writer))"

text \<open>The result and the flag \<open>m_wasCalled\<close>.\<close>

definition decode_node :: "Endianness \<Rightarrow> bytes \<Rightarrow> bounded_string option \<times> bool" where
  "decode_node machine encoded =
     (let (reader, password, ok) = readBds passwordSize (BinaryReadStream machine encoded Little defaultMaxSizedField)
            (BoundedAsciiString passwordSize)
      in (if \<not> ok \<or> bytesRead reader \<noteq> length encoded then None else Some password, True))"

definition encrypt_node :: "'s ascon_aead128 \<Rightarrow> bytes \<Rightarrow> bytes \<Rightarrow> bytes \<Rightarrow> EncryptedParameterRecord option" where
  "encrypt_node aa key plaintext nonce =
     (let s0 = aa_new aa key nonce; (s1, r1) = aa_absorb_data aa PasswordMetadata s0
      in if r1 \<noteq> Absorbed_data then None
      else let (s2, r2) = aa_finalize_data aa s1
      in if r2 \<noteq> Finalized_data_absorption_phase then None
      else let (s3, ciphertext, r3) = aa_encrypt_plaintext aa plaintext s2
      in if r3 \<noteq> Encrypted_plaintext then None
      else let (s4, tag, r4) = aa_finalize_encrypt aa s3
      in if r4 \<noteq> Finalized_encryption_phase then None
      else Some \<lparr>ep_nonce = nonce, ep_associatedData = PasswordMetadata, ep_ciphertext = ciphertext, ep_tag = tag\<rparr>)"

definition decrypt_node :: "'s ascon_aead128 \<Rightarrow> bytes \<Rightarrow> EncryptedParameterRecord \<Rightarrow> bytes option" where
  "decrypt_node aa key r =
     (let s0 = aa_new aa key (ep_nonce r); (s1, r1) = aa_absorb_data aa (ep_associatedData r) s0
      in if r1 \<noteq> Absorbed_data then None
      else let (s2, r2) = aa_finalize_data aa s1
      in if r2 \<noteq> Finalized_data_absorption_phase then None
      else let (s3, candidate, r3) = aa_decrypt_ciphertext aa (ep_ciphertext r) s2
      in if r3 \<noteq> Decrypted_ciphertext then None
      else let (s4, r4) = aa_finalize_decrypt aa (ep_tag r) s3; authenticated = (r4 = Decryption_success_as_tag_matches)
      in if \<not> authenticated then None else Some candidate)"

text \<open>The state is the flag of the decoder and the live password.\<close>

definition restorePassword :: "'s ascon_aead128 \<Rightarrow> Endianness \<Rightarrow> bytes \<Rightarrow> EncryptedParameterRecord \<Rightarrow> bool \<times> bounded_string
    \<Rightarrow> (bool \<times> bounded_string) \<times> bool" where
  "restorePassword aa machine key r state =
     (let (wasCalled, livePassword) = state
      in case decrypt_node aa key r of
        None \<Rightarrow> (state, False)
      | Some encoded \<Rightarrow>
          (case decode_node machine encoded of
             (None, called) \<Rightarrow> ((called, livePassword), False)
           | (Some decoded, called) \<Rightarrow> ((called, decoded), True)))"

definition weather_nonce :: bytes where "weather_nonce = map (\<lambda>b. b + 0x20) demo_key"

definition makePassword :: "string \<Rightarrow> string + bounded_string" where
  "makePassword cs = (case bs_make passwordSize (toBytes cs) of
     None \<Rightarrow> Inl ''demonstration password is invalid'' | Some password \<Rightarrow> Inr password)"

text \<open>The program: \<open>Inl\<close> the message with which it fails.\<close>

definition tamper :: "EncryptedParameterRecord \<Rightarrow> EncryptedParameterRecord" where
  "tamper r = r\<lparr>ep_ciphertext := flip_byte 12 (ep_ciphertext r)\<rparr>"

definition weather_main :: "'s ascon_aead128 \<Rightarrow> Endianness \<Rightarrow> string + unit" where
  "weather_main aa machine =
     (case makePassword ''weather-service-demo-password'' of
        Inl e \<Rightarrow> Inl e
      | Inr configured \<Rightarrow>
     (case encode_node machine configured of
        None \<Rightarrow> Inl ''BDS encoding failed''
      | Some encoded \<Rightarrow>
     (case encrypt_node aa demo_key encoded weather_nonce of
        None \<Rightarrow> Inl ''encryption failed''
      | Some r \<Rightarrow>
     (case makePassword ''initial-value'' of
        Inl e \<Rightarrow> Inl e
      | Inr initial \<Rightarrow>
         let ((called, live), restored) = restorePassword aa machine demo_key r (False, initial)
         in if \<not> restored then Inl ''the unmodified password record could not be restored''
            else if live \<noteq> configured then Inl ''the restored password does not match the configured value''
            else (case makePassword ''retain-this-value'' of
                Inl e \<Rightarrow> Inl e
              | Inr retained \<Rightarrow>
                  let ((called', live'), restored') = restorePassword aa machine demo_key (tamper r) (False, retained)
                  in if restored' then Inl ''tampered ciphertext was accepted''
                     else if called' then Inl ''BDS decoder received unauthenticated bytes''
                     else if live' \<noteq> retained then Inl ''authentication failure modified the live password''
                     else Inr ())))))"

section \<open>What is committed\<close>

text \<open>The nodes make the calls of the basic functions.\<close>

lemma encrypt_node_encrypt:
  "encrypt_node aa key p nonce = (case encrypt aa p PasswordMetadata key nonce of Inl e \<Rightarrow> None
     | Inr m \<Rightarrow> Some \<lparr>ep_nonce = nonce, ep_associatedData = PasswordMetadata, ep_ciphertext = em_ciphertext m, ep_tag = em_tag m\<rparr>)"
  by (simp add: encrypt_node_def encrypt_def Let_def split: prod.split)

lemma decrypt_node_decrypt:
  "decrypt_node aa key r = (case decrypt aa (ep_ciphertext r) (ep_associatedData r) (ep_tag r) key (ep_nonce r) of
     Inr (True, p) \<Rightarrow> Some p | _ \<Rightarrow> None)"
  by (simp add: decrypt_node_def decrypt_def Let_def split: prod.split)

lemma encode_node_exact: "bs_wf passwordSize b \<Longrightarrow> encode_node machine b = Some (bs_bytes b)"
proof -
  assume wf: "bs_wf passwordSize b"
  let ?w = "BinaryWriteStream machine (replicate EncodedPasswordSize 0) Little defaultMaxSizedField"
  have l: "length (bs_bytes b) = EncodedPasswordSize" using wf_length [OF wf] by (simp add: EncodedPasswordSize_def)
  have ok: "w_ok (fst (writeBds ?w b))" using l by (simp add: bds.put_ok_iff)
  have "fst (writeBds ?w b) = writeRawBytes ?w (bs_bytes b)" using l by (intro bds.put_raw) simp_all
  also have "\<dots> = ?w\<lparr>w_buf := blit (w_buf ?w) (w_pos ?w) (bs_bytes b), w_pos := w_pos ?w + length (bs_bytes b)\<rparr>"
    using l by (intro raw_fits) simp_all
  finally have f: "fst (writeBds ?w b) = ?w\<lparr>w_buf := bs_bytes b, w_pos := EncodedPasswordSize\<rparr>"
    using l by (simp add: BinaryWriteStream_def)
  have "snd (writeBds ?w b)" using ok by (simp add: writeBds_def Let_def)
  then have "writeBds ?w b = (?w\<lparr>w_buf := bs_bytes b, w_pos := EncodedPasswordSize\<rparr>, True)" using f by (simp add: prod_eq_iff)
  then show ?thesis by (simp add: encode_node_def bytesWritten_def)
qed

lemma decode_node_exact:
  "decode_node machine encoded = (if \<exists>t b. bs_make passwordSize t = Some b \<and> encoded = bs_bytes b
     then (Some \<lparr>bs_size = hd encoded, bs_value = tl encoded\<rparr>, True) else (None, True))"
proof (cases "\<exists>t b. bs_make passwordSize t = Some b \<and> encoded = bs_bytes b")
  case True
  then obtain t b where t: "bs_make passwordSize t = Some b" "encoded = bs_bytes b" by blast
  have wf: "bs_wf passwordSize b" using make_wf(1) [OF _ t(1)] by (simp add: passwordSize_def)
  have "readBds passwordSize (BinaryReadStream machine encoded Little defaultMaxSizedField) (BoundedAsciiString passwordSize)
    = (adv (BinaryReadStream machine encoded Little defaultMaxSizedField) (1 + passwordSize), b, True)"
    by (rule readBds_next [where rest = "[]"]) (use wf t(2) in simp_all)
  then have "decode_node machine encoded = (Some b, True)"
    using wf_length [OF wf] by (simp add: decode_node_def t(2) bytesRead_def)
  then show ?thesis using True t(2) by (simp add: bs_bytes_def)
next
  case False
  obtain r b ok where rd: "readBds passwordSize (BinaryReadStream machine encoded Little defaultMaxSizedField)
      (BoundedAsciiString passwordSize) = (r, b, ok)" by (metis prod_cases3)
  have "\<not> (ok \<and> bytesRead r = length encoded)"
  proof
    assume a: "ok \<and> bytesRead r = length encoded"
    have "bs_make passwordSize (bs_view b) = Some b \<and> bytesRead r = 1 + passwordSize \<and> take (1 + passwordSize) encoded = bs_bytes b"
      using bds_accepts_exactly [where capacity = passwordSize and m = machine and buf = encoded and e = Little
          and mx = defaultMaxSizedField and old = "BoundedAsciiString passwordSize"] a rd
      by (simp add: passwordSize_def)
    then show False using False a by auto
  qed
  then show ?thesis using False rd by (simp add: decode_node_def)
qed

text \<open>The library authenticates a record and gives its bytes: a fresh object of the key and the nonce absorbs the associated
  data, finalizes it, decrypts the ciphertext to these bytes, and reports that the tag matches.\<close>

definition authenticates :: "'s ascon_aead128 \<Rightarrow> bytes \<Rightarrow> EncryptedParameterRecord \<Rightarrow> bytes \<Rightarrow> bool" where
  "authenticates aa key r encoded \<longleftrightarrow> (\<exists>s1 s2 s3 s4.
     aa_absorb_data aa (ep_associatedData r) (aa_new aa key (ep_nonce r)) = (s1, Absorbed_data)
     \<and> aa_finalize_data aa s1 = (s2, Finalized_data_absorption_phase)
     \<and> aa_decrypt_ciphertext aa (ep_ciphertext r) s2 = (s3, encoded, Decrypted_ciphertext)
     \<and> aa_finalize_decrypt aa (ep_tag r) s3 = (s4, Decryption_success_as_tag_matches))"

lemma decrypt_node_iff: "decrypt_node aa key r = Some encoded \<longleftrightarrow> authenticates aa key r encoded"
  by (auto simp: decrypt_node_def authenticates_def Let_def split: prod.splits if_splits)

text \<open>C39: a restored password is committed only after authentication and decoding. Whatever the library answers, the restore
  succeeds exactly when the library accepts the associated data and the ciphertext, reports that the tag matches
  (\<open>authenticates\<close>), and the bytes it gives are the encoding of a text that the
  password type accepts; then that text is the live password, otherwise the live password is unchanged; and the decoder is called
  exactly when the library reports that the tag matches.\<close>

theorem restore_outcome:
  "case restorePassword aa machine key r (called, live) of ((called', live'), ok) \<Rightarrow>
     (ok \<longleftrightarrow> (\<exists>t b. bs_make passwordSize t = Some b \<and> authenticates aa key r (bs_bytes b)))
     \<and> (if ok then bs_make passwordSize (bs_view live') = Some live' \<and> authenticates aa key r (bs_bytes live') else live' = live)
     \<and> (called' \<longleftrightarrow> called \<or> (\<exists>encoded. authenticates aa key r encoded))"
proof (cases "decrypt_node aa key r")
  case (Some encoded)
  note auth = decrypt_node_iff [of aa key r, symmetric, unfolded Some option.inject]
  show ?thesis
  proof (cases "\<exists>t b. bs_make passwordSize t = Some b \<and> encoded = bs_bytes b")
    case True
    then obtain t b where t: "bs_make passwordSize t = Some b" "encoded = bs_bytes b" by blast
    have wf: "bs_wf passwordSize b" using make_wf(1) [OF _ t(1)] by (simp add: passwordSize_def)
    have b: "b = \<lparr>bs_size = hd encoded, bs_value = tl encoded\<rparr>" by (simp add: t(2) bs_bytes_def)
    have "restorePassword aa machine key r (called, live) = ((True, b), True)"
      using Some True by (simp add: restorePassword_def decode_node_exact b)
    then show ?thesis using True t wf_make [OF wf] by (simp add: auth)
  next
    case False
    then have "restorePassword aa machine key r (called, live) = ((True, live), False)"
      using Some by (simp add: restorePassword_def decode_node_exact)
    then show ?thesis using False by (auto simp: auth)
  qed
qed (simp add: restorePassword_def decrypt_node_iff [symmetric])

section \<open>With a correct library\<close>

text \<open>The documented behaviour of the library: what it encrypts it decrypts, under the same key, nonce and
  associated data; and, for the record of the demonstration, that a changed ciphertext does not match the tag.\<close>

definition ascon_correct :: "'s ascon_aead128 \<Rightarrow> bool" where
  "ascon_correct aa \<longleftrightarrow> (\<forall>key nonce ad p. length key = 16 \<longrightarrow> length nonce = 16 \<longrightarrow>
     (\<exists>m. encrypt aa p ad key nonce = Inr m \<and> decrypt aa (em_ciphertext m) ad (em_tag m) key nonce = Inr (True, p)))"

definition rejects_change :: "'s ascon_aead128 \<Rightarrow> nat \<Rightarrow> bytes \<Rightarrow> bytes \<Rightarrow> bytes \<Rightarrow> bool" where
  "rejects_change aa i p ad nonce \<longleftrightarrow> (\<forall>m. encrypt aa p ad demo_key nonce = Inr m \<longrightarrow>
     (\<exists>q. decrypt aa (flip_byte i (em_ciphertext m)) ad (em_tag m) demo_key nonce = Inr (False, q)))"

text \<open>C40: a password that is protected can be restored. With a correct library, every text of at most 64 ASCII characters is encoded, encrypted,
  decrypted and decoded to itself, and is the live password afterwards.\<close>

theorem protect_restore:
  assumes "ascon_correct aa" and "length key = 16" and "length nonce = 16" and "bs_make passwordSize t = Some password"
  shows "\<exists>encoded r. encode_node machine password = Some encoded \<and> length encoded = EncodedPasswordSize
    \<and> encrypt_node aa key encoded nonce = Some r
    \<and> restorePassword aa machine' key r (called, live) = ((True, password), True)"
proof -
  have wf: "bs_wf passwordSize password" using make_wf(1) [OF _ assms(4)] by (simp add: passwordSize_def)
  obtain m where m: "encrypt aa (bs_bytes password) PasswordMetadata key nonce = Inr m"
    "decrypt aa (em_ciphertext m) PasswordMetadata (em_tag m) key nonce = Inr (True, bs_bytes password)"
    using assms(1-3) unfolding ascon_correct_def by blast
  let ?r = "\<lparr>ep_nonce = nonce, ep_associatedData = PasswordMetadata, ep_ciphertext = em_ciphertext m, ep_tag = em_tag m\<rparr>"
  have d: "decode_node machine' (bs_bytes password) = (Some password, True)"
    using assms(4) by (auto simp: decode_node_exact bs_bytes_def)
  show ?thesis
    by (intro exI [of _ "bs_bytes password"] exI [of _ ?r] conjI)
      (use wf_length [OF wf] m d in \<open>simp_all add: encode_node_exact wf EncodedPasswordSize_def encrypt_node_encrypt
        restorePassword_def decrypt_node_decrypt\<close>)
qed

lemma keys [simp]: "length demo_key = 16" "length basics_nonce = 16" "length weather_nonce = 16"
  by (simp_all add: demo_key_def basics_nonce_def weather_nonce_def)

lemma passwords:
  "\<exists>b. bs_make passwordSize (toBytes ''weather-service-demo-password'') = Some b"
  "\<exists>b. bs_make passwordSize (toBytes ''initial-value'') = Some b"
  "\<exists>b. bs_make passwordSize (toBytes ''retain-this-value'') = Some b"
  by (simp_all add: bs_make_def passwordSize_def toBytes_def BoundedAsciiString_def)

text \<open>C0: both programs do what they demonstrate. With a correct library that rejects the changed
  ciphertext, the weather device restores its password, does not call the decoder on the changed record and keeps the live password, and ends
  without a failure; the basic program ends with 0 after rejecting the plaintext.\<close>

theorem demonstrations_succeed:
  assumes "ascon_correct aa" and "\<forall>p. length p = EncodedPasswordSize \<longrightarrow> rejects_change aa 12 p PasswordMetadata weather_nonce"
    and "rejects_change aa 4 (toBytes ''The weather station is operational.'') (toBytes ''Chapter 18 Lab 1'') basics_nonce"
  shows "weather_main aa machine = Inr () \<and> basics_main aa = (0, ''Plaintext rejected.'')"
proof
  obtain c i k where pw: "bs_make passwordSize (toBytes ''weather-service-demo-password'') = Some c"
    "bs_make passwordSize (toBytes ''initial-value'') = Some i" "bs_make passwordSize (toBytes ''retain-this-value'') = Some k"
    using passwords by blast
  have make: "makePassword ''weather-service-demo-password'' = Inr c" "makePassword ''initial-value'' = Inr i"
    "makePassword ''retain-this-value'' = Inr k" by (simp_all only: makePassword_def pw option.case)
  have wf: "bs_wf passwordSize c" using make_wf(1) [OF _ pw(1)] by (simp add: passwordSize_def)
  have l: "length (bs_bytes c) = EncodedPasswordSize" using wf_length [OF wf] by (simp add: EncodedPasswordSize_def)
  obtain m where m: "encrypt aa (bs_bytes c) PasswordMetadata demo_key weather_nonce = Inr m"
    "decrypt aa (em_ciphertext m) PasswordMetadata (em_tag m) demo_key weather_nonce = Inr (True, bs_bytes c)"
    using assms(1) keys unfolding ascon_correct_def by blast
  obtain q where q: "decrypt aa (flip_byte 12 (em_ciphertext m)) PasswordMetadata (em_tag m) demo_key weather_nonce = Inr (False, q)"
    using assms(2) l m(1) unfolding rejects_change_def by blast
  have d: "decode_node machine (bs_bytes c) = (Some c, True)" using pw(1) by (auto simp: decode_node_exact bs_bytes_def)
  show "weather_main aa machine = Inr ()"
    using m q d by (simp add: weather_main_def make encode_node_exact [OF wf] encrypt_node_encrypt restorePassword_def
      decrypt_node_decrypt tamper_def)
next
  let ?p = "toBytes ''The weather station is operational.''" and ?ad = "toBytes ''Chapter 18 Lab 1''"
  obtain m where m: "encrypt aa ?p ?ad demo_key basics_nonce = Inr m"
    "decrypt aa (em_ciphertext m) ?ad (em_tag m) demo_key basics_nonce = Inr (True, ?p)"
    using assms(1) keys unfolding ascon_correct_def by blast
  obtain q where q: "decrypt aa (flip_byte 4 (em_ciphertext m)) ?ad (em_tag m) demo_key basics_nonce = Inr (False, q)"
    using assms(3) m(1) unfolding rejects_change_def by blast
  show "basics_main aa = (0, ''Plaintext rejected.'')"
    unfolding basics_main_def Let_def m(1) sum.case m(2) prod.case bool.case q by simp
qed

section \<open>A library for which the hypotheses hold\<close>

text \<open>Bytes are combined with the first byte of the key, and the tag is the sum of the ciphertext: not a cipher, but a library with the
  laws used.\<close>

definition sum_cipher :: "(u8 \<times> u8) ascon_aead128" where
  "sum_cipher = \<lparr>aa_new = \<lambda>key nonce. (hd key, 0), aa_absorb_data = \<lambda>ad s. (s, Absorbed_data),
     aa_finalize_data = \<lambda>s. (s, Finalized_data_absorption_phase),
     aa_encrypt_plaintext = \<lambda>p (k, t). ((k, sum_list (map (xor k) p)), map (xor k) p, Encrypted_plaintext),
     aa_finalize_encrypt = \<lambda>(k, t). ((k, t), [t], Finalized_encryption_phase),
     aa_decrypt_ciphertext = \<lambda>c (k, t). ((k, sum_list c), map (xor k) c, Decrypted_ciphertext),
     aa_finalize_decrypt = \<lambda>tag (k, t). ((k, t), if tag = [t] then Decryption_success_as_tag_matches else Other_status)\<rparr>"

lemma sum_cipher_calls:
  "encrypt sum_cipher p ad key nonce = Inr \<lparr>em_ciphertext = map (xor (hd key)) p, em_tag = [sum_list (map (xor (hd key)) p)]\<rparr>"
  "decrypt sum_cipher c ad tag key nonce = Inr (if tag = [sum_list c] then (True, map (xor (hd key)) c) else (False, []))"
  by (simp_all add: encrypt_def decrypt_def sum_cipher_def)

lemma sum_cipher_correct: "ascon_correct sum_cipher"
  by (simp add: ascon_correct_def sum_cipher_calls comp_def xor.assoc [symmetric])

lemma sum_list_update_word: "i < length xs \<Longrightarrow> sum_list (xs[i := y]) = sum_list xs - xs ! i + (y :: u8)"
  by (induction xs arbitrary: i) (auto split: nat.split simp: algebra_simps)

lemma sum_cipher_rejects: "i < length p \<Longrightarrow> rejects_change sum_cipher i p ad nonce"
proof -
  assume i: "i < length p"
  have "xor x 1 \<noteq> x" for x :: u8
  proof
    assume "xor x 1 = x"
    then have "xor x (xor x 1) = xor x x" by simp
    then show False by (simp add: xor.assoc [symmetric])
  qed
  then have "sum_list c \<noteq> sum_list (flip_byte i c)" if "i < length c" for c
    using that by (simp add: flip_byte_def sum_list_update_word)
  then show ?thesis using i by (simp add: rejects_change_def sum_cipher_calls)
qed

text \<open>A tag that does not match, and one that matches bytes which are no encoding.\<close>

theorem restore_outcome_witness:
  "restorePassword sum_cipher Little demo_key \<lparr>ep_nonce = [], ep_associatedData = [], ep_ciphertext = [1, 2], ep_tag = [4]\<rparr> (False, b)
     = ((False, b), False)
   \<and> restorePassword sum_cipher Little demo_key \<lparr>ep_nonce = [], ep_associatedData = [], ep_ciphertext = [1, 2], ep_tag = [3]\<rparr> (False, b)
     = ((True, b), False)"
proof -
  have no: "[1, 2] \<noteq> bs_bytes c" if "bs_make passwordSize t = Some c" for t c
    using wf_length [OF make_wf(1) [OF _ that]] by (auto simp: passwordSize_def dest: arg_cong [where f = length])
  show ?thesis
    using restore_outcome [where aa = sum_cipher and machine = Little and key = demo_key and called = False and live = b
        and r = "\<lparr>ep_nonce = [], ep_associatedData = [], ep_ciphertext = [1, 2], ep_tag = [4]\<rparr>"]
      restore_outcome [where aa = sum_cipher and machine = Little and key = demo_key and called = False and live = b
        and r = "\<lparr>ep_nonce = [], ep_associatedData = [], ep_ciphertext = [1, 2], ep_tag = [3]\<rparr>"] no
    by (auto simp: authenticates_def sum_cipher_def demo_key_def split: prod.splits if_splits)
qed

theorem protect_restore_witness:
  "\<exists>t b encoded r. bs_make passwordSize t = Some b \<and> encode_node Little b = Some encoded
     \<and> encrypt_node sum_cipher demo_key encoded weather_nonce = Some r
     \<and> restorePassword sum_cipher Big demo_key r (False, BoundedAsciiString passwordSize) = ((True, b), True)"
proof -
  obtain b where b: "bs_make passwordSize (toBytes ''initial-value'') = Some b" using passwords(2) by blast
  show ?thesis
    using protect_restore [OF sum_cipher_correct keys(1) keys(3) b, of Little Big False "BoundedAsciiString passwordSize"] b by blast
qed

theorem demonstrations_succeed_witness: "weather_main sum_cipher Little = Inr () \<and> basics_main sum_cipher = (0, ''Plaintext rejected.'')"
proof -
  have "\<forall>p. length p = EncodedPasswordSize \<longrightarrow> rejects_change sum_cipher 12 p PasswordMetadata weather_nonce"
    by (simp add: sum_cipher_rejects EncodedPasswordSize_def passwordSize_def)
  moreover have "rejects_change sum_cipher 4 (toBytes ''The weather station is operational.'') (toBytes ''Chapter 18 Lab 1'') basics_nonce"
    by (rule sum_cipher_rejects) (simp add: toBytes_def)
  ultimately show ?thesis using demonstrations_succeed [OF sum_cipher_correct, of Little] by blast
qed

end
