(* ===== verification/ReadinessMonitor.thy ===== *)
theory ReadinessMonitor
  imports Receivers CommandLine
begin

text \<open>
  Chapter 3, \<open>nmea_monitor.cpp\<close>: a program around one \<open>EpollReactor\<close> that prints the NMEA lines of a
  serial device and of a UDP port, prints statistics on a timer, and stops on a timer or on a signal.
  The sources are those of \<open>Receivers\<close>. The kernel is a record of the results of the calls made while
  the program starts, and one entry per \<open>epoll_wait\<close>: an error, or the events with the results of the
  reads that each handler will make. What is written is a list of texts, each with the part of the
  program that wrote it.
\<close>

section \<open>Options\<close>

record MonitorOptions =
  op_udpPort :: "u16 option"
  op_uartDevice :: "string option"
  op_uartBaud :: int
  op_durationSeconds :: int
  op_pollTimeoutMs :: int
  op_statsEverySeconds :: int

definition defaultOptions :: MonitorOptions where
  "defaultOptions = \<lparr>op_udpPort = None, op_uartDevice = None, op_uartBaud = 115200,
     op_durationSeconds = 0, op_pollTimeoutMs = -1, op_statsEverySeconds = 5\<rparr>"

definition parse_port :: "string \<Rightarrow> u16 option" where
  "parse_port s =
     (let (v, rest) = strtol s
      in if rest \<noteq> [] \<or> v < 1 \<or> v > 65535 then None else Some (word_of_int v))"

text \<open>The cast to \<open>int\<close> keeps the low 32 bits.\<close>

definition parse_int :: "string \<Rightarrow> int option" where
  "parse_int s =
     (let (v, rest) = strtol s in if rest \<noteq> [] then None else Some (sint (word_of_int v :: u32)))"

text \<open>One argument: the options and the \<open>showSource\<close> flag, with the arguments that are left.\<close>

datatype arg_step = Accepted MonitorOptions bool "string list" | ShowHelp | Rejected string

definition requires_value :: "string \<Rightarrow> string" where
  "requires_value name = name @ '' requires a value'' @ [LF]"

definition int_option ::
  "string \<Rightarrow> string list \<Rightarrow> (int \<Rightarrow> bool) \<Rightarrow> (int \<Rightarrow> MonitorOptions) \<Rightarrow> bool \<Rightarrow> arg_step" where
  "int_option name rest allowed store shown =
     (let invalid = ''Invalid '' @ name @ '' value'' @ [LF]
      in case rest of
        [] \<Rightarrow> Rejected (requires_value name @ invalid)
      | value # rest' \<Rightarrow>
          (case parse_int value of
             None \<Rightarrow> Rejected invalid
           | Some v \<Rightarrow> if allowed v then Accepted (store v) shown rest' else Rejected invalid))"

definition option_step :: "string \<Rightarrow> string list \<Rightarrow> MonitorOptions \<Rightarrow> bool \<Rightarrow> arg_step" where
  "option_step arg rest options shown =
     (if arg = ''--help'' \<or> arg = ''-h'' then ShowHelp
      else if arg = ''--udp-port'' then
        (case rest of
           [] \<Rightarrow> Rejected (requires_value ''--udp-port'')
         | value # rest' \<Rightarrow>
             (case parse_port value of
                None \<Rightarrow> Rejected (''Invalid --udp-port value: '' @ value @ [LF])
              | Some port \<Rightarrow> Accepted (options\<lparr>op_udpPort := Some port\<rparr>) shown rest'))
      else if arg = ''--uart'' then
        (case rest of
           [] \<Rightarrow> Rejected (requires_value ''--uart'')
         | value # rest' \<Rightarrow> Accepted (options\<lparr>op_uartDevice := Some value\<rparr>) shown rest')
      else if arg = ''--baud'' then
        int_option arg rest (\<lambda>v. True) (\<lambda>v. options\<lparr>op_uartBaud := v\<rparr>) shown
      else if arg = ''--duration'' then
        int_option arg rest (\<lambda>v. v \<ge> 0) (\<lambda>v. options\<lparr>op_durationSeconds := v\<rparr>) shown
      else if arg = ''--poll-ms'' then
        int_option arg rest (\<lambda>v. v \<ge> -1) (\<lambda>v. options\<lparr>op_pollTimeoutMs := v\<rparr>) shown
      else if arg = ''--stats-every'' then
        int_option arg rest (\<lambda>v. v \<ge> 0) (\<lambda>v. options\<lparr>op_statsEverySeconds := v\<rparr>) shown
      else if arg = ''--no-source'' then Accepted options False rest
      else Rejected (''Unknown option: '' @ arg @ [LF]))"

datatype parsed = Parsed MonitorOptions bool | HelpAsked | ParseFailed string

lemma option_step_shorter:
  "option_step arg rest options shown = Accepted options' shown' rest' \<Longrightarrow> length rest' \<le> length rest"
  by (auto simp: option_step_def int_option_def Let_def split: if_splits list.splits option.splits)

definition check_inputs :: "MonitorOptions \<Rightarrow> bool \<Rightarrow> parsed" where
  "check_inputs options shown =
     (if op_udpPort options = None \<and> op_uartDevice options = None
      then ParseFailed (''Specify at least one input: --udp-port <port> or --uart <device>'' @ [LF])
      else Parsed options shown)"

function readiness_options :: "string list \<Rightarrow> MonitorOptions \<Rightarrow> bool \<Rightarrow> parsed" where
  "readiness_options [] options shown = check_inputs options shown"
| "readiness_options (arg # rest) options shown =
     (case option_step arg rest options shown of
        ShowHelp \<Rightarrow> HelpAsked
      | Rejected message \<Rightarrow> ParseFailed message
      | Accepted options' shown' rest' \<Rightarrow> readiness_options rest' options' shown')"
  by pat_completeness auto
termination
  by (relation "measure (length \<circ> fst)") (auto dest!: option_step_shorter)

section \<open>State and output\<close>

record sockaddr_in =
  sin_addr :: u32
  sin_port :: u16

text \<open>\<open>AppContext\<close>: the pointers to the sources are flags, set when the source has been registered.\<close>

record AppContext =
  showSource :: bool
  stopRequested :: bool
  ctx_udp :: bool
  ctx_uart :: bool
  ctx_statsTimer :: bool
  ctx_durationTimer :: bool
  ctx_signalSource :: bool

datatype writer = UartWriter | UdpWriter | Cout | Cerr

record Monitor =
  m_context :: AppContext
  m_reactor :: EpollReactor
  m_udp :: "UdpDatagramReceiver option"
  m_uart :: "UartLineReceiver option"
  m_statsTimer :: "TimerFdSource option"
  m_durationTimer :: "TimerFdSource option"
  m_signalSource :: SignalFdSource
  m_closed :: "int list"
  m_console :: "(writer \<times> string) list"

definition emit :: "writer \<Rightarrow> string \<Rightarrow> Monitor \<Rightarrow> Monitor" where
  "emit w s m = m\<lparr>m_console := m_console m @ [(w, s)]\<rparr>"

definition emits :: "writer \<Rightarrow> string list \<Rightarrow> Monitor \<Rightarrow> Monitor" where
  "emits w ss m = m\<lparr>m_console := m_console m @ map (Pair w) ss\<rparr>"

section \<open>Printing\<close>

text \<open>The text \<open>print_line\<close> writes, none for an empty line.\<close>

definition print_line :: "bool \<Rightarrow> string \<Rightarrow> string \<Rightarrow> string list" where
  "print_line shown heading line =
     (if line = [] then [] else [(if shown then heading @ '' '' else []) @ line @ [LF]])"

text \<open>The loop over the characters of a datagram, with its indices \<open>start\<close> and \<open>i\<close>.\<close>

function datagram_lines :: "string \<Rightarrow> nat \<Rightarrow> nat \<Rightarrow> string list" where
  "datagram_lines chars start i =
     (if i < length chars then
        (if chars ! i = LF \<or> chars ! i = CR
         then (if i > start then [substr chars start (i - start)] else [])
                @ datagram_lines chars (i + 1) (i + 1)
         else datagram_lines chars start (i + 1))
      else if start < length chars then [substr chars start (length chars - start)] else [])"
  by pat_completeness auto
termination by (relation "measure (\<lambda>(chars, start, i). length chars - i)") auto

declare datagram_lines.simps [simp del]

definition udp_prefix :: "(u32 \<Rightarrow> string option) \<Rightarrow> bool \<Rightarrow> sockaddr_in \<Rightarrow> string" where
  "udp_prefix inet_ntop shown src =
     (let printableAddr = (case inet_ntop (sin_addr src) of None \<Rightarrow> ''?'' | Some a \<Rightarrow> a)
      in if shown then ''[udp '' @ printableAddr @ '':'' @ show_nat (unat (sin_port src)) @ '']'' else [])"

definition chars_of :: "bytes \<Rightarrow> string" where
  "chars_of bs = map (\<lambda>b. char_of (unat b)) bs"

definition print_udp_datagram_lines ::
  "(u32 \<Rightarrow> string option) \<Rightarrow> bool \<Rightarrow> bytes \<times> sockaddr_in \<Rightarrow> string list" where
  "print_udp_datagram_lines inet_ntop shown d =
     (case d of (bs, src) \<Rightarrow>
        concat (map (print_line shown (udp_prefix inet_ntop shown src)) (datagram_lines (chars_of bs) 0 0)))"

definition print_port_stats :: "string \<Rightarrow> PortStats \<Rightarrow> string" where
  "print_port_stats name s =
     name @ '': frames='' @ show_nat (unat (frames_received s))
       @ '' bytes='' @ show_nat (unat (bytes_received s))
       @ '' dropped='' @ show_nat (unat (frames_dropped s))
       @ '' read_err='' @ show_nat (unat (read_errors s))
       @ '' overflow='' @ show_nat (unat (overflow_errors s)) @ [LF]"

definition timer_stats :: "string \<Rightarrow> TimerFdSource \<Rightarrow> string" where
  "timer_stats name t =
     name @ '': expirations='' @ show_nat (unat (tm_totalExpirations t))
       @ '' read_errors='' @ show_nat (unat (tm_readErrors t)) @ [LF]"

definition signal_stats :: "SignalFdSource \<Rightarrow> string" where
  "signal_stats s =
     ''signal_fd: signals='' @ show_nat (unat (sg_signalsReceived s))
       @ '' read_errors='' @ show_nat (unat (sg_readErrors s)) @ [LF]"

text \<open>Text for a source that the context points to.\<close>

definition when_set :: "bool \<Rightarrow> ('a \<Rightarrow> string) \<Rightarrow> 'a option \<Rightarrow> string" where
  "when_set pointer f src = (if pointer then (case src of None \<Rightarrow> [] | Some x \<Rightarrow> f x) else [])"

definition print_stats :: "Monitor \<Rightarrow> Monitor" where
  "print_stats m =
     (let c = m_context m
      in emit Cout (''--- stats ---'' @ [LF]
           @ when_set (ctx_udp c) (print_port_stats ''udp'' \<circ> d_stats) (m_udp m)
           @ when_set (ctx_uart c) (print_port_stats ''uart'' \<circ> u_stats) (m_uart m)
           @ when_set (ctx_statsTimer c) (timer_stats ''stats_timer'') (m_statsTimer m)
           @ when_set (ctx_durationTimer c) (timer_stats ''duration_timer'') (m_durationTimer m)
           @ when_set (ctx_signalSource c) signal_stats (Some (m_signalSource m)) @ [LF]) m)"

section \<open>Handlers\<close>

definition request_stop :: "Monitor \<Rightarrow> Monitor" where
  "request_stop m = m\<lparr>m_context := (m_context m)\<lparr>stopRequested := True\<rparr>\<rparr>"

definition on_udp_datagram ::
  "(u32 \<Rightarrow> string option) \<Rightarrow> bytes \<times> sockaddr_in \<Rightarrow> Monitor \<Rightarrow> Monitor" where
  "on_udp_datagram inet_ntop d m =
     emits UdpWriter (print_udp_datagram_lines inet_ntop (showSource (m_context m)) d) m"

definition on_uart_line :: "string \<Rightarrow> Monitor \<Rightarrow> Monitor" where
  "on_uart_line line m = emits UartWriter (print_line (showSource (m_context m)) ''[uart]'' line) m"

definition on_stats_timer :: "u64 \<Rightarrow> Monitor \<Rightarrow> Monitor" where
  "on_stats_timer expirations m =
     print_stats (if expirations > 1
       then emit Cout (''--- timer caught up: expirations='' @ show_nat (unat expirations) @ '' ---'' @ [LF]) m
       else m)"

definition on_duration_timer :: "u64 \<Rightarrow> Monitor \<Rightarrow> Monitor" where
  "on_duration_timer expirations m =
     request_stop (emit Cout (''Duration timer expired. Stopping.'' @ [LF]) m)"

definition on_signal :: "int \<Rightarrow> Monitor \<Rightarrow> Monitor" where
  "on_signal signo m =
     request_stop (emit Cout (''Signal '' @ show_int signo @ '' received through signalfd. Stopping.'' @ [LF]) m)"

text \<open>
  \<open>on_readable\<close> of each source, with its handler. A handler runs before the next read; it matters for
  the statistics, which show the counters of the timer that is being read, so that timer is read one
  result at a time.
\<close>

datatype ready =
    UdpReady "(bytes \<times> sockaddr_in) read_result list"
  | UartReady "string read_result list"
  | StatsReady "u64 read_result list"
  | DurationReady "u64 read_result list"
  | SignalReady "int read_result list"

primrec stats_reads :: "u64 read_result list \<Rightarrow> TimerFdSource \<Rightarrow> Monitor \<Rightarrow> Monitor" where
  "stats_reads [] t m = m"
| "stats_reads (r # rs) t m =
     (let (t1, calls, _) = timer_on_readable t [r];
          m1 = fold on_stats_timer calls (m\<lparr>m_statsTimer := Some t1\<rparr>)
      in case r of RData _ \<Rightarrow> if tm_fd t1 < 0 then m1 else stats_reads rs t1 m1 | _ \<Rightarrow> m1)"

definition dispatch_ready :: "(u32 \<Rightarrow> string option) \<Rightarrow> ready \<Rightarrow> Monitor \<Rightarrow> Monitor" where
  "dispatch_ready inet_ntop src m =
     (case src of
        UdpReady rs \<Rightarrow>
          (case m_udp m of None \<Rightarrow> m | Some d \<Rightarrow>
             (case udp_on_readable d rs of (d', calls, _) \<Rightarrow>
                fold (on_udp_datagram inet_ntop) calls (m\<lparr>m_udp := Some d'\<rparr>)))
      | UartReady rs \<Rightarrow>
          (case m_uart m of None \<Rightarrow> m | Some u \<Rightarrow>
             (case uart_on_readable u rs of (u', calls, _) \<Rightarrow>
                fold on_uart_line calls (m\<lparr>m_uart := Some u'\<rparr>)))
      | StatsReady rs \<Rightarrow> (case m_statsTimer m of None \<Rightarrow> m | Some t \<Rightarrow> stats_reads rs t m)
      | DurationReady rs \<Rightarrow>
          (case m_durationTimer m of None \<Rightarrow> m | Some t \<Rightarrow>
             (case timer_on_readable t rs of (t', calls, _) \<Rightarrow>
                fold on_duration_timer calls (m\<lparr>m_durationTimer := Some t'\<rparr>)))
      | SignalReady rs \<Rightarrow>
          (case signal_on_readable (m_signalSource m) rs of (s', calls, _) \<Rightarrow>
             fold on_signal calls (m\<lparr>m_signalSource := s'\<rparr>)))"

section \<open>The program\<close>

text \<open>The kernel while the program starts: a function of the descriptors where it matters.\<close>

record monitor_os =
  mo_epoll_create :: int
  mo_epoll_ctl :: "int \<Rightarrow> int \<Rightarrow> u32 \<Rightarrow> int"
  mo_signal :: signal_os
  mo_stats_create :: int
  mo_duration_create :: int
  mo_settime :: "timespec \<Rightarrow> timespec \<Rightarrow> int"
  mo_udp :: udp_os
  mo_uart :: uart_os

definition EPOLLIN :: u32 where "EPOLLIN = 1"
definition SIGINT :: int where "SIGINT = 2"
definition SIGTERM :: int where "SIGTERM = 15"

definition addReady :: "monitor_os \<Rightarrow> Monitor \<Rightarrow> int \<Rightarrow> bool" where
  "addReady os m fd = reactor_add (mo_epoll_ctl os) (m_reactor m) fd EPOLLIN"

definition initialMonitor :: "bool \<Rightarrow> Monitor" where
  "initialMonitor shown =
     \<lparr>m_context = \<lparr>showSource = shown, stopRequested = False, ctx_udp = False, ctx_uart = False,
        ctx_statsTimer = False, ctx_durationTimer = False, ctx_signalSource = False\<rparr>,
      m_reactor = EpollReactor 16, m_udp = None, m_uart = None, m_statsTimer = None, m_durationTimer = None,
      m_signalSource = SignalFdSource [SIGINT, SIGTERM] True, m_closed = [], m_console = []\<rparr>"

text \<open>Each step of the start gives \<open>Inl\<close>, after its message, where the program returns 1.\<close>

definition failed :: "string \<Rightarrow> Monitor \<Rightarrow> Monitor + Monitor" where
  "failed message m = Inl (emit Cerr (message @ [LF]) m)"

definition and_then :: "'e + 'a \<Rightarrow> ('a \<Rightarrow> 'e + 'b) \<Rightarrow> 'e + 'b" where
  "and_then r f = (case r of Inl e \<Rightarrow> Inl e | Inr x \<Rightarrow> f x)"

definition start_reactor :: "monitor_os \<Rightarrow> Monitor \<Rightarrow> Monitor + Monitor" where
  "start_reactor os m =
     (let (e, ok) = reactor_open (mo_epoll_create os) (m_reactor m); m1 = m\<lparr>m_reactor := e\<rparr>
      in if \<not> ok then failed ''Failed to open epoll reactor'' m1 else Inr m1)"

definition start_signal :: "monitor_os \<Rightarrow> Monitor \<Rightarrow> Monitor + Monitor" where
  "start_signal os m =
     (let (s, ok) = signal_open (mo_signal os) (m_signalSource m); m1 = m\<lparr>m_signalSource := s\<rparr>
      in if \<not> ok then failed ''Failed to open signalfd source'' m1
         else if \<not> addReady os m1 (sg_fd s) then failed ''Failed to add signalfd source to epoll reactor'' m1
         else Inr (m1\<lparr>m_context := (m_context m1)\<lparr>ctx_signalSource := True\<rparr>\<rparr>))"

definition start_stats :: "monitor_os \<Rightarrow> MonitorOptions \<Rightarrow> Monitor \<Rightarrow> Monitor + Monitor" where
  "start_stats os options m =
     (if op_statsEverySeconds options > 0 then
        (let (t, ok) = timer_open (mo_stats_create os) (TimerFdSource True); m1 = m\<lparr>m_statsTimer := Some t\<rparr>
         in if \<not> ok then failed ''Failed to open stats timerfd source'' m1
            else
              (let (t2, armed, _) =
                     arm_periodic (mo_stats_create os) (mo_settime os) t (op_statsEverySeconds options * 1000);
                   m2 = m1\<lparr>m_statsTimer := Some t2\<rparr>
               in if \<not> armed then failed ''Failed to arm stats timerfd source'' m2
                  else if \<not> addReady os m2 (tm_fd t2)
                  then failed ''Failed to add stats timerfd source to epoll reactor'' m2
                  else Inr (m2\<lparr>m_context := (m_context m2)\<lparr>ctx_statsTimer := True\<rparr>\<rparr>)))
      else Inr m)"

definition start_duration :: "monitor_os \<Rightarrow> MonitorOptions \<Rightarrow> Monitor \<Rightarrow> Monitor + Monitor" where
  "start_duration os options m =
     (if op_durationSeconds options > 0 then
        (let (t, ok) = timer_open (mo_duration_create os) (TimerFdSource True);
             m1 = m\<lparr>m_durationTimer := Some t\<rparr>
         in if \<not> ok then failed ''Failed to open duration timerfd source'' m1
            else
              (let (t2, armed, _) =
                     arm_oneshot (mo_duration_create os) (mo_settime os) t (op_durationSeconds options * 1000);
                   m2 = m1\<lparr>m_durationTimer := Some t2\<rparr>
               in if \<not> armed then failed ''Failed to arm duration timerfd source'' m2
                  else if \<not> addReady os m2 (tm_fd t2)
                  then failed ''Failed to add duration timerfd source to epoll reactor'' m2
                  else Inr (m2\<lparr>m_context := (m_context m2)\<lparr>ctx_durationTimer := True\<rparr>\<rparr>)))
      else Inr m)"

definition start_udp :: "monitor_os \<Rightarrow> MonitorOptions \<Rightarrow> Monitor \<Rightarrow> Monitor + Monitor" where
  "start_udp os options m =
     (case op_udpPort options of
        None \<Rightarrow> Inr m
      | Some port \<Rightarrow>
          (let (d, ok, closed) = udp_open (mo_udp os) (UdpDatagramReceiver port True 2048);
               m1 = m\<lparr>m_udp := Some d, m_closed := m_closed m @ closed\<rparr>
           in if \<not> ok then failed (''Failed to open UDP receiver on port '' @ show_nat (unat port)) m1
              else if \<not> addReady os m1 (d_fd d) then failed ''Failed to add UDP receiver to epoll reactor'' m1
              else Inr (emit Cout (''Listening on UDP port '' @ show_nat (unat (d_localPort d)) @ [LF])
                     (m1\<lparr>m_context := (m_context m1)\<lparr>ctx_udp := True\<rparr>\<rparr>))))"

definition start_uart :: "monitor_os \<Rightarrow> MonitorOptions \<Rightarrow> Monitor \<Rightarrow> Monitor + Monitor" where
  "start_uart os options m =
     (case op_uartDevice options of
        None \<Rightarrow> Inr m
      | Some device \<Rightarrow>
          (let (u, ok, closed) = uart_open (mo_uart os) (UartLineReceiver (op_uartBaud options) True 128);
               m1 = m\<lparr>m_uart := Some u, m_closed := m_closed m @ closed\<rparr>
           in if \<not> ok then failed (''Failed to open UART device '' @ device) m1
              else if \<not> addReady os m1 (u_fd u) then failed ''Failed to add UART receiver to epoll reactor'' m1
              else Inr (emit Cout (''Listening on UART '' @ device @ '' @ '' @ show_int (op_uartBaud options)
                       @ '' baud'' @ [LF]) (m1\<lparr>m_context := (m_context m1)\<lparr>ctx_uart := True\<rparr>\<rparr>))))"

definition announce :: "MonitorOptions \<Rightarrow> Monitor \<Rightarrow> Monitor" where
  "announce options m =
     emits Cout
       ((if op_statsEverySeconds options > 0
         then [''Stats timer every '' @ show_int (op_statsEverySeconds options) @ '' second(s)'' @ [LF]] else [])
        @ (if op_durationSeconds options > 0
           then [''Duration timer set for '' @ show_int (op_durationSeconds options) @ '' second(s)'' @ [LF]] else [])
        @ [''Waiting for NMEA input. Press Ctrl-C to stop.'' @ [LF]]) m"

definition start_monitor :: "monitor_os \<Rightarrow> MonitorOptions \<Rightarrow> bool \<Rightarrow> Monitor + Monitor" where
  "start_monitor os options shown =
     and_then (start_reactor os (initialMonitor shown)) (\<lambda>m.
     and_then (start_signal os m) (\<lambda>m.
     and_then (start_stats os options m) (\<lambda>m.
     and_then (start_duration os options m) (\<lambda>m.
     and_then (start_udp os options m) (\<lambda>m.
     and_then (start_uart os options m) (\<lambda>m.
     Inr (announce options m)))))))"

text \<open>
  The loop; one entry per call of \<open>epoll_wait\<close>. No exit code means that the program waits for the
  next event.
\<close>

primrec monitor_loop ::
  "(u32 \<Rightarrow> string option) \<Rightarrow> int \<Rightarrow> (errno + ready option list) list \<Rightarrow> Monitor \<Rightarrow> int option \<times> Monitor"
where
  "monitor_loop inet_ntop timeout [] m =
     (if stopRequested (m_context m) then (Some 0, print_stats m) else (None, m))"
| "monitor_loop inet_ntop timeout (wait # waits) m =
     (if stopRequested (m_context m) then (Some 0, print_stats m)
      else (case poll_once (\<lambda>_ _. wait) (dispatch_ready inet_ntop) (m_reactor m) timeout m of
              (dispatched, m1) \<Rightarrow>
                if dispatched < 0 then (Some 1, emit Cerr (''epoll_wait failed'' @ [LF]) m1)
                else monitor_loop inet_ntop timeout waits m1))"

text \<open>The destructors of the locals of \<open>main\<close>, last declared first.\<close>

definition destroyed :: "('a \<Rightarrow> int) \<Rightarrow> 'a option \<Rightarrow> int list" where
  "destroyed f src = (case src of None \<Rightarrow> [] | Some x \<Rightarrow> snd (close_fd (f x)))"

definition release :: "Monitor \<Rightarrow> int list" where
  "release m =
     m_closed m @ destroyed sg_fd (Some (m_signalSource m))
       @ destroyed tm_fd (m_durationTimer m) @ destroyed tm_fd (m_statsTimer m)
       @ destroyed u_fd (m_uart m) @ destroyed d_fd (m_udp m) @ snd (reactor_destroy (m_reactor m))"

text \<open>\<open>main\<close>: the exit code, what was written and the descriptors closed. The usage text is a parameter.\<close>

definition readiness_main ::
  "monitor_os \<Rightarrow> (u32 \<Rightarrow> string option) \<Rightarrow> string \<Rightarrow> (errno + ready option list) list \<Rightarrow> string list
    \<Rightarrow> int option \<times> (writer \<times> string) list \<times> int list" where
  "readiness_main os inet_ntop usage waits args =
     (case readiness_options args defaultOptions True of
        HelpAsked \<Rightarrow> (Some 0, [(Cout, usage)], [])
      | ParseFailed message \<Rightarrow> (Some 2, [(Cerr, message), (Cout, usage)], [])
      | Parsed options shown \<Rightarrow>
          (case start_monitor os options shown of
             Inl m \<Rightarrow> (Some 1, m_console m, release m)
           | Inr m0 \<Rightarrow>
               (case monitor_loop inet_ntop (op_pollTimeoutMs options) waits m0 of
                  (exit, m) \<Rightarrow> (exit, m_console m, if exit = None then [] else release m))))"

section \<open>What a run handles\<close>

text \<open>
  The specification of the loop: the events that are dispatched, and the exit code. The batch in which
  the request to stop arrives is dispatched to its end.
\<close>

fun is_data :: "'a read_result \<Rightarrow> bool" where
  "is_data (RData x) = True"
| "is_data r = False"

definition stop_event :: "bool \<Rightarrow> ready \<Rightarrow> bool" where
  "stop_event timed src \<longleftrightarrow> (case src of
      SignalReady rs \<Rightarrow> received rs \<noteq> []
    | DurationReady rs \<Rightarrow> timed \<and> received rs \<noteq> []
    | _ \<Rightarrow> False)"

definition present :: "'a option list \<Rightarrow> 'a list" where
  "present es = concat (map (case_option [] (\<lambda>x. [x])) es)"

fun handled :: "bool \<Rightarrow> (errno + ready option list) list \<Rightarrow> ready list \<times> int option" where
  "handled timed [] = ([], None)"
| "handled timed (Inl e # waits) = (if e = EINTR then handled timed waits else ([], Some 1))"
| "handled timed (Inr es # waits) =
     (if list_ex (stop_event timed) (present es) then (present es, Some 0)
      else (present es @ fst (handled timed waits), snd (handled timed waits)))"

text \<open>The bytes of the serial device, and the datagrams as far as they fit the buffer.\<close>

definition uart_in :: "ready \<Rightarrow> string" where
  "uart_in src = (case src of UartReady rs \<Rightarrow> concat (received rs) | _ \<Rightarrow> [])"

definition udp_in :: "ready \<Rightarrow> (bytes \<times> sockaddr_in) list" where
  "udp_in src = (case src of
      UdpReady rs \<Rightarrow> takeWhile (\<lambda>d. fst d \<noteq> []) (map (\<lambda>(b, from). (take 2048 b, from)) (received rs))
    | _ \<Rightarrow> [])"

definition console_of :: "writer \<Rightarrow> Monitor \<Rightarrow> string list" where
  "console_of w m = map snd (filter (\<lambda>e. fst e = w) (m_console m))"

section \<open>The lines of a datagram\<close>

definition ends_to_LF :: "string \<Rightarrow> string" where
  "ends_to_LF s = map (\<lambda>c. if c = CR then LF else c) s"

lemma datagram_lines_sep:
  "i < length chars \<Longrightarrow> chars ! i = LF \<or> chars ! i = CR \<Longrightarrow>
    datagram_lines chars start i =
      (if i > start then [substr chars start (i - start)] else []) @ datagram_lines chars (Suc i) (Suc i)"
  by (subst datagram_lines.simps) simp

lemma datagram_lines_char:
  "i < length chars \<Longrightarrow> \<not> (chars ! i = LF \<or> chars ! i = CR) \<Longrightarrow>
    datagram_lines chars start i = datagram_lines chars start (Suc i)"
  by (subst datagram_lines.simps) simp

lemma datagram_lines_end:
  "datagram_lines chars start (length chars) =
     (if start < length chars then [substr chars start (length chars - start)] else [])"
  by (subst datagram_lines.simps) simp

lemma ends_to_LF_plain: "LF \<notin> set w \<Longrightarrow> CR \<notin> set w \<Longrightarrow> ends_to_LF w = w"
  by (auto simp: ends_to_LF_def intro!: map_idI)

text \<open>\<open>w\<close> is the part of the current line already passed.\<close>

lemma datagram_lines_split:
  assumes "LF \<notin> set w" "CR \<notin> set w"
  shows "datagram_lines (pre @ w @ rest) (length pre) (length pre + length w)
     = filter (\<lambda>l. l \<noteq> []) (split LF (w @ ends_to_LF rest))"
  using assms
proof (induction rest arbitrary: pre w)
  case Nil
  have "datagram_lines (pre @ w) (length pre) (length (pre @ w)) = (if w = [] then [] else [w])"
    by (simp only: datagram_lines_end) (simp add: substr_def)
  then show ?case using Nil by (simp add: ends_to_LF_def split_no_sep)
next
  case (Cons c rest)
  let ?cs = "pre @ w @ c # rest"
  have i: "length pre + length w < length ?cs" "?cs ! (length pre + length w) = c"
    by (simp_all add: nth_append)
  show ?case
  proof (cases "c = LF \<or> c = CR")
    case True
    have "datagram_lines ?cs (length pre) (length pre + length w)
        = (if w = [] then [] else [w]) @ datagram_lines ?cs (Suc (length pre + length w)) (Suc (length pre + length w))"
      using datagram_lines_sep [OF i(1), unfolded i(2), OF True, of "length pre"] by (simp add: substr_def)
    moreover have "datagram_lines ?cs (Suc (length pre + length w)) (Suc (length pre + length w))
        = filter (\<lambda>l. l \<noteq> []) (split LF (ends_to_LF rest))"
      using Cons.IH [of "[]" "pre @ w @ [c]"] by simp
    moreover have "split LF (w @ ends_to_LF (c # rest)) = w # split LF (ends_to_LF rest)"
      using True Cons.prems(1) by (auto simp: ends_to_LF_def split_append_sep)
    ultimately show ?thesis by simp
  next
    case False
    have "datagram_lines ?cs (length pre) (length pre + length w)
        = datagram_lines ?cs (length pre) (length pre + length (w @ [c]))"
      using datagram_lines_char [OF i(1), unfolded i(2), OF False, of "length pre"] by simp
    then show ?thesis
      using Cons.IH [of "w @ [c]" pre] Cons.prems False by (auto simp: ends_to_LF_def)
  qed
qed

lemma datagram_lines_eq:
  "datagram_lines chars 0 0 = filter (\<lambda>l. l \<noteq> []) (split LF (ends_to_LF chars))"
  using datagram_lines_split [of "[]" "[]" chars] by simp

section \<open>The reads of each source\<close>

text \<open>No call carries an empty line.\<close>

lemma uart_feed_lines: "list_all (\<lambda>l. l \<noteq> []) (snd (uart_feed u s))"
  by (induction s arbitrary: u) (auto simp: Let_def split_beta accept_byte_def split: if_splits)

definition fits :: "nat \<Rightarrow> bytes \<times> 'a \<Rightarrow> bytes \<times> 'a" where
  "fits k d = (take k (fst d), snd d)"

lemma udp_loop_received:
  assumes "d_handler d"
  shows "fst (snd (udp_loop d rs))
      = takeWhile (\<lambda>g. fst g \<noteq> []) (map (fits (length (d_buffer d))) (received rs))
    \<and> d_handler (fst (udp_loop d rs)) \<and> length (d_buffer (fst (udp_loop d rs))) = length (d_buffer d)"
  using assms
proof (induction rs arbitrary: d)
  case (Cons r rs)
  show ?case
  proof (cases r)
    case (RData g)
    obtain b src where g: "g = (b, src)" by fastforce
    let ?stored = "take (length (d_buffer d)) b"
    let ?d1 = "d\<lparr>d_buffer := blit (d_buffer d) 0 ?stored, d_stats := (d_stats d)
        \<lparr>bytes_received := bytes_received (d_stats d) + of_nat (length ?stored),
         frames_received := frames_received (d_stats d) + 1\<rparr>\<rparr>"
    have len: "length (d_buffer ?d1) = length (d_buffer d)" by simp
    have "take (length ?stored) (d_buffer ?d1) = ?stored"
      by (simp add: blit_def) (simp add: min_def)
    then show ?thesis
      using Cons.IH [of ?d1] Cons.prems len
      by (simp add: RData g Let_def split_beta fits_def)
  qed (use Cons.prems in simp_all)
qed simp

lemma timer_loop_received:
  "tm_handler t \<Longrightarrow> fst (snd (timer_loop t rs)) = received rs \<and> tm_handler (fst (timer_loop t rs))"
proof (induction rs arbitrary: t)
  case (Cons r rs)
  then show ?case by (cases r) (simp_all add: Let_def split_beta)
qed simp

lemma signal_loop_received:
  "sg_handler s \<Longrightarrow> fst (snd (signal_loop s rs)) = received rs \<and> sg_handler (fst (signal_loop s rs))"
proof (induction rs arbitrary: s)
  case (Cons r rs)
  then show ?case by (cases r) (simp_all add: Let_def split_beta)
qed simp

section \<open>What a handler changes\<close>

lemma emit_fields [simp]:
  "m_context (emit w s m) = m_context m" "m_reactor (emit w s m) = m_reactor m" "m_udp (emit w s m) = m_udp m"
  "m_uart (emit w s m) = m_uart m" "m_statsTimer (emit w s m) = m_statsTimer m"
  "m_durationTimer (emit w s m) = m_durationTimer m" "m_signalSource (emit w s m) = m_signalSource m"
  "m_closed (emit w s m) = m_closed m"
  "console_of v (emit w s m) = console_of v m @ (if v = w then [s] else [])"
  by (simp_all add: emit_def console_of_def)

lemma emits_fields [simp]:
  "m_context (emits w ss m) = m_context m" "m_reactor (emits w ss m) = m_reactor m" "m_udp (emits w ss m) = m_udp m"
  "m_uart (emits w ss m) = m_uart m" "m_statsTimer (emits w ss m) = m_statsTimer m"
  "m_durationTimer (emits w ss m) = m_durationTimer m" "m_signalSource (emits w ss m) = m_signalSource m"
  "m_closed (emits w ss m) = m_closed m"
  "console_of v (emits w ss m) = console_of v m @ (if v = w then ss else [])"
  by (simp_all add: emits_def console_of_def filter_map comp_def)

lemma console_of_update [simp]:
  "console_of v (m_udp_update f m) = console_of v m" "console_of v (m_uart_update g m) = console_of v m"
  "console_of v (m_statsTimer_update h m) = console_of v m"
  "console_of v (m_durationTimer_update h m) = console_of v m"
  "console_of v (m_signalSource_update k m) = console_of v m"
  "console_of v (m_context_update c m) = console_of v m"
  "console_of v (m_reactor_update e m) = console_of v m"
  "console_of v (m_closed_update l m) = console_of v m"
  by (simp_all add: console_of_def)

text \<open>All but the timer of the statistics and the text of the program itself.\<close>

definition core where
  "core m = (m_context m, m_reactor m, m_udp m, m_uart m, m_durationTimer m, m_signalSource m,
     console_of UartWriter m, console_of UdpWriter m)"

lemma core_emit [simp]: "core (emit Cout s m) = core m" "core (emit Cerr s m) = core m"
  by (simp_all add: core_def)

lemma core_stats [simp]:
  "core (print_stats m) = core m" "core (on_stats_timer e m) = core m"
  by (simp_all add: print_stats_def on_stats_timer_def Let_def)

lemma core_fold_stats [simp]: "core (fold on_stats_timer es m) = core m"
  by (induction es arbitrary: m) simp_all

lemma core_stats_reads: "core (stats_reads rs t m) = core m"
proof (induction rs arbitrary: t m)
  case (Cons r rs)
  have "core (m\<lparr>m_statsTimer := x\<rparr>) = core m" for x by (simp add: core_def)
  then show ?case by (simp add: Cons.IH Let_def split_beta split: read_result.split)
qed simp

lemma fold_uart:
  "fold on_uart_line ls m
     = emits UartWriter (concat (map (print_line (showSource (m_context m)) ''[uart]'') ls)) m"
proof (induction ls arbitrary: m)
  case (Cons l ls)
  then show ?case by (simp add: on_uart_line_def) (simp add: emits_def)
qed (simp add: emits_def)

lemma fold_udp:
  "fold (on_udp_datagram ntop) ds m
     = emits UdpWriter (concat (map (print_udp_datagram_lines ntop (showSource (m_context m))) ds)) m"
proof (induction ds arbitrary: m)
  case (Cons l ls)
  then show ?case by (simp add: on_udp_datagram_def) (simp add: emits_def)
qed (simp add: emits_def)

definition stopping :: "bool \<Rightarrow> Monitor \<Rightarrow> Monitor" where
  "stopping b m = (if b then request_stop m else m)"

lemma fold_stop:
  "core (fold on_duration_timer es m) = core (stopping (es \<noteq> []) m)"
  "core (fold on_signal ss m) = core (stopping (ss \<noteq> []) m)"
proof (induction es arbitrary: m)
  case (Cons e es)
  { case 1 then show ?case
      using Cons.IH(1) [of "on_duration_timer e m"]
      by (simp add: core_def stopping_def request_stop_def on_duration_timer_def split: if_splits) }
  { case 2 then show ?case by (rule Cons.IH(2)) }
next
  case Nil
  { case 1 then show ?case by (simp add: stopping_def) }
  { case 2 show ?case
      by (induction ss arbitrary: m) (auto simp: core_def stopping_def request_stop_def on_signal_def) }
qed

section \<open>Invariant of the loop\<close>

text \<open>All sources that exist are open, registered once, and have their handlers.\<close>

definition running :: "bool \<Rightarrow> bool \<Rightarrow> Monitor \<Rightarrow> bool" where
  "running shown timed m \<longleftrightarrow>
     er_fd (m_reactor m) \<ge> 0 \<and> er_capacity (m_reactor m) > 0
   \<and> sg_fd (m_signalSource m) \<ge> 0 \<and> sg_handler (m_signalSource m)
   \<and> showSource (m_context m) = shown
   \<and> (case m_durationTimer m of None \<Rightarrow> \<not> timed | Some t \<Rightarrow> timed \<and> tm_fd t \<ge> 0 \<and> tm_handler t)
   \<and> (case m_udp m of None \<Rightarrow> True
      | Some d \<Rightarrow> d_fd d \<ge> 0 \<and> d_handler d \<and> length (d_buffer d) = 2048)
   \<and> (case m_uart m of None \<Rightarrow> True | Some u \<Rightarrow> u_fd u \<ge> 0 \<and> u_handler u)"

definition uart_state :: "Monitor \<Rightarrow> UartLineReceiver option" where
  "uart_state m = map_option erase (m_uart m)"

text \<open>What the serial device has received decides its state and what is printed for it.\<close>

definition uart_fed :: "UartLineReceiver option \<Rightarrow> string \<Rightarrow> UartLineReceiver option" where
  "uart_fed u s = map_option (\<lambda>u. erase (fst (uart_feed u s))) u"

definition uart_text :: "bool \<Rightarrow> UartLineReceiver option \<Rightarrow> string \<Rightarrow> string list" where
  "uart_text shown u s = (case u of None \<Rightarrow> []
     | Some u \<Rightarrow> concat (map (print_line shown ''[uart]'') (snd (uart_feed u s))))"

definition advanced ::
  "(u32 \<Rightarrow> string option) \<Rightarrow> bool \<Rightarrow> bool \<Rightarrow> string \<Rightarrow> (bytes \<times> sockaddr_in) list \<Rightarrow> bool \<Rightarrow> Monitor \<Rightarrow> Monitor \<Rightarrow> bool"
where
  "advanced ntop shown timed s ds stop m m' \<longleftrightarrow>
     running shown timed m'
   \<and> stopRequested (m_context m') = (stopRequested (m_context m) \<or> stop)
   \<and> (m_udp m' = None) = (m_udp m = None)
   \<and> uart_state m' = uart_fed (uart_state m) s
   \<and> console_of UartWriter m' = console_of UartWriter m @ uart_text shown (uart_state m) s
   \<and> console_of UdpWriter m' = console_of UdpWriter m
       @ (if m_udp m = None then [] else concat (map (print_udp_datagram_lines ntop shown) ds))"

lemma erase_feed:
  "snd (uart_feed (erase u) s) = snd (uart_feed u s)"
  "erase (fst (uart_feed (erase u) s)) = erase (fst (uart_feed u s))"
  using feed_erase [of "erase u" u s] by (simp_all add: erase_def)

lemma erase_idem [simp]: "erase (erase u) = erase u"
  by (simp add: erase_def)

lemma uart_fed_append: "uart_fed (uart_fed u s) s' = uart_fed u (s @ s')"
  by (cases u) (simp_all add: uart_fed_def erase_feed feed_append split_beta)

lemma uart_text_append: "uart_text shown u (s @ s') = uart_text shown u s @ uart_text shown (uart_fed u s) s'"
  by (cases u) (simp_all add: uart_fed_def uart_text_def erase_feed feed_append split_beta)

lemma uart_nothing [simp]:
  "uart_text shown u [] = []" "uart_fed (uart_state m) [] = uart_state m"
  by (simp_all add: uart_text_def uart_fed_def uart_state_def option.map_comp comp_def split: option.split)

lemma advanced_refl: "running shown timed m \<Longrightarrow> advanced ntop shown timed [] [] False m m"
  by (simp add: advanced_def)

lemma advanced_trans:
  assumes "advanced ntop shown timed s ds b m m'" "advanced ntop shown timed s' ds' b' m' m''"
  shows "advanced ntop shown timed (s @ s') (ds @ ds') (b \<or> b') m m''"
  using assms by (auto simp: advanced_def uart_fed_append uart_text_append)

lemma same_core:
  assumes "running shown timed m" "core m' = core m"
  shows "advanced ntop shown timed [] [] False m m'"
proof -
  from assms(2) have "m_context m' = m_context m" "m_reactor m' = m_reactor m" "m_udp m' = m_udp m"
    "m_uart m' = m_uart m" "m_durationTimer m' = m_durationTimer m" "m_signalSource m' = m_signalSource m"
    "console_of UartWriter m' = console_of UartWriter m" "console_of UdpWriter m' = console_of UdpWriter m"
    by (simp_all add: core_def)
  then show ?thesis using assms(1) by (simp add: advanced_def running_def uart_state_def [symmetric])
      (simp add: uart_state_def)
qed

lemma advanced_core:
  "core m'' = core m' \<Longrightarrow> advanced ntop shown timed s ds b m m' \<Longrightarrow> advanced ntop shown timed s ds b m m''"
  by (simp add: core_def advanced_def running_def uart_state_def)

lemma dispatch_uart:
  assumes "running shown timed m"
  shows "advanced ntop shown timed (concat (received rs)) [] False m (dispatch_ready ntop (UartReady rs) m)"
proof (cases "m_uart m")
  case None
  then show ?thesis using advanced_refl [OF assms]
    by (simp add: dispatch_ready_def advanced_def uart_state_def uart_fed_def uart_text_def)
next
  case (Some u)
  have u: "0 \<le> u_fd u" "u_handler u" using assms Some by (simp_all add: running_def)
  obtain u' calls rest where l: "uart_loop u rs = (u', calls, rest)" by (cases "uart_loop u rs") auto
  have l': "calls = snd (uart_feed u (concat (received rs)))" "erase u' = erase (fst (uart_feed u (concat (received rs))))"
    using uart_loop_received [of u rs] by (simp_all add: l)
  have "u_handler u' = u_handler (fst (uart_feed u (concat (received rs))))"
    using arg_cong [OF l'(2), of u_handler] by (simp add: erase_def)
  moreover have "u_fd u' = u_fd u" using uart_loop_frame [of u rs] by (simp add: l)
  ultimately show ?thesis
    using assms u l' Some
    by (simp add: dispatch_ready_def uart_on_readable_def l fold_uart advanced_def running_def
          uart_state_def uart_fed_def uart_text_def erase_feed)
qed

lemma dispatch_udp:
  assumes "running shown timed m"
  shows "advanced ntop shown timed [] (takeWhile (\<lambda>g. fst g \<noteq> []) (map (fits 2048) (received rs))) False m
     (dispatch_ready ntop (UdpReady rs) m)"
proof (cases "m_udp m")
  case None
  then show ?thesis using advanced_refl [OF assms] by (simp add: dispatch_ready_def advanced_def)
next
  case (Some d)
  have d: "0 \<le> d_fd d" "d_handler d" "length (d_buffer d) = 2048" using assms Some by (simp_all add: running_def)
  obtain d' calls rest where l: "udp_loop d rs = (d', calls, rest)" by (cases "udp_loop d rs") auto
  have "calls = takeWhile (\<lambda>g. fst g \<noteq> []) (map (fits 2048) (received rs))" "d_handler d'" "length (d_buffer d') = 2048"
    using udp_loop_received [OF d(2), of rs] d(3) by (simp_all add: l)
  moreover have "d_fd d' = d_fd d" using udp_loop_frame [of d rs] by (simp add: l)
  moreover have "uart_state (emits UdpWriter ss (m\<lparr>m_udp := Some d'\<rparr>)) = uart_state m" for ss
    by (simp add: uart_state_def)
  ultimately show ?thesis
    using assms d Some
    by (simp add: dispatch_ready_def udp_on_readable_def l fold_udp advanced_def running_def)
qed

lemma dispatch_duration:
  assumes "running shown timed m"
  shows "advanced ntop shown timed [] [] (timed \<and> received rs \<noteq> []) m (dispatch_ready ntop (DurationReady rs) m)"
proof (cases "m_durationTimer m")
  case None
  then show ?thesis using advanced_refl [OF assms] assms
    by (simp add: dispatch_ready_def advanced_def running_def)
next
  case (Some t)
  have t: "0 \<le> tm_fd t" "tm_handler t" "timed" using assms Some by (simp_all add: running_def)
  obtain t' calls rest where l: "timer_loop t rs = (t', calls, rest)" by (cases "timer_loop t rs") auto
  have calls: "calls = received rs" "tm_handler t'" using timer_loop_received [OF t(2), of rs] by (simp_all add: l)
  have fd: "tm_fd t' = tm_fd t" using timer_loop_frame [of t rs] by (simp add: l)
  show ?thesis
  proof (rule advanced_core)
    show "core (dispatch_ready ntop (DurationReady rs) m)
        = core (stopping (received rs \<noteq> []) (m\<lparr>m_durationTimer := Some t'\<rparr>))"
      using t Some by (simp add: dispatch_ready_def timer_on_readable_def l fold_stop calls)
    have "uart_state (stopping b (m\<lparr>m_durationTimer := Some t'\<rparr>)) = uart_state m" for b
      by (simp add: uart_state_def stopping_def request_stop_def)
    then show "advanced ntop shown timed [] [] (timed \<and> received rs \<noteq> []) m
        (stopping (received rs \<noteq> []) (m\<lparr>m_durationTimer := Some t'\<rparr>))"
      using assms t calls(2) fd Some by (simp add: advanced_def running_def) (simp add: stopping_def request_stop_def)
  qed
qed

lemma dispatch_signal:
  assumes "running shown timed m"
  shows "advanced ntop shown timed [] [] (received rs \<noteq> []) m (dispatch_ready ntop (SignalReady rs) m)"
proof -
  have s: "0 \<le> sg_fd (m_signalSource m)" "sg_handler (m_signalSource m)" using assms by (simp_all add: running_def)
  obtain s' calls rest where l: "signal_loop (m_signalSource m) rs = (s', calls, rest)"
    by (cases "signal_loop (m_signalSource m) rs") auto
  have calls: "calls = received rs" "sg_handler s'" using signal_loop_received [OF s(2), of rs] by (simp_all add: l)
  have fd: "sg_fd s' = sg_fd (m_signalSource m)" using signal_loop_frame [of "m_signalSource m" rs] by (simp add: l)
  show ?thesis
  proof (rule advanced_core)
    show "core (dispatch_ready ntop (SignalReady rs) m)
        = core (stopping (received rs \<noteq> []) (m\<lparr>m_signalSource := s'\<rparr>))"
      using s by (simp add: dispatch_ready_def signal_on_readable_def l fold_stop calls)
    have "uart_state (stopping b (m\<lparr>m_signalSource := s'\<rparr>)) = uart_state m" for b
      by (simp add: uart_state_def stopping_def request_stop_def)
    then show "advanced ntop shown timed [] [] (received rs \<noteq> []) m
        (stopping (received rs \<noteq> []) (m\<lparr>m_signalSource := s'\<rparr>))"
      using assms s calls(2) fd by (simp add: advanced_def running_def) (simp add: stopping_def request_stop_def)
  qed
qed

lemma dispatch_stats:
  assumes "running shown timed m"
  shows "advanced ntop shown timed [] [] False m (dispatch_ready ntop (StatsReady rs) m)"
proof (cases "m_statsTimer m")
  case None
  then show ?thesis using advanced_refl [OF assms] by (simp add: dispatch_ready_def)
next
  case (Some t)
  then show ?thesis using same_core [OF assms core_stats_reads] by (simp add: dispatch_ready_def)
qed

lemma dispatch_one:
  assumes "running shown timed m"
  shows "advanced ntop shown timed (uart_in src) (udp_in src) (stop_event timed src) m (dispatch_ready ntop src m)"
proof (cases src)
  case (UdpReady rs)
  have "(\<lambda>(b, from). (take 2048 b, from)) = (fits 2048 :: bytes \<times> sockaddr_in \<Rightarrow> _)" by (auto simp: fits_def)
  then show ?thesis using dispatch_udp [OF assms, of ntop rs]
    by (simp add: UdpReady uart_in_def udp_in_def stop_event_def)
qed (use dispatch_uart [OF assms] dispatch_stats [OF assms] dispatch_duration [OF assms] dispatch_signal [OF assms]
      in \<open>simp_all add: uart_in_def udp_in_def stop_event_def\<close>)

lemma dispatch_all:
  assumes "running shown timed m"
  shows "advanced ntop shown timed (concat (map uart_in (present es))) (concat (map udp_in (present es)))
    (list_ex (stop_event timed) (present es)) m (dispatch_events (dispatch_ready ntop) es m)"
  using assms
proof (induction es arbitrary: m)
  case (Cons e es)
  show ?case
  proof (cases e)
    case None
    then show ?thesis using Cons.IH [OF Cons.prems] by (simp add: present_def)
  next
    case (Some src)
    have one: "advanced ntop shown timed (uart_in src) (udp_in src) (stop_event timed src) m (dispatch_ready ntop src m)"
      by (rule dispatch_one [OF Cons.prems])
    then have "running shown timed (dispatch_ready ntop src m)" by (simp add: advanced_def)
    from advanced_trans [OF one Cons.IH [OF this]] show ?thesis by (simp add: Some present_def)
  qed
qed (simp add: present_def advanced_refl)

text \<open>A whole run of the loop.\<close>

lemma loop_handles:
  assumes "running shown timed m" "\<not> stopRequested (m_context m)"
    "monitor_loop ntop timeout waits m = (exit, m')"
  shows "exit = snd (handled timed waits)
    \<and> (\<exists>stop. advanced ntop shown timed (concat (map uart_in (fst (handled timed waits))))
         (concat (map udp_in (fst (handled timed waits)))) stop m m')"
  using assms
proof (induction waits arbitrary: m)
  case Nil
  then show ?case using advanced_refl by fastforce
next
  case (Cons wait waits)
  have open_: "0 \<le> er_fd (m_reactor m)" "0 < er_capacity (m_reactor m)" using Cons.prems(1) by (simp_all add: running_def)
  show ?case
  proof (cases wait)
    case (Inl e)
    show ?thesis
    proof (cases "e = EINTR")
      case True
      then show ?thesis using Cons.IH [OF Cons.prems(1,2)] Cons.prems(2,3) open_ by (simp add: Inl poll_once_def)
    next
      case False
      then have "exit = Some 1" "m' = emit Cerr (''epoll_wait failed'' @ [LF]) m"
        using Cons.prems(2,3) open_ by (simp_all add: Inl poll_once_def)
      then show ?thesis using False same_core [OF Cons.prems(1), of m'] by (auto simp: Inl)
    qed
  next
    case (Inr es)
    let ?m1 = "dispatch_events (dispatch_ready ntop) es m"
    let ?stop = "list_ex (stop_event timed) (present es)"
    have one: "advanced ntop shown timed (concat (map uart_in (present es))) (concat (map udp_in (present es))) ?stop m ?m1"
      by (rule dispatch_all [OF Cons.prems(1)])
    have next_: "monitor_loop ntop timeout waits ?m1 = (exit, m')"
      using Cons.prems(2,3) open_ by (simp add: Inr poll_once_def)
    have run: "running shown timed ?m1" "stopRequested (m_context ?m1) = ?stop"
      using one Cons.prems(2) by (simp_all add: advanced_def)
    show ?thesis
    proof (cases ?stop)
      case True
      then have "exit = Some 0" "m' = print_stats ?m1" using next_ run(2) by (cases waits; simp)+
      moreover from this have "core m' = core ?m1" by simp
      then have "advanced ntop shown timed (concat (map uart_in (present es)))
          (concat (map udp_in (present es))) ?stop m m'" by (rule advanced_core [OF _ one])
      ultimately show ?thesis using True by (auto simp: Inr)
    next
      case False
      from Cons.IH [OF run(1) _ next_] False run(2) obtain stop where
        "exit = snd (handled timed waits)"
        "advanced ntop shown timed (concat (map uart_in (fst (handled timed waits))))
           (concat (map udp_in (fst (handled timed waits)))) stop ?m1 m'" by auto
      then have "exit = snd (handled timed waits)" "advanced ntop shown timed
          (concat (map uart_in (present es)) @ concat (map uart_in (fst (handled timed waits))))
          (concat (map udp_in (present es)) @ concat (map udp_in (fst (handled timed waits)))) (?stop \<or> stop) m m'"
        using advanced_trans [OF one] by blast+
      then show ?thesis using False by (auto simp: Inr)
    qed
  qed
qed

section \<open>The start\<close>

lemma and_then_Inr: "and_then r f = Inr y \<longleftrightarrow> (\<exists>x. r = Inr x \<and> f x = Inr y)"
  by (auto simp: and_then_def split: sum.split)

text \<open>Running, with nothing printed for a source yet.\<close>

definition staged :: "bool \<Rightarrow> bool \<Rightarrow> bool \<Rightarrow> UartLineReceiver option \<Rightarrow> Monitor \<Rightarrow> bool" where
  "staged shown timed udp uart m \<longleftrightarrow>
     running shown timed m \<and> \<not> stopRequested (m_context m) \<and> (m_udp m \<noteq> None) = udp \<and> uart_state m = uart
   \<and> console_of UartWriter m = [] \<and> console_of UdpWriter m = []"

lemmas staged_simps = staged_def running_def uart_state_def

lemma staged_signal:
  assumes "start_reactor os (initialMonitor shown) = Inr m" "start_signal os m = Inr m'"
  shows "staged shown False False None m'"
proof -
  have "er_fd (m_reactor m) \<ge> 0 \<and> m = (initialMonitor shown)\<lparr>m_reactor := (m_reactor m)\<lparr>er_capacity := 16\<rparr>\<rparr>"
    using assms(1) by (auto simp: start_reactor_def reactor_open_def initialMonitor_def EpollReactor_def failed_def Let_def
        split: if_splits)
  then obtain e where m: "er_fd e \<ge> 0" "er_capacity e = 16" "m = (initialMonitor shown)\<lparr>m_reactor := e\<rparr>"
    by (metis EpollReactor.select_convs(2) EpollReactor.surjective EpollReactor.update_convs(2)
        EpollReactor.select_convs(1))
  obtain s ok where o: "signal_open (mo_signal os) (SignalFdSource [SIGINT, SIGTERM] True) = (s, ok)" by fastforce
  have "ok \<Longrightarrow> 0 \<le> sg_fd s \<and> sg_handler s"
    using o by (auto simp: signal_open_def SignalFdSource_def Let_def split: if_splits prod.splits)
  then show ?thesis
    using assms(2) m o
    by (auto simp: start_signal_def initialMonitor_def staged_simps failed_def console_of_def Let_def split: if_splits)
qed

lemma timer_started:
  assumes "timer_open created (TimerFdSource True) = (t, True)"
  shows "0 \<le> tm_fd t \<and> tm_handler t"
    "fst (arm_periodic created settime t interval) = t" "fst (arm_oneshot created settime t interval) = t"
  using assms by (auto simp: timer_open_def arm_periodic_def arm_oneshot_def timer_set_time_def TimerFdSource_def
      Let_def split: if_splits)

lemma staged_stats:
  assumes "staged shown timed udp uart m" "start_stats os options m = Inr m'"
  shows "staged shown timed udp uart m'"
proof (cases "op_statsEverySeconds options > 0")
  case True
  obtain t ok where o: "timer_open (mo_stats_create os) (TimerFdSource True) = (t, ok)" by fastforce
  then show ?thesis
    using True assms by (auto simp: start_stats_def staged_simps failed_def Let_def split_beta split: if_splits)
next
  case False
  then show ?thesis using assms by (simp add: start_stats_def)
qed

lemma staged_duration:
  assumes "staged shown False udp uart m" "start_duration os options m = Inr m'"
  shows "staged shown (0 < op_durationSeconds options) udp uart m'"
proof (cases "op_durationSeconds options > 0")
  case True
  obtain t ok where o: "timer_open (mo_duration_create os) (TimerFdSource True) = (t, ok)" by fastforce
  then have ok: "ok" using True assms(2) by (auto simp: start_duration_def failed_def Let_def split: if_splits)
  note t = timer_started [OF o [unfolded ok [THEN eqTrueI]]]
  show ?thesis
    using True assms o ok t(1)
    by (auto simp: start_duration_def staged_simps failed_def Let_def split_beta t(3) split: if_splits)
next
  case False
  then show ?thesis using assms by (simp add: start_duration_def)
qed

lemma staged_udp:
  assumes "staged shown timed False uart m" "start_udp os options m = Inr m'"
  shows "staged shown timed (op_udpPort options \<noteq> None) uart m'"
proof (cases "op_udpPort options")
  case None
  then show ?thesis using assms by (simp add: start_udp_def)
next
  case (Some port)
  obtain d ok closed where o: "udp_open (mo_udp os) (UdpDatagramReceiver port True 2048) = (d, ok, closed)"
    by (cases "udp_open (mo_udp os) (UdpDatagramReceiver port True 2048)") auto
  have "ok \<Longrightarrow> 0 \<le> d_fd d \<and> d_handler d \<and> length (d_buffer d) = 2048"
    using o by (auto simp: udp_open_def udp_open_fail_def UdpDatagramReceiver_def Let_def split_beta
        split: if_splits option.splits)
  then show ?thesis
    using Some assms o by (auto simp: start_udp_def staged_simps failed_def Let_def split: if_splits)
qed

definition openUart :: "monitor_os \<Rightarrow> MonitorOptions \<Rightarrow> UartLineReceiver" where
  "openUart os options = (UartLineReceiver (op_uartBaud options) True 128)\<lparr>u_fd := os_open (mo_uart os)\<rparr>"

lemma staged_uart:
  assumes "staged shown timed udp None m" "start_uart os options m = Inr m'"
  shows "staged shown timed udp (map_option (\<lambda>_. openUart os options) (op_uartDevice options)) m'"
proof (cases "op_uartDevice options")
  case None
  then show ?thesis using assms by (simp add: start_uart_def)
next
  case (Some device)
  let ?u = "UartLineReceiver (op_uartBaud options) True 128"
  obtain u ok closed where o: "uart_open (mo_uart os) ?u = (u, ok, closed)"
    by (cases "uart_open (mo_uart os) ?u") auto
  have u: "ok \<Longrightarrow> 0 \<le> u_fd u \<and> u = openUart os options"
    using o by (auto simp: uart_open_def uart_open_fail_def UartLineReceiver_def openUart_def Let_def split_beta
        split: if_splits)
  have "u_handler (openUart os options)" "erase (openUart os options) = openUart os options"
    by (simp_all add: openUart_def UartLineReceiver_def erase_def)
  then show ?thesis
    using Some assms o u by (auto simp: start_uart_def staged_simps failed_def Let_def split: if_splits)
qed

lemma monitor_started:
  assumes "start_monitor os options shown = Inr m"
  shows "staged shown (0 < op_durationSeconds options) (op_udpPort options \<noteq> None)
     (map_option (\<lambda>_. openUart os options) (op_uartDevice options)) m"
proof -
  obtain m1 m2 m3 m4 m5 m6 where
    "start_reactor os (initialMonitor shown) = Inr m1" "start_signal os m1 = Inr m2"
    "start_stats os options m2 = Inr m3" "start_duration os options m3 = Inr m4"
    "start_udp os options m4 = Inr m5" "start_uart os options m5 = Inr m6" "m = announce options m6"
    using assms by (auto simp: start_monitor_def and_then_Inr)
  note steps = this
  have "staged shown (0 < op_durationSeconds options) (op_udpPort options \<noteq> None)
     (map_option (\<lambda>_. openUart os options) (op_uartDevice options)) m6"
    by (rule staged_uart [OF staged_udp [OF staged_duration [OF staged_stats [OF
          staged_signal [OF steps(1,2)] steps(3)] steps(4)] steps(5)] steps(6)])
  then show ?thesis by (simp add: steps(7) announce_def staged_simps)
qed

section \<open>Properties\<close>

definition uart_lines :: "nat \<Rightarrow> string \<Rightarrow> string list" where
  "uart_lines m s = filter (\<lambda>l. l \<noteq> []) (map (\<lambda>w. drop (length w div (m + 1) * (m + 1)) w)
     (butlast (split LF (filter (\<lambda>c. c \<noteq> CR) s))))"

lemma feed_fresh:
  assumes "u_line u = []" "u_handler u"
  shows "snd (uart_feed u s) = uart_lines (u_maxLineBytes u) s"
proof -
  have "concat (map (line_call m) ws) = filter (\<lambda>l. l \<noteq> []) (map (kept m) ws)" for m ws
    by (induction ws) (simp_all add: line_call_def)
  then show ?thesis
    using feed_lines [OF assms(1) _ assms(2), of "filter (\<lambda>c. c \<noteq> CR) s"] feed_no_CR [of u s]
    by (simp add: uart_lines_def kept_def [abs_def])
qed

lemma print_lines:
  "concat (map (print_line shown heading) (filter (\<lambda>l. l \<noteq> []) ls))
     = map (\<lambda>l. (if shown then heading @ '' '' else []) @ l @ [LF]) (filter (\<lambda>l. l \<noteq> []) ls)"
  by (induction ls) (simp_all add: print_line_def)

lemma print_udp_eq:
  "print_udp_datagram_lines ntop shown =
     (\<lambda>(b, src). map (\<lambda>l. (if shown then udp_prefix ntop shown src @ '' '' else []) @ l @ [LF])
       (filter (\<lambda>l. l \<noteq> []) (split LF (ends_to_LF (chars_of b)))))"
  by (simp add: fun_eq_iff print_udp_datagram_lines_def datagram_lines_eq print_lines split_beta)

text \<open>C27: What the Chapter 3 monitor does, from its command line on. Once it has started, it handles the
events of every \<open>epoll_wait\<close> up to and including the first batch with a signal or with the expiry of the
duration timer, and then returns 0; an error of \<open>epoll_wait\<close> other than \<open>EINTR\<close> makes it return 1, and without either
it goes on waiting. However the events of the sources are interleaved and the bytes are cut into
reads, what it writes for the serial device is, each once and in order, the non-empty lines of its bytes that
were ended by a line feed, carriage returns removed and without every full run of 129 characters of a line:
a line of up to 128 characters is written as it is, of a longer one only what is left after these
runs, if anything. What it writes for UDP is the non-empty lines of each datagram up to the first
empty one of a batch, cut at 2048 bytes, with the source in front unless \<open>--no-source\<close> is given.\<close>

theorem monitor_prints_lines:
  assumes "readiness_options args defaultOptions True = Parsed options shown"
    "start_monitor os options shown = Inr m0"
  shows "let (seen, code) = handled (0 < op_durationSeconds options) waits;
      (exit, console, closed) = readiness_main os ntop usage waits args
    in exit = code
     \<and> map snd (filter (\<lambda>e. fst e = UartWriter) console) =
         (if op_uartDevice options = None then []
          else map (\<lambda>l. (if shown then ''[uart] '' else []) @ l @ [LF])
                 (uart_lines 128 (concat (map uart_in seen))))
     \<and> map snd (filter (\<lambda>e. fst e = UdpWriter) console) =
         (if op_udpPort options = None then []
          else concat (map (\<lambda>(b, src). map (\<lambda>l. (if shown then udp_prefix ntop shown src @ '' '' else []) @ l @ [LF])
                 (filter (\<lambda>l. l \<noteq> []) (split LF (ends_to_LF (chars_of b))))) (concat (map udp_in seen))))"
proof -
  let ?timed = "0 < op_durationSeconds options"
  obtain exit m where loop: "monitor_loop ntop (op_pollTimeoutMs options) waits m0 = (exit, m)" by fastforce
  have m0: "staged shown ?timed (op_udpPort options \<noteq> None)
     (map_option (\<lambda>_. openUart os options) (op_uartDevice options)) m0"
    by (rule monitor_started [OF assms(2)])
  then have "running shown ?timed m0" "\<not> stopRequested (m_context m0)" by (simp_all add: staged_def)
  from loop_handles [OF this loop] obtain stop where
    code: "exit = snd (handled ?timed waits)" and
    adv: "advanced ntop shown ?timed (concat (map uart_in (fst (handled ?timed waits))))
      (concat (map udp_in (fst (handled ?timed waits)))) stop m0 m" by blast
  have fresh: "snd (uart_feed (openUart os options) s) = uart_lines 128 s" for s
    using feed_fresh [of "openUart os options" s] by (simp add: openUart_def UartLineReceiver_def)
  have uart: "console_of UartWriter m = (if op_uartDevice options = None then []
      else map (\<lambda>l. (if shown then ''[uart] '' else []) @ l @ [LF])
        (uart_lines 128 (concat (map uart_in (fst (handled ?timed waits))))))"
    using adv m0 print_lines [of shown "''[uart]''"]
    by (auto simp: advanced_def staged_def uart_text_def fresh) (simp_all add: uart_lines_def)
  have udp: "console_of UdpWriter m = (if op_udpPort options = None then []
      else concat (map (\<lambda>(b, src). map (\<lambda>l. (if shown then udp_prefix ntop shown src @ '' '' else []) @ l @ [LF])
        (filter (\<lambda>l. l \<noteq> []) (split LF (ends_to_LF (chars_of b))))) (concat (map udp_in (fst (handled ?timed waits))))))"
    using adv m0 by (auto simp: advanced_def staged_def print_udp_eq)
  show ?thesis
    using assms code uart udp loop by (simp add: readiness_main_def console_of_def split_beta)
qed

definition sample_os :: monitor_os where
  "sample_os = \<lparr>mo_epoll_create = 3, mo_epoll_ctl = (\<lambda>_ _ _. 0),
     mo_signal = \<lparr>os_sigemptyset = 0, os_sigaddset = (\<lambda>_. 0), os_sigprocmask = (\<lambda>_. 0), os_signalfd = (\<lambda>_. 4)\<rparr>,
     mo_stats_create = 5, mo_duration_create = 6, mo_settime = (\<lambda>_ _. 0),
     mo_udp = \<lparr>os_socket = 7, os_bind = 0, os_getsockname = Some 9000, os_udp_fcntl = (0, 0)\<rparr>,
     mo_uart = \<lparr>os_open = 8, os_tcgetattr = 0, os_cfsetispeed = 0, os_cfsetospeed = 0, os_tcsetattr = 0,
       os_fcntl = (0, 0)\<rparr>\<rparr>"

definition sample_args :: "string list" where
  "sample_args = [''--udp-port'', ''9000'', ''--uart'', ''/dev/pts/2'', ''--duration'', ''10'']"

definition sample_options :: MonitorOptions where
  "sample_options = \<lparr>op_udpPort = Some 9000, op_uartDevice = Some ''/dev/pts/2'', op_uartBaud = 115200,
     op_durationSeconds = 10, op_pollTimeoutMs = -1, op_statsEverySeconds = 5\<rparr>"

definition sample_waits :: "(errno + ready option list) list" where
  "sample_waits =
     [Inr [Some (UartReady [RData ''$A'', RError EAGAIN])], Inl EINTR,
      Inr [Some (UdpReady [RData ([36, 66, 10, 13, 36, 67], \<lparr>sin_addr = 1, sin_port = 40\<rparr>), RError EAGAIN]),
           Some (StatsReady [RData 1, RError EAGAIN])],
      Inr [Some (DurationReady [RData 1, RError EAGAIN]), Some (UartReady [RData (''B'' @ [CR, LF]), RError EAGAIN])],
      Inr [Some (UartReady [RData (''D'' @ [LF]), RError EAGAIN])]]"

lemma strtol_samples:
  "strtol ''9000'' = (9000, [])" "strtol ''10'' = (10, [])" "strtol ''4294967297'' = (4294967297, [])"
  "strtol [] = (0, [])"
  by (simp_all add: strtol_def strtoul_sign_def c_isspace_def is_digit_def in_chars_def code_def nat_of_digits_def
      digit_val_def)

lemma sample_starts: "\<not> isl (start_monitor sample_os sample_options True)"
proof -
  note sources = SignalFdSource_def TimerFdSource_def UdpDatagramReceiver_def UartLineReceiver_def EpollReactor_def
  note opens = signal_open_def build_signal_set_def timer_open_def arm_periodic_def arm_oneshot_def
    timer_set_time_def udp_open_def uart_open_def baud_to_speed_def set_nonblocking_def reactor_open_def
    reactor_add_def addReady_def
  note starts = start_reactor_def start_signal_def start_stats_def start_duration_def start_udp_def start_uart_def
  show ?thesis
    by (simp add: start_monitor_def and_then_def starts sources opens initialMonitor_def sample_os_def
        sample_options_def emit_def Let_def)
qed

theorem monitor_prints_lines_witness:
  "let (exit, console, closed) = readiness_main sample_os (\<lambda>_. None) ''usage'' sample_waits sample_args
   in exit = Some 0
    \<and> map snd (filter (\<lambda>e. fst e = UartWriter) console) = [''[uart] $AB'' @ [LF]]
    \<and> map snd (filter (\<lambda>e. fst e = UdpWriter) console) =
        [''[udp ?:40] $B'' @ [LF], ''[udp ?:40] $C'' @ [LF]]"
proof -
  have options: "readiness_options sample_args defaultOptions True = Parsed sample_options True"
    by (simp add: sample_args_def sample_options_def defaultOptions_def option_step_def parse_port_def int_option_def
        parse_int_def strtol_samples check_inputs_def)
  have "\<not> isl (start_monitor sample_os sample_options True)" by (rule sample_starts)
  then obtain m0 where start: "start_monitor sample_os sample_options True = Inr m0"
    by (cases "start_monitor sample_os sample_options True") auto
  have timed: "(0 < op_durationSeconds sample_options) = True" by (simp add: sample_options_def)
  have seen: "snd (handled True sample_waits) = Some 0"
    "uart_lines 128 (concat (map uart_in (fst (handled True sample_waits)))) = [''$AB'']"
    "concat (map udp_in (fst (handled True sample_waits))) =
       [([36, 66, 10, 13, 36, 67], \<lparr>sin_addr = 1, sin_port = 40\<rparr>)]"
    by code_simp+
  have lines: "map (\<lambda>l. (udp_prefix (\<lambda>_. None) True \<lparr>sin_addr = 1, sin_port = 40\<rparr> @ '' '') @ l @ [LF])
      (filter (\<lambda>l. l \<noteq> []) (split LF (ends_to_LF (chars_of [36, 66, 10, 13, 36, 67]))))
    = [''[udp ?:40] $B'' @ [LF], ''[udp ?:40] $C'' @ [LF]]"
    by code_simp
  have sources: "op_uartDevice sample_options \<noteq> None" "op_udpPort sample_options \<noteq> None"
    by (simp_all add: sample_options_def)
  show ?thesis
    using monitor_prints_lines [OF options start, of sample_waits "\<lambda>_. None" "''usage''"]
    by (simp add: timed seen sources split_beta lines [simplified])
qed

section \<open>Accepted options\<close>

text \<open>Whatever is accepted is within the limits that the program checks, and names an input.\<close>

lemma option_step_bounds:
  assumes "option_step arg rest options shown = Accepted options' shown' rest'"
    "0 \<le> op_durationSeconds options \<and> -1 \<le> op_pollTimeoutMs options \<and> 0 \<le> op_statsEverySeconds options"
  shows "0 \<le> op_durationSeconds options' \<and> -1 \<le> op_pollTimeoutMs options' \<and> 0 \<le> op_statsEverySeconds options'"
  using assms
  by (auto simp: option_step_def int_option_def Let_def split: if_splits list.splits option.splits)

lemma options_bounded:
  assumes "readiness_options args options shown = Parsed options' shown'"
    "0 \<le> op_durationSeconds options \<and> -1 \<le> op_pollTimeoutMs options \<and> 0 \<le> op_statsEverySeconds options"
  shows "0 \<le> op_durationSeconds options' \<and> -1 \<le> op_pollTimeoutMs options' \<and> 0 \<le> op_statsEverySeconds options'
    \<and> (op_udpPort options' \<noteq> None \<or> op_uartDevice options' \<noteq> None)"
  using assms
proof (induction args options shown rule: readiness_options.induct)
  case (1 options shown)
  then show ?case by (auto simp: check_inputs_def split: if_splits)
next
  case (2 arg rest options shown)
  show ?case
  proof (cases "option_step arg rest options shown")
    case (Accepted o1 s1 r1)
    then show ?thesis using 2 option_step_bounds [OF Accepted] by simp
  qed (use "2.prems" in simp_all)
qed

text \<open>An empty value counts as zero, and a number that does not fit \<open>int\<close> is taken modulo \<open>2^32\<close>.\<close>

lemma parse_int_lax: "parse_int [] = Some 0" "parse_int ''4294967297'' = Some 1"
  by (simp_all add: parse_int_def strtol_samples)

end
