(* ===== verification/NmeaSim.thy ===== *)
theory NmeaSim
  imports NmeaStreams Filtering CommandLine
begin

text \<open>
  \<open>Tools/nmea_sim\<close>: the simulator that sends NMEA sentences with weather values at given rates, and damages
  some of them on request. The C++ library's random engines and distributions, \<open>sin\<close>, \<open>fmod\<close>, \<open>strtod\<close> and the
  conversions of durations are a record of functions beside \<open>binary64\<close>; clock are nanoseconds of the steady clock, and
  each pass of the main loop is given the three readings it makes. Sending is a function on a world of
  any type.
\<close>

record ('d, 'g, 'n) sim_lib =
  sl_db :: "'d binary64"
  sl_sin :: "'d \<Rightarrow> 'd"
  sl_fmod :: "'d \<Rightarrow> 'd \<Rightarrow> 'd"
  sl_strtod :: "string \<Rightarrow> 'd \<times> string"
  sl_duration_cast :: "'d \<Rightarrow> int"
  sl_seconds :: "int \<Rightarrow> 'd"
  sl_engine :: "u32 \<Rightarrow> 'g"
  sl_normal :: 'n
  sl_next_normal :: "'n \<Rightarrow> 'g \<Rightarrow> 'd \<times> 'n \<times> 'g"
  sl_uniform_int :: "nat \<Rightarrow> nat \<Rightarrow> 'g \<Rightarrow> nat \<times> 'g"
  sl_uniform_real :: "'d \<Rightarrow> 'd \<Rightarrow> 'g \<Rightarrow> 'd \<times> 'g"

definition sl_lit :: "('d, 'g, 'n) sim_lib \<Rightarrow> string \<Rightarrow> 'd" where "sl_lit l s = db_lit (sl_db l) s"
definition sl_less :: "('d, 'g, 'n) sim_lib \<Rightarrow> 'd \<Rightarrow> 'd \<Rightarrow> bool" where "sl_less l x y = db_less (sl_db l) x y"
definition sl_is_zero :: "('d, 'g, 'n) sim_lib \<Rightarrow> 'd \<Rightarrow> bool" where
  "sl_is_zero l x = ar_eq (db_arithmetic (sl_db l)) x (sl_lit l ''0.0'')"

section \<open>Sentences\<close>

definition CRLF :: string where "CRLF = [CHR 0x0D, CHR 0x0A]"

text \<open>The stream manipulators print two upper-case hexadecimal digits.\<close>

definition make_sentence :: "string \<Rightarrow> string" where
  "make_sentence body =
     (let sum = foldl (\<lambda>v c. v XOR byte_of c) (0 :: u8) body
      in CHR ''$'' # body @ [CHR ''*'', hex_table ! unat (drop_bit 4 sum AND 0xF), hex_table ! unat (sum AND 0xF)] @ CRLF)"

definition corrupt_bad_checksum :: "string \<Rightarrow> string" where
  "corrupt_bad_checksum sentence =
     (case find_char CHR ''*'' sentence of
        None \<Rightarrow> sentence
      | Some star \<Rightarrow>
          if star + 2 < length sentence
          then sentence[star + 1 := (if sentence ! (star + 1) = CHR ''0'' then CHR ''1'' else CHR ''0'')]
          else sentence)"

definition corrupt_truncate :: "('d, 'g, 'n) sim_lib \<Rightarrow> string \<Rightarrow> 'g \<Rightarrow> string \<times> 'g" where
  "corrupt_truncate l sentence rng =
     (if length sentence \<le> 4 then (sentence, rng)
      else let (n, rng1) = sl_uniform_int l 1 (length sentence - 2) rng in (take n sentence @ CRLF, rng1))"

section \<open>Values\<close>

datatype GeneratorKind = ConstantKind | Sine | RandomWalk

record ('d, 'g, 'n) ValueGenerator =
  vg_kind :: GeneratorKind
  vg_constant :: 'd
  vg_phase :: 'd
  vg_amp :: 'd
  vg_sine_hz :: 'd
  vg_value :: 'd
  vg_step_stddev :: 'd
  vg_rng :: 'g
  vg_norm :: 'n

definition ValueGenerator ::
  "('d, 'g, 'n) sim_lib \<Rightarrow> GeneratorKind \<Rightarrow> u32 \<Rightarrow> string \<Rightarrow> string \<Rightarrow> string \<Rightarrow> string \<Rightarrow> ('d, 'g, 'n) ValueGenerator"
where
  "ValueGenerator l kind seed constant amplitude sine_hz stddev =
     \<lparr>vg_kind = kind, vg_constant = sl_lit l constant, vg_phase = sl_lit l ''0.0'', vg_amp = sl_lit l amplitude,
      vg_sine_hz = sl_lit l sine_hz, vg_value = sl_lit l constant, vg_step_stddev = sl_lit l stddev,
      vg_rng = sl_engine l seed, vg_norm = sl_normal l\<rparr>"

definition next_constant where "next_constant g = (vg_constant g, g)"

definition next_sine ::
  "('d, 'g, 'n) sim_lib \<Rightarrow> 'd \<Rightarrow> ('d, 'g, 'n) ValueGenerator \<Rightarrow> 'd \<times> ('d, 'g, 'n) ValueGenerator" where
  "next_sine l dt_sec g =
     (let db = sl_db l; two_pi = sl_lit l ''6.2831853071795864769'';
          phase = db_add db (vg_phase g) (db_mul db (db_mul db two_pi (vg_sine_hz g)) dt_sec);
          phase' = (if sl_less l two_pi phase then sl_fmod l phase two_pi else phase)
      in (db_add db (vg_constant g) (db_mul db (vg_amp g) (sl_sin l phase')), g\<lparr>vg_phase := phase'\<rparr>))"

definition next_random_walk ::
  "('d, 'g, 'n) sim_lib \<Rightarrow> ('d, 'g, 'n) ValueGenerator \<Rightarrow> 'd \<times> ('d, 'g, 'n) ValueGenerator" where
  "next_random_walk l g =
     (let db = sl_db l; (x, norm, rng) = sl_next_normal l (vg_norm g) (vg_rng g);
          value = db_add db (vg_value g) (db_mul db x (vg_step_stddev g))
      in (value, g\<lparr>vg_value := value, vg_norm := norm, vg_rng := rng\<rparr>))"

definition next_value ::
  "('d, 'g, 'n) sim_lib \<Rightarrow> 'd \<Rightarrow> ('d, 'g, 'n) ValueGenerator \<Rightarrow> 'd \<times> ('d, 'g, 'n) ValueGenerator" where
  "next_value l dt_sec g =
     (case vg_kind g of
        ConstantKind \<Rightarrow> next_constant g
      | Sine \<Rightarrow> next_sine l dt_sec g
      | RandomWalk \<Rightarrow> next_random_walk l g)"

section \<open>Schedule\<close>

record 'd Stream =
  sm_id :: nat
  sm_hz :: 'd
  sm_period_sec :: 'd
  sm_next_due :: int
  sm_last_fire :: int

definition addStream ::
  "('d, 'g, 'n) sim_lib \<Rightarrow> int \<Rightarrow> nat \<Rightarrow> 'd \<Rightarrow> 'd Stream list \<Rightarrow> 'd Stream list" where
  "addStream l time i hz streams =
     (if sl_less l hz (sl_lit l ''0.0'') \<or> sl_is_zero l hz then streams
      else let period = db_div (sl_db l) (sl_lit l ''1.0'') hz
           in streams @ [\<lparr>sm_id = i, sm_hz = hz, sm_period_sec = period,
                sm_next_due = time + sl_duration_cast l period, sm_last_fire = time\<rparr>])"

text \<open>\<open>std::min_element\<close>: the first of the streams that are due earliest.\<close>

fun nextStream :: "'d Stream list \<Rightarrow> 'd Stream" where
  "nextStream [s] = s"
| "nextStream (a # b # streams) =
     nextStream ((if sm_next_due b < sm_next_due a then b else a) # streams)"

fun markFired :: "('d, 'g, 'n) sim_lib \<Rightarrow> nat \<Rightarrow> int \<Rightarrow> 'd Stream list \<Rightarrow> 'd Stream list" where
  "markFired l i time [] = []"
| "markFired l i time (s # streams) =
     (if sm_id s = i
      then s\<lparr>sm_last_fire := time, sm_next_due := time + sl_duration_cast l (sm_period_sec s)\<rparr> # streams
      else s # markFired l i time streams)"

section \<open>Options\<close>

record UdpEndpoint =
  ep_host :: string
  ep_port :: u16

record 'd SimOptions =
  so_uart_device :: "string option"
  so_uart_baud :: int
  so_udp :: "UdpEndpoint option"
  so_file :: "string option"
  so_use_stdout :: bool
  so_temp_hz :: 'd
  so_pressure_hz :: 'd
  so_humidity_hz :: 'd
  so_position_hz :: 'd
  so_wind_hz :: 'd
  so_gen :: GeneratorKind
  so_seed :: u32
  so_duration_sec :: 'd
  so_log_every_sec :: 'd
  so_bad_checksum_percent :: 'd
  so_truncated_percent :: 'd

definition defaultSimOptions :: "('d, 'g, 'n) sim_lib \<Rightarrow> 'd SimOptions" where
  "defaultSimOptions l =
     (let zero = sl_lit l ''0.0''
      in \<lparr>so_uart_device = None, so_uart_baud = 115200, so_udp = None, so_file = None, so_use_stdout = False,
          so_temp_hz = zero, so_pressure_hz = zero, so_humidity_hz = zero, so_position_hz = zero, so_wind_hz = zero,
          so_gen = RandomWalk, so_seed = 1, so_duration_sec = zero, so_log_every_sec = sl_lit l ''5.0'',
          so_bad_checksum_percent = zero, so_truncated_percent = zero\<rparr>)"

definition parse_udp_endpoint :: "string \<Rightarrow> UdpEndpoint option" where
  "parse_udp_endpoint s =
     (case find_char CHR '':'' s of
        None \<Rightarrow> None
      | Some pos \<Rightarrow>
          let host = substr s 0 pos; portStr = drop (pos + 1) s
          in if host = [] \<or> portStr = [] then None
             else let (portLong, rest) = strtol portStr
                  in if rest \<noteq> [] \<or> portLong \<le> 0 \<or> portLong > 65535 then None
                     else Some \<lparr>ep_host = host, ep_port = word_of_int portLong\<rparr>)"

definition sim_parse_double :: "('d, 'g, 'n) sim_lib \<Rightarrow> string \<Rightarrow> 'd option" where
  "sim_parse_double l s = (case sl_strtod l s of (v, rest) \<Rightarrow> if rest = [] then Some v else None)"

definition sim_parse_u32 :: "string \<Rightarrow> u32 option" where
  "sim_parse_u32 s = (case strtoul s of (v, rest) \<Rightarrow> if rest = [] then Some (of_nat v) else None)"

definition parse_gen :: "string \<Rightarrow> GeneratorKind option" where
  "parse_gen s =
     (if s = ''constant'' then Some ConstantKind
      else if s = ''sine'' then Some Sine
      else if s = ''random-walk'' then Some RandomWalk else None)"

definition atoi :: "string \<Rightarrow> int" where "atoi s = sint (word_of_int (fst (strtol s)) :: u32)"

text \<open>An option with a value; \<open>None\<close> when the value is refused.\<close>

definition set_sim_option ::
  "('d, 'g, 'n) sim_lib \<Rightarrow> string \<Rightarrow> string \<Rightarrow> 'd SimOptions \<Rightarrow> 'd SimOptions option" where
  "set_sim_option l name v opt =
     (let number = (\<lambda>store. map_option store (sim_parse_double l v))
      in if name = ''--file'' then Some (opt\<lparr>so_file := Some v\<rparr>)
         else if name = ''--uart'' then Some (opt\<lparr>so_uart_device := Some v\<rparr>)
         else if name = ''--udp'' then map_option (\<lambda>ep. opt\<lparr>so_udp := Some ep\<rparr>) (parse_udp_endpoint v)
         else if name = ''--baud'' then Some (opt\<lparr>so_uart_baud := atoi v\<rparr>)
         else if name = ''--temp-hz'' then number (\<lambda>x. opt\<lparr>so_temp_hz := x\<rparr>)
         else if name = ''--pressure-hz'' then number (\<lambda>x. opt\<lparr>so_pressure_hz := x\<rparr>)
         else if name = ''--humidity-hz'' then number (\<lambda>x. opt\<lparr>so_humidity_hz := x\<rparr>)
         else if name = ''--position-hz'' then number (\<lambda>x. opt\<lparr>so_position_hz := x\<rparr>)
         else if name = ''--wind-hz'' then number (\<lambda>x. opt\<lparr>so_wind_hz := x\<rparr>)
         else if name = ''--gen'' then map_option (\<lambda>g. opt\<lparr>so_gen := g\<rparr>) (parse_gen v)
         else if name = ''--seed'' then map_option (\<lambda>n. opt\<lparr>so_seed := n\<rparr>) (sim_parse_u32 v)
         else if name = ''--duration'' then number (\<lambda>x. opt\<lparr>so_duration_sec := x\<rparr>)
         else if name = ''--log-every'' then number (\<lambda>x. opt\<lparr>so_log_every_sec := x\<rparr>)
         else if name = ''--bad-checksum-percent'' then number (\<lambda>x. opt\<lparr>so_bad_checksum_percent := x\<rparr>)
         else number (\<lambda>x. opt\<lparr>so_truncated_percent := x\<rparr>))"

definition takes_value :: "string \<Rightarrow> bool" where
  "takes_value a \<longleftrightarrow> a \<in> set [''--file'', ''--uart'', ''--udp'', ''--baud'', ''--temp-hz'', ''--pressure-hz'',
     ''--humidity-hz'', ''--position-hz'', ''--wind-hz'', ''--gen'', ''--seed'', ''--duration'', ''--log-every'',
     ''--bad-checksum-percent'', ''--truncated-percent'']"

datatype 'o sim_parsed = SimParsed 'o | SimHelp | SimRejected string

fun sim_parse_args ::
  "('d, 'g, 'n) sim_lib \<Rightarrow> string list \<Rightarrow> 'd SimOptions \<Rightarrow> 'd SimOptions sim_parsed" where
  "sim_parse_args l [] opt = SimParsed opt"
| "sim_parse_args l (a # rest) opt =
     (if a = ''-h'' \<or> a = ''--help'' then SimHelp
      else if a = ''--stdout'' then sim_parse_args l rest (opt\<lparr>so_use_stdout := True\<rparr>)
      else if takes_value a then
        (case rest of
           [] \<Rightarrow> SimRejected (a @ '' requires a value'')
         | v # rest' \<Rightarrow>
             (case set_sim_option l a v opt of
                None \<Rightarrow> SimRejected []
              | Some opt' \<Rightarrow> sim_parse_args l rest' opt'))
      else SimRejected (''Unknown or invalid option: '' @ a))"

definition sim_validate :: "('d, 'g, 'n) sim_lib \<Rightarrow> 'd SimOptions \<Rightarrow> bool" where
  "sim_validate l opt =
     (let zero = sl_lit l ''0'';
          one = (\<lambda>b. if b then 1 else 0 :: nat);
          outputs = one (so_uart_device opt \<noteq> None) + one (so_udp opt \<noteq> None) + one (so_file opt \<noteq> None)
            + one (so_use_stdout opt);
          rates = [so_temp_hz opt, so_pressure_hz opt, so_humidity_hz opt, so_position_hz opt, so_wind_hz opt];
          eq0 = (\<lambda>x. ar_eq (db_arithmetic (sl_db l)) x zero)
      in if outputs \<noteq> 1 then False
         else if list_ex (\<lambda>x. sl_less l x zero) rates then False
         else if list_all eq0 rates then False
         else if sl_less l (so_duration_sec opt) zero
           \<or> sl_less l (so_log_every_sec opt) zero \<or> eq0 (so_log_every_sec opt)
           \<or> sl_less l (so_bad_checksum_percent opt) zero \<or> sl_less l (so_truncated_percent opt) zero
           \<or> sl_less l (sl_lit l ''100'')
               (db_add (sl_db l) (so_bad_checksum_percent opt) (so_truncated_percent opt)) then False
         else True)"

section \<open>Endpoints\<close>

definition to_speed :: "int \<Rightarrow> int" where
  "to_speed baud = (if baud \<in> set [9600, 19200, 38400, 57600, 115200] then baud else 0)"

text \<open>
  The system calls of an endpoint: the results while it is opened, and what writing to it does.
\<close>

record 'w endpoint_os =
  eo_open :: int
  eo_tcgetattr :: int
  eo_cfset :: "int \<times> int"
  eo_tcsetattr :: int
  eo_socket :: int
  eo_inet_pton :: "string \<Rightarrow> u32 option"
  eo_file_good :: bool
  eo_write :: "string \<Rightarrow> 'w \<Rightarrow> int \<times> 'w"
  eo_sendto :: "u32 \<Rightarrow> u16 \<Rightarrow> string \<Rightarrow> 'w \<Rightarrow> int \<times> 'w"
  eo_ofstream_write :: "string \<Rightarrow> 'w \<Rightarrow> bool \<times> 'w"
  eo_cout_write :: "string \<Rightarrow> 'w \<Rightarrow> bool \<times> 'w"

datatype sink = UartSink int | UdpSink int u32 u16 | FileSink | StdoutSink

text \<open>Opening gives the endpoint, and the descriptors closed when the attempt is given up.\<close>

definition uart_endpoint_open :: "'w endpoint_os \<Rightarrow> int \<Rightarrow> sink option \<times> int list" where
  "uart_endpoint_open os baud =
     (let fd = eo_open os
      in if fd < 0 then (None, [])
         else if eo_tcgetattr os \<noteq> 0 then (None, [fd])
         else if to_speed baud = 0 then (None, [fd])
         else if fst (eo_cfset os) \<noteq> 0 \<or> snd (eo_cfset os) \<noteq> 0 then (None, [fd])
         else if eo_tcsetattr os \<noteq> 0 then (None, [fd])
         else (Some (UartSink fd), []))"

definition udp_endpoint_open :: "'w endpoint_os \<Rightarrow> UdpEndpoint \<Rightarrow> sink option \<times> int list" where
  "udp_endpoint_open os ep =
     (let fd = eo_socket os
      in if fd < 0 then (None, [])
         else case eo_inet_pton os (ep_host ep) of
           None \<Rightarrow> (None, [fd])
         | Some addr \<Rightarrow> (Some (UdpSink fd addr (ep_port ep)), []))"

definition create_transmitter :: "'w endpoint_os \<Rightarrow> 'd SimOptions \<Rightarrow> sink option \<times> int list" where
  "create_transmitter os opt =
     (case so_uart_device opt of
        Some device \<Rightarrow> uart_endpoint_open os (so_uart_baud opt)
      | None \<Rightarrow>
          (case so_udp opt of
             Some ep \<Rightarrow> udp_endpoint_open os ep
           | None \<Rightarrow>
               (case so_file opt of
                  Some path \<Rightarrow> (if eo_file_good os then (Some FileSink, []) else (None, []))
                | None \<Rightarrow> (if so_use_stdout opt then (Some StdoutSink, []) else (None, [])))))"

text \<open>The loop of the UART ends because each successful write makes the rest shorter.\<close>

function uart_send :: "(string \<Rightarrow> 'w \<Rightarrow> int \<times> 'w) \<Rightarrow> string \<Rightarrow> 'w \<Rightarrow> bool \<times> 'w" where
  "uart_send write p w =
     (if p = [] then (True, w)
      else case write p w of (n, w1) \<Rightarrow> if n \<le> 0 then (False, w1) else uart_send write (drop (nat n) p) w1)"
  by pat_completeness auto
termination by (relation "measure (\<lambda>(write, p, w). length p)") auto

declare uart_send.simps [simp del]

definition sink_send :: "'w endpoint_os \<Rightarrow> sink \<Rightarrow> string \<Rightarrow> 'w \<Rightarrow> bool \<times> 'w" where
  "sink_send os sink bytes w =
     (case sink of
        UartSink fd \<Rightarrow> if fd < 0 then (False, w) else uart_send (eo_write os) bytes w
      | UdpSink fd addr port \<Rightarrow>
          if fd < 0 then (False, w)
          else (case eo_sendto os addr port bytes w of (n, w1) \<Rightarrow> (n = int (length bytes), w1))
      | FileSink \<Rightarrow> eo_ofstream_write os bytes w
      | StdoutSink \<Rightarrow> eo_cout_write os bytes w)"

section \<open>The application\<close>

record ('d, 'g, 'n) NmeaSimApp =
  ap_opt :: "'d SimOptions"
  ap_sched :: "'d Stream list"
  ap_temp_gen :: "('d, 'g, 'n) ValueGenerator"
  ap_pressure_gen :: "('d, 'g, 'n) ValueGenerator"
  ap_humidity_gen :: "('d, 'g, 'n) ValueGenerator"
  ap_lat_gen :: "('d, 'g, 'n) ValueGenerator"
  ap_lon_gen :: "('d, 'g, 'n) ValueGenerator"
  ap_wind_gen :: "('d, 'g, 'n) ValueGenerator"
  ap_fault_rng :: 'g

definition NmeaSimApp :: "('d, 'g, 'n) sim_lib \<Rightarrow> 'd SimOptions \<Rightarrow> ('d, 'g, 'n) NmeaSimApp" where
  "NmeaSimApp l opt =
     (let gen = (\<lambda>k. ValueGenerator l (so_gen opt) (so_seed opt + k))
      in \<lparr>ap_opt = opt, ap_sched = [],
          ap_temp_gen = gen 1 ''22.0'' ''5.0'' ''0.05'' ''0.02'',
          ap_pressure_gen = gen 2 ''1013.25'' ''2.0'' ''0.02'' ''0.10'',
          ap_humidity_gen = gen 3 ''45.0'' ''10.0'' ''0.03'' ''0.20'',
          ap_lat_gen = gen 4 ''43.1566'' ''0.001'' ''0.01'' ''0.00005'',
          ap_lon_gen = gen 5 ''-77.6088'' ''0.001'' ''0.01'' ''0.00005'',
          ap_wind_gen = gen 6 ''5.0'' ''2.0'' ''0.07'' ''0.10'',
          ap_fault_rng = sl_engine l (so_seed opt + 100)\<rparr>)"

text \<open>\<open>clock k\<close> is the reading of the clock when stream \<open>k\<close> is added.\<close>

definition initStreams ::
  "('d, 'g, 'n) sim_lib \<Rightarrow> (nat \<Rightarrow> int) \<Rightarrow> ('d, 'g, 'n) NmeaSimApp \<Rightarrow> ('d, 'g, 'n) NmeaSimApp" where
  "initStreams l clock a =
     (let o1 = ap_opt a; add = (\<lambda>i hz. addStream l (clock i) i hz)
      in a\<lparr>ap_sched := add 5 (so_wind_hz o1) (add 4 (so_position_hz o1) (add 3 (so_humidity_hz o1)
            (add 2 (so_pressure_hz o1) (add 1 (so_temp_hz o1) (ap_sched a)))))\<rparr>)"

definition sendSentence ::
  "('d, 'g, 'n) sim_lib \<Rightarrow> (string \<Rightarrow> 'w \<Rightarrow> bool \<times> 'w) \<Rightarrow> string \<Rightarrow> ('d, 'g, 'n) NmeaSimApp \<Rightarrow> 'w
    \<Rightarrow> bool \<times> ('d, 'g, 'n) NmeaSimApp \<times> 'w" where
  "sendSentence l send sentence a w =
     (let (r, rng) = sl_uniform_real l (sl_lit l ''0.0'') (sl_lit l ''100.0'') (ap_fault_rng a);
          bad = so_bad_checksum_percent (ap_opt a);
          (out, rng1) =
            (if sl_less l r bad then (corrupt_bad_checksum sentence, rng)
             else if sl_less l r (db_add (sl_db l) bad (so_truncated_percent (ap_opt a)))
             then corrupt_truncate l sentence rng
             else (sentence, rng));
          (ok, w1) = send out w
      in (ok, a\<lparr>ap_fault_rng := rng1\<rparr>, w1))"

text \<open>The body of the sentence for a stream, and the application with its generator advanced.\<close>

definition reading_text :: "('d, 'g, 'n) sim_lib \<Rightarrow> nat \<Rightarrow> 'd \<Rightarrow> string" where
  "reading_text l digits v = db_fixed (sl_db l) digits v"

definition temperature_body where
  "temperature_body l dt a =
     (let (v, g) = next_value l dt (ap_temp_gen a)
      in (''PBOOK,TEMP,'' @ reading_text l 2 v @ '',C'', a\<lparr>ap_temp_gen := g\<rparr>))"

definition pressure_body where
  "pressure_body l dt a =
     (let (v, g) = next_value l dt (ap_pressure_gen a)
      in (''PBOOK,PRESS,'' @ reading_text l 2 v @ '',hPa'', a\<lparr>ap_pressure_gen := g\<rparr>))"

definition humidity_body where
  "humidity_body l dt a =
     (let (v, g) = next_value l dt (ap_humidity_gen a)
      in (''PBOOK,HUM,'' @ reading_text l 1 v @ '',percent'', a\<lparr>ap_humidity_gen := g\<rparr>))"

definition position_body where
  "position_body l dt a =
     (let (lat, g) = next_value l dt (ap_lat_gen a); (lon, h) = next_value l dt (ap_lon_gen a)
      in (''PBOOK,POS,'' @ reading_text l 6 lat @ '','' @ reading_text l 6 lon @ '',m'',
          a\<lparr>ap_lat_gen := g, ap_lon_gen := h\<rparr>))"

definition wind_body where
  "wind_body l dt a =
     (let (v, g) = next_value l dt (ap_wind_gen a)
      in (''PBOOK,WIND,'' @ reading_text l 2 v @ '',mps'', a\<lparr>ap_wind_gen := g\<rparr>))"

definition stream_body where
  "stream_body l i dt a =
     (if i = 1 then Some (temperature_body l dt a)
      else if i = 2 then Some (pressure_body l dt a)
      else if i = 3 then Some (humidity_body l dt a)
      else if i = 4 then Some (position_body l dt a)
      else if i = (5 :: nat) then Some (wind_body l dt a)
      else None)"

definition emit_stream ::
  "('d, 'g, 'n) sim_lib \<Rightarrow> (string \<Rightarrow> 'w \<Rightarrow> bool \<times> 'w) \<Rightarrow> nat \<Rightarrow> 'd \<Rightarrow> ('d, 'g, 'n) NmeaSimApp \<Rightarrow> 'w
    \<Rightarrow> bool \<times> ('d, 'g, 'n) NmeaSimApp \<times> 'w" where
  "emit_stream l send i dt a w =
     (case stream_body l i dt a of
        None \<Rightarrow> (False, a, w)
      | Some (body, a1) \<Rightarrow> sendSentence l send (make_sentence body) a1 w)"

record ('d, 'g, 'n, 'w) sim_run =
  sr_app :: "('d, 'g, 'n) NmeaSimApp"
  sr_world :: 'w
  sr_sent :: u64
  sr_send_fail :: u64
  sr_next_log :: int
  sr_log :: "string list"

definition log_interval :: "('d, 'g, 'n) sim_lib \<Rightarrow> ('d, 'g, 'n) NmeaSimApp \<Rightarrow> int" where
  "log_interval l a = sl_duration_cast l (so_log_every_sec (ap_opt a))"

text \<open>One pass of the loop, after the test of the duration, with the readings \<open>fire\<close> and \<open>after\<close>.\<close>

definition sim_pass ::
  "('d, 'g, 'n) sim_lib \<Rightarrow> (string \<Rightarrow> 'w \<Rightarrow> bool \<times> 'w) \<Rightarrow> int \<Rightarrow> int \<Rightarrow> ('d, 'g, 'n, 'w) sim_run
    \<Rightarrow> ('d, 'g, 'n, 'w) sim_run" where
  "sim_pass l send fire after s =
     (let st = nextStream (ap_sched (sr_app s));
          dt = sl_seconds l (fire - sm_last_fire st);
          (ok, a1, w1) = emit_stream l send (sm_id st) dt (sr_app s) (sr_world s);
          sent = (if ok then sr_sent s + 1 else sr_sent s);
          failed = (if ok then sr_send_fail s else sr_send_fail s + 1);
          a2 = a1\<lparr>ap_sched := markFired l (sm_id st) fire (ap_sched a1)\<rparr>;
          logged = (\<not> so_use_stdout (ap_opt a2) \<and> after \<ge> sr_next_log s)
      in \<lparr>sr_app = a2, sr_world = w1, sr_sent = sent, sr_send_fail = failed,
          sr_next_log = (if logged then after + log_interval l a2 else sr_next_log s),
          sr_log = (if logged then sr_log s @ [''nmea_sim: sent='' @ show_nat (unat sent) @ '' fail=''
             @ show_nat (unat failed)] else sr_log s)\<rparr>)"

definition time_over :: "('d, 'g, 'n) sim_lib \<Rightarrow> 'd SimOptions \<Rightarrow> int \<Rightarrow> int \<Rightarrow> bool" where
  "time_over l opt start time \<longleftrightarrow>
     sl_less l (sl_lit l ''0.0'') (so_duration_sec opt)
   \<and> ar_ge (db_arithmetic (sl_db l)) (sl_seconds l (time - start)) (so_duration_sec opt)"

text \<open>No exit code: the readings are used up and the simulator is still running.\<close>

primrec sim_loop ::
  "('d, 'g, 'n) sim_lib \<Rightarrow> (string \<Rightarrow> 'w \<Rightarrow> bool \<times> 'w) \<Rightarrow> int \<Rightarrow> (int \<times> int \<times> int) list
    \<Rightarrow> ('d, 'g, 'n, 'w) sim_run \<Rightarrow> int option \<times> ('d, 'g, 'n, 'w) sim_run" where
  "sim_loop l send start [] s = (None, s)"
| "sim_loop l send start (r # readings) s =
     (if time_over l (ap_opt (sr_app s)) start (fst r)
      then (Some 0, s\<lparr>sr_log := sr_log s @ (if so_use_stdout (ap_opt (sr_app s)) then [] else [''nmea_sim: done''])\<rparr>)
      else sim_loop l send start readings (sim_pass l send (fst (snd r)) (snd (snd r)) s))"

definition sim_app_run ::
  "('d, 'g, 'n) sim_lib \<Rightarrow> (string \<Rightarrow> 'w \<Rightarrow> bool \<times> 'w) \<Rightarrow> (nat \<Rightarrow> int) \<Rightarrow> int \<Rightarrow> (int \<times> int \<times> int) list
    \<Rightarrow> ('d, 'g, 'n) NmeaSimApp \<Rightarrow> 'w \<Rightarrow> int option \<times> ('d, 'g, 'n, 'w) sim_run" where
  "sim_app_run l send clock start readings a w =
     (let a1 = initStreams l clock a;
          s = \<lparr>sr_app = a1, sr_world = w, sr_sent = 0, sr_send_fail = 0, sr_next_log = start + log_interval l a1,
               sr_log = []\<rparr>
      in if ap_sched a1 = []
         then (Some 2, s\<lparr>sr_log := [''No streams enabled. Set at least one stream rate.'']\<rparr>)
         else sim_loop l send start readings s)"

text \<open>\<open>main\<close>: the exit code and the run, if there was one.\<close>

definition sim_main ::
  "('d, 'g, 'n) sim_lib \<Rightarrow> 'w endpoint_os \<Rightarrow> (nat \<Rightarrow> int) \<Rightarrow> int \<Rightarrow> (int \<times> int \<times> int) list \<Rightarrow> string list \<Rightarrow> 'w
    \<Rightarrow> int option \<times> ('d, 'g, 'n, 'w) sim_run option" where
  "sim_main l os clock start readings args w =
     (case sim_parse_args l args (defaultSimOptions l) of
        SimHelp \<Rightarrow> (Some 0, None)
      | SimRejected message \<Rightarrow> (Some 2, None)
      | SimParsed opt \<Rightarrow>
          if \<not> sim_validate l opt then (Some 2, None)
          else (case create_transmitter os opt of
            (None, released) \<Rightarrow> (Some 2, None)
          | (Some sink, released) \<Rightarrow>
              (case sim_app_run l (sink_send os sink) clock start readings (NmeaSimApp l opt) w of
                 (exit, s) \<Rightarrow> (exit, Some s))))"

section \<open>The sentences and the tokenizer\<close>

lemma make_sentence_eq:
  "make_sentence body = CHR ''$'' # body @ [CHR ''*'', hex_table ! unat (drop_bit 4 (computeXor body) AND 0xF),
     hex_table ! unat (computeXor body AND 0xF)] @ CRLF"
  by (simp add: make_sentence_def computeXor_def Let_def)

lemma strip_CRLF: "\<not> is_eol c \<Longrightarrow> strip_eol (xs @ c # CRLF) = xs @ [c]"
  by (subst strip_eol_keep) (auto simp: CRLF_def strip_eol_def is_eol_def)

lemma strip_plain: "list_all (\<lambda>c. \<not> is_eol c) t \<Longrightarrow> t \<noteq> [] \<Longrightarrow> strip_eol (t @ CRLF) = t"
  by (cases t rule: rev_cases) (simp_all add: strip_CRLF)

text \<open>A sentence of any two digits after the star.\<close>

definition with_digits :: "string \<Rightarrow> char \<Rightarrow> char \<Rightarrow> string" where
  "with_digits body h1 h2 = CHR ''$'' # body @ [CHR ''*'', h1, h2] @ CRLF"

lemma with_digits_framed:
  assumes "CHR ''*'' \<notin> set body" "isHexDigit h1" "isHexDigit h2"
  shows "framed (with_digits body h1 h2) body h1 h2 []"
proof -
  have "strip_eol ((CHR ''$'' # body @ [CHR ''*'', h1]) @ h2 # CRLF) = (CHR ''$'' # body @ [CHR ''*'', h1]) @ [h2]"
    by (rule strip_CRLF) (rule not_eol_hex [OF assms(3)])
  then show ?thesis using assms by (simp add: with_digits_def framed_def)
qed

abbreviation hex_hi :: "string \<Rightarrow> char" where "hex_hi body \<equiv> hex_table ! unat (drop_bit 4 (computeXor body) AND 0xF)"
abbreviation hex_lo :: "string \<Rightarrow> char" where "hex_lo body \<equiv> hex_table ! unat (computeXor body AND 0xF)"

lemma hex_digits: "isHexDigit (hex_hi body)" "isHexDigit (hex_lo body)"
  using hex_table_digit nibble_less by simp_all

lemma make_sentence_digits: "make_sentence body = with_digits body (hex_hi body) (hex_lo body)"
  by (simp add: make_sentence_eq with_digits_def)

text \<open>Whatever is sent without damage is accepted, with the fields that were put in.\<close>

definition sentence_of :: "string list \<Rightarrow> string" where
  "sentence_of ws = make_sentence (''PBOOK'' @ join CHR '','' ws)"

lemma body_no_star: "list_all no_delim ws \<Longrightarrow> CHR ''*'' \<notin> set (''PBOOK'' @ join CHR '','' ws)"
  using star_join by simp

lemma sentence_accepted:
  assumes "list_all no_delim ws" "ws \<noteq> []"
  shows "t_valid (Tokenizer d (sentence_of ws)) \<and> t_identifier (Tokenizer d (sentence_of ws)) = ''PBOOK''
    \<and> t_fields (Tokenizer d (sentence_of ws)) = ws"
proof -
  let ?b = "''PBOOK'' @ join CHR '','' ws"
  obtain w ws' where ws: "ws = w # ws'" using assms(2) by (cases ws) auto
  have f: "framed (sentence_of ws) ?b (hex_hi ?b) (hex_lo ?b) []"
    unfolding sentence_of_def make_sentence_digits by (rule with_digits_framed [OF body_no_star [OF assms(1)] hex_digits])
  have sum: "hex_byte (hex_hi ?b) (hex_lo ?b) = computeXor ?b" by (rule hex_roundtrip)
  have "split CHR '','' (w @ join CHR '','' ws') = ws"
    using assms(1) unfolding ws by (subst split_join) (auto simp: list_all_iff no_delim_def)
  moreover have "body_ok ?b" by (simp add: ws body_ok_def join_Cons)
  moreover from this have "t_valid (Tokenizer d (sentence_of ws))" using framed_valid_iff [OF f] sum by simp
  ultimately show ?thesis
    using Tokenizer_framed [OF f, of d] sum
    by (simp add: ws parseBody_def join_Cons framed_tokenizer_def substr_def t_fields_def)
qed

definition flipped :: "char \<Rightarrow> char" where "flipped h = (if h = CHR ''0'' then CHR ''1'' else CHR ''0'')"

lemma corrupt_bad_digits:
  "CHR ''*'' \<notin> set body \<Longrightarrow> corrupt_bad_checksum (with_digits body h1 h2) = with_digits body (flipped h1) h2"
proof -
  assume "CHR ''*'' \<notin> set body"
  then have "find_char CHR ''*'' ((CHR ''$'' # body) @ CHR ''*'' # h1 # h2 # CRLF) = Some (length (CHR ''$'' # body))"
    by (intro find_char_append) simp
  then show ?thesis
    by (simp add: corrupt_bad_checksum_def with_digits_def flipped_def nth_append list_update_append)
qed

lemma hex_byte_high:
  assumes "0 \<le> hexValue h2" "hexValue h2 < 16"
  shows "drop_bit 4 (hex_byte h1 h2) = take_bit 4 (word_of_int (hexValue h1))"
proof -
  have "take_bit 4 (hexValue h2) = hexValue h2" using assms by (simp add: take_bit_int_eq_self)
  then have "bit (hexValue h2) (4 + n) = bit (take_bit 4 (hexValue h2)) (4 + n)" for n by (rule arg_cong [OF sym])
  then have low: "\<not> bit (hexValue h2) (4 + n)" for n by (simp add: bit_take_bit_iff)
  show ?thesis
    unfolding hex_byte_def by (rule bit_word_eqI) (auto simp: bit_simps low)
qed

lemma flipped_other:
  assumes "i < 16" "j < 16"
  shows "hex_byte (flipped (hex_table ! i)) (hex_table ! j) \<noteq> hex_byte (hex_table ! i) (hex_table ! j)"
proof
  assume eq: "hex_byte (flipped (hex_table ! i)) (hex_table ! j) = hex_byte (hex_table ! i) (hex_table ! j)"
  have i: "hexValue (hex_table ! i) = int i" and j: "hexValue (hex_table ! j) = int j"
    using hex_table_digit assms by simp_all
  have zero: "hexValue CHR ''0'' = 0" "hexValue CHR ''1'' = 1"
    by (simp_all add: hexValue_def in_chars_def code_def)
  have "hex_table ! 0 = CHR ''0''" by (simp add: hex_table_def)
  note zero = zero this
  have "drop_bit 4 (hex_byte (flipped (hex_table ! i)) (hex_table ! j)) = drop_bit 4 (hex_byte (hex_table ! i) (hex_table ! j))"
    by (simp only: eq)
  then have "take_bit 4 (word_of_int (hexValue (flipped (hex_table ! i))) :: u8) = take_bit 4 (word_of_int (int i))"
    using assms(2) by (simp add: hex_byte_high i j)
  then have "uint (take_bit 4 (word_of_int (hexValue (flipped (hex_table ! i))) :: u8)) = int i"
    using assms(1) by (simp add: unsigned_take_bit_eq unsigned_of_nat take_bit_int_eq_self take_bit_nat_eq_self)
  moreover have "take_bit 8 i = i" using assms(1) by (simp add: take_bit_nat_eq_self)
  ultimately show False
    using i zero by (auto simp: flipped_def unsigned_take_bit_eq take_bit_int_eq_self split: if_splits)
qed

lemma bad_checksum_rejected:
  assumes "CHR ''*'' \<notin> set body"
  shows "\<not> t_valid (Tokenizer d (corrupt_bad_checksum (make_sentence body)))"
proof -
  have "isHexDigit (flipped h)" for h by (simp add: flipped_def isHexDigit_def in_chars_def code_def)
  from with_digits_framed [OF assms this hex_digits(2), of "hex_hi body" body]
  have f: "framed (with_digits body (flipped (hex_hi body)) (hex_lo body)) body (flipped (hex_hi body)) (hex_lo body) []" .
  have "hex_byte (flipped (hex_hi body)) (hex_lo body) \<noteq> hex_byte (hex_hi body) (hex_lo body)"
    by (rule flipped_other) (rule nibble_less)+
  then show ?thesis
    using framed_valid_iff [OF f] hex_roundtrip [of "computeXor body"]
    by (simp add: make_sentence_digits corrupt_bad_digits [OF assms])
qed

lemma first_star_unique:
  assumes "CHR ''*'' \<notin> set xs" "CHR ''*'' \<notin> set ys" "xs @ CHR ''*'' # us = ys @ CHR ''*'' # vs"
  shows "xs = ys"
proof -
  have "length xs = length ys"
    using find_char_append [OF assms(1), of us] find_char_append [OF assms(2), of vs] assms(3) by simp
  then show ?thesis using assms(3) by simp
qed

text \<open>Truncation is noticed unless nothing is cut off.\<close>

lemma truncated_rejected:
  assumes "CHR ''*'' \<notin> set body" "list_all (\<lambda>c. \<not> is_eol c) body" "1 \<le> n" "n < length (make_sentence body) - 2"
  shows "\<not> t_valid (Tokenizer d (take n (make_sentence body) @ CRLF))"
proof
  let ?s = "CHR ''$'' # body @ [CHR ''*'', hex_hi body, hex_lo body]"
  have len: "n < length ?s" using assms(4) by (simp add: make_sentence_eq CRLF_def)
  have "make_sentence body = ?s @ CRLF" by (simp add: make_sentence_eq)
  then have t: "take n (make_sentence body) = take n ?s" using len by (simp only: take_append) simp
  have clean: "list_all (\<lambda>c. \<not> is_eol c) ?s"
  proof -
    have "\<not> is_eol (hex_hi body)" "\<not> is_eol (hex_lo body)" using not_eol_hex hex_digits by blast+
    moreover have "\<not> is_eol CHR ''$''" "\<not> is_eol CHR ''*''" by (simp_all add: is_eol_def)
    ultimately show ?thesis using assms(2) by simp
  qed
  then have "list_all (\<lambda>c. \<not> is_eol c) (take n ?s)" unfolding list_all_iff by (blast dest: in_set_takeD)
  moreover have "take n ?s \<noteq> []" using assms(3) by (cases n) simp_all
  ultimately have strip: "strip_eol (take n ?s @ CRLF) = take n ?s" by (rule strip_plain)
  assume "t_valid (Tokenizer d (take n (make_sentence body) @ CRLF))"
  then obtain b h1 h2 rest where "framed (take n ?s @ CRLF) b h1 h2 rest"
    using unframed_invalid unfolding t_valid_def t by blast
  then have eq: "take n ?s = (CHR ''$'' # b) @ CHR ''*'' # h1 # h2 # rest" "CHR ''*'' \<notin> set b"
    by (simp_all add: framed_def strip)
  have "(CHR ''$'' # body) @ CHR ''*'' # [hex_hi body, hex_lo body] = take n ?s @ drop n ?s" by simp
  also have "\<dots> = (CHR ''$'' # b) @ CHR ''*'' # (h1 # h2 # rest @ drop n ?s)" unfolding eq(1) by simp
  finally have "CHR ''$'' # body = CHR ''$'' # b"
    by (rule first_star_unique [rotated 2]) (use assms(1) eq(2) in simp_all)
  then have "length b = length body" by simp
  moreover have "length (take n ?s) = length b + length rest + 4" unfolding eq(1) by simp
  moreover have "length (take n ?s) = n" using len by (simp only: length_take min.absorb4)
  moreover have "n < length body + 4" using len by simp
  ultimately show False by linarith
qed

lemma truncated_whole: "take (length (make_sentence body) - 2) (make_sentence body) @ CRLF = make_sentence body"
  by (simp add: make_sentence_eq CRLF_def)

section \<open>The schedule\<close>

lemma nextStream_earliest:
  "streams \<noteq> [] \<Longrightarrow> nextStream streams \<in> set streams \<and> (\<forall>s \<in> set streams. sm_next_due (nextStream streams) \<le> sm_next_due s)"
proof (induction streams rule: nextStream.induct)
  case (2 a b streams)
  let ?c = "if sm_next_due b < sm_next_due a then b else a"
  have "sm_next_due ?c \<le> sm_next_due a" "sm_next_due ?c \<le> sm_next_due b" by simp_all
  then show ?case using 2 by (force split: if_splits)
qed simp_all

lemma markFired_Nil [simp]: "markFired l i time streams = [] \<longleftrightarrow> streams = []"
  by (cases streams) simp_all

section \<open>What is sent\<close>

text \<open>What is used of the library: the text of a number has no delimiter and no line end, and a draw from a
range is in it.\<close>

definition sim_laws :: "('d, 'g, 'n) sim_lib \<Rightarrow> bool" where
  "sim_laws l \<longleftrightarrow>
     (\<forall>k v. no_delim (db_fixed (sl_db l) k v) \<and> list_all (\<lambda>c. \<not> is_eol c) (db_fixed (sl_db l) k v))
   \<and> (\<forall>lo hi g. lo \<le> hi \<longrightarrow> lo \<le> fst (sl_uniform_int l lo hi g) \<and> fst (sl_uniform_int l lo hi g) \<le> hi)"

definition stream_fields :: "('d, 'g, 'n) sim_lib \<Rightarrow> nat \<Rightarrow> 'd \<Rightarrow> ('d, 'g, 'n) NmeaSimApp \<Rightarrow> string list" where
  "stream_fields l i dt a =
     (let v = (\<lambda>k g. db_fixed (sl_db l) k (fst (next_value l dt g)))
      in if i = 1 then [''TEMP'', v 2 (ap_temp_gen a), ''C'']
         else if i = 2 then [''PRESS'', v 2 (ap_pressure_gen a), ''hPa'']
         else if i = 3 then [''HUM'', v 1 (ap_humidity_gen a), ''percent'']
         else if i = 4 then [''POS'', v 6 (ap_lat_gen a), v 6 (ap_lon_gen a), ''m'']
         else [''WIND'', v 2 (ap_wind_gen a), ''mps''])"

lemma no_delim_words:
  "no_delim ''TEMP''" "no_delim ''PRESS''" "no_delim ''HUM''" "no_delim ''POS''" "no_delim ''WIND''"
  "no_delim ''C''" "no_delim ''hPa''" "no_delim ''percent''" "no_delim ''m''" "no_delim ''mps''"
  by (simp_all add: no_delim_def)

lemma stream_fields_ok:
  "sim_laws l \<Longrightarrow> list_all no_delim (stream_fields l i dt a) \<and> stream_fields l i dt a \<noteq> []"
  by (simp add: stream_fields_def sim_laws_def no_delim_words Let_def)

lemma join_no_eol:
  "list_all (list_all (\<lambda>c. \<not> is_eol c)) ws \<Longrightarrow> list_all (\<lambda>c. \<not> is_eol c) (join CHR '','' ws)"
  by (induction ws) (simp_all add: join_Cons is_eol_def)

lemma stream_fields_eol: "sim_laws l \<Longrightarrow> list_all (list_all (\<lambda>c. \<not> is_eol c)) (stream_fields l i dt a)"
  by (simp add: stream_fields_def sim_laws_def is_eol_def Let_def)

lemma stream_body_fields:
  assumes "i \<in> {1..5}"
  shows "\<exists>a1. stream_body l i dt a = Some (''PBOOK'' @ join CHR '','' (stream_fields l i dt a), a1)
    \<and> ap_opt a1 = ap_opt a \<and> ap_sched a1 = ap_sched a \<and> ap_fault_rng a1 = ap_fault_rng a"
proof -
  note bodies = temperature_body_def pressure_body_def humidity_body_def position_body_def wind_body_def
  consider "i = 1" | "i = 2" | "i = 3" | "i = 4" | "i = 5" using assms by fastforce
  then show ?thesis
    by cases (simp_all add: stream_body_def stream_fields_def bodies reading_text_def join_Cons split_beta)
qed

definition fault_draw :: "('d, 'g, 'n) sim_lib \<Rightarrow> ('d, 'g, 'n) NmeaSimApp \<Rightarrow> 'd" where
  "fault_draw l a = fst (sl_uniform_real l (sl_lit l ''0.0'') (sl_lit l ''100.0'') (ap_fault_rng a))"

definition fault_limit :: "('d, 'g, 'n) sim_lib \<Rightarrow> 'd SimOptions \<Rightarrow> 'd" where
  "fault_limit l opt = db_add (sl_db l) (so_bad_checksum_percent opt) (so_truncated_percent opt)"

lemma emit_stream_sends:
  assumes laws: "sim_laws l" and i: "i \<in> {1..5}"
    and emit: "emit_stream l send i dt a w = (ok, a', w')"
  shows "\<exists>out. send out w = (ok, w') \<and> ap_opt a' = ap_opt a \<and> ap_sched a' = ap_sched a
     \<and> (let t = Tokenizer d out; whole = sentence_of (stream_fields l i dt a)
        in if sl_less l (fault_draw l a) (so_bad_checksum_percent (ap_opt a)) then \<not> t_valid t
           else if sl_less l (fault_draw l a) (fault_limit l (ap_opt a)) then t_valid t \<longleftrightarrow> out = whole
           else out = whole \<and> t_valid t \<and> t_identifier t = ''PBOOK'' \<and> t_fields t = stream_fields l i dt a)"
proof -
  let ?ws = "stream_fields l i dt a"
  let ?b = "''PBOOK'' @ join CHR '','' ?ws"
  obtain a1 where b: "stream_body l i dt a = Some (?b, a1)"
    "ap_opt a1 = ap_opt a" "ap_sched a1 = ap_sched a" "ap_fault_rng a1 = ap_fault_rng a"
    using stream_body_fields [OF i, of l dt a] by blast
  have ws: "list_all no_delim ?ws" "?ws \<noteq> []" using stream_fields_ok [OF laws] by blast+
  note whole = sentence_accepted [OF ws, of d]
  have star: "CHR ''*'' \<notin> set ?b" by (rule body_no_star [OF ws(1)])
  have eol: "list_all (\<lambda>c. \<not> is_eol c) ?b"
    using join_no_eol [OF stream_fields_eol [OF laws]] by (simp add: is_eol_def)
  obtain r rng where r: "sl_uniform_real l (sl_lit l ''0.0'') (sl_lit l ''100.0'') (ap_fault_rng a) = (r, rng)" by fastforce
  then have draw: "fault_draw l a = r" by (simp add: fault_draw_def)
  show ?thesis
  proof (cases "sl_less l r (so_bad_checksum_percent (ap_opt a))")
    case True
    let ?out = "corrupt_bad_checksum (make_sentence ?b)"
    have "send ?out w = (ok, w') \<and> ap_opt a' = ap_opt a \<and> ap_sched a' = ap_sched a"
      using emit True
      by (auto simp: emit_stream_def b r sendSentence_def Let_def split_beta prod_eq_iff simp del: append.simps join_simps)
    then show ?thesis using True bad_checksum_rejected [OF star, of d]
      by (intro exI [of _ ?out]) (simp add: draw Let_def del: append.simps join_simps)
  next
    case bad: False
    show ?thesis
    proof (cases "sl_less l r (fault_limit l (ap_opt a))")
      case True
      obtain n rng1 where n: "sl_uniform_int l 1 (length (sentence_of ?ws) - 2) rng = (n, rng1)" by fastforce
      have long: "length (sentence_of ?ws) > 4" by (simp add: sentence_of_def make_sentence_eq)
      have "1 \<le> length (sentence_of ?ws) - 2" using long by simp
      then have range_n: "1 \<le> n" "n \<le> length (sentence_of ?ws) - 2"
        using laws n by (metis fst_conv sim_laws_def)+
      let ?out = "take n (sentence_of ?ws) @ CRLF"
      have out: "t_valid (Tokenizer d ?out) \<longleftrightarrow> ?out = sentence_of ?ws"
      proof (cases "n = length (sentence_of ?ws) - 2")
        case True
        then have "?out = sentence_of ?ws" unfolding sentence_of_def using truncated_whole by simp
        then show ?thesis using whole by simp
      next
        case False
        then have "n < length (sentence_of ?ws) - 2" using range_n by simp
        then have "\<not> t_valid (Tokenizer d ?out)"
          using truncated_rejected [OF star eol range_n(1)] unfolding sentence_of_def by blast
        then show ?thesis using whole by metis
      qed
      have "send ?out w = (ok, w') \<and> ap_opt a' = ap_opt a \<and> ap_sched a' = ap_sched a"
        using emit bad True n long
        by (auto simp: emit_stream_def b r sendSentence_def corrupt_truncate_def Let_def fault_limit_def
            sentence_of_def [symmetric] split_beta prod_eq_iff simp del: append.simps join_simps)
      then show ?thesis using bad True out by (intro exI [of _ ?out]) (simp add: draw Let_def)
    next
      case False
      have "send (sentence_of ?ws) w = (ok, w') \<and> ap_opt a' = ap_opt a \<and> ap_sched a' = ap_sched a"
        using emit bad False
        by (auto simp: emit_stream_def b r sendSentence_def Let_def fault_limit_def
            sentence_of_def [symmetric] split_beta prod_eq_iff simp del: append.simps join_simps)
      then show ?thesis using bad False whole by (intro exI [of _ "sentence_of ?ws"]) (simp add: draw Let_def)
    qed
  qed
qed

text \<open>An endpoint that keeps the texts it is given, and takes those that \<open>accepts\<close> holds of.\<close>

definition logging :: "(string \<Rightarrow> bool) \<Rightarrow> string \<Rightarrow> string list \<Rightarrow> bool \<times> string list" where
  "logging accepts t w = (accepts t, w @ [t])"

definition never_faulty :: "('d, 'g, 'n) sim_lib \<Rightarrow> 'd SimOptions \<Rightarrow> bool" where
  "never_faulty l opt \<longleftrightarrow>
     (\<forall>g. let r = fst (sl_uniform_real l (sl_lit l ''0.0'') (sl_lit l ''100.0'') g)
          in \<not> sl_less l r (so_bad_checksum_percent opt) \<and> \<not> sl_less l r (fault_limit l opt))"

lemma never_faultyD:
  "never_faulty l (ap_opt a) \<Longrightarrow> \<not> sl_less l (fault_draw l a) (so_bad_checksum_percent (ap_opt a))"
  "never_faulty l (ap_opt a) \<Longrightarrow> \<not> sl_less l (fault_draw l a) (fault_limit l (ap_opt a))"
  by (simp_all add: never_faulty_def fault_draw_def Let_def)

definition book_sentence :: "string \<Rightarrow> bool" where
  "book_sentence t \<longleftrightarrow> t_valid (Tokenizer 0 t) \<and> t_identifier (Tokenizer 0 t) = ''PBOOK''"

text \<open>The streams by number: the rate asked for, whether that enables the stream, and the time between two of its texts.\<close>

definition rate_of :: "'d SimOptions \<Rightarrow> nat \<Rightarrow> 'd" where
  "rate_of opt i = (if i = 1 then so_temp_hz opt else if i = 2 then so_pressure_hz opt
     else if i = 3 then so_humidity_hz opt else if i = 4 then so_position_hz opt else so_wind_hz opt)"

definition enabled :: "('d, 'g, 'n) sim_lib \<Rightarrow> 'd SimOptions \<Rightarrow> nat \<Rightarrow> bool" where
  "enabled l opt i \<longleftrightarrow> i \<in> {1..5} \<and> \<not> sl_less l (rate_of opt i) (sl_lit l ''0.0'') \<and> \<not> sl_is_zero l (rate_of opt i)"

definition stream_seconds :: "('d, 'g, 'n) sim_lib \<Rightarrow> 'd SimOptions \<Rightarrow> nat \<Rightarrow> 'd" where
  "stream_seconds l opt i = db_div (sl_db l) (sl_lit l ''1.0'') (rate_of opt i)"

definition stream_period :: "('d, 'g, 'n) sim_lib \<Rightarrow> 'd SimOptions \<Rightarrow> nat \<Rightarrow> int" where
  "stream_period l opt i = sl_duration_cast l (stream_seconds l opt i)"

definition quantity :: "nat \<Rightarrow> string" where
  "quantity i = (if i = 1 then ''TEMP'' else if i = 2 then ''PRESS'' else if i = 3 then ''HUM''
     else if i = 4 then ''POS'' else ''WIND'')"

lemma hd_stream_fields: "hd (stream_fields l i dt a) = quantity i"
  by (simp add: stream_fields_def quantity_def Let_def)

definition sentence_for :: "nat \<Rightarrow> string \<Rightarrow> bool" where
  "sentence_for i t \<longleftrightarrow> book_sentence t \<and> hd (t_fields (Tokenizer 0 t)) = quantity i"

text \<open>The schedule that remembers when each enabled stream fired last.\<close>

definition sched_ok ::
  "('d, 'g, 'n) sim_lib \<Rightarrow> 'd SimOptions \<Rightarrow> (nat \<Rightarrow> int) \<Rightarrow> nat set \<Rightarrow> 'd Stream list \<Rightarrow> bool" where
  "sched_ok l opt fired known streams \<longleftrightarrow>
     distinct (map sm_id streams) \<and> sm_id ` set streams = {j \<in> known. enabled l opt j}
   \<and> (\<forall>s \<in> set streams. sm_period_sec s = stream_seconds l opt (sm_id s)
        \<and> sm_next_due s = fired (sm_id s) + stream_period l opt (sm_id s))"

lemma markFired_map:
  "distinct (map sm_id streams) \<Longrightarrow> markFired l i time streams = map (\<lambda>s. if sm_id s = i
      then s\<lparr>sm_last_fire := time, sm_next_due := time + sl_duration_cast l (sm_period_sec s)\<rparr> else s) streams"
proof (induction streams)
  case (Cons a streams)
  have "sm_id a \<notin> sm_id ` set streams" using Cons.prems by simp
  then have "sm_id s \<noteq> sm_id a" if "s \<in> set streams" for s using that by (metis imageI)
  then show ?case using Cons by (auto intro!: map_idI [symmetric])
qed simp

lemma markFired_sched:
  fixes streams :: "'d Stream list"
  assumes "sched_ok l opt fired known streams"
  shows "sched_ok l opt (fired(i := time)) known (markFired l i time streams)"
proof -
  define f :: "'d Stream \<Rightarrow> 'd Stream" where "f = (\<lambda>s. if sm_id s = i
      then s\<lparr>sm_last_fire := time, sm_next_due := time + sl_duration_cast l (sm_period_sec s)\<rparr> else s)"
  have ids: "sm_id (f s) = sm_id s" for s by (simp add: f_def)
  have "markFired l i time streams = map f streams"
    using assms unfolding f_def by (intro markFired_map) (simp add: sched_ok_def)
  moreover have "sched_ok l opt (fired(i := time)) known (map f streams)"
    using assms by (auto simp: sched_ok_def ids comp_def image_image) (simp_all add: f_def stream_period_def)
  ultimately show ?thesis by simp
qed

lemma addStream_sched:
  assumes "sched_ok l opt fired known streams" "i \<in> {1..5}" "i \<notin> known" "hz = rate_of opt i" "known' = insert i known"
  shows "sched_ok l opt fired known' (addStream l (fired i) i hz streams)"
proof (cases "enabled l opt i")
  case True
  then show ?thesis
    using assms by (auto simp: sched_ok_def addStream_def enabled_def stream_seconds_def stream_period_def Let_def)
next
  case False
  then have "addStream l (fired i) i hz streams = streams" "{j \<in> known'. enabled l opt j} = {j \<in> known. enabled l opt j}"
    using assms by (auto simp: addStream_def enabled_def Let_def)
  then show ?thesis using assms(1) by (simp add: sched_ok_def)
qed

lemma initStreams_sched: "sched_ok l opt clock {1..5} (ap_sched (initStreams l clock (NmeaSimApp l opt)))"
proof -
  have "sched_ok l opt clock {} []" by (simp add: sched_ok_def)
  moreover have "{1..5} = {5, 4, 3, 2, 1 :: nat}" by auto
  ultimately have "sched_ok l opt clock {1..5} (addStream l (clock 5) 5 (rate_of opt 5) (addStream l (clock 4) 4 (rate_of opt 4)
     (addStream l (clock 3) 3 (rate_of opt 3) (addStream l (clock 2) 2 (rate_of opt 2) (addStream l (clock 1) 1 (rate_of opt 1) [])))))"
    by (intro addStream_sched [where known = "{4, 3, 2, 1}"] addStream_sched [where known = "{3, 2, 1}"]
        addStream_sched [where known = "{2, 1}"] addStream_sched [where known = "{1}"] addStream_sched [where known = "{}"]) auto
  then show ?thesis by (simp add: initStreams_def NmeaSimApp_def Let_def rate_of_def)
qed

text \<open>One text after another to an endpoint: its answers and what becomes of the world.\<close>

fun deliver :: "(string \<Rightarrow> 'w \<Rightarrow> bool \<times> 'w) \<Rightarrow> string list \<Rightarrow> 'w \<Rightarrow> bool list \<times> 'w" where
  "deliver send [] w = ([], w)"
| "deliver send (t # ts) w = (let (ok, w1) = send t w; (oks, w2) = deliver send ts w1 in (ok # oks, w2))"

text \<open>The streams in the order in which they are served, each with the time when it fires: it is always one that
  is enabled and has been due for longest, counting from when it fired last.\<close>

fun in_turn :: "('d, 'g, 'n) sim_lib \<Rightarrow> 'd SimOptions \<Rightarrow> (nat \<Rightarrow> int) \<Rightarrow> (nat \<times> int) list \<Rightarrow> bool" where
  "in_turn l opt fired [] = True"
| "in_turn l opt fired ((i, time) # rest) \<longleftrightarrow>
     enabled l opt i \<and> (\<forall>j \<in> {1..5}. enabled l opt j \<longrightarrow> fired i + stream_period l opt i \<le> fired j + stream_period l opt j)
   \<and> in_turn l opt (fired(i := time)) rest"

lemma sim_pass_serves:
  assumes laws: "sim_laws l" and opt: "ap_opt (sr_app s) = opt"
    and sched: "sched_ok l opt fired {1..5} (ap_sched (sr_app s))" "ap_sched (sr_app s) \<noteq> []"
    and pass: "s1 = sim_pass l send fire after s"
  shows "\<exists>i out ok. in_turn l opt fired [(i, fire)] \<and> send out (sr_world s) = (ok, sr_world s1)
     \<and> sr_sent s1 = sr_sent s + (if ok then 1 else 0) \<and> sr_send_fail s1 = sr_send_fail s + (if ok then 0 else 1)
     \<and> (never_faulty l opt \<longrightarrow> sentence_for i out)
     \<and> ap_opt (sr_app s1) = opt \<and> sched_ok l opt (fired(i := fire)) {1..5} (ap_sched (sr_app s1)) \<and> ap_sched (sr_app s1) \<noteq> []"
proof -
  let ?streams = "ap_sched (sr_app s)"
  let ?st = "nextStream ?streams"
  let ?dt = "sl_seconds l (fire - sm_last_fire ?st)"
  obtain ok a1 w1 where e: "emit_stream l send (sm_id ?st) ?dt (sr_app s) (sr_world s) = (ok, a1, w1)"
    by (cases "emit_stream l send (sm_id ?st) ?dt (sr_app s) (sr_world s)") auto
  note earliest = nextStream_earliest [OF sched(2)]
  have on: "enabled l opt (sm_id ?st)" using earliest sched(1) by (auto simp: sched_ok_def)
  then have i: "sm_id ?st \<in> {1..5}" by (simp add: enabled_def)
  have first: "fired (sm_id ?st) + stream_period l opt (sm_id ?st) \<le> fired j + stream_period l opt j" if j: "enabled l opt j" for j
  proof -
    have "j \<in> sm_id ` set ?streams" using sched(1) j by (simp add: sched_ok_def enabled_def)
    then obtain t where "t \<in> set ?streams" "sm_id t = j" by blast
    then show ?thesis using earliest sched(1) by (auto simp: sched_ok_def)
  qed
  from emit_stream_sends [OF laws i e, of 0] obtain out where
    out: "send out (sr_world s) = (ok, w1)" "ap_opt a1 = opt" "ap_sched a1 = ?streams"
    and verdict: "let t = Tokenizer 0 out; whole = sentence_of (stream_fields l (sm_id ?st) ?dt (sr_app s))
      in if sl_less l (fault_draw l (sr_app s)) (so_bad_checksum_percent (ap_opt (sr_app s))) then \<not> t_valid t
         else if sl_less l (fault_draw l (sr_app s)) (fault_limit l (ap_opt (sr_app s))) then t_valid t \<longleftrightarrow> out = whole
         else out = whole \<and> t_valid t \<and> t_identifier t = ''PBOOK'' \<and> t_fields t = stream_fields l (sm_id ?st) ?dt (sr_app s)"
    using opt by blast
  have good: "sentence_for (sm_id ?st) out" if nf: "never_faulty l opt"
  proof -
    have "t_valid (Tokenizer 0 out) \<and> t_identifier (Tokenizer 0 out) = ''PBOOK''
        \<and> t_fields (Tokenizer 0 out) = stream_fields l (sm_id ?st) ?dt (sr_app s)"
      using verdict nf unfolding opt [symmetric] by (simp only: never_faultyD Let_def if_False) blast
    then show ?thesis by (simp add: sentence_for_def book_sentence_def hd_stream_fields)
  qed
  show ?thesis
    using on first out good markFired_sched [OF sched(1), of "sm_id ?st" fire] sched(2)
    by (intro exI [of _ "sm_id ?st"] exI [of _ out] exI [of _ ok]) (simp add: pass sim_pass_def Let_def split_beta e)
qed

lemma sim_loop_serves:
  assumes "sim_laws l" "ap_opt (sr_app s) = opt" "sched_ok l opt fired {1..5} (ap_sched (sr_app s))" "ap_sched (sr_app s) \<noteq> []"
    "sim_loop l send start readings s = (exit, s')"
  shows "exit = (if list_ex (\<lambda>r. time_over l opt start (fst r)) readings then Some 0 else None)
     \<and> (\<exists>served oks. length served = length (takeWhile (\<lambda>r. \<not> time_over l opt start (fst r)) readings)
         \<and> in_turn l opt fired (zip (map fst served) (map (\<lambda>r. fst (snd r)) (takeWhile (\<lambda>r. \<not> time_over l opt start (fst r)) readings)))
         \<and> deliver send (map snd served) (sr_world s) = (oks, sr_world s')
         \<and> sr_sent s' = sr_sent s + of_nat (length (filter (\<lambda>ok. ok) oks))
         \<and> sr_send_fail s' = sr_send_fail s + of_nat (length (filter Not oks))
         \<and> (never_faulty l opt \<longrightarrow> list_all (\<lambda>(i, t). sentence_for i t) served))"
  using assms(2-5)
proof (induction readings arbitrary: s fired)
  case Nil
  then show ?case by (intro conjI exI [of _ "[]"]) simp_all
next
  case (Cons r readings)
  show ?case
  proof (cases "time_over l opt start (fst r)")
    case True
    then show ?thesis using Cons.prems(1,4) by (intro conjI exI [of _ "[]"]) auto
  next
    case False
    define s1 where "s1 = sim_pass l send (fst (snd r)) (snd (snd r)) s"
    have loop: "sim_loop l send start readings s1 = (exit, s')" using Cons.prems(1,4) False by (simp add: s1_def)
    obtain i out ok where one: "in_turn l opt fired [(i, fst (snd r))]" "send out (sr_world s) = (ok, sr_world s1)"
      "sr_sent s1 = sr_sent s + (if ok then 1 else 0)" "sr_send_fail s1 = sr_send_fail s + (if ok then 0 else 1)"
      "never_faulty l opt \<longrightarrow> sentence_for i out"
      "ap_opt (sr_app s1) = opt" "sched_ok l opt (fired(i := fst (snd r))) {1..5} (ap_sched (sr_app s1))" "ap_sched (sr_app s1) \<noteq> []"
      using sim_pass_serves [OF assms(1) Cons.prems(1-3) s1_def] by blast
    obtain served oks where rest:
      "length served = length (takeWhile (\<lambda>r. \<not> time_over l opt start (fst r)) readings)"
      "in_turn l opt (fired(i := fst (snd r))) (zip (map fst served)
         (map (\<lambda>r. fst (snd r)) (takeWhile (\<lambda>r. \<not> time_over l opt start (fst r)) readings)))"
      "deliver send (map snd served) (sr_world s1) = (oks, sr_world s')"
      "sr_sent s' = sr_sent s1 + of_nat (length (filter (\<lambda>ok. ok) oks))"
      "sr_send_fail s' = sr_send_fail s1 + of_nat (length (filter Not oks))"
      "never_faulty l opt \<longrightarrow> list_all (\<lambda>(i, t). sentence_for i t) served"
      and code: "exit = (if list_ex (\<lambda>r. time_over l opt start (fst r)) readings then Some 0 else None)"
      using Cons.IH [OF one(6-8) loop] by blast
    show ?thesis
      using one(1-5) rest code False
      by (intro conjI exI [of _ "(i, out) # served"] exI [of _ "ok # oks"]) (auto simp del: split_paired_All)
  qed
qed

section \<open>Properties\<close>

text \<open>C29: What the simulator sends for a stream, measured by the tokenizer of \<open>Common\<close>. Without a fault the text is
a valid sentence with the identifier \<open>PBOOK\<close>, whose fields are the name of the quantity, its value or values and its unit.
A sentence with a damaged checksum is never accepted, and a truncated one is accepted only when nothing
was cut off, which the code allows. The assumptions on the library are that the text of a number
has no comma, star or line end and that a random number of a range lies in it.\<close>

theorem sim_faults_noticed:
  assumes "sim_laws l" "i \<in> {1..5}" "emit_stream l send i dt a w = (ok, a', w')"
  shows "\<exists>out. send out w = (ok, w')
     \<and> (let t = Tokenizer d out; whole = sentence_of (stream_fields l i dt a)
        in if sl_less l (fault_draw l a) (so_bad_checksum_percent (ap_opt a)) then \<not> t_valid t
           else if sl_less l (fault_draw l a) (fault_limit l (ap_opt a)) then t_valid t \<longleftrightarrow> out = whole
           else t_valid t \<and> t_identifier t = ''PBOOK'' \<and> t_fields t = stream_fields l i dt a)"
  using emit_stream_sends [OF assms, of d] by (auto simp: Let_def split: if_splits)

text \<open>C28: A run of the simulator, to any endpoint, whose answers and state may depend on all it has been given.
Without an enabled stream it returns 2, sends nothing and counts nothing. Otherwise it serves one stream and
sends one text in each pass of its loop, until the first pass that begins when the duration has passed, and
then returns 0. The stream served is always an enabled one that is due earliest: at one period after
it fired last, or after it was added; serving it makes it fire anew. The endpoint is given exactly
these texts in this order, and the two counters, modulo 2^64, are the numbers of the texts it took and of
those it refused. If no fault is ever drawn, as with both percentages zero, each text is a valid
sentence of the book for the stream it was made for. The assumptions on the library are those of \<open>sim_laws\<close>.\<close>

theorem sim_run_sends:
  assumes "sim_laws l"
    "sim_app_run l send clock start readings (NmeaSimApp l opt) w = (exit, s)"
  shows "let over = (\<lambda>r. time_over l opt start (fst r)); passes = takeWhile (\<lambda>r. \<not> over r) readings;
           rates = [so_temp_hz opt, so_pressure_hz opt, so_humidity_hz opt, so_position_hz opt, so_wind_hz opt]
    in if list_all (\<lambda>hz. sl_less l hz (sl_lit l ''0.0'') \<or> sl_is_zero l hz) rates
       then exit = Some 2 \<and> sr_world s = w \<and> sr_sent s = 0 \<and> sr_send_fail s = 0
       else exit = (if list_ex over readings then Some 0 else None)
          \<and> (\<exists>served oks. length served = length passes
              \<and> in_turn l opt clock (zip (map fst served) (map (\<lambda>(now, fire, after). fire) passes))
              \<and> deliver send (map snd served) w = (oks, sr_world s)
              \<and> sr_sent s = of_nat (length (filter (\<lambda>ok. ok) oks)) \<and> sr_send_fail s = of_nat (length (filter Not oks))
              \<and> (never_faulty l opt \<longrightarrow> list_all (\<lambda>(i, t). sentence_for i t) served))"
proof -
  let ?a = "initStreams l clock (NmeaSimApp l opt)"
  have opt: "ap_opt ?a = opt" "ap_sched (NmeaSimApp l opt) = []"
    by (simp_all add: initStreams_def NmeaSimApp_def Let_def)
  have "ap_opt (NmeaSimApp l opt) = opt" by (simp add: NmeaSimApp_def Let_def)
  then have enabled: "ap_sched ?a = [] \<longleftrightarrow> list_all (\<lambda>hz. sl_less l hz (sl_lit l ''0.0'') \<or> sl_is_zero l hz)
      [so_temp_hz opt, so_pressure_hz opt, so_humidity_hz opt, so_position_hz opt, so_wind_hz opt]"
    by (auto simp: initStreams_def opt addStream_def Let_def)
  have fires: "(\<lambda>(now, fire, after). fire) = (\<lambda>r. fst (snd r))" by (simp add: fun_eq_iff)
  show ?thesis
  proof (cases "ap_sched ?a = []")
    case True
    then show ?thesis using assms(2) enabled by (auto simp: sim_app_run_def Let_def)
  next
    case False
    let ?s = "\<lparr>sr_app = ?a, sr_world = w, sr_sent = 0, sr_send_fail = 0, sr_next_log = start + log_interval l ?a, sr_log = []\<rparr>"
    have loop: "sim_loop l send start readings ?s = (exit, s)"
      using assms(2) False by (simp add: sim_app_run_def Let_def)
    from sim_loop_serves [OF assms(1) _ _ _ loop, of opt clock] show ?thesis
      using False enabled opt(1) initStreams_sched [of l opt clock] unfolding fires by (simp add: Let_def)
  qed
qed

text \<open>A library on rational numbers that keeps the assumptions.\<close>

definition sample_lib :: "(rat, nat, unit) sim_lib" where
  "sample_lib = \<lparr>sl_db = rat_db, sl_sin = (\<lambda>x. 0), sl_fmod = (\<lambda>x y. x), sl_strtod = (\<lambda>s. (0, s)),
     sl_duration_cast = (\<lambda>x. \<lfloor>x * 1000000000\<rfloor>), sl_seconds = (\<lambda>t. of_int t / 1000000000),
     sl_engine = unat, sl_normal = (), sl_next_normal = (\<lambda>n g. (1, n, Suc g)),
     sl_uniform_int = (\<lambda>lo hi g. (if lo + g \<le> hi then lo + g else lo, Suc g)),
     sl_uniform_real = (\<lambda>lo hi g. (of_nat (g mod 100), Suc g))\<rparr>"

lemma sample_lib_laws: "sim_laws sample_lib"
proof -
  have "no_delim (show_int v) \<and> list_all (\<lambda>c. \<not> is_eol c) (show_int v)" for v
  proof -
    have "c \<notin> set (show_int v)" if "c \<in> set [CHR '','', CHR ''*'', CHR 0x0A, CHR 0x0D]" for c
      using that by (intro show_int_avoids) (auto simp: code_def)
    then show ?thesis by (auto simp: no_delim_def list_all_iff is_eol_def)
  qed
  then show ?thesis by (simp add: sim_laws_def sample_lib_def rat_db_def)
qed

definition sample_sim_options :: "rat SimOptions" where
  "sample_sim_options = (defaultSimOptions sample_lib)\<lparr>so_temp_hz := 2, so_gen := ConstantKind\<rparr>"

lemma sample_never_faulty: "never_faulty sample_lib sample_sim_options"
  by (simp add: never_faulty_def sample_lib_def sample_sim_options_def defaultSimOptions_def fault_limit_def
      sl_less_def sl_lit_def rat_db_def rat_lit_def nat_of_digits_def is_digit_def in_chars_def code_def digit_val_def Let_def)

theorem sim_faults_noticed_witness:
  "\<exists>out. logging (\<lambda>_. True) out [] = (True, [out])
     \<and> t_valid (Tokenizer 0 out) \<and> t_fields (Tokenizer 0 out) = [''TEMP'', ''22'', ''C'']"
proof -
  let ?a = "NmeaSimApp sample_lib sample_sim_options"
  obtain ok a' w' where e: "emit_stream sample_lib (logging (\<lambda>_. True)) 1 0 ?a [] = (ok, a', w')"
    by (cases "emit_stream sample_lib (logging (\<lambda>_. True)) 1 0 ?a []") auto
  have "ap_opt ?a = sample_sim_options" by (simp add: NmeaSimApp_def Let_def)
  then have "\<not> sl_less sample_lib (fault_draw sample_lib ?a) (so_bad_checksum_percent (ap_opt ?a))"
    "\<not> sl_less sample_lib (fault_draw sample_lib ?a) (fault_limit sample_lib (ap_opt ?a))"
    using never_faultyD [of sample_lib ?a] sample_never_faulty by simp_all
  moreover have "show_nat 22 = ''22''" by code_simp
  then have "stream_fields sample_lib 1 0 ?a = [''TEMP'', ''22'', ''C'']"
    by (simp add: stream_fields_def NmeaSimApp_def ValueGenerator_def next_value_def next_constant_def sample_lib_def
        sample_sim_options_def defaultSimOptions_def sl_lit_def rat_db_def rat_lit_def nat_of_digits_def is_digit_def in_chars_def
        code_def digit_val_def show_int_def digit_char_def Let_def)
  ultimately show ?thesis
    using sim_faults_noticed [OF sample_lib_laws _ e, of 0] by (auto simp: logging_def Let_def)
qed

text \<open>An endpoint that takes the first text and refuses all later ones.\<close>

theorem sim_run_sends_witness:
  "\<exists>t1 t2 s. sim_app_run sample_lib (\<lambda>t ts. (ts = [], ts @ [t])) (\<lambda>_. 0) 0
        [(0, 500000000, 500000000), (600000000, 1000000000, 1000000000)] (NmeaSimApp sample_lib sample_sim_options) [] = (None, s)
     \<and> sr_world s = [t1, t2] \<and> sentence_for 1 t1 \<and> sentence_for 1 t2 \<and> sr_sent s = 1 \<and> sr_send_fail s = 1"
proof -
  let ?readings = "[(0, 500000000, 500000000), (600000000, 1000000000, 1000000000)] :: (int \<times> int \<times> int) list"
  obtain exit s where run: "sim_app_run sample_lib (\<lambda>t ts. (ts = [], ts @ [t])) (\<lambda>_. 0) 0 ?readings
      (NmeaSimApp sample_lib sample_sim_options) [] = (exit, s)" by fastforce
  have on: "so_temp_hz sample_sim_options = 2" "\<not> sl_less sample_lib 2 (sl_lit sample_lib ''0.0'')" "\<not> sl_is_zero sample_lib 2"
    "\<not> time_over sample_lib sample_sim_options 0 0" "\<not> time_over sample_lib sample_sim_options 0 600000000"
    "sl_is_zero sample_lib (so_pressure_hz sample_sim_options)" "sl_is_zero sample_lib (so_humidity_hz sample_sim_options)"
    "sl_is_zero sample_lib (so_position_hz sample_sim_options)" "sl_is_zero sample_lib (so_wind_hz sample_sim_options)"
    by code_simp+
  then have only: "enabled sample_lib sample_sim_options i \<longleftrightarrow> i = 1" for i by (auto simp: enabled_def rate_of_def)
  obtain served oks where out: "exit = None" "length served = Suc (Suc 0)"
    "in_turn sample_lib sample_sim_options (\<lambda>_. 0) (zip (map fst served) [500000000, 1000000000])"
    "deliver (\<lambda>t ts. (ts = [], ts @ [t])) (map snd served) [] = (oks, sr_world s)"
    "sr_sent s = of_nat (length (filter (\<lambda>ok. ok) oks))" "sr_send_fail s = of_nat (length (filter Not oks))"
    "list_all (\<lambda>(i, t). sentence_for i t) served"
  proof -
    note run_facts = sim_run_sends [OF sample_lib_laws run, unfolded Let_def]
    show ?thesis using run_facts sample_never_faulty on that by simp blast
  qed
  obtain i t1 j t2 where served: "served = [(i, t1), (j, t2)]" using out(2) by (auto simp: length_Suc_conv numeral_2_eq_2)
  have "i = 1" "j = 1" using out(3) by (simp_all add: served only)
  moreover have "sr_world s = [t1, t2]" "oks = [True, False]" using out(4) by (simp_all add: served)
  ultimately show ?thesis using out(1,5-7) run by (intro exI [of _ t1] exI [of _ t2] exI [of _ s]) (simp add: served)
qed

end
