(* ===== verification/MeasurementGenerator.thy ===== *)
theory MeasurementGenerator
  imports FilterPipeline
begin

text \<open>
  \<open>Tools/measurement_generator\<close>: a signal with simulated noise, spikes and gaps, written as a CSV file that the
  program of Chapter 7 reads. Double-precision numbers are those of \<open>Filtering\<close>; the random engine and the
  distributions of the C++ library, whose results the language leaves open, are functions of a record.
\<close>

section \<open>Configuration\<close>

datatype SignalProfile = ConstantProfile | RampProfile | TriangleProfile | StepProfile

datatype MeasurementEvent = EvNormal | EvSpike | EvMissing

record 'd GeneratorConfig =
  gc_count :: nat
  gc_minimum :: 'd
  gc_maximum :: 'd
  gc_profile :: SignalProfile
  gc_sample_rate_hz :: 'd
  gc_noise_stddev :: 'd
  gc_spike_frequency :: 'd
  gc_missing_frequency :: 'd
  gc_spike_minimum :: 'd
  gc_spike_maximum :: 'd
  gc_seed :: u32

record 'd GeneratedMeasurement =
  gm_index :: nat
  gm_time_seconds :: 'd
  gm_true_value :: 'd
  gm_measured_value :: "'d option"
  gm_event :: MeasurementEvent

record GenerationSummary =
  gs_normal_count :: nat
  gs_spike_count :: nat
  gs_missing_count :: nat

text \<open>\<open>rn_normal\<close> takes the mean, the deviation, the state the distribution keeps, and the engine.\<close>

record ('d, 'g, 'n) random_lib =
  rn_db :: "'d binary64"
  rn_strtod :: "string \<Rightarrow> 'd \<times> string"
  rn_engine :: "u32 \<Rightarrow> 'g"
  rn_normal_new :: 'n
  rn_normal :: "'d \<Rightarrow> 'd \<Rightarrow> 'n \<Rightarrow> 'g \<Rightarrow> 'd \<times> 'n \<times> 'g"
  rn_uniform_real :: "'d \<Rightarrow> 'd \<Rightarrow> 'g \<Rightarrow> 'd \<times> 'g"
  rn_bernoulli :: "'d \<Rightarrow> 'g \<Rightarrow> bool \<times> 'g"

definition default_config :: "'d binary64 \<Rightarrow> 'd GeneratorConfig" where
  "default_config db = \<lparr>gc_count = 140, gc_minimum = db_lit db ''22.0'', gc_maximum = db_lit db ''30.0'',
     gc_profile = TriangleProfile, gc_sample_rate_hz = db_lit db ''1.0'', gc_noise_stddev = db_lit db ''0.25'',
     gc_spike_frequency = db_lit db ''0.02'', gc_missing_frequency = db_lit db ''0.01'',
     gc_spike_minimum = db_lit db ''20.0'', gc_spike_maximum = db_lit db ''30.0'', gc_seed = 12345\<rparr>"

definition db_le :: "'d binary64 \<Rightarrow> 'd \<Rightarrow> 'd \<Rightarrow> bool" where "db_le db x y = db_ge db y x"

text \<open>\<open>Some\<close> the text of the exception thrown.\<close>

definition validate_frequency :: "'d binary64 \<Rightarrow> 'd \<Rightarrow> string \<Rightarrow> string option" where
  "validate_frequency db v name =
     (if \<not> db_isfinite db v \<or> db_less db v (db_lit db ''0.0'') \<or> db_less db (db_lit db ''1.0'') v
      then Some (name @ '' must be between 0.0 and 1.0'') else None)"

definition orElse :: "'a option \<Rightarrow> 'a option \<Rightarrow> 'a option" where
  "orElse x y = (case x of None \<Rightarrow> y | Some e \<Rightarrow> Some e)"

definition check :: "bool \<Rightarrow> string \<Rightarrow> string option" where
  "check bad message = (if bad then Some message else None)"

definition generator_validate :: "'d binary64 \<Rightarrow> 'd GeneratorConfig \<Rightarrow> string option" where
  "generator_validate db c =
     (let zero = db_lit db ''0.0''; fin = db_isfinite db
      in orElse (check (gc_count c = 0) ''count must be greater than zero'')
        (orElse (check (\<not> fin (gc_minimum c) \<or> \<not> fin (gc_maximum c)) ''minimum and maximum must be finite'')
        (orElse (check (db_ge db (gc_minimum c) (gc_maximum c)) ''minimum must be less than maximum'')
        (orElse (check (\<not> fin (gc_sample_rate_hz c) \<or> db_le db (gc_sample_rate_hz c) zero)
            ''sample rate must be greater than zero'')
        (orElse (check (\<not> fin (gc_noise_stddev c) \<or> db_less db (gc_noise_stddev c) zero)
            ''noise standard deviation must not be negative'')
        (orElse (validate_frequency db (gc_spike_frequency c) ''spike frequency'')
        (orElse (validate_frequency db (gc_missing_frequency c) ''missing frequency'')
        (orElse (check (db_less db (db_lit db ''1.0'') (db_add db (gc_spike_frequency c) (gc_missing_frequency c)))
            ''spike frequency plus missing frequency must not exceed 1.0'')
        (orElse (check (\<not> fin (gc_spike_minimum c) \<or> \<not> fin (gc_spike_maximum c)
              \<or> db_less db (gc_spike_minimum c) zero \<or> db_less db (gc_spike_maximum c) zero)
            ''spike magnitudes must be finite and non-negative'')
        (check (db_less db (gc_spike_maximum c) (gc_spike_minimum c)) ''spike minimum must not exceed spike maximum''))))))))))"

section \<open>The generator\<close>

record ('d, 'g, 'n) MeasurementGenerator =
  mg_config :: "'d GeneratorConfig"
  mg_random_engine :: 'g
  mg_noise :: 'n

definition newMeasurementGenerator ::
  "('d, 'g, 'n) random_lib \<Rightarrow> 'd GeneratorConfig \<Rightarrow> string + ('d, 'g, 'n) MeasurementGenerator" where
  "newMeasurementGenerator l config =
     (case generator_validate (rn_db l) config of
        Some e \<Rightarrow> Inl e
      | None \<Rightarrow> Inr \<lparr>mg_config = config, mg_random_engine = rn_engine l (gc_seed config), mg_noise = rn_normal_new l\<rparr>)"

definition normalized_position :: "'d binary64 \<Rightarrow> nat \<Rightarrow> nat \<Rightarrow> 'd" where
  "normalized_position db index count =
     (if count \<le> 1 then db_lit db ''0.0'' else db_div db (db_of_nat db index) (db_of_nat db (count - 1)))"

definition generate_true_value :: "'d binary64 \<Rightarrow> 'd GeneratorConfig \<Rightarrow> nat \<Rightarrow> 'd" where
  "generate_true_value db c index =
     (let two = db_lit db ''2.0''; half = db_lit db ''0.5'';
          midpoint = db_div db (db_add db (gc_minimum c) (gc_maximum c)) two;
          span = db_sub db (gc_maximum c) (gc_minimum c);
          position = normalized_position db index (gc_count c)
      in case gc_profile c of
           ConstantProfile \<Rightarrow> midpoint
         | RampProfile \<Rightarrow> db_add db (gc_minimum c) (db_mul db span position)
         | TriangleProfile \<Rightarrow>
             let triangle_position =
               (if db_le db position half then db_mul db position two
                else db_mul db (db_sub db (db_lit db ''1.0'') position) two)
             in db_add db (gc_minimum c) (db_mul db span triangle_position)
         | StepProfile \<Rightarrow> if db_less db position half then gc_minimum c else gc_maximum c)"

definition generate_spike_offset ::
  "('d, 'g, 'n) random_lib \<Rightarrow> 'd GeneratorConfig \<Rightarrow> 'g \<Rightarrow> 'd \<times> 'g" where
  "generate_spike_offset l c rng =
     (let (magnitude, rng1) = rn_uniform_real l (gc_spike_minimum c) (gc_spike_maximum c) rng;
          (positive, rng2) = rn_bernoulli l (db_lit (rn_db l) ''0.5'') rng1
      in (if positive then magnitude else db_neg (rn_db l) magnitude, rng2))"

definition generate_one ::
  "('d, 'g, 'n) random_lib \<Rightarrow> 'd GeneratorConfig \<Rightarrow> nat \<Rightarrow> 'g \<times> 'n \<Rightarrow> 'd GeneratedMeasurement \<times> 'g \<times> 'n" where
  "generate_one l c index state =
     (let db = rn_db l; (rng, noise) = state;
          true_value = generate_true_value db c index;
          m = \<lparr>gm_index = index, gm_time_seconds = db_div db (db_of_nat db index) (gc_sample_rate_hz c),
               gm_true_value = true_value, gm_measured_value = None, gm_event = EvMissing\<rparr>;
          (event_sample, rng1) = rn_uniform_real l (db_lit db ''0.0'') (db_lit db ''1.0'') rng
      in if db_less db event_sample (gc_missing_frequency c) then (m, rng1, noise)
         else if db_less db event_sample (db_add db (gc_missing_frequency c) (gc_spike_frequency c)) then
           (let (offset, rng2) = generate_spike_offset l c rng1
            in (m\<lparr>gm_measured_value := Some (db_add db true_value offset), gm_event := EvSpike\<rparr>, rng2, noise))
         else
           (let (x, noise1, rng2) = rn_normal l (db_lit db ''0.0'') (gc_noise_stddev c) noise rng1
            in (m\<lparr>gm_measured_value := Some (db_add db true_value x), gm_event := EvNormal\<rparr>, rng2, noise1)))"

primrec generate_from ::
  "('d, 'g, 'n) random_lib \<Rightarrow> 'd GeneratorConfig \<Rightarrow> nat list \<Rightarrow> 'g \<times> 'n \<Rightarrow> 'd GeneratedMeasurement list \<times> 'g \<times> 'n"
where
  "generate_from l c [] state = ([], state)"
| "generate_from l c (index # rest) state =
     (let (m, state1) = generate_one l c index state; (ms, state2) = generate_from l c rest state1
      in (m # ms, state2))"

text \<open>Seeding the engine again and resetting the distributions comes first.\<close>

definition generate ::
  "('d, 'g, 'n) random_lib \<Rightarrow> ('d, 'g, 'n) MeasurementGenerator
    \<Rightarrow> 'd GeneratedMeasurement list \<times> ('d, 'g, 'n) MeasurementGenerator" where
  "generate l g =
     (let c = mg_config g;
          (ms, rng, noise) = generate_from l c [0..<gc_count c] (rn_engine l (gc_seed c), rn_normal_new l)
      in (ms, g\<lparr>mg_random_engine := rng, mg_noise := noise\<rparr>))"

definition count_event :: "GenerationSummary \<Rightarrow> 'd GeneratedMeasurement \<Rightarrow> GenerationSummary" where
  "count_event s m =
     (case gm_event m of
        EvNormal \<Rightarrow> s\<lparr>gs_normal_count := gs_normal_count s + 1\<rparr>
      | EvSpike \<Rightarrow> s\<lparr>gs_spike_count := gs_spike_count s + 1\<rparr>
      | EvMissing \<Rightarrow> s\<lparr>gs_missing_count := gs_missing_count s + 1\<rparr>)"

definition summarize :: "'d GeneratedMeasurement list \<Rightarrow> GenerationSummary" where
  "summarize ms = foldl count_event \<lparr>gs_normal_count = 0, gs_spike_count = 0, gs_missing_count = 0\<rparr> ms"

definition profile_text :: "SignalProfile \<Rightarrow> string" where
  "profile_text p = (case p of ConstantProfile \<Rightarrow> ''constant'' | RampProfile \<Rightarrow> ''ramp''
     | TriangleProfile \<Rightarrow> ''triangle'' | StepProfile \<Rightarrow> ''step'')"

definition event_text :: "MeasurementEvent \<Rightarrow> string" where
  "event_text e = (case e of EvNormal \<Rightarrow> ''normal'' | EvSpike \<Rightarrow> ''spike'' | EvMissing \<Rightarrow> ''missing'')"

definition parse_signal_profile :: "string \<Rightarrow> SignalProfile option" where
  "parse_signal_profile s =
     (if s = ''constant'' then Some ConstantProfile
      else if s = ''ramp'' then Some RampProfile
      else if s = ''triangle'' then Some TriangleProfile
      else if s = ''step'' then Some StepProfile else None)"

lemma parse_profile_text: "parse_signal_profile (profile_text p) = Some p"
  by (cases p) (simp_all add: parse_signal_profile_def profile_text_def)

section \<open>Options\<close>

record 'd ProgramOptions =
  po_generator :: "'d GeneratorConfig"
  po_output_path :: string

definition parse_integer :: "int \<Rightarrow> string \<Rightarrow> string \<Rightarrow> string + int" where
  "parse_integer hi s option_name =
     (case from_chars 0 hi s of
        (ec, n, v) \<Rightarrow>
          if ec \<noteq> NoErrc \<or> n \<noteq> length s then Inl (option_name @ '' requires an integer value'') else Inr (the v))"

definition generator_parse_double :: "('d, 'g, 'n) random_lib \<Rightarrow> string \<Rightarrow> string \<Rightarrow> string + 'd" where
  "generator_parse_double l s option_name =
     (case rn_strtod l s of
        (v, rest) \<Rightarrow>
          if length rest = length s \<or> rest \<noteq> [] then Inl (option_name @ '' requires a numeric value'') else Inr v)"

definition set_generator_option ::
  "('d, 'g, 'n) random_lib \<Rightarrow> string \<Rightarrow> string \<Rightarrow> 'd ProgramOptions \<Rightarrow> string + 'd ProgramOptions" where
  "set_generator_option l name v opts =
     (let g = po_generator opts;
          store = (\<lambda>g'. Inr (opts\<lparr>po_generator := g'\<rparr>));
          number = (\<lambda>f. andThen (generator_parse_double l v name) (\<lambda>x. store (f x)))
      in if name = ''--count'' then andThen (parse_integer (2 ^ 64 - 1) v name) (\<lambda>n. store (g\<lparr>gc_count := nat n\<rparr>))
         else if name = ''--minimum'' then number (\<lambda>x. g\<lparr>gc_minimum := x\<rparr>)
         else if name = ''--maximum'' then number (\<lambda>x. g\<lparr>gc_maximum := x\<rparr>)
         else if name = ''--profile'' then
           (case parse_signal_profile v of
              None \<Rightarrow> Inl ''profile must be constant, ramp, triangle, or step''
            | Some p \<Rightarrow> store (g\<lparr>gc_profile := p\<rparr>))
         else if name = ''--sample-rate'' then number (\<lambda>x. g\<lparr>gc_sample_rate_hz := x\<rparr>)
         else if name = ''--noise-stddev'' then number (\<lambda>x. g\<lparr>gc_noise_stddev := x\<rparr>)
         else if name = ''--spike-frequency'' then number (\<lambda>x. g\<lparr>gc_spike_frequency := x\<rparr>)
         else if name = ''--missing-frequency'' then number (\<lambda>x. g\<lparr>gc_missing_frequency := x\<rparr>)
         else if name = ''--spike-minimum'' then number (\<lambda>x. g\<lparr>gc_spike_minimum := x\<rparr>)
         else if name = ''--spike-maximum'' then number (\<lambda>x. g\<lparr>gc_spike_maximum := x\<rparr>)
         else if name = ''--seed'' then
           andThen (parse_integer (2 ^ 64 - 1) v name) (\<lambda>n.
             if n > 2 ^ 32 - 1 then Inl ''seed must fit in an unsigned 32-bit integer''
             else store (g\<lparr>gc_seed := word_of_int n\<rparr>))
         else Inr (opts\<lparr>po_output_path := v\<rparr>))"

definition generator_option :: "string \<Rightarrow> bool" where
  "generator_option a \<longleftrightarrow> a \<in> set [''--count'', ''--minimum'', ''--maximum'', ''--profile'', ''--sample-rate'', ''--noise-stddev'',
     ''--spike-frequency'', ''--missing-frequency'', ''--spike-minimum'', ''--spike-maximum'', ''--seed'', ''--output'']"

text \<open>\<open>None\<close>: help was asked for.\<close>

fun generator_arguments ::
  "('d, 'g, 'n) random_lib \<Rightarrow> string list \<Rightarrow> 'd ProgramOptions \<Rightarrow> string + 'd ProgramOptions option" where
  "generator_arguments l [] opts = Inr (Some opts)"
| "generator_arguments l (a # rest) opts =
     (if a = ''--help'' then Inr None
      else if generator_option a then
        (case rest of
           [] \<Rightarrow> Inl (a @ '' requires a value'')
         | v # rest' \<Rightarrow>
             (case set_generator_option l a v opts of
                Inl e \<Rightarrow> Inl e
              | Inr opts' \<Rightarrow> generator_arguments l rest' opts'))
      else Inl (''unknown option: '' @ a))"

definition generator_options ::
  "('d, 'g, 'n) random_lib \<Rightarrow> string list \<Rightarrow> string + 'd ProgramOptions option" where
  "generator_options l args =
     andThen (generator_arguments l args \<lparr>po_generator = default_config (rn_db l), po_output_path = ''measurements.csv''\<rparr>)
       (\<lambda>r. case r of
              None \<Rightarrow> Inr None
            | Some opts \<Rightarrow>
                (case generator_validate (rn_db l) (po_generator opts) of
                   Some e \<Rightarrow> Inl e
                 | None \<Rightarrow> Inr (Some opts)))"

section \<open>The file\<close>

definition generator_header :: string where "generator_header = ''index,time_s,true_value,measured_value,event''"

definition csv_row :: "'d binary64 \<Rightarrow> 'd GeneratedMeasurement \<Rightarrow> string" where
  "csv_row db m =
     show_nat (gm_index m) @ '','' @ db_fixed db 6 (gm_time_seconds m) @ '','' @ db_fixed db 6 (gm_true_value m) @ '',''
       @ (case gm_measured_value m of None \<Rightarrow> [] | Some v \<Rightarrow> db_fixed db 6 v) @ '','' @ event_text (gm_event m)"

definition csv_text :: "'d binary64 \<Rightarrow> 'd GeneratedMeasurement list \<Rightarrow> string" where
  "csv_text db ms = generator_header @ [CHR 0x0A] @ concat (map (\<lambda>m. csv_row db m @ [CHR 0x0A]) ms)"

text \<open>\<open>opened\<close> and \<open>good\<close> are the states of the output stream after opening and after writing.\<close>

definition write_csv ::
  "'d binary64 \<Rightarrow> bool \<Rightarrow> bool \<Rightarrow> string \<Rightarrow> 'd GeneratedMeasurement list \<Rightarrow> string + string" where
  "write_csv db opened good path ms =
     (if \<not> opened then Inl (''unable to open output file: '' @ path)
      else if \<not> good then Inl (''failed while writing output file: '' @ path)
      else Inr (csv_text db ms))"

text \<open>The exit status, the file written and the numbers of the summary that is printed.\<close>

definition generator_main ::
  "('d, 'g, 'n) random_lib \<Rightarrow> bool \<Rightarrow> bool \<Rightarrow> string list \<Rightarrow> nat \<times> (string \<times> string) option \<times> GenerationSummary option"
where
  "generator_main l opened good args =
     (case andThen (generator_options l args) (\<lambda>r. case r of
             None \<Rightarrow> Inr None
           | Some opts \<Rightarrow>
               andThen (newMeasurementGenerator l (po_generator opts)) (\<lambda>g.
                 let ms = fst (generate l g)
                 in andThen (write_csv (rn_db l) opened good (po_output_path opts) ms) (\<lambda>content.
                      Inr (Some (po_output_path opts, content, summarize ms))))) of
        Inl e \<Rightarrow> (1, None, None)
      | Inr None \<Rightarrow> (0, None, None)
      | Inr (Some (path, content, summary)) \<Rightarrow> (0, Some (path, content), Some summary))"

section \<open>The values\<close>

text \<open>Exact numbers, and draws that lie in their range.\<close>

definition exact_generator :: "(rat, 'g, 'n) random_lib \<Rightarrow> bool" where
  "exact_generator l \<longleftrightarrow>
     (let db = rn_db l
      in exact db \<and> db_less db = (<) \<and> db_ge db = (\<ge>) \<and> db_neg db = uminus
       \<and> db_lit db ''1.0'' = 1 \<and> db_lit db ''2.0'' = 2 \<and> db_lit db ''0.5'' = 1 / 2)"

definition draws_in_range :: "(rat, 'g, 'n) random_lib \<Rightarrow> bool" where
  "draws_in_range l \<longleftrightarrow>
     (\<forall>lo hi g. lo \<le> hi \<longrightarrow> lo \<le> fst (rn_uniform_real l lo hi g) \<and> fst (rn_uniform_real l lo hi g) \<le> hi)"

lemmas exact_generator_simps = exact_generator_def exact_def Let_def

lemma position_range:
  assumes "exact_generator l" "index < count"
  shows "0 \<le> normalized_position (rn_db l) index count \<and> normalized_position (rn_db l) index count \<le> 1"
  using assms by (auto simp: exact_generator_simps normalized_position_def divide_le_eq of_nat_diff)

lemma scaled_range: "0 \<le> p \<Longrightarrow> p \<le> 1 \<Longrightarrow> lo \<le> hi \<Longrightarrow> lo \<le> lo + (hi - lo) * p \<and> lo + (hi - lo) * p \<le> (hi :: rat)"
  using mult_left_mono [of p 1 "hi - lo"] by simp

lemma true_value_range:
  assumes "exact_generator l" "index < gc_count c" "gc_minimum c \<le> gc_maximum c"
  shows "gc_minimum c \<le> generate_true_value (rn_db l) c index \<and> generate_true_value (rn_db l) c index \<le> gc_maximum c"
proof -
  let ?p = "normalized_position (rn_db l) index (gc_count c)"
  note p = position_range [OF assms(1,2)]
  note ramp = scaled_range [OF conjunct1 [OF p] conjunct2 [OF p] assms(3)]
  have "0 \<le> (if ?p \<le> 1 / 2 then ?p * 2 else (1 - ?p) * 2) \<and> (if ?p \<le> 1 / 2 then ?p * 2 else (1 - ?p) * 2) \<le> 1"
    using p by auto
  then have triangle: "gc_minimum c \<le> gc_minimum c + (gc_maximum c - gc_minimum c) * (if ?p \<le> 1 / 2 then ?p * 2 else (1 - ?p) * 2)
    \<and> gc_minimum c + (gc_maximum c - gc_minimum c) * (if ?p \<le> 1 / 2 then ?p * 2 else (1 - ?p) * 2) \<le> gc_maximum c"
    using scaled_range assms(3) by blast
  have mid: "gc_minimum c \<le> (gc_minimum c + gc_maximum c) / 2 \<and> (gc_minimum c + gc_maximum c) / 2 \<le> gc_maximum c"
    using assms(3) by simp
  show ?thesis
    using assms ramp triangle mid
    by (cases "gc_profile c") (auto simp: generate_true_value_def exact_generator_simps db_le_def)
qed

lemma validated_config:
  assumes "exact_generator l" "generator_validate (rn_db l) c = None"
  shows "0 < gc_count c \<and> gc_minimum c < gc_maximum c \<and> 0 < gc_sample_rate_hz c \<and> 0 \<le> gc_noise_stddev c
    \<and> gc_spike_minimum c \<le> gc_spike_maximum c \<and> 0 \<le> gc_spike_minimum c"
  using assms
  by (auto simp: generator_validate_def exact_generator_simps orElse_def check_def db_le_def split: option.splits if_splits)

text \<open>A measurement is of its kind.\<close>

definition measured_ok :: "(rat, 'g, 'n) random_lib \<Rightarrow> rat GeneratorConfig \<Rightarrow> nat \<Rightarrow> rat GeneratedMeasurement \<Rightarrow> bool" where
  "measured_ok l c k m \<longleftrightarrow>
     gm_index m = k \<and> gm_time_seconds m = of_nat k / gc_sample_rate_hz c
   \<and> gc_minimum c \<le> gm_true_value m \<and> gm_true_value m \<le> gc_maximum c
   \<and> (case gm_event m of
        EvMissing \<Rightarrow> gm_measured_value m = None
      | EvSpike \<Rightarrow> (case gm_measured_value m of None \<Rightarrow> False
          | Some v \<Rightarrow> gc_spike_minimum c \<le> \<bar>v - gm_true_value m\<bar> \<and> \<bar>v - gm_true_value m\<bar> \<le> gc_spike_maximum c)
      | EvNormal \<Rightarrow> gm_measured_value m \<noteq> None)"

lemma generate_one_ok:
  assumes l: "exact_generator l" "draws_in_range l" and c: "generator_validate (rn_db l) c = None" and k: "k < gc_count c"
  shows "measured_ok l c k (fst (generate_one l c k state))"
proof -
  note config = validated_config [OF l(1) c]
  have "gc_minimum c \<le> gc_maximum c" using config by simp
  note in_range = true_value_range [OF l(1) k this]
  obtain rng noise where state: "state = (rng, noise)" by fastforce
  have spike: "gc_spike_minimum c \<le> \<bar>fst (generate_spike_offset l c g)\<bar> \<and> \<bar>fst (generate_spike_offset l c g)\<bar> \<le> gc_spike_maximum c" for g
  proof -
    obtain x g1 b g2 where x: "rn_uniform_real l (gc_spike_minimum c) (gc_spike_maximum c) g = (x, g1)"
      "rn_bernoulli l (db_lit (rn_db l) ''0.5'') g1 = (b, g2)" by fastforce
    have "gc_spike_minimum c \<le> x \<and> x \<le> gc_spike_maximum c"
      using l(2) config x(1) by (metis draws_in_range_def fst_conv)
    then show ?thesis using config l(1) by (auto simp: generate_spike_offset_def x exact_generator_simps)
  qed
  show ?thesis
    using in_range spike l(1)
    by (auto simp: generate_one_def state measured_ok_def exact_generator_simps split_beta)
qed

lemma generate_from_ok:
  assumes "exact_generator l" "draws_in_range l" "generator_validate (rn_db l) c = None"
  shows "list_all (\<lambda>k. k < gc_count c) ks \<Longrightarrow> list_all2 (measured_ok l c) ks (fst (generate_from l c ks state))"
proof (induction ks arbitrary: state)
  case (Cons k ks)
  then show ?case using generate_one_ok [OF assms, of k state] by (simp add: Let_def split_beta)
qed simp

lemma foldl_count_event:
  "gs_normal_count (foldl count_event s ms) = gs_normal_count s + length (filter (\<lambda>m. gm_event m = EvNormal) ms)
 \<and> gs_spike_count (foldl count_event s ms) = gs_spike_count s + length (filter (\<lambda>m. gm_event m = EvSpike) ms)
 \<and> gs_missing_count (foldl count_event s ms) = gs_missing_count s + length (filter (\<lambda>m. gm_event m = EvMissing) ms)"
proof (induction ms arbitrary: s)
  case (Cons m ms)
  then show ?case by (cases "gm_event m") (simp_all add: count_event_def)
qed simp

lemma summarize_total:
  "gs_normal_count (summarize ms) + gs_spike_count (summarize ms) + gs_missing_count (summarize ms) = length ms"
proof -
  have "length (filter (\<lambda>m. gm_event m = EvNormal) ms) + length (filter (\<lambda>m. gm_event m = EvSpike) ms)
      + length (filter (\<lambda>m. gm_event m = EvMissing) ms) = length ms"
  proof (induction ms)
    case (Cons m ms)
    then show ?case by (cases "gm_event m") simp_all
  qed simp
  then show ?thesis by (simp add: summarize_def foldl_count_event)
qed

section \<open>The file and its reader\<close>

text \<open>What is used of the text of a number, infinities and NaN (printed \<open>inf\<close> and \<open>nan\<close>) included: it has no
comma and no line end, is read back as the rounded number \<open>rnd v\<close>, and is read back finite if the number is finite.\<close>

definition text_laws :: "'d binary64 \<Rightarrow> ('d \<Rightarrow> 'd) \<Rightarrow> bool" where
  "text_laws db rnd \<longleftrightarrow>
     (\<forall>v. CHR '','' \<notin> set (db_fixed db 6 v) \<and> CHR 0x0A \<notin> set (db_fixed db 6 v) \<and> db_fixed db 6 v \<noteq> []
        \<and> db_from_chars db (db_fixed db 6 v) = Some (length (db_fixed db 6 v), rnd v)
        \<and> (db_isfinite db v \<longrightarrow> db_isfinite db (rnd v)))"

lemma fixed_parses:
  assumes "text_laws db rnd"
  shows "db_isfinite db v \<Longrightarrow> parse_finite_double db (db_fixed db 6 v) what = Inr (rnd v)"
    "\<exists>x. parse_measurement_double db (db_fixed db 6 v) k = Inr x"
proof -
  have v: "db_from_chars db (db_fixed db 6 v) = Some (length (db_fixed db 6 v), rnd v)" "db_isfinite db v \<longrightarrow> db_isfinite db (rnd v)"
    using assms unfolding text_laws_def by blast+
  show "db_isfinite db v \<Longrightarrow> parse_finite_double db (db_fixed db 6 v) what = Inr (rnd v)"
    using v by (simp add: parse_finite_double_def)
  show "\<exists>x. parse_measurement_double db (db_fixed db 6 v) k = Inr x"
    using v by (simp add: parse_measurement_double_def Let_def)
qed

lemma show_nat_plain: "CHR '','' \<notin> set (show_nat n)" "CHR 0x0A \<notin> set (show_nat n)"
  using show_nat_digits [of n] by (auto simp: list_all_iff is_digit_def in_chars_def code_def)

lemma event_text_plain: "CHR '','' \<notin> set (event_text e)" "CHR 0x0A \<notin> set (event_text e)"
  by (cases e; simp add: event_text_def)+

definition measured_text :: "'d binary64 \<Rightarrow> 'd option \<Rightarrow> string" where
  "measured_text db v = (case v of None \<Rightarrow> [] | Some x \<Rightarrow> db_fixed db 6 x)"

lemma csv_row_cells:
  assumes "text_laws db rnd"
  shows "split CHR '','' (csv_row db m) = [show_nat (gm_index m), db_fixed db 6 (gm_time_seconds m),
      db_fixed db 6 (gm_true_value m), measured_text db (gm_measured_value m), event_text (gm_event m)]"
    "CHR 0x0A \<notin> set (csv_row db m)" "csv_row db m \<noteq> []"
proof -
  have comma: "CHR '','' \<notin> set (db_fixed db 6 v)" and lf: "CHR 0x0A \<notin> set (db_fixed db 6 v)" for v
    using assms unfolding text_laws_def by blast+
  have opt: "CHR '','' \<notin> set (measured_text db v)" "CHR 0x0A \<notin> set (measured_text db v)" for v
    using comma lf by (simp_all add: measured_text_def split: option.split)
  have row: "csv_row db m = show_nat (gm_index m) @ CHR '','' # db_fixed db 6 (gm_time_seconds m) @ CHR '','' #
      db_fixed db 6 (gm_true_value m) @ CHR '','' # measured_text db (gm_measured_value m) @ CHR '','' # event_text (gm_event m)"
    by (simp add: csv_row_def measured_text_def)
  show "split CHR '','' (csv_row db m) = [show_nat (gm_index m), db_fixed db 6 (gm_time_seconds m),
      db_fixed db 6 (gm_true_value m), measured_text db (gm_measured_value m), event_text (gm_event m)]"
    unfolding row by (simp only: split_append_sep show_nat_plain comma opt split_no_sep event_text_plain not_False_eq_True)
  show "CHR 0x0A \<notin> set (csv_row db m)"
    using lf opt by (simp add: row show_nat_plain event_text_plain)
  show "csv_row db m \<noteq> []" by (simp add: row)
qed

lemma lines_of:
  "list_all (\<lambda>l. CHR 0x0A \<notin> set l) ls \<Longrightarrow>
     split CHR 0x0A (concat (map (\<lambda>l. l @ [CHR 0x0A]) ls)) = ls @ [[]]"
  by (induction ls) (simp_all add: split_append_sep)

lemma csv_lines:
  assumes "text_laws db rnd"
  shows "text_lines (csv_text db ms) = generator_header # map (csv_row db) ms"
proof -
  have "CHR 0x0A \<notin> set generator_header" by (simp add: generator_header_def)
  then have "split CHR 0x0A (concat (map (\<lambda>l. l @ [CHR 0x0A]) (generator_header # map (csv_row db) ms)))
      = (generator_header # map (csv_row db) ms) @ [[]]"
    using csv_row_cells(2) [OF assms] by (intro lines_of) (simp add: list_all_iff)
  then show ?thesis by (simp add: text_lines_def csv_text_def Let_def comp_def)
qed

lemma generator_columns:
  "make_column_map (split CHR '','' generator_header) ''time_s'' = Some 1"
  "make_column_map (split CHR '','' generator_header) ''measured_value'' = Some 3"
  by (simp_all add: generator_header_def make_column_map_def)

lemma measure_line_counts:
  "sc_missing (pp_counts (measure_line db line t mv s)) = sc_missing (pp_counts s) + (if mv = None then 1 else 0)"
  "counts_total (pp_counts (measure_line db line t mv s)) = counts_total (pp_counts s) + 1"
  "pp_previous_time (measure_line db line t mv s) = pp_previous_time s"
proof -
  obtain v r where val: "validate db (pp_validator s) t mv = (v, r)" by (meson surj_pair)
  have counts: "pp_counts (measure_line db line t mv s) = counts_add (pp_counts s) (vr_status r)"
    by (simp add: measure_line_def val Let_def)
  have "vr_status r = Missing \<longleftrightarrow> mv = None"
    using val by (auto simp: validate_def split: option.splits if_splits)
  then show "sc_missing (pp_counts (measure_line db line t mv s)) = sc_missing (pp_counts s) + (if mv = None then 1 else 0)"
    using counts by (cases "vr_status r") (auto simp: counts_add_def)
  show "counts_total (pp_counts (measure_line db line t mv s)) = counts_total (pp_counts s) + 1"
    by (simp add: counts counts_add_total)
  show "pp_previous_time (measure_line db line t mv s) = pp_previous_time s"
    by (simp add: measure_line_def val Let_def)
qed

lemma process_row:
  assumes laws: "text_laws db rnd" and fin: "db_isfinite db (gm_time_seconds m)"
    and later: "case pp_previous_time s of None \<Rightarrow> True | Some p \<Rightarrow> \<not> db_ge db p (rnd (gm_time_seconds m))"
  shows "\<exists>s'. process_line db 1 3 (csv_row db m) s = Inr s' \<and> pp_previous_time s' = Some (rnd (gm_time_seconds m))
    \<and> sc_missing (pp_counts s') = sc_missing (pp_counts s) + (if gm_measured_value m = None then 1 else 0)
    \<and> counts_total (pp_counts s') = counts_total (pp_counts s) + 1"
proof -
  have "\<exists>mv. parse_optional_measurement db (measured_text db (gm_measured_value m)) k = Inr mv
      \<and> (mv = None \<longleftrightarrow> gm_measured_value m = None)" for k
  proof (cases "gm_measured_value m")
    case (Some v)
    have "db_fixed db 6 v \<noteq> []" using laws unfolding text_laws_def by blast
    moreover obtain x where "parse_measurement_double db (db_fixed db 6 v) k = Inr x" using fixed_parses(2) [OF laws] by blast
    ultimately show ?thesis by (simp add: Some measured_text_def parse_optional_measurement_def)
  qed (simp add: measured_text_def parse_optional_measurement_def)
  then obtain mv where mv: "parse_optional_measurement db (measured_text db (gm_measured_value m)) (Suc (pp_line_number s)) = Inr mv"
    "mv = None \<longleftrightarrow> gm_measured_value m = None" by blast
  have prev: "\<not> (case pp_previous_time s of None \<Rightarrow> False | Some previous \<Rightarrow> db_ge db previous (rnd (gm_time_seconds m)))"
    using later by (simp split: option.splits)
  show ?thesis
    using prev csv_row_cells [OF laws, of m] fixed_parses(1) [OF laws fin] mv
    by (simp add: process_line_def split_csv_line_split Let_def measure_line_counts)
qed

lemma process_rows:
  assumes "text_laws db rnd"
    "successively (\<lambda>x y. \<not> db_ge db (rnd (gm_time_seconds x)) (rnd (gm_time_seconds y))) ms"
    "ms = [] \<or> (case pp_previous_time s of None \<Rightarrow> True | Some p \<Rightarrow> \<not> db_ge db p (rnd (gm_time_seconds (hd ms))))"
    "list_all (\<lambda>m. db_isfinite db (gm_time_seconds m)) ms"
  shows "\<exists>s'. process_lines db 1 3 (map (csv_row db) ms) s = (s', None)
    \<and> sc_missing (pp_counts s') = sc_missing (pp_counts s) + length (filter (\<lambda>m. gm_measured_value m = None) ms)
    \<and> counts_total (pp_counts s') = counts_total (pp_counts s) + length ms"
  using assms(2-4)
proof (induction ms arbitrary: s)
  case (Cons m ms)
  have now_finite: "db_isfinite db (gm_time_seconds m)" using Cons.prems(3) by simp
  have "case pp_previous_time s of None \<Rightarrow> True | Some p \<Rightarrow> \<not> db_ge db p (rnd (gm_time_seconds m))"
    using Cons.prems(2) by (simp split: option.splits)
  from process_row [OF assms(1) now_finite this] obtain s1 where
    s1: "process_line db 1 3 (csv_row db m) s = Inr s1" "pp_previous_time s1 = Some (rnd (gm_time_seconds m))"
    "sc_missing (pp_counts s1) = sc_missing (pp_counts s) + (if gm_measured_value m = None then 1 else 0)"
    "counts_total (pp_counts s1) = counts_total (pp_counts s) + 1" by blast
  have "successively (\<lambda>x y. \<not> db_ge db (rnd (gm_time_seconds x)) (rnd (gm_time_seconds y))) ms"
    "ms = [] \<or> (case pp_previous_time s1 of None \<Rightarrow> True | Some p \<Rightarrow> \<not> db_ge db p (rnd (gm_time_seconds (hd ms))))"
    using Cons.prems(1) s1(2) by (cases ms; simp)+
  moreover have "list_all (\<lambda>m. db_isfinite db (gm_time_seconds m)) ms" using Cons.prems(3) by simp
  ultimately show ?case using Cons.IH [of s1] s1 by auto
qed simp

lemma generate_one_missing:
  "gm_measured_value (fst (generate_one l c k state)) = None \<longleftrightarrow> gm_event (fst (generate_one l c k state)) = EvMissing"
  by (simp add: generate_one_def split_beta Let_def)

lemma generate_from_missing:
  "length (fst (generate_from l c ks state)) = length ks
   \<and> filter (\<lambda>m. gm_measured_value m = None) (fst (generate_from l c ks state))
     = filter (\<lambda>m. gm_event m = EvMissing) (fst (generate_from l c ks state))"
proof (induction ks arbitrary: state)
  case (Cons k ks)
  then show ?case using generate_one_missing [of l c k state] by (simp add: Let_def split_beta)
qed simp

lemma generate_eq:
  "fst (generate l g) = fst (generate_from l (mg_config g) [0..<gc_count (mg_config g)]
     (rn_engine l (gc_seed (mg_config g)), rn_normal_new l))"
  "mg_config (snd (generate l g)) = mg_config g"
  by (simp_all add: generate_def Let_def split_beta)

section \<open>Properties\<close>

text \<open>What a generator that could be made yields, in exact arithmetic. There are as many measurements as configured,
numbered and timed at the sample rate; the true value stays between the two limits whatever the profile; a missing measurement has
no value, a spike differs from the true value by an amount within the configured magnitudes, and any other has a value. The
counts of the summary add up to the measurements, and generating again gives the same ones. The assumption is that
a uniform draw lies in its range.\<close>

theorem generated_measurements:
  assumes "exact_generator l" "draws_in_range l" "newMeasurementGenerator l config = Inr g"
    "generate l g = (ms, g')"
  shows "length ms = gc_count config
    \<and> list_all2 (measured_ok l config) [0..<gc_count config] ms
    \<and> gs_normal_count (summarize ms) + gs_spike_count (summarize ms) + gs_missing_count (summarize ms) = gc_count config
    \<and> fst (generate l g') = ms"
proof -
  have g: "mg_config g = config" "generator_validate (rn_db l) config = None"
    using assms(3) by (auto simp: newMeasurementGenerator_def split: option.splits)
  have ms: "ms = fst (generate l g)" and g': "mg_config g' = config"
    using assms(4) generate_eq(2) [of l g] g by simp_all
  have "list_all2 (measured_ok l config) [0..<gc_count config] ms"
    using generate_from_ok [OF assms(1,2) g(2)] by (simp add: ms generate_eq g list_all_iff)
  moreover from this have "length ms = gc_count config" by (simp add: list_all2_iff)
  ultimately show ?thesis using summarize_total [of ms] generate_eq(1) [of l g'] by (simp add: ms generate_eq g g')
qed

text \<open>C30: The file of the generator is one that the Chapter 7 program reads. Whatever the generator was configured to do,
when the times are finite numbers and still increase as they are printed and read back, and when the columns and the filters of the program could
be set up, the program reads every row without an error, classifies each, and counts as missing
exactly the measurements that the generator left out. Measured values may have overflowed to an
infinity or be NaN: these are printed as such and accepted. The assumption on the library is that the text of a
number holds no comma or line end, is read back, and is read back finite if the number is finite.\<close>

theorem generator_feeds_filter:
  assumes "text_laws (rn_db l) rnd" "pipeline_start (rn_db l) opts generator_header = Inr (tc, mc, s0)"
    "successively (\<lambda>x y. \<not> db_ge (rn_db l) (rnd (gm_time_seconds x)) (rnd (gm_time_seconds y))) (fst (generate l g))"
    "list_all (\<lambda>m. db_isfinite (rn_db l) (gm_time_seconds m)) (fst (generate l g))"
  shows "\<exists>counts. snd (run_filter (rn_db l) opts (Some (csv_text (rn_db l) (fst (generate l g)))) True) = Inr counts
    \<and> counts_total counts = gc_count (mg_config g)
    \<and> sc_missing counts = gs_missing_count (summarize (fst (generate l g)))"
proof -
  let ?ms = "fst (generate l g)"
  have start: "tc = 1" "mc = 3" "pp_previous_time s0 = None" "counts_total (pp_counts s0) = 0" "sc_missing (pp_counts s0) = 0"
    using assms(2) generator_columns
    by (auto simp: pipeline_start_def Let_def andThen_Inr require_column_def split_csv_line_split counts_total_def
        split: option.splits)
  obtain s' where s': "process_lines (rn_db l) 1 3 (map (csv_row (rn_db l)) ?ms) s0 = (s', None)"
    "sc_missing (pp_counts s') = length (filter (\<lambda>m. gm_measured_value m = None) ?ms)"
    "counts_total (pp_counts s') = length ?ms"
    using process_rows [OF assms(1,3) _ assms(4), of s0] start by auto
  have "length ?ms = gc_count (mg_config g)"
    "filter (\<lambda>m. gm_measured_value m = None) ?ms = filter (\<lambda>m. gm_event m = EvMissing) ?ms"
    using generate_from_missing [of l "mg_config g" "[0..<gc_count (mg_config g)]"] by (simp_all add: generate_eq)
  moreover have "gs_missing_count (summarize ?ms) = length (filter (\<lambda>m. gm_event m = EvMissing) ?ms)"
    by (simp add: summarize_def foldl_count_event)
  moreover have "run_filter (rn_db l) opts (Some (csv_text (rn_db l) ?ms)) True = (Some (pp_output s'), Inr (pp_counts s'))"
    using assms(2) s'(1) start by (simp add: run_filter_def csv_lines [OF assms(1)])
  ultimately show ?thesis using s' by simp
qed

text \<open>A library on rational numbers.\<close>

definition rat_generator :: "(rat, nat, unit) random_lib" where
  "rat_generator = \<lparr>rn_db = rat_db\<lparr>db_lit := (\<lambda>s. if s = ''0.5'' then 1 / 2 else rat_lit s),
       db_from_chars := (\<lambda>s. Some (length s, 0 + of_nat (nat_of_digits (takeWhile is_digit s))))\<rparr>,
     rn_strtod = (\<lambda>s. (0, s)), rn_engine = unat, rn_normal_new = (), rn_normal = (\<lambda>mean dev n g. (mean, n, Suc g)),
     rn_uniform_real = (\<lambda>lo hi g. (if even g then lo else hi, Suc g)), rn_bernoulli = (\<lambda>p g. (True, Suc g))\<rparr>"

definition sample_config :: "rat GeneratorConfig" where
  "sample_config = \<lparr>gc_count = 3, gc_minimum = 20, gc_maximum = 40, gc_profile = RampProfile, gc_sample_rate_hz = 1,
     gc_noise_stddev = 1, gc_spike_frequency = 0, gc_missing_frequency = 1, gc_spike_minimum = 5, gc_spike_maximum = 6,
     gc_seed = 0\<rparr>"

definition sample_generator :: "(rat, nat, unit) MeasurementGenerator" where
  "sample_generator = \<lparr>mg_config = sample_config, mg_random_engine = 0, mg_noise = ()\<rparr>"

lemma sample_generator_made: "newMeasurementGenerator rat_generator sample_config = Inr sample_generator"
  by (simp add: newMeasurementGenerator_def generator_validate_def orElse_def check_def validate_frequency_def db_le_def
      rat_generator_def rat_db_def rat_lit_def nat_of_digits_def is_digit_def in_chars_def code_def digit_val_def
      sample_config_def sample_generator_def Let_def)

lemma rat_generator_exact: "exact_generator rat_generator" "draws_in_range rat_generator"
  by (simp_all add: exact_generator_simps draws_in_range_def rat_generator_def rat_db_def rat_lit_def nat_of_digits_def
      is_digit_def in_chars_def code_def digit_val_def)

theorem generated_measurements_witness:
  "length (fst (generate rat_generator sample_generator)) = 3
   \<and> list_all2 (measured_ok rat_generator sample_config) [0..<3] (fst (generate rat_generator sample_generator))"
proof -
  obtain ms g' where g: "generate rat_generator sample_generator = (ms, g')" by fastforce
  show ?thesis
    using generated_measurements [OF rat_generator_exact sample_generator_made g] by (simp add: g sample_config_def)
qed

definition rat_rounded :: "rat \<Rightarrow> rat" where
  "rat_rounded v = 0 + of_nat (nat_of_digits (takeWhile is_digit (show_int \<lfloor>v\<rfloor>)))"

lemma rat_text_laws: "text_laws (rn_db rat_generator) rat_rounded"
proof -
  have db: "db_fixed (rn_db rat_generator) 6 v = show_int \<lfloor>v\<rfloor>" "db_isfinite (rn_db rat_generator) v"
    "db_from_chars (rn_db rat_generator) (show_int \<lfloor>v\<rfloor>) = Some (length (show_int \<lfloor>v\<rfloor>), rat_rounded v)" for v
    by (simp_all add: rat_generator_def rat_db_def rat_rounded_def)
  have "CHR '','' \<notin> set (show_int v)" "CHR 0x0A \<notin> set (show_int v)" for v
    by (intro show_int_avoids; simp add: code_def)+
  then show ?thesis by (simp only: text_laws_def db) simp
qed

theorem generator_feeds_filter_witness:
  "\<exists>counts. snd (run_filter (rn_db rat_generator) sample_options
       (Some (csv_text (rn_db rat_generator) (fst (generate rat_generator sample_generator)))) True) = Inr counts
     \<and> counts_total counts = 3 \<and> sc_missing counts = 1"
proof -
  have "\<not> isl (pipeline_start (rn_db rat_generator) sample_options generator_header)" by code_simp
  then obtain tc mc s0 where start: "pipeline_start (rn_db rat_generator) sample_options generator_header = Inr (tc, mc, s0)"
    by (cases "pipeline_start (rn_db rat_generator) sample_options generator_header") auto
  have increasing: "successively (\<lambda>x y. \<not> db_ge (rn_db rat_generator) (rat_rounded (gm_time_seconds x)) (rat_rounded (gm_time_seconds y)))
      (fst (generate rat_generator sample_generator))" by code_simp
  have finite_times: "list_all (\<lambda>m. db_isfinite (rn_db rat_generator) (gm_time_seconds m)) (fst (generate rat_generator sample_generator))"
    by code_simp
  have "gs_missing_count (summarize (fst (generate rat_generator sample_generator))) = 1" by code_simp
  moreover have "gc_count (mg_config sample_generator) = 3" by (simp add: sample_generator_def sample_config_def)
  ultimately show ?thesis using generator_feeds_filter [OF rat_text_laws start increasing finite_times] by simp
qed

end
