(* ===== verification/MemoryDemo.thy ===== *)
theory MemoryDemo
  imports HeapMonitor
begin

text \<open>
  Chapter 8, \<open>memory_demo/main.cpp\<close>: scenarios that process work with a container and ask the heap monitor
  whether the global heap was used meanwhile. A container of the C++ library is its elements and its capacity; it
  asks for memory when it is full, and how much it then asks for is a parameter. A memory resource is a state with an
  operation that allocates and may fail (\<open>std::bad_alloc\<close>) and one that takes memory back. What the pool resource
  does inside its buffer is left open by the language and is a parameter too.
\<close>

section \<open>Containers\<close>

record 'a Vec =
  vc_items :: "'a list"
  vc_capacity :: nat

definition emptyVec :: "'a Vec" where "emptyVec = \<lparr>vc_items = [], vc_capacity = 0\<rparr>"

text \<open>A resource: \<open>alloc bytes alignment\<close> and \<open>dealloc bytes\<close>. The old block is returned after the elements have moved.\<close>

definition give_back :: "(nat \<Rightarrow> 'm \<Rightarrow> 'm) \<Rightarrow> nat \<Rightarrow> 'a Vec \<Rightarrow> 'm \<Rightarrow> 'm" where
  "give_back dealloc elem v m = (if vc_capacity v = 0 then m else dealloc (vc_capacity v * elem) m)"

definition reallocate ::
  "(nat \<Rightarrow> nat \<Rightarrow> 'm \<Rightarrow> 'm option) \<Rightarrow> (nat \<Rightarrow> 'm \<Rightarrow> 'm) \<Rightarrow> nat \<Rightarrow> nat \<Rightarrow> nat \<Rightarrow> 'a Vec \<Rightarrow> 'm \<Rightarrow> ('a Vec \<times> 'm) option"
where
  "reallocate alloc dealloc elem align n v m =
     (case alloc (n * elem) align m of
        None \<Rightarrow> None
      | Some m1 \<Rightarrow> Some (v\<lparr>vc_capacity := n\<rparr>, give_back dealloc elem v m1))"

definition vec_reserve where
  "vec_reserve alloc dealloc elem align n v m =
     (if n \<le> vc_capacity v then Some (v, m) else reallocate alloc dealloc elem align n v m)"

definition vec_push where
  "vec_push alloc dealloc grow elem align x v m =
     (case (if length (vc_items v) < vc_capacity v then Some (v, m)
            else reallocate alloc dealloc elem align (max (grow (vc_capacity v)) (vc_capacity v + 1)) v m) of
        None \<Rightarrow> None
      | Some (v1, m1) \<Rightarrow> Some (v1\<lparr>vc_items := vc_items v1 @ [x]\<rparr>, m1))"

definition vec_clear :: "'a Vec \<Rightarrow> 'a Vec" where "vec_clear v = v\<lparr>vc_items := []\<rparr>"

section \<open>Resources\<close>

text \<open>The global heap, where \<open>operator new\<close> is counted; \<open>malloc_ok\<close> says which requests the system grants.\<close>

definition heap_alloc :: "(nat \<Rightarrow> bool) \<Rightarrow> nat \<Rightarrow> nat \<Rightarrow> Counters \<Rightarrow> Counters option" where
  "heap_alloc malloc_ok bytes align c = (if malloc_ok bytes then Some (record_allocation (of_nat bytes) c) else None)"

definition heap_dealloc :: "nat \<Rightarrow> Counters \<Rightarrow> Counters" where
  "heap_dealloc bytes c = record_deallocation (of_nat bytes) c"

text \<open>\<open>monotonic_buffer_resource\<close> over a buffer at an address, with \<open>null_memory_resource\<close> upstream.\<close>

record Arena =
  an_base :: nat
  an_size :: nat
  an_used :: nat

definition newArena :: "nat \<Rightarrow> nat \<Rightarrow> Arena" where
  "newArena base bytes = \<lparr>an_base = base, an_size = bytes, an_used = 0\<rparr>"

definition align_up :: "nat \<Rightarrow> nat \<Rightarrow> nat" where "align_up p a = (p + a - 1) div a * a"

definition arena_alloc :: "nat \<Rightarrow> nat \<Rightarrow> Arena \<Rightarrow> Arena option" where
  "arena_alloc bytes align m =
     (let used = align_up (an_base m + an_used m) align - an_base m + bytes
      in if used \<le> an_size m then Some (m\<lparr>an_used := used\<rparr>) else None)"

definition arena_dealloc :: "nat \<Rightarrow> Arena \<Rightarrow> Arena" where "arena_dealloc bytes m = m"

definition arena_release :: "Arena \<Rightarrow> Arena" where "arena_release m = m\<lparr>an_used := 0\<rparr>"

section \<open>Scenarios\<close>

text \<open>A message is 64 bytes of payload, all zero, and its sequence number: 72 bytes, aligned to 8.\<close>

record Message =
  me_payload :: bytes
  me_sequence :: nat

definition message :: "nat \<Rightarrow> Message" where "message index = \<lparr>me_payload = replicate 64 0, me_sequence = index\<rparr>"

definition work_unit_count :: nat where "work_unit_count = 10000"
definition resource_bytes :: nat where "resource_bytes = 16384"

record ScenarioResult =
  sn_name :: string
  sn_work_units :: nat
  sn_expected_behavior :: bool
  sn_expectation :: string

text \<open>The loop over the work units of two scenarios; \<open>None\<close> when an exception leaves it.\<close>

primrec process_units where
  "process_units alloc dealloc grow [] v m completed = Some (v, m, completed)"
| "process_units alloc dealloc grow (index # rest) v m completed =
     (case vec_push alloc dealloc grow 72 8 (message index) v m of
        None \<Rightarrow> None
      | Some (v1, m1) \<Rightarrow>
          process_units alloc dealloc grow rest
            (if length (vc_items v1) = vc_capacity v1 then vec_clear v1 else v1) m1 (completed + 1))"

definition run_reserved :: "(nat \<Rightarrow> bool) \<Rightarrow> (nat \<Rightarrow> nat) \<Rightarrow> Counters \<Rightarrow> (ScenarioResult \<times> Counters) option" where
  "run_reserved malloc_ok grow c =
     (let alloc = heap_alloc malloc_ok; dealloc = heap_dealloc
      in case vec_reserve alloc dealloc 72 8 128 emptyVec c of
           None \<Rightarrow> None
         | Some (v, c1) \<Rightarrow>
             (case process_units alloc dealloc grow [0..<work_unit_count] v (begin_steady_state c1) 0 of
                None \<Rightarrow> None
              | Some (v2, c2, completed) \<Rightarrow>
                  Some (\<lparr>sn_name = ''reserved vector'', sn_work_units = completed,
                          sn_expected_behavior = (steady_state_allocation_count c2 = 0),
                          sn_expectation = ''no steady-state heap allocations''\<rparr>, give_back dealloc 72 v2 c2)))"

primrec push_messages where
  "push_messages alloc dealloc grow [] v m = Some (v, m)"
| "push_messages alloc dealloc grow (index # rest) v m =
     (case vec_push alloc dealloc grow 72 8 (message index) v m of
        None \<Rightarrow> None
      | Some (v1, m1) \<Rightarrow> push_messages alloc dealloc grow rest v1 m1)"

definition run_growing :: "(nat \<Rightarrow> bool) \<Rightarrow> (nat \<Rightarrow> nat) \<Rightarrow> Counters \<Rightarrow> (ScenarioResult \<times> Counters) option" where
  "run_growing malloc_ok grow c =
     (let message_count = 1000
      in case push_messages (heap_alloc malloc_ok) heap_dealloc grow [0..<message_count] emptyVec (begin_steady_state c) of
           None \<Rightarrow> None
         | Some (v, c1) \<Rightarrow>
             Some (\<lparr>sn_name = ''growing vector'', sn_work_units = message_count,
                     sn_expected_behavior = (steady_state_allocation_count c1 > 0),
                     sn_expectation = ''intentional steady-state allocations detected''\<rparr>, give_back heap_dealloc 72 v c1))"

text \<open>The pool: the state \<open>p\<close> of the two resources, which draw on the buffer alone.\<close>

definition run_pool ::
  "(nat \<Rightarrow> nat \<Rightarrow> 'p \<Rightarrow> 'p option) \<Rightarrow> (nat \<Rightarrow> 'p \<Rightarrow> 'p) \<Rightarrow> 'p \<Rightarrow> (nat \<Rightarrow> nat) \<Rightarrow> Counters
    \<Rightarrow> (ScenarioResult \<times> Counters) option" where
  "run_pool pool_alloc pool_dealloc p grow c =
     (case vec_reserve pool_alloc pool_dealloc 72 8 128 emptyVec p of
        None \<Rightarrow> None
      | Some (v, p1) \<Rightarrow>
          (let c1 = begin_steady_state c
           in case process_units pool_alloc pool_dealloc grow [0..<work_unit_count] v p1 0 of
                None \<Rightarrow> None
              | Some (v2, p2, completed) \<Rightarrow>
                  Some (\<lparr>sn_name = ''bounded PMR pool'', sn_work_units = completed,
                          sn_expected_behavior = (steady_state_allocation_count c1 = 0),
                          sn_expectation = ''no steady-state global heap allocations''\<rparr>, c1)))"

text \<open>One cycle of the arena. A string keeps \<open>sso\<close> characters without memory, and a terminator beside its characters.\<close>

primrec push_values where
  "push_values grow [] vs ts m completed = Some (vs, ts, m, completed)"
| "push_values grow (n # ns) vs ts m completed =
     (case vec_push arena_alloc arena_dealloc grow 4 4 (int n) vs m of
        None \<Rightarrow> None
      | Some (vs1, m1) \<Rightarrow>
          (case vec_push (\<lambda>b. arena_alloc (b + 1)) (\<lambda>b. arena_dealloc (b + 1)) grow 1 1 (char_of (65 + n mod 26)) ts m1 of
             None \<Rightarrow> None
           | Some (ts1, m2) \<Rightarrow> push_values grow ns vs1 ts1 m2 (completed + 1)))"

definition arena_cycle :: "nat \<Rightarrow> (nat \<Rightarrow> nat) \<Rightarrow> Arena \<Rightarrow> nat \<Rightarrow> (Arena \<times> nat) option" where
  "arena_cycle sso grow m completed =
     (case vec_reserve arena_alloc arena_dealloc 4 4 128 (emptyVec :: int Vec) m of
        None \<Rightarrow> None
      | Some (vs, m1) \<Rightarrow>
          (case vec_reserve (\<lambda>b. arena_alloc (b + 1)) (\<lambda>b. arena_dealloc (b + 1)) 1 1 128
                  \<lparr>vc_items = [] :: char list, vc_capacity = sso\<rparr> m1 of
             None \<Rightarrow> None
           | Some (ts, m2) \<Rightarrow>
               (case push_values grow [0..<128] vs ts m2 completed of
                  None \<Rightarrow> None
                | Some (vs1, ts1, m3, completed1) \<Rightarrow> Some (arena_release m3, completed1))))"

primrec arena_cycles where
  "arena_cycles sso grow 0 m completed = Some (m, completed)"
| "arena_cycles sso grow (Suc n) m completed =
     (case arena_cycle sso grow m completed of
        None \<Rightarrow> None
      | Some (m1, completed1) \<Rightarrow> arena_cycles sso grow n m1 completed1)"

definition run_arena :: "nat \<Rightarrow> nat \<Rightarrow> (nat \<Rightarrow> nat) \<Rightarrow> Counters \<Rightarrow> (ScenarioResult \<times> Counters) option" where
  "run_arena base sso grow c =
     (let c1 = begin_steady_state c
      in case arena_cycles sso grow 100 (newArena base resource_bytes) 0 of
           None \<Rightarrow> None
         | Some (m, completed) \<Rightarrow>
             Some (\<lparr>sn_name = ''bounded PMR arena'', sn_work_units = completed,
                     sn_expected_behavior = (steady_state_allocation_count c1 = 0),
                     sn_expectation = ''arena reused without global heap allocations''\<rparr>, c1))"

text \<open>
  The loop without a condition: it ends when \<open>push_back\<close> throws, and then gives the number of elements
  pushed. \<open>None\<close> would mean that it never ends.
\<close>

partial_function (option) push_until_full where
  "push_until_full alloc dealloc grow v m completed =
     (case vec_push alloc dealloc grow 1 1 (0x5A :: u8) v m of
        None \<Rightarrow> Some (completed, give_back dealloc 1 v m)
      | Some r \<Rightarrow> push_until_full alloc dealloc grow (fst r) (snd r) (completed + 1 :: nat))"

definition run_exhaustion :: "nat \<Rightarrow> (nat \<Rightarrow> nat) \<Rightarrow> Counters \<Rightarrow> (ScenarioResult \<times> Counters) option" where
  "run_exhaustion base grow c =
     (let c1 = begin_steady_state c
      in case push_until_full arena_alloc arena_dealloc grow emptyVec (newArena base 512) 0 of
           None \<Rightarrow> None
         | Some (completed, m) \<Rightarrow>
             Some (\<lparr>sn_name = ''bounded arena exhaustion'', sn_work_units = completed,
                     sn_expected_behavior = (steady_state_allocation_count c1 = 0),
                     sn_expectation = ''capacity limit enforced without heap fallback''\<rparr>, c1))"

text \<open>The numbers of the report: initialisation, steady state, and overall.\<close>

definition report_numbers :: "Counters \<Rightarrow> u64 list" where
  "report_numbers c =
     [allocation_count c - steady_state_allocation_count c, allocated_bytes c - steady_state_allocated_bytes c,
      steady_state_allocation_count c, steady_state_allocated_bytes c, deallocation_count c, live_bytes c,
      peak_live_bytes c]"

record 'p demo_lib =
  dl_malloc_ok :: "nat \<Rightarrow> bool"
  dl_grow :: "nat \<Rightarrow> nat"
  dl_sso :: nat
  dl_base :: nat
  dl_pool_alloc :: "nat \<Rightarrow> nat \<Rightarrow> 'p \<Rightarrow> 'p option"
  dl_pool_dealloc :: "nat \<Rightarrow> 'p \<Rightarrow> 'p"
  dl_pool :: 'p

definition run_scenario :: "'p demo_lib \<Rightarrow> string \<Rightarrow> Counters \<Rightarrow> (ScenarioResult \<times> Counters) option option" where
  "run_scenario l scenario c =
     (if scenario = ''reserved'' then Some (run_reserved (dl_malloc_ok l) (dl_grow l) c)
      else if scenario = ''growing'' then Some (run_growing (dl_malloc_ok l) (dl_grow l) c)
      else if scenario = ''pool'' then Some (run_pool (dl_pool_alloc l) (dl_pool_dealloc l) (dl_pool l) (dl_grow l) c)
      else if scenario = ''arena'' then Some (run_arena (dl_base l) (dl_sso l) (dl_grow l) c)
      else if scenario = ''exhaustion'' then Some (run_exhaustion (dl_base l) (dl_grow l) c)
      else None)"

text \<open>The exit status with the report; no status when an exception ends the program.\<close>

definition memory_main :: "'p demo_lib \<Rightarrow> string list \<Rightarrow> Counters \<Rightarrow> int option \<times> (ScenarioResult \<times> u64 list) option" where
  "memory_main l args c =
     (case args of
        [scenario] \<Rightarrow>
          (case run_scenario l scenario c of
             None \<Rightarrow> (Some 2, None)
           | Some None \<Rightarrow> (None, None)
           | Some (Some (r, c1)) \<Rightarrow>
               (Some (if sn_expected_behavior r then 0 else 1), Some (r, report_numbers c1)))
      | _ \<Rightarrow> (Some 2, None))"

section \<open>Containers within their capacity\<close>

lemma vec_push_within:
  "length (vc_items v) < vc_capacity v \<Longrightarrow>
     vec_push alloc dealloc grow elem align x v m = Some (v\<lparr>vc_items := vc_items v @ [x]\<rparr>, m)"
  by (simp add: vec_push_def)

lemma process_units_within:
  "length (vc_items v) < vc_capacity v \<Longrightarrow>
     \<exists>v'. process_units alloc dealloc grow ks v m n = Some (v', m, n + length ks) \<and> vc_capacity v' = vc_capacity v"
proof (induction ks arbitrary: v n)
  case (Cons k ks)
  let ?v = "v\<lparr>vc_items := vc_items v @ [message k]\<rparr>"
  let ?w = "if length (vc_items ?v) = vc_capacity ?v then vec_clear ?v else ?v"
  have "length (vc_items ?w) < vc_capacity ?w" "vc_capacity ?w = vc_capacity v"
    using Cons.prems by (auto simp: vec_clear_def)
  then obtain v' where "process_units alloc dealloc grow ks ?w m (n + 1) = Some (v', m, (n + 1) + length ks)"
    "vc_capacity v' = vc_capacity v" using Cons.IH by fastforce
  then show ?case using Cons.prems by (simp add: vec_push_within)
qed simp

section \<open>Resources that only give\<close>

text \<open>
  What the scenario of exhaustion relies on: each block that is granted uses up at least its size, and taking a block back
  makes no room. Then pushing until the container cannot grow ends.
\<close>

locale monotonic_resource =
  fixes alloc :: "nat \<Rightarrow> nat \<Rightarrow> 'm \<Rightarrow> 'm option"
    and dealloc :: "nat \<Rightarrow> 'm \<Rightarrow> 'm"
    and room :: "'m \<Rightarrow> nat"
  assumes alloc_room: "0 < align \<Longrightarrow> alloc bytes align m = Some m' \<Longrightarrow> room m' + bytes \<le> room m"
    and dealloc_room: "room (dealloc bytes m) \<le> room m"
begin

lemma give_back_room: "room (give_back dealloc elem v m) \<le> room m"
  by (simp add: give_back_def dealloc_room)

lemma push_uses_room:
  assumes "vec_push alloc dealloc grow 1 1 x v m = Some (v', m')" "length (vc_items v) \<le> vc_capacity v"
  shows "length (vc_items v') \<le> vc_capacity v'
    \<and> room m' + (vc_capacity v' - length (vc_items v')) < room m + (vc_capacity v - length (vc_items v))"
proof (cases "length (vc_items v) < vc_capacity v")
  case True
  then show ?thesis using assms by (auto simp: vec_push_within)
next
  case False
  let ?n = "max (grow (vc_capacity v)) (vc_capacity v + 1)"
  from False assms obtain m1 where a: "alloc (?n * 1) 1 m = Some m1" "m' = give_back dealloc 1 v m1"
    "v' = v\<lparr>vc_capacity := ?n, vc_items := vc_items v @ [x]\<rparr>"
    by (auto simp: vec_push_def reallocate_def split: option.splits)
  have "room m1 + ?n \<le> room m" using alloc_room [OF _ a(1)] by simp
  moreover have "room m' \<le> room m1" unfolding a(2) by (rule give_back_room)
  ultimately show ?thesis using False assms(2) a(3) by simp
qed

lemma push_until_full_returns:
  "length (vc_items v) \<le> vc_capacity v \<Longrightarrow>
     \<exists>k m'. push_until_full alloc dealloc grow v m n = Some (k, m')
       \<and> n \<le> k \<and> k \<le> n + (room m + (vc_capacity v - length (vc_items v)))"
proof (induction "room m + (vc_capacity v - length (vc_items v))" arbitrary: v m n rule: less_induct)
  case less
  show ?case
  proof (cases "vec_push alloc dealloc grow 1 1 (0x5A :: u8) v m")
    case None
    then show ?thesis by (subst push_until_full.simps) simp
  next
    case (Some r)
    obtain v1 m1 where r: "r = (v1, m1)" by fastforce
    note used = push_uses_room [OF Some [unfolded r] less.prems]
    obtain k m' where k: "push_until_full alloc dealloc grow v1 m1 (n + 1) = Some (k, m')" "n + 1 \<le> k"
      "k \<le> n + 1 + (room m1 + (vc_capacity v1 - length (vc_items v1)))"
      using less.hyps [of m1 v1 "n + 1"] used by blast
    have "push_until_full alloc dealloc grow v m n = Some (k, m')"
      using k(1) Some r by (subst push_until_full.simps) simp
    moreover have "n \<le> k" "k \<le> n + (room m + (vc_capacity v - length (vc_items v)))"
      using k(2,3) conjunct2 [OF used] by linarith+
    ultimately show ?thesis by blast
  qed
qed

end

lemma align_up_bounds:
  assumes "0 < a"
  shows "p \<le> align_up p a \<and> align_up p a < p + a"
proof -
  define q where "q = p + a - 1"
  have "q div a * a + q mod a = q" "q mod a < a" using assms by simp_all
  moreover have "q + 1 = p + a" using assms by (simp add: q_def)
  moreover have "align_up p a = q div a * a" by (simp only: align_up_def q_def)
  ultimately show ?thesis by linarith
qed

lemmas align_up_ge = align_up_bounds [THEN conjunct1]
lemmas align_up_less = align_up_bounds [THEN conjunct2]

lemma align_up_1 [simp]: "align_up p 1 = p" "align_up p (Suc 0) = p"
  by (simp_all add: align_up_def)

interpretation arena: monotonic_resource arena_alloc arena_dealloc "\<lambda>m. an_size m - an_used m"
proof
  fix align bytes :: nat and m m' :: Arena
  assume "0 < align" "arena_alloc bytes align m = Some m'"
  moreover from this have "an_base m + an_used m \<le> align_up (an_base m + an_used m) align" using align_up_ge by blast
  ultimately show "an_size m' - an_used m' + bytes \<le> an_size m - an_used m"
    by (auto simp: arena_alloc_def Let_def split: if_splits)
qed (simp add: arena_dealloc_def)

section \<open>The scenarios\<close>

lemma heap_counts:
  "record_allocation b c = (let live = live_bytes c + b in
     c\<lparr>allocation_count := allocation_count c + 1, allocated_bytes := allocated_bytes c + b, live_bytes := live,
        peak_live_bytes := max (peak_live_bytes c) live,
        steady_state_allocation_count := steady_state_allocation_count c + (if steady_state c then 1 else 0),
        steady_state_allocated_bytes := steady_state_allocated_bytes c + (if steady_state c then b else 0)\<rparr>)"
  "record_deallocation b c = c\<lparr>deallocation_count := deallocation_count c + 1,
     deallocated_bytes := deallocated_bytes c + b, live_bytes := live_bytes c - b\<rparr>"
  by (simp_all add: record_allocation_def record_deallocation_def record_allocation_result record_deallocation_result Let_def)

lemma give_back_steady [simp]:
  "steady_state (give_back heap_dealloc elem v c) = steady_state c"
  "steady_state_allocation_count (give_back heap_dealloc elem v c) = steady_state_allocation_count c"
  by (simp_all add: give_back_def heap_dealloc_def heap_counts)

text \<open>A push counts at most one allocation, and exactly one when the container is full.\<close>

lemma heap_push:
  assumes "\<forall>b. malloc_ok b" "steady_state c" "length (vc_items v) \<le> vc_capacity v"
  shows "\<exists>v' c'. vec_push (heap_alloc malloc_ok) heap_dealloc grow 72 8 x v c = Some (v', c')
    \<and> steady_state c' \<and> length (vc_items v') \<le> vc_capacity v'
    \<and> steady_state_allocation_count c' = steady_state_allocation_count c
        + (if length (vc_items v) = vc_capacity v then 1 else 0)"
  using assms by (auto simp: vec_push_def reallocate_def heap_alloc_def heap_counts Let_def)

lemma push_messages_counts:
  assumes "\<forall>b. malloc_ok b"
  shows "steady_state c \<Longrightarrow> length (vc_items v) \<le> vc_capacity v \<Longrightarrow>
    \<exists>v' c' k. push_messages (heap_alloc malloc_ok) heap_dealloc grow ks v c = Some (v', c')
      \<and> steady_state_allocation_count c' = steady_state_allocation_count c + of_nat k \<and> k \<le> length ks
      \<and> (ks \<noteq> [] \<and> length (vc_items v) = vc_capacity v \<longrightarrow> 0 < k)"
proof (induction ks arbitrary: v c)
  case Nil
  then show ?case by (intro exI [of _ v] exI [of _ c] exI [of _ 0]) simp
next
  case (Cons i ks)
  obtain v1 c1 where p: "vec_push (heap_alloc malloc_ok) heap_dealloc grow 72 8 (message i) v c = Some (v1, c1)"
    "steady_state c1" "length (vc_items v1) \<le> vc_capacity v1"
    "steady_state_allocation_count c1 = steady_state_allocation_count c
        + (if length (vc_items v) = vc_capacity v then 1 else 0)"
    using heap_push [OF assms Cons.prems] by blast
  obtain v2 c2 k where "push_messages (heap_alloc malloc_ok) heap_dealloc grow ks v1 c1 = Some (v2, c2)"
    "steady_state_allocation_count c2 = steady_state_allocation_count c1 + of_nat k" "k \<le> length ks"
    using Cons.IH [OF p(2,3)] by blast
  then show ?case using p
    by (intro exI [of _ v2] exI [of _ c2] exI [of _ "k + (if length (vc_items v) = vc_capacity v then 1 else 0)"]) simp
qed

definition fresh_counters :: "Counters \<Rightarrow> bool" where
  "fresh_counters c \<longleftrightarrow> \<not> steady_state c \<and> steady_state_allocation_count c = 0"

lemma reserved_passes:
  assumes "\<forall>b. malloc_ok b" "fresh_counters c"
  shows "\<exists>r c'. run_reserved malloc_ok grow c = Some (r, c') \<and> sn_expected_behavior r \<and> sn_work_units r = 10000
    \<and> steady_state_allocation_count c' = 0"
proof -
  let ?c = "record_allocation 9216 c" and ?v = "emptyVec\<lparr>vc_capacity := 128\<rparr> :: Message Vec"
  have r: "vec_reserve (heap_alloc malloc_ok) heap_dealloc 72 8 128 emptyVec c = Some (?v, ?c)"
    using assms(1) by (simp add: vec_reserve_def reallocate_def heap_alloc_def give_back_def emptyVec_def)
  obtain v' where "process_units (heap_alloc malloc_ok) heap_dealloc grow [0..<work_unit_count] ?v (begin_steady_state ?c) 0
      = Some (v', begin_steady_state ?c, work_unit_count)"
    using process_units_within [of ?v "heap_alloc malloc_ok" heap_dealloc grow "[0..<work_unit_count]" "begin_steady_state ?c" 0]
    by (auto simp: emptyVec_def)
  then show ?thesis
    using assms(2) r
    by (simp add: run_reserved_def begin_steady_state_def heap_counts fresh_counters_def work_unit_count_def Let_def)
qed

lemma growing_passes:
  assumes "\<forall>b. malloc_ok b" "fresh_counters c"
  shows "\<exists>r c'. run_growing malloc_ok grow c = Some (r, c') \<and> sn_expected_behavior r \<and> sn_work_units r = 1000
    \<and> steady_state_allocation_count c' \<noteq> 0"
proof -
  let ?c = "begin_steady_state c"
  have "steady_state ?c" "length (vc_items (emptyVec :: Message Vec)) \<le> vc_capacity (emptyVec :: Message Vec)"
    by (simp_all add: begin_steady_state_def emptyVec_def)
  from push_messages_counts [OF assms(1) this, of grow "[0..<1000]"] obtain v' c' k where
    run: "push_messages (heap_alloc malloc_ok) heap_dealloc grow [0..<1000] emptyVec ?c = Some (v', c')"
    "steady_state_allocation_count c' = steady_state_allocation_count ?c + of_nat k" "k \<le> 1000" "0 < k"
    by (auto simp: emptyVec_def)
  have "unat (of_nat k :: u64) = k" using run(3) by (simp add: unat_of_nat)
  then have "(of_nat k :: u64) > 0" using run(4) by (metis unat_gt_0 word_gt_0 not_less_zero neq0_conv)
  then show ?thesis using run assms(2)
    by (simp add: word_gt_0 run_growing_def begin_steady_state_def fresh_counters_def Let_def)
qed

lemma pool_passes:
  assumes "pool_alloc 9216 8 p \<noteq> None" "fresh_counters c"
  shows "\<exists>r c'. run_pool pool_alloc pool_dealloc p grow c = Some (r, c') \<and> sn_expected_behavior r \<and> sn_work_units r = 10000
    \<and> steady_state_allocation_count c' = 0"
proof -
  obtain p1 where p1: "pool_alloc 9216 8 p = Some p1" using assms(1) by blast
  let ?v = "emptyVec\<lparr>vc_capacity := 128\<rparr> :: Message Vec"
  have r: "vec_reserve pool_alloc pool_dealloc 72 8 128 emptyVec p = Some (?v, p1)"
    using p1 by (simp add: vec_reserve_def reallocate_def give_back_def emptyVec_def)
  obtain v' where "process_units pool_alloc pool_dealloc grow [0..<work_unit_count] ?v p1 0 = Some (v', p1, work_unit_count)"
    using process_units_within [of ?v pool_alloc pool_dealloc grow "[0..<work_unit_count]" p1 0]
    by (auto simp: emptyVec_def)
  then show ?thesis
    using assms(2) r
    by (simp add: run_pool_def begin_steady_state_def fresh_counters_def work_unit_count_def Let_def)
qed

lemma push_values_within:
  "length (vc_items vs) + length ns \<le> vc_capacity vs \<Longrightarrow> length (vc_items ts) + length ns \<le> vc_capacity ts \<Longrightarrow>
     \<exists>vs' ts'. push_values grow ns vs ts m n = Some (vs', ts', m, n + length ns)"
proof (induction ns arbitrary: vs ts n)
  case (Cons k ns)
  let ?vs = "vs\<lparr>vc_items := vc_items vs @ [int k]\<rparr>" and ?ts = "ts\<lparr>vc_items := vc_items ts @ [char_of (65 + k mod 26)]\<rparr>"
  obtain vs' ts' where "push_values grow ns ?vs ?ts m (n + 1) = Some (vs', ts', m, (n + 1) + length ns)"
    using Cons.IH [of ?vs ?ts "n + 1"] Cons.prems by auto
  then show ?case using Cons.prems by (simp add: vec_push_within)
qed simp

lemma arena_cycle_runs:
  assumes "an_used m = 0" "an_size m = resource_bytes"
  shows "arena_cycle sso grow m n = Some (m, n + 128)"
proof -
  let ?used = "align_up (an_base m) 4 - an_base m + 512"
  have used: "?used \<le> 515" using align_up_less [of 4 "an_base m"] by simp
  define m1 where "m1 = m\<lparr>an_used := ?used\<rparr>"
  define m2 where "m2 = (if 128 \<le> sso then m1 else m1\<lparr>an_used := ?used + 129\<rparr>)"
  have r1: "vec_reserve arena_alloc arena_dealloc 4 4 128 (emptyVec :: int Vec) m = Some (emptyVec\<lparr>vc_capacity := 128\<rparr>, m1)"
    using used assms
    by (simp add: vec_reserve_def reallocate_def arena_alloc_def give_back_def emptyVec_def m1_def resource_bytes_def Let_def)
  have r2: "vec_reserve (\<lambda>b. arena_alloc (b + 1)) (\<lambda>b. arena_dealloc (b + 1)) 1 1 128 \<lparr>vc_items = [] :: char list, vc_capacity = sso\<rparr> m1
      = Some (\<lparr>vc_items = [], vc_capacity = max sso 128\<rparr>, m2)"
    using used assms
    by (auto simp: vec_reserve_def reallocate_def arena_alloc_def give_back_def arena_dealloc_def m2_def m1_def resource_bytes_def
        Let_def)
  obtain vs' ts' where "push_values grow [0..<128] (emptyVec\<lparr>vc_capacity := 128\<rparr>) \<lparr>vc_items = [], vc_capacity = max sso 128\<rparr> m2 n
      = Some (vs', ts', m2, n + length [0..<128 :: nat])"
    using push_values_within [of "emptyVec\<lparr>vc_capacity := 128\<rparr> :: int Vec" "[0..<128]" "\<lparr>vc_items = [], vc_capacity = max sso 128\<rparr>" grow m2 n]
    by (auto simp: emptyVec_def)
  moreover have "arena_release m2 = m" using assms by (simp add: arena_release_def m2_def m1_def)
  ultimately show ?thesis unfolding arena_cycle_def r1 option.case prod.case r2 by simp
qed

lemma arena_cycles_run:
  "an_used m = 0 \<Longrightarrow> an_size m = resource_bytes \<Longrightarrow> arena_cycles sso grow k m n = Some (m, n + 128 * k)"
  by (induction k arbitrary: n) (simp_all add: arena_cycle_runs)

lemma arena_passes:
  "fresh_counters c \<Longrightarrow>
    \<exists>r c'. run_arena base sso grow c = Some (r, c') \<and> sn_expected_behavior r \<and> sn_work_units r = 12800
    \<and> steady_state_allocation_count c' = 0"
  by (simp add: run_arena_def arena_cycles_run newArena_def begin_steady_state_def fresh_counters_def Let_def)

lemma exhaustion_passes:
  assumes "fresh_counters c"
  shows "\<exists>r c'. run_exhaustion base grow c = Some (r, c') \<and> sn_expected_behavior r \<and> sn_work_units r \<le> 512
    \<and> steady_state_allocation_count c' = 0"
proof -
  obtain k m' where "push_until_full arena_alloc arena_dealloc grow emptyVec (newArena base 512) 0 = Some (k, m')" "k \<le> 512"
    using arena.push_until_full_returns [of emptyVec grow "newArena base 512" 0]
    by (auto simp: emptyVec_def newArena_def)
  then show ?thesis using assms
    by (simp add: run_exhaustion_def begin_steady_state_def fresh_counters_def Let_def)
qed

section \<open>The program\<close>

lemma one_of_five:
  "x \<in> {a, b, c, d, e} \<Longrightarrow> (x = a \<Longrightarrow> R) \<Longrightarrow> (x = b \<Longrightarrow> R) \<Longrightarrow> (x = c \<Longrightarrow> R)
     \<Longrightarrow> (x = d \<Longrightarrow> R) \<Longrightarrow> (x = e \<Longrightarrow> R) \<Longrightarrow> R"
  by blast

text \<open>C31: when the system grants the requests, and the pool the one block it is asked for, every scenario of the memory
  demonstration ends and passes. The number of work units is the one intended, at most the 512 bytes of the buffer
  in the case of exhaustion, and the report shows allocations from the global heap in the steady state for the growing vector and
  for no other scenario.\<close>

theorem memory_demo_passes:
  assumes "\<forall>bytes. dl_malloc_ok l bytes" "dl_pool_alloc l 9216 8 (dl_pool l) \<noteq> None" "fresh_counters c"
    and "scenario \<in> {''reserved'', ''growing'', ''pool'', ''arena'', ''exhaustion''}"
  shows "\<exists>r numbers. memory_main l [scenario] c = (Some 0, Some (r, numbers))
    \<and> (if scenario = ''exhaustion'' then sn_work_units r \<le> 512
       else (scenario, sn_work_units r) \<in> {(''reserved'', 10000), (''growing'', 1000), (''pool'', 10000), (''arena'', 12800)})
    \<and> (numbers ! 2 \<noteq> 0) = (scenario = ''growing'')"
proof -
  from assms(4) show ?thesis
  proof (rule one_of_five)
    assume "scenario = ''reserved''"
    then show ?thesis using reserved_passes [OF assms(1,3), of "dl_grow l"]
      by (auto simp: memory_main_def run_scenario_def report_numbers_def)
  next
    assume "scenario = ''growing''"
    then show ?thesis using growing_passes [OF assms(1,3), of "dl_grow l"]
      by (auto simp: memory_main_def run_scenario_def report_numbers_def)
  next
    assume "scenario = ''pool''"
    then show ?thesis using pool_passes [of "dl_pool_alloc l" "dl_pool l" c "dl_pool_dealloc l" "dl_grow l", OF assms(2,3)]
      by (auto simp: memory_main_def run_scenario_def report_numbers_def)
  next
    assume "scenario = ''arena''"
    then show ?thesis using arena_passes [OF assms(3), of "dl_base l" "dl_sso l" "dl_grow l"]
      by (auto simp: memory_main_def run_scenario_def report_numbers_def)
  next
    assume "scenario = ''exhaustion''"
    then show ?thesis using exhaustion_passes [OF assms(3), of "dl_base l" "dl_grow l"]
      by (auto simp: memory_main_def run_scenario_def report_numbers_def)
  qed
qed

definition demo_example :: "Arena demo_lib" where
  "demo_example = \<lparr>dl_malloc_ok = (\<lambda>bytes. True), dl_grow = (\<lambda>n. 2 * n), dl_sso = 15, dl_base = 4096,
     dl_pool_alloc = arena_alloc, dl_pool_dealloc = arena_dealloc, dl_pool = newArena 8192 resource_bytes\<rparr>"

definition counters_example :: Counters where
  "counters_example = \<lparr>allocation_count = 2, deallocation_count = 1, allocated_bytes = 100, deallocated_bytes = 40, live_bytes = 60,
     peak_live_bytes = 60, steady_state_allocation_count = 0, steady_state_allocated_bytes = 0, steady_state = False\<rparr>"

theorem memory_demo_passes_witness:
  "\<exists>r numbers. memory_main demo_example [''growing''] counters_example = (Some 0, Some (r, numbers))
     \<and> sn_work_units r = 1000 \<and> numbers ! 2 \<noteq> 0"
proof -
  have "fresh_counters counters_example" by (simp add: fresh_counters_def counters_example_def)
  moreover have "dl_pool_alloc demo_example 9216 8 (dl_pool demo_example) \<noteq> None"
    by (simp add: demo_example_def arena_alloc_def newArena_def align_up_def resource_bytes_def)
  ultimately show ?thesis
    using memory_demo_passes [of demo_example counters_example "''growing''"] by (simp add: demo_example_def)
qed

end
