(* ===== verification/ParameterLab.thy ===== *)
theory ParameterLab
  imports ParameterSystem BoundedQueue
begin

text \<open>
  Chapter 16, \<open>src/main.cpp\<close>: three threads around the parameter store. A producer makes the scripted
  requests and pushes them into one bounded queue, the owner applies them to the store and pushes the events into another,
  and a consumer prints the events. A step of a thread is one operation on a queue, one call of the store or one
  line of output; a thread whose queue operation would wait has no step. What \<open>osyncstream\<close> writes is one entry
  of the list of lines.
\<close>

section \<open>The script and the lines\<close>

record ScriptedRequest =
  sr_id :: ParameterID
  sr_text :: string
  sr_source :: ParameterSource

definition scripted :: "ParameterID \<Rightarrow> string \<Rightarrow> ParameterSource \<Rightarrow> ScriptedRequest" where
  "scripted i t source = \<lparr>sr_id = i, sr_text = t, sr_source = source\<rparr>"

definition requests :: "ScriptedRequest list" where
  "requests =
     [scripted PidReportingInterval ''1500'' PersistentStorage,
      scripted PidReportingInterval ''2000'' ConfigurationFile,
      scripted PidReportingInterval ''3000'' CommandLine,
      scripted PidReportingInterval ''2500'' ConfigurationFile,
      scripted PidReportingInterval ''5000'' Runtime,
      scripted PidReportingInterval ''50'' Runtime,
      scripted PidTemperatureLimit ''30'' Runtime,
      scripted PidOperatingMode ''service'' Runtime]"

datatype lab_line =
  TooLarge
| Requested ParameterID string ParameterSource
| Resulted ParameterID string UpdateResult
| Notified ParameterChangeEvent "pvalue option"

text \<open>\<open>store.get\<close> of the parameter named by an event; \<open>None\<close> when it fails or the event names no parameter.\<close>

definition shown_value :: "floats \<Rightarrow> Endianness \<Rightarrow> pstore \<Rightarrow> ParameterID \<Rightarrow> pvalue option" where
  "shown_value fl machine s i = (case i of
       PidReportingInterval \<Rightarrow>
         (case store_get machine ReportingInterval s 0 of (ok, v) \<Rightarrow> if ok then Some (VInterval v) else None)
     | PidTemperatureLimit \<Rightarrow>
         (case store_get machine (TemperatureLimit fl) s 0 of (ok, v) \<Rightarrow> if ok then Some (VLimit v) else None)
     | PidOperatingMode \<Rightarrow>
         (case store_get machine (OperatingModeParameter fl) s 0 of (ok, v) \<Rightarrow> if ok then Some (VMode v) else None)
     | PidCount \<Rightarrow> None)"

text \<open>The text of a line; \<open>show_float\<close> is how the stream prints a \<open>float\<close>.\<close>

definition value_text :: "(u32 \<Rightarrow> string) \<Rightarrow> pvalue \<Rightarrow> string" where
  "value_text show_float v = (case v of
       VInterval n \<Rightarrow> '' current='' @ show_int (uint n) @ '' ms''
     | VLimit x \<Rightarrow> '' current='' @ show_float x @ '' C''
     | VMode k \<Rightarrow> '' current='' @ operatingModeName k)"

definition line_text :: "(u32 \<Rightarrow> string) \<Rightarrow> floats \<Rightarrow> Endianness \<Rightarrow> lab_line \<Rightarrow> string" where
  "line_text show_float fl machine l = (case l of
       TooLarge \<Rightarrow> ''Request too large for bounded message buffer''
     | Requested i t source \<Rightarrow>
         ''REQUEST parameter='' @ h_name (handlerFor fl machine i) @ '' value='' @ t @ '' source='' @ sourceName source
     | Resulted i t result \<Rightarrow>
         ''RESULT  parameter='' @ h_name (handlerFor fl machine i) @ '' value='' @ t @ '' -> '' @ resultName result
     | Notified event v \<Rightarrow>
         ''NOTIFY generation='' @ show_int (uint (ev_generation event)) @ '' parameter='' @ h_name (handlerFor fl machine (ev_id event))
           @ '' source='' @ sourceName (ev_source event) @ (case v of None \<Rightarrow> [] | Some x \<Rightarrow> value_text show_float x)) @ [CHR 0x0A]"

definition printStore :: "(u32 \<Rightarrow> string) \<Rightarrow> floats \<Rightarrow> Endianness \<Rightarrow> pstore \<Rightarrow> string" where
  "printStore show_float fl machine s =
     (let (ok1, interval) = store_get machine ReportingInterval s 0;
          (ok2, limit) = store_get machine (TemperatureLimit fl) s 0;
          (ok3, mode) = store_get machine (OperatingModeParameter fl) s 0;
          from_source = (\<lambda>i. ''  ['' @ sourceName (store_source s i) @ '']'' @ [CHR 0x0A])
      in if \<not> (ok1 \<and> ok2 \<and> ok3) then ''Could not decode parameter image'' @ [CHR 0x0A]
         else ''Current parameter state'' @ [CHR 0x0A]
           @ ''  reporting_interval = '' @ show_int (uint interval) @ '' ms'' @ from_source PidReportingInterval
           @ ''  temperature_limit  = '' @ show_float limit @ '' C'' @ from_source PidTemperatureLimit
           @ ''  operating_mode     = '' @ operatingModeName mode @ from_source PidOperatingMode
           @ ''  generation         = '' @ show_int (uint (st_generation s)) @ [CHR 0x0A])"

section \<open>The threads\<close>

datatype producer = ProdAt nat | ProdPush nat ParameterUpdateRequest | ProdStop | ProdEnd
datatype owner = OwnPop | OwnSet ParameterUpdateRequest
  | OwnPrint ParameterUpdateRequest UpdateResult "ParameterChangeEvent option" | OwnPush ParameterChangeEvent
  | OwnStop | OwnEnd
datatype consumer = ConPop | ConPrint ParameterChangeEvent | ConEnd

record plab =
  pl_updates :: "ParameterUpdateRequest bqueue"
  pl_notifications :: "ParameterChangeEvent bqueue"
  pl_store :: pstore
  pl_lines :: "lab_line list"
  pl_producer :: producer
  pl_owner :: owner
  pl_consumer :: consumer

definition say :: "lab_line \<Rightarrow> plab \<Rightarrow> plab" where "say l s = s\<lparr>pl_lines := pl_lines s @ [l]\<rparr>"

definition producer_step :: "ScriptedRequest list \<Rightarrow> plab \<Rightarrow> plab option" where
  "producer_step script s = (case pl_producer s of
       ProdAt n \<Rightarrow>
         if n < length script then
           (let item = script ! n
            in case makeUpdateRequest (sr_id item) (sr_text item) (sr_source item) of
                 None \<Rightarrow> Some (say TooLarge s\<lparr>pl_producer := ProdAt (n + 1)\<rparr>)
               | Some request \<Rightarrow>
                   Some (say (Requested (sr_id item) (sr_text item) (sr_source item)) s\<lparr>pl_producer := ProdPush n request\<rparr>))
         else Some (s\<lparr>pl_producer := ProdStop\<rparr>)
     | ProdPush n request \<Rightarrow>
         (case bq_push (pl_updates s) request of
            None \<Rightarrow> None
          | Some (q, ok) \<Rightarrow> Some (s\<lparr>pl_updates := q, pl_producer := (if ok then ProdAt (n + 1) else ProdStop)\<rparr>))
     | ProdStop \<Rightarrow> Some (s\<lparr>pl_updates := bq_stop (pl_updates s), pl_producer := ProdEnd\<rparr>)
     | ProdEnd \<Rightarrow> None)"

text \<open>The event is value-initialised before \<open>set\<close> may write it.\<close>

definition written_event :: "ParameterChangeEvent option \<Rightarrow> ParameterChangeEvent" where
  "written_event ev = (case ev of Some e \<Rightarrow> e
     | None \<Rightarrow> \<lparr>ev_id = PidReportingInterval, ev_source = CompiledDefault, ev_generation = 0\<rparr>)"

definition owner_step :: "floats \<Rightarrow> Endianness \<Rightarrow> plab \<Rightarrow> plab option" where
  "owner_step fl machine s = (case pl_owner s of
       OwnPop \<Rightarrow>
         (case bq_pop (pl_updates s) of
            None \<Rightarrow> None
          | Some (q, None) \<Rightarrow> Some (s\<lparr>pl_updates := q, pl_owner := OwnStop\<rparr>)
          | Some (q, Some request) \<Rightarrow> Some (s\<lparr>pl_updates := q, pl_owner := OwnSet request\<rparr>))
     | OwnSet request \<Rightarrow>
         (let (store, result, ev) = store_set_text fl machine (pl_store s) (rq_id request) (rq_text request) (rq_source request)
          in Some (s\<lparr>pl_store := store, pl_owner := OwnPrint request result ev\<rparr>))
     | OwnPrint request result ev \<Rightarrow>
         Some (say (Resulted (rq_id request) (rq_text request) result) s
           \<lparr>pl_owner := (if result = UpdOK then OwnPush (written_event ev) else OwnPop)\<rparr>)
     | OwnPush event \<Rightarrow>
         (case bq_push (pl_notifications s) event of
            None \<Rightarrow> None
          | Some (q, ok) \<Rightarrow> Some (s\<lparr>pl_notifications := q, pl_owner := (if ok then OwnPop else OwnStop)\<rparr>))
     | OwnStop \<Rightarrow> Some (s\<lparr>pl_notifications := bq_stop (pl_notifications s), pl_owner := OwnEnd\<rparr>)
     | OwnEnd \<Rightarrow> None)"

definition consumer_step :: "floats \<Rightarrow> Endianness \<Rightarrow> plab \<Rightarrow> plab option" where
  "consumer_step fl machine s = (case pl_consumer s of
       ConPop \<Rightarrow>
         (case bq_pop (pl_notifications s) of
            None \<Rightarrow> None
          | Some (q, None) \<Rightarrow> Some (s\<lparr>pl_notifications := q, pl_consumer := ConEnd\<rparr>)
          | Some (q, Some event) \<Rightarrow> Some (s\<lparr>pl_notifications := q, pl_consumer := ConPrint event\<rparr>))
     | ConPrint event \<Rightarrow>
         Some (say (Notified event (shown_value fl machine (pl_store s) (ev_id event))) s\<lparr>pl_consumer := ConPop\<rparr>)
     | ConEnd \<Rightarrow> None)"

datatype lab_thread = RequestProducer | ParameterOwner | NotificationConsumer

definition lab_step :: "floats \<Rightarrow> Endianness \<Rightarrow> ScriptedRequest list \<Rightarrow> lab_thread \<Rightarrow> plab \<Rightarrow> plab option" where
  "lab_step fl machine script t s = (case t of
       RequestProducer \<Rightarrow> producer_step script s
     | ParameterOwner \<Rightarrow> owner_step fl machine s
     | NotificationConsumer \<Rightarrow> consumer_step fl machine s)"

definition lab_start :: "floats \<Rightarrow> Endianness \<Rightarrow> plab" where
  "lab_start fl machine =
     \<lparr>pl_updates = newQueue 8, pl_notifications = newQueue 8, pl_store = ParameterStore fl machine, pl_lines = [],
      pl_producer = ProdAt 0, pl_owner = OwnPop, pl_consumer = ConPop\<rparr>"

text \<open>\<open>lab_run n s\<close>: after \<open>n\<close> steps in some order of the threads the state is \<open>s\<close>. The program joins the three
  threads when all have ended, and then prints the store once more.\<close>

inductive lab_run :: "floats \<Rightarrow> Endianness \<Rightarrow> ScriptedRequest list \<Rightarrow> nat \<Rightarrow> plab \<Rightarrow> bool" for fl machine script where
  lab_begin: "lab_run fl machine script 0 (lab_start fl machine)"
| lab_next: "lab_run fl machine script n s \<Longrightarrow> lab_step fl machine script t s = Some s' \<Longrightarrow> lab_run fl machine script (Suc n) s'"

definition lab_finished :: "plab \<Rightarrow> bool" where
  "lab_finished s \<longleftrightarrow> pl_producer s = ProdEnd \<and> pl_owner s = OwnEnd \<and> pl_consumer s = ConEnd"

definition lab_report :: "(u32 \<Rightarrow> string) \<Rightarrow> floats \<Rightarrow> Endianness \<Rightarrow> plab \<Rightarrow> string" where
  "lab_report show_float fl machine s =
     ''Chapter 16 parameter-management lab'' @ [CHR 0x0A]
     @ ''Fixed BDS image size: '' @ show_int (int ParameterImageSize) @ '' bytes'' @ [CHR 0x0A, CHR 0x0A]
     @ printStore show_float fl machine (ParameterStore fl machine) @ [CHR 0x0A]
     @ concat (map (line_text show_float fl machine) (pl_lines s))
     @ [CHR 0x0A] @ printStore show_float fl machine (pl_store s)"

section \<open>What the threads have still to do\<close>

lemma push_some:
  "bq_inv q \<Longrightarrow> bq_push q x = Some (q', ok) \<Longrightarrow>
     bq_inv q' \<and> mStopped q' = mStopped q \<and> ok = (\<not> mStopped q) \<and> bq_abs q' = bq_abs q @ (if ok then [x] else [])"
  by (auto simp: bq_push_eq push_wait_predicate_def inserted_inv inserted_abs split: if_splits)

lemma push_none: "bq_inv q \<Longrightarrow> bq_push q x = None \<Longrightarrow> \<not> mStopped q \<and> bq_abs q \<noteq> []"
  by (auto simp: bq_push_eq push_wait_predicate_def bq_inv_def simp flip: length_0_conv split: if_splits)

lemma pop_some:
  "bq_inv q \<Longrightarrow> bq_pop q = Some (q', v) \<Longrightarrow>
     bq_inv q' \<and> mStopped q' = mStopped q \<and> (case v of None \<Rightarrow> mStopped q \<and> bq_abs q = [] \<and> bq_abs q' = []
       | Some x \<Rightarrow> bq_abs q = x # bq_abs q')"
  using removed_inv [of q] removed_abs [of q]
  by (auto simp: bq_pop_eq pop_wait_predicate_def simp flip: length_0_conv split: if_splits)

lemma pop_none: "bq_inv q \<Longrightarrow> bq_pop q = None \<Longrightarrow> \<not> mStopped q \<and> bq_abs q = []"
  by (auto simp: bq_pop_eq pop_wait_predicate_def simp flip: length_0_conv split: if_splits)

definition sendable :: "ScriptedRequest list \<Rightarrow> ParameterUpdateRequest list" where
  "sendable script = List.map_filter (\<lambda>r. makeUpdateRequest (sr_id r) (sr_text r) (sr_source r)) script"

definition to_come :: "ScriptedRequest list \<Rightarrow> producer \<Rightarrow> ParameterUpdateRequest list" where
  "to_come script p = (case p of ProdAt n \<Rightarrow> sendable (drop n script) | ProdPush n r \<Rightarrow> r # sendable (drop (n + 1) script)
     | _ \<Rightarrow> [])"

definition pending :: "ScriptedRequest list \<Rightarrow> plab \<Rightarrow> ParameterUpdateRequest list" where
  "pending script s = (case pl_owner s of OwnSet r \<Rightarrow> [r] | _ \<Rightarrow> []) @ bq_abs (pl_updates s) @ to_come script (pl_producer s)"

definition result_line :: "lab_line \<Rightarrow> (ParameterID \<times> string \<times> UpdateResult) option" where
  "result_line l = (case l of Resulted i t r \<Rightarrow> Some (i, t, r) | _ \<Rightarrow> None)"

definition notified_event :: "lab_line \<Rightarrow> ParameterChangeEvent option" where
  "notified_event l = (case l of Notified e v \<Rightarrow> Some e | _ \<Rightarrow> None)"

definition outcome_entries where
  "outcome_entries rs results = map2 (\<lambda>r x. (rq_id r, rq_text r, x)) rs results"

text \<open>The results and the events on their way, in the order in which they will be printed.\<close>

definition owner_result where
  "owner_result p = (case p of OwnPrint r x ev \<Rightarrow> [(rq_id r, rq_text r, x)] | _ \<Rightarrow> [])"

definition owner_event where
  "owner_event p = (case p of OwnPrint r x ev \<Rightarrow> if x = UpdOK then [written_event ev] else [] | OwnPush e \<Rightarrow> [e] | _ \<Rightarrow> [])"

definition consumer_event where "consumer_event p = (case p of ConPrint e \<Rightarrow> [e] | _ \<Rightarrow> [])"

text \<open>What the owner would leave in the end, seen from a state.\<close>

definition lab_future ::
  "floats \<Rightarrow> Endianness \<Rightarrow> ScriptedRequest list \<Rightarrow> plab
    \<Rightarrow> pstore \<times> (ParameterID \<times> string \<times> UpdateResult) list \<times> ParameterChangeEvent list" where
  "lab_future fl machine script s =
     (case owner_loop fl machine (pl_store s) (pending script s) of (store, results, events) \<Rightarrow>
        (store,
         List.map_filter result_line (pl_lines s) @ owner_result (pl_owner s) @ outcome_entries (pending script s) results,
         List.map_filter notified_event (pl_lines s) @ consumer_event (pl_consumer s) @ bq_abs (pl_notifications s)
           @ owner_event (pl_owner s) @ events))"

definition lab_inv :: "ScriptedRequest list \<Rightarrow> plab \<Rightarrow> bool" where
  "lab_inv script s \<longleftrightarrow>
     bq_inv (pl_updates s) \<and> bq_inv (pl_notifications s)
   \<and> (mStopped (pl_updates s) \<longleftrightarrow> pl_producer s = ProdEnd)
   \<and> (mStopped (pl_notifications s) \<longleftrightarrow> pl_owner s = OwnEnd)
   \<and> (pl_owner s = OwnStop \<or> pl_owner s = OwnEnd \<longrightarrow> pl_producer s = ProdEnd \<and> bq_abs (pl_updates s) = [])
   \<and> (pl_consumer s = ConEnd \<longrightarrow> pl_owner s = OwnEnd \<and> bq_abs (pl_notifications s) = [])
   \<and> (\<forall>n r. pl_producer s = ProdPush n r \<longrightarrow> n < length script)
   \<and> (\<forall>r \<in> set (pending script s). rq_id r \<noteq> PidCount)"

text \<open>A bound on the steps that are left.\<close>

definition producer_left :: "nat \<Rightarrow> producer \<Rightarrow> nat" where
  "producer_left n p = (case p of ProdAt k \<Rightarrow> 8 * (n - k) + 2 | ProdPush k r \<Rightarrow> 8 * (n - Suc k) + 9 | ProdStop \<Rightarrow> 1 | ProdEnd \<Rightarrow> 0)"

definition owner_left :: "owner \<Rightarrow> nat" where
  "owner_left p = (case p of OwnPop \<Rightarrow> 2 | OwnSet r \<Rightarrow> 7 | OwnPrint r x ev \<Rightarrow> 6 | OwnPush e \<Rightarrow> 5 | OwnStop \<Rightarrow> 1 | OwnEnd \<Rightarrow> 0)"

definition consumer_left :: "consumer \<Rightarrow> nat" where
  "consumer_left p = (case p of ConPop \<Rightarrow> 1 | ConPrint e \<Rightarrow> 2 | ConEnd \<Rightarrow> 0)"

definition steps_left :: "ScriptedRequest list \<Rightarrow> plab \<Rightarrow> nat" where
  "steps_left script s = producer_left (length script) (pl_producer s) + 6 * length (bq_abs (pl_updates s))
     + owner_left (pl_owner s) + 2 * length (bq_abs (pl_notifications s)) + consumer_left (pl_consumer s)"

lemmas lab_parts = to_come_def pending_def owner_result_def owner_event_def consumer_event_def outcome_entries_def
lemmas lab_bounds = steps_left_def producer_left_def owner_left_def consumer_left_def

lemma sendable_drop:
  "n < length script \<Longrightarrow> sendable (drop n script) =
     (case makeUpdateRequest (sr_id (script ! n)) (sr_text (script ! n)) (sr_source (script ! n)) of
        None \<Rightarrow> sendable (drop (n + 1) script) | Some r \<Rightarrow> r # sendable (drop (n + 1) script))"
  by (simp add: sendable_def Cons_nth_drop_Suc [symmetric] split: option.split)

lemma map_filter_snoc: "List.map_filter f (xs @ [x]) = List.map_filter f xs @ (case f x of None \<Rightarrow> [] | Some y \<Rightarrow> [y])"
  by (simp add: List.map_filter_def split: option.split)

lemma line_kinds [simp]:
  "result_line TooLarge = None" "result_line (Requested i t c) = None" "result_line (Resulted i t r) = Some (i, t, r)"
  "result_line (Notified e v) = None" "notified_event TooLarge = None" "notified_event (Requested i t c) = None"
  "notified_event (Resulted i t r) = None" "notified_event (Notified e v) = Some e"
  by (simp_all add: result_line_def notified_event_def)

lemma say_fields [simp]:
  "pl_updates (say l s) = pl_updates s" "pl_notifications (say l s) = pl_notifications s" "pl_store (say l s) = pl_store s"
  "pl_lines (say l s) = pl_lines s @ [l]" "pl_producer (say l s) = pl_producer s" "pl_owner (say l s) = pl_owner s"
  "pl_consumer (say l s) = pl_consumer s"
  by (simp_all add: say_def)

lemma owner_loop_length: "length (fst (snd (owner_loop fl machine s rs))) = length rs"
  by (induction rs arbitrary: s) (auto simp: split_def Let_def)

lemma event_when_ok:
  "i \<noteq> PidCount \<Longrightarrow> store_set_text fl machine s i t c = (s', r, ev) \<Longrightarrow> (r = UpdOK) = (ev \<noteq> None)"
  by (cases i)
    (auto simp: store_set_text_def setFromText_def store_set_def Let_def split: option.splits if_splits)

lemma sendable_in: "\<forall>r \<in> set script. sr_id r \<noteq> PidCount \<Longrightarrow> \<forall>r \<in> set (sendable script). rq_id r \<noteq> PidCount"
  by (auto simp: sendable_def List.map_filter_def makeUpdateRequest_def split: if_splits)

lemma producer_keeps:
  assumes "lab_inv script s" "producer_step script s = Some s'"
  shows "lab_inv script s' \<and> lab_future fl machine script s' = lab_future fl machine script s
    \<and> steps_left script s' < steps_left script s"
proof (cases "pl_producer s")
  case (ProdAt n)
  then show ?thesis
    using assms sendable_drop [of n script]
    by (auto simp: producer_step_def lab_inv_def lab_future_def lab_parts lab_bounds map_filter_snoc Let_def sendable_def
        split: if_splits option.splits)
next
  case (ProdPush n r)
  then obtain q ok where q: "bq_push (pl_updates s) r = Some (q, ok)"
    "s' = s\<lparr>pl_updates := q, pl_producer := (if ok then ProdAt (n + 1) else ProdStop)\<rparr>"
    using assms(2) by (auto simp: producer_step_def split: option.splits)
  show ?thesis
    using push_some [OF _ q(1)] assms(1) ProdPush q(2)
    by (auto simp: lab_inv_def lab_future_def lab_parts lab_bounds)
next
  case ProdStop
  then show ?thesis using assms by (auto simp: producer_step_def lab_inv_def lab_future_def lab_parts lab_bounds)
next
  case ProdEnd
  then show ?thesis using assms by (simp add: producer_step_def)
qed

lemma consumer_keeps:
  assumes "lab_inv script s" "consumer_step fl machine s = Some s'"
  shows "lab_inv script s' \<and> lab_future fl machine script s' = lab_future fl machine script s
    \<and> steps_left script s' < steps_left script s"
proof (cases "pl_consumer s")
  case ConPop
  then obtain q v where q: "bq_pop (pl_notifications s) = Some (q, v)"
    "s' = s\<lparr>pl_notifications := q, pl_consumer := (case v of None \<Rightarrow> ConEnd | Some e \<Rightarrow> ConPrint e)\<rparr>"
    using assms(2) by (auto simp: consumer_step_def split: option.splits)
  show ?thesis
    using pop_some [OF _ q(1)] assms(1) ConPop q(2)
    by (cases v) (auto simp: lab_inv_def lab_future_def lab_parts lab_bounds)
next
  case (ConPrint e)
  then show ?thesis
    using assms by (auto simp: consumer_step_def lab_inv_def lab_future_def lab_parts lab_bounds map_filter_snoc)
next
  case ConEnd
  then show ?thesis using assms by (simp add: consumer_step_def)
qed

lemma owner_keeps:
  assumes "lab_inv script s" "owner_step fl machine s = Some s'"
  shows "lab_inv script s' \<and> lab_future fl machine script s' = lab_future fl machine script s
    \<and> steps_left script s' < steps_left script s"
proof (cases "pl_owner s")
  case OwnPop
  then obtain q v where q: "bq_pop (pl_updates s) = Some (q, v)"
    "s' = s\<lparr>pl_updates := q, pl_owner := (case v of None \<Rightarrow> OwnStop | Some r \<Rightarrow> OwnSet r)\<rparr>"
    using assms(2) by (auto simp: owner_step_def split: option.splits)
  show ?thesis
    using pop_some [OF _ q(1)] assms(1) OwnPop q(2)
    by (cases v) (auto simp: lab_inv_def lab_future_def lab_parts lab_bounds)
next
  case (OwnSet r)
  obtain st x ev where set: "store_set_text fl machine (pl_store s) (rq_id r) (rq_text r) (rq_source r) = (st, x, ev)"
    by (metis prod.exhaust)
  have s': "s' = s\<lparr>pl_store := st, pl_owner := OwnPrint r x ev\<rparr>" using assms(2) OwnSet set by (simp add: owner_step_def)
  have "rq_id r \<noteq> PidCount" using assms(1) OwnSet by (simp add: lab_inv_def pending_def)
  note ok = event_when_ok [OF this set]
  obtain st2 results events where loop: "owner_loop fl machine st (bq_abs (pl_updates s) @ to_come script (pl_producer s)) = (st2, results, events)"
    by (metis prod.exhaust)
  have "lab_future fl machine script s' = lab_future fl machine script s"
    using OwnSet set loop ok by (auto simp: s' lab_future_def lab_parts written_event_def split: option.splits)
  moreover have "lab_inv script s'" using assms(1) OwnSet by (auto simp: s' lab_inv_def pending_def)
  ultimately show ?thesis using OwnSet by (simp add: s' lab_bounds)
next
  case (OwnPrint r x ev)
  then show ?thesis
    using assms by (auto simp: owner_step_def lab_inv_def lab_future_def lab_parts lab_bounds map_filter_snoc split: prod.splits)
next
  case (OwnPush e)
  then obtain q ok where q: "bq_push (pl_notifications s) e = Some (q, ok)"
    "s' = s\<lparr>pl_notifications := q, pl_owner := (if ok then OwnPop else OwnStop)\<rparr>"
    using assms(2) by (auto simp: owner_step_def split: option.splits)
  show ?thesis
    using push_some [OF _ q(1)] assms(1) OwnPush q(2)
    by (auto simp: lab_inv_def lab_future_def lab_parts lab_bounds split: prod.splits)
next
  case OwnStop
  then show ?thesis using assms
    by (auto simp: owner_step_def lab_inv_def lab_future_def lab_parts lab_bounds simp del: length_bq_abs)
next
  case OwnEnd
  then show ?thesis using assms by (simp add: owner_step_def)
qed

lemma lab_step_keeps:
  "lab_inv script s \<Longrightarrow> lab_step fl machine script t s = Some s' \<Longrightarrow>
     lab_inv script s' \<and> lab_future fl machine script s' = lab_future fl machine script s
     \<and> steps_left script s' < steps_left script s"
  using producer_keeps [of script s s' fl machine] owner_keeps [of script s fl machine s']
    consumer_keeps [of script s fl machine s']
  by (cases t) (simp_all add: lab_step_def)

text \<open>A thread that has no step has ended or waits for another.\<close>

lemma producer_blocked:
  "lab_inv script s \<Longrightarrow> producer_step script s = None \<Longrightarrow> pl_producer s = ProdEnd \<or> bq_abs (pl_updates s) \<noteq> []"
  using push_none [of "pl_updates s"]
  by (auto simp: producer_step_def lab_inv_def Let_def split: producer.splits option.splits if_splits)

lemma owner_blocked:
  "lab_inv script s \<Longrightarrow> owner_step fl machine s = None \<Longrightarrow>
     pl_owner s = OwnEnd \<or> \<not> mStopped (pl_updates s) \<and> bq_abs (pl_updates s) = [] \<or> bq_abs (pl_notifications s) \<noteq> []"
  using push_none [of "pl_notifications s"] pop_none [of "pl_updates s"]
  by (auto simp: owner_step_def lab_inv_def split: owner.splits option.splits prod.splits)

lemma consumer_blocked:
  "lab_inv script s \<Longrightarrow> consumer_step fl machine s = None \<Longrightarrow>
     pl_consumer s = ConEnd \<or> \<not> mStopped (pl_notifications s) \<and> bq_abs (pl_notifications s) = []"
  using pop_none [of "pl_notifications s"]
  by (auto simp: consumer_step_def lab_inv_def split: consumer.splits option.splits)

lemma lab_progress:
  assumes "lab_inv script s" "\<not> lab_finished s"
  shows "\<exists>t s'. lab_step fl machine script t s = Some s'"
proof (rule ccontr)
  assume none: "\<nexists>t s'. lab_step fl machine script t s = Some s'"
  have "lab_step fl machine script t s = None" for t using none by (cases "lab_step fl machine script t s") auto
  from this [of RequestProducer] this [of ParameterOwner] this [of NotificationConsumer]
  show False
    using producer_blocked [OF assms(1)] owner_blocked [OF assms(1)] consumer_blocked [OF assms(1)] assms
    by (auto simp: lab_step_def lab_finished_def lab_inv_def)
qed

lemma lab_start_facts:
  assumes "\<forall>r \<in> set script. sr_id r \<noteq> PidCount"
  shows "lab_inv script (lab_start fl machine)" "steps_left script (lab_start fl machine) = 8 * length script + 5"
    "lab_future fl machine script (lab_start fl machine) =
       (case owner_loop fl machine (ParameterStore fl machine) (sendable script) of (store, results, events) \<Rightarrow>
          (store, outcome_entries (sendable script) results, events))"
  using sendable_in [OF assms]
  by (auto simp: lab_start_def lab_inv_def lab_future_def lab_parts lab_bounds new_inv new_abs List.map_filter_def
      simp del: length_bq_abs split: prod.splits) (simp_all add: newQueue_def)

lemma lab_run_facts:
  assumes "lab_run fl machine script n s" "\<forall>r \<in> set script. sr_id r \<noteq> PidCount"
  shows "lab_inv script s \<and> n + steps_left script s \<le> 8 * length script + 5
    \<and> lab_future fl machine script s = lab_future fl machine script (lab_start fl machine)"
  using assms
proof (induction rule: lab_run.induct)
  case lab_begin
  then show ?case by (simp add: lab_start_facts)
next
  case (lab_next n s t s')
  then show ?case using lab_step_keeps [of script s fl machine t s'] by auto
qed

section \<open>The outcome of the program\<close>

text \<open>C19: whatever the order in which the three threads of the lab run, the program ends, and its outcome is the same. A run
  has at most eight steps for each scripted request and five more, and no state before the end is stuck.
  At the end the store is the one the owner's loop makes of the requests that fit into a message, the
  results printed are those of the requests in order, and the notifications printed are the events of the successful
  ones, none lost and none repeated.\<close>

theorem lab_outcome:
  assumes "lab_run fl machine script n s" "\<forall>r \<in> set script. sr_id r \<noteq> PidCount"
  shows "n \<le> 8 * length script + 5
    \<and> (if lab_finished s
       then case owner_loop fl machine (ParameterStore fl machine) (sendable script) of (store, results, events) \<Rightarrow>
              pl_store s = store
            \<and> List.map_filter result_line (pl_lines s) = outcome_entries (sendable script) results
            \<and> List.map_filter notified_event (pl_lines s) = events
       else \<exists>t s'. lab_step fl machine script t s = Some s')"
proof -
  note facts = lab_run_facts [OF assms]
  have "pending script s = []" "bq_abs (pl_notifications s) = []" if "lab_finished s"
    using facts that by (auto simp: lab_finished_def lab_inv_def pending_def to_come_def)
  then have "lab_future fl machine script s =
      (pl_store s, List.map_filter result_line (pl_lines s), List.map_filter notified_event (pl_lines s))" if "lab_finished s"
    using that by (simp add: lab_future_def lab_finished_def outcome_entries_def owner_result_def owner_event_def consumer_event_def)
  moreover have "n \<le> 8 * length script + 5" using facts by linarith
  ultimately show ?thesis
    using facts lab_progress [of script s fl machine] lab_start_facts(3) [OF assms(2), of fl machine] by (auto split: prod.splits)
qed

text \<open>Runs from a schedule.\<close>

primrec lab_play :: "floats \<Rightarrow> Endianness \<Rightarrow> ScriptedRequest list \<Rightarrow> lab_thread list \<Rightarrow> plab \<Rightarrow> plab option" where
  "lab_play fl machine script [] s = Some s"
| "lab_play fl machine script (t # ts) s =
     (case lab_step fl machine script t s of None \<Rightarrow> None | Some s1 \<Rightarrow> lab_play fl machine script ts s1)"

lemma lab_play_run:
  "lab_play fl machine script ts s = Some s' \<Longrightarrow> lab_run fl machine script n s \<Longrightarrow> lab_run fl machine script (n + length ts) s'"
proof (induction ts arbitrary: s n)
  case (Cons t ts)
  then obtain s1 where "lab_step fl machine script t s = Some s1" "lab_play fl machine script ts s1 = Some s'"
    by (auto split: option.splits)
  then show ?case using Cons.IH [of s1 "Suc n"] lab_next [OF Cons.prems(2), of t s1] by simp
qed simp

definition sample_script :: "ScriptedRequest list" where
  "sample_script = [scripted PidOperatingMode ''safe'' Runtime]"

lemma sample_sendable:
  "makeUpdateRequest PidOperatingMode ''safe'' Runtime = Some r \<Longrightarrow> rq_id r = PidOperatingMode \<and> rq_text r = ''safe'' \<and> rq_source r = Runtime"
  by (auto simp: makeUpdateRequest_def ParameterTextCapacity_def rq_text_def blit_def)

lemma sample_update:
  "store_set_text sample_floats Big (ParameterStore sample_floats Big) PidOperatingMode ''safe'' Runtime =
     (store_of 1000 f32_45 ModeSafe [CompiledDefault, CompiledDefault, Runtime] 1, UpdOK,
      Some \<lparr>ev_id = PidOperatingMode, ev_source = Runtime, ev_generation = 1\<rparr>)"
  unfolding default_store update_mode
  by (simp add: update_verdict_def parameter_defs store_source_def toIndex_def numeral_eq_Suc precedence_def)

lemma one_through_queue:
  "bq_push (newQueue 8) x = Some (inserted (newQueue 8) x, True)"
  "bq_pop (bq_stop (inserted (newQueue 8) x)) = Some (removed (bq_stop (inserted (newQueue 8) x)), Some x)"
  "bq_pop (removed (bq_stop (inserted (newQueue 8) x))) = Some (removed (bq_stop (inserted (newQueue 8) x)), None)"
  by (simp_all add: bq_push_eq bq_pop_eq push_wait_predicate_def pop_wait_predicate_def)
    (simp_all add: newQueue_def bq_capacity_def inserted_def bq_stop_def)

definition sample_schedule :: "lab_thread list" where
  "sample_schedule =
     [RequestProducer, RequestProducer, RequestProducer, RequestProducer, ParameterOwner, ParameterOwner, ParameterOwner,
      ParameterOwner, ParameterOwner, ParameterOwner, NotificationConsumer, NotificationConsumer, NotificationConsumer]"

lemma sample_lab_run:
  "\<exists>s. lab_run sample_floats Big sample_script 13 s \<and> lab_finished s \<and> sendable sample_script \<noteq> []"
proof -
  obtain r where r: "makeUpdateRequest PidOperatingMode ''safe'' Runtime = Some r"
    by (simp add: makeUpdateRequest_def ParameterTextCapacity_def)
  have "\<exists>s. lab_play sample_floats Big sample_script sample_schedule (lab_start sample_floats Big) = Some s \<and> lab_finished s"
    using r sample_sendable [OF r]
    by (simp add: sample_schedule_def say_def lab_step_def producer_step_def owner_step_def consumer_step_def
        lab_start_def sample_script_def scripted_def one_through_queue sample_update written_event_def lab_finished_def Let_def)
  then obtain s where s: "lab_play sample_floats Big sample_script sample_schedule (lab_start sample_floats Big) = Some s"
    "lab_finished s" by blast
  have "length sample_schedule = 13" by (simp add: sample_schedule_def)
  then have "lab_run sample_floats Big sample_script 13 s" using lab_play_run [OF s(1) lab_begin] by simp
  then show ?thesis using s(2) r by (auto simp: sample_script_def scripted_def sendable_def)
qed

theorem lab_outcome_witness:
  "\<exists>s. lab_run sample_floats Big sample_script 13 s \<and> lab_finished s
     \<and> st_generation (pl_store s) = 1 \<and> List.map_filter result_line (pl_lines s) = [(PidOperatingMode, ''safe'', UpdOK)]
     \<and> List.map_filter notified_event (pl_lines s) = [\<lparr>ev_id = PidOperatingMode, ev_source = Runtime, ev_generation = 1\<rparr>]"
proof -
  obtain s where s: "lab_run sample_floats Big sample_script 13 s" "lab_finished s" using sample_lab_run by blast
  obtain r where r: "makeUpdateRequest PidOperatingMode ''safe'' Runtime = Some r"
    by (simp add: makeUpdateRequest_def ParameterTextCapacity_def)
  have one: "sendable sample_script = [r]" using r by (simp add: sample_script_def scripted_def sendable_def)
  have "\<forall>r \<in> set sample_script. sr_id r \<noteq> PidCount" by (simp add: sample_script_def scripted_def)
  from lab_outcome [OF s(1) this] show ?thesis
    using s sample_sendable [OF r] sample_update by (auto simp: one outcome_entries_def)
qed

text \<open>The consumer reads the store while the owner writes it: nothing in the program keeps the two apart, so that the value printed with
  an event may be a later one.\<close>

lemma two_in_queue:
  "bq_push (inserted (newQueue 8) x) y = Some (inserted (inserted (newQueue 8) x) y, True)"
  "bq_pop (inserted (inserted (newQueue 8) x) y) = Some (removed (inserted (inserted (newQueue 8) x) y), Some x)"
  "bq_pop (removed (inserted (inserted (newQueue 8) x) y)) =
     Some (removed (removed (inserted (inserted (newQueue 8) x) y)), Some y)"
  "bq_pop (inserted (newQueue 8) x) = Some (removed (inserted (newQueue 8) x), Some x)"
  by (simp_all add: bq_push_eq bq_pop_eq push_wait_predicate_def pop_wait_predicate_def)
    (simp_all add: newQueue_def bq_capacity_def inserted_def removed_def nextIndex_def)

definition race_script :: "ScriptedRequest list" where
  "race_script = [scripted PidOperatingMode ''safe'' Runtime, scripted PidOperatingMode ''normal'' Runtime]"

lemma print_may_race:
  "\<exists>s n r e. lab_run sample_floats Big race_script n s \<and> pl_owner s = OwnSet r \<and> pl_consumer s = ConPrint e"
proof -
  obtain r where r: "makeUpdateRequest PidOperatingMode ''safe'' Runtime = Some r"
    by (simp add: makeUpdateRequest_def ParameterTextCapacity_def)
  obtain r' where r': "makeUpdateRequest PidOperatingMode ''normal'' Runtime = Some r'"
    by (simp add: makeUpdateRequest_def ParameterTextCapacity_def)
  let ?ts = "[RequestProducer, RequestProducer, RequestProducer, RequestProducer, ParameterOwner, ParameterOwner, ParameterOwner,
      ParameterOwner, ParameterOwner, NotificationConsumer]"
  have "\<exists>s r e. lab_play sample_floats Big race_script ?ts (lab_start sample_floats Big) = Some s
      \<and> pl_owner s = OwnSet r \<and> pl_consumer s = ConPrint e"
    using r r' sample_sendable [OF r]
    by (simp add: say_def lab_step_def producer_step_def owner_step_def consumer_step_def lab_start_def race_script_def scripted_def
        one_through_queue two_in_queue sample_update written_event_def Let_def)
  then show ?thesis using lab_play_run lab_begin by meson
qed

section \<open>The script of the program\<close>

lemma makeUpdateRequest_text:
  "makeUpdateRequest i t c = (if length t \<le> 64 then Some \<lparr>rq_id = i, rq_source = c,
     rq_value = t @ replicate (64 - length t) (CHR 0x00), rq_valueLength = length t\<rparr> else None)"
  by (simp add: makeUpdateRequest_def ParameterTextCapacity_def blit_def)

text \<open>What the outcome is for the requests of \<open>main\<close>: the configuration file may not lower the precedence of the command line,
  50 is below the range, and the temperature limit may not be changed at run time.\<close>

lemma program_results:
  assumes "fl_from_chars fl ''30'' = (NoErrc, 2, Some v)"
  shows "owner_loop fl machine (ParameterStore fl machine) (sendable requests) =
    (store_of 5000 f32_45 ModeService [Runtime, CompiledDefault, Runtime] 5,
     [UpdOK, UpdOK, UpdOK, LOWER_PRECEDENCE, UpdOK, INVALID_VALUE, NOT_RUNTIME_WRITABLE, UpdOK],
     map (\<lambda>(i, c, g). \<lparr>ev_id = i, ev_source = c, ev_generation = g\<rparr>)
       [(PidReportingInterval, PersistentStorage, 1), (PidReportingInterval, ConfigurationFile, 2),
        (PidReportingInterval, CommandLine, 3), (PidReportingInterval, Runtime, 4), (PidOperatingMode, Runtime, 5)])"
proof -
  have digits: "is_digit CHR ''0''" "is_digit CHR ''1''" "is_digit CHR ''2''" "is_digit CHR ''3''" "is_digit CHR ''5''"
    "digit_val CHR ''0'' = 0" "digit_val CHR ''1'' = 1" "digit_val CHR ''2'' = 2" "digit_val CHR ''3'' = 3" "digit_val CHR ''5'' = 5"
    by (simp_all add: is_digit_def in_chars_def digit_val_def code_def)
  have parse: "parse_u32 ''1500'' = Some 1500" "parse_u32 ''2000'' = Some 2000" "parse_u32 ''3000'' = Some 3000"
    "parse_u32 ''2500'' = Some 2500" "parse_u32 ''5000'' = Some 5000" "parse_u32 ''50'' = Some 50"
    by (simp_all add: parse_u32_def from_chars_def nat_of_digits_def digits Let_def)
  have valid: "p_validate ReportingInterval 1500" "p_validate ReportingInterval 2000" "p_validate ReportingInterval 3000"
    "p_validate ReportingInterval 5000" "\<not> p_validate ReportingInterval 50" "p_validate ReportingInterval 2500"
    "p_validate (OperatingModeParameter fl) ModeService"
    by (simp_all add: parameter_defs)
  have parses: "p_parse ReportingInterval = parse_u32" "p_parse (TemperatureLimit fl) ''30'' = Some v"
    "p_parse (OperatingModeParameter fl) ''service'' = Some ModeService"
    using assms by (simp_all add: parameter_defs)
  have slots: "replicate 3 x = [x, x, x]" "[x, y, z][2 := u] = [x, y, u]" "[x, y, z] ! 2 = z" for x y z u :: ParameterSource
    by (simp_all add: numeral_3_eq_3 numeral_2_eq_2)
  show ?thesis
    by (simp add: requests_def scripted_def sendable_def makeUpdateRequest_text rq_text_def default_store slots valid parses
        update_interval update_limit update_mode update_verdict_def parse store_source_def toIndex_def precedence_def Let_def)
qed

end
