(* ===== verification/Spec2Isabelle.thy ===== *)
theory Spec2Isabelle
  imports NmeaStreams QueueThreads DeviceMain BoundedText RetrySystem StartupLab RemoteMonitor Fusion FilterPipeline PredictableLab Ramps Smoker HeapMonitor Integration WeatherCipher ReadinessMonitor NmeaSim MeasurementGenerator MemoryDemo ParameterLab
begin

text \<open>
  A verification library for the C++ code of ``20 Embedded Patterns Every Engineer Should Know''.

  \<^bold>\<open>The program.\<close> \<open>Common/\<close> holds what the chapters share: a binary data stream with its message
  headers and frames, the NMEA text format, a bounded queue between threads, and the readable sources
  of an event loop. The chapters build small systems from these parts: Chapter 3 a monitor that prints the
  lines of several inputs, Chapter 12 a client and a server over UDP, Chapter 13 a start-up coordinator of several threads over the queue, Chapter 16 a store of
  parameters, Chapter 17 its persistent image in a file. Chapter 5 separates what an imaging system does
  from how, Chapter 7 validates and filters measurements, Chapter 8 shows which containers need the heap,
  Chapter 9 controls a smoker, Chapter 10 ramps an oven, Chapters 11 and 14 encode measurements with quality and time
  and fuse two sources, Chapter 15 monitors a device remotely, Chapter 18 encrypts the messages of a weather device,
  Chapter 19 classifies its measurements, and Chapter 20 puts configuration, filtering, alarms, protocol and
  persistence together in one device. Of the tools, \<open>heap_monitor\<close> counts what the global allocation functions do,
  \<open>nmea_sim\<close> sends made-up sentences with faults, and \<open>measurement_generator\<close> writes the input of Chapter 7.

  \<^bold>\<open>Where each part is modelled.\<close>
  \<^item> \<open>Prelude\<close>: machine integers, buffers, little-endian images and the collections of rewrite rules.
    \<open>Checksum\<close>: the locales \<open>checksum\<close> and \<open>burst_checksum\<close>, what a check value promises its clients.
    \<open>Text\<close>: string views, \<open>std::from_chars\<close>, trimming. \<open>CommandLine\<close>: \<open>strtoul\<close>, \<open>strtol\<close> and option values.
  \<^item> \<open>Bytes\<close>: \<open>BdsCommon\<close>, byte order and CRC-16. The CRC equals the remainder of the message modulo
    the CCITT polynomial, and two messages that differ only within sixteen adjacent bits differ in it.
  \<^item> \<open>WriteStream\<close>, \<open>ReadStream\<close>: \<open>BinaryWriteStream\<close> and \<open>BinaryReadStream\<close>, records of the buffer, the
    position and the latched error. \<open>WireCodec\<close>: the locales \<open>wire_codec\<close> and \<open>fixed_codec\<close>, interpreted
    on every scalar of the streams, on headers, strings and parameters; round trips of lists of fields,
    independence of the machine, bounds.
  \<^item> \<open>MessageHeader\<close>, \<open>MessageFrame\<close>: the headers of that name. A frame is accepted exactly when it is
    well formed, each kind of damage has its status, and a frame that is written can be read.
  \<^item> \<open>NmeaTokenizer\<close>, \<open>NmeaStreams\<close>: framing and checksum of sentences, the field iterator, insertion and
    extraction; the locale \<open>nmea_field\<close> is interpreted on every type of field.
  \<^item> \<open>BoundedQueue\<close>: the ring buffer, refined to a list by the locale \<open>bounded_fifo\<close>. \<open>QueueThreads\<close>: its
    mutex and condition variables as steps of any number of threads; order, and no lost wake-up.
  \<^item> \<open>Receivers\<close>: \<open>UartLineReceiver\<close>, \<open>UdpDatagramReceiver\<close>, \<open>TimerFdSource\<close>, \<open>SignalFdSource\<close> and
    \<open>EpollReactor\<close>; \<open>IReadableSource\<close> is the locale \<open>readable_source\<close>. System calls are the results
    handed to an operation, or a function of the open descriptors, so that a leak can be seen.
  \<^item> \<open>ParameterSystem\<close>: Chapter 16, the parameter classes (locale \<open>parameter_def\<close>), update requests, the
    registry, and the store with its nine-byte image. \<open>ParameterLab\<close>: the producer, the owner and the consumer of \<open>main\<close>
    as steps in any order over two queues; every run ends (\<open>steps_left\<close>), and always with the same outcome.
  \<^item> \<open>StorageImage\<close>, \<open>ImageFormat\<close>, \<open>PersistentParameters\<close>, \<open>ImageIntegrity\<close>, \<open>ImageFile\<close>, \<open>BoundedText\<close>,
    \<open>DeviceMain\<close>: Chapter 17. The code over the image is in \<open>StorageImage\<close>, the format it accepts in
    \<open>ImageFormat\<close>; restoring is a transaction and undoes saving (\<open>PersistentParameters\<close>), damage is
    noticed (\<open>ImageIntegrity\<close>), a file is replaced whole or not at all (\<open>ImageFile\<close>), and the two
    programs are in \<open>DeviceMain\<close>.
  \<^item> \<open>RetryServer\<close>, \<open>RetryClient\<close>, \<open>RetrySystem\<close>: Chapter 12. The request handler of the server with the
    locale \<open>idempotent_service\<close>, the transaction state machine of the client, and both of them over a
    network that loses, repeats and reorders datagrams.
  \<^item> \<open>StartupLab\<close>: Chapter 13. The coordinator, its workers and its timer as steps in any order.
  \<^item> \<open>MonitorProtocol\<close>, \<open>MonitorDevice\<close>, \<open>RemoteMonitor\<close>: Chapter 15. The messages and their fixed
    payloads (interpretations of \<open>fixed_codec\<close>), the device that serves polls, subscriptions and commands
    turn by turn, and the monitor with its requests, timeouts and duplicates. The device keeps its
    table of subscriptions well typed whatever datagrams arrive.
  \<^item> \<open>Measurements\<close>, \<open>Fusion\<close>: the observation codec of Chapter 11, and the clocks, messages and reports
    of \<open>synchronized_fusion.cpp\<close>. A value sent is the value delivered, with its quality and time.
  \<^item> \<open>AnomalyDetection\<close>: the detector of Chapter 19 as a function of the history of measurements, with the
    qualities of a measurement as an instance of \<open>linorder\<close>.
  \<^item> \<open>Filtering\<close>, \<open>FilterPipeline\<close>: the validator, the exponential filter and the moving average of
    Chapter 7, and the program that runs a file of measurements through them, row by row.
  \<^item> \<open>LabParameters\<close>, \<open>PredictableDevice\<close>, \<open>PredictableLab\<close>: Chapter 20. The parameter set with its image
    (\<open>checksum\<close> is interpreted on its check value), the device with its state machine, protocol and alarms, and the
    whole lab: a value set remotely is applied, saved, and there again after a restart.
  \<^item> \<open>Imaging\<close>, \<open>Integration\<close>: Chapter 5. Image blocks over a store of buffers, so that a deep copy and a
    view can be told apart, and integration times: continuous and discrete ranges of the locale
    \<open>time_control\<close>, to which \<open>listed_times\<close> adds a list of permitted values.
  \<^item> \<open>Smoker\<close>: Chapter 9, the PID controller, the plant and the closed loop of the two; what they compute
    over exact numbers, with the integral clamped and the temperature within the physical range.
  \<^item> \<open>Ramps\<close>: Chapter 10, ramp profiles, drivers and the oven program, over exact rational numbers
    (\<open>rat_ramp\<close>) and over numbers rounded to 53 bits (\<open>rounded_ramp\<close>).
  \<^item> \<open>WeatherCipher\<close>: Chapter 18. The cryptographic library is a record of functions (\<open>ascon_aead128\<close>);
    protecting, restoring, and the demonstrations of the programs, for every library that keeps its promise.
  \<^item> \<open>HeapMonitor\<close>: the counters of the tool as atomic steps of any number of threads, and the layout of
    its blocks. \<open>MemoryDemo\<close>: the scenarios of Chapter 8 under these counters; a container is its elements and its
    capacity, and the locale \<open>monotonic_resource\<close> says why pushing into a fixed arena comes to an end.
  \<^item> \<open>ReadinessMonitor\<close>: Chapter 3, \<open>nmea_monitor.cpp\<close> over the sources of \<open>Receivers\<close>. The kernel is a list with
    one entry for each return of \<open>epoll_wait\<close>; every line that is received is printed, in order, and counted.
  \<^item> \<open>NmeaSim\<close>: the simulator \<open>Tools/nmea_sim\<close>: sentences and their faults, the schedule of its streams, endpoints and
    main loop. The library's random numbers and functions are the record \<open>sim_lib\<close>, with the laws \<open>sim_laws\<close>; the
    tokenizer is the judge of what it sends.
  \<^item> \<open>MeasurementGenerator\<close>: \<open>Tools/measurement_generator\<close>, with the random engine as the record \<open>random_lib\<close>. The
    file it writes is accepted by the program of \<open>FilterPipeline\<close>.

  \<^bold>\<open>Conventions.\<close> Unsigned integers are words of their width; \<open>size_t\<close> is a natural number, because the
  buffers in question are far smaller than the address space. An enumeration read from the wire stays a
  number where the code casts without a check. Floating-point numbers are bit patterns or values
  of a record \<open>binary64\<close> of the library's functions on them; statements about exact values are proved on its
  instance \<open>rat_db\<close>, rational numbers. A pointer with a length is a list of bytes, an out parameter is
  passed in and returned, a failure is a status or \<open>None\<close>. The byte order of the machine is a parameter,
  so that what is proved holds on both kinds.

  \<^bold>\<open>Code outside the repository.\<close> The operating system is a record of functions on a world of any type.
  The laws used of it are named hypotheses: a write that succeeds appends what it reports, a rename is
  atomic, a call is not interrupted for ever. The last is a measure that \<open>EINTR\<close> decreases, and it
  is needed only for the claim that the file operations return. Each law is shown to be satisfiable by a
  file system in memory (\<open>mem_os\<close>).

  \<^bold>\<open>Loops.\<close> Loops over data are structural recursions, except for the two loops that call the operating
  system until a file is complete (\<open>writeAll\<close>, \<open>readAll\<close>): these are partial functions, and
  \<open>file_calls_return\<close> shows that they return. So is the loop of the oven program, which ends when its ramps
  do (\<open>oven_program_returns\<close>), and the endless loop of the exhaustion scenario, which ends with the memory
  (\<open>push_until_full_returns\<close>). The event loops of \<open>ReadinessMonitor\<close> and \<open>NmeaSim\<close> are recursions over what the kernel or the
  clock answers, and \<open>None\<close> is a program that still waits; command lines and the retries of a UART write end by a measure. The retry of a compare-and-exchange in \<open>HeapMonitor\<close> is a step, and
  \<open>peak_retry_progress\<close> says that it is repeated only when another thread made progress. The threads of \<open>QueueThreads\<close> and \<open>StartupLab\<close> and the lab of
  \<open>RetrySystem\<close> are inductive step relations; the invariants are proved by rule induction, and
  \<open>startup_never_stuck\<close> and \<open>client_stops\<close> bound the number of steps.

  \<^bold>\<open>Not modelled.\<close> Time itself, and the programs whose only result is a measurement of it (Chapter 4, Chapter 6,
  \<open>clock_monitor\<close> of Chapter 14); what the main programs merely print; the test programs; headers that
  hold only interfaces or declarations, whose methods are modelled where they are implemented; the copy of the Chapter 12 programs in
  \<open>retry_lab\<close>, an older state of the same files; \<open>wind_speed_tx.cpp\<close> of Chapter 14, which uses names that no header
  declares and is not built. The cryptographic library of Chapter 18 is a submodule: a parameter with laws.
\<close>

end
